(* ===== verification/Pulse_Prelude.thy ===== *)
theory Pulse_Prelude
  imports Complex_Main "HOL-Library.Word" "HOL-Library.Product_Lexorder" "HOL-Library.List_Lexorder"
    "HOL-Library.Char_ord" "HOL-Library.Option_ord"
begin

text \<open>
  Shared vocabulary of the development: Rust's \<open>Result\<close> as a sum with the \<open>?\<close> operator as
  \<open>and_then\<close>, bounded integers with their checked and saturating operations, and the list-backed
  tables that stand for the SQLite tables of \<open>src/src/pulse/store\<close>. A table is the list of its
  rows in row-id order; every statement the store runs is one of the operations below.
\<close>

named_theorems table_simps \<open>how the table operations act on membership, counts and keys\<close>
named_theorems result_simps \<open>inversion of the Result combinators\<close>

section \<open>Results\<close>

definition and_then :: "'e + 'a \<Rightarrow> ('a \<Rightarrow> 'e + 'b) \<Rightarrow> 'e + 'b" where
  "and_then r f = (case r of Inl e \<Rightarrow> Inl e | Inr v \<Rightarrow> f v)"

definition ensure :: "bool \<Rightarrow> 'e \<Rightarrow> 'e + unit" where
  "ensure ok e = (if ok then Inr () else Inl e)"

definition map_ok :: "('a \<Rightarrow> 'b) \<Rightarrow> 'e + 'a \<Rightarrow> 'e + 'b" where
  "map_ok f r = (case r of Inl e \<Rightarrow> Inl e | Inr v \<Rightarrow> Inr (f v))"

definition is_ok :: "'e + 'a \<Rightarrow> bool" where
  "is_ok r = (case r of Inl _ \<Rightarrow> False | Inr _ \<Rightarrow> True)"

definition ok_or :: "'e \<Rightarrow> 'a option \<Rightarrow> 'e + 'a" where
  "ok_or e v = (case v of None \<Rightarrow> Inl e | Some x \<Rightarrow> Inr x)"

text \<open>A \<open>for\<close> loop whose body uses \<open>?\<close>: the first error leaves the loop.\<close>

fun try_each :: "('a \<Rightarrow> 'e + unit) \<Rightarrow> 'a list \<Rightarrow> 'e + unit" where
  "try_each f [] = Inr ()"
| "try_each f (x # xs) = and_then (f x) (\<lambda>_. try_each f xs)"

fun try_map :: "('a \<Rightarrow> 'e + 'b) \<Rightarrow> 'a list \<Rightarrow> 'e + 'b list" where
  "try_map f [] = Inr []"
| "try_map f (x # xs) = and_then (f x) (\<lambda>y. map_ok (\<lambda>ys. y # ys) (try_map f xs))"

fun try_fold :: "('a \<Rightarrow> 's \<Rightarrow> 'e + 's) \<Rightarrow> 'a list \<Rightarrow> 's \<Rightarrow> 'e + 's" where
  "try_fold f [] s = Inr s"
| "try_fold f (x # xs) s = and_then (f x s) (try_fold f xs)"

lemma and_then_simps [simp]:
  "and_then (Inl e) f = Inl e"
  "and_then (Inr v) f = f v"
  by (simp_all add: and_then_def)

lemma map_ok_simps [simp]:
  "map_ok f (Inl e) = Inl e"
  "map_ok f (Inr v) = Inr (f v)"
  by (simp_all add: map_ok_def)

lemma is_ok_simps [simp]:
  "is_ok (Inl e) = False"
  "is_ok (Inr v) = True"
  by (simp_all add: is_ok_def)

lemma ensure_simps [simp]:
  "ensure True e = Inr ()"
  "ensure False e = Inl e"
  by (simp_all add: ensure_def)

lemma ok_or_simps [simp]:
  "ok_or e None = Inl e"
  "ok_or e (Some x) = Inr x"
  by (simp_all add: ok_or_def)

lemma and_then_Inr [result_simps]:
  "and_then r f = Inr y \<longleftrightarrow> (\<exists>x. r = Inr x \<and> f x = Inr y)"
  by (cases r) auto

lemma and_then_Inl [result_simps]:
  "and_then r f = Inl e \<longleftrightarrow> r = Inl e \<or> (\<exists>x. r = Inr x \<and> f x = Inl e)"
  by (cases r) auto

lemma map_ok_Inr [result_simps]: "map_ok f r = Inr y \<longleftrightarrow> (\<exists>x. r = Inr x \<and> y = f x)"
  by (cases r) auto

lemma map_ok_Inl [result_simps]: "map_ok f r = Inl e \<longleftrightarrow> r = Inl e"
  by (cases r) auto

lemma ensure_Inr [result_simps]: "ensure b e = Inr u \<longleftrightarrow> b"
  by (cases b) auto

lemma ensure_Inl [result_simps]: "ensure b e = Inl e' \<longleftrightarrow> \<not> b \<and> e' = e"
  by (cases b) auto

lemma ok_or_Inr [result_simps]: "ok_or e v = Inr x \<longleftrightarrow> v = Some x"
  by (cases v) auto

lemma ok_or_Inl [result_simps]: "ok_or e v = Inl e' \<longleftrightarrow> v = None \<and> e' = e"
  by (cases v) auto

lemma is_ok_iff [result_simps]: "is_ok r \<longleftrightarrow> (\<exists>v. r = Inr v)"
  by (cases r) auto

lemma try_each_Inr [result_simps]:
  "try_each f xs = Inr u \<longleftrightarrow> (\<forall>x \<in> set xs. f x = Inr ())"
  by (induction xs) (auto simp: and_then_Inr)

lemma try_map_length: "try_map f xs = Inr ys \<Longrightarrow> length ys = length xs"
  by (induction xs arbitrary: ys) (auto simp: result_simps)

lemma try_map_mem: "try_map f xs = Inr ys \<Longrightarrow> y \<in> set ys \<Longrightarrow> \<exists>x \<in> set xs. f x = Inr y"
  by (induction xs arbitrary: ys) (auto simp: result_simps)

lemma try_map_ok_all: "(\<And>x. x \<in> set xs \<Longrightarrow> f x = Inr (g x)) \<Longrightarrow> try_map f xs = Inr (map g xs)"
  by (induction xs) auto

text \<open>An invariant that every iteration keeps holds at the end of the loop.\<close>

lemma try_fold_invariant:
  assumes "try_fold f xs s = Inr s'" and "P s"
    and "\<And>x t t'. x \<in> set xs \<Longrightarrow> P t \<Longrightarrow> f x t = Inr t' \<Longrightarrow> P t'"
  shows "P s'"
  using assms
proof (induction xs arbitrary: s)
  case Nil
  then show ?case by simp
next
  case (Cons x xs)
  then obtain t where t: "f x s = Inr t" "try_fold f xs t = Inr s'"
    by (auto simp: result_simps)
  have "P t" using Cons.prems(2,3) t(1) by (meson list.set_intros(1))
  then show ?case using Cons.IH [OF t(2)] Cons.prems(3) by (meson list.set_intros(2))
qed

section \<open>Machine integers\<close>

text \<open>
  \<open>i64\<close> is \<open>int\<close>, \<open>u64\<close>, \<open>u32\<close> and \<open>usize\<close> are \<open>nat\<close>, with the bounds written out wherever the
  code checks or saturates. Bit mixing (\<open>splitmix64\<close>) uses \<open>64 word\<close>.
\<close>

type_synonym i64 = int
type_synonym u64 = nat

definition i64_max :: int where "i64_max = 9223372036854775807"
definition i64_min :: int where "i64_min = -9223372036854775808"
definition u64_max :: nat where "u64_max = 18446744073709551615"
definition u32_max :: nat where "u32_max = 4294967295"

definition i64_ok :: "int \<Rightarrow> bool" where
  "i64_ok v \<longleftrightarrow> i64_min \<le> v \<and> v \<le> i64_max"

definition checked_i64 :: "int \<Rightarrow> int option" where
  "checked_i64 v = (if i64_ok v then Some v else None)"

definition saturate_i64 :: "int \<Rightarrow> int" where
  "saturate_i64 v = max i64_min (min i64_max v)"

definition checked_u64 :: "nat \<Rightarrow> nat option" where
  "checked_u64 v = (if v \<le> u64_max then Some v else None)"

definition saturate_u64 :: "nat \<Rightarrow> nat" where
  "saturate_u64 v = min u64_max v"

lemma checked_i64_Some [simp]: "checked_i64 v = Some w \<longleftrightarrow> i64_ok v \<and> w = v"
  by (auto simp: checked_i64_def)

lemma checked_u64_Some [simp]: "checked_u64 v = Some w \<longleftrightarrow> v \<le> u64_max \<and> w = v"
  by (auto simp: checked_u64_def)

lemma saturate_i64_id [simp]: "i64_ok v \<Longrightarrow> saturate_i64 v = v"
  by (simp add: i64_ok_def saturate_i64_def)

lemma saturate_i64_mono: "v \<le> w \<Longrightarrow> saturate_i64 v \<le> saturate_i64 w"
  by (auto simp: saturate_i64_def)

lemma saturate_u64_le: "saturate_u64 v \<le> u64_max" "saturate_u64 v \<le> v"
  by (simp_all add: saturate_u64_def)

lemma saturate_u64_id: "v \<le> u64_max \<Longrightarrow> saturate_u64 v = v"
  by (simp add: saturate_u64_def)

section \<open>Tables\<close>

definition update_where :: "('r \<Rightarrow> bool) \<Rightarrow> ('r \<Rightarrow> 'r) \<Rightarrow> 'r list \<Rightarrow> 'r list" where
  "update_where p f rows = map (\<lambda>r. if p r then f r else r) rows"

definition delete_where :: "('r \<Rightarrow> bool) \<Rightarrow> 'r list \<Rightarrow> 'r list" where
  "delete_where p rows = filter (\<lambda>r. \<not> p r) rows"

definition count_where :: "('r \<Rightarrow> bool) \<Rightarrow> 'r list \<Rightarrow> nat" where
  "count_where p rows = length (filter p rows)"

definition exists_where :: "('r \<Rightarrow> bool) \<Rightarrow> 'r list \<Rightarrow> bool" where
  "exists_where p rows \<longleftrightarrow> (\<exists>r \<in> set rows. p r)"

lemma find_Some_mem: "find p xs = Some x \<Longrightarrow> x \<in> set xs \<and> p x"
  by (induction xs) (auto split: if_splits)

lemma find_unique:
  assumes "x \<in> set xs" and "p x" and "\<And>y. y \<in> set xs \<Longrightarrow> p y \<Longrightarrow> y = x"
  shows "find p xs = Some x"
proof (cases "find p xs")
  case None
  then show ?thesis using assms(1,2) by (simp add: find_None_iff)
next
  case (Some y)
  then have "y = x" using find_Some_mem [OF Some] assms(3) by simp
  with Some show ?thesis by simp
qed

text \<open>\<open>SELECT ... WHERE p ORDER BY key LIMIT n\<close>.\<close>

definition select_ordered ::
    "('r \<Rightarrow> bool) \<Rightarrow> ('r \<Rightarrow> 'k::linorder) \<Rightarrow> nat \<Rightarrow> 'r list \<Rightarrow> 'r list" where
  "select_ordered p key n rows = take n (sort_key key (filter p rows))"

lemma set_update_where [table_simps]:
  "set (update_where p f rows) = (\<lambda>r. if p r then f r else r) ` set rows"
  by (simp add: update_where_def)

text \<open>An existence property that the update keeps survives it.\<close>

lemma update_where_ex:
  assumes "\<exists>r \<in> set rows. P r" and "\<And>r. r \<in> set rows \<Longrightarrow> P r \<Longrightarrow> p r \<Longrightarrow> P (f r)"
  shows "\<exists>r \<in> set (update_where p f rows). P r"
proof -
  obtain r where r: "r \<in> set rows" "P r" using assms(1) by blast
  then have "(if p r then f r else r) \<in> set (update_where p f rows)"
    unfolding set_update_where by (rule_tac imageI)
  moreover have "P (if p r then f r else r)" using assms(2) [OF r] r(2) by simp
  ultimately show ?thesis by blast
qed

lemma update_where_all:
  assumes "\<forall>r \<in> set rows. P r" and "\<And>r. r \<in> set rows \<Longrightarrow> P r \<Longrightarrow> p r \<Longrightarrow> P (f r)"
  shows "\<forall>r \<in> set (update_where p f rows). P r"
  using assms by (auto simp: set_update_where)

lemma length_update_where [table_simps, simp]: "length (update_where p f rows) = length rows"
  by (simp add: update_where_def)

lemma update_where_Nil [simp]: "update_where p f [] = []"
  by (simp add: update_where_def)

lemma update_where_Cons [simp]:
  "update_where p f (r # rows) = (if p r then f r else r) # update_where p f rows"
  by (simp add: update_where_def)

lemma update_where_none [table_simps]:
  "\<forall>r \<in> set rows. \<not> p r \<Longrightarrow> update_where p f rows = rows"
  by (induction rows) auto

lemma map_update_where [table_simps]:
  "(\<And>r. p r \<Longrightarrow> g (f r) = g r) \<Longrightarrow> map g (update_where p f rows) = map g rows"
  by (induction rows) auto

lemma set_delete_where [table_simps]: "set (delete_where p rows) = {r \<in> set rows. \<not> p r}"
  by (simp add: delete_where_def)

lemma count_where_Nil [simp]: "count_where p [] = 0"
  by (simp add: count_where_def)

lemma count_where_Cons [simp]:
  "count_where p (r # rows) = (if p r then Suc (count_where p rows) else count_where p rows)"
  by (simp add: count_where_def)

lemma count_where_append [table_simps, simp]:
  "count_where p (xs @ ys) = count_where p xs + count_where p ys"
  by (simp add: count_where_def)

lemma count_where_zero [table_simps]: "count_where p rows = 0 \<longleftrightarrow> (\<forall>r \<in> set rows. \<not> p r)"
  by (induction rows) auto

lemma count_where_update [table_simps]:
  "(\<And>r. q r \<Longrightarrow> p (f r) = p r) \<Longrightarrow> count_where p (update_where q f rows) = count_where p rows"
  by (induction rows) auto

lemma count_where_delete_le: "count_where p (delete_where q rows) \<le> count_where p rows"
  by (induction rows) (auto simp: delete_where_def)

lemma count_where_mono: "(\<And>r. p r \<Longrightarrow> q r) \<Longrightarrow> count_where p rows \<le> count_where q rows"
  by (induction rows) (auto simp: le_Suc_eq)

lemma exists_where_iff_count: "exists_where p rows \<longleftrightarrow> 0 < count_where p rows"
  by (simp add: exists_where_def count_where_zero flip: neq0_conv)

lemma set_select_ordered [table_simps]:
  "set (select_ordered p key n rows) \<subseteq> {r \<in> set rows. p r}"
proof -
  have "set (select_ordered p key n rows) \<subseteq> set (sort_key key (filter p rows))"
    unfolding select_ordered_def by (rule set_take_subset)
  then show ?thesis by auto
qed

lemma filter_after_nth:
  fixes key :: "'a \<Rightarrow> 'b::linorder"
  assumes srt: "sorted (map key xs)" and dst: "distinct (map key xs)" and n: "n < length xs"
  shows "filter (\<lambda>x. key (xs ! n) < key x) xs = drop (Suc n) xs"
proof -
  have "filter (\<lambda>x. key (xs ! n) < key x) (take (Suc n) xs) = []"
    using sorted_nth_mono [OF srt] n by (auto simp: filter_empty_conv in_set_conv_nth not_less)
  moreover have "filter (\<lambda>x. key (xs ! n) < key x) (drop (Suc n) xs) = drop (Suc n) xs"
  proof (rule filter_True, rule ballI)
    fix x assume "x \<in> set (drop (Suc n) xs)"
    then obtain j where j: "j < length xs - Suc n" "x = xs ! (Suc n + j)" by (auto simp: in_set_conv_nth)
    then have "key (xs ! n) \<le> key x" using sorted_nth_mono [OF srt, of n "Suc n + j"] by simp
    moreover have "key (xs ! n) \<noteq> key x"
      using j nth_eq_iff_index_eq [OF dst, of n "Suc n + j"] n by simp
    ultimately show "key (xs ! n) < key x" by simp
  qed
  ultimately show ?thesis by (metis append_Nil append_take_drop_id filter_append)
qed

text \<open>The rows after the nth one of a keyset page are the rest of the page.\<close>

lemma keyset_step:
  fixes key :: "'a \<Rightarrow> 'b::linorder"
  assumes d: "distinct (map key (filter P rows))"
    and n: "n < length (sort_key key (filter (\<lambda>r. P r \<and> v < key r) rows))"
  shows "sort_key key (filter (\<lambda>r. P r \<and> key (sort_key key (filter (\<lambda>r. P r \<and> v < key r) rows) ! n) < key r) rows)
    = drop (Suc n) (sort_key key (filter (\<lambda>r. P r \<and> v < key r) rows))"
proof -
  define R where "R = sort_key key (filter (\<lambda>r. P r \<and> v < key r) rows)"
  have "distinct (map key (filter (\<lambda>r. P r \<and> v < key r) rows))"
    using d by (induction rows) (auto split: if_splits)
  then have dst: "distinct (map key R)" by (simp add: R_def distinct_map)
  have n': "n < length R" using n by (simp add: R_def)
  then have "R ! n \<in> set R" by (rule nth_mem)
  then have gt: "v < key (R ! n)" by (auto simp: R_def)
  have "sort_key key (filter (\<lambda>r. P r \<and> key (R ! n) < key r) rows)
      = sort_key key (filter (\<lambda>r. key (R ! n) < key r) (filter (\<lambda>r. P r \<and> v < key r) rows))"
    using gt by (auto intro!: arg_cong [where f = "sort_key key"] filter_cong)
  also have "\<dots> = filter (\<lambda>r. key (R ! n) < key r) R" unfolding R_def by (rule filter_sort [symmetric])
  also have "\<dots> = drop (Suc n) R" by (rule filter_after_nth [OF _ dst n']) (simp add: R_def)
  finally show ?thesis by (simp add: R_def)
qed

lemma sorted_select_ordered: "sorted (map key (select_ordered p key n rows))"
  by (simp add: select_ordered_def flip: take_map)

lemma length_select_ordered: "length (select_ordered p key n rows) \<le> n"
  by (simp add: select_ordered_def)

text \<open>The first selected row is minimal among the rows that match.\<close>

lemma select_ordered_first:
  assumes "x \<in> set rows" and "p x" and "0 < n"
  shows "\<exists>h rest. select_ordered p key n rows = h # rest \<and> key h \<le> key x \<and> h \<in> set rows \<and> p h"
proof -
  have x: "x \<in> set (sort_key key (filter p rows))" using assms(1,2) by simp
  then obtain h rest where h: "sort_key key (filter p rows) = h # rest"
    by (cases "sort_key key (filter p rows)") auto
  have "sorted (map key (sort_key key (filter p rows)))" by simp
  then have "\<forall>y \<in> set (h # rest). key h \<le> key y" by (simp add: h)
  moreover have "x \<in> set (h # rest)" using x by (simp only: h)
  ultimately have "key h \<le> key x" by blast
  moreover have "h \<in> set (sort_key key (filter p rows))" by (simp add: h)
  then have "h \<in> set rows \<and> p h" by simp
  moreover have "select_ordered p key n rows = h # take (n - 1) rest"
    using assms(3) by (simp add: select_ordered_def h take_Cons')
  ultimately show ?thesis by blast
qed

lemma select_ordered_mem:
  "r \<in> set (select_ordered p key n rows) \<Longrightarrow> r \<in> set rows \<and> p r"
  using set_select_ordered [of p key n rows] by auto

lemma distinct_select_ordered: "distinct (map f rows) \<Longrightarrow> distinct (map f (select_ordered p key n rows))"
proof -
  assume d: "distinct (map f rows)"
  then have "distinct (map f (filter p rows))" by (rule distinct_map_filter)
  then have "distinct (filter p rows)" "inj_on f (set (filter p rows))"
    by (auto simp: distinct_map)
  then have "distinct (map f (sort_key key (filter p rows)))"
    by (simp add: distinct_map)
  then show ?thesis by (simp add: select_ordered_def flip: take_map)
qed

lemma count_where_unique:
  assumes "distinct (map key rows)" and "\<And>r. p r \<Longrightarrow> key r = k"
  shows "count_where p rows \<le> 1"
  using assms(1)
proof (induction rows)
  case Nil
  then show ?case by simp
next
  case (Cons r rows)
  have "count_where p rows = 0" if "p r"
  proof -
    have "key r = k" using assms(2) that by blast
    moreover have "key r \<notin> key ` set rows" using Cons.prems by simp
    ultimately have "\<forall>x \<in> set rows. \<not> p x" using assms(2) by (metis imageI)
    then show ?thesis by (simp add: count_where_zero)
  qed
  then show ?case using Cons by auto
qed

text \<open>\<open>INSERT ... ON CONFLICT DO UPDATE\<close>: the matching rows are updated, or the row is appended.\<close>

definition upsert_where :: "('r \<Rightarrow> bool) \<Rightarrow> ('r \<Rightarrow> 'r) \<Rightarrow> 'r \<Rightarrow> 'r list \<Rightarrow> 'r list" where
  "upsert_where p f row rows = (if exists_where p rows then update_where p f rows else rows @ [row])"

lemma upsert_where_all:
  assumes "\<forall>r \<in> set rows. P r" and "\<And>r. r \<in> set rows \<Longrightarrow> P r \<Longrightarrow> p r \<Longrightarrow> P (f r)" and "P row"
  shows "\<forall>r \<in> set (upsert_where p f row rows). P r"
  using update_where_all [of rows P p f] assms by (auto simp: upsert_where_def)

lemma upsert_where_distinct:
  assumes "distinct (map key rows)" and "\<And>r. p r \<longleftrightarrow> key r = key row" and "\<And>r. p r \<Longrightarrow> key (f r) = key r"
  shows "distinct (map key (upsert_where p f row rows))"
proof -
  have m: "map key (update_where p f rows) = map key rows" using assms(3) by (simp add: map_update_where)
  show ?thesis
  proof (cases "exists_where p rows")
    case True
    then show ?thesis using assms(1) m by (simp add: upsert_where_def)
  next
    case False
    then have "key row \<notin> key ` set rows" using assms(2) by (auto simp: exists_where_def)
    then show ?thesis using assms(1) False by (simp add: upsert_where_def)
  qed
qed

lemma upsert_where_filter:
  assumes "\<And>r. r \<in> set rows \<Longrightarrow> p r \<Longrightarrow> \<not> q r \<and> \<not> q (f r)" and "\<not> q row"
  shows "filter q (upsert_where p f row rows) = filter q rows"
proof -
  have "filter q (update_where p f rows) = filter q rows"
    using assms(1) by (induction rows) (auto simp: ball_Un)
  then show ?thesis using assms(2) by (simp add: upsert_where_def)
qed

lemma upsert_where_count:
  assumes "\<And>r. p r \<Longrightarrow> q (f r) = q r"
  shows "count_where q (upsert_where p f row rows) =
    count_where q rows + of_bool (\<not> exists_where p rows \<and> q row)"
proof -
  have "count_where q (update_where p f rows) = count_where q rows"
    using assms by (rule count_where_update)
  then show ?thesis by (simp add: upsert_where_def)
qed

lemma exists_upsert_where:
  assumes "p row" and "\<And>r. p r \<Longrightarrow> p (f r)"
  shows "exists_where p (upsert_where p f row rows)"
proof (cases "exists_where p rows")
  case True
  then obtain r where r: "r \<in> set rows" "p r" by (auto simp: exists_where_def)
  then have "\<exists>r \<in> set (update_where p f rows). p r"
    using assms(2) by (intro update_where_ex) auto
  then show ?thesis using True by (simp add: upsert_where_def exists_where_def)
next
  case False
  then show ?thesis using assms(1) by (auto simp: upsert_where_def exists_where_def)
qed

lemma find_update_where:
  assumes "\<And>r. p r \<Longrightarrow> p (f r)"
  shows "find p (update_where p f rows) = map_option f (find p rows)"
  using assms by (induction rows) auto

lemma find_upsert_where:
  assumes "p row" and "\<And>r. p r \<Longrightarrow> p (f r)"
  shows "find p (upsert_where p f row rows) =
    Some (case find p rows of None \<Rightarrow> row | Some r \<Rightarrow> f r)"
proof (cases "find p rows")
  case None
  then have "\<not> exists_where p rows" by (auto simp: find_None_iff exists_where_def)
  moreover have "find p (rows @ [row]) = Some row"
    using None assms(1) by (induction rows) (auto split: if_splits)
  ultimately show ?thesis using None by (simp add: upsert_where_def)
next
  case (Some r)
  then have "exists_where p rows" using find_Some_mem [OF Some] by (auto simp: exists_where_def)
  then show ?thesis using Some find_update_where [of p f rows, OF assms(2)] by (simp add: upsert_where_def)
qed

text \<open>Looking up another key is not affected.\<close>

lemma find_upsert_other:
  assumes "\<And>r. p r \<Longrightarrow> \<not> q r \<and> \<not> q (f r)" and "\<not> q row"
  shows "find q (upsert_where p f row rows) = find q rows"
proof -
  have "find q (update_where p f rows) = find q rows"
    using assms(1) by (induction rows) auto
  moreover have "find q (rows @ [row]) = find q rows"
    using assms(2) by (induction rows) auto
  ultimately show ?thesis by (simp add: upsert_where_def)
qed

end
