(* ===== verification/Pulse_Base.thy ===== *)
theory Pulse_Base
  imports Pulse_Prelude
begin

text \<open>
  The error and time layer: \<open>src/src/pulse/error.rs\<close> (error kinds, their retry class and their
  control-plane class) and \<open>src/src/pulse/time.rs\<close> (instants as epoch milliseconds). The range of
  instants jiff accepts is not fixed by this repository, so operations that construct an instant
  from an arbitrary integer take the range test \<open>ts_ok\<close> as an argument.
\<close>

section \<open>Errors\<close>

datatype pulse_error_kind =
    InvalidInput | NotFound | Conflict | Offline | Authentication
  | RateLimited | Upstream | Storage | Configuration | Internal

text \<open>The control-plane categories of \<open>src/src/control.rs\<close>.\<close>

datatype control_error_kind =
    CtlBadRequest | CtlNotFound | CtlConflict | CtlOffline | CtlUpstream | CtlInternal

definition is_retryable :: "pulse_error_kind \<Rightarrow> bool" where
  "is_retryable k = (case k of
      Offline \<Rightarrow> True | RateLimited \<Rightarrow> True | Upstream \<Rightarrow> True | Storage \<Rightarrow> True | _ \<Rightarrow> False)"

fun control_kind :: "pulse_error_kind \<Rightarrow> control_error_kind" where
  "control_kind InvalidInput = CtlBadRequest"
| "control_kind NotFound = CtlNotFound"
| "control_kind Conflict = CtlConflict"
| "control_kind Offline = CtlOffline"
| "control_kind Authentication = CtlUpstream"
| "control_kind RateLimited = CtlUpstream"
| "control_kind Upstream = CtlUpstream"
| "control_kind Storage = CtlInternal"
| "control_kind Configuration = CtlInternal"
| "control_kind Internal = CtlInternal"

record pulse_error =
  err_kind :: pulse_error_kind
  err_message :: string

type_synonym 'a pulse_result = "pulse_error + 'a"

definition new_error :: "pulse_error_kind \<Rightarrow> string \<Rightarrow> pulse_error" where
  "new_error k msg = \<lparr>err_kind = k, err_message = msg\<rparr>"

definition invalid_input :: "string \<Rightarrow> pulse_error" where
  "invalid_input msg = new_error InvalidInput msg"

definition configuration :: "string \<Rightarrow> pulse_error" where
  "configuration msg = new_error Configuration msg"

lemma err_kind_new [simp]:
  "err_kind (new_error k msg) = k"
  "err_kind (invalid_input msg) = InvalidInput"
  "err_kind (configuration msg) = Configuration"
  by (simp_all add: new_error_def invalid_input_def configuration_def)

section \<open>Instants\<close>

type_synonym instant = int

definition instant_from_epoch_millis :: "(int \<Rightarrow> bool) \<Rightarrow> int \<Rightarrow> instant pulse_result" where
  "instant_from_epoch_millis ts_ok v =
     map_ok (\<lambda>_. v) (ensure (ts_ok v) (invalid_input ''invalid epoch millisecond instant''))"

end
