(* ===== verification/Pulse_Text.thy ===== *)
theory Pulse_Text
  imports Pulse_Base
begin

text \<open>
  Text and numbers as the Rust standard library treats them. A \<open>String\<close> is its UTF-8 byte
  sequence (a list of \<open>char\<close>, so \<open>len()\<close> is \<open>length\<close>); \<open>code_points\<close> decodes it for the
  operations that look at Unicode scalar values (\<open>char::is_control\<close>, \<open>trim\<close>). Decimal printing
  and parsing of integers, splitting at a separator, and finite, infinite and NaN \<open>f64\<close> values.
\<close>

section \<open>Unicode\<close>

definition byte_of :: "char \<Rightarrow> nat" where
  "byte_of c = of_char c"

fun decode_utf8 :: "nat list \<Rightarrow> nat list" where
  "decode_utf8 [] = []"
| "decode_utf8 (b # bs) =
     (if b < 192 then b # decode_utf8 bs
      else if b < 224 then
        ((b mod 32) * 64 + hd (bs @ [0]) mod 64) # decode_utf8 (drop 1 bs)
      else if b < 240 then
        ((b mod 16) * 4096 + (hd (bs @ [0]) mod 64) * 64 + hd (drop 1 bs @ [0]) mod 64)
          # decode_utf8 (drop 2 bs)
      else
        ((b mod 8) * 262144 + (hd (bs @ [0]) mod 64) * 4096 + (hd (drop 1 bs @ [0]) mod 64) * 64
           + hd (drop 2 bs @ [0]) mod 64) # decode_utf8 (drop 3 bs))"

definition code_points :: "string \<Rightarrow> nat list" where
  "code_points s = decode_utf8 (map byte_of s)"

text \<open>\<open>char::is_control\<close> is the general category Cc.\<close>

definition is_control :: "nat \<Rightarrow> bool" where
  "is_control c \<longleftrightarrow> c < 32 \<or> 127 \<le> c \<and> c < 160"

text \<open>\<open>char::is_whitespace\<close> is the Unicode property White_Space.\<close>

definition is_whitespace :: "nat \<Rightarrow> bool" where
  "is_whitespace c \<longleftrightarrow>
     9 \<le> c \<and> c \<le> 13 \<or> c = 32 \<or> c = 133 \<or> c = 160 \<or> c = 5760 \<or> 8192 \<le> c \<and> c \<le> 8202
     \<or> c = 8232 \<or> c = 8233 \<or> c = 8239 \<or> c = 8287 \<or> c = 12288"

text \<open>\<open>value.trim() == value\<close>: neither the first nor the last scalar value is whitespace.\<close>

definition is_trimmed :: "string \<Rightarrow> bool" where
  "is_trimmed s =
     (case code_points s of [] \<Rightarrow> True
      | c # cs \<Rightarrow> \<not> is_whitespace c \<and> \<not> is_whitespace (last (c # cs)))"

definition has_control :: "string \<Rightarrow> bool" where
  "has_control s \<longleftrightarrow> list_ex is_control (code_points s)"

definition is_ascii_lower :: "char \<Rightarrow> bool" where
  "is_ascii_lower c \<longleftrightarrow> 97 \<le> byte_of c \<and> byte_of c \<le> 122"

definition is_ascii_digit :: "char \<Rightarrow> bool" where
  "is_ascii_digit c \<longleftrightarrow> 48 \<le> byte_of c \<and> byte_of c \<le> 57"

definition is_ascii_alphabetic :: "char \<Rightarrow> bool" where
  "is_ascii_alphabetic c \<longleftrightarrow> is_ascii_lower c \<or> 65 \<le> byte_of c \<and> byte_of c \<le> 90"

definition is_ascii_alphanumeric :: "char \<Rightarrow> bool" where
  "is_ascii_alphanumeric c \<longleftrightarrow> is_ascii_alphabetic c \<or> is_ascii_digit c"

text \<open>A control byte below 128 is seen by the decoder wherever a character starts.\<close>

lemma decode_ascii: "\<forall>b \<in> set bs. b < 128 \<Longrightarrow> decode_utf8 bs = bs"
  by (induction bs) auto

section \<open>Decimal text\<close>

definition digit_char :: "nat \<Rightarrow> char" where
  "digit_char d = char_of (48 + d)"

fun show_nat :: "nat \<Rightarrow> string" where
  "show_nat n = (if n < 10 then [digit_char n] else show_nat (n div 10) @ [digit_char (n mod 10)])"

declare show_nat.simps [simp del]

definition show_int :: "int \<Rightarrow> string" where
  "show_int v = (if v < 0 then CHR ''-'' # show_nat (nat (- v)) else show_nat (nat v))"

fun parse_digits :: "nat \<Rightarrow> string \<Rightarrow> nat option" where
  "parse_digits acc [] = Some acc"
| "parse_digits acc (c # cs) =
     (if is_ascii_digit c then parse_digits (acc * 10 + (byte_of c - 48)) cs else None)"

definition parse_nat :: "string \<Rightarrow> nat option" where
  "parse_nat s = (if s = [] then None else parse_digits 0 s)"

text \<open>\<open>str::parse::<i64>\<close>: an optional sign, at least one digit, and no overflow.\<close>

definition parse_i64 :: "string \<Rightarrow> int option" where
  "parse_i64 s =
     (case s of
        [] \<Rightarrow> None
      | c # cs \<Rightarrow>
          (let r = (if c = CHR ''-'' then map_option (\<lambda>n. - int n) (parse_nat cs)
                    else if c = CHR ''+'' then map_option int (parse_nat cs)
                    else map_option int (parse_nat s))
           in (case r of None \<Rightarrow> None | Some v \<Rightarrow> if i64_ok v then Some v else None)))"

text \<open>\<open>str::split_once\<close> at one character.\<close>

definition split_once :: "char \<Rightarrow> string \<Rightarrow> (string \<times> string) option" where
  "split_once c s =
     (case dropWhile (\<lambda>x. x \<noteq> c) s of
        [] \<Rightarrow> None
      | _ # rest \<Rightarrow> Some (takeWhile (\<lambda>x. x \<noteq> c) s, rest))"

definition strip_prefix :: "string \<Rightarrow> string \<Rightarrow> string option" where
  "strip_prefix p s = (if take (length p) s = p then Some (drop (length p) s) else None)"

definition starts_with :: "string \<Rightarrow> string \<Rightarrow> bool" where
  "starts_with p s \<longleftrightarrow> take (length p) s = p"

lemma byte_of_digit: "d < 10 \<Longrightarrow> byte_of (digit_char d) = 48 + d"
  by (simp add: byte_of_def digit_char_def)

lemma digit_char_ascii: "d < 10 \<Longrightarrow> is_ascii_digit (digit_char d)"
  by (simp add: is_ascii_digit_def byte_of_digit)

lemma parse_digits_append:
  "parse_digits acc (xs @ ys) =
     (case parse_digits acc xs of None \<Rightarrow> None | Some a \<Rightarrow> parse_digits a ys)"
  by (induction xs arbitrary: acc) auto

lemma parse_digits_show: "parse_digits 0 (show_nat n) = Some n"
proof (induction n rule: show_nat.induct)
  case (1 n)
  show ?case
  proof (cases "n < 10")
    case True
    then show ?thesis
      by (simp add: show_nat.simps [of n] digit_char_ascii byte_of_digit)
  next
    case False
    have "show_nat n = show_nat (n div 10) @ [digit_char (n mod 10)]"
      using False by (subst show_nat.simps) simp
    moreover have "n mod 10 < 10" by simp
    ultimately show ?thesis
      using 1 [OF False]
      by (simp add: parse_digits_append digit_char_ascii byte_of_digit)
  qed
qed

lemma show_nat_digits: "c \<in> set (show_nat n) \<Longrightarrow> is_ascii_digit c"
proof (induction n rule: show_nat.induct)
  case (1 n)
  then show ?case
    by (cases "n < 10") (auto simp: show_nat.simps [of n] digit_char_ascii)
qed

lemma show_nat_nonempty: "show_nat n \<noteq> []"
  by (subst show_nat.simps) simp

lemma parse_show_nat: "parse_nat (show_nat n) = Some n"
  by (simp add: parse_nat_def show_nat_nonempty parse_digits_show)

lemma minus_not_digit: "\<not> is_ascii_digit CHR ''-''" "\<not> is_ascii_digit CHR ''+''"
  by (simp_all add: is_ascii_digit_def byte_of_def)

lemma parse_show_i64: "i64_ok v \<Longrightarrow> parse_i64 (show_int v) = Some v"
proof (cases "v < 0")
  case True
  assume "i64_ok v"
  with True show ?thesis by (simp add: show_int_def parse_i64_def parse_show_nat)
next
  case False
  assume ok: "i64_ok v"
  obtain c cs where c: "show_nat (nat v) = c # cs"
    using show_nat_nonempty by (cases "show_nat (nat v)") auto
  then have "is_ascii_digit c" using show_nat_digits [of c "nat v"] by simp
  then have "c \<noteq> CHR ''-''" "c \<noteq> CHR ''+''" using minus_not_digit by auto
  with False ok c show ?thesis
    using parse_show_nat [of "nat v"] by (simp add: show_int_def parse_i64_def)
qed

lemma split_once_append:
  "c \<notin> set xs \<Longrightarrow> split_once c (xs @ c # ys) = Some (xs, ys)"
proof -
  assume "c \<notin> set xs"
  then have "dropWhile (\<lambda>x. x \<noteq> c) (xs @ c # ys) = c # ys"
    and "takeWhile (\<lambda>x. x \<noteq> c) (xs @ c # ys) = xs"
    by (induction xs) auto
  then show ?thesis by (simp add: split_once_def)
qed

lemma strip_prefix_append [simp]: "strip_prefix p (p @ s) = Some s"
  by (simp add: strip_prefix_def)

lemma strip_prefix_Some: "strip_prefix p s = Some r \<longleftrightarrow> s = p @ r"
  by (auto simp: strip_prefix_def) (metis append_take_drop_id)

section \<open>Floating point\<close>

text \<open>
  An \<open>f64\<close> is NaN, an infinity or the rational number it denotes. Comparisons are exact on these;
  the two zeros are not told apart.
\<close>

datatype f64 = NaN | Infinite bool | Finite rat

definition f64_in_range :: "rat \<Rightarrow> rat \<Rightarrow> f64 \<Rightarrow> rat option" where
  "f64_in_range lo hi v =
     (case v of Finite r \<Rightarrow> if lo \<le> r \<and> r \<le> hi then Some r else None | _ \<Rightarrow> None)"


text \<open>
  \<open>format!("{:.d}")\<close> of a nonnegative value: the nearest decimal with \<open>d\<close> digits, ties to even.
\<close>

definition round_half_even :: "rat \<Rightarrow> int" where
  "round_half_even r =
     (let whole = floor r; rest = r - of_int whole in
      if rest < 1 / 2 then whole
      else if 1 / 2 < rest then whole + 1
      else if even whole then whole else whole + 1)"

definition format_fixed :: "nat \<Rightarrow> rat \<Rightarrow> string" where
  "format_fixed d r =
     (let s = show_nat (nat (round_half_even (r * 10 ^ d)));
          padded = replicate (d + 1 - length s) (CHR ''0'') @ s
      in take (length padded - d) padded @ ''.'' @ drop (length padded - d) padded)"


lemma show_nat_length: "n < 10 ^ k \<Longrightarrow> 0 < k \<Longrightarrow> length (show_nat n) \<le> k"
proof (induction k arbitrary: n)
  case (Suc k)
  show ?case
  proof (cases "n < 10")
    case True
    then show ?thesis by (simp add: show_nat.simps [of n])
  next
    case False
    then have "0 < k" using Suc.prems(1) by (cases k) auto
    moreover have "n div 10 < 10 ^ k" using Suc.prems(1) by (simp add: less_mult_imp_div_less mult.commute)
    ultimately have "length (show_nat (n div 10)) \<le> k" by (intro Suc.IH)
    then show ?thesis using False by (simp add: show_nat.simps [of n])
  qed
qed simp

lemma round_half_even_le: "r \<le> of_int n \<Longrightarrow> round_half_even r \<le> n"
proof -
  assume r: "r \<le> of_int n"
  show ?thesis
  proof (cases "floor r < n")
    case True
    then show ?thesis by (auto simp: round_half_even_def Let_def)
  next
    case False
    moreover have "floor r \<le> n" using r by (simp add: floor_le_iff)
    ultimately have f: "floor r = n" by simp
    then have "of_int n \<le> r" by (metis of_int_floor_le)
    with r have "r = of_int n" by simp
    then show ?thesis by (simp add: round_half_even_def Let_def)
  qed
qed

lemma format_fixed_length:
  assumes "r \<le> of_int n" and "n * 10 ^ d < 10 ^ k" and "d < k"
  shows "length (format_fixed d r) \<le> k + 1"
proof -
  have "r * 10 ^ d \<le> of_int (n * 10 ^ d)" using assms(1) by (simp add: mult_right_mono)
  then have "round_half_even (r * 10 ^ d) \<le> n * 10 ^ d" by (rule round_half_even_le)
  then have "round_half_even (r * 10 ^ d) < 10 ^ k" using assms(2) by simp
  then have "nat (round_half_even (r * 10 ^ d)) < 10 ^ k"
    by (cases "0 \<le> round_half_even (r * 10 ^ d)") (auto simp: nat_less_iff)
  then have "length (show_nat (nat (round_half_even (r * 10 ^ d)))) \<le> k"
    using assms(3) by (intro show_nat_length) auto
  moreover have split: "length (take m p @ ''.'' @ drop m p) = length p + 1" for m and p :: string
    by (cases "m \<le> length p") simp_all
  ultimately show ?thesis using assms(3) unfolding format_fixed_def Let_def split by simp
qed

end
