(* ===== verification/Pulse_Scheduler.thy ===== *)
theory Pulse_Scheduler
  imports Pulse_Text
begin

unbundle bit_operations_syntax

text \<open>
  The single Pulse scheduler, \<open>src/src/pulse/scheduler.rs\<close>: job kinds, validated settings, the
  pure schedule state (\<open>ScheduleState\<close>) with its \<open>take_due\<close>, \<open>finished\<close> and \<open>next_deadline\<close>, the
  deterministic jitter, and the run loop as one function per iteration: take the due jobs, spawn
  one task each, then handle the one event \<open>tokio::select!\<close> picked. The clock readings and the
  event are arguments, so the theorems hold for every order of events.
\<close>

section \<open>Jobs and targets\<close>

datatype force_poll_target = ForcePollTarget (fpt_account: int) (fpt_profile: "string option")

text \<open>The derived \<open>Ord\<close>: account first, then profile with \<open>None\<close> before \<open>Some\<close>.\<close>

instantiation force_poll_target :: linorder
begin

definition less_eq_force_poll_target :: "force_poll_target \<Rightarrow> force_poll_target \<Rightarrow> bool" where
  "less_eq_force_poll_target a b \<longleftrightarrow>
     (fpt_account a, fpt_profile a) \<le> (fpt_account b, fpt_profile b)"

definition less_force_poll_target :: "force_poll_target \<Rightarrow> force_poll_target \<Rightarrow> bool" where
  "less_force_poll_target a b \<longleftrightarrow>
     (fpt_account a, fpt_profile a) < (fpt_account b, fpt_profile b)"

instance
  by standard
    (auto simp: less_eq_force_poll_target_def less_force_poll_target_def
       intro: force_poll_target.expand)

end

definition target_account :: "int \<Rightarrow> force_poll_target" where
  "target_account account_id = ForcePollTarget account_id None"

definition target_profile :: "int \<Rightarrow> string \<Rightarrow> force_poll_target" where
  "target_profile account_id profile = ForcePollTarget account_id (Some profile)"

datatype pulse_job =
    Usage | Context | Tokens | Gemini | Retention | CompletionPush | ForcePoll force_poll_target

definition periodic_jobs :: "pulse_job list" where
  "periodic_jobs = [Usage, Context, Tokens, Gemini, Retention]"

fun periodic_index :: "pulse_job \<Rightarrow> nat option" where
  "periodic_index Usage = Some 0"
| "periodic_index Context = Some 1"
| "periodic_index Tokens = Some 2"
| "periodic_index Gemini = Some 3"
| "periodic_index Retention = Some 4"
| "periodic_index CompletionPush = None"
| "periodic_index (ForcePoll t) = None"

record job_report =
  attempted :: nat
  succeeded :: nat
  failed :: nat

definition one_success :: job_report where
  "one_success = \<lparr>attempted = 1, succeeded = 1, failed = 0\<rparr>"

definition one_failure :: job_report where
  "one_failure = \<lparr>attempted = 1, succeeded = 0, failed = 1\<rparr>"

definition combine_reports :: "job_report \<Rightarrow> job_report \<Rightarrow> job_report" where
  "combine_reports a b =
     \<lparr>attempted = saturate_u64 (attempted a + attempted b),
      succeeded = saturate_u64 (succeeded a + succeeded b),
      failed = saturate_u64 (failed a + failed b)\<rparr>"

section \<open>Settings\<close>

record schedule_config =
  cfg_usage :: nat
  cfg_context :: nat
  cfg_tokens :: nat
  cfg_gemini :: nat
  cfg_retention :: nat
  cfg_jitter_percent :: nat
  cfg_token_lookback_days :: nat

definition default_schedule_config :: schedule_config where
  "default_schedule_config =
     \<lparr>cfg_usage = 15 * 60, cfg_context = 2 * 60, cfg_tokens = 30 * 60, cfg_gemini = 30 * 60,
      cfg_retention = 60 * 60, cfg_jitter_percent = 10, cfg_token_lookback_days = 2\<rparr>"

record scheduler_settings =
  intervals_millis :: "nat list"
  enabled :: "bool list"
  completion_after_collection :: bool
  jitter_percent :: nat
  max_concurrency :: nat

definition settings_new :: "nat list \<Rightarrow> nat \<Rightarrow> nat \<Rightarrow> scheduler_settings pulse_result" where
  "settings_new intervals jitter concurrency =
     (if 0 \<in> set intervals
      then Inl (configuration ''Pulse scheduler intervals must be nonzero'')
      else if jitter > 50
      then Inl (configuration ''Pulse scheduler jitter cannot exceed 50 percent'')
      else if \<not> (1 \<le> concurrency \<and> concurrency \<le> 8)
      then Inl (configuration ''Pulse scheduler concurrency must be between 1 and 8'')
      else Inr \<lparr>intervals_millis = intervals, enabled = replicate 5 True,
                completion_after_collection = False, jitter_percent = jitter,
                max_concurrency = concurrency\<rparr>)"

definition interval_of :: "scheduler_settings \<Rightarrow> pulse_job \<Rightarrow> nat option" where
  "interval_of settings job =
     (case periodic_index job of None \<Rightarrow> None | Some i \<Rightarrow> Some (intervals_millis settings ! i))"

definition with_capabilities :: "scheduler_settings \<Rightarrow> bool \<Rightarrow> bool \<Rightarrow> scheduler_settings" where
  "with_capabilities settings collect completion =
     settings\<lparr>enabled := [collect, collect, collect, collect, True],
              completion_after_collection := collect \<and> completion\<rparr>"

definition is_enabled :: "scheduler_settings \<Rightarrow> pulse_job \<Rightarrow> bool" where
  "is_enabled settings job =
     (case periodic_index job of Some i \<Rightarrow> enabled settings ! i | None \<Rightarrow> True)"


definition schedule_floors :: "schedule_config \<Rightarrow> (string \<times> nat \<times> nat) list" where
  "schedule_floors c =
     [(''usage'', cfg_usage c, 5 * 60), (''context'', cfg_context c, 30),
      (''tokens'', cfg_tokens c, 5 * 60), (''gemini'', cfg_gemini c, 30),
      (''retention'', cfg_retention c, 60)]"

definition validate_schedule_config :: "schedule_config \<Rightarrow> unit pulse_result" where
  "validate_schedule_config c =
     and_then
       (try_each (\<lambda>(name, value, minimum).
          ensure (\<not> value < minimum)
            (configuration (''pulse.schedule.'' @ name @ '' must be at least '' @ show_nat minimum
               @ '' seconds''))) (schedule_floors c))
       (\<lambda>_. if cfg_jitter_percent c > 50
            then Inl (configuration ''pulse.schedule.jitter_percent cannot exceed 50'')
            else if \<not> (1 \<le> cfg_token_lookback_days c \<and> cfg_token_lookback_days c \<le> 31)
            then Inl (configuration ''pulse.schedule.token_lookback_days must be between 1 and 31'')
            else Inr ())"

definition settings_from_config :: "schedule_config \<Rightarrow> scheduler_settings pulse_result" where
  "settings_from_config c =
     and_then (validate_schedule_config c) (\<lambda>_.
     and_then
       (try_map (\<lambda>seconds. ok_or (configuration ''Pulse scheduler interval overflowed'')
                             (checked_u64 (seconds * 1000)))
          [cfg_usage c, cfg_context c, cfg_tokens c, cfg_gemini c, cfg_retention c])
       (\<lambda>intervals. settings_new intervals (cfg_jitter_percent c) 2))"

section \<open>Jitter\<close>

definition splitmix64 :: "64 word \<Rightarrow> 64 word" where
  "splitmix64 v0 =
     (let v1 = v0 + 0x9e3779b97f4a7c15;
          v2 = (v1 XOR drop_bit 30 v1) * 0xbf58476d1ce4e5b9;
          v3 = (v2 XOR drop_bit 27 v2) * 0x94d049bb133111eb
      in v3 XOR drop_bit 31 v3)"

definition jitter_spread :: "nat \<Rightarrow> nat \<Rightarrow> nat" where
  "jitter_spread interval percent = saturate_u64 (interval * percent) div 100"

definition jittered_interval :: "nat \<Rightarrow> nat \<Rightarrow> 64 word \<Rightarrow> nat" where
  "jittered_interval interval percent sample =
     (let spread = jitter_spread interval percent
      in if spread = 0 then interval
         else let width = saturate_u64 (saturate_u64 (spread * 2) + 1);
                  position = unat (splitmix64 sample) mod width
              in if position \<ge> spread then saturate_u64 (interval + (position - spread))
                 else interval - (spread - position))"

section \<open>The schedule state\<close>

record job_state =
  job_running :: bool
  next_due_millis :: nat
  job_generation :: nat

record schedule_state =
  periodic :: "job_state list"
  completion_running :: bool
  completion_queued :: bool
  force_running :: "force_poll_target option"
  force_queued :: "force_poll_target list"
  settings :: scheduler_settings
  jitter_seed :: "64 word"

text \<open>
  \<open>force_queued\<close> is the \<open>BTreeSet\<close> as its ordered list of elements: inserting keeps it sorted and
  free of duplicates, and \<open>pop_first\<close> takes the head.
\<close>

definition schedule_new :: "nat \<Rightarrow> scheduler_settings \<Rightarrow> 64 word \<Rightarrow> schedule_state" where
  "schedule_new now sets seed =
     \<lparr>periodic = map (\<lambda>i. \<lparr>job_running = False,
                            next_due_millis = (if enabled sets ! i then now else u64_max),
                            job_generation = 0\<rparr>) [0..<5],
      completion_running = False, completion_queued = False, force_running = None,
      force_queued = [], settings = sets, jitter_seed = seed\<rparr>"

definition completion_ready :: "schedule_state \<Rightarrow> bool" where
  "completion_ready s \<longleftrightarrow>
     completion_queued s \<and> \<not> completion_running s
     \<and> \<not> (\<exists>st \<in> set (periodic s). job_running st) \<and> force_running s = None"

definition force_ready :: "schedule_state \<Rightarrow> bool" where
  "force_ready s \<longleftrightarrow>
     force_queued s \<noteq> [] \<and> force_running s = None \<and> \<not> completion_running s
     \<and> \<not> (\<exists>st \<in> set (take 4 (periodic s)). job_running st)"

definition start_periodic :: "nat \<Rightarrow> schedule_state \<Rightarrow> schedule_state" where
  "start_periodic i s = s\<lparr>periodic := (periodic s)[i := (periodic s ! i)\<lparr>job_running := True\<rparr>]\<rparr>"

text \<open>
  The \<open>for\<close> loop over the periodic jobs. \<open>expect("periodic job")\<close> cannot fail on
  \<open>PERIODIC_JOBS\<close>; a job without an index is skipped here.
\<close>

definition due_index :: "nat \<Rightarrow> schedule_state \<Rightarrow> pulse_job \<Rightarrow> nat option" where
  "due_index now s job =
     (if \<not> is_enabled (settings s) job then None
      else if force_running s \<noteq> None \<and> job \<noteq> Retention then None
      else case periodic_index job of
        None \<Rightarrow> None
      | Some i \<Rightarrow>
          if \<not> job_running (periodic s ! i) \<and> now \<ge> next_due_millis (periodic s ! i)
          then Some i else None)"

fun take_periodic :: "nat \<Rightarrow> pulse_job list \<Rightarrow> schedule_state \<Rightarrow> pulse_job list \<times> schedule_state" where
  "take_periodic now [] s = ([], s)"
| "take_periodic now (job # jobs) s =
     (case due_index now s job of
        None \<Rightarrow> take_periodic now jobs s
      | Some i \<Rightarrow>
          (case take_periodic now jobs (start_periodic i s) of (due, s') \<Rightarrow> (job # due, s')))"

definition take_completion :: "schedule_state \<Rightarrow> pulse_job list \<times> schedule_state" where
  "take_completion s =
     (if completion_ready s
      then ([CompletionPush], s\<lparr>completion_queued := False, completion_running := True\<rparr>)
      else ([], s))"

definition take_force :: "schedule_state \<Rightarrow> pulse_job list \<times> schedule_state" where
  "take_force s =
     (if force_ready s
      then (case force_queued s of
              [] \<Rightarrow> ([], s)
            | target # rest \<Rightarrow>
                ([ForcePoll target], s\<lparr>force_queued := rest, force_running := Some target\<rparr>))
      else ([], s))"

definition take_due :: "nat \<Rightarrow> schedule_state \<Rightarrow> pulse_job list \<times> schedule_state" where
  "take_due now s =
     (case take_periodic now periodic_jobs s of (due1, s1) \<Rightarrow>
      case take_completion s1 of (due2, s2) \<Rightarrow>
      case take_force s2 of (due3, s3) \<Rightarrow> (due1 @ due2 @ due3, s3))"

definition completion_triggered :: "schedule_state \<Rightarrow> schedule_state" where
  "completion_triggered s = s\<lparr>completion_queued := True\<rparr>"

definition force_triggered :: "force_poll_target \<Rightarrow> schedule_state \<Rightarrow> schedule_state" where
  "force_triggered target s =
     (if force_running s \<noteq> Some target \<and> target \<notin> set (force_queued s)
      then s\<lparr>force_queued := insort target (force_queued s)\<rparr> else s)"

definition collection_finished_with_rows ::
    "pulse_job \<Rightarrow> job_report pulse_result \<Rightarrow> schedule_state \<Rightarrow> schedule_state" where
  "collection_finished_with_rows job report s =
     (if completion_after_collection (settings s)
         \<and> (case job of Retention \<Rightarrow> False | CompletionPush \<Rightarrow> False | _ \<Rightarrow> True)
         \<and> (case report of Inl _ \<Rightarrow> False | Inr r \<Rightarrow> succeeded r > 0)
      then completion_triggered s else s)"

definition jitter_sample :: "schedule_state \<Rightarrow> nat \<Rightarrow> nat \<Rightarrow> 64 word" where
  "jitter_sample s i gen = (jitter_seed s XOR of_nat i) XOR word_rotl 17 (of_nat gen)"

definition finish_periodic :: "nat \<Rightarrow> nat \<Rightarrow> schedule_state \<Rightarrow> schedule_state" where
  "finish_periodic i finished_millis s =
     (let gen = saturate_u64 (Suc (job_generation (periodic s ! i)));
          jittered = jittered_interval (intervals_millis (settings s) ! i)
                       (jitter_percent (settings s)) (jitter_sample s i gen)
      in s\<lparr>periodic := (periodic s)[i := \<lparr>job_running = False,
             next_due_millis = saturate_u64 (finished_millis + jittered),
             job_generation = gen\<rparr>]\<rparr>)"

definition finished :: "pulse_job \<Rightarrow> nat \<Rightarrow> schedule_state \<Rightarrow> schedule_state" where
  "finished job finished_millis s =
     (case periodic_index job of
        Some i \<Rightarrow> finish_periodic i finished_millis s
      | None \<Rightarrow> (case job of
          CompletionPush \<Rightarrow> s\<lparr>completion_running := False\<rparr>
        | ForcePoll _ \<Rightarrow> s\<lparr>force_running := None\<rparr>
        | _ \<Rightarrow> s))"

text \<open>The minimum over the idle jobs, or a day from now when none is idle.\<close>

definition idle_deadlines :: "schedule_state \<Rightarrow> nat list" where
  "idle_deadlines s = map next_due_millis (filter (\<lambda>st. \<not> job_running st) (periodic s))"

definition next_deadline :: "nat \<Rightarrow> schedule_state \<Rightarrow> nat" where
  "next_deadline now s =
     (if completion_ready s \<or> force_ready s then now
      else case idle_deadlines s of
        [] \<Rightarrow> saturate_u64 (now + 24 * 60 * 60 * 1000)
      | d # ds \<Rightarrow> fold min ds d)"

section \<open>The run loop\<close>

text \<open>
  \<open>in_flight\<close> is the \<open>JoinSet\<close> together with \<open>task_jobs\<close>: the spawned tasks by task id. An
  iteration takes the due jobs, spawns them, and handles the event the \<open>select!\<close> returned. The
  semaphore only delays a spawned task, so it does not appear in the state.
\<close>

datatype loop_event =
    DeadlineReached
  | CommandCompletion
  | CommandForcePoll force_poll_target
  | CommandShutdown
  | CommandsClosed
  | TaskFinished nat "job_report pulse_result"
  | TaskAborted nat

record run_state =
  schedule :: schedule_state
  in_flight :: "(nat \<times> pulse_job) list"
  next_task_id :: nat
  stopped :: bool

definition run_start :: "nat \<Rightarrow> scheduler_settings \<Rightarrow> 64 word \<Rightarrow> run_state" where
  "run_start now sets seed =
     \<lparr>schedule = schedule_new now sets seed, in_flight = [], next_task_id = 0, stopped = False\<rparr>"

definition spawn_due :: "nat \<Rightarrow> run_state \<Rightarrow> run_state" where
  "spawn_due now r =
     (case take_due now (schedule r) of (due, s') \<Rightarrow>
        r\<lparr>schedule := s',
          in_flight := in_flight r @ zip [next_task_id r..<next_task_id r + length due] due,
          next_task_id := next_task_id r + length due\<rparr>)"

definition remove_task :: "nat \<Rightarrow> run_state \<Rightarrow> run_state" where
  "remove_task task r = r\<lparr>in_flight := delete_where (\<lambda>t. fst t = task) (in_flight r)\<rparr>"

definition stop_loop :: "run_state \<Rightarrow> run_state" where
  "stop_loop r = r\<lparr>in_flight := [], stopped := True\<rparr>"

fun handle_event :: "nat \<Rightarrow> loop_event \<Rightarrow> run_state \<Rightarrow> run_state" where
  "handle_event now DeadlineReached r = r"
| "handle_event now CommandCompletion r = r\<lparr>schedule := completion_triggered (schedule r)\<rparr>"
| "handle_event now (CommandForcePoll target) r =
     r\<lparr>schedule := force_triggered target (schedule r)\<rparr>"
| "handle_event now CommandShutdown r = stop_loop r"
| "handle_event now CommandsClosed r = stop_loop r"
| "handle_event now (TaskFinished task report) r =
     (case map_of (in_flight r) task of
        None \<Rightarrow> r
      | Some job \<Rightarrow> remove_task task
          (r\<lparr>schedule := collection_finished_with_rows job report (finished job now (schedule r))\<rparr>))"
| "handle_event now (TaskAborted task) r =
     (case map_of (in_flight r) task of
        None \<Rightarrow> r
      | Some job \<Rightarrow> remove_task task (r\<lparr>schedule := finished job now (schedule r)\<rparr>))"

definition run_iteration :: "nat \<Rightarrow> nat \<Rightarrow> loop_event \<Rightarrow> run_state \<Rightarrow> run_state" where
  "run_iteration spawn_now event_now event r =
     (if stopped r then r else handle_event event_now event (spawn_due spawn_now r))"

fun run_trace :: "(nat \<times> nat \<times> loop_event) list \<Rightarrow> run_state \<Rightarrow> run_state" where
  "run_trace [] r = r"
| "run_trace ((t1, t2, ev) # evs) r = run_trace evs (run_iteration t1 t2 ev r)"

definition well_formed_settings :: "scheduler_settings \<Rightarrow> bool" where
  "well_formed_settings sets \<longleftrightarrow> length (intervals_millis sets) = 5 \<and> length (enabled sets) = 5"

inductive scheduler_reachable :: "run_state \<Rightarrow> bool" where
  started: "well_formed_settings sets \<Longrightarrow> scheduler_reachable (run_start now sets seed)"
| iterated: "scheduler_reachable r \<Longrightarrow> scheduler_reachable (run_iteration t1 t2 ev r)"


section \<open>Invariant of the run loop\<close>

definition job_active :: "schedule_state \<Rightarrow> pulse_job \<Rightarrow> bool" where
  "job_active s job =
     (case periodic_index job of
        Some i \<Rightarrow> job_running (periodic s ! i)
      | None \<Rightarrow> (case job of
          ForcePoll t \<Rightarrow> force_running s = Some t
        | _ \<Rightarrow> completion_running s))"

definition schedule_ok :: "schedule_state \<Rightarrow> bool" where
  "schedule_ok s \<longleftrightarrow>
     length (periodic s) = 5 \<and> well_formed_settings (settings s)
     \<and> sorted (force_queued s) \<and> distinct (force_queued s)
     \<and> (\<forall>t. force_running s = Some t \<longrightarrow> t \<notin> set (force_queued s))
     \<and> (\<forall>i < 5. job_running (periodic s ! i) \<longrightarrow> enabled (settings s) ! i)
     \<and> (force_running s \<noteq> None \<longrightarrow>
          \<not> completion_running s \<and> (\<forall>i < 4. \<not> job_running (periodic s ! i)))"

definition task_count :: "run_state \<Rightarrow> pulse_job \<Rightarrow> nat" where
  "task_count r job = count_where (\<lambda>t. snd t = job) (in_flight r)"

definition run_ok :: "run_state \<Rightarrow> bool" where
  "run_ok r \<longleftrightarrow>
     stopped r \<and> in_flight r = []
     \<or> \<not> stopped r \<and> schedule_ok (schedule r)
       \<and> distinct (map fst (in_flight r)) \<and> (\<forall>t \<in> set (in_flight r). fst t < next_task_id r)
       \<and> (\<forall>job. task_count r job = of_bool (job_active (schedule r) job))"

lemma periodic_index_bound: "periodic_index job = Some i \<Longrightarrow> i < 5"
  by (cases job) auto

lemma periodic_index_inj:
  "periodic_index job = Some i \<Longrightarrow> periodic_index job' = Some i \<Longrightarrow> job' = job"
  by (cases job; cases job') auto

lemma start_periodic_fields [simp]:
  "completion_running (start_periodic i s) = completion_running s"
  "completion_queued (start_periodic i s) = completion_queued s"
  "force_running (start_periodic i s) = force_running s"
  "force_queued (start_periodic i s) = force_queued s"
  "settings (start_periodic i s) = settings s"
  "jitter_seed (start_periodic i s) = jitter_seed s"
  "length (periodic (start_periodic i s)) = length (periodic s)"
  by (simp_all add: start_periodic_def)

lemma start_periodic_running:
  "i < length (periodic s) \<Longrightarrow>
     job_running (periodic (start_periodic i s) ! j) \<longleftrightarrow> j = i \<or> job_running (periodic s ! j)"
  by (cases "j = i") (auto simp: start_periodic_def)

lemma job_active_start_periodic:
  assumes "periodic_index job = Some i" and "length (periodic s) = 5"
  shows "job_active (start_periodic i s) job' \<longleftrightarrow> job' = job \<or> job_active s job'"
proof (cases "periodic_index job'")
  case None
  with assms(1) have "job' \<noteq> job" by auto
  with None show ?thesis by (simp add: job_active_def split: pulse_job.split)
next
  case (Some k)
  have "i < 5" using assms(1) by (rule periodic_index_bound)
  moreover have "k = i \<longleftrightarrow> job' = job" using Some assms(1) periodic_index_inj by auto
  ultimately show ?thesis using Some assms(2) by (simp add: job_active_def start_periodic_running)
qed

lemma due_index_Some:
  "due_index now s job = Some i \<longleftrightarrow>
     is_enabled (settings s) job \<and> (force_running s = None \<or> job = Retention)
     \<and> periodic_index job = Some i \<and> \<not> job_running (periodic s ! i)
     \<and> next_due_millis (periodic s ! i) \<le> now"
  by (auto simp: due_index_def split: option.splits)

lemma take_periodic_frame:
  assumes "take_periodic now jobs s = (due, s')"
  shows "completion_running s' = completion_running s \<and> completion_queued s' = completion_queued s
    \<and> force_running s' = force_running s \<and> force_queued s' = force_queued s
    \<and> settings s' = settings s \<and> length (periodic s') = length (periodic s)
    \<and> jitter_seed s' = jitter_seed s"
  using assms
proof (induction jobs arbitrary: s due)
  case (Cons j jobs)
  show ?case
  proof (cases "due_index now s j")
    case None
    with Cons.prems have "take_periodic now jobs s = (due, s')" by simp
    then show ?thesis by (rule Cons.IH)
  next
    case (Some i)
    then obtain due1 where "take_periodic now jobs (start_periodic i s) = (due1, s')"
      using Cons.prems by (auto split: prod.splits)
    from Cons.IH [OF this] show ?thesis by simp
  qed
qed simp

lemma take_periodic_counts:
  assumes "take_periodic now jobs s = (due, s')" and "length (periodic s) = 5"
  shows "count_list due job + of_bool (job_active s job) = (of_bool (job_active s' job) :: nat)"
  using assms
proof (induction jobs arbitrary: s due)
  case (Cons j jobs)
  show ?case
  proof (cases "due_index now s j")
    case None
    with Cons show ?thesis by simp
  next
    case (Some i)
    then obtain due1 where d: "take_periodic now jobs (start_periodic i s) = (due1, s')" "due = j # due1"
      using Cons.prems(1) by (auto split: prod.splits)
    have i: "periodic_index j = Some i" "\<not> job_running (periodic s ! i)"
      using Some by (auto simp: due_index_Some)
    have "count_list due1 job + of_bool (job_active (start_periodic i s) job)
        = (of_bool (job_active s' job) :: nat)"
      using Cons.IH [OF d(1)] Cons.prems(2) by simp
    moreover have "\<not> job_active s j" using i by (simp add: job_active_def)
    ultimately show ?thesis
      using d(2) job_active_start_periodic [OF i(1) Cons.prems(2), of job]
      by (cases "job = j") auto
  qed
qed simp

lemma take_periodic_running:
  assumes "take_periodic now jobs s = (due, s')" and "length (periodic s) = 5"
    and "job_running (periodic s' ! i)" and "i < 5"
  shows "job_running (periodic s ! i)
    \<or> enabled (settings s) ! i \<and> (force_running s = None \<or> i = 4)"
  using assms(1,2)
proof (induction jobs arbitrary: s due)
  case Nil
  with assms(3) show ?case by simp
next
  case (Cons j jobs)
  show ?case
  proof (cases "due_index now s j")
    case None
    with Cons show ?thesis by simp
  next
    case (Some k)
    then obtain due1 where d: "take_periodic now jobs (start_periodic k s) = (due1, s')"
      using Cons.prems(1) by (auto split: prod.splits)
    have "k < 5" using Some by (auto simp: due_index_Some dest: periodic_index_bound)
    with Some show ?thesis
      using Cons.IH [OF d] Cons.prems(2)
      by (auto simp: start_periodic_running due_index_Some is_enabled_def)
  qed
qed


lemma sorted_insort_target: "sorted xs \<Longrightarrow> sorted (insort (t::force_poll_target) xs)"
  by (simp add: sorted_insort)

lemma take_completion_cases:
  "take_completion s = (due, s') \<Longrightarrow>
     due = [] \<and> s' = s \<and> \<not> completion_ready s
     \<or> due = [CompletionPush] \<and> completion_ready s
       \<and> s' = s\<lparr>completion_queued := False, completion_running := True\<rparr>"
  by (auto simp: take_completion_def split: if_splits)

lemma take_force_cases:
  "take_force s = (due, s') \<Longrightarrow>
     due = [] \<and> s' = s \<and> \<not> force_ready s
     \<or> (\<exists>t rest. force_queued s = t # rest \<and> due = [ForcePoll t] \<and> force_ready s
          \<and> s' = s\<lparr>force_queued := rest, force_running := Some t\<rparr>)"
  by (auto simp: take_force_def force_ready_def split: if_splits list.splits)

lemma some_running_iff:
  "length ps = 5 \<Longrightarrow> (\<exists>st \<in> set ps. job_running st) \<longleftrightarrow> (\<exists>i < 5. job_running (ps ! i))"
  by (metis in_set_conv_nth)

lemma some_collecting_iff:
  "length ps = 5 \<Longrightarrow> (\<exists>st \<in> set (take 4 ps). job_running st) \<longleftrightarrow> (\<exists>i < 4. job_running (ps ! i))"
  by (fastforce simp: in_set_conv_nth Bex_def)

lemma take_periodic_ok:
  assumes "take_periodic now jobs s = (due, s')" and ok: "schedule_ok s"
  shows "schedule_ok s'"
proof -
  have len: "length (periodic s) = 5" using ok by (simp add: schedule_ok_def)
  note frame = take_periodic_frame [OF assms(1)]
  note run = take_periodic_running [OF assms(1) len]
  have "\<forall>i < 5. job_running (periodic s' ! i) \<longrightarrow> enabled (settings s') ! i"
    using run frame ok by (auto simp: schedule_ok_def)
  moreover have "\<forall>i < 4. \<not> job_running (periodic s' ! i)" if "force_running s' \<noteq> None"
  proof (intro allI impI notI)
    fix i :: nat
    assume i: "i < 4" "job_running (periodic s' ! i)"
    then have "job_running (periodic s ! i) \<or> force_running s = None"
      using run [of i] by auto
    then show False using that frame ok i(1) by (auto simp: schedule_ok_def)
  qed
  ultimately show ?thesis using frame ok by (auto simp: schedule_ok_def)
qed

lemma take_completion_ok:
  assumes "take_completion s = (due, s')" and ok: "schedule_ok s"
  shows "schedule_ok s' \<and> length (periodic s') = 5
    \<and> count_list due job + of_bool (job_active s job) = (of_bool (job_active s' job) :: nat)"
  using take_completion_cases [OF assms(1)]
proof (elim disjE conjE)
  assume s': "s' = s" "due = []"
  with ok show ?thesis by (simp add: schedule_ok_def)
next
  assume s': "s' = s\<lparr>completion_queued := False, completion_running := True\<rparr>"
    and due: "due = [CompletionPush]" and ready: "completion_ready s"
  have "job_active s' job \<longleftrightarrow> job = CompletionPush \<or> job_active s job"
    by (cases job) (simp_all add: s' job_active_def)
  moreover have "\<not> job_active s CompletionPush"
    using ready by (simp add: job_active_def completion_ready_def)
  ultimately show ?thesis
    using ok ready due
    by (cases "job = CompletionPush") (auto simp: s' schedule_ok_def completion_ready_def)
qed

lemma take_force_ok:
  assumes "take_force s = (due, s')" and ok: "schedule_ok s"
  shows "schedule_ok s'
    \<and> count_list due job + of_bool (job_active s job) = (of_bool (job_active s' job) :: nat)"
  using take_force_cases [OF assms(1)]
proof (elim disjE conjE exE)
  assume s': "s' = s" "due = []"
  with ok show ?thesis by simp
next
  fix t rest
  assume q: "force_queued s = t # rest" and due: "due = [ForcePoll t]" and ready: "force_ready s"
    and s': "s' = s\<lparr>force_queued := rest, force_running := Some t\<rparr>"
  have len: "length (periodic s) = 5" using ok by (simp add: schedule_ok_def)
  have "job_active s' job \<longleftrightarrow> job = ForcePoll t \<or> job_active s job"
    using ready by (cases job) (auto simp: s' job_active_def force_ready_def)
  moreover have "\<not> job_active s (ForcePoll t)"
    using ready by (simp add: job_active_def force_ready_def)
  moreover have "\<forall>i < 4. \<not> job_running (periodic s ! i)"
    using ready some_collecting_iff [OF len] by (auto simp: force_ready_def)
  ultimately show ?thesis
    using ok ready due q
    by (cases "job = ForcePoll t") (auto simp: s' schedule_ok_def force_ready_def)
qed

lemma take_due_ok:
  assumes "take_due now s = (due, s')" and ok: "schedule_ok s"
  shows "schedule_ok s'"
    and "count_list due job + of_bool (job_active s job) = (of_bool (job_active s' job) :: nat)"
proof -
  obtain d1 s1 where 1: "take_periodic now periodic_jobs s = (d1, s1)" by fastforce
  obtain d2 s2 where 2: "take_completion s1 = (d2, s2)" by fastforce
  obtain d3 s3 where 3: "take_force s2 = (d3, s3)" by fastforce
  have due: "due = d1 @ d2 @ d3" "s' = s3"
    using assms(1) 1 2 3 by (auto simp: take_due_def)
  have len: "length (periodic s) = 5" using ok by (simp add: schedule_ok_def)
  have ok1: "schedule_ok s1" by (rule take_periodic_ok [OF 1 ok])
  note ok2 = take_completion_ok [OF 2 ok1]
  note ok3 = take_force_ok [OF 3 conjunct1 [OF ok2]]
  show "schedule_ok s'" using ok3 due by simp
  show "count_list due job + of_bool (job_active s job) = (of_bool (job_active s' job) :: nat)"
    using take_periodic_counts [OF 1 len, of job] ok2 [of job] ok3 [of job] due by simp
qed


lemma count_snd_zip:
  "length is = length js \<Longrightarrow> count_where (\<lambda>t. snd t = x) (zip is js) = count_list js x"
  by (induction "is" js rule: list_induct2) auto

lemma spawn_due_ok:
  assumes "run_ok r" and "\<not> stopped r"
  shows "run_ok (spawn_due now r)" and "\<not> stopped (spawn_due now r)"
proof -
  obtain due s' where d: "take_due now (schedule r) = (due, s')" by fastforce
  have ok: "schedule_ok (schedule r)" and dist: "distinct (map fst (in_flight r))"
    and fresh: "\<forall>t \<in> set (in_flight r). fst t < next_task_id r"
    and cnt: "\<And>job. task_count r job = of_bool (job_active (schedule r) job)"
    using assms by (auto simp: run_ok_def)
  let ?new = "zip [next_task_id r..<next_task_id r + length due] due"
  have r': "spawn_due now r = r\<lparr>schedule := s', in_flight := in_flight r @ ?new,
      next_task_id := next_task_id r + length due\<rparr>"
    using d by (simp add: spawn_due_def)
  have ids: "map fst ?new = [next_task_id r..<next_task_id r + length due]" by simp
  then have new_ids: "fst ` set ?new = {next_task_id r..<next_task_id r + length due}"
    by (metis atLeastLessThan_upt list.set_map)
  have "fst ` set (in_flight r) \<inter> fst ` set ?new = {}"
    unfolding new_ids using fresh by auto
  then have "distinct (map fst (in_flight r @ ?new))"
    using dist ids by (metis distinct_append distinct_upt list.set_map map_append)
  moreover have "\<forall>t \<in> set (in_flight r @ ?new). fst t < next_task_id r + length due"
  proof
    fix t
    assume "t \<in> set (in_flight r @ ?new)"
    then have "fst t \<in> fst ` set (in_flight r) \<or> fst t \<in> fst ` set ?new" by auto
    then show "fst t < next_task_id r + length due"
      unfolding new_ids using fresh by auto
  qed
  moreover have "task_count (spawn_due now r) job = of_bool (job_active s' job)" for job
    using cnt [of job] take_due_ok(2) [OF d ok, of job]
    by (simp add: r' task_count_def count_snd_zip)
  ultimately show "run_ok (spawn_due now r)"
    using take_due_ok(1) [OF d ok] assms(2) by (simp add: run_ok_def r')
  show "\<not> stopped (spawn_due now r)" using assms(2) r' by simp
qed

lemma finish_periodic_fields [simp]:
  "completion_running (finish_periodic i now s) = completion_running s"
  "completion_queued (finish_periodic i now s) = completion_queued s"
  "force_running (finish_periodic i now s) = force_running s"
  "force_queued (finish_periodic i now s) = force_queued s"
  "settings (finish_periodic i now s) = settings s"
  "length (periodic (finish_periodic i now s)) = length (periodic s)"
  by (simp_all add: finish_periodic_def Let_def)

lemma finish_periodic_running:
  "i < length (periodic s) \<Longrightarrow>
     job_running (periodic (finish_periodic i now s) ! j) \<longleftrightarrow> j \<noteq> i \<and> job_running (periodic s ! j)"
  by (cases "j = i") (simp_all add: finish_periodic_def Let_def)

lemma finished_active:
  assumes "schedule_ok s" and "job_active s job"
  shows "job_active (finished job now s) job' \<longleftrightarrow> job_active s job' \<and> job' \<noteq> job"
proof (cases "periodic_index job")
  case None
  then show ?thesis
    using assms(2) by (cases job; cases job') (auto simp: finished_def job_active_def)
next
  case (Some i)
  have i: "i < length (periodic s)"
    using periodic_index_bound [OF Some] assms(1) by (simp add: schedule_ok_def)
  show ?thesis
  proof (cases "periodic_index job'")
    case None
    with Some have "job' \<noteq> job" by auto
    with None Some show ?thesis by (simp add: finished_def job_active_def split: pulse_job.split)
  next
    case (Some k)
    have "k = i \<longleftrightarrow> job' = job" using Some \<open>periodic_index job = Some i\<close> periodic_index_inj by auto
    with Some show ?thesis
      using finish_periodic_running [OF i] \<open>periodic_index job = Some i\<close>
      by (auto simp: finished_def job_active_def)
  qed
qed

lemma finished_ok: "schedule_ok s \<Longrightarrow> schedule_ok (finished job now s)"
  by (cases job) (auto simp: schedule_ok_def finished_def finish_periodic_running)

lemma collection_finished_ok:
  "schedule_ok s \<Longrightarrow> schedule_ok (collection_finished_with_rows job report s)"
  by (simp add: collection_finished_with_rows_def completion_triggered_def schedule_ok_def)

lemma collection_finished_active:
  "job_active (collection_finished_with_rows job report s) job' = job_active s job'"
  by (cases job')
    (simp_all add: collection_finished_with_rows_def completion_triggered_def job_active_def)

lemma force_triggered_ok: "schedule_ok s \<Longrightarrow> schedule_ok (force_triggered t s)"
  by (auto simp: force_triggered_def schedule_ok_def set_insort_key distinct_insort sorted_insort)

lemma force_triggered_active: "job_active (force_triggered t s) job = job_active s job"
  by (cases job) (simp_all add: force_triggered_def job_active_def)

lemma count_remove_task:
  assumes "distinct (map fst ts)" and "(task, job) \<in> set ts"
  shows "count_where (\<lambda>t. snd t = x) ts
    = count_where (\<lambda>t. snd t = x) (delete_where (\<lambda>t. fst t = task) ts) + of_bool (x = job)"
  using assms
proof (induction ts)
  case (Cons t ts)
  show ?case
  proof (cases "fst t = task")
    case True
    with Cons.prems have "t = (task, job)" by (force simp: image_iff)
    moreover have "delete_where (\<lambda>t. fst t = task) ts = ts"
      using Cons.prems True unfolding delete_where_def filter_id_conv by (force simp: image_iff)
    ultimately show ?thesis by (simp add: delete_where_def)
  next
    case False
    with Cons show ?thesis by (auto simp: delete_where_def)
  qed
qed simp

lemma remove_task_ok:
  assumes "run_ok r" and "\<not> stopped r" and "(task, job) \<in> set (in_flight r)"
    and "schedule_ok s'" and "\<And>x. job_active s' x \<longleftrightarrow> job_active (schedule r) x \<and> x \<noteq> job"
  shows "run_ok (remove_task task (r\<lparr>schedule := s'\<rparr>))"
proof -
  have dist: "distinct (map fst (in_flight r))"
    and cnt: "\<And>x. task_count r x = of_bool (job_active (schedule r) x)"
    using assms(1,2) by (auto simp: run_ok_def)
  have "task_count (remove_task task (r\<lparr>schedule := s'\<rparr>)) x = of_bool (job_active s' x)" for x
    using count_remove_task [OF dist assms(3), of x] cnt [of x] assms(5) [of x]
    by (cases "x = job"; cases "job_active (schedule r) x") (simp_all add: remove_task_def task_count_def)
  moreover have "distinct (map fst (delete_where (\<lambda>t. fst t = task) (in_flight r)))"
    using dist by (simp add: delete_where_def distinct_map_filter)
  ultimately show ?thesis
    using assms(1,2,4) by (auto simp: run_ok_def remove_task_def table_simps)
qed

lemma in_flight_active:
  assumes "run_ok r" and "(task, job) \<in> set (in_flight r)"
  shows "job_active (schedule r) job"
proof -
  have "\<not> stopped r" using assms by (auto simp: run_ok_def)
  then have "task_count r job = of_bool (job_active (schedule r) job)"
    using assms(1) by (simp add: run_ok_def)
  moreover have "\<exists>t \<in> set (in_flight r). snd t = job" using assms(2) by force
  then have "task_count r job \<noteq> 0" by (simp add: task_count_def count_where_zero)
  ultimately show ?thesis by (auto split: if_splits)
qed

lemma completion_triggered_ok: "schedule_ok s \<Longrightarrow> schedule_ok (completion_triggered s)"
  by (simp add: completion_triggered_def schedule_ok_def)

lemma active_completion_triggered: "job_active (completion_triggered s) job = job_active s job"
  by (cases job) (simp_all add: completion_triggered_def job_active_def)

lemma handle_event_ok:
  assumes ok: "run_ok r" and running: "\<not> stopped r"
  shows "run_ok (handle_event now ev r)"
proof (cases ev)
  case (TaskFinished task report)
  show ?thesis
  proof (cases "map_of (in_flight r) task")
    case (Some job)
    then have mem: "(task, job) \<in> set (in_flight r)" by (rule map_of_SomeD)
    have sok: "schedule_ok (schedule r)" using ok running by (simp add: run_ok_def)
    show ?thesis
      using remove_task_ok [OF ok running mem collection_finished_ok [OF finished_ok [OF sok]]]
        collection_finished_active finished_active [OF sok in_flight_active [OF ok mem]]
      by (simp add: TaskFinished Some)
  qed (use ok TaskFinished in simp)
next
  case (TaskAborted task)
  show ?thesis
  proof (cases "map_of (in_flight r) task")
    case (Some job)
    then have mem: "(task, job) \<in> set (in_flight r)" by (rule map_of_SomeD)
    have sok: "schedule_ok (schedule r)" using ok running by (simp add: run_ok_def)
    show ?thesis
      using remove_task_ok [OF ok running mem finished_ok [OF sok]]
        finished_active [OF sok in_flight_active [OF ok mem]]
      by (simp add: TaskAborted Some)
  qed (use ok TaskAborted in simp)
next
  case CommandCompletion
  then show ?thesis
    using ok running active_completion_triggered
    by (simp add: run_ok_def task_count_def completion_triggered_ok)
next
  case (CommandForcePoll t)
  then show ?thesis
    using ok running by (simp add: run_ok_def task_count_def force_triggered_ok force_triggered_active)
qed (use ok in \<open>simp_all add: run_ok_def stop_loop_def\<close>)

lemma run_start_ok: "well_formed_settings sets \<Longrightarrow> run_ok (run_start now sets seed)"
  by (auto simp: run_ok_def run_start_def schedule_new_def schedule_ok_def task_count_def
      job_active_def split: option.split pulse_job.split dest: periodic_index_bound)

theorem reachable_run_ok: "scheduler_reachable r \<Longrightarrow> run_ok r"
proof (induction rule: scheduler_reachable.induct)
  case (started sets now seed)
  then show ?case by (rule run_start_ok)
next
  case (iterated r t1 t2 ev)
  then show ?case
    using spawn_due_ok [OF iterated.IH] handle_event_ok by (auto simp: run_iteration_def)
qed


section \<open>Properties\<close>

lemma take_periodic_due_unchanged:
  "take_periodic now jobs s = (due, s') \<Longrightarrow>
     map next_due_millis (periodic s') = map next_due_millis (periodic s)"
proof (induction jobs arbitrary: s due)
  case (Cons j jobs)
  show ?case
  proof (cases "due_index now s j")
    case None
    with Cons show ?thesis by simp
  next
    case (Some i)
    then obtain due1 where d: "take_periodic now jobs (start_periodic i s) = (due1, s')"
      using Cons.prems by (auto split: prod.splits)
    have "map next_due_millis (periodic (start_periodic i s)) = map next_due_millis (periodic s)"
      by (cases "i < length (periodic s)")
        (simp_all add: start_periodic_def map_update list_update_same_conv list_update_beyond)
    with Cons.IH [OF d] show ?thesis by simp
  qed
qed simp

lemma fold_min_le: "x \<in> set (d # ds) \<Longrightarrow> fold min ds d \<le> (x::nat)"
  by (metis Min.coboundedI Min.set_eq_fold List.finite_set)

lemma run_start_reachable_trace:
  "scheduler_reachable r \<Longrightarrow> scheduler_reachable (run_trace evs r)"
proof (induction evs arbitrary: r)
  case (Cons e evs)
  then show ?case by (cases e) (simp add: scheduler_reachable.iterated)
qed simp

lemma take_due_settings: "settings (snd (take_due now s)) = settings s"
proof -
  obtain d1 s1 where 1: "take_periodic now periodic_jobs s = (d1, s1)" by fastforce
  obtain d2 s2 where 2: "take_completion s1 = (d2, s2)" by fastforce
  obtain d3 s3 where 3: "take_force s2 = (d3, s3)" by fastforce
  have "settings s2 = settings s1" using take_completion_cases [OF 2] by auto
  moreover have "settings s3 = settings s2" using take_force_cases [OF 3] by auto
  ultimately show ?thesis using 1 2 3 take_periodic_frame [OF 1] by (simp add: take_due_def)
qed

lemma run_iteration_settings: "settings (schedule (run_iteration t1 t2 ev r)) = settings (schedule r)"
proof -
  have "settings (schedule (spawn_due t1 r)) = settings (schedule r)"
    using take_due_settings [of t1 "schedule r"] by (auto simp: spawn_due_def split: prod.splits)
  moreover have "settings (schedule (handle_event t2 ev q)) = settings (schedule q)" for q
    by (cases ev)
      (auto simp: completion_triggered_def force_triggered_def stop_loop_def remove_task_def
        collection_finished_with_rows_def finished_def split: option.split pulse_job.split)
  ultimately show ?thesis by (simp add: run_iteration_def)
qed

lemma run_trace_settings: "settings (schedule (run_trace evs r)) = settings (schedule r)"
  by (induction evs r rule: run_trace.induct) (simp_all add: run_iteration_settings)

lemma reachable_active:
  assumes "scheduler_reachable r" and "(task, job) \<in> set (in_flight r)"
  shows "schedule_ok (schedule r)" and "job_active (schedule r) job" and "\<not> stopped r"
proof -
  have ok: "run_ok r" using assms(1) by (rule reachable_run_ok)
  show "\<not> stopped r" using ok assms(2) by (auto simp: run_ok_def)
  then show "schedule_ok (schedule r)" using ok by (simp add: run_ok_def)
  show "job_active (schedule r) job" by (rule in_flight_active [OF ok assms(2)])
qed

text \<open>
  C1. Single flight: in every reachable state of the run loop, whatever the order of completions,
  commands and clock readings, each job has at most one task in flight, and while the loop runs a
  job is marked running exactly when its task is in flight.
\<close>

theorem scheduler_single_flight:
  assumes "scheduler_reachable r"
  shows "task_count r job \<le> 1
    \<and> (\<not> stopped r \<longrightarrow> (task_count r job = 1 \<longleftrightarrow> job_active (schedule r) job))"
  using reachable_run_ok [OF assms]
  by (cases "job_active (schedule r) job") (auto simp: run_ok_def task_count_def)

theorem scheduler_single_flight_witness:
  "task_count (run_trace [(0, 1, CommandForcePoll (target_account 7))]
     (run_start 0 \<lparr>intervals_millis = [5, 5, 5, 5, 5], enabled = replicate 5 True,
        completion_after_collection = False, jitter_percent = 0, max_concurrency = 2\<rparr> 0)) Usage \<le> 1"
  by (rule scheduler_single_flight [THEN conjunct1])
    (intro run_start_reachable_trace scheduler_reachable.started,
      simp add: well_formed_settings_def)

text \<open>
  Exclusion: while a force poll is in flight, the only other work that can be in flight is the
  retention job; no collection job, no completion push and no second force poll.
\<close>

theorem force_poll_excludes_collection:
  assumes "scheduler_reachable r" and "(i, ForcePoll t) \<in> set (in_flight r)"
    and "(j, job) \<in> set (in_flight r)"
  shows "job = ForcePoll t \<or> job = Retention"
proof -
  have "force_running (schedule r) = Some t"
    using reachable_active(2) [OF assms(1,2)] by (simp add: job_active_def)
  then show ?thesis
    using reachable_active(1,2) [OF assms(1,3)]
    by (cases job) (auto simp: job_active_def schedule_ok_def)
qed


text \<open>The state of a run with one force poll of account 7 in flight beside the idle periodic jobs.\<close>

definition example_settings :: scheduler_settings where
  "example_settings = \<lparr>intervals_millis = [50, 50, 50, 50, 50], enabled = [True, True, True, True, True],
     completion_after_collection = False, jitter_percent = 0, max_concurrency = 2\<rparr>"

definition example_run :: run_state where
  "example_run = run_trace
     [(0, 1, TaskFinished 0 (Inr one_success)), (1, 1, TaskFinished 1 (Inr one_success)),
      (1, 1, TaskFinished 2 (Inr one_success)), (1, 1, TaskFinished 3 (Inr one_success)),
      (1, 2, CommandForcePoll (target_account 7)), (3, 3, DeadlineReached)]
     (run_start 0 example_settings 0)"

lemma example_run_reachable: "scheduler_reachable example_run"
  unfolding example_run_def
  by (intro run_start_reachable_trace scheduler_reachable.started)
    (simp add: example_settings_def well_formed_settings_def)


lemma jittered_interval_no_jitter [simp]: "jittered_interval i 0 x = i"
  by (simp add: jittered_interval_def jitter_spread_def saturate_u64_def Let_def)

lemma upt_five: "[0..<5] = [0, 1, 2, 3, 4::nat]"
  by code_simp

lemmas scheduler_eval =
  run_start_def schedule_new_def run_iteration_def
  spawn_due_def take_due_def periodic_jobs_def due_index_def is_enabled_def start_periodic_def
  take_completion_def completion_ready_def take_force_def force_ready_def remove_task_def
  delete_where_def finished_def finish_periodic_def
  saturate_u64_def u64_max_def collection_finished_with_rows_def force_triggered_def
  one_success_def target_account_def Let_def upt_five

lemma example_run_value:
  "in_flight example_run = [(4, Retention), (5, ForcePoll (target_account 7))]"
  "map next_due_millis (periodic (schedule example_run)) = [51, 51, 51, 51, 0]"
  "enabled (settings (schedule example_run)) = [True, True, True, True, True]"
  unfolding example_run_def run_trace.simps
  by (simp_all add: scheduler_eval example_settings_def)


lemma schedule_ok_enabled:
  "schedule_ok s \<Longrightarrow> i < 5 \<Longrightarrow> job_running (periodic s ! i) \<Longrightarrow> enabled (settings s) ! i"
  by (simp add: schedule_ok_def)

theorem force_poll_excludes_collection_witness:
  "(4, Retention) \<in> set (in_flight example_run)
   \<and> (Retention = ForcePoll (target_account 7) \<or> Retention = Retention)"
proof -
  have a: "(5, ForcePoll (target_account 7)) \<in> set (in_flight example_run)"
    and b: "(4, Retention) \<in> set (in_flight example_run)"
    by (simp_all add: example_run_value)
  from b force_poll_excludes_collection [OF example_run_reachable a b] show ?thesis by simp
qed

lemma next_deadline_le_idle:
  assumes "i < length (periodic s)" and "\<not> job_running (periodic s ! i)"
    and "next_due_millis (periodic s ! i) \<le> now"
  shows "next_deadline now s \<le> now"
proof (cases "idle_deadlines s")
  case Nil
  with assms(1,2) show ?thesis by (auto simp: idle_deadlines_def filter_empty_conv)
next
  case (Cons d ds)
  have "next_due_millis (periodic s ! i) \<in> set (idle_deadlines s)"
    using assms(1,2) by (auto simp: idle_deadlines_def)
  with Cons have "fold min ds d \<le> next_due_millis (periodic s ! i)"
    by (simp only: fold_min_le)
  with Cons assms(3) show ?thesis by (simp add: next_deadline_def)
qed

lemma force_running_take_due:
  assumes "schedule_ok s" and "force_running s = Some t" and "take_due now s = (due, s')"
  shows "set due \<subseteq> {Retention}" "length (periodic s') = 5"
    "map next_due_millis (periodic s') = map next_due_millis (periodic s)"
    "i < 4 \<Longrightarrow> \<not> job_running (periodic s' ! i)"
proof -
  obtain d1 where 1: "take_periodic now periodic_jobs s = (d1, s')" and due: "due = d1"
  proof -
    obtain d1 s1 where 1: "take_periodic now periodic_jobs s = (d1, s1)" by fastforce
    have "force_running s1 = Some t" using take_periodic_frame [OF 1] assms(2) by simp
    then have "take_completion s1 = ([], s1)" "take_force s1 = ([], s1)"
      by (simp_all add: take_completion_def take_force_def completion_ready_def force_ready_def)
    with 1 assms(3) that show thesis by (simp add: take_due_def)
  qed
  have len: "length (periodic s) = 5" using assms(1) by (simp add: schedule_ok_def)
  show "length (periodic s') = 5" using take_periodic_frame [OF 1] len by simp
  show "map next_due_millis (periodic s') = map next_due_millis (periodic s)"
    using 1 by (rule take_periodic_due_unchanged)
  show idle: "\<not> job_running (periodic s' ! i)" if "i < 4" for i
    using take_periodic_running [OF 1 len, of i] that assms(1,2)
    by (auto simp: schedule_ok_def)
  have ok': "schedule_ok s'" using 1 assms(1) by (rule take_periodic_ok)
  have "force_running s' = Some t" using take_periodic_frame [OF 1] assms(2) by simp
  show "set due \<subseteq> {Retention}"
  proof
    fix job assume "job \<in> set due"
    then have "0 < count_list d1 job" by (simp add: due count_list_0_iff flip: neq0_conv)
    then have c: "job_active s' job" "\<not> job_active s job"
      using take_periodic_counts [OF 1 len, of job] by (auto split: if_splits simp: of_bool_def)
    then show "job \<in> {Retention}"
      using idle ok' \<open>force_running s' = Some t\<close> assms(2)
      by (cases job) (auto simp: job_active_def schedule_ok_def)
  qed
qed

text \<open>
  Hot loop: while a force poll is in flight and some enabled collection job is already due, an
  iteration of the run loop starts no collection job and yet arms the sleep with a deadline that has
  passed, so the loop turns again at once, and keeps doing so until the force poll ends.
\<close>

theorem force_poll_spins_run_loop:
  assumes "scheduler_reachable r" and "(k, ForcePoll t) \<in> set (in_flight r)"
    and "i < 4" and "next_due_millis (periodic (schedule r) ! i) \<le> now"
  shows "set (fst (take_due now (schedule r))) \<subseteq> {Retention}
    \<and> next_deadline now (snd (take_due now (schedule r))) \<le> now"
proof -
  obtain due s' where d: "take_due now (schedule r) = (due, s')" by fastforce
  have ok: "schedule_ok (schedule r)" using reachable_active(1) [OF assms(1,2)] .
  have f: "force_running (schedule r) = Some t"
    using reachable_active(2) [OF assms(1,2)] by (simp add: job_active_def)
  note x = force_running_take_due [OF ok f d]
  have "length (periodic (schedule r)) = 5" using ok by (simp add: schedule_ok_def)
  then have "next_due_millis (periodic s' ! i) = next_due_millis (periodic (schedule r) ! i)"
    using arg_cong [OF x(3), of "\<lambda>l. l ! i"] x(2) assms(3) by simp
  then show ?thesis
    using x(1) next_deadline_le_idle [of i s' now] x(2) x(4) [OF assms(3)] assms(3,4) d by simp
qed

theorem force_poll_spins_run_loop_witness:
  "set (fst (take_due 60 (schedule example_run))) \<subseteq> {Retention}
   \<and> next_deadline 60 (snd (take_due 60 (schedule example_run))) \<le> 60"
proof (rule force_poll_spins_run_loop [OF example_run_reachable, where i = 0])
  show "(5, ForcePoll (target_account 7)) \<in> set (in_flight example_run)"
    by (simp add: example_run_value)
  have "map next_due_millis (periodic (schedule example_run)) ! 0 = 51"
    by (simp add: example_run_value)
  moreover have "periodic (schedule example_run) \<noteq> []" using example_run_value(2) by force
  ultimately show "next_due_millis (periodic (schedule example_run) ! 0) \<le> 60"
    by (simp add: nth_map)
qed simp

text \<open>
  Capability gating: with collection off, no periodic collection job is ever in flight,
  whatever the order of events; only retention, completion pushes and explicit force polls run.
\<close>

theorem disabled_collection_never_runs:
  assumes "length (intervals_millis sets) = 5"
    and "(task, job) \<in> set (in_flight (run_trace evs
           (run_start now (with_capabilities sets False completion) seed)))"
  shows "job \<notin> {Usage, Context, Tokens, Gemini}"
proof -
  let ?sets = "with_capabilities sets False completion"
  let ?r = "run_trace evs (run_start now ?sets seed)"
  have "well_formed_settings ?sets"
    using assms(1) by (simp add: well_formed_settings_def with_capabilities_def)
  then have "scheduler_reachable ?r"
    by (intro run_start_reachable_trace scheduler_reachable.started)
  note a = reachable_active [OF this assms(2)]
  have "settings (schedule ?r) = ?sets"
    by (simp add: run_trace_settings run_start_def schedule_new_def)
  moreover have "\<not> enabled ?sets ! i" if "i < 4" for i
  proof -
    have "i = 0 \<or> i = 1 \<or> i = 2 \<or> i = 3" using that by auto
    then show ?thesis by (auto simp: with_capabilities_def)
  qed
  ultimately have "\<not> job_running (periodic (schedule ?r) ! i)" if "i < 4" for i
    using schedule_ok_enabled [OF a(1), of i] that by auto
  with a(2) show ?thesis by (auto simp: job_active_def)
qed

theorem disabled_collection_never_runs_witness:
  "in_flight (run_trace [(0, 0, DeadlineReached)] (run_start 0
      (with_capabilities example_settings False True) 0)) = [(0, Retention)]
   \<and> Retention \<notin> {Usage, Context, Tokens, Gemini}"
proof -
  have v: "in_flight (run_trace [(0, 0, DeadlineReached)] (run_start 0
      (with_capabilities example_settings False True) 0)) = [(0, Retention)]"
    by (simp add: scheduler_eval example_settings_def with_capabilities_def)
  then have "(0, Retention) \<in> set (in_flight (run_trace [(0, 0, DeadlineReached)] (run_start 0
      (with_capabilities example_settings False True) 0)))" by simp
  from disabled_collection_never_runs [OF _ this] v show ?thesis
    by (simp add: example_settings_def)
qed

lemma count_list_distinct: "distinct xs \<Longrightarrow> x \<in> set xs \<Longrightarrow> count_list xs x = 1"
  by (induction xs) auto

lemma take_periodic_none:
  "(\<And>job. job \<in> set jobs \<Longrightarrow> due_index now s job = None) \<Longrightarrow> take_periodic now jobs s = ([], s)"
  by (induction jobs) simp_all

lemma take_due_idle:
  assumes "schedule_ok s" and inactive: "\<And>job. \<not> job_active s job"
    and "\<forall>st \<in> set (periodic s). now < next_due_millis st" and "\<not> completion_queued s"
    and "force_queued s = t # ts"
  shows "fst (take_due now s) = [ForcePoll t]"
proof -
  have len: "length (periodic s) = 5" using assms(1) by (simp add: schedule_ok_def)
  have "due_index now s job = None" for job
  proof (rule ccontr)
    assume "due_index now s job \<noteq> None"
    then obtain i where "periodic_index job = Some i" "next_due_millis (periodic s ! i) \<le> now"
      by (auto simp: due_index_Some)
    with assms(3) len periodic_index_bound show False by (metis not_le nth_mem)
  qed
  then have 1: "take_periodic now periodic_jobs s = ([], s)" by (intro take_periodic_none)
  have nr: "\<not> job_running (periodic s ! i)" if "i < 5" for i
  proof -
    have "\<exists>job. periodic_index job = Some i"
    proof -
      have "i = 0 \<or> i = 1 \<or> i = 2 \<or> i = 3 \<or> i = 4" using that by auto
      then show ?thesis by (metis periodic_index.simps(1-5))
    qed
    then obtain job where "periodic_index job = Some i" by blast
    with inactive [of job] show ?thesis by (simp add: job_active_def)
  qed
  have "\<not> (\<exists>st \<in> set (take 4 (periodic s)). job_running st)"
    using nr len by (simp add: some_collecting_iff)
  moreover have "\<not> completion_running s" using inactive [of CompletionPush] by (simp add: job_active_def)
  moreover have "force_running s = None"
  proof (cases "force_running s")
    case (Some u)
    then show ?thesis using inactive [of "ForcePoll u"] by (simp add: job_active_def)
  qed
  ultimately show ?thesis
    using 1 assms(4,5)
    by (simp add: take_due_def take_completion_def completion_ready_def take_force_def force_ready_def)
qed

text \<open>
  A force poll command is never lost: right after the run loop handles it, the target is either
  the one in flight or waits in the queue exactly once; and a run with no task in flight, nothing
  periodic due and no completion waiting starts the head of the queue at once.
\<close>

theorem force_poll_accepted_and_started:
  assumes "scheduler_reachable r" and "\<not> stopped r"
  shows "(let s = schedule (run_iteration t1 t2 (CommandForcePoll target) r) in
      (force_running s = Some target) \<noteq> (count_list (force_queued s) target = 1))
    \<and> (in_flight r = [] \<longrightarrow> \<not> completion_queued (schedule r) \<longrightarrow>
        (\<forall>st \<in> set (periodic (schedule r)). now < next_due_millis st) \<longrightarrow>
        force_queued (schedule r) = t # ts \<longrightarrow> fst (take_due now (schedule r)) = [ForcePoll t])"
proof
  define r' where "r' = run_iteration t1 t2 (CommandForcePoll target) r"
  have "scheduler_reachable r'" unfolding r'_def using assms(1) by (rule scheduler_reachable.iterated)
  moreover have "\<not> stopped r'"
    using assms(2) by (simp add: r'_def run_iteration_def spawn_due_def split: prod.split)
  ultimately have ok: "schedule_ok (schedule r')"
    using reachable_run_ok by (auto simp: run_ok_def)
  have "force_running (schedule r') = Some target \<or> target \<in> set (force_queued (schedule r'))"
    using assms(2) by (simp add: r'_def run_iteration_def force_triggered_def set_insort_key)
  then show "let s = schedule (run_iteration t1 t2 (CommandForcePoll target) r) in
      (force_running s = Some target) \<noteq> (count_list (force_queued s) target = 1)"
    using ok unfolding r'_def [symmetric] Let_def schedule_ok_def
    by (metis count_list_0_iff count_list_distinct zero_neq_one)
next
  have ok: "run_ok r" using assms(1) by (rule reachable_run_ok)
  show "in_flight r = [] \<longrightarrow> \<not> completion_queued (schedule r) \<longrightarrow>
        (\<forall>st \<in> set (periodic (schedule r)). now < next_due_millis st) \<longrightarrow>
        force_queued (schedule r) = t # ts \<longrightarrow> fst (take_due now (schedule r)) = [ForcePoll t]"
  proof (intro impI)
    assume idle: "in_flight r = []" and c: "\<not> completion_queued (schedule r)"
      and due: "\<forall>st \<in> set (periodic (schedule r)). now < next_due_millis st"
      and q: "force_queued (schedule r) = t # ts"
    have inactive: "\<not> job_active (schedule r) job" for job
      using ok assms(2) idle by (auto simp: run_ok_def task_count_def)
    have sok: "schedule_ok (schedule r)" using ok assms(2) by (simp add: run_ok_def)
    show "fst (take_due now (schedule r)) = [ForcePoll t]"
      using take_due_idle [OF sok inactive due c] q by simp
  qed
qed

theorem force_poll_accepted_and_started_witness:
  "(let s = schedule (run_iteration 9 9 (CommandForcePoll (target_account 8)) example_run) in
      (force_running s = Some (target_account 8)) \<noteq> (count_list (force_queued s) (target_account 8) = 1))
   \<and> \<not> stopped example_run"
proof -
  have "\<not> stopped example_run"
    using reachable_active(3) [OF example_run_reachable] example_run_value(1) by force
  then show ?thesis
    using force_poll_accepted_and_started [OF example_run_reachable, THEN conjunct1] by blast
qed

lemma jitter_spread_half:
  "percent \<le> 50 \<Longrightarrow> 2 * jitter_spread interval percent \<le> interval"
proof -
  assume "percent \<le> 50"
  then have "interval * percent \<le> interval * 50" by simp
  then have "saturate_u64 (interval * percent) \<le> interval * 50"
    using saturate_u64_le(2) le_trans by blast
  then show ?thesis unfolding jitter_spread_def by linarith
qed

lemma jittered_interval_bounds:
  assumes "percent \<le> 50" and "interval \<le> u64_max"
  shows "interval - jitter_spread interval percent \<le> jittered_interval interval percent x"
    "jittered_interval interval percent x \<le> interval + jitter_spread interval percent"
proof -
  let ?s = "jitter_spread interval percent"
  have s: "2 * ?s \<le> interval" using assms(1) by (rule jitter_spread_half)
  define w where "w = saturate_u64 (saturate_u64 (?s * 2) + 1)"
  have w: "0 < w" "w \<le> 2 * ?s + 1"
    by (auto simp: w_def saturate_u64_def u64_max_def)
  define p where "p = unat (splitmix64 x) mod w"
  have p: "p \<le> 2 * ?s" using w mod_less_divisor [OF w(1), of "unat (splitmix64 x)"] by (simp add: p_def)
  have j: "jittered_interval interval percent x =
     (if ?s = 0 then interval else if p \<ge> ?s then saturate_u64 (interval + (p - ?s))
      else interval - (?s - p))"
    by (simp add: jittered_interval_def Let_def w_def p_def)
  have sat: "saturate_u64 (interval + (p - ?s)) \<ge> interval"
    using assms(2) by (simp add: saturate_u64_def)
  show "interval - ?s \<le> jittered_interval interval percent x" using j sat by auto
  show "jittered_interval interval percent x \<le> interval + ?s"
    using j p saturate_u64_le(2) [of "interval + (p - ?s)"] by auto
qed

lemma settings_from_config_facts:
  assumes "settings_from_config c = Inr sets"
  shows "\<forall>i < 5. 30000 \<le> intervals_millis sets ! i \<and> intervals_millis sets ! i \<le> u64_max"
    "jitter_percent sets \<le> 50" "well_formed_settings sets"
proof -
  obtain ms where v: "validate_schedule_config c = Inr ()"
    and ms: "try_map (\<lambda>seconds. ok_or (configuration ''Pulse scheduler interval overflowed'')
                             (checked_u64 (seconds * 1000)))
          [cfg_usage c, cfg_context c, cfg_tokens c, cfg_gemini c, cfg_retention c] = Inr ms"
    and sn: "settings_new ms (cfg_jitter_percent c) 2 = Inr sets"
    using assms by (auto simp: settings_from_config_def result_simps)
  have floors: "300 \<le> cfg_usage c" "30 \<le> cfg_context c" "300 \<le> cfg_tokens c"
      "30 \<le> cfg_gemini c" "60 \<le> cfg_retention c" "cfg_jitter_percent c \<le> 50"
    using v by (auto simp: validate_schedule_config_def schedule_floors_def result_simps split: if_splits)
  have m: "ms = [cfg_usage c * 1000, cfg_context c * 1000, cfg_tokens c * 1000,
      cfg_gemini c * 1000, cfg_retention c * 1000] \<and> (\<forall>v \<in> set ms. v \<le> u64_max)"
    using ms by (auto simp: result_simps)
  have e: "intervals_millis sets = ms" "jitter_percent sets = cfg_jitter_percent c"
      "enabled sets = replicate 5 True"
    using sn by (auto simp: settings_new_def split: if_splits)
  show "\<forall>i < 5. 30000 \<le> intervals_millis sets ! i \<and> intervals_millis sets ! i \<le> u64_max"
  proof (intro allI impI)
    fix i :: nat assume "i < 5"
    then have "i = 0 \<or> i = 1 \<or> i = 2 \<or> i = 3 \<or> i = 4" by auto
    with m floors show "30000 \<le> intervals_millis sets ! i \<and> intervals_millis sets ! i \<le> u64_max"
      by (auto simp: e)
  qed
  show "jitter_percent sets \<le> 50" using floors e by simp
  show "well_formed_settings sets" using m e by (auto simp: well_formed_settings_def)
qed

text \<open>
  Pacing: with settings built from an accepted configuration, a periodic job that finishes is
  idle and next due within the jitter spread of its interval, and never sooner than half the
  interval, hence at least fifteen seconds later (unless the clock saturates at \<open>u64::MAX\<close>).
\<close>

theorem finished_job_is_paced:
  assumes "settings_from_config c = Inr (settings s)" and "length (periodic s) = 5"
    and "periodic_index job = Some i"
  shows "let st = periodic (finished job now s) ! i; interval = intervals_millis (settings s) ! i;
             spread = jitter_spread interval (jitter_percent (settings s)) in
      \<not> job_running st
      \<and> saturate_u64 (now + (interval - spread)) \<le> next_due_millis st
      \<and> next_due_millis st \<le> now + interval + spread
      \<and> saturate_u64 (now + 15000) \<le> next_due_millis st"
proof -
  note f = settings_from_config_facts [OF assms(1)]
  have i: "i < 5" using assms(3) by (rule periodic_index_bound)
  define interval spread where "interval = intervals_millis (settings s) ! i"
    and "spread = jitter_spread interval (jitter_percent (settings s))"
  have I: "30000 \<le> interval" "interval \<le> u64_max" using f(1) i by (auto simp: interval_def)
  obtain x where st: "periodic (finished job now s) ! i =
      \<lparr>job_running = False,
       next_due_millis = saturate_u64 (now + jittered_interval interval (jitter_percent (settings s)) x),
       job_generation = saturate_u64 (Suc (job_generation (periodic s ! i)))\<rparr>"
    using assms(2,3) i by (simp add: finished_def finish_periodic_def Let_def interval_def)
  note b = jittered_interval_bounds [OF f(2) I(2), of x, folded spread_def]
  have "2 * spread \<le> interval" unfolding spread_def using f(2) by (rule jitter_spread_half)
  then have "15000 \<le> interval - spread" using I(1) by simp
  then have "saturate_u64 (now + 15000) \<le> saturate_u64 (now + (interval - spread))"
    by (simp add: saturate_u64_def)
  moreover have "saturate_u64 (now + (interval - spread))
      \<le> saturate_u64 (now + jittered_interval interval (jitter_percent (settings s)) x)"
    using b(1) by (simp add: saturate_u64_def min.coboundedI2)
  moreover have "saturate_u64 (now + jittered_interval interval (jitter_percent (settings s)) x)
      \<le> now + interval + spread"
    using b(2) saturate_u64_le(2) [of "now + jittered_interval interval (jitter_percent (settings s)) x"]
    by simp
  ultimately show ?thesis
    by (simp add: Let_def st interval_def [symmetric] spread_def [symmetric])
qed

definition example_config_settings :: scheduler_settings where
  "example_config_settings =
     \<lparr>intervals_millis = [900000, 120000, 1800000, 1800000, 3600000],
      enabled = replicate 5 True, completion_after_collection = False, jitter_percent = 10,
      max_concurrency = 2\<rparr>"

lemma example_config_accepted:
  "settings_from_config default_schedule_config = Inr example_config_settings"
  by (simp add: settings_from_config_def validate_schedule_config_def schedule_floors_def
      default_schedule_config_def u64_max_def settings_new_def example_config_settings_def
      checked_u64_def)

theorem finished_job_is_paced_witness:
  "saturate_u64 (5 + 15000)
     \<le> next_due_millis (periodic (finished Tokens 5 (schedule_new 0 example_config_settings 1)) ! 2)"
  using finished_job_is_paced [of default_schedule_config "schedule_new 0 example_config_settings 1"
      Tokens 2 5] example_config_accepted
  by (simp add: schedule_new_def Let_def)

end
