(* ===== verification/Pulse_Model.thy ===== *)
theory Pulse_Model
  imports Pulse_Text
begin

text \<open>
  The data model of \<open>src/src/pulse/model.rs\<close>: validated identifiers, percentages and fractions,
  vendors and quota windows, profiles, usage snapshots, token grains, context sessions, Gemini
  quotas and alert subscriptions, each with its \<open>validate\<close>. A validated newtype is represented by
  the value inside it and its constructor by a \<open>_new\<close> function. The settings digest (SHA-256 of
  serde_json text) and the date parser of jiff are arguments.
\<close>

section \<open>Validated text and numbers\<close>

definition validate_text :: "string \<Rightarrow> string \<Rightarrow> nat \<Rightarrow> unit pulse_result" where
  "validate_text kind value max_bytes =
     (if value = [] then Inl (invalid_input (kind @ '' cannot be empty''))
      else if length value > max_bytes
      then Inl (invalid_input (kind @ '' exceeds '' @ show_nat max_bytes @ '' bytes''))
      else if \<not> is_trimmed value
      then Inl (invalid_input (kind @ '' cannot start or end with whitespace''))
      else if has_control value
      then Inl (invalid_input (kind @ '' cannot contain control characters''))
      else Inr ())"

definition text_ok :: "nat \<Rightarrow> string \<Rightarrow> bool" where
  "text_ok max_bytes v \<longleftrightarrow> v \<noteq> [] \<and> length v \<le> max_bytes \<and> is_trimmed v \<and> \<not> has_control v"

definition profile_name_new :: "string \<Rightarrow> string pulse_result" where
  "profile_name_new v = map_ok (\<lambda>_. v) (validate_text ''profile name'' v 128)"

definition machine_name_new :: "string \<Rightarrow> string pulse_result" where
  "machine_name_new v = map_ok (\<lambda>_. v) (validate_text ''machine name'' v 255)"

definition session_id_new :: "string \<Rightarrow> string pulse_result" where
  "session_id_new v = map_ok (\<lambda>_. v) (validate_text ''session id'' v 512)"

definition account_id_new :: "int \<Rightarrow> int pulse_result" where
  "account_id_new v =
     (if v \<le> 0 then Inl (invalid_input ''account id must be positive'') else Inr v)"

definition percent_new :: "f64 \<Rightarrow> rat pulse_result" where
  "percent_new v =
     ok_or (invalid_input ''percentage must be finite and between 0 and 100'') (f64_in_range 0 100 v)"

definition fraction_new :: "f64 \<Rightarrow> rat pulse_result" where
  "fraction_new v =
     ok_or (invalid_input ''fraction must be finite and between 0 and 1'') (f64_in_range 0 1 v)"

lemma validate_text_Inr [result_simps]:
  "validate_text kind v n = Inr u \<longleftrightarrow> text_ok n v"
  by (simp add: validate_text_def text_ok_def)

lemma validate_text_kind: "validate_text kind v n = Inl e \<Longrightarrow> err_kind e = InvalidInput"
  by (auto simp: validate_text_def split: if_splits)

lemma percent_new_Inr [result_simps]:
  "percent_new v = Inr r \<longleftrightarrow> v = Finite r \<and> 0 \<le> r \<and> r \<le> 100"
  by (auto simp: percent_new_def f64_in_range_def result_simps split: f64.splits if_splits)

section \<open>Vendors and quota windows\<close>

datatype vendor =
    AnthropicOauth | OpenaiCodex | DeepseekBalance | XaiGrok | VendorGemini | Antigravity

datatype quota_window_kind = FiveHour | RollingSevenDay | FixedWeekly | MonthlyBudget

definition rejects_same_period_decrease :: "vendor \<Rightarrow> quota_window_kind \<Rightarrow> bool" where
  "rejects_same_period_decrease v w \<longleftrightarrow> \<not> (v = AnthropicOauth \<and> w = RollingSevenDay)"

definition emits_usage_snapshots :: "vendor \<Rightarrow> bool" where
  "emits_usage_snapshots v \<longleftrightarrow> \<not> (v = VendorGemini \<or> v = Antigravity)"

fun allows_window :: "vendor \<Rightarrow> quota_window_kind \<Rightarrow> bool" where
  "allows_window AnthropicOauth w \<longleftrightarrow> w = FiveHour \<or> w = RollingSevenDay"
| "allows_window OpenaiCodex w \<longleftrightarrow> w = FiveHour \<or> w = FixedWeekly"
| "allows_window XaiGrok w \<longleftrightarrow> w = FixedWeekly"
| "allows_window DeepseekBalance w \<longleftrightarrow> w = MonthlyBudget"
| "allows_window VendorGemini w \<longleftrightarrow> False"
| "allows_window Antigravity w \<longleftrightarrow> False"

text \<open>The discriminant of the enum, \<open>*kind as u8\<close>.\<close>

fun window_discriminant :: "quota_window_kind \<Rightarrow> nat" where
  "window_discriminant FiveHour = 0"
| "window_discriminant RollingSevenDay = 1"
| "window_discriminant FixedWeekly = 2"
| "window_discriminant MonthlyBudget = 3"

record quota_window =
  win_kind :: quota_window_kind
  used_percent :: rat
  resets_at :: instant

section \<open>Accounts, machines and profiles\<close>

datatype refresh_policy = Never | InMemory | Persist

datatype profile_origin = LocalOrigin | Reported

record account =
  acct_id :: int
  identity :: string
  acct_display_name :: "string option"

definition account_validate :: "account \<Rightarrow> unit pulse_result" where
  "account_validate a =
     and_then (validate_text ''account identity'' (identity a) 320) (\<lambda>_.
       case acct_display_name a of
         None \<Rightarrow> Inr ()
       | Some d \<Rightarrow> validate_text ''account display name'' d 320)"

record machine =
  mach_account :: int
  mach_name :: string
  first_seen :: instant
  last_seen :: instant

record profile =
  prof_account :: int
  prof_name :: string
  prof_vendor :: vendor
  config_dir :: "string option"
  poll_interval_minutes :: nat
  monthly_budget_usd :: "f64 option"
  api_key_env :: "string option"
  api_key_file :: "string option"
  refresh :: refresh_policy
  hidden :: bool
  origin :: profile_origin

definition is_absolute_path :: "string \<Rightarrow> bool" where
  "is_absolute_path p \<longleftrightarrow> starts_with ''/'' p"

definition validate_environment_name :: "string \<Rightarrow> unit pulse_result" where
  "validate_environment_name v =
     ensure
       (case v of
          [] \<Rightarrow> False
        | c # cs \<Rightarrow> (c = CHR ''_'' \<or> is_ascii_alphabetic c)
                   \<and> list_all (\<lambda>x. x = CHR ''_'' \<or> is_ascii_alphanumeric x) cs)
       (configuration ''credential environment variable name is invalid'')"

text \<open>
  \<open>Profile::validate\<close> in the order of its early returns; \<open>macos\<close> is \<open>cfg(target_os = "macos")\<close>.
\<close>

definition validate_profile_credentials :: "profile \<Rightarrow> unit pulse_result" where
  "validate_profile_credentials p =
     (if api_key_env p \<noteq> None \<and> api_key_file p \<noteq> None
      then Inl (configuration ''configure only one of api_key_env or api_key_file'')
      else
        and_then (case api_key_env p of None \<Rightarrow> Inr () | Some n \<Rightarrow> validate_environment_name n) (\<lambda>_.
        and_then (case api_key_file p of None \<Rightarrow> Inr ()
            | Some f \<Rightarrow> ensure (is_absolute_path f)
                (configuration ''api_key_file must be an absolute path'')) (\<lambda>_.
        case monthly_budget_usd p of
          None \<Rightarrow> Inr ()
        | Some b \<Rightarrow> ensure (case b of Finite r \<Rightarrow> r > 0 | _ \<Rightarrow> False)
            (configuration ''monthly_budget_usd must be finite and greater than zero''))))"

definition validate_profile_origin :: "profile \<Rightarrow> unit pulse_result" where
  "validate_profile_origin p =
     (if origin p = Reported
      then (if config_dir p \<noteq> None \<or> api_key_env p \<noteq> None \<or> api_key_file p \<noteq> None
               \<or> refresh p = Persist
            then Inl (configuration ''reported profiles cannot contain local paths, credential references, or persistent refresh'')
            else Inr ())
      else if prof_vendor p = DeepseekBalance
      then (if monthly_budget_usd p = None
            then Inl (configuration ''DeepSeek profiles require monthly_budget_usd'')
            else if api_key_env p = None \<and> api_key_file p = None
            then Inl (configuration ''DeepSeek profiles require api_key_env or api_key_file'')
            else Inr ())
      else Inr ())"

definition profile_validate :: "bool \<Rightarrow> profile \<Rightarrow> unit pulse_result" where
  "profile_validate macos p =
     (if \<not> (5 \<le> poll_interval_minutes p \<and> poll_interval_minutes p \<le> 7 * 24 * 60)
      then Inl (configuration ''profile poll interval must be between 5 and 10080 minutes'')
      else
        and_then (validate_profile_credentials p) (\<lambda>_.
        and_then (validate_profile_origin p) (\<lambda>_.
        ensure (\<not> (macos \<and> refresh p = Persist))
          (configuration ''persistent credential refresh is disabled on macOS''))))"

section \<open>Collection outcomes and usage snapshots\<close>

datatype collection_outcome =
    Success
  | Disabled (outcome_code: string)
  | AuthenticationFailed (outcome_code: string)
  | RateLimitedUntil "instant option"
  | Unavailable (outcome_code: string)
  | InvalidResponse (outcome_code: string)

definition is_success :: "collection_outcome \<Rightarrow> bool" where
  "is_success out = (case out of Success \<Rightarrow> True | _ \<Rightarrow> False)"

definition outcome_code_ok :: "string \<Rightarrow> bool" where
  "outcome_code_ok code \<longleftrightarrow>
     code \<noteq> [] \<and> length code \<le> 64
     \<and> list_all (\<lambda>c. is_ascii_lower c \<or> is_ascii_digit c
          \<or> c = CHR ''_'' \<or> c = CHR ''-'' \<or> c = CHR ''.'') code"

definition outcome_validate :: "collection_outcome \<Rightarrow> unit pulse_result" where
  "outcome_validate out =
     (let check = (\<lambda>code. ensure (outcome_code_ok code)
            (invalid_input ''collection outcome code must be a stable lowercase identifier'')) in
      case out of
        Success \<Rightarrow> Inr ()
      | RateLimitedUntil _ \<Rightarrow> Inr ()
      | Disabled code \<Rightarrow> check code
      | AuthenticationFailed code \<Rightarrow> check code
      | Unavailable code \<Rightarrow> check code
      | InvalidResponse code \<Rightarrow> check code)"

record usage_snapshot =
  snap_account :: int
  snap_profile :: string
  snap_machine :: string
  snap_vendor :: vendor
  snap_windows :: "quota_window list"
  snap_outcome :: collection_outcome
  polled_at :: instant
  reporter_version :: "string option"

text \<open>\<open>kinds.windows(2).any(|pair| pair[0] == pair[1])\<close>.\<close>

fun adjacent_duplicate :: "'a list \<Rightarrow> bool" where
  "adjacent_duplicate (x # y # ys) \<longleftrightarrow> x = y \<or> adjacent_duplicate (y # ys)"
| "adjacent_duplicate _ \<longleftrightarrow> False"

definition duplicate_kinds :: "quota_window list \<Rightarrow> bool" where
  "duplicate_kinds ws = adjacent_duplicate (sort_key window_discriminant (map win_kind ws))"

definition snapshot_validate :: "usage_snapshot \<Rightarrow> unit pulse_result" where
  "snapshot_validate s =
     and_then (outcome_validate (snap_outcome s)) (\<lambda>_.
       if \<not> emits_usage_snapshots (snap_vendor s)
       then Inl (invalid_input ''this vendor does not emit subscription usage snapshots'')
       else if is_success (snap_outcome s) \<and> snap_windows s = []
       then Inl (invalid_input ''a successful usage snapshot must contain a quota window'')
       else if list_ex (\<lambda>w. \<not> allows_window (snap_vendor s) (win_kind w)) (snap_windows s)
       then Inl (invalid_input ''usage snapshot contains a window that is invalid for its vendor'')
       else if duplicate_kinds (snap_windows s)
       then Inl (invalid_input ''usage snapshot contains a duplicate quota window'')
       else (case reporter_version s of
               None \<Rightarrow> Inr ()
             | Some v \<Rightarrow> validate_text ''reporter version'' v 128))"

record usage_contributor =
  contrib_machine :: string
  contrib_version :: "string option"
  contrib_polled_at :: instant
  chosen :: bool

section \<open>Token grains\<close>

datatype token_source = LocalSource | IngestSource

record agent_settings =
  service_tier :: "string option"
  effort :: "string option"
  additional :: "(string \<times> string) list"

definition default_agent_settings :: agent_settings where
  "default_agent_settings = \<lparr>service_tier = None, effort = None, additional = []\<rparr>"

record token_grain =
  tok_account :: int
  tok_profile :: string
  tok_machine :: string
  tok_session :: string
  tok_model :: string
  tok_settings :: agent_settings
  settings_hash :: string
  tok_day :: string
  tokens_in :: nat
  tokens_out :: nat
  cache_write_5m :: nat
  cache_write_1h :: nat
  cache_read :: nat
  tok_source :: token_source

definition token_grain_validate ::
    "(agent_settings \<Rightarrow> string) \<Rightarrow> (string \<Rightarrow> string + 'd) \<Rightarrow> token_grain \<Rightarrow> unit pulse_result" where
  "token_grain_validate settings_sha256 parse_date g =
     and_then (validate_text ''model'' (tok_model g) 256) (\<lambda>_.
     case parse_date (tok_day g) of
       Inl e \<Rightarrow> Inl (invalid_input (''invalid token day: '' @ e))
     | Inr _ \<Rightarrow> ensure (settings_hash g = settings_sha256 (tok_settings g))
                  (invalid_input ''settings_hash does not match settings''))"

definition total_tokens :: "token_grain \<Rightarrow> nat" where
  "total_tokens g =
     saturate_u64 (saturate_u64 (saturate_u64 (saturate_u64 (tokens_in g + tokens_out g)
       + cache_write_5m g) + cache_write_1h g) + cache_read g)"

section \<open>Context sessions and Gemini quotas\<close>

record context_session =
  ctx_account :: int
  ctx_profile :: string
  ctx_machine :: string
  ctx_session :: string
  ctx_model :: "string option"
  ctx_settings :: agent_settings
  context_tokens :: "nat option"
  context_percent :: "rat option"
  effective_limit :: "nat option"
  last_active_at :: instant
  last_reset_at :: "instant option"
  ctx_collected_at :: instant

definition context_session_validate :: "context_session \<Rightarrow> unit pulse_result" where
  "context_session_validate c =
     and_then (case ctx_model c of None \<Rightarrow> Inr () | Some m \<Rightarrow> validate_text ''model'' m 256) (\<lambda>_.
       if (case (context_tokens c, effective_limit c) of
             (Some tokens, Some limit) \<Rightarrow> tokens > limit | _ \<Rightarrow> False)
       then Inl (invalid_input ''context token count cannot exceed its effective limit'')
       else if effective_limit c = Some 0
       then Inl (invalid_input ''context effective limit must be greater than zero'')
       else if context_percent c \<noteq> None \<and> (context_tokens c = None \<or> effective_limit c = None)
       then Inl (invalid_input ''context percentage requires tokens and effective limit'')
       else Inr ())"

record gemini_quota =
  gem_account :: int
  gem_model_id :: string
  remaining_fraction :: rat
  remaining_amount :: "string option"
  gem_resets_at :: "instant option"
  gem_collected_at :: instant

definition gemini_quota_validate :: "gemini_quota \<Rightarrow> unit pulse_result" where
  "gemini_quota_validate q = validate_text ''Gemini model id'' (gem_model_id q) 256"

section \<open>Alert subscriptions\<close>

datatype alert_type = FiveHourThreshold | SevenDayThreshold | AuthenticationFailure | ContextThreshold

datatype alert_delivery = Channel | Pane (pane_id: string)

record alert_subscription =
  sub_account :: int
  sub_profile :: string
  sub_type :: alert_type
  sub_threshold :: "rat option"
  cooldown_minutes :: nat
  sub_delivery :: "alert_delivery option"
  sub_enabled :: bool

definition subscription_validate :: "alert_subscription \<Rightarrow> unit pulse_result" where
  "subscription_validate s =
     (let needs_threshold = (case sub_type s of AuthenticationFailure \<Rightarrow> False | _ \<Rightarrow> True) in
      if needs_threshold \<noteq> (sub_threshold s \<noteq> None)
      then Inl (invalid_input ''threshold alerts require a threshold and non-threshold alerts forbid one'')
      else if cooldown_minutes s = 0
      then Inl (invalid_input ''alert cooldown must be at least one minute'')
      else if sub_type s = AuthenticationFailure
              \<and> (case sub_delivery s of Some (Pane _) \<Rightarrow> True | _ \<Rightarrow> False)
      then Inl (invalid_input ''authentication failures cannot be delivered into an agent pane'')
      else (case sub_delivery s of
              Some (Pane p) \<Rightarrow> validate_text ''pane id'' p 128
            | _ \<Rightarrow> Inr ()))"

section \<open>Facts\<close>

lemma window_discriminant_inj: "inj window_discriminant"
proof (rule injI)
  fix a b assume "window_discriminant a = window_discriminant b"
  then show "a = b" by (cases a; cases b) simp_all
qed

lemma adjacent_duplicate_sorted:
  fixes f :: "'a \<Rightarrow> 'b::linorder"
  assumes "inj f" and "sorted (map f xs)"
  shows "adjacent_duplicate xs \<longleftrightarrow> \<not> distinct xs"
  using assms(2)
proof (induction xs rule: adjacent_duplicate.induct)
  case (1 x y ys)
  have "x \<in> set (y # ys) \<longleftrightarrow> x = y"
  proof
    assume "x \<in> set (y # ys)"
    then have "f y \<le> f x" using "1.prems" by auto
    moreover have "f x \<le> f y" using "1.prems" by simp
    ultimately show "x = y" using assms(1) by (simp add: inj_eq)
  qed simp
  then show ?case using 1 by auto
qed auto

lemma duplicate_kinds_iff: "duplicate_kinds ws \<longleftrightarrow> \<not> distinct (map win_kind ws)"
  unfolding duplicate_kinds_def
  by (subst adjacent_duplicate_sorted [OF window_discriminant_inj]) simp_all

definition snapshot_ok :: "usage_snapshot \<Rightarrow> bool" where
  "snapshot_ok s \<longleftrightarrow>
     outcome_validate (snap_outcome s) = Inr () \<and> emits_usage_snapshots (snap_vendor s)
     \<and> (snap_outcome s = Success \<longrightarrow> snap_windows s \<noteq> [])
     \<and> (\<forall>w \<in> set (snap_windows s). allows_window (snap_vendor s) (win_kind w))
     \<and> distinct (map win_kind (snap_windows s))
     \<and> (\<forall>v. reporter_version s = Some v \<longrightarrow> text_ok 128 v)"

lemma is_success_iff [simp]: "is_success out \<longleftrightarrow> out = Success"
  by (simp add: is_success_def split: collection_outcome.split)

lemma snapshot_validate_Inr [result_simps]: "snapshot_validate s = Inr u \<longleftrightarrow> snapshot_ok s"
  by (auto simp: snapshot_validate_def snapshot_ok_def duplicate_kinds_iff result_simps
      list_ex_iff split: option.splits)

lemma subscription_validate_Inr [result_simps]:
  "subscription_validate s = Inr u \<longleftrightarrow>
     (sub_type s \<noteq> AuthenticationFailure \<longleftrightarrow> sub_threshold s \<noteq> None)
     \<and> 0 < cooldown_minutes s
     \<and> (\<forall>p. sub_delivery s = Some (Pane p) \<longrightarrow> sub_type s \<noteq> AuthenticationFailure \<and> text_ok 128 p)"
  by (auto simp: subscription_validate_def Let_def result_simps
      split: alert_type.splits option.splits alert_delivery.splits)


section \<open>Properties\<close>

lemma distinct_kinds_le_2:
  "distinct (map win_kind ws) \<Longrightarrow> \<forall>w \<in> set ws. allows_window v (win_kind w) \<Longrightarrow> length ws \<le> 2"
proof -
  assume d: "distinct (map win_kind ws)" and a: "\<forall>w \<in> set ws. allows_window v (win_kind w)"
  have "\<exists>x y. \<forall>w. allows_window v w \<longrightarrow> w = x \<or> w = y" by (cases v) auto
  then obtain x y where "\<forall>w. allows_window v w \<longrightarrow> w = x \<or> w = y" by blast
  with a have "set (map win_kind ws) \<subseteq> {x, y}" by fastforce
  then have "card (set (map win_kind ws)) \<le> card {x, y}" by (intro card_mono) auto
  also have "\<dots> \<le> 2" by (simp add: card_insert_if)
  finally show ?thesis using distinct_card [OF d] by simp
qed

text \<open>
  Snapshot validation: the checks of \<open>UsageSnapshot::validate\<close>, with its sort and adjacent-pair
  scan for duplicates, accept exactly the snapshots with a stable outcome code, a vendor that emits
  usage, pairwise distinct windows the vendor allows, and data when successful; an accepted snapshot
  has at most two windows.
\<close>

theorem snapshot_validate_exact:
  "(snapshot_validate s = Inr () \<longleftrightarrow>
      outcome_validate (snap_outcome s) = Inr () \<and> emits_usage_snapshots (snap_vendor s)
      \<and> (snap_outcome s = Success \<longrightarrow> snap_windows s \<noteq> [])
      \<and> (\<forall>w \<in> set (snap_windows s). allows_window (snap_vendor s) (win_kind w))
      \<and> distinct (map win_kind (snap_windows s))
      \<and> (\<forall>v. reporter_version s = Some v \<longrightarrow> text_ok 128 v))
   \<and> (snapshot_validate s = Inr () \<longrightarrow> length (snap_windows s) \<le> 2)"
  using distinct_kinds_le_2 [of "snap_windows s" "snap_vendor s"]
  by (auto simp: snapshot_validate_Inr snapshot_ok_def)

definition example_snapshot :: usage_snapshot where
  "example_snapshot =
     \<lparr>snap_account = 1, snap_profile = ''main'', snap_machine = ''host'', snap_vendor = AnthropicOauth,
      snap_windows = [\<lparr>win_kind = RollingSevenDay, used_percent = 40, resets_at = 900\<rparr>,
                      \<lparr>win_kind = FiveHour, used_percent = 75, resets_at = 500\<rparr>],
      snap_outcome = Success, polled_at = 100, reporter_version = None\<rparr>"

lemma example_snapshot_valid: "snapshot_validate example_snapshot = Inr ()"
  by (simp add: snapshot_validate_Inr snapshot_ok_def example_snapshot_def outcome_validate_def
      emits_usage_snapshots_def)

theorem snapshot_validate_exact_witness: "length (snap_windows example_snapshot) \<le> 2"
  using snapshot_validate_exact [THEN conjunct2, of example_snapshot] example_snapshot_valid by simp

text \<open>
  Trust boundary of profiles: an accepted reported profile carries no local path, no credential
  reference and no persistent refresh; an accepted local DeepSeek profile has a positive finite
  budget and exactly one credential source, and a key file is always an absolute path.
\<close>

theorem profile_trust_boundary:
  assumes "profile_validate macos p = Inr ()"
  shows "(origin p = Reported \<longrightarrow> config_dir p = None \<and> api_key_env p = None
            \<and> api_key_file p = None \<and> refresh p \<noteq> Persist)
    \<and> (origin p = LocalOrigin \<longrightarrow> prof_vendor p = DeepseekBalance \<longrightarrow>
         (\<exists>r > 0. monthly_budget_usd p = Some (Finite r))
         \<and> ((api_key_env p = None) \<noteq> (api_key_file p = None)))
    \<and> (\<forall>f. api_key_file p = Some f \<longrightarrow> starts_with ''/'' f)
    \<and> 5 \<le> poll_interval_minutes p \<and> poll_interval_minutes p \<le> 10080"
proof -
  have poll: "5 \<le> poll_interval_minutes p" "poll_interval_minutes p \<le> 10080"
    and c: "validate_profile_credentials p = Inr ()" and og: "validate_profile_origin p = Inr ()"
    using assms by (auto simp: profile_validate_def result_simps split: if_splits)
  have b: "monthly_budget_usd p = Some b \<Longrightarrow> \<exists>r > 0. b = Finite r" for b
    using c by (cases b) (auto simp: validate_profile_credentials_def result_simps split: if_splits)
  have f: "api_key_file p = Some f \<Longrightarrow> starts_with ''/'' f" for f
    using c by (auto simp: validate_profile_credentials_def result_simps is_absolute_path_def
        split: if_splits)
  have one: "api_key_env p = None \<or> api_key_file p = None"
    using c by (auto simp: validate_profile_credentials_def split: if_splits)
  show ?thesis
  proof (cases "origin p")
    case Reported
    then show ?thesis using og poll f
      by (auto simp: validate_profile_origin_def split: if_splits)
  next
    case LocalOrigin
    have "prof_vendor p = DeepseekBalance \<Longrightarrow> monthly_budget_usd p \<noteq> None
        \<and> (api_key_env p \<noteq> None \<or> api_key_file p \<noteq> None)"
      using og LocalOrigin by (auto simp: validate_profile_origin_def split: if_splits)
    then show ?thesis using LocalOrigin one poll f b by auto
  qed
qed

definition example_profile :: profile where
  "example_profile =
     \<lparr>prof_account = 1, prof_name = ''deepseek'', prof_vendor = DeepseekBalance, config_dir = None,
      poll_interval_minutes = 15, monthly_budget_usd = Some (Finite 20), api_key_env = None,
      api_key_file = Some ''/key'', refresh = InMemory, hidden = False, origin = LocalOrigin\<rparr>"

theorem profile_trust_boundary_witness:
  "profile_validate True example_profile = Inr () \<and> starts_with ''/'' ''/key''"
proof -
  have v: "profile_validate True example_profile = Inr ()"
    by (simp add: profile_validate_def example_profile_def validate_profile_credentials_def
        validate_profile_origin_def is_absolute_path_def starts_with_def)
  with profile_trust_boundary [OF v] show ?thesis by (simp add: example_profile_def)
qed

end
