(* ===== verification/Pulse_Tables.thy ===== *)
theory Pulse_Tables
  imports Pulse_Model
begin

text \<open>
  The rows of the SQLite tables of \<open>src/src/pulse/store/schema.rs\<close> and the \<open>store\<close> record that
  holds all of them. A table is the list of its rows in row-id order; JSON columns hold the typed
  value they encode. The \<open>last_*_id\<close> fields are the AUTOINCREMENT counters. A violated UNIQUE or
  FOREIGN KEY constraint is the error \<open>constraint_violation\<close>. A store operation maps the store to
  an error (the transaction rolled back) or its result with the new store.
\<close>

section \<open>Rows\<close>

record stored_subscription =
  sub_id :: int
  subscription :: alert_subscription
  sub_created_at :: instant

record subscription_row = stored_subscription +
  threshold_key :: string

record alert_event_input =
  ev_account :: int
  ev_subscription :: int
  ev_profile :: string
  ev_type :: alert_type
  ev_message :: string
  ev_current :: "rat option"
  ev_threshold :: "rat option"
  triggered_at :: instant

record alert_event =
  event_id :: int
  event_input :: alert_event_input
  acknowledged :: bool

record alert_reply_input =
  rep_account :: int
  rep_event :: int
  rep_message :: string
  replied_at :: instant

record alert_reply =
  reply_id :: int
  reply_input :: alert_reply_input

record reset_resume_input =
  reset_account :: int
  reset_profile :: string
  reset_at :: instant
  scheduled_at :: instant

record reset_resume_job =
  job_id :: int
  job_input :: reset_resume_input
  resume_at :: instant
  lease_until :: "instant option"
  attempts :: nat
  delivered_at :: "instant option"
  cancelled_at :: "instant option"

record ingest_token =
  token_id :: int
  token_account :: int
  token_machine :: string
  token_hash :: string
  token_created_at :: instant
  last_used_at :: "instant option"
  revoked_at :: "instant option"

record snapshot_row =
  snap_id :: int
  snapshot :: usage_snapshot

record window_row =
  win_snapshot :: int
  window :: quota_window
  accepted :: bool

record replay_row =
  replay_account :: int
  replay_machine :: string
  replay_request :: string
  payload_fingerprint :: string
  replay_counts :: "nat \<times> nat \<times> nat \<times> nat"
  received_at :: instant

record token_row =
  grain :: token_grain
  updated_at :: instant
  row_revision :: int

record token_revision_row =
  rev_account :: int
  rev_profile :: string
  rev_machine :: string
  revision :: int

record reporter_position =
  pos_profile :: string
  pos_session :: string
  pos_model :: string
  pos_settings_hash :: string
  pos_day :: string
  pos_source :: string

record reporter_cursor =
  usage_after_id :: int
  token_after :: "reporter_position option"
  token_generation :: nat

record cursor_row =
  cur_id :: int
  cur_account :: int
  cur_machine :: string
  cur_destination :: string
  cur_state :: reporter_cursor

datatype stream_kind = UsageStream | TokenStream

record pending_chunk =
  chunk_request :: string
  chunk_body :: string
  chunk_rows :: nat

record pending_draft =
  draft_kind :: stream_kind
  draft_expected :: reporter_cursor
  draft_next :: reporter_cursor
  draft_chunks :: "pending_chunk list"

record pending_row =
  pend_id :: int
  pend_account :: int
  pend_machine :: string
  pend_destination :: string
  pend_draft :: pending_draft

text \<open>The peers Pulse rows are pulled from, and the records of them that were applied.\<close>

record peer_row =
  peer_account :: int
  peer_machine :: string
  peer_cursor :: "string option"
  peer_generation :: nat
  pages_applied :: nat
  records_applied :: nat
  peer_complete :: bool

record applied_row =
  applied_account :: int
  applied_machine :: string
  applied_key :: string
  applied_fingerprint :: string
  applied_at :: instant

section \<open>The store\<close>

record store =
  accounts :: "account list"
  machines :: "machine list"
  profiles :: "profile list"
  usage_snapshots :: "snapshot_row list"
  usage_windows :: "window_row list"
  context_sessions :: "context_session list"
  token_usage :: "token_row list"
  alert_subscriptions :: "subscription_row list"
  alert_events :: "alert_event list"
  alert_replies :: "alert_reply list"
  reset_jobs :: "reset_resume_job list"
  ingest_tokens :: "ingest_token list"
  ingest_replays :: "replay_row list"
  gemini_quotas :: "gemini_quota list"
  token_revisions :: "token_revision_row list"
  reporter_cursors :: "cursor_row list"
  reporter_pending :: "pending_row list"
  federation_peers :: "peer_row list"
  federation_records :: "applied_row list"
  last_snapshot_id :: int
  last_subscription_id :: int
  last_event_id :: int
  last_reply_id :: int
  last_job_id :: int
  last_cursor_id :: int
  last_pending_id :: int

definition empty_store :: store where
  "empty_store =
     \<lparr>accounts = [], machines = [], profiles = [], usage_snapshots = [], usage_windows = [],
      context_sessions = [], token_usage = [], alert_subscriptions = [], alert_events = [],
      alert_replies = [], reset_jobs = [], ingest_tokens = [], ingest_replays = [],
      gemini_quotas = [], token_revisions = [], reporter_cursors = [], reporter_pending = [],
      federation_peers = [], federation_records = [],
      last_snapshot_id = 0, last_subscription_id = 0, last_event_id = 0, last_reply_id = 0,
      last_job_id = 0, last_cursor_id = 0, last_pending_id = 0\<rparr>"

type_synonym 'a store_op = "store \<Rightarrow> pulse_error + 'a \<times> store"

definition constraint_violation :: pulse_error where
  "constraint_violation = new_error Conflict ''Pulse SQLite operation failed''"

lemma constraint_violation_kind [simp]: "err_kind constraint_violation = Conflict"
  by (simp add: constraint_violation_def)

definition account_exists :: "int \<Rightarrow> store \<Rightarrow> bool" where
  "account_exists acct st = exists_where (\<lambda>a. acct_id a = acct) (accounts st)"

definition profile_exists :: "int \<Rightarrow> string \<Rightarrow> store \<Rightarrow> bool" where
  "profile_exists acct name st =
     exists_where (\<lambda>p. prof_account p = acct \<and> prof_name p = name) (profiles st)"

definition machine_exists :: "int \<Rightarrow> string \<Rightarrow> store \<Rightarrow> bool" where
  "machine_exists acct name st =
     exists_where (\<lambda>m. mach_account m = acct \<and> mach_name m = name) (machines st)"

text \<open>\<open>query_limit\<close> with \<open>MAX_QUERY_ROWS\<close>.\<close>

definition query_limit :: "nat \<Rightarrow> nat pulse_result" where
  "query_limit n =
     (if n = 0 \<or> n > 10000
      then Inl (invalid_input ''query limit must be between 1 and 10000'') else Inr n)"

text \<open>\<open>as_i64\<close>: a count that must fit a SQLite INTEGER.\<close>

definition as_i64 :: "nat \<Rightarrow> string \<Rightarrow> int pulse_result" where
  "as_i64 v field =
     (if int v \<le> i64_max then Inr (int v)
      else Inl (invalid_input (field @ '' exceeds SQLite INTEGER'')))"

lemma query_limit_Inr [result_simps]: "query_limit n = Inr m \<longleftrightarrow> 0 < n \<and> n \<le> 10000 \<and> m = n"
  by (auto simp: query_limit_def)

lemma query_limit_Inl [result_simps]:
  "query_limit n = Inl e \<longleftrightarrow>
     \<not> (0 < n \<and> n \<le> 10000) \<and> e = invalid_input ''query limit must be between 1 and 10000''"
  by (auto simp: query_limit_def)

end
