(* ===== verification/Alert_Store.thy ===== *)
theory Alert_Store
  imports Pulse_Tables
begin

text \<open>
  Alert persistence of \<open>src/src/pulse/store/sqlite.rs\<close>: subscriptions (create, list, delete with
  its cascades), the transactional cooldown check of \<open>record_alert_if_due\<close>, acknowledgement and
  capped replies. The invariant part shows that keys, references, cooldown gaps and the reply cap
  hold after every sequence of these operations.
\<close>

section \<open>Subscriptions\<close>

definition alert_threshold_key :: "rat option \<Rightarrow> string" where
  "alert_threshold_key t = (case t of None \<Rightarrow> ''none'' | Some v \<Rightarrow> format_fixed 9 v)"

definition same_subscription_key :: "alert_subscription \<Rightarrow> subscription_row \<Rightarrow> bool" where
  "same_subscription_key s r \<longleftrightarrow>
     sub_account (subscription r) = sub_account s \<and> sub_profile (subscription r) = sub_profile s
     \<and> sub_type (subscription r) = sub_type s
     \<and> threshold_key r = alert_threshold_key (sub_threshold s)"

text \<open>
  The upsert: \<open>ON CONFLICT\<close> keeps the stored threshold, id and creation time and replaces the
  cooldown, the delivery and the enabled flag.
\<close>

definition upsert_subscription_row ::
    "alert_subscription \<Rightarrow> instant \<Rightarrow> store \<Rightarrow> store" where
  "upsert_subscription_row s created st =
     (if exists_where (same_subscription_key s) (alert_subscriptions st)
      then st\<lparr>alert_subscriptions := update_where (same_subscription_key s)
             (\<lambda>r. r\<lparr>subscription := (subscription r)\<lparr>cooldown_minutes := cooldown_minutes s,
                     sub_delivery := sub_delivery s, sub_enabled := sub_enabled s\<rparr>\<rparr>)
             (alert_subscriptions st)\<rparr>
      else st\<lparr>alert_subscriptions := alert_subscriptions st @
             [\<lparr>sub_id = last_subscription_id st + 1, subscription = s, sub_created_at = created,
               threshold_key = alert_threshold_key (sub_threshold s)\<rparr>],
             last_subscription_id := last_subscription_id st + 1\<rparr>)"

definition create_alert_subscription ::
    "alert_subscription \<Rightarrow> instant \<Rightarrow> stored_subscription store_op" where
  "create_alert_subscription s created st =
     and_then (subscription_validate s) (\<lambda>_.
     and_then (ensure (profile_exists (sub_account s) (sub_profile s) st) constraint_violation) (\<lambda>_.
       let st' = upsert_subscription_row s created st in
       case find (same_subscription_key s) (alert_subscriptions st') of
         None \<Rightarrow> Inl (new_error Storage ''Pulse SQLite operation failed'')
       | Some r \<Rightarrow> Inr (\<lparr>sub_id = sub_id r, subscription = s, sub_created_at = sub_created_at r\<rparr>, st')))"

definition stored_of_row :: "subscription_row \<Rightarrow> stored_subscription" where
  "stored_of_row r =
     \<lparr>sub_id = sub_id r, subscription = subscription r, sub_created_at = sub_created_at r\<rparr>"

definition list_alert_subscriptions :: "int \<Rightarrow> store \<Rightarrow> stored_subscription list" where
  "list_alert_subscriptions acct st =
     map stored_of_row
       (select_ordered (\<lambda>r. sub_account (subscription r) = acct) sub_id 10001 (alert_subscriptions st))"

text \<open>Deleting a subscription cascades to its events and to their replies.\<close>

definition delete_events :: "(alert_event \<Rightarrow> bool) \<Rightarrow> store \<Rightarrow> store" where
  "delete_events p st =
     (let gone = filter p (alert_events st) in
      st\<lparr>alert_events := delete_where p (alert_events st),
         alert_replies := delete_where (\<lambda>r. exists_where
             (\<lambda>e. event_id e = rep_event (reply_input r)
                  \<and> ev_account (event_input e) = rep_account (reply_input r)) gone)
           (alert_replies st)\<rparr>)"

definition delete_alert_subscription :: "int \<Rightarrow> int \<Rightarrow> bool store_op" where
  "delete_alert_subscription acct sid st =
     (let p = (\<lambda>r. sub_account (subscription r) = acct \<and> sub_id r = sid) in
      if exists_where p (alert_subscriptions st)
      then Inr (True, delete_events (\<lambda>e. ev_subscription (event_input e) = sid)
             (st\<lparr>alert_subscriptions := delete_where p (alert_subscriptions st)\<rparr>))
      else Inr (False, st))"

section \<open>Events\<close>

definition check_event_values :: "alert_event_input \<Rightarrow> unit pulse_result" where
  "check_event_values e =
     (case ev_type e of
        AuthenticationFailure \<Rightarrow>
          ensure (\<not> (ev_threshold e \<noteq> None \<or> ev_current e \<noteq> None))
            (invalid_input ''authentication alerts cannot contain threshold values'')
      | _ \<Rightarrow>
          (case (ev_current e, ev_threshold e) of
             (Some current, Some threshold) \<Rightarrow>
               ensure (\<not> current < threshold)
                 (invalid_input ''threshold alert current value is below its stored threshold'')
           | _ \<Rightarrow> Inl (invalid_input ''threshold alerts require threshold and current value'')))"

definition last_triggered :: "int \<Rightarrow> int \<Rightarrow> store \<Rightarrow> instant option" where
  "last_triggered acct sid st =
     (case select_ordered
             (\<lambda>e. ev_account (event_input e) = acct \<and> ev_subscription (event_input e) = sid)
             (\<lambda>e. (- triggered_at (event_input e), - event_id e)) 1 (alert_events st) of
        [] \<Rightarrow> None
      | e # _ \<Rightarrow> Some (triggered_at (event_input e)))"

definition cooldown_millis :: "alert_subscription \<Rightarrow> int" where
  "cooldown_millis s = int (cooldown_minutes s) * 60 * 1000"

definition check_event_subscription ::
    "alert_event_input \<Rightarrow> alert_subscription \<Rightarrow> unit pulse_result" where
  "check_event_subscription e s =
     (if sub_profile s \<noteq> ev_profile e \<or> sub_type s \<noteq> ev_type e
      then Inl (new_error Conflict ''alert event does not match its account-scoped subscription'')
      else if sub_threshold s \<noteq> ev_threshold e
      then Inl (new_error Conflict ''alert event threshold does not match its account-scoped subscription'')
      else check_event_values e)"

definition in_cooldown :: "alert_event_input \<Rightarrow> alert_subscription \<Rightarrow> store \<Rightarrow> bool" where
  "in_cooldown e s st =
     (case last_triggered (ev_account e) (ev_subscription e) st of
        None \<Rightarrow> False
      | Some prev \<Rightarrow> triggered_at e < saturate_i64 (prev + cooldown_millis s))"

definition insert_alert_event :: "alert_event_input \<Rightarrow> store \<Rightarrow> alert_event \<times> store" where
  "insert_alert_event e st =
     (let ev = \<lparr>event_id = last_event_id st + 1, event_input = e, acknowledged = False\<rparr> in
      (ev, st\<lparr>alert_events := alert_events st @ [ev], last_event_id := last_event_id st + 1\<rparr>))"

definition find_subscription :: "int \<Rightarrow> int \<Rightarrow> store \<Rightarrow> subscription_row option" where
  "find_subscription acct sid st =
     find (\<lambda>r. sub_account (subscription r) = acct \<and> sub_id r = sid) (alert_subscriptions st)"

definition record_alert_if_due :: "alert_event_input \<Rightarrow> alert_event option store_op" where
  "record_alert_if_due e st =
     (if ev_message e = [] \<or> length (ev_message e) > 4096
      then Inl (invalid_input ''alert message must be between 1 and 4096 bytes'')
      else
        and_then (ok_or (new_error NotFound ''alert subscription not found'')
            (find_subscription (ev_account e) (ev_subscription e) st)) (\<lambda>r.
        if \<not> sub_enabled (subscription r) then Inr (None, st)
        else and_then (check_event_subscription e (subscription r)) (\<lambda>_.
          if in_cooldown e (subscription r) st then Inr (None, st)
          else (case insert_alert_event e st of (ev, st') \<Rightarrow> Inr (Some ev, st')))))"

definition list_alert_events :: "int \<Rightarrow> bool option \<Rightarrow> store \<Rightarrow> alert_event list" where
  "list_alert_events acct ack st =
     select_ordered
       (\<lambda>e. ev_account (event_input e) = acct
            \<and> (case ack of None \<Rightarrow> True | Some a \<Rightarrow> acknowledged e = a))
       (\<lambda>e. (- triggered_at (event_input e), - event_id e)) 10001 (alert_events st)"

definition is_event :: "int \<Rightarrow> int \<Rightarrow> alert_event \<Rightarrow> bool" where
  "is_event acct eid e \<longleftrightarrow> ev_account (event_input e) = acct \<and> event_id e = eid"

definition acknowledge_event :: "int \<Rightarrow> int \<Rightarrow> store \<Rightarrow> store" where
  "acknowledge_event acct eid st =
     st\<lparr>alert_events := update_where (is_event acct eid) (\<lambda>e. e\<lparr>acknowledged := True\<rparr>) (alert_events st)\<rparr>"

definition acknowledge_alert :: "int \<Rightarrow> int \<Rightarrow> bool store_op" where
  "acknowledge_alert acct eid st =
     Inr (exists_where (is_event acct eid) (alert_events st), acknowledge_event acct eid st)"

section \<open>Replies\<close>

definition validate_reply :: "alert_reply_input \<Rightarrow> unit pulse_result" where
  "validate_reply r =
     ensure (\<not> (rep_event r \<le> 0 \<or> rep_message r = [] \<or> length (rep_message r) > 2048
        \<or> list_ex (\<lambda>c. is_control c \<and> \<not> (c = 10 \<or> c = 13 \<or> c = 9)) (code_points (rep_message r))))
       (invalid_input ''alert reply must be nonempty, bounded safe text'')"

definition reply_count :: "int \<Rightarrow> int \<Rightarrow> store \<Rightarrow> nat" where
  "reply_count acct eid st =
     count_where (\<lambda>r. rep_account (reply_input r) = acct \<and> rep_event (reply_input r) = eid)
       (alert_replies st)"

definition reply_to_alert :: "alert_reply_input \<Rightarrow> alert_reply option store_op" where
  "reply_to_alert r st =
     and_then (validate_reply r) (\<lambda>_.
     if \<not> exists_where (is_event (rep_account r) (rep_event r)) (alert_events st) then Inr (None, st)
     else
       let st1 = acknowledge_event (rep_account r) (rep_event r) st in
       if reply_count (rep_account r) (rep_event r) st1 \<ge> 256
       then Inl (new_error Conflict ''alert reply count reached its event cap'')
       else
         let stored = \<lparr>reply_id = last_reply_id st1 + 1, reply_input = r\<rparr> in
         Inr (Some stored, st1\<lparr>alert_replies := alert_replies st1 @ [stored],
                               last_reply_id := last_reply_id st1 + 1\<rparr>))"

definition list_alert_replies :: "int \<Rightarrow> int \<Rightarrow> store \<Rightarrow> alert_reply list" where
  "list_alert_replies acct eid st =
     select_ordered (\<lambda>r. rep_account (reply_input r) = acct \<and> rep_event (reply_input r) = eid)
       (\<lambda>r. (replied_at (reply_input r), reply_id r)) 256 (alert_replies st)"

section \<open>Runs of the alert operations\<close>

datatype alert_op =
    CreateSubscription alert_subscription instant
  | DeleteSubscription int int
  | RecordEvent alert_event_input
  | AcknowledgeEvent int int
  | ReplyToEvent alert_reply_input

text \<open>The store after an operation: unchanged when it fails.\<close>

definition commit :: "store \<Rightarrow> pulse_error + 'a \<times> store \<Rightarrow> store" where
  "commit st r = (case r of Inl _ \<Rightarrow> st | Inr (_, st') \<Rightarrow> st')"

fun alert_step :: "alert_op \<Rightarrow> store \<Rightarrow> store" where
  "alert_step (CreateSubscription s t) st = commit st (create_alert_subscription s t st)"
| "alert_step (DeleteSubscription acct sid) st = commit st (delete_alert_subscription acct sid st)"
| "alert_step (RecordEvent e) st = commit st (record_alert_if_due e st)"
| "alert_step (AcknowledgeEvent acct eid) st = commit st (acknowledge_alert acct eid st)"
| "alert_step (ReplyToEvent r) st = commit st (reply_to_alert r st)"


section \<open>Invariant\<close>

definition subscriptions_ok :: "store \<Rightarrow> bool" where
  "subscriptions_ok st \<longleftrightarrow>
     distinct (map sub_id (alert_subscriptions st))
     \<and> (\<forall>r \<in> set (alert_subscriptions st). 0 < sub_id r \<and> sub_id r \<le> last_subscription_id st
          \<and> subscription_validate (subscription r) = Inr ())
     \<and> 0 \<le> last_subscription_id st"

definition event_of_row :: "alert_event_input \<Rightarrow> subscription_row \<Rightarrow> bool" where
  "event_of_row e r \<longleftrightarrow>
     sub_id r = ev_subscription e \<and> sub_account (subscription r) = ev_account e
     \<and> sub_profile (subscription r) = ev_profile e \<and> sub_type (subscription r) = ev_type e
     \<and> sub_threshold (subscription r) = ev_threshold e"

definition event_gap :: "alert_event \<Rightarrow> alert_event \<Rightarrow> bool" where
  "event_gap a b \<longleftrightarrow>
     ev_subscription (event_input a) = ev_subscription (event_input b) \<longrightarrow>
       triggered_at (event_input a) + 60000 \<le> triggered_at (event_input b)"

definition events_ok :: "store \<Rightarrow> bool" where
  "events_ok st \<longleftrightarrow>
     distinct (map event_id (alert_events st))
     \<and> (\<forall>e \<in> set (alert_events st). event_id e \<le> last_event_id st
          \<and> (\<exists>r \<in> set (alert_subscriptions st). event_of_row (event_input e) r)
          \<and> check_event_values (event_input e) = Inr ())
     \<and> sorted_wrt event_gap (alert_events st)"

definition replies_ok :: "store \<Rightarrow> bool" where
  "replies_ok st \<longleftrightarrow>
     (\<forall>r \<in> set (alert_replies st). \<exists>e \<in> set (alert_events st). acknowledged e
        \<and> is_event (rep_account (reply_input r)) (rep_event (reply_input r)) e)
     \<and> (\<forall>acct eid. reply_count acct eid st \<le> 256)"

definition alert_store_ok :: "store \<Rightarrow> bool" where
  "alert_store_ok st \<longleftrightarrow> subscriptions_ok st \<and> events_ok st \<and> replies_ok st"

text \<open>
  Instants are jiff timestamps, whose documented range is the years -9999 to 9999; the store
  invariant needs only that adding the largest cooldown does not leave \<open>i64\<close>.
\<close>

definition instant_in_range :: "instant \<Rightarrow> bool" where
  "instant_in_range t \<longleftrightarrow> \<bar>t\<bar> \<le> 2 ^ 60"

fun op_in_range :: "alert_op \<Rightarrow> bool" where
  "op_in_range (RecordEvent e) \<longleftrightarrow> instant_in_range (triggered_at e)"
| "op_in_range (CreateSubscription s t) \<longleftrightarrow> cooldown_minutes s \<le> u32_max"
| "op_in_range _ \<longleftrightarrow> True"

definition rows_in_range :: "store \<Rightarrow> bool" where
  "rows_in_range st \<longleftrightarrow>
     (\<forall>e \<in> set (alert_events st). instant_in_range (triggered_at (event_input e)))
     \<and> (\<forall>r \<in> set (alert_subscriptions st). cooldown_minutes (subscription r) \<le> u32_max)"

lemma subscription_row_kept:
  "\<exists>r \<in> set (alert_subscriptions st). event_of_row e r \<Longrightarrow>
   \<exists>r \<in> set (alert_subscriptions (upsert_subscription_row s t st)). event_of_row e r"
  using update_where_ex [of "alert_subscriptions st" "event_of_row e" "same_subscription_key s"]
  by (auto simp: upsert_subscription_row_def event_of_row_def)

lemma upsert_subscription_frame [simp]:
  "alert_events (upsert_subscription_row s t st) = alert_events st"
  "alert_replies (upsert_subscription_row s t st) = alert_replies st"
  "last_event_id (upsert_subscription_row s t st) = last_event_id st"
  "profiles (upsert_subscription_row s t st) = profiles st"
  by (simp_all add: upsert_subscription_row_def)

lemma upsert_subscription_ok:
  assumes ok: "subscriptions_ok st" and v: "subscription_validate s = Inr ()"
  shows "subscriptions_ok (upsert_subscription_row s t st)"
proof (cases "exists_where (same_subscription_key s) (alert_subscriptions st)")
  case True
  let ?f = "\<lambda>r. r\<lparr>subscription := (subscription r)\<lparr>cooldown_minutes := cooldown_minutes s,
                     sub_delivery := sub_delivery s, sub_enabled := sub_enabled s\<rparr>\<rparr>"
  have "subscription_validate (subscription (?f r)) = Inr ()"
    if "r \<in> set (alert_subscriptions st)" "same_subscription_key s r" for r
  proof -
    have "subscription_validate (subscription r) = Inr ()" using ok that(1) by (simp add: subscriptions_ok_def)
    then show ?thesis using v that(2)
      by (auto simp: subscription_validate_Inr same_subscription_key_def)
  qed
  then show ?thesis
    using ok True
    by (auto simp: subscriptions_ok_def upsert_subscription_row_def set_update_where map_update_where)
next
  case False
  then show ?thesis using ok v
    by (fastforce simp: subscriptions_ok_def upsert_subscription_row_def)
qed

lemma create_ok:
  assumes "alert_store_ok st" and "create_alert_subscription s t st = Inr (r, st')"
  shows "alert_store_ok st'"
proof -
  have v: "subscription_validate s = Inr ()" and st': "st' = upsert_subscription_row s t st"
    using assms(2) by (auto simp: create_alert_subscription_def result_simps Let_def split: option.splits)
  have "subscriptions_ok st'"
    unfolding st' using assms(1) v by (intro upsert_subscription_ok) (simp_all add: alert_store_ok_def)
  moreover have "events_ok st'"
    using assms(1) subscription_row_kept by (simp add: alert_store_ok_def events_ok_def st')
  moreover have "replies_ok st'"
    using assms(1) by (simp add: alert_store_ok_def replies_ok_def reply_count_def st')
  ultimately show ?thesis by (simp add: alert_store_ok_def)
qed

lemma delete_events_frame [simp]:
  "alert_subscriptions (delete_events p st) = alert_subscriptions st"
  "alert_events (delete_events p st) = delete_where p (alert_events st)"
  "last_event_id (delete_events p st) = last_event_id st"
  "last_subscription_id (delete_events p st) = last_subscription_id st"
  by (simp_all add: delete_events_def Let_def)

lemma delete_events_replies:
  assumes "r \<in> set (alert_replies (delete_events p st))"
  shows "r \<in> set (alert_replies st)"
    and "\<And>e. e \<in> set (alert_events st) \<Longrightarrow> is_event (rep_account (reply_input r)) (rep_event (reply_input r)) e \<Longrightarrow> \<not> p e"
  using assms by (auto simp: delete_events_def Let_def set_delete_where exists_where_def is_event_def)

lemma delete_events_replies_ok: "replies_ok st \<Longrightarrow> replies_ok (delete_events p st)"
proof -
  assume ok: "replies_ok st"
  have "reply_count acct eid (delete_events p st) \<le> reply_count acct eid st" for acct eid
    unfolding reply_count_def delete_events_def Let_def by (simp add: count_where_delete_le)
  then have "\<forall>acct eid. reply_count acct eid (delete_events p st) \<le> 256"
    using ok unfolding replies_ok_def by (meson le_trans)
  moreover have "\<exists>e \<in> set (alert_events (delete_events p st)). acknowledged e
      \<and> is_event (rep_account (reply_input r)) (rep_event (reply_input r)) e"
    if r: "r \<in> set (alert_replies (delete_events p st))" for r
    using ok delete_events_replies [OF r] unfolding replies_ok_def
    by (fastforce simp: set_delete_where)
  ultimately show ?thesis by (simp add: replies_ok_def)
qed

lemma delete_subscription_ok:
  assumes "alert_store_ok st" and "delete_alert_subscription acct sid st = Inr (b, st')"
  shows "alert_store_ok st'"
proof (cases "exists_where (\<lambda>r. sub_account (subscription r) = acct \<and> sub_id r = sid) (alert_subscriptions st)")
  case True
  let ?p = "\<lambda>r. sub_account (subscription r) = acct \<and> sub_id r = sid"
  let ?st = "st\<lparr>alert_subscriptions := delete_where ?p (alert_subscriptions st)\<rparr>"
  have st': "st' = delete_events (\<lambda>e. ev_subscription (event_input e) = sid) ?st"
    using assms(2) True by (simp add: delete_alert_subscription_def)
  have "subscriptions_ok st'"
    using assms(1) unfolding st' alert_store_ok_def subscriptions_ok_def
    by (auto simp: set_delete_where delete_where_def distinct_map_filter)
  moreover have "events_ok st'"
    using assms(1) unfolding st' alert_store_ok_def events_ok_def
    by (fastforce simp: set_delete_where delete_where_def distinct_map_filter sorted_wrt_filter
        event_of_row_def)
  moreover have "replies_ok ?st" using assms(1) by (simp add: alert_store_ok_def replies_ok_def reply_count_def)
  then have "replies_ok st'" unfolding st' by (rule delete_events_replies_ok)
  ultimately show ?thesis by (simp add: alert_store_ok_def)
next
  case False
  then show ?thesis using assms by (auto simp: delete_alert_subscription_def)
qed

lemma last_triggered_max:
  assumes "e \<in> set (alert_events st)" and "ev_account (event_input e) = acct"
    and "ev_subscription (event_input e) = sid"
  shows "\<exists>t e'. last_triggered acct sid st = Some t \<and> triggered_at (event_input e) \<le> t
    \<and> e' \<in> set (alert_events st) \<and> t = triggered_at (event_input e')"
proof -
  let ?p = "\<lambda>e. ev_account (event_input e) = acct \<and> ev_subscription (event_input e) = sid"
  let ?k = "\<lambda>e. (- triggered_at (event_input e), - event_id e)"
  have "?p e" using assms by simp
  from select_ordered_first [where p = ?p and key = ?k and n = 1, OF assms(1) this] obtain h rest where
    h: "select_ordered ?p ?k 1 (alert_events st) = h # rest" "?k h \<le> ?k e" "h \<in> set (alert_events st)"
    by auto
  then have "triggered_at (event_input e) \<le> triggered_at (event_input h)" by (auto simp: less_eq_prod_def)
  moreover have "last_triggered acct sid st = Some (triggered_at (event_input h))"
    by (simp only: last_triggered_def h(1) list.case)
  ultimately show ?thesis using h(3) by blast
qed

lemma record_cases:
  assumes "record_alert_if_due e st = Inr (ev, st')"
  shows "st' = st \<and> ev = None \<or>
    (\<exists>r. find_subscription (ev_account e) (ev_subscription e) st = Some r
       \<and> sub_enabled (subscription r) \<and> check_event_subscription e (subscription r) = Inr ()
       \<and> \<not> in_cooldown e (subscription r) st
       \<and> ev = Some (fst (insert_alert_event e st)) \<and> st' = snd (insert_alert_event e st))"
  using assms
  by (auto simp: record_alert_if_due_def result_simps insert_alert_event_def Let_def split: if_splits)

lemma find_subscription_facts:
  "find_subscription acct sid st = Some r \<Longrightarrow>
     r \<in> set (alert_subscriptions st) \<and> sub_id r = sid \<and> sub_account (subscription r) = acct"
  by (auto simp: find_subscription_def find_Some_iff)

lemma record_gap:
  assumes ok: "alert_store_ok st" and range: "rows_in_range st"
    and r: "find_subscription (ev_account e) (ev_subscription e) st = Some r"
    and c: "\<not> in_cooldown e (subscription r) st"
    and x: "x \<in> set (alert_events st)" "ev_subscription (event_input x) = ev_subscription e"
  shows "triggered_at (event_input x) + 60000 \<le> triggered_at e"
proof -
  note f = find_subscription_facts [OF r]
  obtain r' where r': "r' \<in> set (alert_subscriptions st)" "event_of_row (event_input x) r'"
    using ok x(1) by (auto simp: alert_store_ok_def events_ok_def)
  then have "sub_id r' = sub_id r" using f x(2) by (simp add: event_of_row_def)
  then have "r' = r" using ok f r'(1)
    by (auto simp: alert_store_ok_def subscriptions_ok_def distinct_map inj_on_def)
  then have "ev_account (event_input x) = ev_account e" using r'(2) f by (simp add: event_of_row_def)
  from last_triggered_max [OF x(1) this x(2)] obtain t y where
    t: "last_triggered (ev_account e) (ev_subscription e) st = Some t"
       "triggered_at (event_input x) \<le> t"
       "y \<in> set (alert_events st)" "t = triggered_at (event_input y)" by blast
  have "\<bar>t\<bar> \<le> 2 ^ 60" using range t(3,4) by (simp add: rows_in_range_def instant_in_range_def)
  moreover have "cooldown_minutes (subscription r) \<le> u32_max" "0 < cooldown_minutes (subscription r)"
    using range f ok
    by (auto simp: rows_in_range_def alert_store_ok_def subscriptions_ok_def subscription_validate_Inr)
  then have "60000 \<le> cooldown_millis (subscription r)" "cooldown_millis (subscription r) \<le> 2 ^ 60"
    by (auto simp: cooldown_millis_def u32_max_def)
  ultimately have "saturate_i64 (t + cooldown_millis (subscription r)) = t + cooldown_millis (subscription r)"
    by (intro saturate_i64_id) (auto simp: i64_ok_def i64_min_def i64_max_def)
  then show ?thesis using c t(1,2) \<open>60000 \<le> cooldown_millis (subscription r)\<close>
    by (simp add: in_cooldown_def)
qed

lemma insert_event_ok:
  assumes ok: "alert_store_ok st" and range: "rows_in_range st"
    and r: "find_subscription (ev_account e) (ev_subscription e) st = Some r"
    and chk: "check_event_subscription e (subscription r) = Inr ()"
    and c: "\<not> in_cooldown e (subscription r) st"
  shows "alert_store_ok (snd (insert_alert_event e st))"
proof -
  let ?st = "snd (insert_alert_event e st)"
  note f = find_subscription_facts [OF r]
  have st: "alert_subscriptions ?st = alert_subscriptions st" "alert_replies ?st = alert_replies st"
      "last_subscription_id ?st = last_subscription_id st" "last_event_id ?st = last_event_id st + 1"
      "alert_events ?st = alert_events st @
         [\<lparr>event_id = last_event_id st + 1, event_input = e, acknowledged = False\<rparr>]"
    by (simp_all add: insert_alert_event_def Let_def)
  have m: "event_of_row e r" "check_event_values e = Inr ()"
    using chk f by (auto simp: event_of_row_def check_event_subscription_def split: if_splits)
  have "events_ok ?st"
    using ok m f record_gap [OF ok range r c]
    unfolding alert_store_ok_def events_ok_def st
    by (fastforce simp: sorted_wrt_append event_gap_def)
  moreover have "subscriptions_ok ?st" using ok by (simp add: alert_store_ok_def subscriptions_ok_def st)
  moreover have "replies_ok ?st" using ok by (fastforce simp: alert_store_ok_def replies_ok_def st reply_count_def)
  ultimately show ?thesis by (simp add: alert_store_ok_def)
qed

lemma acknowledge_frame [simp]:
  "alert_subscriptions (acknowledge_event a i st) = alert_subscriptions st"
  "alert_replies (acknowledge_event a i st) = alert_replies st"
  "last_subscription_id (acknowledge_event a i st) = last_subscription_id st"
  "last_event_id (acknowledge_event a i st) = last_event_id st"
  by (simp_all add: acknowledge_event_def)

lemma acknowledge_events:
  "alert_events (acknowledge_event a i st) =
     update_where (is_event a i) (\<lambda>e. e\<lparr>acknowledged := True\<rparr>) (alert_events st)"
  by (simp add: acknowledge_event_def)

lemma acknowledge_ok:
  assumes "alert_store_ok st"
  shows "alert_store_ok (acknowledge_event a i st)"
proof -
  have inputs: "map event_input (alert_events (acknowledge_event a i st)) = map event_input (alert_events st)"
    and ids: "map event_id (alert_events (acknowledge_event a i st)) = map event_id (alert_events st)"
    by (simp_all add: acknowledge_event_def map_update_where)
  have input: "event_input (if c then x\<lparr>acknowledged := True\<rparr> else x) = event_input x" for c x
    by simp
  have "sorted_wrt event_gap (alert_events st)"
    using assms by (simp add: alert_store_ok_def events_ok_def)
  then have "sorted_wrt event_gap (alert_events (acknowledge_event a i st))"
    by (simp add: acknowledge_event_def update_where_def sorted_wrt_map event_gap_def [abs_def] input)
  then have "events_ok (acknowledge_event a i st)"
    using assms ids unfolding alert_store_ok_def events_ok_def
    by (auto simp: acknowledge_event_def set_update_where)
  moreover have "replies_ok (acknowledge_event a i st)"
    unfolding replies_ok_def
  proof (intro conjI ballI allI)
    fix r assume "r \<in> set (alert_replies (acknowledge_event a i st))"
    then have "\<exists>e \<in> set (alert_events st). acknowledged e
        \<and> is_event (rep_account (reply_input r)) (rep_event (reply_input r)) e"
      using assms by (simp add: alert_store_ok_def replies_ok_def)
    then show "\<exists>e \<in> set (alert_events (acknowledge_event a i st)). acknowledged e
        \<and> is_event (rep_account (reply_input r)) (rep_event (reply_input r)) e"
      unfolding acknowledge_events by (rule update_where_ex) (simp add: is_event_def)
  next
    fix acct eid
    show "reply_count acct eid (acknowledge_event a i st) \<le> 256"
      using assms by (simp add: alert_store_ok_def replies_ok_def reply_count_def)
  qed
  ultimately show ?thesis using assms by (simp add: alert_store_ok_def subscriptions_ok_def)
qed

lemma reply_ok:
  assumes "alert_store_ok st" and "reply_to_alert r st = Inr (x, st')"
  shows "alert_store_ok st'"
proof (cases "exists_where (is_event (rep_account r) (rep_event r)) (alert_events st)")
  case False
  then show ?thesis using assms by (auto simp: reply_to_alert_def result_simps)
next
  case True
  let ?st1 = "acknowledge_event (rep_account r) (rep_event r) st"
  let ?new = "\<lparr>reply_id = last_reply_id ?st1 + 1, reply_input = r\<rparr>"
  have ok1: "alert_store_ok ?st1" using assms(1) by (rule acknowledge_ok)
  have st': "st' = ?st1\<lparr>alert_replies := alert_replies ?st1 @ [?new], last_reply_id := last_reply_id ?st1 + 1\<rparr>"
    and cap: "reply_count (rep_account r) (rep_event r) ?st1 < 256"
    using assms(2) True by (auto simp: reply_to_alert_def result_simps Let_def split: if_splits)
  have target: "\<exists>e \<in> set (alert_events ?st1). acknowledged e \<and> is_event (rep_account r) (rep_event r) e"
  proof -
    obtain e where e: "e \<in> set (alert_events st)" "is_event (rep_account r) (rep_event r) e"
      using True by (auto simp: exists_where_def)
    then have "e\<lparr>acknowledged := True\<rparr> \<in> set (alert_events ?st1)"
      by (auto simp: acknowledge_event_def set_update_where intro: image_eqI [of _ _ e])
    moreover have "is_event (rep_account r) (rep_event r) (e\<lparr>acknowledged := True\<rparr>)"
      using e(2) by (simp add: is_event_def)
    ultimately show ?thesis by (intro bexI [of _ "e\<lparr>acknowledged := True\<rparr>"]) simp_all
  qed
  have "replies_ok st'"
    unfolding replies_ok_def
  proof (intro conjI ballI allI)
    fix q assume "q \<in> set (alert_replies st')"
    then have "q \<in> set (alert_replies ?st1) \<or> q = ?new" by (auto simp: st')
    then show "\<exists>e \<in> set (alert_events st'). acknowledged e
        \<and> is_event (rep_account (reply_input q)) (rep_event (reply_input q)) e"
    proof
      assume "q \<in> set (alert_replies ?st1)"
      then show ?thesis using ok1 by (simp add: alert_store_ok_def replies_ok_def st' del: acknowledge_frame)
    qed (use target in \<open>simp add: st'\<close>)
  next
    fix acct eid
    have "reply_count acct eid ?st1 \<le> 256" using ok1 by (simp add: alert_store_ok_def replies_ok_def)
    then show "reply_count acct eid st' \<le> 256"
      using cap by (auto simp: st' reply_count_def)
  qed
  moreover have "subscriptions_ok st'" "events_ok st'"
    using ok1 by (simp_all add: st' alert_store_ok_def subscriptions_ok_def events_ok_def)
  ultimately show ?thesis by (simp add: alert_store_ok_def)
qed


text \<open>One operation, and then every sequence of them, keeps the invariant.\<close>

lemma commit_ok:
  "P st \<Longrightarrow> (\<And>x st'. r = Inr (x, st') \<Longrightarrow> P st') \<Longrightarrow> P (commit st r)"
  by (auto simp: commit_def split: sum.splits)

lemma record_ok:
  assumes "alert_store_ok st" and "rows_in_range st" and "record_alert_if_due e st = Inr (ev, st')"
  shows "alert_store_ok st'"
  using record_cases [OF assms(3)] assms(1,2) insert_event_ok by blast

lemma acknowledge_alert_ok:
  "alert_store_ok st \<Longrightarrow> acknowledge_alert a i st = Inr (b, st') \<Longrightarrow> alert_store_ok st'"
  using acknowledge_ok by (auto simp: acknowledge_alert_def)

lemma alert_step_ok:
  assumes "alert_store_ok st" and "rows_in_range st"
  shows "alert_store_ok (alert_step op st)"
  by (cases op; simp only: alert_step.simps; rule commit_ok [of alert_store_ok, OF assms(1)])
    (erule create_ok [OF assms(1)] delete_subscription_ok [OF assms(1)] record_ok [OF assms]
       acknowledge_alert_ok [OF assms(1)] reply_ok [OF assms(1)])+

lemma upsert_in_range:
  assumes "rows_in_range st" and "cooldown_minutes s \<le> u32_max"
  shows "rows_in_range (upsert_subscription_row s t st)"
  using assms by (auto simp: rows_in_range_def upsert_subscription_row_def set_update_where)

lemma acknowledge_in_range: "rows_in_range st \<Longrightarrow> rows_in_range (acknowledge_event a i st)"
  by (auto simp: rows_in_range_def acknowledge_event_def set_update_where)

lemma alert_step_in_range:
  assumes "rows_in_range st" and "op_in_range op"
  shows "rows_in_range (alert_step op st)"
proof (cases op)
  case (CreateSubscription s t)
  show ?thesis unfolding CreateSubscription alert_step.simps
  proof (rule commit_ok [of rows_in_range, OF assms(1)])
    fix x st' assume "create_alert_subscription s t st = Inr (x, st')"
    then have "st' = upsert_subscription_row s t st"
      by (auto simp: create_alert_subscription_def result_simps Let_def split: option.splits)
    then show "rows_in_range st'" using upsert_in_range assms CreateSubscription by simp
  qed
next
  case (DeleteSubscription acct sid)
  show ?thesis unfolding DeleteSubscription alert_step.simps
  proof (rule commit_ok [of rows_in_range, OF assms(1)])
    fix x st' assume "delete_alert_subscription acct sid st = Inr (x, st')"
    then show "rows_in_range st'" using assms(1)
      by (auto simp: delete_alert_subscription_def Let_def rows_in_range_def set_delete_where
          split: if_splits)
  qed
next
  case (RecordEvent e)
  show ?thesis unfolding RecordEvent alert_step.simps
  proof (rule commit_ok [of rows_in_range, OF assms(1)])
    fix ev st' assume r: "record_alert_if_due e st = Inr (ev, st')"
    show "rows_in_range st'"
      using record_cases [OF r] assms RecordEvent
      by (auto simp: insert_alert_event_def Let_def rows_in_range_def)
  qed
next
  case (AcknowledgeEvent acct eid)
  then show ?thesis using assms acknowledge_in_range by (simp add: acknowledge_alert_def commit_def)
next
  case (ReplyToEvent r)
  show ?thesis unfolding ReplyToEvent alert_step.simps
  proof (rule commit_ok [of rows_in_range, OF assms(1)])
    fix x st' assume x: "reply_to_alert r st = Inr (x, st')"
    let ?st1 = "acknowledge_event (rep_account r) (rep_event r) st"
    have "st' = st \<or> alert_events st' = alert_events ?st1 \<and> alert_subscriptions st' = alert_subscriptions ?st1"
      using x by (auto simp: reply_to_alert_def result_simps Let_def split: if_splits)
    then show "rows_in_range st'"
      using assms(1) acknowledge_in_range [OF assms(1), of "rep_account r" "rep_event r"]
      by (auto simp: rows_in_range_def)
  qed
qed

definition alert_run :: "alert_op list \<Rightarrow> store \<Rightarrow> store" where
  "alert_run ops st = fold alert_step ops st"

lemma alert_run_ok:
  assumes "alert_store_ok st" and "rows_in_range st" and "\<forall>op \<in> set ops. op_in_range op"
  shows "alert_store_ok (alert_run ops st) \<and> rows_in_range (alert_run ops st)"
  using assms unfolding alert_run_def
  by (induction ops arbitrary: st) (simp_all add: alert_step_ok alert_step_in_range)

text \<open>A store whose alert tables are empty satisfies the invariant.\<close>

definition no_alerts :: "store \<Rightarrow> bool" where
  "no_alerts st \<longleftrightarrow> alert_subscriptions st = [] \<and> alert_events st = [] \<and> alert_replies st = []
     \<and> last_subscription_id st = 0"

lemma no_alerts_ok: "no_alerts st \<Longrightarrow> alert_store_ok st \<and> rows_in_range st"
  by (simp add: no_alerts_def alert_store_ok_def subscriptions_ok_def events_ok_def replies_ok_def
      rows_in_range_def reply_count_def)


section \<open>Properties\<close>

lemma sorted_wrt_distinct_pair:
  assumes "sorted_wrt R xs" and "x \<in> set xs" and "y \<in> set xs" and "x \<noteq> y"
  shows "R x y \<or> R y x"
  using assms by (induction xs) auto


definition alert_example_store :: store where
  "alert_example_store = empty_store\<lparr>accounts := [\<lparr>acct_id = 1, identity = ''op'', acct_display_name = None\<rparr>],
     profiles := [example_profile]\<rparr>"

definition example_subscription :: alert_subscription where
  "example_subscription =
     \<lparr>sub_account = 1, sub_profile = ''deepseek'', sub_type = SevenDayThreshold, sub_threshold = Some 80,
      cooldown_minutes = 30, sub_delivery = Some Channel, sub_enabled = True\<rparr>"

definition example_event :: "instant \<Rightarrow> alert_event_input" where
  "example_event t =
     \<lparr>ev_account = 1, ev_subscription = 1, ev_profile = ''deepseek'', ev_type = SevenDayThreshold,
      ev_message = ''x'', ev_current = Some 90, ev_threshold = Some 80, triggered_at = t\<rparr>"

definition example_reply :: alert_reply_input where
  "example_reply = \<lparr>rep_account = 1, rep_event = 1, rep_message = ''ok'', replied_at = 5\<rparr>"

definition example_alert_ops :: "alert_op list" where
  "example_alert_ops =
     [CreateSubscription example_subscription 0, RecordEvent (example_event 1000),
      RecordEvent (example_event 2000), RecordEvent (example_event 1801000),
      ReplyToEvent example_reply]"

definition example_row :: subscription_row where
  "example_row = \<lparr>sub_id = 1, subscription = example_subscription, sub_created_at = 0,
     threshold_key = alert_threshold_key (sub_threshold example_subscription)\<rparr>"

lemma alert_example_no_alerts: "no_alerts alert_example_store"
  by (simp add: no_alerts_def alert_example_store_def empty_store_def)

lemma example_subscription_valid: "subscription_validate example_subscription = Inr ()"
  by (simp add: subscription_validate_Inr example_subscription_def)

lemma alert_example_tables [simp]:
  "alert_subscriptions alert_example_store = []" "alert_events alert_example_store = []"
  "alert_replies alert_example_store = []" "last_subscription_id alert_example_store = 0"
  "last_event_id alert_example_store = 0" "last_reply_id alert_example_store = 0"
  "profile_exists 1 ''deepseek'' alert_example_store"
  by (simp_all add: alert_example_store_def empty_store_def profile_exists_def exists_where_def
      example_profile_def)

lemma example_row_key: "same_subscription_key example_subscription example_row"
  by (simp add: same_subscription_key_def example_row_def)

lemma alert_example_created:
  "alert_step (CreateSubscription example_subscription 0) alert_example_store =
     alert_example_store\<lparr>alert_subscriptions := [example_row], last_subscription_id := 1\<rparr>"
proof -
  have "upsert_subscription_row example_subscription 0 alert_example_store =
      alert_example_store\<lparr>alert_subscriptions := [example_row], last_subscription_id := 1\<rparr>"
    by (simp add: upsert_subscription_row_def exists_where_def example_row_def)
  moreover have "profile_exists (sub_account example_subscription) (sub_profile example_subscription)
      alert_example_store"
    by (simp add: example_subscription_def)
  ultimately show ?thesis
    by (simp add: create_alert_subscription_def example_subscription_valid commit_def
        example_row_key)
qed

lemma record_example:
  assumes "alert_subscriptions st = [example_row]"
  shows "record_alert_if_due (example_event t) st =
    (if in_cooldown (example_event t) example_subscription st then Inr (None, st)
     else Inr (Some (fst (insert_alert_event (example_event t) st)),
               snd (insert_alert_event (example_event t) st)))"
  by (simp add: record_alert_if_due_def find_subscription_def assms example_row_def
      example_subscription_def example_event_def check_event_subscription_def check_event_values_def
      split: prod.split)

lemma in_cooldown_example:
  "in_cooldown (example_event t) example_subscription st \<longleftrightarrow>
     (case last_triggered 1 1 st of None \<Rightarrow> False | Some prev \<Rightarrow> t < saturate_i64 (prev + 1800000))"
  by (simp add: in_cooldown_def example_event_def example_subscription_def cooldown_millis_def
      split: option.split)

lemma record_example_step:
  assumes "alert_subscriptions st = [example_row]"
  shows "alert_step (RecordEvent (example_event t)) st =
    (if in_cooldown (example_event t) example_subscription st then st
     else snd (insert_alert_event (example_event t) st))"
  by (simp add: record_example [OF assms] commit_def)

lemma alert_example_run:
  "alert_events (alert_run example_alert_ops alert_example_store) =
     [\<lparr>event_id = 1, event_input = example_event 1000, acknowledged = True\<rparr>,
      \<lparr>event_id = 2, event_input = example_event 1801000, acknowledged = False\<rparr>]"
  "map reply_input (alert_replies (alert_run example_alert_ops alert_example_store)) = [example_reply]"
proof -
  define s1 where "s1 = alert_example_store\<lparr>alert_subscriptions := [example_row], last_subscription_id := 1\<rparr>"
  define e1 e2 where "e1 = \<lparr>event_id = 1, event_input = example_event 1000, acknowledged = False\<rparr>"
    and "e2 = \<lparr>event_id = 2, event_input = example_event 1801000, acknowledged = False\<rparr>"
  define s2 s3 where "s2 = s1\<lparr>alert_events := [e1], last_event_id := 1\<rparr>"
    and "s3 = s1\<lparr>alert_events := [e1, e2], last_event_id := 2\<rparr>"
  have subs: "alert_subscriptions s1 = [example_row]" "alert_subscriptions s2 = [example_row]"
    by (simp_all add: s1_def s2_def)
  have ev: "ev_account (example_event t) = 1" "ev_subscription (example_event t) = 1"
      "triggered_at (example_event t) = t" for t
    by (simp_all add: example_event_def)
  note d = in_cooldown_example last_triggered_def select_ordered_def saturate_i64_def i64_max_def
    i64_min_def insert_alert_event_def Let_def ev
  have 1: "alert_step (RecordEvent (example_event 1000)) s1 = s2"
    unfolding record_example_step [OF subs(1)] by (simp add: d s1_def s2_def e1_def)
  have 2: "alert_step (RecordEvent (example_event 2000)) s2 = s2"
    unfolding record_example_step [OF subs(2)] by (simp add: d s2_def e1_def)
  have 3: "alert_step (RecordEvent (example_event 1801000)) s2 = s3"
    unfolding record_example_step [OF subs(2)] by (simp add: d s1_def s2_def s3_def e1_def e2_def)
  have v: "validate_reply example_reply = Inr ()"
    by (simp add: validate_reply_def example_reply_def code_points_def byte_of_def is_control_def)
  have 4: "alert_step (ReplyToEvent example_reply) s3 =
      s3\<lparr>alert_events := [e1\<lparr>acknowledged := True\<rparr>, e2],
         alert_replies := [\<lparr>reply_id = 1, reply_input = example_reply\<rparr>], last_reply_id := 1\<rparr>"
    by (simp add: reply_to_alert_def v)
      (simp add: example_reply_def exists_where_def is_event_def s3_def s1_def ev
        e1_def e2_def acknowledge_event_def reply_count_def commit_def Let_def)
  have run: "alert_run example_alert_ops alert_example_store =
      s3\<lparr>alert_events := [e1\<lparr>acknowledged := True\<rparr>, e2],
         alert_replies := [\<lparr>reply_id = 1, reply_input = example_reply\<rparr>], last_reply_id := 1\<rparr>"
    unfolding alert_run_def example_alert_ops_def fold.simps comp_def id_def
      alert_example_created [folded s1_def] 1 2 3 4 by (rule refl)
  show "alert_events (alert_run example_alert_ops alert_example_store) =
     [\<lparr>event_id = 1, event_input = example_event 1000, acknowledged = True\<rparr>,
      \<lparr>event_id = 2, event_input = example_event 1801000, acknowledged = False\<rparr>]"
    and "map reply_input (alert_replies (alert_run example_alert_ops alert_example_store)) = [example_reply]"
    unfolding run by (simp_all add: e1_def e2_def)
qed

lemma example_ops_in_range: "\<forall>op \<in> set example_alert_ops. op_in_range op"
  by (simp add: example_alert_ops_def example_event_def instant_in_range_def example_subscription_def
      u32_max_def)


text \<open>
  Referential truth of the alert log: after any sequence of operations every stored event
  belongs to a stored subscription of the same account with the same profile, alert type and
  threshold, and a threshold event carries a current value at or above that threshold while an
  authentication event carries none.
\<close>

theorem alert_events_match_subscriptions:
  assumes "no_alerts st" and "\<forall>op \<in> set ops. op_in_range op"
    and "e \<in> set (alert_events (alert_run ops st))"
  shows "\<exists>r \<in> set (alert_subscriptions (alert_run ops st)).
      sub_id r = ev_subscription (event_input e) \<and> sub_account (subscription r) = ev_account (event_input e)
      \<and> sub_profile (subscription r) = ev_profile (event_input e)
      \<and> sub_type (subscription r) = ev_type (event_input e)
      \<and> (if ev_type (event_input e) = AuthenticationFailure
         then sub_threshold (subscription r) = None \<and> ev_current (event_input e) = None
         else (\<exists>v t. ev_current (event_input e) = Some v \<and> sub_threshold (subscription r) = Some t
                     \<and> t \<le> v))"
proof -
  have "alert_store_ok (alert_run ops st)"
    using alert_run_ok no_alerts_ok [OF assms(1)] assms(2) by blast
  then obtain r where r: "r \<in> set (alert_subscriptions (alert_run ops st))"
      "event_of_row (event_input e) r" "check_event_values (event_input e) = Inr ()"
    using assms(3) by (auto simp: alert_store_ok_def events_ok_def)
  have "if ev_type (event_input e) = AuthenticationFailure
      then ev_threshold (event_input e) = None \<and> ev_current (event_input e) = None
      else (\<exists>v t. ev_current (event_input e) = Some v \<and> ev_threshold (event_input e) = Some t \<and> t \<le> v)"
    using r(3) by (auto simp: check_event_values_def result_simps split: alert_type.splits option.splits)
  then show ?thesis using r(1,2) by (intro bexI [of _ r]) (auto simp: event_of_row_def split: if_splits)
qed

theorem alert_events_match_subscriptions_witness:
  "\<exists>r \<in> set (alert_subscriptions (alert_run example_alert_ops alert_example_store)).
      sub_id r = 1 \<and> sub_profile (subscription r) = ''deepseek''"
proof -
  have "\<lparr>event_id = 2, event_input = example_event 1801000, acknowledged = False\<rparr>
      \<in> set (alert_events (alert_run example_alert_ops alert_example_store))"
    by (simp add: alert_example_run)
  from alert_events_match_subscriptions [OF alert_example_no_alerts example_ops_in_range this]
  show ?thesis by (auto simp: example_event_def)
qed

text \<open>
  Replies: after any sequence of operations every stored reply answers a stored event of the
  same account, that event is acknowledged, and no event has more than 256 replies.
\<close>

theorem alert_replies_bounded_and_acknowledged:
  assumes "no_alerts st" and "\<forall>op \<in> set ops. op_in_range op"
  shows "(\<forall>acct eid. reply_count acct eid (alert_run ops st) \<le> 256)
    \<and> (\<forall>r \<in> set (alert_replies (alert_run ops st)).
      \<exists>e \<in> set (alert_events (alert_run ops st)). acknowledged e
        \<and> ev_account (event_input e) = rep_account (reply_input r)
        \<and> event_id e = rep_event (reply_input r))"
proof -
  have "alert_store_ok (alert_run ops st)"
    using alert_run_ok no_alerts_ok [OF assms(1)] assms(2) by blast
  then show ?thesis by (simp add: alert_store_ok_def replies_ok_def is_event_def)
qed

theorem alert_replies_bounded_and_acknowledged_witness:
  "\<exists>r \<in> set (alert_replies (alert_run example_alert_ops alert_example_store)).
     \<exists>e \<in> set (alert_events (alert_run example_alert_ops alert_example_store)).
       acknowledged e \<and> event_id e = rep_event (reply_input r)"
proof -
  obtain r where r: "r \<in> set (alert_replies (alert_run example_alert_ops alert_example_store))"
    using alert_example_run(2) by auto
  from alert_replies_bounded_and_acknowledged [OF alert_example_no_alerts example_ops_in_range]
  show ?thesis using r by blast
qed

text \<open>
  Upsert discrepancy: creating a subscription whose threshold prints the same to nine decimals
  as an existing one of the same account, profile and type keeps the stored threshold, but the
  returned subscription carries the requested one, which is not what later evaluations compare with.
\<close>

theorem create_subscription_reports_unstored_threshold:
  assumes "subscriptions_ok st" and "r \<in> set (alert_subscriptions st)"
    and "same_subscription_key s r" and "\<forall>q \<in> set (alert_subscriptions st). same_subscription_key s q \<longrightarrow> q = r"
    and "create_alert_subscription s t st = Inr (out, st')"
  shows "sub_id out = sub_id r \<and> sub_threshold (subscription out) = sub_threshold s
    \<and> (\<forall>q \<in> set (alert_subscriptions st'). sub_id q = sub_id out \<longrightarrow>
          sub_threshold (subscription q) = sub_threshold (subscription r))"
proof -
  let ?f = "\<lambda>r. r\<lparr>subscription := (subscription r)\<lparr>cooldown_minutes := cooldown_minutes s,
                     sub_delivery := sub_delivery s, sub_enabled := sub_enabled s\<rparr>\<rparr>"
  have ex: "exists_where (same_subscription_key s) (alert_subscriptions st)"
    using assms(2,3) by (auto simp: exists_where_def)
  have st': "st' = upsert_subscription_row s t st"
    and out: "\<exists>q. find (same_subscription_key s) (alert_subscriptions st') = Some q
        \<and> out = \<lparr>sub_id = sub_id q, subscription = s, sub_created_at = sub_created_at q\<rparr>"
    using assms(5) by (auto simp: create_alert_subscription_def result_simps Let_def split: option.splits)
  have rows: "alert_subscriptions st' = update_where (same_subscription_key s) ?f (alert_subscriptions st)"
    using ex by (simp add: st' upsert_subscription_row_def)
  have keyed: "same_subscription_key s (?f q) = same_subscription_key s q" for q
    by (simp add: same_subscription_key_def)
  obtain q where f: "find (same_subscription_key s) (alert_subscriptions st') = Some q"
      and o: "out = \<lparr>sub_id = sub_id q, subscription = s, sub_created_at = sub_created_at q\<rparr>"
    using out by blast
  have q: "q \<in> set (alert_subscriptions st')" "same_subscription_key s q"
      "sub_id out = sub_id q" "subscription out = s"
    using find_Some_mem [OF f] o by simp_all
  then have "sub_id q = sub_id r"
    using assms(4) keyed unfolding rows set_update_where by (auto split: if_splits)
  moreover have "sub_threshold (subscription p) = sub_threshold (subscription r)"
    if p: "p \<in> set (alert_subscriptions st')" "sub_id p = sub_id r" for p
  proof -
    obtain p0 where p0: "p0 \<in> set (alert_subscriptions st)" "sub_id p0 = sub_id p"
        "sub_threshold (subscription p0) = sub_threshold (subscription p)"
      using p(1) unfolding rows set_update_where by (auto split: if_splits)
    then have "p0 = r" using assms(1,2) p(2)
      by (auto simp: subscriptions_ok_def distinct_map inj_on_def)
    then show ?thesis using p0(3) by simp
  qed
  ultimately show ?thesis using q(3,4) by simp
qed

lemma close_thresholds_same_key:
  "alert_threshold_key (Some 80) = alert_threshold_key (Some (80 + 1 / 10 ^ 10))"
proof -
  have "round_half_even ((80 + 1 / 10 ^ 10) * 10 ^ 9) = 80 * 10 ^ 9"
  proof -
    have "floor ((80 + 1 / 10 ^ 10) * 10 ^ 9 :: rat) = 80 * 10 ^ 9" by (simp add: floor_eq_iff)
    then show ?thesis by (simp add: round_half_even_def Let_def)
  qed
  moreover have "round_half_even (80 * 10 ^ 9) = 80 * 10 ^ 9"
    by (simp add: round_half_even_def Let_def)
  ultimately show ?thesis by (simp add: alert_threshold_key_def format_fixed_def)
qed

theorem create_subscription_reports_unstored_threshold_witness:
  "\<exists>out st'. create_alert_subscription (example_subscription\<lparr>sub_threshold := Some (80 + 1 / 10 ^ 10)\<rparr>) 9
      (alert_example_store\<lparr>alert_subscriptions := [example_row], last_subscription_id := 1\<rparr>) = Inr (out, st')
    \<and> sub_threshold (subscription out) = Some (80 + 1 / 10 ^ 10)
    \<and> (\<forall>q \<in> set (alert_subscriptions st'). sub_id q = sub_id out \<longrightarrow>
         sub_threshold (subscription q) = Some 80)"
proof -
  let ?s = "example_subscription\<lparr>sub_threshold := Some (80 + 1 / 10 ^ 10)\<rparr>"
  let ?st = "alert_example_store\<lparr>alert_subscriptions := [example_row], last_subscription_id := 1\<rparr>"
  have key: "same_subscription_key ?s example_row"
    by (simp add: same_subscription_key_def example_row_def)
      (simp add: example_subscription_def close_thresholds_same_key)
  have ok: "subscriptions_ok ?st"
    by (simp add: subscriptions_ok_def example_row_def example_subscription_valid)
  have "profile_exists (sub_account ?s) (sub_profile ?s) ?st"
    by (simp add: example_subscription_def profile_exists_def) (simp flip: profile_exists_def)
  moreover have "subscription_validate ?s = Inr ()"
    by (simp add: subscription_validate_Inr example_subscription_def)
  moreover have "find (same_subscription_key ?s) (alert_subscriptions (upsert_subscription_row ?s 9 ?st)) \<noteq> None"
    using key by (simp add: upsert_subscription_row_def exists_where_def same_subscription_key_def)
  ultimately obtain out st' where c: "create_alert_subscription ?s 9 ?st = Inr (out, st')"
    by (auto simp: create_alert_subscription_def Let_def)
  from create_subscription_reports_unstored_threshold [OF ok _ key _ c] c show ?thesis
    by (auto simp: example_row_def example_subscription_def)
qed

end
