(* ===== verification/Pulse_Alerts.thy ===== *)
theory Pulse_Alerts
  imports Alert_Store
begin

text \<open>
  Alert evaluation, persistence and delivery: \<open>src/src/pulse/alerts.rs\<close> and the control-plane sink
  of \<open>src/src/pulse/delivery.rs\<close>. Evaluation is a function of the observation and the stored
  subscriptions; \<open>record_due_alerts\<close> runs over any store with a \<open>record_alert_if_due\<close> operation
  (locale \<open>alert_log\<close>, interpreted on the SQLite model); a sink is given by its answers.
\<close>

section \<open>Evaluation\<close>

record alert_candidate =
  cand_event :: alert_event_input
  cand_delivery :: "alert_delivery option"
  cand_resets_at :: "instant option"

record triggered_alert =
  trig_event :: alert_event
  trig_delivery :: "alert_delivery option"
  trig_resets_at :: "instant option"

definition max_evaluated_subscriptions :: nat where
  "max_evaluated_subscriptions = 4096"

definition validate_subscription_set :: "int \<Rightarrow> stored_subscription list \<Rightarrow> unit pulse_result" where
  "validate_subscription_set acct subs =
     (if length subs > max_evaluated_subscriptions
      then Inl (invalid_input ''too many alert subscriptions in one evaluation'')
      else try_each (\<lambda>stored.
        and_then (ensure (sub_account (subscription stored) = acct)
            (new_error Conflict ''alert subscription crossed the account boundary''))
          (\<lambda>_. subscription_validate (subscription stored))) subs)"

definition long_window_label :: "quota_window_kind \<Rightarrow> string" where
  "long_window_label k = (case k of
     RollingSevenDay \<Rightarrow> ''7-day window'' | FixedWeekly \<Rightarrow> ''weekly window''
   | MonthlyBudget \<Rightarrow> ''monthly budget'' | FiveHour \<Rightarrow> ''5-hour window'')"

definition usage_message :: "string \<Rightarrow> string \<Rightarrow> rat \<Rightarrow> rat \<Rightarrow> string" where
  "usage_message profile label current threshold =
     ''Usage alert: '' @ profile @ '' '' @ label @ '' at '' @ format_fixed 1 current
       @ ''% (threshold: '' @ format_fixed 1 threshold @ ''%)''"

definition threshold_candidate ::
    "int \<Rightarrow> usage_snapshot \<Rightarrow> quota_window option \<Rightarrow> rat option \<Rightarrow> alert_delivery option \<Rightarrow> string
      \<Rightarrow> instant \<Rightarrow> alert_candidate option" where
  "threshold_candidate sid snap win threshold delivery label time =
     (case win of None \<Rightarrow> None | Some w \<Rightarrow>
      case threshold of None \<Rightarrow> None | Some t \<Rightarrow>
      if used_percent w < t then None
      else Some
        \<lparr>cand_event =
           \<lparr>ev_account = snap_account snap, ev_subscription = sid, ev_profile = snap_profile snap,
            ev_type = (if win_kind w = FiveHour then FiveHourThreshold else SevenDayThreshold),
            ev_message = usage_message (snap_profile snap) label (used_percent w) t,
            ev_current = Some (used_percent w), ev_threshold = Some t, triggered_at = time\<rparr>,
         cand_delivery = delivery, cand_resets_at = Some (resets_at w)\<rparr>)"

definition authentication_candidate ::
    "int \<Rightarrow> usage_snapshot \<Rightarrow> alert_delivery option \<Rightarrow> alert_candidate" where
  "authentication_candidate sid snap delivery =
     \<lparr>cand_event =
        \<lparr>ev_account = snap_account snap, ev_subscription = sid, ev_profile = snap_profile snap,
         ev_type = AuthenticationFailure,
         ev_message = ''Authentication failure: '' @ snap_profile snap
           @ '' could not authenticate during collection'',
         ev_current = None, ev_threshold = None, triggered_at = polled_at snap\<rparr>,
      cand_delivery = delivery, cand_resets_at = None\<rparr>"

definition five_hour_window :: "usage_snapshot \<Rightarrow> quota_window option" where
  "five_hour_window snap = find (\<lambda>w. win_kind w = FiveHour) (snap_windows snap)"

definition long_window :: "usage_snapshot \<Rightarrow> quota_window option" where
  "long_window snap =
     find (\<lambda>w. win_kind w = RollingSevenDay \<or> win_kind w = FixedWeekly \<or> win_kind w = MonthlyBudget)
       (snap_windows snap)"

definition usage_candidate :: "usage_snapshot \<Rightarrow> stored_subscription \<Rightarrow> alert_candidate option" where
  "usage_candidate snap stored =
     (let s = subscription stored; available = is_success (snap_outcome snap) in
      if \<not> sub_enabled s \<or> sub_profile s \<noteq> snap_profile snap then None
      else case sub_type s of
        FiveHourThreshold \<Rightarrow>
          if available
          then threshold_candidate (sub_id stored) snap (five_hour_window snap) (sub_threshold s)
                 (sub_delivery s) ''5-hour window'' (polled_at snap)
          else None
      | SevenDayThreshold \<Rightarrow>
          if available
          then (case long_window snap of
                  None \<Rightarrow> None
                | Some w \<Rightarrow> threshold_candidate (sub_id stored) snap (Some w) (sub_threshold s)
                              (sub_delivery s) (long_window_label (win_kind w)) (polled_at snap))
          else None
      | AuthenticationFailure \<Rightarrow>
          (case snap_outcome snap of
             AuthenticationFailed _ \<Rightarrow>
               Some (authentication_candidate (sub_id stored) snap (sub_delivery s))
           | _ \<Rightarrow> None)
      | ContextThreshold \<Rightarrow> None)"

definition evaluate_usage_alerts ::
    "usage_snapshot \<Rightarrow> stored_subscription list \<Rightarrow> alert_candidate list pulse_result" where
  "evaluate_usage_alerts snap subs =
     and_then (snapshot_validate snap) (\<lambda>_.
     and_then (validate_subscription_set (snap_account snap) subs) (\<lambda>_.
     Inr (List.map_filter (usage_candidate snap) subs)))"

definition context_message :: "context_session \<Rightarrow> rat \<Rightarrow> rat \<Rightarrow> string" where
  "context_message c current threshold =
     ''Context alert: '' @ ctx_profile c @ '' session '' @ ctx_session c @ '' at ''
       @ format_fixed 1 current @ ''% (''
       @ show_nat (case context_tokens c of None \<Rightarrow> 0 | Some n \<Rightarrow> n) @ ''/''
       @ show_nat (case effective_limit c of None \<Rightarrow> 0 | Some n \<Rightarrow> n)
       @ '' tokens, threshold: '' @ format_fixed 1 threshold @ ''%). Consider /compact.''"

definition context_candidate ::
    "context_session \<Rightarrow> rat \<Rightarrow> stored_subscription \<Rightarrow> alert_candidate option" where
  "context_candidate c current stored =
     (let s = subscription stored in
      if \<not> sub_enabled s \<or> sub_profile s \<noteq> ctx_profile c \<or> sub_type s \<noteq> ContextThreshold then None
      else case sub_threshold s of
        None \<Rightarrow> None
      | Some t \<Rightarrow>
          if current < t then None
          else Some
            \<lparr>cand_event =
               \<lparr>ev_account = ctx_account c, ev_subscription = sub_id stored, ev_profile = ctx_profile c,
                ev_type = ContextThreshold, ev_message = context_message c current t,
                ev_current = Some current, ev_threshold = Some t, triggered_at = ctx_collected_at c\<rparr>,
             cand_delivery = sub_delivery s, cand_resets_at = None\<rparr>)"

definition evaluate_context_alerts ::
    "context_session \<Rightarrow> stored_subscription list \<Rightarrow> alert_candidate list pulse_result" where
  "evaluate_context_alerts c subs =
     and_then (context_session_validate c) (\<lambda>_.
     and_then (validate_subscription_set (ctx_account c) subs) (\<lambda>_.
     Inr (case context_percent c of
            None \<Rightarrow> []
          | Some current \<Rightarrow> List.map_filter (context_candidate c current) subs)))"

section \<open>Recording\<close>

definition triggered_of :: "alert_candidate \<Rightarrow> alert_event \<Rightarrow> triggered_alert" where
  "triggered_of c ev =
     \<lparr>trig_event = ev, trig_delivery = cand_delivery c, trig_resets_at = cand_resets_at c\<rparr>"

text \<open>
  The loop over the candidates. Every call commits on its own, so the state is returned with the
  error as well: events recorded before the first error stay.
\<close>

fun record_loop ::
    "(alert_event_input \<Rightarrow> 's \<Rightarrow> pulse_error + alert_event option \<times> 's) \<Rightarrow> alert_candidate list \<Rightarrow> 's
      \<Rightarrow> triggered_alert list pulse_result \<times> 's" where
  "record_loop rec [] st = (Inr [], st)"
| "record_loop rec (c # cs) st =
     (case rec (cand_event c) st of
        Inl e \<Rightarrow> (Inl e, st)
      | Inr (None, st') \<Rightarrow> record_loop rec cs st'
      | Inr (Some ev, st') \<Rightarrow>
          (case record_loop rec cs st' of
             (r, st'') \<Rightarrow> (map_ok (\<lambda>ts. triggered_of c ev # ts) r, st'')))"

definition record_due_alerts ::
    "(alert_event_input \<Rightarrow> 's \<Rightarrow> pulse_error + alert_event option \<times> 's) \<Rightarrow> alert_candidate list \<Rightarrow> 's
      \<Rightarrow> triggered_alert list pulse_result \<times> 's" where
  "record_due_alerts rec cs st =
     (if length cs > max_evaluated_subscriptions
      then (Inl (invalid_input ''too many alert candidates in one evaluation''), st)
      else record_loop rec cs st)"

section \<open>Delivery\<close>

record alert_notification =
  note_event :: int
  note_subscription :: int
  note_account :: int
  note_type :: alert_type
  note_profile :: string
  note_message :: string
  note_current :: "rat option"
  note_threshold :: "rat option"
  note_resets_at :: "instant option"

definition notification_of :: "triggered_alert \<Rightarrow> alert_notification" where
  "notification_of t =
     (let i = event_input (trig_event t) in
      \<lparr>note_event = event_id (trig_event t), note_subscription = ev_subscription i,
       note_account = ev_account i, note_type = ev_type i, note_profile = ev_profile i,
       note_message = ev_message i, note_current = ev_current i, note_threshold = ev_threshold i,
       note_resets_at = trig_resets_at t\<rparr>)"

record pane_destination =
  dest_account :: int
  dest_profile :: string
  dest_pane :: string

datatype delivery_outcome =
    NotRequested | Delivered | ChannelUnavailable | Rejected | Failed pulse_error_kind

record delivery_result =
  res_event :: int
  res_outcome :: delivery_outcome

text \<open>
  A sink answers whether the channel is available, and what a notification returns: \<open>None\<close> stands
  for a future that is still pending after the five-second timeout.
\<close>

record notification_sink =
  sink_channel_available :: "int \<Rightarrow> bool"
  sink_notify_channel :: "alert_notification \<Rightarrow> unit pulse_result option"
  sink_notify_pane :: "pane_destination \<Rightarrow> alert_notification \<Rightarrow> unit pulse_result option"

definition bounded_delivery :: "unit pulse_result option \<Rightarrow> delivery_outcome" where
  "bounded_delivery r =
     (case r of
        None \<Rightarrow> Failed Offline
      | Some (Inr _) \<Rightarrow> Delivered
      | Some (Inl e) \<Rightarrow> Failed (err_kind e))"

definition destination_of :: "triggered_alert \<Rightarrow> string \<Rightarrow> pane_destination" where
  "destination_of t pane =
     \<lparr>dest_account = ev_account (event_input (trig_event t)),
      dest_profile = ev_profile (event_input (trig_event t)), dest_pane = pane\<rparr>"

definition deliver_alert :: "notification_sink \<Rightarrow> triggered_alert \<Rightarrow> delivery_outcome" where
  "deliver_alert sink t =
     (case trig_delivery t of
        None \<Rightarrow> NotRequested
      | Some Channel \<Rightarrow>
          if \<not> sink_channel_available sink (ev_account (event_input (trig_event t)))
          then ChannelUnavailable
          else bounded_delivery (sink_notify_channel sink (notification_of t))
      | Some (Pane pane) \<Rightarrow>
          if ev_type (event_input (trig_event t)) = AuthenticationFailure then Rejected
          else bounded_delivery (sink_notify_pane sink (destination_of t pane) (notification_of t)))"

definition deliver_triggered_alerts ::
    "notification_sink \<Rightarrow> triggered_alert list \<Rightarrow> delivery_result list" where
  "deliver_triggered_alerts sink ts =
     map (\<lambda>t. \<lparr>res_event = event_id (trig_event t), res_outcome = deliver_alert sink t\<rparr>) ts"

section \<open>The control-plane sink\<close>

definition alert_label :: "alert_type \<Rightarrow> string" where
  "alert_label t = (case t of
     FiveHourThreshold \<Rightarrow> ''5-hour usage'' | SevenDayThreshold \<Rightarrow> ''long-window usage''
   | AuthenticationFailure \<Rightarrow> ''authentication'' | ContextThreshold \<Rightarrow> ''context'')"

definition pane_message :: "alert_notification \<Rightarrow> string" where
  "pane_message n =
     ''[Pulse '' @ alert_label (note_type n) @ '' alert #'' @ show_int (note_event n) @ ''] ''
       @ note_message n"

fun pane_error :: "control_error_kind \<Rightarrow> pulse_error" where
  "pane_error CtlNotFound = new_error NotFound ''alert pane is gone''"
| "pane_error CtlOffline = new_error Offline ''alert pane owner is offline''"
| "pane_error CtlBadRequest = new_error Conflict ''alert pane route is invalid''"
| "pane_error CtlConflict = new_error Conflict ''alert pane route is invalid''"
| "pane_error CtlUpstream = new_error Upstream ''alert pane owner rejected delivery''"
| "pane_error CtlInternal = new_error Internal ''alert pane delivery failed''"

definition pane_authorized ::
    "pane_destination \<Rightarrow> alert_notification \<Rightarrow> stored_subscription list \<Rightarrow> bool" where
  "pane_authorized dest n subs \<longleftrightarrow>
     list_ex (\<lambda>stored. sub_id stored = note_subscription n
        \<and> sub_profile (subscription stored) = dest_profile dest
        \<and> sub_delivery (subscription stored) = Some (Pane (dest_pane dest))) subs"

text \<open>
  \<open>notify_pane\<close>: the text it sends to a pane, if any, beside its result. \<open>send pane text\<close> is the
  control plane's \<open>send_text\<close>, reduced to its error kind.
\<close>

definition ownership_error :: pulse_error where
  "ownership_error = new_error Conflict ''alert pane route is not owned by this account and profile''"

definition notify_pane ::
    "(string \<Rightarrow> string \<Rightarrow> control_error_kind + unit) \<Rightarrow> (int \<Rightarrow> stored_subscription list pulse_result)
      \<Rightarrow> pane_destination \<Rightarrow> alert_notification \<Rightarrow> (string \<times> string) option \<times> unit pulse_result" where
  "notify_pane send subs_of dest n =
     (if note_account n \<noteq> dest_account dest \<or> note_profile n \<noteq> dest_profile dest
      then (None, Inl ownership_error)
      else case subs_of (dest_account dest) of
        Inl e \<Rightarrow> (None, Inl (new_error (err_kind e) ''alert pane ownership lookup failed''))
      | Inr subs \<Rightarrow>
          if \<not> pane_authorized dest n subs then (None, Inl ownership_error)
          else (Some (dest_pane dest, pane_message n),
                (case send (dest_pane dest) (pane_message n) of
                   Inl k \<Rightarrow> Inl (pane_error k) | Inr _ \<Rightarrow> Inr ())))"

record negotiated_channel =
  neg_available :: "int \<Rightarrow> bool"
  neg_notify :: "alert_notification \<Rightarrow> unit pulse_result"

definition notify_channel ::
    "negotiated_channel option \<Rightarrow> alert_notification \<Rightarrow> unit pulse_result" where
  "notify_channel channel n =
     (case channel of
        None \<Rightarrow> Inl (new_error Offline ''no negotiated alert channel is available'')
      | Some ch \<Rightarrow>
          if \<not> neg_available ch (note_account n)
          then Inl (new_error Offline ''the negotiated alert channel is no longer available'')
          else neg_notify ch n)"


section \<open>The log interface\<close>

text \<open>
  What recording relies on: an operation that reports no event leaves the log alone, and one that
  reports an event appends exactly that event, for the input it was given.
\<close>

locale alert_log =
  fixes rec :: "alert_event_input \<Rightarrow> 's \<Rightarrow> pulse_error + alert_event option \<times> 's"
    and events :: "'s \<Rightarrow> alert_event list"
  assumes quiet: "rec e st = Inr (None, st') \<Longrightarrow> events st' = events st"
    and appended: "rec e st = Inr (Some ev, st') \<Longrightarrow> events st' = events st @ [ev] \<and> event_input ev = e"
begin

lemma loop_log:
  "record_loop rec cs st = (r, st') \<Longrightarrow>
     \<exists>new. events st' = events st @ new \<and> (\<forall>ts. r = Inr ts \<longrightarrow> map trig_event ts = new)
       \<and> event_input ` set new \<subseteq> cand_event ` set cs"
proof (induction cs arbitrary: st r)
  case Nil
  then show ?case by auto
next
  case (Cons c cs)
  show ?case
  proof (cases "rec (cand_event c) st")
    case (Inl e)
    with Cons.prems show ?thesis by auto
  next
    case (Inr q)
    obtain out st1 where q: "q = (out, st1)" by fastforce
    show ?thesis
    proof (cases out)
      case None
      then have "record_loop rec cs st1 = (r, st')" using Cons.prems Inr q by simp
      moreover have "events st1 = events st" using quiet Inr q None by blast
      ultimately show ?thesis using Cons.IH by fastforce
    next
      case (Some ev)
      obtain r1 where r1: "record_loop rec cs st1 = (r1, st')" "r = map_ok (\<lambda>ts. triggered_of c ev # ts) r1"
        using Cons.prems Inr q Some by (auto split: prod.splits)
      have ev: "events st1 = events st @ [ev]" "event_input ev = cand_event c"
        using appended Inr q Some by blast+
      from Cons.IH [OF r1(1)] obtain new where
        "events st' = events st1 @ new" "\<forall>ts. r1 = Inr ts \<longrightarrow> map trig_event ts = new"
        "event_input ` set new \<subseteq> cand_event ` set cs" by blast
      then show ?thesis using ev r1(2)
        by (intro exI [of _ "ev # new"]) (auto simp: map_ok_Inr triggered_of_def)
    qed
  qed
qed

lemma due_log:
  assumes "record_due_alerts rec cs st = (r, st')"
  shows "\<exists>new. events st' = events st @ new \<and> (\<forall>ts. r = Inr ts \<longrightarrow> map trig_event ts = new)
       \<and> event_input ` set new \<subseteq> cand_event ` set cs"
  using assms loop_log [of cs st] by (auto simp: record_due_alerts_def split: if_splits)

end

interpretation sqlite_log: alert_log record_alert_if_due alert_events
proof
  fix e st st' assume "record_alert_if_due e st = Inr (None, st')"
  then show "alert_events st' = alert_events st" using record_cases by fastforce
next
  fix e st ev st' assume "record_alert_if_due e st = Inr (Some ev, st')"
  then show "alert_events st' = alert_events st @ [ev] \<and> event_input ev = e"
    using record_cases by (fastforce simp: insert_alert_event_def Let_def)
qed

section \<open>Candidates and the stored subscriptions they come from\<close>

lemma map_filter_mem: "y \<in> set (List.map_filter f xs) \<longleftrightarrow> (\<exists>x \<in> set xs. f x = Some y)"
  by (induction xs) (auto simp: List.map_filter_simps split: option.split)

lemma long_window_kind: "long_window snap = Some w \<Longrightarrow> win_kind w \<noteq> FiveHour"
  unfolding long_window_def by (auto dest: find_Some_mem)

lemma five_hour_window_kind: "five_hour_window snap = Some w \<Longrightarrow> win_kind w = FiveHour"
  unfolding five_hour_window_def by (auto dest: find_Some_mem)

text \<open>What a candidate says about the subscription it was built from.\<close>

definition fits_subscription :: "int \<Rightarrow> alert_candidate \<Rightarrow> stored_subscription \<Rightarrow> bool" where
  "fits_subscription acct c stored \<longleftrightarrow>
     (let e = cand_event c; s = subscription stored in
      ev_account e = acct \<and> ev_subscription e = sub_id stored \<and> sub_enabled s
      \<and> ev_profile e = sub_profile s \<and> ev_type e = sub_type s \<and> ev_threshold e = sub_threshold s
      \<and> cand_delivery c = sub_delivery s \<and> check_event_values e = Inr ())"

lemma threshold_candidate_Some:
  "threshold_candidate sid snap win thr d l time = Some c \<longleftrightarrow>
     (\<exists>w t. win = Some w \<and> thr = Some t \<and> t \<le> used_percent w
        \<and> c = \<lparr>cand_event =
           \<lparr>ev_account = snap_account snap, ev_subscription = sid, ev_profile = snap_profile snap,
            ev_type = (if win_kind w = FiveHour then FiveHourThreshold else SevenDayThreshold),
            ev_message = usage_message (snap_profile snap) l (used_percent w) t,
            ev_current = Some (used_percent w), ev_threshold = Some t, triggered_at = time\<rparr>,
         cand_delivery = d, cand_resets_at = Some (resets_at w)\<rparr>)"
proof (cases "\<exists>w t. win = Some w \<and> thr = Some t")
  case False
  then show ?thesis by (cases win; cases thr) (simp_all add: threshold_candidate_def)
next
  case True
  then obtain w t where w: "win = Some w" "thr = Some t" by blast
  show ?thesis unfolding w threshold_candidate_def
    by (cases "used_percent w < t") (simp_all add: eq_commute [of _ c])
qed

lemma threshold_candidate_None:
  "threshold_candidate sid snap win thr d l time = None \<longleftrightarrow>
     \<not> (\<exists>w t. win = Some w \<and> thr = Some t \<and> t \<le> used_percent w)"
  by (auto simp: threshold_candidate_def split: option.split)

lemma usage_candidate_fits:
  assumes "usage_candidate snap stored = Some c" and "subscription_validate (subscription stored) = Inr ()"
  shows "fits_subscription (snap_account snap) c stored"
proof (cases "sub_type (subscription stored)")
  case FiveHourThreshold
  then have en: "sub_enabled (subscription stored) \<and> sub_profile (subscription stored) = snap_profile snap"
    and cand: "threshold_candidate (sub_id stored) snap (five_hour_window snap) (sub_threshold (subscription stored))
        (sub_delivery (subscription stored)) ''5-hour window'' (polled_at snap) = Some c"
    using assms(1) by (simp_all add: usage_candidate_def Let_def split: if_splits)
  from cand obtain w where "five_hour_window snap = Some w" by (auto simp: threshold_candidate_Some)
  with FiveHourThreshold five_hour_window_kind en cand show ?thesis
    by (auto simp: threshold_candidate_Some fits_subscription_def Let_def check_event_values_def)
next
  case SevenDayThreshold
  then obtain w where w: "long_window snap = Some w"
    and en: "sub_enabled (subscription stored) \<and> sub_profile (subscription stored) = snap_profile snap"
    and cand: "threshold_candidate (sub_id stored) snap (Some w) (sub_threshold (subscription stored))
        (sub_delivery (subscription stored)) (long_window_label (win_kind w)) (polled_at snap) = Some c"
    using assms(1) by (simp add: usage_candidate_def Let_def split: if_splits option.splits)
  with SevenDayThreshold long_window_kind [OF w] show ?thesis
    by (auto simp: threshold_candidate_Some fits_subscription_def Let_def check_event_values_def)
next
  case AuthenticationFailure
  then show ?thesis using assms
    by (auto simp: usage_candidate_def Let_def authentication_candidate_def fits_subscription_def
        check_event_values_def subscription_validate_Inr split: if_splits collection_outcome.splits)
next
  case ContextThreshold
  then show ?thesis using assms(1) by (simp add: usage_candidate_def Let_def split: if_splits)
qed

lemma context_candidate_fits:
  "context_candidate c current stored = Some cand \<Longrightarrow> fits_subscription (ctx_account c) cand stored"
  by (auto simp: context_candidate_def Let_def fits_subscription_def check_event_values_def
      split: if_splits option.splits)


definition message_ok :: "string \<Rightarrow> bool" where
  "message_ok m \<longleftrightarrow> m \<noteq> [] \<and> length m \<le> 4096"

text \<open>A candidate that fits a stored subscription is never an error for the store.\<close>

lemma record_accepts:
  assumes ok: "subscriptions_ok st" and r: "r \<in> set (alert_subscriptions st)"
    and fits: "fits_subscription acct c (stored_of_row r)" and acct: "sub_account (subscription r) = acct"
    and msg: "message_ok (ev_message (cand_event c))"
  shows "\<exists>out st'. record_alert_if_due (cand_event c) st = Inr (out, st')
    \<and> alert_subscriptions st' = alert_subscriptions st \<and> last_subscription_id st' = last_subscription_id st"
proof -
  let ?e = "cand_event c"
  have e: "ev_account ?e = acct" "ev_subscription ?e = sub_id r" "sub_enabled (subscription r)"
      "check_event_subscription ?e (subscription r) = Inr ()"
    using fits by (auto simp: fits_subscription_def stored_of_row_def Let_def check_event_subscription_def)
  have "find_subscription acct (sub_id r) st = Some r"
    unfolding find_subscription_def using ok r acct
    by (intro find_unique) (auto simp: subscriptions_ok_def distinct_map inj_on_def)
  then show ?thesis using e msg
    by (auto simp: record_alert_if_due_def message_ok_def insert_alert_event_def Let_def)
qed

lemma record_loop_accepts:
  assumes "subscriptions_ok st"
    and "\<forall>c \<in> set cs. message_ok (ev_message (cand_event c))
        \<and> (\<exists>r \<in> set (alert_subscriptions st). sub_account (subscription r) = acct
             \<and> fits_subscription acct c (stored_of_row r))"
  shows "\<exists>ts st'. record_loop record_alert_if_due cs st = (Inr ts, st')"
  using assms
proof (induction cs arbitrary: st)
  case (Cons c cs)
  then obtain r where r: "r \<in> set (alert_subscriptions st)" "sub_account (subscription r) = acct"
      "fits_subscription acct c (stored_of_row r)" "message_ok (ev_message (cand_event c))" by auto
  obtain out st1 where st1: "record_alert_if_due (cand_event c) st = Inr (out, st1)"
      "alert_subscriptions st1 = alert_subscriptions st" "last_subscription_id st1 = last_subscription_id st"
    using record_accepts [OF Cons.prems(1) r(1,3,2,4)] by blast
  have "subscriptions_ok st1" using Cons.prems(1) st1(2,3) by (simp add: subscriptions_ok_def)
  then obtain ts st' where "record_loop record_alert_if_due cs st1 = (Inr ts, st')"
    using Cons.IH [of st1] Cons.prems(2) st1(2) by auto
  then show ?case using st1(1) by (cases out) simp_all
qed simp

lemma list_subscriptions_mem:
  "stored \<in> set (list_alert_subscriptions acct st) \<Longrightarrow>
     \<exists>r \<in> set (alert_subscriptions st). stored = stored_of_row r \<and> sub_account (subscription r) = acct"
  unfolding list_alert_subscriptions_def set_map by (auto dest: select_ordered_mem)

lemma validate_subscription_set_Inr:
  "validate_subscription_set acct subs = Inr () \<longleftrightarrow>
     length subs \<le> 4096 \<and> (\<forall>stored \<in> set subs. sub_account (subscription stored) = acct
        \<and> subscription_validate (subscription stored) = Inr ())"
  by (auto simp: validate_subscription_set_def max_evaluated_subscriptions_def result_simps)

definition percent_ok :: "rat \<Rightarrow> bool" where
  "percent_ok p \<longleftrightarrow> 0 \<le> p \<and> p \<le> 100"

lemma percent_text_length: "percent_ok p \<Longrightarrow> length (format_fixed 1 p) \<le> 5"
  using format_fixed_length [of p 100 1 4] by (simp add: percent_ok_def)

lemma usage_message_ok:
  assumes "length profile \<le> 128" and "length label \<le> 14" and "percent_ok a" and "percent_ok b"
  shows "message_ok (usage_message profile label a b)"
  using assms percent_text_length [of a] percent_text_length [of b]
  by (simp add: message_ok_def usage_message_def)

lemma usage_candidate_message:
  assumes "usage_candidate snap stored = Some c" and "length (snap_profile snap) \<le> 128"
    and "\<forall>w \<in> set (snap_windows snap). percent_ok (used_percent w)"
    and "\<forall>t. sub_threshold (subscription stored) = Some t \<longrightarrow> percent_ok t"
  shows "message_ok (ev_message (cand_event c))"
proof -
  have w5: "five_hour_window snap = Some w \<Longrightarrow> percent_ok (used_percent w)" for w
    using assms(3) unfolding five_hour_window_def by (auto dest: find_Some_mem)
  have wl: "long_window snap = Some w \<Longrightarrow> percent_ok (used_percent w)" for w
    using assms(3) unfolding long_window_def by (auto dest: find_Some_mem)
  have l: "length (long_window_label k) \<le> 14" for k by (cases k) (simp_all add: long_window_label_def)
  show ?thesis
  proof (cases "sub_type (subscription stored)")
    case FiveHourThreshold
    then have "threshold_candidate (sub_id stored) snap (five_hour_window snap) (sub_threshold (subscription stored))
        (sub_delivery (subscription stored)) ''5-hour window'' (polled_at snap) = Some c"
      using assms(1) by (simp add: usage_candidate_def Let_def split: if_splits)
    then show ?thesis using w5 assms(2,4)
      by (auto simp: threshold_candidate_Some usage_message_ok)
  next
    case SevenDayThreshold
    then obtain w where "long_window snap = Some w"
      "threshold_candidate (sub_id stored) snap (Some w) (sub_threshold (subscription stored))
        (sub_delivery (subscription stored)) (long_window_label (win_kind w)) (polled_at snap) = Some c"
      using assms(1) by (simp add: usage_candidate_def Let_def split: if_splits option.splits)
    then show ?thesis using wl assms(2,4) l
      by (auto simp: threshold_candidate_Some usage_message_ok)
  next
    case AuthenticationFailure
    then show ?thesis using assms(1,2)
      by (auto simp: usage_candidate_def Let_def authentication_candidate_def message_ok_def
          split: if_splits collection_outcome.splits)
  next
    case ContextThreshold
    then show ?thesis using assms(1) by (simp add: usage_candidate_def Let_def split: if_splits)
  qed
qed

section \<open>Properties\<close>



definition example_deepseek_snapshot :: usage_snapshot where
  "example_deepseek_snapshot =
     \<lparr>snap_account = 1, snap_profile = ''deepseek'', snap_machine = ''host'',
      snap_vendor = DeepseekBalance,
      snap_windows = [\<lparr>win_kind = MonthlyBudget, used_percent = 90, resets_at = 900\<rparr>],
      snap_outcome = Success, polled_at = 1000, reporter_version = None\<rparr>"

definition alert_row_store :: store where
  "alert_row_store =
     alert_example_store\<lparr>alert_subscriptions := [example_row], last_subscription_id := 1\<rparr>"

lemma example_list_subscriptions:
  "list_alert_subscriptions 1 alert_row_store = [stored_of_row example_row]"
  by (simp add: list_alert_subscriptions_def select_ordered_def alert_row_store_def example_row_def
      example_subscription_def)

lemma example_evaluation:
  "\<exists>c. evaluate_usage_alerts example_deepseek_snapshot (list_alert_subscriptions 1 alert_row_store) = Inr [c]
     \<and> ev_subscription (cand_event c) = 1"
proof -
  have "snapshot_validate example_deepseek_snapshot = Inr ()"
    by (simp add: snapshot_validate_Inr snapshot_ok_def example_deepseek_snapshot_def
        outcome_validate_def emits_usage_snapshots_def)
  moreover have "validate_subscription_set 1 [stored_of_row example_row] = Inr ()"
    by (simp add: validate_subscription_set_Inr stored_of_row_def example_row_def
        example_subscription_valid) (simp add: example_subscription_def)
  moreover have "usage_candidate example_deepseek_snapshot (stored_of_row example_row) \<noteq> None"
    by (simp add: usage_candidate_def Let_def stored_of_row_def example_row_def
        example_subscription_def example_deepseek_snapshot_def long_window_def threshold_candidate_def)
  then obtain c where "usage_candidate example_deepseek_snapshot (stored_of_row example_row) = Some c" by blast
  moreover from usage_candidate_fits [OF this] have "ev_subscription (cand_event c) = 1"
    by (simp add: fits_subscription_def Let_def stored_of_row_def example_row_def example_subscription_valid)
  ultimately show ?thesis
    by (simp add: evaluate_usage_alerts_def example_list_subscriptions List.map_filter_simps)
      (simp add: example_deepseek_snapshot_def)
qed


text \<open>
  Evaluation is exact: a subscription produces a
  candidate precisely when it is enabled for the snapshot's profile and either its window is present
  in a successful snapshot at or above the threshold, or it watches authentication and the outcome
  is a typed authentication failure; a context subscription never does.
\<close>

theorem usage_candidate_exact:
  "(\<exists>c. usage_candidate snap stored = Some c) \<longleftrightarrow>
    sub_enabled (subscription stored) \<and> sub_profile (subscription stored) = snap_profile snap
    \<and> (case sub_type (subscription stored) of
         FiveHourThreshold \<Rightarrow> snap_outcome snap = Success
           \<and> (\<exists>w t. five_hour_window snap = Some w \<and> sub_threshold (subscription stored) = Some t
                 \<and> t \<le> used_percent w)
       | SevenDayThreshold \<Rightarrow> snap_outcome snap = Success
           \<and> (\<exists>w t. long_window snap = Some w \<and> sub_threshold (subscription stored) = Some t
                 \<and> t \<le> used_percent w)
       | AuthenticationFailure \<Rightarrow> (\<exists>code. snap_outcome snap = AuthenticationFailed code)
       | ContextThreshold \<Rightarrow> False)"
  unfolding not_None_eq [symmetric]
  by (cases "sub_type (subscription stored)"; cases "snap_outcome snap")
    (auto simp: usage_candidate_def Let_def threshold_candidate_None
      simp del: not_None_eq split: option.split)

text \<open>
  Authentication failures never reach an agent pane: whatever the sink would do with a pane
  notification, the outcome for such an event is the same, and with a pane destination it is the
  typed rejection.
\<close>

theorem authentication_alert_never_paned:
  assumes "ev_type (event_input (trig_event t)) = AuthenticationFailure"
  shows "deliver_alert sink t = deliver_alert (sink\<lparr>sink_notify_pane := f\<rparr>) t
    \<and> (\<forall>pane. trig_delivery t = Some (Pane pane) \<longrightarrow> deliver_alert sink t = Rejected)"
  using assms by (auto simp: deliver_alert_def split: option.split alert_delivery.split)

theorem authentication_alert_never_paned_witness:
  "deliver_alert \<lparr>sink_channel_available = \<lambda>_. True, sink_notify_channel = \<lambda>_. Some (Inr ()),
       sink_notify_pane = \<lambda>_ _. Some (Inr ())\<rparr>
     \<lparr>trig_event = \<lparr>event_id = 1, event_input = (example_event 5)\<lparr>ev_type := AuthenticationFailure\<rparr>,
         acknowledged = False\<rparr>, trig_delivery = Some (Pane ''p''), trig_resets_at = None\<rparr> = Rejected"
  by (rule authentication_alert_never_paned [THEN conjunct2, rule_format]) simp_all

text \<open>
  Pane ownership: the control-plane sink sends text to a pane only when a stored subscription of
  the notification's own account and profile, with the notification's subscription id, names
  exactly that pane; the text is the labelled message of the notification.
\<close>

theorem pane_send_is_owned:
  assumes "notify_pane send (\<lambda>acct. Inr (list_alert_subscriptions acct st)) dest n = (Some (pane, txt), r)"
  shows "txt = pane_message n
    \<and> (\<exists>row \<in> set (alert_subscriptions st). sub_id row = note_subscription n
         \<and> sub_account (subscription row) = note_account n \<and> sub_profile (subscription row) = note_profile n
         \<and> sub_delivery (subscription row) = Some (Pane pane))"
proof -
  have a: "pane_authorized dest n (list_alert_subscriptions (dest_account dest) st)"
    and d: "note_account n = dest_account dest" "note_profile n = dest_profile dest" "pane = dest_pane dest"
      "txt = pane_message n"
    using assms by (auto simp: notify_pane_def split: if_splits)
  obtain stored where s: "stored \<in> set (list_alert_subscriptions (dest_account dest) st)"
      "sub_id stored = note_subscription n" "sub_profile (subscription stored) = dest_profile dest"
      "sub_delivery (subscription stored) = Some (Pane (dest_pane dest))"
    using a by (auto simp: pane_authorized_def list_ex_iff)
  from list_subscriptions_mem [OF s(1)] s d show ?thesis by (auto simp: stored_of_row_def)
qed

definition example_pane_row :: subscription_row where
  "example_pane_row = example_row\<lparr>subscription := example_subscription\<lparr>sub_delivery := Some (Pane ''p1'')\<rparr>\<rparr>"

definition example_notification :: alert_notification where
  "example_notification = \<lparr>note_event = 4, note_subscription = 1, note_account = 1,
     note_type = SevenDayThreshold, note_profile = ''deepseek'', note_message = ''x'',
     note_current = Some 90, note_threshold = Some 80, note_resets_at = None\<rparr>"

theorem pane_send_is_owned_witness:
  "\<exists>row \<in> set (alert_subscriptions (alert_row_store\<lparr>alert_subscriptions := [example_pane_row]\<rparr>)).
     sub_delivery (subscription row) = Some (Pane ''p1'')"
proof -
  let ?st = "alert_row_store\<lparr>alert_subscriptions := [example_pane_row]\<rparr>"
  let ?dest = "\<lparr>dest_account = 1, dest_profile = ''deepseek'', dest_pane = ''p1''\<rparr>"
  have "notify_pane (\<lambda>_ _. Inr ()) (\<lambda>acct. Inr (list_alert_subscriptions acct ?st)) ?dest
      example_notification = (Some (''p1'', pane_message example_notification), Inr ())"
    by (simp add: notify_pane_def example_notification_def pane_authorized_def
        list_alert_subscriptions_def select_ordered_def example_pane_row_def example_row_def
        example_subscription_def stored_of_row_def)
  from pane_send_is_owned [OF this] show ?thesis by blast
qed

text \<open>
  Evaluation ceiling: the store accepts any number of subscriptions, but once an account holds
  more than 4096 of them every evaluation for that account fails, so none of its alerts fire.
\<close>

theorem too_many_subscriptions_silence_alerts:
  assumes "count_where (\<lambda>r. sub_account (subscription r) = acct) (alert_subscriptions st) > 4096"
    and "snap_account snap = acct"
  shows "\<nexists>cs. evaluate_usage_alerts snap (list_alert_subscriptions acct st) = Inr cs"
proof -
  have "length (list_alert_subscriptions acct st) > 4096"
    using assms(1) by (simp add: list_alert_subscriptions_def select_ordered_def count_where_def)
  then have "validate_subscription_set acct (list_alert_subscriptions acct st) \<noteq> Inr ()"
    by (simp add: validate_subscription_set_Inr)
  then show ?thesis using assms(2) by (auto simp: evaluate_usage_alerts_def result_simps)
qed

theorem too_many_subscriptions_silence_alerts_witness:
  "\<nexists>cs. evaluate_usage_alerts example_deepseek_snapshot (list_alert_subscriptions 1
      (alert_row_store\<lparr>alert_subscriptions := replicate 4097 example_row\<rparr>)) = Inr cs"
proof -
  have "count_where (\<lambda>r. sub_account (subscription r) = 1) (replicate n example_row) = n" for n
    by (induction n) (simp_all add: example_row_def example_subscription_def)
  then show ?thesis
    by (intro too_many_subscriptions_silence_alerts) (simp_all add: example_deepseek_snapshot_def)
qed

end
