(* ===== verification/Reset_Store.thy ===== *)
theory Reset_Store
  imports Pulse_Tables
begin

text \<open>
  The durable reset-resume jobs of \<open>src/src/pulse/store/sqlite.rs\<close>: scheduling with deduplication,
  horizon and pending cap, claiming with an expiring lease, completion and cancellation, and the
  invariant that every sequence of these operations keeps.
\<close>

section \<open>Operations\<close>

record reset_limits =
  max_pending :: nat
  max_horizon :: nat

definition default_reset_limits :: reset_limits where
  "default_reset_limits = \<lparr>max_pending = 512, max_horizon = 31 * 24 * 60 * 60 * 1000\<rparr>"

definition max_reset_jobs :: nat where "max_reset_jobs = 4096"

definition max_reset_horizon :: nat where "max_reset_horizon = 90 * 24 * 60 * 60 * 1000"

text \<open>\<open>validate_reset_input\<close>: the instant at which the job resumes.\<close>

definition validate_reset_input :: "reset_resume_input \<Rightarrow> reset_limits \<Rightarrow> int pulse_result" where
  "validate_reset_input i bounds =
     (if max_pending bounds = 0 \<or> max_pending bounds > max_reset_jobs
         \<or> max_horizon bounds = 0 \<or> max_horizon bounds > max_reset_horizon
      then Inl (invalid_input ''reset resume limits are out of bounds'')
      else case checked_i64 (reset_at i - scheduled_at i) of
        None \<Rightarrow> Inl (invalid_input ''reset must be in the future'')
      | Some delta \<Rightarrow>
          if \<not> delta > 0 then Inl (invalid_input ''reset must be in the future'')
          else if delta > int (max_horizon bounds)
          then Inl (invalid_input ''reset exceeds the scheduling horizon'')
          else ok_or (invalid_input ''reset resume time overflowed'')
                 (checked_i64 (reset_at i + 60000)))"

definition job_open :: "reset_resume_job \<Rightarrow> bool" where
  "job_open j \<longleftrightarrow> delivered_at j = None \<and> cancelled_at j = None"

definition same_reset :: "reset_resume_input \<Rightarrow> reset_resume_job \<Rightarrow> bool" where
  "same_reset i j \<longleftrightarrow>
     reset_account (job_input j) = reset_account i \<and> reset_profile (job_input j) = reset_profile i
     \<and> reset_at (job_input j) = reset_at i"

definition open_count :: "int \<Rightarrow> store \<Rightarrow> nat" where
  "open_count acct st =
     count_where (\<lambda>j. reset_account (job_input j) = acct \<and> job_open j) (reset_jobs st)"

text \<open>The \<open>INSERT ... ON CONFLICT DO UPDATE\<close>: a cancelled job with the same key is revived.\<close>

definition upsert_reset_job :: "reset_resume_input \<Rightarrow> int \<Rightarrow> store \<Rightarrow> store" where
  "upsert_reset_job i resume st =
     (if exists_where (same_reset i) (reset_jobs st)
      then st\<lparr>reset_jobs := update_where (same_reset i)
             (\<lambda>j. j\<lparr>job_input := (job_input j)\<lparr>scheduled_at := scheduled_at i\<rparr>, resume_at := resume,
                     lease_until := None, attempts := 0, delivered_at := None, cancelled_at := None\<rparr>)
             (reset_jobs st)\<rparr>
      else st\<lparr>reset_jobs := reset_jobs st @
             [\<lparr>job_id = last_job_id st + 1, job_input = i, resume_at = resume, lease_until = None,
               attempts = 0, delivered_at = None, cancelled_at = None\<rparr>],
             last_job_id := last_job_id st + 1\<rparr>)"

text \<open>An existing job that is delivered or still pending is returned as it is.\<close>

definition reusable_job :: "reset_resume_job option \<Rightarrow> reset_resume_job option" where
  "reusable_job existing =
     (case existing of
        None \<Rightarrow> None
      | Some j \<Rightarrow> if delivered_at j \<noteq> None \<or> cancelled_at j = None then Some j else None)"

definition schedule_reset_resume ::
    "(int \<Rightarrow> bool) \<Rightarrow> reset_resume_input \<Rightarrow> reset_limits \<Rightarrow> reset_resume_job store_op" where
  "schedule_reset_resume ts_ok i bounds st =
     and_then (validate_reset_input i bounds) (\<lambda>resume.
       case reusable_job (find (same_reset i) (reset_jobs st)) of
         Some j \<Rightarrow> Inr (j, st)
       | None \<Rightarrow>
           and_then (ensure (open_count (reset_account i) st < max_pending bounds)
               (new_error Conflict ''reset resume jobs reached the account cap'')) (\<lambda>_.
           and_then (ensure (profile_exists (reset_account i) (reset_profile i) st)
               constraint_violation) (\<lambda>_.
           let st' = upsert_reset_job i resume st in
           case find (same_reset i) (reset_jobs st') of
             None \<Rightarrow> Inl (new_error Storage ''Pulse SQLite operation failed'')
           | Some stored \<Rightarrow>
               if ts_ok resume then Inr (stored, st')
               else Inl (new_error Storage
                 ''stored Pulse instant is invalid: invalid epoch millisecond instant''))))"

definition list_pending_reset_resumes ::
    "int \<Rightarrow> instant \<Rightarrow> nat \<Rightarrow> store \<Rightarrow> reset_resume_job list pulse_result" where
  "list_pending_reset_resumes acct through limit st =
     map_ok (\<lambda>n. select_ordered
         (\<lambda>j. reset_account (job_input j) = acct \<and> resume_at j \<le> through \<and> job_open j)
         (\<lambda>j. (resume_at j, job_id j)) n (reset_jobs st))
       (query_limit limit)"

definition claimable :: "int \<Rightarrow> instant \<Rightarrow> reset_resume_job \<Rightarrow> bool" where
  "claimable acct now j \<longleftrightarrow>
     reset_account (job_input j) = acct \<and> resume_at j \<le> now \<and> job_open j
     \<and> (case lease_until j of None \<Rightarrow> True | Some l \<Rightarrow> l \<le> now)"

definition is_job :: "int \<Rightarrow> int \<Rightarrow> reset_resume_job \<Rightarrow> bool" where
  "is_job acct i j \<longleftrightarrow> reset_account (job_input j) = acct \<and> job_id j = i"

definition lease_job :: "int \<Rightarrow> instant \<Rightarrow> int \<Rightarrow> store \<Rightarrow> store" where
  "lease_job acct lease i st =
     st\<lparr>reset_jobs := update_where (is_job acct i)
          (\<lambda>j. j\<lparr>lease_until := Some lease, attempts := attempts j + 1\<rparr>) (reset_jobs st)\<rparr>"

text \<open>The loop over the selected ids: lease the row, then read it back.\<close>

fun claim_loop :: "int \<Rightarrow> instant \<Rightarrow> int list \<Rightarrow> reset_resume_job list store_op" where
  "claim_loop acct lease [] st = Inr ([], st)"
| "claim_loop acct lease (i # ids) st =
     (let st1 = lease_job acct lease i st in
      case find (is_job acct i) (reset_jobs st1) of
        None \<Rightarrow> Inl (new_error Storage ''Pulse SQLite operation failed'')
      | Some j \<Rightarrow>
          if attempts j > u32_max
          then Inl (new_error Storage ''stored reset attempt count is invalid'')
          else map_ok (\<lambda>(js, st2). (j # js, st2)) (claim_loop acct lease ids st1))"

definition claim_due_reset_resumes ::
    "int \<Rightarrow> instant \<Rightarrow> instant \<Rightarrow> nat \<Rightarrow> reset_resume_job list store_op" where
  "claim_due_reset_resumes acct now lease limit st =
     (if lease \<le> now then Inl (invalid_input ''reset lease must end after now'')
      else and_then (query_limit limit) (\<lambda>n.
        claim_loop acct lease
          (map job_id (select_ordered (claimable acct now) (\<lambda>j. (resume_at j, job_id j)) n
             (reset_jobs st))) st))"

definition complete_reset_resume :: "int \<Rightarrow> int \<Rightarrow> instant \<Rightarrow> bool store_op" where
  "complete_reset_resume acct i time st =
     (let p = (\<lambda>j. is_job acct i j \<and> job_open j) in
      Inr (exists_where p (reset_jobs st),
           st\<lparr>reset_jobs := update_where p (\<lambda>j. j\<lparr>delivered_at := Some time, lease_until := None\<rparr>)
                (reset_jobs st)\<rparr>))"

definition cancel_reset_resumes :: "int \<Rightarrow> string \<Rightarrow> instant \<Rightarrow> nat store_op" where
  "cancel_reset_resumes acct prof time st =
     (let p = (\<lambda>j. reset_account (job_input j) = acct \<and> reset_profile (job_input j) = prof \<and> job_open j)
      in Inr (count_where p (reset_jobs st),
           st\<lparr>reset_jobs := update_where p (\<lambda>j. j\<lparr>cancelled_at := Some time, lease_until := None\<rparr>)
                (reset_jobs st)\<rparr>))"

section \<open>Runs\<close>

datatype reset_op =
    ScheduleReset reset_resume_input reset_limits
  | ClaimResets int instant instant nat
  | CompleteReset int int instant
  | CancelResets int string instant

definition commit_jobs :: "store \<Rightarrow> pulse_error + 'a \<times> store \<Rightarrow> store" where
  "commit_jobs st r = (case r of Inl _ \<Rightarrow> st | Inr (_, st') \<Rightarrow> st')"

fun reset_step :: "(int \<Rightarrow> bool) \<Rightarrow> reset_op \<Rightarrow> store \<Rightarrow> store" where
  "reset_step ts_ok (ScheduleReset i bounds) st = commit_jobs st (schedule_reset_resume ts_ok i bounds st)"
| "reset_step ts_ok (ClaimResets acct now lease limit) st =
     commit_jobs st (claim_due_reset_resumes acct now lease limit st)"
| "reset_step ts_ok (CompleteReset acct i t) st = commit_jobs st (complete_reset_resume acct i t st)"
| "reset_step ts_ok (CancelResets acct prof t) st = commit_jobs st (cancel_reset_resumes acct prof t st)"

definition reset_run :: "(int \<Rightarrow> bool) \<Rightarrow> reset_op list \<Rightarrow> store \<Rightarrow> store" where
  "reset_run ts_ok ops st = fold (reset_step ts_ok) ops st"

section \<open>Invariant\<close>

definition job_row_ok :: "reset_resume_job \<Rightarrow> bool" where
  "job_row_ok j \<longleftrightarrow>
     resume_at j = reset_at (job_input j) + 60000 \<and> scheduled_at (job_input j) < reset_at (job_input j)
     \<and> (delivered_at j = None \<or> cancelled_at j = None)
     \<and> (\<not> job_open j \<longrightarrow> lease_until j = None)"

definition job_key :: "reset_resume_job \<Rightarrow> int \<times> string \<times> int" where
  "job_key j = (reset_account (job_input j), reset_profile (job_input j), reset_at (job_input j))"

definition reset_jobs_ok :: "store \<Rightarrow> bool" where
  "reset_jobs_ok st \<longleftrightarrow>
     distinct (map job_id (reset_jobs st)) \<and> distinct (map job_key (reset_jobs st))
     \<and> (\<forall>j \<in> set (reset_jobs st). job_row_ok j \<and> job_id j \<le> last_job_id st)
     \<and> (\<forall>acct. open_count acct st \<le> max_reset_jobs)"

lemma same_reset_key:
  "same_reset i j \<longleftrightarrow> job_key j = (reset_account i, reset_profile i, reset_at i)"
  by (simp add: same_reset_def job_key_def)

lemma open_count_update_le:
  "(\<And>j. p j \<Longrightarrow> job_open (f j) \<Longrightarrow> job_open j)
    \<Longrightarrow> (\<And>j. p j \<Longrightarrow> reset_account (job_input (f j)) = reset_account (job_input j))
    \<Longrightarrow> open_count acct (st\<lparr>reset_jobs := update_where p f (reset_jobs st)\<rparr>) \<le> open_count acct st"
proof -
  assume a: "\<And>j. p j \<Longrightarrow> job_open (f j) \<Longrightarrow> job_open j"
    and b: "\<And>j. p j \<Longrightarrow> reset_account (job_input (f j)) = reset_account (job_input j)"
  have "count_where (\<lambda>j. reset_account (job_input j) = acct \<and> job_open j) (update_where p f rows)
      \<le> count_where (\<lambda>j. reset_account (job_input j) = acct \<and> job_open j) rows" for rows
    by (induction rows) (auto dest: a simp: b)
  then show ?thesis by (simp add: open_count_def)
qed

text \<open>An update that keeps the keys and the rows' own invariant, and opens no job, is harmless.\<close>

lemma update_jobs_ok:
  assumes "reset_jobs_ok st"
    and "\<And>j. p j \<Longrightarrow> job_id (f j) = job_id j \<and> job_key (f j) = job_key j"
    and "\<And>j. p j \<Longrightarrow> job_row_ok j \<Longrightarrow> job_row_ok (f j)"
    and "\<And>j. p j \<Longrightarrow> job_open (f j) \<Longrightarrow> job_open j"
  shows "reset_jobs_ok (st\<lparr>reset_jobs := update_where p f (reset_jobs st)\<rparr>)"
proof -
  have acct: "p j \<Longrightarrow> reset_account (job_input (f j)) = reset_account (job_input j)" for j
    using assms(2) [of j] by (simp add: job_key_def)
  have "open_count a (st\<lparr>reset_jobs := update_where p f (reset_jobs st)\<rparr>) \<le> max_reset_jobs" for a
    using open_count_update_le [OF assms(4) acct, of p a st] assms(1)
    by (meson le_trans reset_jobs_ok_def)
  moreover have "map job_id (update_where p f (reset_jobs st)) = map job_id (reset_jobs st)"
      "map job_key (update_where p f (reset_jobs st)) = map job_key (reset_jobs st)"
    using assms(2) by (simp_all add: map_update_where)
  ultimately show ?thesis
    using assms(1,2,3) by (auto simp: reset_jobs_ok_def set_update_where)
qed

lemma lease_job_ok:
  assumes "reset_jobs_ok st" and "\<forall>j \<in> set (reset_jobs st). is_job acct i j \<longrightarrow> job_open j"
  shows "reset_jobs_ok (lease_job acct lease i st)"
proof -
  let ?f = "\<lambda>j. j\<lparr>lease_until := Some lease, attempts := attempts j + 1\<rparr>"
  have "update_where (is_job acct i) ?f (reset_jobs st)
      = update_where (\<lambda>j. is_job acct i j \<and> job_open j) ?f (reset_jobs st)"
    using assms(2) by (simp add: update_where_def)
  then have "lease_job acct lease i st
      = st\<lparr>reset_jobs := update_where (\<lambda>j. is_job acct i j \<and> job_open j) ?f (reset_jobs st)\<rparr>"
    by (simp add: lease_job_def)
  moreover have "reset_jobs_ok \<dots>"
    by (rule update_jobs_ok [OF assms(1)]) (auto simp: job_row_ok_def job_open_def job_key_def)
  ultimately show ?thesis by simp
qed


lemma is_job_unique:
  "reset_jobs_ok st \<Longrightarrow> j \<in> set (reset_jobs st) \<Longrightarrow> k \<in> set (reset_jobs st) \<Longrightarrow>
     is_job acct i j \<Longrightarrow> is_job acct i k \<Longrightarrow> j = k"
  by (auto simp: reset_jobs_ok_def is_job_def distinct_map inj_on_def)

lemma same_reset_unique:
  "reset_jobs_ok st \<Longrightarrow> j \<in> set (reset_jobs st) \<Longrightarrow> k \<in> set (reset_jobs st) \<Longrightarrow>
     same_reset i j \<Longrightarrow> same_reset i k \<Longrightarrow> j = k"
  by (auto simp: reset_jobs_ok_def same_reset_key distinct_map inj_on_def)

lemma validate_reset_input_Inr:
  "validate_reset_input i bounds = Inr resume \<Longrightarrow>
     resume = reset_at i + 60000 \<and> scheduled_at i < reset_at i
     \<and> 0 < max_pending bounds \<and> max_pending bounds \<le> max_reset_jobs
     \<and> reset_at i - scheduled_at i \<le> int max_reset_horizon"
  by (auto simp: validate_reset_input_def result_simps split: if_splits option.splits)

lemma count_where_update_one:
  assumes "distinct (map key rows)" and "\<And>r. p r \<Longrightarrow> key r = k"
  shows "count_where q (update_where p f rows) \<le> Suc (count_where q rows)"
  using assms(1)
proof (induction rows)
  case (Cons r rows)
  show ?case
  proof (cases "p r")
    case True
    then have "\<forall>x \<in> set rows. \<not> p x" using Cons.prems assms(2) by (metis image_eqI list.set_map distinct.simps(2) list.simps(9))
    then show ?thesis by (simp add: update_where_none)
  next
    case False
    then show ?thesis using Cons by simp
  qed
qed simp

lemma upsert_reset_ok:
  assumes ok: "reset_jobs_ok st" and v: "validate_reset_input i bounds = Inr resume"
    and none: "reusable_job (find (same_reset i) (reset_jobs st)) = None"
    and cap: "open_count (reset_account i) st < max_pending bounds"
  shows "reset_jobs_ok (upsert_reset_job i resume st)"
proof (cases "exists_where (same_reset i) (reset_jobs st)")
  case True
  let ?f = "\<lambda>j. j\<lparr>job_input := (job_input j)\<lparr>scheduled_at := scheduled_at i\<rparr>, resume_at := resume,
                     lease_until := None, attempts := 0, delivered_at := None, cancelled_at := None\<rparr>"
  let ?st = "st\<lparr>reset_jobs := update_where (same_reset i) ?f (reset_jobs st)\<rparr>"
  note V = validate_reset_input_Inr [OF v]
  have keys: "map job_id (update_where (same_reset i) ?f (reset_jobs st)) = map job_id (reset_jobs st)"
      "map job_key (update_where (same_reset i) ?f (reset_jobs st)) = map job_key (reset_jobs st)"
    by (simp_all add: map_update_where job_key_def)
  have "open_count a ?st \<le> max_reset_jobs" for a
  proof (cases "a = reset_account i")
    case True
    have "open_count a ?st \<le> Suc (open_count a st)"
      unfolding open_count_def
      using count_where_update_one [of job_key "reset_jobs st" "same_reset i" "(reset_account i, reset_profile i, reset_at i)"] ok
      by (simp add: same_reset_key reset_jobs_ok_def)
    then show ?thesis using True cap V by simp
  next
    case False
    then have "count_where (\<lambda>j. reset_account (job_input j) = a \<and> job_open j)
        (update_where (same_reset i) ?f rows)
      = count_where (\<lambda>j. reset_account (job_input j) = a \<and> job_open j) rows" for rows
      by (intro count_where_update) (auto simp: same_reset_def)
    then have "open_count a ?st = open_count a st" by (simp add: open_count_def)
    then show ?thesis using ok by (simp add: reset_jobs_ok_def)
  qed
  moreover have "\<forall>j \<in> set (update_where (same_reset i) ?f (reset_jobs st)). job_row_ok j \<and> job_id j \<le> last_job_id st"
    by (rule update_where_all) (use ok V in \<open>auto simp: reset_jobs_ok_def job_row_ok_def same_reset_def job_open_def\<close>)
  ultimately have "reset_jobs_ok ?st" using ok keys by (simp add: reset_jobs_ok_def)
  then show ?thesis using True by (simp add: upsert_reset_job_def)
next
  case False
  then have fresh: "\<forall>j \<in> set (reset_jobs st). job_key j \<noteq> (reset_account i, reset_profile i, reset_at i)"
    by (simp add: exists_where_def same_reset_key)
  note V = validate_reset_input_Inr [OF v]
  let ?new = "\<lparr>job_id = last_job_id st + 1, job_input = i, resume_at = resume, lease_until = None,
               attempts = 0, delivered_at = None, cancelled_at = None\<rparr>"
  have st': "reset_jobs (upsert_reset_job i resume st) = reset_jobs st @ [?new]"
      "last_job_id (upsert_reset_job i resume st) = last_job_id st + 1"
    using False by (simp_all add: upsert_reset_job_def)
  have bound: "\<forall>j \<in> set (reset_jobs st). job_row_ok j \<and> job_id j \<le> last_job_id st"
    using ok by (simp add: reset_jobs_ok_def)
  then have "last_job_id st + 1 \<notin> job_id ` set (reset_jobs st)" by fastforce
  then have "distinct (map job_id (reset_jobs st @ [?new]))"
    using ok by (simp add: reset_jobs_ok_def)
  moreover have "job_key ?new \<notin> job_key ` set (reset_jobs st)"
    using fresh by (auto simp: job_key_def)
  then have "distinct (map job_key (reset_jobs st @ [?new]))"
    using ok by (simp add: reset_jobs_ok_def)
  moreover have "job_row_ok ?new" using V by (simp add: job_row_ok_def job_open_def)
  then have "\<forall>j \<in> set (reset_jobs st @ [?new]). job_row_ok j \<and> job_id j \<le> last_job_id st + 1"
    using bound by fastforce
  moreover have "open_count a (upsert_reset_job i resume st) \<le> max_reset_jobs" for a
  proof -
    have a: "open_count a st \<le> max_reset_jobs" using ok by (simp add: reset_jobs_ok_def)
    have m: "max_pending bounds \<le> max_reset_jobs" using V by simp
    have "open_count a (upsert_reset_job i resume st)
        = open_count a st + (if reset_account i = a then 1 else 0)"
      by (simp add: open_count_def st' job_open_def)
    then show ?thesis using cap a m by (cases "reset_account i = a") simp_all
  qed
  ultimately show ?thesis unfolding reset_jobs_ok_def st' by blast
qed

lemma schedule_cases:
  assumes "schedule_reset_resume ts_ok i bounds st = Inr (j, st')"
  shows "st' = st \<and> j \<in> set (reset_jobs st) \<and> same_reset i j
      \<and> (delivered_at j \<noteq> None \<or> cancelled_at j = None) \<or>
    (\<exists>resume. validate_reset_input i bounds = Inr resume
       \<and> reusable_job (find (same_reset i) (reset_jobs st)) = None
       \<and> open_count (reset_account i) st < max_pending bounds \<and> st' = upsert_reset_job i resume st
       \<and> j \<in> set (reset_jobs st') \<and> same_reset i j)"
proof (cases "reusable_job (find (same_reset i) (reset_jobs st))")
  case None
  then obtain resume where r: "validate_reset_input i bounds = Inr resume"
      "open_count (reset_account i) st < max_pending bounds" "st' = upsert_reset_job i resume st"
      "find (same_reset i) (reset_jobs (upsert_reset_job i resume st)) = Some j"
    using assms
    by (auto simp: schedule_reset_resume_def result_simps Let_def split: option.split_asm if_split_asm)
  with None find_Some_mem [OF r(4)] show ?thesis by auto
next
  case (Some k)
  then have k: "find (same_reset i) (reset_jobs st) = Some k" "delivered_at k \<noteq> None \<or> cancelled_at k = None"
    by (auto simp: reusable_job_def split: option.splits if_splits)
  from find_Some_mem [OF k(1)] k(2) show ?thesis using assms Some
    by (auto simp: schedule_reset_resume_def result_simps)
qed

text \<open>Leasing a list of distinct jobs, in one equation.\<close>

lemma claim_loop_result:
  assumes "reset_jobs_ok st" and "distinct ids"
    and "\<forall>i \<in> set ids. \<exists>j \<in> set (reset_jobs st). is_job acct i j \<and> job_open j"
    and "claim_loop acct lease ids st = Inr (js, st')"
  shows "reset_jobs_ok st' \<and> last_job_id st' = last_job_id st
    \<and> reset_jobs st' = update_where (\<lambda>j. reset_account (job_input j) = acct \<and> job_id j \<in> set ids)
         (\<lambda>j. j\<lparr>lease_until := Some lease, attempts := attempts j + 1\<rparr>) (reset_jobs st)
    \<and> map job_id js = ids \<and> set js \<subseteq> set (reset_jobs st')
    \<and> (\<forall>j \<in> set js. reset_account (job_input j) = acct \<and> lease_until j = Some lease)"
  using assms
proof (induction ids arbitrary: st js)
  case Nil
  then show ?case by (auto simp: update_where_def)
next
  case (Cons i ids)
  let ?f = "\<lambda>j. j\<lparr>lease_until := Some lease, attempts := attempts j + 1\<rparr>"
  let ?st1 = "lease_job acct lease i st"
  obtain j js1 where f: "find (is_job acct i) (reset_jobs ?st1) = Some j"
      and rest: "claim_loop acct lease ids ?st1 = Inr (js1, st')" and js: "js = j # js1"
    using Cons.prems(4) by (auto simp: Let_def result_simps split: option.splits if_splits)
  have ok1: "reset_jobs_ok ?st1"
    using Cons.prems(1,3) is_job_unique [OF Cons.prems(1)] by (intro lease_job_ok) auto
  have rows1: "reset_jobs ?st1 = update_where (is_job acct i) ?f (reset_jobs st)"
    by (simp add: lease_job_def)
  have ex: "\<forall>k \<in> set ids. \<exists>j \<in> set (reset_jobs ?st1). is_job acct k j \<and> job_open j"
    unfolding rows1 using Cons.prems(3)
    by (intro ballI update_where_ex) (auto simp: is_job_def job_open_def)
  have d: "distinct ids" using Cons.prems(2) by simp
  have IH: "reset_jobs_ok st' \<and> last_job_id st' = last_job_id ?st1
    \<and> reset_jobs st' = update_where (\<lambda>j. reset_account (job_input j) = acct \<and> job_id j \<in> set ids) ?f (reset_jobs ?st1)
    \<and> map job_id js1 = ids \<and> set js1 \<subseteq> set (reset_jobs st')
    \<and> (\<forall>j \<in> set js1. reset_account (job_input j) = acct \<and> lease_until j = Some lease)"
    by (rule Cons.IH [OF ok1 d ex rest])
  have j: "j \<in> set (reset_jobs ?st1)" "is_job acct i j" using find_Some_mem [OF f] by auto
  have jl: "lease_until j = Some lease" "job_id j = i" "reset_account (job_input j) = acct"
  proof -
    obtain k where "j = (if is_job acct i k then ?f k else k)"
      using j(1) unfolding rows1 set_update_where by (rule imageE)
    then show "lease_until j = Some lease" using j(2) by (cases "is_job acct i k") simp_all
    show "job_id j = i" "reset_account (job_input j) = acct" using j(2) by (simp_all add: is_job_def)
  qed
  have i: "i \<notin> set ids" using Cons.prems(2) by simp
  have ok': "reset_jobs_ok st'" and last: "last_job_id st' = last_job_id ?st1"
    and rows': "reset_jobs st' = update_where
        (\<lambda>j. reset_account (job_input j) = acct \<and> job_id j \<in> set ids) ?f (reset_jobs ?st1)"
    and ids: "map job_id js1 = ids" and sub: "set js1 \<subseteq> set (reset_jobs st')"
    and leased: "\<forall>j \<in> set js1. reset_account (job_input j) = acct \<and> lease_until j = Some lease"
    using IH by blast+
  have "(if reset_account (job_input j) = acct \<and> job_id j \<in> set ids then ?f j else j) \<in> set (reset_jobs st')"
    unfolding rows' set_update_where using j(1) by (rule imageI)
  then have "j \<in> set (reset_jobs st')" using i jl(2) by simp
  then have "set js \<subseteq> set (reset_jobs st')" using sub js by simp
  moreover have "reset_jobs st' = update_where (\<lambda>j. reset_account (job_input j) = acct \<and> job_id j \<in> set (i # ids)) ?f (reset_jobs st)"
    unfolding rows' rows1 update_where_def list.map_comp using i
    by (intro map_cong refl) (auto simp: is_job_def)
  moreover have "last_job_id st' = last_job_id st" using last by (simp add: lease_job_def)
  moreover have "map job_id js = i # ids" using ids js jl(2) by simp
  moreover have "\<forall>j \<in> set js. reset_account (job_input j) = acct \<and> lease_until j = Some lease"
    using leased js jl by simp
  ultimately show ?case using ok' by blast
qed

lemma claim_cases:
  assumes ok: "reset_jobs_ok st" and c: "claim_due_reset_resumes acct now lease limit st = Inr (js, st')"
  shows "reset_jobs_ok st' \<and> now < lease
    \<and> reset_jobs st' = update_where (\<lambda>j. reset_account (job_input j) = acct \<and> job_id j \<in> job_id ` set js)
         (\<lambda>j. j\<lparr>lease_until := Some lease, attempts := attempts j + 1\<rparr>) (reset_jobs st)
    \<and> distinct (map job_id js) \<and> set js \<subseteq> set (reset_jobs st')
    \<and> (\<forall>j \<in> set js. reset_account (job_input j) = acct \<and> lease_until j = Some lease
         \<and> (\<exists>k \<in> set (reset_jobs st). claimable acct now k \<and> job_id k = job_id j))"
proof -
  let ?sel = "select_ordered (claimable acct now) (\<lambda>j. (resume_at j, job_id j)) limit (reset_jobs st)"
  have l: "now < lease" and loop: "claim_loop acct lease (map job_id ?sel) st = Inr (js, st')"
    using c by (auto simp: claim_due_reset_resumes_def result_simps split: if_splits)
  have d: "distinct (map job_id ?sel)"
    using ok by (intro distinct_select_ordered) (simp add: reset_jobs_ok_def)
  have mem: "j \<in> set ?sel \<Longrightarrow> j \<in> set (reset_jobs st) \<and> claimable acct now j" for j
    by (rule select_ordered_mem)
  then have "\<forall>i \<in> set (map job_id ?sel). \<exists>j \<in> set (reset_jobs st). is_job acct i j \<and> job_open j"
    by (fastforce simp: is_job_def claimable_def)
  note R = claim_loop_result [OF ok d this loop]
  have ids: "job_id ` set js = job_id ` set ?sel" using R by (metis list.set_map)
  have "\<exists>k \<in> set (reset_jobs st). claimable acct now k \<and> job_id k = job_id j" if "j \<in> set js" for j
  proof -
    have "job_id j \<in> job_id ` set ?sel" using that ids by blast
    then show ?thesis using mem by fastforce
  qed
  then show ?thesis using R d l ids by auto
qed


lemma schedule_ok_jobs:
  "reset_jobs_ok st \<Longrightarrow> schedule_reset_resume ts_ok i bounds st = Inr (j, st') \<Longrightarrow> reset_jobs_ok st'"
  using schedule_cases upsert_reset_ok by blast

lemma complete_ok_jobs:
  "reset_jobs_ok st \<Longrightarrow> complete_reset_resume acct i t st = Inr (b, st') \<Longrightarrow> reset_jobs_ok st'"
  by (auto simp: complete_reset_resume_def Let_def job_row_ok_def job_open_def job_key_def
      intro!: update_jobs_ok)

lemma cancel_ok_jobs:
  "reset_jobs_ok st \<Longrightarrow> cancel_reset_resumes acct prof t st = Inr (b, st') \<Longrightarrow> reset_jobs_ok st'"
  by (auto simp: cancel_reset_resumes_def Let_def job_row_ok_def job_open_def job_key_def
      intro!: update_jobs_ok)

lemma commit_jobs_ok:
  "P st \<Longrightarrow> (\<And>x st'. r = Inr (x, st') \<Longrightarrow> P st') \<Longrightarrow> P (commit_jobs st r)"
  by (auto simp: commit_jobs_def split: sum.splits)

lemma reset_step_ok:
  assumes "reset_jobs_ok st"
  shows "reset_jobs_ok (reset_step ts_ok op st)"
  by (cases op; simp only: reset_step.simps; rule commit_jobs_ok [of reset_jobs_ok, OF assms])
    (erule schedule_ok_jobs [OF assms] claim_cases [OF assms, THEN conjunct1]
       complete_ok_jobs [OF assms] cancel_ok_jobs [OF assms])+

lemma reset_run_ok: "reset_jobs_ok st \<Longrightarrow> reset_jobs_ok (reset_run ts_ok ops st)"
  unfolding reset_run_def by (induction ops arbitrary: st) (simp_all add: reset_step_ok)

section \<open>Closed jobs stay closed, leases hold\<close>

text \<open>A delivered row is never written again.\<close>

lemma delivered_kept:
  assumes ok: "reset_jobs_ok st" and j: "j \<in> set (reset_jobs st)" "delivered_at j \<noteq> None"
  shows "j \<in> set (reset_jobs (reset_step ts_ok op st))"
proof -
  have untouched: "j \<in> set (update_where p f (reset_jobs st))" if "\<not> p j" for p f
    using j(1) that by (force simp: set_update_where)
  show ?thesis
  proof (cases op)
    case (ScheduleReset i bounds)
    show ?thesis unfolding ScheduleReset reset_step.simps
    proof (rule commit_jobs_ok [of "\<lambda>st. j \<in> set (reset_jobs st)", OF j(1)])
      fix x st' assume x: "schedule_reset_resume ts_ok i bounds st = Inr (x, st')"
      show "j \<in> set (reset_jobs st')"
      proof (cases "same_reset i j")
        case True
        have "find (same_reset i) (reset_jobs st) = Some j"
          using j(1) True same_reset_unique [OF ok] by (intro find_unique) auto
        then have "reusable_job (find (same_reset i) (reset_jobs st)) = Some j"
          using j(2) by (simp add: reusable_job_def)
        then show ?thesis using schedule_cases [OF x] j(1) by auto
      next
        case False
        then show ?thesis using schedule_cases [OF x] j(1) untouched
          by (auto simp: upsert_reset_job_def)
      qed
    qed
  next
    case (ClaimResets acct now lease limit)
    show ?thesis unfolding ClaimResets reset_step.simps
    proof (rule commit_jobs_ok [of "\<lambda>st. j \<in> set (reset_jobs st)", OF j(1)])
      fix js st' assume x: "claim_due_reset_resumes acct now lease limit st = Inr (js, st')"
      have "\<not> (reset_account (job_input j) = acct \<and> job_id j \<in> job_id ` set js)"
      proof
        assume "reset_account (job_input j) = acct \<and> job_id j \<in> job_id ` set js"
        then obtain k where "k \<in> set (reset_jobs st)" "claimable acct now k" "job_id k = job_id j"
          using claim_cases [OF ok x] by fastforce
        moreover from this have "k = j" using ok j(1) by (auto simp: reset_jobs_ok_def distinct_map inj_on_def)
        ultimately show False using j(2) by (simp add: claimable_def job_open_def)
      qed
      from untouched [where p = "\<lambda>j. reset_account (job_input j) = acct \<and> job_id j \<in> job_id ` set js",
        OF this] show "j \<in> set (reset_jobs st')"
        using claim_cases [OF ok x] by simp
    qed
  next
    case (CompleteReset acct i t)
    then show ?thesis using j(2) untouched
      by (simp add: complete_reset_resume_def commit_jobs_def Let_def job_open_def)
  next
    case (CancelResets acct prof t)
    then show ?thesis using j(2) untouched
      by (simp add: cancel_reset_resumes_def commit_jobs_def Let_def job_open_def)
  qed
qed

lemma delivered_kept_run:
  "reset_jobs_ok st \<Longrightarrow> j \<in> set (reset_jobs st) \<Longrightarrow> delivered_at j \<noteq> None \<Longrightarrow>
     j \<in> set (reset_jobs (reset_run ts_ok ops st))"
  unfolding reset_run_def
  by (induction ops arbitrary: st) (simp_all add: reset_step_ok delivered_kept)

text \<open>
  \<open>blocked acct i l st\<close>: the job \<open>i\<close> is delivered, or pending under a lease that runs at least to \<open>l\<close>.
\<close>

definition blocked :: "int \<Rightarrow> int \<Rightarrow> instant \<Rightarrow> store \<Rightarrow> bool" where
  "blocked acct i l st \<longleftrightarrow>
     (\<exists>j \<in> set (reset_jobs st). is_job acct i j
        \<and> (delivered_at j \<noteq> None \<or> cancelled_at j = None \<and> (\<exists>u \<ge> l. lease_until j = Some u)))"

fun cancels :: "reset_op \<Rightarrow> bool" where
  "cancels (CancelResets _ _ _) \<longleftrightarrow> True"
| "cancels _ \<longleftrightarrow> False"

lemma blocked_not_claimed:
  assumes ok: "reset_jobs_ok st" and b: "blocked acct i l st" and "now < l"
    and c: "claim_due_reset_resumes acct now lease limit st = Inr (js, st')"
  shows "i \<notin> job_id ` set js"
proof
  assume "i \<in> job_id ` set js"
  then obtain k where k: "k \<in> set (reset_jobs st)" "claimable acct now k" "job_id k = i"
    using claim_cases [OF ok c] by fastforce
  obtain j where j: "j \<in> set (reset_jobs st)" "is_job acct i j"
      "delivered_at j \<noteq> None \<or> cancelled_at j = None \<and> (\<exists>u \<ge> l. lease_until j = Some u)"
    using b by (auto simp: blocked_def)
  have "is_job acct i k" using k by (simp add: is_job_def claimable_def)
  then have "j = k" using is_job_unique [OF ok j(1) k(1) j(2)] by simp
  then show False using j(3) k(2) \<open>now < l\<close> by (auto simp: claimable_def job_open_def)
qed


lemma blocked_update:
  assumes "\<exists>j \<in> set rows. is_job acct i j \<and> P j"
    and "\<And>j. j \<in> set rows \<Longrightarrow> is_job acct i j \<Longrightarrow> P j \<Longrightarrow> p j \<Longrightarrow> is_job acct i (f j) \<and> P (f j)"
  shows "\<exists>j \<in> set (update_where p f rows). is_job acct i j \<and> P j"
  using assms update_where_ex [of rows "\<lambda>j. is_job acct i j \<and> P j" p f] by blast

lemma blocked_step:
  assumes ok: "reset_jobs_ok st" and b: "blocked acct i l st" and nc: "\<not> cancels op"
  shows "blocked acct i l (reset_step ts_ok op st)"
proof -
  let ?P = "\<lambda>j. delivered_at j \<noteq> None \<or> cancelled_at j = None \<and> (\<exists>u \<ge> l. lease_until j = Some u)"
  have b': "\<exists>j \<in> set (reset_jobs st). is_job acct i j \<and> ?P j" using b by (simp add: blocked_def)
  show ?thesis
  proof (cases op)
    case (ScheduleReset r bounds)
    show ?thesis unfolding ScheduleReset reset_step.simps
    proof (rule commit_jobs_ok [of "blocked acct i l", OF b])
      fix x st' assume x: "schedule_reset_resume ts_ok r bounds st = Inr (x, st')"
      consider "st' = st" | resume where "reusable_job (find (same_reset r) (reset_jobs st)) = None"
          "st' = upsert_reset_job r resume st" using schedule_cases [OF x] by blast
      then show "blocked acct i l st'"
      proof cases
        case 1
        then show ?thesis using b by simp
      next
        case 2
        have "\<not> same_reset r j" if "j \<in> set (reset_jobs st)" "?P j" for j
        proof
          assume s: "same_reset r j"
          have "find (same_reset r) (reset_jobs st) = Some j"
            using that(1) s same_reset_unique [OF ok] by (intro find_unique) auto
          then show False using 2(1) that(2) by (auto simp: reusable_job_def split: if_splits)
        qed
        then have "\<exists>j \<in> set (reset_jobs st'). is_job acct i j \<and> ?P j"
          using b' unfolding 2(2) upsert_reset_job_def
          by (auto simp: set_update_where intro!: bexI)
        then show ?thesis by (simp add: blocked_def)
      qed
    qed
  next
    case (ClaimResets a now lease limit)
    show ?thesis unfolding ClaimResets reset_step.simps
    proof (rule commit_jobs_ok [of "blocked acct i l", OF b])
      fix js st' assume x: "claim_due_reset_resumes a now lease limit st = Inr (js, st')"
      note C = claim_cases [OF ok x]
      have rows: "reset_jobs st' = update_where
          (\<lambda>j. reset_account (job_input j) = a \<and> job_id j \<in> job_id ` set js)
          (\<lambda>j. j\<lparr>lease_until := Some lease, attempts := attempts j + 1\<rparr>) (reset_jobs st)"
        using C by blast
      have later: "?P (j\<lparr>lease_until := Some lease, attempts := attempts j + 1\<rparr>)"
        if j: "j \<in> set (reset_jobs st)" "?P j" "job_id j \<in> job_id ` set js" for j
      proof -
        obtain k where k: "k \<in> set (reset_jobs st)" "claimable a now k" "job_id k = job_id j"
          using C j(3) by fastforce
        then have "k = j" using ok j(1) by (auto simp: reset_jobs_ok_def distinct_map inj_on_def)
        then have "l \<le> now" using k(2) j(2) by (auto simp: claimable_def job_open_def)
        moreover have "now < lease" using C by blast
        ultimately show ?thesis using j(2) by auto
      qed
      have "\<exists>j \<in> set (reset_jobs st'). is_job acct i j \<and> ?P j"
        unfolding rows
      proof (rule blocked_update [OF b'])
        fix j assume "j \<in> set (reset_jobs st)" "is_job acct i j" "?P j"
          "reset_account (job_input j) = a \<and> job_id j \<in> job_id ` set js"
        then show "is_job acct i (j\<lparr>lease_until := Some lease, attempts := attempts j + 1\<rparr>)
            \<and> ?P (j\<lparr>lease_until := Some lease, attempts := attempts j + 1\<rparr>)"
          using later [of j] by (simp add: is_job_def)
      qed
      then show "blocked acct i l st'" by (simp add: blocked_def)
    qed
  next
    case (CompleteReset a k t)
    then show ?thesis
      using blocked_update [OF b', where p = "\<lambda>j. is_job a k j \<and> job_open j"
          and f = "\<lambda>j. j\<lparr>delivered_at := Some t, lease_until := None\<rparr>"]
      by (simp add: blocked_def complete_reset_resume_def commit_jobs_def Let_def is_job_def)
  next
    case (CancelResets a prof t)
    with nc show ?thesis by simp
  qed
qed

lemma blocked_run:
  "reset_jobs_ok st \<Longrightarrow> blocked acct i l st \<Longrightarrow> \<forall>op \<in> set ops. \<not> cancels op \<Longrightarrow>
     blocked acct i l (reset_run ts_ok ops st)"
  unfolding reset_run_def
  by (induction ops arbitrary: st) (simp_all add: reset_step_ok blocked_step)

section \<open>Properties\<close>


definition reset_example_input :: reset_resume_input where
  "reset_example_input =
     \<lparr>reset_account = 1, reset_profile = ''deepseek'', reset_at = 1000, scheduled_at = 0\<rparr>"

definition reset_example_job :: reset_resume_job where
  "reset_example_job = \<lparr>job_id = 1, job_input = reset_example_input, resume_at = 61000,
     lease_until = None, attempts = 0, delivered_at = None, cancelled_at = None\<rparr>"

definition reset_example_store :: store where
  "reset_example_store = empty_store\<lparr>profiles := [example_profile], reset_jobs := [reset_example_job],
     last_job_id := 1\<rparr>"

lemma reset_example_fields [simp]:
  "reset_jobs reset_example_store = [reset_example_job]" "last_job_id reset_example_store = 1"
  by (simp_all add: reset_example_store_def)

lemma reset_example_ok: "reset_jobs_ok reset_example_store"
  by (simp add: reset_jobs_ok_def open_count_def max_reset_jobs_def)
    (simp add: job_row_ok_def job_open_def reset_example_job_def reset_example_input_def)

lemma reset_example_claim:
  "claim_due_reset_resumes 1 70000 370000 10 reset_example_store =
     Inr ([reset_example_job\<lparr>lease_until := Some 370000, attempts := 1\<rparr>],
          reset_example_store\<lparr>reset_jobs := [reset_example_job\<lparr>lease_until := Some 370000, attempts := 1\<rparr>]\<rparr>)"
  by (simp add: claim_due_reset_resumes_def query_limit_def select_ordered_def)
    (simp add: claimable_def reset_example_job_def reset_example_input_def job_open_def
      lease_job_def is_job_def u32_max_def)


text \<open>
  Exactly-once completion: a delivered job keeps its row through every later sequence of
  scheduling, claiming, completing and cancelling, and no later claim returns it.
\<close>

theorem delivered_reset_is_final:
  assumes "reset_jobs_ok st" and "j \<in> set (reset_jobs st)" and "delivered_at j \<noteq> None"
    and "claim_due_reset_resumes acct now lease limit (reset_run ts_ok ops st) = Inr (js, st')"
  shows "j \<in> set (reset_jobs (reset_run ts_ok ops st)) \<and> job_id j \<notin> job_id ` set js"
proof -
  have ok: "reset_jobs_ok (reset_run ts_ok ops st)" using assms(1) by (rule reset_run_ok)
  have j: "j \<in> set (reset_jobs (reset_run ts_ok ops st))"
    using assms(1-3) by (rule delivered_kept_run)
  have "job_id j \<notin> job_id ` set js"
  proof
    assume "job_id j \<in> job_id ` set js"
    then obtain k where k: "k \<in> set (reset_jobs (reset_run ts_ok ops st))" "claimable acct now k"
        "job_id k = job_id j" using claim_cases [OF ok assms(4)] by fastforce
    then have "k = j" using ok j by (auto simp: reset_jobs_ok_def distinct_map inj_on_def)
    then show False using k(2) assms(3) by (simp add: claimable_def job_open_def)
  qed
  with j show ?thesis by simp
qed

theorem delivered_reset_is_final_witness:
  "\<exists>js st'. claim_due_reset_resumes 1 99000 400000 10 (reset_run (\<lambda>_. True)
       [ScheduleReset reset_example_input default_reset_limits, CancelResets 1 ''deepseek'' 9]
       (reset_example_store\<lparr>reset_jobs := [reset_example_job\<lparr>delivered_at := Some 62000\<rparr>]\<rparr>)) = Inr (js, st')
     \<and> 1 \<notin> job_id ` set js"
proof -
  let ?j = "reset_example_job\<lparr>delivered_at := Some 62000\<rparr>"
  let ?st = "reset_example_store\<lparr>reset_jobs := [?j]\<rparr>"
  let ?ops = "[ScheduleReset reset_example_input default_reset_limits, CancelResets 1 ''deepseek'' 9]"
  have ok: "reset_jobs_ok ?st"
    by (simp add: reset_jobs_ok_def open_count_def max_reset_jobs_def)
      (simp add: job_row_ok_def job_open_def reset_example_job_def reset_example_input_def)
  let ?run = "reset_run (\<lambda>_. True) ?ops ?st"
  have run_ok: "reset_jobs_ok ?run" using ok by (rule reset_run_ok)
  have v: "validate_reset_input reset_example_input default_reset_limits = Inr 61000"
    by (simp add: validate_reset_input_def default_reset_limits_def max_reset_jobs_def
        max_reset_horizon_def reset_example_input_def checked_i64_def i64_ok_def i64_max_def i64_min_def)
  have "reset_jobs ?run = [?j]"
    by (simp add: reset_run_def schedule_reset_resume_def v commit_jobs_def cancel_reset_resumes_def Let_def)
      (simp add: same_reset_def reset_example_job_def reusable_job_def job_open_def)
  then have "claim_due_reset_resumes 1 99000 400000 10 ?run = Inr ([], ?run)"
    by (simp add: claim_due_reset_resumes_def query_limit_def select_ordered_def claimable_def job_open_def)
  from delivered_reset_is_final [OF ok _ _ this, of ?j] this show ?thesis by auto
qed

text \<open>
  Bounds of the job table: from an empty table, every sequence of operations leaves at most
  4096 pending jobs per account, at most one row per account, profile and reset time, every row
  resuming exactly one minute after its reset, and no row both delivered and cancelled.
\<close>

theorem reset_table_bounds:
  assumes "reset_jobs st = []"
  shows "open_count acct (reset_run ts_ok ops st) \<le> 4096
    \<and> distinct (map job_key (reset_jobs (reset_run ts_ok ops st)))
    \<and> (\<forall>j \<in> set (reset_jobs (reset_run ts_ok ops st)).
          resume_at j = reset_at (job_input j) + 60000
          \<and> (delivered_at j = None \<or> cancelled_at j = None))"
proof -
  have "reset_jobs_ok st" using assms by (simp add: reset_jobs_ok_def open_count_def)
  from reset_run_ok [OF this] show ?thesis
    by (simp add: reset_jobs_ok_def job_row_ok_def max_reset_jobs_def)
qed

theorem reset_table_bounds_witness:
  "open_count 1 (reset_run (\<lambda>_. True) [ScheduleReset reset_example_input default_reset_limits] empty_store) \<le> 4096"
  by (rule reset_table_bounds [THEN conjunct1]) (simp add: empty_store_def)

text \<open>
  Scheduling is idempotent: repeating a successful request for the same account, profile and
  reset time returns the same job and changes nothing.
\<close>

theorem schedule_reset_idempotent:
  assumes "reset_jobs_ok st" and "schedule_reset_resume ts_ok i bounds st = Inr (j, st1)"
    and "validate_reset_input i2 bounds2 = Inr r2"
    and "(reset_account i2, reset_profile i2, reset_at i2) = (reset_account i, reset_profile i, reset_at i)"
  shows "schedule_reset_resume ts_ok i2 bounds2 st1 = Inr (j, st1)"
proof -
  have ok1: "reset_jobs_ok st1" using assms(1,2) by (rule schedule_ok_jobs)
  have key: "same_reset i2 = same_reset i" using assms(4) by (auto simp: same_reset_key fun_eq_iff)
  have j: "j \<in> set (reset_jobs st1)" "same_reset i j" using schedule_cases [OF assms(2)] by auto
  then have f: "find (same_reset i2) (reset_jobs st1) = Some j"
    unfolding key using same_reset_unique [OF ok1] by (intro find_unique) auto
  have "delivered_at j \<noteq> None \<or> cancelled_at j = None"
  proof (rule ccontr)
    assume c: "\<not> ?thesis"
    consider "delivered_at j \<noteq> None \<or> cancelled_at j = None"
      | resume where "st1 = upsert_reset_job i resume st" using schedule_cases [OF assms(2)] by auto
    then show False
    proof cases
      case 1
      with c show False by simp
    next
      case 2
      then show False using c j
        by (auto simp: upsert_reset_job_def set_update_where same_reset_def exists_where_def split: if_splits)
    qed
  qed
  then show ?thesis using f assms(3) by (simp add: schedule_reset_resume_def reusable_job_def)
qed

theorem schedule_reset_idempotent_witness:
  "schedule_reset_resume (\<lambda>_. True) (reset_example_input\<lparr>scheduled_at := 500\<rparr>) default_reset_limits
     reset_example_store = Inr (reset_example_job, reset_example_store)"
proof (rule schedule_reset_idempotent [OF reset_example_ok])
  note d = validate_reset_input_def default_reset_limits_def max_reset_jobs_def
        max_reset_horizon_def reset_example_input_def checked_i64_def i64_ok_def i64_max_def i64_min_def
  show "schedule_reset_resume (\<lambda>_. True) reset_example_input default_reset_limits reset_example_store
      = Inr (reset_example_job, reset_example_store)"
    by (simp add: schedule_reset_resume_def) (simp add: d same_reset_def reset_example_job_def reusable_job_def)
  show "validate_reset_input (reset_example_input\<lparr>scheduled_at := 500\<rparr>) default_reset_limits = Inr 61000"
    by (simp add: d)
qed simp

end
