(* ===== verification/Pulse_Reset.thy ===== *)
theory Pulse_Reset
  imports Reset_Store
begin

text \<open>
  Rate-limit resumption, \<open>src/src/pulse/reset.rs\<close>: which instant a rate-limited snapshot resumes
  at, one delivery round of the reset scheduler (claim, notify, finish) and its wake-up
  computation. The delivery round relies on the job queue only through the locale \<open>reset_queue\<close>,
  interpreted on the SQLite model.
\<close>

section \<open>From a snapshot to a job\<close>

definition minimum :: "int list \<Rightarrow> int option" where
  "minimum xs = (case xs of [] \<Rightarrow> None | y # ys \<Rightarrow> Some (fold min ys y))"

definition earliest_future_reset :: "usage_snapshot \<Rightarrow> instant \<Rightarrow> instant option" where
  "earliest_future_reset snap now =
     (case snap_outcome snap of
        RateLimitedUntil retry_at \<Rightarrow>
          (let window_reset = minimum (filter (\<lambda>r. r > now) (map resets_at (snap_windows snap)));
               retry = (case retry_at of None \<Rightarrow> [] | Some t \<Rightarrow> if t > now then [t] else [])
           in minimum (retry @ (case window_reset of None \<Rightarrow> [] | Some w \<Rightarrow> [w])))
      | _ \<Rightarrow> None)"

definition schedule_rate_limit_resume ::
    "(int \<Rightarrow> bool) \<Rightarrow> usage_snapshot \<Rightarrow> instant \<Rightarrow> reset_limits \<Rightarrow> reset_resume_job option store_op" where
  "schedule_rate_limit_resume ts_ok snap now bounds st =
     and_then (snapshot_validate snap) (\<lambda>_.
       case earliest_future_reset snap now of
         None \<Rightarrow> Inr (None, st)
       | Some r \<Rightarrow>
           map_ok (\<lambda>(j, st'). (Some j, st'))
             (schedule_reset_resume ts_ok
                \<lparr>reset_account = snap_account snap, reset_profile = snap_profile snap,
                 reset_at = r, scheduled_at = now\<rparr> bounds st))"

text \<open>The checks of \<open>ResetResumeScheduler::start\<close>.\<close>

definition reset_scheduler_start :: "nat \<Rightarrow> reset_limits \<Rightarrow> unit pulse_result" where
  "reset_scheduler_start n_accounts bounds =
     (if n_accounts > 1024
      then Inl (invalid_input ''too many accounts for the reset scheduler'')
      else if max_pending bounds = 0 \<or> max_horizon bounds = 0
      then Inl (invalid_input ''reset scheduler limits must be nonzero'')
      else Inr ())"

section \<open>Delivery\<close>

definition checked_add :: "(int \<Rightarrow> bool) \<Rightarrow> instant \<Rightarrow> int \<Rightarrow> instant pulse_result" where
  "checked_add ts_ok t millis =
     and_then (ok_or (invalid_input ''instant overflowed'') (checked_i64 (t + millis)))
       (instant_from_epoch_millis ts_ok)"

record reset_notification =
  rn_account :: int
  rn_profile :: string
  rn_job :: int
  rn_resets_at :: instant
  rn_resume_at :: instant

definition reset_notification_of :: "int \<Rightarrow> reset_resume_job \<Rightarrow> reset_notification" where
  "reset_notification_of acct j =
     \<lparr>rn_account = acct, rn_profile = reset_profile (job_input j), rn_job = job_id j,
      rn_resets_at = reset_at (job_input j), rn_resume_at = resume_at j\<rparr>"

text \<open>
  The loop over the claimed jobs: the notifications it sends, in order, and the state it leaves.
  A sink answers \<open>None\<close> when the five-second timeout expires; an error of the completion is dropped.
\<close>

fun deliver_loop ::
    "(int \<Rightarrow> int \<Rightarrow> instant \<Rightarrow> 's \<Rightarrow> pulse_error + bool \<times> 's)
      \<Rightarrow> (reset_notification \<Rightarrow> unit pulse_result option) \<Rightarrow> int \<Rightarrow> instant
      \<Rightarrow> reset_resume_job list \<Rightarrow> 's \<Rightarrow> reset_notification list \<times> 's" where
  "deliver_loop finish notify acct now [] st = ([], st)"
| "deliver_loop finish notify acct now (j # js) st =
     (let n = reset_notification_of acct j;
          st1 = (if (case notify n of Some (Inr _) \<Rightarrow> True | _ \<Rightarrow> False)
                 then (case finish acct (job_id j) now st of Inl _ \<Rightarrow> st | Inr (_, st') \<Rightarrow> st')
                 else st)
      in case deliver_loop finish notify acct now js st1 of (ns, st2) \<Rightarrow> (n # ns, st2))"

definition deliver_due ::
    "(int \<Rightarrow> instant \<Rightarrow> instant \<Rightarrow> nat \<Rightarrow> 's \<Rightarrow> pulse_error + reset_resume_job list \<times> 's)
      \<Rightarrow> (int \<Rightarrow> int \<Rightarrow> instant \<Rightarrow> 's \<Rightarrow> pulse_error + bool \<times> 's) \<Rightarrow> (int \<Rightarrow> bool)
      \<Rightarrow> (reset_notification \<Rightarrow> unit pulse_result option) \<Rightarrow> int \<Rightarrow> instant \<Rightarrow> 's
      \<Rightarrow> reset_notification list \<times> 's" where
  "deliver_due claim finish ts_ok notify acct now st =
     (case checked_add ts_ok now (5 * 60 * 1000) of
        Inl _ \<Rightarrow> ([], st)
      | Inr lease \<Rightarrow>
          (case claim acct now lease 4096 st of
             Inl _ \<Rightarrow> ([], st)
           | Inr (js, st1) \<Rightarrow> deliver_loop finish notify acct now js st1))"

section \<open>The wake-up\<close>

definition job_ready_at :: "reset_resume_job \<Rightarrow> instant \<Rightarrow> instant" where
  "job_ready_at j now =
     (case lease_until j of
        Some l \<Rightarrow> if l > now then l else resume_at j
      | None \<Rightarrow> resume_at j)"

definition earlier :: "instant \<Rightarrow> instant option \<Rightarrow> instant option" where
  "earlier r e = Some (case e of None \<Rightarrow> r | Some v \<Rightarrow> min v r)"

fun earliest_ready ::
    "(int \<Rightarrow> reset_resume_job list pulse_result) \<Rightarrow> instant \<Rightarrow> int list \<Rightarrow> instant option
      \<Rightarrow> instant option option" where
  "earliest_ready pending now [] e = Some e"
| "earliest_ready pending now (a # accts) e =
     (case pending a of
        Inl _ \<Rightarrow> None
      | Inr js \<Rightarrow> earliest_ready pending now accts (fold (\<lambda>j. earlier (job_ready_at j now)) js e))"

definition next_delay ::
    "(int \<Rightarrow> instant \<Rightarrow> nat \<Rightarrow> reset_resume_job list pulse_result) \<Rightarrow> (int \<Rightarrow> bool) \<Rightarrow> int list
      \<Rightarrow> instant \<Rightarrow> nat \<Rightarrow> nat option" where
  "next_delay pending ts_ok accts now horizon =
     (if int horizon > i64_max then None
      else case checked_add ts_ok now (int horizon) of
        Inl _ \<Rightarrow> None
      | Inr through \<Rightarrow>
          (case earliest_ready (\<lambda>a. pending a through 4096) now accts None of
             None \<Rightarrow> None
           | Some None \<Rightarrow> None
           | Some (Some e) \<Rightarrow>
               (let delta = saturate_i64 (e - now) in
                Some (if delta > 0 then nat delta else 5000))))"

text \<open>The deadline one turn of \<open>run_scheduler\<close> sleeps until.\<close>

definition reset_deadline :: "nat \<Rightarrow> nat option \<Rightarrow> nat" where
  "reset_deadline monotonic delay =
     saturate_u64 (monotonic + max 1 (min 60000 (case delay of None \<Rightarrow> 60000 | Some d \<Rightarrow> d)))"

section \<open>The queue interface\<close>

locale reset_queue =
  fixes claim :: "int \<Rightarrow> instant \<Rightarrow> instant \<Rightarrow> nat \<Rightarrow> 's \<Rightarrow> pulse_error + reset_resume_job list \<times> 's"
    and finish :: "int \<Rightarrow> int \<Rightarrow> instant \<Rightarrow> 's \<Rightarrow> pulse_error + bool \<times> 's"
    and jobs :: "'s \<Rightarrow> reset_resume_job list"
    and ok :: "'s \<Rightarrow> bool"
  assumes claim_law: "ok s \<Longrightarrow> claim acct now lease n s = Inr (js, s') \<Longrightarrow>
        ok s' \<and> distinct (map job_id js) \<and> set js \<subseteq> set (jobs s')
        \<and> (\<forall>j \<in> set js. is_job acct (job_id j) j \<and> job_open j
             \<and> (\<exists>k \<in> set (jobs s). claimable acct now k \<and> job_id k = job_id j \<and> job_input k = job_input j
                  \<and> resume_at k = resume_at j))"
    and finish_total: "\<exists>b s'. finish acct i t s = Inr (b, s')"
    and finish_law: "ok s \<Longrightarrow> finish acct i t s = Inr (b, s') \<Longrightarrow>
        ok s' \<and> (\<forall>j \<in> set (jobs s). is_job acct i j \<and> job_open j \<longrightarrow>
            j\<lparr>delivered_at := Some t, lease_until := None\<rparr> \<in> set (jobs s'))
        \<and> (\<forall>j \<in> set (jobs s). \<not> (is_job acct i j \<and> job_open j) \<longrightarrow> j \<in> set (jobs s'))"
begin

lemma loop_delivers:
  assumes "deliver_loop finish notify acct now js s = (ns, s')" and "ok s"
    and "distinct (map job_id js)" and "set js \<subseteq> set (jobs s)"
    and "\<forall>j \<in> set js. is_job acct (job_id j) j \<and> job_open j"
  shows "ns = map (reset_notification_of acct) js \<and> ok s'
    \<and> (\<forall>j \<in> set (jobs s). job_id j \<notin> job_id ` set js \<longrightarrow> j \<in> set (jobs s'))
    \<and> (\<forall>j \<in> set js. if (\<exists>u. notify (reset_notification_of acct j) = Some (Inr u))
         then j\<lparr>delivered_at := Some now, lease_until := None\<rparr> \<in> set (jobs s')
         else j \<in> set (jobs s'))"
  using assms
proof (induction js arbitrary: s ns)
  case Nil
  then show ?case by simp
next
  case (Cons j js)
  let ?n = "reset_notification_of acct j"
  let ?good = "\<exists>u. notify ?n = Some (Inr u)"
  let ?j' = "j\<lparr>delivered_at := Some now, lease_until := None\<rparr>"
  define s1 where "s1 = (if ?good then (case finish acct (job_id j) now s of Inl _ \<Rightarrow> s | Inr (_, t) \<Rightarrow> t) else s)"
  have good_iff: "(case notify ?n of Some (Inr _) \<Rightarrow> True | _ \<Rightarrow> False) = ?good"
    by (auto split: option.split sum.split)
  obtain ns1 where rest: "deliver_loop finish notify acct now js s1 = (ns1, s')" "ns = ?n # ns1"
    using Cons.prems(1) by (auto simp: Let_def good_iff s1_def split: prod.splits)
  have s1: "ok s1" "(if ?good then ?j' else j) \<in> set (jobs s1)"
    "\<forall>k \<in> set (jobs s). job_id k \<noteq> job_id j \<longrightarrow> k \<in> set (jobs s1)"
  proof -
    obtain b t where c: "finish acct (job_id j) now s = Inr (b, t)" using finish_total by blast
    have jl: "j \<in> set (jobs s)" "is_job acct (job_id j) j" "job_open j" using Cons.prems by auto
    note L = finish_law [OF Cons.prems(2) c]
    show "ok s1" using L Cons.prems(2) c by (simp add: s1_def)
    show "(if ?good then ?j' else j) \<in> set (jobs s1)" using L c jl by (simp add: s1_def)
    show "\<forall>k \<in> set (jobs s). job_id k \<noteq> job_id j \<longrightarrow> k \<in> set (jobs s1)"
      using L c by (auto simp: s1_def is_job_def)
  qed
  have nj: "job_id j \<notin> job_id ` set js" using Cons.prems(3) by simp
  have sub: "set js \<subseteq> set (jobs s1)"
  proof
    fix k assume k: "k \<in> set js"
    then have "job_id k \<in> job_id ` set js" by (rule imageI)
    then have "job_id k \<noteq> job_id j" using nj by metis
    then show "k \<in> set (jobs s1)" using s1(3) k Cons.prems(4) by auto
  qed
  have d: "distinct (map job_id js)" and o: "\<forall>j \<in> set js. is_job acct (job_id j) j \<and> job_open j"
    using Cons.prems(3,5) by simp_all
  have IH: "ns1 = map (reset_notification_of acct) js" "ok s'"
    "\<forall>k \<in> set (jobs s1). job_id k \<notin> job_id ` set js \<longrightarrow> k \<in> set (jobs s')"
    "\<forall>k \<in> set js. if (\<exists>u. notify (reset_notification_of acct k) = Some (Inr u))
         then k\<lparr>delivered_at := Some now, lease_until := None\<rparr> \<in> set (jobs s') else k \<in> set (jobs s')"
    using Cons.IH [OF rest(1) s1(1) d sub o] by blast+
  have here: "(if ?good then ?j' else j) \<in> set (jobs s')"
  proof (rule IH(3) [rule_format, OF s1(2)])
    have "job_id (if ?good then ?j' else j) = job_id j" by simp
    then show "job_id (if ?good then ?j' else j) \<notin> job_id ` set js"
      using nj by (simp only: simp_thms)
  qed
  have others: "\<forall>k \<in> set (jobs s). job_id k \<notin> job_id ` set (j # js) \<longrightarrow> k \<in> set (jobs s')"
    using IH(3) s1(3) by simp
  show ?case
  proof (intro conjI)
    show "ns = map (reset_notification_of acct) (j # js)" using rest(2) IH(1) by simp
    show "ok s'" by (rule IH(2))
    show "\<forall>k \<in> set (jobs s). job_id k \<notin> job_id ` set (j # js) \<longrightarrow> k \<in> set (jobs s')" by (rule others)
    show "\<forall>k \<in> set (j # js). if (\<exists>u. notify (reset_notification_of acct k) = Some (Inr u))
         then k\<lparr>delivered_at := Some now, lease_until := None\<rparr> \<in> set (jobs s') else k \<in> set (jobs s')"
      using here IH(4) by (simp split: if_splits)
  qed
qed

lemma due_delivers:
  assumes "deliver_due claim finish ts_ok notify acct now s = (ns, s')" and "ok s"
  shows "distinct (map rn_job ns)
    \<and> (\<forall>n \<in> set ns. (\<exists>k \<in> set (jobs s). claimable acct now k \<and> n = reset_notification_of acct k)
         \<and> (\<forall>u. notify n = Some (Inr u) \<longrightarrow>
              (\<exists>k \<in> set (jobs s'). is_job acct (rn_job n) k \<and> delivered_at k = Some now)))"
proof (cases "ns = []")
  case False
  then obtain lease js s1 where c: "claim acct now lease 4096 s = Inr (js, s1)"
    and l: "deliver_loop finish notify acct now js s1 = (ns, s')"
    using assms(1) by (auto simp: deliver_due_def split: sum.splits prod.splits)
  note C = claim_law [OF assms(2) c]
  have L: "ns = map (reset_notification_of acct) js"
    "\<forall>j \<in> set js. if (\<exists>u. notify (reset_notification_of acct j) = Some (Inr u))
         then j\<lparr>delivered_at := Some now, lease_until := None\<rparr> \<in> set (jobs s') else j \<in> set (jobs s')"
    using loop_delivers [OF l] C by blast+
  have "map rn_job ns = map job_id js" by (simp add: L(1) reset_notification_of_def)
  moreover have "\<exists>k \<in> set (jobs s). claimable acct now k \<and> n = reset_notification_of acct k"
    if "n \<in> set ns" for n
    using that C unfolding L(1) by (fastforce simp: reset_notification_of_def)
  moreover have "\<exists>k \<in> set (jobs s'). is_job acct (rn_job n) k \<and> delivered_at k = Some now"
    if n: "n \<in> set ns" "notify n = Some (Inr u)" for n u
  proof -
    obtain j where j: "j \<in> set js" "n = reset_notification_of acct j" using n(1) L(1) by auto
    then have "j\<lparr>delivered_at := Some now, lease_until := None\<rparr> \<in> set (jobs s')" using L(2) n(2) by auto
    moreover have "is_job acct (job_id j) j" using C j(1) by blast
    ultimately show ?thesis using j(2)
      by (intro bexI [of _ "j\<lparr>delivered_at := Some now, lease_until := None\<rparr>"])
        (simp_all add: is_job_def reset_notification_of_def)
  qed
  ultimately show ?thesis using C by auto
qed simp

end

interpretation sqlite_resets: reset_queue claim_due_reset_resumes complete_reset_resume reset_jobs reset_jobs_ok
proof
  fix s acct now lease n js s'
  assume ok: "reset_jobs_ok s" and c: "claim_due_reset_resumes acct now lease n s = Inr (js, s')"
  note C = claim_cases [OF ok c]
  have ok': "reset_jobs_ok s'" using C by blast
  have "is_job acct (job_id j) j \<and> job_open j
      \<and> (\<exists>k \<in> set (reset_jobs s). claimable acct now k \<and> job_id k = job_id j \<and> job_input k = job_input j
           \<and> resume_at k = resume_at j)" if j: "j \<in> set js" for j
  proof -
    have a: "reset_account (job_input j) = acct" "lease_until j = Some lease" "j \<in> set (reset_jobs s')"
      using C j by blast+
    then have op: "job_open j" using ok' by (auto simp: reset_jobs_ok_def job_row_ok_def)
    obtain k where k: "k \<in> set (reset_jobs s)" "claimable acct now k" "job_id k = job_id j" using C j by blast
    let ?k = "k\<lparr>lease_until := Some lease, attempts := attempts k + 1\<rparr>"
    have "(if reset_account (job_input k) = acct \<and> job_id k \<in> job_id ` set js then ?k else k)
        \<in> set (update_where (\<lambda>j. reset_account (job_input j) = acct \<and> job_id j \<in> job_id ` set js)
             (\<lambda>j. j\<lparr>lease_until := Some lease, attempts := attempts j + 1\<rparr>) (reset_jobs s))"
      unfolding set_update_where using k(1) by (rule imageI)
    moreover have "job_id k \<in> job_id ` set js" using k(3) j by (metis imageI)
    ultimately have "?k \<in> set (reset_jobs s')" using C k(2) by (simp add: claimable_def)
    moreover have "is_job acct (job_id j) ?k" using k(2,3) by (simp add: is_job_def claimable_def)
    moreover have "is_job acct (job_id j) j" using a by (simp add: is_job_def)
    ultimately have "?k = j" using is_job_unique [OF ok'] a(3) by blast
    then have "job_input k = job_input j" "resume_at k = resume_at j" by auto
    then show ?thesis using a op k by (auto simp: is_job_def)
  qed
  then show "reset_jobs_ok s' \<and> distinct (map job_id js) \<and> set js \<subseteq> set (reset_jobs s')
        \<and> (\<forall>j \<in> set js. is_job acct (job_id j) j \<and> job_open j
             \<and> (\<exists>k \<in> set (reset_jobs s). claimable acct now k \<and> job_id k = job_id j \<and> job_input k = job_input j
                  \<and> resume_at k = resume_at j))"
    using C by blast
next
  fix acct i t s
  show "\<exists>b s'. complete_reset_resume acct i t s = Inr (b, s')"
    by (simp add: complete_reset_resume_def Let_def)
next
  fix s acct i t b s'
  assume ok: "reset_jobs_ok s" and c: "complete_reset_resume acct i t s = Inr (b, s')"
  have "reset_jobs s' = update_where (\<lambda>j. is_job acct i j \<and> job_open j)
      (\<lambda>j. j\<lparr>delivered_at := Some t, lease_until := None\<rparr>) (reset_jobs s)"
    using c by (auto simp: complete_reset_resume_def Let_def)
  then show "reset_jobs_ok s' \<and> (\<forall>j \<in> set (reset_jobs s). is_job acct i j \<and> job_open j \<longrightarrow>
            j\<lparr>delivered_at := Some t, lease_until := None\<rparr> \<in> set (reset_jobs s'))
        \<and> (\<forall>j \<in> set (reset_jobs s). \<not> (is_job acct i j \<and> job_open j) \<longrightarrow> j \<in> set (reset_jobs s'))"
    using complete_ok_jobs [OF ok c] by (auto simp: set_update_where)
qed


section \<open>Properties\<close>

lemma minimum_Some: "minimum xs = Some m \<longleftrightarrow> m \<in> set xs \<and> (\<forall>x \<in> set xs. m \<le> x)"
proof (cases xs)
  case (Cons y ys)
  have "fold min ys y = Min (set (y # ys))" by (rule Min.set_eq_fold [symmetric])
  then have f: "minimum xs = Some (Min (set xs))" using Cons by (simp add: minimum_def)
  have fin: "finite (set xs)" "set xs \<noteq> {}" using Cons by auto
  show ?thesis unfolding f using Min_in [OF fin] Min_le [OF fin(1)] Min_eqI [OF fin(1)] by auto
qed (simp add: minimum_def)

lemma minimum_Nil [simp]: "minimum [] = None"
  by (simp add: minimum_def)

lemma minimum_None: "minimum xs = None \<longleftrightarrow> xs = []"
  by (simp add: minimum_def split: list.split)

text \<open>
  The resume instant: for a rate-limited snapshot the computed reset is the least instant after
  now among the provider's retry time and the windows' reset times, and there is none exactly when
  no such instant exists; every other outcome yields none.
\<close>

theorem earliest_future_reset_exact:
  "earliest_future_reset snap now = Some t \<longleftrightarrow>
     (\<exists>retry. snap_outcome snap = RateLimitedUntil retry
        \<and> t \<in> {r. r > now \<and> (retry = Some r \<or> r \<in> resets_at ` set (snap_windows snap))}
        \<and> (\<forall>r. r > now \<and> (retry = Some r \<or> r \<in> resets_at ` set (snap_windows snap)) \<longrightarrow> t \<le> r))"
proof (cases "snap_outcome snap")
  case (RateLimitedUntil retry)
  define future where "future = filter (\<lambda>r. r > now) (map resets_at (snap_windows snap))"
  have fut: "r \<in> set future \<longleftrightarrow> r > now \<and> r \<in> resets_at ` set (snap_windows snap)" for r
    by (auto simp: future_def)
  define ret where "ret = (case retry of None \<Rightarrow> [] | Some t \<Rightarrow> if t > now then [t] else [])"
  have ret: "r \<in> set ret \<longleftrightarrow> r > now \<and> retry = Some r" for r
    by (auto simp: ret_def split: option.splits)
  have e: "earliest_future_reset snap now = minimum (ret @ (case minimum future of None \<Rightarrow> [] | Some w \<Rightarrow> [w]))"
    using RateLimitedUntil by (simp add: earliest_future_reset_def future_def ret_def Let_def)
  have "minimum (ret @ (case minimum future of None \<Rightarrow> [] | Some w \<Rightarrow> [w])) = Some t \<longleftrightarrow>
      t \<in> set ret \<union> set future \<and> (\<forall>r \<in> set ret \<union> set future. t \<le> r)"
  proof (cases "minimum future")
    case None
    then have "future = []" by (simp add: minimum_None)
    then show ?thesis by (simp add: minimum_Some)
  next
    case (Some w)
    then have "w \<in> set future" "\<forall>x \<in> set future. w \<le> x" by (simp_all add: minimum_Some)
    then have "t \<in> set (ret @ [w]) \<and> (\<forall>r \<in> set (ret @ [w]). t \<le> r) \<longleftrightarrow>
        t \<in> set ret \<union> set future \<and> (\<forall>r \<in> set ret \<union> set future. t \<le> r)"
      by (auto intro: order.trans antisym)
    then show ?thesis unfolding Some option.case minimum_Some .
  qed
  then show ?thesis unfolding e using RateLimitedUntil fut ret by auto
qed (simp_all add: earliest_future_reset_def)

theorem earliest_future_reset_exact_witness:
  "earliest_future_reset (example_snapshot\<lparr>snap_outcome := RateLimitedUntil (Some 950)\<rparr>) 600 = Some 900"
proof -
  let ?snap = "example_snapshot\<lparr>snap_outcome := RateLimitedUntil (Some 950)\<rparr>"
  have "snap_outcome ?snap = RateLimitedUntil (Some 950)"
    "resets_at ` set (snap_windows ?snap) = {900, 500}"
    by (auto simp: example_snapshot_def)
  then show ?thesis
    by (subst earliest_future_reset_exact) auto
qed



lemma minimum_prefix:
  "minimum ((case minimum xs of None \<Rightarrow> [] | Some v \<Rightarrow> [v]) @ ys) = minimum (xs @ ys)"
proof (cases "minimum xs")
  case None
  then show ?thesis by (simp add: minimum_None)
next
  case (Some v)
  then have v: "v \<in> set xs" "\<forall>x \<in> set xs. v \<le> x" by (simp_all add: minimum_Some)
  obtain m where m: "minimum (xs @ ys) = Some m" using v(1) by (cases "minimum (xs @ ys)") (auto simp: minimum_None)
  then have "m \<in> set xs \<union> set ys" "\<forall>x \<in> set xs \<union> set ys. m \<le> x" by (auto simp: minimum_Some)
  then have "m \<in> set (v # ys) \<and> (\<forall>x \<in> set (v # ys). m \<le> x)" using v by (auto intro: antisym)
  then have "minimum (v # ys) = Some m" unfolding minimum_Some .
  then show ?thesis using Some m by simp
qed

lemma fold_earlier:
  "fold (\<lambda>j. earlier (f j)) js e =
     (case minimum ((case e of None \<Rightarrow> [] | Some v \<Rightarrow> [v]) @ map f js) of None \<Rightarrow> None | Some m \<Rightarrow> Some m)"
proof (induction js arbitrary: e)
  case Nil
  then show ?case by (simp add: minimum_def split: option.split)
next
  case (Cons j js)
  show ?case
  proof (cases e)
    case None
    have "earlier (f j) None = Some (f j)" by (simp add: earlier_def)
    then show ?thesis using Cons.IH [of "Some (f j)"] None by simp
  next
    case (Some v)
    have "earlier (f j) (Some v) = Some (min v (f j))" by (simp add: earlier_def)
    then show ?thesis using Cons.IH [of "Some (min v (f j))"] Some
      by (simp add: minimum_def min.commute)
  qed
qed

lemma earliest_ready_Some:
  assumes "earliest_ready pending now accts e = Some r"
  shows "\<forall>a \<in> set accts. \<exists>js. pending a = Inr js"
    and "r = minimum ((case e of None \<Rightarrow> [] | Some v \<Rightarrow> [v])
        @ concat (map (\<lambda>a. map (\<lambda>j. job_ready_at j now)
             (case pending a of Inl _ \<Rightarrow> [] | Inr js \<Rightarrow> js)) accts))"
  using assms
proof (induction accts arbitrary: e)
  case Nil
  { case 1 show ?case by simp next
    case 2 then show ?case by (auto simp: minimum_def split: option.split) }
next
  case (Cons a accts)
  { case 1
    then show ?case using Cons.IH(1) by (auto split: sum.splits)
  next
    case 2
    then obtain js where js: "pending a = Inr js"
      and r: "earliest_ready pending now accts (fold (\<lambda>j. earlier (job_ready_at j now)) js e) = Some r"
      by (auto split: sum.splits)
    let ?e = "(case e of None \<Rightarrow> [] | Some v \<Rightarrow> [v])"
    let ?rest = "concat (map (\<lambda>a. map (\<lambda>j. job_ready_at j now) (case pending a of Inl _ \<Rightarrow> [] | Inr js \<Rightarrow> js)) accts)"
    have "fold (\<lambda>j. earlier (job_ready_at j now)) js e = minimum (?e @ map (\<lambda>j. job_ready_at j now) js)"
      unfolding fold_earlier by (simp split: option.split)
    then have "r = minimum ((case minimum (?e @ map (\<lambda>j. job_ready_at j now) js) of None \<Rightarrow> [] | Some v \<Rightarrow> [v]) @ ?rest)"
      using Cons.IH(2) [OF r] by simp
    also have "\<dots> = minimum ((?e @ map (\<lambda>j. job_ready_at j now) js) @ ?rest)"
      by (rule minimum_prefix)
    finally show ?case using js by simp }
qed


lemma pending_complete:
  assumes "reset_jobs_ok st"
  shows "\<exists>js. list_pending_reset_resumes acct through 4096 st = Inr js
    \<and> set js = {j \<in> set (reset_jobs st). reset_account (job_input j) = acct \<and> resume_at j \<le> through \<and> job_open j}"
proof -
  let ?p = "\<lambda>j. reset_account (job_input j) = acct \<and> resume_at j \<le> through \<and> job_open j"
  let ?k = "\<lambda>j. (resume_at j, job_id j)"
  have "count_where ?p (reset_jobs st) \<le> open_count acct st"
    unfolding open_count_def by (rule count_where_mono) simp
  also have "\<dots> \<le> 4096" using assms by (simp add: reset_jobs_ok_def max_reset_jobs_def)
  finally have "length (sort_key ?k (filter ?p (reset_jobs st))) \<le> 4096" by (simp add: count_where_def)
  then have "select_ordered ?p ?k 4096 (reset_jobs st) = sort_key ?k (filter ?p (reset_jobs st))"
    by (simp add: select_ordered_def)
  then show ?thesis
    by (auto simp: list_pending_reset_resumes_def query_limit_def)
qed

text \<open>
  The wake-up is exact: when the delay is computed, it is positive; if some pending job of the
  accounts within the horizon is already claimable it is the five-second retry floor, and otherwise
  it is the distance to the earliest instant at which one of them can be claimed, so no job is
  reached late and the query limit of 4096 hides none.
\<close>

theorem next_delay_exact:
  assumes "reset_jobs_ok st"
    and "next_delay (\<lambda>a through n. list_pending_reset_resumes a through n st) ts_ok accts now horizon = Some d"
    and "\<forall>j \<in> set (reset_jobs st). i64_ok (job_ready_at j now - now)"
  shows "let pending = {j \<in> set (reset_jobs st). reset_account (job_input j) \<in> set accts
                           \<and> resume_at j \<le> now + int horizon \<and> job_open j} in
      0 < d \<and> pending \<noteq> {}
      \<and> (if \<exists>j \<in> pending. job_ready_at j now \<le> now then d = 5000
         else (\<forall>j \<in> pending. now + int d \<le> job_ready_at j now) \<and> (\<exists>j \<in> pending. now + int d = job_ready_at j now))"
proof -
  define through where "through = now + int horizon"
  define pend where "pend = {j \<in> set (reset_jobs st). reset_account (job_input j) \<in> set accts
                           \<and> resume_at j \<le> through \<and> job_open j}"
  obtain e where e: "earliest_ready (\<lambda>a. list_pending_reset_resumes a through 4096 st) now accts None = Some (Some e)"
    and d: "d = (let delta = saturate_i64 (e - now) in if delta > 0 then nat delta else 5000)"
    using assms(2)
    by (auto simp: next_delay_def checked_add_def instant_from_epoch_millis_def result_simps through_def
        Let_def split: if_splits sum.splits option.splits)
  have least: "minimum (concat (map (\<lambda>a. map (\<lambda>j. job_ready_at j now)
      (case list_pending_reset_resumes a through 4096 st of Inl _ \<Rightarrow> [] | Inr js \<Rightarrow> js)) accts)) = Some e"
    using earliest_ready_Some(2) [OF e] by simp
  have times: "set (concat (map (\<lambda>a. map (\<lambda>j. job_ready_at j now)
      (case list_pending_reset_resumes a through 4096 st of Inl _ \<Rightarrow> [] | Inr js \<Rightarrow> js)) accts))
      = (\<lambda>j. job_ready_at j now) ` pend"
  proof -
    have L: "set (case list_pending_reset_resumes a through 4096 st of Inl _ \<Rightarrow> [] | Inr js \<Rightarrow> js)
        = {j \<in> set (reset_jobs st). reset_account (job_input j) = a \<and> resume_at j \<le> through \<and> job_open j}" for a
    proof -
      obtain js where "list_pending_reset_resumes a through 4096 st = Inr js"
        "set js = {j \<in> set (reset_jobs st). reset_account (job_input j) = a \<and> resume_at j \<le> through \<and> job_open j}"
        using pending_complete [OF assms(1), of a through] by blast
      then show ?thesis by (simp only: sum.case)
    qed
    have "pend = (\<Union>a \<in> set accts. {j \<in> set (reset_jobs st). reset_account (job_input j) = a \<and> resume_at j \<le> through \<and> job_open j})"
      unfolding pend_def by blast
    then show ?thesis unfolding set_concat set_map image_image L by (simp only: image_UN)
  qed
  have m: "e \<in> (\<lambda>j. job_ready_at j now) ` pend" "\<forall>j \<in> pend. e \<le> job_ready_at j now"
    using least [unfolded minimum_Some times] by blast+
  then obtain j where j: "j \<in> pend" "e = job_ready_at j now" by blast
  then have "i64_ok (e - now)" using assms(3) by (simp add: pend_def)
  then have d': "d = (if e > now then nat (e - now) else 5000)" using d by (simp add: Let_def)
  have "0 < d" using d' by simp
  moreover have "pend \<noteq> {}" using j(1) by auto
  moreover have "if \<exists>j \<in> pend. job_ready_at j now \<le> now then d = 5000
         else (\<forall>j \<in> pend. now + int d \<le> job_ready_at j now) \<and> (\<exists>j \<in> pend. now + int d = job_ready_at j now)"
  proof (cases "e > now")
    case True
    then have "\<not> (\<exists>j \<in> pend. job_ready_at j now \<le> now)" using m(2) by fastforce
    moreover have "now + int d = e" using d' True by simp
    ultimately show ?thesis using m(2) j by auto
  next
    case False
    then show ?thesis using d' j by auto
  qed
  ultimately show ?thesis unfolding Let_def pend_def [symmetric, unfolded through_def] by blast
qed

theorem next_delay_exact_witness:
  "next_delay (\<lambda>a through n. list_pending_reset_resumes a through n reset_example_store) (\<lambda>_. True)
     [1] 21000 1000000 = Some 40000
   \<and> 21000 + int 40000 = job_ready_at reset_example_job 21000"
proof -
  let ?delay = "next_delay (\<lambda>a through n. list_pending_reset_resumes a through n reset_example_store) (\<lambda>_. True)
     [1] 21000 1000000"
  have c: "checked_add (\<lambda>_. True) 21000 1000000 = Inr 1021000"
    by (simp add: checked_add_def checked_i64_def i64_ok_def i64_max_def i64_min_def
        instant_from_epoch_millis_def)
  have r: "job_ready_at reset_example_job 21000 = 61000" by (simp add: job_ready_at_def reset_example_job_def)
  have l: "list_pending_reset_resumes 1 1021000 4096 reset_example_store = Inr [reset_example_job]"
    by (simp add: list_pending_reset_resumes_def query_limit_def select_ordered_def)
      (simp add: reset_example_job_def reset_example_input_def job_open_def)
  have v: "?delay = Some 40000"
    by (simp add: next_delay_def c l earlier_def r saturate_i64_def i64_max_def i64_min_def)
  have x: "{j \<in> set (reset_jobs reset_example_store). reset_account (job_input j) \<in> set [1]
      \<and> resume_at j \<le> 21000 + int 1000000 \<and> job_open j} = {reset_example_job}"
    by (auto simp: reset_example_job_def reset_example_input_def job_open_def)
  have "\<forall>j \<in> set (reset_jobs reset_example_store). i64_ok (job_ready_at j 21000 - 21000)"
    by (simp add: r i64_ok_def i64_max_def i64_min_def)
  from next_delay_exact [OF reset_example_ok v this] v r show ?thesis
    unfolding Let_def x by simp
qed

end
