(* ===== verification/Context_Store.thy ===== *)
theory Context_Store
  imports Pulse_Tables
begin

text \<open>
  Context sessions and Gemini quotas in \<open>src/src/pulse/store/sqlite.rs\<close>: both tables keep one row for
  a key and replace it only by an observation that was not collected earlier.
\<close>

section \<open>Context sessions\<close>

definition context_key :: "context_session \<Rightarrow> int \<times> string \<times> string \<times> string" where
  "context_key c = (ctx_account c, ctx_profile c, ctx_machine c, ctx_session c)"

definition context_columns :: "context_session \<Rightarrow> (int option \<times> int option) pulse_result" where
  "context_columns c =
     and_then (case context_tokens c of None \<Rightarrow> Inr None | Some n \<Rightarrow> map_ok Some (as_i64 n ''context_tokens''))
       (\<lambda>t. and_then (case effective_limit c of None \<Rightarrow> Inr None | Some n \<Rightarrow> map_ok Some (as_i64 n ''effective_limit''))
       (\<lambda>l. Inr (t, l)))"

definition put_context :: "context_session \<Rightarrow> context_session list \<Rightarrow> context_session list" where
  "put_context c rows = upsert_where (\<lambda>r. context_key r = context_key c)
     (\<lambda>r. if ctx_collected_at r \<le> ctx_collected_at c then c else r) c rows"

definition upsert_context :: "context_session \<Rightarrow> unit store_op" where
  "upsert_context c st =
     and_then (context_session_validate c) (\<lambda>_.
     and_then (context_columns c) (\<lambda>_.
       if exists_where (\<lambda>r. context_key r = context_key c) (context_sessions st)
          \<or> profile_exists (ctx_account c) (ctx_profile c) st \<and> machine_exists (ctx_account c) (ctx_machine c) st
       then Inr ((), st\<lparr>context_sessions := put_context c (context_sessions st)\<rparr>)
       else Inl constraint_violation))"

definition upsert_context_session :: "context_session \<Rightarrow> unit store_op" where
  "upsert_context_session c st = upsert_context c st"

definition list_context_sessions :: "int \<Rightarrow> string option \<Rightarrow> store \<Rightarrow> context_session list" where
  "list_context_sessions acct prof st =
     select_ordered (\<lambda>c. ctx_account c = acct \<and> (case prof of None \<Rightarrow> True | Some p \<Rightarrow> ctx_profile c = p))
       (\<lambda>c. (- last_active_at c, ctx_profile c, ctx_machine c, ctx_session c)) 10001 (context_sessions st)"

section \<open>Gemini quotas\<close>

definition gemini_key :: "gemini_quota \<Rightarrow> int \<times> string" where
  "gemini_key q = (gem_account q, gem_model_id q)"

definition put_gemini :: "gemini_quota \<Rightarrow> gemini_quota list \<Rightarrow> gemini_quota list" where
  "put_gemini q rows = upsert_where (\<lambda>r. gemini_key r = gemini_key q)
     (\<lambda>r. if gem_collected_at r \<le> gem_collected_at q then q else r) q rows"

definition upsert_gemini :: "gemini_quota \<Rightarrow> unit store_op" where
  "upsert_gemini q st =
     and_then (gemini_quota_validate q) (\<lambda>_.
       if exists_where (\<lambda>r. gemini_key r = gemini_key q) (gemini_quotas st) \<or> account_exists (gem_account q) st
       then Inr ((), st\<lparr>gemini_quotas := put_gemini q (gemini_quotas st)\<rparr>)
       else Inl constraint_violation)"

definition upsert_gemini_quota :: "gemini_quota \<Rightarrow> unit store_op" where
  "upsert_gemini_quota q st = upsert_gemini q st"

definition list_gemini_quotas :: "int \<Rightarrow> store \<Rightarrow> gemini_quota list" where
  "list_gemini_quotas acct st =
     select_ordered (\<lambda>q. gem_account q = acct) gem_model_id 10001 (gemini_quotas st)"

section \<open>Tables that keep the latest observation\<close>

text \<open>
  The contract of both tables: a write of a key keeps the later of the stored and the new
  observation (the new one when they are equally late) and leaves the other keys alone, it adds at
  most its own key, and keys stay unique.
\<close>

locale latest_table =
  fixes key :: "'r \<Rightarrow> 'k" and stamp :: "'r \<Rightarrow> int" and put :: "'r \<Rightarrow> 'r list \<Rightarrow> 'r list"
  assumes find_put: "find (\<lambda>r. key r = key c) (put c rows) =
      Some (case find (\<lambda>r. key r = key c) rows of None \<Rightarrow> c | Some r \<Rightarrow> if stamp r \<le> stamp c then c else r)"
    and find_other: "k \<noteq> key c \<Longrightarrow> find (\<lambda>r. key r = k) (put c rows) = find (\<lambda>r. key r = k) rows"
    and put_keys: "key ` set (put c rows) \<subseteq> insert (key c) (key ` set rows)"
    and put_distinct: "distinct (map key rows) \<Longrightarrow> distinct (map key (put c rows))"
    and put_filter: "(\<And>r. key r = key c \<Longrightarrow> \<not> q r) \<Longrightarrow> filter q (put c rows) = filter q rows"
begin

lemma put_step:
  assumes "find (\<lambda>r. key r = k) rows = Some r"
  shows "\<exists>r'. find (\<lambda>r. key r = k) (put c rows) = Some r' \<and> stamp r \<le> stamp r' \<and> (r' = r \<or> r' = c)"
  using assms find_put [of c rows] find_other [of k c rows] by (cases "k = key c") auto

lemma puts_grow:
  assumes "find (\<lambda>r. key r = k) rows = Some r"
  shows "\<exists>r'. find (\<lambda>r. key r = k) (fold put cs rows) = Some r' \<and> stamp r \<le> stamp r' \<and> (r' = r \<or> r' \<in> set cs)"
  using assms
proof (induction cs arbitrary: rows r)
  case (Cons c cs)
  obtain r1 where r1: "find (\<lambda>r. key r = k) (put c rows) = Some r1" "stamp r \<le> stamp r1" "r1 = r \<or> r1 = c"
    using put_step [OF Cons.prems] by blast
  from Cons.IH [OF r1(1)] r1(2,3) show ?case by (auto intro: order_trans)
qed simp

text \<open>Whatever the order of the writes, a written key ends with an observation at least as late.\<close>

lemma puts_latest:
  assumes "c \<in> set cs"
  shows "\<exists>r. find (\<lambda>r. key r = key c) (fold put cs rows) = Some r \<and> stamp c \<le> stamp r
    \<and> (r \<in> set cs \<or> find (\<lambda>r. key r = key c) rows = Some r)"
  using assms
proof (induction cs arbitrary: rows)
  case (Cons d cs)
  show ?case
  proof (cases "c \<in> set cs")
    case True
    from Cons.IH [OF this, of "put d rows"] show ?thesis
      using find_put [of d rows] find_other [of "key c" d rows]
      by (cases "key c = key d") (auto split: option.splits if_splits)
  next
    case False
    then have d: "d = c" using Cons.prems by simp
    obtain r where r: "find (\<lambda>r. key r = key c) (put d rows) = Some r" "stamp c \<le> stamp r"
      "r = c \<or> find (\<lambda>r. key r = key c) rows = Some r"
      using find_put [of c rows] d by (auto split: option.splits if_splits)
    from puts_grow [OF r(1), of cs] r(2,3) d show ?thesis by (auto intro: order_trans)
  qed
qed simp

lemma puts_untouched:
  "k \<notin> key ` set cs \<Longrightarrow> find (\<lambda>r. key r = k) (fold put cs rows) = find (\<lambda>r. key r = k) rows"
  by (induction cs arbitrary: rows) (auto simp: find_other)

lemma puts_keys: "key ` set (fold put cs rows) \<subseteq> key ` set rows \<union> key ` set cs"
proof (induction cs arbitrary: rows)
  case (Cons c cs)
  show ?case using Cons.IH [of "put c rows"] put_keys [of c rows] by auto
qed simp

lemma puts_distinct: "distinct (map key rows) \<Longrightarrow> distinct (map key (fold put cs rows))"
  by (induction cs arbitrary: rows) (simp_all add: put_distinct)

lemma puts_filter:
  "(\<And>r. key r \<in> key ` set cs \<Longrightarrow> \<not> q r) \<Longrightarrow> filter q (fold put cs rows) = filter q rows"
proof (induction cs arbitrary: rows)
  case (Cons c cs)
  have "filter q (put c rows) = filter q rows" by (rule put_filter) (simp add: Cons.prems)
  moreover have "filter q (fold put cs (put c rows)) = filter q (put c rows)"
    by (rule Cons.IH) (simp add: Cons.prems)
  ultimately show ?case by simp
qed simp

end

interpretation context_table: latest_table context_key ctx_collected_at put_context
proof
  fix c k and rows :: "context_session list" and q :: "context_session \<Rightarrow> bool"
  show "find (\<lambda>r. context_key r = context_key c) (put_context c rows) =
      Some (case find (\<lambda>r. context_key r = context_key c) rows of None \<Rightarrow> c
        | Some r \<Rightarrow> if ctx_collected_at r \<le> ctx_collected_at c then c else r)"
    unfolding put_context_def by (rule find_upsert_where) simp_all
  show "k \<noteq> context_key c \<Longrightarrow>
      find (\<lambda>r. context_key r = k) (put_context c rows) = find (\<lambda>r. context_key r = k) rows"
    unfolding put_context_def by (rule find_upsert_other) auto
  show "context_key ` set (put_context c rows) \<subseteq> insert (context_key c) (context_key ` set rows)"
    by (auto simp: put_context_def upsert_where_def set_update_where)
  show "distinct (map context_key rows) \<Longrightarrow> distinct (map context_key (put_context c rows))"
    unfolding put_context_def by (rule upsert_where_distinct) simp_all
  show "(\<And>r. context_key r = context_key c \<Longrightarrow> \<not> q r) \<Longrightarrow> filter q (put_context c rows) = filter q rows"
    unfolding put_context_def by (rule upsert_where_filter) auto
qed

interpretation gemini_table: latest_table gemini_key gem_collected_at put_gemini
proof
  fix c k and rows :: "gemini_quota list" and q :: "gemini_quota \<Rightarrow> bool"
  show "find (\<lambda>r. gemini_key r = gemini_key c) (put_gemini c rows) =
      Some (case find (\<lambda>r. gemini_key r = gemini_key c) rows of None \<Rightarrow> c
        | Some r \<Rightarrow> if gem_collected_at r \<le> gem_collected_at c then c else r)"
    unfolding put_gemini_def by (rule find_upsert_where) simp_all
  show "k \<noteq> gemini_key c \<Longrightarrow>
      find (\<lambda>r. gemini_key r = k) (put_gemini c rows) = find (\<lambda>r. gemini_key r = k) rows"
    unfolding put_gemini_def by (rule find_upsert_other) auto
  show "gemini_key ` set (put_gemini c rows) \<subseteq> insert (gemini_key c) (gemini_key ` set rows)"
    by (auto simp: put_gemini_def upsert_where_def set_update_where)
  show "distinct (map gemini_key rows) \<Longrightarrow> distinct (map gemini_key (put_gemini c rows))"
    unfolding put_gemini_def by (rule upsert_where_distinct) simp_all
  show "(\<And>r. gemini_key r = gemini_key c \<Longrightarrow> \<not> q r) \<Longrightarrow> filter q (put_gemini c rows) = filter q rows"
    unfolding put_gemini_def by (rule upsert_where_filter) auto
qed

section \<open>The operations on the tables\<close>

definition context_ok :: "store \<Rightarrow> bool" where
  "context_ok st \<longleftrightarrow> distinct (map context_key (context_sessions st))"

definition gemini_ok :: "store \<Rightarrow> bool" where
  "gemini_ok st \<longleftrightarrow> distinct (map gemini_key (gemini_quotas st))"

definition context_row :: "int \<times> string \<times> string \<times> string \<Rightarrow> store \<Rightarrow> context_session option" where
  "context_row k st = find (\<lambda>r. context_key r = k) (context_sessions st)"

lemma upsert_context_Inr:
  "upsert_context c st = Inr (u, st') \<Longrightarrow> st' = st\<lparr>context_sessions := put_context c (context_sessions st)\<rparr>"
  by (auto simp: upsert_context_def result_simps split: if_splits)

lemma upsert_gemini_Inr:
  "upsert_gemini q st = Inr (u, st') \<Longrightarrow> st' = st\<lparr>gemini_quotas := put_gemini q (gemini_quotas st)\<rparr>"
  by (auto simp: upsert_gemini_def result_simps split: if_splits)

lemma upsert_contexts_Inr:
  "try_fold (\<lambda>c s. map_ok snd (upsert_context c s)) cs st = Inr st'
     \<Longrightarrow> st' = st\<lparr>context_sessions := fold put_context cs (context_sessions st)\<rparr>"
proof (induction cs arbitrary: st)
  case (Cons c cs)
  obtain u st1 where s: "upsert_context c st = Inr (u, st1)"
    "try_fold (\<lambda>c s. map_ok snd (upsert_context c s)) cs st1 = Inr st'"
    using Cons.prems by (auto simp: result_simps)
  show ?case using Cons.IH [OF s(2)] upsert_context_Inr [OF s(1)] by simp
qed simp

lemma upsert_geminis_Inr:
  "try_fold (\<lambda>c s. map_ok snd (upsert_gemini c s)) cs st = Inr st'
     \<Longrightarrow> st' = st\<lparr>gemini_quotas := fold put_gemini cs (gemini_quotas st)\<rparr>"
proof (induction cs arbitrary: st)
  case (Cons c cs)
  obtain u st1 where s: "upsert_gemini c st = Inr (u, st1)"
    "try_fold (\<lambda>c s. map_ok snd (upsert_gemini c s)) cs st1 = Inr st'"
    using Cons.prems by (auto simp: result_simps)
  show ?case using Cons.IH [OF s(2)] upsert_gemini_Inr [OF s(1)] by simp
qed simp

text \<open>
  Context sessions converge whatever the order they arrive in: after a sequence of accepted
  upserts the row of a written session is one that was written or was there before, collected no
  earlier than any of them, and the sessions that were not written are as they were.
\<close>

theorem context_latest_wins:
  assumes "try_fold (\<lambda>c s. map_ok snd (upsert_context_session c s)) cs st = Inr st'"
  shows "(\<forall>c \<in> set cs. \<exists>r. context_row (context_key c) st' = Some r
           \<and> (r \<in> set cs \<or> context_row (context_key c) st = Some r)
           \<and> (\<forall>d \<in> set cs. context_key d = context_key c \<longrightarrow> ctx_collected_at d \<le> ctx_collected_at r)
           \<and> (\<forall>old. context_row (context_key c) st = Some old \<longrightarrow> ctx_collected_at old \<le> ctx_collected_at r))
    \<and> (\<forall>k. k \<notin> context_key ` set cs \<longrightarrow> context_row k st' = context_row k st)"
proof -
  have st': "context_sessions st' = fold put_context cs (context_sessions st)"
    using upsert_contexts_Inr [OF assms [unfolded upsert_context_session_def]] by simp
  have "\<exists>r. context_row (context_key c) st' = Some r
      \<and> (r \<in> set cs \<or> context_row (context_key c) st = Some r)
      \<and> (\<forall>d \<in> set cs. context_key d = context_key c \<longrightarrow> ctx_collected_at d \<le> ctx_collected_at r)
      \<and> (\<forall>old. context_row (context_key c) st = Some old \<longrightarrow> ctx_collected_at old \<le> ctx_collected_at r)"
    if c: "c \<in> set cs" for c
  proof -
    obtain r where r: "context_row (context_key c) st' = Some r"
      "r \<in> set cs \<or> context_row (context_key c) st = Some r"
      using context_table.puts_latest [OF c, of "context_sessions st"] by (auto simp: context_row_def st')
    have "ctx_collected_at d \<le> ctx_collected_at r" if "d \<in> set cs" "context_key d = context_key c" for d
      using context_table.puts_latest [OF that(1), of "context_sessions st"] r(1) that(2)
      by (simp add: context_row_def st')
    moreover have "ctx_collected_at old \<le> ctx_collected_at r" if "context_row (context_key c) st = Some old" for old
      using context_table.puts_grow [OF that [unfolded context_row_def], of cs] r(1)
      by (simp add: context_row_def st')
    ultimately show ?thesis using r by blast
  qed
  moreover have "context_row k st' = context_row k st" if "k \<notin> context_key ` set cs" for k
    using context_table.puts_untouched [OF that] by (simp add: context_row_def st')
  ultimately show ?thesis by blast
qed

definition example_context :: "instant \<Rightarrow> context_session" where
  "example_context t =
     \<lparr>ctx_account = 1, ctx_profile = ''main'', ctx_machine = ''host'', ctx_session = ''s'', ctx_model = None,
      ctx_settings = default_agent_settings, context_tokens = Some 50, context_percent = Some 50,
      effective_limit = Some 100, last_active_at = t, last_reset_at = None, ctx_collected_at = t\<rparr>"

lemma example_context_simps [simp]:
  "context_key (example_context t) = (1, ''main'', ''host'', ''s'')"
  "ctx_collected_at (example_context t) = t"
  "context_session_validate (example_context t) = Inr ()"
  "context_columns (example_context t) = Inr (Some 50, Some 100)"
  by (simp_all add: context_key_def example_context_def context_session_validate_def context_columns_def
      as_i64_def i64_max_def)

lemma example_context_upsert:
  "upsert_context_session (example_context t) (empty_store\<lparr>context_sessions := [example_context s]\<rparr>) =
     Inr ((), empty_store\<lparr>context_sessions := [example_context (max s t)]\<rparr>)"
  by (simp add: upsert_context_session_def upsert_context_def put_context_def upsert_where_def
      exists_where_def max_def)

theorem context_latest_wins_witness:
  "\<exists>st'. try_fold (\<lambda>c s. map_ok snd (upsert_context_session c s)) [example_context 9, example_context 5]
      (empty_store\<lparr>context_sessions := [example_context 7]\<rparr>) = Inr st'
    \<and> context_row (1, ''main'', ''host'', ''s'') st' = Some (example_context 9)
    \<and> (\<exists>r. context_row (context_key (example_context 5)) st' = Some r \<and> ctx_collected_at r \<ge> 9)"
proof -
  let ?st' = "empty_store\<lparr>context_sessions := [example_context 9]\<rparr>"
  have run: "try_fold (\<lambda>c s. map_ok snd (upsert_context_session c s)) [example_context 9, example_context 5]
      (empty_store\<lparr>context_sessions := [example_context 7]\<rparr>) = Inr ?st'"
    by (simp add: example_context_upsert)
  have "\<exists>r. context_row (context_key (example_context 5)) ?st' = Some r \<and> ctx_collected_at r \<ge> 9"
    using context_latest_wins [OF run, THEN conjunct1, rule_format, of "example_context 5"]
    by (auto dest: bspec [where x = "example_context 9"])
  then show ?thesis using run by (simp add: context_row_def)
qed

end
