(* ===== verification/Identity_Store.thy ===== *)
theory Identity_Store
  imports Pulse_Tables
begin

text \<open>
  Accounts, machines and profiles in \<open>src/src/pulse/store/sqlite.rs\<close>: upserts, listings, the
  visibility switch, deletion with its cascades, and the separate path a profile reported by
  another machine takes. A path stored as text is UTF-8, so \<open>path_text\<close> does not fail here.
\<close>

section \<open>Accounts and machines\<close>

definition upsert_account :: "account \<Rightarrow> unit store_op" where
  "upsert_account a st =
     and_then (account_validate a) (\<lambda>_.
       if exists_where (\<lambda>b. identity b = identity a \<and> acct_id b \<noteq> acct_id a) (accounts st)
       then Inl constraint_violation
       else Inr ((), st\<lparr>accounts := upsert_where (\<lambda>b. acct_id b = acct_id a)
              (\<lambda>b. b\<lparr>identity := identity a, acct_display_name := acct_display_name a\<rparr>) a (accounts st)\<rparr>))"

definition get_account :: "int \<Rightarrow> store \<Rightarrow> account option pulse_result" where
  "get_account acct st =
     (case find (\<lambda>a. acct_id a = acct) (accounts st) of
        None \<Rightarrow> Inr None
      | Some a \<Rightarrow> map_ok (\<lambda>i. Some (a\<lparr>acct_id := i\<rparr>)) (account_id_new (acct_id a)))"

definition same_machine :: "int \<Rightarrow> string \<Rightarrow> machine \<Rightarrow> bool" where
  "same_machine acct name m \<longleftrightarrow> mach_account m = acct \<and> mach_name m = name"

definition upsert_machine :: "machine \<Rightarrow> unit store_op" where
  "upsert_machine m st =
     (if last_seen m < first_seen m
      then Inl (invalid_input ''machine last_seen cannot precede first_seen'')
      else if \<not> account_exists (mach_account m) st then Inl constraint_violation
      else Inr ((), st\<lparr>machines := upsert_where (same_machine (mach_account m) (mach_name m))
             (\<lambda>old. old\<lparr>first_seen := min (first_seen old) (first_seen m),
                        last_seen := max (last_seen old) (last_seen m)\<rparr>) m (machines st)\<rparr>))"

definition list_machines :: "int \<Rightarrow> store \<Rightarrow> machine list" where
  "list_machines acct st = select_ordered (\<lambda>m. mach_account m = acct) mach_name 10001 (machines st)"

section \<open>Profiles\<close>

definition same_profile :: "int \<Rightarrow> string \<Rightarrow> profile \<Rightarrow> bool" where
  "same_profile acct name p \<longleftrightarrow> prof_account p = acct \<and> prof_name p = name"

text \<open>The row a report inserts, and the columns it overwrites in a stored row.\<close>

definition reported_row :: "profile \<Rightarrow> profile" where
  "reported_row p = p\<lparr>config_dir := None, api_key_env := None, api_key_file := None\<rparr>"

definition apply_report :: "profile \<Rightarrow> profile \<Rightarrow> profile" where
  "apply_report p old =
     old\<lparr>prof_vendor := prof_vendor p, poll_interval_minutes := poll_interval_minutes p,
         monthly_budget_usd := monthly_budget_usd p, hidden := hidden p, origin := origin p\<rparr>"

definition write_reported :: "profile \<Rightarrow> unit store_op" where
  "write_reported p st =
     (if \<not> account_exists (prof_account p) st then Inl constraint_violation
      else Inr ((), st\<lparr>profiles := upsert_where (same_profile (prof_account p) (prof_name p))
             (apply_report p) (reported_row p) (profiles st)\<rparr>))"

definition upsert_reported_profile :: "bool \<Rightarrow> profile \<Rightarrow> unit store_op" where
  "upsert_reported_profile on_macos p st =
     and_then (profile_validate on_macos p) (\<lambda>_.
       if origin p \<noteq> Reported
       then Inl (invalid_input ''reported profile must have reported origin'')
       else case find (same_profile (prof_account p) (prof_name p)) (profiles st) of
         None \<Rightarrow> write_reported p st
       | Some existing \<Rightarrow>
           if prof_vendor existing \<noteq> prof_vendor p
           then Inl (new_error Conflict ''reported profile vendor conflicts with the stored profile'')
           else if origin existing = LocalOrigin then Inr ((), st)
           else write_reported p st)"

definition upsert_profile :: "bool \<Rightarrow> profile \<Rightarrow> unit store_op" where
  "upsert_profile on_macos p st =
     and_then (profile_validate on_macos p) (\<lambda>_.
       if origin p = Reported then upsert_reported_profile on_macos p st
       else if \<not> account_exists (prof_account p) st then Inl constraint_violation
       else Inr ((), st\<lparr>profiles := upsert_where (same_profile (prof_account p) (prof_name p))
              (\<lambda>_. p) p (profiles st)\<rparr>))"

definition get_profile :: "int \<Rightarrow> string \<Rightarrow> store \<Rightarrow> profile option" where
  "get_profile acct name st = find (same_profile acct name) (profiles st)"

definition list_profiles :: "int \<Rightarrow> store \<Rightarrow> profile list" where
  "list_profiles acct st = select_ordered (\<lambda>p. prof_account p = acct) prof_name 10001 (profiles st)"

definition set_profile_hidden :: "int \<Rightarrow> string \<Rightarrow> bool \<Rightarrow> bool store_op" where
  "set_profile_hidden acct name h st =
     Inr (exists_where (same_profile acct name) (profiles st),
          st\<lparr>profiles := update_where (same_profile acct name) (\<lambda>p. p\<lparr>hidden := h\<rparr>) (profiles st)\<rparr>)"

text \<open>
  \<open>ON DELETE CASCADE\<close>: the rows of the tables that reference a profile go with it, with their own
  dependants (windows of a snapshot, events of a subscription, replies of an event).
\<close>

definition cascade_usage :: "int \<Rightarrow> string \<Rightarrow> store \<Rightarrow> store" where
  "cascade_usage acct name st =
     (let gone = (\<lambda>s. snap_account (snapshot s) = acct \<and> snap_profile (snapshot s) = name)
      in st\<lparr>usage_snapshots := delete_where gone (usage_snapshots st),
            usage_windows := delete_where (\<lambda>w. exists_where
              (\<lambda>s. gone s \<and> snap_id s = win_snapshot w) (usage_snapshots st)) (usage_windows st)\<rparr>)"

definition cascade_alerts :: "int \<Rightarrow> string \<Rightarrow> store \<Rightarrow> store" where
  "cascade_alerts acct name st =
     (let sub_gone = (\<lambda>s. sub_account (subscription s) = acct \<and> sub_profile (subscription s) = name);
          ev_gone = (\<lambda>e. ev_account (event_input e) = acct \<and> ev_profile (event_input e) = name
                       \<or> exists_where (\<lambda>s. sub_gone s \<and> sub_id s = ev_subscription (event_input e))
                           (alert_subscriptions st))
      in st\<lparr>alert_subscriptions := delete_where sub_gone (alert_subscriptions st),
            alert_events := delete_where ev_gone (alert_events st),
            alert_replies := delete_where (\<lambda>r. exists_where (\<lambda>e. ev_gone e
                \<and> ev_account (event_input e) = rep_account (reply_input r) \<and> event_id e = rep_event (reply_input r))
              (alert_events st)) (alert_replies st)\<rparr>)"

definition delete_profile :: "int \<Rightarrow> string \<Rightarrow> bool store_op" where
  "delete_profile acct name st =
     (if \<not> exists_where (same_profile acct name) (profiles st) then Inr (False, st)
      else let st1 = cascade_alerts acct name (cascade_usage acct name st)
      in Inr (True, st1\<lparr>profiles := delete_where (same_profile acct name) (profiles st1),
           context_sessions := delete_where (\<lambda>c. ctx_account c = acct \<and> ctx_profile c = name) (context_sessions st1),
           token_usage := delete_where (\<lambda>t. tok_account (grain t) = acct \<and> tok_profile (grain t) = name)
             (token_usage st1),
           token_revisions := delete_where (\<lambda>r. rev_account r = acct \<and> rev_profile r = name)
             (token_revisions st1),
           reset_jobs := delete_where (\<lambda>j. reset_account (job_input j) = acct
             \<and> reset_profile (job_input j) = name) (reset_jobs st1)\<rparr>))"

section \<open>Invariant\<close>

definition profile_key :: "profile \<Rightarrow> int \<times> string" where
  "profile_key p = (prof_account p, prof_name p)"

lemma same_profile_iff: "same_profile a n p \<longleftrightarrow> profile_key p = (a, n)"
  by (auto simp: same_profile_def profile_key_def)

text \<open>
  Every stored profile is valid and belongs to a stored account, and profiles are keyed by account
  and name.
\<close>

definition profiles_ok :: "bool \<Rightarrow> store \<Rightarrow> bool" where
  "profiles_ok on_macos st \<longleftrightarrow>
     distinct (map profile_key (profiles st))
     \<and> (\<forall>p \<in> set (profiles st). profile_validate on_macos p = Inr () \<and> account_exists (prof_account p) st)"

lemma profiles_ok_distinct: "profiles_ok mac st \<Longrightarrow> distinct (map profile_key (profiles st))"
  by (simp add: profiles_ok_def)

lemma profiles_ok_valid: "profiles_ok mac st \<Longrightarrow> p \<in> set (profiles st) \<Longrightarrow> profile_validate mac p = Inr ()"
  by (simp add: profiles_ok_def)

lemma profile_row_eq:
  assumes "profiles_ok mac st" and "p \<in> set (profiles st)" and "q \<in> set (profiles st)"
    and "profile_key p = profile_key q"
  shows "p = q"
  using assms by (auto simp: profiles_ok_def distinct_map dest: inj_onD)

section \<open>An example table\<close>

definition reported_example :: profile where
  "reported_example =
     \<lparr>prof_account = 1, prof_name = ''remote'', prof_vendor = AnthropicOauth, config_dir = None,
      poll_interval_minutes = 15, monthly_budget_usd = None, api_key_env = None, api_key_file = None,
      refresh = InMemory, hidden = False, origin = Reported\<rparr>"

definition identity_example_store :: store where
  "identity_example_store =
     empty_store\<lparr>accounts := [\<lparr>acct_id = 1, identity = ''me'', acct_display_name = None\<rparr>],
       profiles := [example_profile, reported_example]\<rparr>"

lemmas identity_example_simps =
  identity_example_store_def reported_example_def example_profile_def empty_store_def

lemma reported_example_valid: "profile_validate mac reported_example = Inr ()"
  by (simp add: profile_validate_def reported_example_def validate_profile_credentials_def
      validate_profile_origin_def)

lemma example_profile_valid: "profile_validate True example_profile = Inr ()"
  by (simp add: profile_validate_def example_profile_def validate_profile_credentials_def
      validate_profile_origin_def is_absolute_path_def starts_with_def)

lemma identity_example_ok: "profiles_ok True identity_example_store"
proof -
  have "profiles identity_example_store = [example_profile, reported_example]"
    by (simp add: identity_example_store_def)
  moreover have "distinct (map profile_key [example_profile, reported_example])"
    by (simp add: profile_key_def example_profile_def reported_example_def)
  moreover have "account_exists 1 identity_example_store"
    by (simp add: account_exists_def exists_where_def identity_example_store_def)
  moreover have "prof_account example_profile = 1" "prof_account reported_example = 1"
    by (simp_all add: example_profile_def reported_example_def)
  ultimately show ?thesis
    by (simp add: profiles_ok_def reported_example_valid example_profile_valid)
qed

lemma identity_example_upsert:
  "\<exists>st'. upsert_reported_profile True reported_example identity_example_store = Inr ((), st')"
  by (simp add: upsert_reported_profile_def reported_example_valid write_reported_def account_exists_def
      exists_where_def same_profile_def identity_example_store_def)
    (simp add: example_profile_def reported_example_def)

section \<open>Reported profiles\<close>

lemma reported_credentials:
  assumes "profile_validate mac p = Inr ()" and "origin p = Reported"
  shows "config_dir p = None" "api_key_env p = None" "api_key_file p = None" "refresh p \<noteq> Persist"
  using assms
  by (auto simp: profile_validate_def validate_profile_origin_def result_simps split: if_splits)

lemma apply_report_valid:
  assumes "profile_validate mac p = Inr ()" and "origin p = Reported"
    and "profile_validate mac old = Inr ()" and "origin old = Reported"
  shows "profile_validate mac (apply_report p old) = Inr ()"
  using assms reported_credentials [OF assms(1,2)] reported_credentials [OF assms(3,4)]
  by (auto simp: profile_validate_def validate_profile_credentials_def validate_profile_origin_def
      apply_report_def result_simps split: if_splits option.splits)

lemma reported_row_id:
  assumes "profile_validate mac p = Inr ()" and "origin p = Reported"
  shows "reported_row p = p"
  using reported_credentials [OF assms] by (simp add: reported_row_def)

lemma profile_key_apply_report [simp]: "profile_key (apply_report p old) = profile_key old"
  by (simp add: profile_key_def apply_report_def)

lemma write_reported_ok:
  assumes ok: "profiles_ok mac st" and v: "profile_validate mac p = Inr ()" and r: "origin p = Reported"
    and old: "\<forall>q \<in> set (profiles st). profile_key q = profile_key p \<longrightarrow> origin q = Reported"
    and w: "write_reported p st = Inr (u, st')"
  shows "profiles_ok mac st'"
proof -
  let ?same = "same_profile (prof_account p) (prof_name p)"
  have st': "st' = st\<lparr>profiles := upsert_where ?same (apply_report p) p (profiles st)\<rparr>"
    and acct: "account_exists (prof_account p) st"
    using w reported_row_id [OF v r] by (auto simp: write_reported_def split: if_splits)
  have k: "?same q \<longleftrightarrow> profile_key q = profile_key p" for q
    by (simp add: same_profile_iff profile_key_def)
  have "distinct (map profile_key (upsert_where ?same (apply_report p) p (profiles st)))"
    using profiles_ok_distinct [OF ok] by (rule upsert_where_distinct) (simp_all add: k)
  moreover have "\<forall>q \<in> set (upsert_where ?same (apply_report p) p (profiles st)).
      profile_validate mac q = Inr () \<and> account_exists (prof_account q) st"
  proof (rule upsert_where_all)
    show "\<forall>q \<in> set (profiles st). profile_validate mac q = Inr () \<and> account_exists (prof_account q) st"
      using ok by (simp add: profiles_ok_def)
    show "profile_validate mac p = Inr () \<and> account_exists (prof_account p) st" using v acct by simp
  next
    fix q assume q: "q \<in> set (profiles st)" "profile_validate mac q = Inr () \<and> account_exists (prof_account q) st"
      "?same q"
    then have "origin q = Reported" using old k by simp
    then show "profile_validate mac (apply_report p q) = Inr ()
        \<and> account_exists (prof_account (apply_report p q)) st"
      using apply_report_valid [OF v r] q(2) by (simp add: apply_report_def)
  qed
  ultimately show ?thesis by (simp add: st' profiles_ok_def account_exists_def)
qed

lemma write_reported_filter:
  assumes w: "write_reported p st = Inr (u, st')"
    and q: "\<And>r. r \<in> set (profiles st) \<Longrightarrow> profile_key r = profile_key p \<Longrightarrow> \<not> q r \<and> \<not> q (apply_report p r)"
    and "\<not> q (reported_row p)"
  shows "filter q (profiles st') = filter q (profiles st)"
proof -
  have st': "profiles st' = upsert_where (same_profile (prof_account p) (prof_name p)) (apply_report p)
      (reported_row p) (profiles st)"
    using w by (auto simp: write_reported_def split: if_splits)
  show ?thesis
    unfolding st' using assms(2,3)
    by (intro upsert_where_filter) (auto simp: same_profile_iff profile_key_def)
qed

lemma write_reported_stored:
  assumes "write_reported p st = Inr (u, st')"
  shows "\<exists>r. get_profile (prof_account p) (prof_name p) st' = Some r \<and> prof_vendor r = prof_vendor p
    \<and> hidden r = hidden p \<and> origin r = origin p"
proof -
  let ?same = "same_profile (prof_account p) (prof_name p)"
  have st': "profiles st' = upsert_where ?same (apply_report p) (reported_row p) (profiles st)"
    using assms by (auto simp: write_reported_def split: if_splits)
  have "find ?same (upsert_where ?same (apply_report p) (reported_row p) (profiles st)) =
      Some (case find ?same (profiles st) of None \<Rightarrow> reported_row p | Some r \<Rightarrow> apply_report p r)"
    by (rule find_upsert_where) (auto simp: same_profile_def reported_row_def apply_report_def)
  then show ?thesis
    by (auto simp: get_profile_def st' reported_row_def apply_report_def split: option.splits)
qed

lemma upsert_reported_cases:
  assumes "upsert_reported_profile mac p st = Inr (u, st')"
  shows "profile_validate mac p = Inr ()" "origin p = Reported"
    and "(\<exists>ex. get_profile (prof_account p) (prof_name p) st = Some ex \<and> prof_vendor ex = prof_vendor p
            \<and> origin ex = LocalOrigin \<and> st' = st)
      \<or> (get_profile (prof_account p) (prof_name p) st = None
         \<or> (\<exists>ex. get_profile (prof_account p) (prof_name p) st = Some ex \<and> prof_vendor ex = prof_vendor p
              \<and> origin ex = Reported)) \<and> write_reported p st = Inr (u, st')"
  using assms profile_origin.exhaust
  by (auto simp: upsert_reported_profile_def get_profile_def result_simps split: if_splits option.splits)

lemma get_profile_unique:
  assumes "profiles_ok mac st" and "q \<in> set (profiles st)"
  shows "get_profile (prof_account q) (prof_name q) st = Some q"
  unfolding get_profile_def
  by (rule find_unique)
    (use assms profile_row_eq [OF assms(1)] in \<open>auto simp: same_profile_iff profile_key_def\<close>)

lemma upsert_reported_effect:
  assumes ok: "profiles_ok mac st" and up: "upsert_reported_profile mac p st = Inr (u, st')"
  shows "profiles_ok mac st'" and "st' = st\<lparr>profiles := profiles st'\<rparr>"
    and "filter (\<lambda>q. origin q = LocalOrigin) (profiles st') = filter (\<lambda>q. origin q = LocalOrigin) (profiles st)"
    and "profile_key ` set (profiles st') \<subseteq> insert (profile_key p) (profile_key ` set (profiles st))"
    and "(\<And>r. profile_key r = profile_key p \<Longrightarrow> \<not> q r)
      \<Longrightarrow> filter q (profiles st') = filter q (profiles st)"
proof -
  note c = upsert_reported_cases [OF up]
  have old: "origin q = Reported" if "st' \<noteq> st" "q \<in> set (profiles st)" "profile_key q = profile_key p" for q
    using that c(3) get_profile_unique [OF ok that(2)] by (auto simp: profile_key_def)
  have w: "write_reported p st = Inr (u, st')" if "st' \<noteq> st" using that c(3) by blast
  show "profiles_ok mac st'"
    using ok write_reported_ok [OF ok c(1,2) _ w] old by (cases "st' = st") blast+
  show "st' = st\<lparr>profiles := profiles st'\<rparr>"
    using w by (cases "st' = st") (auto simp: write_reported_def split: if_splits)
  show "filter (\<lambda>q. origin q = LocalOrigin) (profiles st') = filter (\<lambda>q. origin q = LocalOrigin) (profiles st)"
  proof (cases "st' = st")
    case False
    show ?thesis
      by (rule write_reported_filter [OF w [OF False]])
        (use old [OF False] c(2) in \<open>auto simp: apply_report_def reported_row_def\<close>)
  qed simp
  show "profile_key ` set (profiles st') \<subseteq> insert (profile_key p) (profile_key ` set (profiles st))"
  proof (cases "st' = st")
    case False
    have "profile_key (reported_row p) = profile_key p" by (simp add: profile_key_def reported_row_def)
    then show ?thesis
      using w [OF False] by (auto simp: write_reported_def upsert_where_def set_update_where split: if_splits)
  qed auto
  show "filter q (profiles st') = filter q (profiles st)"
    if no: "\<And>r. profile_key r = profile_key p \<Longrightarrow> \<not> q r"
  proof (cases "st' = st")
    case False
    show ?thesis
      by (rule write_reported_filter [OF w [OF False]])
        (simp_all add: no, simp add: no profile_key_def reported_row_def)
  qed simp
qed

text \<open>
  The trust boundary of the profile table: accepting a profile reported by another machine keeps
  the table well formed, leaves every local profile and every other profile exactly as it was,
  leaves every other table alone, and ends with a stored profile of the reported vendor; a reported
  row that is written carries no credential, no path and no persistent refresh.
\<close>

theorem reported_profile_isolated:
  assumes "profiles_ok mac st" and "upsert_reported_profile mac p st = Inr (u, st')"
  shows "profiles_ok mac st'
    \<and> filter (\<lambda>q. origin q = LocalOrigin) (profiles st') = filter (\<lambda>q. origin q = LocalOrigin) (profiles st)
    \<and> filter (\<lambda>q. profile_key q \<noteq> profile_key p) (profiles st')
        = filter (\<lambda>q. profile_key q \<noteq> profile_key p) (profiles st)
    \<and> st' = st\<lparr>profiles := profiles st'\<rparr>
    \<and> (\<exists>r. get_profile (prof_account p) (prof_name p) st' = Some r \<and> prof_vendor r = prof_vendor p
         \<and> (origin r = LocalOrigin \<and> st' = st
            \<or> api_key_env r = None \<and> api_key_file r = None \<and> config_dir r = None \<and> refresh r \<noteq> Persist))"
proof -
  note c = upsert_reported_cases [OF assms(2)] and e = upsert_reported_effect [OF assms]
  have oth: "filter (\<lambda>q. profile_key q \<noteq> profile_key p) (profiles st')
      = filter (\<lambda>q. profile_key q \<noteq> profile_key p) (profiles st)"
    by (rule e(5)) simp
  have "\<exists>r. get_profile (prof_account p) (prof_name p) st' = Some r \<and> prof_vendor r = prof_vendor p
         \<and> (origin r = LocalOrigin \<and> st' = st
            \<or> api_key_env r = None \<and> api_key_file r = None \<and> config_dir r = None \<and> refresh r \<noteq> Persist)"
  proof (cases "\<exists>ex. get_profile (prof_account p) (prof_name p) st = Some ex \<and> prof_vendor ex = prof_vendor p
      \<and> origin ex = LocalOrigin \<and> st' = st")
    case False
    then have "write_reported p st = Inr (u, st')" using c(3) by blast
    from write_reported_stored [OF this] obtain r
      where r: "get_profile (prof_account p) (prof_name p) st' = Some r"
        "prof_vendor r = prof_vendor p" "origin r = origin p" by blast
    then have "r \<in> set (profiles st')" using find_Some_mem by (fastforce simp: get_profile_def)
    then have "profile_validate mac r = Inr ()" by (rule profiles_ok_valid [OF e(1)])
    moreover have "origin r = Reported" using r(3) c(2) by simp
    ultimately show ?thesis using reported_credentials r by blast
  qed auto
  then show ?thesis using e(1-3) oth by blast
qed

theorem reported_profile_isolated_witness:
  "\<exists>st'. upsert_reported_profile True reported_example identity_example_store = Inr ((), st')
     \<and> profiles_ok True st' \<and> example_profile \<in> set (profiles st')"
proof -
  obtain st' where u: "upsert_reported_profile True reported_example identity_example_store = Inr ((), st')"
    using identity_example_upsert by blast
  have "example_profile \<in> set (filter (\<lambda>q. origin q = LocalOrigin) (profiles identity_example_store))"
    by (simp add: identity_example_store_def) (simp add: example_profile_def)
  then have "example_profile \<in> set (filter (\<lambda>q. origin q = LocalOrigin) (profiles st'))"
    using reported_profile_isolated [OF identity_example_ok u] by simp
  then have "example_profile \<in> set (profiles st')" by simp
  then show ?thesis using u reported_profile_isolated [OF identity_example_ok u] by blast
qed

text \<open>A profile as a reporter names it, and the stored form the receiver gives it.\<close>

record reported_profile =
  rp_name :: string
  rp_vendor :: vendor
  rp_poll_minutes :: nat
  rp_budget :: "f64 option"

definition reported_into_domain :: "bool \<Rightarrow> int \<Rightarrow> reported_profile \<Rightarrow> profile pulse_result" where
  "reported_into_domain on_macos acct r =
     (let p = \<lparr>prof_account = acct, prof_name = rp_name r, prof_vendor = rp_vendor r, config_dir = None,
               poll_interval_minutes = rp_poll_minutes r, monthly_budget_usd = rp_budget r,
               api_key_env = None, api_key_file = None, refresh = InMemory, hidden = False,
               origin = Reported\<rparr>
      in map_ok (\<lambda>_. p) (profile_validate on_macos p))"

lemma reported_into_domain_Inr:
  "reported_into_domain mac acct r = Inr p \<Longrightarrow> prof_account p = acct \<and> prof_name p = rp_name r
     \<and> \<not> hidden p \<and> origin p = Reported \<and> profile_validate mac p = Inr ()"
  by (auto simp: reported_into_domain_def result_simps Let_def)

text \<open>
  Hiding a reported profile does not last: the visibility switch hides the stored profile, and the
  next accepted report of the profile stores it visible again, because a report always carries
  \<open>hidden = false\<close> and the upsert overwrites the column.
\<close>

theorem reported_push_unhides_profile:
  assumes "get_profile acct (rp_name r) st = Some old"
    and "set_profile_hidden acct (rp_name r) True st = Inr (found, st1)"
    and "reported_into_domain mac acct r = Inr p"
    and "upsert_reported_profile mac p st1 = Inr (u, st2)"
    and "origin old = Reported"
  shows "found \<and> (\<exists>q. get_profile acct (rp_name r) st1 = Some q \<and> hidden q)
    \<and> (\<exists>q. get_profile acct (rp_name r) st2 = Some q \<and> \<not> hidden q)"
proof -
  note p = reported_into_domain_Inr [OF assms(3)]
  let ?same = "same_profile acct (rp_name r)"
  have st1: "st1 = st\<lparr>profiles := update_where ?same (\<lambda>p. p\<lparr>hidden := True\<rparr>) (profiles st)\<rparr>"
    and found: "found = exists_where ?same (profiles st)"
    using assms(2) by (auto simp: set_profile_hidden_def)
  have old: "old \<in> set (profiles st)" "?same old"
    using assms(1) find_Some_mem [of ?same "profiles st" old] by (simp_all add: get_profile_def)
  then have found: "found" using found by (auto simp: exists_where_def)
  have "find ?same (update_where ?same (\<lambda>p. p\<lparr>hidden := True\<rparr>) (profiles st)) =
      map_option (\<lambda>p. p\<lparr>hidden := True\<rparr>) (find ?same (profiles st))"
    by (rule find_update_where) (simp add: same_profile_def)
  then have q: "get_profile acct (rp_name r) st1 = Some (old\<lparr>hidden := True\<rparr>)"
    using assms(1) by (simp add: st1 get_profile_def)
  then have "write_reported p st1 = Inr (u, st2)"
    using upsert_reported_cases(3) [OF assms(4)] p assms(5) by auto
  from write_reported_stored [OF this] show ?thesis using p q found by auto
qed

theorem reported_push_unhides_profile_witness:
  "\<exists>st1 st2 p. reported_into_domain True 1 \<lparr>rp_name = ''remote'', rp_vendor = AnthropicOauth,
       rp_poll_minutes = 15, rp_budget = None\<rparr> = Inr p
     \<and> upsert_reported_profile True p st1 = Inr ((), st2)
     \<and> (\<exists>q. get_profile 1 ''remote'' st1 = Some q \<and> hidden q)
     \<and> (\<exists>q. get_profile 1 ''remote'' st2 = Some q \<and> \<not> hidden q)"
proof -
  let ?r = "\<lparr>rp_name = ''remote'', rp_vendor = AnthropicOauth, rp_poll_minutes = 15, rp_budget = None\<rparr>"
  have d: "reported_into_domain True 1 ?r = Inr reported_example"
    using reported_example_valid [of True] by (simp add: reported_into_domain_def reported_example_def)
  have g: "get_profile 1 (rp_name ?r) identity_example_store = Some reported_example"
    by (simp add: get_profile_def identity_example_store_def same_profile_def)
      (simp add: example_profile_def reported_example_def)
  obtain st1 where h: "set_profile_hidden 1 (rp_name ?r) True identity_example_store = Inr (True, st1)"
    using g find_Some_mem [of "same_profile 1 ''remote''" "profiles identity_example_store" reported_example]
    by (fastforce simp: set_profile_hidden_def exists_where_def get_profile_def)
  then have st1: "profiles st1 = [example_profile, reported_example\<lparr>hidden := True\<rparr>]"
    "accounts st1 = accounts identity_example_store"
    by (auto simp: set_profile_hidden_def identity_example_store_def same_profile_def)
      (simp_all add: example_profile_def reported_example_def)
  have f: "find (same_profile 1 ''remote'') (profiles st1) = Some (reported_example\<lparr>hidden := True\<rparr>)"
    unfolding st1(1) by (simp add: same_profile_def) (simp add: example_profile_def reported_example_def)
  have a: "account_exists 1 st1"
    by (simp add: account_exists_def exists_where_def st1(2) identity_example_store_def)
  obtain st2 where u: "upsert_reported_profile True reported_example st1 = Inr ((), st2)"
    using f a reported_example_valid [of True]
    by (simp add: upsert_reported_profile_def) (simp add: reported_example_def write_reported_def)
  have o: "origin reported_example = Reported" by (simp add: reported_example_def)
  show ?thesis
    using d u reported_push_unhides_profile [OF g h d u o] by auto
qed

section \<open>Deleting a profile\<close>

text \<open>Referential integrity of the tables that depend on profiles.\<close>

definition references_ok :: "store \<Rightarrow> bool" where
  "references_ok st \<longleftrightarrow>
     (\<forall>s \<in> set (usage_snapshots st). profile_exists (snap_account (snapshot s)) (snap_profile (snapshot s)) st)
     \<and> (\<forall>w \<in> set (usage_windows st). \<exists>s \<in> set (usage_snapshots st). snap_id s = win_snapshot w)
     \<and> (\<forall>c \<in> set (context_sessions st). profile_exists (ctx_account c) (ctx_profile c) st)
     \<and> (\<forall>t \<in> set (token_usage st). profile_exists (tok_account (grain t)) (tok_profile (grain t)) st)
     \<and> (\<forall>v \<in> set (token_revisions st). profile_exists (rev_account v) (rev_profile v) st)
     \<and> (\<forall>s \<in> set (alert_subscriptions st). profile_exists (sub_account (subscription s)) (sub_profile (subscription s)) st)
     \<and> (\<forall>e \<in> set (alert_events st). profile_exists (ev_account (event_input e)) (ev_profile (event_input e)) st
          \<and> (\<exists>s \<in> set (alert_subscriptions st). sub_id s = ev_subscription (event_input e)))
     \<and> (\<forall>r \<in> set (alert_replies st). \<exists>e \<in> set (alert_events st).
          ev_account (event_input e) = rep_account (reply_input r) \<and> event_id e = rep_event (reply_input r))
     \<and> (\<forall>j \<in> set (reset_jobs st). profile_exists (reset_account (job_input j)) (reset_profile (job_input j)) st)"

lemmas delete_profile_simps =
  delete_profile_def cascade_alerts_def cascade_usage_def Let_def set_delete_where exists_where_def

text \<open>
  Deleting a profile removes it and every row that depends on it and leaves no dangling
  reference: the profile is gone, every remaining row refers to a profile, snapshot, subscription or
  event that is still stored, and the other profiles are untouched.
\<close>

theorem delete_profile_leaves_no_orphans:
  assumes "references_ok st" and "delete_profile acct name st = Inr (found, st')"
  shows "references_ok st' \<and> \<not> profile_exists acct name st'
    \<and> filter (\<lambda>p. \<not> same_profile acct name p) (profiles st') = filter (\<lambda>p. \<not> same_profile acct name p) (profiles st)"
proof (cases found)
  case False
  then have st': "st' = st" "\<not> exists_where (same_profile acct name) (profiles st)"
    using assms(2) by (auto simp: delete_profile_def Let_def split: if_splits)
  then show ?thesis using assms(1) by (auto simp: profile_exists_def exists_where_def same_profile_def)
next
  case True
  have d: "Inr (True, st') = delete_profile acct name st" using assms(2) True by simp
  have prof: "profiles st' = delete_where (same_profile acct name) (profiles st)"
    using d by (auto simp: delete_profile_def cascade_alerts_def cascade_usage_def Let_def split: if_splits)
  then have gone: "\<not> profile_exists acct name st'"
    by (simp add: profile_exists_def exists_where_def set_delete_where same_profile_def)
  have keep: "profile_exists a n st' \<longleftrightarrow> profile_exists a n st" if "(a, n) \<noteq> (acct, name)" for a n
    using that by (auto simp: prof profile_exists_def exists_where_def set_delete_where same_profile_def)
  note ok = assms(1) [unfolded references_ok_def]
  have "references_ok st'"
    unfolding references_ok_def
  proof (intro conjI)
    show "\<forall>s \<in> set (usage_snapshots st'). profile_exists (snap_account (snapshot s)) (snap_profile (snapshot s)) st'"
      using d ok keep by (auto simp: delete_profile_simps split: if_splits)
    show "\<forall>w \<in> set (usage_windows st'). \<exists>s \<in> set (usage_snapshots st'). snap_id s = win_snapshot w"
      using d ok by (fastforce simp: delete_profile_simps split: if_splits)
    show "\<forall>c \<in> set (context_sessions st'). profile_exists (ctx_account c) (ctx_profile c) st'"
      using d ok keep by (auto simp: delete_profile_simps split: if_splits)
    show "\<forall>t \<in> set (token_usage st'). profile_exists (tok_account (grain t)) (tok_profile (grain t)) st'"
      using d ok keep by (auto simp: delete_profile_simps split: if_splits)
    show "\<forall>v \<in> set (token_revisions st'). profile_exists (rev_account v) (rev_profile v) st'"
      using d ok keep by (auto simp: delete_profile_simps split: if_splits)
    show "\<forall>s \<in> set (alert_subscriptions st'). profile_exists (sub_account (subscription s)) (sub_profile (subscription s)) st'"
      using d ok keep by (auto simp: delete_profile_simps split: if_splits)
    show "\<forall>e \<in> set (alert_events st'). profile_exists (ev_account (event_input e)) (ev_profile (event_input e)) st'
          \<and> (\<exists>s \<in> set (alert_subscriptions st'). sub_id s = ev_subscription (event_input e))"
      using d ok keep by (fastforce simp: delete_profile_simps split: if_splits)
    show "\<forall>r \<in> set (alert_replies st'). \<exists>e \<in> set (alert_events st').
          ev_account (event_input e) = rep_account (reply_input r) \<and> event_id e = rep_event (reply_input r)"
    proof
      define gone where "gone e \<longleftrightarrow> ev_account (event_input e) = acct \<and> ev_profile (event_input e) = name
          \<or> (\<exists>s \<in> set (alert_subscriptions st). (sub_account (subscription s) = acct
               \<and> sub_profile (subscription s) = name) \<and> sub_id s = ev_subscription (event_input e))" for e :: alert_event
      fix r assume r: "r \<in> set (alert_replies st')"
      have rep: "alert_replies st' = delete_where (\<lambda>r. exists_where (\<lambda>e. gone e
          \<and> ev_account (event_input e) = rep_account (reply_input r) \<and> event_id e = rep_event (reply_input r))
          (alert_events st)) (alert_replies st)"
        and ev: "alert_events st' = delete_where gone (alert_events st)"
        using d unfolding gone_def
        by (auto simp: delete_profile_def cascade_alerts_def cascade_usage_def Let_def exists_where_def
            split: if_splits)
      obtain e where e: "e \<in> set (alert_events st)" "ev_account (event_input e) = rep_account (reply_input r)"
        "event_id e = rep_event (reply_input r)"
        using r ok by (force simp: rep set_delete_where)
      then have "\<not> gone e" using r by (auto simp: rep set_delete_where exists_where_def)
      then show "\<exists>e \<in> set (alert_events st'). ev_account (event_input e) = rep_account (reply_input r)
          \<and> event_id e = rep_event (reply_input r)"
        using e by (auto simp: ev set_delete_where)
    qed
    show "\<forall>j \<in> set (reset_jobs st'). profile_exists (reset_account (job_input j)) (reset_profile (job_input j)) st'"
      using d ok keep by (auto simp: delete_profile_simps split: if_splits)
  qed
  moreover have "filter (\<lambda>p. \<not> same_profile acct name p) (profiles st') = filter (\<lambda>p. \<not> same_profile acct name p) (profiles st)"
    by (simp add: prof delete_where_def)
  ultimately show ?thesis using gone by blast
qed

theorem delete_profile_leaves_no_orphans_witness:
  "\<exists>st'. delete_profile 1 ''remote'' identity_example_store = Inr (True, st')
     \<and> references_ok st' \<and> \<not> profile_exists 1 ''remote'' st'"
proof -
  have r: "references_ok identity_example_store"
    by (simp add: references_ok_def identity_example_store_def empty_store_def)
  obtain st' where d: "delete_profile 1 ''remote'' identity_example_store = Inr (True, st')"
    by (simp add: delete_profile_def exists_where_def identity_example_store_def same_profile_def)
      (simp add: example_profile_def reported_example_def Let_def)
  from delete_profile_leaves_no_orphans [OF r d] d show ?thesis by blast
qed

end
