(* ===== verification/Token_Store.thy ===== *)
theory Token_Store
  imports Pulse_Tables
begin

text \<open>
  Token grains in \<open>src/src/pulse/store/sqlite.rs\<close>: upserts at a per-scope write revision, batches
  that skip unchanged rows, and the observations of the local collector, which reserve a revision
  and are refused when another writer took a later one. \<open>settings_sha256\<close>, the date parser and the
  clock are the parameters of \<open>token_extern\<close>.
\<close>

section \<open>Operations\<close>

record token_extern =
  ext_sha256 :: "agent_settings \<Rightarrow> string"
  ext_parse_date :: "string \<Rightarrow> string + unit"
  ext_now :: instant

abbreviation grain_validate :: "token_extern \<Rightarrow> token_grain \<Rightarrow> unit pulse_result" where
  "grain_validate x \<equiv> token_grain_validate (ext_sha256 x) (ext_parse_date x)"

type_synonym token_scope = "int \<times> string \<times> string"

definition grain_scope :: "token_grain \<Rightarrow> token_scope" where
  "grain_scope g = (tok_account g, tok_profile g, tok_machine g)"

definition rev_scope :: "token_revision_row \<Rightarrow> token_scope" where
  "rev_scope v = (rev_account v, rev_profile v, rev_machine v)"

text \<open>The primary key of \<open>token_usage\<close>, and the remaining columns as they are bound.\<close>

definition token_key where
  "token_key g = (grain_scope g, tok_session g, tok_model g, settings_hash g, tok_day g, tok_source g)"

definition token_columns :: "token_grain \<Rightarrow> (int \<times> int \<times> int \<times> int \<times> int) pulse_result" where
  "token_columns g =
     and_then (as_i64 (tokens_in g) ''tokens_in'') (\<lambda>a.
     and_then (as_i64 (tokens_out g) ''tokens_out'') (\<lambda>b.
     and_then (as_i64 (cache_write_5m g) ''cache_write_5m'') (\<lambda>c.
     and_then (as_i64 (cache_write_1h g) ''cache_write_1h'') (\<lambda>d.
     and_then (as_i64 (cache_read g) ''cache_read'') (\<lambda>e. Inr (a, b, c, d, e))))))"

definition has_key :: "token_grain \<Rightarrow> token_row \<Rightarrow> bool" where
  "has_key g r \<longleftrightarrow> token_key (grain r) = token_key g"

text \<open>\<open>sqlite_token_write_revision\<close>: the revision of the scope, created at 0.\<close>

definition token_write_revision :: "token_scope \<Rightarrow> int store_op" where
  "token_write_revision scope st =
     (case find (\<lambda>v. rev_scope v = scope) (token_revisions st) of
        Some v \<Rightarrow> Inr (revision v, st)
      | None \<Rightarrow> (case scope of (acct, prof, mach) \<Rightarrow>
          if profile_exists acct prof st \<and> machine_exists acct mach st
          then Inr (0, st\<lparr>token_revisions := token_revisions st @
                 [\<lparr>rev_account = acct, rev_profile = prof, rev_machine = mach, revision = 0\<rparr>]\<rparr>)
          else Inl constraint_violation))"

definition set_revision :: "token_scope \<Rightarrow> int \<Rightarrow> store \<Rightarrow> store" where
  "set_revision scope n st =
     st\<lparr>token_revisions := update_where (\<lambda>v. rev_scope v = scope) (\<lambda>v. v\<lparr>revision := n\<rparr>) (token_revisions st)\<rparr>"

definition allocate_token_revision :: "token_scope \<Rightarrow> int store_op" where
  "allocate_token_revision scope st =
     and_then (token_write_revision scope st) (\<lambda>(current, st1).
       case checked_i64 (current + 1) of
         None \<Rightarrow> Inl (new_error Storage ''token write revision overflowed'')
       | Some n \<Rightarrow>
           if count_where (\<lambda>v. rev_scope v = scope \<and> revision v = current) (token_revisions st1) \<noteq> 1
           then Inl (new_error Conflict ''token write revision changed concurrently'')
           else Inr (n, set_revision scope n st1))"

text \<open>The stored row has the same settings and counts.\<close>

definition same_payload :: "token_grain \<Rightarrow> token_grain \<Rightarrow> bool" where
  "same_payload a b \<longleftrightarrow> tok_settings a = tok_settings b \<and> tokens_in a = tokens_in b
     \<and> tokens_out a = tokens_out b \<and> cache_write_5m a = cache_write_5m b
     \<and> cache_write_1h a = cache_write_1h b \<and> cache_read a = cache_read b"

definition token_matches :: "token_grain \<Rightarrow> store \<Rightarrow> bool pulse_result" where
  "token_matches g st =
     map_ok (\<lambda>_. case find (has_key g) (token_usage st) of None \<Rightarrow> False | Some r \<Rightarrow> same_payload (grain r) g)
       (token_columns g)"

text \<open>The upsert; a conditional one leaves a row whose revision is not older.\<close>

definition upsert_token_at_revision ::
    "token_extern \<Rightarrow> token_grain \<Rightarrow> int \<Rightarrow> bool \<Rightarrow> unit store_op" where
  "upsert_token_at_revision x g rv conditional st =
     and_then (grain_validate x g) (\<lambda>_.
     and_then (token_columns g) (\<lambda>_.
       if exists_where (has_key g) (token_usage st)
          \<or> profile_exists (tok_account g) (tok_profile g) st \<and> machine_exists (tok_account g) (tok_machine g) st
       then Inr ((), st\<lparr>token_usage := upsert_where (has_key g)
              (\<lambda>r. if conditional \<and> \<not> row_revision r < rv then r
                   else r\<lparr>grain := g, updated_at := ext_now x, row_revision := rv\<rparr>)
              \<lparr>grain = g, updated_at = ext_now x, row_revision = rv\<rparr> (token_usage st)\<rparr>)
       else Inl constraint_violation))"

definition changed_grains :: "store \<Rightarrow> token_grain list \<Rightarrow> token_grain list pulse_result" where
  "changed_grains st gs =
     map_ok (\<lambda>ms. map fst (filter (\<lambda>p. \<not> snd p) ms))
       (try_map (\<lambda>g. map_ok (Pair g) (token_matches g st)) gs)"

text \<open>One scope of a batch: the changed rows share one new revision; nothing happens without one.\<close>

definition write_scope :: "token_extern \<Rightarrow> token_grain list \<Rightarrow> token_scope \<Rightarrow> store \<Rightarrow> store pulse_result" where
  "write_scope x gs scope st =
     and_then (changed_grains st (filter (\<lambda>g. grain_scope g = scope) gs)) (\<lambda>changed.
       if changed = [] then Inr st
       else and_then (allocate_token_revision scope st) (\<lambda>(rv, st1).
              try_fold (\<lambda>g s. map_ok snd (upsert_token_at_revision x g rv False s)) changed st1))"

definition batch_scopes :: "token_grain list \<Rightarrow> token_scope list" where
  "batch_scopes gs = sort (remdups (map grain_scope gs))"

definition upsert_token_batch :: "token_extern \<Rightarrow> token_grain list \<Rightarrow> unit store_op" where
  "upsert_token_batch x gs st =
     and_then (try_each (grain_validate x) gs) (\<lambda>_.
     map_ok (Pair ()) (try_fold (write_scope x gs) (batch_scopes gs) st))"

definition upsert_token_grain :: "token_extern \<Rightarrow> token_grain \<Rightarrow> unit store_op" where
  "upsert_token_grain x g = upsert_token_batch x [g]"

record token_observation =
  obs_account :: int
  obs_profile :: string
  obs_machine :: string
  obs_revision :: nat

definition as_u64 :: "int \<Rightarrow> nat pulse_result" where
  "as_u64 v = (if v < 0 then Inl (new_error Storage ''stored Pulse count is negative'') else Inr (nat v))"

definition begin_token_observation :: "token_scope \<Rightarrow> token_observation store_op" where
  "begin_token_observation scope st =
     (case scope of (acct, prof, mach) \<Rightarrow>
       and_then (allocate_token_revision scope st) (\<lambda>(rv, st1).
       and_then (as_u64 rv) (\<lambda>n.
         Inr (\<lparr>obs_account = acct, obs_profile = prof, obs_machine = mach, obs_revision = n\<rparr>, st1))))"

definition validate_token_observation ::
    "token_extern \<Rightarrow> token_observation \<Rightarrow> token_grain \<Rightarrow> unit pulse_result" where
  "validate_token_observation x ob g =
     (if obs_revision ob = 0
      then Inl (invalid_input ''Pulse token observation revision is invalid'')
      else and_then (grain_validate x g) (\<lambda>_.
        ensure (grain_scope g = (obs_account ob, obs_profile ob, obs_machine ob) \<and> tok_source g = LocalSource)
          (new_error Conflict ''Pulse token observation is outside its reserved local scope'')))"

definition upsert_observed_token_grain ::
    "token_extern \<Rightarrow> token_observation \<Rightarrow> token_grain \<Rightarrow> unit store_op" where
  "upsert_observed_token_grain x ob g st =
     and_then (validate_token_observation x ob g) (\<lambda>_.
     and_then (token_write_revision (obs_account ob, obs_profile ob, obs_machine ob) st) (\<lambda>(reserved, st1).
       case checked_i64 (int (obs_revision ob)) of
         None \<Rightarrow> Inl (new_error Storage ''token observation revision overflowed'')
       | Some rv \<Rightarrow>
           if reserved \<noteq> rv
           then Inl (new_error Conflict ''Pulse token observation is no longer current'')
           else upsert_token_at_revision x g rv True st1))"

section \<open>Invariant\<close>

definition tokens_ok :: "store \<Rightarrow> bool" where
  "tokens_ok st \<longleftrightarrow>
     distinct (map (\<lambda>r. token_key (grain r)) (token_usage st))
     \<and> distinct (map rev_scope (token_revisions st))
     \<and> (\<forall>v \<in> set (token_revisions st). 0 \<le> revision v)
     \<and> (\<forall>r \<in> set (token_usage st). \<exists>v \<in> set (token_revisions st).
          rev_scope v = grain_scope (grain r) \<and> row_revision r \<le> revision v)"

text \<open>The current revision of a scope, if it has one.\<close>

definition scope_revision :: "token_scope \<Rightarrow> store \<Rightarrow> int option" where
  "scope_revision scope st = map_option revision (find (\<lambda>v. rev_scope v = scope) (token_revisions st))"

definition stored_grain :: "token_grain \<Rightarrow> store \<Rightarrow> bool" where
  "stored_grain g st \<longleftrightarrow> (\<exists>r. find (has_key g) (token_usage st) = Some r \<and> grain r = g)"

lemma has_key_same: "token_key g = token_key h \<Longrightarrow> has_key g = has_key h"
  by (simp add: has_key_def fun_eq_iff)

lemma payload_eq: "token_key a = token_key b \<Longrightarrow> same_payload a b \<longleftrightarrow> a = b"
  by (cases a; cases b) (auto simp: token_key_def grain_scope_def same_payload_def)

lemma token_matches_stored:
  "token_matches g st = Inr b \<Longrightarrow> b = stored_grain g st"
proof -
  assume m: "token_matches g st = Inr b"
  show ?thesis
  proof (cases "find (has_key g) (token_usage st)")
    case None
    then show ?thesis using m by (auto simp: token_matches_def stored_grain_def result_simps)
  next
    case (Some r)
    then have "token_key (grain r) = token_key g" using find_Some_mem [OF Some] by (simp add: has_key_def)
    then show ?thesis using m Some payload_eq
      by (auto simp: token_matches_def stored_grain_def result_simps)
  qed
qed

lemma token_matches_Inr:
  "token_columns g = Inr c \<Longrightarrow> token_matches g st = Inr (stored_grain g st)"
proof -
  assume "token_columns g = Inr c"
  then obtain b where "token_matches g st = Inr b" by (simp add: token_matches_def)
  then show ?thesis using token_matches_stored by blast
qed

section \<open>Effects of the writes\<close>

lemma write_revision_effect:
  assumes "token_write_revision scope st = Inr (n, st')"
  shows "scope_revision scope st' = Some n" "token_usage st' = token_usage st"
    and "\<forall>sc. sc \<noteq> scope \<longrightarrow> scope_revision sc st' = scope_revision sc st"
    and "scope_revision scope st = None \<and> n = 0 \<or> scope_revision scope st = Some n \<and> st' = st"
    and "tokens_ok st \<Longrightarrow> tokens_ok st'"
proof -
  obtain a p m where sc: "scope = (a, p, m)" by (cases scope)
  let ?row = "\<lparr>rev_account = a, rev_profile = p, rev_machine = m, revision = 0\<rparr>"
  have c: "(\<exists>v. find (\<lambda>v. rev_scope v = scope) (token_revisions st) = Some v \<and> n = revision v \<and> st' = st)
    \<or> (find (\<lambda>v. rev_scope v = scope) (token_revisions st) = None \<and> n = 0
       \<and> st' = st\<lparr>token_revisions := token_revisions st @ [?row]\<rparr>)"
    using assms by (auto simp: token_write_revision_def sc split: option.splits if_splits)
  have f: "find P (xs @ [r]) = (case find P xs of None \<Rightarrow> (if P r then Some r else None) | Some y \<Rightarrow> Some y)"
    for P and xs :: "token_revision_row list" and r
    by (induction xs) auto
  show "scope_revision scope st' = Some n" "token_usage st' = token_usage st"
    "\<forall>sc. sc \<noteq> scope \<longrightarrow> scope_revision sc st' = scope_revision sc st"
    "scope_revision scope st = None \<and> n = 0 \<or> scope_revision scope st = Some n \<and> st' = st"
    using c by (auto simp: scope_revision_def f sc rev_scope_def split: option.splits)
  assume ok: "tokens_ok st"
  from c show "tokens_ok st'"
  proof
    assume n: "find (\<lambda>v. rev_scope v = scope) (token_revisions st) = None \<and> n = 0
       \<and> st' = st\<lparr>token_revisions := token_revisions st @ [?row]\<rparr>"
    then have "rev_scope ?row \<notin> rev_scope ` set (token_revisions st)"
      by (auto simp: find_None_iff sc rev_scope_def)
    then show "tokens_ok st'" using ok n by (auto simp: tokens_ok_def)
  qed (use ok in auto)
qed

lemma scope_revision_mem:
  "scope_revision scope st = Some n \<Longrightarrow> \<exists>v \<in> set (token_revisions st). rev_scope v = scope \<and> revision v = n"
  unfolding scope_revision_def using find_Some_mem by fastforce

lemma scope_revision_unique:
  assumes "tokens_ok st" and "v \<in> set (token_revisions st)"
  shows "scope_revision (rev_scope v) st = Some (revision v)"
proof -
  have "find (\<lambda>u. rev_scope u = rev_scope v) (token_revisions st) = Some v"
    by (rule find_unique) (use assms in \<open>auto simp: tokens_ok_def distinct_map dest: inj_onD\<close>)
  then show ?thesis by (simp add: scope_revision_def)
qed

lemma set_revision_scope:
  "scope_revision sc (set_revision scope n st) =
     (if sc = scope then map_option (\<lambda>_. n) (scope_revision sc st) else scope_revision sc st)"
proof -
  have "find (\<lambda>v. rev_scope v = sc) (update_where (\<lambda>v. rev_scope v = scope) (\<lambda>v. v\<lparr>revision := n\<rparr>) vs) =
      map_option (\<lambda>v. if sc = scope then v\<lparr>revision := n\<rparr> else v) (find (\<lambda>v. rev_scope v = sc) vs)" for vs
    by (induction vs) (auto simp: rev_scope_def)
  then show ?thesis
    by (auto simp: scope_revision_def set_revision_def option.map_comp comp_def)
qed

lemma allocate_effect:
  assumes "allocate_token_revision scope st = Inr (n, st')"
  shows "scope_revision scope st' = Some n" "token_usage st' = token_usage st"
    and "\<forall>sc. sc \<noteq> scope \<longrightarrow> scope_revision sc st' = scope_revision sc st"
    and "\<forall>m. scope_revision scope st = Some m \<longrightarrow> n = m + 1"
    and "tokens_ok st \<Longrightarrow> tokens_ok st' \<and> 0 < n"
proof -
  obtain c st1 where w: "token_write_revision scope st = Inr (c, st1)"
    and n: "n = c + 1" and st': "st' = set_revision scope n st1"
    using assms by (auto simp: allocate_token_revision_def result_simps split: option.splits if_splits)
  note e = write_revision_effect [OF w]
  show "scope_revision scope st' = Some n" by (simp add: st' set_revision_scope e(1))
  show "token_usage st' = token_usage st" using e(2) by (simp add: st' set_revision_def)
  show "\<forall>sc. sc \<noteq> scope \<longrightarrow> scope_revision sc st' = scope_revision sc st"
    using e(3) by (simp add: st' set_revision_scope)
  show "\<forall>m. scope_revision scope st = Some m \<longrightarrow> n = m + 1" using e(4) n by auto
  assume "tokens_ok st"
  then have ok: "tokens_ok st1" by (rule e(5))
  obtain v where v: "v \<in> set (token_revisions st1)" "rev_scope v = scope" "revision v = c"
    using scope_revision_mem [OF e(1)] by blast
  then have c0: "0 \<le> c" using ok by (auto simp: tokens_ok_def)
  let ?f = "\<lambda>v. v\<lparr>revision := n\<rparr>"
  let ?p = "\<lambda>v. rev_scope v = scope"
  have uniq: "revision u = c" if "u \<in> set (token_revisions st1)" "rev_scope u = scope" for u
    using scope_revision_unique [OF ok that(1)] that(2) e(1) by simp
  have rows: "\<exists>u \<in> set (update_where ?p ?f (token_revisions st1)).
      rev_scope u = grain_scope (grain r) \<and> row_revision r \<le> revision u" if "r \<in> set (token_usage st1)" for r
  proof (rule update_where_ex)
    show "\<exists>u \<in> set (token_revisions st1). rev_scope u = grain_scope (grain r) \<and> row_revision r \<le> revision u"
      using ok that by (auto simp: tokens_ok_def)
  next
    fix u assume u: "u \<in> set (token_revisions st1)" "rev_scope u = grain_scope (grain r) \<and> row_revision r \<le> revision u"
      "rev_scope u = scope"
    then show "rev_scope (?f u) = grain_scope (grain r) \<and> row_revision r \<le> revision (?f u)"
      using uniq n by (auto simp: rev_scope_def)
  qed
  have "map rev_scope (update_where ?p ?f (token_revisions st1)) = map rev_scope (token_revisions st1)"
    by (rule map_update_where) (simp add: rev_scope_def)
  moreover have "\<forall>v \<in> set (update_where ?p ?f (token_revisions st1)). 0 \<le> revision v"
    by (rule update_where_all) (use ok c0 n in \<open>auto simp: tokens_ok_def\<close>)
  ultimately have "tokens_ok st'"
    using ok rows by (simp add: tokens_ok_def st' set_revision_def)
  then show "tokens_ok st' \<and> 0 < n" using c0 n by simp
qed

lemma upsert_grain_effect:
  assumes "upsert_token_at_revision x g rv False st = Inr (u, st')"
  shows "token_revisions st' = token_revisions st" "stored_grain g st'"
    and "\<forall>h. token_key h \<noteq> token_key g \<longrightarrow> stored_grain h st' = stored_grain h st"
    and "\<forall>h. token_key h \<noteq> token_key g \<longrightarrow>
           find (has_key h) (token_usage st') = find (has_key h) (token_usage st)"
    and "\<exists>r. find (has_key g) (token_usage st') = Some r \<and> grain r = g \<and> row_revision r = rv"
    and "tokens_ok st \<Longrightarrow> scope_revision (grain_scope g) st = Some m \<Longrightarrow> rv \<le> m \<Longrightarrow> tokens_ok st'"
proof -
  let ?f = "\<lambda>r. r\<lparr>grain := g, updated_at := ext_now x, row_revision := rv\<rparr>"
  let ?row = "\<lparr>grain = g, updated_at = ext_now x, row_revision = rv\<rparr>"
  have st': "st' = st\<lparr>token_usage := upsert_where (has_key g) ?f ?row (token_usage st)\<rparr>"
    using assms by (auto simp: upsert_token_at_revision_def result_simps split: if_splits)
  show rv: "token_revisions st' = token_revisions st" by (simp add: st')
  have "find (has_key g) (upsert_where (has_key g) ?f ?row (token_usage st)) =
      Some (case find (has_key g) (token_usage st) of None \<Rightarrow> ?row | Some r \<Rightarrow> ?f r)"
    by (rule find_upsert_where) (simp_all add: has_key_def)
  then show e: "\<exists>r. find (has_key g) (token_usage st') = Some r \<and> grain r = g \<and> row_revision r = rv"
    by (auto simp: st' split: option.splits)
  then show "stored_grain g st'" by (auto simp: stored_grain_def)
  have o: "find (has_key h) (upsert_where (has_key g) ?f ?row (token_usage st)) = find (has_key h) (token_usage st)"
    if "token_key h \<noteq> token_key g" for h
    using that by (intro find_upsert_other) (auto simp: has_key_def)
  then show "\<forall>h. token_key h \<noteq> token_key g \<longrightarrow>
      find (has_key h) (token_usage st') = find (has_key h) (token_usage st)"
    by (simp add: st')
  then show "\<forall>h. token_key h \<noteq> token_key g \<longrightarrow> stored_grain h st' = stored_grain h st"
    by (simp add: stored_grain_def)
  assume ok: "tokens_ok st" and m: "scope_revision (grain_scope g) st = Some m" "rv \<le> m"
  have "distinct (map (\<lambda>r. token_key (grain r)) (upsert_where (has_key g) ?f ?row (token_usage st)))"
    by (rule upsert_where_distinct) (use ok in \<open>simp_all add: tokens_ok_def has_key_def\<close>)
  moreover have "\<forall>r \<in> set (upsert_where (has_key g) ?f ?row (token_usage st)). \<exists>v \<in> set (token_revisions st).
      rev_scope v = grain_scope (grain r) \<and> row_revision r \<le> revision v"
  proof -
    have "\<exists>v \<in> set (token_revisions st). rev_scope v = grain_scope g \<and> rv \<le> revision v"
      using scope_revision_mem [OF m(1)] m(2) by blast
    then show ?thesis by (intro upsert_where_all) (use ok in \<open>auto simp: tokens_ok_def\<close>)
  qed
  ultimately show "tokens_ok st'" using ok by (simp add: tokens_ok_def st')
qed

section \<open>Batches\<close>

lemma changed_grains_filter:
  assumes "changed_grains st gs = Inr ch"
  shows "ch = filter (\<lambda>g. \<not> stored_grain g st) gs" "\<forall>g \<in> set gs. is_ok (token_columns g)"
proof -
  have "try_map (\<lambda>g. map_ok (Pair g) (token_matches g st)) gs = Inr ms \<Longrightarrow>
      ms = map (\<lambda>g. (g, stored_grain g st)) gs \<and> (\<forall>g \<in> set gs. is_ok (token_columns g))" for ms
  proof (induction gs arbitrary: ms)
    case (Cons g gs)
    then obtain b ms' where b: "token_matches g st = Inr b" "ms = (g, b) # ms'"
      "try_map (\<lambda>g. map_ok (Pair g) (token_matches g st)) gs = Inr ms'"
      by (auto simp: result_simps)
    then show ?case
      using Cons.IH [OF b(3)] token_matches_stored [OF b(1)]
      by (auto simp: token_matches_def result_simps)
  qed simp
  moreover obtain ms where "try_map (\<lambda>g. map_ok (Pair g) (token_matches g st)) gs = Inr ms"
    "ch = map fst (filter (\<lambda>p. \<not> snd p) ms)"
    using assms by (auto simp: changed_grains_def result_simps)
  ultimately show "ch = filter (\<lambda>g. \<not> stored_grain g st) gs" "\<forall>g \<in> set gs. is_ok (token_columns g)"
    by (auto simp: filter_map comp_def)
qed

lemma changed_grains_none:
  assumes "\<forall>g \<in> set gs. is_ok (token_columns g) \<and> stored_grain g st"
  shows "changed_grains st gs = Inr []"
proof -
  have "token_matches g st = Inr True" if "g \<in> set gs" for g
    using assms that token_matches_Inr [of g] by (auto simp: result_simps)
  then have "try_map (\<lambda>g. map_ok (Pair g) (token_matches g st)) gs = Inr (map (\<lambda>g. (g, True)) gs)"
    by (intro try_map_ok_all) simp
  then show ?thesis by (simp add: changed_grains_def filter_map comp_def)
qed

lemma write_changed_effect:
  assumes "try_fold (\<lambda>g s. map_ok snd (upsert_token_at_revision x g rv False s)) ch st = Inr st'"
    and "distinct (map token_key ch)"
  shows "token_revisions st' = token_revisions st \<and> (\<forall>g \<in> set ch. stored_grain g st')
    \<and> (\<forall>h. token_key h \<notin> token_key ` set ch \<longrightarrow> stored_grain h st' = stored_grain h st)"
  using assms
proof (induction ch arbitrary: st)
  case (Cons g ch)
  then obtain u s1 where g: "upsert_token_at_revision x g rv False st = Inr (u, s1)"
    and r: "try_fold (\<lambda>g s. map_ok snd (upsert_token_at_revision x g rv False s)) ch s1 = Inr st'"
    by (auto simp: result_simps)
  note e = upsert_grain_effect(1-3) [OF g]
  have "token_revisions st' = token_revisions s1 \<and> (\<forall>g \<in> set ch. stored_grain g st')
    \<and> (\<forall>h. token_key h \<notin> token_key ` set ch \<longrightarrow> stored_grain h st' = stored_grain h s1)"
    using Cons.IH [OF r] Cons.prems(2) by simp
  then show ?case using e Cons.prems(2) by auto
qed simp

lemma write_changed_ok:
  assumes "try_fold (\<lambda>g s. map_ok snd (upsert_token_at_revision x g rv False s)) ch st = Inr st'"
    and "tokens_ok st" and "scope_revision sc st = Some rv" and "\<forall>g \<in> set ch. grain_scope g = sc"
  shows "tokens_ok st'"
proof -
  have "tokens_ok st' \<and> scope_revision sc st' = Some rv"
  proof (rule try_fold_invariant [OF assms(1), of "\<lambda>s. tokens_ok s \<and> scope_revision sc s = Some rv"])
    show "tokens_ok st \<and> scope_revision sc st = Some rv" using assms(2,3) by simp
  next
    fix g s t assume g: "g \<in> set ch" "tokens_ok s \<and> scope_revision sc s = Some rv"
      "map_ok snd (upsert_token_at_revision x g rv False s) = Inr t"
    then obtain u where u: "upsert_token_at_revision x g rv False s = Inr (u, t)" by (auto simp: result_simps)
    have "grain_scope g = sc" using assms(4) g(1) by blast
    then have "tokens_ok t" using upsert_grain_effect(6) [OF u] g(2) by auto
    then show "tokens_ok t \<and> scope_revision sc t = Some rv"
      using g(2) upsert_grain_effect(1) [OF u] by (simp add: scope_revision_def)
  qed
  then show ?thesis ..
qed

lemma key_scope: "token_key g = token_key h \<Longrightarrow> grain_scope g = grain_scope h"
  by (simp add: token_key_def)

text \<open>What one scope of a batch does: every row of the scope is stored, other scopes keep theirs.\<close>

lemma write_scope_effect:
  assumes w: "write_scope x gs sc st = Inr st'" and d: "distinct (map token_key gs)"
  shows "\<forall>g \<in> set gs. grain_scope g = sc \<longrightarrow> stored_grain g st' \<and> is_ok (token_columns g)"
    and "\<forall>h. grain_scope h \<noteq> sc \<longrightarrow> stored_grain h st' = stored_grain h st"
    and "\<forall>t. t \<noteq> sc \<longrightarrow> scope_revision t st' = scope_revision t st"
    and "\<forall>n. scope_revision sc st = Some n \<longrightarrow> (\<exists>m. scope_revision sc st' = Some m \<and> n \<le> m)"
    and "tokens_ok st \<Longrightarrow> tokens_ok st'"
proof -
  let ?rows = "filter (\<lambda>g. grain_scope g = sc) gs"
  define ch where "ch = filter (\<lambda>g. \<not> stored_grain g st) ?rows"
  obtain c where "changed_grains st ?rows = Inr c" using w by (auto simp: write_scope_def result_simps)
  then have c: "changed_grains st ?rows = Inr ch" and cols: "\<forall>g \<in> set ?rows. is_ok (token_columns g)"
    using changed_grains_filter [of st ?rows c] by (simp_all add: ch_def)
  have sc: "\<forall>g \<in> set ch. grain_scope g = sc" by (simp add: ch_def)
  have dch: "distinct (map token_key ch)" using d by (simp add: ch_def distinct_map_filter)
  have "(ch = [] \<and> st' = st) \<or> (\<exists>rv s1. allocate_token_revision sc st = Inr (rv, s1)
      \<and> try_fold (\<lambda>g s. map_ok snd (upsert_token_at_revision x g rv False s)) ch s1 = Inr st')"
    using w c by (auto simp: write_scope_def result_simps split: if_splits)
  then consider (none) "ch = []" "st' = st"
    | (some) rv s1 where "allocate_token_revision sc st = Inr (rv, s1)"
        "try_fold (\<lambda>g s. map_ok snd (upsert_token_at_revision x g rv False s)) ch s1 = Inr st'" by blast
  then have "(\<forall>g \<in> set gs. grain_scope g = sc \<longrightarrow> stored_grain g st' \<and> is_ok (token_columns g))
    \<and> (\<forall>h. grain_scope h \<noteq> sc \<longrightarrow> stored_grain h st' = stored_grain h st)
    \<and> (\<forall>t. t \<noteq> sc \<longrightarrow> scope_revision t st' = scope_revision t st)
    \<and> (\<forall>n. scope_revision sc st = Some n \<longrightarrow> (\<exists>m. scope_revision sc st' = Some m \<and> n \<le> m))
    \<and> (tokens_ok st \<longrightarrow> tokens_ok st')"
  proof cases
    case none
    then have "\<forall>g \<in> set ?rows. stored_grain g st" by (auto simp: ch_def filter_empty_conv)
    then show ?thesis using none cols by auto
  next
    case some
    note a = allocate_effect [OF some(1)] and f = write_changed_effect [OF some(2) dch]
    have same: "stored_grain h s1 = stored_grain h st" for h using a(2) by (simp add: stored_grain_def)
    have rv: "scope_revision t st' = scope_revision t s1" for t using f by (simp add: scope_revision_def)
    have st: "stored_grain g st'" if "g \<in> set gs" "grain_scope g = sc" for g
    proof (cases "g \<in> set ch")
      case True
      then show ?thesis using f by blast
    next
      case False
      then have g: "stored_grain g st" using that by (simp add: ch_def)
      have "token_key g \<notin> token_key ` set ch"
      proof
        assume "token_key g \<in> token_key ` set ch"
        then obtain h where h: "h \<in> set ch" "token_key g = token_key h" by blast
        then have "h \<in> set gs" by (simp add: ch_def)
        have "inj_on token_key (set gs)" using d by (simp add: distinct_map)
        then have "h = g" using \<open>h \<in> set gs\<close> that(1) h(2) by (auto dest: inj_onD)
        then show False using h(1) False by simp
      qed
      then show ?thesis using f [THEN conjunct2, THEN conjunct2] g same by simp
    qed
    have "stored_grain h st' = stored_grain h st" if "grain_scope h \<noteq> sc" for h
    proof -
      have "token_key h \<notin> token_key ` set ch"
      proof
        assume "token_key h \<in> token_key ` set ch"
        then obtain g where "g \<in> set ch" "token_key h = token_key g" by blast
        then show False using that sc key_scope [of h g] by simp
      qed
      then show ?thesis using f [THEN conjunct2, THEN conjunct2] same by simp
    qed
    moreover have "tokens_ok st'" if "tokens_ok st"
      using write_changed_ok [OF some(2) _ a(1) sc] a(5) [OF that] by blast
    moreover have "\<forall>g \<in> set gs. grain_scope g = sc \<longrightarrow> is_ok (token_columns g)" using cols by simp
    moreover have "\<forall>t. t \<noteq> sc \<longrightarrow> scope_revision t st' = scope_revision t st" using a(3) rv by simp
    moreover have "\<forall>n. scope_revision sc st = Some n \<longrightarrow> (\<exists>m. scope_revision sc st' = Some m \<and> n \<le> m)"
      using a(1,4) rv by simp
    ultimately show ?thesis using st by blast
  qed
  then show "\<forall>g \<in> set gs. grain_scope g = sc \<longrightarrow> stored_grain g st' \<and> is_ok (token_columns g)"
    "\<forall>h. grain_scope h \<noteq> sc \<longrightarrow> stored_grain h st' = stored_grain h st"
    "\<forall>t. t \<noteq> sc \<longrightarrow> scope_revision t st' = scope_revision t st"
    "\<forall>n. scope_revision sc st = Some n \<longrightarrow> (\<exists>m. scope_revision sc st' = Some m \<and> n \<le> m)"
    "tokens_ok st \<Longrightarrow> tokens_ok st'"
    by blast+
qed

lemma write_scope_bumps:
  assumes w: "write_scope x gs sc st = Inr st'" and g: "g \<in> set gs" "grain_scope g = sc" "\<not> stored_grain g st"
    and n: "scope_revision sc st = Some n"
  shows "scope_revision sc st' = Some (n + 1)"
proof -
  let ?rows = "filter (\<lambda>g. grain_scope g = sc) gs"
  obtain ch where c: "changed_grains st ?rows = Inr ch" using w by (auto simp: write_scope_def result_simps)
  have "g \<in> set (filter (\<lambda>g. \<not> stored_grain g st) ?rows)" using g by simp
  then have "g \<in> set ch" using changed_grains_filter(1) [OF c] by simp
  then have "ch \<noteq> []" by auto
  then obtain rv s1 where a: "allocate_token_revision sc st = Inr (rv, s1)"
    and f: "try_fold (\<lambda>g s. map_ok snd (upsert_token_at_revision x g rv False s)) ch s1 = Inr st'"
    using w c by (auto simp: write_scope_def result_simps)
  have "token_revisions st' = token_revisions s1"
    by (rule try_fold_invariant [OF f]) (auto simp: result_simps dest: upsert_grain_effect(1))
  then show ?thesis using allocate_effect(1,4) [OF a] n by (simp add: scope_revision_def)
qed

lemma batch_scopes_set [simp]: "set (batch_scopes gs) = grain_scope ` set gs"
  by (simp add: batch_scopes_def)

lemma batch_scopes_distinct: "distinct (batch_scopes gs)"
  by (simp add: batch_scopes_def)

lemma fold_scopes_effect:
  assumes "try_fold (write_scope x gs) scs st = Inr st'" and "distinct (map token_key gs)" and "distinct scs"
  shows "(\<forall>g \<in> set gs. grain_scope g \<in> set scs \<longrightarrow> stored_grain g st' \<and> is_ok (token_columns g))
    \<and> (\<forall>h. grain_scope h \<notin> set scs \<longrightarrow> stored_grain h st' = stored_grain h st)
    \<and> (\<forall>t. t \<notin> set scs \<longrightarrow> scope_revision t st' = scope_revision t st)
    \<and> (\<forall>t n. scope_revision t st = Some n \<longrightarrow> (\<exists>m. scope_revision t st' = Some m \<and> n \<le> m))
    \<and> (tokens_ok st \<longrightarrow> tokens_ok st')"
  using assms(1,3)
proof (induction scs arbitrary: st)
  case Nil
  then show ?case by simp
next
  case (Cons sc scs)
  then obtain s1 where w: "write_scope x gs sc st = Inr s1"
    and r: "try_fold (write_scope x gs) scs s1 = Inr st'" by (auto simp: result_simps)
  note e = write_scope_effect [OF w assms(2)]
  have d: "sc \<notin> set scs" "distinct scs" using Cons.prems(2) by simp_all
  note IH = Cons.IH [OF r d(2)]
  show ?case
  proof (intro conjI)
    show "\<forall>g \<in> set gs. grain_scope g \<in> set (sc # scs) \<longrightarrow> stored_grain g st' \<and> is_ok (token_columns g)"
      using IH e(1) d(1) by simp
    show "\<forall>h. grain_scope h \<notin> set (sc # scs) \<longrightarrow> stored_grain h st' = stored_grain h st"
      using IH e(2) by simp
    show "\<forall>t. t \<notin> set (sc # scs) \<longrightarrow> scope_revision t st' = scope_revision t st"
      using IH e(3) by simp
    show "\<forall>t n. scope_revision t st = Some n \<longrightarrow> (\<exists>m. scope_revision t st' = Some m \<and> n \<le> m)"
    proof (intro allI impI)
      fix t n assume n: "scope_revision t st = Some n"
      then obtain m where m: "scope_revision t s1 = Some m" "n \<le> m"
        using e(3,4) by (cases "t = sc") auto
      then show "\<exists>m. scope_revision t st' = Some m \<and> n \<le> m"
        using IH by (meson order.trans)
    qed
    show "tokens_ok st \<longrightarrow> tokens_ok st'" using IH e(5) by blast
  qed
qed

lemma batch_fold:
  "upsert_token_batch x gs st = Inr (u, st') \<longleftrightarrow>
     (\<forall>g \<in> set gs. grain_validate x g = Inr ()) \<and> try_fold (write_scope x gs) (batch_scopes gs) st = Inr st'"
  by (auto simp: upsert_token_batch_def result_simps)

lemma batch_bumps:
  assumes "try_fold (write_scope x gs) scs st = Inr st'" and "distinct (map token_key gs)" and "distinct scs"
    and "g \<in> set gs" "grain_scope g \<in> set scs" "\<not> stored_grain g st" "scope_revision (grain_scope g) st = Some n"
  shows "scope_revision (grain_scope g) st' = Some (n + 1)"
  using assms(1,3-)
proof (induction scs arbitrary: st)
  case Nil
  then show ?case by simp
next
  case (Cons sc scs)
  then obtain s1 where w: "write_scope x gs sc st = Inr s1"
    and r: "try_fold (write_scope x gs) scs s1 = Inr st'" by (auto simp: result_simps)
  note e = write_scope_effect [OF w assms(2)]
  show ?case
  proof (cases "grain_scope g = sc")
    case True
    then have "scope_revision sc s1 = Some (n + 1)"
      using write_scope_bumps [OF w Cons.prems(3)] Cons.prems(5,6) by simp
    moreover have "sc \<notin> set scs" "distinct scs" using Cons.prems(2) by simp_all
    then have "scope_revision sc st' = scope_revision sc s1"
      using fold_scopes_effect [OF r assms(2), THEN conjunct2, THEN conjunct2, THEN conjunct1] by blast
    ultimately show ?thesis using True by simp
  next
    case False
    then have "\<not> stored_grain g s1" "scope_revision (grain_scope g) s1 = Some n"
      using e(2) e(3) [rule_format, of "grain_scope g"] Cons.prems(5,6) by simp_all
    then show ?thesis using Cons.IH [OF r _ Cons.prems(3)] Cons.prems(2,4) False by simp
  qed
qed

section \<open>Properties\<close>

lemma write_scope_unchanged:
  assumes "\<forall>g \<in> set gs. grain_scope g = sc \<longrightarrow> is_ok (token_columns g) \<and> stored_grain g st"
  shows "write_scope x gs sc st = Inr st"
  using changed_grains_none [of "filter (\<lambda>g. grain_scope g = sc) gs" st] assms
  by (simp add: write_scope_def)

lemma batch_unchanged:
  assumes "\<forall>g \<in> set gs. is_ok (token_columns g) \<and> stored_grain g st"
  shows "try_fold (write_scope x gs) scs st = Inr st"
  using write_scope_unchanged [of gs _ st x] assms by (induction scs) auto

text \<open>
  A batch is idempotent: after it succeeded every row of it is stored, and sending the same batch
  again, at whatever time, succeeds and changes nothing, not even a write revision.
\<close>

theorem token_batch_idempotent:
  assumes "upsert_token_batch x gs st = Inr (u, st1)" and "distinct (map token_key gs)"
  shows "(\<forall>g \<in> set gs. stored_grain g st1)
    \<and> upsert_token_batch (x\<lparr>ext_now := later\<rparr>) gs st1 = Inr ((), st1)"
proof -
  have v: "\<forall>g \<in> set gs. grain_validate x g = Inr ()"
    and f: "try_fold (write_scope x gs) (batch_scopes gs) st = Inr st1"
    using assms(1) by (simp_all add: batch_fold)
  have s: "\<forall>g \<in> set gs. is_ok (token_columns g) \<and> stored_grain g st1"
    using fold_scopes_effect [OF f assms(2) batch_scopes_distinct] by simp
  then show ?thesis using v batch_unchanged [OF s] by (simp add: batch_fold)
qed

text \<open>
  A successful batch keeps the token tables well formed (unique keys, no row newer than the
  revision of its scope), never lowers a write revision, and takes exactly one new revision in a
  scope it changes.
\<close>

theorem token_batch_revisions:
  assumes "upsert_token_batch x gs st = Inr (u, st')" and "distinct (map token_key gs)" and "tokens_ok st"
  shows "tokens_ok st'
    \<and> (\<forall>t n. scope_revision t st = Some n \<longrightarrow> (\<exists>m. scope_revision t st' = Some m \<and> n \<le> m))
    \<and> (\<forall>g \<in> set gs. \<forall>n. \<not> stored_grain g st \<longrightarrow> scope_revision (grain_scope g) st = Some n \<longrightarrow>
         scope_revision (grain_scope g) st' = Some (n + 1))"
proof -
  have f: "try_fold (write_scope x gs) (batch_scopes gs) st = Inr st'" using assms(1) by (simp add: batch_fold)
  have "\<forall>g \<in> set gs. \<forall>n. \<not> stored_grain g st \<longrightarrow> scope_revision (grain_scope g) st = Some n \<longrightarrow>
         scope_revision (grain_scope g) st' = Some (n + 1)"
    using batch_bumps [OF f assms(2) batch_scopes_distinct] by simp
  then show ?thesis using fold_scopes_effect [OF f assms(2) batch_scopes_distinct] assms(3) by blast
qed

lemma allocate_bound: "allocate_token_revision scope st = Inr (n, st') \<Longrightarrow> i64_ok n"
  by (auto simp: allocate_token_revision_def result_simps split: option.splits if_splits)

lemma begin_observation_effect:
  assumes "begin_token_observation (a, p, m) st = Inr (ob, st')"
  shows "scope_revision (a, p, m) st' = Some (int (obs_revision ob))" "token_usage st' = token_usage st"
    and "(obs_account ob, obs_profile ob, obs_machine ob) = (a, p, m)"
    and "\<forall>n. scope_revision (a, p, m) st = Some n \<longrightarrow> int (obs_revision ob) = n + 1"
    and "i64_ok (int (obs_revision ob))"
    and "tokens_ok st \<Longrightarrow> tokens_ok st' \<and> 0 < obs_revision ob"
proof -
  obtain n where al: "allocate_token_revision (a, p, m) st = Inr (n, st')" and n: "0 \<le> n"
    and ob: "ob = \<lparr>obs_account = a, obs_profile = p, obs_machine = m, obs_revision = nat n\<rparr>"
    using assms by (auto simp: begin_token_observation_def as_u64_def result_simps split: if_splits)
  note e = allocate_effect [OF al]
  show "scope_revision (a, p, m) st' = Some (int (obs_revision ob))" "token_usage st' = token_usage st"
    "(obs_account ob, obs_profile ob, obs_machine ob) = (a, p, m)"
    using e(1,2) n ob by simp_all
  show "i64_ok (int (obs_revision ob))" using allocate_bound [OF al] n ob by simp
  show "\<forall>n. scope_revision (a, p, m) st = Some n \<longrightarrow> int (obs_revision ob) = n + 1"
    using e(4) n ob by auto
  assume "tokens_ok st"
  then show "tokens_ok st' \<and> 0 < obs_revision ob" using e(5) ob by simp
qed

text \<open>
  A stale observation writes nothing: when another batch changed a row of the scope after the
  observation reserved its revision, every write of the observation is refused.
\<close>

theorem stale_observation_rejected:
  assumes "begin_token_observation (a, p, m) st = Inr (ob, st1)"
    and "upsert_token_batch x gs st1 = Inr (u, st2)" and "distinct (map token_key gs)"
    and "g \<in> set gs" and "grain_scope g = (a, p, m)" and "\<not> stored_grain g st1"
  shows "\<exists>e. upsert_observed_token_grain y ob h st2 = Inl e
    \<and> (validate_token_observation y ob h = Inr () \<longrightarrow> err_kind e = Conflict)"
proof -
  note ob = begin_observation_effect [OF assms(1)]
  have f: "try_fold (write_scope x gs) (batch_scopes gs) st1 = Inr st2" using assms(2) by (simp add: batch_fold)
  have "grain_scope g \<in> set (batch_scopes gs)" using assms(4) by simp
  then have "scope_revision (a, p, m) st2 = Some (int (obs_revision ob) + 1)"
    using batch_bumps [OF f assms(3) batch_scopes_distinct assms(4) _ assms(6)] ob(1) assms(5) by simp
  then have w: "token_write_revision (a, p, m) st2 = Inr (int (obs_revision ob) + 1, st2)"
    by (auto simp: scope_revision_def token_write_revision_def split: option.splits)
  have k: "err_kind (new_error Conflict s) = Conflict" for s by (simp add: new_error_def)
  show ?thesis
    using w ob(3,5) k
    by (cases "validate_token_observation y ob h")
      (auto simp: upsert_observed_token_grain_def checked_i64_def)
qed

text \<open>
  A current observation is honoured: while no other writer takes a revision in its scope, a valid
  grain of the scope is accepted, the stored row becomes the grain, and it carries the reserved
  revision.
\<close>

theorem current_observation_accepted:
  assumes "tokens_ok st" and "begin_token_observation (a, p, m) st = Inr (ob, st1)"
    and "validate_token_observation x ob g = Inr ()" and "is_ok (token_columns g)"
    and "profile_exists a p st1" and "machine_exists a m st1"
  shows "\<exists>st2 r. upsert_observed_token_grain x ob g st1 = Inr ((), st2)
    \<and> find (has_key g) (token_usage st2) = Some r \<and> grain r = g \<and> row_revision r = int (obs_revision ob)"
proof -
  note ob = begin_observation_effect [OF assms(2)]
  let ?n = "int (obs_revision ob)"
  let ?f = "\<lambda>r. if True \<and> \<not> row_revision r < ?n then r
      else r\<lparr>grain := g, updated_at := ext_now x, row_revision := ?n\<rparr>"
  let ?row = "\<lparr>grain = g, updated_at = ext_now x, row_revision = ?n\<rparr>"
  have sc: "grain_scope g = (a, p, m)" and v: "grain_validate x g = Inr ()"
    using assms(3) ob(3) by (auto simp: validate_token_observation_def result_simps split: if_splits)
  have acct: "tok_account g = a" "tok_profile g = p" "tok_machine g = m" using sc by (simp_all add: grain_scope_def)
  have w: "token_write_revision (a, p, m) st1 = Inr (?n, st1)"
    using ob(1) by (auto simp: scope_revision_def token_write_revision_def split: option.splits)
  note i = ob(5)
  let ?st2 = "st1\<lparr>token_usage := upsert_where (has_key g) ?f ?row (token_usage st1)\<rparr>"
  have up: "upsert_token_at_revision x g ?n True st1 = Inr ((), ?st2)"
    using v assms(4-6) acct by (auto simp: upsert_token_at_revision_def result_simps)
  then have u: "upsert_observed_token_grain x ob g st1 = Inr ((), ?st2)"
    using assms(3) w ob(3) i by (simp add: upsert_observed_token_grain_def checked_i64_def)
  have "find (has_key g) (upsert_where (has_key g) ?f ?row (token_usage st1)) =
      Some (case find (has_key g) (token_usage st1) of None \<Rightarrow> ?row | Some r \<Rightarrow> ?f r)"
    by (rule find_upsert_where) (simp_all add: has_key_def)
  moreover have "row_revision r < ?n" if "find (has_key g) (token_usage st1) = Some r" for r
  proof -
    have r: "r \<in> set (token_usage st)" "grain_scope (grain r) = (a, p, m)"
      using find_Some_mem [OF that] ob(2) sc by (auto simp: has_key_def token_key_def)
    then obtain t where t: "t \<in> set (token_revisions st)" "rev_scope t = (a, p, m)" "row_revision r \<le> revision t"
      using assms(1) by (fastforce simp: tokens_ok_def)
    then have "scope_revision (a, p, m) st = Some (revision t)"
      using scope_revision_unique [OF assms(1) t(1)] by simp
    then show ?thesis using ob(4) t(3) by auto
  qed
  ultimately show ?thesis using u by (auto split: option.splits)
qed

section \<open>An example\<close>

definition token_example_store :: store where
  "token_example_store =
     empty_store\<lparr>accounts := [\<lparr>acct_id = 1, identity = ''me'', acct_display_name = None\<rparr>],
       machines := [\<lparr>mach_account = 1, mach_name = ''host'', first_seen = 0, last_seen = 0\<rparr>],
       profiles := [example_profile]\<rparr>"

definition example_extern :: token_extern where
  "example_extern = \<lparr>ext_sha256 = (\<lambda>_. ''hash''), ext_parse_date = (\<lambda>_. Inr ()), ext_now = 5\<rparr>"

definition example_grain :: "nat \<Rightarrow> token_grain" where
  "example_grain n =
     \<lparr>tok_account = 1, tok_profile = ''deepseek'', tok_machine = ''host'', tok_session = ''s'',
      tok_model = ''m'', tok_settings = default_agent_settings, settings_hash = ''hash'',
      tok_day = ''2026-01-01'', tokens_in = n, tokens_out = 0, cache_write_5m = 0, cache_write_1h = 0,
      cache_read = 0, tok_source = LocalSource\<rparr>"

lemma example_grain_valid: "grain_validate (example_extern\<lparr>ext_now := t\<rparr>) (example_grain n) = Inr ()"
  by (simp add: token_grain_validate_def example_grain_def example_extern_def validate_text_def
      has_control_def is_trimmed_def code_points_def is_control_def is_whitespace_def byte_of_def)

lemma example_extern_id: "example_extern\<lparr>ext_now := 5\<rparr> = example_extern"
  by (simp add: example_extern_def)

lemmas example_grain_validE = example_grain_valid [of 5, unfolded example_extern_id]

lemma example_columns: "n < 100 \<Longrightarrow> is_ok (token_columns (example_grain n))"
  by (simp add: token_columns_def as_i64_def example_grain_def i64_max_def)

lemma example_scope [simp]: "grain_scope (example_grain n) = (1, ''deepseek'', ''host'')"
  by (simp add: grain_scope_def example_grain_def)

lemma example_fk:
  "profiles st = profiles token_example_store \<Longrightarrow> profile_exists 1 ''deepseek'' st"
  "machines st = machines token_example_store \<Longrightarrow> machine_exists 1 ''host'' st"
  by (simp_all add: profile_exists_def machine_exists_def exists_where_def token_example_store_def
      example_profile_def)

lemma token_example_ok: "tokens_ok token_example_store"
  by (simp add: tokens_ok_def token_example_store_def empty_store_def)

definition example_revision :: "int \<Rightarrow> token_revision_row" where
  "example_revision n = \<lparr>rev_account = 1, rev_profile = ''deepseek'', rev_machine = ''host'', revision = n\<rparr>"

lemma example_rev_scope [simp]: "rev_scope (example_revision n) = (1, ''deepseek'', ''host'')"
  by (simp add: rev_scope_def example_revision_def)

lemma example_revision_simps [simp]:
  "revision (example_revision n) = n" "(example_revision n)\<lparr>revision := m\<rparr> = example_revision m"
  by (simp_all add: example_revision_def)

lemma one_ok [simp]: "checked_i64 1 = Some 1" "checked_i64 2 = Some 2"
  by (simp_all add: i64_ok_def i64_max_def i64_min_def)

lemma write_revision_example:
  "token_write_revision (1, ''deepseek'', ''host'') token_example_store =
     Inr (0, token_example_store\<lparr>token_revisions := [example_revision 0]\<rparr>)"
proof -
  have "profile_exists 1 ''deepseek'' token_example_store" "machine_exists 1 ''host'' token_example_store"
    by (simp_all add: example_fk)
  moreover have "token_revisions token_example_store = []" by (simp add: token_example_store_def empty_store_def)
  ultimately show ?thesis by (simp add: token_write_revision_def example_revision_def)
qed

lemma allocate_example:
  "allocate_token_revision (1, ''deepseek'', ''host'') token_example_store =
     Inr (1, token_example_store\<lparr>token_revisions := [example_revision 1]\<rparr>)"
  unfolding allocate_token_revision_def write_revision_example and_then_simps prod.case
  by (simp add: set_revision_def)

lemma begin_example:
  "begin_token_observation (1, ''deepseek'', ''host'') token_example_store =
     Inr (\<lparr>obs_account = 1, obs_profile = ''deepseek'', obs_machine = ''host'', obs_revision = 1\<rparr>,
          token_example_store\<lparr>token_revisions := [example_revision 1]\<rparr>)"
  by (simp add: begin_token_observation_def allocate_example as_u64_def)

lemma allocate_example2:
  "allocate_token_revision (1, ''deepseek'', ''host'') (token_example_store\<lparr>token_revisions := [example_revision 1]\<rparr>) =
     Inr (2, token_example_store\<lparr>token_revisions := [example_revision 2]\<rparr>)"
proof -
  have "token_write_revision (1, ''deepseek'', ''host'') (token_example_store\<lparr>token_revisions := [example_revision 1]\<rparr>) =
      Inr (1, token_example_store\<lparr>token_revisions := [example_revision 1]\<rparr>)"
    by (simp add: token_write_revision_def)
  then show ?thesis unfolding allocate_token_revision_def by (simp add: set_revision_def)
qed

lemma batch_example:
  assumes "st = token_example_store\<lparr>token_revisions := revs\<rparr>"
    and "allocate_token_revision (1, ''deepseek'', ''host'') st = Inr (n, token_example_store\<lparr>token_revisions := revs'\<rparr>)"
  shows "\<exists>st1. upsert_token_batch example_extern [example_grain 7] st = Inr ((), st1)"
proof -
  have u: "token_usage token_example_store = []" by (simp add: token_example_store_def empty_store_def)
  obtain c where c: "token_columns (example_grain 7) = Inr c" using example_columns [of 7] by (auto simp: result_simps)
  have m: "token_matches (example_grain 7) st = Inr False"
    using token_matches_Inr [OF c, of st] assms(1) u by (simp add: stored_grain_def)
  then have ch: "changed_grains st [example_grain 7] = Inr [example_grain 7]" by (simp add: changed_grains_def)
  have fk: "tok_account (example_grain 7) = 1" "tok_profile (example_grain 7) = ''deepseek''"
    "tok_machine (example_grain 7) = ''host''" by (simp_all add: example_grain_def)
  have "\<exists>s. upsert_token_at_revision example_extern (example_grain 7) n False
      (token_example_store\<lparr>token_revisions := revs'\<rparr>) = Inr ((), s)"
    using example_grain_validE [of 7] c by (simp add: upsert_token_at_revision_def fk example_fk)
  then obtain s where s: "upsert_token_at_revision example_extern (example_grain 7) n False
      (token_example_store\<lparr>token_revisions := revs'\<rparr>) = Inr ((), s)" by blast
  have b: "batch_scopes [example_grain 7] = [(1, ''deepseek'', ''host'')]" by (simp add: batch_scopes_def)
  have "write_scope example_extern [example_grain 7] (1, ''deepseek'', ''host'') st = Inr s"
    using ch assms(2) s by (simp add: write_scope_def)
  then show ?thesis using example_grain_validE [of 7] b by (simp add: batch_fold)
qed

lemma batch_example_fresh:
  "\<exists>st1. upsert_token_batch example_extern [example_grain 7] token_example_store = Inr ((), st1)"
proof -
  have e: "token_example_store = token_example_store\<lparr>token_revisions := []\<rparr>"
    by (simp add: token_example_store_def empty_store_def)
  show ?thesis by (rule batch_example [OF e allocate_example])
qed

theorem token_batch_idempotent_witness:
  "\<exists>st1. upsert_token_batch example_extern [example_grain 7] token_example_store = Inr ((), st1)
     \<and> stored_grain (example_grain 7) st1
     \<and> upsert_token_batch (example_extern\<lparr>ext_now := 9\<rparr>) [example_grain 7] st1 = Inr ((), st1)"
proof -
  obtain st1 where u: "upsert_token_batch example_extern [example_grain 7] token_example_store = Inr ((), st1)"
    using batch_example_fresh by blast
  from token_batch_idempotent [OF u, of 9] u show ?thesis by simp
qed

theorem token_batch_revisions_witness:
  "\<exists>st1. upsert_token_batch example_extern [example_grain 7] token_example_store = Inr ((), st1) \<and> tokens_ok st1"
proof -
  obtain st1 where u: "upsert_token_batch example_extern [example_grain 7] token_example_store = Inr ((), st1)"
    using batch_example_fresh by blast
  from token_batch_revisions [OF u _ token_example_ok] u show ?thesis by simp
qed

theorem stale_observation_rejected_witness:
  "\<exists>st2 e. upsert_token_batch example_extern [example_grain 7]
       (token_example_store\<lparr>token_revisions := [example_revision 1]\<rparr>) = Inr ((), st2)
     \<and> upsert_observed_token_grain example_extern
         \<lparr>obs_account = 1, obs_profile = ''deepseek'', obs_machine = ''host'', obs_revision = 1\<rparr>
         (example_grain 8) st2 = Inl e \<and> err_kind e = Conflict"
proof -
  let ?st = "token_example_store\<lparr>token_revisions := [example_revision 1]\<rparr>"
  obtain st2 where u: "upsert_token_batch example_extern [example_grain 7] ?st = Inr ((), st2)"
    using batch_example [OF refl allocate_example2] by blast
  have n: "\<not> stored_grain (example_grain 7) ?st"
    by (simp add: stored_grain_def token_example_store_def empty_store_def)
  have v: "validate_token_observation example_extern
      \<lparr>obs_account = 1, obs_profile = ''deepseek'', obs_machine = ''host'', obs_revision = 1\<rparr> (example_grain 8) = Inr ()"
    using example_grain_validE [of 8] by (simp add: validate_token_observation_def) (simp add: example_grain_def)
  from stale_observation_rejected [OF begin_example u _ _ _ n] u v show ?thesis by auto
qed

theorem current_observation_accepted_witness:
  "\<exists>st2 r. upsert_observed_token_grain example_extern
       \<lparr>obs_account = 1, obs_profile = ''deepseek'', obs_machine = ''host'', obs_revision = 1\<rparr>
       (example_grain 8) (token_example_store\<lparr>token_revisions := [example_revision 1]\<rparr>) = Inr ((), st2)
     \<and> find (has_key (example_grain 8)) (token_usage st2) = Some r \<and> row_revision r = 1"
proof -
  have v: "validate_token_observation example_extern
      \<lparr>obs_account = 1, obs_profile = ''deepseek'', obs_machine = ''host'', obs_revision = 1\<rparr> (example_grain 8) = Inr ()"
    using example_grain_validE [of 8] by (simp add: validate_token_observation_def) (simp add: example_grain_def)
  have fk: "profile_exists 1 ''deepseek'' (token_example_store\<lparr>token_revisions := [example_revision 1]\<rparr>)"
    "machine_exists 1 ''host'' (token_example_store\<lparr>token_revisions := [example_revision 1]\<rparr>)"
    by (simp_all add: example_fk)
  have "is_ok (token_columns (example_grain 8))" by (simp add: example_columns)
  from current_observation_accepted [OF token_example_ok begin_example v this fk] show ?thesis by auto
qed

end
