(* ===== verification/Usage_Store.thy ===== *)
theory Usage_Store
  imports Pulse_Tables
begin

text \<open>
  Quota snapshots in \<open>src/src/pulse/store/sqlite.rs\<close>: appending a snapshot with the
  vendor-aware acceptance of each window, and the account-global current view (\<open>current_usage\<close>):
  one card per window kind, the winner by reset time, poll time and id, and the contributing
  machines with the chosen one marked.
\<close>

section \<open>Appending a snapshot\<close>

fun kind_json :: "quota_window_kind \<Rightarrow> string" where
  "kind_json FiveHour = ''\"five_hour\"''"
| "kind_json RollingSevenDay = ''\"rolling_seven_day\"''"
| "kind_json FixedWeekly = ''\"fixed_weekly\"''"
| "kind_json MonthlyBudget = ''\"monthly_budget\"''"

definition reset_jitter_tolerance :: int where
  "reset_jitter_tolerance = 5 * 60 * 1000"

text \<open>The join of \<open>usage_windows\<close> and \<open>usage_snapshots\<close> for one account and profile.\<close>

type_synonym usage_row = "window_row \<times> snapshot_row"

definition usage_rows :: "int \<Rightarrow> string \<Rightarrow> store \<Rightarrow> usage_row list" where
  "usage_rows acct prof st =
     concat (map (\<lambda>w. map (Pair w)
       (filter (\<lambda>s. snap_id s = win_snapshot w \<and> snap_account (snapshot s) = acct
                  \<and> snap_profile (snapshot s) = prof) (usage_snapshots st))) (usage_windows st))"

text \<open>\<open>ORDER BY resets_at_ms DESC, polled_at_ms DESC, id DESC\<close>.\<close>

definition recency :: "usage_row \<Rightarrow> int \<times> int \<times> int" where
  "recency r = (- resets_at (window (fst r)), - polled_at (snapshot (snd r)), - snap_id (snd r))"

definition accepted_kind :: "quota_window_kind \<Rightarrow> usage_row \<Rightarrow> bool" where
  "accepted_kind k r \<longleftrightarrow> win_kind (window (fst r)) = k \<and> accepted (fst r)"

definition previous_window ::
    "int \<Rightarrow> string \<Rightarrow> quota_window_kind \<Rightarrow> store \<Rightarrow> quota_window option" where
  "previous_window acct prof k st =
     (case select_ordered (accepted_kind k) recency 1 (usage_rows acct prof st) of
        [] \<Rightarrow> None
      | r # _ \<Rightarrow> Some (window (fst r)))"

definition window_is_accepted :: "vendor \<Rightarrow> quota_window \<Rightarrow> int \<Rightarrow> rat \<Rightarrow> bool" where
  "window_is_accepted v w old_reset old_percent =
     (if resets_at w < saturate_i64 (old_reset - reset_jitter_tolerance) then False
      else \<not> (\<bar>resets_at w - old_reset\<bar> \<le> reset_jitter_tolerance
              \<and> rejects_same_period_decrease v (win_kind w) \<and> used_percent w < old_percent))"

definition accepts_window :: "usage_snapshot \<Rightarrow> quota_window \<Rightarrow> store \<Rightarrow> bool" where
  "accepts_window snap w st =
     (case previous_window (snap_account snap) (snap_profile snap) (win_kind w) st of
        None \<Rightarrow> True
      | Some old \<Rightarrow> window_is_accepted (snap_vendor snap) w (resets_at old) (used_percent old))"

fun insert_windows :: "usage_snapshot \<Rightarrow> int \<Rightarrow> quota_window list \<Rightarrow> store \<Rightarrow> store" where
  "insert_windows snap sid [] st = st"
| "insert_windows snap sid (w # ws) st =
     insert_windows snap sid ws
       (st\<lparr>usage_windows := usage_windows st @
          [\<lparr>win_snapshot = sid, window = w, accepted = accepts_window snap w st\<rparr>]\<rparr>)"

definition insert_snapshot :: "usage_snapshot \<Rightarrow> int store_op" where
  "insert_snapshot snap st =
     and_then (snapshot_validate snap) (\<lambda>_.
     and_then (ensure (profile_exists (snap_account snap) (snap_profile snap) st
                 \<and> machine_exists (snap_account snap) (snap_machine snap) st) constraint_violation) (\<lambda>_.
       let sid = last_snapshot_id st + 1;
           st1 = st\<lparr>usage_snapshots := usage_snapshots st @ [\<lparr>snap_id = sid, snapshot = snap\<rparr>],
                    last_snapshot_id := sid\<rparr>
       in Inr (sid, insert_windows snap sid (snap_windows snap) st1)))"

definition append_usage_snapshot :: "usage_snapshot \<Rightarrow> int store_op" where
  "append_usage_snapshot snap st = insert_snapshot snap st"

section \<open>The current view\<close>

record current_window =
  cur_profile :: string
  cur_vendor :: vendor
  cur_window :: quota_window
  cur_polled_at :: instant
  contributors :: "usage_contributor list"

definition contributor_of :: "bool \<Rightarrow> usage_row \<Rightarrow> usage_contributor" where
  "contributor_of ch r =
     \<lparr>contrib_machine = snap_machine (snapshot (snd r)),
      contrib_version = reporter_version (snapshot (snd r)),
      contrib_polled_at = polled_at (snapshot (snd r)), chosen = ch\<rparr>"

definition row_kind :: "usage_row \<Rightarrow> quota_window_kind" where
  "row_kind r = win_kind (window (fst r))"

definition has_card :: "quota_window_kind \<Rightarrow> current_window list \<Rightarrow> bool" where
  "has_card k cards = exists_where (\<lambda>c. win_kind (cur_window c) = k) cards"

definition add_candidate :: "string \<Rightarrow> usage_row \<Rightarrow> current_window list \<Rightarrow> current_window list" where
  "add_candidate prof r cards =
     (if has_card (row_kind r) cards
      then update_where (\<lambda>c. win_kind (cur_window c) = row_kind r
             \<and> list_all (\<lambda>i. contrib_machine i \<noteq> snap_machine (snapshot (snd r))) (contributors c))
           (\<lambda>c. c\<lparr>contributors := contributors c @ [contributor_of False r]\<rparr>) cards
      else cards @
        [\<lparr>cur_profile = prof, cur_vendor = snap_vendor (snapshot (snd r)), cur_window = window (fst r),
          cur_polled_at = polled_at (snapshot (snd r)), contributors = [contributor_of True r]\<rparr>])"

definition load_current_winners :: "int \<Rightarrow> string \<Rightarrow> store \<Rightarrow> current_window list" where
  "load_current_winners acct prof st =
     fold (add_candidate prof)
       (sort_key (\<lambda>r. (kind_json (row_kind r), recency r))
          (filter (\<lambda>r. accepted (fst r)) (usage_rows acct prof st))) []"

definition load_current_reports :: "int \<Rightarrow> string \<Rightarrow> store \<Rightarrow> usage_row list" where
  "load_current_reports acct prof st =
     sort_key (\<lambda>r. (kind_json (row_kind r), snap_machine (snapshot (snd r)),
                  - polled_at (snapshot (snd r)), - snap_id (snd r)))
       (usage_rows acct prof st)"

text \<open>
  The winner of a card is the first contributor collected for it: its machine and poll time. The
  reports then rebuild the contributor lists, the latest report of each machine first.
\<close>

type_synonym winner = "quota_window_kind \<times> string \<times> instant"

definition winner_of :: "current_window \<Rightarrow> winner" where
  "winner_of c =
     (win_kind (cur_window c), contrib_machine (hd (contributors c)), contrib_polled_at (hd (contributors c)))"

fun add_reports ::
    "winner list \<Rightarrow> usage_row list \<Rightarrow> (quota_window_kind \<times> string) list \<Rightarrow> current_window list
      \<Rightarrow> current_window list" where
  "add_reports winners [] seen cards = cards"
| "add_reports winners (r # rs) seen cards =
     (let machine = snap_machine (snapshot (snd r)) in
      if \<not> has_card (row_kind r) cards \<or> (row_kind r, machine) \<in> set seen
      then add_reports winners rs seen cards
      else add_reports winners rs ((row_kind r, machine) # seen)
        (update_where (\<lambda>c. win_kind (cur_window c) = row_kind r)
          (\<lambda>c. c\<lparr>contributors := contributors c @
             [contributor_of ((row_kind r, machine, polled_at (snapshot (snd r))) \<in> set winners) r]\<rparr>)
          cards))"

definition sort_contributors :: "current_window \<Rightarrow> current_window" where
  "sort_contributors c =
     c\<lparr>contributors := sort_key (\<lambda>i. (\<not> chosen i, contrib_machine i)) (contributors c)\<rparr>"

definition load_current_usage :: "int \<Rightarrow> string \<Rightarrow> store \<Rightarrow> current_window list" where
  "load_current_usage acct prof st =
     (let cards = load_current_winners acct prof st;
          cleared = map (\<lambda>c. c\<lparr>contributors := []\<rparr>) cards
      in map sort_contributors
           (add_reports (map winner_of cards) (load_current_reports acct prof st) [] cleared))"

text \<open>\<open>usage_history\<close>: the latest snapshots first, windows in the order of their JSON kind.\<close>

definition decode_snapshot :: "store \<Rightarrow> snapshot_row \<Rightarrow> usage_snapshot" where
  "decode_snapshot st s =
     (snapshot s)\<lparr>snap_windows := sort_key (\<lambda>w. kind_json (win_kind w))
        (map window (filter (\<lambda>w. win_snapshot w = snap_id s) (usage_windows st)))\<rparr>"

definition usage_history ::
    "int \<Rightarrow> string \<Rightarrow> instant option \<Rightarrow> nat \<Rightarrow> store \<Rightarrow> (int \<times> usage_snapshot) list pulse_result" where
  "usage_history acct prof since limit st =
     map_ok (\<lambda>n. map (\<lambda>s. (snap_id s, decode_snapshot st s))
       (select_ordered (\<lambda>s. snap_account (snapshot s) = acct \<and> snap_profile (snapshot s) = prof
            \<and> (case since of None \<Rightarrow> i64_min | Some t \<Rightarrow> t) \<le> polled_at (snapshot s))
          (\<lambda>s. (- polled_at (snapshot s), - snap_id s)) n (usage_snapshots st)))
     (query_limit limit)"


section \<open>Invariant\<close>

definition usage_ok :: "store \<Rightarrow> bool" where
  "usage_ok st \<longleftrightarrow>
     distinct (map snap_id (usage_snapshots st))
     \<and> distinct (map (\<lambda>w. (win_snapshot w, win_kind (window w))) (usage_windows st))
     \<and> (\<forall>s \<in> set (usage_snapshots st). snap_id s \<le> last_snapshot_id st)
     \<and> (\<forall>w \<in> set (usage_windows st). win_snapshot w \<le> last_snapshot_id st)"

definition same_usage :: "store \<Rightarrow> store \<Rightarrow> bool" where
  "same_usage a b \<longleftrightarrow> usage_snapshots a = usage_snapshots b \<and> usage_windows a = usage_windows b"

lemma usage_rows_mem:
  "r \<in> set (usage_rows acct prof st) \<longleftrightarrow>
     fst r \<in> set (usage_windows st) \<and> snd r \<in> set (usage_snapshots st)
     \<and> snap_id (snd r) = win_snapshot (fst r) \<and> snap_account (snapshot (snd r)) = acct
     \<and> snap_profile (snapshot (snd r)) = prof"
  by (cases r) (auto simp: usage_rows_def)

lemma usage_row_unique:
  assumes "usage_ok st" and "r \<in> set (usage_rows acct prof st)" and "q \<in> set (usage_rows acct prof st)"
    and "row_kind r = row_kind q" and "snap_id (snd r) = snap_id (snd q)"
  shows "r = q"
proof -
  have m: "fst r \<in> set (usage_windows st)" "fst q \<in> set (usage_windows st)"
      "snd r \<in> set (usage_snapshots st)" "snd q \<in> set (usage_snapshots st)"
      "snap_id (snd r) = win_snapshot (fst r)" "snap_id (snd q) = win_snapshot (fst q)"
    using assms(2,3) by (simp_all add: usage_rows_mem)
  have "snd r = snd q" using assms(1,5) m(3,4) by (auto simp: usage_ok_def distinct_map inj_on_def)
  moreover have "fst r = fst q" using assms(1,4,5) m(1,2,5,6)
    by (auto simp: usage_ok_def distinct_map inj_on_def row_kind_def)
  ultimately show ?thesis by (simp add: prod_eq_iff)
qed

text \<open>The winning row of a kind: accepted and at least as recent as every accepted row.\<close>

definition winning :: "int \<Rightarrow> string \<Rightarrow> quota_window_kind \<Rightarrow> store \<Rightarrow> usage_row \<Rightarrow> bool" where
  "winning acct prof k st r \<longleftrightarrow>
     r \<in> set (usage_rows acct prof st) \<and> accepted_kind k r
     \<and> (\<forall>q \<in> set (usage_rows acct prof st). accepted_kind k q \<longrightarrow> recency r \<le> recency q)"

lemma winning_unique:
  assumes "usage_ok st" and "winning acct prof k st r" and "winning acct prof k st q"
  shows "r = q"
proof -
  have "recency r = recency q" using assms(2,3) by (auto simp: winning_def intro: antisym)
  then have "snap_id (snd r) = snap_id (snd q)" by (simp add: recency_def)
  moreover have "row_kind r = row_kind q" using assms(2,3) by (simp add: winning_def accepted_kind_def row_kind_def)
  moreover have "r \<in> set (usage_rows acct prof st)" "q \<in> set (usage_rows acct prof st)"
    using assms(2,3) by (simp_all add: winning_def)
  ultimately show ?thesis by (intro usage_row_unique [OF assms(1)])
qed

lemma previous_window_winning:
  assumes "usage_ok st"
  shows "winning acct prof k st r \<Longrightarrow> previous_window acct prof k st = Some (window (fst r))"
    and "previous_window acct prof k st = None \<Longrightarrow> \<not> winning acct prof k st r"
proof -
  let ?sel = "select_ordered (accepted_kind k) recency 1 (usage_rows acct prof st)"
  have first: "\<exists>h rest. ?sel = h # rest \<and> winning acct prof k st h"
    if w: "winning acct prof k st r" for r
  proof -
    have "r \<in> set (usage_rows acct prof st)" "accepted_kind k r" using w by (simp_all add: winning_def)
    from select_ordered_first [where key = recency and p = "accepted_kind k" and n = 1, OF this]
    obtain h rest where h: "?sel = h # rest" "recency h \<le> recency r"
        "h \<in> set (usage_rows acct prof st)" "accepted_kind k h" by auto
    then have "winning acct prof k st h" using w by (auto simp: winning_def intro: order_trans)
    with h(1) show ?thesis by blast
  qed
  show "previous_window acct prof k st = Some (window (fst r))" if w: "winning acct prof k st r"
  proof -
    obtain h rest where h: "?sel = h # rest" "winning acct prof k st h" using first [OF w] by blast
    have "h = r" by (rule winning_unique [OF assms h(2) w])
    then show ?thesis using h(1) by (simp add: previous_window_def)
  qed
  show "previous_window acct prof k st = None \<Longrightarrow> \<not> winning acct prof k st r"
    using first [of r] by (auto simp: previous_window_def split: list.splits)
qed

lemma winning_exists:
  assumes "q \<in> set (usage_rows acct prof st)" and "accepted_kind k q"
  shows "\<exists>r. winning acct prof k st r"
proof -
  have fin: "finite {r \<in> set (usage_rows acct prof st). accepted_kind k r}" by simp
  have "q \<in> {r \<in> set (usage_rows acct prof st). accepted_kind k r}" using assms by simp
  then have "{r \<in> set (usage_rows acct prof st). accepted_kind k r} \<noteq> {}" by blast
  from arg_min_if_finite [OF fin this, of recency]
  show ?thesis unfolding winning_def by (metis (mono_tags, lifting) mem_Collect_eq not_less)
qed

section \<open>Cards are winners\<close>

definition shows_row :: "string \<Rightarrow> current_window \<Rightarrow> usage_row \<Rightarrow> bool" where
  "shows_row prof c r \<longleftrightarrow>
     cur_profile c = prof \<and> cur_vendor c = snap_vendor (snapshot (snd r))
     \<and> cur_window c = window (fst r) \<and> cur_polled_at c = polled_at (snapshot (snd r))"

lemma find_sorted_min:
  "sorted (map key xs) \<Longrightarrow> find p xs = Some x \<Longrightarrow> y \<in> set xs \<Longrightarrow> p y \<Longrightarrow> key x \<le> key y"
  by (induction xs) (auto split: if_splits)

lemma find_append: "find p (xs @ ys) = (case find p xs of None \<Rightarrow> find p ys | Some x \<Rightarrow> Some x)"
  by (induction xs) auto

text \<open>After the loop: one card per kind, showing the first row of that kind.\<close>

lemma cards_spec:
  fixes rs :: "usage_row list" and prof :: string
  defines "cards \<equiv> fold (add_candidate prof) rs []"
  shows "distinct (map (\<lambda>c. win_kind (cur_window c)) cards)
    \<and> (\<forall>k. has_card k cards \<longleftrightarrow> (\<exists>r \<in> set rs. row_kind r = k))
    \<and> (\<forall>c \<in> set cards. \<exists>r. find (\<lambda>r. row_kind r = win_kind (cur_window c)) rs = Some r
         \<and> shows_row prof c r \<and> contributors c \<noteq> [] \<and> hd (contributors c) = contributor_of True r)"
  unfolding cards_def
proof (induction rs rule: rev_induct)
  case Nil
  then show ?case by (simp add: has_card_def exists_where_def)
next
  case (snoc r rs)
  let ?cards = "fold (add_candidate prof) rs []"
  show ?case
  proof (cases "has_card (row_kind r) ?cards")
    case True
    let ?p = "\<lambda>c. win_kind (cur_window c) = row_kind r
             \<and> list_all (\<lambda>i. contrib_machine i \<noteq> snap_machine (snapshot (snd r))) (contributors c)"
    let ?f = "\<lambda>c. c\<lparr>contributors := contributors c @ [contributor_of False r]\<rparr>"
    have step: "fold (add_candidate prof) (rs @ [r]) [] = update_where ?p ?f ?cards"
      using True by (simp add: add_candidate_def)
    have kinds: "map (\<lambda>c. win_kind (cur_window c)) (update_where ?p ?f ?cards)
        = map (\<lambda>c. win_kind (cur_window c)) ?cards"
      by (rule map_update_where) simp
    have card: "has_card k (update_where ?p ?f ?cards) \<longleftrightarrow> has_card k ?cards" for k
    proof -
      have "k \<in> set (map (\<lambda>c. win_kind (cur_window c)) (update_where ?p ?f ?cards))
          \<longleftrightarrow> k \<in> set (map (\<lambda>c. win_kind (cur_window c)) ?cards)" unfolding kinds ..
      then show ?thesis by (auto simp: has_card_def exists_where_def)
    qed
    have old: "\<exists>q \<in> set rs. row_kind q = row_kind r" using True snoc.IH by blast
    have "\<forall>c \<in> set (update_where ?p ?f ?cards).
        \<exists>q. find (\<lambda>q. row_kind q = win_kind (cur_window c)) (rs @ [r]) = Some q
         \<and> shows_row prof c q \<and> contributors c \<noteq> [] \<and> hd (contributors c) = contributor_of True q"
    proof (rule update_where_all)
      show "\<forall>c \<in> set ?cards. \<exists>q. find (\<lambda>q. row_kind q = win_kind (cur_window c)) (rs @ [r]) = Some q
         \<and> shows_row prof c q \<and> contributors c \<noteq> [] \<and> hd (contributors c) = contributor_of True q"
        using snoc.IH by (fastforce simp: find_append)
    qed (auto simp: shows_row_def)
    then show ?thesis using snoc.IH old unfolding step kinds card by auto
  next
    case False
    let ?c = "\<lparr>cur_profile = prof, cur_vendor = snap_vendor (snapshot (snd r)), cur_window = window (fst r),
          cur_polled_at = polled_at (snapshot (snd r)), contributors = [contributor_of True r]\<rparr>"
    have step: "fold (add_candidate prof) (rs @ [r]) [] = ?cards @ [?c]"
      using False by (simp add: add_candidate_def)
    have fresh: "\<forall>q \<in> set rs. row_kind q \<noteq> row_kind r" using False snoc.IH by blast
    then have none: "find (\<lambda>q. row_kind q = row_kind r) rs = None" by (simp add: find_None_iff)
    have k: "win_kind (window (fst r)) = row_kind r" by (simp add: row_kind_def)
    have "row_kind r \<notin> (\<lambda>c. win_kind (cur_window c)) ` set ?cards"
      using False by (auto simp: has_card_def exists_where_def)
    moreover have "has_card k (?cards @ [?c]) \<longleftrightarrow> has_card k ?cards \<or> k = row_kind r" for k
      by (auto simp: has_card_def exists_where_def row_kind_def)
    moreover have "\<forall>c \<in> set ?cards. \<exists>q. find (\<lambda>q. row_kind q = win_kind (cur_window c)) (rs @ [r]) = Some q
         \<and> shows_row prof c q \<and> contributors c \<noteq> [] \<and> hd (contributors c) = contributor_of True q"
      using snoc.IH by (fastforce simp: find_append)
    moreover have "\<exists>q. find (\<lambda>q. row_kind q = win_kind (cur_window ?c)) (rs @ [r]) = Some q
         \<and> shows_row prof ?c q \<and> contributors ?c \<noteq> [] \<and> hd (contributors ?c) = contributor_of True q"
      using none by (simp add: k find_append shows_row_def)
    moreover have "distinct (map (\<lambda>c. win_kind (cur_window c)) ?cards)"
      and "\<forall>k. has_card k ?cards \<longleftrightarrow> (\<exists>r \<in> set rs. row_kind r = k)" using snoc.IH by blast+
    ultimately show ?thesis unfolding step by (auto simp: k)
  qed
qed


lemma winners_spec:
  assumes "c \<in> set (load_current_winners acct prof st)"
  shows "\<exists>r. winning acct prof (win_kind (cur_window c)) st r \<and> shows_row prof c r
    \<and> winner_of c = (win_kind (cur_window c), snap_machine (snapshot (snd r)), polled_at (snapshot (snd r)))"
proof -
  let ?key = "\<lambda>r. (kind_json (row_kind r), recency r)"
  let ?rs = "sort_key ?key (filter (\<lambda>r. accepted (fst r)) (usage_rows acct prof st))"
  let ?k = "win_kind (cur_window c)"
  obtain r where r: "find (\<lambda>r. row_kind r = ?k) ?rs = Some r" "shows_row prof c r"
      "hd (contributors c) = contributor_of True r"
    using cards_spec [of prof ?rs] assms unfolding load_current_winners_def by blast
  have m: "r \<in> set ?rs" "row_kind r = ?k" using find_Some_mem [OF r(1)] by auto
  have "recency r \<le> recency q"
    if q: "q \<in> set (usage_rows acct prof st)" "accepted_kind ?k q" for q
  proof -
    have "q \<in> set ?rs" "row_kind q = ?k" using q by (simp_all add: accepted_kind_def row_kind_def)
    then have "?key r \<le> ?key q" using find_sorted_min [OF _ r(1), of ?key q] by simp
    then show ?thesis using m(2) \<open>row_kind q = ?k\<close> by simp
  qed
  then have "winning acct prof ?k st r"
    using m by (simp add: winning_def accepted_kind_def row_kind_def)
  then show ?thesis using r(2,3) by (intro exI [of _ r]) (simp add: winner_of_def contributor_of_def)
qed

lemma winners_kinds:
  "has_card k (load_current_winners acct prof st) \<longleftrightarrow> (\<exists>r. winning acct prof k st r)"
  "distinct (map (\<lambda>c. win_kind (cur_window c)) (load_current_winners acct prof st))"
proof -
  let ?rs = "sort_key (\<lambda>r. (kind_json (row_kind r), recency r))
      (filter (\<lambda>r. accepted (fst r)) (usage_rows acct prof st))"
  have "has_card k (load_current_winners acct prof st) \<longleftrightarrow> (\<exists>r \<in> set ?rs. row_kind r = k)"
    using cards_spec [of prof ?rs] unfolding load_current_winners_def by blast
  also have "\<dots> \<longleftrightarrow> (\<exists>r \<in> set (usage_rows acct prof st). accepted_kind k r)"
  proof -
    have "r \<in> set ?rs \<and> row_kind r = k \<longleftrightarrow> r \<in> set (usage_rows acct prof st) \<and> accepted_kind k r" for r
      by (auto simp: accepted_kind_def row_kind_def)
    then show ?thesis by blast
  qed
  also have "\<dots> \<longleftrightarrow> (\<exists>r. winning acct prof k st r)"
    using winning_exists [of _ acct prof st k] by (auto simp: winning_def)
  finally show "has_card k (load_current_winners acct prof st) \<longleftrightarrow> (\<exists>r. winning acct prof k st r)" .
  show "distinct (map (\<lambda>c. win_kind (cur_window c)) (load_current_winners acct prof st))"
    using cards_spec [of prof ?rs] unfolding load_current_winners_def by blast
qed

section \<open>Contributors\<close>

fun first_by :: "('a \<Rightarrow> 'b) \<Rightarrow> 'b list \<Rightarrow> 'a list \<Rightarrow> 'a list" where
  "first_by f seen [] = []"
| "first_by f seen (x # xs) =
     (if f x \<in> set seen then first_by f seen xs else x # first_by f (f x # seen) xs)"

lemma first_by_distinct:
  "distinct (map f (first_by f seen xs)) \<and> f ` set (first_by f seen xs) \<inter> set seen = {}"
  by (induction f seen xs rule: first_by.induct) auto

lemma first_by_mem: "x \<in> set (first_by f seen xs) \<Longrightarrow> x \<in> set xs"
  by (induction f seen xs rule: first_by.induct) (auto split: if_splits)

lemma first_by_covers: "x \<in> set xs \<Longrightarrow> f x \<notin> set seen \<Longrightarrow> f x \<in> f ` set (first_by f seen xs)"
  by (induction f seen xs rule: first_by.induct) auto

lemma first_by_first:
  "x \<in> set (first_by f seen xs) \<Longrightarrow> find (\<lambda>y. f y = f x) xs = Some x"
proof (induction xs arbitrary: seen)
  case (Cons y ys)
  show ?case
  proof (cases "f y \<in> set seen")
    case True
    have "f x \<notin> set seen"
      using Cons.prems first_by_distinct [of f seen "y # ys"] by blast
    then have "f y \<noteq> f x" using True by metis
    then show ?thesis using Cons True by simp
  next
    case False
    show ?thesis
    proof (cases "x = y")
      case ne: False
      then have m: "x \<in> set (first_by f (f y # seen) ys)" using Cons.prems False by simp
      then have "f x \<notin> set (f y # seen)" using first_by_distinct [of f "f y # seen" ys] by blast
      then show ?thesis using Cons.IH [OF m] by auto
    qed simp
  qed
qed simp

definition row_machine :: "usage_row \<Rightarrow> quota_window_kind \<times> string" where
  "row_machine r = (row_kind r, snap_machine (snapshot (snd r)))"

definition report_contributor :: "winner list \<Rightarrow> usage_row \<Rightarrow> usage_contributor" where
  "report_contributor ws r =
     contributor_of ((row_kind r, snap_machine (snapshot (snd r)), polled_at (snapshot (snd r))) \<in> set ws) r"

lemma has_card_update:
  "has_card k (update_where p (\<lambda>c. c\<lparr>contributors := g c\<rparr>) cards) \<longleftrightarrow> has_card k cards"
proof -
  have "map (\<lambda>c. win_kind (cur_window c)) (update_where p (\<lambda>c. c\<lparr>contributors := g c\<rparr>) cards)
      = map (\<lambda>c. win_kind (cur_window c)) cards" by (rule map_update_where) simp
  then have "k \<in> set (map (\<lambda>c. win_kind (cur_window c)) (update_where p (\<lambda>c. c\<lparr>contributors := g c\<rparr>) cards))
      \<longleftrightarrow> k \<in> set (map (\<lambda>c. win_kind (cur_window c)) cards)" by (simp only:)
  then show ?thesis by (auto simp: has_card_def exists_where_def)
qed

text \<open>The loop in one equation: the latest row of every machine, per card.\<close>

lemma add_reports_spec:
  "add_reports ws rs seen cards =
     map (\<lambda>c. c\<lparr>contributors := contributors c @ map (report_contributor ws)
        (filter (\<lambda>r. row_kind r = win_kind (cur_window c)) (first_by row_machine seen rs))\<rparr>) cards"
  if "\<forall>r \<in> set rs. has_card (row_kind r) cards"
  using that
proof (induction rs arbitrary: seen cards)
  case Nil
  then show ?case by simp
next
  case (Cons r rs)
  have card: "has_card (row_kind r) cards" using Cons.prems by simp
  show ?case
  proof (cases "row_machine r \<in> set seen")
    case True
    then show ?thesis using Cons card by (simp add: row_machine_def)
  next
    case False
    let ?cards = "update_where (\<lambda>c. win_kind (cur_window c) = row_kind r)
          (\<lambda>c. c\<lparr>contributors := contributors c @ [report_contributor ws r]\<rparr>) cards"
    have "\<forall>q \<in> set rs. has_card (row_kind q) ?cards"
      using Cons.prems by (simp add: has_card_update)
    from Cons.IH [OF this, of "row_machine r # seen"] show ?thesis
      using False card
      by (auto simp: row_machine_def report_contributor_def Let_def update_where_def)
  qed
qed

text \<open>Rows of a kind without a card are skipped.\<close>

lemma add_reports_filter:
  "add_reports ws rs seen cards = add_reports ws (filter (\<lambda>r. has_card (row_kind r) cards) rs) seen cards"
proof (induction rs arbitrary: seen cards)
  case (Cons r rs)
  have "add_reports ws rs seen' (update_where p (\<lambda>c. c\<lparr>contributors := g c\<rparr>) cards)
      = add_reports ws (filter (\<lambda>r. has_card (row_kind r) cards) rs) seen'
          (update_where p (\<lambda>c. c\<lparr>contributors := g c\<rparr>) cards)" for seen' p g
    using Cons.IH [of seen' "update_where p (\<lambda>c. c\<lparr>contributors := g c\<rparr>) cards"]
    by (simp add: has_card_update)
  moreover have "add_reports ws rs seen cards
      = add_reports ws (filter (\<lambda>r. has_card (row_kind r) cards) rs) seen cards"
    by (rule Cons.IH)
  ultimately show ?case by (simp add: Let_def)
qed simp


text \<open>The final cards: the winners with the latest report of every machine.\<close>

definition latest_reports :: "int \<Rightarrow> string \<Rightarrow> quota_window_kind \<Rightarrow> store \<Rightarrow> usage_row list" where
  "latest_reports acct prof k st =
     filter (\<lambda>r. row_kind r = k) (first_by row_machine []
       (filter (\<lambda>r. has_card (row_kind r) (load_current_winners acct prof st))
          (load_current_reports acct prof st)))"

lemma load_current_usage_eq:
  "load_current_usage acct prof st =
     map (\<lambda>c. sort_contributors (c\<lparr>contributors := map
            (report_contributor (map winner_of (load_current_winners acct prof st)))
            (latest_reports acct prof (win_kind (cur_window c)) st)\<rparr>))
       (load_current_winners acct prof st)"
proof -
  let ?w = "load_current_winners acct prof st"
  let ?cleared = "map (\<lambda>c. c\<lparr>contributors := []\<rparr>) ?w"
  have card: "has_card k ?cleared = has_card k ?w" for k
    by (simp add: has_card_def exists_where_def)
  have "add_reports (map winner_of ?w) (load_current_reports acct prof st) [] ?cleared =
      add_reports (map winner_of ?w)
        (filter (\<lambda>r. has_card (row_kind r) ?w) (load_current_reports acct prof st)) [] ?cleared"
    by (subst add_reports_filter) (simp only: card)
  also have "\<dots> = map (\<lambda>c. c\<lparr>contributors := contributors c @ map (report_contributor (map winner_of ?w))
        (filter (\<lambda>r. row_kind r = win_kind (cur_window c)) (first_by row_machine []
           (filter (\<lambda>r. has_card (row_kind r) ?w) (load_current_reports acct prof st))))\<rparr>) ?cleared"
    by (rule add_reports_spec) (simp add: card)
  finally show ?thesis
    by (simp add: load_current_usage_def latest_reports_def Let_def comp_def)
qed

lemma current_card:
  assumes "c \<in> set (load_current_usage acct prof st)"
  shows "\<exists>c0 r. c0 \<in> set (load_current_winners acct prof st) \<and> win_kind (cur_window c0) = win_kind (cur_window c)
    \<and> winning acct prof (win_kind (cur_window c)) st r \<and> shows_row prof c r
    \<and> winner_of c0 = (win_kind (cur_window c), snap_machine (snapshot (snd r)), polled_at (snapshot (snd r)))
    \<and> set (contributors c) = report_contributor (map winner_of (load_current_winners acct prof st))
         ` set (latest_reports acct prof (win_kind (cur_window c)) st)"
proof -
  obtain c0 where c0: "c0 \<in> set (load_current_winners acct prof st)"
    "c = sort_contributors (c0\<lparr>contributors := map
            (report_contributor (map winner_of (load_current_winners acct prof st)))
            (latest_reports acct prof (win_kind (cur_window c0)) st)\<rparr>)"
    using assms unfolding load_current_usage_eq by auto
  then have k: "win_kind (cur_window c0) = win_kind (cur_window c)" by (simp add: sort_contributors_def)
  obtain r where r: "winning acct prof (win_kind (cur_window c0)) st r" "shows_row prof c0 r"
      "winner_of c0 = (win_kind (cur_window c0), snap_machine (snapshot (snd r)), polled_at (snapshot (snd r)))"
    using winners_spec [OF c0(1)] by blast
  have "shows_row prof c r" using r(2) c0(2) by (simp add: shows_row_def sort_contributors_def)
  moreover have "set (contributors c) = report_contributor (map winner_of (load_current_winners acct prof st))
         ` set (latest_reports acct prof (win_kind (cur_window c)) st)"
    unfolding k [symmetric] by (subst c0(2)) (simp add: sort_contributors_def)
  ultimately show ?thesis using c0(1) k r(1,3)
    by (intro exI [of _ c0] exI [of _ r]) simp
qed

lemma current_kinds:
  "map (\<lambda>c. win_kind (cur_window c)) (load_current_usage acct prof st)
     = map (\<lambda>c. win_kind (cur_window c)) (load_current_winners acct prof st)"
  by (simp add: load_current_usage_eq sort_contributors_def comp_def)

section \<open>What an append does\<close>

definition new_row :: "usage_snapshot \<Rightarrow> int \<Rightarrow> store \<Rightarrow> quota_window \<Rightarrow> window_row" where
  "new_row snap sid st w = \<lparr>win_snapshot = sid, window = w, accepted = accepts_window snap w st\<rparr>"

lemma usage_rows_append_window:
  "usage_rows acct prof (st\<lparr>usage_windows := usage_windows st @ ws\<rparr>) =
     usage_rows acct prof st @ concat (map (\<lambda>w. map (Pair w)
       (filter (\<lambda>s. snap_id s = win_snapshot w \<and> snap_account (snapshot s) = acct
                  \<and> snap_profile (snapshot s) = prof) (usage_snapshots st))) ws)"
  by (simp add: usage_rows_def)

lemma accepts_window_other_kind:
  "win_kind (window x) \<noteq> win_kind w \<Longrightarrow>
     accepts_window snap w (st\<lparr>usage_windows := usage_windows st @ [x]\<rparr>) = accepts_window snap w st"
proof -
  assume "win_kind (window x) \<noteq> win_kind w"
  then have "filter (accepted_kind (win_kind w)) (map (Pair x) ss) = []" for ss
    by (auto simp: filter_empty_conv accepted_kind_def)
  then show ?thesis
    by (simp add: accepts_window_def previous_window_def select_ordered_def usage_rows_append_window
        cong: option.case_cong)
qed

lemma insert_windows_eq:
  "distinct (map win_kind ws) \<Longrightarrow>
     insert_windows snap sid ws st =
       st\<lparr>usage_windows := usage_windows st @ map (new_row snap sid st) ws\<rparr>"
proof (induction ws arbitrary: st)
  case Nil
  then show ?case by simp
next
  case (Cons w ws)
  let ?st = "st\<lparr>usage_windows := usage_windows st @ [new_row snap sid st w]\<rparr>"
  have "accepts_window snap v ?st = accepts_window snap v st" if "v \<in> set ws" for v
  proof (rule accepts_window_other_kind)
    have "win_kind v \<in> win_kind ` set ws" using that by (rule imageI)
    then show "win_kind (window (new_row snap sid st w)) \<noteq> win_kind v"
      using Cons.prems by (auto simp: new_row_def)
  qed
  then have "map (new_row snap sid ?st) ws = map (new_row snap sid st) ws"
    by (intro map_cong refl) (simp add: new_row_def)
  moreover have "distinct (map win_kind ws)" using Cons.prems by simp
  ultimately show ?case using Cons.IH [of ?st] by (simp add: new_row_def)
qed

lemma append_cases:
  assumes "append_usage_snapshot snap st = Inr (sid, st')"
  shows "snapshot_ok snap \<and> sid = last_snapshot_id st + 1 \<and> last_snapshot_id st' = sid
    \<and> usage_snapshots st' = usage_snapshots st @ [\<lparr>snap_id = sid, snapshot = snap\<rparr>]
    \<and> usage_windows st' = usage_windows st @ map (new_row snap sid
         (st\<lparr>usage_snapshots := usage_snapshots st @ [\<lparr>snap_id = sid, snapshot = snap\<rparr>],
            last_snapshot_id := sid\<rparr>)) (snap_windows snap)"
proof -
  have ok: "snapshot_ok snap"
    using assms by (auto simp: append_usage_snapshot_def insert_snapshot_def result_simps)
  then have "distinct (map win_kind (snap_windows snap))" by (simp add: snapshot_ok_def)
  then show ?thesis
    using assms ok
    by (auto simp: append_usage_snapshot_def insert_snapshot_def result_simps Let_def insert_windows_eq)
qed

lemma append_ok:
  assumes ok: "usage_ok st" and a: "append_usage_snapshot snap st = Inr (sid, st')"
  shows "usage_ok st'"
proof -
  note A = append_cases [OF a]
  have d: "distinct (map win_kind (snap_windows snap))" using A by (simp add: snapshot_ok_def)
  have fresh: "sid \<notin> snap_id ` set (usage_snapshots st)" "\<forall>w \<in> set (usage_windows st). win_snapshot w \<noteq> sid"
    using ok A by (force simp: usage_ok_def)+
  have "distinct (map (\<lambda>w. (win_snapshot w, win_kind (window w))) (map (new_row snap sid q) (snap_windows snap)))" for q
    using d by (simp add: new_row_def comp_def distinct_map inj_on_def)
  moreover have "(\<lambda>w. (win_snapshot w, win_kind (window w))) ` set (usage_windows st)
      \<inter> (\<lambda>w. (win_snapshot w, win_kind (window w))) ` set (map (new_row snap sid q) (snap_windows snap)) = {}" for q
    using fresh(2) by (auto simp: new_row_def)
  ultimately show ?thesis
    using ok A fresh(1) unfolding usage_ok_def by (auto simp: new_row_def)
qed

lemma usage_rows_fresh_snapshot:
  assumes "usage_ok st" and "snap_id s > last_snapshot_id st"
  shows "usage_rows acct prof (st\<lparr>usage_snapshots := usage_snapshots st @ [s], last_snapshot_id := n\<rparr>)
    = usage_rows acct prof st"
proof -
  have "snap_id s \<noteq> win_snapshot w" if "w \<in> set (usage_windows st)" for w
    using assms that by (force simp: usage_ok_def)
  then show ?thesis
    by (simp add: usage_rows_def cong: map_cong)
qed

lemma append_rows:
  assumes ok: "usage_ok st" and a: "append_usage_snapshot snap st = Inr (sid, st')"
  shows "usage_rows acct prof st' = usage_rows acct prof st @
    (if snap_account snap = acct \<and> snap_profile snap = prof
     then map (\<lambda>w. (new_row snap sid st w, \<lparr>snap_id = sid, snapshot = snap\<rparr>)) (snap_windows snap) else [])"
proof -
  note A = append_cases [OF a]
  let ?s = "\<lparr>snap_id = sid, snapshot = snap\<rparr>"
  let ?st1 = "st\<lparr>usage_snapshots := usage_snapshots st @ [?s], last_snapshot_id := sid\<rparr>"
  have rows1: "usage_rows a p ?st1 = usage_rows a p st" for a p
    using usage_rows_fresh_snapshot [OF ok, of ?s] A by simp
  then have acc: "accepts_window snap w ?st1 = accepts_window snap w st" for w
    by (simp add: accepts_window_def previous_window_def)
  have none: "filter (\<lambda>s. snap_id s = sid \<and> Q s) (usage_snapshots st) = []" for Q
    using ok A by (force simp: usage_ok_def filter_empty_conv)
  have "usage_rows acct prof st' = usage_rows acct prof (?st1\<lparr>usage_windows := usage_windows ?st1 @
      map (new_row snap sid ?st1) (snap_windows snap)\<rparr>)"
    using A by (simp add: usage_rows_def)
  also have "\<dots> = usage_rows acct prof st @ (if snap_account snap = acct \<and> snap_profile snap = prof
     then map (\<lambda>w. (new_row snap sid st w, ?s)) (snap_windows snap) else [])"
    unfolding usage_rows_append_window rows1
    by (simp add: new_row_def none acc comp_def concat_map_singleton)
  finally show ?thesis .
qed


section \<open>Properties\<close>

lemma card_of_winning:
  assumes "winning acct prof k st r" and "usage_ok st"
  shows "\<exists>c \<in> set (load_current_usage acct prof st). win_kind (cur_window c) = k \<and> shows_row prof c r"
proof -
  have "has_card k (load_current_winners acct prof st)" using assms(1) unfolding winners_kinds by blast
  then have "k \<in> set (map (\<lambda>c. win_kind (cur_window c)) (load_current_winners acct prof st))"
    by (auto simp: has_card_def exists_where_def)
  then have "k \<in> set (map (\<lambda>c. win_kind (cur_window c)) (load_current_usage acct prof st))"
    by (simp only: current_kinds)
  then obtain c where c: "c \<in> set (load_current_usage acct prof st)" "win_kind (cur_window c) = k" by auto
  obtain q where q: "winning acct prof k st q" "shows_row prof c q" using current_card [OF c(1)] c(2) by auto
  have "q = r" by (rule winning_unique [OF assms(2) q(1) assms(1)])
  then show ?thesis using c q(2) by blast
qed

lemma current_has_card:
  assumes "usage_ok st" and r: "r \<in> set (usage_rows acct prof st)" "accepted (fst r)"
  shows "\<exists>c \<in> set (load_current_usage acct prof st). win_kind (cur_window c) = row_kind r"
proof -
  have "accepted_kind (row_kind r) r" using r(2) by (simp add: accepted_kind_def row_kind_def)
  then show ?thesis using winning_exists [OF r(1)] card_of_winning [OF _ assms(1)] by blast
qed


lemma append_winning:
  assumes ok: "usage_ok st" and a: "append_usage_snapshot snap st = Inr (sid, st')"
    and w: "winning acct prof k st r" and w': "winning acct prof k st' r'"
  shows "r' = r \<or>
    (snap_account snap = acct \<and> snap_profile snap = prof \<and> window (fst r') \<in> set (snap_windows snap)
     \<and> resets_at (window (fst r)) \<le> resets_at (window (fst r'))
     \<and> window_is_accepted (snap_vendor snap) (window (fst r')) (resets_at (window (fst r)))
          (used_percent (window (fst r))))"
proof -
  note rows = append_rows [OF ok a]
  have rin: "r \<in> set (usage_rows acct prof st')" using w by (simp add: rows winning_def)
  have le: "recency r' \<le> recency r" using w w' rin by (simp add: winning_def)
  show ?thesis
  proof (cases "r' \<in> set (usage_rows acct prof st)")
    case True
    then have "recency r \<le> recency r'" using w w' by (simp add: winning_def)
    with le have "winning acct prof k st r'" using w w' True by (auto simp: winning_def)
    then show ?thesis using winning_unique [OF ok _ w] by blast
  next
    case False
    then obtain v where m: "snap_account snap = acct" "snap_profile snap = prof"
        "v \<in> set (snap_windows snap)" "r' = (new_row snap sid st v, \<lparr>snap_id = sid, snapshot = snap\<rparr>)"
      using w' by (auto simp: winning_def rows split: if_splits)
    have kind: "win_kind v = k" and acc: "accepts_window snap v st"
      using w' m(4) by (simp_all add: winning_def accepted_kind_def new_row_def)
    have prev: "previous_window acct prof k st = Some (window (fst r))"
      by (rule previous_window_winning(1) [OF ok w])
    have "window_is_accepted (snap_vendor snap) v (resets_at (window (fst r))) (used_percent (window (fst r)))"
      using acc m(1,2) kind prev by (simp add: accepts_window_def)
    moreover have "resets_at (window (fst r)) \<le> resets_at v"
      using le m(4) by (auto simp: recency_def new_row_def)
    ultimately show ?thesis using m by (simp add: new_row_def)
  qed
qed


definition usage_example_store :: store where
  "usage_example_store = empty_store\<lparr>
     profiles := [example_profile\<lparr>prof_name := ''main'', prof_vendor := OpenaiCodex\<rparr>],
     machines := [\<lparr>mach_account = 1, mach_name = ''host'', first_seen = 0, last_seen = 0\<rparr>]\<rparr>"

definition codex_snapshot :: "rat \<Rightarrow> int \<Rightarrow> int \<Rightarrow> usage_snapshot" where
  "codex_snapshot used reset poll =
     \<lparr>snap_account = 1, snap_profile = ''main'', snap_machine = ''host'', snap_vendor = OpenaiCodex,
      snap_windows = [\<lparr>win_kind = FiveHour, used_percent = used, resets_at = reset\<rparr>],
      snap_outcome = Success, polled_at = poll, reporter_version = None\<rparr>"

lemma codex_snapshot_ok: "snapshot_validate (codex_snapshot u r p) = Inr ()"
  by (simp add: snapshot_validate_Inr snapshot_ok_def codex_snapshot_def outcome_validate_def
      emits_usage_snapshots_def)

lemma usage_example_ok: "usage_ok usage_example_store"
  by (simp add: usage_ok_def usage_example_store_def empty_store_def)

lemma codex_append:
  assumes "profiles st = profiles usage_example_store" and "machines st = machines usage_example_store"
  shows "\<exists>st'. append_usage_snapshot (codex_snapshot u r p) st = Inr (last_snapshot_id st + 1, st')
    \<and> profiles st' = profiles usage_example_store \<and> machines st' = machines usage_example_store"
proof -
  have "profile_exists 1 ''main'' st" "machine_exists 1 ''host'' st"
    using assms by (simp_all add: profile_exists_def machine_exists_def exists_where_def
        usage_example_store_def example_profile_def)
  then show ?thesis using assms codex_snapshot_ok [of u r p]
    by (simp add: append_usage_snapshot_def insert_snapshot_def Let_def)
      (simp add: codex_snapshot_def Let_def)
qed

lemma codex_card:
  assumes "usage_ok st" and "append_usage_snapshot (codex_snapshot u r p) st = Inr (sid, st')"
    and "usage_windows st = []"
  shows "\<exists>c \<in> set (load_current_usage 1 ''main'' st'). win_kind (cur_window c) = FiveHour
    \<and> resets_at (cur_window c) = r \<and> used_percent (cur_window c) = u \<and> cur_polled_at c = p"
proof -
  let ?r = "(new_row (codex_snapshot u r p) sid st \<lparr>win_kind = FiveHour, used_percent = u, resets_at = r\<rparr>,
      \<lparr>snap_id = sid, snapshot = codex_snapshot u r p\<rparr>)"
  have rows: "usage_rows a q st = []" for a q using assms(3) by (simp add: usage_rows_def)
  have "usage_rows 1 ''main'' st' = [?r]"
    using append_rows [OF assms(1,2), of 1 "''main''"] by (simp add: rows codex_snapshot_def)
  moreover have "accepted (fst ?r)"
    by (simp add: new_row_def accepts_window_def previous_window_def rows select_ordered_def)
  ultimately have "winning 1 ''main'' FiveHour st' ?r"
    by (simp add: winning_def accepted_kind_def new_row_def)
  from card_of_winning [OF this append_ok [OF assms(1,2)]] show ?thesis
    by (auto simp: shows_row_def new_row_def codex_snapshot_def)
qed


lemma codex_two_appends:
  "\<exists>st1 st2 c c'. append_usage_snapshot (codex_snapshot u1 r1 p1) usage_example_store = Inr (1, st1)
     \<and> append_usage_snapshot (codex_snapshot u2 r2 p2) st1 = Inr (2, st2) \<and> usage_ok st1
     \<and> c \<in> set (load_current_usage 1 ''main'' st1) \<and> c' \<in> set (load_current_usage 1 ''main'' st2)
     \<and> win_kind (cur_window c) = FiveHour \<and> win_kind (cur_window c') = FiveHour
     \<and> resets_at (cur_window c) = r1 \<and> used_percent (cur_window c) = u1 \<and> cur_polled_at c = p1"
proof -
  have l0: "last_snapshot_id usage_example_store = 0" by (simp add: usage_example_store_def empty_store_def)
  obtain st1 where a1: "append_usage_snapshot (codex_snapshot u1 r1 p1) usage_example_store = Inr (1, st1)"
      "profiles st1 = profiles usage_example_store" "machines st1 = machines usage_example_store"
    using codex_append [of usage_example_store u1 r1 p1] l0 by auto
  have l1: "last_snapshot_id st1 = 1" using append_cases [OF a1(1)] by simp
  obtain st2 where a2: "append_usage_snapshot (codex_snapshot u2 r2 p2) st1 = Inr (2, st2)"
    using codex_append [OF a1(2,3), of u2 r2 p2] l1 by auto
  have ok1: "usage_ok st1" by (rule append_ok [OF usage_example_ok a1(1)])
  obtain c where c: "c \<in> set (load_current_usage 1 ''main'' st1)" "win_kind (cur_window c) = FiveHour"
      "resets_at (cur_window c) = r1" "used_percent (cur_window c) = u1" "cur_polled_at c = p1"
    using codex_card [OF usage_example_ok a1(1)] by (auto simp: usage_example_store_def empty_store_def)
  obtain r where r: "winning 1 ''main'' FiveHour st1 r" using current_card [OF c(1)] c(2) by auto
  then have "r \<in> set (usage_rows 1 ''main'' st2)" "accepted (fst r)" "row_kind r = FiveHour"
    using append_rows [OF ok1 a2] by (simp_all add: winning_def accepted_kind_def row_kind_def)
  then obtain c' where "c' \<in> set (load_current_usage 1 ''main'' st2)" "win_kind (cur_window c') = FiveHour"
    using current_has_card [OF append_ok [OF ok1 a2]] by metis
  then show ?thesis using a1(1) a2 ok1 c by blast
qed


text \<open>
  Jittered resets hide usage: a reported window whose reset lies up to five minutes before the
  shown one, with a higher percentage, is accepted and stored as accepted, but the card keeps
  showing the old window, so the higher usage is not visible in the current view.
\<close>

theorem jittered_reset_hides_usage:
  assumes "usage_ok st" and "append_usage_snapshot snap st = Inr (sid, st')"
    and "w \<in> set (snap_windows snap)"
    and "c \<in> set (load_current_usage (snap_account snap) (snap_profile snap) st)"
    and "win_kind (cur_window c) = win_kind w" and "i64_ok (resets_at w)"
    and "resets_at (cur_window c) - 300000 \<le> resets_at w" and "resets_at w < resets_at (cur_window c)"
    and "used_percent (cur_window c) < used_percent w"
  shows "(\<exists>row \<in> set (usage_windows st'). win_snapshot row = sid \<and> window row = w \<and> accepted row)
    \<and> (\<forall>c' \<in> set (load_current_usage (snap_account snap) (snap_profile snap) st').
         win_kind (cur_window c') = win_kind w \<longrightarrow> cur_window c' = cur_window c)"
proof -
  let ?k = "win_kind w"
  obtain r where r: "winning (snap_account snap) (snap_profile snap) ?k st r"
      "shows_row (snap_profile snap) c r"
    using current_card [OF assms(4)] assms(5) by auto
  have shown: "window (fst r) = cur_window c" using r(2) by (simp add: shows_row_def)
  have "previous_window (snap_account snap) (snap_profile snap) ?k st = Some (cur_window c)"
    using previous_window_winning(1) [OF assms(1) r(1)] shown by simp
  moreover have "saturate_i64 (resets_at (cur_window c) - 300000) \<le> resets_at w"
    using assms(6,7) by (auto simp: saturate_i64_def i64_ok_def)
  ultimately have acc: "accepts_window snap w st"
    using assms(9) by (simp add: accepts_window_def window_is_accepted_def reset_jitter_tolerance_def)
  have "snapshot_ok snap" using append_cases [OF assms(2)] by blast
  then have d: "distinct (map win_kind (snap_windows snap))" by (simp add: snapshot_ok_def)
  have "(new_row snap sid st w, \<lparr>snap_id = sid, snapshot = snap\<rparr>)
      \<in> set (usage_rows (snap_account snap) (snap_profile snap) st')"
    using assms(3) by (simp add: append_rows [OF assms(1,2)])
  then have "new_row snap sid st w \<in> set (usage_windows st')" by (simp add: usage_rows_mem)
  then have "\<exists>row \<in> set (usage_windows st'). win_snapshot row = sid \<and> window row = w \<and> accepted row"
    using acc by (intro bexI [of _ "new_row snap sid st w"]) (simp_all add: new_row_def)
  moreover have "cur_window c' = cur_window c"
    if c': "c' \<in> set (load_current_usage (snap_account snap) (snap_profile snap) st')"
      "win_kind (cur_window c') = ?k" for c'
  proof -
    obtain r' where r': "winning (snap_account snap) (snap_profile snap) ?k st' r'"
        "shows_row (snap_profile snap) c' r'"
      using current_card [OF c'(1)] c'(2) by auto
    have "r' = r"
    proof (rule ccontr)
      assume "r' \<noteq> r"
      then have m: "window (fst r') \<in> set (snap_windows snap)" "resets_at (cur_window c) \<le> resets_at (window (fst r'))"
        using append_winning [OF assms(1,2) r(1) r'(1)] shown by auto
      have "win_kind (window (fst r')) = win_kind w" using r'(1) by (simp add: winning_def accepted_kind_def)
      then have "window (fst r') = w" using d m(1) assms(3) by (simp add: distinct_map inj_on_def)
      then show False using m(2) assms(8) by simp
    qed
    then show ?thesis using r'(2) shown by (simp add: shows_row_def)
  qed
  ultimately show ?thesis by blast
qed

theorem jittered_reset_hides_usage_witness:
  "\<exists>st1 st2 c'. append_usage_snapshot (codex_snapshot 40 1000000 5) usage_example_store = Inr (1, st1)
     \<and> append_usage_snapshot (codex_snapshot 95 940000 9) st1 = Inr (2, st2)
     \<and> c' \<in> set (load_current_usage 1 ''main'' st2) \<and> used_percent (cur_window c') = 40"
proof -
  obtain st1 st2 c c' where x: "append_usage_snapshot (codex_snapshot 40 1000000 5) usage_example_store = Inr (1, st1)"
     "append_usage_snapshot (codex_snapshot 95 940000 9) st1 = Inr (2, st2)" "usage_ok st1"
     "c \<in> set (load_current_usage 1 ''main'' st1)" "c' \<in> set (load_current_usage 1 ''main'' st2)"
     "win_kind (cur_window c) = FiveHour" "win_kind (cur_window c') = FiveHour"
     "resets_at (cur_window c) = 1000000" "used_percent (cur_window c) = 40"
    using codex_two_appends [of 40 1000000 5 95 940000 9] by blast
  let ?s = "codex_snapshot 95 940000 9" and ?w = "\<lparr>win_kind = FiveHour, used_percent = 95, resets_at = 940000\<rparr>"
  have s: "snap_account ?s = 1" "snap_profile ?s = ''main''" "?w \<in> set (snap_windows ?s)"
    by (simp_all add: codex_snapshot_def)
  have "cur_window c' = cur_window c"
    using jittered_reset_hides_usage [OF x(3,2) s(3), of c] x(4-9)
    by (simp add: s(1,2) i64_ok_def i64_max_def i64_min_def)
  then show ?thesis using x by (intro exI [of _ st1] exI [of _ st2] exI [of _ c']) simp
qed

lemma latest_reports_facts:
  assumes "q \<in> set (latest_reports acct prof k st)"
  shows "q \<in> set (usage_rows acct prof st)" "row_kind q = k"
    and "\<And>p. p \<in> set (usage_rows acct prof st) \<Longrightarrow> row_machine p = row_machine q \<Longrightarrow>
           polled_at (snapshot (snd p)) \<le> polled_at (snapshot (snd q))"
proof -
  let ?rs = "filter (\<lambda>r. has_card (row_kind r) (load_current_winners acct prof st))
      (load_current_reports acct prof st)"
  have q: "q \<in> set (first_by row_machine [] ?rs)" "row_kind q = k"
    using assms by (simp_all add: latest_reports_def)
  then have qin: "q \<in> set ?rs" using first_by_mem by fast
  then show "q \<in> set (usage_rows acct prof st)" by (simp add: load_current_reports_def)
  show "row_kind q = k" by (rule q(2))
  fix p assume p: "p \<in> set (usage_rows acct prof st)" "row_machine p = row_machine q"
  let ?key = "\<lambda>r. (kind_json (row_kind r), snap_machine (snapshot (snd r)),
                  - polled_at (snapshot (snd r)), - snap_id (snd r))"
  have "sorted (map ?key (load_current_reports acct prof st))"
    unfolding load_current_reports_def by (rule sorted_sort_key)
  then have s: "sorted (map ?key ?rs)" by (rule sorted_filter)
  have "find (\<lambda>y. row_machine y = row_machine q) ?rs = Some q" by (rule first_by_first [OF q(1)])
  moreover have "p \<in> set ?rs" using p qin by (simp add: load_current_reports_def row_machine_def)
  ultimately have "?key q \<le> ?key p" using find_sorted_min [OF s] p(2) by blast
  then show "polled_at (snapshot (snd p)) \<le> polled_at (snapshot (snd q))"
    using p(2) by (auto simp: row_machine_def)
qed

text \<open>
  The chosen marker: on a card at most the contributor of the winning machine is marked chosen,
  and only if that machine's latest report is the winning one; as soon as the winning machine has a
  later report of the kind, accepted or not, no contributor of the card is marked chosen.
\<close>

theorem chosen_contributor_needs_latest_report:
  assumes "usage_ok st" and "c \<in> set (load_current_usage acct prof st)"
    and "winning acct prof (win_kind (cur_window c)) st r"
  shows "(\<forall>i \<in> set (contributors c). chosen i \<longrightarrow>
            contrib_machine i = snap_machine (snapshot (snd r))
            \<and> contrib_polled_at i = polled_at (snapshot (snd r)))
    \<and> (\<forall>q \<in> set (usage_rows acct prof st). row_machine q = row_machine r
          \<and> polled_at (snapshot (snd r)) < polled_at (snapshot (snd q)) \<longrightarrow>
         (\<forall>i \<in> set (contributors c). \<not> chosen i))"
proof -
  let ?k = "win_kind (cur_window c)"
  let ?ws = "map winner_of (load_current_winners acct prof st)"
  obtain c0 r0 where c0: "c0 \<in> set (load_current_winners acct prof st)" "win_kind (cur_window c0) = ?k"
      "winning acct prof ?k st r0"
      "winner_of c0 = (?k, snap_machine (snapshot (snd r0)), polled_at (snapshot (snd r0)))"
      "set (contributors c) = report_contributor ?ws ` set (latest_reports acct prof ?k st)"
    using current_card [OF assms(2)] by blast
  have r0: "r0 = r" by (rule winning_unique [OF assms(1) c0(3) assms(3)])
  have only: "(?k, m, t) \<in> set ?ws \<Longrightarrow> (?k, m, t) = winner_of c0" for m t
  proof -
    assume "(?k, m, t) \<in> set ?ws"
    then obtain d where d: "d \<in> set (load_current_winners acct prof st)" "winner_of d = (?k, m, t)" by auto
    then have "win_kind (cur_window d) = win_kind (cur_window c0)" using c0(2) by (simp add: winner_of_def)
    then have "d = c0" using winners_kinds(2) d(1) c0(1) by (auto simp: distinct_map inj_on_def)
    then show ?thesis using d(2) by simp
  qed
  have ch: "\<exists>q \<in> set (latest_reports acct prof ?k st). i = report_contributor ?ws q
      \<and> snap_machine (snapshot (snd q)) = snap_machine (snapshot (snd r))
      \<and> polled_at (snapshot (snd q)) = polled_at (snapshot (snd r))"
    if i: "i \<in> set (contributors c)" "chosen i" for i
  proof -
    obtain q where q: "q \<in> set (latest_reports acct prof ?k st)" "i = report_contributor ?ws q"
      using i(1) c0(5) by auto
    have "(?k, snap_machine (snapshot (snd q)), polled_at (snapshot (snd q))) \<in> set ?ws"
      using i(2) q(2) latest_reports_facts(2) [OF q(1)]
      by (simp add: report_contributor_def contributor_of_def)
    then show ?thesis using only c0(4) r0 q by auto
  qed
  have "\<not> chosen i" if q: "q \<in> set (usage_rows acct prof st)" "row_machine q = row_machine r"
      "polled_at (snapshot (snd r)) < polled_at (snapshot (snd q))" and i: "i \<in> set (contributors c)" for q i
  proof
    assume "chosen i"
    then obtain p where p: "p \<in> set (latest_reports acct prof ?k st)"
        "snap_machine (snapshot (snd p)) = snap_machine (snapshot (snd r))"
        "polled_at (snapshot (snd p)) = polled_at (snapshot (snd r))"
      using ch [OF i] by blast
    have "row_kind r = ?k" using assms(3) by (simp add: winning_def accepted_kind_def row_kind_def)
    then have "row_machine q = row_machine p"
      using q(2) p(2) latest_reports_facts(2) [OF p(1)] by (simp add: row_machine_def)
    then show False using latest_reports_facts(3) [OF p(1) q(1)] p(3) q(3) by simp
  qed
  moreover have "contrib_machine i = snap_machine (snapshot (snd r))
            \<and> contrib_polled_at i = polled_at (snapshot (snd r))"
    if i: "i \<in> set (contributors c)" "chosen i" for i
    using ch [OF i] by (auto simp: report_contributor_def contributor_of_def)
  ultimately show ?thesis by blast
qed

theorem chosen_contributor_needs_latest_report_witness:
  "\<exists>st1 st2 c'. append_usage_snapshot (codex_snapshot 40 1000000 5) usage_example_store = Inr (1, st1)
     \<and> append_usage_snapshot (codex_snapshot 95 940000 9) st1 = Inr (2, st2)
     \<and> c' \<in> set (load_current_usage 1 ''main'' st2) \<and> (\<forall>i \<in> set (contributors c'). \<not> chosen i)"
proof -
  obtain st1 st2 c c' where x: "append_usage_snapshot (codex_snapshot 40 1000000 5) usage_example_store = Inr (1, st1)"
     "append_usage_snapshot (codex_snapshot 95 940000 9) st1 = Inr (2, st2)" "usage_ok st1"
     "c \<in> set (load_current_usage 1 ''main'' st1)" "c' \<in> set (load_current_usage 1 ''main'' st2)"
     "win_kind (cur_window c) = FiveHour" "win_kind (cur_window c') = FiveHour"
     "resets_at (cur_window c) = 1000000" "cur_polled_at c = 5"
    using codex_two_appends [of 40 1000000 5 95 940000 9] by blast
  let ?s = "codex_snapshot 95 940000 9" and ?w = "\<lparr>win_kind = FiveHour, used_percent = 95, resets_at = 940000\<rparr>"
  obtain r where r: "winning 1 ''main'' FiveHour st1 r" "shows_row ''main'' c r"
    using current_card [OF x(4)] x(6) by auto
  obtain r' where r': "winning 1 ''main'' FiveHour st2 r'" using current_card [OF x(5)] x(7) by auto
  have rr: "r' = r"
    using append_winning [OF x(3,2) r(1) r'] r(2) x(8)
    by (auto simp: codex_snapshot_def shows_row_def)
  let ?q = "(new_row ?s 2 st1 ?w, \<lparr>snap_id = 2, snapshot = ?s\<rparr>)"
  have q: "?q \<in> set (usage_rows 1 ''main'' st2)"
    by (simp add: append_rows [OF x(3,2)]) (simp add: codex_snapshot_def)
  have machine: "snap_machine (snapshot (snd r)) = ''host'' \<and> row_kind r = FiveHour"
  proof -
    have rin: "r \<in> set (usage_rows 1 ''main'' st1)" "accepted_kind FiveHour r"
      using r(1) by (simp_all add: winning_def)
    have "usage_rows 1 ''main'' usage_example_store = []"
      by (simp add: usage_rows_def usage_example_store_def empty_store_def)
    then show ?thesis
      using rin append_rows [OF usage_example_ok x(1), of 1 "''main''"]
      by (auto simp: codex_snapshot_def row_kind_def accepted_kind_def)
  qed
  have "row_machine ?q = row_machine r" using machine
    by (simp add: row_machine_def row_kind_def new_row_def codex_snapshot_def)
  moreover have "polled_at (snapshot (snd r)) < polled_at (snapshot (snd ?q))"
    using r(2) x(9) by (simp add: shows_row_def codex_snapshot_def)
  ultimately have "\<forall>i \<in> set (contributors c'). \<not> chosen i"
    using chosen_contributor_needs_latest_report [OF append_ok [OF x(3,2)] x(5)] r' rr x(7) q
    by (metis (no_types, lifting))
  then show ?thesis using x by blast
qed


end
