(* ===== verification/Ingest_Tokens.thy ===== *)
theory Ingest_Tokens
  imports Identity_Store
begin

text \<open>
  Bearer tokens of the push receiver (\<open>src/src/pulse/ingest.rs\<close> and the token operations of
  \<open>src/src/pulse/store/sqlite.rs\<close>): the token text and its locator, issuing under the account cap,
  revocation and authentication. SHA-256, base64 and the random generator are parameters.
\<close>

unbundle bit_operations_syntax

section \<open>Stored tokens\<close>

definition is_hex_lower :: "char \<Rightarrow> bool" where
  "is_hex_lower c \<longleftrightarrow> is_ascii_digit c \<or> 97 \<le> byte_of c \<and> byte_of c \<le> 102"

definition validate_token_hash :: "string \<Rightarrow> unit pulse_result" where
  "validate_token_hash v =
     ensure (length v = 64 \<and> list_all is_hex_lower v)
       (invalid_input ''ingest token hash must be lowercase SHA-256 hex'')"

text \<open>The row constraints: unique id, unique hash, existing machine.\<close>

definition insert_token_row :: "ingest_token \<Rightarrow> unit store_op" where
  "insert_token_row t st =
     (if exists_where (\<lambda>r. token_id r = token_id t \<or> token_hash r = token_hash t) (ingest_tokens st)
         \<or> \<not> machine_exists (token_account t) (token_machine t) st
      then Inl constraint_violation
      else Inr ((), st\<lparr>ingest_tokens := ingest_tokens st @ [t]\<rparr>))"

definition insert_ingest_token :: "ingest_token \<Rightarrow> unit store_op" where
  "insert_ingest_token t st =
     and_then (validate_token_hash (token_hash t)) (\<lambda>_.
       if token_id t \<le> 0 then Inl (invalid_input ''ingest token id must be positive'')
       else insert_token_row t st)"

definition validate_issued_token :: "machine \<Rightarrow> ingest_token \<Rightarrow> nat \<Rightarrow> unit pulse_result" where
  "validate_issued_token m t max_active =
     and_then (validate_token_hash (token_hash t)) (\<lambda>_.
       if token_id t \<le> 0 \<or> mach_account m \<noteq> token_account t \<or> mach_name m \<noteq> token_machine t
          \<or> last_seen m < first_seen m \<or> last_used_at t \<noteq> None \<or> revoked_at t \<noteq> None
          \<or> max_active = 0 \<or> max_active > 10000
       then Inl (invalid_input ''atomic ingest token issuance input is invalid'')
       else Inr ())"

definition token_active :: "int \<Rightarrow> ingest_token \<Rightarrow> bool" where
  "token_active acct t \<longleftrightarrow> token_account t = acct \<and> revoked_at t = None"

definition issue_ingest_token :: "machine \<Rightarrow> ingest_token \<Rightarrow> nat \<Rightarrow> unit store_op" where
  "issue_ingest_token m t max_active st =
     and_then (validate_issued_token m t max_active) (\<lambda>_.
       if count_where (token_active (token_account t)) (ingest_tokens st) \<ge> max_active
       then Inl (new_error Conflict ''Pulse ingest tokens reached the account cap'')
       else and_then (upsert_machine m st) (\<lambda>(_, st1).
            insert_token_row (t\<lparr>last_used_at := None, revoked_at := None\<rparr>) st1))"

definition list_ingest_tokens :: "int \<Rightarrow> store \<Rightarrow> ingest_token list" where
  "list_ingest_tokens acct st = sort_key token_id (filter (\<lambda>t. token_account t = acct) (ingest_tokens st))"

definition is_token :: "int \<Rightarrow> int \<Rightarrow> ingest_token \<Rightarrow> bool" where
  "is_token acct i t \<longleftrightarrow> token_account t = acct \<and> token_id t = i"

definition get_ingest_token :: "int \<Rightarrow> int \<Rightarrow> store \<Rightarrow> ingest_token option" where
  "get_ingest_token acct i st = find (is_token acct i) (ingest_tokens st)"

definition touch_ingest_token :: "int \<Rightarrow> int \<Rightarrow> instant \<Rightarrow> bool store_op" where
  "touch_ingest_token acct i used st =
     (let p = (\<lambda>t. is_token acct i t \<and> revoked_at t = None) in
      Inr (exists_where p (ingest_tokens st),
           st\<lparr>ingest_tokens := update_where p
                (\<lambda>t. t\<lparr>last_used_at := Some (case last_used_at t of None \<Rightarrow> used | Some u \<Rightarrow> max u used)\<rparr>)
                (ingest_tokens st)\<rparr>))"

definition revoke_ingest_token :: "int \<Rightarrow> int \<Rightarrow> instant \<Rightarrow> bool store_op" where
  "revoke_ingest_token acct i time st =
     Inr (exists_where (is_token acct i) (ingest_tokens st),
          st\<lparr>ingest_tokens := update_where (is_token acct i)
               (\<lambda>t. t\<lparr>revoked_at := Some (case revoked_at t of None \<Rightarrow> time | Some r \<Rightarrow> r)\<rparr>)
               (ingest_tokens st)\<rparr>)"

section \<open>The token text\<close>

definition token_prefix :: string where
  "token_prefix = ''atmux-pulse-v1''"

definition authentication_failed :: pulse_error where
  "authentication_failed = new_error Authentication ''Pulse ingest authentication failed''"

text \<open>\<open>str::split\<close> at one character.\<close>

fun split_at :: "char \<Rightarrow> string \<Rightarrow> string list" where
  "split_at c [] = [[]]"
| "split_at c (x # xs) =
     (if x = c then [] # split_at c xs
      else case split_at c xs of [] \<Rightarrow> [[x]] | p # ps \<Rightarrow> (x # p) # ps)"

definition url_safe :: "char \<Rightarrow> bool" where
  "url_safe c \<longleftrightarrow> is_ascii_alphanumeric c \<or> c = CHR ''-'' \<or> c = CHR ''_''"

definition parse_token_locator :: "string \<Rightarrow> (int \<times> int) pulse_result" where
  "parse_token_locator v =
     (if length v > 256 \<or> (\<exists>c \<in> set (code_points v). is_whitespace c) then Inl authentication_failed
      else case split_at CHR ''.'' v of
        [prefix, acct, i, random] \<Rightarrow>
          (if prefix \<noteq> token_prefix \<or> length random \<noteq> 43 \<or> \<not> list_all url_safe random
           then Inl authentication_failed
           else case parse_i64 acct of
             None \<Rightarrow> Inl authentication_failed
           | Some a \<Rightarrow> (case account_id_new a of
               Inl _ \<Rightarrow> Inl authentication_failed
             | Inr a' \<Rightarrow> (case parse_i64 i of
                 None \<Rightarrow> Inl authentication_failed
               | Some n \<Rightarrow> if n > 0 then Inr (a', n) else Inl authentication_failed)))
      | _ \<Rightarrow> Inl authentication_failed)"

text \<open>
  \<open>generate_token_parts\<close>: 40 random bytes, of which the first eight are the id. The list holds the
  samples the generator will return, \<open>None\<close> for a failure; the result is \<open>None\<close> when more are needed.
\<close>

definition from_be_bytes :: "string \<Rightarrow> nat" where
  "from_be_bytes bs = foldl (\<lambda>n c. n * 256 + byte_of c) 0 bs"

fun generate_token_parts :: "string option list \<Rightarrow> (int \<times> string) pulse_result option" where
  "generate_token_parts [] = None"
| "generate_token_parts (None # _) =
     Some (Inl (new_error Internal ''operating-system randomness is unavailable''))"
| "generate_token_parts (Some bytes # later) =
     (let i = from_be_bytes (take 8 bytes) mod 2 ^ 63
      in if i = 0 then generate_token_parts later
         else Some (Inr (int i, take 32 (drop 8 bytes))))"

definition token_text :: "(string \<Rightarrow> string) \<Rightarrow> int \<Rightarrow> int \<Rightarrow> string \<Rightarrow> string" where
  "token_text encode64 acct i random =
     token_prefix @ ''.'' @ show_int acct @ ''.'' @ show_int i @ ''.'' @ encode64 random"

definition issue_token ::
    "(string \<Rightarrow> string) \<Rightarrow> (string \<Rightarrow> string) \<Rightarrow> string option list \<Rightarrow> int \<Rightarrow> string \<Rightarrow> instant
      \<Rightarrow> store \<Rightarrow> (pulse_error + (ingest_token \<times> string) \<times> store) option" where
  "issue_token sha256_hex encode64 samples acct mach time st =
     (case generate_token_parts samples of
        None \<Rightarrow> None
      | Some (Inl e) \<Rightarrow> Some (Inl e)
      | Some (Inr (i, random)) \<Rightarrow>
          (let plaintext = token_text encode64 acct i random;
               t = \<lparr>token_id = i, token_account = acct, token_machine = mach,
                    token_hash = sha256_hex plaintext, token_created_at = time,
                    last_used_at = None, revoked_at = None\<rparr>
           in Some (map_ok (\<lambda>(_, st1). ((t, plaintext), st1))
                (issue_ingest_token \<lparr>mach_account = acct, mach_name = mach, first_seen = time, last_seen = time\<rparr>
                   t 64 st))))"

section \<open>Authentication\<close>

definition byte_word :: "char \<Rightarrow> 8 word" where
  "byte_word c = of_nat (byte_of c)"

definition constant_time_eq :: "string \<Rightarrow> string \<Rightarrow> bool" where
  "constant_time_eq l r =
     (if length l \<noteq> length r then False
      else fold (\<lambda>(a, b) d. d OR (byte_word a XOR byte_word b)) (zip l r) 0 = 0)"

definition authenticate :: "(string \<Rightarrow> string) \<Rightarrow> string \<Rightarrow> store \<Rightarrow> ingest_token pulse_result" where
  "authenticate sha256_hex plaintext st =
     and_then (parse_token_locator plaintext) (\<lambda>(acct, i).
       case get_ingest_token acct i st of
         None \<Rightarrow> Inl authentication_failed
       | Some stored \<Rightarrow>
           if revoked_at stored \<noteq> None then Inl authentication_failed
           else if \<not> constant_time_eq (sha256_hex plaintext) (token_hash stored)
           then Inl authentication_failed
           else Inr stored)"

section \<open>Comparing digests\<close>

lemma byte_word_inj: "byte_word a = byte_word b \<longleftrightarrow> a = b"
proof
  assume "byte_word a = byte_word b"
  then have "byte_of a mod 256 = byte_of b mod 256"
    by (simp add: byte_word_def word_of_nat_eq_iff take_bit_eq_mod)
  moreover have "byte_of a < 256" "byte_of b < 256" by (simp_all add: byte_of_def)
  ultimately show "a = b" by (simp add: byte_of_def)
qed simp

lemma xor_zero: "a XOR b = 0 \<longleftrightarrow> a = b" for a b :: "8 word"
  by (metis xor.left_neutral xor.assoc xor_self_eq)

lemma or_zero: "a OR b = 0 \<longleftrightarrow> a = 0 \<and> b = 0" for a b :: "8 word"
  by (auto simp: bit_eq_iff bit_simps)

lemma fold_difference:
  "fold (\<lambda>(a, b) d. d OR (byte_word a XOR byte_word b)) ps d = 0 \<longleftrightarrow>
     d = 0 \<and> (\<forall>p \<in> set ps. fst p = snd p)"
  by (induction ps arbitrary: d) (auto simp: or_zero xor_zero byte_word_inj)

lemma constant_time_eq_iff: "constant_time_eq l r = (l = r)"
proof (cases "length l = length r")
  case True
  then have "(\<forall>p \<in> set (zip l r). fst p = snd p) \<longleftrightarrow> l = r"
    by (induction l r rule: list_induct2) auto
  then show ?thesis using True by (simp add: constant_time_eq_def fold_difference)
qed (auto simp: constant_time_eq_def)

text \<open>
  The constant-time comparison of two digests is equality: the folded difference of the byte
  pairs is zero exactly when the texts are the same, whatever their lengths.
\<close>

theorem constant_time_eq_exact: "constant_time_eq l r = (l = r)"
  by (rule constant_time_eq_iff)

section \<open>The token text round trip\<close>

lemma split_at_none: "c \<notin> set xs \<Longrightarrow> split_at c xs = [xs]"
  by (induction xs) auto

lemma split_at_piece: "c \<notin> set xs \<Longrightarrow> split_at c (xs @ c # ys) = xs # split_at c ys"
  by (induction xs) auto

lemma show_int_digits: "0 < v \<Longrightarrow> c \<in> set (show_int v) \<Longrightarrow> is_ascii_digit c"
  using show_nat_digits [of c "nat v"] by (simp add: show_int_def)

lemma length_show_id: "0 < v \<Longrightarrow> i64_ok v \<Longrightarrow> length (show_int v) \<le> 19"
proof -
  assume "0 < v" "i64_ok v"
  then have "v < 10 ^ 19" by (simp add: i64_ok_def i64_max_def)
  then have "nat v < 10 ^ 19" using \<open>0 < v\<close> by (simp add: nat_less_iff)
  then show ?thesis using \<open>0 < v\<close> show_nat_length [of "nat v" 19] by (simp add: show_int_def)
qed

lemma digit_facts: "is_ascii_digit c \<Longrightarrow> c \<noteq> CHR ''.'' \<and> byte_of c < 128 \<and> \<not> is_whitespace (byte_of c)"
  by (auto simp: is_ascii_digit_def byte_of_def is_whitespace_def)

lemma url_safe_facts: "url_safe c \<Longrightarrow> c \<noteq> CHR ''.'' \<and> byte_of c < 128 \<and> \<not> is_whitespace (byte_of c)"
  by (auto simp: url_safe_def is_ascii_alphanumeric_def is_ascii_alphabetic_def is_ascii_lower_def
      is_ascii_digit_def byte_of_def is_whitespace_def)

lemma no_whitespace:
  assumes "\<forall>c \<in> set s. byte_of c < 128 \<and> \<not> is_whitespace (byte_of c)"
  shows "\<not> (\<exists>c \<in> set (code_points s). is_whitespace c)"
proof -
  have "decode_utf8 (map byte_of s) = map byte_of s" using assms by (intro decode_ascii) auto
  then show ?thesis using assms by (auto simp: code_points_def)
qed

text \<open>
  The locator of a token text is the account and id it was made from, when the encoder gives 43
  URL-safe characters (which base64 without padding does for the 32 random bytes).
\<close>

lemma token_locator_roundtrip:
  assumes "0 < acct" and "i64_ok acct" and "0 < i" and "i64_ok i"
    and "length (encode64 random) = 43" and "list_all url_safe (encode64 random)"
  shows "parse_token_locator (token_text encode64 acct i random) = Inr (acct, i)"
proof -
  let ?dot = "CHR ''.''"
  let ?v = "token_text encode64 acct i random"
  have p: "\<forall>c \<in> set token_prefix. c \<noteq> ?dot \<and> byte_of c < 128 \<and> \<not> is_whitespace (byte_of c)"
    by (simp add: token_prefix_def byte_of_def is_whitespace_def)
  have dot: "byte_of ?dot < 128" "\<not> is_whitespace (byte_of ?dot)" by (simp_all add: byte_of_def is_whitespace_def)
  have u: "\<forall>c \<in> set (encode64 random). c \<noteq> ?dot \<and> byte_of c < 128 \<and> \<not> is_whitespace (byte_of c)"
    using assms(6) url_safe_facts by (auto simp: list_all_iff)
  have id_chars: "\<forall>c \<in> set (show_int v). c \<noteq> ?dot \<and> byte_of c < 128 \<and> \<not> is_whitespace (byte_of c)"
    if "0 < v" for v
  proof
    fix c assume "c \<in> set (show_int v)"
    then have "is_ascii_digit c" by (rule show_int_digits [OF that])
    then show "c \<noteq> ?dot \<and> byte_of c < 128 \<and> \<not> is_whitespace (byte_of c)" by (rule digit_facts)
  qed
  have a: "\<forall>c \<in> set (show_int acct). c \<noteq> ?dot \<and> byte_of c < 128 \<and> \<not> is_whitespace (byte_of c)"
    and n: "\<forall>c \<in> set (show_int i). c \<noteq> ?dot \<and> byte_of c < 128 \<and> \<not> is_whitespace (byte_of c)"
    by (rule id_chars [OF assms(1)], rule id_chars [OF assms(3)])
  have "?dot \<notin> set token_prefix" "?dot \<notin> set (show_int acct)" "?dot \<notin> set (show_int i)"
    "?dot \<notin> set (encode64 random)"
    using p a n u by auto
  then have "split_at ?dot ?v = [token_prefix, show_int acct, show_int i, encode64 random]"
    by (simp add: token_text_def split_at_piece split_at_none)
  moreover have "length ?v \<le> 256"
    using length_show_id [OF assms(1,2)] length_show_id [OF assms(3,4)] assms(5)
    by (simp add: token_text_def token_prefix_def)
  moreover have "\<not> (\<exists>c \<in> set (code_points ?v). is_whitespace c)"
    using p a n u dot by (intro no_whitespace) (simp add: token_text_def ball_Un)
  ultimately show ?thesis
    using assms by (simp add: parse_token_locator_def parse_show_i64 account_id_new_def)
qed

section \<open>Sequences of token operations\<close>

datatype token_op =
    IssueToken machine ingest_token
  | TouchToken int int instant
  | RevokeToken int int instant

definition commit_token :: "pulse_error + 'a \<times> store \<Rightarrow> store \<Rightarrow> store" where
  "commit_token r st = (case r of Inl _ \<Rightarrow> st | Inr (_, st') \<Rightarrow> st')"

fun token_step :: "token_op \<Rightarrow> store \<Rightarrow> store" where
  "token_step (IssueToken m t) st = commit_token (issue_ingest_token m t 64 st) st"
| "token_step (TouchToken a i u) st = commit_token (touch_ingest_token a i u st) st"
| "token_step (RevokeToken a i r) st = commit_token (revoke_ingest_token a i r st) st"

definition token_run :: "token_op list \<Rightarrow> store \<Rightarrow> store" where
  "token_run ops st = fold token_step ops st"

text \<open>Unique ids and hashes, and at most 64 active tokens for each account.\<close>

definition token_table_ok :: "store \<Rightarrow> bool" where
  "token_table_ok st \<longleftrightarrow>
     distinct (map token_id (ingest_tokens st)) \<and> distinct (map token_hash (ingest_tokens st))
     \<and> (\<forall>acct. count_where (token_active acct) (ingest_tokens st) \<le> 64)"

lemma upsert_machine_tokens: "upsert_machine m st = Inr (u, st') \<Longrightarrow> ingest_tokens st' = ingest_tokens st"
  by (auto simp: upsert_machine_def split: if_splits)

lemma issue_effect:
  assumes "issue_ingest_token m t k st = Inr (u, st')"
  shows "ingest_tokens st' = ingest_tokens st @ [t]" "revoked_at t = None" "0 < token_id t"
    and "\<forall>r \<in> set (ingest_tokens st). token_id r \<noteq> token_id t \<and> token_hash r \<noteq> token_hash t"
    and "count_where (token_active (token_account t)) (ingest_tokens st) < k"
proof -
  obtain v st1 where m: "upsert_machine m st = Inr (v, st1)"
    and ins: "insert_token_row (t\<lparr>last_used_at := None, revoked_at := None\<rparr>) st1 = Inr (u, st')"
    and valid: "validate_issued_token m t k = Inr ()"
    and c: "count_where (token_active (token_account t)) (ingest_tokens st) < k"
    using assms by (auto simp: issue_ingest_token_def result_simps split: if_splits)
  have f: "last_used_at t = None" "revoked_at t = None" and i: "0 < token_id t"
    using valid by (auto simp: validate_issued_token_def result_simps split: if_splits)
  then have same: "t\<lparr>last_used_at := None, revoked_at := None\<rparr> = t" by simp
  note tok = upsert_machine_tokens [OF m]
  show "ingest_tokens st' = ingest_tokens st @ [t]" "revoked_at t = None" "0 < token_id t"
    "\<forall>r \<in> set (ingest_tokens st). token_id r \<noteq> token_id t \<and> token_hash r \<noteq> token_hash t"
    "count_where (token_active (token_account t)) (ingest_tokens st) < k"
    using ins [unfolded same] f i c tok
    by (auto simp: insert_token_row_def exists_where_def split: if_splits)
qed

lemma count_where_update_le:
  assumes "\<And>r. p r \<Longrightarrow> q (f r) \<Longrightarrow> q r"
  shows "count_where q (update_where p f rows) \<le> count_where q rows"
  using assms by (induction rows) auto

lemma token_step_ok:
  assumes "token_table_ok st"
  shows "token_table_ok (token_step op st)"
proof (cases op)
  case (IssueToken m t)
  show ?thesis
  proof (cases "issue_ingest_token m t 64 st")
    case (Inr r)
    then obtain u st' where "issue_ingest_token m t 64 st = Inr (u, st')" by (cases r) simp
    note e = issue_effect [OF this] and this
    then have "count_where (token_active acct) (ingest_tokens st') \<le> 64" for acct
      using assms e(2,5) by (cases "acct = token_account t") (auto simp: token_table_ok_def token_active_def)
    then show ?thesis
      using assms e \<open>issue_ingest_token m t 64 st = Inr (u, st')\<close> IssueToken
      by (auto simp: token_table_ok_def commit_token_def)
  qed (use assms IssueToken in \<open>simp add: commit_token_def\<close>)
next
  case (TouchToken a i u)
  have "count_where (token_active acct) (update_where (\<lambda>t. is_token a i t \<and> revoked_at t = None)
      (\<lambda>t. t\<lparr>last_used_at := Some (case last_used_at t of None \<Rightarrow> u | Some v \<Rightarrow> max v u)\<rparr>) (ingest_tokens st))
    \<le> 64" for acct
    using assms by (subst count_where_update) (auto simp: token_active_def token_table_ok_def)
  then show ?thesis
    using assms TouchToken
    by (simp add: token_table_ok_def commit_token_def touch_ingest_token_def map_update_where Let_def)
next
  case (RevokeToken a i v)
  have "count_where (token_active acct) (update_where (is_token a i)
      (\<lambda>t. t\<lparr>revoked_at := Some (case revoked_at t of None \<Rightarrow> v | Some r \<Rightarrow> r)\<rparr>) (ingest_tokens st))
    \<le> count_where (token_active acct) (ingest_tokens st)" for acct
    by (rule count_where_update_le) (simp add: token_active_def)
  moreover have "count_where (token_active acct) (ingest_tokens st) \<le> 64" for acct
    using assms by (simp add: token_table_ok_def)
  ultimately have "count_where (token_active acct) (update_where (is_token a i)
      (\<lambda>t. t\<lparr>revoked_at := Some (case revoked_at t of None \<Rightarrow> v | Some r \<Rightarrow> r)\<rparr>) (ingest_tokens st)) \<le> 64" for acct
    by (meson order.trans)
  then show ?thesis
    using assms RevokeToken
    by (simp add: token_table_ok_def commit_token_def revoke_ingest_token_def map_update_where)
qed

lemma token_run_ok: "token_table_ok st \<Longrightarrow> token_table_ok (token_run ops st)"
  unfolding token_run_def by (induction ops arbitrary: st) (simp_all add: token_step_ok)

definition revoked_token :: "int \<Rightarrow> int \<Rightarrow> store \<Rightarrow> bool" where
  "revoked_token acct i st \<longleftrightarrow> (\<exists>t \<in> set (ingest_tokens st). is_token acct i t \<and> revoked_at t \<noteq> None)"

lemma revoked_token_step:
  assumes "revoked_token acct i st"
  shows "revoked_token acct i (token_step op st)"
proof (cases op)
  case (IssueToken m t)
  then show ?thesis
    using assms issue_effect(1) [of m t 64 st]
    by (cases "issue_ingest_token m t 64 st") (auto simp: commit_token_def revoked_token_def)
next
  case (TouchToken a j u)
  let ?f = "\<lambda>t. t\<lparr>last_used_at := Some (case last_used_at t of None \<Rightarrow> u | Some v \<Rightarrow> max v u)\<rparr>"
  have "\<exists>t \<in> set (update_where (\<lambda>t. is_token a j t \<and> revoked_at t = None) ?f (ingest_tokens st)).
      is_token acct i t \<and> revoked_at t \<noteq> None"
    by (rule update_where_ex) (use assms in \<open>auto simp: revoked_token_def is_token_def\<close>)
  then show ?thesis using TouchToken by (simp add: commit_token_def touch_ingest_token_def revoked_token_def Let_def)
next
  case (RevokeToken a j v)
  let ?f = "\<lambda>t. t\<lparr>revoked_at := Some (case revoked_at t of None \<Rightarrow> v | Some r \<Rightarrow> r)\<rparr>"
  have "\<exists>t \<in> set (update_where (is_token a j) ?f (ingest_tokens st)). is_token acct i t \<and> revoked_at t \<noteq> None"
    by (rule update_where_ex) (use assms in \<open>auto simp: revoked_token_def is_token_def\<close>)
  then show ?thesis using RevokeToken by (simp add: commit_token_def revoke_ingest_token_def revoked_token_def)
qed

lemma revoked_token_run: "revoked_token acct i st \<Longrightarrow> revoked_token acct i (token_run ops st)"
  unfolding token_run_def by (induction ops arbitrary: st) (simp_all add: revoked_token_step)

lemma authenticate_Inr:
  "authenticate sha256_hex text st = Inr t \<longleftrightarrow>
     (\<exists>acct i. parse_token_locator text = Inr (acct, i) \<and> get_ingest_token acct i st = Some t
        \<and> revoked_at t = None \<and> token_hash t = sha256_hex text)"
proof (cases "parse_token_locator text")
  case (Inr p)
  then show ?thesis
    by (cases p; cases "get_ingest_token (fst p) (snd p) st")
      (auto simp: authenticate_def constant_time_eq_iff)
qed (simp add: authenticate_def)

lemma authenticate_Inl:
  "authenticate sha256_hex text st = Inl e \<Longrightarrow> e = authentication_failed"
  by (auto simp: authenticate_def parse_token_locator_def result_simps
      split: option.splits if_splits list.splits sum.splits)

lemma get_token_unique:
  assumes "distinct (map token_id (ingest_tokens st))" and "t \<in> set (ingest_tokens st)" and "is_token acct i t"
  shows "get_ingest_token acct i st = Some t"
  unfolding get_ingest_token_def
  by (rule find_unique) (use assms in \<open>auto simp: is_token_def distinct_map dest: inj_onD\<close>)

section \<open>Properties\<close>

text \<open>
  C36. A revoked token never authenticates again: after the revocation, whatever tokens are issued,
  touched or revoked afterwards, a bearer that names the revoked token is refused with the uniform
  authentication error, whatever its digest.
\<close>

theorem revoked_token_never_authenticates:
  assumes "token_table_ok st" and "revoke_ingest_token acct i time st = Inr (True, st1)"
    and "parse_token_locator text = Inr (acct, i)"
  shows "authenticate sha256_hex text (token_run ops st1) = Inl authentication_failed"
proof -
  let ?st2 = "token_run ops st1"
  let ?f = "\<lambda>t. t\<lparr>revoked_at := Some (case revoked_at t of None \<Rightarrow> time | Some r \<Rightarrow> r)\<rparr>"
  have st1: "st1 = token_step (RevokeToken acct i time) st" using assms(2) by (simp add: commit_token_def)
  have found: "exists_where (is_token acct i) (ingest_tokens st)"
    and rows: "ingest_tokens st1 = update_where (is_token acct i) ?f (ingest_tokens st)"
    using assms(2) by (auto simp: revoke_ingest_token_def)
  obtain t where "t \<in> set (ingest_tokens st)" "is_token acct i t" using found by (auto simp: exists_where_def)
  then have "?f t \<in> set (ingest_tokens st1)" "is_token acct i (?f t)" "revoked_at (?f t) \<noteq> None"
    by (auto simp: rows set_update_where is_token_def intro: rev_image_eqI)
  then have "revoked_token acct i st1" unfolding revoked_token_def by blast
  then obtain r where r: "r \<in> set (ingest_tokens ?st2)" "is_token acct i r" "revoked_at r \<noteq> None"
    using revoked_token_run [of acct i st1 ops] by (auto simp: revoked_token_def)
  have "token_table_ok ?st2" unfolding st1 by (rule token_run_ok [OF token_step_ok [OF assms(1)]])
  then have "get_ingest_token acct i ?st2 = Some r"
    using get_token_unique r by (auto simp: token_table_ok_def)
  then have "\<not> (\<exists>t. authenticate sha256_hex text ?st2 = Inr t)"
    using assms(3) r(3) by (auto simp: authenticate_Inr)
  then show ?thesis using authenticate_Inl by (cases "authenticate sha256_hex text ?st2") auto
qed

lemma from_be_bytes_bound: "from_be_bytes bs mod 2 ^ 63 \<le> nat i64_max"
proof -
  have "from_be_bytes bs mod 2 ^ 63 < (2::nat) ^ 63" by simp
  then show ?thesis by (simp add: i64_max_def)
qed

lemma generated_parts:
  assumes "generate_token_parts samples = Some (Inr (i, random))" and "\<forall>b. Some b \<in> set samples \<longrightarrow> length b = 40"
  shows "0 < i" "i64_ok i" "length random = 32"
proof -
  have "0 < i \<and> i64_ok i \<and> length random = 32"
    using assms
  proof (induction samples rule: generate_token_parts.induct)
    case (3 bytes later)
    show ?case
    proof (cases "from_be_bytes (take 8 bytes) mod 2 ^ 63 = 0")
      case True
      then show ?thesis using 3 by (simp add: Let_def)
    next
      case False
      then show ?thesis
        using 3(2,3) from_be_bytes_bound [of "take 8 bytes"]
        by (auto simp: Let_def i64_ok_def i64_max_def i64_min_def)
    qed
  qed simp_all
  then show "0 < i" "i64_ok i" "length random = 32" by blast+
qed

text \<open>
  An issued token authenticates: the text handed out once parses back to the stored row and is
  accepted by the store it was issued into, as the account and machine it was issued for, while the
  account keeps at most 64 active tokens.
\<close>

theorem issued_token_authenticates:
  assumes "token_table_ok st" and "0 < acct" and "i64_ok acct"
    and "\<forall>b. Some b \<in> set samples \<longrightarrow> length b = 40"
    and "\<forall>b. length b = 32 \<longrightarrow> length (encode64 b) = 43 \<and> list_all url_safe (encode64 b)"
    and "issue_token sha256_hex encode64 samples acct mach time st = Some (Inr ((t, text), st1))"
  shows "authenticate sha256_hex text st1 = Inr t \<and> token_account t = acct \<and> token_machine t = mach
    \<and> token_table_ok st1"
proof -
  obtain i random where g: "generate_token_parts samples = Some (Inr (i, random))"
    and tx: "text = token_text encode64 acct i random"
    and t: "t = \<lparr>token_id = i, token_account = acct, token_machine = mach, token_hash = sha256_hex text,
        token_created_at = time, last_used_at = None, revoked_at = None\<rparr>"
    and iss: "issue_ingest_token \<lparr>mach_account = acct, mach_name = mach, first_seen = time, last_seen = time\<rparr>
        t 64 st = Inr ((), st1)"
    using assms(6) by (auto simp: issue_token_def Let_def result_simps split: option.splits sum.splits)
  note p = generated_parts [OF g assms(4)]
  have loc: "parse_token_locator text = Inr (acct, i)"
    unfolding tx using assms(2,3,5) p by (intro token_locator_roundtrip) auto
  have st1: "st1 = token_step (IssueToken \<lparr>mach_account = acct, mach_name = mach, first_seen = time, last_seen = time\<rparr> t) st"
    using iss by (simp add: commit_token_def)
  have ok: "token_table_ok st1" unfolding st1 by (rule token_step_ok [OF assms(1)])
  have mem: "t \<in> set (ingest_tokens st1)" using issue_effect(1) [OF iss] by simp
  have it: "is_token acct i t" using t by (simp add: is_token_def)
  have "distinct (map token_id (ingest_tokens st1))" using ok by (simp add: token_table_ok_def)
  then have "get_ingest_token acct i st1 = Some t" using mem it by (rule get_token_unique)
  then have "authenticate sha256_hex text st1 = Inr t" using loc t by (auto simp: authenticate_Inr)
  then show ?thesis using t ok by simp
qed

section \<open>Example tokens\<close>

definition example_hash :: "string \<Rightarrow> string" where
  "example_hash _ = replicate 64 (CHR ''a'')"

definition example_encode :: "string \<Rightarrow> string" where
  "example_encode _ = replicate 43 (CHR ''A'')"

lemma example_encode_safe: "length (example_encode b) = 43" "list_all url_safe (example_encode b)"
  by (simp_all add: example_encode_def url_safe_def is_ascii_alphanumeric_def is_ascii_alphabetic_def
      byte_of_def list_all_iff)

definition example_token :: ingest_token where
  "example_token =
     \<lparr>token_id = 5, token_account = 1, token_machine = ''host'', token_hash = example_hash [],
      token_created_at = 10, last_used_at = None, revoked_at = None\<rparr>"

lemma identity_example_tokens: "token_table_ok identity_example_store"
  by (simp add: token_table_ok_def identity_example_store_def empty_store_def)

theorem issued_token_authenticates_witness:
  "\<exists>t text st1. issue_token example_hash example_encode [Some (''xxxxxxxx'' @ replicate 32 (CHR ''x''))] 1 ''host'' 10
       identity_example_store = Some (Inr ((t, text), st1))
     \<and> authenticate example_hash text st1 = Inr t"
proof -
  obtain i where nz: "i = from_be_bytes ''xxxxxxxx'' mod 2 ^ 63" "0 < i"
    by (simp add: from_be_bytes_def byte_of_def)
  then have g: "generate_token_parts [Some (''xxxxxxxx'' @ replicate 32 (CHR ''x''))] =
      Some (Inr (int i, replicate 32 (CHR ''x'')))"
    by (simp add: Let_def)
  have acct: "account_exists 1 identity_example_store" "ingest_tokens identity_example_store = []"
    "machines identity_example_store = []"
    by (simp_all add: account_exists_def exists_where_def identity_example_store_def empty_store_def)
  have h: "validate_token_hash (example_hash v) = Inr ()" for v
    by (simp add: validate_token_hash_def example_hash_def is_hex_lower_def byte_of_def list_all_iff)
  obtain t tx st1 where issued: "issue_token example_hash example_encode [Some (''xxxxxxxx'' @ replicate 32 (CHR ''x''))] 1 ''host'' 10
      identity_example_store = Some (Inr ((t, tx), st1))"
    using nz acct h
    by (simp add: issue_token_def g issue_ingest_token_def validate_issued_token_def upsert_machine_def
        upsert_where_def exists_where_def insert_token_row_def machine_exists_def same_machine_def Let_def)
  have "i64_ok 1" by (simp add: i64_ok_def i64_max_def i64_min_def)
  from issued_token_authenticates [OF identity_example_tokens _ this _ _ issued] issued
  show ?thesis by (auto simp: example_encode_safe)
qed

theorem revoked_token_never_authenticates_witness:
  "\<exists>st1. revoke_ingest_token 1 5 20 (identity_example_store\<lparr>ingest_tokens := [example_token]\<rparr>) = Inr (True, st1)
     \<and> authenticate example_hash (token_text example_encode 1 5 []) (token_run [TouchToken 1 5 30] st1)
         = Inl authentication_failed"
proof -
  let ?st = "identity_example_store\<lparr>ingest_tokens := [example_token]\<rparr>"
  have ok: "token_table_ok ?st" by (simp add: token_table_ok_def)
  have it: "is_token 1 5 example_token" by (simp add: is_token_def example_token_def)
  have p: "parse_token_locator (token_text example_encode 1 5 []) = Inr (1, 5)"
    by (rule token_locator_roundtrip)
      (simp_all add: example_encode_safe i64_ok_def i64_max_def i64_min_def)
  obtain st1 where r: "revoke_ingest_token 1 5 20 ?st = Inr (True, st1)"
    using it by (simp add: revoke_ingest_token_def exists_where_def)
  from revoked_token_never_authenticates [OF ok r p] r show ?thesis by blast
qed

theorem constant_time_eq_exact_witness: "\<not> constant_time_eq ''ab'' ''ac''"
  by (simp add: constant_time_eq_exact)

end
