(* ===== verification/Ingest_Store.thy ===== *)
theory Ingest_Store
  imports Context_Store Identity_Store Token_Store Usage_Store Ingest_Tokens
begin

text \<open>
  The transactional ingest of one pushed batch in \<open>src/src/pulse/store/sqlite.rs\<close>: the scope check,
  the account caps, the writes in the order of the code, and the replay table that makes a request
  idempotent. The rows of a batch arrive validated in part; every write validates again.
\<close>

section \<open>Batches and limits\<close>

record ingest_batch =
  batch_profiles :: "profile list"
  batch_snapshots :: "usage_snapshot list"
  batch_grains :: "token_grain list"
  batch_contexts :: "context_session list"
  batch_gemini :: "gemini_quota list"

definition row_count :: "ingest_batch \<Rightarrow> nat" where
  "row_count b = length (batch_snapshots b) + length (batch_profiles b) + length (batch_grains b)
     + length (batch_contexts b) + length (batch_gemini b)"

record ingest_limits =
  max_rows_per_request :: nat
  max_profiles :: nat
  max_usage_snapshots :: nat
  max_token_rows :: nat
  max_context_sessions :: nat
  max_gemini_models :: nat

definition default_ingest_limits :: ingest_limits where
  "default_ingest_limits =
     \<lparr>max_rows_per_request = 5000, max_profiles = 256, max_usage_snapshots = 200000,
      max_token_rows = 200000, max_context_sessions = 5000, max_gemini_models = 512\<rparr>"

record ingest_result =
  result_snapshots :: nat
  result_grains :: nat
  result_contexts :: nat
  result_gemini :: nat

definition batch_result :: "ingest_batch \<Rightarrow> ingest_result" where
  "batch_result b =
     \<lparr>result_snapshots = length (batch_snapshots b), result_grains = length (batch_grains b),
      result_contexts = length (batch_contexts b), result_gemini = length (batch_gemini b)\<rparr>"

record ingest_replay =
  request_id :: string
  request_fingerprint :: string
  request_received :: instant

record idempotent_result =
  outcome_counts :: ingest_result
  replayed :: bool

definition max_ingest_replays :: nat where
  "max_ingest_replays = 200000"

section \<open>Scope and caps\<close>

definition batch_in_scope :: "int \<Rightarrow> string \<Rightarrow> ingest_batch \<Rightarrow> bool" where
  "batch_in_scope acct mach b \<longleftrightarrow>
     list_all (\<lambda>p. prof_account p = acct \<and> origin p = Reported) (batch_profiles b)
     \<and> list_all (\<lambda>s. snap_account s = acct \<and> snap_machine s = mach) (batch_snapshots b)
     \<and> list_all (\<lambda>g. tok_account g = acct \<and> tok_machine g = mach) (batch_grains b)
     \<and> list_all (\<lambda>c. ctx_account c = acct \<and> ctx_machine c = mach) (batch_contexts b)
     \<and> list_all (\<lambda>q. gem_account q = acct) (batch_gemini b)"

definition validate_ingest_scope ::
    "bool \<Rightarrow> int \<Rightarrow> string \<Rightarrow> ingest_batch \<Rightarrow> ingest_limits \<Rightarrow> unit pulse_result" where
  "validate_ingest_scope on_macos acct mach b lims =
     (if row_count b > max_rows_per_request lims
      then Inl (invalid_input ''ingest request exceeds its row limit'')
      else if \<not> batch_in_scope acct mach b
      then Inl (new_error Conflict ''ingest rows must match the token-authoritative account and machine'')
      else try_each (profile_validate on_macos) (batch_profiles b))"

text \<open>The loops that count the distinct keys of a batch that are not stored yet.\<close>

fun count_new_from :: "('k \<Rightarrow> bool) \<Rightarrow> 'k list \<Rightarrow> 'k set \<Rightarrow> nat \<Rightarrow> nat" where
  "count_new_from stored [] seen n = n"
| "count_new_from stored (k # ks) seen n =
     (if k \<in> seen then count_new_from stored ks seen n
      else count_new_from stored ks (insert k seen) (n + of_bool (\<not> stored k)))"

definition count_new :: "('k \<Rightarrow> bool) \<Rightarrow> 'k list \<Rightarrow> nat" where
  "count_new stored ks = count_new_from stored ks {} 0"

definition account_profiles :: "int \<Rightarrow> store \<Rightarrow> nat" where
  "account_profiles acct st = count_where (\<lambda>p. prof_account p = acct) (profiles st)"

definition account_grains :: "int \<Rightarrow> store \<Rightarrow> nat" where
  "account_grains acct st = count_where (\<lambda>r. tok_account (grain r) = acct) (token_usage st)"

definition account_snapshots :: "int \<Rightarrow> store \<Rightarrow> nat" where
  "account_snapshots acct st = count_where (\<lambda>r. snap_account (snapshot r) = acct) (usage_snapshots st)"

definition account_contexts :: "int \<Rightarrow> store \<Rightarrow> nat" where
  "account_contexts acct st = count_where (\<lambda>c. ctx_account c = acct) (context_sessions st)"

definition account_gemini :: "int \<Rightarrow> store \<Rightarrow> nat" where
  "account_gemini acct st = count_where (\<lambda>q. gem_account q = acct) (gemini_quotas st)"

definition account_replays :: "int \<Rightarrow> store \<Rightarrow> nat" where
  "account_replays acct st = count_where (\<lambda>r. replay_account r = acct) (ingest_replays st)"

definition enforce_ingest_caps :: "int \<Rightarrow> ingest_batch \<Rightarrow> ingest_limits \<Rightarrow> store \<Rightarrow> unit pulse_result" where
  "enforce_ingest_caps acct b lims st =
     (let new_profiles = count_new (\<lambda>n. profile_exists acct n st) (map prof_name (batch_profiles b));
          new_tokens = count_new (\<lambda>k. exists_where (\<lambda>r. token_key (grain r) = k) (token_usage st))
            (map token_key (batch_grains b));
          new_context = count_new (\<lambda>k. exists_where (\<lambda>r. context_key r = k) (context_sessions st))
            (map context_key (batch_contexts b));
          new_gemini = count_new (\<lambda>m. exists_where (\<lambda>r. gemini_key r = (acct, m)) (gemini_quotas st))
            (map gem_model_id (batch_gemini b))
      in if account_profiles acct st + new_profiles > max_profiles lims
           \<or> account_snapshots acct st + length (batch_snapshots b) > max_usage_snapshots lims
           \<or> account_grains acct st + new_tokens > max_token_rows lims
           \<or> account_contexts acct st + new_context > max_context_sessions lims
           \<or> account_gemini acct st + new_gemini > max_gemini_models lims
         then Inl (new_error Conflict ''ingest would exceed an account row cap'')
         else Inr ())"

section \<open>Writing a batch\<close>

definition write_batch :: "token_extern \<Rightarrow> bool \<Rightarrow> ingest_batch \<Rightarrow> store \<Rightarrow> store pulse_result" where
  "write_batch x on_macos b st =
     and_then (try_fold (\<lambda>p s. map_ok snd (upsert_reported_profile on_macos p s)) (batch_profiles b) st) (\<lambda>st1.
     and_then (try_fold (\<lambda>s s'. map_ok snd (insert_snapshot s s')) (batch_snapshots b) st1) (\<lambda>st2.
     and_then (upsert_token_batch x (batch_grains b) st2) (\<lambda>(_, st3).
     and_then (try_fold (\<lambda>c s. map_ok snd (upsert_context c s)) (batch_contexts b) st3) (\<lambda>st4.
       try_fold (\<lambda>q s. map_ok snd (upsert_gemini q s)) (batch_gemini b) st4))))"

definition ingest_batch ::
    "token_extern \<Rightarrow> bool \<Rightarrow> int \<Rightarrow> string \<Rightarrow> ingest_batch \<Rightarrow> ingest_limits \<Rightarrow> ingest_result store_op" where
  "ingest_batch x on_macos acct mach b lims st =
     and_then (validate_ingest_scope on_macos acct mach b lims) (\<lambda>_.
     and_then (enforce_ingest_caps acct b lims st) (\<lambda>_.
     and_then (write_batch x on_macos b st) (\<lambda>st'. Inr (batch_result b, st'))))"

section \<open>Idempotent ingest\<close>

definition request_byte :: "char \<Rightarrow> bool" where
  "request_byte c \<longleftrightarrow> is_ascii_alphanumeric c \<or> c = CHR ''.'' \<or> c = CHR ''_'' \<or> c = CHR ''-''"

definition validate_replay :: "ingest_replay \<Rightarrow> unit pulse_result" where
  "validate_replay rp =
     (if request_id rp = [] \<or> length (request_id rp) > 128 \<or> \<not> list_all request_byte (request_id rp)
      then Inl (invalid_input ''ingest request id must be a stable ASCII identifier'')
      else validate_token_hash (request_fingerprint rp))"

definition same_request :: "int \<Rightarrow> string \<Rightarrow> string \<Rightarrow> replay_row \<Rightarrow> bool" where
  "same_request acct mach rid r \<longleftrightarrow>
     replay_account r = acct \<and> replay_machine r = mach \<and> replay_request r = rid"

definition stored_result :: "replay_row \<Rightarrow> ingest_result" where
  "stored_result r =
     (case replay_counts r of (s, t, c, g) \<Rightarrow>
       \<lparr>result_snapshots = s, result_grains = t, result_contexts = c, result_gemini = g\<rparr>)"

definition new_replay :: "int \<Rightarrow> string \<Rightarrow> ingest_batch \<Rightarrow> ingest_replay \<Rightarrow> replay_row" where
  "new_replay acct mach b rp =
     \<lparr>replay_account = acct, replay_machine = mach, replay_request = request_id rp,
      payload_fingerprint = request_fingerprint rp,
      replay_counts = (length (batch_snapshots b), length (batch_grains b), length (batch_contexts b),
        length (batch_gemini b)),
      received_at = request_received rp\<rparr>"

text \<open>The row constraints of \<open>ingest_replays\<close> other than the key, which was just looked up.\<close>

definition insert_replay :: "replay_row \<Rightarrow> store \<Rightarrow> store pulse_result" where
  "insert_replay r st =
     (if machine_exists (replay_account r) (replay_machine r) st
      then Inr (st\<lparr>ingest_replays := ingest_replays st @ [r]\<rparr>) else Inl constraint_violation)"

definition ingest_batch_once ::
    "token_extern \<Rightarrow> bool \<Rightarrow> int \<Rightarrow> string \<Rightarrow> ingest_batch \<Rightarrow> ingest_limits \<Rightarrow> ingest_replay
      \<Rightarrow> idempotent_result store_op" where
  "ingest_batch_once x on_macos acct mach b lims rp st =
     and_then (validate_ingest_scope on_macos acct mach b lims) (\<lambda>_.
     and_then (validate_replay rp) (\<lambda>_.
       case find (same_request acct mach (request_id rp)) (ingest_replays st) of
         Some r \<Rightarrow>
           (if payload_fingerprint r \<noteq> request_fingerprint rp
            then Inl (new_error Conflict ''ingest request id was reused with a different payload'')
            else Inr (\<lparr>outcome_counts = stored_result r, replayed = True\<rparr>, st))
       | None \<Rightarrow>
           (if account_replays acct st \<ge> max_ingest_replays
            then Inl (new_error Conflict ''ingest replay keys reached the account cap'')
            else and_then (enforce_ingest_caps acct b lims st) (\<lambda>_.
                 and_then (write_batch x on_macos b st) (\<lambda>st1.
                 and_then (insert_replay (new_replay acct mach b rp) st1) (\<lambda>st2.
                   Inr (\<lparr>outcome_counts = batch_result b, replayed = False\<rparr>, st2)))))))"

section \<open>Counting keys\<close>

lemma count_new_from_card:
  assumes "finite seen"
  shows "count_new_from stored ks seen n = n + card {k \<in> set ks. k \<notin> seen \<and> \<not> stored k}"
  using assms
proof (induction ks arbitrary: seen n)
  case (Cons k ks)
  show ?case
  proof (cases "k \<in> seen \<or> stored k")
    case True
    then have "{j \<in> set (k # ks). j \<notin> seen \<and> \<not> stored j} = {j \<in> set ks. j \<notin> seen \<and> \<not> stored j}"
      "{j \<in> set ks. j \<notin> insert k seen \<and> \<not> stored j} = {j \<in> set ks. j \<notin> seen \<and> \<not> stored j}"
      by auto
    then show ?thesis using Cons True by auto
  next
    case False
    then have "{j \<in> set (k # ks). j \<notin> seen \<and> \<not> stored j} =
        insert k {j \<in> set ks. j \<notin> insert k seen \<and> \<not> stored j}"
      by auto
    then show ?thesis using Cons False by simp
  qed
qed simp

lemma count_new_card: "count_new stored ks = card {k \<in> set ks. \<not> stored k}"
  by (simp add: count_new_def count_new_from_card)

lemma count_where_keys:
  "distinct (map key rows) \<Longrightarrow> count_where (\<lambda>r. q (key r)) rows = card {k \<in> key ` set rows. q k}"
proof -
  assume d: "distinct (map key rows)"
  have "{k \<in> key ` set rows. q k} = set (filter q (map key rows))" by auto
  then show ?thesis
    using distinct_card [OF distinct_filter [OF d, of q]] by (simp add: count_where_def filter_map comp_def)
qed

lemma exists_where_key: "exists_where (\<lambda>r. key r = k) rows \<longleftrightarrow> k \<in> key ` set rows"
  by (auto simp: exists_where_def intro: image_eqI)

text \<open>A table whose keys stay unique grows by the new keys at most.\<close>

lemma keyed_growth:
  assumes d: "distinct (map key rows)" "distinct (map key rows')"
    and sub: "key ` set rows' \<subseteq> key ` set rows \<union> f ` set ks"
    and st: "\<And>k. k \<in> set ks \<Longrightarrow> stored k \<longleftrightarrow> f k \<in> key ` set rows"
  shows "count_where (\<lambda>r. q (key r)) rows' \<le> count_where (\<lambda>r. q (key r)) rows + count_new stored ks"
proof -
  have "{k \<in> key ` set rows'. q k} \<subseteq> {k \<in> key ` set rows. q k} \<union> f ` {k \<in> set ks. \<not> stored k}"
  proof
    fix k assume k: "k \<in> {k \<in> key ` set rows'. q k}"
    then consider "k \<in> key ` set rows" | j where "j \<in> set ks" "k = f j" using sub by auto
    then show "k \<in> {k \<in> key ` set rows. q k} \<union> f ` {k \<in> set ks. \<not> stored k}"
      by cases (use k st in auto)
  qed
  then have "card {k \<in> key ` set rows'. q k} \<le> card ({k \<in> key ` set rows. q k} \<union> f ` {k \<in> set ks. \<not> stored k})"
    by (rule card_mono [rotated]) simp
  also have "\<dots> \<le> card {k \<in> key ` set rows. q k} + card (f ` {k \<in> set ks. \<not> stored k})"
    by (rule card_Un_le)
  also have "card (f ` {k \<in> set ks. \<not> stored k}) \<le> count_new stored ks"
    by (simp add: count_new_card card_image_le)
  finally show ?thesis by (simp add: count_where_keys [OF d(1)] count_where_keys [OF d(2)])
qed

section \<open>What the writes change\<close>

text \<open>Tokens: the keys of the batch at most, and nothing outside its scopes.\<close>

definition token_frame :: "token_grain set \<Rightarrow> store \<Rightarrow> store \<Rightarrow> bool" where
  "token_frame G st st' \<longleftrightarrow>
     st' = st\<lparr>token_usage := token_usage st', token_revisions := token_revisions st'\<rparr>
     \<and> (\<lambda>r. token_key (grain r)) ` set (token_usage st') \<subseteq> (\<lambda>r. token_key (grain r)) ` set (token_usage st) \<union> token_key ` G
     \<and> (distinct (map (\<lambda>r. token_key (grain r)) (token_usage st))
          \<longrightarrow> distinct (map (\<lambda>r. token_key (grain r)) (token_usage st')))
     \<and> (\<forall>q. (\<forall>r. grain_scope (grain r) \<in> grain_scope ` G \<longrightarrow> \<not> q r)
          \<longrightarrow> filter q (token_usage st') = filter q (token_usage st))
     \<and> (\<forall>q. (\<forall>v. rev_scope v \<in> grain_scope ` G \<longrightarrow> \<not> q v)
          \<longrightarrow> filter q (token_revisions st') = filter q (token_revisions st))"

lemma token_frame_refl: "token_frame G st st"
  by (simp add: token_frame_def)

lemma token_frame_trans:
  assumes a: "token_frame G st st1" and b: "token_frame G st1 st2"
  shows "token_frame G st st2"
proof -
  have eq: "st1 = st\<lparr>token_usage := token_usage st1, token_revisions := token_revisions st1\<rparr>"
    "st2 = st1\<lparr>token_usage := token_usage st2, token_revisions := token_revisions st2\<rparr>"
    using a b unfolding token_frame_def by blast+
  have "st2 = st\<lparr>token_usage := token_usage st2, token_revisions := token_revisions st2\<rparr>"
    by (subst eq(2), subst eq(1)) simp
  moreover have "filter q (token_usage st2) = filter q (token_usage st)"
    if "\<forall>r. grain_scope (grain r) \<in> grain_scope ` G \<longrightarrow> \<not> q r" for q
    using a b that by (simp add: token_frame_def)
  moreover have "filter q (token_revisions st2) = filter q (token_revisions st)"
    if "\<forall>v. rev_scope v \<in> grain_scope ` G \<longrightarrow> \<not> q v" for q
    using a b that by (simp add: token_frame_def)
  moreover have "(\<lambda>r. token_key (grain r)) ` set (token_usage st2)
      \<subseteq> (\<lambda>r. token_key (grain r)) ` set (token_usage st) \<union> token_key ` G"
  proof -
    have "(\<lambda>r. token_key (grain r)) ` set (token_usage st1)
        \<subseteq> (\<lambda>r. token_key (grain r)) ` set (token_usage st) \<union> token_key ` G"
      "(\<lambda>r. token_key (grain r)) ` set (token_usage st2)
        \<subseteq> (\<lambda>r. token_key (grain r)) ` set (token_usage st1) \<union> token_key ` G"
      using a b unfolding token_frame_def by simp_all
    then show ?thesis by fast
  qed
  moreover have "distinct (map (\<lambda>r. token_key (grain r)) (token_usage st2))"
    if "distinct (map (\<lambda>r. token_key (grain r)) (token_usage st))"
    using a b that by (simp add: token_frame_def)
  ultimately show ?thesis unfolding token_frame_def by (intro conjI allI impI)
qed

lemma upsert_token_frame:
  assumes "upsert_token_at_revision x g rv c st = Inr (u, st')" and g: "g \<in> G"
  shows "token_frame G st st'"
proof -
  let ?f = "\<lambda>r. if c \<and> \<not> row_revision r < rv then r
                 else r\<lparr>grain := g, updated_at := ext_now x, row_revision := rv\<rparr>"
  let ?row = "\<lparr>grain = g, updated_at = ext_now x, row_revision = rv\<rparr>"
  have st': "st' = st\<lparr>token_usage := upsert_where (has_key g) ?f ?row (token_usage st)\<rparr>"
    using assms(1) by (auto simp: upsert_token_at_revision_def result_simps split: if_splits)
  have sc: "token_key h = token_key g \<Longrightarrow> grain_scope h = grain_scope g" for h
    by (simp add: token_key_def)
  show ?thesis
    unfolding token_frame_def
  proof (intro conjI allI impI)
    show "st' = st\<lparr>token_usage := token_usage st', token_revisions := token_revisions st'\<rparr>"
      using st' by simp
    show "(\<lambda>r. token_key (grain r)) ` set (token_usage st')
        \<subseteq> (\<lambda>r. token_key (grain r)) ` set (token_usage st) \<union> token_key ` G"
    proof -
      have "token_key (grain r) \<in> (\<lambda>r. token_key (grain r)) ` set (token_usage st) \<union> token_key ` G"
        if "r \<in> set (upsert_where (has_key g) ?f ?row (token_usage st))" for r
      proof -
        have "(\<exists>q \<in> set (token_usage st). r = q \<or> r = ?f q) \<or> r = ?row"
          using that by (auto simp: upsert_where_def set_update_where split: if_splits)
        then have "(\<exists>q \<in> set (token_usage st). token_key (grain r) = token_key (grain q)) \<or> token_key (grain r) = token_key g"
          by (auto split: if_splits)
        then show ?thesis using g by auto
      qed
      then show ?thesis unfolding st' by (intro image_subsetI) simp
    qed
    show "distinct (map (\<lambda>r. token_key (grain r)) (token_usage st'))"
      if "distinct (map (\<lambda>r. token_key (grain r)) (token_usage st))"
    proof -
      have "distinct (map (\<lambda>r. token_key (grain r)) (upsert_where (has_key g) ?f ?row (token_usage st)))"
        using that by (rule upsert_where_distinct) (auto simp: has_key_def)
      then show ?thesis by (simp add: st')
    qed
    show "filter q (token_usage st') = filter q (token_usage st)"
      if q: "\<forall>r. grain_scope (grain r) \<in> grain_scope ` G \<longrightarrow> \<not> q r" for q
    proof -
      have no: "\<not> q r" if "grain_scope (grain r) = grain_scope g" for r
        using q [rule_format, of r] g that by simp
      have "filter q (upsert_where (has_key g) ?f ?row (token_usage st)) = filter q (token_usage st)"
      proof (rule upsert_where_filter)
        fix r assume "has_key g r"
        then have "grain_scope (grain r) = grain_scope g" unfolding has_key_def by (rule sc)
        then show "\<not> q r \<and> \<not> q (?f r)" using no [of r] no [of "?f r"] by simp
      next
        show "\<not> q ?row" using no [of ?row] by simp
      qed
      then show ?thesis by (simp add: st')
    qed
    show "filter q (token_revisions st') = filter q (token_revisions st)" for q by (simp add: st')
  qed
qed

lemma allocate_frame:
  assumes "allocate_token_revision sc st = Inr (rv, st')" and sc: "sc \<in> grain_scope ` G"
  shows "token_frame G st st'"
proof -
  obtain cur st1 where w: "token_write_revision sc st = Inr (cur, st1)"
    and st': "st' = set_revision sc rv st1"
    using assms by (auto simp: allocate_token_revision_def result_simps split: option.splits if_splits)
  obtain a p m where s: "sc = (a, p, m)" by (cases sc)
  let ?row = "\<lparr>rev_account = a, rev_profile = p, rev_machine = m, revision = 0\<rparr>"
  have st1: "st1 = st \<or> st1 = st\<lparr>token_revisions := token_revisions st @ [?row]\<rparr>"
    using w by (auto simp: token_write_revision_def s split: option.splits if_splits)
  have f: "filter q (update_where (\<lambda>v. rev_scope v = sc) (\<lambda>v. v\<lparr>revision := rv\<rparr>) vs) = filter q vs"
    if "\<forall>v. rev_scope v \<in> grain_scope ` G \<longrightarrow> \<not> q v" for q vs
    using that sc by (induction vs) (auto simp: rev_scope_def)
  have row: "\<not> q ?row" if "\<forall>v. rev_scope v \<in> grain_scope ` G \<longrightarrow> \<not> q v" for q
    using that sc by (simp add: rev_scope_def s)
  show ?thesis
    using st1
  proof
    assume "st1 = st"
    then show ?thesis using f by (simp add: token_frame_def st' set_revision_def)
  next
    assume "st1 = st\<lparr>token_revisions := token_revisions st @ [?row]\<rparr>"
    moreover have "filter q (update_where (\<lambda>v. rev_scope v = sc) (\<lambda>v. v\<lparr>revision := rv\<rparr>) (token_revisions st @ [?row]))
        = filter q (token_revisions st)" if "\<forall>v. rev_scope v \<in> grain_scope ` G \<longrightarrow> \<not> q v" for q
      using f [OF that, of "token_revisions st @ [?row]"] row [OF that] by simp
    ultimately show ?thesis by (simp add: token_frame_def st' set_revision_def)
  qed
qed

lemma token_batch_frame:
  assumes "upsert_token_batch x gs st = Inr (u, st')"
  shows "token_frame (set gs) st st'"
proof -
  have scope: "token_frame (set gs) s s'" if w: "write_scope x gs sc s = Inr s'" for sc s s'
  proof -
    obtain ch where c: "changed_grains s (filter (\<lambda>g. grain_scope g = sc) gs) = Inr ch"
      and alt: "(ch = [] \<and> s' = s) \<or> (ch \<noteq> [] \<and> (\<exists>rv s1. allocate_token_revision sc s = Inr (rv, s1)
        \<and> try_fold (\<lambda>g s. map_ok snd (upsert_token_at_revision x g rv False s)) ch s1 = Inr s'))"
      using w by (auto simp: write_scope_def result_simps split: if_splits)
    have ch: "\<forall>g \<in> set ch. g \<in> set gs \<and> grain_scope g = sc"
      using changed_grains_filter [OF c] by auto
    show ?thesis
    proof (cases "ch = []")
      case False
      then obtain rv s1 where a: "allocate_token_revision sc s = Inr (rv, s1)"
        and r: "try_fold (\<lambda>g s. map_ok snd (upsert_token_at_revision x g rv False s)) ch s1 = Inr s'"
        using alt by blast
      obtain g where "g \<in> set ch" using False by (cases ch) auto
      then have "token_frame (set gs) s s1" using ch by (intro allocate_frame [OF a]) auto
      with r show ?thesis
      proof (rule try_fold_invariant)
        fix g t t'
        assume g: "g \<in> set ch" and t: "token_frame (set gs) s t"
          and up: "map_ok snd (upsert_token_at_revision x g rv False t) = Inr t'"
        obtain v where "upsert_token_at_revision x g rv False t = Inr (v, t')"
          using up by (auto simp: result_simps)
        then have "token_frame (set gs) t t'" using ch g by (intro upsert_token_frame) auto
        with t show "token_frame (set gs) s t'" by (rule token_frame_trans)
      qed
    qed (use alt token_frame_refl in auto)
  qed
  have "try_fold (write_scope x gs) (batch_scopes gs) st = Inr st'" using assms by (simp add: batch_fold)
  then show ?thesis
    by (rule try_fold_invariant [where P = "token_frame (set gs) st", OF _ token_frame_refl])
      (use scope token_frame_trans in blast)
qed

text \<open>Profiles: only the names of the batch, and no local profile.\<close>

lemma profile_batch_frame:
  assumes "try_fold (\<lambda>p s. map_ok snd (upsert_reported_profile mac p s)) ps st = Inr st'"
    and "profiles_ok mac st"
  shows "profiles_ok mac st' \<and> st' = st\<lparr>profiles := profiles st'\<rparr>
    \<and> filter (\<lambda>q. origin q = LocalOrigin) (profiles st') = filter (\<lambda>q. origin q = LocalOrigin) (profiles st)
    \<and> profile_key ` set (profiles st') \<subseteq> profile_key ` set (profiles st) \<union> profile_key ` set ps
    \<and> (\<forall>q. (\<forall>r. profile_key r \<in> profile_key ` set ps \<longrightarrow> \<not> q r)
         \<longrightarrow> filter q (profiles st') = filter q (profiles st))"
  using assms
proof (induction ps arbitrary: st)
  case (Cons p ps)
  obtain u st1 where a: "upsert_reported_profile mac p st = Inr (u, st1)"
    and r: "try_fold (\<lambda>p s. map_ok snd (upsert_reported_profile mac p s)) ps st1 = Inr st'"
    using Cons.prems(1) by (auto simp: result_simps)
  note e = upsert_reported_effect [OF Cons.prems(2) a]
  note ih = Cons.IH [OF r e(1)]
  have "st' = st\<lparr>profiles := profiles st'\<rparr>"
    by (subst ih [THEN conjunct2, THEN conjunct1], subst e(2)) simp
  moreover have "profile_key ` set (profiles st')
      \<subseteq> profile_key ` set (profiles st) \<union> profile_key ` set (p # ps)"
    using ih [THEN conjunct2, THEN conjunct2, THEN conjunct2, THEN conjunct1] e(4) by auto
  moreover have "filter q (profiles st') = filter q (profiles st)"
    if "\<forall>r. profile_key r \<in> profile_key ` set (p # ps) \<longrightarrow> \<not> q r" for q
  proof -
    have "filter q (profiles st1) = filter q (profiles st)" by (rule e(5)) (use that in simp)
    moreover have "filter q (profiles st') = filter q (profiles st1)"
      by (rule ih [THEN conjunct2, THEN conjunct2, THEN conjunct2, THEN conjunct2, rule_format]) (use that in simp)
    ultimately show ?thesis by simp
  qed
  moreover have "profiles_ok mac st'" "filter (\<lambda>q. origin q = LocalOrigin) (profiles st')
      = filter (\<lambda>q. origin q = LocalOrigin) (profiles st)"
    using ih e(3) by simp_all
  ultimately show ?case by blast
qed simp

text \<open>Snapshots are appended.\<close>

lemma append_frame:
  assumes "insert_snapshot s st = Inr (sid, st')"
  shows "st' = st\<lparr>usage_snapshots := usage_snapshots st', usage_windows := usage_windows st',
    last_snapshot_id := last_snapshot_id st'\<rparr>"
proof -
  have "distinct (map win_kind (snap_windows s))"
    using assms by (auto simp: insert_snapshot_def result_simps snapshot_ok_def)
  then show ?thesis using assms by (auto simp: insert_snapshot_def result_simps Let_def insert_windows_eq)
qed

lemma snapshot_batch_frame:
  assumes "try_fold (\<lambda>s s'. map_ok snd (insert_snapshot s s')) ss st = Inr st'" and "usage_ok st"
  shows "usage_ok st' \<and> last_snapshot_id st \<le> last_snapshot_id st'
    \<and> st' = st\<lparr>usage_snapshots := usage_snapshots st', usage_windows := usage_windows st',
        last_snapshot_id := last_snapshot_id st'\<rparr>
    \<and> (\<exists>rows. usage_snapshots st' = usage_snapshots st @ rows \<and> map snapshot rows = ss)
    \<and> (\<exists>wins. usage_windows st' = usage_windows st @ wins \<and> (\<forall>w \<in> set wins. last_snapshot_id st < win_snapshot w))"
  using assms
proof (induction ss arbitrary: st)
  case Nil
  then show ?case by simp
next
  case (Cons s ss)
  obtain sid st1 where a: "insert_snapshot s st = Inr (sid, st1)"
    and r: "try_fold (\<lambda>s s'. map_ok snd (insert_snapshot s s')) ss st1 = Inr st'"
    using Cons.prems(1) by (auto simp: result_simps)
  have ap: "append_usage_snapshot s st = Inr (sid, st1)" using a by (simp add: append_usage_snapshot_def)
  note c = append_cases [OF ap] and ih = Cons.IH [OF r append_ok [OF Cons.prems(2) ap]]
  have "st' = st\<lparr>usage_snapshots := usage_snapshots st', usage_windows := usage_windows st',
        last_snapshot_id := last_snapshot_id st'\<rparr>"
    by (subst ih [THEN conjunct2, THEN conjunct2, THEN conjunct1], subst append_frame [OF a]) simp
  moreover obtain rows where "usage_snapshots st' = usage_snapshots st1 @ rows" "map snapshot rows = ss"
    using ih by blast
  moreover obtain wins where w: "usage_windows st' = usage_windows st1 @ wins"
    "\<forall>w \<in> set wins. last_snapshot_id st1 < win_snapshot w"
    using ih by blast
  moreover have "last_snapshot_id st < win_snapshot w" if "w \<in> set wins" for w
    using w(2) that c by fastforce
  ultimately show ?case using ih c by (auto simp: new_row_def)
qed

text \<open>A whole batch.\<close>

lemma write_batch_effect:
  assumes w: "write_batch x mac b st = Inr st'" and P: "profiles_ok mac st" and U: "usage_ok st"
  obtains ps sn wn n tu tr where
    "st' = st\<lparr>profiles := ps, usage_snapshots := usage_snapshots st @ sn, usage_windows := usage_windows st @ wn,
       last_snapshot_id := n, token_usage := tu, token_revisions := tr,
       context_sessions := fold put_context (batch_contexts b) (context_sessions st),
       gemini_quotas := fold put_gemini (batch_gemini b) (gemini_quotas st)\<rparr>"
    "profiles_ok mac st'" "usage_ok st'"
    "filter (\<lambda>q. origin q = LocalOrigin) ps = filter (\<lambda>q. origin q = LocalOrigin) (profiles st)"
    "profile_key ` set ps \<subseteq> profile_key ` set (profiles st) \<union> profile_key ` set (batch_profiles b)"
    "\<And>q. (\<And>r. profile_key r \<in> profile_key ` set (batch_profiles b) \<Longrightarrow> \<not> q r)
       \<Longrightarrow> filter q ps = filter q (profiles st)"
    "map snapshot sn = batch_snapshots b" "\<forall>w \<in> set wn. last_snapshot_id st < win_snapshot w"
    "(\<lambda>r. token_key (grain r)) ` set tu
       \<subseteq> (\<lambda>r. token_key (grain r)) ` set (token_usage st) \<union> token_key ` set (batch_grains b)"
    "distinct (map (\<lambda>r. token_key (grain r)) (token_usage st)) \<Longrightarrow> distinct (map (\<lambda>r. token_key (grain r)) tu)"
    "\<And>q. (\<And>r. grain_scope (grain r) \<in> grain_scope ` set (batch_grains b) \<Longrightarrow> \<not> q r)
       \<Longrightarrow> filter q tu = filter q (token_usage st)"
    "\<And>q. (\<And>v. rev_scope v \<in> grain_scope ` set (batch_grains b) \<Longrightarrow> \<not> q v)
       \<Longrightarrow> filter q tr = filter q (token_revisions st)"
proof -
  obtain st1 st2 st3 st4 u where
    1: "try_fold (\<lambda>p s. map_ok snd (upsert_reported_profile mac p s)) (batch_profiles b) st = Inr st1"
    and 2: "try_fold (\<lambda>s s'. map_ok snd (insert_snapshot s s')) (batch_snapshots b) st1 = Inr st2"
    and 3: "upsert_token_batch x (batch_grains b) st2 = Inr (u, st3)"
    and 4: "try_fold (\<lambda>c s. map_ok snd (upsert_context c s)) (batch_contexts b) st3 = Inr st4"
    and 5: "try_fold (\<lambda>q s. map_ok snd (upsert_gemini q s)) (batch_gemini b) st4 = Inr st'"
    using w by (auto simp: write_batch_def result_simps)
  note p = profile_batch_frame [OF 1 P]
  obtain ps where st1: "st1 = st\<lparr>profiles := ps\<rparr>" using p by blast
  have "usage_ok st1" using U by (simp add: st1 usage_ok_def)
  note s = snapshot_batch_frame [OF 2 this]
  obtain sn wn n where st2: "st2 = st1\<lparr>usage_snapshots := usage_snapshots st1 @ sn,
      usage_windows := usage_windows st1 @ wn, last_snapshot_id := n\<rparr>"
    and sn: "map snapshot sn = batch_snapshots b" and wn: "\<forall>w \<in> set wn. last_snapshot_id st1 < win_snapshot w"
    using s by metis
  note t = token_batch_frame [OF 3]
  obtain tu tr where st3: "st3 = st2\<lparr>token_usage := tu, token_revisions := tr\<rparr>"
    using t unfolding token_frame_def by blast
  have st': "st' = st\<lparr>profiles := ps, usage_snapshots := usage_snapshots st @ sn,
       usage_windows := usage_windows st @ wn, last_snapshot_id := n, token_usage := tu, token_revisions := tr,
       context_sessions := fold put_context (batch_contexts b) (context_sessions st),
       gemini_quotas := fold put_gemini (batch_gemini b) (gemini_quotas st)\<rparr>"
    using upsert_contexts_Inr [OF 4] upsert_geminis_Inr [OF 5] by (simp add: st1 st2 st3)
  have t3: "token_usage st2 = token_usage st" "token_revisions st2 = token_revisions st"
    by (simp_all add: st1 st2)
  show ?thesis
  proof (rule that [OF st'])
    show "profiles_ok mac st'" using p by (simp add: st' st1 profiles_ok_def account_exists_def)
    show "usage_ok st'" using s by (simp add: st' st1 st2 usage_ok_def)
    show "filter (\<lambda>q. origin q = LocalOrigin) ps = filter (\<lambda>q. origin q = LocalOrigin) (profiles st)"
      "profile_key ` set ps \<subseteq> profile_key ` set (profiles st) \<union> profile_key ` set (batch_profiles b)"
      using p by (simp_all add: st1)
    show "filter q ps = filter q (profiles st)"
      if "\<And>r. profile_key r \<in> profile_key ` set (batch_profiles b) \<Longrightarrow> \<not> q r" for q
      using p that by (simp add: st1)
    show "map snapshot sn = batch_snapshots b" by (rule sn)
    show "\<forall>w \<in> set wn. last_snapshot_id st < win_snapshot w" using wn by (simp add: st1)
    show "(\<lambda>r. token_key (grain r)) ` set tu
       \<subseteq> (\<lambda>r. token_key (grain r)) ` set (token_usage st) \<union> token_key ` set (batch_grains b)"
      using t by (simp add: token_frame_def st3 t3)
    show "distinct (map (\<lambda>r. token_key (grain r)) tu)" if "distinct (map (\<lambda>r. token_key (grain r)) (token_usage st))"
      using t that by (simp add: token_frame_def st3 t3)
    show "filter q tu = filter q (token_usage st)"
      if "\<And>r. grain_scope (grain r) \<in> grain_scope ` set (batch_grains b) \<Longrightarrow> \<not> q r" for q
      using t that by (simp add: token_frame_def st3 t3)
    show "filter q tr = filter q (token_revisions st)"
      if "\<And>v. rev_scope v \<in> grain_scope ` set (batch_grains b) \<Longrightarrow> \<not> q v" for q
      using t that by (simp add: token_frame_def st3 t3)
  qed
qed

section \<open>Properties of an ingest\<close>

definition ingest_tables_ok :: "bool \<Rightarrow> store \<Rightarrow> bool" where
  "ingest_tables_ok on_macos st \<longleftrightarrow>
     profiles_ok on_macos st \<and> usage_ok st \<and> context_ok st \<and> gemini_ok st
     \<and> distinct (map (\<lambda>r. token_key (grain r)) (token_usage st))"

text \<open>
  Only rows of one account and machine changed: profiles of the account that are not local, appended
  snapshots and replay rows, tokens, revisions and context sessions of the machine, quotas of the account.
\<close>

definition scope_respected :: "int \<Rightarrow> string \<Rightarrow> store \<Rightarrow> store \<Rightarrow> bool" where
  "scope_respected acct mach st st' \<longleftrightarrow>
     st' = st\<lparr>profiles := profiles st', usage_snapshots := usage_snapshots st', usage_windows := usage_windows st',
       last_snapshot_id := last_snapshot_id st', token_usage := token_usage st',
       token_revisions := token_revisions st', context_sessions := context_sessions st',
       gemini_quotas := gemini_quotas st', ingest_replays := ingest_replays st'\<rparr>
     \<and> filter (\<lambda>p. origin p = LocalOrigin) (profiles st') = filter (\<lambda>p. origin p = LocalOrigin) (profiles st)
     \<and> filter (\<lambda>p. prof_account p \<noteq> acct) (profiles st') = filter (\<lambda>p. prof_account p \<noteq> acct) (profiles st)
     \<and> (\<exists>rows. usage_snapshots st' = usage_snapshots st @ rows
          \<and> (\<forall>r \<in> set rows. snap_account (snapshot r) = acct \<and> snap_machine (snapshot r) = mach))
     \<and> (\<exists>wins. usage_windows st' = usage_windows st @ wins \<and> (\<forall>w \<in> set wins. last_snapshot_id st < win_snapshot w))
     \<and> filter (\<lambda>r. \<not> (tok_account (grain r) = acct \<and> tok_machine (grain r) = mach)) (token_usage st')
         = filter (\<lambda>r. \<not> (tok_account (grain r) = acct \<and> tok_machine (grain r) = mach)) (token_usage st)
     \<and> filter (\<lambda>v. \<not> (rev_account v = acct \<and> rev_machine v = mach)) (token_revisions st')
         = filter (\<lambda>v. \<not> (rev_account v = acct \<and> rev_machine v = mach)) (token_revisions st)
     \<and> filter (\<lambda>c. \<not> (ctx_account c = acct \<and> ctx_machine c = mach)) (context_sessions st')
         = filter (\<lambda>c. \<not> (ctx_account c = acct \<and> ctx_machine c = mach)) (context_sessions st)
     \<and> filter (\<lambda>q. gem_account q \<noteq> acct) (gemini_quotas st') = filter (\<lambda>q. gem_account q \<noteq> acct) (gemini_quotas st)
     \<and> (\<exists>rows. ingest_replays st' = ingest_replays st @ rows
          \<and> (\<forall>r \<in> set rows. replay_account r = acct \<and> replay_machine r = mach))"

lemma scope_respected_refl: "scope_respected acct mach st st"
  by (simp add: scope_respected_def)

lemma ingest_once_cases:
  assumes "ingest_batch_once x mac acct mach b lims rp st = Inr (res, st')"
  obtains (replay) r where "find (same_request acct mach (request_id rp)) (ingest_replays st) = Some r"
      "payload_fingerprint r = request_fingerprint rp"
      "res = \<lparr>outcome_counts = stored_result r, replayed = True\<rparr>" "st' = st"
    | (fresh) st1 where "batch_in_scope acct mach b" "validate_replay rp = Inr ()"
      "find (same_request acct mach (request_id rp)) (ingest_replays st) = None"
      "account_replays acct st < max_ingest_replays" "enforce_ingest_caps acct b lims st = Inr ()"
      "write_batch x mac b st = Inr st1"
      "st' = st1\<lparr>ingest_replays := ingest_replays st1 @ [new_replay acct mach b rp]\<rparr>"
      "res = \<lparr>outcome_counts = batch_result b, replayed = False\<rparr>"
  using assms
  by (auto simp: ingest_batch_once_def insert_replay_def validate_ingest_scope_def result_simps
      split: option.splits if_splits)

lemma ingest_once_effect:
  assumes "ingest_batch_once x mac acct mach b lims rp st = Inr (res, st')" and ok: "ingest_tables_ok mac st"
  shows "scope_respected acct mach st st' \<and> ingest_tables_ok mac st'"
  using assms(1)
proof (cases rule: ingest_once_cases)
  case (replay r)
  then show ?thesis using ok by (simp add: scope_respected_refl)
next
  case (fresh st1)
  have P: "profiles_ok mac st" "usage_ok st" using ok by (simp_all add: ingest_tables_ok_def)
  show ?thesis
  proof (rule write_batch_effect [OF fresh(6) P])
    fix ps sn wn n tu tr
    assume st1: "st1 = st\<lparr>profiles := ps, usage_snapshots := usage_snapshots st @ sn,
        usage_windows := usage_windows st @ wn, last_snapshot_id := n, token_usage := tu, token_revisions := tr,
        context_sessions := fold put_context (batch_contexts b) (context_sessions st),
        gemini_quotas := fold put_gemini (batch_gemini b) (gemini_quotas st)\<rparr>"
      and p1: "profiles_ok mac st1" and u1: "usage_ok st1"
      and loc: "filter (\<lambda>q. origin q = LocalOrigin) ps = filter (\<lambda>q. origin q = LocalOrigin) (profiles st)"
      and pf: "\<And>q. (\<And>r. profile_key r \<in> profile_key ` set (batch_profiles b) \<Longrightarrow> \<not> q r)
        \<Longrightarrow> filter q ps = filter q (profiles st)"
      and sn: "map snapshot sn = batch_snapshots b" and wn: "\<forall>w \<in> set wn. last_snapshot_id st < win_snapshot w"
      and td: "distinct (map (\<lambda>r. token_key (grain r)) (token_usage st))
        \<Longrightarrow> distinct (map (\<lambda>r. token_key (grain r)) tu)"
      and tf: "\<And>q. (\<And>r. grain_scope (grain r) \<in> grain_scope ` set (batch_grains b) \<Longrightarrow> \<not> q r)
        \<Longrightarrow> filter q tu = filter q (token_usage st)"
      and rf: "\<And>q. (\<And>v. rev_scope v \<in> grain_scope ` set (batch_grains b) \<Longrightarrow> \<not> q v)
        \<Longrightarrow> filter q tr = filter q (token_revisions st)"
    note sc = fresh(1) [unfolded batch_in_scope_def list_all_iff]
    have "filter (\<lambda>p. prof_account p \<noteq> acct) ps = filter (\<lambda>p. prof_account p \<noteq> acct) (profiles st)"
      by (rule pf) (use sc in \<open>auto simp: profile_key_def\<close>)
    moreover have "snap_account (snapshot r) = acct \<and> snap_machine (snapshot r) = mach" if "r \<in> set sn" for r
    proof -
      have "snapshot r \<in> set (batch_snapshots b)" using that by (simp flip: sn)
      then show ?thesis using sc by blast
    qed
    moreover have "filter (\<lambda>r. \<not> (tok_account (grain r) = acct \<and> tok_machine (grain r) = mach)) tu
        = filter (\<lambda>r. \<not> (tok_account (grain r) = acct \<and> tok_machine (grain r) = mach)) (token_usage st)"
      by (rule tf) (use sc in \<open>auto simp: grain_scope_def\<close>)
    moreover have "filter (\<lambda>v. \<not> (rev_account v = acct \<and> rev_machine v = mach)) tr
        = filter (\<lambda>v. \<not> (rev_account v = acct \<and> rev_machine v = mach)) (token_revisions st)"
      by (rule rf) (use sc in \<open>auto simp: grain_scope_def rev_scope_def\<close>)
    moreover have "filter (\<lambda>c. \<not> (ctx_account c = acct \<and> ctx_machine c = mach))
          (fold put_context (batch_contexts b) (context_sessions st))
        = filter (\<lambda>c. \<not> (ctx_account c = acct \<and> ctx_machine c = mach)) (context_sessions st)"
      by (rule context_table.puts_filter) (use sc in \<open>auto simp: context_key_def\<close>)
    moreover have "filter (\<lambda>q. gem_account q \<noteq> acct) (fold put_gemini (batch_gemini b) (gemini_quotas st))
        = filter (\<lambda>q. gem_account q \<noteq> acct) (gemini_quotas st)"
      by (rule gemini_table.puts_filter) (use sc in \<open>auto simp: gemini_key_def\<close>)
    ultimately have "scope_respected acct mach st st'"
      using loc wn by (simp add: scope_respected_def fresh(7) st1 new_replay_def)
    moreover have "ingest_tables_ok mac st'"
      using ok p1 u1 td context_table.puts_distinct gemini_table.puts_distinct
      by (simp add: ingest_tables_ok_def fresh(7) st1 profiles_ok_def account_exists_def usage_ok_def
          context_ok_def gemini_ok_def)
    ultimately show ?thesis ..
  qed
qed


text \<open>How far a batch can grow each table.\<close>

lemma profile_growth:
  assumes P: "profiles_ok mac st" and d: "distinct (map profile_key ps)"
    and pk: "profile_key ` set ps \<subseteq> profile_key ` set (profiles st) \<union> profile_key ` set bs"
    and sc: "\<forall>p \<in> set bs. prof_account p = acct"
  shows "count_where (\<lambda>p. prof_account p = acct) ps
    \<le> count_where (\<lambda>p. prof_account p = acct) (profiles st)
      + count_new (\<lambda>n. profile_exists acct n st) (map prof_name bs)"
proof -
  have "profile_key ` set bs = Pair acct ` set (map prof_name bs)"
    using sc by (auto simp: profile_key_def image_iff)
  moreover have "profile_exists acct n st \<longleftrightarrow> (acct, n) \<in> profile_key ` set (profiles st)" for n
    by (auto simp: profile_exists_def exists_where_def profile_key_def)
  ultimately have "count_where (\<lambda>r. fst (profile_key r) = acct) ps
      \<le> count_where (\<lambda>r. fst (profile_key r) = acct) (profiles st)
        + count_new (\<lambda>n. profile_exists acct n st) (map prof_name bs)"
    using profiles_ok_distinct [OF P] d pk
    by (intro keyed_growth [where f = "Pair acct" and q = "\<lambda>k. fst k = acct"]) simp_all
  then show ?thesis by (simp add: profile_key_def)
qed

lemma token_growth:
  fixes tu :: "token_row list"
  assumes "distinct (map (\<lambda>r. token_key (grain r)) (token_usage st))"
    and "distinct (map (\<lambda>r. token_key (grain r)) (token_usage st)) \<Longrightarrow> distinct (map (\<lambda>r. token_key (grain r)) tu)"
    and "(\<lambda>r. token_key (grain r)) ` set tu
      \<subseteq> (\<lambda>r. token_key (grain r)) ` set (token_usage st) \<union> token_key ` set gs"
  shows "count_where (\<lambda>r. tok_account (grain r) = acct) tu
    \<le> count_where (\<lambda>r. tok_account (grain r) = acct) (token_usage st)
      + count_new (\<lambda>k. exists_where (\<lambda>r. token_key (grain r) = k) (token_usage st)) (map token_key gs)"
proof -
  have "count_where (\<lambda>r. fst (fst (token_key (grain r))) = acct) tu
      \<le> count_where (\<lambda>r. fst (fst (token_key (grain r))) = acct) (token_usage st)
        + count_new (\<lambda>k. exists_where (\<lambda>r. token_key (grain r) = k) (token_usage st)) (map token_key gs)"
    by (rule keyed_growth [where key = "\<lambda>r :: token_row. token_key (grain r)" and f = id and q = "\<lambda>k. fst (fst k) = acct",
          OF assms(1) assms(2) [OF assms(1)]])
      (use assms(3) in \<open>simp_all add: exists_where_key image_image\<close>)
  then show ?thesis by (simp add: token_key_def grain_scope_def)
qed

lemma context_growth:
  assumes "context_ok st"
  shows "count_where (\<lambda>c. ctx_account c = acct) (fold put_context cs (context_sessions st))
    \<le> count_where (\<lambda>c. ctx_account c = acct) (context_sessions st)
      + count_new (\<lambda>k. exists_where (\<lambda>r. context_key r = k) (context_sessions st)) (map context_key cs)"
proof -
  have "count_where (\<lambda>r. fst (context_key r) = acct) (fold put_context cs (context_sessions st))
      \<le> count_where (\<lambda>r. fst (context_key r) = acct) (context_sessions st)
        + count_new (\<lambda>k. exists_where (\<lambda>r. context_key r = k) (context_sessions st)) (map context_key cs)"
    using assms context_table.puts_distinct context_table.puts_keys
    by (intro keyed_growth [where f = id and q = "\<lambda>k. fst k = acct"])
      (simp_all add: context_ok_def exists_where_key)
  then show ?thesis by (simp add: context_key_def)
qed

lemma gemini_growth:
  assumes "gemini_ok st" and sc: "\<forall>q \<in> set qs. gem_account q = acct"
  shows "count_where (\<lambda>q. gem_account q = acct) (fold put_gemini qs (gemini_quotas st))
    \<le> count_where (\<lambda>q. gem_account q = acct) (gemini_quotas st)
      + count_new (\<lambda>m. exists_where (\<lambda>r. gemini_key r = (acct, m)) (gemini_quotas st)) (map gem_model_id qs)"
proof -
  have "gemini_key ` set qs = Pair acct ` set (map gem_model_id qs)"
    using sc by (auto simp: gemini_key_def image_iff)
  then have "count_where (\<lambda>r. fst (gemini_key r) = acct) (fold put_gemini qs (gemini_quotas st))
      \<le> count_where (\<lambda>r. fst (gemini_key r) = acct) (gemini_quotas st)
        + count_new (\<lambda>m. exists_where (\<lambda>r. gemini_key r = (acct, m)) (gemini_quotas st)) (map gem_model_id qs)"
    using assms(1) gemini_table.puts_distinct gemini_table.puts_keys [of qs "gemini_quotas st"]
    by (intro keyed_growth [where f = "Pair acct" and q = "\<lambda>k. fst k = acct"])
      (simp_all add: gemini_ok_def exists_where_key)
  then show ?thesis by (simp add: gemini_key_def)
qed

text \<open>
  An accepted new request keeps every cap of its account: afterwards the account has no more
  profiles, snapshots, token rows, context sessions, Gemini models and replay keys than the limits of
  the request allow, although the check ran before the writes and the batch may repeat keys.
\<close>

theorem ingest_keeps_caps:
  assumes "ingest_batch_once x mac acct mach b lims rp st = Inr (res, st')" and "\<not> replayed res"
    and ok: "ingest_tables_ok mac st"
  shows "account_profiles acct st' \<le> max_profiles lims
    \<and> account_snapshots acct st' \<le> max_usage_snapshots lims
    \<and> account_grains acct st' \<le> max_token_rows lims
    \<and> account_contexts acct st' \<le> max_context_sessions lims
    \<and> account_gemini acct st' \<le> max_gemini_models lims
    \<and> account_replays acct st' \<le> max_ingest_replays"
  using assms(1)
proof (cases rule: ingest_once_cases)
  case (replay r)
  then show ?thesis using assms(2) by simp
next
  case (fresh st1)
  have P: "profiles_ok mac st" "usage_ok st" using ok by (simp_all add: ingest_tables_ok_def)
  note sc = fresh(1) [unfolded batch_in_scope_def list_all_iff]
  show ?thesis
  proof (rule write_batch_effect [OF fresh(6) P])
    fix ps sn wn n tu tr
    assume st1: "st1 = st\<lparr>profiles := ps, usage_snapshots := usage_snapshots st @ sn,
        usage_windows := usage_windows st @ wn, last_snapshot_id := n, token_usage := tu, token_revisions := tr,
        context_sessions := fold put_context (batch_contexts b) (context_sessions st),
        gemini_quotas := fold put_gemini (batch_gemini b) (gemini_quotas st)\<rparr>"
      and p1: "profiles_ok mac st1"
      and pk: "profile_key ` set ps \<subseteq> profile_key ` set (profiles st) \<union> profile_key ` set (batch_profiles b)"
      and sn: "map snapshot sn = batch_snapshots b"
      and tk: "(\<lambda>r. token_key (grain r)) ` set tu
         \<subseteq> (\<lambda>r. token_key (grain r)) ` set (token_usage st) \<union> token_key ` set (batch_grains b)"
      and td: "distinct (map (\<lambda>r. token_key (grain r)) (token_usage st))
        \<Longrightarrow> distinct (map (\<lambda>r. token_key (grain r)) tu)"
    have caps: "account_profiles acct st + count_new (\<lambda>n. profile_exists acct n st) (map prof_name (batch_profiles b))
          \<le> max_profiles lims"
      "account_snapshots acct st + length (batch_snapshots b) \<le> max_usage_snapshots lims"
      "account_grains acct st + count_new (\<lambda>k. exists_where (\<lambda>r. token_key (grain r) = k) (token_usage st))
          (map token_key (batch_grains b)) \<le> max_token_rows lims"
      "account_contexts acct st + count_new (\<lambda>k. exists_where (\<lambda>r. context_key r = k) (context_sessions st))
          (map context_key (batch_contexts b)) \<le> max_context_sessions lims"
      "account_gemini acct st + count_new (\<lambda>m. exists_where (\<lambda>r. gemini_key r = (acct, m)) (gemini_quotas st))
          (map gem_model_id (batch_gemini b)) \<le> max_gemini_models lims"
      using fresh(5) by (auto simp: enforce_ingest_caps_def Let_def not_less split: if_splits)
    have "account_profiles acct st' \<le> account_profiles acct st
        + count_new (\<lambda>n. profile_exists acct n st) (map prof_name (batch_profiles b))"
      using profile_growth [OF P(1) _ pk] profiles_ok_distinct [OF p1] sc by (simp add: account_profiles_def fresh(7) st1)
    moreover have "account_snapshots acct st' \<le> account_snapshots acct st + length (batch_snapshots b)"
    proof -
      have "count_where (\<lambda>r. snap_account (snapshot r) = acct) sn \<le> length sn" by (simp add: count_where_def)
      moreover have "length sn = length (batch_snapshots b)" by (simp flip: sn)
      ultimately show ?thesis by (simp add: account_snapshots_def fresh(7) st1)
    qed
    moreover have "account_grains acct st' \<le> account_grains acct st
        + count_new (\<lambda>k. exists_where (\<lambda>r. token_key (grain r) = k) (token_usage st))
            (map token_key (batch_grains b))"
      using token_growth [OF _ td tk] ok by (simp add: ingest_tables_ok_def account_grains_def fresh(7) st1)
    moreover have "account_contexts acct st' \<le> account_contexts acct st
        + count_new (\<lambda>k. exists_where (\<lambda>r. context_key r = k) (context_sessions st))
            (map context_key (batch_contexts b))"
      using context_growth ok by (simp add: ingest_tables_ok_def account_contexts_def fresh(7) st1)
    moreover have "account_gemini acct st' \<le> account_gemini acct st
        + count_new (\<lambda>m. exists_where (\<lambda>r. gemini_key r = (acct, m)) (gemini_quotas st))
            (map gem_model_id (batch_gemini b))"
      using gemini_growth sc ok by (simp add: ingest_tables_ok_def account_gemini_def fresh(7) st1)
    moreover have "account_replays acct st' \<le> max_ingest_replays"
      using fresh(4) by (simp add: account_replays_def fresh(7) st1 new_replay_def)
    ultimately show ?thesis using caps by linarith
  qed
qed

section \<open>Requests in sequence\<close>

record ingest_request =
  req_account :: int
  req_machine :: string
  req_batch :: ingest_batch
  req_limits :: ingest_limits
  req_replay :: ingest_replay

definition ingest_step :: "token_extern \<Rightarrow> bool \<Rightarrow> ingest_request \<Rightarrow> store \<Rightarrow> store" where
  "ingest_step x on_macos q st =
     (case ingest_batch_once x on_macos (req_account q) (req_machine q) (req_batch q) (req_limits q)
             (req_replay q) st of
        Inl _ \<Rightarrow> st | Inr (_, st') \<Rightarrow> st')"

lemma ingest_run_replays:
  assumes "ingest_tables_ok mac st"
  shows "ingest_tables_ok mac (fold (ingest_step x mac) qs st)
    \<and> (\<exists>rows. ingest_replays (fold (ingest_step x mac) qs st) = ingest_replays st @ rows)"
  using assms
proof (induction qs arbitrary: st)
  case (Cons q qs)
  have "ingest_tables_ok mac (ingest_step x mac q st)
      \<and> (\<exists>rows. ingest_replays (ingest_step x mac q st) = ingest_replays st @ rows)"
    using Cons.prems ingest_once_effect [OF _ Cons.prems]
    by (auto simp: ingest_step_def scope_respected_def split: sum.split) blast+
  then show ?case using Cons.IH [of "ingest_step x mac q st"] by auto
qed simp

lemma stored_result_new: "stored_result (new_replay acct mach b rp) = batch_result b"
  by (simp add: stored_result_def new_replay_def batch_result_def)

text \<open>After an accepted request its replay row answers.\<close>

lemma ingest_leaves_replay:
  assumes i: "ingest_batch_once x mac acct mach b lims rp st = Inr (res, st')" and "ingest_tables_ok mac st"
  shows "\<exists>r. find (same_request acct mach (request_id rp)) (ingest_replays st') = Some r
    \<and> payload_fingerprint r = request_fingerprint rp \<and> stored_result r = outcome_counts res"
  using i
proof (cases rule: ingest_once_cases)
  case (fresh st1)
  obtain rows where "ingest_replays st' = ingest_replays st @ rows"
    using ingest_once_effect [OF assms] unfolding scope_respected_def by blast
  moreover have "ingest_replays st1 = ingest_replays st"
    by (rule write_batch_effect [OF fresh(6)]) (use assms(2) in \<open>auto simp: ingest_tables_ok_def\<close>)
  ultimately have "ingest_replays st' = ingest_replays st @ [new_replay acct mach b rp]" using fresh(7) by simp
  then show ?thesis
    using fresh(3,8) by (simp add: find_append same_request_def new_replay_def stored_result_def batch_result_def)
qed auto

text \<open>
  C5. Exactly once: after a request was accepted, however many other requests of any account follow,
  sending it again changes nothing and answers with the counts of the first time, marked as
  replayed, even when the limits or the batch were changed in between; the same request id with
  another payload is refused as a conflict.
\<close>

theorem ingest_exactly_once:
  assumes "ingest_batch_once x mac acct mach b lims rp st = Inr (res, st1)" and "ingest_tables_ok mac st"
    and st2: "st2 = fold (ingest_step x mac) qs st1"
    and v: "validate_ingest_scope mac acct mach b2 lims2 = Inr ()" "validate_replay rp2 = Inr ()"
    and i: "request_id rp2 = request_id rp"
  shows "ingest_batch_once x mac acct mach b2 lims2 rp2 st2 =
    (if request_fingerprint rp2 = request_fingerprint rp
     then Inr (\<lparr>outcome_counts = outcome_counts res, replayed = True\<rparr>, st2)
     else Inl (new_error Conflict ''ingest request id was reused with a different payload''))"
proof -
  obtain r where r: "find (same_request acct mach (request_id rp)) (ingest_replays st1) = Some r"
    "payload_fingerprint r = request_fingerprint rp" "stored_result r = outcome_counts res"
    using ingest_leaves_replay [OF assms(1,2)] by blast
  have "ingest_tables_ok mac st1" using ingest_once_effect [OF assms(1,2)] by simp
  from ingest_run_replays [OF this] obtain rows where "ingest_replays st2 = ingest_replays st1 @ rows"
    unfolding st2 by blast
  then have "find (same_request acct mach (request_id rp)) (ingest_replays st2) = Some r"
    using r(1) by (simp add: find_append)
  then show ?thesis using v r(2,3) i by (simp add: ingest_batch_once_def)
qed

text \<open>
  The replay table of an account never shrinks: once it is full, no sequence of requests makes
  room again, and every request of the account with an id that was not stored before is refused.
\<close>

theorem full_replay_table_refuses_forever:
  assumes "max_ingest_replays \<le> account_replays acct st" and "ingest_tables_ok mac st"
    and "find (same_request acct mach (request_id rp)) (ingest_replays st) = None"
  shows "\<not> is_ok (ingest_batch_once x mac acct mach b lims rp (fold (ingest_step x mac) qs st))"
  using assms
proof (induction qs arbitrary: st)
  case Nil
  then show ?case by (auto simp: is_ok_iff elim!: ingest_once_cases)
next
  case (Cons q qs)
  let ?st1 = "ingest_step x mac q st"
  obtain rows where rows: "ingest_replays ?st1 = ingest_replays st @ rows"
    and ok: "ingest_tables_ok mac ?st1"
    using ingest_run_replays [OF Cons.prems(2), of x "[q]"] by auto
  have "rows = [] \<or> req_account q \<noteq> acct \<and> rows = [new_replay (req_account q) (req_machine q) (req_batch q) (req_replay q)]"
  proof (cases "ingest_batch_once x mac (req_account q) (req_machine q) (req_batch q) (req_limits q) (req_replay q) st")
    case (Inl e)
    then show ?thesis using rows by (simp add: ingest_step_def)
  next
    case (Inr p)
    obtain res st1 where p: "p = (res, st1)" by fastforce
    from Inr [unfolded p] show ?thesis
    proof (cases rule: ingest_once_cases)
      case (replay r)
      then show ?thesis using rows Inr p by (simp add: ingest_step_def)
    next
      case (fresh st2)
      have "ingest_replays st2 = ingest_replays st"
        by (rule write_batch_effect [OF fresh(6)]) (use Cons.prems(2) in \<open>auto simp: ingest_tables_ok_def\<close>)
      then show ?thesis using rows Inr p fresh(4,7) Cons.prems(1) by (auto simp: ingest_step_def)
    qed
  qed
  then have "find (same_request acct mach (request_id rp)) rows = None"
    by (auto simp: same_request_def new_replay_def)
  then have "find (same_request acct mach (request_id rp)) (ingest_replays ?st1) = None"
    using Cons.prems(3) by (simp add: rows find_append)
  moreover have "max_ingest_replays \<le> account_replays acct ?st1"
    using rows Cons.prems(1) by (simp add: account_replays_def)
  ultimately show ?case using Cons.IH [OF _ ok] by simp
qed

section \<open>Examples\<close>

definition ingest_example_store :: store where
  "ingest_example_store =
     identity_example_store\<lparr>machines := [\<lparr>mach_account = 1, mach_name = ''host'', first_seen = 0, last_seen = 0\<rparr>],
       ingest_tokens := [example_token]\<rparr>"

definition example_session :: "instant \<Rightarrow> context_session" where
  "example_session t = (example_context t)\<lparr>ctx_profile := ''remote''\<rparr>"

definition example_batch :: "instant \<Rightarrow> ingest_batch" where
  "example_batch t =
     \<lparr>batch_profiles = [], batch_snapshots = [], batch_grains = [], batch_contexts = [example_session t],
      batch_gemini = []\<rparr>"

definition example_replay :: ingest_replay where
  "example_replay = \<lparr>request_id = ''r1'', request_fingerprint = example_hash [], request_received = 9\<rparr>"

lemma ingest_example_ok: "ingest_tables_ok True (ingest_example_store\<lparr>ingest_replays := rs\<rparr>)"
proof -
  have "profiles_ok True (ingest_example_store\<lparr>ingest_replays := rs\<rparr>)"
    using identity_example_ok by (simp add: profiles_ok_def account_exists_def ingest_example_store_def)
  then show ?thesis
    by (simp add: ingest_tables_ok_def usage_ok_def context_ok_def gemini_ok_def ingest_example_store_def
        identity_example_store_def empty_store_def)
qed

lemma ingest_example_tables [simp]:
  "ingest_replays ingest_example_store = []" "context_sessions ingest_example_store = []"
  "usage_snapshots ingest_example_store = []" "token_usage ingest_example_store = []"
  "gemini_quotas ingest_example_store = []"
  "account_profiles 1 ingest_example_store = 2"
  by (simp_all add: ingest_example_store_def identity_example_store_def empty_store_def account_profiles_def)
    (simp add: example_profile_def reported_example_def)

lemma ingest_example_ok0: "ingest_tables_ok True ingest_example_store"
proof -
  have "ingest_example_store\<lparr>ingest_replays := []\<rparr> = ingest_example_store"
    by (simp add: ingest_example_store_def identity_example_store_def empty_store_def)
  then show ?thesis using ingest_example_ok [of "[]"] by metis
qed

lemma example_session_simps [simp]:
  "ctx_account (example_session t) = 1" "ctx_machine (example_session t) = ''host''"
  "ctx_profile (example_session t) = ''remote''"
  "context_session_validate (example_session t) = Inr ()"
  "context_columns (example_session t) = Inr (Some 50, Some 100)"
  using example_context_simps(3,4) [of t]
  by (simp_all add: example_session_def context_session_validate_def context_columns_def example_context_def)

lemma example_batch_scope: "validate_ingest_scope True 1 ''host'' (example_batch t) default_ingest_limits = Inr ()"
  by (simp add: validate_ingest_scope_def row_count_def batch_in_scope_def example_batch_def
      default_ingest_limits_def)

lemma example_replay_valid: "validate_replay example_replay = Inr ()"
  by (simp add: validate_replay_def example_replay_def request_byte_def is_ascii_alphanumeric_def
      is_ascii_alphabetic_def is_ascii_lower_def is_ascii_digit_def byte_of_def validate_token_hash_def
      example_hash_def is_hex_lower_def list_all_iff)

lemma ingest_example_fk:
  "profile_exists 1 ''remote'' ingest_example_store" "machine_exists 1 ''host'' ingest_example_store"
  by (simp_all add: profile_exists_def machine_exists_def exists_where_def ingest_example_store_def
      identity_example_store_def reported_example_def)

lemma example_write:
  "write_batch example_extern True (example_batch t) ingest_example_store =
     Inr (ingest_example_store\<lparr>context_sessions := [example_session t]\<rparr>)"
  by (simp add: write_batch_def example_batch_def upsert_token_batch_def batch_scopes_def upsert_context_def
      ingest_example_fk put_context_def upsert_where_def exists_where_def)

lemma example_caps: "enforce_ingest_caps 1 (example_batch t) default_ingest_limits ingest_example_store = Inr ()"
  by (simp add: enforce_ingest_caps_def default_ingest_limits_def example_batch_def count_new_def
      exists_where_def account_snapshots_def account_grains_def account_contexts_def account_gemini_def)

lemma example_ingest:
  "ingest_batch_once example_extern True 1 ''host'' (example_batch t) default_ingest_limits
    example_replay ingest_example_store =
    Inr (\<lparr>outcome_counts = batch_result (example_batch t), replayed = False\<rparr>,
      ingest_example_store\<lparr>context_sessions := [example_session t],
        ingest_replays := [new_replay 1 ''host'' (example_batch t) example_replay]\<rparr>)"
proof -
  have "machine_exists 1 ''host'' (ingest_example_store\<lparr>context_sessions := [example_session t]\<rparr>)"
    using ingest_example_fk(2) by (simp add: machine_exists_def)
  then show ?thesis
    by (simp add: ingest_batch_once_def example_batch_scope example_replay_valid account_replays_def
        max_ingest_replays_def example_caps example_write insert_replay_def new_replay_def)
qed


theorem ingest_keeps_caps_witness:
  "\<exists>res st'. ingest_batch_once example_extern True 1 ''host'' (example_batch 7) default_ingest_limits
      example_replay ingest_example_store = Inr (res, st')
    \<and> account_contexts 1 st' \<le> max_context_sessions default_ingest_limits"
  using ingest_keeps_caps [OF example_ingest _ ingest_example_ok0, of 7] example_ingest [of 7] by simp

text \<open>The retry of a request after a later one with another id.\<close>

theorem ingest_exactly_once_witness:
  "\<exists>res st1. ingest_batch_once example_extern True 1 ''host'' (example_batch 7) default_ingest_limits
      example_replay ingest_example_store = Inr (res, st1)
    \<and> (let st2 = fold (ingest_step example_extern True)
            [\<lparr>req_account = 1, req_machine = ''host'', req_batch = example_batch 9,
              req_limits = default_ingest_limits, req_replay = example_replay\<lparr>request_id := ''r2''\<rparr>\<rparr>] st1
       in ingest_batch_once example_extern True 1 ''host'' (example_batch 8) default_ingest_limits example_replay st2
            = Inr (\<lparr>outcome_counts = outcome_counts res, replayed = True\<rparr>, st2))"
  unfolding Let_def
  by (rule exI, rule exI, rule conjI, rule example_ingest [of 7],
      subst ingest_exactly_once [OF example_ingest [of 7] ingest_example_ok0 refl example_batch_scope
        example_replay_valid refl], simp)

theorem full_replay_table_refuses_forever_witness:
  "\<not> is_ok (ingest_batch_once example_extern True 1 ''host'' (example_batch 7) default_ingest_limits example_replay
     (ingest_example_store\<lparr>ingest_replays :=
        map (\<lambda>i. \<lparr>replay_account = 1, replay_machine = ''host'', replay_request = ''q'' @ show_nat i,
               payload_fingerprint = example_hash [], replay_counts = (0, 0, 0, 0), received_at = 0\<rparr>)
          [0..<200000]\<rparr>))"
proof -
  let ?rows = "map (\<lambda>i. \<lparr>replay_account = 1, replay_machine = ''host'', replay_request = ''q'' @ show_nat i,
      payload_fingerprint = example_hash [], replay_counts = (0, 0, 0, 0), received_at = 0\<rparr>) [0..<200000]"
  have "filter (\<lambda>r. replay_account r = 1) ?rows = ?rows" by (rule filter_True) auto
  then have "account_replays 1 (ingest_example_store\<lparr>ingest_replays := ?rows\<rparr>) = 200000"
    by (simp add: account_replays_def count_where_def del: upt_Suc upt_rec_numeral)
  then have c: "max_ingest_replays \<le> account_replays 1 (ingest_example_store\<lparr>ingest_replays := ?rows\<rparr>)"
    by (simp only: max_ingest_replays_def)
  have n: "find (same_request 1 ''host'' (request_id example_replay))
      (ingest_replays (ingest_example_store\<lparr>ingest_replays := ?rows\<rparr>)) = None"
    by (auto simp: find_None_iff same_request_def example_replay_def simp del: upt_rec_numeral)
  show ?thesis
    using full_replay_table_refuses_forever [OF c ingest_example_ok n, where qs = "[]"] by simp
qed

end
