(* ===== verification/Rate_Limiter.thy ===== *)
theory Rate_Limiter
  imports Pulse_Base
begin

text \<open>
  The bounded fixed-window rate limiter of \<open>src/src/pulse/ingest.rs\<close> (\<open>BoundedRateLimiter\<close>). Monotonic
  instants and durations are milliseconds in \<open>nat\<close>, whose subtraction is
  \<open>saturating_duration_since\<close>. The hash map is a list of pairs; its iteration order, which breaks
  ties among the oldest entries, is the order of the list.
\<close>

section \<open>The limiter\<close>

record rate_entry =
  window_started :: nat
  entry_last_seen :: nat
  entry_attempts :: nat

record 'k rate_limiter =
  entries :: "('k \<times> rate_entry) list"
  rate_limit :: nat
  rate_window :: nat
  max_entries :: nat

definition limiter_new :: "nat \<Rightarrow> nat \<Rightarrow> nat \<Rightarrow> 'k rate_limiter pulse_result" where
  "limiter_new quota wnd cap =
     (if quota = 0 \<or> wnd = 0 \<or> cap = 0 \<or> cap > 100000
      then Inl (configuration ''Pulse ingest rate limiter bounds are invalid'')
      else Inr \<lparr>entries = [], rate_limit = quota, rate_window = wnd, max_entries = cap\<rparr>)"

definition fresh_entry :: "nat \<Rightarrow> rate_entry" where
  "fresh_entry now = \<lparr>window_started = now, entry_last_seen = now, entry_attempts = 1\<rparr>"

definition saturate_u32 :: "nat \<Rightarrow> nat" where
  "saturate_u32 n = min n u32_max"

text \<open>The update of the entry a call finds, with the answer.\<close>

definition hit_entry :: "nat \<Rightarrow> nat \<Rightarrow> nat \<Rightarrow> rate_entry \<Rightarrow> bool \<times> rate_entry" where
  "hit_entry quota wnd now e =
     (if now - window_started e \<ge> wnd then (True, fresh_entry now)
      else let n = saturate_u32 (entry_attempts e + 1)
           in (n \<le> quota, e\<lparr>entry_last_seen := now, entry_attempts := n\<rparr>))"

definition entry_live :: "nat \<Rightarrow> nat \<Rightarrow> rate_entry \<Rightarrow> bool" where
  "entry_live wnd now e \<longleftrightarrow> now - entry_last_seen e \<le> wnd"

definition evict_oldest :: "nat \<Rightarrow> ('k \<times> rate_entry) list \<Rightarrow> ('k \<times> rate_entry) list" where
  "evict_oldest cap es =
     (if length es \<ge> cap
      then (case sort_key (\<lambda>p. entry_last_seen (snd p)) es of
              [] \<Rightarrow> es
            | oldest # _ \<Rightarrow> filter (\<lambda>p. fst p \<noteq> fst oldest) es)
      else es)"

definition limiter_allow :: "'k \<Rightarrow> nat \<Rightarrow> 'k rate_limiter \<Rightarrow> bool \<times> 'k rate_limiter" where
  "limiter_allow k now l =
     (let es = filter (\<lambda>p. entry_live (rate_window l) now (snd p)) (entries l) in
      case map_of es k of
        Some e \<Rightarrow>
          (case hit_entry (rate_limit l) (rate_window l) now e of (ok, e') \<Rightarrow>
            (ok, l\<lparr>entries := map (\<lambda>p. if fst p = k then (k, e') else p) es\<rparr>))
      | None \<Rightarrow> (True, l\<lparr>entries := evict_oldest (max_entries l) es @ [(k, fresh_entry now)]\<rparr>))"

text \<open>The answers of a sequence of calls.\<close>

fun limiter_run :: "('k \<times> nat) list \<Rightarrow> 'k rate_limiter \<Rightarrow> ('k \<times> nat \<times> bool) list \<times> 'k rate_limiter" where
  "limiter_run [] l = ([], l)"
| "limiter_run ((k, now) # calls) l =
     (case limiter_allow k now l of (ok, l1) \<Rightarrow>
      case limiter_run calls l1 of (out, l2) \<Rightarrow> ((k, now, ok) # out, l2))"

section \<open>The entry of one key\<close>

definition keep_entry :: "nat \<Rightarrow> nat \<Rightarrow> rate_entry option \<Rightarrow> rate_entry option" where
  "keep_entry wnd now e = (case e of None \<Rightarrow> None | Some e \<Rightarrow> if entry_live wnd now e then Some e else None)"

definition hit_option :: "nat \<Rightarrow> nat \<Rightarrow> nat \<Rightarrow> rate_entry option \<Rightarrow> bool \<times> rate_entry" where
  "hit_option quota wnd now e = (case e of None \<Rightarrow> (True, fresh_entry now) | Some e \<Rightarrow> hit_entry quota wnd now e)"

lemma map_of_filter_live:
  "distinct (map fst es) \<Longrightarrow>
     map_of (filter (\<lambda>p. entry_live w now (snd p)) es) k = keep_entry w now (map_of es k)"
proof (induction es)
  case (Cons p es)
  have "map_of (filter (\<lambda>p. entry_live w now (snd p)) es) (fst p) = None" if "fst p \<notin> fst ` set es"
    using that by (force simp: map_of_eq_None_iff)
  then show ?case using Cons by (cases p) (auto simp: keep_entry_def)
qed (simp add: keep_entry_def)

lemma map_of_replace:
  "map_of (map (\<lambda>p. if fst p = k then (k, e) else p) es) k' =
     (if k' = k \<and> map_of es k \<noteq> None then Some e else map_of es k')"
  by (induction es) auto

lemma fst_replace: "map fst (map (\<lambda>p. if fst p = k then (k, e) else p) es) = map fst es"
  by (induction es) auto

text \<open>Without an eviction a call acts on each key separately.\<close>

lemma allow_per_key:
  assumes d: "distinct (map fst (entries l))" and K: "finite K" "fst ` set (entries l) \<subseteq> K" "k \<in> K"
    and c: "card K \<le> max_entries l" and a: "limiter_allow k now l = (ok, l')"
  shows "map_of (entries l') k' =
      (let e = keep_entry (rate_window l) now (map_of (entries l) k')
       in if k' = k then Some (snd (hit_option (rate_limit l) (rate_window l) now e)) else e)"
    and "ok = fst (hit_option (rate_limit l) (rate_window l) now
           (keep_entry (rate_window l) now (map_of (entries l) k)))"
    and "distinct (map fst (entries l'))" "fst ` set (entries l') \<subseteq> K"
    and "rate_limit l' = rate_limit l" "rate_window l' = rate_window l" "max_entries l' = max_entries l"
proof -
  define es where "es = filter (\<lambda>p. entry_live (rate_window l) now (snd p)) (entries l)"
  have m: "map_of es x = keep_entry (rate_window l) now (map_of (entries l) x)" for x
    unfolding es_def by (rule map_of_filter_live [OF d])
  have des: "distinct (map fst es)" unfolding es_def by (rule distinct_map_filter [OF d])
  have sub: "fst ` set es \<subseteq> K" using K(2) by (auto simp: es_def)
  have "map_of (entries l') k' =
      (let e = keep_entry (rate_window l) now (map_of (entries l) k')
       in if k' = k then Some (snd (hit_option (rate_limit l) (rate_window l) now e)) else e)
    \<and> ok = fst (hit_option (rate_limit l) (rate_window l) now
           (keep_entry (rate_window l) now (map_of (entries l) k)))
    \<and> distinct (map fst (entries l')) \<and> fst ` set (entries l') \<subseteq> K
    \<and> rate_limit l' = rate_limit l \<and> rate_window l' = rate_window l \<and> max_entries l' = max_entries l"
  proof (cases "map_of es k")
    case None
    then have k: "k \<notin> fst ` set es" by (simp add: map_of_eq_None_iff)
    then have "fst ` set es \<subset> K" using sub K(3) by auto
    then have "card (fst ` set es) < card K" using K(1) by (rule psubset_card_mono [rotated])
    moreover have "card (fst ` set es) = length es"
      using des by (metis distinct_card length_map set_map)
    ultimately have "evict_oldest (max_entries l) es = es" using c by (simp add: evict_oldest_def)
    then have l': "entries l' = es @ [(k, fresh_entry now)]" "ok"
      "rate_limit l' = rate_limit l" "rate_window l' = rate_window l" "max_entries l' = max_entries l"
      using a None by (auto simp: limiter_allow_def es_def Let_def)
    then show ?thesis
      using None des k sub K(3) m
      by (auto simp: map_add_def hit_option_def Let_def split: option.splits)
  next
    case (Some e)
    obtain ok' e' where h: "hit_entry (rate_limit l) (rate_window l) now e = (ok', e')" by fastforce
    then have l': "entries l' = map (\<lambda>p. if fst p = k then (k, e') else p) es" "ok = ok'"
      "rate_limit l' = rate_limit l" "rate_window l' = rate_window l" "max_entries l' = max_entries l"
      using a Some by (auto simp: limiter_allow_def es_def Let_def)
    have f: "map fst (entries l') = map fst es" unfolding l'(1) by (rule fst_replace)
    then have "distinct (map fst (entries l'))" "fst ` set (entries l') \<subseteq> K"
      using des sub by (simp, metis set_map)
    moreover have "map_of (entries l') k' =
      (let e = keep_entry (rate_window l) now (map_of (entries l) k')
       in if k' = k then Some (snd (hit_option (rate_limit l) (rate_window l) now e)) else e)"
      using Some h m [symmetric] by (simp add: l'(1) map_of_replace hit_option_def Let_def)
    ultimately show ?thesis
      using Some h l'(2-) m [symmetric] by (simp add: hit_option_def)
  qed
  then show "map_of (entries l') k' =
      (let e = keep_entry (rate_window l) now (map_of (entries l) k')
       in if k' = k then Some (snd (hit_option (rate_limit l) (rate_window l) now e)) else e)"
    "ok = fst (hit_option (rate_limit l) (rate_window l) now
           (keep_entry (rate_window l) now (map_of (entries l) k)))"
    "distinct (map fst (entries l'))" "fst ` set (entries l') \<subseteq> K"
    "rate_limit l' = rate_limit l" "rate_window l' = rate_window l" "max_entries l' = max_entries l"
    by blast+
qed

section \<open>The log of one key\<close>

text \<open>
  The calls as one key sees them: its own calls (\<open>True\<close>) and the calls of other keys, which may expire
  its entry. The log records the time, the start of the window the call fell into and the answer.
\<close>

type_synonym window_log = "(nat \<times> nat \<times> bool) list"

fun key_log :: "nat \<Rightarrow> nat \<Rightarrow> (bool \<times> nat) list \<Rightarrow> rate_entry option \<Rightarrow> window_log" where
  "key_log q w [] e = []"
| "key_log q w ((own, now) # calls) e =
     (if own
      then (case hit_option q w now (keep_entry w now e) of
              (ok, e') \<Rightarrow> (now, window_started e', ok) # key_log q w calls (Some e'))
      else key_log q w calls (keep_entry w now e))"

definition allowed_from :: "nat \<Rightarrow> window_log \<Rightarrow> nat" where
  "allowed_from s G = count_where (\<lambda>(u, s', ok). ok \<and> s' = s) G"

text \<open>At most \<open>q\<close> answers in one window, and windows of at least \<open>w\<close> that do not overlap.\<close>

definition windows_ok :: "nat \<Rightarrow> nat \<Rightarrow> window_log \<Rightarrow> bool" where
  "windows_ok q w G \<longleftrightarrow>
     (\<forall>s. allowed_from s G \<le> q) \<and> (\<forall>(u, s, ok) \<in> set G. s \<le> u)
     \<and> (\<forall>(u, s, ok) \<in> set G. \<forall>(u', s', ok') \<in> set G. s < s' \<longrightarrow> s + w \<le> s' \<and> u \<le> s')"

text \<open>What the entry says about the past of the key.\<close>

definition entry_ok :: "nat \<Rightarrow> nat \<Rightarrow> nat \<Rightarrow> rate_entry option \<Rightarrow> window_log \<Rightarrow> bool" where
  "entry_ok q w c e G \<longleftrightarrow>
     (case e of
        None \<Rightarrow> \<forall>(u, s, ok) \<in> set G. u + w < c
      | Some e \<Rightarrow> entry_last_seen e \<le> c \<and> window_started e \<le> entry_last_seen e
          \<and> allowed_from (window_started e) G \<le> entry_attempts e
          \<and> (\<forall>(u, s, ok) \<in> set G. u \<le> entry_last_seen e
               \<and> (s = window_started e \<or> s + w \<le> window_started e \<and> u \<le> window_started e)))"

lemma entry_ok_keep:
  assumes "entry_ok q w c e G" and "c \<le> now"
  shows "entry_ok q w now (keep_entry w now e) G"
  using assms by (fastforce simp: entry_ok_def keep_entry_def entry_live_def split: option.splits)

lemma allowed_from_snoc:
  "allowed_from s (G @ [(u, s', ok)]) = allowed_from s G + of_bool (ok \<and> s' = s)"
  by (simp add: allowed_from_def)

lemma allowed_from_none: "\<forall>(u, s', ok) \<in> set G. s' < s \<Longrightarrow> allowed_from s G = 0"
  by (auto simp: allowed_from_def count_where_zero)

lemma windows_snoc:
  assumes G: "windows_ok q w G" and cnt: "allowed_from s G + of_bool ok \<le> q" and "s \<le> now"
    and past: "\<forall>(u, s', ok) \<in> set G. s' = s \<or> s' + w \<le> s \<and> u \<le> s" and "0 < w"
  shows "windows_ok q w (G @ [(now, s, ok)])"
proof -
  have "allowed_from t (G @ [(now, s, ok)]) \<le> q" for t
    using G cnt by (cases "t = s") (auto simp: allowed_from_snoc windows_ok_def)
  moreover have "\<forall>(u, s', ok) \<in> set G. s' \<le> s" using past by fastforce
  ultimately show ?thesis
    using G assms(3) past unfolding windows_ok_def by fastforce
qed

text \<open>One own call, from a live or expired entry.\<close>

lemma hit_ok:
  assumes G: "windows_ok q w G" and e: "entry_ok q w now e G" and q: "0 < q" "q < u32_max" and w: "0 < w"
    and h: "hit_option q w now e = (ok, e')"
  shows "windows_ok q w (G @ [(now, window_started e', ok)])
    \<and> entry_ok q w now (Some e') (G @ [(now, window_started e', ok)])"
proof -
  have fresh: ?thesis if f: "ok" "e' = fresh_entry now"
    and p: "\<forall>(u, s, ok) \<in> set G. s + w \<le> now \<and> u \<le> now"
  proof -
    have "allowed_from now G = 0" by (rule allowed_from_none) (use p w in fastforce)
    moreover have "\<forall>(u, s', ok) \<in> set G. s' = now \<or> s' + w \<le> now \<and> u \<le> now" using p by fastforce
    ultimately have "windows_ok q w (G @ [(now, now, True)])" using G q w by (intro windows_snoc) simp_all
    then show ?thesis
      using f p \<open>allowed_from now G = 0\<close>
      by (fastforce simp: fresh_entry_def entry_ok_def allowed_from_snoc)
  qed
  show ?thesis
  proof (cases e)
    case None
    have "\<forall>(u, s, ok) \<in> set G. s \<le> u" using G by (simp add: windows_ok_def)
    then have "\<forall>(u, s, ok) \<in> set G. s + w \<le> now \<and> u \<le> now"
      using e None by (fastforce simp: entry_ok_def)
    then show ?thesis using fresh h None by (simp add: hit_option_def)
  next
    case (Some x)
    have x: "entry_last_seen x \<le> now" "window_started x \<le> entry_last_seen x"
      "allowed_from (window_started x) G \<le> entry_attempts x"
      "\<forall>(u, s, ok) \<in> set G. u \<le> entry_last_seen x
         \<and> (s = window_started x \<or> s + w \<le> window_started x \<and> u \<le> window_started x)"
      using e Some by (simp_all add: entry_ok_def)
    show ?thesis
    proof (cases "now - window_started x \<ge> w")
      case True
      then have "\<forall>(u, s, ok) \<in> set G. s + w \<le> now \<and> u \<le> now" using x w by fastforce
      then show ?thesis using fresh h Some True by (simp add: hit_option_def hit_entry_def)
    next
      case False
      let ?n = "saturate_u32 (entry_attempts x + 1)"
      have e': "e' = x\<lparr>entry_last_seen := now, entry_attempts := ?n\<rparr>" "ok = (?n \<le> q)"
        using h Some False by (simp_all add: hit_option_def hit_entry_def Let_def)
      have n: "?n \<le> q \<Longrightarrow> ?n = entry_attempts x + 1" "?n \<le> q \<or> q \<le> ?n"
        using q(2) by (auto simp: saturate_u32_def)
      have g: "allowed_from (window_started x) G \<le> q" using G by (simp add: windows_ok_def)
      have cnt: "allowed_from (window_started x) G + of_bool ok \<le> q \<and>
          allowed_from (window_started x) G + of_bool ok \<le> ?n"
        using n x(3) g q(2) e'(2) by (cases ok) (auto simp: saturate_u32_def)
      have past: "\<forall>(u, s', ok) \<in> set G. s' = window_started x \<or> s' + w \<le> window_started x \<and> u \<le> window_started x"
        using x(4) by fast
      have "windows_ok q w (G @ [(now, window_started x, ok)])"
        by (rule windows_snoc [OF G _ _ past w]) (use cnt x in linarith)+
      moreover have "\<forall>(u, s, ok) \<in> set G. u \<le> now" using x by fastforce
      ultimately show ?thesis
        using e'(1) cnt x past by (fastforce simp: entry_ok_def allowed_from_snoc)
    qed
  qed
qed

text \<open>All calls keep the windows.\<close>

lemma key_log_ok:
  assumes "windows_ok q w G" "entry_ok q w c e G" "sorted (c # map snd calls)"
    and q: "0 < q" "q < u32_max" and w: "0 < w"
  shows "windows_ok q w (G @ key_log q w calls e)"
  using assms(1-3)
proof (induction calls arbitrary: G c e)
  case (Cons call calls)
  obtain own now where call: "call = (own, now)" by fastforce
  have k: "entry_ok q w now (keep_entry w now e) G"
    using Cons.prems call by (intro entry_ok_keep [where c = c]) auto
  have t: "sorted (now # map snd calls)" using Cons.prems(3) call by simp
  show ?case
  proof (cases own)
    case True
    obtain ok e' where h: "hit_option q w now (keep_entry w now e) = (ok, e')" by fastforce
    have "windows_ok q w (G @ [(now, window_started e', ok)])"
      "entry_ok q w now (Some e') (G @ [(now, window_started e', ok)])"
      using hit_ok [OF Cons.prems(1) k q w h] by blast+
    from Cons.IH [OF this t] show ?thesis using h call True by simp
  next
    case False
    then show ?thesis using Cons.IH [OF Cons.prems(1) k t] call by simp
  qed
qed simp

text \<open>An interval of one window meets two windows at most.\<close>

lemma windows_interval:
  assumes G: "windows_ok q w G"
  shows "count_where (\<lambda>(u, s, ok). ok \<and> t \<le> u \<and> u < t + w) G \<le> 2 * q"
proof -
  define S where "S = (\<lambda>(u, s, ok). s) ` {p \<in> set G. t \<le> fst p \<and> fst p < t + w}"
  have fin: "finite S" by (simp add: S_def)
  have two: "s = Min S \<or> s = Max S" if s: "s \<in> S" for s
  proof (rule ccontr)
    assume "\<not> (s = Min S \<or> s = Max S)"
    then have lt: "Min S < s" "s < Max S"
      using s fin by (simp_all add: order_less_le)
    have ne: "S \<noteq> {}" using s by blast
    obtain u ok where a: "(u, Min S, ok) \<in> set G" "t \<le> u"
      using Min_in [OF fin ne] unfolding S_def by auto
    obtain u' ok' where b: "(u', Max S, ok') \<in> set G" "u' < t + w"
      using Max_in [OF fin ne] unfolding S_def by auto
    obtain v ok'' where c: "(v, s, ok'') \<in> set G" using s unfolding S_def by auto
    have "u \<le> s" using G a c lt(1) unfolding windows_ok_def by fastforce
    moreover have "s + w \<le> Max S" using G b c lt(2) unfolding windows_ok_def by fastforce
    moreover have "Max S \<le> u'" using G b unfolding windows_ok_def by fastforce
    ultimately show False using a(2) b(2) by linarith
  qed
  have generalize: "count_where (\<lambda>(u, s, ok). ok \<and> t \<le> u \<and> u < t + w) ((u, s, ok) # H)
      \<le> allowed_from m ((u, s, ok) # H) + allowed_from M ((u, s, ok) # H)"
    if "count_where (\<lambda>(u, s, ok). ok \<and> t \<le> u \<and> u < t + w) H \<le> allowed_from m H + allowed_from M H"
      "t \<le> u \<Longrightarrow> u < t + w \<Longrightarrow> s = m \<or> s = M" for u s ok H m M
    using that unfolding allowed_from_def by auto
  have "count_where (\<lambda>(u, s, ok). ok \<and> t \<le> u \<and> u < t + w) G
      \<le> allowed_from (Min S) G + allowed_from (Max S) G"
  proof -
    have "count_where (\<lambda>(u, s, ok). ok \<and> t \<le> u \<and> u < t + w) H
      \<le> allowed_from (Min S) H + allowed_from (Max S) H" if "set H \<subseteq> set G" for H
      using that
    proof (induction H)
      case (Cons p H)
      obtain u s ok where p: "p = (u, s, ok)" by (cases p)
      have "s \<in> S" if "t \<le> u" "u < t + w"
        unfolding S_def by (rule image_eqI [where x = p]) (use Cons.prems p that in auto)
      then have "t \<le> u \<Longrightarrow> u < t + w \<Longrightarrow> s = Min S \<or> s = Max S" using two by blast
      then show ?case
        using Cons p generalize by simp
    qed (simp add: allowed_from_def)
    then show ?thesis by blast
  qed
  also have "\<dots> \<le> 2 * q" using G by (simp add: windows_ok_def mult_2 add_mono)
  finally show ?thesis .
qed

section \<open>The limiter from its creation\<close>

definition key_calls :: "'k \<Rightarrow> ('k \<times> nat) list \<Rightarrow> (bool \<times> nat) list" where
  "key_calls k calls = map (\<lambda>(k', now). (k' = k, now)) calls"

lemma run_key_log:
  assumes "limiter_run calls l = (out, l')" "distinct (map fst (entries l))"
    "fst ` set (entries l) \<subseteq> K" "fst ` set calls \<subseteq> K" "finite K" "card K \<le> max_entries l"
  shows "count_where (\<lambda>(k', u, ok). k' = k \<and> ok \<and> P u) out
    = count_where (\<lambda>(u, s, ok). ok \<and> P u)
        (key_log (rate_limit l) (rate_window l) (key_calls k calls) (map_of (entries l) k))"
  using assms
proof (induction calls arbitrary: l out)
  case (Cons call calls)
  obtain c now where call: "call = (c, now)" by fastforce
  obtain ok l1 where a: "limiter_allow c now l = (ok, l1)" by fastforce
  obtain out' where r: "limiter_run calls l1 = (out', l')" "out = (c, now, ok) # out'"
    using Cons.prems(1) a call by (auto split: prod.splits)
  have K: "c \<in> K" "fst ` set calls \<subseteq> K" using Cons.prems(4) call by auto
  note step = allow_per_key [OF Cons.prems(2,5,3) K(1) Cons.prems(6) a]
  have "card K \<le> max_entries l1" using Cons.prems(6) step(7) by simp
  note ih = Cons.IH [OF r(1) step(3,4) K(2) Cons.prems(5) this]
  show ?case
    using ih step(1) [of k] step(2,5,6) r(2) call
    by (auto simp: key_calls_def Let_def split: prod.splits)
qed (simp add: key_calls_def)

text \<open>
  C38. The limiter limits: from its creation, as long as the keys that call fit its table, no key is
  allowed more than twice the quota of calls in any interval as long as the window, wherever the
  interval lies and however the calls of the keys interleave.
\<close>

theorem limiter_bounds_interval:
  assumes n: "limiter_new quota wnd cap = Inr l" and q: "quota < u32_max"
    and r: "limiter_run calls l = (out, l')" and s: "sorted (map snd calls)"
    and c: "card (fst ` set calls) \<le> cap"
  shows "count_where (\<lambda>(k', u, ok). k' = k \<and> ok \<and> t \<le> u \<and> u < t + wnd) out \<le> 2 * quota"
proof -
  have l: "l = \<lparr>entries = [], rate_limit = quota, rate_window = wnd, max_entries = cap\<rparr>" "0 < quota" "0 < wnd"
    using n by (auto simp: limiter_new_def split: if_splits)
  have "windows_ok quota wnd ([] @ key_log quota wnd (key_calls k calls) None)"
    by (rule key_log_ok [where c = 0])
      (use l q s in \<open>auto simp: windows_ok_def entry_ok_def allowed_from_def key_calls_def comp_def split_def\<close>)
  then show ?thesis
    using run_key_log [OF r _ _ order_refl, of k "\<lambda>u. t \<le> u \<and> u < t + wnd"] c l(1) windows_interval by fastforce
qed

theorem limiter_bounds_interval_witness:
  "\<exists>out l'. limiter_run [(''a'', 0), (''a'', 9), (''b'', 9), (''a'', 9), (''a'', 10), (''a'', 12), (''a'', 13)]
      \<lparr>entries = [], rate_limit = 2, rate_window = 10, max_entries = 2\<rparr> = (out, l')
    \<and> count_where (\<lambda>(k', u, ok). k' = ''a'' \<and> ok \<and> 9 \<le> u \<and> u < (9::nat) + 10) out = (3::nat)
    \<and> (3::nat) \<le> 2 * 2"
proof -
  let ?l = "\<lparr>entries = [], rate_limit = 2, rate_window = 10, max_entries = 2\<rparr> :: string rate_limiter"
  let ?calls = "[(''a'', 0), (''a'', 9), (''b'', 9), (''a'', 9), (''a'', 10), (''a'', 12), (''a'', 13)]"
  let ?out = "[(''a'', 0, True), (''a'', 9, True), (''b'', 9, True), (''a'', 9, False), (''a'', 10, True),
     (''a'', 12, True), (''a'', 13, False)]"
  have n: "limiter_new 2 10 2 = Inr ?l" by (simp add: limiter_new_def)
  obtain l' where r: "limiter_run ?calls ?l = (?out, l')"
    by (simp add: limiter_allow_def hit_entry_def fresh_entry_def entry_live_def evict_oldest_def
        saturate_u32_def u32_max_def Let_def)
  have c: "count_where (\<lambda>(k', u, ok). k' = ''a'' \<and> ok \<and> 9 \<le> u \<and> u < (9::nat) + 10) ?out = 3" by simp
  have "count_where (\<lambda>(k', u, ok). k' = ''a'' \<and> ok \<and> 9 \<le> u \<and> u < (9::nat) + 10) ?out \<le> 2 * 2"
    by (rule limiter_bounds_interval [OF n _ r]) (simp_all add: u32_max_def card_insert_if)
  with r c show ?thesis by fastforce
qed

end
