(* ===== verification/Ingest_Receiver.thy ===== *)
theory Ingest_Receiver
  imports Ingest_Store Rate_Limiter
begin

text \<open>
  The push receiver of \<open>src/src/pulse/ingest.rs\<close>: the structural bounds of the JSON body, decoding
  with the authority of the token, and \<open>receive\<close>, from the IP throttle to the final touch of the
  token. JSON parsing and SHA-256 are parameters; the clock reading is an argument.
\<close>

section \<open>Structural bounds of the body\<close>

datatype json =
    JNull
  | JBool bool
  | JNumber string
  | JString string
  | JArray "json list"
  | JObject "(string \<times> json) list"

definition max_json_nodes :: nat where "max_json_nodes = 100000"
definition max_json_depth :: nat where "max_json_depth = 16"
definition max_json_string :: nat where "max_json_string = 8192"
definition max_settings_key :: nat where "max_settings_key = 128"

fun json_nodes :: "json \<Rightarrow> nat" where
  "json_nodes (JArray items) = Suc (sum_list (map json_nodes items))"
| "json_nodes (JObject members) = Suc (sum_list (map (\<lambda>e. json_nodes (snd e)) members))"
| "json_nodes _ = 1"

lemma json_nodes_pos: "0 < json_nodes v"
  by (cases v) simp_all

text \<open>
  The worklist of \<open>validate_json_shape\<close>; the head of the list is the end of the Rust vector, so the
  last child is visited first. The counters cannot saturate below the bounds.
\<close>

function shape_loop :: "(json \<times> nat) list \<Rightarrow> nat \<Rightarrow> unit pulse_result" where
  "shape_loop [] nodes = Inr ()"
| "shape_loop ((v, depth) # stack) nodes =
     (if nodes + 1 > max_json_nodes \<or> depth > max_json_depth
      then Inl (invalid_input ''Pulse push JSON exceeds structural bounds'')
      else case v of
        JString t \<Rightarrow>
          (if length t > max_json_string
           then Inl (invalid_input ''Pulse push JSON contains an oversized string'')
           else shape_loop stack (nodes + 1))
      | JArray items \<Rightarrow> shape_loop (rev (map (\<lambda>i. (i, depth + 1)) items) @ stack) (nodes + 1)
      | JObject members \<Rightarrow>
          (if list_ex (\<lambda>e. length (fst e) > max_settings_key) members
           then Inl (invalid_input ''Pulse push JSON contains an oversized field name'')
           else shape_loop (rev (map (\<lambda>e. (snd e, depth + 1)) members) @ stack) (nodes + 1))
      | _ \<Rightarrow> shape_loop stack (nodes + 1))"
  by pat_completeness auto

termination
  by (relation "measure (\<lambda>(stack, _). sum_list (map (\<lambda>p. json_nodes (fst p)) stack))")
    (simp_all add: json_nodes_pos comp_def rev_map sum_list_rev flip: rev_map)

definition validate_json_shape :: "json \<Rightarrow> unit pulse_result" where
  "validate_json_shape v = shape_loop [(v, 1)] 0"

section \<open>Decoding\<close>

record push_batch =
  push_profiles :: "reported_profile list"
  push_snapshots :: "usage_snapshot list"
  push_grains :: "token_grain list"
  push_contexts :: "context_session list"
  push_gemini :: "gemini_quota list"

record push_envelope =
  push_version :: nat
  push_request :: string
  push_reporter :: string
  push_account :: "int option"
  push_machine :: "string option"
  push_rows :: push_batch

definition push_row_count :: "push_batch \<Rightarrow> nat" where
  "push_row_count b = length (push_profiles b) + length (push_snapshots b) + length (push_grains b)
     + length (push_contexts b) + length (push_gemini b)"

definition max_push_rows :: nat where "max_push_rows = 10000"
definition max_push_body :: nat where "max_push_body = 1048576"

text \<open>The libraries the receiver uses.\<close>

record push_extern =
  ext_parse :: "string \<Rightarrow> json option"
  ext_envelope :: "json \<Rightarrow> push_envelope option"
  ext_digest :: "string \<Rightarrow> string"

definition validate_safe_text :: "string \<Rightarrow> nat \<Rightarrow> string \<Rightarrow> unit pulse_result" where
  "validate_safe_text v n label =
     (if v = [] \<or> length v > n \<or> \<not> is_trimmed v \<or> has_control v
      then Inl (invalid_input (label @ '' is invalid'')) else Inr ())"

definition validate_request_id :: "string \<Rightarrow> unit pulse_result" where
  "validate_request_id v =
     (if v = [] \<or> length v > 128 \<or> \<not> list_all request_byte v
      then Inl (invalid_input ''Pulse request id must be a bounded ASCII identifier'') else Inr ())"

definition validate_reporter_version :: "string \<Rightarrow> unit pulse_result" where
  "validate_reporter_version v = validate_safe_text v 128 ''Pulse reporter version''"

definition validate_settings :: "agent_settings \<Rightarrow> unit pulse_result" where
  "validate_settings s =
     (if length (additional s) > 32
      then Inl (invalid_input ''Pulse agent settings contain too many fields'')
      else and_then (try_each (\<lambda>v. case v of None \<Rightarrow> Inr () | Some t \<Rightarrow> validate_safe_text t 256 ''agent setting'')
                       [service_tier s, effort s]) (\<lambda>_.
           try_each (\<lambda>(k, v). and_then (validate_safe_text k 128 ''agent setting key'') (\<lambda>_.
                       validate_safe_text v 256 ''agent setting value'')) (additional s)))"

text \<open>What the receiver makes of each row: the scope of the token replaces what the row claims.\<close>

definition receive_snapshot :: "int \<Rightarrow> string \<Rightarrow> string \<Rightarrow> usage_snapshot \<Rightarrow> usage_snapshot pulse_result" where
  "receive_snapshot acct mach rv s =
     (let s' = s\<lparr>snap_account := acct, snap_machine := mach, reporter_version := Some rv\<rparr> in
      if length (snap_windows s') > 4 then Inl (invalid_input ''Pulse snapshot contains too many windows'')
      else map_ok (\<lambda>_. s') (snapshot_validate s'))"

definition receive_grain :: "token_extern \<Rightarrow> int \<Rightarrow> string \<Rightarrow> token_grain \<Rightarrow> token_grain pulse_result" where
  "receive_grain x acct mach g =
     (let g' = g\<lparr>tok_account := acct, tok_machine := mach, tok_source := IngestSource\<rparr> in
      and_then (validate_settings (tok_settings g')) (\<lambda>_. map_ok (\<lambda>_. g') (grain_validate x g')))"

definition receive_context :: "int \<Rightarrow> string \<Rightarrow> context_session \<Rightarrow> context_session pulse_result" where
  "receive_context acct mach c =
     (let c' = c\<lparr>ctx_account := acct, ctx_machine := mach\<rparr> in
      and_then (validate_settings (ctx_settings c')) (\<lambda>_. map_ok (\<lambda>_. c') (context_session_validate c')))"

definition receive_quota :: "int \<Rightarrow> gemini_quota \<Rightarrow> gemini_quota pulse_result" where
  "receive_quota acct q =
     (let q' = q\<lparr>gem_account := acct\<rparr> in
      if (case remaining_amount q' of None \<Rightarrow> False | Some a \<Rightarrow> length a > 256 \<or> has_control a)
      then Inl (invalid_input ''Gemini remaining amount is invalid'')
      else map_ok (\<lambda>_. q') (gemini_quota_validate q'))"

definition decode_push_body ::
    "push_extern \<Rightarrow> token_extern \<Rightarrow> bool \<Rightarrow> string \<Rightarrow> int \<Rightarrow> string \<Rightarrow> ingest_limits \<Rightarrow> instant
      \<Rightarrow> (ingest_batch \<times> ingest_replay) pulse_result" where
  "decode_push_body px x on_macos body acct mach lims received =
     (if body = [] \<or> length body > max_push_body
      then Inl (invalid_input ''Pulse push body must be between 1 byte and 1 MiB'')
      else and_then (ok_or (invalid_input ''Pulse push body is not valid JSON'') (ext_parse px body)) (\<lambda>v.
           and_then (validate_json_shape v) (\<lambda>_.
           and_then (ok_or (invalid_input ''Pulse push document is invalid'') (ext_envelope px v)) (\<lambda>env.
             if push_version env \<noteq> 1
             then Inl (invalid_input ''Pulse push protocol version is unsupported'')
             else and_then (validate_request_id (push_request env)) (\<lambda>_.
                  and_then (validate_reporter_version (push_reporter env)) (\<lambda>_.
                    if push_row_count (push_rows env) > max_push_rows
                       \<or> push_row_count (push_rows env) > max_rows_per_request lims
                    then Inl (invalid_input ''Pulse push document exceeds its row limit'')
                    else
                      and_then (try_map (reported_into_domain on_macos acct) (push_profiles (push_rows env))) (\<lambda>ps.
                      and_then (try_map (receive_snapshot acct mach (push_reporter env)) (push_snapshots (push_rows env))) (\<lambda>ss.
                      and_then (try_map (receive_grain x acct mach) (push_grains (push_rows env))) (\<lambda>gs.
                      and_then (try_map (receive_context acct mach) (push_contexts (push_rows env))) (\<lambda>cs.
                      and_then (try_map (receive_quota acct) (push_gemini (push_rows env))) (\<lambda>qs.
                        Inr (\<lparr>batch_profiles = ps, batch_snapshots = ss, batch_grains = gs,
                              batch_contexts = cs, batch_gemini = qs\<rparr>,
                             \<lparr>request_id = push_request env, request_fingerprint = ext_digest px body,
                              request_received = received\<rparr>))))))))))))"

section \<open>Receiving\<close>

datatype ip_addr = V4 nat nat nat nat | V6 nat

fun is_loopback :: "ip_addr \<Rightarrow> bool" where
  "is_loopback (V4 a _ _ _) = (a = 127)"
| "is_loopback (V6 n) = (n = 1)"

datatype receiver_transport = Tls | Plaintext

record receiver_request =
  peer_ip :: ip_addr
  transport :: receiver_transport
  bearer :: string
  body :: string
  request_time :: instant

record receiver =
  recv_enabled :: bool
  ip_limiter :: "ip_addr rate_limiter"
  token_limiter :: "(int \<times> int) rate_limiter"
  recv_limits :: ingest_limits

definition rate_limited :: pulse_error where
  "rate_limited = new_error RateLimited ''Pulse ingest request rate exceeded''"

definition receiver_new :: "bool \<Rightarrow> ingest_limits \<Rightarrow> receiver pulse_result" where
  "receiver_new on lims =
     (if max_rows_per_request lims = 0 \<or> max_rows_per_request lims > max_push_rows
      then Inl (configuration ''Pulse receiver row limit must be between 1 and 10000'')
      else and_then (limiter_new 30 60000 8192) (\<lambda>ip.
           and_then (limiter_new 120 60000 4096) (\<lambda>tok.
             Inr \<lparr>recv_enabled = on, ip_limiter = ip, token_limiter = tok, recv_limits = lims\<rparr>)))"

text \<open>
  One request. The ingest and the touch are two transactions, so an error of the second one would be
  reported although the first was committed; the receiver and the store are returned with the answer.
\<close>

definition receive_authorized ::
    "push_extern \<Rightarrow> token_extern \<Rightarrow> bool \<Rightarrow> receiver_request \<Rightarrow> ingest_token \<Rightarrow> ingest_limits \<Rightarrow> store
      \<Rightarrow> idempotent_result pulse_result \<times> store" where
  "receive_authorized px x on_macos req t lims st =
     (case decode_push_body px x on_macos (body req) (token_account t) (token_machine t) lims (request_time req) of
        Inl e \<Rightarrow> (Inl e, st)
      | Inr (b, rp) \<Rightarrow>
          (case ingest_batch_once x on_macos (token_account t) (token_machine t) b lims rp st of
             Inl e \<Rightarrow> (Inl e, st)
           | Inr (res, st1) \<Rightarrow>
               (case touch_ingest_token (token_account t) (token_id t) (request_time req) st1 of
                  Inl e \<Rightarrow> (Inl e, st1)
                | Inr (touched, st2) \<Rightarrow> (if touched then Inr res else Inl authentication_failed, st2))))"

definition receive ::
    "push_extern \<Rightarrow> token_extern \<Rightarrow> bool \<Rightarrow> nat \<Rightarrow> receiver_request \<Rightarrow> receiver \<Rightarrow> store
      \<Rightarrow> idempotent_result pulse_result \<times> receiver \<times> store" where
  "receive px x on_macos monotonic req r st =
     (if \<not> recv_enabled r then (Inl (new_error NotFound ''Pulse push receiver is disabled''), r, st)
      else if transport req = Plaintext \<and> \<not> is_loopback (peer_ip req)
      then (Inl (new_error Authentication ''Pulse push ingest requires HTTPS outside loopback''), r, st)
      else case limiter_allow (peer_ip req) monotonic (ip_limiter r) of (ok, ips) \<Rightarrow>
        (let r1 = r\<lparr>ip_limiter := ips\<rparr> in
         if \<not> ok then (Inl rate_limited, r1, st)
         else case authenticate (ext_digest px) (bearer req) st of
           Inl e \<Rightarrow> (Inl e, r1, st)
         | Inr t \<Rightarrow>
             (case limiter_allow (token_account t, token_id t) monotonic (token_limiter r1) of (ok2, toks) \<Rightarrow>
               (let r2 = r1\<lparr>token_limiter := toks\<rparr> in
                if \<not> ok2 then (Inl rate_limited, r2, st)
                else case receive_authorized px x on_macos req t (recv_limits r2) st of
                  (res, st') \<Rightarrow> (res, r2, st')))))"

section \<open>The structural bounds, recursively\<close>

fun json_depth :: "json \<Rightarrow> nat" where
  "json_depth (JArray items) = Suc (fold max (map json_depth items) 0)"
| "json_depth (JObject members) = Suc (fold max (map (\<lambda>e. json_depth (snd e)) members) 0)"
| "json_depth _ = 1"

fun json_texts_ok :: "json \<Rightarrow> bool" where
  "json_texts_ok (JString t) = (length t \<le> max_json_string)"
| "json_texts_ok (JArray items) = list_all json_texts_ok items"
| "json_texts_ok (JObject members) =
     list_all (\<lambda>e. length (fst e) \<le> max_settings_key \<and> json_texts_ok (snd e)) members"
| "json_texts_ok _ = True"

lemma fold_max_le: "fold max xs a \<le> (b::nat) \<longleftrightarrow> a \<le> b \<and> (\<forall>x \<in> set xs. x \<le> b)"
  by (induction xs arbitrary: a) auto

definition shape_ok :: "json \<times> nat \<Rightarrow> bool" where
  "shape_ok p \<longleftrightarrow> snd p + json_depth (fst p) \<le> max_json_depth + 1 \<and> json_texts_ok (fst p)"

lemma json_depth_pos: "1 \<le> json_depth v"
  by (cases v) simp_all

lemma shape_ok_children:
  "shape_ok (JArray items, d) \<longleftrightarrow> d \<le> max_json_depth \<and> (\<forall>i \<in> set items. shape_ok (i, d + 1))"
  "shape_ok (JObject members, d) \<longleftrightarrow> d \<le> max_json_depth
     \<and> (\<forall>e \<in> set members. length (fst e) \<le> max_settings_key \<and> shape_ok (snd e, d + 1))"
proof -
  have "d + Suc (fold max xs 0) \<le> m + 1 \<longleftrightarrow> d \<le> m \<and> (\<forall>x \<in> set xs. d + 1 + x \<le> m + 1)" for xs m
    using fold_max_le [of xs 0 "m - d"] by (cases "d \<le> m") (auto simp: le_diff_conv2)
  then show "shape_ok (JArray items, d) \<longleftrightarrow> d \<le> max_json_depth \<and> (\<forall>i \<in> set items. shape_ok (i, d + 1))"
    "shape_ok (JObject members, d) \<longleftrightarrow> d \<le> max_json_depth
     \<and> (\<forall>e \<in> set members. length (fst e) \<le> max_settings_key \<and> shape_ok (snd e, d + 1))"
    by (auto simp: shape_ok_def list_all_iff)
qed

lemma shape_loop_exact:
  assumes "nodes \<le> max_json_nodes"
  shows "is_ok (shape_loop stack nodes) \<longleftrightarrow>
    nodes + sum_list (map (\<lambda>p. json_nodes (fst p)) stack) \<le> max_json_nodes \<and> (\<forall>p \<in> set stack. shape_ok p)"
  using assms
proof (induction stack nodes rule: shape_loop.induct)
  case (1 nodes)
  then show ?case by simp
next
  case (2 v depth stack nodes)
  show ?case
  proof (cases "nodes + 1 > max_json_nodes \<or> depth > max_json_depth")
    case True
    then have "\<not> (nodes + json_nodes v \<le> max_json_nodes \<and> shape_ok (v, depth))"
      using json_nodes_pos [of v] json_depth_pos [of v] by (auto simp: shape_ok_def)
    then show ?thesis using True by auto
  next
    case False
    then have n: "nodes + 1 \<le> max_json_nodes" and d: "depth \<le> max_json_depth" by simp_all
    note IH = "2.IH" [OF False]
    show ?thesis
    proof (cases v)
      case (JString t)
      then show ?thesis using IH(4) [OF JString _ n] False d by (auto simp: shape_ok_def)
    next
      case (JArray items)
      then show ?thesis using IH(5) [OF JArray n] False
        by (auto simp: shape_ok_children comp_def rev_map sum_list_rev simp flip: rev_map)
    next
      case (JObject members)
      show ?thesis
      proof (cases "list_ex (\<lambda>e. length (fst e) > max_settings_key) members")
        case True
        then have "\<not> shape_ok (v, depth)"
          unfolding JObject shape_ok_children list_ex_iff by (metis not_less)
        then show ?thesis using JObject True False by simp
      next
        case no: False
        then have "\<forall>e \<in> set members. length (fst e) \<le> max_settings_key" by (auto simp: list_ex_iff not_less)
        then show ?thesis using IH(6) [OF JObject no n] JObject no False
          by (auto simp: shape_ok_children comp_def rev_map sum_list_rev simp flip: rev_map)
      qed
    qed (use IH n False d in \<open>auto simp: shape_ok_def\<close>)
  qed
qed

text \<open>
  The worklist that checks a body visits exactly the nodes of the document: it accepts a value if
  and only if the value has at most 100000 nodes, is nested at most 16 deep and every text and field
  name in it is short enough, as the recursive functions compute them.
\<close>

theorem json_shape_exact:
  "validate_json_shape v = Inr () \<longleftrightarrow>
     json_nodes v \<le> 100000 \<and> json_depth v \<le> 16 \<and> json_texts_ok v"
proof -
  have "is_ok (validate_json_shape v) \<longleftrightarrow> json_nodes v \<le> max_json_nodes \<and> shape_ok (v, 1)"
    unfolding validate_json_shape_def by (subst shape_loop_exact) simp_all
  then show ?thesis by (auto simp: is_ok_iff shape_ok_def max_json_nodes_def max_json_depth_def)
qed

section \<open>What a request can do\<close>

lemma decoded_rows:
  "receive_snapshot acct mach rv s = Inr s' \<Longrightarrow> snap_account s' = acct \<and> snap_machine s' = mach"
  "receive_grain x acct mach g = Inr g' \<Longrightarrow> tok_account g' = acct \<and> tok_machine g' = mach"
  "receive_context acct mach c = Inr c' \<Longrightarrow> ctx_account c' = acct \<and> ctx_machine c' = mach"
  "receive_quota acct q = Inr q' \<Longrightarrow> gem_account q' = acct"
  by (auto simp: receive_snapshot_def receive_grain_def receive_context_def receive_quota_def Let_def
      result_simps split: if_splits)

lemma decoded_scope:
  assumes d: "decode_push_body px x mac bd acct mach lims t = Inr (b, rp)"
    and sha: "\<forall>s. validate_token_hash (ext_digest px s) = Inr ()"
  shows "validate_ingest_scope mac acct mach b lims = Inr () \<and> validate_replay rp = Inr ()
    \<and> request_fingerprint rp = ext_digest px bd"
proof -
  obtain v env where e: "ext_parse px bd = Some v" "ext_envelope px v = Some env"
    using d by (auto simp: decode_push_body_def result_simps split: if_splits)
  then obtain ps ss gs cs qs where env: "validate_request_id (push_request env) = Inr ()"
    "push_row_count (push_rows env) \<le> max_rows_per_request lims"
    and rows: "try_map (reported_into_domain mac acct) (push_profiles (push_rows env)) = Inr ps"
    "try_map (receive_snapshot acct mach (push_reporter env)) (push_snapshots (push_rows env)) = Inr ss"
    "try_map (receive_grain x acct mach) (push_grains (push_rows env)) = Inr gs"
    "try_map (receive_context acct mach) (push_contexts (push_rows env)) = Inr cs"
    "try_map (receive_quota acct) (push_gemini (push_rows env)) = Inr qs"
    and b: "b = \<lparr>batch_profiles = ps, batch_snapshots = ss, batch_grains = gs, batch_contexts = cs,
      batch_gemini = qs\<rparr>"
    and rp: "rp = \<lparr>request_id = push_request env, request_fingerprint = ext_digest px bd, request_received = t\<rparr>"
    using d by (auto simp: decode_push_body_def result_simps not_less split: if_splits)
  have "row_count b = push_row_count (push_rows env)"
    using rows [THEN try_map_length] by (simp add: b row_count_def push_row_count_def)
  moreover have "\<forall>p \<in> set ps. prof_account p = acct \<and> origin p = Reported \<and> profile_validate mac p = Inr ()"
    using try_map_mem [OF rows(1)] reported_into_domain_Inr by blast
  moreover have "\<forall>s \<in> set ss. snap_account s = acct \<and> snap_machine s = mach"
    using try_map_mem [OF rows(2)] decoded_rows(1) by blast
  moreover have "\<forall>g \<in> set gs. tok_account g = acct \<and> tok_machine g = mach"
    using try_map_mem [OF rows(3)] decoded_rows(2) by blast
  moreover have "\<forall>c \<in> set cs. ctx_account c = acct \<and> ctx_machine c = mach"
    using try_map_mem [OF rows(4)] decoded_rows(3) by blast
  moreover have "\<forall>q \<in> set qs. gem_account q = acct"
    using try_map_mem [OF rows(5)] decoded_rows(4) by blast
  ultimately have "validate_ingest_scope mac acct mach b lims = Inr ()"
    using env(2) by (simp add: validate_ingest_scope_def batch_in_scope_def b list_all_iff result_simps)
  moreover have "validate_replay rp = Inr ()"
    using env(1) sha by (simp add: validate_replay_def validate_request_id_def rp split: if_splits)
  ultimately show ?thesis by (simp add: rp)
qed

text \<open>
  Whatever a body claims, what the receiver decodes from it is a batch of the account and machine
  of the token with a usable replay key: the checks with which the store starts an ingest succeed, so
  the only conflicts left are those of the caps, the replay table and the stored profiles.
\<close>

theorem decoded_batch_passes_scope:
  assumes "decode_push_body px x mac bd acct mach lims t = Inr (b, rp)"
    and "\<forall>s. validate_token_hash (ext_digest px s) = Inr ()"
  shows "validate_ingest_scope mac acct mach b lims = Inr () \<and> validate_replay rp = Inr ()
    \<and> request_fingerprint rp = ext_digest px bd"
  by (rule decoded_scope [OF assms])

definition active_token :: "ingest_token \<Rightarrow> store \<Rightarrow> bool" where
  "active_token t st \<longleftrightarrow> t \<in> set (ingest_tokens st) \<and> revoked_at t = None"

lemma touch_active:
  assumes "active_token t st"
  shows "\<exists>st'. touch_ingest_token (token_account t) (token_id t) u st = Inr (True, st')
    \<and> st' = st\<lparr>ingest_tokens := ingest_tokens st'\<rparr>"
  using assms by (auto simp: active_token_def touch_ingest_token_def exists_where_def is_token_def Let_def)

lemma scope_respected_tokens: "scope_respected acct mach st st' \<Longrightarrow> ingest_tokens st' = ingest_tokens st"
proof -
  assume "scope_respected acct mach st st'"
  then show ?thesis unfolding scope_respected_def by (elim conjE) (erule ssubst, simp)
qed

lemma receive_authorized_cases:
  assumes r: "receive_authorized px x mac req t lims st = (res, st')" and ok: "ingest_tables_ok mac st"
    and t: "active_token t st"
  shows "(\<exists>e. res = Inl e \<and> st' = st)
    \<or> (\<exists>out b rp st1. res = Inr out
        \<and> decode_push_body px x mac (body req) (token_account t) (token_machine t) lims (request_time req) = Inr (b, rp)
        \<and> ingest_batch_once x mac (token_account t) (token_machine t) b lims rp st = Inr (out, st1)
        \<and> touch_ingest_token (token_account t) (token_id t) (request_time req) st1 = Inr (True, st'))"
proof (cases "decode_push_body px x mac (body req) (token_account t) (token_machine t) lims (request_time req)")
  case (Inl e)
  then show ?thesis using r by (auto simp: receive_authorized_def)
next
  case (Inr p)
  obtain b rp where p: "p = (b, rp)" by fastforce
  show ?thesis
  proof (cases "ingest_batch_once x mac (token_account t) (token_machine t) b lims rp st")
    case (Inl e)
    then show ?thesis using r Inr p by (auto simp: receive_authorized_def)
  next
    case ing: (Inr q)
    obtain out st1 where q: "q = (out, st1)" by fastforce
    have "ingest_tokens st1 = ingest_tokens st"
      using ingest_once_effect [OF ing [unfolded q] ok] scope_respected_tokens by blast
    then have "active_token t st1" using t by (simp add: active_token_def)
    from touch_active [OF this, of "request_time req"] show ?thesis
      using r Inr p ing q by (auto simp: receive_authorized_def)
  qed
qed

lemma authenticate_active:
  "authenticate digest tx st = Inr t \<Longrightarrow> active_token t st \<and> token_hash t = digest tx
     \<and> parse_token_locator tx = Inr (token_account t, token_id t)"
  using find_Some_mem by (fastforce simp: authenticate_Inr get_ingest_token_def active_token_def is_token_def)

text \<open>
  A push request acts only through a token: a request that is refused, for whatever reason and at
  whatever stage, leaves the store unchanged; one that is answered came over TLS or from the loopback
  interface to an enabled receiver, carries the text of a stored token that is not revoked, and
  changed nothing but rows in the scope of that token and the time the token was last used.
\<close>

theorem receive_acts_through_token:
  assumes "receive px x mac now req r st = (res, r', st')" and ok: "ingest_tables_ok mac st"
  shows "case res of
      Inl e \<Rightarrow> st' = st
    | Inr out \<Rightarrow> recv_enabled r \<and> (transport req = Tls \<or> is_loopback (peer_ip req))
        \<and> (\<exists>t st1. t \<in> set (ingest_tokens st) \<and> revoked_at t = None \<and> token_hash t = ext_digest px (bearer req)
             \<and> parse_token_locator (bearer req) = Inr (token_account t, token_id t)
             \<and> scope_respected (token_account t) (token_machine t) st st1
             \<and> touch_ingest_token (token_account t) (token_id t) (request_time req) st1 = Inr (True, st')
             \<and> ingest_tables_ok mac st')"
proof (cases "st' = st \<and> (\<exists>e. res = Inl e)")
  case False
  then obtain t lims where en: "recv_enabled r" "transport req = Tls \<or> is_loopback (peer_ip req)"
    and a: "authenticate (ext_digest px) (bearer req) st = Inr t"
    and ra: "receive_authorized px x mac req t lims st = (res, st')"
    using assms(1) receiver_transport.exhaust
    by (auto simp: receive_def Let_def split: if_splits prod.splits sum.splits)
  note t = authenticate_active [OF a]
  from receive_authorized_cases [OF ra ok] t False obtain out b rp st1 where
    o: "res = Inr out" "ingest_batch_once x mac (token_account t) (token_machine t) b lims rp st = Inr (out, st1)"
      "touch_ingest_token (token_account t) (token_id t) (request_time req) st1 = Inr (True, st')"
    by blast
  note e = ingest_once_effect [OF o(2) ok]
  have "ingest_tables_ok mac st'"
    using e o(3) by (auto simp: touch_ingest_token_def Let_def ingest_tables_ok_def profiles_ok_def
        account_exists_def usage_ok_def context_ok_def gemini_ok_def)
  then show ?thesis using en t o e by (auto simp: active_token_def)
qed auto

text \<open>
  A reporter may retry: when an answered body is sent again with the same token, or another one of
  the same machine, after any other requests in between, the store answers with the counts of the first time, marked as replayed, and
  only the time of last use of the token can change.
\<close>

theorem receive_retry_replays:
  assumes r: "receive_authorized px x mac req t lims st = (Inr out, st1)" and ok: "ingest_tables_ok mac st"
    and t: "active_token t st" and sha: "\<forall>s. validate_token_hash (ext_digest px s) = Inr ()"
    and st2: "st2 = fold (ingest_step x mac) qs st1" and t2: "active_token t2 st2"
    and scope: "token_account t2 = token_account t" "token_machine t2 = token_machine t"
    and same: "body req2 = body req"
  shows "\<exists>st3. receive_authorized px x mac req2 t2 lims st2 =
      (Inr \<lparr>outcome_counts = outcome_counts out, replayed = True\<rparr>, st3)
    \<and> st3 = st2\<lparr>ingest_tokens := ingest_tokens st3\<rparr>"
proof -
  let ?acct = "token_account t" and ?mach = "token_machine t"
  obtain b rp st0 where d: "decode_push_body px x mac (body req) ?acct ?mach lims (request_time req) = Inr (b, rp)"
    and i: "ingest_batch_once x mac ?acct ?mach b lims rp st = Inr (out, st0)"
    and touch: "touch_ingest_token ?acct (token_id t) (request_time req) st0 = Inr (True, st1)"
    using receive_authorized_cases [OF r ok t] by auto
  have st1: "ingest_replays st1 = ingest_replays st0" and ok1: "ingest_tables_ok mac st1"
    using touch ingest_once_effect [OF i ok]
    by (auto simp: touch_ingest_token_def Let_def ingest_tables_ok_def profiles_ok_def
        account_exists_def usage_ok_def context_ok_def gemini_ok_def)
  obtain row where row: "find (same_request ?acct ?mach (request_id rp)) (ingest_replays st0) = Some row"
    "payload_fingerprint row = request_fingerprint rp" "stored_result row = outcome_counts out"
    using ingest_leaves_replay [OF i ok] by blast
  obtain rows where "ingest_replays st2 = ingest_replays st0 @ rows"
    using ingest_run_replays [OF ok1] st1 unfolding st2 by metis
  then have f: "find (same_request ?acct ?mach (request_id rp)) (ingest_replays st2) = Some row"
    using row(1) by (simp add: find_append)
  have d2: "decode_push_body px x mac (body req2) ?acct ?mach lims (request_time req2) =
      Inr (b, rp\<lparr>request_received := request_time req2\<rparr>)"
    using d unfolding same by (auto simp: decode_push_body_def result_simps split: if_splits)
  note v = decoded_scope [OF d sha]
  have "validate_replay (rp\<lparr>request_received := request_time req2\<rparr>) = Inr ()"
    using v by (auto simp: validate_replay_def split: if_splits)
  then have "ingest_batch_once x mac ?acct ?mach b lims (rp\<lparr>request_received := request_time req2\<rparr>) st2 =
      Inr (\<lparr>outcome_counts = outcome_counts out, replayed = True\<rparr>, st2)"
    using v f row(2,3) by (simp add: ingest_batch_once_def)
  with touch_active [OF t2, of "request_time req2"] show ?thesis
    by (auto simp: receive_authorized_def scope d2)
qed

section \<open>An example request\<close>

text \<open>The row claims another account and machine; the token is for account 1 and \<open>host\<close>.\<close>

definition example_push :: push_extern where
  "example_push =
     \<lparr>ext_parse = (\<lambda>_. Some JNull),
      ext_envelope = (\<lambda>_. Some \<lparr>push_version = 1, push_request = ''r1'', push_reporter = ''atmux'',
        push_account = Some 9, push_machine = Some ''other'',
        push_rows = \<lparr>push_profiles = [], push_snapshots = [], push_grains = [],
          push_contexts = [(example_session 7)\<lparr>ctx_account := 9, ctx_machine := ''other''\<rparr>],
          push_gemini = []\<rparr>\<rparr>),
      ext_digest = example_hash\<rparr>"

definition example_request :: receiver_request where
  "example_request =
     \<lparr>peer_ip = V4 127 0 0 2, transport = Plaintext, bearer = token_text example_encode 1 5 [],
      body = ''{}'', request_time = 9\<rparr>"

lemma example_digest: "validate_token_hash (ext_digest example_push s) = Inr ()"
  by (simp add: example_push_def validate_token_hash_def example_hash_def is_hex_lower_def byte_of_def list_all_iff)

lemma example_text: "validate_safe_text ''atmux'' n l = (if 5 \<le> n then Inr () else Inl (invalid_input (l @ '' is invalid'')))"
  by (simp add: validate_safe_text_def is_trimmed_def has_control_def code_points_def is_whitespace_def
      is_control_def byte_of_def)

lemma example_received:
  "receive_context 1 ''host'' ((example_session 7)\<lparr>ctx_account := 9, ctx_machine := ''other''\<rparr>) = Inr (example_session 7)"
proof -
  have upd: "(example_session 7)\<lparr>ctx_account := 1, ctx_machine := ''host''\<rparr> = example_session 7"
    by (simp add: example_session_def example_context_def)
  have settings: "ctx_settings (example_session 7) = default_agent_settings"
    by (simp add: example_session_def example_context_def)
  have "validate_settings default_agent_settings = Inr ()"
    by (simp add: validate_settings_def default_agent_settings_def)
  then show ?thesis by (simp add: receive_context_def Let_def upd settings)
qed

lemma example_decode:
  "decode_push_body example_push example_extern True (body example_request) 1 ''host'' default_ingest_limits 9 =
     Inr (example_batch 7, example_replay)"
proof -
  have "validate_json_shape JNull = Inr ()" by (simp add: validate_json_shape_def max_json_nodes_def max_json_depth_def)
  moreover have "validate_request_id ''r1'' = Inr ()"
    by (simp add: validate_request_id_def request_byte_def is_ascii_alphanumeric_def
        is_ascii_alphabetic_def is_ascii_lower_def is_ascii_digit_def byte_of_def)
  ultimately show ?thesis
    by (simp add: decode_push_body_def example_push_def example_request_def validate_reporter_version_def
        example_text push_row_count_def max_push_rows_def max_push_body_def default_ingest_limits_def
        example_received example_batch_def example_replay_def example_hash_def)
qed

theorem decoded_batch_passes_scope_witness:
  "decode_push_body example_push example_extern True (body example_request) 1 ''host'' default_ingest_limits 9 =
     Inr (example_batch 7, example_replay)
   \<and> validate_ingest_scope True 1 ''host'' (example_batch 7) default_ingest_limits = Inr ()"
  using decoded_batch_passes_scope [OF example_decode] example_digest example_decode by simp

text \<open>The token after the request at time 9.\<close>

definition touched_token :: ingest_token where
  "touched_token = example_token\<lparr>last_used_at := Some 9\<rparr>"

lemma example_tokens:
  "token_account example_token = 1" "token_machine example_token = ''host''" "token_id example_token = 5"
  "revoked_at example_token = None" "token_hash example_token = example_hash b"
  by (simp_all add: example_token_def example_hash_def)

lemma example_token_stored: "ingest_tokens ingest_example_store = [example_token]"
  by (simp add: ingest_example_store_def)

lemma example_active: "active_token example_token ingest_example_store"
  by (simp add: active_token_def example_token_stored example_tokens)

lemma example_authorized:
  "receive_authorized example_push example_extern True example_request example_token default_ingest_limits
     ingest_example_store =
   (Inr \<lparr>outcome_counts = batch_result (example_batch 7), replayed = False\<rparr>,
    ingest_example_store\<lparr>context_sessions := [example_session 7],
      ingest_replays := [new_replay 1 ''host'' (example_batch 7) example_replay],
      ingest_tokens := [touched_token]\<rparr>)"
proof -
  have "request_time example_request = 9" by (simp add: example_request_def)
  then show ?thesis
    by (simp add: receive_authorized_def example_tokens example_decode example_ingest
        touch_ingest_token_def Let_def exists_where_def is_token_def example_token_stored touched_token_def)
      (simp add: example_token_def)
qed

lemma example_limiter:
  "limiter_new 30 60000 8192 = Inr \<lparr>entries = [], rate_limit = 30, rate_window = 60000, max_entries = 8192\<rparr>"
  "limiter_new 120 60000 4096 = Inr \<lparr>entries = [], rate_limit = 120, rate_window = 60000, max_entries = 4096\<rparr>"
  by (simp_all add: limiter_new_def)

lemma example_receiver: "\<exists>r. receiver_new True default_ingest_limits = Inr r \<and> recv_enabled r
    \<and> recv_limits r = default_ingest_limits
    \<and> (\<exists>l. limiter_allow k 100 (ip_limiter r) = (True, l)) \<and> (\<exists>l. limiter_allow j 100 (token_limiter r) = (True, l))"
  by (simp add: receiver_new_def example_limiter default_ingest_limits_def max_push_rows_def limiter_allow_def)

theorem receive_acts_through_token_witness:
  "\<exists>r r' out st'. receiver_new True default_ingest_limits = Inr r
     \<and> receive example_push example_extern True 100 example_request r ingest_example_store = (Inr out, r', st')
     \<and> ingest_tables_ok True st'"
proof -
  obtain r l l2 where r: "receiver_new True default_ingest_limits = Inr r" "recv_enabled r"
    "recv_limits r = default_ingest_limits"
    and l: "limiter_allow (V4 127 0 0 2) 100 (ip_limiter r) = (True, l)"
      "limiter_allow (1, 5) 100 (token_limiter r) = (True, l2)"
    using example_receiver [of "V4 127 0 0 2" "(1, 5)"] by blast
  have p: "parse_token_locator (token_text example_encode 1 5 []) = Inr (1, 5)"
    by (rule token_locator_roundtrip)
      (simp_all add: example_encode_safe i64_ok_def i64_max_def i64_min_def)
  have a: "authenticate (ext_digest example_push) (bearer example_request) ingest_example_store = Inr example_token"
    using p by (simp add: authenticate_Inr get_ingest_token_def example_token_stored is_token_def example_tokens
        example_push_def example_request_def)
  have req: "peer_ip example_request = V4 127 0 0 2" by (simp add: example_request_def)
  obtain r' out st' where rc: "receive example_push example_extern True 100 example_request r ingest_example_store
      = (Inr out, r', st')"
    by (simp add: receive_def r req l a example_tokens example_authorized Let_def)
  from receive_acts_through_token [OF rc ingest_example_ok0] have "ingest_tables_ok True st'" by auto
  with r(1) rc show ?thesis by blast
qed

theorem receive_retry_replays_witness:
  "\<exists>out st1 st3. receive_authorized example_push example_extern True example_request example_token
       default_ingest_limits ingest_example_store = (Inr out, st1)
     \<and> receive_authorized example_push example_extern True (example_request\<lparr>request_time := 50\<rparr>) touched_token
         default_ingest_limits st1 = (Inr \<lparr>outcome_counts = outcome_counts out, replayed = True\<rparr>, st3)"
proof -
  have t: "active_token touched_token (ingest_example_store\<lparr>context_sessions := [example_session 7],
      ingest_replays := [new_replay 1 ''host'' (example_batch 7) example_replay], ingest_tokens := [touched_token]\<rparr>)"
    by (simp add: active_token_def touched_token_def example_tokens)
  have sc: "token_account touched_token = token_account example_token"
    "token_machine touched_token = token_machine example_token"
    by (simp_all add: touched_token_def)
  have d: "\<forall>s. validate_token_hash (ext_digest example_push s) = Inr ()" by (simp add: example_digest)
  from receive_retry_replays [OF example_authorized ingest_example_ok0 example_active d _ t sc, where qs = "[]"
      and ?req2.0 = "example_request\<lparr>request_time := 50\<rparr>"]
  obtain st3 where st3: "receive_authorized example_push example_extern True (example_request\<lparr>request_time := 50\<rparr>)
      touched_token default_ingest_limits (ingest_example_store\<lparr>context_sessions := [example_session 7],
        ingest_replays := [new_replay 1 ''host'' (example_batch 7) example_replay],
        ingest_tokens := [touched_token]\<rparr>) =
      (Inr \<lparr>outcome_counts = outcome_counts
         \<lparr>outcome_counts = batch_result (example_batch 7), replayed = False\<rparr>, replayed = True\<rparr>, st3)"
    by auto
  show ?thesis by (rule exI, rule exI, rule exI, rule conjI, rule example_authorized, rule st3)
qed

end
