(* ===== verification/Reporter_Store.thy ===== *)
theory Reporter_Store
  imports Ingest_Receiver
begin

text \<open>
  The reporter's durable state: cursor transitions and outbox pages of \<open>src/src/pulse/store/mod.rs\<close>
  and their SQLite operations in \<open>src/src/pulse/store/sqlite.rs\<close>. The chunks of a page are stored in
  its row; JSON encoding and decoding of a document are parameters.
\<close>

section \<open>Cursor transitions\<close>

text \<open>The derived ordering of a token position, field by field.\<close>

definition position_key :: "reporter_position \<Rightarrow> string \<times> string \<times> string \<times> string \<times> string \<times> string" where
  "position_key p =
     (pos_profile p, pos_session p, pos_model p, pos_settings_hash p, pos_day p, pos_source p)"

definition after_key :: "reporter_position option \<Rightarrow> (string \<times> string \<times> string \<times> string \<times> string \<times> string) option" where
  "after_key p = map_option position_key p"

definition validate_reporter_destination :: "string \<Rightarrow> unit pulse_result" where
  "validate_reporter_destination v =
     (if v = [] \<or> length v > 96 \<or> \<not> list_all (\<lambda>c. is_ascii_lower c \<or> is_ascii_digit c \<or> c = CHR ''-'') v
      then Inl (invalid_input ''Pulse reporter destination key is invalid'') else Inr ())"

definition validate_reporter_transition :: "reporter_cursor \<Rightarrow> reporter_cursor \<Rightarrow> unit pulse_result" where
  "validate_reporter_transition old new =
     (if usage_after_id old < 0 \<or> usage_after_id new < usage_after_id old
         \<or> token_generation new < token_generation old
         \<or> token_generation new > token_generation old
           \<and> checked_u64 (token_generation old + 1) \<noteq> Some (token_generation new)
      then Inl (invalid_input ''Pulse reporter cursor transition is invalid'')
      else if token_generation new > token_generation old
      then (if usage_after_id new \<noteq> usage_after_id old \<or> token_after new \<noteq> None
            then Inl (invalid_input ''Pulse reporter token resync transition is invalid'') else Inr ())
      else let usage_advanced = usage_after_id new > usage_after_id old in
        case (token_after old, token_after new) of
          (Some _, None) \<Rightarrow>
            Inl (invalid_input ''Pulse reporter token cursor cannot reset without a new generation'')
        | (a, b) \<Rightarrow>
            if a = b
            then (if usage_advanced then Inr ()
                  else Inl (invalid_input ''Pulse reporter cursor did not advance''))
            else if after_key b > after_key a \<and> \<not> usage_advanced then Inr ()
            else Inl (invalid_input ''Pulse reporter cursor transition advanced incompatible streams''))"

section \<open>Outbox documents\<close>

record reporter_extern =
  doc_parse :: "string \<Rightarrow> push_envelope option"
  doc_encode :: "push_envelope \<Rightarrow> string option"

definition reporter_release :: string where "reporter_release = ''atmux/0.2.0''"

lemma reporter_release_valid: "validate_reporter_version reporter_release = Inr ()"
  by (simp add: validate_reporter_version_def reporter_release_def validate_safe_text_def is_trimmed_def has_control_def
      code_points_def is_whitespace_def is_control_def byte_of_def)

text \<open>\<open>PushEnvelope::encode\<close>.\<close>

definition encode_envelope :: "reporter_extern \<Rightarrow> push_envelope \<Rightarrow> string pulse_result" where
  "encode_envelope x env =
     and_then (validate_request_id (push_request env)) (\<lambda>_.
     and_then (validate_reporter_version (push_reporter env)) (\<lambda>_.
       if push_version env \<noteq> 1 \<or> push_row_count (push_rows env) > max_push_rows
       then Inl (invalid_input ''Pulse reporter document exceeds protocol bounds'')
       else and_then (ok_or (new_error Internal ''failed to encode Pulse reporter document'') (doc_encode x env)) (\<lambda>bytes.
         if length bytes > max_push_body
         then Inl (invalid_input ''Pulse reporter document exceeds 1 MiB'') else Inr bytes)))"

definition max_pending_chunks :: nat where "max_pending_chunks = 64"
definition max_pending_bytes :: nat where "max_pending_bytes = 8388608"
definition max_reporter_destinations :: nat where "max_reporter_destinations = 64"

definition stream_matches :: "pending_draft \<Rightarrow> bool" where
  "stream_matches d =
     (let old = draft_expected d; new = draft_next d in
      case draft_kind d of
        UsageStream \<Rightarrow> usage_after_id new > usage_after_id old \<and> token_after new = token_after old
          \<and> token_generation new = token_generation old
      | TokenStream \<Rightarrow> usage_after_id new = usage_after_id old \<and> after_key (token_after new) > after_key (token_after old)
          \<and> token_generation new = token_generation old)"

definition kind_matches :: "stream_kind \<Rightarrow> push_batch \<Rightarrow> bool" where
  "kind_matches k b =
     (push_profiles b = [] \<and> push_contexts b = [] \<and> push_gemini b = []
      \<and> (case k of UsageStream \<Rightarrow> push_snapshots b \<noteq> [] \<and> push_grains b = []
                 | TokenStream \<Rightarrow> push_snapshots b = [] \<and> push_grains b \<noteq> []))"

text \<open>One chunk of a draft, after \<open>used\<close> bytes of earlier chunks.\<close>

definition check_chunk ::
    "reporter_extern \<Rightarrow> int \<Rightarrow> string \<Rightarrow> stream_kind \<Rightarrow> pending_chunk \<Rightarrow> nat \<Rightarrow> nat pulse_result" where
  "check_chunk x acct mach k c used =
     (let total' = used + length (chunk_body c) in
      if chunk_rows c = 0 \<or> chunk_body c = [] \<or> length (chunk_body c) > max_push_body \<or> total' > max_pending_bytes
      then Inl (invalid_input ''Pulse reporter outbox page exceeds its bounds'')
      else and_then (ok_or (new_error Storage ''Pulse reporter outbox contains an invalid document'')
             (doc_parse x (chunk_body c))) (\<lambda>env.
        case encode_envelope x env of
          Inl _ \<Rightarrow> Inl (new_error Storage ''Pulse reporter outbox contains an invalid document'')
        | Inr canonical \<Rightarrow>
            if push_row_count (push_rows env) = chunk_rows c \<and> push_request env = chunk_request c
               \<and> push_account env = Some acct \<and> push_machine env = Some mach \<and> canonical = chunk_body c
               \<and> kind_matches k (push_rows env)
            then Inr total'
            else Inl (new_error Storage ''Pulse reporter outbox document does not match its scope'')))"

definition draft_validate :: "reporter_extern \<Rightarrow> int \<Rightarrow> string \<Rightarrow> pending_draft \<Rightarrow> unit pulse_result" where
  "draft_validate x acct mach d =
     and_then (validate_reporter_transition (draft_expected d) (draft_next d)) (\<lambda>_.
       if \<not> stream_matches d \<or> draft_chunks d = [] \<or> length (draft_chunks d) > max_pending_chunks
       then Inl (invalid_input ''Pulse reporter outbox page is invalid'')
       else map_ok (\<lambda>_. ()) (try_fold (check_chunk x acct mach (draft_kind d)) (draft_chunks d) 0))"

section \<open>Cursor rows\<close>

type_synonym reporter_dest = "int \<times> string \<times> string"

definition cursor_dest :: "cursor_row \<Rightarrow> reporter_dest" where
  "cursor_dest r = (cur_account r, cur_machine r, cur_destination r)"

definition pending_dest :: "pending_row \<Rightarrow> reporter_dest" where
  "pending_dest r = (pend_account r, pend_machine r, pend_destination r)"

definition initial_cursor :: reporter_cursor where
  "initial_cursor = \<lparr>usage_after_id = 0, token_after = None, token_generation = 0\<rparr>"

definition find_cursor :: "reporter_dest \<Rightarrow> store \<Rightarrow> cursor_row option" where
  "find_cursor d st = find (\<lambda>r. cursor_dest r = d) (reporter_cursors st)"

definition set_cursor :: "reporter_dest \<Rightarrow> reporter_cursor \<Rightarrow> store \<Rightarrow> store" where
  "set_cursor d c st =
     st\<lparr>reporter_cursors := update_where (\<lambda>r. cursor_dest r = d) (\<lambda>r. r\<lparr>cur_state := c\<rparr>) (reporter_cursors st)\<rparr>"

definition load_reporter_cursor :: "reporter_dest \<Rightarrow> reporter_cursor store_op" where
  "load_reporter_cursor d st =
     (case d of (acct, mach, dest) \<Rightarrow>
       and_then (validate_reporter_destination dest) (\<lambda>_.
         case find_cursor d st of
           Some r \<Rightarrow> Inr (cur_state r, st)
         | None \<Rightarrow>
             (if count_where (\<lambda>r. cur_account r = acct) (reporter_cursors st) \<ge> max_reporter_destinations
              then Inl (new_error Conflict ''Pulse reporter destination limit was reached for this account'')
              else if \<not> machine_exists acct mach st then Inl constraint_violation
              else let i = last_cursor_id st + 1 in
                Inr (initial_cursor,
                  st\<lparr>reporter_cursors := reporter_cursors st @ [\<lparr>cur_id = i, cur_account = acct, cur_machine = mach,
                       cur_destination = dest, cur_state = initial_cursor\<rparr>],
                     last_cursor_id := i\<rparr>))))"

text \<open>The compare-and-set of a cursor; a generation that does not fit a SQLite integer is refused.\<close>

definition generation_i64 :: "reporter_cursor \<Rightarrow> int pulse_result" where
  "generation_i64 c =
     ok_or (invalid_input ''Pulse reporter generation is too large'') (checked_i64 (int (token_generation c)))"

definition advance_reporter_cursor ::
    "reporter_dest \<Rightarrow> reporter_cursor \<Rightarrow> reporter_cursor \<Rightarrow> reporter_cursor store_op" where
  "advance_reporter_cursor d old new st =
     and_then (validate_reporter_destination (snd (snd d))) (\<lambda>_.
     and_then (validate_reporter_transition old new) (\<lambda>_.
     and_then (generation_i64 old) (\<lambda>_.
     and_then (generation_i64 new) (\<lambda>_.
       if count_where (\<lambda>r. cursor_dest r = d \<and> cur_state r = old) (reporter_cursors st) \<noteq> 1
       then Inl (new_error Conflict ''Pulse reporter cursor changed concurrently'')
       else Inr (new, st\<lparr>reporter_cursors := update_where (\<lambda>r. cursor_dest r = d \<and> cur_state r = old)
                           (\<lambda>r. r\<lparr>cur_state := new\<rparr>) (reporter_cursors st)\<rparr>)))))"

section \<open>Pages of local rows\<close>

definition local_reporter_usage_page ::
    "int \<Rightarrow> string \<Rightarrow> int \<Rightarrow> nat \<Rightarrow> store \<Rightarrow> snapshot_row list pulse_result" where
  "local_reporter_usage_page acct mach after n st =
     (if after < 0 then Inl (invalid_input ''Pulse reporter usage cursor is invalid'')
      else map_ok (\<lambda>m. select_ordered (\<lambda>r. snap_account (snapshot r) = acct \<and> snap_machine (snapshot r) = mach
                          \<and> snap_id r > after) snap_id m (usage_snapshots st))
             (query_limit n))"

text \<open>The JSON text of a token source, as it is stored and ordered.\<close>

fun source_json :: "token_source \<Rightarrow> string" where
  "source_json LocalSource = ''\"local\"''"
| "source_json IngestSource = ''\"ingest\"''"

definition from_grain :: "token_grain \<Rightarrow> reporter_position" where
  "from_grain g =
     \<lparr>pos_profile = tok_profile g, pos_session = tok_session g, pos_model = tok_model g,
      pos_settings_hash = settings_hash g, pos_day = tok_day g, pos_source = source_json (tok_source g)\<rparr>"

definition local_reporter_token_page ::
    "int \<Rightarrow> string \<Rightarrow> reporter_position option \<Rightarrow> nat \<Rightarrow> store \<Rightarrow> token_grain list pulse_result" where
  "local_reporter_token_page acct mach after n st =
     map_ok (\<lambda>m. map grain (select_ordered (\<lambda>r. tok_account (grain r) = acct \<and> tok_machine (grain r) = mach
                   \<and> (case after of None \<Rightarrow> True | Some p \<Rightarrow> position_key (from_grain (grain r)) > position_key p))
                 (\<lambda>r. position_key (from_grain (grain r))) m (token_usage st)))
       (query_limit n)"

section \<open>The outbox\<close>

definition is_pending :: "reporter_dest \<Rightarrow> stream_kind \<Rightarrow> pending_row \<Rightarrow> bool" where
  "is_pending d k r \<longleftrightarrow> pending_dest r = d \<and> draft_kind (pend_draft r) = k"

definition load_sqlite_reporter_pending ::
    "reporter_extern \<Rightarrow> reporter_dest \<Rightarrow> stream_kind \<Rightarrow> store \<Rightarrow> pending_row option pulse_result" where
  "load_sqlite_reporter_pending x d k st =
     (case find (is_pending d k) (reporter_pending st) of
        None \<Rightarrow> Inr None
      | Some r \<Rightarrow> map_ok (\<lambda>_. Some r) (draft_validate x (fst d) (fst (snd d)) (pend_draft r)))"

definition load_reporter_pending ::
    "reporter_extern \<Rightarrow> reporter_dest \<Rightarrow> stream_kind \<Rightarrow> store \<Rightarrow> pending_row option pulse_result" where
  "load_reporter_pending x d k st =
     and_then (validate_reporter_destination (snd (snd d))) (\<lambda>_. load_sqlite_reporter_pending x d k st)"

text \<open>
  \<open>UNIQUE(account_id, machine, destination_key, kind)\<close> holds because the page of the kind was just
  looked up; the page and chunk checks of the schema follow from \<open>draft_validate\<close>.
\<close>

definition insert_sqlite_reporter_pending ::
    "reporter_extern \<Rightarrow> reporter_dest \<Rightarrow> pending_draft \<Rightarrow> pending_row store_op" where
  "insert_sqlite_reporter_pending x d draft st =
     (case d of (acct, mach, dest) \<Rightarrow>
       if find_cursor d st = None then Inl constraint_violation
       else let i = last_pending_id st + 1;
                row = \<lparr>pend_id = i, pend_account = acct, pend_machine = mach, pend_destination = dest,
                       pend_draft = draft\<rparr>;
                st' = st\<lparr>reporter_pending := reporter_pending st @ [row], last_pending_id := i\<rparr>
            in and_then (load_sqlite_reporter_pending x d (draft_kind draft) st') (\<lambda>found.
               case found of
                 None \<Rightarrow> Inl (new_error Storage ''Pulse reporter outbox insert was not visible'')
               | Some p \<Rightarrow> Inr (p, st')))"

definition prepare_reporter_pending ::
    "reporter_extern \<Rightarrow> reporter_dest \<Rightarrow> pending_draft \<Rightarrow> pending_row store_op" where
  "prepare_reporter_pending x d draft st =
     and_then (validate_reporter_destination (snd (snd d))) (\<lambda>_.
     and_then (draft_validate x (fst d) (fst (snd d)) draft) (\<lambda>_.
     and_then (load_sqlite_reporter_pending x d (draft_kind draft) st) (\<lambda>existing.
       case existing of
         Some p \<Rightarrow> Inr (p, st)
       | None \<Rightarrow>
           (if exists_where (\<lambda>r. pending_dest r = d \<and> draft_kind (pend_draft r) \<noteq> draft_kind draft) (reporter_pending st)
            then Inl (new_error Conflict (''Pulse reporter outbox still holds another stream'' @ [CHR 0x27] @ ''s page''))
            else case find_cursor d st of
              None \<Rightarrow> Inl (new_error Conflict ''Pulse reporter cursor was not initialized'')
            | Some c \<Rightarrow>
                if cur_state c \<noteq> draft_expected draft
                then Inl (new_error Conflict ''Pulse reporter cursor changed before outbox preparation'')
                else insert_sqlite_reporter_pending x d draft st))))"

definition commit_reporter_pending ::
    "reporter_extern \<Rightarrow> reporter_dest \<Rightarrow> stream_kind \<Rightarrow> int \<Rightarrow> reporter_cursor store_op" where
  "commit_reporter_pending x d k i st =
     and_then (validate_reporter_destination (snd (snd d))) (\<lambda>_.
     and_then (load_sqlite_reporter_pending x d k st) (\<lambda>found.
       case found of
         None \<Rightarrow> Inl (new_error Conflict ''Pulse reporter outbox page is missing'')
       | Some p \<Rightarrow>
           if pend_id p \<noteq> i
           then Inl (new_error Conflict ''Pulse reporter outbox page changed concurrently'')
           else (case find_cursor d st of
             None \<Rightarrow> Inl (new_error Storage ''Pulse SQLite operation failed'')
           | Some c \<Rightarrow>
               if cur_state c \<noteq> draft_expected (pend_draft p)
               then Inl (new_error Conflict ''Pulse reporter cursor changed before outbox commit'')
               else and_then (generation_i64 (draft_next (pend_draft p))) (\<lambda>_.
                 if count_where (\<lambda>r. cursor_dest r = d) (reporter_cursors st) \<noteq> 1
                 then Inl (new_error Conflict ''Pulse reporter cursor changed before outbox commit'')
                 else if count_where (\<lambda>r. pend_account r = fst d \<and> pend_id r = i) (reporter_pending st) \<noteq> 1
                 then Inl (new_error Conflict ''Pulse reporter outbox page changed concurrently'')
                 else Inr (draft_next (pend_draft p),
                   (set_cursor d (draft_next (pend_draft p)) st)\<lparr>reporter_pending :=
                      delete_where (\<lambda>r. pend_account r = fst d \<and> pend_id r = i) (reporter_pending st)\<rparr>)))))"

section \<open>Invariant\<close>

definition cursor_le :: "reporter_cursor \<Rightarrow> reporter_cursor \<Rightarrow> bool" where
  "cursor_le a b \<longleftrightarrow> usage_after_id a \<le> usage_after_id b
     \<and> (token_generation a < token_generation b
        \<or> token_generation a = token_generation b \<and> after_key (token_after a) \<le> after_key (token_after b))"

lemma cursor_le_refl: "cursor_le a a"
  by (simp add: cursor_le_def)

lemma cursor_le_trans: "cursor_le a b \<Longrightarrow> cursor_le b c \<Longrightarrow> cursor_le a c"
  by (auto simp: cursor_le_def)

lemma transition_le: "validate_reporter_transition a b = Inr () \<Longrightarrow> cursor_le a b"
  by (auto simp: validate_reporter_transition_def cursor_le_def Let_def less_imp_le split: if_splits option.splits)

lemma draft_validate_facts:
  assumes "draft_validate x acct mach d = Inr ()"
  shows "validate_reporter_transition (draft_expected d) (draft_next d) = Inr ()" "stream_matches d"
  using assms by (auto simp: draft_validate_def result_simps split: if_splits)

lemma stream_matches_generation: "stream_matches d \<Longrightarrow> token_generation (draft_next d) = token_generation (draft_expected d)"
  by (auto simp: stream_matches_def Let_def split: stream_kind.splits)

text \<open>
  Cursors are unique and storable; a destination has at most one page, which is valid and expects
  exactly the cursor that is stored.
\<close>

definition page_ok :: "reporter_extern \<Rightarrow> store \<Rightarrow> pending_row \<Rightarrow> bool" where
  "page_ok x st p \<longleftrightarrow>
     validate_reporter_destination (pend_destination p) = Inr ()
     \<and> draft_validate x (pend_account p) (pend_machine p) (pend_draft p) = Inr ()
     \<and> (\<exists>c. find_cursor (pending_dest p) st = Some c \<and> cur_state c = draft_expected (pend_draft p))"

definition reporter_ok :: "reporter_extern \<Rightarrow> store \<Rightarrow> bool" where
  "reporter_ok x st \<longleftrightarrow>
     distinct (map cursor_dest (reporter_cursors st))
     \<and> (\<forall>c \<in> set (reporter_cursors st). i64_ok (int (token_generation (cur_state c))))
     \<and> distinct (map pend_id (reporter_pending st)) \<and> distinct (map pending_dest (reporter_pending st))
     \<and> (\<forall>p \<in> set (reporter_pending st). pend_id p \<le> last_pending_id st \<and> page_ok x st p)"

lemma find_cursor_facts: "find_cursor d st = Some c \<Longrightarrow> c \<in> set (reporter_cursors st) \<and> cursor_dest c = d"
  unfolding find_cursor_def by (drule find_Some_mem) simp

lemma find_cursor_mem:
  assumes "distinct (map cursor_dest (reporter_cursors st))" and "c \<in> set (reporter_cursors st)"
  shows "find_cursor (cursor_dest c) st = Some c"
  unfolding find_cursor_def
  by (rule find_unique) (use assms in \<open>auto simp: distinct_map dest: inj_onD\<close>)

lemma cursor_count:
  assumes "distinct (map cursor_dest (reporter_cursors st))" and "find_cursor d st = Some c"
  shows "count_where (\<lambda>r. cursor_dest r = d) (reporter_cursors st) = 1"
proof -
  have "c \<in> set (reporter_cursors st)" "cursor_dest c = d" using find_cursor_facts [OF assms(2)] by simp_all
  then have "{k \<in> cursor_dest ` set (reporter_cursors st). k = d} = {d}" by auto
  then show ?thesis using count_where_keys [OF assms(1), of "\<lambda>k. k = d"] by simp
qed

lemma find_cursor_update:
  "find_cursor e (st\<lparr>reporter_cursors := update_where (\<lambda>r. cursor_dest r = d \<and> Q r) (\<lambda>r. r\<lparr>cur_state := n\<rparr>)
      (reporter_cursors st)\<rparr>)
    = map_option (\<lambda>r. if cursor_dest r = d \<and> Q r then r\<lparr>cur_state := n\<rparr> else r) (find_cursor e st)"
proof -
  have "find (\<lambda>r. cursor_dest r = e) (update_where (\<lambda>r. cursor_dest r = d \<and> Q r) (\<lambda>r. r\<lparr>cur_state := n\<rparr>) rs)
    = map_option (\<lambda>r. if cursor_dest r = d \<and> Q r then r\<lparr>cur_state := n\<rparr> else r) (find (\<lambda>r. cursor_dest r = e) rs)" for rs
    by (induction rs) (auto simp: cursor_dest_def)
  then show ?thesis by (simp add: find_cursor_def)
qed

lemma find_cursor_set:
  "find_cursor e (set_cursor d n st) =
     map_option (\<lambda>r. if e = d then r\<lparr>cur_state := n\<rparr> else r) (find_cursor e st)"
proof -
  have s: "set_cursor d n st = st\<lparr>reporter_cursors := update_where (\<lambda>r. cursor_dest r = d \<and> True)
      (\<lambda>r. r\<lparr>cur_state := n\<rparr>) (reporter_cursors st)\<rparr>"
    by (simp add: set_cursor_def)
  show ?thesis
    unfolding s find_cursor_update using find_cursor_facts [of e st] by (cases "find_cursor e st") auto
qed

section \<open>Steps of the reporter\<close>

text \<open>
  The operations in the order the coordinator may run them. The direct cursor update is the token
  resync, which runs after the outbox was drained; \<open>Other\<close> is every operation on other tables.
\<close>

inductive reporter_step :: "reporter_extern \<Rightarrow> store \<Rightarrow> store \<Rightarrow> bool" for x where
  Load: "load_reporter_cursor d st = Inr (c, st') \<Longrightarrow> reporter_step x st st'"
| Prepare: "prepare_reporter_pending x d draft st = Inr (p, st') \<Longrightarrow> reporter_step x st st'"
| Commit: "commit_reporter_pending x d k i st = Inr (c, st') \<Longrightarrow> reporter_step x st st'"
| Resync: "\<not> exists_where (\<lambda>p. pending_dest p = d) (reporter_pending st) \<Longrightarrow>
    advance_reporter_cursor d old new st = Inr (c, st') \<Longrightarrow> reporter_step x st st'"
| Other: "reporter_cursors st' = reporter_cursors st \<Longrightarrow> reporter_pending st' = reporter_pending st \<Longrightarrow>
    last_pending_id st' = last_pending_id st \<Longrightarrow> reporter_step x st st'"

definition cursors_advance :: "store \<Rightarrow> store \<Rightarrow> bool" where
  "cursors_advance st st' \<longleftrightarrow>
     (\<forall>d c. find_cursor d st = Some c \<longrightarrow> (\<exists>c'. find_cursor d st' = Some c' \<and> cursor_le (cur_state c) (cur_state c')))"

lemma cursors_advance_refl: "cursors_advance st st"
  by (auto simp: cursors_advance_def cursor_le_refl)

lemma cursors_advance_trans: "cursors_advance a b \<Longrightarrow> cursors_advance b c \<Longrightarrow> cursors_advance a c"
  unfolding cursors_advance_def by (meson cursor_le_trans)

lemma page_ok_mono:
  "page_ok x st p \<Longrightarrow> find_cursor (pending_dest p) st' = find_cursor (pending_dest p) st \<Longrightarrow> page_ok x st' p"
  by (simp add: page_ok_def)

lemma load_step:
  assumes ok: "reporter_ok x st" and l: "load_reporter_cursor d st = Inr (c, st')"
  shows "reporter_ok x st' \<and> cursors_advance st st' \<and> find_cursor d st' \<noteq> None \<and> reporter_pending st' = reporter_pending st"
proof (cases "find_cursor d st")
  case (Some r)
  then show ?thesis using assms by (cases d) (auto simp: load_reporter_cursor_def result_simps cursors_advance_refl)
next
  case None
  obtain a m t where d: "d = (a, m, t)" by (cases d)
  let ?row = "\<lparr>cur_id = last_cursor_id st + 1, cur_account = a, cur_machine = m, cur_destination = t,
      cur_state = initial_cursor\<rparr>"
  have st': "st' = st\<lparr>reporter_cursors := reporter_cursors st @ [?row], last_cursor_id := last_cursor_id st + 1\<rparr>"
    using l None d by (auto simp: load_reporter_cursor_def result_simps Let_def split: if_splits)
  have row: "cursor_dest ?row = d" by (simp add: cursor_dest_def d)
  have f: "find_cursor e st' = (case find_cursor e st of None \<Rightarrow> if e = d then Some ?row else None | Some r \<Rightarrow> Some r)" for e
    using row by (simp add: find_cursor_def st' find_append split: option.split)
  have "d \<notin> cursor_dest ` set (reporter_cursors st)"
    using None by (auto simp: find_cursor_def find_None_iff)
  moreover have "page_ok x st' p" if p: "p \<in> set (reporter_pending st)" for p
  proof -
    have "page_ok x st p" using ok p by (simp add: reporter_ok_def)
    then show ?thesis by (rule page_ok_mono) (use \<open>page_ok x st p\<close> in \<open>auto simp: f page_ok_def\<close>)
  qed
  ultimately have "reporter_ok x st'"
    using ok row by (simp add: reporter_ok_def st' initial_cursor_def i64_ok_def i64_min_def i64_max_def)
  moreover have "reporter_pending st' = reporter_pending st" by (simp add: st')
  moreover have "cursors_advance st st'"
    unfolding cursors_advance_def by (intro allI impI) (simp add: f cursor_le_refl)
  ultimately show ?thesis using None by (simp add: f)
qed

lemma prepare_cases:
  assumes "prepare_reporter_pending x d draft st = Inr (p, st')"
  obtains (existing) "st' = st" "find (is_pending d (draft_kind draft)) (reporter_pending st) = Some p"
    | (new) c where "find (is_pending d (draft_kind draft)) (reporter_pending st) = None"
      "\<not> exists_where (\<lambda>r. pending_dest r = d) (reporter_pending st)"
      "find_cursor d st = Some c" "cur_state c = draft_expected draft"
      "validate_reporter_destination (snd (snd d)) = Inr ()"
      "draft_validate x (fst d) (fst (snd d)) draft = Inr ()"
      "p = \<lparr>pend_id = last_pending_id st + 1, pend_account = fst d, pend_machine = fst (snd d),
            pend_destination = snd (snd d), pend_draft = draft\<rparr>"
      "st' = st\<lparr>reporter_pending := reporter_pending st @ [p], last_pending_id := last_pending_id st + 1\<rparr>"
proof (cases "find (is_pending d (draft_kind draft)) (reporter_pending st)")
  case (Some r)
  then show ?thesis
    using assms existing by (auto simp: prepare_reporter_pending_def load_sqlite_reporter_pending_def result_simps)
next
  case None
  obtain a m t where d: "d = (a, m, t)" by (cases d)
  have n: "\<not> exists_where (\<lambda>r. pending_dest r = d) (reporter_pending st)"
    using assms None
    by (auto simp: prepare_reporter_pending_def load_sqlite_reporter_pending_def result_simps find_None_iff
        is_pending_def exists_where_def split: if_splits)
  obtain c where c: "find_cursor d st = Some c" "cur_state c = draft_expected draft"
    and ins: "insert_sqlite_reporter_pending x d draft st = Inr (p, st')"
    and v: "validate_reporter_destination (snd (snd d)) = Inr ()" "draft_validate x (fst d) (fst (snd d)) draft = Inr ()"
    using assms None
    by (auto simp: prepare_reporter_pending_def load_sqlite_reporter_pending_def result_simps split: if_splits option.splits)
  have st': "p = \<lparr>pend_id = last_pending_id st + 1, pend_account = a, pend_machine = m, pend_destination = t, pend_draft = draft\<rparr>"
    "st' = st\<lparr>reporter_pending := reporter_pending st @ [p], last_pending_id := last_pending_id st + 1\<rparr>"
    using ins c None
    by (auto simp: insert_sqlite_reporter_pending_def d Let_def result_simps load_sqlite_reporter_pending_def
        find_append is_pending_def pending_dest_def split: option.splits if_splits)
  show ?thesis by (rule new [OF None n c v]) (use st' d in simp_all)
qed

lemma prepare_step:
  assumes ok: "reporter_ok x st" and p: "prepare_reporter_pending x d draft st = Inr (p, st')"
  shows "reporter_ok x st' \<and> cursors_advance st st'"
  using p
proof (cases rule: prepare_cases)
  case existing
  then show ?thesis using ok by (simp add: cursors_advance_refl)
next
  case (new c)
  have f: "find_cursor e st' = find_cursor e st" for e by (subst new(8)) (simp add: find_cursor_def)
  have pd: "pending_dest p = d" using new(7) by (simp add: pending_dest_def)
  have "page_ok x st' q" if "q \<in> set (reporter_pending st')" for q
  proof (cases "q = p")
    case True
    have "page_ok x st p" using new(3-7) pd by (simp add: page_ok_def)
    then show ?thesis unfolding True by (rule page_ok_mono) (rule f)
  next
    case False
    then have "q \<in> set (reporter_pending st)" using that by (subst (asm) new(8)) simp
    then have "page_ok x st q" using ok by (simp add: reporter_ok_def)
    then show ?thesis by (rule page_ok_mono) (rule f)
  qed
  moreover have "pend_id p \<notin> pend_id ` set (reporter_pending st)"
    using ok new(7) by (force simp: reporter_ok_def)
  moreover have "d \<notin> pending_dest ` set (reporter_pending st)" using new(2) by (auto simp: exists_where_def)
  moreover have "pend_id q \<le> last_pending_id st'" if "q \<in> set (reporter_pending st')" for q
    using that ok new(7) by (subst new(8), subst (asm) new(8)) (auto simp: reporter_ok_def)
  moreover have "reporter_cursors st' = reporter_cursors st" "reporter_pending st' = reporter_pending st @ [p]"
    by (subst new(8), simp)+
  ultimately have "reporter_ok x st'" using ok pd by (simp add: reporter_ok_def)
  then show ?thesis by (simp add: cursors_advance_def f cursor_le_refl)
qed

lemma commit_cases:
  assumes "commit_reporter_pending x d k i st = Inr (c, st')"
  obtains p r where "find (is_pending d k) (reporter_pending st) = Some p" "pend_id p = i"
    "find_cursor d st = Some r" "cur_state r = draft_expected (pend_draft p)" "c = draft_next (pend_draft p)"
    "i64_ok (int (token_generation c))"
    "st' = (set_cursor d c st)\<lparr>reporter_pending :=
       delete_where (\<lambda>q. pend_account q = fst d \<and> pend_id q = i) (reporter_pending st)\<rparr>"
  using assms
  by (auto simp: commit_reporter_pending_def load_sqlite_reporter_pending_def generation_i64_def ok_or_Inr
      result_simps split: option.splits if_splits)

lemma set_cursor_dests: "map cursor_dest (reporter_cursors (set_cursor d n st)) = map cursor_dest (reporter_cursors st)"
  by (simp add: set_cursor_def map_update_where cursor_dest_def)

lemma set_cursor_all:
  assumes "\<forall>c \<in> set (reporter_cursors st). Q (cur_state c)" and "Q n"
  shows "\<forall>c \<in> set (reporter_cursors (set_cursor d n st)). Q (cur_state c)"
  using assms by (auto simp: set_cursor_def set_update_where)

lemma pending_unique:
  assumes "reporter_ok x st" "p \<in> set (reporter_pending st)" "q \<in> set (reporter_pending st)"
  shows "pend_id p = pend_id q \<Longrightarrow> p = q" "pending_dest p = pending_dest q \<Longrightarrow> p = q"
  using assms by (auto simp: reporter_ok_def distinct_map dest: inj_onD)

lemma commit_step:
  assumes ok: "reporter_ok x st" and c: "commit_reporter_pending x d k i st = Inr (c, st')"
  shows "reporter_ok x st' \<and> cursors_advance st st'
    \<and> (\<exists>p. p \<in> set (reporter_pending st) \<and> pending_dest p = d \<and> pend_id p = i
         \<and> reporter_pending st' = filter (\<lambda>q. q \<noteq> p) (reporter_pending st)
         \<and> map_option cur_state (find_cursor d st') = Some (draft_next (pend_draft p)))"
  using c
proof (cases rule: commit_cases)
  case (1 p r)
  have p: "p \<in> set (reporter_pending st)" "pending_dest p = d"
    using find_Some_mem [OF 1(1)] by (simp_all add: is_pending_def)
  have pa: "pend_account p = fst d" using p(2) by (auto simp: pending_dest_def)
  have rest: "reporter_pending st' = filter (\<lambda>q. q \<noteq> p) (reporter_pending st)"
  proof -
    have "(\<not> (pend_account q = fst d \<and> pend_id q = i)) \<longleftrightarrow> q \<noteq> p" if "q \<in> set (reporter_pending st)" for q
      using pending_unique(1) [OF ok that p(1)] 1(2) pa by auto
    then show ?thesis by (simp add: 1(7) delete_where_def cong: filter_cong)
  qed
  have f: "find_cursor e st' = map_option (\<lambda>r. if e = d then r\<lparr>cur_state := c\<rparr> else r) (find_cursor e st)" for e
    using find_cursor_set [of e d c st] by (simp add: 1(7) find_cursor_def)
  have v: "draft_validate x (pend_account p) (pend_machine p) (pend_draft p) = Inr ()"
    using ok p(1) by (simp add: reporter_ok_def page_ok_def)
  have "cursor_le (cur_state r) c"
    using transition_le [OF draft_validate_facts(1) [OF v]] 1(4,5) by simp
  then have adv: "cursors_advance st st'"
    unfolding cursors_advance_def using 1(3) by (intro allI impI) (auto simp: f cursor_le_refl)
  have "page_ok x st' q" if "q \<in> set (reporter_pending st')" for q
  proof -
    have q: "q \<in> set (reporter_pending st)" "q \<noteq> p" using that rest by simp_all
    have "pending_dest q \<noteq> d" using pending_unique(2) [OF ok q(1) p(1)] q(2) unfolding p(2) by blast
    then have "find_cursor (pending_dest q) st' = find_cursor (pending_dest q) st"
      using f [of "pending_dest q"] by (simp add: option.map_ident)
    moreover have "page_ok x st q" using ok q(1) by (simp add: reporter_ok_def)
    ultimately show ?thesis by (rule page_ok_mono [rotated])
  qed
  moreover have "reporter_cursors st' = reporter_cursors (set_cursor d c st)" "last_pending_id st' = last_pending_id st"
    by (simp_all add: 1(7) set_cursor_def)
  moreover have "\<forall>c \<in> set (reporter_cursors st). i64_ok (int (token_generation (cur_state c)))"
    using ok by (simp add: reporter_ok_def)
  ultimately have "reporter_ok x st'"
    using ok rest 1(6) set_cursor_all [where Q = "\<lambda>s. i64_ok (int (token_generation s))"]
    by (simp add: reporter_ok_def set_cursor_dests distinct_map_filter)
  moreover have "map_option cur_state (find_cursor d st') = Some c" by (simp add: f 1(3))
  ultimately show ?thesis using adv p rest 1(2,5) by blast
qed

lemma resync_step:
  assumes ok: "reporter_ok x st" and n: "\<not> exists_where (\<lambda>p. pending_dest p = d) (reporter_pending st)"
    and a: "advance_reporter_cursor d old new st = Inr (c, st')"
  shows "reporter_ok x st' \<and> cursors_advance st st'"
proof -
  let ?Q = "\<lambda>r. cur_state r = old"
  have v: "validate_reporter_transition old new = Inr ()" and g: "i64_ok (int (token_generation new))"
    and st': "st' = st\<lparr>reporter_cursors := update_where (\<lambda>r. cursor_dest r = d \<and> ?Q r) (\<lambda>r. r\<lparr>cur_state := new\<rparr>)
        (reporter_cursors st)\<rparr>"
    using a by (auto simp: advance_reporter_cursor_def generation_i64_def ok_or_Inr result_simps split: if_splits)
  have f: "find_cursor e st' = map_option (\<lambda>r. if cursor_dest r = d \<and> ?Q r then r\<lparr>cur_state := new\<rparr> else r) (find_cursor e st)" for e
    unfolding st' by (rule find_cursor_update)
  have "cursors_advance st st'"
    unfolding cursors_advance_def using transition_le [OF v] by (intro allI impI) (auto simp: f cursor_le_refl)
  moreover have "page_ok x st' q" if q: "q \<in> set (reporter_pending st)" for q
  proof -
    have d: "pending_dest q \<noteq> d" using n q by (auto simp: exists_where_def)
    have "page_ok x st q" using ok q by (simp add: reporter_ok_def)
    moreover have "find_cursor (pending_dest q) st' = find_cursor (pending_dest q) st"
      using d find_cursor_facts [of "pending_dest q" st] by (cases "find_cursor (pending_dest q) st") (auto simp: f)
    ultimately show ?thesis by (rule page_ok_mono)
  qed
  moreover have "\<forall>r \<in> set (reporter_cursors st'). i64_ok (int (token_generation (cur_state r)))"
    using ok g by (auto simp: reporter_ok_def st' set_update_where)
  moreover have "map cursor_dest (reporter_cursors st') = map cursor_dest (reporter_cursors st)"
    by (simp add: st' map_update_where cursor_dest_def)
  moreover have "reporter_pending st' = reporter_pending st" "last_pending_id st' = last_pending_id st"
    by (simp_all add: st')
  ultimately show ?thesis using ok by (simp add: reporter_ok_def)
qed

lemma reporter_steps_ok:
  assumes "(reporter_step x)\<^sup>*\<^sup>* st st'" and "reporter_ok x st"
  shows "reporter_ok x st' \<and> cursors_advance st st'"
  using assms
proof (induction rule: rtranclp_induct)
  case base
  then show ?case by (simp add: cursors_advance_refl)
next
  case (step st1 st2)
  then have ok: "reporter_ok x st1" by simp
  from step.hyps(2) have "reporter_ok x st2 \<and> cursors_advance st1 st2"
  proof cases
    case (Load d c)
    then show ?thesis using load_step [OF ok] by blast
  next
    case (Prepare d draft p)
    then show ?thesis using prepare_step [OF ok] by blast
  next
    case (Commit d k i c)
    then show ?thesis using commit_step [OF ok] by blast
  next
    case (Resync d old new c)
    then show ?thesis using resync_step [OF ok] by blast
  next
    case Other
    then show ?thesis
      using ok by (simp add: reporter_ok_def page_ok_def cursors_advance_def find_cursor_def cursor_le_refl)
  qed
  then show ?case using step cursors_advance_trans by blast
qed

section \<open>An example page\<close>

definition example_envelope :: push_envelope where
  "example_envelope =
     \<lparr>push_version = 1, push_request = ''push-'', push_reporter = reporter_release,
      push_account = Some 1, push_machine = Some ''host'',
      push_rows = \<lparr>push_profiles = [], push_snapshots = [example_snapshot], push_grains = [],
        push_contexts = [], push_gemini = []\<rparr>\<rparr>"

definition example_docs :: reporter_extern where
  "example_docs =
     \<lparr>doc_parse = (\<lambda>d. if d = ''doc'' then Some example_envelope else None),
      doc_encode = (\<lambda>e. if e = example_envelope then Some ''doc'' else None)\<rparr>"

definition example_draft :: pending_draft where
  "example_draft =
     \<lparr>draft_kind = UsageStream, draft_expected = initial_cursor, draft_next = initial_cursor\<lparr>usage_after_id := 5\<rparr>,
      draft_chunks = [\<lparr>chunk_request = ''push-'', chunk_body = ''doc'', chunk_rows = 1\<rparr>]\<rparr>"

definition reporter_example_store :: "pending_row list \<Rightarrow> store" where
  "reporter_example_store ps = empty_store\<lparr>
     machines := [\<lparr>mach_account = 1, mach_name = ''host'', first_seen = 0, last_seen = 0\<rparr>],
     usage_snapshots := [\<lparr>snap_id = 5, snapshot = example_snapshot\<rparr>],
     reporter_cursors := [\<lparr>cur_id = 1, cur_account = 1, cur_machine = ''host'', cur_destination = ''hub'',
       cur_state = initial_cursor\<rparr>],
     last_cursor_id := 1, reporter_pending := ps, last_pending_id := int (length ps)\<rparr>"

definition example_page :: pending_row where
  "example_page =
     \<lparr>pend_id = 1, pend_account = 1, pend_machine = ''host'', pend_destination = ''hub'', pend_draft = example_draft\<rparr>"

lemma example_encode_envelope: "encode_envelope example_docs example_envelope = Inr ''doc''"
proof -
  have "validate_request_id ''push-'' = Inr ()"
    by (simp add: validate_request_id_def request_byte_def is_ascii_alphanumeric_def
        is_ascii_alphabetic_def is_ascii_lower_def is_ascii_digit_def byte_of_def)
  then show ?thesis
    by (simp add: encode_envelope_def example_docs_def example_envelope_def reporter_release_valid push_row_count_def
        max_push_rows_def max_push_body_def)
qed

lemma example_transition:
  "validate_reporter_transition initial_cursor (initial_cursor\<lparr>usage_after_id := 5\<rparr>) = Inr ()"
  by (simp add: validate_reporter_transition_def initial_cursor_def Let_def)

lemma example_draft_valid: "draft_validate example_docs 1 ''host'' example_draft = Inr ()"
proof -
  have p: "doc_parse example_docs ''doc'' = Some example_envelope" by (simp add: example_docs_def)
  have "check_chunk example_docs 1 ''host'' UsageStream \<lparr>chunk_request = ''push-'', chunk_body = ''doc'', chunk_rows = 1\<rparr> 0 = Inr 3"
    by (simp add: check_chunk_def p example_encode_envelope Let_def max_push_body_def max_pending_bytes_def)
      (simp add: example_envelope_def push_row_count_def kind_matches_def)
  moreover have "stream_matches example_draft"
    by (simp add: stream_matches_def example_draft_def initial_cursor_def Let_def)
  ultimately show ?thesis
    by (simp add: draft_validate_def example_transition) (simp add: example_draft_def example_transition max_pending_chunks_def)
qed

lemma example_destination: "validate_reporter_destination ''hub'' = Inr ()"
  by (simp add: validate_reporter_destination_def is_ascii_lower_def byte_of_def)

lemma example_cursor:
  "find_cursor (1, ''host'', ''hub'') (reporter_example_store ps) = Some \<lparr>cur_id = 1, cur_account = 1,
     cur_machine = ''host'', cur_destination = ''hub'', cur_state = initial_cursor\<rparr>"
  by (simp add: find_cursor_def reporter_example_store_def cursor_dest_def)

lemma example_page_facts:
  "pending_dest example_page = (1, ''host'', ''hub'')" "pend_draft example_page = example_draft"
  "draft_kind example_draft = UsageStream" "draft_expected example_draft = initial_cursor"
  "reporter_pending (reporter_example_store ps) = ps"
  by (simp_all add: pending_dest_def example_page_def example_draft_def reporter_example_store_def)

lemma example_reporter_ok: "reporter_ok example_docs (reporter_example_store [])"
  by (simp add: reporter_ok_def reporter_example_store_def initial_cursor_def i64_ok_def i64_min_def i64_max_def)

lemma example_prepare:
  "prepare_reporter_pending example_docs (1, ''host'', ''hub'') example_draft (reporter_example_store []) =
     Inr (example_page, reporter_example_store [example_page])"
proof -
  have st: "(reporter_example_store [])\<lparr>reporter_pending := [example_page], last_pending_id := 1\<rparr>
      = reporter_example_store [example_page]"
    by (simp add: reporter_example_store_def)
  have row: "\<lparr>pend_id = 1, pend_account = 1, pend_machine = ''host'', pend_destination = ''hub'', pend_draft = example_draft\<rparr>
      = example_page"
    by (simp add: example_page_def)
  have n: "last_pending_id (reporter_example_store []) = 0" by (simp add: reporter_example_store_def)
  show ?thesis
    by (simp add: prepare_reporter_pending_def example_destination example_draft_valid load_sqlite_reporter_pending_def
        example_page_facts example_cursor exists_where_def insert_sqlite_reporter_pending_def Let_def n row st is_pending_def)
qed

lemma example_steps: "(reporter_step example_docs)\<^sup>*\<^sup>* (reporter_example_store []) (reporter_example_store [example_page])"
  by (rule r_into_rtranclp) (rule Prepare [OF example_prepare])

section \<open>Properties of the outbox\<close>

text \<open>
  Progress is never lost: whatever the coordinator does, the outbox stays consistent (at most one
  page for a destination, valid, and expecting exactly the stored cursor) and no cursor goes back:
  its usage position never decreases and its token position only grows within a generation.
\<close>

theorem reporter_progress_monotone:
  assumes "(reporter_step x)\<^sup>*\<^sup>* st st'" and "reporter_ok x st" and "find_cursor d st = Some c"
  shows "reporter_ok x st' \<and> (\<exists>c'. find_cursor d st' = Some c'
    \<and> usage_after_id (cur_state c) \<le> usage_after_id (cur_state c')
    \<and> (token_generation (cur_state c) < token_generation (cur_state c')
       \<or> token_generation (cur_state c) = token_generation (cur_state c')
         \<and> after_key (token_after (cur_state c)) \<le> after_key (token_after (cur_state c'))))"
  using reporter_steps_ok [OF assms(1,2)] assms(3) unfolding cursors_advance_def cursor_le_def by blast

theorem reporter_progress_monotone_witness:
  "reporter_ok example_docs (reporter_example_store [example_page])
   \<and> find_cursor (1, ''host'', ''hub'') (reporter_example_store [example_page]) \<noteq> None"
  using reporter_progress_monotone [OF example_steps example_reporter_ok example_cursor] by blast

lemma page_commits:
  assumes ok: "reporter_ok x st" and p: "p \<in> set (reporter_pending st)"
  shows "\<exists>st'. commit_reporter_pending x (pending_dest p) (draft_kind (pend_draft p)) (pend_id p) st
      = Inr (draft_next (pend_draft p), st')
    \<and> map_option cur_state (find_cursor (pending_dest p) st') = Some (draft_next (pend_draft p))
    \<and> reporter_pending st' = filter (\<lambda>q. q \<noteq> p) (reporter_pending st)"
proof -
  let ?d = "pending_dest p" and ?k = "draft_kind (pend_draft p)"
  have "page_ok x st p" using ok p by (simp add: reporter_ok_def)
  then obtain c where c: "find_cursor ?d st = Some c" "cur_state c = draft_expected (pend_draft p)"
    and v: "validate_reporter_destination (pend_destination p) = Inr ()"
      "draft_validate x (pend_account p) (pend_machine p) (pend_draft p) = Inr ()"
    by (auto simp: page_ok_def)
  have d: "fst ?d = pend_account p" "fst (snd ?d) = pend_machine p" "snd (snd ?d) = pend_destination p"
    by (simp_all add: pending_dest_def)
  have "find (is_pending ?d ?k) (reporter_pending st) = Some p"
    by (rule find_unique) (use p pending_unique(2) [OF ok _ p] in \<open>auto simp: is_pending_def\<close>)
  then have l: "load_sqlite_reporter_pending x ?d ?k st = Inr (Some p)"
    by (simp add: load_sqlite_reporter_pending_def d v)
  have "i64_ok (int (token_generation (draft_next (pend_draft p))))"
    using stream_matches_generation [OF draft_validate_facts(2) [OF v(2)]] ok find_cursor_facts [OF c(1)] c(2)
    by (auto simp: reporter_ok_def)
  then have g: "generation_i64 (draft_next (pend_draft p)) = Inr (int (token_generation (draft_next (pend_draft p))))"
    by (simp add: generation_i64_def checked_i64_def)
  have one: "count_where (\<lambda>r. cursor_dest r = ?d) (reporter_cursors st) = 1"
    using ok c(1) by (intro cursor_count) (simp_all add: reporter_ok_def)
  have "count_where (\<lambda>r. pend_account r = fst ?d \<and> pend_id r = pend_id p) (reporter_pending st)
      = count_where (\<lambda>r. pend_id r = pend_id p) (reporter_pending st)"
    unfolding count_where_def
    by (rule arg_cong [where f = length], rule filter_cong) (use pending_unique(1) [OF ok _ p] d in auto)
  also have "\<dots> = card {k \<in> pend_id ` set (reporter_pending st). k = pend_id p}"
    using ok by (intro count_where_keys) (simp add: reporter_ok_def)
  also have "{k \<in> pend_id ` set (reporter_pending st). k = pend_id p} = {pend_id p}" using p by auto
  finally have two: "count_where (\<lambda>r. pend_account r = fst ?d \<and> pend_id r = pend_id p) (reporter_pending st) = 1"
    by simp
  obtain st' where r: "commit_reporter_pending x ?d ?k (pend_id p) st = Inr (draft_next (pend_draft p), st')"
    using l c g one two v(1) by (simp add: commit_reporter_pending_def d)
  from commit_step [OF ok r] obtain q where q: "q \<in> set (reporter_pending st)" "pend_id q = pend_id p"
    "reporter_pending st' = filter (\<lambda>r. r \<noteq> q) (reporter_pending st)"
    "map_option cur_state (find_cursor ?d st') = Some (draft_next (pend_draft q))"
    by blast
  then have "q = p" using pending_unique(1) [OF ok _ p] by blast
  then show ?thesis using r q by blast
qed

text \<open>
  No page is stranded: in every state the coordinator can reach, the page of a destination can be
  committed under its own id; the commit answers with the next cursor of the page, stores it, and
  removes exactly this page.
\<close>

theorem pending_page_commits:
  assumes "(reporter_step x)\<^sup>*\<^sup>* st0 st" and "reporter_ok x st0" and p: "p \<in> set (reporter_pending st)"
  shows "\<exists>st'. commit_reporter_pending x (pending_dest p) (draft_kind (pend_draft p)) (pend_id p) st
      = Inr (draft_next (pend_draft p), st')
    \<and> map_option cur_state (find_cursor (pending_dest p) st') = Some (draft_next (pend_draft p))
    \<and> reporter_pending st' = filter (\<lambda>q. q \<noteq> p) (reporter_pending st)"
proof -
  have "reporter_ok x st" using reporter_steps_ok [OF assms(1,2)] by blast
  then show ?thesis using page_commits p by blast
qed

theorem pending_page_commits_witness:
  "\<exists>st'. commit_reporter_pending example_docs (1, ''host'', ''hub'') UsageStream (pend_id example_page)
       (reporter_example_store [example_page]) = Inr (initial_cursor\<lparr>usage_after_id := 5\<rparr>, st')
     \<and> reporter_pending st' = []"
  using pending_page_commits [OF example_steps example_reporter_ok, of example_page]
  by (auto simp: example_page_facts) (simp add: example_draft_def)

text \<open>
  Preparing a page is idempotent: after a page was prepared, preparing any other valid page of the
  same stream for the destination returns the stored one and changes nothing, and a page of the other
  stream is refused until it is committed.
\<close>

theorem prepare_pending_idempotent:
  assumes "prepare_reporter_pending x d draft st = Inr (p, st1)" and "reporter_ok x st"
    and "draft_validate x (fst d) (fst (snd d)) draft2 = Inr ()"
  shows "if draft_kind draft2 = draft_kind draft
    then prepare_reporter_pending x d draft2 st1 = Inr (p, st1)
    else \<not> is_ok (prepare_reporter_pending x d draft2 st1)"
proof -
  have ok: "reporter_ok x st1" using prepare_step [OF assms(2,1)] by blast
  have v: "validate_reporter_destination (snd (snd d)) = Inr ()"
    using assms(1) by (auto simp: prepare_reporter_pending_def result_simps)
  have f: "find (is_pending d (draft_kind draft)) (reporter_pending st1) = Some p"
    using assms(1)
  proof (cases rule: prepare_cases)
    case (new c)
    have "is_pending d (draft_kind draft) p" using new(7) by (simp add: is_pending_def pending_dest_def)
    then show ?thesis using new(1) by (subst new(8)) (simp add: find_append)
  qed simp
  have p: "p \<in> set (reporter_pending st1)" "pending_dest p = d" "draft_kind (pend_draft p) = draft_kind draft"
    using find_Some_mem [OF f] by (simp_all add: is_pending_def)
  have pv: "draft_validate x (fst d) (fst (snd d)) (pend_draft p) = Inr ()"
    using ok p by (auto simp: reporter_ok_def page_ok_def pending_dest_def)
  show ?thesis
  proof (cases "draft_kind draft2 = draft_kind draft")
    case True
    then show ?thesis
      using f v pv assms(3) by (simp add: prepare_reporter_pending_def load_sqlite_reporter_pending_def)
  next
    case False
    have "find (is_pending d (draft_kind draft2)) (reporter_pending st1) = None"
    proof -
      have "\<not> is_pending d (draft_kind draft2) q" if "q \<in> set (reporter_pending st1)" for q
        using pending_unique(2) [OF ok that p(1)] p False by (auto simp: is_pending_def)
      then show ?thesis by (simp add: find_None_iff)
    qed
    moreover have "exists_where (\<lambda>r. pending_dest r = d \<and> draft_kind (pend_draft r) \<noteq> draft_kind draft2) (reporter_pending st1)"
      using p False by (auto simp: exists_where_def)
    ultimately show ?thesis
      using v assms(3) False by (simp add: prepare_reporter_pending_def load_sqlite_reporter_pending_def)
  qed
qed

theorem prepare_pending_idempotent_witness:
  "prepare_reporter_pending example_docs (1, ''host'', ''hub'') example_draft (reporter_example_store [example_page]) =
     Inr (example_page, reporter_example_store [example_page])"
  using prepare_pending_idempotent [OF example_prepare example_reporter_ok, of example_draft] example_draft_valid by simp

text \<open>
  Pages have no gaps: a usage page holds local snapshots of the account after the cursor in the
  order of their ids, and every local snapshot after the cursor up to the last id of the page is in
  it, so a cursor moved to that id skips none.
\<close>

theorem usage_page_has_no_gaps:
  assumes pg: "local_reporter_usage_page acct mach after n st = Inr rows" and ne: "rows \<noteq> []"
    and r: "r \<in> set (usage_snapshots st)" "snap_account (snapshot r) = acct" "snap_machine (snapshot r) = mach"
      "after < snap_id r"
  shows "(snap_id r < snap_id (last rows) \<longrightarrow> r \<in> set rows) \<and> after < snap_id (last rows)
    \<and> sorted (map snap_id rows) \<and> (\<forall>q \<in> set rows. q \<in> set (usage_snapshots st)
         \<and> snap_account (snapshot q) = acct \<and> snap_machine (snapshot q) = mach \<and> after < snap_id q)"
proof -
  let ?P = "\<lambda>r. snap_account (snapshot r) = acct \<and> snap_machine (snapshot r) = mach \<and> snap_id r > after"
  let ?all = "sort_key snap_id (filter ?P (usage_snapshots st))"
  obtain m where rows: "rows = take m ?all"
    using pg by (auto simp: local_reporter_usage_page_def select_ordered_def result_simps split: if_splits)
  have mem: "\<forall>q \<in> set rows. q \<in> set (usage_snapshots st) \<and> ?P q"
    using set_take_subset [of m ?all] unfolding rows by auto
  have srt: "sorted (map snap_id ?all)" by simp
  have "r \<in> set rows" if lt: "snap_id r < snap_id (last rows)"
  proof (rule ccontr)
    assume "r \<notin> set rows"
    moreover have "r \<in> set ?all" using r by simp
    then have "r \<in> set (take m ?all) \<union> set (drop m ?all)" by (metis append_take_drop_id set_append)
    ultimately have d: "r \<in> set (drop m ?all)" using rows by simp
    have "sorted (map snap_id (take m ?all) @ map snap_id (drop m ?all))"
      using srt by (metis append_take_drop_id map_append)
    then have "snap_id (last rows) \<le> snap_id r"
      using d ne rows by (auto simp: sorted_append dest: last_in_set)
    then show False using lt by simp
  qed
  moreover have "sorted (map snap_id rows)" 
    using sorted_select_ordered [of snap_id ?P m "usage_snapshots st"] by (simp add: rows select_ordered_def)
  ultimately show ?thesis using mem last_in_set [OF ne] by blast
qed

theorem usage_page_has_no_gaps_witness:
  "local_reporter_usage_page 1 ''host'' 0 500 (reporter_example_store []) = Inr [\<lparr>snap_id = 5, snapshot = example_snapshot\<rparr>]
   \<and> (0::int) < 5"
proof -
  have s: "snap_account example_snapshot = 1" "snap_machine example_snapshot = ''host''"
    by (simp_all add: example_snapshot_def)
  have pg: "local_reporter_usage_page 1 ''host'' 0 500 (reporter_example_store []) = Inr [\<lparr>snap_id = 5, snapshot = example_snapshot\<rparr>]"
    by (simp add: local_reporter_usage_page_def query_limit_def select_ordered_def reporter_example_store_def s)
  from usage_page_has_no_gaps [OF pg, of "\<lparr>snap_id = 5, snapshot = example_snapshot\<rparr>"] show ?thesis
    using pg by (simp add: reporter_example_store_def s)
qed

end
