(* ===== verification/Pulse_Reporter.thy ===== *)
theory Pulse_Reporter
  imports Reporter_Store
begin

text \<open>
  The push reporter of \<open>src/src/pulse/reporter.rs\<close>: backoff, sending the chunks of a page with
  retries, splitting rows into bounded documents, and the coordinator that drains the outbox and
  reports usage and token pages. The transport, the random source, JSON encoding and SHA-256 are
  parameters; durations are nanoseconds.
\<close>

section \<open>Backoff\<close>

record reporter_backoff =
  backoff_base :: nat
  backoff_maximum :: nat
  max_attempts :: nat
  jitter_percent :: nat

definition second_ns :: nat where "second_ns = 1000000000"

definition max_retry_after :: nat where "max_retry_after = 1800 * second_ns"

definition default_backoff :: reporter_backoff where
  "default_backoff =
     \<lparr>backoff_base = second_ns, backoff_maximum = 300 * second_ns, max_attempts = 8, jitter_percent = 20\<rparr>"

definition backoff_validate :: "reporter_backoff \<Rightarrow> reporter_backoff pulse_result" where
  "backoff_validate b =
     (if backoff_base b = 0 \<or> backoff_maximum b < backoff_base b \<or> backoff_maximum b > max_retry_after
         \<or> max_attempts b = 0 \<or> max_attempts b > 16 \<or> jitter_percent b > 50
      then Inl (configuration ''Pulse reporter backoff bounds are invalid'') else Inr b)"

definition nominal_delay :: "reporter_backoff \<Rightarrow> nat \<Rightarrow> nat" where
  "nominal_delay b attempt = min (backoff_base b * 2 ^ min (attempt - 1) 20) (backoff_maximum b)"

definition backoff_delay :: "reporter_backoff \<Rightarrow> nat \<Rightarrow> nat \<Rightarrow> nat" where
  "backoff_delay b attempt entropy =
     (let nominal = nominal_delay b attempt in
      if jitter_percent b = 0 then nominal
      else let signed = int (entropy mod (jitter_percent b * 2 + 1)) - int (jitter_percent b);
               adjustment = nominal * nat \<bar>signed\<bar> div 100
           in min (if signed < 0 then nominal - adjustment else nominal + adjustment) u64_max)"

lemma jitter_bounds:
  fixes n a h :: nat
  assumes "a \<le> h" "h < n" "d = n \<or> d = n - a \<or> d = n + a"
  shows "0 < d \<and> d \<le> n + h \<and> n - h \<le> d"
  using assms by auto

lemma backoff_delay_shape:
  assumes "backoff_validate b = Inr b"
  obtains a where "a \<le> nominal_delay b attempt * jitter_percent b div 100"
    "nominal_delay b attempt * jitter_percent b div 100 < nominal_delay b attempt"
    "nominal_delay b attempt + nominal_delay b attempt * jitter_percent b div 100 \<le> 2700 * second_ns"
    "backoff_delay b attempt entropy = nominal_delay b attempt
     \<or> backoff_delay b attempt entropy = nominal_delay b attempt - a
     \<or> backoff_delay b attempt entropy = nominal_delay b attempt + a"
proof -
  define n j where "n = nominal_delay b attempt" and "j = jitter_percent b"
  define s where "s = int (entropy mod (j * 2 + 1)) - int j"
  define a where "a = n * nat \<bar>s\<bar> div 100"
  define h where "h = n * j div 100"
  have v: "0 < backoff_base b" "backoff_base b \<le> backoff_maximum b" "backoff_maximum b \<le> max_retry_after" "j \<le> 50"
    using assms by (auto simp: backoff_validate_def j_def split: if_splits)
  have n: "0 < n" "n \<le> max_retry_after" using v by (auto simp: nominal_delay_def n_def)
  have "entropy mod (j * 2 + 1) < j * 2 + 1" by simp
  then have "nat \<bar>s\<bar> \<le> j" unfolding s_def by linarith
  then have a: "a \<le> h" unfolding a_def h_def by (intro div_le_mono mult_le_mono2)
  have "n * j \<le> n * 50" using v(4) by (rule mult_le_mono2)
  then have "h \<le> n * 50 div 100" unfolding h_def by (rule div_le_mono)
  then have h: "h < n" "h * 2 \<le> n" using n(1) by linarith+
  have top: "n + h \<le> 2700 * second_ns"
    using n(2) h(2) by (simp add: max_retry_after_def second_ns_def)
  have "2700 * second_ns \<le> u64_max" by (simp add: second_ns_def u64_max_def)
  then have m: "min (n + a) u64_max = n + a" "min (n - a) u64_max = n - a" using top a by linarith+
  have "backoff_delay b attempt entropy = (if j = 0 then n else if s < 0 then n - a else n + a)"
    unfolding backoff_delay_def Let_def n_def [symmetric] j_def [symmetric] s_def [symmetric] a_def [symmetric]
    by (simp add: m)
  then have d: "backoff_delay b attempt entropy = n \<or> backoff_delay b attempt entropy = n - a \<or> backoff_delay b attempt entropy = n + a"
    by (simp split: if_splits)
  show thesis using that [of a] a h(1) top d unfolding h_def n_def j_def by blast
qed

text \<open>
  Retries are spaced within bounds: with validated settings the delay before every retry is
  positive, differs from the doubled base delay, which is capped by the configured maximum, by at
  most the configured percentage, and is never longer than 45 minutes.
\<close>

theorem backoff_delay_bounds:
  assumes "backoff_validate b = Inr b"
  shows "0 < backoff_delay b attempt entropy \<and> backoff_delay b attempt entropy \<le> 2700 * second_ns
    \<and> nominal_delay b attempt - nominal_delay b attempt * jitter_percent b div 100 \<le> backoff_delay b attempt entropy
    \<and> backoff_delay b attempt entropy \<le> nominal_delay b attempt + nominal_delay b attempt * jitter_percent b div 100"
proof -
  obtain a where a: "a \<le> nominal_delay b attempt * jitter_percent b div 100"
    "nominal_delay b attempt * jitter_percent b div 100 < nominal_delay b attempt"
    "nominal_delay b attempt + nominal_delay b attempt * jitter_percent b div 100 \<le> 2700 * second_ns"
    "backoff_delay b attempt entropy = nominal_delay b attempt
     \<or> backoff_delay b attempt entropy = nominal_delay b attempt - a
     \<or> backoff_delay b attempt entropy = nominal_delay b attempt + a"
    using backoff_delay_shape [OF assms] .
  show ?thesis using jitter_bounds [OF a(1,2,4)] a(3) by (meson le_trans)
qed

theorem backoff_delay_bounds_witness:
  "backoff_delay default_backoff 3 7 = 3480000000 \<and> 0 < backoff_delay default_backoff 3 7"
proof -
  have "backoff_validate default_backoff = Inr default_backoff"
    by (simp add: backoff_validate_def default_backoff_def max_retry_after_def second_ns_def)
  from backoff_delay_bounds [OF this, of 3 7] show ?thesis
    by (simp add: backoff_delay_def nominal_delay_def default_backoff_def second_ns_def Let_def u64_max_def)
qed

section \<open>Sending chunks\<close>

record reporter_response =
  resp_status :: nat
  resp_retry_after :: "nat option"

text \<open>
  The world of one report: the answer to the nth request, the random word drawn after it, whether the
  wait after it ends by cancellation, and whether the flag is set before the chunk whose first
  request would be the nth.
\<close>

record reporter_env =
  env_send :: "nat \<Rightarrow> reporter_response pulse_result"
  env_entropy :: "nat \<Rightarrow> nat"
  env_wait_cancelled :: "nat \<Rightarrow> bool"
  env_stop :: "nat \<Rightarrow> bool"

text \<open>What was sent, with whether it was acknowledged by a 2xx status, and how long was waited.\<close>

datatype report_event = Sent string bool | Waited nat

datatype chunk_outcome = Delivered | Interrupted | Failed pulse_error

definition success_status :: "reporter_response pulse_result \<Rightarrow> bool" where
  "success_status r = (case r of Inl _ \<Rightarrow> False | Inr s \<Rightarrow> 200 \<le> resp_status s \<and> resp_status s < 300)"

text \<open>
  How an answer that is no success is handled: final, or retried after a delay unless the attempts
  are used up.
\<close>

datatype retry_decision = GiveUp pulse_error | RetryAfter nat pulse_error

definition retry_decision :: "reporter_backoff \<Rightarrow> nat \<Rightarrow> nat \<Rightarrow> reporter_response pulse_result \<Rightarrow> retry_decision" where
  "retry_decision bk attempt entropy r =
     (case r of
        Inr s \<Rightarrow>
          (if resp_status s = 401 \<or> resp_status s = 403
           then GiveUp (new_error Authentication ''Pulse reporter authentication was rejected'')
           else if resp_status s = 429 \<or> resp_status s = 408 \<or> resp_status s \<ge> 500
           then RetryAfter (min (case resp_retry_after s of Some d \<Rightarrow> d | None \<Rightarrow> backoff_delay bk attempt entropy) max_retry_after)
                  (new_error RateLimited ''Pulse reporter retry budget was exhausted'')
           else GiveUp (new_error Upstream ''Pulse receiver rejected the reporter document''))
      | Inl e \<Rightarrow>
          (if is_retryable (err_kind e)
           then RetryAfter (backoff_delay bk attempt entropy)
                  (new_error (err_kind e) ''Pulse reporter retry budget was exhausted'')
           else GiveUp e))"

text \<open>
  The retry loop of one chunk, from the nth request on. The \<open>u8\<close> counter is compared with a \<open>u8\<close>
  maximum before it could saturate.
\<close>

function send_chunk ::
    "reporter_env \<Rightarrow> reporter_backoff \<Rightarrow> string \<Rightarrow> nat \<Rightarrow> nat \<Rightarrow> chunk_outcome \<times> nat \<times> report_event list" where
  "send_chunk env bk doc attempt n =
     (let r = env_send env n; tries = attempt + 1 in
      if success_status r then (Delivered, n + 1, [Sent doc True])
      else case retry_decision bk tries (env_entropy env n) r of
        GiveUp e \<Rightarrow> (Failed e, n + 1, [Sent doc False])
      | RetryAfter delay e \<Rightarrow>
          if tries \<ge> max_attempts bk then (Failed e, n + 1, [Sent doc False])
          else if env_wait_cancelled env n then (Interrupted, n + 1, [Sent doc False, Waited delay])
          else (case send_chunk env bk doc tries (n + 1) of
                  (out, m, l) \<Rightarrow> (out, m, Sent doc False # Waited delay # l)))"
  by pat_completeness auto

termination
  by (relation "measure (\<lambda>(env, bk, doc, attempt, n). max_attempts bk - attempt)") auto

declare send_chunk.simps [simp del]

record reporter_outcome =
  chunks_sent :: nat
  rows_sent :: nat
  cancelled :: bool

definition no_outcome :: reporter_outcome where
  "no_outcome = \<lparr>chunks_sent = 0, rows_sent = 0, cancelled = False\<rparr>"

fun report_loop ::
    "reporter_env \<Rightarrow> reporter_backoff \<Rightarrow> (string \<times> nat) list \<Rightarrow> nat \<Rightarrow> reporter_outcome
      \<Rightarrow> reporter_outcome pulse_result \<times> nat \<times> report_event list" where
  "report_loop env bk [] n out = (Inr out, n, [])"
| "report_loop env bk ((doc, rows) # chunks) n out =
     (if env_stop env n then (Inr (out\<lparr>cancelled := True\<rparr>), n, [])
      else case send_chunk env bk doc 0 n of
        (Delivered, m, l) \<Rightarrow>
          (case report_loop env bk chunks m
                  (out\<lparr>chunks_sent := chunks_sent out + 1, rows_sent := rows_sent out + rows\<rparr>) of
             (res, m', l') \<Rightarrow> (res, m', l @ l'))
      | (Interrupted, m, l) \<Rightarrow> (Inr (out\<lparr>cancelled := True\<rparr>), m, l)
      | (Failed e, m, l) \<Rightarrow> (Inl e, m, l))"

text \<open>The two credentials as their references resolve; equal ones are refused.\<close>

record reporter_secrets =
  ingest_secret :: "string pulse_result"
  node_secret :: "string pulse_result option"

definition resolve_secrets :: "reporter_secrets \<Rightarrow> unit pulse_result" where
  "resolve_secrets s =
     and_then (ingest_secret s) (\<lambda>ingest.
       case node_secret s of
         None \<Rightarrow> Inr ()
       | Some nr \<Rightarrow> and_then nr (\<lambda>node.
           if constant_time_eq node ingest
           then Inl (configuration ''Pulse ingest and node credentials must be distinct'') else Inr ()))"

definition report_chunks ::
    "reporter_env \<Rightarrow> reporter_backoff \<Rightarrow> reporter_secrets \<Rightarrow> (string \<times> nat) list \<Rightarrow> nat
      \<Rightarrow> reporter_outcome pulse_result \<times> nat \<times> report_event list" where
  "report_chunks env bk sec chunks n =
     (case resolve_secrets sec of
        Inl e \<Rightarrow> (Inl e, n, [])
      | Inr _ \<Rightarrow> report_loop env bk chunks n no_outcome)"

text \<open>The bodies that were acknowledged, in order, and how often a doc was sent.\<close>

fun acked_bodies :: "report_event list \<Rightarrow> string list" where
  "acked_bodies [] = []"
| "acked_bodies (Sent b True # l) = b # acked_bodies l"
| "acked_bodies (_ # l) = acked_bodies l"

fun sends :: "report_event list \<Rightarrow> nat" where
  "sends [] = 0"
| "sends (Sent b a # l) = Suc (sends l)"
| "sends (Waited d # l) = sends l"

lemma acked_bodies_append [simp]: "acked_bodies (l @ l') = acked_bodies l @ acked_bodies l'"
  by (induction l rule: acked_bodies.induct) auto

lemma sends_append [simp]: "sends (l @ l') = sends l + sends l'"
  by (induction l rule: sends.induct) auto

lemma send_chunk_log:
  assumes "send_chunk env bk doc attempt n = (out, m, l)"
  shows "acked_bodies l = (if out = Delivered then [doc] else [])
    \<and> m = n + sends l \<and> sends l \<le> max 1 (max_attempts bk - attempt)"
  using assms
proof (induction env bk doc attempt n arbitrary: out m l rule: send_chunk.induct)
  case (1 env bk doc attempt n)
  let ?r = "env_send env n" and ?tries = "attempt + 1"
  show ?case
  proof (cases "success_status ?r")
    case True
    then show ?thesis using "1.prems" by (auto simp: send_chunk.simps [of env bk doc attempt n] Let_def)
  next
    case ns: False
    show ?thesis
    proof (cases "retry_decision bk ?tries (env_entropy env n) ?r")
      case (GiveUp e)
      then show ?thesis using "1.prems" ns by (auto simp: send_chunk.simps [of env bk doc attempt n] Let_def)
    next
      case (RetryAfter delay e)
      show ?thesis
      proof (cases "?tries \<ge> max_attempts bk \<or> env_wait_cancelled env n")
        case True
        then show ?thesis
          using "1.prems" ns RetryAfter by (auto simp: send_chunk.simps [of env bk doc attempt n] Let_def split: if_splits)
      next
        case False
        obtain out' m' l' where r: "send_chunk env bk doc ?tries (n + 1) = (out', m', l')" by (metis prod_cases3)
        have o: "out = out'" "m = m'" "l = Sent doc False # Waited delay # l'"
          using "1.prems" ns RetryAfter False r by (auto simp: send_chunk.simps [of env bk doc attempt n] Let_def)
        have "acked_bodies l' = (if out' = Delivered then [doc] else [])
            \<and> m' = (n + 1) + sends l' \<and> sends l' \<le> max 1 (max_attempts bk - ?tries)"
          by (rule "1.IH" [OF refl refl ns RetryAfter]) (use False r in auto)
        then show ?thesis using o False by auto
      qed
    qed
  qed
qed

lemma report_loop_log:
  assumes "report_loop env bk chunks n out = (res, m, l)"
  shows "\<exists>k \<le> length chunks. acked_bodies l = take k (map fst chunks)
    \<and> (\<forall>o'. res = Inr o' \<longrightarrow> chunks_sent o' = chunks_sent out + k
          \<and> rows_sent o' = rows_sent out + sum_list (take k (map snd chunks))
          \<and> (cancelled o' \<or> k = length chunks))
    \<and> sends l \<le> length chunks * max 1 (max_attempts bk)"
  using assms
proof (induction chunks arbitrary: n out res m l)
  case Nil
  then show ?case by auto
next
  case (Cons c chunks)
  obtain doc rows where c: "c = (doc, rows)" by fastforce
  show ?case
  proof (cases "env_stop env n")
    case True
    then show ?thesis using Cons.prems c by (auto intro!: exI [of _ 0])
  next
    case go: False
    obtain o1 m1 l1 where s: "send_chunk env bk doc 0 n = (o1, m1, l1)" by (metis prod_cases3)
    note log = send_chunk_log [OF s]
    show ?thesis
    proof (cases o1)
      case Delivered
      let ?out = "out\<lparr>chunks_sent := chunks_sent out + 1, rows_sent := rows_sent out + rows\<rparr>"
      obtain m2 l2 where r: "report_loop env bk chunks m1 ?out = (res, m2, l2)" and l: "l = l1 @ l2"
        using Cons.prems c go s Delivered by (auto split: prod.splits)
      from Cons.IH [OF r] obtain k where k: "k \<le> length chunks" "acked_bodies l2 = take k (map fst chunks)"
        "\<forall>o'. res = Inr o' \<longrightarrow> chunks_sent o' = chunks_sent ?out + k
          \<and> rows_sent o' = rows_sent ?out + sum_list (take k (map snd chunks))
          \<and> (cancelled o' \<or> k = length chunks)"
        "sends l2 \<le> length chunks * max 1 (max_attempts bk)"
        by blast
      have l1: "acked_bodies l1 = [doc]" "sends l1 \<le> max 1 (max_attempts bk)" using log Delivered by simp_all
      have p1: "acked_bodies l = take (Suc k) (map fst (c # chunks))" by (simp add: l l1 k(2) c)
      have p2: "sends l \<le> length (c # chunks) * max 1 (max_attempts bk)"
        using l1(2) k(4) unfolding l sends_append length_Cons mult_Suc by (rule add_mono)
      have p3: "\<forall>o'. res = Inr o' \<longrightarrow> chunks_sent o' = chunks_sent out + Suc k
          \<and> rows_sent o' = rows_sent out + sum_list (take (Suc k) (map snd (c # chunks)))
          \<and> (cancelled o' \<or> Suc k = length (c # chunks))"
      proof (intro allI impI)
        fix o' assume "res = Inr o'"
        note k(3) [rule_format, OF this]
        then show "chunks_sent o' = chunks_sent out + Suc k
          \<and> rows_sent o' = rows_sent out + sum_list (take (Suc k) (map snd (c # chunks)))
          \<and> (cancelled o' \<or> Suc k = length (c # chunks))"
          by (simp add: c)
      qed
      have "Suc k \<le> length (c # chunks)" using k(1) by simp
      from conjI [OF this conjI [OF p1 conjI [OF p3 p2]]] show ?thesis by (rule exI)
    next
      case Interrupted
      have o: "res = Inr (out\<lparr>cancelled := True\<rparr>)" "l = l1" "acked_bodies l1 = []" "sends l1 \<le> max 1 (max_attempts bk)"
        using Cons.prems log Interrupted by (auto simp: c go s)
      show ?thesis unfolding o(1,2) by (rule exI [of _ 0]) (use o(3,4) in \<open>auto intro: trans_le_add1\<close>)
    next
      case (Failed e)
      have o: "res = Inl e" "l = l1" "acked_bodies l1 = []" "sends l1 \<le> max 1 (max_attempts bk)"
        using Cons.prems log Failed by (auto simp: c go s)
      show ?thesis unfolding o(1,2) by (rule exI [of _ 0]) (use o(3,4) in \<open>auto intro: trans_le_add1\<close>)
    qed
  qed
qed

lemma report_chunks_log:
  assumes "report_chunks env bk sec chunks n = (res, m, l)"
  shows "\<exists>k \<le> length chunks. acked_bodies l = take k (map fst chunks)
    \<and> (\<forall>out. res = Inr out \<longrightarrow> chunks_sent out = k \<and> rows_sent out = sum_list (take k (map snd chunks))
          \<and> (cancelled out \<or> k = length chunks))
    \<and> sends l \<le> length chunks * max 1 (max_attempts bk)"
proof (cases "resolve_secrets sec")
  case (Inl e)
  then show ?thesis using assms by (auto simp: report_chunks_def intro!: exI [of _ 0])
next
  case (Inr u)
  then have "report_loop env bk chunks n no_outcome = (res, m, l)" using assms by (simp add: report_chunks_def)
  from report_loop_log [OF this] show ?thesis by (simp add: no_outcome_def)
qed

text \<open>
  What a report acknowledges: the bodies a receiver answered with success are a prefix of the
  chunks, each exactly once and in order; a result counts exactly that prefix and its rows, and an
  uncancelled one covers every chunk. No chunk is sent more often than the attempts allow.
\<close>

theorem report_acknowledges_prefix:
  assumes "report_chunks env bk sec chunks n = (res, m, l)" and "0 < max_attempts bk"
  shows "(\<exists>k \<le> length chunks. acked_bodies l = take k (map fst chunks)
      \<and> (\<forall>out. res = Inr out \<longrightarrow> chunks_sent out = k \<and> rows_sent out = sum_list (take k (map snd chunks))
            \<and> (cancelled out \<or> k = length chunks)))
    \<and> sends l \<le> length chunks * max_attempts bk"
proof -
  have "max 1 (max_attempts bk) = max_attempts bk" using assms(2) by simp
  with report_chunks_log [OF assms(1)] show ?thesis by (simp only:) blast
qed

text \<open>One chunk, refused once with status 503 and then accepted.\<close>

definition example_env :: reporter_env where
  "example_env =
     \<lparr>env_send = (\<lambda>n. Inr \<lparr>resp_status = if n = 0 then 503 else 202, resp_retry_after = None\<rparr>),
      env_entropy = (\<lambda>_. 7), env_wait_cancelled = (\<lambda>_. False), env_stop = (\<lambda>_. False)\<rparr>"

definition example_secrets :: reporter_secrets where
  "example_secrets = \<lparr>ingest_secret = Inr ''secret'', node_secret = None\<rparr>"

lemma example_send:
  "send_chunk example_env default_backoff doc 0 0 =
     (Delivered, 2, [Sent doc False, Waited (backoff_delay default_backoff 1 7), Sent doc True])"
proof -
  have s: "env_send example_env n = Inr \<lparr>resp_status = if n = 0 then 503 else 202, resp_retry_after = None\<rparr>" 
    "env_entropy example_env n = 7" "env_wait_cancelled example_env n = False" for n
    by (simp_all add: example_env_def)
  have d: "backoff_delay default_backoff 1 7 \<le> max_retry_after"
    by (simp add: backoff_delay_def nominal_delay_def default_backoff_def second_ns_def Let_def u64_max_def max_retry_after_def)
  have "send_chunk example_env default_backoff doc 1 1 = (Delivered, 2, [Sent doc True])"
    by (simp add: send_chunk.simps [of _ _ _ "Suc 0"] s success_status_def)
  moreover have "max_attempts default_backoff = 8" by (simp add: default_backoff_def)
  ultimately show ?thesis
    using d by (simp add: send_chunk.simps [of _ _ _ 0] s success_status_def retry_decision_def min_absorb1)
qed

lemma example_report:
  "report_chunks example_env default_backoff example_secrets [(''doc'', 1)] 0 =
     (Inr \<lparr>chunks_sent = 1, rows_sent = 1, cancelled = False\<rparr>, 2,
      [Sent ''doc'' False, Waited (backoff_delay default_backoff 1 7), Sent ''doc'' True])"
  by (simp add: report_chunks_def resolve_secrets_def example_secrets_def example_send no_outcome_def)
    (simp add: example_env_def)

theorem report_acknowledges_prefix_witness:
  "\<exists>k \<le> 1. acked_bodies [Sent ''doc'' False, Waited (backoff_delay default_backoff 1 7), Sent ''doc'' True] = take k [''doc'']"
  using report_acknowledges_prefix [OF example_report] by (auto simp: default_backoff_def)

end
