(* ===== verification/Reporter_Chunks.thy ===== *)
theory Reporter_Chunks
  imports Reporter_Store
begin

text \<open>
  How \<open>src/src/pulse/reporter.rs\<close> splits rows into bounded push documents: the rows of a batch as
  one ordered stream, the halving search for a prefix whose encoding fits, the request ids derived
  from the content, and the outbox drafts made of the documents. The encodings and SHA-256 are
  parameters.
\<close>

section \<open>Rows and batches\<close>

datatype push_row =
    ProfileRow reported_profile
  | SnapshotRow usage_snapshot
  | TokenRow token_grain
  | ContextRow context_session
  | GeminiRow gemini_quota

definition empty_batch :: push_batch where
  "empty_batch = \<lparr>push_profiles = [], push_snapshots = [], push_grains = [], push_contexts = [], push_gemini = []\<rparr>"

fun push_into :: "push_row \<Rightarrow> push_batch \<Rightarrow> push_batch" where
  "push_into (ProfileRow v) b = b\<lparr>push_profiles := push_profiles b @ [v]\<rparr>"
| "push_into (SnapshotRow v) b = b\<lparr>push_snapshots := push_snapshots b @ [v]\<rparr>"
| "push_into (TokenRow v) b = b\<lparr>push_grains := push_grains b @ [v]\<rparr>"
| "push_into (ContextRow v) b = b\<lparr>push_contexts := push_contexts b @ [v]\<rparr>"
| "push_into (GeminiRow v) b = b\<lparr>push_gemini := push_gemini b @ [v]\<rparr>"

definition batch_from_rows :: "push_row list \<Rightarrow> push_batch" where
  "batch_from_rows rows = fold push_into rows empty_batch"

text \<open>The order in which \<open>deterministic_page_chunks\<close> lays out a batch.\<close>

definition batch_rows :: "push_batch \<Rightarrow> push_row list" where
  "batch_rows b = map ProfileRow (push_profiles b) @ map SnapshotRow (push_snapshots b)
     @ map TokenRow (push_grains b) @ map ContextRow (push_contexts b) @ map GeminiRow (push_gemini b)"

section \<open>Request ids\<close>

record chunk_extern =
  chunk_docs :: reporter_extern
  batch_json :: "push_batch \<Rightarrow> string option"
  identity_json :: "int \<Rightarrow> string \<Rightarrow> stream_kind \<Rightarrow> reporter_cursor \<Rightarrow> reporter_cursor \<Rightarrow> nat \<Rightarrow> push_batch \<Rightarrow> string option"
  sha256_bytes :: "string \<Rightarrow> nat list"

definition hex_digit :: "nat \<Rightarrow> char" where
  "hex_digit n = char_of (if n < 10 then 48 + n else 87 + n)"

definition hex_byte :: "nat \<Rightarrow> string" where
  "hex_byte b = [hex_digit (b div 16), hex_digit (b mod 16)]"

definition content_request_id :: "chunk_extern \<Rightarrow> string \<Rightarrow> string" where
  "content_request_id x canonical = ''push-'' @ concat (map hex_byte (take 16 (sha256_bytes x canonical)))"

section \<open>Chunking\<close>

definition envelope_margin :: nat where "envelope_margin = 1024"

text \<open>
  The inner loop: from \<open>n\<close> rows on, halve until the encoded prefix leaves the margin for the
  envelope. The code tests \<open>take == 1\<close>; \<open>take\<close> is never 0, because there is a row and
  \<open>div_ceil\<close> of a positive number is positive.
\<close>

function fit_take :: "chunk_extern \<Rightarrow> push_row list \<Rightarrow> nat \<Rightarrow> (nat \<times> string) pulse_result" where
  "fit_take x rows n =
     (case batch_json x (batch_from_rows (take n rows)) of
        None \<Rightarrow> Inl (new_error Internal ''failed to encode Pulse reporter batch'')
      | Some canonical \<Rightarrow>
          if length canonical > max_push_body - envelope_margin
          then if n \<le> 1 then Inl (invalid_input ''one Pulse reporter row exceeds the request bound'')
               else fit_take x rows ((n + 1) div 2)
          else Inr (n, canonical))"
  by pat_completeness auto

termination
  by (relation "measure (\<lambda>(x, rows, n). n)") auto

declare fit_take.simps [simp del]

lemma fit_take_bounds:
  assumes "fit_take x rows n = Inr (m, c)" and "0 < n"
  shows "0 < m \<and> m \<le> n \<and> batch_json x (batch_from_rows (take m rows)) = Some c
    \<and> length c \<le> max_push_body - envelope_margin"
  using assms
proof (induction x rows n rule: fit_take.induct)
  case (1 x rows n)
  obtain can where c: "batch_json x (batch_from_rows (take n rows)) = Some can"
    using "1.prems" by (auto simp: fit_take.simps [of x rows n] split: option.splits)
  show ?case
  proof (cases "length can > max_push_body - envelope_margin")
    case True
    then have n: "\<not> n \<le> 1" "fit_take x rows ((n + 1) div 2) = Inr (m, c)"
      using "1.prems" c by (auto simp: fit_take.simps [of x rows n] split: if_splits)
    then have "0 < m \<and> m \<le> (n + 1) div 2 \<and> batch_json x (batch_from_rows (take m rows)) = Some c
        \<and> length c \<le> max_push_body - envelope_margin"
      by (intro "1.IH" [OF c True n(1) n(2)]) auto
    then show ?thesis using n(1) by auto
  next
    case False
    then show ?thesis using "1.prems" c by (auto simp: fit_take.simps [of x rows n])
  qed
qed

definition chunk_envelope :: "chunk_extern \<Rightarrow> int \<Rightarrow> string \<Rightarrow> push_row list \<Rightarrow> string \<Rightarrow> push_envelope" where
  "chunk_envelope x acct mach rows canonical =
     \<lparr>push_version = 1, push_request = content_request_id x canonical, push_reporter = reporter_release,
      push_account = Some acct, push_machine = Some mach, push_rows = batch_from_rows rows\<rparr>"

text \<open>The documents that are appended for \<open>rows\<close>, with their row counts.\<close>

function append_row_chunks ::
    "chunk_extern \<Rightarrow> int \<Rightarrow> string \<Rightarrow> push_row list \<Rightarrow> (string \<times> nat) list pulse_result" where
  "append_row_chunks x acct mach rows =
     (if rows = [] then Inr []
      else case fit_take x rows (min (length rows) max_push_rows) of
        Inl e \<Rightarrow> Inl e
      | Inr (n, canonical) \<Rightarrow>
          (case encode_envelope (chunk_docs x) (chunk_envelope x acct mach (take n rows) canonical) of
             Inl e \<Rightarrow> Inl e
           | Inr doc \<Rightarrow> map_ok (\<lambda>chunks. (doc, n) # chunks) (append_row_chunks x acct mach (drop n rows))))"
  by pat_completeness auto

termination
proof (relation "measure (\<lambda>(x, acct, mach, rows). length rows)", simp, goal_cases)
  case (1 x acct mach rows p n canonical doc)
  then have "0 < n" using fit_take_bounds [of x rows "min (length rows) max_push_rows" n canonical]
    by (auto simp: max_push_rows_def)
  then show ?case using 1 by auto
qed

declare append_row_chunks.simps [simp del]

definition deterministic_page_chunks ::
    "chunk_extern \<Rightarrow> int \<Rightarrow> string \<Rightarrow> push_batch \<Rightarrow> (string \<times> nat) list pulse_result" where
  "deterministic_page_chunks x acct mach b = append_row_chunks x acct mach (batch_rows b)"

definition deterministic_chunks ::
    "chunk_extern \<Rightarrow> int \<Rightarrow> string \<Rightarrow> push_batch \<Rightarrow> (string \<times> nat) list pulse_result" where
  "deterministic_chunks x acct mach b =
     and_then (append_row_chunks x acct mach (map ProfileRow (push_profiles b))) (\<lambda>ps.
     and_then (try_map (\<lambda>s. append_row_chunks x acct mach [SnapshotRow s]) (push_snapshots b)) (\<lambda>ss.
     and_then (append_row_chunks x acct mach (map TokenRow (push_grains b) @ map ContextRow (push_contexts b)
                 @ map GeminiRow (push_gemini b))) (\<lambda>us.
       Inr (ps @ concat ss @ us))))"

section \<open>Outbox drafts\<close>

definition pending_request_id ::
    "chunk_extern \<Rightarrow> int \<Rightarrow> string \<Rightarrow> stream_kind \<Rightarrow> reporter_cursor \<Rightarrow> reporter_cursor \<Rightarrow> nat \<Rightarrow> push_batch
      \<Rightarrow> string pulse_result" where
  "pending_request_id x acct mach k old new i b =
     map_ok (content_request_id x)
       (ok_or (new_error Internal ''failed to encode a Pulse reporter outbox identity'')
          (identity_json x acct mach k old new i b))"

definition pending_chunk_of ::
    "chunk_extern \<Rightarrow> int \<Rightarrow> string \<Rightarrow> stream_kind \<Rightarrow> reporter_cursor \<Rightarrow> reporter_cursor
      \<Rightarrow> nat \<times> (string \<times> nat) \<Rightarrow> pending_chunk pulse_result" where
  "pending_chunk_of x acct mach k old new c =
     (case c of (i, (doc, rows)) \<Rightarrow>
       and_then (ok_or (new_error Internal ''failed to decode a generated Pulse reporter document'')
           (doc_parse (chunk_docs x) doc)) (\<lambda>env.
       and_then (pending_request_id x acct mach k old new i (push_rows env)) (\<lambda>rid.
       and_then (encode_envelope (chunk_docs x) (env\<lparr>push_request := rid\<rparr>)) (\<lambda>doc'.
         Inr \<lparr>chunk_request = rid, chunk_body = doc', chunk_rows = rows\<rparr>))))"

definition reporter_pending_draft ::
    "chunk_extern \<Rightarrow> int \<Rightarrow> string \<Rightarrow> stream_kind \<Rightarrow> reporter_cursor \<Rightarrow> reporter_cursor \<Rightarrow> push_batch
      \<Rightarrow> pending_draft pulse_result" where
  "reporter_pending_draft x acct mach k old new b =
     and_then (deterministic_page_chunks x acct mach b) (\<lambda>chunks.
     and_then (try_map (pending_chunk_of x acct mach k old new) (List.enumerate 0 chunks)) (\<lambda>pending.
       let draft = \<lparr>draft_kind = k, draft_expected = old, draft_next = new, draft_chunks = pending\<rparr> in
       map_ok (\<lambda>_. draft) (draft_validate (chunk_docs x) acct mach draft)))"

section \<open>Batches as rows\<close>

text \<open>The batch with the rows of both, the rows of the first one ahead.\<close>

definition join_batch :: "push_batch \<Rightarrow> push_batch \<Rightarrow> push_batch" where
  "join_batch a b =
     \<lparr>push_profiles = push_profiles a @ push_profiles b, push_snapshots = push_snapshots a @ push_snapshots b,
      push_grains = push_grains a @ push_grains b, push_contexts = push_contexts a @ push_contexts b,
      push_gemini = push_gemini a @ push_gemini b\<rparr>"

lemma join_empty [simp]: "join_batch empty_batch b = b" "join_batch b empty_batch = b"
  by (simp_all add: join_batch_def empty_batch_def)

lemma join_assoc: "join_batch (join_batch a b) c = join_batch a (join_batch b c)"
  by (simp add: join_batch_def)

lemma push_into_join: "push_into r b = join_batch b (push_into r empty_batch)"
  by (cases r) (simp_all add: join_batch_def empty_batch_def)

lemma fold_push_into: "fold push_into rows b = join_batch b (batch_from_rows rows)"
proof (induction rows arbitrary: b)
  case Nil
  then show ?case by (simp add: batch_from_rows_def)
next
  case (Cons r rows)
  have "fold push_into (r # rows) b = join_batch (join_batch b (push_into r empty_batch)) (batch_from_rows rows)"
    by (simp add: Cons.IH push_into_join [of r b])
  moreover have "batch_from_rows (r # rows) = join_batch (push_into r empty_batch) (batch_from_rows rows)"
    using Cons.IH [of "push_into r empty_batch"] by (simp add: batch_from_rows_def)
  ultimately show ?case by (simp add: join_assoc)
qed

lemma batch_from_rows_Nil [simp]: "batch_from_rows [] = empty_batch"
  by (simp add: batch_from_rows_def)

lemma batch_from_rows_append: "batch_from_rows (a @ b) = join_batch (batch_from_rows a) (batch_from_rows b)"
  unfolding batch_from_rows_def fold_append comp_def by (rule fold_push_into [unfolded batch_from_rows_def])

lemma fold_kind:
  "fold push_into (map ProfileRow ps) b = b\<lparr>push_profiles := push_profiles b @ ps\<rparr>"
  "fold push_into (map SnapshotRow ss) b = b\<lparr>push_snapshots := push_snapshots b @ ss\<rparr>"
  "fold push_into (map TokenRow ts) b = b\<lparr>push_grains := push_grains b @ ts\<rparr>"
  "fold push_into (map ContextRow cs) b = b\<lparr>push_contexts := push_contexts b @ cs\<rparr>"
  "fold push_into (map GeminiRow gs) b = b\<lparr>push_gemini := push_gemini b @ gs\<rparr>"
  by (induction ps arbitrary: b, simp_all) (induction ss arbitrary: b, simp_all, induction ts arbitrary: b, simp_all,
    induction cs arbitrary: b, simp_all, induction gs arbitrary: b, simp_all)

lemma batch_from_rows_kind:
  "batch_from_rows (map ProfileRow ps) = empty_batch\<lparr>push_profiles := ps\<rparr>"
  "batch_from_rows (map SnapshotRow ss) = empty_batch\<lparr>push_snapshots := ss\<rparr>"
  "batch_from_rows (map TokenRow ts) = empty_batch\<lparr>push_grains := ts\<rparr>"
  "batch_from_rows (map ContextRow cs) = empty_batch\<lparr>push_contexts := cs\<rparr>"
  "batch_from_rows (map GeminiRow gs) = empty_batch\<lparr>push_gemini := gs\<rparr>"
  by (simp_all add: batch_from_rows_def fold_kind) (simp_all add: empty_batch_def)

lemma batch_rows_roundtrip: "batch_from_rows (batch_rows b) = b"
  by (simp add: batch_rows_def batch_from_rows_append batch_from_rows_kind) (simp add: join_batch_def empty_batch_def)

lemma push_row_count_join: "push_row_count (join_batch a b) = push_row_count a + push_row_count b"
  by (simp add: push_row_count_def join_batch_def)

lemma push_row_count_rows: "push_row_count (batch_from_rows rows) = length rows"
proof (induction rows)
  case (Cons r rows)
  have "push_row_count (batch_from_rows [r]) = 1"
    by (cases r) (simp_all add: batch_from_rows_def push_row_count_def empty_batch_def)
  then show ?case
    using Cons batch_from_rows_append [of "[r]" rows] by (simp add: push_row_count_join)
qed (simp add: push_row_count_def empty_batch_def)

section \<open>What the documents hold\<close>

text \<open>A document and the rows it was made of.\<close>

definition chunk_of :: "chunk_extern \<Rightarrow> int \<Rightarrow> string \<Rightarrow> string \<times> nat \<Rightarrow> push_row list \<Rightarrow> bool" where
  "chunk_of x acct mach c part \<longleftrightarrow>
     snd c = length part \<and> part \<noteq> [] \<and> length part \<le> max_push_rows
     \<and> (\<exists>canonical. batch_json x (batch_from_rows part) = Some canonical
          \<and> encode_envelope (chunk_docs x) (chunk_envelope x acct mach part canonical) = Inr (fst c))"

lemma append_row_chunks_parts:
  assumes "append_row_chunks x acct mach rows = Inr chunks"
  shows "\<exists>parts. concat parts = rows \<and> list_all2 (chunk_of x acct mach) chunks parts"
  using assms
proof (induction x acct mach rows arbitrary: chunks rule: append_row_chunks.induct)
  case (1 x acct mach rows)
  show ?case
  proof (cases "rows = []")
    case True
    then have "chunks = []" using "1.prems" by (simp add: append_row_chunks.simps [of x acct mach "[]"])
    then show ?thesis using True by (intro exI [of _ "[]"]) simp
  next
    case ne: False
    obtain n canonical where f: "fit_take x rows (min (length rows) max_push_rows) = Inr (n, canonical)"
      using "1.prems" ne by (auto simp: append_row_chunks.simps [of x acct mach rows] split: sum.splits)
    obtain doc where e: "encode_envelope (chunk_docs x) (chunk_envelope x acct mach (take n rows) canonical) = Inr doc"
      using "1.prems" ne f by (auto simp: append_row_chunks.simps [of x acct mach rows] split: sum.splits)
    obtain rest where r: "append_row_chunks x acct mach (drop n rows) = Inr rest" and c: "chunks = (doc, n) # rest"
      using "1.prems" ne f e by (auto simp: append_row_chunks.simps [of x acct mach rows] result_simps)
    from "1.IH" [OF ne f refl e r] obtain parts where
      p: "concat parts = drop n rows" "list_all2 (chunk_of x acct mach) rest parts" by blast
    have n: "0 < n" "n \<le> length rows" "n \<le> max_push_rows" "batch_json x (batch_from_rows (take n rows)) = Some canonical"
      using fit_take_bounds [OF f] ne by (simp_all add: max_push_rows_def)
    have "chunk_of x acct mach (doc, n) (take n rows)" using n e ne by (auto simp: chunk_of_def)
    then show ?thesis using p c by (intro exI [of _ "take n rows # parts"]) simp
  qed
qed

lemma encode_envelope_bound:
  "encode_envelope x env = Inr doc \<Longrightarrow> doc_encode x env = Some doc \<and> length doc \<le> max_push_body"
  by (auto simp: encode_envelope_def result_simps split: if_splits)

text \<open>The envelope a document encodes, for the chunks of one batch.\<close>

definition encodes :: "chunk_extern \<Rightarrow> int \<Rightarrow> string \<Rightarrow> string \<times> nat \<Rightarrow> push_envelope \<Rightarrow> bool" where
  "encodes x acct mach c env \<longleftrightarrow>
     doc_encode (chunk_docs x) env = Some (fst c) \<and> length (fst c) \<le> max_push_body
     \<and> push_row_count (push_rows env) = snd c \<and> 0 < snd c \<and> snd c \<le> max_push_rows
     \<and> push_account env = Some acct \<and> push_machine env = Some mach"

lemma chunks_reassemble:
  assumes "append_row_chunks x acct mach rows = Inr chunks"
  shows "\<exists>envs. list_all2 (encodes x acct mach) chunks envs
    \<and> foldr join_batch (map push_rows envs) empty_batch = batch_from_rows rows"
proof -
  obtain parts where p: "concat parts = rows" "list_all2 (chunk_of x acct mach) chunks parts"
    using append_row_chunks_parts [OF assms] by blast
  have "\<exists>envs. list_all2 (encodes x acct mach) cs envs \<and> map push_rows envs = map batch_from_rows ps"
    if "list_all2 (chunk_of x acct mach) cs ps" for cs ps
    using that
  proof (induction rule: list_all2_induct)
    case Nil
    then show ?case by simp
  next
    case (Cons c cs q ps)
    then obtain canonical envs where c: "encode_envelope (chunk_docs x) (chunk_envelope x acct mach q canonical) = Inr (fst c)"
      and e: "list_all2 (encodes x acct mach) cs envs" "map push_rows envs = map batch_from_rows ps"
      by (auto simp: chunk_of_def)
    have "encodes x acct mach c (chunk_envelope x acct mach q canonical)"
      using Cons.hyps(1) encode_envelope_bound [OF c]
      by (auto simp: encodes_def chunk_of_def chunk_envelope_def push_row_count_rows)
    then show ?case
      using e by (intro exI [of _ "chunk_envelope x acct mach q canonical # envs"]) (simp add: chunk_envelope_def)
  qed
  then obtain envs where e: "list_all2 (encodes x acct mach) chunks envs" "map push_rows envs = map batch_from_rows parts"
    using p(2) by blast
  have "foldr join_batch (map batch_from_rows ps) empty_batch = batch_from_rows (concat ps)" for ps
    by (induction ps) (simp_all add: batch_from_rows_append)
  then show ?thesis using e p(1) by auto
qed

text \<open>The example page as one batch of one snapshot.\<close>

definition example_chunks :: "reporter_extern \<Rightarrow> chunk_extern" where
  "example_chunks docs =
     \<lparr>chunk_docs = docs, batch_json = (\<lambda>_. Some []), identity_json = (\<lambda>_ _ _ _ _ _ _. Some []), sha256_bytes = (\<lambda>_. [])\<rparr>"

definition example_push_rows :: push_batch where
  "example_push_rows = empty_batch\<lparr>push_snapshots := [example_snapshot]\<rparr>"

lemma example_rows: "batch_rows example_push_rows = [SnapshotRow example_snapshot]"
  by (simp add: batch_rows_def example_push_rows_def empty_batch_def)

lemma example_from_rows: "batch_from_rows [SnapshotRow example_snapshot] = push_rows example_envelope"
  by (simp add: batch_from_rows_def empty_batch_def example_envelope_def)

lemma example_chunk_envelope:
  "chunk_envelope (example_chunks docs) 1 ''host'' [SnapshotRow example_snapshot] [] = example_envelope"
  unfolding chunk_envelope_def example_from_rows
  by (simp add: example_envelope_def content_request_id_def example_chunks_def)

lemma example_append:
  "append_row_chunks (example_chunks example_docs) 1 ''host'' [SnapshotRow example_snapshot] = Inr [(''doc'', 1)]"
proof -
  have f: "fit_take (example_chunks example_docs) [SnapshotRow example_snapshot] 1 = Inr (1, [])"
    by (simp add: fit_take.simps example_chunks_def)
  have d: "chunk_docs (example_chunks example_docs) = example_docs" by (simp add: example_chunks_def)
  have e: "append_row_chunks (example_chunks example_docs) 1 ''host'' [] = Inr []"
    by (simp add: append_row_chunks.simps)
  show ?thesis
    using f
    by (simp add: append_row_chunks.simps [of _ _ _ "[SnapshotRow example_snapshot]"] max_push_rows_def d
        example_chunk_envelope example_encode_envelope e)
qed

lemma example_page_chunks:
  "deterministic_page_chunks (example_chunks example_docs) 1 ''host'' example_push_rows = Inr [(''doc'', 1)]"
  by (simp add: deterministic_page_chunks_def example_rows example_append [simplified])

text \<open>
  Chunking loses, repeats and reorders nothing: the documents of a page encode envelopes of the
  reporting account and machine, each with 1 to 10000 rows and at most 1 MiB long, whose batches
  joined in document order are the batch of the page.
\<close>

theorem page_chunks_hold_every_row:
  assumes "deterministic_page_chunks x acct mach b = Inr chunks"
  shows "\<exists>envs. list_all2 (encodes x acct mach) chunks envs
    \<and> foldr join_batch (map push_rows envs) empty_batch = b"
  using chunks_reassemble [of x acct mach "batch_rows b" chunks] assms
  by (simp add: deterministic_page_chunks_def batch_rows_roundtrip)

theorem page_chunks_hold_every_row_witness:
  "\<exists>envs. list_all2 (encodes (example_chunks example_docs) 1 ''host'') [(''doc'', 1)] envs
    \<and> foldr join_batch (map push_rows envs) empty_batch = example_push_rows"
  by (rule page_chunks_hold_every_row [OF example_page_chunks])

section \<open>When chunking succeeds\<close>

text \<open>
  What is relied on of the encoders: they encode every batch, an envelope takes at most the margin
  more than its batch, and SHA-256 yields bytes.
\<close>

definition encoders_ok :: "chunk_extern \<Rightarrow> int \<Rightarrow> string \<Rightarrow> bool" where
  "encoders_ok x acct mach \<longleftrightarrow>
     (\<forall>b. batch_json x b \<noteq> None)
     \<and> (\<forall>part canonical. batch_json x (batch_from_rows part) = Some canonical \<longrightarrow>
          (\<exists>doc. doc_encode (chunk_docs x) (chunk_envelope x acct mach part canonical) = Some doc
             \<and> length doc \<le> length canonical + envelope_margin))
     \<and> (\<forall>t. \<forall>d \<in> set (sha256_bytes x t). d < 256)"

definition row_fits :: "chunk_extern \<Rightarrow> push_row \<Rightarrow> bool" where
  "row_fits x r \<longleftrightarrow> (\<forall>canonical. batch_json x (batch_from_rows [r]) = Some canonical \<longrightarrow>
     length canonical \<le> max_push_body - envelope_margin)"

lemma fit_take_succeeds:
  assumes "encoders_ok x acct mach" and "row_fits x (hd rows)" and "rows \<noteq> []" and "0 < n"
  shows "\<exists>m c. fit_take x rows n = Inr (m, c)"
  using assms
proof (induction x rows n rule: fit_take.induct)
  case (1 x rows n)
  obtain can where c: "batch_json x (batch_from_rows (take n rows)) = Some can"
    using "1.prems"(1) unfolding encoders_ok_def by blast
  show ?case
  proof (cases "length can > max_push_body - envelope_margin")
    case False
    then show ?thesis by (simp add: fit_take.simps [of x rows n] c)
  next
    case True
    have "take 1 rows = [hd rows]" using "1.prems"(3) by (cases rows) simp_all
    then have n: "\<not> n \<le> 1" using True c "1.prems"(2,4) by (cases "n = 1") (auto simp: row_fits_def)
    have "\<exists>m c. fit_take x rows ((n + 1) div 2) = Inr (m, c)"
      by (rule "1.IH" [OF c True n "1.prems"(1-3)]) (use n in simp)
    then show ?thesis using n True c by (simp add: fit_take.simps [of x rows n])
  qed
qed

lemma hex_byte_request: "b < 256 \<Longrightarrow> list_all request_byte (hex_byte b) \<and> length (hex_byte b) = 2"
proof -
  assume "b < 256"
  then have "b div 16 < 16" "b mod 16 < 16" by auto
  moreover have "request_byte (hex_digit n)" if "n < 16" for n
  proof (cases "n < 10")
    case True
    then have "byte_of (hex_digit n) = 48 + n" by (simp add: hex_digit_def byte_of_def)
    then show ?thesis using True by (simp add: request_byte_def is_ascii_alphanumeric_def is_ascii_digit_def)
  next
    case False
    then have "byte_of (hex_digit n) = 87 + n" using that by (simp add: hex_digit_def byte_of_def)
    then show ?thesis
      using that False by (simp add: request_byte_def is_ascii_alphanumeric_def is_ascii_alphabetic_def is_ascii_lower_def)
  qed
  ultimately show ?thesis by (simp add: hex_byte_def)
qed

lemma content_request_id_valid:
  assumes "\<forall>d \<in> set (sha256_bytes x t). d < 256"
  shows "validate_request_id (content_request_id x t) = Inr ()"
proof -
  have all: "\<forall>d \<in> set (take 16 (sha256_bytes x t)). d < 256" using assms by (meson in_set_takeD)
  have h: "\<forall>d \<in> set ds. d < 256 \<Longrightarrow> list_all request_byte (concat (map hex_byte ds)) \<and> length (concat (map hex_byte ds)) = 2 * length ds" for ds
    by (induction ds) (auto simp: hex_byte_request)
  have p: "list_all request_byte ''push-''"
    by (simp add: request_byte_def is_ascii_alphanumeric_def is_ascii_alphabetic_def is_ascii_lower_def byte_of_def)
  show ?thesis using h [OF all] p by (simp add: validate_request_id_def content_request_id_def)
qed

lemma append_row_chunks_succeeds:
  assumes "encoders_ok x acct mach" and "\<forall>r \<in> set rows. row_fits x r"
  shows "\<exists>chunks. append_row_chunks x acct mach rows = Inr chunks"
  using assms
proof (induction x acct mach rows rule: append_row_chunks.induct)
  case (1 x acct mach rows)
  show ?case
  proof (cases "rows = []")
    case True
    then show ?thesis by (simp add: append_row_chunks.simps [of x acct mach "[]"])
  next
    case ne: False
    obtain n canonical where f: "fit_take x rows (min (length rows) max_push_rows) = Inr (n, canonical)"
      using fit_take_succeeds [OF "1.prems"(1), of rows "min (length rows) max_push_rows"] "1.prems"(2) ne
      by (auto simp: max_push_rows_def)
    have n: "0 < n" "n \<le> max_push_rows" "batch_json x (batch_from_rows (take n rows)) = Some canonical"
      "length canonical \<le> max_push_body - envelope_margin"
      using fit_take_bounds [OF f] ne by (simp_all add: max_push_rows_def)
    obtain doc where d: "doc_encode (chunk_docs x) (chunk_envelope x acct mach (take n rows) canonical) = Some doc"
      "length doc \<le> length canonical + envelope_margin"
      using "1.prems"(1) n(3) unfolding encoders_ok_def by blast
    have "\<forall>t. \<forall>d \<in> set (sha256_bytes x t). d < 256" using "1.prems"(1) by (simp add: encoders_ok_def)
    then have "encode_envelope (chunk_docs x) (chunk_envelope x acct mach (take n rows) canonical) = Inr doc"
      using d n(2,4) by (simp add: encode_envelope_def chunk_envelope_def content_request_id_valid reporter_release_valid
          push_row_count_rows max_push_body_def envelope_margin_def)
    moreover from this have "\<exists>chunks. append_row_chunks x acct mach (drop n rows) = Inr chunks"
      by (intro "1.IH" [OF ne f refl _ "1.prems"(1)]) (use "1.prems"(2) in \<open>auto dest: in_set_dropD\<close>)
    ultimately show ?thesis using ne f by (auto simp: append_row_chunks.simps [of x acct mach rows])
  qed
qed

text \<open>
  Splitting always ends with documents: when the encoders behave as relied on and every single
  row fits, a page of any number of rows is split, whatever the sizes of its rows.
\<close>

theorem page_splitting_succeeds:
  assumes "encoders_ok x acct mach" and "\<forall>r \<in> set (batch_rows b). row_fits x r"
  shows "\<exists>chunks. deterministic_page_chunks x acct mach b = Inr chunks"
  using append_row_chunks_succeeds [OF assms] by (simp add: deterministic_page_chunks_def)

lemma try_map_each: "try_map f xs = Inr ys \<Longrightarrow> x \<in> set xs \<Longrightarrow> \<exists>y \<in> set ys. f x = Inr y"
  by (induction xs arbitrary: ys) (auto simp: result_simps)

lemma snapshot_chunk:
  assumes "append_row_chunks x acct mach [SnapshotRow s] = Inr chunks"
  shows "\<exists>canonical doc. chunks = [(doc, 1)] \<and> batch_json x (batch_from_rows [SnapshotRow s]) = Some canonical
    \<and> encode_envelope (chunk_docs x) (chunk_envelope x acct mach [SnapshotRow s] canonical) = Inr doc"
proof -
  obtain parts where p: "concat parts = [SnapshotRow s]" "list_all2 (chunk_of x acct mach) chunks parts"
    using append_row_chunks_parts [OF assms] by blast
  have ne: "\<forall>q \<in> set parts. q \<noteq> []"
    using p(2) by (auto simp: list_all2_conv_all_nth chunk_of_def in_set_conv_nth)
  obtain q ps where parts: "parts = q # ps" using p(1) by (cases parts) auto
  have "ps = []" "q = [SnapshotRow s]"
    using p(1) ne unfolding parts by (cases q; cases ps; cases "hd ps"; auto)+
  then show ?thesis using p(2) parts by (auto simp: chunk_of_def list_all2_Cons2)
qed

theorem page_splitting_succeeds_witness:
  "\<exists>chunks. deterministic_page_chunks
     (example_chunks \<lparr>doc_parse = (\<lambda>_. None), doc_encode = (\<lambda>_. Some ''doc'')\<rparr>) 1 ''host'' example_push_rows = Inr chunks"
  by (rule page_splitting_succeeds)
    (simp_all add: encoders_ok_def row_fits_def example_chunks_def envelope_margin_def)

text \<open>
  A snapshot has one document of its own: every batch that reports the snapshot sends the same
  document for it, whatever else the batch holds, so that its replay is recognised.
\<close>

theorem snapshot_has_its_own_document:
  assumes "deterministic_chunks x acct mach b = Inr chunks" and "s \<in> set (push_snapshots b)"
  shows "\<exists>canonical doc. (doc, 1) \<in> set chunks \<and> batch_json x (batch_from_rows [SnapshotRow s]) = Some canonical
    \<and> encode_envelope (chunk_docs x) (chunk_envelope x acct mach [SnapshotRow s] canonical) = Inr doc"
proof -
  obtain ps ss us where ss: "try_map (\<lambda>s. append_row_chunks x acct mach [SnapshotRow s]) (push_snapshots b) = Inr ss"
    and c: "chunks = ps @ concat ss @ us"
    using assms(1) by (auto simp: deterministic_chunks_def result_simps)
  obtain cs where cs: "cs \<in> set ss" "append_row_chunks x acct mach [SnapshotRow s] = Inr cs"
    using try_map_each [OF ss assms(2)] by blast
  have "set cs \<subseteq> set chunks" using cs(1) c by auto
  then show ?thesis using snapshot_chunk [OF cs(2)] by auto
qed

theorem snapshot_has_its_own_document_witness:
  "\<exists>canonical doc. (doc, 1) \<in> set [(''doc'', 1::nat)]
    \<and> encode_envelope example_docs (chunk_envelope (example_chunks example_docs) 1 ''host'' [SnapshotRow example_snapshot] canonical)
        = Inr doc"
proof -
  have e: "append_row_chunks (example_chunks example_docs) 1 ''host'' [] = Inr []"
    by (simp add: append_row_chunks.simps)
  have c: "deterministic_chunks (example_chunks example_docs) 1 ''host'' example_push_rows = Inr [(''doc'', 1)]"
    by (simp add: deterministic_chunks_def example_push_rows_def empty_batch_def example_append [simplified] e)
  have d: "chunk_docs (example_chunks example_docs) = example_docs" by (simp add: example_chunks_def)
  have m: "example_snapshot \<in> set (push_snapshots example_push_rows)" by (simp add: example_push_rows_def)
  show ?thesis using snapshot_has_its_own_document [OF c m] unfolding d by blast
qed

section \<open>Drafts\<close>

text \<open>The rows a page delivers: the rows of its documents, in order.\<close>

definition draft_batch :: "reporter_extern \<Rightarrow> pending_draft \<Rightarrow> push_batch" where
  "draft_batch x d =
     foldr join_batch
       (map (\<lambda>c. case doc_parse x (chunk_body c) of None \<Rightarrow> empty_batch | Some env \<Rightarrow> push_rows env) (draft_chunks d))
       empty_batch"

definition decoder_inverts :: "reporter_extern \<Rightarrow> bool" where
  "decoder_inverts x \<longleftrightarrow> (\<forall>env doc. doc_encode x env = Some doc \<longrightarrow> doc_parse x doc = Some env)"

lemma pending_chunks_rows:
  assumes "decoder_inverts (chunk_docs x)" and "list_all2 (encodes x acct mach) chunks envs"
    and "try_map (pending_chunk_of x acct mach k old new) (List.enumerate i chunks) = Inr pending"
  shows "map (\<lambda>c. case doc_parse (chunk_docs x) (chunk_body c) of None \<Rightarrow> empty_batch | Some env \<Rightarrow> push_rows env) pending
    = map push_rows envs"
  using assms(2,3)
proof (induction arbitrary: i pending rule: list_all2_induct)
  case Nil
  then show ?case by simp
next
  case (Cons c chunks env envs)
  obtain doc n where c: "c = (doc, n)" by fastforce
  have inv: "doc_parse (chunk_docs x) d = Some e" if "doc_encode (chunk_docs x) e = Some d" for e d
    using assms(1) that by (simp add: decoder_inverts_def)
  have "doc_parse (chunk_docs x) doc = Some env" using Cons.hyps(1) inv by (simp add: encodes_def c)
  then obtain pc ps where pc: "pending_chunk_of x acct mach k old new (i, c) = Inr pc"
    and ps: "try_map (pending_chunk_of x acct mach k old new) (List.enumerate (Suc i) chunks) = Inr ps" "pending = pc # ps"
    using Cons.prems by (auto simp: result_simps)
  obtain rid doc' where "encode_envelope (chunk_docs x) (env\<lparr>push_request := rid\<rparr>) = Inr doc'" and "chunk_body pc = doc'"
    using pc \<open>doc_parse (chunk_docs x) doc = Some env\<close> by (auto simp: pending_chunk_of_def c result_simps)
  then have "doc_parse (chunk_docs x) (chunk_body pc) = Some (env\<lparr>push_request := rid\<rparr>)"
    using inv encode_envelope_bound by blast
  then show ?case using Cons.IH [OF ps(1)] ps(2) by simp
qed

lemma draft_holds_page:
  assumes "reporter_pending_draft x acct mach k old new b = Inr d" and "decoder_inverts (chunk_docs x)"
  shows "draft_batch (chunk_docs x) d = b \<and> draft_kind d = k \<and> draft_expected d = old \<and> draft_next d = new
    \<and> draft_validate (chunk_docs x) acct mach d = Inr ()"
proof -
  obtain chunks pending where c: "append_row_chunks x acct mach (batch_rows b) = Inr chunks"
    and p: "try_map (pending_chunk_of x acct mach k old new) (List.enumerate 0 chunks) = Inr pending"
    and d: "d = \<lparr>draft_kind = k, draft_expected = old, draft_next = new, draft_chunks = pending\<rparr>"
      "draft_validate (chunk_docs x) acct mach d = Inr ()"
    using assms(1) by (auto simp: reporter_pending_draft_def deterministic_page_chunks_def result_simps Let_def)
  obtain envs where e: "list_all2 (encodes x acct mach) chunks envs"
    "foldr join_batch (map push_rows envs) empty_batch = b"
    using chunks_reassemble [OF c] by (auto simp: batch_rows_roundtrip)
  have "draft_batch (chunk_docs x) d = b"
    using pending_chunks_rows [OF assms(2) e(1) p] e(2) by (simp add: draft_batch_def d(1))
  then show ?thesis using d by simp
qed

text \<open>
  A page survives the outbox: when the JSON decoder inverts the encoder, the stored draft of a page
  is valid, moves exactly the cursor it was made for, and decoding its documents gives back the rows
  of the page, each once and in order.
\<close>

theorem outbox_draft_roundtrip:
  assumes "reporter_pending_draft x acct mach k old new b = Inr d" and "decoder_inverts (chunk_docs x)"
  shows "draft_batch (chunk_docs x) d = b \<and> draft_kind d = k \<and> draft_expected d = old \<and> draft_next d = new
    \<and> draft_validate (chunk_docs x) acct mach d = Inr ()"
  by (rule draft_holds_page [OF assms])

theorem outbox_draft_roundtrip_witness:
  "reporter_pending_draft (example_chunks example_docs) 1 ''host'' UsageStream initial_cursor
       (initial_cursor\<lparr>usage_after_id := 5\<rparr>) example_push_rows = Inr example_draft
   \<and> draft_batch example_docs example_draft = example_push_rows"
proof -
  have d: "chunk_docs (example_chunks example_docs) = example_docs"
    "identity_json (example_chunks example_docs) = (\<lambda>_ _ _ _ _ _ _. Some [])"
    "sha256_bytes (example_chunks example_docs) = (\<lambda>_. [])"
    by (simp_all add: example_chunks_def)
  have p: "doc_parse example_docs ''doc'' = Some example_envelope" by (simp add: example_docs_def)
  have u: "example_envelope\<lparr>push_request := ''push-''\<rparr> = example_envelope" by (simp add: example_envelope_def)
  have pc: "pending_chunk_of (example_chunks example_docs) 1 ''host'' UsageStream initial_cursor
      (initial_cursor\<lparr>usage_after_id := 5\<rparr>) (0, (''doc'', 1)) =
      Inr \<lparr>chunk_request = ''push-'', chunk_body = ''doc'', chunk_rows = 1\<rparr>"
    by (simp add: pending_chunk_of_def d p pending_request_id_def content_request_id_def u example_encode_envelope)
  have r: "reporter_pending_draft (example_chunks example_docs) 1 ''host'' UsageStream initial_cursor
       (initial_cursor\<lparr>usage_after_id := 5\<rparr>) example_push_rows = Inr example_draft"
    using pc example_draft_valid
    by (simp add: reporter_pending_draft_def example_page_chunks Let_def d example_draft_def)
  have inv: "decoder_inverts (chunk_docs (example_chunks example_docs))"
    unfolding d by (simp add: decoder_inverts_def example_docs_def)
  show ?thesis using outbox_draft_roundtrip [OF r inv] r unfolding d by blast
qed

end
