(* ===== verification/Reporter_Coordinator.thy ===== *)
theory Reporter_Coordinator
  imports Pulse_Reporter Reporter_Chunks
begin

text \<open>
  The coordinator of \<open>src/src/pulse/reporter.rs\<close>: for every account it reports the metadata, drains
  the outbox, and then reports usage and token pages, each page prepared in the store, sent, and
  committed. Every store call is a transaction of its own: what it did stays when a later call fails.
  Between the calls of one run the store is changed by the run alone; operations of other tasks are
  steps of \<open>reporter_step\<close>.
\<close>

section \<open>The coordinator\<close>

text \<open>
  What a run can reach, besides the store: the transport, the credentials as they resolve before the
  nth request, and whether the flag is set before the nth account.
\<close>

record coordinator =
  co_env :: reporter_env
  co_backoff :: reporter_backoff
  co_secrets :: "nat \<Rightarrow> reporter_secrets"
  co_extern :: chunk_extern
  co_machine :: string
  co_destination :: string
  co_stop :: "nat \<Rightarrow> bool"

text \<open>The store, the number of requests sent, and the log of the run.\<close>

record coord_world =
  w_store :: store
  w_next :: nat
  w_log :: "report_event list"

definition run_store :: "'a store_op \<Rightarrow> coord_world \<Rightarrow> 'a pulse_result \<times> coord_world" where
  "run_store f w = (case f (w_store w) of Inl e \<Rightarrow> (Inl e, w) | Inr (v, st) \<Rightarrow> (Inr v, w\<lparr>w_store := st\<rparr>))"

definition co_docs :: "coordinator \<Rightarrow> reporter_extern" where
  "co_docs co = chunk_docs (co_extern co)"

definition co_dest :: "coordinator \<Rightarrow> int \<Rightarrow> reporter_dest" where
  "co_dest co acct = (acct, co_machine co, co_destination co)"

definition coordinator_page_rows :: nat where "coordinator_page_rows = 500"
definition max_pages_per_kind :: nat where "max_pages_per_kind = 32"

definition send_documents ::
    "coordinator \<Rightarrow> (string \<times> nat) list \<Rightarrow> coord_world \<Rightarrow> reporter_outcome pulse_result \<times> coord_world" where
  "send_documents co chunks w =
     (case report_chunks (co_env co) (co_backoff co) (co_secrets co (w_next w)) chunks (w_next w) of
        (res, n, l) \<Rightarrow> (res, w\<lparr>w_next := n, w_log := w_log w @ l\<rparr>))"

definition report_batch ::
    "coordinator \<Rightarrow> int \<Rightarrow> push_batch \<Rightarrow> coord_world \<Rightarrow> reporter_outcome pulse_result \<times> coord_world" where
  "report_batch co acct b w =
     (case deterministic_chunks (co_extern co) acct (co_machine co) b of
        Inl e \<Rightarrow> (Inl e, w)
      | Inr chunks \<Rightarrow> send_documents co chunks w)"

definition report_pending_page ::
    "coordinator \<Rightarrow> pending_row \<Rightarrow> coord_world \<Rightarrow> reporter_outcome pulse_result \<times> coord_world" where
  "report_pending_page co p w =
     send_documents co (map (\<lambda>c. (chunk_body c, chunk_rows c)) (draft_chunks (pend_draft p))) w"

definition ensure_pending_expected :: "pending_row \<Rightarrow> reporter_cursor \<Rightarrow> unit pulse_result" where
  "ensure_pending_expected p state =
     (if draft_expected (pend_draft p) \<noteq> state
      then Inl (new_error Conflict ''Pulse reporter outbox does not match its durable cursor'') else Inr ())"

text \<open>The counters of the code saturate at the size of memory, which no run reaches.\<close>

definition add_outcome :: "reporter_outcome \<Rightarrow> reporter_outcome \<Rightarrow> reporter_outcome" where
  "add_outcome acc page =
     \<lparr>chunks_sent = chunks_sent acc + chunks_sent page, rows_sent = rows_sent acc + rows_sent page,
      cancelled = (cancelled acc \<or> cancelled page)\<rparr>"

text \<open>The end of every loop body: check the page, send it, and commit it unless cancelled.\<close>

definition send_page ::
    "coordinator \<Rightarrow> reporter_dest \<Rightarrow> stream_kind \<Rightarrow> pending_row \<Rightarrow> reporter_cursor \<Rightarrow> reporter_outcome \<Rightarrow> coord_world
      \<Rightarrow> (bool \<times> reporter_cursor \<times> reporter_outcome) pulse_result \<times> coord_world" where
  "send_page co d k p state out w =
     (case ensure_pending_expected p state of
        Inl e \<Rightarrow> (Inl e, w)
      | Inr _ \<Rightarrow>
          (case report_pending_page co p w of
             (Inl e, w1) \<Rightarrow> (Inl e, w1)
           | (Inr sent, w1) \<Rightarrow>
               if cancelled sent then (Inr (False, state, add_outcome out sent), w1)
               else (case run_store (commit_reporter_pending (co_docs co) d k (pend_id p)) w1 of
                       (Inl e, w2) \<Rightarrow> (Inl e, w2)
                     | (Inr c, w2) \<Rightarrow> (Inr (True, c, add_outcome out sent), w2))))"

type_synonym run_result = "(reporter_cursor \<times> reporter_outcome) pulse_result \<times> coord_world"

fun drain_kinds ::
    "coordinator \<Rightarrow> reporter_dest \<Rightarrow> stream_kind list \<Rightarrow> reporter_cursor \<Rightarrow> reporter_outcome \<Rightarrow> coord_world \<Rightarrow> run_result" where
  "drain_kinds co d [] state out w = (Inr (state, out), w)"
| "drain_kinds co d (k # ks) state out w =
     (case load_reporter_pending (co_docs co) d k (w_store w) of
        Inl e \<Rightarrow> (Inl e, w)
      | Inr None \<Rightarrow> drain_kinds co d ks state out w
      | Inr (Some p) \<Rightarrow>
          (case send_page co d k p state out w of
             (Inl e, w1) \<Rightarrow> (Inl e, w1)
           | (Inr (go, state', out'), w1) \<Rightarrow>
               if go then drain_kinds co d ks state' out' w1 else (Inr (state', out'), w1)))"

definition drain_reporter_pending ::
    "coordinator \<Rightarrow> reporter_dest \<Rightarrow> reporter_cursor \<Rightarrow> reporter_outcome \<Rightarrow> coord_world \<Rightarrow> run_result" where
  "drain_reporter_pending co d = drain_kinds co d [UsageStream, TokenStream]"

text \<open>The page a turn of the usage loop sends, if there is one, and the cursor that goes with it.\<close>

definition next_usage_page ::
    "coordinator \<Rightarrow> int \<Rightarrow> reporter_cursor \<Rightarrow> coord_world
      \<Rightarrow> (pending_row option \<times> reporter_cursor) pulse_result \<times> coord_world" where
  "next_usage_page co acct state w =
     (case load_reporter_pending (co_docs co) (co_dest co acct) UsageStream (w_store w) of
        Inl e \<Rightarrow> (Inl e, w)
      | Inr (Some p) \<Rightarrow> (Inr (Some p, state), w)
      | Inr None \<Rightarrow>
          (case local_reporter_usage_page acct (co_machine co) (usage_after_id state) coordinator_page_rows (w_store w) of
             Inl e \<Rightarrow> (Inl e, w)
           | Inr [] \<Rightarrow> (Inr (None, state), w)
           | Inr (r # rs) \<Rightarrow>
               (case reporter_pending_draft (co_extern co) acct (co_machine co) UsageStream state
                       (state\<lparr>usage_after_id := snap_id (last (r # rs))\<rparr>)
                       (empty_batch\<lparr>push_snapshots := map snapshot (r # rs)\<rparr>) of
                  Inl e \<Rightarrow> (Inl e, w)
                | Inr draft \<Rightarrow>
                    (case run_store (prepare_reporter_pending (co_docs co) (co_dest co acct) draft) w of
                       (Inl e, w1) \<Rightarrow> (Inl e, w1)
                     | (Inr p, w1) \<Rightarrow> (Inr (Some p, state), w1)))))"

text \<open>The same of the token loop; at the end of the rows it starts a new generation.\<close>

definition next_token_page ::
    "coordinator \<Rightarrow> int \<Rightarrow> reporter_cursor \<Rightarrow> coord_world
      \<Rightarrow> (pending_row option \<times> reporter_cursor) pulse_result \<times> coord_world" where
  "next_token_page co acct state w =
     (case load_reporter_pending (co_docs co) (co_dest co acct) TokenStream (w_store w) of
        Inl e \<Rightarrow> (Inl e, w)
      | Inr (Some p) \<Rightarrow> (Inr (Some p, state), w)
      | Inr None \<Rightarrow>
          (case local_reporter_token_page acct (co_machine co) (token_after state) coordinator_page_rows (w_store w) of
             Inl e \<Rightarrow> (Inl e, w)
           | Inr [] \<Rightarrow>
               if token_after state = None then (Inr (None, state), w)
               else (case run_store (advance_reporter_cursor (co_dest co acct) state
                            (state\<lparr>token_after := None, token_generation := min (token_generation state + 1) u64_max\<rparr>)) w of
                       (Inl e, w1) \<Rightarrow> (Inl e, w1)
                     | (Inr c, w1) \<Rightarrow> (Inr (None, c), w1))
           | Inr (g # gs) \<Rightarrow>
               (case reporter_pending_draft (co_extern co) acct (co_machine co) TokenStream state
                       (state\<lparr>token_after := Some (from_grain (last (g # gs)))\<rparr>)
                       (empty_batch\<lparr>push_grains := g # gs\<rparr>) of
                  Inl e \<Rightarrow> (Inl e, w)
                | Inr draft \<Rightarrow>
                    (case run_store (prepare_reporter_pending (co_docs co) (co_dest co acct) draft) w of
                       (Inl e, w1) \<Rightarrow> (Inl e, w1)
                     | (Inr p, w1) \<Rightarrow> (Inr (Some p, state), w1)))))"

text \<open>The bounded loop both streams run.\<close>

fun report_pages ::
    "(reporter_cursor \<Rightarrow> coord_world \<Rightarrow> (pending_row option \<times> reporter_cursor) pulse_result \<times> coord_world)
      \<Rightarrow> coordinator \<Rightarrow> reporter_dest \<Rightarrow> stream_kind \<Rightarrow> nat \<Rightarrow> reporter_cursor \<Rightarrow> reporter_outcome \<Rightarrow> coord_world
      \<Rightarrow> run_result" where
  "report_pages next_page co d k 0 state out w = (Inr (state, out), w)"
| "report_pages next_page co d k (Suc turns) state out w =
     (case next_page state w of
        (Inl e, w1) \<Rightarrow> (Inl e, w1)
      | (Inr (None, state'), w1) \<Rightarrow> (Inr (state', out), w1)
      | (Inr (Some p, state'), w1) \<Rightarrow>
          (case send_page co d k p state' out w1 of
             (Inl e, w2) \<Rightarrow> (Inl e, w2)
           | (Inr (go, state'', out'), w2) \<Rightarrow>
               if go then report_pages next_page co d k turns state'' out' w2 else (Inr (state'', out'), w2)))"

definition report_usage_pages ::
    "coordinator \<Rightarrow> int \<Rightarrow> reporter_cursor \<Rightarrow> reporter_outcome \<Rightarrow> coord_world \<Rightarrow> run_result" where
  "report_usage_pages co acct =
     report_pages (next_usage_page co acct) co (co_dest co acct) UsageStream max_pages_per_kind"

definition report_token_pages ::
    "coordinator \<Rightarrow> int \<Rightarrow> reporter_cursor \<Rightarrow> reporter_outcome \<Rightarrow> coord_world \<Rightarrow> run_result" where
  "report_token_pages co acct =
     report_pages (next_token_page co acct) co (co_dest co acct) TokenStream max_pages_per_kind"

text \<open>The streams of an account: the outbox first, then usage, then tokens.\<close>

definition report_streams ::
    "coordinator \<Rightarrow> int \<Rightarrow> reporter_cursor \<Rightarrow> reporter_outcome \<Rightarrow> coord_world \<Rightarrow> reporter_outcome pulse_result \<times> coord_world" where
  "report_streams co acct state out w =
     (case drain_reporter_pending co (co_dest co acct) state out w of
        (Inl e, w3) \<Rightarrow> (Inl e, w3)
      | (Inr (state1, out1), w3) \<Rightarrow>
          if cancelled out1 then (Inr out1, w3)
          else case report_usage_pages co acct state1 out1 w3 of
            (Inl e, w4) \<Rightarrow> (Inl e, w4)
          | (Inr (state2, out2), w4) \<Rightarrow>
              if cancelled out2 then (Inr out2, w4)
              else case report_token_pages co acct state2 out2 w4 of
                (Inl e, w5) \<Rightarrow> (Inl e, w5)
              | (Inr (state3, out3), w5) \<Rightarrow> (Inr out3, w5))"

definition assemble_metadata :: "coordinator \<Rightarrow> int \<Rightarrow> store \<Rightarrow> push_batch" where
  "assemble_metadata co acct st =
     (let ps = filter (\<lambda>p. origin p = LocalOrigin) (list_profiles acct st);
          names = map prof_name ps
      in \<lparr>push_profiles = map (\<lambda>p. \<lparr>rp_name = prof_name p, rp_vendor = prof_vendor p,
             rp_poll_minutes = poll_interval_minutes p, rp_budget = monthly_budget_usd p\<rparr>) ps,
          push_snapshots = [], push_grains = [],
          push_contexts = filter (\<lambda>c. ctx_machine c = co_machine co \<and> ctx_profile c \<in> set names)
            (list_context_sessions acct None st),
          push_gemini = list_gemini_quotas acct st\<rparr>)"

definition report_account ::
    "coordinator \<Rightarrow> int \<Rightarrow> coord_world \<Rightarrow> reporter_outcome pulse_result \<times> coord_world" where
  "report_account co acct w =
     (case report_batch co acct (assemble_metadata co acct (w_store w)) w of
        (Inl e, w1) \<Rightarrow> (Inl e, w1)
      | (Inr out, w1) \<Rightarrow>
          if cancelled out then (Inr out, w1)
          else case run_store (load_reporter_cursor (co_dest co acct)) w1 of
            (Inl e, w2) \<Rightarrow> (Inl e, w2)
          | (Inr state, w2) \<Rightarrow> report_streams co acct state out w2)"

fun report_accounts ::
    "coordinator \<Rightarrow> int list \<Rightarrow> nat \<Rightarrow> coord_world \<Rightarrow> (int \<times> reporter_outcome pulse_result) list \<times> coord_world" where
  "report_accounts co [] i w = ([], w)"
| "report_accounts co (acct # accts) i w =
     (if co_stop co i then ([(acct, Inr (no_outcome\<lparr>cancelled := True\<rparr>))], w)
      else case report_account co acct w of
        (res, w1) \<Rightarrow> (case report_accounts co accts (i + 1) w1 of (rest, w2) \<Rightarrow> ((acct, res) # rest, w2)))"

definition report_completed ::
    "coordinator \<Rightarrow> int list \<Rightarrow> coord_world \<Rightarrow> (int \<times> reporter_outcome pulse_result) list \<times> coord_world" where
  "report_completed co accts w = report_accounts co accts 0 w"

section \<open>Moves of a cursor\<close>

datatype cursor_move = Page pending_draft | Resynced

definition next_generation :: "reporter_cursor \<Rightarrow> reporter_cursor" where
  "next_generation c = c\<lparr>token_after := None, token_generation := token_generation c + 1\<rparr>"

text \<open>Moves that lead from one cursor to another: each page starts where the last move ended.\<close>

fun move_chain :: "reporter_cursor \<Rightarrow> cursor_move list \<Rightarrow> reporter_cursor \<Rightarrow> bool" where
  "move_chain a [] b = (a = b)"
| "move_chain a (Page dr # ms) b = (draft_expected dr = a \<and> move_chain (draft_next dr) ms b)"
| "move_chain a (Resynced # ms) b = move_chain (next_generation a) ms b"

definition page_bodies :: "pending_draft \<Rightarrow> string list" where
  "page_bodies dr = map chunk_body (draft_chunks dr)"

fun move_bodies :: "cursor_move \<Rightarrow> string list" where
  "move_bodies (Page dr) = page_bodies dr"
| "move_bodies Resynced = []"

lemma move_chain_append: "move_chain a (ms @ ms') c \<longleftrightarrow> (\<exists>b. move_chain a ms b \<and> move_chain b ms' c)"
  by (induction a ms c rule: move_chain.induct) auto

text \<open>The stored cursor of a destination, the initial one before it has a row.\<close>

definition stored_cursor :: "reporter_dest \<Rightarrow> store \<Rightarrow> reporter_cursor" where
  "stored_cursor d st = (case find_cursor d st of None \<Rightarrow> initial_cursor | Some r \<Rightarrow> cur_state r)"

text \<open>
  What a part of a run does for a destination: the cursor makes the moves, and the acknowledged
  documents are those of the moves' pages, then a part of the page that is still in the outbox.
\<close>

definition delivers ::
    "coordinator \<Rightarrow> reporter_dest \<Rightarrow> coord_world \<Rightarrow> cursor_move list \<Rightarrow> string list \<Rightarrow> coord_world \<Rightarrow> bool" where
  "delivers co d w ms rest w' \<longleftrightarrow>
     reporter_ok (co_docs co) (w_store w') \<and> move_chain (stored_cursor d (w_store w)) ms (stored_cursor d (w_store w'))
     \<and> (\<exists>l. w_log w' = w_log w @ l \<and> acked_bodies l = concat (map move_bodies ms) @ rest)
     \<and> (rest \<noteq> [] \<longrightarrow> (\<exists>p \<in> set (reporter_pending (w_store w')). pending_dest p = d
          \<and> (\<exists>k. rest = take k (page_bodies (pend_draft p)))))"

lemma delivers_refl: "reporter_ok (co_docs co) (w_store w) \<Longrightarrow> delivers co d w [] [] w"
  by (simp add: delivers_def)

lemma delivers_trans:
  assumes "delivers co d w ms [] w1" and "delivers co d w1 ms' rest w2"
  shows "delivers co d w (ms @ ms') rest w2"
proof -
  have "\<exists>l. w_log w1 = w_log w @ l \<and> acked_bodies l = concat (map move_bodies ms)"
    "\<exists>l. w_log w2 = w_log w1 @ l \<and> acked_bodies l = concat (map move_bodies ms') @ rest"
    using assms by (simp_all add: delivers_def)
  then obtain l1 l2 where "w_log w1 = w_log w @ l1" "acked_bodies l1 = concat (map move_bodies ms)"
    "w_log w2 = w_log w1 @ l2" "acked_bodies l2 = concat (map move_bodies ms') @ rest"
    by blast
  then have "\<exists>l. w_log w2 = w_log w @ l \<and> acked_bodies l = concat (map move_bodies (ms @ ms')) @ rest"
    by (intro exI [of _ "l1 @ l2"]) simp
  moreover have "move_chain (stored_cursor d (w_store w)) (ms @ ms') (stored_cursor d (w_store w2))"
    using assms by (auto simp: delivers_def move_chain_append)
  ultimately show ?thesis using assms(2) by (simp add: delivers_def)
qed

section \<open>What every part of a run delivers\<close>

lemma delivers_store:
  assumes "reporter_ok (co_docs co) (w_store w)" and "reporter_ok (co_docs co) (w_store w1)"
    and "stored_cursor d (w_store w1) = stored_cursor d (w_store w)" and "w_log w1 = w_log w"
  shows "delivers co d w [] [] w1"
  using assms by (simp add: delivers_def)

lemma send_documents_log:
  assumes "send_documents co chunks w = (res, w1)"
  shows "w_store w1 = w_store w \<and> (\<exists>l k. w_log w1 = w_log w @ l \<and> acked_bodies l = take k (map fst chunks)
    \<and> (\<forall>out. res = Inr out \<and> \<not> cancelled out \<longrightarrow> k = length chunks))"
proof -
  obtain n l where r: "report_chunks (co_env co) (co_backoff co) (co_secrets co (w_next w)) chunks (w_next w) = (res, n, l)"
    and w1: "w1 = w\<lparr>w_next := n, w_log := w_log w @ l\<rparr>"
    using assms by (auto simp: send_documents_def split: prod.splits)
  show ?thesis using report_chunks_log [OF r] w1 by auto
qed

lemma stored_cursor_find: "map_option cur_state (find_cursor d st) = Some c \<Longrightarrow> stored_cursor d st = c"
  by (auto simp: stored_cursor_def)

definition idle :: "reporter_dest \<Rightarrow> store \<Rightarrow> bool" where
  "idle d st \<longleftrightarrow> \<not> exists_where (\<lambda>p. pending_dest p = d) (reporter_pending st)"

lemma commit_moves:
  assumes ok: "reporter_ok x st" and p: "p \<in> set (reporter_pending st)"
    and c: "commit_reporter_pending x d k (pend_id p) st = Inr (c, st')"
  shows "c = draft_next (pend_draft p) \<and> stored_cursor d st' = c \<and> reporter_ok x st' \<and> idle d st'"
  using c
proof (cases rule: commit_cases)
  case (1 q r)
  have "q \<in> set (reporter_pending st)" using find_Some_mem [OF 1(1)] by simp
  then have q: "q = p" by (rule pending_unique(1) [OF ok _ p 1(2)])
  have "find_cursor d st' = find_cursor d (set_cursor d c st)" unfolding 1(7) by (simp add: find_cursor_def)
  then have "stored_cursor d st' = c" using find_cursor_set [of d d c st] 1(3) by (simp add: stored_cursor_def)
  moreover have "idle d st'"
  proof -
    obtain q' where q': "q' \<in> set (reporter_pending st)" "pending_dest q' = d"
      "reporter_pending st' = filter (\<lambda>r. r \<noteq> q') (reporter_pending st)"
      using commit_step [OF ok c] by blast
    have "r = q'" if "r \<in> set (reporter_pending st)" "pending_dest r = d" for r
      using pending_unique(2) [OF ok that(1) q'(1)] that(2) q'(2) by simp
    then show ?thesis by (auto simp: idle_def exists_where_def q'(3))
  qed
  ultimately show ?thesis using commit_step [OF ok c] 1(5) q by blast
qed

lemma send_page_delivers:
  assumes ok: "reporter_ok (co_docs co) (w_store w)" and p: "p \<in> set (reporter_pending (w_store w))" "pending_dest p = d"
    and state: "state = stored_cursor d (w_store w)" and s: "send_page co d k p state out w = (res, w')"
  shows "\<exists>ms rest. delivers co d w ms rest w' \<and> (\<forall>go state' out'. res = Inr (go, state', out') \<longrightarrow>
      (if go then rest = [] \<and> state' = stored_cursor d (w_store w') \<and> idle d (w_store w')
         \<and> cancelled out' = cancelled out else cancelled out'))"
proof (cases "ensure_pending_expected p state")
  case (Inl e)
  then have "res = Inl e" "w' = w" using s by (simp_all add: send_page_def)
  then show ?thesis using delivers_refl [OF ok] by blast
next
  case (Inr u)
  let ?chunks = "map (\<lambda>c. (chunk_body c, chunk_rows c)) (draft_chunks (pend_draft p))"
  obtain r1 w1 where r1: "send_documents co ?chunks w = (r1, w1)" by fastforce
  obtain l j where st: "w_store w1 = w_store w" and l: "w_log w1 = w_log w @ l" "acked_bodies l = take j (map fst ?chunks)"
    and all: "\<forall>out. r1 = Inr out \<and> \<not> cancelled out \<longrightarrow> j = length ?chunks"
    using send_documents_log [OF r1] by blast
  have bodies: "map fst ?chunks = page_bodies (pend_draft p)" by (simp add: page_bodies_def comp_def)
  have part: "delivers co d w [] (take j (page_bodies (pend_draft p))) w1"
    using ok p l st unfolding delivers_def bodies by auto
  have ex: "draft_expected (pend_draft p) = state" using Inr by (simp add: ensure_pending_expected_def split: if_splits)
  show ?thesis
  proof (cases r1)
    case (Inl e)
    then have "res = Inl e" "w' = w1" using s Inr r1 by (simp_all add: send_page_def report_pending_page_def)
    then show ?thesis using part by blast
  next
    case sent: (Inr o1)
    show ?thesis
    proof (cases "cancelled o1")
      case True
      then have "res = Inr (False, state, add_outcome out o1)" "w' = w1"
        using s Inr r1 sent by (simp_all add: send_page_def report_pending_page_def)
      then show ?thesis
        using part True
        by (intro exI [of _ "[]"] exI [of _ "take j (page_bodies (pend_draft p))"]) (simp add: add_outcome_def)
    next
      case False
      show ?thesis
      proof (cases "commit_reporter_pending (co_docs co) d k (pend_id p) (w_store w1)")
        case (Inl e)
        then have "res = Inl e" "w' = w1"
          using s Inr r1 sent False by (simp_all add: send_page_def report_pending_page_def run_store_def)
        then show ?thesis using part by blast
      next
        case c: (Inr cs)
        obtain c' st' where cs: "cs = (c', st')" by fastforce
        have w': "res = Inr (True, c', add_outcome out o1)" "w' = w1\<lparr>w_store := st'\<rparr>"
          using s Inr r1 sent False c cs by (simp_all add: send_page_def report_pending_page_def run_store_def)
        note cm = commit_moves [OF ok p(1) c [unfolded cs st]]
        have cur: "stored_cursor d st' = c'" and ok': "reporter_ok (co_docs co) st'" using cm by simp_all
        have "delivers co d w [Page (pend_draft p)] [] w'"
          using ok' l all sent False ex state bodies cm unfolding delivers_def w' by auto
        then show ?thesis
          using w' cur cm False
          by (intro exI [of _ "[Page (pend_draft p)]"] exI [of _ "[]"]) (simp add: add_outcome_def)
      qed
    qed
  qed
qed

text \<open>A part of a run that left the destination idle, or stopped on the way.\<close>

definition run_good :: "coordinator \<Rightarrow> reporter_dest \<Rightarrow> coord_world \<Rightarrow> run_result \<Rightarrow> bool" where
  "run_good co d w r \<longleftrightarrow>
     (\<exists>ms rest. delivers co d w ms rest (snd r)
        \<and> (\<forall>state' out'. fst r = Inr (state', out') \<and> \<not> cancelled out' \<longrightarrow>
             rest = [] \<and> state' = stored_cursor d (w_store (snd r)) \<and> idle d (w_store (snd r))))"

lemma run_good_trans: "delivers co d w ms [] w1 \<Longrightarrow> run_good co d w1 r \<Longrightarrow> run_good co d w r"
  unfolding run_good_def by (meson delivers_trans)

lemma run_good_stop:
  assumes "delivers co d w ms [] w'" and "state' = stored_cursor d (w_store w')" and "idle d (w_store w')"
  shows "run_good co d w (Inr (state', out'), w')"
  unfolding run_good_def by (rule exI [of _ ms], rule exI [of _ "[]"]) (use assms in simp)

lemma run_good_error: "delivers co d w ms rest w' \<Longrightarrow> run_good co d w (Inl e, w')"
  by (auto simp: run_good_def)

lemma run_good_cancelled: "delivers co d w ms rest w' \<Longrightarrow> cancelled out' \<Longrightarrow> run_good co d w (Inr (state', out'), w')"
  by (auto simp: run_good_def)

lemma load_pending_mem:
  assumes "load_reporter_pending x d k st = Inr found"
  shows "case found of None \<Rightarrow> \<not> exists_where (is_pending d k) (reporter_pending st)
    | Some p \<Rightarrow> p \<in> set (reporter_pending st) \<and> pending_dest p = d"
  using assms
  by (auto simp: load_reporter_pending_def load_sqlite_reporter_pending_def result_simps exists_where_def find_None_iff
      is_pending_def dest!: find_Some_mem split: option.splits)

lemma send_then:
  assumes ok: "reporter_ok (co_docs co) (w_store w)" and p: "p \<in> set (reporter_pending (w_store w))" "pending_dest p = d"
    and state: "state = stored_cursor d (w_store w)"
    and rest: "\<And>state' out' w'. reporter_ok (co_docs co) (w_store w') \<Longrightarrow> idle d (w_store w') \<Longrightarrow>
      state' = stored_cursor d (w_store w') \<Longrightarrow> run_good co d w' (f state' out' w')"
  shows "run_good co d w
    (case send_page co d k p state out w of
       (Inl e, w1) \<Rightarrow> (Inl e, w1)
     | (Inr (go, state', out'), w1) \<Rightarrow> if go then f state' out' w1 else (Inr (state', out'), w1))"
proof -
  obtain r w1 where r: "send_page co d k p state out w = (r, w1)" by fastforce
  obtain ms part where d: "delivers co d w ms part w1" and c: "\<forall>go state' out'. r = Inr (go, state', out') \<longrightarrow>
      (if go then part = [] \<and> state' = stored_cursor d (w_store w1) \<and> idle d (w_store w1)
         \<and> cancelled out' = cancelled out else cancelled out')"
    using send_page_delivers [OF ok p state r] by blast
  show ?thesis
  proof (cases r)
    case (Inl e)
    then show ?thesis using run_good_error [OF d] by (simp add: r)
  next
    case (Inr a)
    obtain go state' out' where a: "a = (go, state', out')" by (cases a) auto
    note c' = c [rule_format, OF Inr [unfolded a]]
    show ?thesis
    proof (cases go)
      case True
      then have "part = []" "run_good co d w1 (f state' out' w1)"
        using c' d rest by (simp_all add: delivers_def)
      then show ?thesis using run_good_trans d by (simp add: r Inr a True)
    next
      case False
      then show ?thesis using run_good_cancelled [OF d] c' by (simp add: r Inr a)
    qed
  qed
qed

lemma drain_kinds_good:
  assumes "reporter_ok (co_docs co) (w_store w)" and "state = stored_cursor d (w_store w)"
    and "\<forall>p \<in> set (reporter_pending (w_store w)). pending_dest p = d \<longrightarrow> draft_kind (pend_draft p) \<in> set ks"
  shows "run_good co d w (drain_kinds co d ks state out w)"
  using assms
proof (induction ks arbitrary: state out w)
  case Nil
  then have "idle d (w_store w)" by (auto simp: idle_def exists_where_def)
  then show ?case using run_good_stop [OF delivers_refl [OF Nil.prems(1)] Nil.prems(2)] by simp
next
  case (Cons k ks)
  show ?case
  proof (cases "load_reporter_pending (co_docs co) d k (w_store w)")
    case (Inl e)
    then show ?thesis using run_good_error [OF delivers_refl [OF Cons.prems(1)]] by simp
  next
    case (Inr found)
    note m = load_pending_mem [OF Inr]
    show ?thesis
    proof (cases found)
      case None
      then have "\<forall>p \<in> set (reporter_pending (w_store w)). pending_dest p = d \<longrightarrow> draft_kind (pend_draft p) \<in> set ks"
        using m Cons.prems(3) by (auto simp: exists_where_def is_pending_def)
      then show ?thesis using Cons.IH [OF Cons.prems(1,2)] Inr None by simp
    next
      case (Some p)
      then have "run_good co d w
        (case send_page co d k p state out w of
           (Inl e, w1) \<Rightarrow> (Inl e, w1)
         | (Inr (go, state', out'), w1) \<Rightarrow> if go then drain_kinds co d ks state' out' w1 else (Inr (state', out'), w1))"
        using m by (intro send_then [OF Cons.prems(1) _ _ Cons.prems(2)] Cons.IH) (auto simp: idle_def exists_where_def)
      then show ?thesis using Inr Some by simp
    qed
  qed
qed

text \<open>What a turn of a page loop hands over.\<close>

definition next_good :: "coordinator \<Rightarrow> reporter_dest \<Rightarrow> coord_world
    \<Rightarrow> (pending_row option \<times> reporter_cursor) pulse_result \<times> coord_world \<Rightarrow> bool" where
  "next_good co d w r \<longleftrightarrow>
     (\<exists>ms. delivers co d w ms [] (snd r)
       \<and> (\<forall>found state'. fst r = Inr (found, state') \<longrightarrow> state' = stored_cursor d (w_store (snd r))
            \<and> (case found of None \<Rightarrow> idle d (w_store (snd r))
                | Some p \<Rightarrow> p \<in> set (reporter_pending (w_store (snd r))) \<and> pending_dest p = d)))"

lemma report_pages_good:
  assumes "reporter_ok (co_docs co) (w_store w)" and "state = stored_cursor d (w_store w)" and "idle d (w_store w)"
    and "\<And>w state. reporter_ok (co_docs co) (w_store w) \<Longrightarrow> state = stored_cursor d (w_store w) \<Longrightarrow>
      idle d (w_store w) \<Longrightarrow> next_good co d w (next_page state w)"
  shows "run_good co d w (report_pages next_page co d k turns state out w)"
  using assms(1-3)
proof (induction turns arbitrary: state out w)
  case 0
  then show ?case using run_good_stop [OF delivers_refl [OF 0(1)] 0(2,3)] by simp
next
  case (Suc turns)
  obtain r w1 where r: "next_page state w = (r, w1)" by fastforce
  from assms(4) [OF Suc.prems] obtain ms where d: "delivers co d w ms [] w1"
    and n: "\<forall>found state'. r = Inr (found, state') \<longrightarrow> state' = stored_cursor d (w_store w1)
      \<and> (case found of None \<Rightarrow> idle d (w_store w1)
          | Some p \<Rightarrow> p \<in> set (reporter_pending (w_store w1)) \<and> pending_dest p = d)"
    unfolding next_good_def r fst_conv snd_conv by blast
  have ok1: "reporter_ok (co_docs co) (w_store w1)" using d by (simp add: delivers_def)
  show ?case
  proof (cases r)
    case (Inl e)
    then show ?thesis using run_good_error [OF d] by (simp add: r)
  next
    case (Inr a)
    obtain found state' where a: "a = (found, state')" by fastforce
    note n' = n [rule_format, OF Inr [unfolded a]]
    show ?thesis
    proof (cases found)
      case None
      then show ?thesis using run_good_stop [OF d] n' by (simp add: r Inr a)
    next
      case (Some p)
      have "run_good co d w1
        (case send_page co d k p state' out w1 of
           (Inl e, w2) \<Rightarrow> (Inl e, w2)
         | (Inr (go, state'', out'), w2) \<Rightarrow>
             if go then report_pages next_page co d k turns state'' out' w2 else (Inr (state'', out'), w2))"
        using n' Some by (intro send_then [OF ok1] Suc.IH) simp_all
      then show ?thesis using run_good_trans [OF d] by (simp add: r Inr a Some)
    qed
  qed
qed

lemma next_good_error:
  assumes "reporter_ok (co_docs co) (w_store w)"
  shows "next_good co d w (Inl e, w)"
  unfolding next_good_def by (rule exI [of _ "[]"]) (simp add: delivers_refl [OF assms])

lemma next_good_none:
  assumes "delivers co d w ms [] w1" and "state' = stored_cursor d (w_store w1)" and "idle d (w_store w1)"
  shows "next_good co d w (Inr (None, state'), w1)"
  unfolding next_good_def by (rule exI [of _ ms]) (use assms in simp)

lemma next_good_some:
  assumes "delivers co d w ms [] w1" and "state' = stored_cursor d (w_store w1)"
    and "p \<in> set (reporter_pending (w_store w1))" and "pending_dest p = d"
  shows "next_good co d w (Inr (Some p, state'), w1)"
  unfolding next_good_def by (rule exI [of _ ms]) (use assms in simp)

text \<open>A page that was just prepared is in the outbox and leaves the cursor where it was.\<close>

lemma prepare_good:
  assumes ok: "reporter_ok (co_docs co) (w_store w)" and state: "state = stored_cursor d (w_store w)"
  shows "next_good co d w
    (case run_store (prepare_reporter_pending (co_docs co) d draft) w of
       (Inl e, w1) \<Rightarrow> (Inl e, w1) | (Inr p, w1) \<Rightarrow> (Inr (Some p, state), w1))"
proof (cases "prepare_reporter_pending (co_docs co) d draft (w_store w)")
  case (Inl e)
  then show ?thesis using next_good_error [OF ok] by (simp add: run_store_def)
next
  case (Inr a)
  obtain p st' where a: "a = (p, st')" by fastforce
  note prep = Inr [unfolded a]
  have ok': "reporter_ok (co_docs co) st'" using prepare_step [OF ok prep] by simp
  have "p \<in> set (reporter_pending st') \<and> pending_dest p = d \<and> stored_cursor d st' = stored_cursor d (w_store w)"
    using prep
  proof (cases rule: prepare_cases)
    case existing
    then show ?thesis using find_Some_mem [OF existing(2)] by (simp add: is_pending_def)
  next
    case (new c)
    show ?thesis unfolding new(8) by (simp add: stored_cursor_def find_cursor_def) (simp add: new(7) pending_dest_def)
  qed
  moreover from this have "delivers co d w [] [] (w\<lparr>w_store := st'\<rparr>)"
    using ok ok' by (intro delivers_store) simp_all
  ultimately show ?thesis using state by (simp add: run_store_def Inr a next_good_some)
qed

lemma next_usage_page_good:
  assumes ok: "reporter_ok (co_docs co) (w_store w)" and state: "state = stored_cursor (co_dest co acct) (w_store w)"
    and idle: "idle (co_dest co acct) (w_store w)"
  shows "next_good co (co_dest co acct) w (next_usage_page co acct state w)"
proof (cases "load_reporter_pending (co_docs co) (co_dest co acct) UsageStream (w_store w)")
  case (Inl e)
  then show ?thesis using next_good_error [OF ok] by (simp add: next_usage_page_def)
next
  case (Inr found)
  then have "found = None"
    using load_pending_mem [OF Inr] idle by (auto simp: idle_def exists_where_def split: option.splits)
  note found = Inr [unfolded this]
  show ?thesis
    using next_good_error [OF ok] next_good_none [OF delivers_refl [OF ok] state idle] prepare_good [OF ok state]
    by (simp add: next_usage_page_def found split: sum.split list.split)
qed

lemma resync_good:
  assumes ok: "reporter_ok (co_docs co) (w_store w)" and state: "state = stored_cursor d (w_store w)"
    and idle: "idle d (w_store w)"
  shows "next_good co d w
    (case run_store (advance_reporter_cursor d state
        (state\<lparr>token_after := None, token_generation := min (token_generation state + 1) u64_max\<rparr>)) w of
       (Inl e, w1) \<Rightarrow> (Inl e, w1) | (Inr c, w1) \<Rightarrow> (Inr (None, c), w1))"
  (is "next_good co d w (case run_store (advance_reporter_cursor d state ?new) w of (Inl e, w1) \<Rightarrow> (Inl e, w1) | (Inr c, w1) \<Rightarrow> (Inr (None, c), w1))")
proof (cases "advance_reporter_cursor d state ?new (w_store w)")
  case (Inl e)
  then show ?thesis using next_good_error [OF ok] by (simp add: run_store_def)
next
  case (Inr a)
  obtain c st' where a: "a = (c, st')" by fastforce
  note adv = Inr [unfolded a]
  have v: "validate_reporter_transition state ?new = Inr ()" and c: "c = ?new"
    and one: "count_where (\<lambda>r. cursor_dest r = d \<and> cur_state r = state) (reporter_cursors (w_store w)) = 1"
    and st': "st' = (w_store w)\<lparr>reporter_cursors := update_where (\<lambda>r. cursor_dest r = d \<and> cur_state r = state)
        (\<lambda>r. r\<lparr>cur_state := ?new\<rparr>) (reporter_cursors (w_store w))\<rparr>"
    using adv by (auto simp: advance_reporter_cursor_def result_simps split: if_splits)
  have ok': "reporter_ok (co_docs co) st'" using resync_step [OF ok idle [unfolded idle_def] adv] by simp
  have "\<not> token_generation state \<ge> u64_max"
    using v by (auto simp: validate_reporter_transition_def Let_def split: if_splits option.splits)
  then have new: "?new = next_generation state" by (simp add: next_generation_def)
  have "\<exists>r \<in> set (reporter_cursors (w_store w)). cursor_dest r = d"
  proof (rule ccontr)
    assume "\<not> (\<exists>r \<in> set (reporter_cursors (w_store w)). cursor_dest r = d)"
    then have "filter (\<lambda>r. cursor_dest r = d \<and> cur_state r = state) (reporter_cursors (w_store w)) = []"
      by (auto simp: filter_empty_conv)
    then show False using one by (simp add: count_where_def)
  qed
  then obtain r where "r \<in> set (reporter_cursors (w_store w))" "cursor_dest r = d" by blast
  then have r: "find_cursor d (w_store w) = Some r"
    using find_cursor_mem [of "w_store w" r] ok by (simp add: reporter_ok_def)
  then have "cur_state r = state" using state by (simp add: stored_cursor_def)
  then have cur: "stored_cursor d st' = ?new"
    using find_cursor_facts [OF r] find_cursor_update [where e = d and st = "w_store w" and d = d and Q = "\<lambda>r. cur_state r = state" and n = ?new] r
    by (simp add: st' stored_cursor_def)
  have i: "idle d st'" using idle by (simp add: idle_def st')
  have "delivers co d w [Resynced] [] (w\<lparr>w_store := st'\<rparr>)"
    using ok' state cur new by (simp add: delivers_def)
  then have "next_good co d w (Inr (None, c), w\<lparr>w_store := st'\<rparr>)"
    by (rule next_good_none) (simp_all add: cur c i)
  moreover have "run_store (advance_reporter_cursor d state ?new) w = (Inr c, w\<lparr>w_store := st'\<rparr>)"
    by (simp only: run_store_def Inr a sum.case prod.case)
  ultimately show ?thesis by (simp only: prod.case sum.case)
qed

lemma next_token_page_good:
  assumes ok: "reporter_ok (co_docs co) (w_store w)" and state: "state = stored_cursor (co_dest co acct) (w_store w)"
    and idle: "idle (co_dest co acct) (w_store w)"
  shows "next_good co (co_dest co acct) w (next_token_page co acct state w)"
proof (cases "load_reporter_pending (co_docs co) (co_dest co acct) TokenStream (w_store w)")
  case (Inl e)
  then show ?thesis using next_good_error [OF ok] by (simp add: next_token_page_def)
next
  case (Inr found)
  then have "found = None"
    using load_pending_mem [OF Inr] idle by (auto simp: idle_def exists_where_def split: option.splits)
  note found = Inr [unfolded this]
  show ?thesis
    using next_good_error [OF ok] next_good_none [OF delivers_refl [OF ok] state idle] prepare_good [OF ok state]
      resync_good [OF ok state idle]
    by (simp add: next_token_page_def found split: sum.split list.split)
qed

lemma run_goodE:
  assumes "run_good co d w (res, w1)"
  obtains ms rest where "delivers co d w ms rest w1"
    "\<And>state' out'. res = Inr (state', out') \<Longrightarrow> \<not> cancelled out' \<Longrightarrow>
       rest = [] \<and> state' = stored_cursor d (w_store w1) \<and> idle d (w_store w1)"
  using assms unfolding run_good_def fst_conv snd_conv by blast

lemma report_streams_delivers:
  assumes ok: "reporter_ok (co_docs co) (w_store w)" and state: "state = stored_cursor (co_dest co acct) (w_store w)"
  shows "\<exists>ms rest. delivers co (co_dest co acct) w ms rest (snd (report_streams co acct state out w))"
proof -
  let ?d = "co_dest co acct"
  obtain r3 w3 where r3: "drain_reporter_pending co ?d state out w = (r3, w3)" by fastforce
  have "set [UsageStream, TokenStream] = UNIV" by (auto intro: stream_kind.exhaust)
  then have "run_good co ?d w (r3, w3)"
    unfolding r3 [symmetric] drain_reporter_pending_def by (intro drain_kinds_good [OF ok state]) simp
  then obtain ms3 rest3 where d3: "delivers co ?d w ms3 rest3 w3"
    and c3: "\<And>s o'. r3 = Inr (s, o') \<Longrightarrow> \<not> cancelled o' \<Longrightarrow> rest3 = [] \<and> s = stored_cursor ?d (w_store w3) \<and> idle ?d (w_store w3)"
    by (rule run_goodE) blast
  show ?thesis
  proof (cases "\<exists>s o'. r3 = Inr (s, o') \<and> \<not> cancelled o'")
    case False
    then have "snd (report_streams co acct state out w) = w3" by (cases r3) (auto simp: report_streams_def r3)
    with d3 show ?thesis by blast
  next
    case True
    then obtain s1 o1 where i3: "r3 = Inr (s1, o1)" "\<not> cancelled o1" by blast
    note c3' = c3 [OF i3]
    obtain r4 w4 where r4: "report_usage_pages co acct s1 o1 w3 = (r4, w4)" by fastforce
    have ok3: "reporter_ok (co_docs co) (w_store w3)" using d3 by (simp add: delivers_def)
    have "run_good co ?d w3 (r4, w4)"
      unfolding r4 [symmetric] report_usage_pages_def
      by (intro report_pages_good next_usage_page_good) (use ok3 c3' in simp_all)
    then have "run_good co ?d w (r4, w4)" using run_good_trans d3 c3' by blast
    then obtain ms4 rest4 where d4: "delivers co ?d w ms4 rest4 w4"
      and c4: "\<And>s o'. r4 = Inr (s, o') \<Longrightarrow> \<not> cancelled o' \<Longrightarrow> rest4 = [] \<and> s = stored_cursor ?d (w_store w4) \<and> idle ?d (w_store w4)"
      by (rule run_goodE) blast
    show ?thesis
    proof (cases "\<exists>s o'. r4 = Inr (s, o') \<and> \<not> cancelled o'")
      case False
      then have "snd (report_streams co acct state out w) = w4"
        by (cases r4) (auto simp: report_streams_def r3 i3 r4)
      with d4 show ?thesis by blast
    next
      case True
      then obtain s2 o2 where i4: "r4 = Inr (s2, o2)" "\<not> cancelled o2" by blast
      note c4' = c4 [OF i4]
      obtain r5 w5 where r5: "report_token_pages co acct s2 o2 w4 = (r5, w5)" by fastforce
      have ok4: "reporter_ok (co_docs co) (w_store w4)" using d4 by (simp add: delivers_def)
      have "run_good co ?d w4 (r5, w5)"
        unfolding r5 [symmetric] report_token_pages_def
        by (intro report_pages_good next_token_page_good) (use ok4 c4' in simp_all)
      then have "run_good co ?d w (r5, w5)" using run_good_trans d4 c4' by blast
      then obtain ms5 rest5 where "delivers co ?d w ms5 rest5 w5" by (rule run_goodE)
      moreover have "snd (report_streams co acct state out w) = w5"
        using i3(2) i4(2) by (cases r5) (auto simp: report_streams_def r3 i3 r4 i4 r5)
      ultimately show ?thesis by blast
    qed
  qed
qed

section \<open>A whole report\<close>

lemma load_cursor_stored:
  assumes "load_reporter_cursor d st = Inr (c, st')"
  shows "c = stored_cursor d st' \<and> stored_cursor d st' = stored_cursor d st"
proof (cases "find_cursor d st")
  case (Some r)
  then show ?thesis using assms by (cases d) (auto simp: load_reporter_cursor_def stored_cursor_def result_simps)
next
  case None
  obtain a m t where d: "d = (a, m, t)" by (cases d)
  show ?thesis
    using assms None unfolding d
    by (auto simp: load_reporter_cursor_def result_simps Let_def stored_cursor_def find_cursor_def find_append cursor_dest_def
        split: if_splits)
qed

lemma report_account_delivers:
  fixes co acct w
  defines "d \<equiv> co_dest co acct" and "w' \<equiv> snd (report_account co acct w)"
  assumes ok: "reporter_ok (co_docs co) (w_store w)"
  shows "\<exists>ms rest meta l. w_log w' = w_log w @ l \<and> acked_bodies l = meta @ concat (map move_bodies ms) @ rest
    \<and> move_chain (stored_cursor d (w_store w)) ms (stored_cursor d (w_store w'))
    \<and> reporter_ok (co_docs co) (w_store w')
    \<and> (rest \<noteq> [] \<longrightarrow> (\<exists>p \<in> set (reporter_pending (w_store w')). pending_dest p = d
         \<and> (\<exists>k. rest = take k (page_bodies (pend_draft p)))))
    \<and> (meta \<noteq> [] \<longrightarrow> (\<exists>chunks k. deterministic_chunks (co_extern co) acct (co_machine co)
          (assemble_metadata co acct (w_store w)) = Inr chunks \<and> meta = take k (map fst chunks)))"
proof -
  let ?b = "assemble_metadata co acct (w_store w)"
  obtain r1 w1 where r1: "report_batch co acct ?b w = (r1, w1)" by fastforce
  have "w_store w1 = w_store w \<and> (\<exists>meta l. w_log w1 = w_log w @ l \<and> acked_bodies l = meta
      \<and> (meta \<noteq> [] \<longrightarrow> (\<exists>chunks k. deterministic_chunks (co_extern co) acct (co_machine co) ?b = Inr chunks
           \<and> meta = take k (map fst chunks))))"
  proof (cases "deterministic_chunks (co_extern co) acct (co_machine co) ?b")
    case (Inl e)
    then show ?thesis using r1 by (auto simp: report_batch_def)
  next
    case (Inr chunks)
    then have "send_documents co chunks w = (r1, w1)" using r1 by (simp add: report_batch_def)
    from send_documents_log [OF this] Inr show ?thesis by auto
  qed
  then obtain meta l where st1: "w_store w1 = w_store w" and l: "w_log w1 = w_log w @ l" "acked_bodies l = meta"
    and meta: "meta \<noteq> [] \<longrightarrow> (\<exists>chunks k. deterministic_chunks (co_extern co) acct (co_machine co) ?b = Inr chunks
      \<and> meta = take k (map fst chunks))"
    by blast
  have "\<exists>ms rest. delivers co d w1 ms rest w'"
  proof (cases "\<exists>out. r1 = Inr out \<and> \<not> cancelled out")
    case False
    then have "w' = w1" unfolding w'_def by (cases r1) (auto simp: report_account_def r1)
    then show ?thesis using delivers_refl ok st1 by metis
  next
    case True
    then obtain out where out: "r1 = Inr out" "\<not> cancelled out" by blast
    show ?thesis
    proof (cases "load_reporter_cursor d (w_store w1)")
      case (Inl e)
      then have "w' = w1" unfolding w'_def using out by (auto simp: report_account_def r1 run_store_def d_def)
      then show ?thesis using delivers_refl ok st1 by metis
    next
      case (Inr a)
      obtain c st' where a: "a = (c, st')" by fastforce
      note ld = Inr [unfolded a]
      let ?w2 = "w1\<lparr>w_store := st'\<rparr>"
      have ok2: "reporter_ok (co_docs co) (w_store ?w2)" using load_step [OF _ ld] ok st1 by simp
      have "delivers co d w1 [] [] ?w2"
        using ok ok2 st1 load_cursor_stored [OF ld] by (intro delivers_store) simp_all
      moreover obtain ms rest where "delivers co d ?w2 ms rest (snd (report_streams co acct c out ?w2))"
        using report_streams_delivers [OF ok2, of c acct out] load_cursor_stored [OF ld] unfolding d_def by auto
      moreover have "w' = snd (report_streams co acct c out ?w2)"
        unfolding w'_def using out ld by (simp add: report_account_def r1 run_store_def d_def)
      ultimately show ?thesis using delivers_trans by metis
    qed
  qed
  then obtain ms rest l' where d: "w_log w' = w_log w1 @ l'" "acked_bodies l' = concat (map move_bodies ms) @ rest"
    "reporter_ok (co_docs co) (w_store w')" "move_chain (stored_cursor d (w_store w)) ms (stored_cursor d (w_store w'))"
    "rest \<noteq> [] \<longrightarrow> (\<exists>p \<in> set (reporter_pending (w_store w')). pending_dest p = d
       \<and> (\<exists>k. rest = take k (page_bodies (pend_draft p))))"
    unfolding delivers_def st1 by blast
  have "w_log w' = w_log w @ (l @ l') \<and> acked_bodies (l @ l') = meta @ concat (map move_bodies ms) @ rest"
    using l d(1,2) by simp
  then show ?thesis using d(3-5) meta by blast
qed

text \<open>
  C6. A cursor moves only over acknowledged pages: whatever the transport answers and wherever a
  report of an account stops, the stored cursor of the destination has made a chain of moves, each
  from where the last one ended, over pages all of whose documents a receiver acknowledged in this
  run, in the order of the moves. What else was acknowledged is first a prefix of the metadata and at
  last a prefix of the one page that is still in the outbox.
\<close>

theorem cursor_moves_over_acknowledged_pages:
  assumes "reporter_ok (co_docs co) (w_store w)"
  shows "\<exists>ms rest meta l. w_log (snd (report_account co acct w)) = w_log w @ l
    \<and> acked_bodies l = meta @ concat (map move_bodies ms) @ rest
    \<and> move_chain (stored_cursor (co_dest co acct) (w_store w)) ms
        (stored_cursor (co_dest co acct) (w_store (snd (report_account co acct w))))
    \<and> reporter_ok (co_docs co) (w_store (snd (report_account co acct w)))
    \<and> (rest \<noteq> [] \<longrightarrow> (\<exists>p \<in> set (reporter_pending (w_store (snd (report_account co acct w)))).
         pending_dest p = co_dest co acct \<and> (\<exists>k. rest = take k (page_bodies (pend_draft p)))))
    \<and> (meta \<noteq> [] \<longrightarrow> (\<exists>chunks k. deterministic_chunks (co_extern co) acct (co_machine co)
          (assemble_metadata co acct (w_store w)) = Inr chunks \<and> meta = take k (map fst chunks)))"
  by (rule report_account_delivers [OF assms])

text \<open>A machine that reports to a hub which accepts the second request, and a page in its outbox.\<close>

definition example_coordinator :: coordinator where
  "example_coordinator =
     \<lparr>co_env = example_env, co_backoff = default_backoff, co_secrets = (\<lambda>_. example_secrets),
      co_extern = example_chunks example_docs, co_machine = ''host'', co_destination = ''hub'', co_stop = (\<lambda>_. False)\<rparr>"

definition example_world :: "pending_row list \<Rightarrow> coord_world" where
  "example_world ps = \<lparr>w_store = reporter_example_store ps, w_next = 0, w_log = []\<rparr>"

lemma example_world_ok: "reporter_ok (co_docs example_coordinator) (w_store (example_world [example_page]))"
  using reporter_steps_ok [OF example_steps example_reporter_ok]
  by (simp add: co_docs_def example_coordinator_def example_chunks_def example_world_def)

theorem cursor_moves_over_acknowledged_pages_witness:
  "\<exists>ms rest meta. acked_bodies (w_log (snd (report_account example_coordinator 1 (example_world [example_page]))))
      = meta @ concat (map move_bodies ms) @ rest
    \<and> move_chain initial_cursor ms (stored_cursor (1, ''host'', ''hub'')
        (w_store (snd (report_account example_coordinator 1 (example_world [example_page])))))"
proof -
  have d: "co_dest example_coordinator 1 = (1, ''host'', ''hub'')" by (simp add: co_dest_def example_coordinator_def)
  have c: "stored_cursor (1, ''host'', ''hub'') (w_store (example_world [example_page])) = initial_cursor"
    by (simp add: stored_cursor_def example_world_def example_cursor)
  have l: "w_log (example_world [example_page]) = []" by (simp add: example_world_def)
  show ?thesis
    using cursor_moves_over_acknowledged_pages [OF example_world_ok, of 1] unfolding d c l append_Nil by blast
qed

section \<open>Catching up\<close>

text \<open>A run in which every request is accepted, nothing is cancelled, and the credentials resolve.\<close>

definition all_accepted :: "coordinator \<Rightarrow> bool" where
  "all_accepted co \<longleftrightarrow>
     (\<forall>n. success_status (env_send (co_env co) n) \<and> \<not> env_stop (co_env co) n
        \<and> resolve_secrets (co_secrets co n) = Inr ())"

lemma report_loop_accepted:
  assumes "\<And>n. success_status (env_send env n)" and "\<And>n. \<not> env_stop env n"
  shows "report_loop env bk chunks n out =
    (Inr (out\<lparr>chunks_sent := chunks_sent out + length chunks, rows_sent := rows_sent out + sum_list (map snd chunks)\<rparr>),
     n + length chunks, map (\<lambda>c. Sent (fst c) True) chunks)"
proof (induction chunks arbitrary: n out)
  case Nil
  then show ?case by simp
next
  case (Cons c chunks)
  obtain doc rows where c: "c = (doc, rows)" by fastforce
  have "send_chunk env bk doc 0 n = (Delivered, n + 1, [Sent doc True])"
    using assms(1) by (simp add: send_chunk.simps [of env bk doc 0 n] Let_def)
  then show ?case using assms(2) by (simp add: c Cons.IH add.assoc)
qed

lemma send_documents_accepted:
  assumes "all_accepted co"
  shows "\<exists>out w1. send_documents co chunks w = (Inr out, w1) \<and> w_store w1 = w_store w \<and> \<not> cancelled out"
  using assms
  by (simp add: all_accepted_def send_documents_def report_chunks_def report_loop_accepted no_outcome_def)

lemma send_page_accepted:
  assumes acc: "all_accepted co" and ok: "reporter_ok (co_docs co) (w_store w)"
    and p: "p \<in> set (reporter_pending (w_store w))"
  shows "\<exists>out' w1. send_page co (pending_dest p) (draft_kind (pend_draft p)) p (draft_expected (pend_draft p)) out w
      = (Inr (True, draft_next (pend_draft p), out'), w1)
    \<and> cancelled out' = cancelled out
    \<and> commit_reporter_pending (co_docs co) (pending_dest p) (draft_kind (pend_draft p)) (pend_id p) (w_store w)
        = Inr (draft_next (pend_draft p), w_store w1)"
proof -
  obtain st' where c: "commit_reporter_pending (co_docs co) (pending_dest p) (draft_kind (pend_draft p)) (pend_id p) (w_store w)
      = Inr (draft_next (pend_draft p), st')"
    using page_commits [OF ok p] by blast
  obtain sent w1 where s: "send_documents co (map (\<lambda>c. (chunk_body c, chunk_rows c)) (draft_chunks (pend_draft p))) w
      = (Inr sent, w1)" "w_store w1 = w_store w" "\<not> cancelled sent"
    using send_documents_accepted [OF acc] by blast
  show ?thesis
    using c s(2,3)
    by (simp add: send_page_def ensure_pending_expected_def report_pending_page_def s(1) run_store_def add_outcome_def)
qed

text \<open>The local rows of the usage stream after a cursor, and what a page of them needs.\<close>

definition rows_after :: "int \<Rightarrow> string \<Rightarrow> int \<Rightarrow> store \<Rightarrow> snapshot_row list" where
  "rows_after acct mach after st =
     sort_key snap_id (filter (\<lambda>r. snap_account (snapshot r) = acct \<and> snap_machine (snapshot r) = mach \<and> snap_id r > after)
       (usage_snapshots st))"

definition usage_drafts_ok :: "coordinator \<Rightarrow> int \<Rightarrow> snapshot_row list \<Rightarrow> bool" where
  "usage_drafts_ok co acct snaps \<longleftrightarrow>
     (\<forall>state rows. rows \<noteq> [] \<and> distinct rows \<and> set rows \<subseteq> set snaps \<and> length rows \<le> coordinator_page_rows
        \<and> 0 \<le> usage_after_id state \<and> usage_after_id state < snap_id (last rows) \<longrightarrow>
        is_ok (reporter_pending_draft (co_extern co) acct (co_machine co) UsageStream state
          (state\<lparr>usage_after_id := snap_id (last rows)\<rparr>) (empty_batch\<lparr>push_snapshots := map snapshot rows\<rparr>)))"

lemma rows_after_page:
  assumes d: "distinct (map snap_id (usage_snapshots st))" and ne: "take m (rows_after acct mach after st) \<noteq> []"
  shows "rows_after acct mach (snap_id (last (take m (rows_after acct mach after st)))) st
      = drop m (rows_after acct mach after st)
    \<and> after < snap_id (last (take m (rows_after acct mach after st)))"
proof -
  let ?P = "\<lambda>r. snap_account (snapshot r) = acct \<and> snap_machine (snapshot r) = mach"
  let ?R = "rows_after acct mach after st" and ?n = "length (take m (rows_after acct mach after st)) - 1"
  have n: "?n < length ?R" using ne by (cases ?R) auto
  have "?n < m" using ne by (cases ?R) auto
  then have lst: "last (take m ?R) = ?R ! ?n" using ne n by (simp add: last_conv_nth)
  have srt: "sorted (map snap_id ?R)" by (simp add: rows_after_def)
  have dst: "distinct (map snap_id ?R)"
    using d by (simp add: rows_after_def distinct_map_filter distinct_map) (auto intro: inj_on_subset)
  have "?R ! ?n \<in> set ?R" using n by simp
  then have gt: "after < snap_id (?R ! ?n)" by (auto simp: rows_after_def)
  have "rows_after acct mach (snap_id (?R ! ?n)) st = filter (\<lambda>r. snap_id (?R ! ?n) < snap_id r) ?R"
    using gt by (auto simp: rows_after_def filter_sort conj_ac intro!: arg_cong [where f = "sort_key snap_id"] filter_cong)
  also have "\<dots> = drop (Suc ?n) ?R" by (rule filter_after_nth [OF srt dst n])
  also have "Suc ?n = min m (length ?R)" using ne by (auto simp: min_def Suc_diff_1)
  also have "drop (min m (length ?R)) ?R = drop m ?R" by (simp add: min_def)
  finally show ?thesis using lst gt by simp
qed

lemma local_usage_page:
  "local_reporter_usage_page acct mach after coordinator_page_rows st =
     (if after < 0 then Inl (invalid_input ''Pulse reporter usage cursor is invalid'')
      else Inr (take coordinator_page_rows (rows_after acct mach after st)))"
  by (simp add: local_reporter_usage_page_def query_limit_def coordinator_page_rows_def select_ordered_def rows_after_def)

text \<open>
  The state of the usage loop: idle, at the stored cursor, which has a row, with the snapshots
  unchanged.
\<close>

definition usage_ready :: "coordinator \<Rightarrow> int \<Rightarrow> snapshot_row list \<Rightarrow> reporter_cursor \<Rightarrow> coord_world \<Rightarrow> bool" where
  "usage_ready co acct snaps state w \<longleftrightarrow>
     reporter_ok (co_docs co) (w_store w) \<and> idle (co_dest co acct) (w_store w)
     \<and> map_option cur_state (find_cursor (co_dest co acct) (w_store w)) = Some state
     \<and> validate_reporter_destination (co_destination co) = Inr ()
     \<and> usage_snapshots (w_store w) = snaps \<and> distinct (map snap_id snaps) \<and> 0 \<le> usage_after_id state"

lemma load_idle:
  assumes "idle d st" and "validate_reporter_destination (snd (snd d)) = Inr ()"
  shows "load_reporter_pending x d k st = Inr None"
proof -
  have "find (is_pending d k) (reporter_pending st) = None"
    using assms(1) by (auto simp: find_None_iff is_pending_def idle_def exists_where_def)
  then show ?thesis using assms(2) by (simp add: load_reporter_pending_def load_sqlite_reporter_pending_def)
qed

lemma prepare_idle:
  assumes ok: "reporter_ok x st" and i: "idle d st" and c: "map_option cur_state (find_cursor d st) = Some (draft_expected draft)"
    and v: "validate_reporter_destination (snd (snd d)) = Inr ()" "draft_validate x (fst d) (fst (snd d)) draft = Inr ()"
  shows "\<exists>p st'. prepare_reporter_pending x d draft st = Inr (p, st') \<and> pend_draft p = draft"
proof -
  obtain a m t where d: "d = (a, m, t)" by (cases d)
  have n: "find (is_pending d k) (reporter_pending st) = None" for k
    using i by (auto simp: find_None_iff is_pending_def idle_def exists_where_def)
  have l: "load_sqlite_reporter_pending x d k st = Inr None" for k
    by (simp add: load_sqlite_reporter_pending_def n)
  have e: "\<not> exists_where (\<lambda>r. pending_dest r = d \<and> draft_kind (pend_draft r) \<noteq> draft_kind draft) (reporter_pending st)"
    using i by (auto simp: idle_def exists_where_def)
  let ?row = "\<lparr>pend_id = last_pending_id st + 1, pend_account = a, pend_machine = m, pend_destination = t, pend_draft = draft\<rparr>"
  have r: "is_pending d (draft_kind draft) ?row" by (simp add: is_pending_def pending_dest_def d)
  obtain r' where "find_cursor d st = Some r'" "cur_state r' = draft_expected draft" using c by auto
  then show ?thesis
    using v l e n r
    by (simp add: prepare_reporter_pending_def insert_sqlite_reporter_pending_def d Let_def load_sqlite_reporter_pending_def
        find_append)
qed

lemma usage_page_is_prepared:
  assumes r: "usage_ready co acct snaps state w" and dr: "usage_drafts_ok co acct snaps"
    and ne: "rows_after acct (co_machine co) (usage_after_id state) (w_store w) \<noteq> []"
  defines "rows \<equiv> take coordinator_page_rows (rows_after acct (co_machine co) (usage_after_id state) (w_store w))"
  shows "\<exists>p w1. next_usage_page co acct state w = (Inr (Some p, state), w1)
    \<and> p \<in> set (reporter_pending (w_store w1)) \<and> pending_dest p = co_dest co acct
    \<and> draft_kind (pend_draft p) = UsageStream \<and> draft_expected (pend_draft p) = state
    \<and> draft_next (pend_draft p) = state\<lparr>usage_after_id := snap_id (last rows)\<rparr>
    \<and> reporter_ok (co_docs co) (w_store w1) \<and> usage_snapshots (w_store w1) = snaps"
proof -
  let ?d = "co_dest co acct"
  have d: "fst ?d = acct" "fst (snd ?d) = co_machine co" "snd (snd ?d) = co_destination co" by (simp_all add: co_dest_def)
  note r' = r [unfolded usage_ready_def]
  have rows: "rows \<noteq> []" using ne by (simp add: rows_def coordinator_page_rows_def)
  then obtain x xs where xs: "rows = x # xs" by (cases rows) auto
  have pg: "local_reporter_usage_page acct (co_machine co) (usage_after_id state) coordinator_page_rows (w_store w) = Inr (x # xs)"
    using r' by (simp add: local_usage_page rows_def [symmetric] xs)
  have "set rows \<subseteq> set snaps" "distinct rows" "length rows \<le> coordinator_page_rows" "usage_after_id state < snap_id (last rows)"
    using r' rows_after_page [of "w_store w" coordinator_page_rows acct "co_machine co" "usage_after_id state"] rows
    by (auto simp: rows_def rows_after_def distinct_map dest: in_set_takeD)
  then obtain draft where draft: "reporter_pending_draft (co_extern co) acct (co_machine co) UsageStream state
      (state\<lparr>usage_after_id := snap_id (last rows)\<rparr>) (empty_batch\<lparr>push_snapshots := map snapshot rows\<rparr>) = Inr draft"
    using dr r' rows unfolding usage_drafts_ok_def is_ok_iff by blast
  then have dd: "draft_kind draft = UsageStream" "draft_expected draft = state"
    "draft_next draft = state\<lparr>usage_after_id := snap_id (last rows)\<rparr>"
    "draft_validate (co_docs co) acct (co_machine co) draft = Inr ()"
    by (auto simp: reporter_pending_draft_def result_simps Let_def co_docs_def)
  obtain p st' where prep: "prepare_reporter_pending (co_docs co) ?d draft (w_store w) = Inr (p, st')" "pend_draft p = draft"
    using prepare_idle [of "co_docs co" "w_store w" ?d draft] r' dd d by auto
  have "load_reporter_pending (co_docs co) ?d UsageStream (w_store w) = Inr None"
    using r' d by (simp add: load_idle)
  then have "next_usage_page co acct state w = (Inr (Some p, state), w\<lparr>w_store := st'\<rparr>)"
    using pg draft prep(1) by (simp add: next_usage_page_def xs run_store_def)
  moreover have "p \<in> set (reporter_pending st') \<and> pending_dest p = ?d \<and> usage_snapshots st' = usage_snapshots (w_store w)"
    using prep(1)
  proof (cases rule: prepare_cases)
    case existing
    then show ?thesis using find_Some_mem [OF existing(2)] by (simp add: is_pending_def)
  next
    case (new c)
    show ?thesis unfolding new(8) by simp (simp add: new(7) pending_dest_def)
  qed
  moreover have "reporter_ok (co_docs co) st'" using prepare_step [OF _ prep(1)] r' by blast
  ultimately show ?thesis using dd prep(2) r' by simp
qed

lemma usage_turn:
  assumes acc: "all_accepted co" and r: "usage_ready co acct snaps state w" and dr: "usage_drafts_ok co acct snaps"
    and ne: "rows_after acct (co_machine co) (usage_after_id state) (w_store w) \<noteq> []"
  shows "\<exists>p w1 state' out' w2. next_usage_page co acct state w = (Inr (Some p, state), w1)
    \<and> send_page co (co_dest co acct) UsageStream p state out w1 = (Inr (True, state', out'), w2)
    \<and> usage_ready co acct snaps state' w2 \<and> cancelled out' = cancelled out
    \<and> rows_after acct (co_machine co) (usage_after_id state') (w_store w2)
        = drop coordinator_page_rows (rows_after acct (co_machine co) (usage_after_id state) (w_store w))"
proof -
  let ?R = "rows_after acct (co_machine co) (usage_after_id state) (w_store w)"
  let ?rows = "take coordinator_page_rows ?R"
  obtain p w1 where n: "next_usage_page co acct state w = (Inr (Some p, state), w1)"
    and p: "p \<in> set (reporter_pending (w_store w1))" "pending_dest p = co_dest co acct"
    "draft_kind (pend_draft p) = UsageStream" "draft_expected (pend_draft p) = state"
    "draft_next (pend_draft p) = state\<lparr>usage_after_id := snap_id (last ?rows)\<rparr>"
    and ok: "reporter_ok (co_docs co) (w_store w1)" and sn: "usage_snapshots (w_store w1) = snaps"
    using usage_page_is_prepared [OF r dr ne] by blast
  obtain out' w2 where s: "send_page co (co_dest co acct) UsageStream p state out w1
      = (Inr (True, draft_next (pend_draft p), out'), w2)" "cancelled out' = cancelled out"
    and c: "commit_reporter_pending (co_docs co) (co_dest co acct) UsageStream (pend_id p) (w_store w1)
      = Inr (draft_next (pend_draft p), w_store w2)"
    using send_page_accepted [OF acc ok p(1), unfolded p(2-4)] by blast
  note cm = commit_moves [OF ok p(1) c] and cs = commit_step [OF ok c]
  obtain q where "map_option cur_state (find_cursor (co_dest co acct) (w_store w2)) = Some (draft_next (pend_draft q))"
    "q \<in> set (reporter_pending (w_store w1))" "pend_id q = pend_id p"
    using cs by blast
  then have cur: "map_option cur_state (find_cursor (co_dest co acct) (w_store w2)) = Some (draft_next (pend_draft p))"
    using pending_unique(1) [OF ok _ p(1)] by metis
  have sn2: "usage_snapshots (w_store w2) = snaps"
    using c
  proof (cases rule: commit_cases)
    case (1 q r)
    show ?thesis unfolding 1(7) by (simp add: set_cursor_def sn)
  qed
  note r' = r [unfolded usage_ready_def]
  have page: "rows_after acct (co_machine co) (snap_id (last ?rows)) (w_store w) = drop coordinator_page_rows ?R"
    "usage_after_id state < snap_id (last ?rows)"
    using rows_after_page [of "w_store w" coordinator_page_rows acct "co_machine co" "usage_after_id state"] r' ne
    by (auto simp: coordinator_page_rows_def)
  have "rows_after acct (co_machine co) i (w_store w2) = rows_after acct (co_machine co) i (w_store w)" for i
    using r' sn2 by (simp add: rows_after_def)
  then have "rows_after acct (co_machine co) (usage_after_id (draft_next (pend_draft p))) (w_store w2)
      = drop coordinator_page_rows ?R"
    using page(1) by (simp add: p(5))
  moreover have "usage_ready co acct snaps (draft_next (pend_draft p)) w2"
    unfolding usage_ready_def using cm cur sn2 r' page(2) by (simp add: p(5))
  ultimately show ?thesis using n s by blast
qed

lemma usage_pages_catch_up:
  assumes acc: "all_accepted co" and dr: "usage_drafts_ok co acct snaps" and r: "usage_ready co acct snaps state w"
  shows "\<exists>state' out' w'. report_pages (next_usage_page co acct) co (co_dest co acct) UsageStream turns state out w
      = (Inr (state', out'), w')
    \<and> cancelled out' = cancelled out \<and> usage_ready co acct snaps state' w'
    \<and> rows_after acct (co_machine co) (usage_after_id state') (w_store w')
        = drop (turns * coordinator_page_rows) (rows_after acct (co_machine co) (usage_after_id state) (w_store w))"
  using r
proof (induction turns arbitrary: state out w)
  case 0
  then show ?case by simp
next
  case (Suc turns)
  let ?R = "rows_after acct (co_machine co) (usage_after_id state) (w_store w)"
  show ?case
  proof (cases "?R = []")
    case True
    have d: "fst (co_dest co acct) = acct" "snd (snd (co_dest co acct)) = co_destination co" by (simp_all add: co_dest_def)
    note r' = Suc.prems [unfolded usage_ready_def]
    have "load_reporter_pending (co_docs co) (co_dest co acct) UsageStream (w_store w) = Inr None"
      using r' d by (simp add: load_idle)
    then have "next_usage_page co acct state w = (Inr (None, state), w)"
      using r' by (simp add: next_usage_page_def local_usage_page True)
    then show ?thesis using Suc.prems by (simp add: True)
  next
    case False
    obtain p w1 state1 out1 w2 where t: "next_usage_page co acct state w = (Inr (Some p, state), w1)"
      "send_page co (co_dest co acct) UsageStream p state out w1 = (Inr (True, state1, out1), w2)"
      "usage_ready co acct snaps state1 w2" "cancelled out1 = cancelled out"
      "rows_after acct (co_machine co) (usage_after_id state1) (w_store w2) = drop coordinator_page_rows ?R"
      using usage_turn [OF acc Suc.prems dr False] by blast
    from Suc.IH [OF t(3), of out1] show ?thesis by (simp add: t add.commute)
  qed
qed

text \<open>
  C39. The reporter catches up: when every request is accepted and every page of local snapshots can be
  encoded, a usage run that starts idle ends without an error, leaves the destination idle at its
  stored cursor, and has advanced over the first 16000 snapshots after the old cursor, or over all of
  them if there are fewer.
\<close>

theorem reporter_catches_up:
  assumes "all_accepted co" and "usage_drafts_ok co acct snaps" and "usage_ready co acct snaps state w"
  shows "\<exists>state' out' w'. report_usage_pages co acct state out w = (Inr (state', out'), w')
    \<and> cancelled out' = cancelled out \<and> usage_ready co acct snaps state' w'
    \<and> rows_after acct (co_machine co) (usage_after_id state') (w_store w')
        = drop 16000 (rows_after acct (co_machine co) (usage_after_id state) (w_store w))"
  using usage_pages_catch_up [OF assms, of max_pages_per_kind out]
  by (simp add: report_usage_pages_def max_pages_per_kind_def coordinator_page_rows_def)

definition accepting_coordinator :: coordinator where
  "accepting_coordinator = example_coordinator\<lparr>co_env :=
     \<lparr>env_send = (\<lambda>_. Inr \<lparr>resp_status = 202, resp_retry_after = None\<rparr>), env_entropy = (\<lambda>_. 0),
      env_wait_cancelled = (\<lambda>_. False), env_stop = (\<lambda>_. False)\<rparr>\<rparr>"

lemma accepting_facts:
  "co_extern accepting_coordinator = example_chunks example_docs" "co_machine accepting_coordinator = ''host''"
  "co_docs accepting_coordinator = example_docs" "co_destination accepting_coordinator = ''hub''"
  "co_dest accepting_coordinator 1 = (1, ''host'', ''hub'')"
  by (simp_all add: accepting_coordinator_def example_coordinator_def co_docs_def co_dest_def example_chunks_def)

lemma accepting_all: "all_accepted accepting_coordinator"
  by (simp add: all_accepted_def accepting_coordinator_def example_coordinator_def success_status_def
      resolve_secrets_def example_secrets_def)

lemma example_draft_from:
  assumes "0 \<le> usage_after_id state" and "usage_after_id state < 5"
  shows "is_ok (reporter_pending_draft (example_chunks example_docs) 1 ''host'' UsageStream state
    (state\<lparr>usage_after_id := 5\<rparr>) example_push_rows)"
proof -
  let ?chunk = "\<lparr>chunk_request = ''push-'', chunk_body = ''doc'', chunk_rows = Suc 0\<rparr>"
  let ?new = "state\<lparr>usage_after_id := 5\<rparr>"
  have d: "chunk_docs (example_chunks example_docs) = example_docs"
    "identity_json (example_chunks example_docs) = (\<lambda>_ _ _ _ _ _ _. Some [])"
    "sha256_bytes (example_chunks example_docs) = (\<lambda>_. [])"
    by (simp_all add: example_chunks_def)
  have p: "doc_parse example_docs ''doc'' = Some example_envelope" by (simp add: example_docs_def)
  have u: "example_envelope\<lparr>push_request := ''push-''\<rparr> = example_envelope" by (simp add: example_envelope_def)
  have pc: "pending_chunk_of (example_chunks example_docs) 1 ''host'' UsageStream state ?new (0, (''doc'', Suc 0)) = Inr ?chunk"
    by (simp add: pending_chunk_of_def d p pending_request_id_def content_request_id_def u example_encode_envelope)
  have ch: "check_chunk example_docs 1 ''host'' UsageStream ?chunk 0 = Inr 3"
    by (simp add: check_chunk_def p example_encode_envelope Let_def max_push_body_def max_pending_bytes_def)
      (simp add: example_envelope_def push_row_count_def kind_matches_def)
  have tr: "validate_reporter_transition state ?new = Inr ()"
    using assms by (simp add: validate_reporter_transition_def Let_def split: option.split)
  show ?thesis
    using assms pc ch
    by (simp add: reporter_pending_draft_def example_page_chunks Let_def d draft_validate_def tr stream_matches_def
        max_pending_chunks_def)
qed

theorem reporter_catches_up_witness:
  "\<exists>state' out' w'. report_usage_pages accepting_coordinator 1 initial_cursor no_outcome (example_world [])
      = (Inr (state', out'), w')
    \<and> rows_after 1 ''host'' (usage_after_id state') (w_store w') = []"
proof -
  let ?row = "\<lparr>snap_id = 5, snapshot = example_snapshot\<rparr>"
  have sn: "usage_snapshots (w_store (example_world [])) = [?row]"
    by (simp add: example_world_def reporter_example_store_def)
  have dr: "usage_drafts_ok accepting_coordinator 1 [?row]"
    unfolding usage_drafts_ok_def
  proof (intro allI impI, elim conjE)
    fix state :: reporter_cursor and rows :: "snapshot_row list"
    assume a: "rows \<noteq> []" "distinct rows" "set rows \<subseteq> set [?row]" "0 \<le> usage_after_id state"
      "usage_after_id state < snap_id (last rows)"
    obtain x xs where xs: "rows = x # xs" using a(1) by (cases rows) auto
    then have "xs = []" using a(2,3) by (cases xs) auto
    then have rows: "rows = [?row]" using xs a(3) by simp
    show "is_ok (reporter_pending_draft (co_extern accepting_coordinator) 1 (co_machine accepting_coordinator) UsageStream
        state (state\<lparr>usage_after_id := snap_id (last rows)\<rparr>) (empty_batch\<lparr>push_snapshots := map snapshot rows\<rparr>))"
      using example_draft_from [of state] a(4,5) by (simp add: rows accepting_facts example_push_rows_def)
  qed
  have ready: "usage_ready accepting_coordinator 1 [?row] initial_cursor (example_world [])"
    using example_reporter_ok example_cursor [of "[]"] sn
    by (simp add: usage_ready_def accepting_facts example_world_def idle_def exists_where_def example_page_facts
        example_destination initial_cursor_def)
  have "length (rows_after 1 ''host'' (usage_after_id initial_cursor) (w_store (example_world []))) \<le> 16000"
    by (simp add: rows_after_def sn)
  then show ?thesis
    using reporter_catches_up [OF accepting_all dr ready, of no_outcome] by (auto simp: accepting_facts)
qed

end
