(* ===== verification/Federation_Store.thy ===== *)
theory Federation_Store
  imports Reporter_Store
begin

text \<open>
  Pull federation: the records of \<open>src/src/pulse/federation.rs\<close> and the operations of
  \<open>src/src/pulse/store/sqlite.rs\<close> that apply the pages of a peer and export the local rows.
  JSON encoding and SHA-256 are parameters.
\<close>

section \<open>Records\<close>

definition federation_version :: nat where "federation_version = 2"
definition max_page_rows :: nat where "max_page_rows = 500"
definition max_cursor_bytes :: nat where "max_cursor_bytes = 2048"
definition max_origin_hops :: nat where "max_origin_hops = 8"

definition opaque_cursor_new :: "string \<Rightarrow> string pulse_result" where
  "opaque_cursor_new v =
     (if v = [] \<or> length v > max_cursor_bytes
         \<or> \<not> list_all (\<lambda>c. is_ascii_alphanumeric c \<or> c \<in> {CHR ''-'', CHR ''_'', CHR ''.'', CHR ''~''}) v
      then Inl (invalid_input ''Pulse federation cursor is not bounded URL-safe text'') else Inr v)"

record pulse_origin =
  origin_machine :: string
  origin_path :: "string list"

definition origin_local :: "string \<Rightarrow> pulse_origin" where
  "origin_local mach = \<lparr>origin_machine = mach, origin_path = [mach]\<rparr>"

definition validate_direct :: "pulse_origin \<Rightarrow> string \<Rightarrow> unit pulse_result" where
  "validate_direct og expected =
     (if length (origin_path og) \<noteq> 1 \<or> length (origin_path og) > max_origin_hops
         \<or> origin_machine og \<noteq> expected \<or> (case origin_path og of [] \<Rightarrow> True | m # _ \<Rightarrow> m \<noteq> expected)
      then Inl (new_error Conflict ''a Pulse peer attempted to re-export mirrored data'') else Inr ())"

datatype federated_row =
    FedMachine machine
  | FedProfile profile
  | FedUsage usage_snapshot
  | FedContext context_session
  | FedToken token_grain

fun fed_account :: "federated_row \<Rightarrow> int" where
  "fed_account (FedMachine m) = mach_account m"
| "fed_account (FedProfile p) = prof_account p"
| "fed_account (FedUsage s) = snap_account s"
| "fed_account (FedContext c) = ctx_account c"
| "fed_account (FedToken g) = tok_account g"

record federated_record =
  rec_key :: string
  rec_origin :: pulse_origin
  rec_row :: federated_row

definition origin_mismatch :: pulse_error where
  "origin_mismatch = new_error Conflict ''Pulse federation row machine did not match its authenticated origin''"

definition key_byte :: "char \<Rightarrow> bool" where
  "key_byte c \<longleftrightarrow> is_ascii_alphanumeric c \<or> c \<in> {CHR ''-'', CHR ''_'', CHR ''.'', CHR '':'', CHR ''/''}"

definition row_validate :: "bool \<Rightarrow> string \<Rightarrow> federated_row \<Rightarrow> unit pulse_result" where
  "row_validate on_macos expected row =
     (case row of
        FedMachine m \<Rightarrow> if mach_name m \<noteq> expected then Inl origin_mismatch else Inr ()
      | FedProfile p \<Rightarrow>
          if origin p \<noteq> Reported \<or> \<not> is_ok (profile_validate on_macos p)
          then Inl (new_error Conflict ''Pulse federation profile exposed local-only metadata'') else Inr ()
      | FedUsage s \<Rightarrow> if snap_machine s \<noteq> expected then Inl origin_mismatch else Inr ()
      | FedContext c \<Rightarrow> if ctx_machine c \<noteq> expected then Inl origin_mismatch else Inr ()
      | FedToken g \<Rightarrow> if tok_machine g \<noteq> expected then Inl origin_mismatch else Inr ())"

definition record_validate :: "bool \<Rightarrow> int \<Rightarrow> string \<Rightarrow> federated_record \<Rightarrow> unit pulse_result" where
  "record_validate on_macos acct expected r =
     (if rec_key r = [] \<or> length (rec_key r) > 192 \<or> \<not> list_all key_byte (rec_key r)
      then Inl (invalid_input ''Pulse federation record key is invalid'')
      else and_then (validate_direct (rec_origin r) expected) (\<lambda>_.
        if fed_account (rec_row r) \<noteq> acct
        then Inl (new_error Conflict ''Pulse federation row crossed its requested account boundary'')
        else row_validate on_macos expected (rec_row r)))"

fun apply_priority :: "federated_row \<Rightarrow> nat" where
  "apply_priority (FedMachine _) = 0"
| "apply_priority (FedProfile _) = 1"
| "apply_priority (FedUsage _) = 2"
| "apply_priority (FedContext _) = 3"
| "apply_priority (FedToken _) = 4"

text \<open>The libraries: JSON of a row and of a position, SHA-256 as lowercase hexadecimal, and URL-safe base64.\<close>

record export_position =
  phase :: nat
  position_values :: "string list"

record fed_extern =
  row_json :: "federated_row \<Rightarrow> string option"
  position_json :: "export_position \<Rightarrow> string option"
  sha256_hex :: "string \<Rightarrow> string"
  position_parse :: "string \<Rightarrow> export_position option"
  b64_encode :: "string \<Rightarrow> string"
  b64_decode :: "string \<Rightarrow> string option"

definition record_fingerprint :: "fed_extern \<Rightarrow> federated_row \<Rightarrow> string pulse_result" where
  "record_fingerprint fx row =
     map_ok (sha256_hex fx)
       (ok_or (new_error Internal ''Pulse federation row could not be fingerprinted'') (row_json fx row))"

section \<open>Peers\<close>

record federation_state =
  fed_cursor :: "string option"
  fed_generation :: nat
  fed_pages :: nat
  fed_records :: nat
  fed_complete :: bool

definition is_peer :: "int \<Rightarrow> string \<Rightarrow> peer_row \<Rightarrow> bool" where
  "is_peer acct mach r \<longleftrightarrow> peer_account r = acct \<and> peer_machine r = mach"

definition load_federation_state :: "int \<Rightarrow> string \<Rightarrow> store \<Rightarrow> federation_state pulse_result" where
  "load_federation_state acct mach st =
     (case find (is_peer acct mach) (federation_peers st) of
        None \<Rightarrow> Inl (new_error Storage ''Pulse SQLite operation failed'')
      | Some r \<Rightarrow>
          and_then (case peer_cursor r of None \<Rightarrow> Inr None | Some c \<Rightarrow> map_ok Some (opaque_cursor_new c)) (\<lambda>c.
            Inr \<lparr>fed_cursor = c, fed_generation = peer_generation r, fed_pages = pages_applied r,
                 fed_records = records_applied r, fed_complete = peer_complete r\<rparr>))"

definition new_peer :: "int \<Rightarrow> string \<Rightarrow> peer_row" where
  "new_peer acct mach =
     \<lparr>peer_account = acct, peer_machine = mach, peer_cursor = None, peer_generation = 0, pages_applied = 0,
      records_applied = 0, peer_complete = False\<rparr>"

text \<open>The counters of a peer are bounded by the pages that were ever applied and stay far below \<open>i64::MAX\<close>.\<close>

definition begin_federation_sync :: "int \<Rightarrow> string \<Rightarrow> federation_state store_op" where
  "begin_federation_sync acct mach st =
     (if \<not> account_exists acct st \<and> \<not> exists_where (is_peer acct mach) (federation_peers st)
      then Inl constraint_violation
      else let st1 = (if exists_where (is_peer acct mach) (federation_peers st) then st
                      else st\<lparr>federation_peers := federation_peers st @ [new_peer acct mach]\<rparr>)
           in and_then (load_federation_state acct mach st1) (\<lambda>s.
                if fed_complete s
                then Inr (s\<lparr>fed_cursor := None, fed_generation := fed_generation s + 1, fed_complete := False\<rparr>,
                  st1\<lparr>federation_peers := update_where (is_peer acct mach)
                     (\<lambda>r. r\<lparr>peer_cursor := None, peer_generation := peer_generation r + 1, peer_complete := False\<rparr>)
                     (federation_peers st1)\<rparr>)
                else Inr (s, st1)))"

section \<open>Applying a page\<close>

fun check_records :: "bool \<Rightarrow> int \<Rightarrow> string \<Rightarrow> federated_record list \<Rightarrow> string set \<Rightarrow> unit pulse_result" where
  "check_records on_macos acct mach [] seen = Inr ()"
| "check_records on_macos acct mach (r # rs) seen =
     and_then (record_validate on_macos acct mach r) (\<lambda>_.
       if rec_key r \<in> seen
       then Inl (new_error Conflict ''Pulse federation page repeated a record key'')
       else check_records on_macos acct mach rs (insert (rec_key r) seen))"

definition same_record :: "int \<Rightarrow> string \<Rightarrow> string \<Rightarrow> applied_row \<Rightarrow> bool" where
  "same_record acct mach k r \<longleftrightarrow> applied_account r = acct \<and> applied_machine r = mach \<and> applied_key r = k"

fun pending_records ::
    "fed_extern \<Rightarrow> int \<Rightarrow> string \<Rightarrow> store \<Rightarrow> federated_record list \<Rightarrow> (federated_record \<times> string) list pulse_result" where
  "pending_records fx acct mach st [] = Inr []"
| "pending_records fx acct mach st (r # rs) =
     and_then (record_fingerprint fx (rec_row r)) (\<lambda>fp.
       case find (same_record acct mach (rec_key r)) (federation_records st) of
         Some old \<Rightarrow>
           if applied_fingerprint old = fp then pending_records fx acct mach st rs
           else Inl (new_error Conflict ''Pulse federation stable key changed its fingerprint'')
       | None \<Rightarrow> map_ok (\<lambda>ps. (r, fp) # ps) (pending_records fx acct mach st rs))"

definition apply_federated_row :: "bool \<Rightarrow> federated_row \<Rightarrow> store \<Rightarrow> store pulse_result" where
  "apply_federated_row on_macos row st =
     (case row of
        FedMachine m \<Rightarrow> map_ok snd (upsert_machine m st)
      | FedProfile p \<Rightarrow> map_ok snd (upsert_reported_profile on_macos p st)
      | FedUsage s \<Rightarrow> map_ok snd (insert_snapshot s st)
      | FedContext c \<Rightarrow> map_ok snd (upsert_context c st)
      | FedToken _ \<Rightarrow> Inr st)"

definition fed_grains :: "federated_row list \<Rightarrow> token_grain list" where
  "fed_grains rows = List.map_filter (\<lambda>row. case row of FedToken g \<Rightarrow> Some g | _ \<Rightarrow> None) rows"

definition applied_rows :: "int \<Rightarrow> string \<Rightarrow> instant \<Rightarrow> (federated_record \<times> string) list \<Rightarrow> applied_row list" where
  "applied_rows acct mach time pending =
     map (\<lambda>(r, fp). \<lparr>applied_account = acct, applied_machine = mach, applied_key = rec_key r,
                     applied_fingerprint = fp, applied_at = time\<rparr>) pending"

text \<open>
  The transaction. \<open>UNIQUE(account_id, source_machine, record_key)\<close> holds because the keys of a page
  are distinct and were just looked up; the length checks follow from the record validation and the
  fixed length of a digest.
\<close>

definition apply_federation_page ::
    "fed_extern \<Rightarrow> token_extern \<Rightarrow> bool \<Rightarrow> instant \<Rightarrow> int \<Rightarrow> string \<Rightarrow> string option \<Rightarrow> string option
      \<Rightarrow> federated_record list \<Rightarrow> federation_state store_op" where
  "apply_federation_page fx x on_macos time acct mach expected_cursor next_cursor rs st =
     and_then (check_records on_macos acct mach rs {}) (\<lambda>_.
     and_then (load_federation_state acct mach st) (\<lambda>s.
       if fed_cursor s \<noteq> expected_cursor \<or> fed_complete s
       then Inl (new_error Conflict ''Pulse federation cursor no longer matches durable state'')
       else
         and_then (pending_records fx acct mach st (sort_key (\<lambda>r. apply_priority (rec_row r)) rs)) (\<lambda>pending.
         let rows = map (\<lambda>p. rec_row (fst p)) pending in
         and_then (try_fold (apply_federated_row on_macos) rows st) (\<lambda>st1.
         and_then (upsert_token_batch x (fed_grains rows) st1) (\<lambda>(_, st2).
         let st3 = st2\<lparr>federation_records := federation_records st2 @ applied_rows acct mach time pending,
               federation_peers := update_where (is_peer acct mach)
                 (\<lambda>r. r\<lparr>peer_cursor := next_cursor, pages_applied := pages_applied r + 1,
                        records_applied := records_applied r + length pending,
                        peer_complete := (next_cursor = None)\<rparr>) (federation_peers st2)\<rparr>
         in map_ok (\<lambda>s'. (s', st3)) (load_federation_state acct mach st3))))))"

section \<open>Exporting the local rows\<close>

record local_record =
  local_key :: string
  local_row :: federated_row
  local_position :: export_position

definition export_position_new :: "nat \<Rightarrow> string list \<Rightarrow> export_position pulse_result" where
  "export_position_new ph vs =
     (if ph > 4 \<or> vs = [] \<or> length vs > 8 \<or> list_ex (\<lambda>v. length v > 512) vs
      then Inl (new_error Storage ''Pulse federation export position is invalid'')
      else Inr \<lparr>phase = ph, position_values = vs\<rparr>)"

fun is_usage :: "federated_row \<Rightarrow> bool" where
  "is_usage (FedUsage _) = True"
| "is_usage _ = False"

text \<open>The prefix is a byte addition on a phase of at most 4.\<close>

definition local_record_new :: "fed_extern \<Rightarrow> export_position \<Rightarrow> federated_row \<Rightarrow> local_record pulse_result" where
  "local_record_new fx pos row =
     and_then (ok_or (new_error Internal ''Pulse federation key could not be encoded'') (position_json fx pos)) (\<lambda>encoded.
     and_then (if is_usage row then Inr []
               else ok_or (new_error Internal ''Pulse federation row version could not be encoded'') (row_json fx row))
       (\<lambda>suffix.
       Inr \<lparr>local_key = char_of (97 + phase pos) # ''/'' @ sha256_hex fx (encoded @ suffix),
            local_row = row, local_position = pos\<rparr>))"

definition federation_query_limit :: "nat \<Rightarrow> nat pulse_result" where
  "federation_query_limit n =
     (if n = 0 \<or> n > max_page_rows + 1
      then Inl (invalid_input ''Pulse federation export page limit is out of bounds'') else Inr n)"

definition exported :: "fed_extern \<Rightarrow> nat \<Rightarrow> string list \<Rightarrow> federated_row \<Rightarrow> local_record pulse_result" where
  "exported fx ph vs row = and_then (export_position_new ph vs) (\<lambda>pos. local_record_new fx pos row)"

definition redacted_profile :: "profile \<Rightarrow> profile" where
  "redacted_profile p =
     p\<lparr>config_dir := None, api_key_env := None, api_key_file := None, refresh := Never, origin := Reported\<rparr>"

text \<open>The values of a cursor in a phase, or the start of the phase when the cursor is in an earlier one.\<close>

definition phase_values ::
    "nat \<Rightarrow> nat \<Rightarrow> string list \<Rightarrow> string \<Rightarrow> export_position option \<Rightarrow> string list pulse_result" where
  "phase_values ph n start label after =
     (case after of
        Some p \<Rightarrow>
          (if phase p = ph
           then if length (position_values p) \<noteq> n
                then Inl (invalid_input (''Pulse federation '' @ label @ '' cursor is invalid''))
                else Inr (position_values p)
           else Inr start)
      | None \<Rightarrow> Inr start)"

definition machine_phase :: "fed_extern \<Rightarrow> int \<Rightarrow> string \<Rightarrow> store \<Rightarrow> local_record list pulse_result" where
  "machine_phase fx acct mach st =
     (case find (same_machine acct mach) (machines st) of
        None \<Rightarrow> Inr []
      | Some m \<Rightarrow> map_ok (\<lambda>r. [r]) (exported fx 0 [mach_name m] (FedMachine m)))"

definition profile_phase ::
    "fed_extern \<Rightarrow> int \<Rightarrow> export_position option \<Rightarrow> nat \<Rightarrow> store \<Rightarrow> local_record list pulse_result" where
  "profile_phase fx acct after n st =
     and_then (phase_values 1 1 [[]] ''profile'' after) (\<lambda>vs.
       try_map (\<lambda>p. exported fx 1 [prof_name p] (FedProfile (redacted_profile p)))
         (select_ordered (\<lambda>p. prof_account p = acct \<and> origin p = LocalOrigin \<and> prof_name p > hd vs) prof_name n
            (profiles st)))"

definition usage_phase ::
    "fed_extern \<Rightarrow> int \<Rightarrow> string \<Rightarrow> export_position option \<Rightarrow> nat \<Rightarrow> store \<Rightarrow> local_record list pulse_result" where
  "usage_phase fx acct mach after n st =
     and_then (phase_values 2 1 [''0''] ''usage'' after) (\<lambda>vs.
     and_then (ok_or (invalid_input ''Pulse federation usage cursor is invalid'') (parse_i64 (hd vs))) (\<lambda>i.
       try_map (\<lambda>r. exported fx 2 [show_int (snap_id r)] (FedUsage (snapshot r)))
         (select_ordered (\<lambda>r. snap_account (snapshot r) = acct \<and> snap_machine (snapshot r) = mach \<and> snap_id r > i)
            snap_id n (usage_snapshots st))))"

definition context_phase ::
    "fed_extern \<Rightarrow> int \<Rightarrow> string \<Rightarrow> export_position option \<Rightarrow> nat \<Rightarrow> store \<Rightarrow> local_record list pulse_result" where
  "context_phase fx acct mach after n st =
     and_then (phase_values 3 2 [[], []] ''context'' after) (\<lambda>vs.
       try_map (\<lambda>c. exported fx 3 [ctx_profile c, ctx_session c] (FedContext c))
         (select_ordered (\<lambda>c. ctx_account c = acct \<and> ctx_machine c = mach
              \<and> (ctx_profile c, ctx_session c) > (vs ! 0, vs ! 1))
            (\<lambda>c. (ctx_profile c, ctx_session c)) n (context_sessions st)))"

definition token_phase ::
    "fed_extern \<Rightarrow> int \<Rightarrow> string \<Rightarrow> export_position option \<Rightarrow> nat \<Rightarrow> store \<Rightarrow> local_record list pulse_result" where
  "token_phase fx acct mach after n st =
     and_then (phase_values 4 6 [[], [], [], [], [], []] ''token'' after) (\<lambda>vs.
       try_map (\<lambda>g. exported fx 4 [tok_profile g, tok_session g, tok_model g, settings_hash g, tok_day g,
              source_json (tok_source g)] (FedToken g))
         (map grain (select_ordered (\<lambda>r. tok_account (grain r) = acct \<and> tok_machine (grain r) = mach
              \<and> position_key (from_grain (grain r)) > (vs ! 0, vs ! 1, vs ! 2, vs ! 3, vs ! 4, vs ! 5))
            (\<lambda>r. position_key (from_grain (grain r))) n (token_usage st))))"

text \<open>A phase runs while rows are still asked for and the cursor has not passed it.\<close>

definition add_phase ::
    "nat \<Rightarrow> bool \<Rightarrow> (nat \<Rightarrow> local_record list pulse_result) \<Rightarrow> local_record list \<Rightarrow> local_record list pulse_result" where
  "add_phase maximum enabled f rs =
     (if length rs < maximum \<and> enabled then map_ok (\<lambda>new. rs @ new) (f (maximum - length rs)) else Inr rs)"

definition local_federation_page ::
    "fed_extern \<Rightarrow> int \<Rightarrow> string \<Rightarrow> export_position option \<Rightarrow> nat \<Rightarrow> store \<Rightarrow> local_record list pulse_result" where
  "local_federation_page fx acct mach after n st =
     and_then (federation_query_limit n) (\<lambda>maximum.
     let ap = (case after of None \<Rightarrow> 0 | Some p \<Rightarrow> phase p) in
     and_then (if after = None then machine_phase fx acct mach st else Inr []) (\<lambda>r0.
     and_then (add_phase maximum (ap \<le> 1) (\<lambda>k. profile_phase fx acct after k st) r0) (\<lambda>r1.
     and_then (add_phase maximum (ap \<le> 2) (\<lambda>k. usage_phase fx acct mach after k st) r1) (\<lambda>r2.
     and_then (add_phase maximum (ap \<le> 3) (\<lambda>k. context_phase fx acct mach after k st) r2) (\<lambda>r3.
       add_phase maximum (ap \<le> 4) (\<lambda>k. token_phase fx acct mach after k st) r3)))))"

section \<open>The export as one list\<close>

text \<open>What is exported: a phase, the values of a position and a row, in the order of the phases.\<close>

type_synonym export_item = "nat \<times> string list \<times> federated_row"

definition export_item :: "fed_extern \<Rightarrow> export_item \<Rightarrow> local_record pulse_result" where
  "export_item fx i = (case i of (ph, vs, row) \<Rightarrow> exported fx ph vs row)"

definition machine_items :: "int \<Rightarrow> string \<Rightarrow> store \<Rightarrow> export_item list" where
  "machine_items acct mach st =
     (case find (same_machine acct mach) (machines st) of None \<Rightarrow> [] | Some m \<Rightarrow> [(0, [mach_name m], FedMachine m)])"

definition profile_items :: "int \<Rightarrow> string \<Rightarrow> store \<Rightarrow> export_item list" where
  "profile_items acct name st =
     map (\<lambda>p. (1, [prof_name p], FedProfile (redacted_profile p)))
       (sort_key prof_name (filter (\<lambda>p. prof_account p = acct \<and> origin p = LocalOrigin \<and> prof_name p > name) (profiles st)))"

definition usage_items :: "int \<Rightarrow> string \<Rightarrow> int \<Rightarrow> store \<Rightarrow> export_item list" where
  "usage_items acct mach i st =
     map (\<lambda>r. (2, [show_int (snap_id r)], FedUsage (snapshot r)))
       (sort_key snap_id (filter (\<lambda>r. snap_account (snapshot r) = acct \<and> snap_machine (snapshot r) = mach
          \<and> snap_id r > i) (usage_snapshots st)))"

definition context_items :: "int \<Rightarrow> string \<Rightarrow> string \<times> string \<Rightarrow> store \<Rightarrow> export_item list" where
  "context_items acct mach v st =
     map (\<lambda>c. (3, [ctx_profile c, ctx_session c], FedContext c))
       (sort_key (\<lambda>c. (ctx_profile c, ctx_session c))
          (filter (\<lambda>c. ctx_account c = acct \<and> ctx_machine c = mach \<and> (ctx_profile c, ctx_session c) > v)
             (context_sessions st)))"

definition token_items ::
    "int \<Rightarrow> string \<Rightarrow> string \<times> string \<times> string \<times> string \<times> string \<times> string \<Rightarrow> store \<Rightarrow> export_item list" where
  "token_items acct mach v st =
     map (\<lambda>g. (4, [tok_profile g, tok_session g, tok_model g, settings_hash g, tok_day g, source_json (tok_source g)],
               FedToken g))
       (map grain (sort_key (\<lambda>r. position_key (from_grain (grain r)))
          (filter (\<lambda>r. tok_account (grain r) = acct \<and> tok_machine (grain r) = mach
             \<and> position_key (from_grain (grain r)) > v) (token_usage st))))"

definition cursor_well_formed :: "export_position option \<Rightarrow> bool" where
  "cursor_well_formed after \<longleftrightarrow>
     (case after of None \<Rightarrow> True
      | Some p \<Rightarrow> (phase p = 1 \<longrightarrow> length (position_values p) = 1)
          \<and> (phase p = 2 \<longrightarrow> length (position_values p) = 1 \<and> parse_i64 (hd (position_values p)) \<noteq> None)
          \<and> (phase p = 3 \<longrightarrow> length (position_values p) = 2) \<and> (phase p = 4 \<longrightarrow> length (position_values p) = 6))"

definition start_values :: "nat \<Rightarrow> string list \<Rightarrow> export_position option \<Rightarrow> string list" where
  "start_values ph start after =
     (case after of Some p \<Rightarrow> if phase p = ph then position_values p else start | None \<Rightarrow> start)"

definition items_after :: "int \<Rightarrow> string \<Rightarrow> export_position option \<Rightarrow> store \<Rightarrow> export_item list" where
  "items_after acct mach after st =
     (let ap = (case after of None \<Rightarrow> 0 | Some p \<Rightarrow> phase p);
          v3 = start_values 3 [[], []] after; v4 = start_values 4 [[], [], [], [], [], []] after in
      (if after = None then machine_items acct mach st else [])
      @ (if ap \<le> 1 then profile_items acct (hd (start_values 1 [[]] after)) st else [])
      @ (if ap \<le> 2 then usage_items acct mach (the (parse_i64 (hd (start_values 2 [''0''] after)))) st else [])
      @ (if ap \<le> 3 then context_items acct mach (v3 ! 0, v3 ! 1) st else [])
      @ (if ap \<le> 4 then token_items acct mach (v4 ! 0, v4 ! 1, v4 ! 2, v4 ! 3, v4 ! 4, v4 ! 5) st else []))"

lemma try_map_append:
  "try_map f (xs @ ys) = and_then (try_map f xs) (\<lambda>a. map_ok (\<lambda>b. a @ b) (try_map f ys))"
proof (induction xs)
  case Nil
  then show ?case by (cases "try_map f ys") simp_all
next
  case (Cons x xs)
  then show ?case by (cases "f x"; cases "try_map f xs"; cases "try_map f ys") simp_all
qed

lemma try_map_map: "try_map f (map g xs) = try_map (\<lambda>x. f (g x)) xs"
  by (induction xs) simp_all

lemma add_phase_items:
  assumes "\<And>k. f k = try_map e (take k items)"
  shows "add_phase maximum enabled f rs =
    map_ok (\<lambda>new. rs @ new) (try_map e (take (maximum - length rs) (if enabled then items else [])))"
  using assms by (simp add: add_phase_def)

lemma chain_phases:
  "and_then (try_map e (take maximum A)) (\<lambda>r. map_ok (\<lambda>new. r @ new) (try_map e (take (maximum - length r) B)))
     = try_map e (take maximum (A @ B))"
proof (cases "try_map e (take maximum A)")
  case (Inl a)
  then show ?thesis by (simp add: try_map_append)
next
  case (Inr r)
  have "length r = min (length A) maximum" using try_map_length [OF Inr] by simp
  then have "maximum - length r = maximum - length A" by simp
  then show ?thesis using Inr by (simp add: try_map_append)
qed

lemma chain_phases_then:
  "and_then (try_map e (take maximum A))
     (\<lambda>r. and_then (map_ok (\<lambda>new. r @ new) (try_map e (take (maximum - length r) B))) g)
   = and_then (try_map e (take maximum (A @ B))) g"
proof -
  have assoc: "and_then r (\<lambda>v. and_then (f v) g) = and_then (and_then r f) g" for r f by (cases r) simp_all
  show ?thesis by (simp only: assoc chain_phases)
qed

lemma phase_values_ok:
  assumes "cursor_well_formed after" and "(ph, n) \<in> {(1, 1), (2, 1), (3, 2), (4, 6)}"
  shows "phase_values ph n start label after = Inr (start_values ph start after)"
  using assms by (auto simp: phase_values_def start_values_def cursor_well_formed_def split: option.splits)

lemma phases_eq:
  assumes "cursor_well_formed after"
  shows "machine_phase fx acct mach st = try_map (export_item fx) (machine_items acct mach st)"
    "profile_phase fx acct after n st
       = try_map (export_item fx) (take n (profile_items acct (hd (start_values 1 [[]] after)) st))"
    "usage_phase fx acct mach after n st = try_map (export_item fx)
       (take n (usage_items acct mach (the (parse_i64 (hd (start_values 2 [''0''] after)))) st))"
    "context_phase fx acct mach after n st = try_map (export_item fx) (take n (context_items acct mach
       (start_values 3 [[], []] after ! 0, start_values 3 [[], []] after ! 1) st))"
    "token_phase fx acct mach after n st = try_map (export_item fx) (take n (token_items acct mach
       (start_values 4 [[], [], [], [], [], []] after ! 0, start_values 4 [[], [], [], [], [], []] after ! 1,
        start_values 4 [[], [], [], [], [], []] after ! 2, start_values 4 [[], [], [], [], [], []] after ! 3,
        start_values 4 [[], [], [], [], [], []] after ! 4, start_values 4 [[], [], [], [], [], []] after ! 5) st))"
proof -
  show "machine_phase fx acct mach st = try_map (export_item fx) (machine_items acct mach st)"
    by (auto simp: machine_phase_def machine_items_def export_item_def map_ok_def split: option.split sum.split)
  show "profile_phase fx acct after n st
       = try_map (export_item fx) (take n (profile_items acct (hd (start_values 1 [[]] after)) st))"
    by (simp add: profile_phase_def phase_values_ok [OF assms] profile_items_def select_ordered_def take_map
        try_map_map export_item_def)
  have "parse_i64 ''0'' = Some 0" by code_simp
  then have "parse_i64 (hd (start_values 2 [''0''] after)) \<noteq> None"
    using assms by (auto simp: start_values_def cursor_well_formed_def split: option.splits)
  then obtain i where "parse_i64 (hd (start_values 2 [''0''] after)) = Some i" by blast
  then show "usage_phase fx acct mach after n st = try_map (export_item fx)
       (take n (usage_items acct mach (the (parse_i64 (hd (start_values 2 [''0''] after)))) st))"
    by (simp add: usage_phase_def phase_values_ok [OF assms] usage_items_def select_ordered_def take_map
        try_map_map export_item_def)
  show "context_phase fx acct mach after n st = try_map (export_item fx) (take n (context_items acct mach
       (start_values 3 [[], []] after ! 0, start_values 3 [[], []] after ! 1) st))"
    by (simp add: context_phase_def phase_values_ok [OF assms] context_items_def select_ordered_def take_map
        try_map_map export_item_def)
  show "token_phase fx acct mach after n st = try_map (export_item fx) (take n (token_items acct mach
       (start_values 4 [[], [], [], [], [], []] after ! 0, start_values 4 [[], [], [], [], [], []] after ! 1,
        start_values 4 [[], [], [], [], [], []] after ! 2, start_values 4 [[], [], [], [], [], []] after ! 3,
        start_values 4 [[], [], [], [], [], []] after ! 4, start_values 4 [[], [], [], [], [], []] after ! 5) st))"
    by (simp add: token_phase_def phase_values_ok [OF assms] token_items_def select_ordered_def take_map
        try_map_map export_item_def)
qed

lemma local_page_items:
  assumes "cursor_well_formed after"
  shows "local_federation_page fx acct mach after n st =
    and_then (federation_query_limit n) (\<lambda>k. try_map (export_item fx) (take k (items_after acct mach after st)))"
proof (cases "federation_query_limit n")
  case (Inl e)
  then show ?thesis by (simp add: local_federation_page_def)
next
  case (Inr k)
  then have k: "0 < k" by (auto simp: federation_query_limit_def split: if_splits)
  note ph = phases_eq [OF assms]
  have "length (machine_items acct mach st) \<le> 1" by (simp add: machine_items_def split: option.split)
  then have m: "take k (machine_items acct mach st) = machine_items acct mach st" using k by simp
  have first: "(if after = None then machine_phase fx acct mach st else Inr [])
      = try_map (export_item fx) (take k (if after = None then machine_items acct mach st else []))"
    using m by (simp add: ph(1))
  show ?thesis
    unfolding local_federation_page_def Inr and_then_simps Let_def items_after_def first
      add_phase_items [where e = "export_item fx", OF ph(2)] add_phase_items [where e = "export_item fx", OF ph(3)]
      add_phase_items [where e = "export_item fx", OF ph(4)] add_phase_items [where e = "export_item fx", OF ph(5)]
      chain_phases_then chain_phases append_assoc ..
qed

section \<open>Keyset pages\<close>

definition item_position :: "export_item \<Rightarrow> export_position" where
  "item_position i = \<lparr>phase = fst i, position_values = fst (snd i)\<rparr>"

definition export_keys_ok :: "int \<Rightarrow> string \<Rightarrow> store \<Rightarrow> bool" where
  "export_keys_ok acct mach st \<longleftrightarrow>
     distinct (map profile_key (profiles st)) \<and> distinct (map snap_id (usage_snapshots st))
     \<and> (\<forall>r \<in> set (usage_snapshots st). i64_ok (snap_id r))
     \<and> distinct (map context_key (context_sessions st)) \<and> distinct (map (\<lambda>r. token_key (grain r)) (token_usage st))"

lemma distinct_key_subset:
  assumes "distinct (map f rows)" and "\<And>a b. P a \<Longrightarrow> P b \<Longrightarrow> g a = g b \<Longrightarrow> f a = f b"
  shows "distinct (map g (filter P rows))"
proof -
  have "inj_on g {r \<in> set rows. P r}"
  proof (rule inj_onI)
    fix a b assume "a \<in> {r \<in> set rows. P r}" "b \<in> {r \<in> set rows. P r}" "g a = g b"
    moreover from this have "f a = f b" by (intro assms(2)) simp_all
    ultimately show "a = b" using assms(1) by (simp add: distinct_map inj_on_def)
  qed
  then show ?thesis using assms(1) by (simp add: distinct_map)
qed

lemma profile_items_step:
  assumes "export_keys_ok acct mach st" and "j < length (profile_items acct name st)"
  shows "\<exists>q row. profile_items acct name st ! j = (1, [q], row)
    \<and> profile_items acct q st = drop (Suc j) (profile_items acct name st)"
proof -
  let ?R = "sort_key prof_name (filter (\<lambda>p. (prof_account p = acct \<and> origin p = LocalOrigin) \<and> name < prof_name p) (profiles st))"
  have e: "profile_items acct v st = map (\<lambda>p. (1, [prof_name p], FedProfile (redacted_profile p)))
      (sort_key prof_name (filter (\<lambda>p. (prof_account p = acct \<and> origin p = LocalOrigin) \<and> v < prof_name p) (profiles st)))" for v
    by (simp add: profile_items_def)
  have j: "j < length ?R" using assms(2) by (simp add: e)
  have "distinct (map prof_name (filter (\<lambda>p. prof_account p = acct \<and> origin p = LocalOrigin) (profiles st)))"
    by (rule distinct_key_subset [of profile_key]) (use assms(1) in \<open>auto simp: export_keys_ok_def profile_key_def\<close>)
  note keyset_step [OF this j]
  then show ?thesis unfolding e using j by (auto simp: drop_map)
qed

lemma usage_items_step:
  assumes "export_keys_ok acct mach st" and "j < length (usage_items acct mach i st)"
  shows "\<exists>q row. usage_items acct mach i st ! j = (2, [q], row)
    \<and> usage_items acct mach (the (parse_i64 q)) st = drop (Suc j) (usage_items acct mach i st) \<and> parse_i64 q \<noteq> None"
proof -
  let ?P = "\<lambda>r. snap_account (snapshot r) = acct \<and> snap_machine (snapshot r) = mach"
  let ?R = "sort_key snap_id (filter (\<lambda>r. ?P r \<and> i < snap_id r) (usage_snapshots st))"
  have e: "usage_items acct mach v st = map (\<lambda>r. (2, [show_int (snap_id r)], FedUsage (snapshot r)))
      (sort_key snap_id (filter (\<lambda>r. ?P r \<and> v < snap_id r) (usage_snapshots st)))" for v
    by (simp add: usage_items_def)
  have j: "j < length ?R" using assms(2) by (simp add: e)
  have "distinct (map snap_id (filter ?P (usage_snapshots st)))"
    by (rule distinct_key_subset [of snap_id]) (use assms(1) in \<open>auto simp: export_keys_ok_def\<close>)
  note s = keyset_step [OF this j]
  have "?R ! j \<in> set ?R" using j by (rule nth_mem)
  then have "i64_ok (snap_id (?R ! j))" using assms(1) by (simp add: export_keys_ok_def)
  then have "parse_i64 (show_int (snap_id (?R ! j))) = Some (snap_id (?R ! j))" by (rule parse_show_i64)
  then show ?thesis using s j unfolding e by (auto simp: drop_map)
qed

lemma context_items_step:
  assumes "export_keys_ok acct mach st" and "j < length (context_items acct mach v st)"
  shows "\<exists>a b row. context_items acct mach v st ! j = (3, [a, b], row)
    \<and> context_items acct mach (a, b) st = drop (Suc j) (context_items acct mach v st)"
proof -
  let ?P = "\<lambda>c. ctx_account c = acct \<and> ctx_machine c = mach" and ?k = "\<lambda>c. (ctx_profile c, ctx_session c)"
  let ?R = "sort_key ?k (filter (\<lambda>c. ?P c \<and> v < ?k c) (context_sessions st))"
  have e: "context_items acct mach v st = map (\<lambda>c. (3, [ctx_profile c, ctx_session c], FedContext c))
      (sort_key ?k (filter (\<lambda>c. ?P c \<and> v < ?k c) (context_sessions st)))" for v
    by (simp add: context_items_def)
  have j: "j < length ?R" using assms(2) by (simp add: e)
  have "distinct (map ?k (filter ?P (context_sessions st)))"
    by (rule distinct_key_subset [of context_key]) (use assms(1) in \<open>auto simp: export_keys_ok_def context_key_def\<close>)
  note keyset_step [OF this j]
  then show ?thesis unfolding e using j by (auto simp: drop_map)
qed

lemma token_items_step:
  assumes "export_keys_ok acct mach st" and "j < length (token_items acct mach v st)"
  shows "\<exists>a b c d f g row. token_items acct mach v st ! j = (4, [a, b, c, d, f, g], row)
    \<and> token_items acct mach (a, b, c, d, f, g) st = drop (Suc j) (token_items acct mach v st)"
proof -
  let ?P = "\<lambda>r. tok_account (grain r) = acct \<and> tok_machine (grain r) = mach"
    and ?k = "\<lambda>r. position_key (from_grain (grain r))"
  let ?item = "\<lambda>g. (4, [tok_profile g, tok_session g, tok_model g, settings_hash g, tok_day g, source_json (tok_source g)], FedToken g)"
  let ?R = "sort_key ?k (filter (\<lambda>r. ?P r \<and> v < ?k r) (token_usage st))"
  have e: "token_items acct mach v st = map (\<lambda>r. ?item (grain r)) (sort_key ?k (filter (\<lambda>r. ?P r \<and> v < ?k r) (token_usage st)))" for v
    by (simp add: token_items_def)
  have j: "j < length ?R" using assms(2) by (simp add: e)
  have inj: "source_json a = source_json b \<Longrightarrow> a = b" for a b by (cases a; cases b) simp_all
  have "distinct (map ?k (filter ?P (token_usage st)))"
    by (rule distinct_key_subset [of "\<lambda>r. token_key (grain r)"])
      (use assms(1) inj in \<open>auto simp: export_keys_ok_def token_key_def grain_scope_def position_key_def from_grain_def\<close>)
  note keyset_step [OF this j]
  then show ?thesis unfolding e using j by (auto simp: drop_map position_key_def from_grain_def)
qed

lemma start_default:
  "(case after of None \<Rightarrow> 0 | Some p \<Rightarrow> phase p) < k \<Longrightarrow> start_values k vs after = vs"
  by (auto simp: start_values_def split: option.splits)

lemma drop_in_left: "j < length xs \<Longrightarrow> drop (Suc j) (xs @ ys) = drop (Suc j) xs @ ys"
  by simp

lemma drop_in_right: "length xs \<le> n \<Longrightarrow> drop (Suc n) (xs @ ys) = drop (Suc (n - length xs)) ys"
  by (simp add: Suc_diff_le)

lemma five_index:
  fixes n :: nat
  assumes "n < a + (b + (c + (d + e)))"
  shows "n < a \<or> (\<exists>j. n = a + j \<and> j < b) \<or> (\<exists>j. n = a + b + j \<and> j < c)
    \<or> (\<exists>j. n = a + b + c + j \<and> j < d) \<or> (\<exists>j. n = a + b + c + d + j \<and> j < e)"
  using assms by presburger

lemma items_after_step:
  assumes ok: "export_keys_ok acct mach st" and n: "n < length (items_after acct mach after st)"
  defines "p \<equiv> item_position (items_after acct mach after st ! n)"
  shows "cursor_well_formed (Some p) \<and> items_after acct mach (Some p) st = drop (Suc n) (items_after acct mach after st)"
proof -
  define ap where "ap = (case after of None \<Rightarrow> 0 | Some q \<Rightarrow> phase q)"
  define M where "M = (if after = None then machine_items acct mach st else [])"
  define P where "P = (if ap \<le> 1 then profile_items acct (hd (start_values 1 [[]] after)) st else [])"
  define U where "U = (if ap \<le> 2 then usage_items acct mach (the (parse_i64 (hd (start_values 2 [''0''] after)))) st else [])"
  define C where "C = (if ap \<le> 3 then context_items acct mach
    (start_values 3 [[], []] after ! 0, start_values 3 [[], []] after ! 1) st else [])"
  define T where "T = (if ap \<le> 4 then token_items acct mach
    (start_values 4 [[], [], [], [], [], []] after ! 0, start_values 4 [[], [], [], [], [], []] after ! 1,
     start_values 4 [[], [], [], [], [], []] after ! 2, start_values 4 [[], [], [], [], [], []] after ! 3,
     start_values 4 [[], [], [], [], [], []] after ! 4, start_values 4 [[], [], [], [], [], []] after ! 5) st else [])"
  have full: "items_after acct mach after st = M @ P @ U @ C @ T"
    by (simp only: items_after_def Let_def ap_def M_def P_def U_def C_def T_def)
  note start = start_default [of after, folded ap_def]
  have tail:
    "ap < 1 \<Longrightarrow> P = profile_items acct [] st"
    "ap < 2 \<Longrightarrow> U = usage_items acct mach (the (parse_i64 ''0'')) st"
    "ap < 3 \<Longrightarrow> C = context_items acct mach ([], []) st"
    "ap < 4 \<Longrightarrow> T = token_items acct mach ([], [], [], [], [], []) st"
    by (simp_all add: P_def U_def C_def T_def start)
  have p: "p = item_position ((M @ P @ U @ C @ T) ! n)" by (simp only: p_def full)
  consider (m) "n < length M"
    | (pr) j where "n = length M + j" "j < length P"
    | (u) j where "n = length M + length P + j" "j < length U"
    | (c) j where "n = length M + length P + length U + j" "j < length C"
    | (t) j where "n = length M + length P + length U + length C + j" "j < length T"
    using five_index [of n "length M" "length P" "length U" "length C" "length T"] n unfolding full by auto
  then show ?thesis
  proof cases
    case m
    then have a: "after = None" "ap = 0" by (auto simp: M_def ap_def split: if_splits)
    obtain x where x: "M = [(0, [mach_name x], FedMachine x)]"
      using m a by (auto simp: M_def machine_items_def split: option.splits)
    then have "p = \<lparr>phase = 0, position_values = [mach_name x]\<rparr>" "n = 0" using m by (simp_all add: p item_position_def)
    then show ?thesis unfolding full
      using a tail x by (simp add: items_after_def start_values_def cursor_well_formed_def)
  next
    case (pr j)
    then have a: "ap \<le> 1" by (auto simp: P_def split: if_splits)
    then have e: "P = profile_items acct (hd (start_values 1 [[]] after)) st" by (simp add: P_def)
    obtain q row where q: "P ! j = (1, [q], row)" "profile_items acct q st = drop (Suc j) P"
      using profile_items_step [OF ok pr(2) [unfolded e]] unfolding e by blast
    have "p = \<lparr>phase = 1, position_values = [q]\<rparr>"
      using pr q by (simp add: p item_position_def nth_append)
    then show ?thesis unfolding full
      using a tail pr q by (simp add: items_after_def start_values_def cursor_well_formed_def drop_in_right)
  next
    case (u j)
    then have a: "ap \<le> 2" by (auto simp: U_def split: if_splits)
    then have e: "U = usage_items acct mach (the (parse_i64 (hd (start_values 2 [''0''] after)))) st" by (simp add: U_def)
    obtain q row where q: "U ! j = (2, [q], row)" "usage_items acct mach (the (parse_i64 q)) st = drop (Suc j) U"
      "parse_i64 q \<noteq> None"
      using usage_items_step [OF ok u(2) [unfolded e]] unfolding e by blast
    have "p = \<lparr>phase = 2, position_values = [q]\<rparr>"
      using u q by (simp add: p item_position_def nth_append)
    then show ?thesis unfolding full
      using a tail u q by (simp add: items_after_def start_values_def cursor_well_formed_def drop_in_right)
  next
    case (c j)
    then have a: "ap \<le> 3" by (auto simp: C_def split: if_splits)
    then have e: "C = context_items acct mach (start_values 3 [[], []] after ! 0, start_values 3 [[], []] after ! 1) st" by (simp add: C_def)
    obtain v w row where q: "C ! j = (3, [v, w], row)" "context_items acct mach (v, w) st = drop (Suc j) C"
      using context_items_step [OF ok c(2) [unfolded e]] unfolding e by blast
    have "p = \<lparr>phase = 3, position_values = [v, w]\<rparr>"
      using c q by (simp add: p item_position_def nth_append)
    then show ?thesis unfolding full
      using a tail c q by (simp add: items_after_def start_values_def cursor_well_formed_def drop_in_right)
  next
    case (t j)
    then have a: "ap \<le> 4" by (auto simp: T_def split: if_splits)
    then have e: "T = token_items acct mach
    (start_values 4 [[], [], [], [], [], []] after ! 0, start_values 4 [[], [], [], [], [], []] after ! 1,
     start_values 4 [[], [], [], [], [], []] after ! 2, start_values 4 [[], [], [], [], [], []] after ! 3,
     start_values 4 [[], [], [], [], [], []] after ! 4, start_values 4 [[], [], [], [], [], []] after ! 5) st" by (simp add: T_def)
    obtain v1 v2 v3 v4 v5 v6 row where q: "T ! j = (4, [v1, v2, v3, v4, v5, v6], row)"
      "token_items acct mach (v1, v2, v3, v4, v5, v6) st = drop (Suc j) T"
      using token_items_step [OF ok t(2) [unfolded e]] unfolding e by blast
    have "p = \<lparr>phase = 4, position_values = [v1, v2, v3, v4, v5, v6]\<rparr>"
      using t q by (simp add: p item_position_def nth_append)
    then show ?thesis unfolding full
      using a tail t q by (simp add: items_after_def start_values_def cursor_well_formed_def drop_in_right)
  qed
qed

lemma exported_fields:
  "exported fx ph vs row = Inr r \<Longrightarrow> local_position r = \<lparr>phase = ph, position_values = vs\<rparr> \<and> local_row r = row"
  by (auto simp: exported_def export_position_new_def local_record_new_def result_simps split: if_splits)

lemma try_map_nth: "try_map f xs = Inr ys \<Longrightarrow> i < length xs \<Longrightarrow> f (xs ! i) = Inr (ys ! i)"
proof (induction xs arbitrary: ys i)
  case (Cons x xs)
  then show ?case by (cases i) (auto simp: result_simps)
qed simp

lemma export_item_fields:
  "export_item fx i = Inr r \<Longrightarrow> local_position r = item_position i \<and> local_row r = snd (snd i)"
  unfolding export_item_def item_position_def by (cases i) (use exported_fields in fastforce)

lemma page_is_prefix:
  assumes "cursor_well_formed after" and "local_federation_page fx acct mach after n st = Inr page"
  shows "try_map (export_item fx) (take n (items_after acct mach after st)) = Inr page \<and> 0 < n \<and> n \<le> max_page_rows + 1"
proof -
  have "and_then (federation_query_limit n) (\<lambda>k. try_map (export_item fx) (take k (items_after acct mach after st))) = Inr page"
    using assms(2) by (simp only: local_page_items [OF assms(1)])
  then show ?thesis by (cases "n = 0 \<or> n > max_page_rows + 1") (simp_all add: federation_query_limit_def)
qed

lemma export_resumes:
  assumes ok: "export_keys_ok acct mach st" and wf: "cursor_well_formed after"
    and pg: "local_federation_page fx acct mach after n st = Inr page" and ne: "page \<noteq> []"
  shows "map local_row page = map (\<lambda>i. snd (snd i)) (take n (items_after acct mach after st))
    \<and> cursor_well_formed (Some (local_position (last page)))
    \<and> items_after acct mach (Some (local_position (last page))) st = drop (length page) (items_after acct mach after st)"
proof -
  define I where "I = items_after acct mach after st"
  have r: "try_map (export_item fx) (take n I) = Inr page"
    unfolding I_def using page_is_prefix [OF wf pg] by (rule conjunct1)
  have len: "length page = min (length I) n" using try_map_length [OF r] by simp
  have f: "local_position (page ! i) = item_position (I ! i) \<and> local_row (page ! i) = snd (snd (I ! i))"
    if "i < length page" for i
  proof -
    have "export_item fx (take n I ! i) = Inr (page ! i)"
      by (rule try_map_nth [OF r]) (use that len in simp)
    moreover have "take n I ! i = I ! i" using that len by simp
    ultimately show ?thesis using export_item_fields by metis
  qed
  have rows: "map local_row page = map (\<lambda>i. snd (snd i)) (take n I)"
    by (rule nth_equalityI) (use len f in simp_all)
  define k where "k = length page - 1"
  have k: "k < length page" "Suc k = length page" using ne by (cases page; simp add: k_def)+
  then have ki: "k < length I" using len by simp
  have "last page = page ! k" unfolding k_def using ne by (rule last_conv_nth)
  then have lp: "local_position (last page) = item_position (I ! k)" using f [OF k(1)] by simp
  show ?thesis
    unfolding lp k(2) [symmetric] I_def [symmetric]
    using rows items_after_step [OF ok ki [unfolded I_def]] by (simp add: I_def)
qed

end
