(* ===== verification/Federation_Apply.thy ===== *)
theory Federation_Apply
  imports Federation_Store
begin

text \<open>
  What applying a page of a peer does to the store: it stays in the account and the machine of the
  peer, a record that was applied once is never applied again, and the counters of the peer follow
  the pages.
\<close>

section \<open>Scope of a page\<close>

text \<open>Only rows of one account and machine changed, in the tables the rows of a page are written to.\<close>

definition mirror_respected :: "int \<Rightarrow> string \<Rightarrow> store \<Rightarrow> store \<Rightarrow> bool" where
  "mirror_respected acct mach st st' \<longleftrightarrow>
     st' = st\<lparr>machines := machines st', profiles := profiles st', usage_snapshots := usage_snapshots st',
       usage_windows := usage_windows st', last_snapshot_id := last_snapshot_id st', token_usage := token_usage st',
       token_revisions := token_revisions st', context_sessions := context_sessions st'\<rparr>
     \<and> filter (\<lambda>m. \<not> same_machine acct mach m) (machines st') = filter (\<lambda>m. \<not> same_machine acct mach m) (machines st)
     \<and> filter (\<lambda>p. origin p = LocalOrigin) (profiles st') = filter (\<lambda>p. origin p = LocalOrigin) (profiles st)
     \<and> filter (\<lambda>p. prof_account p \<noteq> acct) (profiles st') = filter (\<lambda>p. prof_account p \<noteq> acct) (profiles st)
     \<and> (\<exists>rows. usage_snapshots st' = usage_snapshots st @ rows
          \<and> (\<forall>r \<in> set rows. snap_account (snapshot r) = acct \<and> snap_machine (snapshot r) = mach))
     \<and> last_snapshot_id st \<le> last_snapshot_id st'
     \<and> (\<exists>wins. usage_windows st' = usage_windows st @ wins \<and> (\<forall>w \<in> set wins. last_snapshot_id st < win_snapshot w))
     \<and> filter (\<lambda>r. \<not> (tok_account (grain r) = acct \<and> tok_machine (grain r) = mach)) (token_usage st')
         = filter (\<lambda>r. \<not> (tok_account (grain r) = acct \<and> tok_machine (grain r) = mach)) (token_usage st)
     \<and> filter (\<lambda>v. \<not> (rev_account v = acct \<and> rev_machine v = mach)) (token_revisions st')
         = filter (\<lambda>v. \<not> (rev_account v = acct \<and> rev_machine v = mach)) (token_revisions st)
     \<and> filter (\<lambda>c. \<not> (ctx_account c = acct \<and> ctx_machine c = mach)) (context_sessions st')
         = filter (\<lambda>c. \<not> (ctx_account c = acct \<and> ctx_machine c = mach)) (context_sessions st)"

lemma mirror_respected_refl: "mirror_respected acct mach st st"
  by (simp add: mirror_respected_def)

lemma appended_trans:
  assumes "\<exists>rows. b = a @ rows \<and> (\<forall>r \<in> set rows. P r)" and "\<exists>rows. c = b @ rows \<and> (\<forall>r \<in> set rows. P r)"
  shows "\<exists>rows. c = a @ rows \<and> (\<forall>r \<in> set rows. P r)"
proof -
  obtain r1 r2 where "b = a @ r1" "\<forall>r \<in> set r1. P r" "c = b @ r2" "\<forall>r \<in> set r2. P r" using assms by blast
  then show ?thesis by (intro exI [of _ "r1 @ r2"]) auto
qed

lemma mirror_respected_trans:
  assumes a: "mirror_respected acct mach st st1" and b: "mirror_respected acct mach st1 st2"
  shows "mirror_respected acct mach st st2"
proof -
  note a' = a [unfolded mirror_respected_def] and b' = b [unfolded mirror_respected_def]
  have eq: "st1 = st\<lparr>machines := machines st1, profiles := profiles st1, usage_snapshots := usage_snapshots st1,
       usage_windows := usage_windows st1, last_snapshot_id := last_snapshot_id st1, token_usage := token_usage st1,
       token_revisions := token_revisions st1, context_sessions := context_sessions st1\<rparr>"
    "st2 = st1\<lparr>machines := machines st2, profiles := profiles st2, usage_snapshots := usage_snapshots st2,
       usage_windows := usage_windows st2, last_snapshot_id := last_snapshot_id st2, token_usage := token_usage st2,
       token_revisions := token_revisions st2, context_sessions := context_sessions st2\<rparr>"
    using a' b' by blast+
  have wins: "\<exists>wins. usage_windows st2 = usage_windows st @ wins \<and> (\<forall>w \<in> set wins. last_snapshot_id st < win_snapshot w)"
  proof (rule appended_trans [of "usage_windows st1"])
    show "\<exists>rows. usage_windows st1 = usage_windows st @ rows \<and> (\<forall>w \<in> set rows. last_snapshot_id st < win_snapshot w)"
      using a' by blast
    show "\<exists>rows. usage_windows st2 = usage_windows st1 @ rows \<and> (\<forall>w \<in> set rows. last_snapshot_id st < win_snapshot w)"
      using a' b' by (meson le_less_trans)
  qed
  show ?thesis
    unfolding mirror_respected_def
  proof (intro conjI wins)
    show "st2 = st\<lparr>machines := machines st2, profiles := profiles st2, usage_snapshots := usage_snapshots st2,
       usage_windows := usage_windows st2, last_snapshot_id := last_snapshot_id st2, token_usage := token_usage st2,
       token_revisions := token_revisions st2, context_sessions := context_sessions st2\<rparr>"
      by (subst eq(2), subst eq(1)) simp
    show "\<exists>rows. usage_snapshots st2 = usage_snapshots st @ rows
        \<and> (\<forall>r \<in> set rows. snap_account (snapshot r) = acct \<and> snap_machine (snapshot r) = mach)"
      by (rule appended_trans [of "usage_snapshots st1"]) (use a' b' in blast)+
    show "last_snapshot_id st \<le> last_snapshot_id st2" using a' b' by (meson order_trans)
  qed (use a' b' in metis)+
qed

lemma upsert_machine_effect:
  assumes "upsert_machine m st = Inr (u, st')" and "mach_account m = acct" and "mach_name m = mach"
  shows "mirror_respected acct mach st st'" and "st' = st\<lparr>machines := machines st'\<rparr>"
proof -
  let ?f = "\<lambda>old. old\<lparr>first_seen := min (first_seen old) (first_seen m), last_seen := max (last_seen old) (last_seen m)\<rparr>"
  have st': "st' = st\<lparr>machines := upsert_where (same_machine acct mach) ?f m (machines st)\<rparr>"
    using assms by (auto simp: upsert_machine_def split: if_splits)
  have "filter (\<lambda>x. \<not> same_machine acct mach x) (upsert_where (same_machine acct mach) ?f m (machines st))
      = filter (\<lambda>x. \<not> same_machine acct mach x) (machines st)"
    by (rule upsert_where_filter) (use assms in \<open>auto simp: same_machine_def\<close>)
  then show "mirror_respected acct mach st st'" by (simp add: mirror_respected_def st')
  show "st' = st\<lparr>machines := machines st'\<rparr>" by (simp add: st')
qed

text \<open>One row that was checked against the account and the machine.\<close>

definition row_in_scope :: "int \<Rightarrow> string \<Rightarrow> federated_row \<Rightarrow> bool" where
  "row_in_scope acct mach row \<longleftrightarrow> fed_account row = acct \<and>
     (case row of FedMachine m \<Rightarrow> mach_name m = mach | FedProfile p \<Rightarrow> origin p = Reported
      | FedUsage s \<Rightarrow> snap_machine s = mach | FedContext c \<Rightarrow> ctx_machine c = mach | FedToken g \<Rightarrow> tok_machine g = mach)"

lemma record_validate_scope:
  "record_validate mac acct mach r = Inr u \<Longrightarrow> row_in_scope acct mach (rec_row r)"
  by (cases "rec_row r") (auto simp: record_validate_def row_validate_def row_in_scope_def result_simps split: if_splits)

lemma apply_row_effect:
  assumes ap: "apply_federated_row mac row st = Inr st'" and sc: "row_in_scope acct mach row"
    and ok: "ingest_tables_ok mac st"
  shows "mirror_respected acct mach st st' \<and> ingest_tables_ok mac st'"
proof (cases row)
  case (FedMachine m)
  then obtain u where "upsert_machine m st = Inr (u, st')"
    using ap by (auto simp: apply_federated_row_def result_simps)
  note e = upsert_machine_effect [OF this]
  have "mach_account m = acct" "mach_name m = mach" using sc FedMachine by (simp_all add: row_in_scope_def)
  note e = e [OF this]
  have "ingest_tables_ok mac st'"
    by (subst e(2)) (use ok in \<open>simp add: ingest_tables_ok_def profiles_ok_def account_exists_def
      usage_ok_def context_ok_def gemini_ok_def\<close>)
  then show ?thesis using e(1) by simp
next
  case (FedProfile p)
  then obtain u where up: "upsert_reported_profile mac p st = Inr (u, st')"
    using ap by (auto simp: apply_federated_row_def result_simps)
  note e = upsert_reported_effect [OF _ up]
  have P: "profiles_ok mac st" using ok by (simp add: ingest_tables_ok_def)
  have acct: "prof_account p = acct" using sc FedProfile by (simp add: row_in_scope_def)
  have "filter (\<lambda>q. prof_account q \<noteq> acct) (profiles st') = filter (\<lambda>q. prof_account q \<noteq> acct) (profiles st)"
    by (rule e(5) [OF P]) (use acct in \<open>simp add: profile_key_def\<close>)
  moreover obtain ps where st': "st' = st\<lparr>profiles := ps\<rparr>" using e(2) [OF P] by blast
  ultimately have "mirror_respected acct mach st st'" using e(3) [OF P] by (simp add: mirror_respected_def st')
  moreover have "ingest_tables_ok mac st'"
    using ok e(1) [OF P] by (simp add: ingest_tables_ok_def st' usage_ok_def context_ok_def gemini_ok_def)
  ultimately show ?thesis ..
next
  case (FedUsage s)
  then obtain u where ins: "insert_snapshot s st = Inr (u, st')"
    using ap by (auto simp: apply_federated_row_def result_simps)
  then have "try_fold (\<lambda>s s'. map_ok snd (insert_snapshot s s')) [s] st = Inr st'" by simp
  moreover have U: "usage_ok st" using ok by (simp add: ingest_tables_ok_def)
  ultimately have e: "usage_ok st' \<and> last_snapshot_id st \<le> last_snapshot_id st'
    \<and> st' = st\<lparr>usage_snapshots := usage_snapshots st', usage_windows := usage_windows st',
        last_snapshot_id := last_snapshot_id st'\<rparr>
    \<and> (\<exists>rows. usage_snapshots st' = usage_snapshots st @ rows \<and> map snapshot rows = [s])
    \<and> (\<exists>wins. usage_windows st' = usage_windows st @ wins \<and> (\<forall>w \<in> set wins. last_snapshot_id st < win_snapshot w))"
    by (rule snapshot_batch_frame)
  obtain rows where rows: "usage_snapshots st' = usage_snapshots st @ rows" "map snapshot rows = [s]"
    using e [THEN conjunct2, THEN conjunct2, THEN conjunct2, THEN conjunct1] by (elim exE conjE) (rule that)
  obtain wins where wins: "usage_windows st' = usage_windows st @ wins"
    "\<forall>w \<in> set wins. last_snapshot_id st < win_snapshot w"
    using e [THEN conjunct2, THEN conjunct2, THEN conjunct2, THEN conjunct2] by (elim exE conjE) (rule that)
  obtain n where st': "st' = st\<lparr>usage_snapshots := usage_snapshots st @ rows, usage_windows := usage_windows st @ wins,
      last_snapshot_id := n\<rparr>" using e rows(1) wins(1) by metis
  have "\<forall>r \<in> set rows. snap_account (snapshot r) = acct \<and> snap_machine (snapshot r) = mach"
    using rows(2) sc FedUsage by (auto simp: row_in_scope_def)
  then have "mirror_respected acct mach st st'" using wins(2) e by (simp add: mirror_respected_def st')
  moreover have "ingest_tables_ok mac st'"
    using ok e by (simp add: ingest_tables_ok_def st' profiles_ok_def account_exists_def context_ok_def gemini_ok_def)
  ultimately show ?thesis ..
next
  case (FedContext c)
  then obtain u where "upsert_context c st = Inr (u, st')"
    using ap by (auto simp: apply_federated_row_def result_simps)
  then have st': "st' = st\<lparr>context_sessions := fold put_context [c] (context_sessions st)\<rparr>"
    by (simp add: upsert_context_Inr)
  have "filter (\<lambda>c. \<not> (ctx_account c = acct \<and> ctx_machine c = mach)) (fold put_context [c] (context_sessions st))
      = filter (\<lambda>c. \<not> (ctx_account c = acct \<and> ctx_machine c = mach)) (context_sessions st)"
    by (rule context_table.puts_filter) (use sc FedContext in \<open>auto simp: context_key_def row_in_scope_def\<close>)
  then have "mirror_respected acct mach st st'" by (simp add: mirror_respected_def st' del: fold.simps)
  moreover have "ingest_tables_ok mac st'"
    using ok context_table.puts_distinct [of "context_sessions st" "[c]"]
    by (simp add: ingest_tables_ok_def st' profiles_ok_def account_exists_def usage_ok_def context_ok_def gemini_ok_def
        del: fold.simps)
  ultimately show ?thesis ..
next
  case (FedToken g)
  then show ?thesis using ap ok by (simp add: apply_federated_row_def mirror_respected_refl)
qed

lemma apply_grains_effect:
  assumes up: "upsert_token_batch x gs st = Inr (u, st')"
    and sc: "\<forall>g \<in> set gs. tok_account g = acct \<and> tok_machine g = mach" and ok: "ingest_tables_ok mac st"
  shows "mirror_respected acct mach st st' \<and> ingest_tables_ok mac st'"
proof -
  note t = token_batch_frame [OF up, unfolded token_frame_def]
  obtain tu tr where st': "st' = st\<lparr>token_usage := tu, token_revisions := tr\<rparr>" using t by blast
  let ?G = "grain_scope ` set gs"
  have scoped: "a = acct \<and> m = mach" if "(a, n, m) \<in> ?G" for a n m
    using that sc by (auto simp: grain_scope_def)
  have rows: "\<not> \<not> (tok_account (grain r) = acct \<and> tok_machine (grain r) = mach)" if "grain_scope (grain r) \<in> ?G" for r
    using scoped that unfolding grain_scope_def [of "grain r"] by simp
  have revs: "\<not> \<not> (rev_account v = acct \<and> rev_machine v = mach)" if "rev_scope v \<in> ?G" for v
    using scoped that unfolding rev_scope_def by simp
  have "filter q tu = filter q (token_usage st)" if "\<forall>r. grain_scope (grain r) \<in> ?G \<longrightarrow> \<not> q r" for q
    using t that by (simp add: st')
  from this [OF allI [OF impI [OF rows]]]
  have tf: "filter (\<lambda>r. \<not> (tok_account (grain r) = acct \<and> tok_machine (grain r) = mach)) tu
      = filter (\<lambda>r. \<not> (tok_account (grain r) = acct \<and> tok_machine (grain r) = mach)) (token_usage st)" .
  have "filter q tr = filter q (token_revisions st)" if "\<forall>v. rev_scope v \<in> ?G \<longrightarrow> \<not> q v" for q
    using t that by (simp add: st')
  from this [OF allI [OF impI [OF revs]]]
  have rf: "filter (\<lambda>v. \<not> (rev_account v = acct \<and> rev_machine v = mach)) tr
      = filter (\<lambda>v. \<not> (rev_account v = acct \<and> rev_machine v = mach)) (token_revisions st)" .
  have "distinct (map (\<lambda>r. token_key (grain r)) tu)"
    using t ok by (simp add: st' ingest_tables_ok_def)
  then show ?thesis using tf rf ok
    by (simp add: mirror_respected_def ingest_tables_ok_def st' profiles_ok_def account_exists_def usage_ok_def
        context_ok_def gemini_ok_def)
qed

section \<open>One page\<close>

lemma check_records_Inr:
  "check_records mac acct mach rs seen = Inr u \<longleftrightarrow>
     (\<forall>r \<in> set rs. record_validate mac acct mach r = Inr ()) \<and> distinct (map rec_key rs) \<and> rec_key ` set rs \<inter> seen = {}"
  by (induction rs arbitrary: seen) (auto simp: result_simps split: if_splits)

text \<open>The records that were applied have one key each.\<close>

definition record_id :: "applied_row \<Rightarrow> int \<times> string \<times> string" where
  "record_id r = (applied_account r, applied_machine r, applied_key r)"

definition federation_ok :: "store \<Rightarrow> bool" where
  "federation_ok st \<longleftrightarrow> distinct (map record_id (federation_records st))"

lemma same_record_id: "same_record acct mach k r \<longleftrightarrow> record_id r = (acct, mach, k)"
  by (auto simp: same_record_def record_id_def)

definition known_record :: "fed_extern \<Rightarrow> int \<Rightarrow> string \<Rightarrow> store \<Rightarrow> federated_record \<Rightarrow> bool" where
  "known_record fx acct mach st r \<longleftrightarrow>
     (\<exists>old \<in> set (federation_records st). record_id old = (acct, mach, rec_key r)
        \<and> record_fingerprint fx (rec_row r) = Inr (applied_fingerprint old))"

lemma pending_records_cases:
  assumes "pending_records fx acct mach st rs = Inr pending"
  shows "(\<forall>(r, fp) \<in> set pending. r \<in> set rs \<and> record_fingerprint fx (rec_row r) = Inr fp
        \<and> (\<forall>old \<in> set (federation_records st). record_id old \<noteq> (acct, mach, rec_key r)))
    \<and> (\<forall>r \<in> set rs. known_record fx acct mach st r \<or> (\<exists>fp. (r, fp) \<in> set pending))
    \<and> (distinct (map rec_key rs) \<longrightarrow> distinct (map (\<lambda>p. rec_key (fst p)) pending))"
  using assms
proof (induction rs arbitrary: pending)
  case (Cons r rs)
  obtain fp where fp: "record_fingerprint fx (rec_row r) = Inr fp" using Cons.prems by (auto simp: result_simps)
  show ?case
  proof (cases "find (same_record acct mach (rec_key r)) (federation_records st)")
    case None
    obtain ps where ps: "pending_records fx acct mach st rs = Inr ps" "pending = (r, fp) # ps"
      using Cons.prems None fp by (auto simp: result_simps)
    have "\<forall>old \<in> set (federation_records st). record_id old \<noteq> (acct, mach, rec_key r)"
      using None by (simp add: find_None_iff same_record_id)
    moreover have "distinct (map rec_key (r # rs)) \<longrightarrow> rec_key r \<notin> (\<lambda>p. rec_key (fst p)) ` set ps"
      using Cons.IH [OF ps(1)] by (fastforce split: prod.splits)
    ultimately show ?thesis using Cons.IH [OF ps(1)] fp ps(2) by auto
  next
    case (Some old)
    have "applied_fingerprint old = fp" "pending_records fx acct mach st rs = Inr pending"
      using Cons.prems Some fp by (auto split: if_splits)
    moreover have "old \<in> set (federation_records st)" "record_id old = (acct, mach, rec_key r)"
      using find_Some_mem [OF Some] by (simp_all add: same_record_id)
    ultimately have "known_record fx acct mach st r" using fp unfolding known_record_def by blast
    then show ?thesis using Cons.IH [OF \<open>pending_records fx acct mach st rs = Inr pending\<close>] by fastforce
  qed
qed simp

lemma pending_records_known:
  assumes "\<forall>r \<in> set rs. known_record fx acct mach st r" and ok: "federation_ok st"
  shows "pending_records fx acct mach st rs = Inr []"
  using assms(1)
proof (induction rs)
  case (Cons r rs)
  obtain old where old: "old \<in> set (federation_records st)" "record_id old = (acct, mach, rec_key r)"
    "record_fingerprint fx (rec_row r) = Inr (applied_fingerprint old)"
    using Cons.prems by (auto simp: known_record_def)
  have "find (same_record acct mach (rec_key r)) (federation_records st) = Some old"
    by (rule find_unique)
      (use old ok in \<open>auto simp: same_record_id federation_ok_def distinct_map inj_on_def\<close>)
  then show ?case using old(3) Cons by simp
qed simp

lemma apply_page_cases:
  assumes "apply_federation_page fx x mac time acct mach cur nxt rs st = Inr (s', st')"
  obtains s pending st1 st2 u where
    "\<forall>r \<in> set rs. record_validate mac acct mach r = Inr ()" "distinct (map rec_key rs)"
    "load_federation_state acct mach st = Inr s" "fed_cursor s = cur" "\<not> fed_complete s"
    "pending_records fx acct mach st (sort_key (\<lambda>r. apply_priority (rec_row r)) rs) = Inr pending"
    "try_fold (apply_federated_row mac) (map (\<lambda>p. rec_row (fst p)) pending) st = Inr st1"
    "upsert_token_batch x (fed_grains (map (\<lambda>p. rec_row (fst p)) pending)) st1 = Inr (u, st2)"
    "st' = st2\<lparr>federation_records := federation_records st2 @ applied_rows acct mach time pending,
       federation_peers := update_where (is_peer acct mach)
         (\<lambda>r. r\<lparr>peer_cursor := nxt, pages_applied := pages_applied r + 1,
                records_applied := records_applied r + length pending,
                peer_complete := (nxt = None)\<rparr>) (federation_peers st2)\<rparr>"
    "load_federation_state acct mach st' = Inr s'"
  using assms
  by (auto simp: apply_federation_page_def Let_def result_simps check_records_Inr split: if_splits prod.splits)

lemma mirror_respected_federation:
  "mirror_respected acct mach st st' \<Longrightarrow> federation_peers st' = federation_peers st
     \<and> federation_records st' = federation_records st \<and> accounts st' = accounts st"
proof -
  assume "mirror_respected acct mach st st'"
  then have "st' = st\<lparr>machines := machines st', profiles := profiles st', usage_snapshots := usage_snapshots st',
       usage_windows := usage_windows st', last_snapshot_id := last_snapshot_id st', token_usage := token_usage st',
       token_revisions := token_revisions st', context_sessions := context_sessions st'\<rparr>"
    unfolding mirror_respected_def by (rule conjunct1)
  then show ?thesis by (metis store.select_convs store.surjective store.update_convs)
qed

lemma fed_grains_mem: "g \<in> set (fed_grains rows) \<Longrightarrow> FedToken g \<in> set rows"
  by (auto simp: fed_grains_def List.map_filter_def split: federated_row.splits)

text \<open>The rows of a page, and then the bookkeeping.\<close>

definition page_done :: "int \<Rightarrow> string \<Rightarrow> string option \<Rightarrow> nat \<Rightarrow> peer_row list \<Rightarrow> peer_row list" where
  "page_done acct mach nxt n peers =
     update_where (is_peer acct mach)
       (\<lambda>r. r\<lparr>peer_cursor := nxt, pages_applied := pages_applied r + 1, records_applied := records_applied r + n,
              peer_complete := (nxt = None)\<rparr>) peers"

lemma apply_page_split:
  assumes ap: "apply_federation_page fx x mac time acct mach cur nxt rs st = Inr (s', st')"
    and ok: "ingest_tables_ok mac st"
  obtains s pending st2 where
    "\<forall>r \<in> set rs. record_validate mac acct mach r = Inr ()" "distinct (map rec_key rs)"
    "load_federation_state acct mach st = Inr s" "fed_cursor s = cur" "\<not> fed_complete s"
    "pending_records fx acct mach st (sort_key (\<lambda>r. apply_priority (rec_row r)) rs) = Inr pending"
    "mirror_respected acct mach st st2" "ingest_tables_ok mac st2"
    "st' = st2\<lparr>federation_records := federation_records st @ applied_rows acct mach time pending,
       federation_peers := page_done acct mach nxt (length pending) (federation_peers st)\<rparr>"
    "load_federation_state acct mach st' = Inr s'"
  using ap
proof (cases rule: apply_page_cases)
  case (1 s pending st1 st2 u)
  let ?rows = "map (\<lambda>p. rec_row (fst p)) pending"
  have sc: "row_in_scope acct mach row" if row: "row \<in> set ?rows" for row
  proof -
    obtain r fp where r: "(r, fp) \<in> set pending" "row = rec_row r" using row by auto
    then have "r \<in> set rs" using pending_records_cases [OF 1(6)] by auto
    then have "record_validate mac acct mach r = Inr ()" using 1(1) by blast
    then show ?thesis unfolding r(2) by (rule record_validate_scope)
  qed
  have a: "mirror_respected acct mach st st1 \<and> ingest_tables_ok mac st1"
  proof (rule try_fold_invariant [OF 1(7), where P = "\<lambda>t. mirror_respected acct mach st t \<and> ingest_tables_ok mac t"])
    fix row t t' assume "row \<in> set ?rows" "mirror_respected acct mach st t \<and> ingest_tables_ok mac t"
      "apply_federated_row mac row t = Inr t'"
    then show "mirror_respected acct mach st t' \<and> ingest_tables_ok mac t'"
      using apply_row_effect [OF _ sc] mirror_respected_trans by blast
  qed (use ok mirror_respected_refl in simp)
  have "tok_account g = acct \<and> tok_machine g = mach" if "g \<in> set (fed_grains ?rows)" for g
    using sc [OF fed_grains_mem [OF that]] by (simp add: row_in_scope_def)
  then have b: "mirror_respected acct mach st1 st2 \<and> ingest_tables_ok mac st2"
    using apply_grains_effect [OF 1(8)] a by blast
  then have c: "mirror_respected acct mach st st2" using a mirror_respected_trans by blast
  show ?thesis
    by (rule that [OF 1(1-6) c conjunct2 [OF b] _ 1(10)])
      (use mirror_respected_federation [OF c] 1(9) in \<open>simp add: page_done_def\<close>)
qed

lemma load_state_Inr:
  "load_federation_state acct mach st = Inr s \<longleftrightarrow>
     (\<exists>r. find (is_peer acct mach) (federation_peers st) = Some r
        \<and> s = \<lparr>fed_cursor = peer_cursor r, fed_generation = peer_generation r, fed_pages = pages_applied r,
               fed_records = records_applied r, fed_complete = peer_complete r\<rparr>
        \<and> (\<forall>c. peer_cursor r = Some c \<longrightarrow> opaque_cursor_new c = Inr c))"
proof -
  have "opaque_cursor_new c = Inr c' \<Longrightarrow> c' = c" for c c' by (auto simp: opaque_cursor_new_def split: if_splits)
  then show ?thesis
    by (fastforce simp: load_federation_state_def result_simps split: option.splits)
qed

lemma load_state_page:
  assumes "load_federation_state acct mach st = Inr s" and "federation_peers st' = page_done acct mach nxt n (federation_peers st)"
    and "load_federation_state acct mach st' = Inr s' \<or> (\<forall>c. nxt = Some c \<longrightarrow> opaque_cursor_new c = Inr c)"
  shows "load_federation_state acct mach st' = Inr \<lparr>fed_cursor = nxt, fed_generation = fed_generation s,
    fed_pages = fed_pages s + 1, fed_records = fed_records s + n, fed_complete = (nxt = None)\<rparr>"
proof -
  obtain r where r: "find (is_peer acct mach) (federation_peers st) = Some r"
    "fed_generation s = peer_generation r" "fed_pages s = pages_applied r" "fed_records s = records_applied r"
    using assms(1) by (auto simp: load_state_Inr)
  have f: "find (is_peer acct mach) (federation_peers st') = Some (r\<lparr>peer_cursor := nxt, pages_applied := pages_applied r + 1,
                records_applied := records_applied r + n, peer_complete := (nxt = None)\<rparr>)"
    unfolding assms(2) page_done_def by (subst find_update_where) (simp_all add: r is_peer_def)
  then have "\<forall>c. nxt = Some c \<longrightarrow> opaque_cursor_new c = Inr c"
    using assms(3) by (auto simp: load_state_Inr)
  then show ?thesis using f r by (simp add: load_state_Inr)
qed

lemma page_done_others:
  "filter (\<lambda>r. \<not> is_peer acct mach r) (page_done acct mach nxt n peers) = filter (\<lambda>r. \<not> is_peer acct mach r) peers"
  by (induction peers) (auto simp: page_done_def is_peer_def)

lemma applied_rows_ids:
  "map record_id (applied_rows acct mach time pending) = map (\<lambda>p. (acct, mach, rec_key (fst p))) pending"
  by (auto simp: applied_rows_def record_id_def)

lemma apply_page_records:
  assumes ap: "apply_federation_page fx x mac time acct mach cur nxt rs st = Inr (s', st')"
    and tb: "ingest_tables_ok mac st" and ok: "federation_ok st"
  shows "federation_ok st' \<and> (\<forall>r \<in> set rs. known_record fx acct mach st' r)"
  using ap tb
proof (cases rule: apply_page_split)
  case (1 s pending st2)
  note p = pending_records_cases [OF 1(6)]
  have recs: "federation_records st' = federation_records st @ applied_rows acct mach time pending" by (simp add: 1(9))
  have "distinct (map rec_key (sort_key (\<lambda>r. apply_priority (rec_row r)) rs))"
    using 1(2) by (simp add: distinct_map)
  then have "distinct (map (\<lambda>p. rec_key (fst p)) pending)" using p by blast
  then have d: "distinct (map (\<lambda>p. (acct, mach, rec_key (fst p))) pending)"
    by (simp add: distinct_map inj_on_def)
  have "set (map record_id (federation_records st)) \<inter> set (map (\<lambda>p. (acct, mach, rec_key (fst p))) pending) = {}"
    using p by fastforce
  then have "federation_ok st'"
    using ok d by (simp add: federation_ok_def recs applied_rows_ids del: set_map)
  moreover have "known_record fx acct mach st' r" if r: "r \<in> set rs" for r
  proof -
    have "known_record fx acct mach st r \<or> (\<exists>fp. (r, fp) \<in> set pending)" using p r by simp
    then show ?thesis
    proof
      assume "known_record fx acct mach st r"
      then show ?thesis unfolding known_record_def recs by auto
    next
      assume "\<exists>fp. (r, fp) \<in> set pending"
      then obtain fp where fp: "(r, fp) \<in> set pending" ..
      let ?new = "\<lparr>applied_account = acct, applied_machine = mach, applied_key = rec_key r,
                   applied_fingerprint = fp, applied_at = time\<rparr>"
      have "?new \<in> set (federation_records st')" using fp by (force simp: recs applied_rows_def)
      moreover have "record_fingerprint fx (rec_row r) = Inr fp" using p fp by auto
      ultimately show ?thesis unfolding known_record_def by (intro bexI [of _ ?new]) (simp_all add: record_id_def)
    qed
  qed
  ultimately show ?thesis by blast
qed

text \<open>An accepted page: the rows of the peer, the records that are new, and the cursor row.\<close>

lemma page_stays_in_scope:
  assumes "apply_federation_page fx x mac time acct mach cur nxt rs st = Inr (s', st')"
    and "ingest_tables_ok mac st"
  shows "(\<exists>st2 new s. mirror_respected acct mach st st2
      \<and> st' = st2\<lparr>federation_records := federation_records st @ new,
               federation_peers := page_done acct mach nxt (length new) (federation_peers st)\<rparr>
      \<and> (\<forall>r \<in> set new. applied_account r = acct \<and> applied_machine r = mach \<and> applied_key r \<in> rec_key ` set rs)
      \<and> load_federation_state acct mach st = Inr s \<and> fed_cursor s = cur \<and> \<not> fed_complete s
      \<and> s' = \<lparr>fed_cursor = nxt, fed_generation = fed_generation s, fed_pages = fed_pages s + 1,
              fed_records = fed_records s + length new, fed_complete = (nxt = None)\<rparr>) \<and> ingest_tables_ok mac st'"
proof -
  obtain s pending st2 where 1:
    "load_federation_state acct mach st = Inr s" "fed_cursor s = cur" "\<not> fed_complete s"
    "pending_records fx acct mach st (sort_key (\<lambda>r. apply_priority (rec_row r)) rs) = Inr pending"
    "mirror_respected acct mach st st2" "ingest_tables_ok mac st2"
    "st' = st2\<lparr>federation_records := federation_records st @ applied_rows acct mach time pending,
       federation_peers := page_done acct mach nxt (length pending) (federation_peers st)\<rparr>"
    "load_federation_state acct mach st' = Inr s'"
    using assms by (rule apply_page_split)
  let ?new = "applied_rows acct mach time pending"
  have n: "length ?new = length pending" by (simp add: applied_rows_def)
  have new: "\<forall>r \<in> set ?new. applied_account r = acct \<and> applied_machine r = mach \<and> applied_key r \<in> rec_key ` set rs"
    using pending_records_cases [OF 1(4)] by (auto simp: applied_rows_def)
  have s': "s' = \<lparr>fed_cursor = nxt, fed_generation = fed_generation s, fed_pages = fed_pages s + 1,
              fed_records = fed_records s + length ?new, fed_complete = (nxt = None)\<rparr>"
    using load_state_page [of acct mach st s st' nxt "length pending" s'] 1(1,7,8) by (simp add: n)
  have "\<exists>st2 new s. mirror_respected acct mach st st2
      \<and> st' = st2\<lparr>federation_records := federation_records st @ new,
               federation_peers := page_done acct mach nxt (length new) (federation_peers st)\<rparr>
      \<and> (\<forall>r \<in> set new. applied_account r = acct \<and> applied_machine r = mach \<and> applied_key r \<in> rec_key ` set rs)
      \<and> load_federation_state acct mach st = Inr s \<and> fed_cursor s = cur \<and> \<not> fed_complete s
      \<and> s' = \<lparr>fed_cursor = nxt, fed_generation = fed_generation s, fed_pages = fed_pages s + 1,
              fed_records = fed_records s + length new, fed_complete = (nxt = None)\<rparr>"
    using 1(1-3,5,7) new s' by (intro exI [of _ st2] exI [of _ ?new] exI [of _ s]) (simp add: n)
  moreover have "ingest_tables_ok mac st'"
    using 1(6) by (simp add: 1(7) ingest_tables_ok_def profiles_ok_def account_exists_def usage_ok_def context_ok_def gemini_ok_def)
  ultimately show ?thesis ..
qed

lemma known_page_applied:
  assumes known: "\<forall>r \<in> set rs'. known_record fx acct mach st2 r" and ok: "federation_ok st2"
    and val: "\<forall>r \<in> set rs'. record_validate mac acct mach r = Inr ()" and "distinct (map rec_key rs')"
    and peer: "load_federation_state acct mach st2 = Inr s" "\<not> fed_complete s"
      "\<forall>c. nxt' = Some c \<longrightarrow> opaque_cursor_new c = Inr c"
  shows "apply_federation_page fx x mac time' acct mach (fed_cursor s) nxt' rs' st2 =
    Inr (\<lparr>fed_cursor = nxt', fed_generation = fed_generation s, fed_pages = fed_pages s + 1,
          fed_records = fed_records s, fed_complete = (nxt' = None)\<rparr>,
         st2\<lparr>federation_peers := page_done acct mach nxt' 0 (federation_peers st2)\<rparr>)"
proof -
  have p: "pending_records fx acct mach st2 (sort_key (\<lambda>r. apply_priority (rec_row r)) rs') = Inr []"
    using known by (intro pending_records_known [OF _ ok]) simp
  have c: "check_records mac acct mach rs' {} = Inr ()"
    using val assms(4) by (simp add: check_records_Inr)
  let ?st = "st2\<lparr>federation_peers := page_done acct mach nxt' 0 (federation_peers st2)\<rparr>"
  have l: "load_federation_state acct mach ?st = Inr \<lparr>fed_cursor = nxt', fed_generation = fed_generation s,
      fed_pages = fed_pages s + 1, fed_records = fed_records s + 0, fed_complete = (nxt' = None)\<rparr>"
    by (rule load_state_page [OF peer(1)]) (use peer(3) in simp_all)
  have b: "upsert_token_batch x [] st2 = Inr ((), st2)" by (simp add: upsert_token_batch_def batch_scopes_def)
  show ?thesis
    using l peer(2) by (simp add: apply_federation_page_def c peer(1) p fed_grains_def applied_rows_def b page_done_def)
qed

text \<open>
  A record is applied once: after a page was accepted, and after whatever else was remembered since,
  a page of records of that page is accepted at any later cursor and time, whoever sends it again,
  and moves the cursor of the peer without touching another table.
\<close>

theorem records_apply_once:
  assumes "apply_federation_page fx x mac time acct mach cur nxt rs st = Inr (s1, st1)"
    and "ingest_tables_ok mac st" and "federation_ok st"
    and later: "set (federation_records st1) \<subseteq> set (federation_records st2)" "federation_ok st2"
    and again: "set rs' \<subseteq> set rs" "distinct (map rec_key rs')"
    and peer: "load_federation_state acct mach st2 = Inr s" "\<not> fed_complete s"
      "\<forall>c. nxt' = Some c \<longrightarrow> opaque_cursor_new c = Inr c"
  shows "apply_federation_page fx x mac time' acct mach (fed_cursor s) nxt' rs' st2 =
    Inr (\<lparr>fed_cursor = nxt', fed_generation = fed_generation s, fed_pages = fed_pages s + 1,
          fed_records = fed_records s, fed_complete = (nxt' = None)\<rparr>,
         st2\<lparr>federation_peers := page_done acct mach nxt' 0 (federation_peers st2)\<rparr>)"
proof (rule known_page_applied)
  have val: "\<forall>r \<in> set rs. record_validate mac acct mach r = Inr ()"
    using assms(1,2) by (rule apply_page_split)
  then show "\<forall>r \<in> set rs'. record_validate mac acct mach r = Inr ()" using again(1) by blast
  show "\<forall>r \<in> set rs'. known_record fx acct mach st2 r"
    using apply_page_records [OF assms(1-3)] again(1) later(1) unfolding known_record_def by blast
qed (use later(2) again(2) peer in simp_all)

text \<open>What any number of pages, accepted or not, may have changed.\<close>

definition peer_scope :: "int \<Rightarrow> string \<Rightarrow> store \<Rightarrow> store \<Rightarrow> bool" where
  "peer_scope acct mach st st' \<longleftrightarrow>
     (\<exists>st2 new. mirror_respected acct mach st st2
        \<and> st' = st2\<lparr>federation_records := federation_records st @ new, federation_peers := federation_peers st'\<rparr>
        \<and> (\<forall>r \<in> set new. applied_account r = acct \<and> applied_machine r = mach))
     \<and> filter (\<lambda>r. \<not> is_peer acct mach r) (federation_peers st')
         = filter (\<lambda>r. \<not> is_peer acct mach r) (federation_peers st)"

lemma peer_scope_refl: "peer_scope acct mach st st"
  unfolding peer_scope_def by (intro conjI exI [of _ st] exI [of _ "[]"] mirror_respected_refl) simp_all

lemma mirror_respected_over:
  assumes "mirror_respected acct mach (st\<lparr>federation_records := rs, federation_peers := ps\<rparr>) st2"
  shows "mirror_respected acct mach st (st2\<lparr>federation_records := federation_records st, federation_peers := federation_peers st\<rparr>)"
proof -
  have "st2 = st\<lparr>federation_records := rs, federation_peers := ps, machines := machines st2, profiles := profiles st2,
       usage_snapshots := usage_snapshots st2,
       usage_windows := usage_windows st2, last_snapshot_id := last_snapshot_id st2, token_usage := token_usage st2,
       token_revisions := token_revisions st2, context_sessions := context_sessions st2\<rparr>"
    using assms [unfolded mirror_respected_def, THEN conjunct1] .
  then obtain a b c d e f g h where st2: "st2 = st\<lparr>federation_records := rs, federation_peers := ps, machines := a, profiles := b,
       usage_snapshots := c, usage_windows := d, last_snapshot_id := e, token_usage := f,
       token_revisions := g, context_sessions := h\<rparr>"
    by blast
  show ?thesis using assms unfolding st2 by (simp add: mirror_respected_def)
qed

lemma peer_scope_trans:
  assumes a: "peer_scope acct mach st st1" and b: "peer_scope acct mach st1 st2"
  shows "peer_scope acct mach st st2"
proof -
  obtain m1 n1 where 1: "mirror_respected acct mach st m1"
    "st1 = m1\<lparr>federation_records := federation_records st @ n1, federation_peers := federation_peers st1\<rparr>"
    "\<forall>r \<in> set n1. applied_account r = acct \<and> applied_machine r = mach"
    using a unfolding peer_scope_def by (elim conjE exE) (rule that)
  obtain m2 n2 where 2: "mirror_respected acct mach st1 m2"
    "st2 = m2\<lparr>federation_records := federation_records st1 @ n2, federation_peers := federation_peers st2\<rparr>"
    "\<forall>r \<in> set n2. applied_account r = acct \<and> applied_machine r = mach"
    using b unfolding peer_scope_def by (elim conjE exE) (rule that)
  have "mirror_respected acct mach (m1\<lparr>federation_records := federation_records st @ n1, federation_peers := federation_peers st1\<rparr>) m2"
    using 2(1) by (simp only: 1(2) [symmetric])
  from mirror_respected_trans [OF 1(1) mirror_respected_over [OF this]]
  have m: "mirror_respected acct mach st (m2\<lparr>federation_records := federation_records m1, federation_peers := federation_peers m1\<rparr>)" .
  have r: "federation_records st1 = federation_records st @ n1" by (subst 1(2)) simp
  have "st2 = (m2\<lparr>federation_records := federation_records m1, federation_peers := federation_peers m1\<rparr>)
      \<lparr>federation_records := federation_records st @ n1 @ n2, federation_peers := federation_peers st2\<rparr>"
    by (subst 2(2)) (simp add: r)
  moreover have "\<forall>r \<in> set (n1 @ n2). applied_account r = acct \<and> applied_machine r = mach" using 1(3) 2(3) by auto
  moreover have "filter (\<lambda>r. \<not> is_peer acct mach r) (federation_peers st2)
      = filter (\<lambda>r. \<not> is_peer acct mach r) (federation_peers st)"
    using a b unfolding peer_scope_def by metis
  ultimately show ?thesis using m unfolding peer_scope_def by blast
qed

lemma apply_page_scope:
  assumes "apply_federation_page fx x mac time acct mach cur nxt rs st = Inr (s', st')" and "ingest_tables_ok mac st"
  shows "peer_scope acct mach st st' \<and> ingest_tables_ok mac st'"
proof -
  obtain st2 new where m: "mirror_respected acct mach st st2"
    and st': "st' = st2\<lparr>federation_records := federation_records st @ new,
               federation_peers := page_done acct mach nxt (length new) (federation_peers st)\<rparr>"
    and new: "\<forall>r \<in> set new. applied_account r = acct \<and> applied_machine r = mach \<and> applied_key r \<in> rec_key ` set rs"
    using page_stays_in_scope [OF assms] by blast
  have "st' = st2\<lparr>federation_records := federation_records st @ new, federation_peers := federation_peers st'\<rparr>"
    by (simp add: st')
  moreover have "filter (\<lambda>r. \<not> is_peer acct mach r) (federation_peers st')
      = filter (\<lambda>r. \<not> is_peer acct mach r) (federation_peers st)"
    by (simp add: st' page_done_others)
  ultimately have "peer_scope acct mach st st'" using m new unfolding peer_scope_def by blast
  then show ?thesis using page_stays_in_scope [OF assms] by blast
qed

end
