(* ===== verification/Invalidation_Hub.thy ===== *)
theory Invalidation_Hub
  imports Pulse_Base
begin

text \<open>
  \<open>src/src/pulse/invalidation.rs\<close>: the revision counters behind the browser notifications. A hub maps
  each configured account to its state; the watch channel of an account holds the revision that was
  sent last. A subscriber is the account and the revision it has seen.
\<close>

record invalidation_state =
  hub_revision :: nat
  hub_sent :: nat

type_synonym invalidation_hub = "int \<Rightarrow> invalidation_state option"

definition hub_new :: "int list \<Rightarrow> invalidation_hub" where
  "hub_new accts = (\<lambda>a. if a \<in> set accts then Some \<lparr>hub_revision = 0, hub_sent = 0\<rparr> else None)"

definition hub_advance :: "invalidation_state \<Rightarrow> invalidation_state option" where
  "hub_advance s =
     (case checked_u64 (hub_revision s + 1) of
        None \<Rightarrow> None
      | Some r \<Rightarrow> Some (s\<lparr>hub_revision := r, hub_sent := r\<rparr>))"

definition hub_publish :: "int \<Rightarrow> invalidation_hub \<Rightarrow> bool \<times> invalidation_hub" where
  "hub_publish acct hub =
     (case hub acct of
        None \<Rightarrow> (False, hub)
      | Some s \<Rightarrow> (case hub_advance s of None \<Rightarrow> (False, hub) | Some s' \<Rightarrow> (True, hub(acct \<mapsto> s'))))"

definition hub_subscribe :: "int \<Rightarrow> invalidation_hub \<Rightarrow> nat pulse_result" where
  "hub_subscribe acct hub =
     map_ok hub_revision (ok_or (new_error NotFound ''Pulse account was not found'') (hub acct))"

text \<open>A receiver that has seen a revision is woken by a later one, and reads the latest.\<close>

definition hub_changed :: "int \<Rightarrow> nat \<Rightarrow> invalidation_hub \<Rightarrow> nat option" where
  "hub_changed acct seen hub =
     (case hub acct of None \<Rightarrow> None | Some s \<Rightarrow> if hub_sent s \<noteq> seen then Some (hub_sent s) else None)"

definition publish_all :: "int list \<Rightarrow> invalidation_hub \<Rightarrow> invalidation_hub" where
  "publish_all = fold (\<lambda>a h. snd (hub_publish a h))"

definition hub_ok :: "invalidation_hub \<Rightarrow> bool" where
  "hub_ok hub \<longleftrightarrow> (\<forall>a s. hub a = Some s \<longrightarrow> hub_sent s = hub_revision s \<and> hub_revision s \<le> u64_max)"

lemma hub_new_ok: "hub_ok (hub_new accts)"
  by (simp add: hub_ok_def hub_new_def)

lemma publish_ok: "hub_ok hub \<Longrightarrow> hub_ok (snd (hub_publish a hub))"
  by (auto simp: hub_ok_def hub_publish_def hub_advance_def checked_u64_def split: option.splits)

lemma publish_state:
  assumes "hub_ok hub"
  shows "map_option hub_revision (snd (hub_publish a hub) b)
    = map_option (\<lambda>s. if a = b then min u64_max (hub_revision s + 1) else hub_revision s) (hub b)"
proof -
  have "hub_revision s \<le> u64_max" if "hub a = Some s" for s using assms that by (auto simp: hub_ok_def)
  then show ?thesis
    by (cases "hub a"; cases "hub b") (auto simp: hub_publish_def hub_advance_def checked_u64_def min_def le_antisym split: option.splits if_splits)
qed

text \<open>
  The revision of an account counts the mutations that were published for it and nothing else: it
  never wraps or repeats, publications for other accounts do not move it, an account outside the
  configured list never gets one, and a subscriber that was told a revision is woken exactly when
  something was published for its account since, while revisions last.
\<close>

theorem hub_counts_publications:
  assumes ok: "hub_ok hub" and sub: "hub_subscribe acct hub = Inr seen"
  shows "\<exists>s. publish_all events hub acct = Some s \<and> hub_sent s = hub_revision s
      \<and> hub_revision s = min u64_max (seen + count_list events acct)
      \<and> (hub_changed acct seen (publish_all events hub) \<noteq> None \<longleftrightarrow> acct \<in> set events \<and> seen < u64_max)
      \<and> dom (publish_all events hub) = dom hub"
proof -
  have keep: "hub_ok (publish_all events h) \<and> dom (publish_all events h) = dom h
      \<and> map_option hub_revision (publish_all events h acct)
        = map_option (\<lambda>s. min u64_max (hub_revision s + count_list events acct)) (h acct)" if "hub_ok h" for h
    using that
  proof (induction events arbitrary: h)
    case Nil
    then show ?case by (auto simp: publish_all_def hub_ok_def intro!: option.map_cong0)
  next
    case (Cons a events)
    have "dom (snd (hub_publish a h)) = dom h"
      by (auto simp: hub_publish_def hub_advance_def split: option.splits)
    moreover have "map_option (\<lambda>s. min u64_max (hub_revision s + count_list events acct)) (snd (hub_publish a h) acct)
        = map_option (\<lambda>s. min u64_max (hub_revision s + count_list (a # events) acct)) (h acct)"
      using publish_state [OF Cons.prems, of a acct]
      by (cases "h acct"; cases "snd (hub_publish a h) acct") auto
    ultimately show ?case using Cons.IH [OF publish_ok [OF Cons.prems, of a]] by (simp add: publish_all_def)
  qed
  obtain s0 where s0: "hub acct = Some s0" "hub_revision s0 = seen" "seen \<le> u64_max"
    using sub ok by (auto simp: hub_subscribe_def hub_ok_def result_simps)
  note k = keep [OF ok]
  obtain s where s: "publish_all events hub acct = Some s"
    "hub_revision s = min u64_max (seen + count_list events acct)"
    using k s0 by auto
  have "hub_sent s = hub_revision s" using k s(1) by (simp add: hub_ok_def)
  moreover have "hub_changed acct seen (publish_all events hub) \<noteq> None \<longleftrightarrow> acct \<in> set events \<and> seen < u64_max"
  proof (cases "acct \<in> set events")
    case True
    then have "0 < count_list events acct" using count_list_0_iff by (metis gr0I)
    then show ?thesis using s s0(3) calculation True by (auto simp: hub_changed_def min_def)
  next
    case False
    then show ?thesis using s s0(3) calculation by (simp add: hub_changed_def)
  qed
  ultimately show ?thesis using s k by blast
qed

theorem hub_counts_publications_witness:
  "\<exists>s. publish_all [1, 2, 1] (hub_new [1, 2]) 1 = Some s \<and> hub_revision s = 2"
proof -
  have "hub_subscribe 1 (hub_new [1, 2]) = Inr 0" by (simp add: hub_subscribe_def hub_new_def)
  from hub_counts_publications [OF hub_new_ok this, of "[1, 2, 1]"] show ?thesis
    by (auto simp: u64_max_def)
qed

end
