(* ===== verification/Pulse_Federation.thy ===== *)
theory Pulse_Federation
  imports Federation_Apply Invalidation_Hub
begin

text \<open>
  The two sides of a pull in \<open>src/src/pulse/federation.rs\<close>: the exporter that serves the local rows in
  pages, and the puller that validates the pages of a peer and hands them to the store. Base64 and the
  JSON of a cursor are parameters; the transport is a function from the number of the call and the
  request to the page or the error that came back.
\<close>

section \<open>Cursors\<close>

definition export_cursor :: "fed_extern \<Rightarrow> export_position \<Rightarrow> string pulse_result" where
  "export_cursor fx pos =
     and_then (ok_or (new_error Internal ''Pulse federation cursor could not be encoded'')
         (position_json fx pos)) (\<lambda>encoded.
       opaque_cursor_new (''v2.'' @ b64_encode fx encoded))"

definition parse_export_cursor :: "fed_extern \<Rightarrow> string option \<Rightarrow> export_position option pulse_result" where
  "parse_export_cursor fx cur =
     (case cur of
        None \<Rightarrow> Inr None
      | Some c \<Rightarrow>
          if take 3 c \<noteq> ''v2.'' then Inl (invalid_input ''Pulse federation cursor version is invalid'')
          else and_then (ok_or (invalid_input ''Pulse federation cursor is invalid'') (b64_decode fx (drop 3 c))) (\<lambda>decoded.
               and_then (ok_or (invalid_input ''Pulse federation cursor is invalid'') (position_parse fx decoded)) (\<lambda>p.
                 map_ok Some (export_position_new (phase p) (position_values p)))))"

text \<open>The derived order of a position: its phase, then its values as strings.\<close>

definition position_order :: "export_position \<Rightarrow> nat \<times> string list" where
  "position_order p = (phase p, position_values p)"

section \<open>Serving a page\<close>

record federation_request =
  fr_account :: int
  fr_machine :: string
  fr_cursor :: "string option"
  fr_limit :: nat

record federation_page =
  page_version :: nat
  page_source :: string
  page_records :: "federated_record list"
  page_next :: "string option"

definition page_validate :: "bool \<Rightarrow> int \<Rightarrow> string \<Rightarrow> nat \<Rightarrow> federation_page \<Rightarrow> unit pulse_result" where
  "page_validate mac acct expected requested p =
     (if page_version p \<noteq> federation_version \<or> page_source p \<noteq> expected
      then Inl (new_error Conflict ''Pulse federation peer identity or version did not match'')
      else if length (page_records p) > min requested max_page_rows
      then Inl (new_error Upstream ''Pulse federation page exceeded its row bound'')
      else and_then (try_each (record_validate mac acct expected) (page_records p)) (\<lambda>_.
        if page_records p = [] \<and> page_next p \<noteq> None
        then Inl (new_error Upstream ''Pulse federation peer returned a non-advancing cursor'') else Inr ()))"

text \<open>
  \<open>StoreFederationSource\<close>: one row more than the limit is read to learn whether there is a next page.
\<close>

definition source_page ::
    "fed_extern \<Rightarrow> int set \<Rightarrow> string \<Rightarrow> store \<Rightarrow> federation_request \<Rightarrow> (local_record list \<times> string option) pulse_result" where
  "source_page fx accts local_machine st req =
     (if fr_account req \<notin> accts \<or> fr_machine req \<noteq> local_machine
      then Inl (new_error NotFound ''Pulse federation account was not found'')
      else and_then (parse_export_cursor fx (fr_cursor req)) (\<lambda>after.
        and_then (local_federation_page fx (fr_account req) local_machine after (fr_limit req + 1) st)
          (\<lambda>page.
           let kept = take (fr_limit req) page in
           and_then (if length page > fr_limit req \<and> kept \<noteq> []
                     then map_ok Some (export_cursor fx (local_position (last kept))) else Inr None)
             (\<lambda>next_cursor. Inr (kept, next_cursor)))))"

definition federate :: "string \<Rightarrow> local_record \<Rightarrow> federated_record" where
  "federate mach r = \<lparr>rec_key = local_key r, rec_origin = origin_local mach, rec_row = local_row r\<rparr>"

definition exporter_page ::
    "fed_extern \<Rightarrow> bool \<Rightarrow> string \<Rightarrow> (federation_request \<Rightarrow> (local_record list \<times> string option) pulse_result)
      \<Rightarrow> int \<Rightarrow> string option \<Rightarrow> nat \<Rightarrow> federation_page pulse_result" where
  "exporter_page fx mac local_machine src acct cur n =
     (if n = 0 \<or> n > max_page_rows
      then Inl (invalid_input ''Pulse federation page limit is out of bounds'')
      else and_then (src \<lparr>fr_account = acct, fr_machine = local_machine, fr_cursor = cur, fr_limit = n\<rparr>) (\<lambda>(rs, nxt).
        if length rs > n
        then Inl (new_error Storage ''Pulse federation source exceeded its row bound'')
        else let p = \<lparr>page_version = federation_version, page_source = local_machine,
                      page_records = map (federate local_machine) rs, page_next = nxt\<rparr>
             in and_then (page_validate mac acct local_machine n p) (\<lambda>_. Inr p)))"

section \<open>Pulling\<close>

definition default_page_rows :: nat where "default_page_rows = 250"
definition max_pages_per_sync :: nat where "max_pages_per_sync = 32"
definition max_configured_peers :: nat where "max_configured_peers = 64"

definition not_advancing :: pulse_error where
  "not_advancing = new_error Upstream ''Pulse federation cursor did not strictly advance''"

definition validate_cursor_progress ::
    "fed_extern \<Rightarrow> string option \<Rightarrow> string option \<Rightarrow> federated_record list \<Rightarrow> unit pulse_result" where
  "validate_cursor_progress fx prior nxt rs =
     and_then (parse_export_cursor fx prior) (\<lambda>pk.
     and_then (parse_export_cursor fx nxt) (\<lambda>nk.
       if (case (pk, nk) of (Some p, Some n) \<Rightarrow> position_order n \<le> position_order p | _ \<Rightarrow> False)
       then Inl not_advancing
       else if rs = [] \<and> nk \<noteq> None
       then Inl (new_error Upstream ''Pulse federation empty page returned an advancing cursor'')
       else Inr ()))"

type_synonym transport = "nat \<Rightarrow> federation_request \<Rightarrow> federation_page pulse_result"

record pull_env =
  pull_codec :: fed_extern
  pull_tokens :: token_extern
  pull_macos :: bool
  pull_time :: "nat \<Rightarrow> instant"
  pull_transport :: transport

type_synonym pull_world = "store \<times> invalidation_hub option"

definition publish_to :: "int \<Rightarrow> invalidation_hub option \<Rightarrow> invalidation_hub option" where
  "publish_to acct hub = map_option (\<lambda>h. snd (hub_publish acct h)) hub"

text \<open>\<open>StoreFederationConsumer::apply_page\<close>: subscribers are told after the transaction committed.\<close>

definition consumer_apply ::
    "pull_env \<Rightarrow> nat \<Rightarrow> int \<Rightarrow> string \<Rightarrow> string option \<Rightarrow> string option \<Rightarrow> federated_record list \<Rightarrow> pull_world
      \<Rightarrow> federation_state pulse_result \<times> pull_world" where
  "consumer_apply env i acct mach cur nxt rs w =
     (case apply_federation_page (pull_codec env) (pull_tokens env) (pull_macos env)
             (pull_time env i) acct mach cur nxt rs (fst w) of
        Inl e \<Rightarrow> (Inl e, w)
      | Inr (s, st') \<Rightarrow> (Inr s, (st', publish_to acct (snd w))))"

definition fetch_valid ::
    "pull_env \<Rightarrow> nat \<Rightarrow> int \<Rightarrow> string \<Rightarrow> string option \<Rightarrow> federation_page pulse_result" where
  "fetch_valid env i acct mach cur =
     and_then (pull_transport env i
         \<lparr>fr_account = acct, fr_machine = mach, fr_cursor = cur, fr_limit = default_page_rows\<rparr>) (\<lambda>p.
     and_then (page_validate (pull_macos env) acct mach default_page_rows p) (\<lambda>_.
     and_then (validate_cursor_progress (pull_codec env) cur (page_next p) (page_records p)) (\<lambda>_. Inr p)))"

text \<open>The loop over at most \<open>n\<close> pages; \<open>i\<close> numbers the requests of this sync.\<close>

fun sync_pages ::
    "pull_env \<Rightarrow> int \<Rightarrow> string \<Rightarrow> nat \<Rightarrow> nat \<Rightarrow> federation_state \<Rightarrow> pull_world
      \<Rightarrow> federation_state pulse_result \<times> pull_world" where
  "sync_pages env acct mach 0 i state w = (Inr state, w)"
| "sync_pages env acct mach (Suc n) i state w =
     (case fetch_valid env i acct mach (fed_cursor state) of
        Inl e \<Rightarrow> (Inl e, w)
      | Inr p \<Rightarrow>
          (case consumer_apply env i acct mach (fed_cursor state) (page_next p) (page_records p) w of
             (Inl e, w') \<Rightarrow> (Inl e, w')
           | (Inr s, w') \<Rightarrow> if fed_complete s then (Inr s, w') else sync_pages env acct mach n (Suc i) s w'))"

definition sync_machine ::
    "pull_env \<Rightarrow> int \<Rightarrow> string \<Rightarrow> pull_world \<Rightarrow> federation_state pulse_result \<times> pull_world" where
  "sync_machine env acct mach w =
     (case begin_federation_sync acct mach (fst w) of
        Inl e \<Rightarrow> (Inl e, w)
      | Inr (s, st1) \<Rightarrow> sync_pages env acct mach max_pages_per_sync 0 s (st1, snd w))"

text \<open>
  All peers of an account. The tasks run at most eight at a time and each is a sequence of
  transactions of its own; here they run one after the other, each with its own environment. The
  machines of the list are distinct.
\<close>

fun sync_list ::
    "(string \<Rightarrow> pull_env) \<Rightarrow> int \<Rightarrow> nat \<Rightarrow> string list \<Rightarrow> pull_world
      \<Rightarrow> (string \<Rightarrow> federation_state pulse_result option) \<times> pull_world" where
  "sync_list envs acct i [] w = (\<lambda>_. None, w)"
| "sync_list envs acct i (m # ms) w =
     (if i \<ge> max_configured_peers
      then let (res, w') = sync_list envs acct (Suc i) ms w
           in (res(m \<mapsto> Inl (new_error Configuration ''Pulse federation peer list exceeded its work bound'')), w')
      else let (r, w1) = sync_machine (envs m) acct m w; (res, w') = sync_list envs acct (Suc i) ms w1
           in (res(m \<mapsto> r), w'))"

section \<open>A peer is contained\<close>

lemma begin_sync_effect:
  assumes "begin_federation_sync acct mach st = Inr (s, st')"
  shows "st' = st\<lparr>federation_peers := federation_peers st'\<rparr> \<and> load_federation_state acct mach st' = Inr s \<and> \<not> fed_complete s
    \<and> filter (\<lambda>r. \<not> is_peer acct mach r) (federation_peers st') = filter (\<lambda>r. \<not> is_peer acct mach r) (federation_peers st)"
proof -
  define st1 where "st1 = (if exists_where (is_peer acct mach) (federation_peers st) then st
                      else st\<lparr>federation_peers := federation_peers st @ [new_peer acct mach]\<rparr>)"
  let ?f = "\<lambda>r. r\<lparr>peer_cursor := None, peer_generation := peer_generation r + 1, peer_complete := False\<rparr>"
  obtain l where l: "load_federation_state acct mach st1 = Inr l"
    and alt: "(fed_complete l \<and> s = l\<lparr>fed_cursor := None, fed_generation := fed_generation l + 1, fed_complete := False\<rparr>
        \<and> st' = st1\<lparr>federation_peers := update_where (is_peer acct mach) ?f (federation_peers st1)\<rparr>)
      \<or> (\<not> fed_complete l \<and> s = l \<and> st' = st1)"
  proof (cases "load_federation_state acct mach st1")
    case (Inl e)
    then show ?thesis using assms by (simp add: begin_federation_sync_def flip: st1_def split: if_splits)
  next
    case (Inr l)
    have "(if fed_complete l then Inr (l\<lparr>fed_cursor := None, fed_generation := fed_generation l + 1, fed_complete := False\<rparr>,
            st1\<lparr>federation_peers := update_where (is_peer acct mach) ?f (federation_peers st1)\<rparr>) else Inr (l, st1)) = Inr (s, st')"
      using assms Inr by (simp add: begin_federation_sync_def flip: st1_def split: if_splits)
    then have "(fed_complete l \<and> s = l\<lparr>fed_cursor := None, fed_generation := fed_generation l + 1, fed_complete := False\<rparr>
        \<and> st' = st1\<lparr>federation_peers := update_where (is_peer acct mach) ?f (federation_peers st1)\<rparr>)
      \<or> (\<not> fed_complete l \<and> s = l \<and> st' = st1)"
      by (cases "fed_complete l") simp_all
    with Inr show ?thesis by (rule that)
  qed
  have st1: "st1 = st\<lparr>federation_peers := federation_peers st1\<rparr>" by (simp add: st1_def)
  have f1: "filter (\<lambda>r. \<not> is_peer acct mach r) (federation_peers st1) = filter (\<lambda>r. \<not> is_peer acct mach r) (federation_peers st)"
    by (simp add: st1_def new_peer_def is_peer_def)
  show ?thesis
    using alt
  proof
    assume a: "fed_complete l \<and> s = l\<lparr>fed_cursor := None, fed_generation := fed_generation l + 1, fed_complete := False\<rparr>
        \<and> st' = st1\<lparr>federation_peers := update_where (is_peer acct mach) ?f (federation_peers st1)\<rparr>"
    have "filter (\<lambda>r. \<not> is_peer acct mach r) (update_where (is_peer acct mach) ?f rows)
        = filter (\<lambda>r. \<not> is_peer acct mach r) rows" for rows
      by (induction rows) (auto simp: is_peer_def)
    moreover have "find (is_peer acct mach) (update_where (is_peer acct mach) ?f rows)
        = map_option ?f (find (is_peer acct mach) rows)" for rows
      by (rule find_update_where) (simp add: is_peer_def)
    moreover obtain ps where ps: "st1 = st\<lparr>federation_peers := ps\<rparr>" using st1 by blast
    ultimately show ?thesis using a l f1 unfolding load_state_Inr by (auto simp: ps)
  next
    assume "\<not> fed_complete l \<and> s = l \<and> st' = st1"
    then show ?thesis using l f1 st1 by blast
  qed
qed

lemma begin_sync_scope:
  assumes "begin_federation_sync acct mach st = Inr (s, st')"
  shows "peer_scope acct mach st st'"
proof -
  note b = begin_sync_effect [OF assms]
  have "st' = st\<lparr>federation_records := federation_records st @ [], federation_peers := federation_peers st'\<rparr>"
    using b [THEN conjunct1] by simp
  then show ?thesis
    using b mirror_respected_refl [of acct mach st] unfolding peer_scope_def by (intro conjI exI [of _ st] exI [of _ "[]"]) simp_all
qed

lemma begin_sync_tables: "begin_federation_sync acct mach st = Inr (s, st') \<Longrightarrow> ingest_tables_ok mac st \<Longrightarrow> ingest_tables_ok mac st'"
proof -
  assume b: "begin_federation_sync acct mach st = Inr (s, st')" and "ingest_tables_ok mac st"
  moreover obtain ps where "st' = st\<lparr>federation_peers := ps\<rparr>" using begin_sync_effect [OF b] by blast
  ultimately show ?thesis
    by (simp add: ingest_tables_ok_def profiles_ok_def account_exists_def usage_ok_def context_ok_def gemini_ok_def)
qed

lemma consumer_apply_scope:
  assumes "consumer_apply env i acct mach cur nxt rs w = (res, w')" and "ingest_tables_ok (pull_macos env) (fst w)"
  shows "peer_scope acct mach (fst w) (fst w') \<and> ingest_tables_ok (pull_macos env) (fst w')
    \<and> (\<forall>a. a \<noteq> acct \<longrightarrow> Option.bind (snd w') (\<lambda>h. h a) = Option.bind (snd w) (\<lambda>h. h a))"
proof (cases res)
  case (Inl e)
  then show ?thesis using assms peer_scope_refl by (auto simp: consumer_apply_def split: sum.splits)
next
  case (Inr s)
  then have ap: "apply_federation_page (pull_codec env) (pull_tokens env) (pull_macos env) (pull_time env i) acct mach cur nxt rs (fst w)
      = Inr (s, fst w')" and hub: "snd w' = publish_to acct (snd w)"
    using assms(1) by (auto simp: consumer_apply_def split: sum.splits)
  have "Option.bind (publish_to acct h) (\<lambda>h. h a) = Option.bind h (\<lambda>h. h a)" if "a \<noteq> acct" for a h
    using that by (cases h) (auto simp: publish_to_def hub_publish_def split: option.splits)
  then show ?thesis using apply_page_scope [OF ap assms(2)] hub by simp
qed

lemma sync_pages_scope:
  assumes "sync_pages env acct mach n i s w = (res, w')" and "ingest_tables_ok (pull_macos env) (fst w)"
  shows "peer_scope acct mach (fst w) (fst w') \<and> ingest_tables_ok (pull_macos env) (fst w')
    \<and> (\<forall>a. a \<noteq> acct \<longrightarrow> Option.bind (snd w') (\<lambda>h. h a) = Option.bind (snd w) (\<lambda>h. h a))"
  using assms
proof (induction n arbitrary: i s w)
  case 0
  then show ?case by (simp add: peer_scope_refl)
next
  case (Suc n)
  show ?case
  proof (cases "fetch_valid env i acct mach (fed_cursor s)")
    case (Inl e)
    then show ?thesis using Suc.prems by (simp add: peer_scope_refl)
  next
    case (Inr p)
    obtain r w1 where c: "consumer_apply env i acct mach (fed_cursor s) (page_next p) (page_records p) w = (r, w1)"
      by (rule prod.exhaust)
    note sc = consumer_apply_scope [OF c Suc.prems(2)]
    show ?thesis
    proof (cases "(\<exists>e. r = Inl e) \<or> (\<exists>s1. r = Inr s1 \<and> fed_complete s1)")
      case True
      then have "w' = w1" using Suc.prems(1) Inr c by auto
      then show ?thesis using sc by simp
    next
      case False
      then obtain s1 where s1: "r = Inr s1" "\<not> fed_complete s1" by (cases r) auto
      then have "sync_pages env acct mach n (Suc i) s1 w1 = (res, w')" using Suc.prems(1) Inr c by simp
      note ih = Suc.IH [OF this conjunct1 [OF conjunct2 [OF sc]]]
      have "peer_scope acct mach (fst w) (fst w')"
        by (rule peer_scope_trans [OF conjunct1 [OF sc] conjunct1 [OF ih]])
      then show ?thesis using ih sc by simp
    qed
  qed
qed


section \<open>Restarts\<close>

text \<open>The environment of a pull that starts after \<open>k\<close> requests of another one.\<close>

definition after_calls :: "nat \<Rightarrow> pull_env \<Rightarrow> pull_env" where
  "after_calls k env =
     env\<lparr>pull_time := (\<lambda>i. pull_time env (k + i)), pull_transport := (\<lambda>i. pull_transport env (k + i))\<rparr>"

lemma sync_pages_shift:
  "sync_pages (after_calls k env) acct mach n i s w = sync_pages env acct mach n (k + i) s w"
proof (induction n arbitrary: i s w)
  case (Suc n)
  have "fetch_valid (after_calls k env) i acct mach cur = fetch_valid env (k + i) acct mach cur"
    "consumer_apply (after_calls k env) i acct mach cur nxt rs w = consumer_apply env (k + i) acct mach cur nxt rs w" for cur nxt rs w
    by (simp_all add: fetch_valid_def consumer_apply_def after_calls_def)
  then show ?case using Suc by (simp split: sum.split prod.split)
qed simp

lemma sync_pages_step:
  assumes "sync_pages env acct mach (Suc k) i s w = (Inr s', w')"
  obtains p s1 w1 where "fetch_valid env i acct mach (fed_cursor s) = Inr p"
    "consumer_apply env i acct mach (fed_cursor s) (page_next p) (page_records p) w = (Inr s1, w1)"
    "if fed_complete s1 then s' = s1 \<and> w' = w1 else sync_pages env acct mach k (Suc i) s1 w1 = (Inr s', w')"
proof (cases "fetch_valid env i acct mach (fed_cursor s)")
  case (Inl e)
  then show ?thesis using assms by simp
next
  case p: (Inr p)
  obtain r w1 where c: "consumer_apply env i acct mach (fed_cursor s) (page_next p) (page_records p) w = (r, w1)"
    by (rule prod.exhaust)
  show ?thesis
  proof (cases r)
    case (Inl e)
    then show ?thesis using assms p c by simp
  next
    case (Inr s1)
    then show ?thesis using assms p c by (intro that [OF p, of s1 w1]) (simp_all split: if_splits)
  qed
qed

lemma sync_pages_split:
  assumes "sync_pages env acct mach k i s w = (Inr s', w')" and "\<not> fed_complete s'"
  shows "sync_pages env acct mach (k + n) i s w = sync_pages env acct mach n (i + k) s' w'"
  using assms
proof (induction k arbitrary: i s w)
  case (Suc k)
  from Suc.prems(1) obtain p s1 w1 where p: "fetch_valid env i acct mach (fed_cursor s) = Inr p"
    and c: "consumer_apply env i acct mach (fed_cursor s) (page_next p) (page_records p) w = (Inr s1, w1)"
    and r: "if fed_complete s1 then s' = s1 \<and> w' = w1 else sync_pages env acct mach k (Suc i) s1 w1 = (Inr s', w')"
    by (rule sync_pages_step)
  have i: "\<not> fed_complete s1" using r Suc.prems(2) by (auto split: if_splits)
  then have "sync_pages env acct mach k (Suc i) s1 w1 = (Inr s', w')" using r by simp
  from Suc.IH [OF this Suc.prems(2)] show ?case using p c i by simp
qed simp

lemma begin_incomplete:
  assumes "load_federation_state acct mach st = Inr s" and "\<not> fed_complete s"
  shows "begin_federation_sync acct mach st = Inr (s, st)"
proof -
  have "exists_where (is_peer acct mach) (federation_peers st)"
    using assms(1) find_Some_mem by (fastforce simp: load_state_Inr exists_where_def)
  then show ?thesis using assms by (simp add: begin_federation_sync_def)
qed

lemma sync_pages_durable:
  assumes "sync_pages env acct mach k i s w = (Inr s', w')" and "load_federation_state acct mach (fst w) = Inr s"
  shows "load_federation_state acct mach (fst w') = Inr s'"
  using assms
proof (induction k arbitrary: i s w)
  case (Suc k)
  from Suc.prems(1) obtain p s1 w1 where "fetch_valid env i acct mach (fed_cursor s) = Inr p"
    and c: "consumer_apply env i acct mach (fed_cursor s) (page_next p) (page_records p) w = (Inr s1, w1)"
    and r: "if fed_complete s1 then s' = s1 \<and> w' = w1 else sync_pages env acct mach k (Suc i) s1 w1 = (Inr s', w')"
    by (rule sync_pages_step)
  obtain time x cur nxt rs mac fx where
    "apply_federation_page fx x mac time acct mach cur nxt rs (fst w) = Inr (s1, fst w1)"
    using c by (auto simp: consumer_apply_def split: sum.splits)
  then have "load_federation_state acct mach (fst w1) = Inr s1" by (cases rule: apply_page_cases)
  then show ?case using r Suc.IH by (auto split: if_splits)
qed simp

text \<open>
  C35. A pull that stopped after any number of pages - at its page bound, or because the process was
  restarted between two transactions - is taken up by the next one where it stopped: together they do
  what one uninterrupted pull over the same answers of the peer would have done.
\<close>

theorem interrupted_pull_resumes:
  assumes "begin_federation_sync acct mach st = Inr (s, st0)"
    and "sync_pages env acct mach k 0 s (st0, hub) = (Inr s', w')" and "\<not> fed_complete s'"
  shows "sync_machine (after_calls k env) acct mach w' = sync_pages env acct mach (k + max_pages_per_sync) 0 s (st0, hub)"
proof -
  have "load_federation_state acct mach st0 = Inr s" using begin_sync_effect [OF assms(1)] by blast
  then have "load_federation_state acct mach (fst w') = Inr s'" using sync_pages_durable [OF assms(2)] by simp
  from begin_incomplete [OF this assms(3)] show ?thesis
    using sync_pages_split [OF assms(2,3), of max_pages_per_sync] by (simp add: sync_machine_def sync_pages_shift)
qed

end
