(* ===== verification/Federation_Exchange.thy ===== *)
theory Federation_Exchange
  imports Pulse_Federation
begin

text \<open>
  An exporter and a puller together: a pull from an unchanged, honest peer applies every row the peer
  exports, provided the decimal texts of its usage row ids happen to increase, and stops for ever
  where they do not.
\<close>

section \<open>Serving and pulling an unchanged peer\<close>

definition cursor_of :: "fed_extern \<Rightarrow> local_record \<Rightarrow> string" where
  "cursor_of fx r = (case export_cursor fx (local_position r) of Inl _ \<Rightarrow> [] | Inr c \<Rightarrow> c)"

definition cursor_at :: "fed_extern \<Rightarrow> local_record list \<Rightarrow> nat \<Rightarrow> string option" where
  "cursor_at fx R j = (if j = 0 then None else Some (cursor_of fx (R ! (j - 1))))"

text \<open>
  The decimal texts of the usage row ids increase along the export, as the comparison of cursors
  needs; the other positions increase by themselves.
\<close>

definition usage_ids_ordered :: "int \<Rightarrow> string \<Rightarrow> store \<Rightarrow> bool" where
  "usage_ids_ordered acct mach st \<longleftrightarrow> sorted_wrt (<) (map (\<lambda>i. fst (snd i)) (usage_items acct mach 0 st))"

definition export_ready :: "fed_extern \<Rightarrow> bool \<Rightarrow> int \<Rightarrow> string \<Rightarrow> store \<Rightarrow> local_record list \<Rightarrow> bool" where
  "export_ready fx mac acct mach st R \<longleftrightarrow>
     export_keys_ok acct mach st \<and> usage_ids_ordered acct mach st
     \<and> try_map (export_item fx) (items_after acct mach None st) = Inr R
     \<and> (\<forall>r \<in> set R. record_validate mac acct mach (federate mach r) = Inr ()
          \<and> export_cursor fx (local_position r) = Inr (cursor_of fx r)
          \<and> parse_export_cursor fx (Some (cursor_of fx r)) = Inr (Some (local_position r)))"

lemma strictly_sorted:
  fixes key :: "'a \<Rightarrow> 'k::linorder"
  assumes "distinct (map key rows)"
  shows "sorted_wrt (\<lambda>a b. key a < key b) (sort_key key rows)"
proof -
  have "sorted (map key (sort_key key rows))" "distinct (map key (sort_key key rows))"
    using assms by (simp_all add: distinct_map)
  then have "sorted_wrt (<) (map key (sort_key key rows))" by (simp add: strict_sorted_iff)
  then show ?thesis by (simp add: sorted_wrt_map)
qed

abbreviation item_order :: "export_item \<Rightarrow> nat \<times> string list" where
  "item_order i \<equiv> position_order (item_position i)"

lemma item_order_simp [simp]: "item_order (ph, vs, row) = (ph, vs)"
  by (simp add: position_order_def item_position_def)

lemma sorted_export:
  fixes key :: "'r \<Rightarrow> 'k::linorder"
  assumes "distinct (map f rows)" and "\<And>a b. P a \<Longrightarrow> P b \<Longrightarrow> key a = key b \<Longrightarrow> f a = f b"
    and less: "\<And>a b. key a < key b \<Longrightarrow> item_order (g a) < item_order (g b)"
  shows "sorted_wrt (\<lambda>a b. item_order a < item_order b) (map g (sort_key key (filter P rows)))"
proof -
  have "distinct (map key (filter P rows))" by (rule distinct_key_subset [OF assms(1,2)])
  from strictly_sorted [OF this] have "sorted_wrt (\<lambda>a b. item_order (g a) < item_order (g b)) (sort_key key (filter P rows))"
    by (rule sorted_wrt_mono_rel [rotated]) (rule less)
  then show ?thesis by (simp only: sorted_wrt_map)
qed

lemma phase_of_items:
  "i \<in> set (machine_items acct mach st) \<Longrightarrow> fst i = 0"
  "i \<in> set (profile_items acct n st) \<Longrightarrow> fst i = 1"
  "i \<in> set (usage_items acct mach k st) \<Longrightarrow> fst i = 2"
  "i \<in> set (context_items acct mach v st) \<Longrightarrow> fst i = 3"
  "i \<in> set (token_items acct mach w st) \<Longrightarrow> fst i = 4"
  by (auto simp: machine_items_def profile_items_def usage_items_def context_items_def token_items_def split: option.splits)

lemma item_order_phase: "fst i < fst j \<Longrightarrow> item_order i < item_order j"
  by (cases i; cases j) simp

lemma items_from_start:
  "items_after acct mach None st = machine_items acct mach st @ profile_items acct [] st @ usage_items acct mach 0 st
     @ context_items acct mach ([], []) st @ token_items acct mach ([], [], [], [], [], []) st"
proof -
  have "parse_i64 ''0'' = Some 0" by code_simp
  then show ?thesis by (simp add: items_after_def start_values_def)
qed

lemma positions_increase:
  assumes ok: "export_keys_ok acct mach st" and u: "usage_ids_ordered acct mach st"
  shows "sorted_wrt (\<lambda>a b. item_order a < item_order b) (items_after acct mach None st)"
proof -
  let ?less = "\<lambda>a b. item_order a < item_order b"
  have src: "source_json a = source_json b \<Longrightarrow> a = b" for a b by (cases a; cases b) simp_all
  have m: "sorted_wrt ?less (machine_items acct mach st)" by (simp add: machine_items_def split: option.split)
  have p: "sorted_wrt ?less (profile_items acct [] st)"
    unfolding profile_items_def
    by (rule sorted_export [of profile_key]) (use ok in \<open>auto simp: export_keys_ok_def profile_key_def\<close>)
  have us: "sorted_wrt ?less (usage_items acct mach 0 st)"
    using u by (simp add: usage_ids_ordered_def usage_items_def sorted_wrt_map)
  have c: "sorted_wrt ?less (context_items acct mach ([], []) st)"
    unfolding context_items_def
    by (rule sorted_export [of context_key]) (use ok in \<open>auto simp: export_keys_ok_def context_key_def\<close>)
  have t: "sorted_wrt ?less (token_items acct mach ([], [], [], [], [], []) st)"
    unfolding token_items_def map_map o_def
  proof (rule sorted_export [of "\<lambda>r. token_key (grain r)"])
    show "distinct (map (\<lambda>r. token_key (grain r)) (token_usage st))" using ok by (simp add: export_keys_ok_def)
  qed (use src in \<open>auto simp: position_key_def from_grain_def token_key_def grain_scope_def\<close>)
  show ?thesis
    unfolding items_from_start sorted_wrt_append set_append
    by (intro conjI m p us c t ballI; rule item_order_phase; (elim UnE)?; simp add: phase_of_items)
qed

section \<open>The pages of an exporter\<close>

lemma try_map_take: "try_map f xs = Inr ys \<Longrightarrow> try_map f (take k xs) = Inr (take k ys)"
proof (induction xs arbitrary: ys k)
  case (Cons x xs)
  then show ?case by (cases k) (auto simp: result_simps)
qed simp

lemma try_map_drop: "try_map f xs = Inr ys \<Longrightarrow> try_map f (drop k xs) = Inr (drop k ys)"
proof (induction xs arbitrary: ys k)
  case (Cons x xs)
  then show ?case by (cases k) (auto simp: result_simps)
qed simp

lemma export_ready_position:
  assumes "export_ready fx mac acct mach st R" and "j < length R"
  shows "local_position (R ! j) = item_position (items_after acct mach None st ! j) \<and> j < length (items_after acct mach None st)"
proof -
  have t: "try_map (export_item fx) (items_after acct mach None st) = Inr R" using assms(1) by (simp add: export_ready_def)
  have j: "j < length (items_after acct mach None st)" using try_map_length [OF t] assms(2) by simp
  show ?thesis using export_item_fields [OF try_map_nth [OF t j]] j by simp
qed

definition after_at :: "local_record list \<Rightarrow> nat \<Rightarrow> export_position option" where
  "after_at R j = (if j = 0 then None else Some (local_position (R ! (j - 1))))"

lemma parse_cursor_at:
  assumes "export_ready fx mac acct mach st R" and "j \<le> length R"
  shows "parse_export_cursor fx (cursor_at fx R j) = Inr (after_at R j)"
proof (cases "j = 0")
  case True
  then show ?thesis by (simp add: cursor_at_def after_at_def parse_export_cursor_def)
next
  case False
  then have "R ! (j - 1) \<in> set R" using assms(2) by simp
  then show ?thesis using assms(1) False by (simp add: export_ready_def cursor_at_def after_at_def)
qed

lemma items_at:
  assumes rd: "export_ready fx mac acct mach st R" and "j \<le> length R"
  shows "cursor_well_formed (after_at R j)
    \<and> items_after acct mach (after_at R j) st = drop j (items_after acct mach None st)"
proof (cases "j = 0")
  case True
  then show ?thesis by (simp add: after_at_def cursor_well_formed_def)
next
  case False
  then have j: "j - 1 < length R" using assms(2) by simp
  have ok: "export_keys_ok acct mach st" using rd by (simp add: export_ready_def)
  note p = export_ready_position [OF rd j]
  from items_after_step [OF ok conjunct2 [OF p], folded conjunct1 [OF p]] show ?thesis
    using False by (simp add: after_at_def)
qed

lemma exporter_page_at:
  assumes rd: "export_ready fx mac acct mach st R" and j: "j \<le> length R" and n: "0 < n" "n \<le> max_page_rows"
    and acct: "acct \<in> accts"
  shows "exporter_page fx mac mach (source_page fx accts mach st) acct (cursor_at fx R j) n =
    Inr \<lparr>page_version = federation_version, page_source = mach,
         page_records = map (federate mach) (take n (drop j R)),
         page_next = (if j + n < length R then cursor_at fx R (j + n) else None)\<rparr>"
proof -
  have t: "try_map (export_item fx) (items_after acct mach None st) = Inr R" using rd by (simp add: export_ready_def)
  note it = items_at [OF rd j]
  have lp: "local_federation_page fx acct mach (after_at R j) (n + 1) st = Inr (take (n + 1) (drop j R))"
    using it n try_map_take [OF try_map_drop [OF t]]
    by (simp add: local_page_items federation_query_limit_def del: take_Suc_Cons)
  let ?page = "take (n + 1) (drop j R)" and ?kept = "take n (drop j R)"
  have kept: "take n ?page = ?kept" by (simp add: min_def)
  have more: "length ?page > n \<longleftrightarrow> j + n < length R" by auto
  have src: "source_page fx accts mach st \<lparr>fr_account = acct, fr_machine = mach, fr_cursor = cursor_at fx R j, fr_limit = n\<rparr>
      = Inr (?kept, if j + n < length R then cursor_at fx R (j + n) else None)"
  proof (cases "j + n < length R")
    case True
    then have ne: "?kept \<noteq> []" using n by simp
    have "last ?kept = R ! (j + n - 1)"
      using True n ne by (simp add: last_conv_nth)
    moreover have "R ! (j + n - 1) \<in> set R" using True n by simp
    then have "export_cursor fx (local_position (R ! (j + n - 1))) = Inr (cursor_of fx (R ! (j + n - 1)))"
      using rd by (simp add: export_ready_def)
    ultimately show ?thesis
      using True n ne more kept acct parse_cursor_at [OF rd j] lp
      by (simp add: source_page_def cursor_at_def Let_def del: take_append)
  next
    case False
    then have "\<not> length ?page > n" using more by simp
    then show ?thesis
      using False kept acct parse_cursor_at [OF rd j] lp by (simp add: source_page_def Let_def)
  qed
  have valid: "try_each (record_validate mac acct mach) (map (federate mach) ?kept) = Inr ()"
  proof -
    have "record_validate mac acct mach (federate mach r) = Inr ()" if "r \<in> set ?kept" for r
      using that in_set_takeD in_set_dropD rd unfolding export_ready_def by metis
    then show ?thesis by (simp add: try_each_Inr)
  qed
  show ?thesis
    using n src valid by (simp add: exporter_page_def page_validate_def)
qed

section \<open>The pull\<close>

text \<open>The peer answers with its exporter over a store that does not change.\<close>

definition served_by :: "pull_env \<Rightarrow> string \<Rightarrow> int set \<Rightarrow> store \<Rightarrow> bool" where
  "served_by env mach accts pst \<longleftrightarrow>
     (\<forall>i req. pull_transport env i req = exporter_page (pull_codec env) (pull_macos env) mach
        (source_page (pull_codec env) accts mach pst) (fr_account req) (fr_cursor req) (fr_limit req))"

definition page_at :: "string \<Rightarrow> fed_extern \<Rightarrow> local_record list \<Rightarrow> nat \<Rightarrow> federation_page" where
  "page_at mach fx R j =
     \<lparr>page_version = federation_version, page_source = mach,
      page_records = map (federate mach) (take default_page_rows (drop j R)),
      page_next = (if j + default_page_rows < length R then cursor_at fx R (j + default_page_rows) else None)\<rparr>"

lemma fetch_at:
  assumes rd: "export_ready (pull_codec env) (pull_macos env) acct mach pst R" and j: "j \<le> length R"
    and srv: "served_by env mach accts pst" and acct: "acct \<in> accts"
  shows "fetch_valid env i acct mach (cursor_at (pull_codec env) R j) = Inr (page_at mach (pull_codec env) R j)"
proof -
  let ?fx = "pull_codec env" and ?p = "page_at mach (pull_codec env) R j" and ?n = default_page_rows
  have n: "0 < ?n" "?n \<le> max_page_rows" by (simp_all add: default_page_rows_def max_page_rows_def)
  have pg: "pull_transport env i \<lparr>fr_account = acct, fr_machine = mach, fr_cursor = cursor_at ?fx R j, fr_limit = ?n\<rparr> = Inr ?p"
    using srv exporter_page_at [OF rd j n acct] by (simp add: served_by_def page_at_def)
  have valid: "page_validate (pull_macos env) acct mach ?n ?p = Inr ()"
  proof -
    have "record_validate (pull_macos env) acct mach (federate mach r) = Inr ()" if "r \<in> set (take ?n (drop j R))" for r
      using that in_set_takeD in_set_dropD rd unfolding export_ready_def by metis
    then have "try_each (record_validate (pull_macos env) acct mach) (page_records ?p) = Inr ()"
      by (simp add: try_each_Inr page_at_def)
    then show ?thesis using n by (simp add: page_validate_def) (simp add: page_at_def)
  qed
  have "validate_cursor_progress ?fx (cursor_at ?fx R j) (page_next ?p) (page_records ?p) = Inr ()"
  proof (cases "j + ?n < length R")
    case False
    then have "page_next ?p = None" by (simp add: page_at_def)
    then show ?thesis
      by (simp add: validate_cursor_progress_def parse_cursor_at [OF rd j]) (simp add: parse_export_cursor_def split: option.split)
  next
    case True
    have inc: "sorted_wrt (\<lambda>a b. item_order a < item_order b) (items_after acct mach None pst)"
      using rd positions_increase by (simp add: export_ready_def)
    have "position_order (local_position (R ! (j - 1))) < position_order (local_position (R ! (j + ?n - 1)))" if "0 < j"
    proof -
      have b: "j - 1 < length R" "j + ?n - 1 < length R" "j - 1 < j + ?n - 1" using True that n by simp_all
      note p = export_ready_position [OF rd b(1)] export_ready_position [OF rd b(2)]
      show ?thesis using sorted_wrt_nth_less [OF inc b(3) conjunct2 [OF p(2)]]
        by (simp only: conjunct1 [OF p(1)] conjunct1 [OF p(2)])
    qed
    then have "\<not> (case (after_at R j, after_at R (j + ?n)) of
        (Some p, Some n) \<Rightarrow> position_order n \<le> position_order p | _ \<Rightarrow> False)"
      by (simp add: after_at_def not_le)
    moreover have "page_next ?p = cursor_at ?fx R (j + ?n)" "page_records ?p \<noteq> []"
      using True n by (simp_all add: page_at_def)
    moreover have "parse_export_cursor ?fx (cursor_at ?fx R (j + ?n)) = Inr (after_at R (j + ?n))"
      by (rule parse_cursor_at [OF rd]) (use True in simp)
    ultimately show ?thesis by (simp add: validate_cursor_progress_def parse_cursor_at [OF rd j] split del: option.split)
  qed
  then show ?thesis using pg valid by (simp add: fetch_valid_def)
qed

lemma known_later:
  assumes "known_record fx acct mach st r" and "set (federation_records st) \<subseteq> set (federation_records st')"
  shows "known_record fx acct mach st' r"
  using assms unfolding known_record_def by blast

lemma peer_scope_records: "peer_scope acct mach st st' \<Longrightarrow> set (federation_records st) \<subseteq> set (federation_records st')"
proof -
  assume "peer_scope acct mach st st'"
  then obtain st2 new where
    "st' = st2\<lparr>federation_records := federation_records st @ new, federation_peers := federation_peers st'\<rparr>"
    unfolding peer_scope_def by (elim conjE exE) (rule that)
  then have "federation_records st' = federation_records
      (st2\<lparr>federation_records := federation_records st @ new, federation_peers := federation_peers st'\<rparr>)"
    by (rule arg_cong)
  then show ?thesis by simp
qed

text \<open>What a pull must have reached when it ends: everything, or a page the local store refused.\<close>

definition pull_outcome ::
    "pull_env \<Rightarrow> int \<Rightarrow> string \<Rightarrow> local_record list \<Rightarrow> federation_state pulse_result \<times> pull_world \<Rightarrow> bool" where
  "pull_outcome env acct mach R out \<longleftrightarrow>
     (case out of
        (Inr s, w) \<Rightarrow> fed_complete s \<and> (\<forall>r \<in> set R. known_record (pull_codec env) acct mach (fst w) (federate mach r))
      | (Inl e, w) \<Rightarrow> \<exists>i j. apply_federation_page (pull_codec env) (pull_tokens env) (pull_macos env) (pull_time env i) acct mach
            (cursor_at (pull_codec env) R j) (page_next (page_at mach (pull_codec env) R j))
            (page_records (page_at mach (pull_codec env) R j)) (fst w) = Inl e)"

lemma honest_run:
  assumes rd: "export_ready (pull_codec env) (pull_macos env) acct mach pst R"
    and srv: "served_by env mach accts pst" and acct: "acct \<in> accts"
  shows "ingest_tables_ok (pull_macos env) (fst w) \<Longrightarrow> federation_ok (fst w) \<Longrightarrow> \<not> fed_complete s
    \<Longrightarrow> fed_cursor s = cursor_at (pull_codec env) R j \<Longrightarrow> j \<le> length R \<Longrightarrow> length R \<le> j + default_page_rows * n \<Longrightarrow> 0 < n
    \<Longrightarrow> \<forall>r \<in> set (take j R). known_record (pull_codec env) acct mach (fst w) (federate mach r)
    \<Longrightarrow> pull_outcome env acct mach R (sync_pages env acct mach n i s w)"
proof (induction n arbitrary: i j s w)
  case (Suc n)
  let ?fx = "pull_codec env" and ?p = "page_at mach (pull_codec env) R j" and ?L = default_page_rows
  have f: "fetch_valid env i acct mach (fed_cursor s) = Inr ?p"
    using fetch_at [OF rd Suc.prems(5) srv acct] Suc.prems(4) by simp
  show ?case
  proof (cases "apply_federation_page ?fx (pull_tokens env) (pull_macos env) (pull_time env i) acct mach
      (fed_cursor s) (page_next ?p) (page_records ?p) (fst w)")
    case (Inl e)
    then have "sync_pages env acct mach (Suc n) i s w = (Inl e, w)" using f by (simp add: consumer_apply_def)
    then show ?thesis using Inl Suc.prems(4) unfolding pull_outcome_def by auto
  next
    case (Inr q)
    obtain s1 st1 where q: "q = (s1, st1)" by fastforce
    let ?w = "(st1, publish_to acct (snd w))"
    note ap = Inr [unfolded q]
    have s1: "s1 = \<lparr>fed_cursor = page_next ?p, fed_generation = fed_generation s1, fed_pages = fed_pages s1,
        fed_records = fed_records s1, fed_complete = (page_next ?p = None)\<rparr>"
    proof -
      obtain l :: federation_state and k where "s1 = \<lparr>fed_cursor = page_next ?p, fed_generation = fed_generation l, fed_pages = fed_pages l + 1,
          fed_records = fed_records l + k, fed_complete = (page_next ?p = None)\<rparr>"
        using page_stays_in_scope [OF ap Suc.prems(1), THEN conjunct1] by (elim exE conjE) (erule that)
      then show ?thesis by simp
    qed
    note rec = apply_page_records [OF ap Suc.prems(1,2)]
    note sc = apply_page_scope [OF ap Suc.prems(1)]
    have known: "known_record ?fx acct mach st1 (federate mach r)" if "r \<in> set (take (j + ?L) R)" for r
    proof -
      have "r \<in> set (take j R) \<or> r \<in> set (take ?L (drop j R))" using that by (simp add: take_add)
      then show ?thesis
        using Suc.prems(8) known_later [OF _ peer_scope_records [OF conjunct1 [OF sc]]] rec
        by (auto simp: page_at_def)
    qed
    show ?thesis
    proof (cases "j + ?L < length R")
      case False
      then have "page_next ?p = None" by (simp add: page_at_def)
      then have "fed_complete s1" by (subst s1) simp
      then have "sync_pages env acct mach (Suc n) i s w = (Inr s1, ?w)" using f Inr q by (simp add: consumer_apply_def)
      moreover have "take (j + ?L) R = R" using False by simp
      ultimately show ?thesis using known \<open>fed_complete s1\<close> by (simp add: pull_outcome_def)
    next
      case True
      then have nx: "page_next ?p = cursor_at ?fx R (j + ?L)" "page_next ?p \<noteq> None"
        by (simp_all add: page_at_def cursor_at_def default_page_rows_def)
      then have inc: "\<not> fed_complete s1" "fed_cursor s1 = cursor_at ?fx R (j + ?L)" by (subst s1, simp)+
      have run: "sync_pages env acct mach (Suc n) i s w = sync_pages env acct mach n (Suc i) s1 ?w"
        using f Inr q inc(1) by (simp add: consumer_apply_def)
      have "0 < n" using Suc.prems(6) True by (cases n) simp_all
      then show ?thesis
        unfolding run
        by (intro Suc.IH [where j = "j + ?L"]) (use sc rec inc True Suc.prems(6) known in \<open>simp_all add: algebra_simps\<close>)
    qed
  qed
qed simp

lemma sync_machine_honest:
  assumes "begin_federation_sync acct mach st = Inr (s, st0)" and "fed_cursor s = None"
    and rd: "export_ready (pull_codec env) (pull_macos env) acct mach pst R"
    and srv: "served_by env mach accts pst" "acct \<in> accts"
    and len: "length R \<le> default_page_rows * max_pages_per_sync"
    and ok: "ingest_tables_ok (pull_macos env) st" "federation_ok st"
  shows "pull_outcome env acct mach R (sync_machine env acct mach (st, hub))"
proof -
  note b = begin_sync_effect [OF assms(1)]
  obtain ps where "st0 = st\<lparr>federation_peers := ps\<rparr>" using b by blast
  then have f: "federation_ok st0" using ok(2) by (simp add: federation_ok_def)
  have run: "sync_machine env acct mach (st, hub) = sync_pages env acct mach max_pages_per_sync 0 s (st0, hub)"
    by (simp add: sync_machine_def assms(1))
  show ?thesis
    unfolding run
    by (rule honest_run [OF rd srv, where j = 0])
      (use b f begin_sync_tables [OF assms(1) ok(1)] assms(2) len in \<open>simp_all add: cursor_at_def max_pages_per_sync_def\<close>)
qed


section \<open>Where the pull stops\<close>

lemma stalled_pull:
  assumes peer: "load_federation_state acct mach st = Inr s" "\<not> fed_complete s" "fed_cursor s = Some c"
    and prior: "parse_export_cursor (pull_codec env) (Some c) = Inr (Some p)"
    and served: "pull_transport env 0
        \<lparr>fr_account = acct, fr_machine = mach, fr_cursor = Some c, fr_limit = default_page_rows\<rparr> = Inr pg"
      "page_validate (pull_macos env) acct mach default_page_rows pg = Inr ()" "page_next pg = Some c'"
    and nxt: "parse_export_cursor (pull_codec env) (Some c') = Inr (Some p')"
    and behind: "position_order p' \<le> position_order p"
  shows "sync_machine env acct mach (st, hub) = (Inl not_advancing, (st, hub))"
proof -
  have "fetch_valid env 0 acct mach (Some c) = Inl not_advancing"
    using behind by (simp add: fetch_valid_def served validate_cursor_progress_def prior nxt)
  then have "sync_pages env acct mach (Suc n) 0 s w = (Inl not_advancing, w)" for n w
    using peer(3) by simp
  from this [of 31] show ?thesis
    by (simp add: sync_machine_def begin_incomplete [OF peer(1,2)] max_pages_per_sync_def del: sync_pages.simps)
qed

text \<open>
  C34. Usage cursors are compared as texts. When the next usage cursor of a peer is a larger row id whose
  decimal text is smaller - 1000 after 750, and so whenever a page boundary crosses a power of ten -
  the puller rejects the page of an honest peer as not advancing, applies nothing, and leaves its
  cursor where it was: every later pull asks for the same page and fails in the same way.
\<close>

theorem usage_scan_stalls:
  assumes "load_federation_state acct mach st = Inr s" and "\<not> fed_complete s" and "fed_cursor s = Some c"
    and "parse_export_cursor (pull_codec env) (Some c) = Inr (Some \<lparr>phase = 2, position_values = [show_int a]\<rparr>)"
    and "served_by env mach accts pst"
    and "exporter_page (pull_codec env) (pull_macos env) mach (source_page (pull_codec env) accts mach pst) acct (Some c)
        default_page_rows = Inr pg" and "page_next pg = Some c'"
    and "parse_export_cursor (pull_codec env) (Some c') = Inr (Some \<lparr>phase = 2, position_values = [show_int b]\<rparr>)"
    and "a < b" and "show_int b \<le> show_int a"
  shows "sync_machine env acct mach (st, hub) = (Inl not_advancing, (st, hub))"
proof -
  have "page_validate (pull_macos env) acct mach default_page_rows pg = Inr ()"
    using assms(6) by (auto simp: exporter_page_def result_simps Let_def split: if_splits prod.splits)
  then show ?thesis
    by (intro stalled_pull [OF assms(1-4) _ _ assms(7,8)])
      (use assms(5,6,10) in \<open>simp_all add: served_by_def position_order_def order_le_less\<close>)
qed

section \<open>Examples\<close>

text \<open>A codec whose texts are the values of the position themselves.\<close>

definition plain_codec :: "nat \<Rightarrow> fed_extern" where
  "plain_codec ph =
     \<lparr>row_json = (\<lambda>_. Some ''r''), position_json = (\<lambda>p. Some (concat (position_values p))), sha256_hex = (\<lambda>_. ''d''),
      position_parse = (\<lambda>s. Some \<lparr>phase = ph, position_values = [s]\<rparr>), b64_encode = (\<lambda>s. s), b64_decode = Some\<rparr>"

definition example_pull :: "nat \<Rightarrow> store \<Rightarrow> pull_env" where
  "example_pull ph pst =
     \<lparr>pull_codec = plain_codec ph, pull_tokens = example_extern, pull_macos = True, pull_time = (\<lambda>_. 5),
      pull_transport = (\<lambda>_ req. exporter_page (plain_codec ph) True ''peer'' (source_page (plain_codec ph) {1} ''peer'' pst)
        (fr_account req) (fr_cursor req) (fr_limit req))\<rparr>"

lemma example_pull_simps [simp]:
  "pull_codec (example_pull ph pst) = plain_codec ph" "pull_macos (example_pull ph pst) = True"
  by (simp_all add: example_pull_def)

lemma example_pull_served: "served_by (example_pull ph pst) ''peer'' {1} pst"
  by (simp add: served_by_def example_pull_def)

definition example_peer_machine :: machine where
  "example_peer_machine = \<lparr>mach_account = 1, mach_name = ''peer'', first_seen = 1, last_seen = 2\<rparr>"

definition one_machine :: store where
  "one_machine = empty_store\<lparr>machines := [example_peer_machine]\<rparr>"

definition machine_record :: local_record where
  "machine_record = \<lparr>local_key = ''a/d'', local_row = FedMachine example_peer_machine,
     local_position = \<lparr>phase = 0, position_values = [''peer'']\<rparr>\<rparr>"

lemma plain_cursor: "c \<noteq> [] \<Longrightarrow> length c \<le> 100 \<Longrightarrow> list_all is_ascii_alphanumeric c
    \<Longrightarrow> opaque_cursor_new (''v2.'' @ c) = Inr (''v2.'' @ c)"
  by (auto simp: opaque_cursor_new_def max_cursor_bytes_def list_all_iff)
    (simp_all add: is_ascii_alphanumeric_def is_ascii_alphabetic_def is_ascii_lower_def is_ascii_digit_def byte_of_def)

lemma plain_round_trip:
  assumes "c \<noteq> []" and "length c \<le> 100" and "list_all is_ascii_alphanumeric c" and "ph \<le> 4"
  shows "export_cursor (plain_codec ph) \<lparr>phase = ph, position_values = [c]\<rparr> = Inr (''v2.'' @ c)"
    and "parse_export_cursor (plain_codec ph) (Some (''v2.'' @ c)) = Inr (Some \<lparr>phase = ph, position_values = [c]\<rparr>)"
  using assms plain_cursor [OF assms(1-3)]
  by (simp_all add: export_cursor_def plain_codec_def parse_export_cursor_def export_position_new_def)

lemma one_machine_items: "items_after 1 ''peer'' None one_machine = [(0, [''peer''], FedMachine example_peer_machine)]"
  by (simp add: items_from_start one_machine_def empty_store_def machine_items_def profile_items_def usage_items_def
      context_items_def token_items_def same_machine_def example_peer_machine_def)

lemma peer_cursor_text: "export_cursor (plain_codec 0) \<lparr>phase = 0, position_values = [''peer'']\<rparr> = Inr ''v2.peer''"
  "parse_export_cursor (plain_codec 0) (Some ''v2.peer'') = Inr (Some \<lparr>phase = 0, position_values = [''peer'']\<rparr>)"
  using plain_round_trip [of "''peer''" 0]
  by (simp_all add: is_ascii_alphanumeric_def is_ascii_alphabetic_def is_ascii_lower_def byte_of_def)

lemma machine_ready: "export_ready (plain_codec 0) True 1 ''peer'' one_machine [machine_record]"
proof -
  have k: "export_keys_ok 1 ''peer'' one_machine" "usage_ids_ordered 1 ''peer'' one_machine"
    by (simp_all add: export_keys_ok_def usage_ids_ordered_def usage_items_def one_machine_def empty_store_def)
  have "char_of (97 :: nat) = CHR ''a''" by code_simp
  then have e: "export_item (plain_codec 0) (0, [''peer''], FedMachine example_peer_machine) = Inr machine_record"
    by (simp add: export_item_def exported_def export_position_new_def local_record_new_def plain_codec_def machine_record_def)
  have v: "record_validate True 1 ''peer'' (federate ''peer'' machine_record) = Inr ()"
    by (simp add: record_validate_def federate_def machine_record_def key_byte_def is_ascii_alphanumeric_def
        is_ascii_alphabetic_def is_ascii_lower_def byte_of_def validate_direct_def origin_local_def max_origin_hops_def
        row_validate_def example_peer_machine_def)
  have "cursor_of (plain_codec 0) machine_record = ''v2.peer''"
    using peer_cursor_text(1) by (simp add: cursor_of_def machine_record_def)
  then show ?thesis
    using k e v peer_cursor_text by (simp add: export_ready_def one_machine_items) (simp add: machine_record_def)
qed

lemma example_pull_begins:
  "begin_federation_sync 1 ''peer'' ingest_example_store =
      Inr (\<lparr>fed_cursor = None, fed_generation = 0, fed_pages = 0, fed_records = 0, fed_complete = False\<rparr>,
        ingest_example_store\<lparr>federation_peers := [new_peer 1 ''peer'']\<rparr>)"
  "account_exists 1 ingest_example_store" "federation_ok ingest_example_store"
proof -
  have fed: "federation_peers ingest_example_store = []" "federation_records ingest_example_store = []"
    by (simp_all add: ingest_example_store_def identity_example_store_def empty_store_def)
  show acc: "account_exists 1 ingest_example_store"
    using ingest_example_fk(1) by (auto simp: ingest_example_store_def identity_example_store_def account_exists_def exists_where_def)
  then show "begin_federation_sync 1 ''peer'' ingest_example_store =
      Inr (\<lparr>fed_cursor = None, fed_generation = 0, fed_pages = 0, fed_records = 0, fed_complete = False\<rparr>,
        ingest_example_store\<lparr>federation_peers := [new_peer 1 ''peer'']\<rparr>)"
    using fed by (simp add: begin_federation_sync_def exists_where_def load_federation_state_def is_peer_def new_peer_def)
  show "federation_ok ingest_example_store" using fed by (simp add: federation_ok_def)
qed

lemma machine_page: "page_at ''peer'' (plain_codec 0) [machine_record] 0 =
    \<lparr>page_version = federation_version, page_source = ''peer'', page_records = [federate ''peer'' machine_record],
     page_next = None\<rparr>"
  by (simp add: page_at_def default_page_rows_def)

lemma machine_applies:
  assumes "\<forall>c. nxt = Some c \<longrightarrow> opaque_cursor_new c = Inr c"
  shows "\<exists>s' st'. apply_federation_page (plain_codec 0) x True t 1 ''peer'' None nxt [federate ''peer'' machine_record]
      (ingest_example_store\<lparr>federation_peers := [new_peer 1 ''peer'']\<rparr>) = Inr (s', st') \<and> fed_complete s' = (nxt = None)"
proof -
  let ?st = "ingest_example_store\<lparr>federation_peers := [new_peer 1 ''peer'']\<rparr>"
  have v: "record_validate True 1 ''peer'' (federate ''peer'' machine_record) = Inr ()"
    using machine_ready by (simp add: export_ready_def)
  have m: "apply_federated_row True (FedMachine example_peer_machine) ?st
      = Inr (?st\<lparr>machines := machines ?st @ [example_peer_machine]\<rparr>)"
    using example_pull_begins(2)
    by (simp add: apply_federated_row_def upsert_machine_def example_peer_machine_def account_exists_def upsert_where_def
        exists_where_def same_machine_def) (simp add: ingest_example_store_def)
  have r: "federation_records ingest_example_store = []"
    by (simp add: ingest_example_store_def identity_example_store_def empty_store_def)
  show ?thesis
    using v m r assms
    by (cases nxt) (simp_all add: apply_federation_page_def load_federation_state_def is_peer_def new_peer_def
        record_fingerprint_def plain_codec_def federate_def machine_record_def fed_grains_def upsert_token_batch_def
        batch_scopes_def applied_rows_def List.map_filter_def)
qed

abbreviation fresh_scan :: federation_state where
  "fresh_scan \<equiv> \<lparr>fed_cursor = None, fed_generation = 0, fed_pages = 0, fed_records = 0, fed_complete = False\<rparr>"

lemma example_pull_applies:
  "\<exists>s' st'. sync_machine (example_pull 0 one_machine) 1 ''peer'' (ingest_example_store, None) = (Inr s', (st', None))"
proof -
  let ?st = "ingest_example_store\<lparr>federation_peers := [new_peer 1 ''peer'']\<rparr>"
  have f: "fetch_valid (example_pull 0 one_machine) 0 1 ''peer'' None = Inr (page_at ''peer'' (plain_codec 0) [machine_record] 0)"
    using fetch_at [of "example_pull 0 one_machine" 1 "''peer''" one_machine "[machine_record]" 0 "{1}" 0] machine_ready
      example_pull_served by (simp add: cursor_at_def)
  obtain s' st' where "apply_federation_page (plain_codec 0) (pull_tokens (example_pull 0 one_machine)) True
      (pull_time (example_pull 0 one_machine) 0) 1 ''peer'' None None [federate ''peer'' machine_record] ?st = Inr (s', st')"
    "fed_complete s'" using machine_applies [of None] by blast
  then have "sync_pages (example_pull 0 one_machine) 1 ''peer'' (Suc n) 0 fresh_scan (?st, None)
      = (Inr s', (st', None))" for n
    using f by (simp add: machine_page consumer_apply_def publish_to_def)
  from this [of 31] show ?thesis
    by (simp add: sync_machine_def example_pull_begins(1) max_pages_per_sync_def del: sync_pages.simps)
qed


text \<open>A peer whose first page ends with a cursor.\<close>

definition paged_pull :: pull_env where
  "paged_pull = (example_pull 0 one_machine)\<lparr>pull_transport := (\<lambda>_ _. Inr \<lparr>page_version = federation_version,
     page_source = ''peer'', page_records = [federate ''peer'' machine_record], page_next = Some ''v2.peer''\<rparr>)\<rparr>"

theorem interrupted_pull_resumes_witness:
  "\<exists>s' w'. sync_pages paged_pull 1 ''peer'' 1 0 fresh_scan
        (ingest_example_store\<lparr>federation_peers := [new_peer 1 ''peer'']\<rparr>, None) = (Inr s', w') \<and> \<not> fed_complete s'
    \<and> sync_machine (after_calls 1 paged_pull) 1 ''peer'' w' = sync_pages paged_pull 1 ''peer'' (1 + max_pages_per_sync) 0 fresh_scan
        (ingest_example_store\<lparr>federation_peers := [new_peer 1 ''peer'']\<rparr>, None)"
proof -
  let ?st = "ingest_example_store\<lparr>federation_peers := [new_peer 1 ''peer'']\<rparr>"
  have v: "record_validate True 1 ''peer'' (federate ''peer'' machine_record) = Inr ()"
    using machine_ready by (simp add: export_ready_def)
  have c: "opaque_cursor_new ''v2.peer'' = Inr ''v2.peer''"
    using plain_cursor [of "''peer''"] by (simp add: is_ascii_alphanumeric_def is_ascii_alphabetic_def is_ascii_lower_def byte_of_def)
  have f: "fetch_valid paged_pull 0 1 ''peer'' None = Inr \<lparr>page_version = federation_version,
     page_source = ''peer'', page_records = [federate ''peer'' machine_record], page_next = Some ''v2.peer''\<rparr>"
    using v peer_cursor_text(2)
    by (simp add: fetch_valid_def paged_pull_def page_validate_def default_page_rows_def max_page_rows_def
        validate_cursor_progress_def) (simp add: parse_export_cursor_def)
  obtain s' st' where ap: "apply_federation_page (plain_codec 0) (pull_tokens paged_pull) True
      (pull_time paged_pull 0) 1 ''peer'' None (Some ''v2.peer'') [federate ''peer'' machine_record] ?st = Inr (s', st')"
    "\<not> fed_complete s'" using machine_applies [of "Some ''v2.peer''" "pull_tokens paged_pull" "pull_time paged_pull 0"] c by auto
  have e: "pull_codec paged_pull = plain_codec 0" "pull_macos paged_pull = True" by (simp_all add: paged_pull_def)
  have run: "sync_pages paged_pull 1 ''peer'' 1 0 fresh_scan (?st, None) = (Inr s', (st', None))"
    using f ap e by (simp add: One_nat_def consumer_apply_def publish_to_def)
  show ?thesis
    using interrupted_pull_resumes [OF example_pull_begins(1) run ap(2)] run ap(2) by blast
qed


text \<open>Usage rows with ids across a power of ten.\<close>

definition old_snapshot :: usage_snapshot where
  "old_snapshot = example_snapshot\<lparr>snap_machine := ''peer''\<rparr>"

definition crossing_ids :: "nat list" where "crossing_ids = [751..<1002]"

definition usage_rows :: "nat list \<Rightarrow> snapshot_row list" where
  "usage_rows ids = map (\<lambda>i. \<lparr>snap_id = int i, snapshot = old_snapshot\<rparr>) ids"

definition crossing_store :: store where
  "crossing_store = empty_store\<lparr>usage_snapshots := usage_rows crossing_ids\<rparr>"

definition usage_record :: "nat \<Rightarrow> local_record" where
  "usage_record i = \<lparr>local_key = ''c/d'', local_row = FedUsage old_snapshot,
     local_position = \<lparr>phase = 2, position_values = [show_nat i]\<rparr>\<rparr>"

lemma crossing_ids_facts:
  "length crossing_ids = 251" "sorted crossing_ids" "i \<in> set crossing_ids \<Longrightarrow> 750 < i \<and> i < 1002"
  "last (take 250 crossing_ids) = 1000"
proof -
  show "length crossing_ids = 251" "sorted crossing_ids" "i \<in> set crossing_ids \<Longrightarrow> 750 < i \<and> i < 1002"
    by (simp_all add: crossing_ids_def del: upt_Suc upt_rec_numeral)
  have "take 250 crossing_ids = [751..<1001]" by (simp add: crossing_ids_def take_upt del: upt_Suc upt_rec_numeral)
  then show "last (take 250 crossing_ids) = 1000" by (simp add: last_upt del: upt_Suc upt_rec_numeral)
qed

lemma crossing_items:
  "items_after 1 ''peer'' (Some \<lparr>phase = 2, position_values = [''750'']\<rparr>) crossing_store
     = map (\<lambda>i. (2, [show_nat i], FedUsage old_snapshot)) crossing_ids"
proof -
  have p: "parse_i64 ''750'' = Some 750" by code_simp
  have f: "filter (\<lambda>r. snap_account (snapshot r) = 1 \<and> snap_machine (snapshot r) = ''peer'' \<and> 750 < snap_id r)
      (usage_rows crossing_ids) = usage_rows crossing_ids"
    by (rule filter_True) (use crossing_ids_facts(3) in \<open>auto simp: usage_rows_def old_snapshot_def example_snapshot_def\<close>)
  have "sorted (map snap_id (usage_rows crossing_ids))"
    using crossing_ids_facts(2) by (simp add: usage_rows_def comp_def sorted_map)
  then have u: "usage_items 1 ''peer'' 750 crossing_store = map (\<lambda>i. (2, [show_nat i], FedUsage old_snapshot)) crossing_ids"
    by (simp add: usage_items_def crossing_store_def f sort_key_id_if_sorted) (simp add: usage_rows_def show_int_def)
  then show ?thesis
    by (simp add: items_after_def start_values_def p) (simp add: crossing_store_def empty_store_def context_items_def token_items_def)
qed

lemma crossing_page:
  "local_federation_page (plain_codec 2) 1 ''peer'' (Some \<lparr>phase = 2, position_values = [''750'']\<rparr>) 251 crossing_store
     = Inr (map usage_record crossing_ids)"
proof -
  have "parse_i64 ''750'' = Some 750" by code_simp
  then have wf: "cursor_well_formed (Some \<lparr>phase = 2, position_values = [''750'']\<rparr>)"
    by (simp add: cursor_well_formed_def)
  have "char_of (99 :: nat) = CHR ''c''" by code_simp
  then have "export_item (plain_codec 2) (2, [show_nat i], FedUsage old_snapshot) = Inr (usage_record i)"
    if "i \<in> set crossing_ids" for i
    using show_nat_length [of i 4] crossing_ids_facts(3) [OF that]
    by (simp add: export_item_def exported_def export_position_new_def local_record_new_def plain_codec_def usage_record_def)
  then have "try_map (\<lambda>i. export_item (plain_codec 2) (2, [show_nat i], FedUsage old_snapshot)) crossing_ids
      = Inr (map usage_record crossing_ids)"
    by (rule try_map_ok_all)
  then show ?thesis
    by (simp add: local_page_items [OF wf] federation_query_limit_def max_page_rows_def crossing_items try_map_map
        crossing_ids_facts(1))
qed

lemma crossing_texts:
  "show_int 750 = ''750''" "show_nat 1000 = ''1000''" "show_int 1000 = ''1000''" "show_int 1000 \<le> show_int 750"
  by code_simp+

lemma crossing_cursors:
  "parse_export_cursor (plain_codec 2) (Some ''v2.750'') = Inr (Some \<lparr>phase = 2, position_values = [''750'']\<rparr>)"
  "export_cursor (plain_codec 2) \<lparr>phase = 2, position_values = [''1000'']\<rparr> = Inr ''v2.1000''"
  "parse_export_cursor (plain_codec 2) (Some ''v2.1000'') = Inr (Some \<lparr>phase = 2, position_values = [''1000'']\<rparr>)"
  using plain_round_trip [of "''750''" 2] plain_round_trip [of "''1000''" 2]
  by (simp_all add: is_ascii_alphanumeric_def is_ascii_digit_def byte_of_def)

lemma crossing_source:
  "source_page (plain_codec 2) {1} ''peer'' crossing_store
      \<lparr>fr_account = 1, fr_machine = ''peer'', fr_cursor = Some ''v2.750'', fr_limit = 250\<rparr>
     = Inr (map usage_record (take 250 crossing_ids), Some ''v2.1000'')"
proof -
  have ne: "take 250 crossing_ids \<noteq> []" using crossing_ids_facts(1) by auto
  have "last (map usage_record (take 250 crossing_ids)) = usage_record 1000"
    using ne crossing_ids_facts(4) by (simp add: last_map)
  then show ?thesis
    using ne crossing_page crossing_cursors
    by (simp add: source_page_def crossing_ids_facts(1) take_map) (simp add: usage_record_def crossing_texts(2))
qed

lemma crossing_exported:
  "exporter_page (plain_codec 2) True ''peer'' (source_page (plain_codec 2) {1} ''peer'' crossing_store) 1 (Some ''v2.750'') 250
     = Inr \<lparr>page_version = federation_version, page_source = ''peer'',
            page_records = map (federate ''peer'') (map usage_record (take 250 crossing_ids)), page_next = Some ''v2.1000''\<rparr>"
proof -
  have ne: "take 250 crossing_ids \<noteq> []" using crossing_ids_facts(1) by auto
  have "record_validate True 1 ''peer'' (federate ''peer'' (usage_record i)) = Inr ()" for i
    by (simp add: record_validate_def federate_def usage_record_def key_byte_def is_ascii_alphanumeric_def
        is_ascii_alphabetic_def is_ascii_lower_def byte_of_def validate_direct_def origin_local_def max_origin_hops_def
        row_validate_def old_snapshot_def example_snapshot_def)
  then have "try_each (record_validate True 1 ''peer'') (map (federate ''peer'') (map usage_record (take 250 crossing_ids))) = Inr ()"
    by (simp add: try_each_Inr)
  then show ?thesis
    using crossing_source ne by (simp add: exporter_page_def page_validate_def max_page_rows_def crossing_ids_facts(1))
qed

definition stalled_peer :: peer_row where
  "stalled_peer = (new_peer 1 ''peer'')\<lparr>peer_cursor := Some ''v2.750'', pages_applied := 3\<rparr>"

theorem usage_scan_stalls_witness:
  "sync_machine (example_pull 2 crossing_store) 1 ''peer'' (ingest_example_store\<lparr>federation_peers := [stalled_peer]\<rparr>, None)
     = (Inl not_advancing, (ingest_example_store\<lparr>federation_peers := [stalled_peer]\<rparr>, None))"
proof (rule usage_scan_stalls [where a = 750 and b = 1000 and c = "''v2.750''" and c' = "''v2.1000''" and pst = crossing_store
      and accts = "{1}" and s = "\<lparr>fed_cursor = Some ''v2.750'', fed_generation = 0, fed_pages = 3, fed_records = 0, fed_complete = False\<rparr>"])
  have "opaque_cursor_new ''v2.750'' = Inr ''v2.750''"
    using plain_cursor [of "''750''"] by (simp add: is_ascii_alphanumeric_def is_ascii_digit_def byte_of_def)
  then show "load_federation_state 1 ''peer'' (ingest_example_store\<lparr>federation_peers := [stalled_peer]\<rparr>) =
      Inr \<lparr>fed_cursor = Some ''v2.750'', fed_generation = 0, fed_pages = 3, fed_records = 0, fed_complete = False\<rparr>"
    by (simp add: load_federation_state_def is_peer_def stalled_peer_def new_peer_def)
  show "exporter_page (pull_codec (example_pull 2 crossing_store)) (pull_macos (example_pull 2 crossing_store)) ''peer''
      (source_page (pull_codec (example_pull 2 crossing_store)) {1} ''peer'' crossing_store) 1 (Some ''v2.750'') default_page_rows
      = Inr \<lparr>page_version = federation_version, page_source = ''peer'',
            page_records = map (federate ''peer'') (map usage_record (take 250 crossing_ids)), page_next = Some ''v2.1000''\<rparr>"
    using crossing_exported by (simp add: default_page_rows_def)
qed (simp_all add: crossing_cursors crossing_texts example_pull_served)

end
