(* ===== verification/Federation_Replay.thy ===== *)
theory Federation_Replay
  imports Federation_Exchange
begin

text \<open>
  What an exporter shows, how its pages follow each other, and what remembering the applied records
  by their content costs: a value that comes back after a change is not applied again.
\<close>

section \<open>What is exported\<close>

lemma local_page_well_formed:
  assumes "local_federation_page fx acct mach after n st = Inr page"
  shows "cursor_well_formed after"
proof (cases after)
  case None
  then show ?thesis by (simp add: cursor_well_formed_def)
next
  case (Some p)
  consider "phase p = 0 \<or> 4 < phase p" | "phase p = 1" | "phase p = 2" | "phase p = 3" | "phase p = 4" by linarith
  then show ?thesis
  proof cases
    case 1
    then show ?thesis using Some by (auto simp: cursor_well_formed_def)
  next
    case 2
    then show ?thesis using assms Some
      by (auto simp: local_federation_page_def result_simps federation_query_limit_def add_phase_def profile_phase_def
          phase_values_def cursor_well_formed_def split: if_splits)
  next
    case 3
    then show ?thesis using assms Some
      by (auto simp: local_federation_page_def result_simps federation_query_limit_def add_phase_def usage_phase_def
          phase_values_def cursor_well_formed_def split: if_splits)
  next
    case 4
    then show ?thesis using assms Some
      by (auto simp: local_federation_page_def result_simps federation_query_limit_def add_phase_def context_phase_def
          phase_values_def cursor_well_formed_def split: if_splits)
  next
    case 5
    then show ?thesis using assms Some
      by (auto simp: local_federation_page_def result_simps federation_query_limit_def add_phase_def token_phase_def
          phase_values_def cursor_well_formed_def split: if_splits)
  qed
qed

text \<open>A row the local node produced itself, with the local-only columns of a profile removed.\<close>

definition local_export :: "int \<Rightarrow> string \<Rightarrow> store \<Rightarrow> federated_row \<Rightarrow> bool" where
  "local_export acct mach st row \<longleftrightarrow> fed_account row = acct \<and>
     (case row of
        FedMachine m \<Rightarrow> m \<in> set (machines st) \<and> mach_name m = mach
      | FedProfile p \<Rightarrow> config_dir p = None \<and> api_key_env p = None \<and> api_key_file p = None
          \<and> (\<exists>q \<in> set (profiles st). origin q = LocalOrigin \<and> p = redacted_profile q)
      | FedUsage s \<Rightarrow> s \<in> snapshot ` set (usage_snapshots st) \<and> snap_machine s = mach
      | FedContext c \<Rightarrow> c \<in> set (context_sessions st) \<and> ctx_machine c = mach
      | FedToken g \<Rightarrow> g \<in> grain ` set (token_usage st) \<and> tok_machine g = mach)"

lemma items_local:
  "i \<in> set (items_after acct mach after st) \<Longrightarrow> local_export acct mach st (snd (snd i))"
  using find_Some_mem [of "same_machine acct mach" "machines st"]
  by (auto simp: items_after_def Let_def machine_items_def profile_items_def usage_items_def context_items_def
      token_items_def local_export_def redacted_profile_def same_machine_def split: option.splits if_splits)

text \<open>
  An exporter serves nothing but its own rows: every record of a page, whatever cursor was asked for,
  is a machine, usage, context or token row of the requested account that this machine produced, or a
  profile that was configured here with its directory and its key references removed. Rows mirrored
  from another peer are never served on.
\<close>

theorem export_is_local_and_redacted:
  assumes "source_page fx accts mach st req = Inr (rs, nxt)" and "r \<in> set rs"
  shows "fr_account req \<in> accts \<and> fr_machine req = mach \<and> local_export (fr_account req) mach st (local_row r)"
proof -
  obtain after page where p: "local_federation_page fx (fr_account req) mach after (fr_limit req + 1) st = Inr page"
    "rs = take (fr_limit req) page" and b: "fr_account req \<in> accts" "fr_machine req = mach"
    using assms(1) by (auto simp: source_page_def Let_def result_simps split: if_splits)
  have t: "try_map (export_item fx) (take (fr_limit req + 1) (items_after (fr_account req) mach after st)) = Inr page"
    using page_is_prefix [OF local_page_well_formed [OF p(1)] p(1)] by (rule conjunct1)
  have "r \<in> set page" using assms(2) p(2) in_set_takeD by fast
  then obtain i where i: "i \<in> set (take (fr_limit req + 1) (items_after (fr_account req) mach after st))"
    "export_item fx i = Inr r"
    using try_map_mem [OF t] by blast
  have "local_row r = snd (snd i)" using export_item_fields [OF i(2)] by simp
  then show ?thesis using items_local [OF in_set_takeD [OF i(1)]] b by simp
qed

theorem export_is_local_and_redacted_witness:
  "local_export 1 ''peer'' crossing_store (FedUsage old_snapshot)"
proof -
  have src: "source_page (plain_codec 2) {1} ''peer'' crossing_store
      \<lparr>fr_account = 1, fr_machine = ''peer'', fr_cursor = Some ''v2.750'', fr_limit = 250\<rparr>
      = Inr (map usage_record (take 250 crossing_ids), Some ''v2.1000'')"
    using crossing_source .
  have "take 250 crossing_ids \<noteq> []" using crossing_ids_facts(1) by auto
  then obtain i where "i \<in> set (take 250 crossing_ids)" by (meson last_in_set)
  then have "usage_record i \<in> set (map usage_record (take 250 crossing_ids))" by simp
  from export_is_local_and_redacted [OF src this] show ?thesis by (simp add: usage_record_def)
qed

text \<open>
  The pages of an export follow each other without gaps or repeats: a non-empty page holds the next
  rows of one fixed list - the machine row, the local profiles by name, the usage rows by id, the context
  sessions and the token rows by key - and asking again at the position of its last record continues
  with exactly the rest of that list.
\<close>

theorem export_pages_resume:
  assumes "export_keys_ok acct mach st" and "local_federation_page fx acct mach after n st = Inr page" and "page \<noteq> []"
  shows "map local_row page = map (\<lambda>i. snd (snd i)) (take n (items_after acct mach after st))
    \<and> items_after acct mach (Some (local_position (last page))) st = drop (length page) (items_after acct mach after st)"
  using export_resumes [OF assms(1) local_page_well_formed [OF assms(2)] assms(2,3)] by simp

theorem export_pages_resume_witness:
  "items_after 1 ''peer'' (Some \<lparr>phase = 2, position_values = [''1001'']\<rparr>) crossing_store = []"
proof -
  have "export_keys_ok 1 ''peer'' crossing_store"
    using crossing_ids_facts(3) by (auto simp: export_keys_ok_def crossing_store_def empty_store_def usage_rows_def
        comp_def crossing_ids_def distinct_map inj_on_def i64_ok_def i64_min_def i64_max_def simp del: upt_Suc upt_rec_numeral)
  moreover have "map usage_record crossing_ids \<noteq> []" using crossing_ids_facts(1) by auto
  moreover have "show_nat 1001 = ''1001''" by code_simp
  moreover have "last crossing_ids = 1001" by (simp add: crossing_ids_def last_upt del: upt_Suc upt_rec_numeral)
  ultimately show ?thesis
    using export_pages_resume [OF _ crossing_page] crossing_items crossing_ids_facts(1)
    by (simp add: last_map usage_record_def)
qed

section \<open>Values that come back\<close>

lemma apply_page_loads:
  "apply_federation_page fx x mac time acct mach cur nxt rs st = Inr (s', st') \<Longrightarrow> load_federation_state acct mach st' = Inr s'"
  by (erule apply_page_cases)

text \<open>A page with one profile that was not applied before writes it, unless a local profile has the name.\<close>

lemma new_profile_applied:
  assumes ap: "apply_federation_page fx x mac time acct mach cur nxt [r] st = Inr (s', st')"
    and row: "rec_row r = FedProfile p" and new: "\<forall>old \<in> set (federation_records st). record_id old \<noteq> (acct, mach, rec_key r)"
    and "\<forall>q \<in> set (profiles st). profile_key q = profile_key p \<longrightarrow> origin q = Reported"
  shows "\<exists>q. get_profile (prof_account p) (prof_name p) st' = Some q \<and> hidden q = hidden p \<and> origin q = Reported"
  using ap
proof (cases rule: apply_page_cases)
  case (1 s pending st1 st2 u)
  note pc = pending_records_cases [OF 1(6)]
  have "\<not> known_record fx acct mach st r" using new unfolding known_record_def by blast
  then obtain fp where "(r, fp) \<in> set pending" using pc by auto
  moreover have "distinct (map (\<lambda>p. rec_key (fst p)) pending)" using pc by simp
  moreover have "\<forall>q \<in> set pending. fst q = r" using pc by auto
  ultimately have "pending = [(r, fp)]"
    by (cases pending; cases "tl pending") auto
  then have up: "\<exists>u. upsert_reported_profile mac p st = Inr (u, st1)" and t: "upsert_token_batch x [] st1 = Inr (u, st2)"
    using 1(7,8) row by (auto simp: apply_federated_row_def result_simps fed_grains_def List.map_filter_def)
  have "st2 = st1" using t by (simp add: upsert_token_batch_def batch_scopes_def)
  then have prof: "profiles st' = profiles st1" using 1(9) by simp
  obtain u where u: "upsert_reported_profile mac p st = Inr (u, st1)" using up by blast
  note c = upsert_reported_cases [OF u]
  have "origin ex = Reported" if "get_profile (prof_account p) (prof_name p) st = Some ex" for ex
    using find_Some_mem [OF that [unfolded get_profile_def]] assms(4) by (auto simp: same_profile_def profile_key_def)
  then have "write_reported p st = Inr (u, st1)" using c(3) by fastforce
  from write_reported_stored [OF this] show ?thesis using c(2) prof by (auto simp: get_profile_def)
qed

text \<open>
  A change that is taken back is lost. The key of an exported profile is a digest of its content, and
  a key that was applied once is never applied again; so when a peer exports a profile, exports it
  hidden, and then exports it as it was, all three pages are accepted, and the puller keeps showing the
  second version: the third is taken for a repetition of the first.
\<close>

theorem reverted_profile_is_lost:
  assumes a: "exported fx 1 [prof_name p] (FedProfile (redacted_profile p)) = Inr a"
    and b: "exported fx 1 [prof_name p] (FedProfile (redacted_profile (p\<lparr>hidden := \<not> hidden p\<rparr>))) = Inr b"
    and one: "apply_federation_page fx x mac t1 acct mach c0 n1 [federate mach a] st = Inr (s1, st1)"
    and two: "apply_federation_page fx x mac t2 acct mach c1 n2 [federate mach b] st1 = Inr (s2, st2)"
    and ok: "ingest_tables_ok mac st" "federation_ok st" "\<not> fed_complete s2"
    and fresh: "\<forall>old \<in> set (federation_records st1). record_id old \<noteq> (acct, mach, local_key b)"
    and mirrored: "\<forall>q \<in> set (profiles st1). profile_key q = profile_key p \<longrightarrow> origin q = Reported"
  shows "\<exists>s3 st3 q. apply_federation_page fx x mac t3 acct mach (fed_cursor s2) None [federate mach a] st2 = Inr (s3, st3)
      \<and> get_profile (prof_account p) (prof_name p) st3 = Some q \<and> hidden q = (\<not> hidden p)"
proof -
  have r: "rec_row (federate mach a) = FedProfile (redacted_profile p)"
    "rec_row (federate mach b) = FedProfile (redacted_profile (p\<lparr>hidden := \<not> hidden p\<rparr>))"
    using exported_fields [OF a] exported_fields [OF b] by (simp_all add: federate_def)
  have key: "rec_key (federate mach b) = local_key b" by (simp add: federate_def)
  have pk: "profile_key (redacted_profile q) = profile_key q" for q by (simp add: redacted_profile_def profile_key_def)
  have "\<exists>q. get_profile (prof_account p) (prof_name p) st2 = Some q \<and> hidden q = (\<not> hidden p)"
    using new_profile_applied [OF two r(2)] fresh mirrored key
    by (auto simp: redacted_profile_def profile_key_def)
  moreover note rec1 = apply_page_records [OF one ok(1,2)] and sc1 = apply_page_scope [OF one ok(1)]
  note rec2 = apply_page_records [OF two conjunct2 [OF sc1] conjunct1 [OF rec1]]
  have sub: "set (federation_records st1) \<subseteq> set (federation_records st2)"
    using peer_scope_records apply_page_scope [OF two conjunct2 [OF sc1]] by blast
  have known: "\<forall>r \<in> set [federate mach a]. known_record fx acct mach st2 r" using rec1 known_later [OF _ sub] by simp
  have val: "\<forall>r \<in> set [federate mach a]. record_validate mac acct mach r = Inr ()"
    using one by (rule apply_page_cases)
  ultimately show ?thesis
    using known_page_applied [OF known conjunct1 [OF rec2] val _ apply_page_loads [OF two] ok(3), of None]
    by (auto simp: get_profile_def)
qed

section \<open>Examples\<close>

lemma example_tables: "ingest_tables_ok True (ingest_example_store\<lparr>federation_peers := [new_peer 1 ''peer'']\<rparr>)"
  "federation_ok (ingest_example_store\<lparr>federation_peers := [new_peer 1 ''peer'']\<rparr>)"
  using begin_sync_tables [OF example_pull_begins(1) ingest_example_ok0] example_pull_begins(3)
  by (simp_all add: federation_ok_def)

text \<open>A codec that tells a hidden profile from a visible one.\<close>

definition version_codec :: fed_extern where
  "version_codec = (plain_codec 1)\<lparr>row_json := (\<lambda>row. case row of FedProfile p \<Rightarrow> Some (if hidden p then ''h'' else ''v'') | _ \<Rightarrow> Some ''r''),
     sha256_hex := (\<lambda>s. s)\<rparr>"

definition peer_profile :: profile where
  "peer_profile = reported_example\<lparr>origin := LocalOrigin\<rparr>"

definition version_record :: "string \<Rightarrow> bool \<Rightarrow> local_record" where
  "version_record k h = \<lparr>local_key = ''b/remote'' @ k, local_row = FedProfile (redacted_profile (peer_profile\<lparr>hidden := h\<rparr>)),
     local_position = \<lparr>phase = 1, position_values = [''remote'']\<rparr>\<rparr>"

lemma version_exported:
  "exported version_codec 1 [prof_name peer_profile] (FedProfile (redacted_profile peer_profile)) = Inr (version_record ''v'' False)"
  "exported version_codec 1 [prof_name peer_profile] (FedProfile (redacted_profile (peer_profile\<lparr>hidden := True\<rparr>)))
     = Inr (version_record ''h'' True)"
proof -
  have "char_of (98 :: nat) = CHR ''b''" by code_simp
  then show "exported version_codec 1 [prof_name peer_profile] (FedProfile (redacted_profile peer_profile)) = Inr (version_record ''v'' False)"
    "exported version_codec 1 [prof_name peer_profile] (FedProfile (redacted_profile (peer_profile\<lparr>hidden := True\<rparr>)))
     = Inr (version_record ''h'' True)"
    by (simp_all add: exported_def export_position_new_def local_record_new_def version_codec_def plain_codec_def version_record_def
        peer_profile_def reported_example_def redacted_profile_def)
qed

lemma version_profile:
  "profile_validate True (redacted_profile (peer_profile\<lparr>hidden := h\<rparr>)) = Inr ()"
  "origin (redacted_profile (peer_profile\<lparr>hidden := h\<rparr>)) = Reported"
  "prof_account (redacted_profile (peer_profile\<lparr>hidden := h\<rparr>)) = 1"
  "prof_name (redacted_profile (peer_profile\<lparr>hidden := h\<rparr>)) = ''remote''"
  "prof_vendor (redacted_profile (peer_profile\<lparr>hidden := h\<rparr>)) = AnthropicOauth"
  by (simp_all add: profile_validate_def redacted_profile_def peer_profile_def reported_example_def
      validate_profile_credentials_def validate_profile_origin_def)

lemma version_valid:
  assumes "k = ''v'' \<or> k = ''h''"
  shows "record_validate True 1 ''peer'' (federate ''peer'' (version_record k h)) = Inr ()"
  using assms version_profile [of h]
  by (auto simp: record_validate_def federate_def version_record_def key_byte_def is_ascii_alphanumeric_def
      is_ascii_alphabetic_def is_ascii_lower_def byte_of_def validate_direct_def origin_local_def max_origin_hops_def
      row_validate_def)

text \<open>A page with the profile is accepted wherever the profile is mirrored and the record is new.\<close>

lemma version_applies:
  assumes peer: "load_federation_state 1 ''peer'' st = Inr s" "\<not> fed_complete s"
    and acct: "account_exists 1 st"
    and old: "get_profile 1 ''remote'' st = Some ex" "prof_vendor ex = AnthropicOauth" "origin ex = Reported"
    and new: "\<forall>r \<in> set (federation_records st). record_id r \<noteq> (1, ''peer'', ''b/remote'' @ k)"
    and k: "k = ''v'' \<or> k = ''h''" and nxt: "opaque_cursor_new c = Inr c"
  shows "\<exists>s' st' q. apply_federation_page version_codec example_extern True t 1 ''peer'' (fed_cursor s) (Some c)
        [federate ''peer'' (version_record k h)] st = Inr (s', st') \<and> \<not> fed_complete s'
      \<and> account_exists 1 st' \<and> get_profile 1 ''remote'' st' = Some q \<and> prof_vendor q = AnthropicOauth \<and> origin q = Reported
      \<and> map record_id (federation_records st') = map record_id (federation_records st) @ [(1, ''peer'', ''b/remote'' @ k)]"
proof -
  let ?p = "redacted_profile (peer_profile\<lparr>hidden := h\<rparr>)" and ?r = "federate ''peer'' (version_record k h)"
  note vp = version_profile [of h]
  have up: "upsert_reported_profile True ?p st = write_reported ?p st"
    using vp old by (simp add: upsert_reported_profile_def get_profile_def)
  obtain st1 where w: "write_reported ?p st = Inr ((), st1)" "st1 = st\<lparr>profiles := profiles st1\<rparr>"
    using acct vp by (simp add: write_reported_def)
  obtain ps where ps: "st1 = st\<lparr>profiles := ps\<rparr>" using w(2) by blast
  have row: "rec_row ?r = FedProfile ?p" "rec_key ?r = ''b/remote'' @ k" by (simp_all add: federate_def version_record_def)
  have find: "find (same_record 1 ''peer'' (''b/remote'' @ k)) (federation_records st) = None"
    using new by (simp add: find_None_iff same_record_id)
  have fp: "record_fingerprint version_codec (FedProfile ?p) = Inr (if h then ''h'' else ''v'')"
    by (simp add: record_fingerprint_def version_codec_def redacted_profile_def)
  have pend: "pending_records version_codec 1 ''peer'' st [?r]
      = Inr [(?r, if h then ''h'' else ''v'')]"
    using find fp row by simp
  let ?st2 = "st1\<lparr>federation_records := federation_records st @ applied_rows 1 ''peer'' t [(?r, if h then ''h'' else ''v'')],
      federation_peers := page_done 1 ''peer'' (Some c) 1 (federation_peers st)\<rparr>"
  have load: "load_federation_state 1 ''peer'' ?st2 = Inr \<lparr>fed_cursor = Some c, fed_generation = fed_generation s,
      fed_pages = fed_pages s + 1, fed_records = fed_records s + 1, fed_complete = False\<rparr>"
    using load_state_page [OF peer(1), of ?st2 "Some c" 1] nxt by simp
  have "apply_federation_page version_codec example_extern True t 1 ''peer'' (fed_cursor s) (Some c) [?r] st
      = map_ok (\<lambda>s'. (s', ?st2)) (load_federation_state 1 ''peer'' ?st2)"
    using peer version_valid [OF k] row(1) up w(1)
    by (simp add: apply_federation_page_def apply_federated_row_def fed_grains_def List.map_filter_def pend
        upsert_token_batch_def batch_scopes_def page_done_def ps Let_def del: pending_records.simps)
  then have run: "apply_federation_page version_codec example_extern True t 1 ''peer'' (fed_cursor s) (Some c) [?r] st
      = Inr (\<lparr>fed_cursor = Some c, fed_generation = fed_generation s,
      fed_pages = fed_pages s + 1, fed_records = fed_records s + 1, fed_complete = False\<rparr>, ?st2)"
    by (simp only: load map_ok_simps)
  obtain q where "get_profile 1 ''remote'' st1 = Some q" "prof_vendor q = AnthropicOauth" "origin q = Reported"
    using write_reported_stored [OF w(1)] vp by auto
  then show ?thesis
    using run acct row by (auto simp: get_profile_def account_exists_def ps applied_rows_def record_id_def)
qed

theorem records_apply_once_witness:
  "\<exists>s1 st1. apply_federation_page (plain_codec 0) example_extern True 5 1 ''peer'' None (Some ''v2.peer'')
        [federate ''peer'' machine_record] (ingest_example_store\<lparr>federation_peers := [new_peer 1 ''peer'']\<rparr>) = Inr (s1, st1)
    \<and> apply_federation_page (plain_codec 0) example_extern True 9 1 ''peer'' (fed_cursor s1) None
        [federate ''peer'' machine_record] st1
      = Inr (\<lparr>fed_cursor = None, fed_generation = fed_generation s1, fed_pages = fed_pages s1 + 1,
               fed_records = fed_records s1, fed_complete = True\<rparr>,
             st1\<lparr>federation_peers := page_done 1 ''peer'' None 0 (federation_peers st1)\<rparr>)"
proof -
  have "opaque_cursor_new ''v2.peer'' = Inr ''v2.peer''"
    using plain_cursor [of "''peer''"] by (simp add: is_ascii_alphanumeric_def is_ascii_alphabetic_def is_ascii_lower_def byte_of_def)
  then obtain s1 st1 where one: "apply_federation_page (plain_codec 0) example_extern True 5 1 ''peer'' None (Some ''v2.peer'')
      [federate ''peer'' machine_record] (ingest_example_store\<lparr>federation_peers := [new_peer 1 ''peer'']\<rparr>) = Inr (s1, st1)"
    "\<not> fed_complete s1" using machine_applies [of "Some ''v2.peer''" example_extern 5] by auto
  have f: "federation_ok st1" using apply_page_records [OF one(1) example_tables] by blast
  show ?thesis
    using records_apply_once [OF one(1) example_tables subset_refl f subset_refl _ apply_page_loads [OF one(1)] one(2), of None 9]
      one(1) by simp
qed

theorem reverted_profile_is_lost_witness:
  "\<exists>(s2 :: federation_state) st2 s3 st3 q. apply_federation_page version_codec example_extern True 9 1 ''peer'' (fed_cursor s2) None
        [federate ''peer'' (version_record ''v'' False)] st2 = Inr (s3, st3)
    \<and> get_profile 1 ''remote'' st3 = Some q \<and> hidden q \<and> \<not> hidden peer_profile"
proof -
  let ?st = "ingest_example_store\<lparr>federation_peers := [new_peer 1 ''peer'']\<rparr>"
  have c: "opaque_cursor_new ''v2.peer'' = Inr ''v2.peer''"
    using plain_cursor [of "''peer''"] by (simp add: is_ascii_alphanumeric_def is_ascii_alphabetic_def is_ascii_lower_def byte_of_def)
  have load: "load_federation_state 1 ''peer'' ?st = Inr fresh_scan"
    by (simp add: load_federation_state_def is_peer_def new_peer_def)
  have acct: "account_exists 1 ?st" using example_pull_begins(2) by (simp add: account_exists_def)
  have old: "get_profile 1 ''remote'' ?st = Some reported_example"
    by (simp add: get_profile_def same_profile_def ingest_example_store_def identity_example_store_def example_profile_def
        reported_example_def)
  have recs: "federation_records ?st = []" by (simp add: ingest_example_store_def identity_example_store_def empty_store_def)
  obtain s1 st1 q1 where one: "apply_federation_page version_codec example_extern True 5 1 ''peer'' None (Some ''v2.peer'')
        [federate ''peer'' (version_record ''v'' False)] ?st = Inr (s1, st1)" "\<not> fed_complete s1"
    "account_exists 1 st1" "get_profile 1 ''remote'' st1 = Some q1" "prof_vendor q1 = AnthropicOauth" "origin q1 = Reported"
    "map record_id (federation_records st1) = [(1, ''peer'', ''b/remotev'')]"
    using version_applies [OF load _ acct old _ _ _ _ c, of "''v''" 5 False] recs by (auto simp: reported_example_def)
  have new: "\<forall>r \<in> set (federation_records st1). record_id r \<noteq> (1, ''peer'', ''b/remote'' @ ''h'')"
  proof -
    have "record_id r = (1, ''peer'', ''b/remotev'')" if "r \<in> set (federation_records st1)" for r
    proof -
      have "record_id r \<in> set (map record_id (federation_records st1))" using that by simp
      then show ?thesis unfolding one(7) by simp
    qed
    then show ?thesis by auto
  qed
  obtain s2 st2 where two: "apply_federation_page version_codec example_extern True 7 1 ''peer'' (fed_cursor s1) (Some ''v2.peer'')
        [federate ''peer'' (version_record ''h'' True)] st1 = Inr (s2, st2)" "\<not> fed_complete s2"
    using version_applies [OF apply_page_loads [OF one(1)] one(2-6) new _ c, of 7 True] by auto
  have tab: "profiles_ok True st1"
    using apply_page_scope [OF one(1) example_tables(1)] by (simp add: ingest_tables_ok_def)
  have mir: "\<forall>q \<in> set (profiles st1). profile_key q = profile_key peer_profile \<longrightarrow> origin q = Reported"
  proof (intro ballI impI)
    fix q assume q: "q \<in> set (profiles st1)" "profile_key q = profile_key peer_profile"
    then have "prof_account q = 1" "prof_name q = ''remote''"
      by (simp_all add: profile_key_def peer_profile_def reported_example_def)
    then have "get_profile 1 ''remote'' st1 = Some q" using get_profile_unique [OF tab q(1)] by simp
    then show "origin q = Reported" using one(4,6) by simp
  qed
  have h: "\<not> hidden peer_profile" "prof_account peer_profile = 1" "prof_name peer_profile = ''remote''"
    by (simp_all add: peer_profile_def reported_example_def)
  have b: "exported version_codec 1 [prof_name peer_profile]
      (FedProfile (redacted_profile (peer_profile\<lparr>hidden := \<not> hidden peer_profile\<rparr>))) = Inr (version_record ''h'' True)"
    using version_exported(2) h(1) by simp
  have key: "\<forall>r \<in> set (federation_records st1). record_id r \<noteq> (1, ''peer'', local_key (version_record ''h'' True))"
    using new by (simp add: version_record_def)
  show ?thesis
    using reverted_profile_is_lost [OF version_exported(1) b one(1) two(1) example_tables two(2) key mir, of 9] h
    by (simp only: h simp_thms) blast
qed

end
