(* ===== verification/Resume_Leases.thy ===== *)
theory Resume_Leases
  imports Pulse_Prelude
begin

text \<open>
  The leases of \<open>src/src/control.rs\<close> that keep a saved conversation from being resumed twice: the
  reservation table of a process (\<open>ResumeLeaseState\<close>), the guard of an attempt to launch
  (\<open>ResumeLeaseGuard\<close>, \<open>acquire_resume_lease\<close>, \<open>launch\<close>), the release after a kill, and the table that
  is rebuilt from tmux at every refresh. Several processes share one tmux server and one advisory
  lock file per lease. An attempt is numbered; its number also names the lock file it opened.
\<close>

section \<open>The table of a process\<close>

record lease_state =
  in_flight :: "string set"
  active_leases :: "string set"
  process_locks :: "string \<Rightarrow> nat option"

definition no_leases :: lease_state where
  "no_leases = \<lparr>in_flight = {}, active_leases = {}, process_locks = (\<lambda>_. None)\<rparr>"

definition lease_reserve :: "string \<Rightarrow> lease_state \<Rightarrow> bool \<times> lease_state" where
  "lease_reserve l s =
     (if l \<in> in_flight s \<or> l \<in> active_leases s then (False, s) else (True, s\<lparr>in_flight := insert l (in_flight s)\<rparr>))"

definition lease_activate :: "string \<Rightarrow> lease_state \<Rightarrow> lease_state" where
  "lease_activate l s =
     s\<lparr>in_flight := in_flight s - {l}, process_locks := (process_locks s)(l := None),
       active_leases := insert l (active_leases s)\<rparr>"

definition lease_release :: "string \<Rightarrow> lease_state \<Rightarrow> lease_state" where
  "lease_release l s =
     s\<lparr>in_flight := in_flight s - {l}, process_locks := (process_locks s)(l := None),
       active_leases := active_leases s - {l}\<rparr>"

definition lease_observe :: "string set \<Rightarrow> lease_state \<Rightarrow> lease_state" where
  "lease_observe leases s = s\<lparr>active_leases := leases\<rparr>"

definition hold_process_lock :: "string \<Rightarrow> nat \<Rightarrow> lease_state \<Rightarrow> lease_state" where
  "hold_process_lock l f s = s\<lparr>process_locks := (process_locks s)(l := Some f)\<rparr>"

section \<open>Processes, locks and panes\<close>

text \<open>
  An attempt has reserved the lease, holds the lock file in the blocking task, has seen no pane with
  the lease, holds the lock in the table, or has launched its pane.
\<close>

datatype attempt_phase = Reserved | Locked | Cleared | Held | Launched

record attempt =
  att_process :: nat
  att_lease :: string
  att_phase :: attempt_phase

record lease_world =
  procs :: "nat \<Rightarrow> lease_state"
  attempts :: "nat \<Rightarrow> attempt option"
  next_attempt :: nat
  flock :: "string \<Rightarrow> nat option"
  panes :: "string list"
  killed :: "(nat \<times> string) list"
  listed :: "(nat \<times> string set) list"

definition lease_start :: lease_world where
  "lease_start = \<lparr>procs = (\<lambda>_. no_leases), attempts = (\<lambda>_. None), next_attempt = 0, flock = (\<lambda>_. None), panes = [],
     killed = [], listed = []\<rparr>"

text \<open>Closing a lock file frees the lock when it is the file that holds it.\<close>

definition close_file :: "string \<Rightarrow> nat option \<Rightarrow> lease_world \<Rightarrow> lease_world" where
  "close_file l f w = (if f \<noteq> None \<and> flock w l = f then w\<lparr>flock := (flock w)(l := None)\<rparr> else w)"

definition change_table :: "nat \<Rightarrow> string \<Rightarrow> (lease_state \<Rightarrow> lease_state) \<Rightarrow> lease_world \<Rightarrow> lease_world" where
  "change_table p l f w =
     (let w' = close_file l (process_locks (procs w p) l) w in w'\<lparr>procs := (procs w')(p := f (procs w' p))\<rparr>)"

definition set_phase :: "nat \<Rightarrow> attempt \<Rightarrow> attempt_phase \<Rightarrow> lease_world \<Rightarrow> lease_world" where
  "set_phase i a ph w = w\<lparr>attempts := (attempts w)(i \<mapsto> a\<lparr>att_phase := ph\<rparr>)\<rparr>"

definition end_attempt :: "nat \<Rightarrow> lease_world \<Rightarrow> lease_world" where
  "end_attempt i w = w\<lparr>attempts := (attempts w)(i := None)\<rparr>"

text \<open>The guard of an attempt is dropped: its lock file is closed and its lease released.\<close>

definition drop_guard :: "nat \<Rightarrow> attempt \<Rightarrow> lease_world \<Rightarrow> lease_world" where
  "drop_guard i a w =
     end_attempt i (change_table (att_process a) (att_lease a) (lease_release (att_lease a))
       (if att_phase a \<in> {Locked, Cleared} then close_file (att_lease a) (Some i) w else w))"

datatype lease_event =
    Reserve nat string      \<comment> \<open>a launch with a saved conversation asks for its lease\<close>
  | TakeLock nat            \<comment> \<open>\<open>try_lock_exclusive\<close>\<close>
  | CheckTmux nat           \<comment> \<open>\<open>Tmux::resume_lease_active\<close>\<close>
  | HoldLock nat
  | LaunchPane nat
  | Activate nat
  | Abandon nat             \<comment> \<open>an error, or the caller went away\<close>
  | PaneExits string
  | KillPane nat string
  | ReleaseKilled nat
  | ListPanes nat
  | ObserveList nat
  | Crash nat

definition drop_nth :: "nat \<Rightarrow> 'a list \<Rightarrow> 'a list" where
  "drop_nth k xs = take k xs @ drop (Suc k) xs"

definition crash_process :: "nat \<Rightarrow> lease_world \<Rightarrow> lease_world" where
  "crash_process p w =
     w\<lparr>procs := (procs w)(p := no_leases),
       flock := (\<lambda>l. case flock w l of None \<Rightarrow> None
          | Some i \<Rightarrow> (case attempts w i of Some a \<Rightarrow> if att_process a = p then None else Some i | None \<Rightarrow> Some i)),
       attempts := (\<lambda>i. case attempts w i of None \<Rightarrow> None | Some a \<Rightarrow> if att_process a = p then None else Some a),
       killed := filter (\<lambda>k. fst k \<noteq> p) (killed w), listed := filter (\<lambda>k. fst k \<noteq> p) (listed w)\<rparr>"

text \<open>One step; an event that does not fit the state does nothing.\<close>

fun lease_step :: "lease_event \<Rightarrow> lease_world \<Rightarrow> lease_world" where
  "lease_step (Reserve p l) w =
     (let (ok, s) = lease_reserve l (procs w p)
      in if ok then w\<lparr>procs := (procs w)(p := s), next_attempt := next_attempt w + 1,
             attempts := (attempts w)(next_attempt w \<mapsto> \<lparr>att_process = p, att_lease = l, att_phase = Reserved\<rparr>)\<rparr>
         else w)"
| "lease_step (TakeLock i) w =
     (case attempts w i of
        Some a \<Rightarrow> if att_phase a \<noteq> Reserved then w
          else if flock w (att_lease a) = None
          then set_phase i a Locked (w\<lparr>flock := (flock w)(att_lease a \<mapsto> i)\<rparr>)
          else drop_guard i a w
      | None \<Rightarrow> w)"
| "lease_step (CheckTmux i) w =
     (case attempts w i of
        Some a \<Rightarrow> if att_phase a \<noteq> Locked then w
          else if att_lease a \<in> set (panes w)
          then end_attempt i (close_file (att_lease a) (Some i)
                 (change_table (att_process a) (att_lease a) (lease_activate (att_lease a)) w))
          else set_phase i a Cleared w
      | None \<Rightarrow> w)"
| "lease_step (HoldLock i) w =
     (case attempts w i of
        Some a \<Rightarrow> if att_phase a \<noteq> Cleared then w
          else set_phase i a Held (change_table (att_process a) (att_lease a) (hold_process_lock (att_lease a) i) w)
      | None \<Rightarrow> w)"
| "lease_step (LaunchPane i) w =
     (case attempts w i of
        Some a \<Rightarrow> if att_phase a \<noteq> Held then w else set_phase i a Launched (w\<lparr>panes := att_lease a # panes w\<rparr>)
      | None \<Rightarrow> w)"
| "lease_step (Activate i) w =
     (case attempts w i of
        Some a \<Rightarrow> if att_phase a \<noteq> Launched then w
          else end_attempt i (change_table (att_process a) (att_lease a) (lease_activate (att_lease a)) w)
      | None \<Rightarrow> w)"
| "lease_step (Abandon i) w =
     (case attempts w i of
        Some a \<Rightarrow> if att_phase a = Launched then w else drop_guard i a w
      | None \<Rightarrow> w)"
| "lease_step (PaneExits l) w = w\<lparr>panes := remove1 l (panes w)\<rparr>"
| "lease_step (KillPane p l) w =
     (if l \<in> set (panes w) then w\<lparr>panes := remove1 l (panes w), killed := killed w @ [(p, l)]\<rparr> else w)"
| "lease_step (ReleaseKilled k) w =
     (if k < length (killed w)
      then let (p, l) = killed w ! k in (change_table p l (lease_release l) w)\<lparr>killed := drop_nth k (killed w)\<rparr>
      else w)"
| "lease_step (ListPanes p) w = w\<lparr>listed := listed w @ [(p, set (panes w))]\<rparr>"
| "lease_step (ObserveList k) w =
     (if k < length (listed w)
      then let (p, ls) = listed w ! k
           in w\<lparr>procs := (procs w)(p := lease_observe ls (procs w p)), listed := drop_nth k (listed w)\<rparr>
      else w)"
| "lease_step (Crash p) w = crash_process p w"

definition lease_run :: "lease_event list \<Rightarrow> lease_world" where
  "lease_run es = fold lease_step es lease_start"

section \<open>One pane per conversation\<close>

definition attempt_ok :: "lease_world \<Rightarrow> nat \<Rightarrow> attempt \<Rightarrow> bool" where
  "attempt_ok w i a \<longleftrightarrow> i < next_attempt w \<and> att_lease a \<in> in_flight (procs w (att_process a))
     \<and> (att_phase a \<noteq> Reserved \<longrightarrow> flock w (att_lease a) = Some i)
     \<and> (process_locks (procs w (att_process a)) (att_lease a) = Some i \<longleftrightarrow> att_phase a \<in> {Held, Launched})
     \<and> (att_phase a \<in> {Cleared, Held} \<longrightarrow> att_lease a \<notin> set (panes w))"

definition leases_ok :: "lease_world \<Rightarrow> bool" where
  "leases_ok w \<longleftrightarrow>
     (\<forall>i a. attempts w i = Some a \<longrightarrow> attempt_ok w i a)
     \<and> (\<forall>i j a b. attempts w i = Some a \<longrightarrow> attempts w j = Some b \<longrightarrow> att_process a = att_process b
          \<longrightarrow> att_lease a = att_lease b \<longrightarrow> i = j)
     \<and> (\<forall>l i. flock w l = Some i \<longrightarrow> (\<exists>a. attempts w i = Some a \<and> att_lease a = l \<and> att_phase a \<noteq> Reserved))
     \<and> (\<forall>p l i. process_locks (procs w p) l = Some i
          \<longrightarrow> (\<exists>a. attempts w i = Some a \<and> att_process a = p \<and> att_lease a = l))
     \<and> (\<forall>l. count_list (panes w) l \<le> 1)"

text \<open>A kill that is released while the same process launches the same conversation again.\<close>

definition late_release :: "lease_event \<Rightarrow> lease_world \<Rightarrow> bool" where
  "late_release e w \<longleftrightarrow>
     (case e of ReleaseKilled k \<Rightarrow> k < length (killed w) \<and> (\<exists>i < next_attempt w.
          case attempts w i of None \<Rightarrow> False | Some a \<Rightarrow> (att_process a, att_lease a) = killed w ! k)
      | _ \<Rightarrow> False)"

fun clean_run :: "lease_event list \<Rightarrow> lease_world \<Rightarrow> bool" where
  "clean_run [] w = True"
| "clean_run (e # es) w = (\<not> late_release e w \<and> clean_run es (lease_step e w))"

named_theorems lease_defs

lemmas [lease_defs] = lease_reserve_def lease_activate_def lease_release_def lease_observe_def hold_process_lock_def
  close_file_def change_table_def set_phase_def end_attempt_def drop_guard_def Let_def

lemma count_remove1_le: "count_list (remove1 l xs) k \<le> count_list xs k"
  by (induction xs) auto

lemma leases_okA: "leases_ok w \<Longrightarrow> attempts w i = Some a \<Longrightarrow> attempt_ok w i a"
  and leases_okU: "leases_ok w \<Longrightarrow> attempts w i = Some a \<Longrightarrow> attempts w j = Some b \<Longrightarrow> att_process a = att_process b
    \<Longrightarrow> att_lease a = att_lease b \<Longrightarrow> i = j"
  and leases_okF: "leases_ok w \<Longrightarrow> flock w l = Some i \<Longrightarrow> \<exists>a. attempts w i = Some a \<and> att_lease a = l \<and> att_phase a \<noteq> Reserved"
  and leases_okP: "leases_ok w \<Longrightarrow> process_locks (procs w p) l = Some i
    \<Longrightarrow> \<exists>a. attempts w i = Some a \<and> att_process a = p \<and> att_lease a = l"
  and leases_okC: "leases_ok w \<Longrightarrow> count_list (panes w) l \<le> 1"
  unfolding leases_ok_def by blast+

lemma attempt_okD:
  assumes "attempt_ok w i a"
  shows "i < next_attempt w" "att_lease a \<in> in_flight (procs w (att_process a))"
    "att_phase a \<noteq> Reserved \<Longrightarrow> flock w (att_lease a) = Some i"
    "process_locks (procs w (att_process a)) (att_lease a) = Some i \<longleftrightarrow> att_phase a \<in> {Held, Launched}"
    "att_phase a \<in> {Cleared, Held} \<Longrightarrow> att_lease a \<notin> set (panes w)"
  using assms unfolding attempt_ok_def by blast+

lemma leases_okD:
  assumes "leases_ok w" and "attempts w i = Some a"
  shows "i < next_attempt w" "att_lease a \<in> in_flight (procs w (att_process a))"
    "att_phase a \<noteq> Reserved \<Longrightarrow> flock w (att_lease a) = Some i"
    "process_locks (procs w (att_process a)) (att_lease a) = Some i \<longleftrightarrow> att_phase a \<in> {Held, Launched}"
    "att_phase a \<in> {Cleared, Held} \<Longrightarrow> att_lease a \<notin> set (panes w)"
  using attempt_okD [OF leases_okA [OF assms]] by blast+

lemma leases_okI:
  assumes "\<And>i a. attempts w i = Some a \<Longrightarrow> attempt_ok w i a"
    and "\<And>i j a b. attempts w i = Some a \<Longrightarrow> attempts w j = Some b \<Longrightarrow> att_process a = att_process b
        \<Longrightarrow> att_lease a = att_lease b \<Longrightarrow> i = j"
    and "\<And>l i. flock w l = Some i \<Longrightarrow> \<exists>a. attempts w i = Some a \<and> att_lease a = l \<and> att_phase a \<noteq> Reserved"
    and "\<And>p l i. process_locks (procs w p) l = Some i \<Longrightarrow> \<exists>a. attempts w i = Some a \<and> att_process a = p \<and> att_lease a = l"
    and "\<And>l. count_list (panes w) l \<le> 1"
  shows "leases_ok w"
  unfolding leases_ok_def using assms by blast

text \<open>An attempt ends, whichever way: the lease is no longer in flight and the lock is free.\<close>

definition finish :: "nat \<Rightarrow> attempt \<Rightarrow> (lease_state \<Rightarrow> lease_state) \<Rightarrow> lease_world \<Rightarrow> lease_world" where
  "finish i a f w =
     w\<lparr>procs := (procs w)(att_process a := f (procs w (att_process a))),
       flock := (if att_phase a = Reserved then flock w else (flock w)(att_lease a := None)),
       attempts := (attempts w)(i := None)\<rparr>"

lemma finish_ok:
  assumes ok: "leases_ok w" and a: "attempts w i = Some a"
    and f: "in_flight (f (procs w (att_process a))) = in_flight (procs w (att_process a)) - {att_lease a}"
      "process_locks (f (procs w (att_process a))) = (process_locks (procs w (att_process a)))(att_lease a := None)"
  shows "leases_ok (finish i a f w)"
proof (rule leases_okI)
  fix j b assume "attempts (finish i a f w) j = Some b"
  then have b: "attempts w j = Some b" "j \<noteq> i" by (auto simp: finish_def split: if_splits)
  note D = leases_okD [OF ok b(1)]
  have ne: "\<not> (att_process b = att_process a \<and> att_lease b = att_lease a)" using leases_okU [OF ok b(1) a] b(2) by blast
  have lk: "flock (finish i a f w) (att_lease b) = Some j" if "att_phase b \<noteq> Reserved"
    using D(3) [OF that] leases_okD(3) [OF ok a] b(2) by (cases "att_phase a = Reserved") (auto simp: finish_def)
  have tab: "att_lease b \<in> in_flight (procs (finish i a f w) (att_process b))"
    "process_locks (procs (finish i a f w) (att_process b)) (att_lease b) = process_locks (procs w (att_process b)) (att_lease b)"
    using D(2) ne by (cases "att_process b = att_process a"; simp add: finish_def f)+
  have same: "next_attempt (finish i a f w) = next_attempt w" "panes (finish i a f w) = panes w" by (simp_all add: finish_def)
  show "attempt_ok (finish i a f w) j b" unfolding attempt_ok_def tab(2) same using D(1,4,5) tab(1) lk by blast
next
  fix j k b c
  assume "attempts (finish i a f w) j = Some b" "attempts (finish i a f w) k = Some c" "att_process b = att_process c"
    "att_lease b = att_lease c"
  then show "j = k" using leases_okU [OF ok] by (auto simp: finish_def split: if_splits)
next
  fix l j assume "flock (finish i a f w) l = Some j"
  then have g: "flock w l = Some j" "att_phase a = Reserved \<or> l \<noteq> att_lease a" by (auto simp: finish_def split: if_splits)
  obtain b where b: "attempts w j = Some b" "att_lease b = l" "att_phase b \<noteq> Reserved" using leases_okF [OF ok g(1)] by blast
  then have "j \<noteq> i" using g(2) a by auto
  then show "\<exists>b. attempts (finish i a f w) j = Some b \<and> att_lease b = l \<and> att_phase b \<noteq> Reserved"
    using b by (simp add: finish_def)
next
  fix p l j assume h: "process_locks (procs (finish i a f w) p) l = Some j"
  then have g: "process_locks (procs w p) l = Some j" "\<not> (p = att_process a \<and> l = att_lease a)"
    using f by (auto simp: finish_def split: if_splits)
  obtain b where b: "attempts w j = Some b" "att_process b = p" "att_lease b = l" using leases_okP [OF ok g(1)] by blast
  then have "j \<noteq> i" using g(2) a by auto
  then show "\<exists>b. attempts (finish i a f w) j = Some b \<and> att_process b = p \<and> att_lease b = l"
    using b by (simp add: finish_def)
next
  show "count_list (panes (finish i a f w)) l \<le> 1" for l using leases_okC [OF ok] by (simp add: finish_def)
qed

lemma own_lock:
  assumes ok: "leases_ok w" and a: "attempts w i = Some a"
  shows "process_locks (procs w (att_process a)) (att_lease a) = (if att_phase a \<in> {Held, Launched} then Some i else None)"
proof (cases "process_locks (procs w (att_process a)) (att_lease a)")
  case None
  then show ?thesis using leases_okD(4) [OF ok a] by auto
next
  case (Some j)
  then obtain b where "attempts w j = Some b" "att_process b = att_process a" "att_lease b = att_lease a"
    using leases_okP [OF ok] by blast
  then have "j = i" using leases_okU [OF ok _ a] by blast
  then show ?thesis using Some leases_okD(4) [OF ok a] by auto
qed

lemma drop_guard_finish:
  assumes ok: "leases_ok w" and a: "attempts w i = Some a"
  shows "drop_guard i a w = finish i a (lease_release (att_lease a)) w"
  using own_lock [OF ok a] leases_okD(3) [OF ok a]
  by (cases "att_phase a") (simp_all add: drop_guard_def change_table_def close_file_def end_attempt_def finish_def Let_def)

lemma activate_finish:
  assumes ok: "leases_ok w" and a: "attempts w i = Some a"
  shows "att_phase a = Launched \<Longrightarrow> end_attempt i (change_table (att_process a) (att_lease a) (lease_activate (att_lease a)) w)
      = finish i a (lease_activate (att_lease a)) w"
    and "att_phase a = Locked \<Longrightarrow> end_attempt i (close_file (att_lease a) (Some i)
        (change_table (att_process a) (att_lease a) (lease_activate (att_lease a)) w)) = finish i a (lease_activate (att_lease a)) w"
  using own_lock [OF ok a] leases_okD(3) [OF ok a]
  by (simp_all add: change_table_def close_file_def end_attempt_def finish_def Let_def)

text \<open>An attempt that a step does not concern stays in order.\<close>

lemma attempt_ok_keep:
  assumes "attempt_ok w j b" and "next_attempt w \<le> next_attempt w'"
    and "att_lease b \<in> in_flight (procs w (att_process b)) \<Longrightarrow> att_lease b \<in> in_flight (procs w' (att_process b))"
    and "att_phase b \<noteq> Reserved \<Longrightarrow> flock w (att_lease b) = Some j \<Longrightarrow> flock w' (att_lease b) = Some j"
    and "process_locks (procs w' (att_process b)) (att_lease b) = Some j
      \<longleftrightarrow> process_locks (procs w (att_process b)) (att_lease b) = Some j"
    and "att_phase b \<in> {Cleared, Held} \<Longrightarrow> att_lease b \<notin> set (panes w) \<Longrightarrow> att_lease b \<notin> set (panes w')"
  shows "attempt_ok w' j b"
  using assms unfolding attempt_ok_def by (auto intro: order_less_le_trans)

lemma reserve_ok:
  assumes ok: "leases_ok w"
  shows "leases_ok (lease_step (Reserve p l) w)"
proof (cases "l \<in> in_flight (procs w p) \<or> l \<in> active_leases (procs w p)")
  case True
  then show ?thesis using ok by (simp add: lease_reserve_def)
next
  case False
  define n where "n = next_attempt w"
  define s where "s = (procs w p)\<lparr>in_flight := insert l (in_flight (procs w p))\<rparr>"
  define a where "a = \<lparr>att_process = p, att_lease = l, att_phase = Reserved\<rparr>"
  have step: "lease_step (Reserve p l) w = w\<lparr>procs := (procs w)(p := s), next_attempt := n + 1, attempts := (attempts w)(n \<mapsto> a)\<rparr>"
    (is "_ = ?w") using False by (simp add: lease_reserve_def s_def a_def n_def)
  have fresh: "attempts w n = None" using leases_okD(1) [OF ok] by (cases "attempts w n") (force simp: n_def)+
  have free: "att_process b = p \<Longrightarrow> att_lease b = l \<Longrightarrow> False" if "attempts w j = Some b" for j b
    using leases_okD(2) [OF ok that] False by auto
  have unheld: "process_locks (procs w p) l \<noteq> Some j" for j using leases_okP [OF ok] free by blast
  have locks: "process_locks (procs ?w q) = process_locks (procs w q)" for q by (simp add: s_def)
  show ?thesis unfolding step
  proof (rule leases_okI)
    fix j b assume "attempts ?w j = Some b"
    then consider "j = n" "b = a" | "j \<noteq> n" "attempts w j = Some b" by (auto split: if_splits)
    then show "attempt_ok ?w j b"
    proof cases
      case 1
      then show ?thesis using unheld by (simp add: attempt_ok_def a_def s_def)
    next
      case 2
      show ?thesis by (rule attempt_ok_keep [OF leases_okA [OF ok 2(2)]]) (auto simp: s_def n_def)
    qed
  next
    fix i j c d
    assume cd: "attempts ?w i = Some c" "attempts ?w j = Some d" "att_process c = att_process d" "att_lease c = att_lease d"
    have old: "k = n \<and> e = a \<or> attempts w k = Some e" if "attempts ?w k = Some e" for k e
      using that by (auto split: if_splits)
    have "\<not> attempts w i = Some c \<Longrightarrow> c = a" "\<not> attempts w j = Some d \<Longrightarrow> d = a" using old cd(1,2) by blast+
    moreover have "att_process a = p" "att_lease a = l" by (simp_all add: a_def)
    ultimately show "i = j" using leases_okU [OF ok] free old [OF cd(1)] old [OF cd(2)] cd(3,4) by metis
  next
    fix k i assume f: "flock ?w k = Some i"
    then obtain c where c: "attempts w i = Some c" "att_lease c = k" "att_phase c \<noteq> Reserved" using leases_okF [OF ok] by auto
    then have "i \<noteq> n" using fresh by auto
    then show "\<exists>c. attempts ?w i = Some c \<and> att_lease c = k \<and> att_phase c \<noteq> Reserved" using c by auto
  next
    fix q k i assume "process_locks (procs ?w q) k = Some i"
    then obtain c where c: "attempts w i = Some c" "att_process c = q" "att_lease c = k"
      using leases_okP [OF ok] unfolding locks by blast
    then have "i \<noteq> n" using fresh by auto
    then show "\<exists>c. attempts ?w i = Some c \<and> att_process c = q \<and> att_lease c = k" using c by auto
  next
    show "count_list (panes ?w) k \<le> 1" for k using leases_okC [OF ok] by simp
  qed
qed

text \<open>An attempt moves on; what changes with it is its own lock and, in the end, its own pane.\<close>

lemma advance_ok:
  assumes ok: "leases_ok w" and a: "attempts w i = Some a"
    and w': "attempts w' = (attempts w)(i \<mapsto> a\<lparr>att_phase := ph\<rparr>)" "next_attempt w' = next_attempt w"
      "\<And>p. in_flight (procs w' p) = in_flight (procs w p)"
      "\<And>p l. \<not> (p = att_process a \<and> l = att_lease a) \<Longrightarrow> process_locks (procs w' p) l = process_locks (procs w p) l"
      "process_locks (procs w' (att_process a)) (att_lease a) = (if ph \<in> {Held, Launched} then Some i else None)"
    and lk: "flock w' = (flock w)(att_lease a \<mapsto> i)" "flock w (att_lease a) = None \<or> flock w (att_lease a) = Some i"
      "ph \<noteq> Reserved"
    and pn: "\<And>b. b \<noteq> att_lease a \<Longrightarrow> b \<notin> set (panes w) \<Longrightarrow> b \<notin> set (panes w')"
      "ph \<in> {Cleared, Held} \<Longrightarrow> att_lease a \<notin> set (panes w')" "\<And>l. count_list (panes w') l \<le> 1"
  shows "leases_ok w'"
proof (rule leases_okI)
  fix j b assume "attempts w' j = Some b"
  then consider "j = i" "b = a\<lparr>att_phase := ph\<rparr>" | "j \<noteq> i" "attempts w j = Some b" unfolding w' by (auto split: if_splits)
  then show "attempt_ok w' j b"
  proof cases
    case 1
    then show ?thesis using leases_okD(1,2) [OF ok a] w' lk pn(2) by (simp add: attempt_ok_def)
  next
    case 2
    have ne: "\<not> (att_process b = att_process a \<and> att_lease b = att_lease a)" using leases_okU [OF ok 2(2) a] 2(1) by blast
    have "att_phase b \<noteq> Reserved \<Longrightarrow> att_lease b \<noteq> att_lease a" using leases_okD(3) [OF ok 2(2)] lk(2) 2(1) by auto
    then show ?thesis using ne pn(1) by (intro attempt_ok_keep [OF leases_okA [OF ok 2(2)]]) (auto simp: w' lk)
  qed
next
  fix j k c d
  assume "attempts w' j = Some c" "attempts w' k = Some d" "att_process c = att_process d" "att_lease c = att_lease d"
  then show "j = k" using leases_okU [OF ok] a unfolding w' by (auto split: if_splits)
next
  fix l j assume f: "flock w' l = Some j"
  show "\<exists>c. attempts w' j = Some c \<and> att_lease c = l \<and> att_phase c \<noteq> Reserved"
  proof (cases "l = att_lease a")
    case True
    then show ?thesis using f lk w' by simp
  next
    case False
    then have "flock w l = Some j" using f lk by simp
    then obtain c where "attempts w j = Some c" "att_lease c = l" "att_phase c \<noteq> Reserved" using leases_okF [OF ok] by blast
    then show ?thesis using False a w' by auto
  qed
next
  fix p l j assume f: "process_locks (procs w' p) l = Some j"
  show "\<exists>c. attempts w' j = Some c \<and> att_process c = p \<and> att_lease c = l"
  proof (cases "p = att_process a \<and> l = att_lease a")
    case True
    then show ?thesis using f w' by (auto split: if_splits)
  next
    case False
    then have "process_locks (procs w p) l = Some j" using f w' by simp
    then obtain c where "attempts w j = Some c" "att_process c = p" "att_lease c = l" using leases_okP [OF ok] by blast
    then show ?thesis using False a w' by auto
  qed
qed (rule pn(3))

lemma take_lock_ok:
  assumes ok: "leases_ok w"
  shows "leases_ok (lease_step (TakeLock i) w)"
proof (cases "\<exists>a. attempts w i = Some a \<and> att_phase a = Reserved")
  case False
  then show ?thesis using ok by (auto split: option.splits)
next
  case True
  then obtain a where a: "attempts w i = Some a" "att_phase a = Reserved" by blast
  show ?thesis
  proof (cases "flock w (att_lease a) = None")
    case True
    have "leases_ok (set_phase i a Locked (w\<lparr>flock := (flock w)(att_lease a \<mapsto> i)\<rparr>))"
      by (rule advance_ok [OF ok a(1), where ph = Locked])
        (use own_lock [OF ok a(1)] True a leases_okC [OF ok] in \<open>simp_all add: set_phase_def\<close>)
    then show ?thesis using a True by simp
  next
    case False
    then have "lease_step (TakeLock i) w = drop_guard i a w" using a by auto
    then show ?thesis using drop_guard_finish [OF ok a(1)] finish_ok [OF ok a(1), of "lease_release (att_lease a)"]
      by (simp add: lease_release_def)
  qed
qed

lemma activate_ok:
  assumes ok: "leases_ok w" and a: "attempts w i = Some a"
  shows "leases_ok (finish i a (lease_activate (att_lease a)) w)"
  by (rule finish_ok [OF ok a]) (simp_all add: lease_activate_def)

lemma release_ok:
  assumes ok: "leases_ok w" and a: "attempts w i = Some a"
  shows "leases_ok (drop_guard i a w)"
  unfolding drop_guard_finish [OF ok a] by (rule finish_ok [OF ok a]) (simp_all add: lease_release_def)

lemma check_tmux_ok:
  assumes ok: "leases_ok w"
  shows "leases_ok (lease_step (CheckTmux i) w)"
proof (cases "\<exists>a. attempts w i = Some a \<and> att_phase a = Locked")
  case False
  then show ?thesis using ok by (auto split: option.splits)
next
  case True
  then obtain a where a: "attempts w i = Some a" "att_phase a = Locked" by blast
  show ?thesis
  proof (cases "att_lease a \<in> set (panes w)")
    case True
    then show ?thesis using a activate_finish(2) [OF ok a] activate_ok [OF ok a(1)] by simp
  next
    case False
    have lk: "flock w (att_lease a) = Some i" using leases_okD(3) [OF ok a(1)] a(2) by simp
    have "leases_ok (set_phase i a Cleared w)"
      by (rule advance_ok [OF ok a(1), where ph = Cleared])
        (use own_lock [OF ok a(1)] lk a False leases_okC [OF ok] in \<open>simp_all add: set_phase_def fun_upd_idem\<close>)
    then show ?thesis using a False by simp
  qed
qed

lemma hold_lock_ok:
  assumes ok: "leases_ok w"
  shows "leases_ok (lease_step (HoldLock i) w)"
proof (cases "\<exists>a. attempts w i = Some a \<and> att_phase a = Cleared")
  case False
  then show ?thesis using ok by (auto split: option.splits)
next
  case True
  then obtain a where a: "attempts w i = Some a" "att_phase a = Cleared" by blast
  have lk: "flock w (att_lease a) = Some i" "att_lease a \<notin> set (panes w)" using leases_okD(3,5) [OF ok a(1)] a(2) by simp_all
  have "leases_ok (set_phase i a Held (change_table (att_process a) (att_lease a) (hold_process_lock (att_lease a) i) w))"
    by (rule advance_ok [OF ok a(1), where ph = Held])
      (use own_lock [OF ok a(1)] lk a leases_okC [OF ok] in \<open>simp_all add: lease_defs fun_upd_idem\<close>)
  then show ?thesis using a by simp
qed

lemma launch_pane_ok:
  assumes ok: "leases_ok w"
  shows "leases_ok (lease_step (LaunchPane i) w)"
proof (cases "\<exists>a. attempts w i = Some a \<and> att_phase a = Held")
  case False
  then show ?thesis using ok by (auto split: option.splits)
next
  case True
  then obtain a where a: "attempts w i = Some a" "att_phase a = Held" by blast
  have lk: "flock w (att_lease a) = Some i" "att_lease a \<notin> set (panes w)" using leases_okD(3,5) [OF ok a(1)] a(2) by simp_all
  then have none: "att_lease a = l \<longrightarrow> count_list (panes w) l = 0" for l by (auto simp: count_list_0_iff)
  have "leases_ok (set_phase i a Launched (w\<lparr>panes := att_lease a # panes w\<rparr>))"
    by (rule advance_ok [OF ok a(1), where ph = Launched])
      (use own_lock [OF ok a(1)] lk a none leases_okC [OF ok] in \<open>simp_all add: set_phase_def fun_upd_idem\<close>)
  then show ?thesis using a by simp
qed

lemma activate_step_ok:
  assumes ok: "leases_ok w"
  shows "leases_ok (lease_step (Activate i) w)" "leases_ok (lease_step (Abandon i) w)"
  using ok activate_ok [OF ok] activate_finish(1) [OF ok] release_ok [OF ok] by (auto split: option.splits)

text \<open>What leaves attempts, locks and tables alone, and takes panes away at most.\<close>

lemma same_world_ok:
  assumes ok: "leases_ok w"
    and "attempts w' = attempts w" "next_attempt w' = next_attempt w" "flock w' = flock w"
      "\<And>p. in_flight (procs w' p) = in_flight (procs w p)" "\<And>p. process_locks (procs w' p) = process_locks (procs w p)"
    and pn: "set (panes w') \<subseteq> set (panes w)" "\<And>l. count_list (panes w') l \<le> count_list (panes w) l"
  shows "leases_ok w'"
proof -
  have "attempt_ok w i a \<Longrightarrow> attempt_ok w' i a" for i a
    by (erule attempt_ok_keep) (use pn(1) in \<open>auto simp: assms(3-6)\<close>)
  moreover have "count_list (panes w') l \<le> 1" for l using pn(2) leases_okC [OF ok] by (rule le_trans)
  ultimately show ?thesis using ok unfolding leases_ok_def assms(2-6) by blast
qed

lemma kill_ok:
  assumes ok: "leases_ok w"
  shows "leases_ok (lease_step (PaneExits l) w)" "leases_ok (lease_step (KillPane p l) w)"
    "leases_ok (lease_step (ListPanes p) w)" "leases_ok (lease_step (ObserveList k) w)"
proof -
  show "leases_ok (lease_step (PaneExits l) w)"
    by (rule same_world_ok [OF ok]) (simp_all add: set_remove1_subset count_remove1_le)
  show "leases_ok (lease_step (KillPane p l) w)"
    by (rule same_world_ok [OF ok]) (simp_all add: set_remove1_subset count_remove1_le)
  show "leases_ok (lease_step (ListPanes p) w)"
    by (rule same_world_ok [OF ok]) simp_all
  show "leases_ok (lease_step (ObserveList k) w)"
    by (rule same_world_ok [OF ok]) (simp_all add: lease_observe_def Let_def split: prod.splits)
qed

text \<open>A release that meets no attempt of its own process.\<close>

lemma release_killed_ok:
  assumes ok: "leases_ok w" and nl: "\<not> late_release (ReleaseKilled k) w"
  shows "leases_ok (lease_step (ReleaseKilled k) w)"
proof (cases "k < length (killed w)")
  case False
  then show ?thesis using ok by simp
next
  case True
  obtain p l where pl: "killed w ! k = (p, l)" by (rule prod.exhaust)
  have none: "(att_process a, att_lease a) \<noteq> (p, l)" if "attempts w i = Some a" for i a
  proof
    assume "(att_process a, att_lease a) = (p, l)"
    then have "late_release (ReleaseKilled k) w"
      using that leases_okD(1) [OF ok that] True pl by (auto simp: late_release_def intro!: exI [of _ i])
    then show False using nl by blast
  qed
  then have unheld: "process_locks (procs w p) l = None"
    using leases_okP [OF ok, of p l] by (cases "process_locks (procs w p) l") force+
  define s where "s = lease_release l (procs w p)"
  have step: "lease_step (ReleaseKilled k) w = w\<lparr>procs := (procs w)(p := s), killed := drop_nth k (killed w)\<rparr>" (is "_ = ?w")
    using True pl unheld by (simp add: change_table_def close_file_def s_def)
  have locks: "process_locks (procs ?w q) = process_locks (procs w q)" for q
    using unheld by (simp add: s_def lease_release_def fun_upd_idem)
  have att: "attempts ?w = attempts w" "flock ?w = flock w" "panes ?w = panes w" "next_attempt ?w = next_attempt w" by simp_all
  have "attempt_ok ?w i a" if a: "attempts w i = Some a" for i a
  proof (rule attempt_ok_keep [OF leases_okA [OF ok a]])
    show "att_lease a \<in> in_flight (procs ?w (att_process a))" if "att_lease a \<in> in_flight (procs w (att_process a))"
      using that none [OF a] by (auto simp: s_def lease_release_def)
    show "process_locks (procs ?w (att_process a)) (att_lease a) = Some i
        \<longleftrightarrow> process_locks (procs w (att_process a)) (att_lease a) = Some i"
      unfolding locks by (rule refl)
  qed simp_all
  then show ?thesis using ok unfolding step leases_ok_def att locks by blast
qed

text \<open>A process that ends takes its attempts with it; the kernel closes its lock files.\<close>

lemma crash_ok:
  assumes ok: "leases_ok w"
  shows "leases_ok (crash_process p w)"
proof (rule leases_okI)
  let ?w = "crash_process p w"
  have att: "attempts ?w i = Some a \<longleftrightarrow> attempts w i = Some a \<and> att_process a \<noteq> p" for i a
    by (auto simp: crash_process_def split: option.splits)
  have lk: "flock ?w l = Some i \<longleftrightarrow> flock w l = Some i \<and> (\<exists>a. attempts w i = Some a \<and> att_process a \<noteq> p)" for l i
    using leases_okF [OF ok, of l i] by (auto simp: crash_process_def split: option.splits)
  have tab: "q \<noteq> p \<Longrightarrow> procs ?w q = procs w q" "procs ?w p = no_leases" for q by (simp_all add: crash_process_def)
  have same: "panes ?w = panes w" "next_attempt ?w = next_attempt w" by (simp_all add: crash_process_def)
  show "attempt_ok ?w i a" if "attempts ?w i = Some a" for i a
  proof -
    have a: "attempts w i = Some a" "att_process a \<noteq> p" using that att by auto
    show ?thesis by (rule attempt_ok_keep [OF leases_okA [OF ok a(1)]]) (use a in \<open>simp_all add: tab same lk\<close>)
  qed
  show "i = j" if "attempts ?w i = Some a" "attempts ?w j = Some b" "att_process a = att_process b" "att_lease a = att_lease b"
    for i j a b using leases_okU [OF ok _ _ that(3,4)] that(1,2) att by blast
  show "\<exists>a. attempts ?w i = Some a \<and> att_lease a = l \<and> att_phase a \<noteq> Reserved" if "flock ?w l = Some i" for l i
    using leases_okF [OF ok, of l i] that att lk by auto
  show "\<exists>a. attempts ?w i = Some a \<and> att_process a = q \<and> att_lease a = l" if "process_locks (procs ?w q) l = Some i" for q l i
  proof -
    have "q \<noteq> p" using that tab(2) by (cases "q = p") (auto simp: no_leases_def)
    then show ?thesis using leases_okP [OF ok, of q l i] that att by (auto simp: tab)
  qed
  show "count_list (panes ?w) l \<le> 1" for l using leases_okC [OF ok] same by simp
qed

lemma lease_step_ok:
  assumes "leases_ok w" and "\<not> late_release e w"
  shows "leases_ok (lease_step e w)"
proof (cases e)
  case (ReleaseKilled k)
  then show ?thesis using release_killed_ok assms by blast
next
  case (Crash p)
  then show ?thesis using crash_ok [OF assms(1)] by simp
qed (simp_all only: reserve_ok take_lock_ok check_tmux_ok hold_lock_ok launch_pane_ok activate_step_ok kill_ok assms(1))

lemma lease_start_ok: "leases_ok lease_start"
  by (simp add: leases_ok_def lease_start_def no_leases_def)

lemma clean_run_ok: "clean_run es w \<Longrightarrow> leases_ok w \<Longrightarrow> leases_ok (fold lease_step es w)"
  by (induction es arbitrary: w) (auto intro: lease_step_ok)

text \<open>
  C13. Whatever processes launch, crash, kill and refresh, and whatever panes end, at most one pane runs
  a saved conversation, as long as no release after a kill comes while the same process is already launching that
  conversation again. An attempt keeps the lock file from before it looks at tmux until its
  pane carries the lease.
\<close>

theorem one_pane_per_conversation:
  assumes "clean_run es lease_start"
  shows "count_list (panes (lease_run es)) l \<le> 1"
  unfolding lease_run_def by (rule leases_okC [OF clean_run_ok [OF assms lease_start_ok]])

text \<open>
  C31. The release after a kill removes whatever the table holds: when a refresh has seen the pane gone
  and a new launch of the conversation is in flight, it removes the reservation and closes the
  lock file of that launch, and one more launch of the same conversation gets through. Two panes
  then run one conversation.
\<close>

definition late_release_trace :: "string \<Rightarrow> lease_event list" where
  "late_release_trace l =
     [Reserve 0 l, TakeLock 0, CheckTmux 0, HoldLock 0, LaunchPane 0, Activate 0,
      KillPane 0 l, ListPanes 0, ObserveList 0,
      Reserve 0 l, TakeLock 1, CheckTmux 1, HoldLock 1,
      ReleaseKilled 0,
      Reserve 0 l, TakeLock 2, CheckTmux 2, HoldLock 2,
      LaunchPane 1, LaunchPane 2]"


text \<open>
  Two processes launch one conversation, one of them waits no longer and the other one launches; its
  pane is killed and the conversation is launched again.
\<close>

definition clean_trace :: "string \<Rightarrow> lease_event list" where
  "clean_trace l =
     [Reserve 0 l, Reserve 1 l, TakeLock 1, TakeLock 0, CheckTmux 1, HoldLock 1, LaunchPane 1, Activate 1,
      Reserve 0 l, TakeLock 2, CheckTmux 2,
      KillPane 1 l, ReleaseKilled 0, Reserve 1 l, TakeLock 3, CheckTmux 3, HoldLock 3, LaunchPane 3, Activate 3]"

theorem one_pane_per_conversation_witness:
  "clean_run (clean_trace ''saved-a'') lease_start
   \<and> panes (lease_run (clean_trace ''saved-a'')) = [''saved-a'']
   \<and> count_list (panes (lease_run (clean_trace ''saved-a''))) ''saved-a'' \<le> 1"
proof -
  have "clean_run (clean_trace ''saved-a'') lease_start"
    by (simp add: clean_trace_def lease_start_def no_leases_def lease_defs drop_nth_def late_release_def All_less_Suc)
  moreover have "panes (lease_run (clean_trace ''saved-a'')) = [''saved-a'']"
    by (simp add: lease_run_def clean_trace_def lease_start_def no_leases_def lease_defs drop_nth_def)
  ultimately show ?thesis using one_pane_per_conversation by blast
qed

end
