(* ===== verification/Pane_Markers.thy ===== *)
theory Pane_Markers
  imports Pulse_Text
begin

text \<open>
  The durable markers atmux writes into the options of a tmux pane: the claim of an automatic
  compaction (\<open>src/src/auto_compact.rs\<close>) and the claim of a restart after an update
  (\<open>src/src/auto_update.rs\<close>). Both are colon separated fields; what is read back is what was written.
\<close>

section \<open>Requests\<close>

text \<open>A request to tmux or to the file system that failed can still have taken effect.\<close>

datatype tmux_reply = Done | Failed bool

definition tmux_applied :: "tmux_reply \<Rightarrow> bool" where
  "tmux_applied r = (case r of Done \<Rightarrow> True | Failed b \<Rightarrow> b)"

section \<open>Fields\<close>

text \<open>\<open>str::split\<close> at one character, and \<open>str::parse::<u64>\<close>.\<close>

fun split_on :: "char \<Rightarrow> string \<Rightarrow> string list" where
  "split_on c [] = [[]]"
| "split_on c (x # xs) =
     (if x = c then [] # split_on c xs
      else (case split_on c xs of [] \<Rightarrow> [[x]] | f # fs \<Rightarrow> (x # f) # fs))"

definition parse_u64 :: "string \<Rightarrow> nat option" where
  "parse_u64 s =
     (let r = (case s of c # cs \<Rightarrow> if c = CHR ''+'' then parse_nat cs else parse_nat s | [] \<Rightarrow> None)
      in (case r of None \<Rightarrow> None | Some v \<Rightarrow> checked_u64 v))"

definition is_hexdigit :: "char \<Rightarrow> bool" where
  "is_hexdigit c \<longleftrightarrow> is_ascii_digit c \<or> 97 \<le> byte_of c \<and> byte_of c \<le> 102 \<or> 65 \<le> byte_of c \<and> byte_of c \<le> 70"

definition is_upper :: "char \<Rightarrow> bool" where
  "is_upper c \<longleftrightarrow> 65 \<le> byte_of c \<and> byte_of c \<le> 90"

lemma split_on_nonempty: "split_on c s \<noteq> []"
  by (cases s) (auto split: list.splits)

lemma split_on_length: "length (split_on c s) = count_list s c + 1"
proof (induction s)
  case (Cons x xs)
  then show ?case using split_on_nonempty [of c xs] by (cases "split_on c xs") auto
qed simp

lemma split_on_field:
  assumes "c \<notin> set a"
  shows "split_on c a = [a]" "split_on c (a @ c # r) = a # split_on c r"
  using assms by (induction a) auto

lemma parse_show_u64: "v \<le> u64_max \<Longrightarrow> parse_u64 (show_nat v) = Some v"
proof -
  assume v: "v \<le> u64_max"
  obtain c cs where s: "show_nat v = c # cs" using show_nat_nonempty by (cases "show_nat v") auto
  then have "c \<noteq> CHR ''+''" using show_nat_digits [of c v] minus_not_digit by auto
  then have "parse_u64 (show_nat v) = (case parse_nat (show_nat v) of None \<Rightarrow> None | Some v \<Rightarrow> checked_u64 v)"
    unfolding parse_u64_def s by (simp add: Let_def)
  then show ?thesis unfolding parse_show_nat using v by simp
qed

lemma colon_not_digit: "\<not> is_ascii_digit CHR '':''" "\<not> is_hexdigit CHR '':''"
  by code_simp+

lemma no_colon_show: "CHR '':'' \<notin> set (show_nat v)"
  using show_nat_digits colon_not_digit by blast

lemma no_colon_hex: "list_all is_hexdigit s \<Longrightarrow> CHR '':'' \<notin> set s"
  using colon_not_digit by (auto simp: list_all_iff)

section \<open>The claim of a compaction\<close>

record compact_marker =
  cm_fingerprint :: string
  cm_input_tokens :: nat
  cm_acted_at :: nat

definition encode_marker :: "string \<Rightarrow> nat \<Rightarrow> nat \<Rightarrow> string" where
  "encode_marker fp tokens acted = ''ac1:'' @ fp @ '':'' @ show_nat tokens @ '':'' @ show_nat acted"

definition parse_marker :: "string \<Rightarrow> compact_marker option" where
  "parse_marker s =
     (case split_on CHR '':'' s of
        [version, fp, tokens, acted] \<Rightarrow>
          (case (parse_u64 tokens, parse_u64 acted) of
             (Some t, Some a) \<Rightarrow>
               if version \<noteq> ''ac1'' \<or> length fp \<noteq> 64 \<or> \<not> list_all is_hexdigit fp then None
               else Some \<lparr>cm_fingerprint = fp, cm_input_tokens = t, cm_acted_at = a\<rparr>
           | _ \<Rightarrow> None)
      | _ \<Rightarrow> None)"

text \<open>What \<open>Tmux::set_auto_compact_marker\<close> accepts as a value of the option.\<close>

definition compact_marker_valid :: "string \<Rightarrow> bool" where
  "compact_marker_valid s \<longleftrightarrow> length s \<le> 160 \<and> list_all (\<lambda>c. byte_of c < 128) s
     \<and> \<not> list_ex (\<lambda>c. byte_of c \<in> {0, 10, 13}) s"

lemma encode_marker_fields:
  assumes "CHR '':'' \<notin> set fp"
  shows "split_on CHR '':'' (encode_marker fp t a) = [''ac1'', fp, show_nat t, show_nat a]"
proof -
  have "encode_marker fp t a = ''ac1'' @ CHR '':'' # fp @ CHR '':'' # show_nat t @ CHR '':'' # show_nat a"
    by (simp add: encode_marker_def)
  moreover have "CHR '':'' \<notin> set ''ac1''" by code_simp
  ultimately show ?thesis using assms no_colon_show by (simp only: split_on_field not_False_eq_True simp_thms)
qed

lemma parse_encode_marker:
  assumes "length fp = 64" "list_all is_hexdigit fp" "t \<le> u64_max" "a \<le> u64_max"
  shows "parse_marker (encode_marker fp t a) = Some \<lparr>cm_fingerprint = fp, cm_input_tokens = t, cm_acted_at = a\<rparr>"
  unfolding parse_marker_def encode_marker_fields [OF no_colon_hex [OF assms(2)]] using assms
  by (simp add: parse_show_u64)

text \<open>Whatever fingerprint is written, no other is read back.\<close>

lemma parse_encode_same:
  assumes "parse_marker (encode_marker fp t a) = Some m"
  shows "cm_fingerprint m = fp"
proof (cases "CHR '':'' \<in> set fp")
  case False
  then show ?thesis using assms unfolding parse_marker_def encode_marker_fields [OF False]
    by (auto split: option.splits if_splits)
next
  case True
  then have "count_list fp CHR '':'' \<noteq> 0" by (simp add: count_list_0_iff)
  then have "length (split_on CHR '':'' (encode_marker fp t a)) \<ge> 5"
    unfolding split_on_length by (simp add: encode_marker_def)
  then show ?thesis using assms unfolding parse_marker_def by (auto split: list.splits)
qed

section \<open>The claim of a restart\<close>

datatype harness = Claude_cli | Codex_cli

datatype marker_phase = Ready | Claimed

record pending_marker =
  pm_harness :: harness
  pm_generation :: nat
  pm_fingerprint :: string
  pm_phase :: marker_phase

definition harness_name :: "harness \<Rightarrow> string" where
  "harness_name h = (case h of Claude_cli \<Rightarrow> ''claude'' | Codex_cli \<Rightarrow> ''codex'')"

definition phase_name :: "marker_phase \<Rightarrow> string" where
  "phase_name p = (case p of Ready \<Rightarrow> ''ready'' | Claimed \<Rightarrow> ''claimed'')"

definition pending_encode :: "pending_marker \<Rightarrow> string" where
  "pending_encode m = ''cu2:'' @ harness_name (pm_harness m) @ '':'' @ show_nat (pm_generation m) @ '':''
     @ pm_fingerprint m @ '':'' @ phase_name (pm_phase m)"

definition pending_parse :: "string \<Rightarrow> pending_marker option" where
  "pending_parse s =
     (case split_on CHR '':'' s of
        [version, h, g, fp, ph] \<Rightarrow>
          if version \<noteq> ''cu2'' then None
          else (case (if h = ''claude'' then Some Claude_cli else if h = ''codex'' then Some Codex_cli else None) of
             None \<Rightarrow> None
           | Some hv \<Rightarrow> (case parse_u64 g of
               None \<Rightarrow> None
             | Some gv \<Rightarrow>
                 (case (if ph = ''ready'' then Some Ready else if ph = ''claimed'' then Some Claimed else None) of
                    None \<Rightarrow> None
                  | Some pv \<Rightarrow>
                      if length fp \<noteq> 64 \<or> \<not> list_all (\<lambda>c. is_hexdigit c \<and> \<not> is_upper c) fp then None
                      else Some \<lparr>pm_harness = hv, pm_generation = gv, pm_fingerprint = fp, pm_phase = pv\<rparr>)))
      | _ \<Rightarrow> None)"

definition pending_ok :: "pending_marker \<Rightarrow> bool" where
  "pending_ok m \<longleftrightarrow> pm_generation m \<le> u64_max \<and> length (pm_fingerprint m) = 64
     \<and> list_all (\<lambda>c. is_hexdigit c \<and> \<not> is_upper c) (pm_fingerprint m)"

lemma pending_fields:
  assumes "pending_ok m"
  shows "split_on CHR '':'' (pending_encode m) =
    [''cu2'', harness_name (pm_harness m), show_nat (pm_generation m), pm_fingerprint m, phase_name (pm_phase m)]"
proof -
  have "pending_encode m = ''cu2'' @ CHR '':'' # harness_name (pm_harness m) @ CHR '':'' # show_nat (pm_generation m)
      @ CHR '':'' # pm_fingerprint m @ CHR '':'' # phase_name (pm_phase m)"
    by (simp add: pending_encode_def)
  moreover have "CHR '':'' \<notin> set ''cu2''" "CHR '':'' \<notin> set (harness_name h)" "CHR '':'' \<notin> set (phase_name p)" for h p
    by (cases h; cases p; simp add: harness_name_def phase_name_def)+
  moreover have "CHR '':'' \<notin> set (pm_fingerprint m)"
    using assms by (intro no_colon_hex) (auto simp: pending_ok_def list_all_iff)
  ultimately show ?thesis using no_colon_show by (simp only: split_on_field not_False_eq_True simp_thms)
qed

lemma pending_parse_encode: "pending_ok m \<Longrightarrow> pending_parse (pending_encode m) = Some m"
  unfolding pending_parse_def pending_fields
  by (cases "pm_harness m"; cases "pm_phase m")
    (simp_all add: pending_ok_def parse_show_u64 harness_name_def phase_name_def)

lemma pending_parse_ok: "pending_parse s = Some m \<Longrightarrow> pending_ok m"
  unfolding pending_parse_def pending_ok_def
  by (auto split: list.splits option.splits if_splits simp: parse_u64_def Let_def)


end
