(* ===== verification/Auto_Compact.thy ===== *)
theory Auto_Compact
  imports Pane_Markers
begin

text \<open>
  Automatic compaction of idle panes: the policy of \<open>src/src/auto_compact.rs\<close> and the poll of
  \<open>src/src/control.rs\<close> that applies it (\<open>auto_compact_once_blocking\<close>). The claim of a compaction is
  written into the pane before \<open>/compact\<close> is sent. What a poll finds out about a pane is a
  parameter; so is the outcome of every request to tmux, which can fail with or without having
  taken effect. A process that stops in the middle of a poll is a poll over fewer panes whose last
  requests failed.
\<close>

section \<open>The policy\<close>

record compact_policy =
  cp_enabled :: bool
  cp_inactivity_minutes :: nat
  cp_input_tokens :: nat

datatype agent_kind = Codex_agent | Claude_agent | Other_agent

datatype agent_status = Working | Waiting | Other_status

record pane_session =
  ps_status :: agent_status
  ps_agent :: agent_kind
  ps_activity :: nat

record native_context =
  nc_fingerprint :: string
  nc_input_tokens :: nat
  nc_reset_pending :: bool

datatype compact_decision = Skip | Clear_marker | Compact string

definition decide :: "compact_policy \<Rightarrow> nat \<Rightarrow> pane_session \<Rightarrow> native_context \<Rightarrow> string option \<Rightarrow> compact_decision" where
  "decide policy now s c existing =
     (if \<not> cp_enabled policy \<or> ps_status s \<noteq> Waiting \<or> ps_agent s = Other_agent
         \<or> ps_activity s = 0 \<or> now < ps_activity s
      then Skip
      else (case checked_u64 (cp_inactivity_minutes policy * 60) of
        None \<Rightarrow> Skip
      | Some inactivity \<Rightarrow>
          if now - ps_activity s \<le> inactivity then Skip
          else if existing \<noteq> None \<and> parse_marker (the existing) = None then Skip
          else (case Option.bind existing parse_marker of
              Some m \<Rightarrow>
                if cm_fingerprint m = nc_fingerprint c
                then (if nc_input_tokens c \<le> cp_input_tokens policy then Clear_marker else Skip)
                else if nc_input_tokens c \<le> cp_input_tokens policy then Clear_marker
                else if nc_reset_pending c then Skip
                else Compact (encode_marker (nc_fingerprint c) (nc_input_tokens c) now)
            | None \<Rightarrow>
                if nc_input_tokens c \<le> cp_input_tokens policy then Skip
                else if nc_reset_pending c then Skip
                else Compact (encode_marker (nc_fingerprint c) (nc_input_tokens c) now))))"

section \<open>The poll\<close>

text \<open>
  What a poll gets to see of a pane, in the order it asks: the lock, the fresh capture, whether the
  composer is idle, the native context, the marker; and what becomes of the requests it makes.
\<close>

record pane_view =
  v_lock :: bool
  v_session :: "pane_session option"
  v_idle :: bool
  v_context :: "native_context option"
  v_marker_read :: bool
  v_clear :: tmux_reply
  v_set :: tmux_reply
  v_advance :: tmux_reply
  v_deliver :: tmux_reply

datatype pane_event =
    Claim string string       \<comment> \<open>pane and native session whose claim was written\<close>
  | Sent string string        \<comment> \<open>\<open>/compact\<close> reached the pane\<close>
  | Unclaim string nat nat    \<comment> \<open>pane, tokens observed, threshold of the policy\<close>

record compact_world =
  claims :: "string \<Rightarrow> string option"
  pane_sequence :: "string \<Rightarrow> nat"
  compact_log :: "pane_event list"

definition log_event :: "pane_event \<Rightarrow> compact_world \<Rightarrow> compact_world" where
  "log_event e w = w\<lparr>compact_log := compact_log w @ [e]\<rparr>"

definition set_claim :: "string \<Rightarrow> string \<Rightarrow> string \<Rightarrow> tmux_reply \<Rightarrow> compact_world \<Rightarrow> bool \<times> compact_world" where
  "set_claim pane fp m reply w =
     (if \<not> compact_marker_valid m then (False, w)
      else (reply = Done,
        if tmux_applied reply then log_event (Claim pane fp) (w\<lparr>claims := (claims w)(pane \<mapsto> m)\<rparr>) else w))"

definition clear_claim :: "string \<Rightarrow> nat \<Rightarrow> nat \<Rightarrow> tmux_reply \<Rightarrow> compact_world \<Rightarrow> bool \<times> compact_world" where
  "clear_claim pane tokens limit reply w =
     (reply = Done,
      if tmux_applied reply then log_event (Unclaim pane tokens limit) (w\<lparr>claims := (claims w)(pane := None)\<rparr>) else w)"

text \<open>\<open>begin_pane_mutation\<close>: the durable sequence of the pane is advanced before it is written to.\<close>

definition begin_mutation :: "string \<Rightarrow> tmux_reply \<Rightarrow> compact_world \<Rightarrow> bool \<times> compact_world" where
  "begin_mutation pane reply w =
     (if pane_sequence w pane = u64_max then (False, w)
      else (reply = Done,
        if tmux_applied reply then w\<lparr>pane_sequence := (pane_sequence w)(pane := pane_sequence w pane + 1)\<rparr> else w))"

definition deliver_compact :: "string \<Rightarrow> string \<Rightarrow> tmux_reply \<Rightarrow> compact_world \<Rightarrow> compact_world" where
  "deliver_compact pane fp reply w = (if tmux_applied reply then log_event (Sent pane fp) w else w)"

definition compact_pane :: "compact_policy \<Rightarrow> nat \<Rightarrow> string \<Rightarrow> pane_view \<Rightarrow> compact_world \<Rightarrow> bool \<times> compact_world" where
  "compact_pane policy now pane v w =
     (if \<not> v_lock v then (False, w)
      else (case v_session v of
        None \<Rightarrow> (False, w)
      | Some s \<Rightarrow>
          if \<not> v_idle v then (False, w)
          else (case v_context v of
            None \<Rightarrow> (False, w)
          | Some c \<Rightarrow>
              if \<not> v_marker_read v then (False, w)
              else (case decide policy now s c (claims w pane) of
                Skip \<Rightarrow> (False, w)
              | Clear_marker \<Rightarrow> clear_claim pane (nc_input_tokens c) (cp_input_tokens policy) (v_clear v) w
              | Compact m \<Rightarrow>
                  let (claimed, w1) = set_claim pane (nc_fingerprint c) m (v_set v) w
                  in if \<not> claimed then (False, w1)
                     else let (begun, w2) = begin_mutation pane (v_advance v) w1
                          in if \<not> begun then (True, w2)
                             else (True, deliver_compact pane (nc_fingerprint c) (v_deliver v) w2)))))"

fun compact_panes :: "compact_policy \<Rightarrow> nat \<Rightarrow> (string \<times> pane_view) list \<Rightarrow> compact_world \<Rightarrow> bool \<times> compact_world" where
  "compact_panes policy now [] w = (False, w)"
| "compact_panes policy now ((pane, v) # pvs) w =
     (let (m1, w1) = compact_pane policy now pane v w; (m2, w2) = compact_panes policy now pvs w1 in (m1 \<or> m2, w2))"

text \<open>
  The candidates are the panes of the cached state that wait at an agent; a poll walks over them.
\<close>

definition compact_candidates :: "(string \<times> pane_session) list \<Rightarrow> string list" where
  "compact_candidates sessions =
     map fst (filter (\<lambda>(_, s). ps_status s = Waiting \<and> ps_agent s \<in> {Claude_agent, Codex_agent}) sessions)"

record compact_poll =
  poll_policy :: compact_policy
  poll_now :: nat
  poll_cached :: "(string \<times> pane_session) list"
  poll_view :: "string \<Rightarrow> pane_view"

definition auto_compact_once :: "compact_poll \<Rightarrow> compact_world \<Rightarrow> bool \<times> compact_world" where
  "auto_compact_once p w =
     compact_panes (poll_policy p) (poll_now p) (map (\<lambda>pane. (pane, poll_view p pane)) (compact_candidates (poll_cached p))) w"

definition compact_start :: compact_world where
  "compact_start = \<lparr>claims = (\<lambda>_. None), pane_sequence = (\<lambda>_. 0), compact_log = []\<rparr>"

definition compact_history :: "compact_poll list \<Rightarrow> pane_event list" where
  "compact_history ps = compact_log (fold (\<lambda>p w. snd (auto_compact_once p w)) ps compact_start)"

section \<open>One compaction per episode\<close>

text \<open>
  What ends the episode of a native session in a pane: the claim of another session, or a claim
  taken back because the tokens are at or below the threshold.
\<close>

definition ends_episode :: "string \<Rightarrow> string \<Rightarrow> pane_event \<Rightarrow> bool" where
  "ends_episode pane fp e =
     (case e of Claim q g \<Rightarrow> q = pane \<and> g \<noteq> fp | Unclaim q t limit \<Rightarrow> q = pane \<and> t \<le> limit | Sent _ _ \<Rightarrow> False)"

definition open_episode :: "pane_event list \<Rightarrow> string \<Rightarrow> string \<Rightarrow> bool" where
  "open_episode es pane fp \<longleftrightarrow> (\<exists>xs ys. es = xs @ Sent pane fp # ys \<and> \<not> list_ex (ends_episode pane fp) ys)"

definition sent_once :: "pane_event list \<Rightarrow> bool" where
  "sent_once es \<longleftrightarrow> (\<forall>xs pane fp ys zs. es = xs @ Sent pane fp # ys @ Sent pane fp # zs \<longrightarrow> list_ex (ends_episode pane fp) ys)"

text \<open>An open episode is claimed in the pane, and nobody was sent to twice.\<close>

definition compact_ok :: "compact_world \<Rightarrow> bool" where
  "compact_ok w \<longleftrightarrow> sent_once (compact_log w)
     \<and> (\<forall>pane fp. open_episode (compact_log w) pane fp
          \<longrightarrow> (\<exists>m. claims w pane = Some m \<and> (\<forall>pm. parse_marker m = Some pm \<longrightarrow> cm_fingerprint pm = fp)))"

lemma open_snoc:
  "open_episode (es @ [e]) pane fp \<longleftrightarrow> e = Sent pane fp \<or> (open_episode es pane fp \<and> \<not> ends_episode pane fp e)"
proof
  assume "open_episode (es @ [e]) pane fp"
  then obtain xs ys where xy: "es @ [e] = xs @ Sent pane fp # ys" "\<not> list_ex (ends_episode pane fp) ys"
    unfolding open_episode_def by blast
  show "e = Sent pane fp \<or> (open_episode es pane fp \<and> \<not> ends_episode pane fp e)"
  proof (cases ys rule: rev_cases)
    case Nil
    then show ?thesis using xy(1) by simp
  next
    case (snoc zs z)
    then have "es = xs @ Sent pane fp # zs" "z = e" using xy(1) by auto
    then show ?thesis using xy(2) snoc unfolding open_episode_def by auto
  qed
next
  assume "e = Sent pane fp \<or> (open_episode es pane fp \<and> \<not> ends_episode pane fp e)"
  then show "open_episode (es @ [e]) pane fp"
  proof
    assume "e = Sent pane fp"
    then have "es @ [e] = es @ Sent pane fp # []" by simp
    then show ?thesis unfolding open_episode_def by fastforce
  next
    assume r: "open_episode es pane fp \<and> \<not> ends_episode pane fp e"
    then obtain xs ys where "es = xs @ Sent pane fp # ys" "\<not> list_ex (ends_episode pane fp) ys"
      unfolding open_episode_def by blast
    then have "es @ [e] = xs @ Sent pane fp # (ys @ [e])" "\<not> list_ex (ends_episode pane fp) (ys @ [e])" using r by auto
    then show ?thesis unfolding open_episode_def by blast
  qed
qed

lemma sent_once_snoc:
  assumes "sent_once es" and "\<And>pane fp. e = Sent pane fp \<Longrightarrow> \<not> open_episode es pane fp"
  shows "sent_once (es @ [e])"
  unfolding sent_once_def
proof (intro allI impI)
  fix xs pane fp ys zs assume eq: "es @ [e] = xs @ Sent pane fp # ys @ Sent pane fp # zs"
  show "list_ex (ends_episode pane fp) ys"
  proof (cases zs rule: rev_cases)
    case Nil
    then have "es = xs @ Sent pane fp # ys" "e = Sent pane fp" using eq by (auto simp flip: append_assoc append_Cons)
    then show ?thesis using assms(2) unfolding open_episode_def by blast
  next
    case (snoc us u)
    then have "es = xs @ Sent pane fp # ys @ Sent pane fp # us" using eq by (auto simp flip: append_assoc append_Cons)
    then show ?thesis using assms(1) unfolding sent_once_def by blast
  qed
qed

text \<open>The effects of a poll, one at a time.\<close>

lemma set_claim_ok:
  assumes ok: "compact_ok w" and m: "m = encode_marker fp t now"
  shows "compact_ok (snd (set_claim pane fp m r w))"
proof -
  have "compact_ok (log_event (Claim pane fp) (w\<lparr>claims := (claims w)(pane \<mapsto> m)\<rparr>))"
    using ok parse_encode_same unfolding compact_ok_def m
    by (auto simp: log_event_def open_snoc ends_episode_def intro!: sent_once_snoc)
  then show ?thesis using ok by (simp add: set_claim_def)
qed

lemma clear_claim_ok:
  assumes ok: "compact_ok w" and t: "t \<le> limit"
  shows "compact_ok (snd (clear_claim pane t limit r w))"
proof -
  have "compact_ok (log_event (Unclaim pane t limit) (w\<lparr>claims := (claims w)(pane := None)\<rparr>))"
    using ok t unfolding compact_ok_def
    by (auto simp: log_event_def open_snoc ends_episode_def intro!: sent_once_snoc)
  then show ?thesis using ok by (simp add: clear_claim_def)
qed

lemma begin_mutation_same:
  "claims (snd (begin_mutation pane r w)) = claims w" "compact_log (snd (begin_mutation pane r w)) = compact_log w"
  by (simp_all add: begin_mutation_def)

lemma compact_ok_same: "claims w' = claims w \<Longrightarrow> compact_log w' = compact_log w \<Longrightarrow> compact_ok w' = compact_ok w"
  by (simp add: compact_ok_def)

lemma deliver_ok:
  assumes ok: "compact_ok w" and m: "claims w pane = Some (encode_marker fp t now)"
    and fresh: "\<not> open_episode (compact_log w) pane fp"
  shows "compact_ok (deliver_compact pane fp r w)"
proof -
  have "sent_once (compact_log w @ [Sent pane fp])" using ok fresh by (auto simp: compact_ok_def intro!: sent_once_snoc)
  then have "compact_ok (log_event (Sent pane fp) w)"
    using ok m parse_encode_same unfolding compact_ok_def by (auto simp: log_event_def open_snoc ends_episode_def)
  then show ?thesis using ok by (simp add: deliver_compact_def)
qed

lemma decide_compact:
  assumes "decide policy now s c existing = Compact m"
  shows "m = encode_marker (nc_fingerprint c) (nc_input_tokens c) now"
    and "existing = Some x \<Longrightarrow> \<exists>pm. parse_marker x = Some pm \<and> cm_fingerprint pm \<noteq> nc_fingerprint c"
  using assms unfolding decide_def by (auto split: if_splits option.splits)

lemma decide_clear: "decide policy now s c existing = Clear_marker \<Longrightarrow> nc_input_tokens c \<le> cp_input_tokens policy"
  unfolding decide_def by (auto split: if_splits option.splits)

lemma compact_pane_ok:
  assumes ok: "compact_ok w"
  shows "compact_ok (snd (compact_pane policy now pane v w))"
proof -
  have send: "compact_ok (snd (let (claimed, w1) = set_claim pane (nc_fingerprint c) m (v_set v) w
                  in if \<not> claimed then (False, w1)
                     else let (begun, w2) = begin_mutation pane (v_advance v) w1
                          in if \<not> begun then (True, w2)
                             else (True, deliver_compact pane (nc_fingerprint c) (v_deliver v) w2)))"
    if d: "decide policy now s c (claims w pane) = Compact m" for s c m
  proof -
    have m: "m = encode_marker (nc_fingerprint c) (nc_input_tokens c) now" using decide_compact(1) [OF d] .
    have fresh: "\<not> open_episode (compact_log w) pane (nc_fingerprint c)"
      using ok decide_compact(2) [OF d] unfolding compact_ok_def by fastforce
    obtain b w1 where w1: "set_claim pane (nc_fingerprint c) m (v_set v) w = (b, w1)" by (rule prod.exhaust)
    have ok1: "compact_ok w1" using set_claim_ok [OF ok m, of pane "v_set v"] w1 by simp
    obtain b2 w2 where w2: "begin_mutation pane (v_advance v) w1 = (b2, w2)" by (rule prod.exhaust)
    have same: "claims w2 = claims w1" "compact_log w2 = compact_log w1"
      using begin_mutation_same [of pane "v_advance v" w1] w2 by simp_all
    have ok2: "compact_ok w2" using compact_ok_same [OF same] ok1 by simp
    have "compact_ok (deliver_compact pane (nc_fingerprint c) (v_deliver v) w2)" if b: "b"
    proof (rule deliver_ok [OF ok2])
      have "w1 = log_event (Claim pane (nc_fingerprint c)) (w\<lparr>claims := (claims w)(pane \<mapsto> m)\<rparr>)"
        using w1 b by (auto simp: set_claim_def tmux_applied_def split: if_splits)
      then show "claims w2 pane = Some (encode_marker (nc_fingerprint c) (nc_input_tokens c) now)"
        and "\<not> open_episode (compact_log w2) pane (nc_fingerprint c)"
        using same fresh m by (simp_all add: log_event_def open_snoc)
    qed
    then show ?thesis using w1 w2 ok1 ok2 by simp
  qed
  show ?thesis unfolding compact_pane_def
    using ok send clear_claim_ok [OF ok decide_clear] by (auto split: option.splits compact_decision.splits simp del: Let_def)
qed

lemma compact_panes_ok: "compact_ok w \<Longrightarrow> compact_ok (snd (compact_panes policy now pvs w))"
proof (induction pvs arbitrary: w)
  case (Cons pv pvs)
  then show ?case using compact_pane_ok [OF Cons.prems] by (cases pv) (simp add: split_beta Let_def)
qed simp

lemma compact_start_ok: "compact_ok compact_start"
  by (simp add: compact_ok_def compact_start_def sent_once_def open_episode_def)

lemma compact_polls_ok: "compact_ok w \<Longrightarrow> compact_ok (fold (\<lambda>p w. snd (auto_compact_once p w)) ps w)"
  by (induction ps arbitrary: w) (simp_all add: auto_compact_once_def compact_panes_ok)

text \<open>
  C15. Whatever is observed, whatever tmux answers and wherever a poll stops, \<open>/compact\<close> is sent to a native
  session again only after its claim was taken back at or below the threshold or another session was
  claimed in the pane.
\<close>

theorem one_compaction_per_episode:
  assumes "compact_history ps = xs @ Sent pane fp # ys @ Sent pane fp # zs"
  shows "list_ex (ends_episode pane fp) ys"
  using compact_polls_ok [OF compact_start_ok, of ps] assms unfolding compact_ok_def sent_once_def compact_history_def by blast

text \<open>
  A session is compacted, another session whose context is small takes its claim away, and the first one,
  which never fell, is compacted again.
\<close>

definition example_view :: "string \<Rightarrow> nat \<Rightarrow> pane_view" where
  "example_view fp tokens =
     \<lparr>v_lock = True, v_session = Some \<lparr>ps_status = Waiting, ps_agent = Claude_agent, ps_activity = 1\<rparr>, v_idle = True,
      v_context = Some \<lparr>nc_fingerprint = fp, nc_input_tokens = tokens, nc_reset_pending = False\<rparr>, v_marker_read = True,
      v_clear = Done, v_set = Done, v_advance = Done, v_deliver = Done\<rparr>"

definition example_poll :: "string \<Rightarrow> nat \<Rightarrow> compact_poll" where
  "example_poll fp tokens =
     \<lparr>poll_policy = \<lparr>cp_enabled = True, cp_inactivity_minutes = 1, cp_input_tokens = 5\<rparr>, poll_now = 100,
      poll_cached = [(''%1'', \<lparr>ps_status = Waiting, ps_agent = Claude_agent, ps_activity = 1\<rparr>)],
      poll_view = (\<lambda>_. example_view fp tokens)\<rparr>"

definition session_a :: string where "session_a = replicate 64 CHR ''a''"

definition session_b :: string where "session_b = replicate 64 CHR ''b''"

definition switched_polls :: "compact_poll list" where
  "switched_polls = [example_poll session_a 9, example_poll session_a 9, example_poll session_b 2, example_poll session_a 9]"

definition marker_a :: string where "marker_a = encode_marker session_a 9 100"

lemma marker_a_reads: "parse_marker marker_a = Some \<lparr>cm_fingerprint = session_a, cm_input_tokens = 9, cm_acted_at = 100\<rparr>"
proof -
  have "is_hexdigit CHR ''a''" by code_simp
  then show ?thesis unfolding marker_a_def by (intro parse_encode_marker) (simp_all add: session_a_def u64_max_def list_all_iff)
qed

lemma marker_a_valid: "compact_marker_valid marker_a"
  by code_simp

lemma sessions_differ: "session_a \<noteq> session_b"
  by code_simp

lemmas example_defs = auto_compact_once_def example_poll_def compact_candidates_def compact_pane_def decide_def
  example_view_def checked_u64_def u64_max_def

lemma example_first:
  assumes "claims w ''%1'' = None" "pane_sequence w ''%1'' < 7"
  shows "snd (auto_compact_once (example_poll session_a 9) w) =
    w\<lparr>claims := (claims w)(''%1'' \<mapsto> marker_a), pane_sequence := (pane_sequence w)(''%1'' := pane_sequence w ''%1'' + 1),
      compact_log := compact_log w @ [Claim ''%1'' session_a, Sent ''%1'' session_a]\<rparr>"
  using assms marker_a_valid
  by (simp add: example_defs set_claim_def begin_mutation_def deliver_compact_def tmux_applied_def log_event_def
      flip: marker_a_def)

lemma example_again: "claims w ''%1'' = Some marker_a \<Longrightarrow> snd (auto_compact_once (example_poll session_a 9) w) = w"
  by (simp add: example_defs marker_a_reads)

lemma example_other:
  "claims w ''%1'' = Some marker_a \<Longrightarrow> snd (auto_compact_once (example_poll session_b 2) w) =
    w\<lparr>claims := (claims w)(''%1'' := None), compact_log := compact_log w @ [Unclaim ''%1'' 2 5]\<rparr>"
  using sessions_differ by (simp add: example_defs marker_a_reads clear_claim_def tmux_applied_def log_event_def)

lemma switched_history:
  "compact_history switched_polls =
     [Claim ''%1'' session_a, Sent ''%1'' session_a, Unclaim ''%1'' 2 5, Claim ''%1'' session_a, Sent ''%1'' session_a]"
  by (simp add: compact_history_def switched_polls_def compact_start_def example_first example_again example_other)

theorem one_compaction_per_episode_witness:
  "compact_history switched_polls =
     [Claim ''%1'' session_a] @ Sent ''%1'' session_a # [Unclaim ''%1'' 2 5, Claim ''%1'' session_a] @ Sent ''%1'' session_a # []
   \<and> list_ex (ends_episode ''%1'' session_a) [Unclaim ''%1'' 2 5, Claim ''%1'' session_a]"
proof -
  have h: "compact_history switched_polls =
     [Claim ''%1'' session_a] @ Sent ''%1'' session_a # [Unclaim ''%1'' 2 5, Claim ''%1'' session_a] @ Sent ''%1'' session_a # []"
    unfolding switched_history by simp
  show ?thesis using h one_compaction_per_episode [OF h] by blast
qed

end
