(* ===== verification/Cli_Update.thy ===== *)
theory Cli_Update
  imports Pane_Markers
begin

text \<open>
  Updates of the agents' command line programs and the restart of their panes: the durable state and the
  cycle of \<open>src/src/auto_update.rs\<close>, and the two workers of \<open>src/src/control.rs\<close> that plan panes and restart
  them. A cycle looks at the launchers, the panes and tmux through an environment that answers
  each question as it likes, the answer depending on a clock that counts the questions; so a
  request can fail, take effect although it failed, and a process can stop anywhere (every
  later request fails).
\<close>

section \<open>The durable state\<close>

record exe_identity =
  ei_path :: string
  ei_version :: string
  ei_sha256 :: string
  ei_size :: nat
  ei_modified :: nat

record planned_pane =
  pl_pane :: string
  pl_fingerprint :: string
  pl_sequence :: nat
  pl_profile :: string
  pl_mode :: string

record update_intent =
  ui_baseline :: exe_identity
  ui_before :: exe_identity
  ui_candidates :: "planned_pane list"

record harness_state =
  h_generation :: nat
  h_before :: "exe_identity option"
  h_after :: "exe_identity option"
  h_error :: "string option"
  h_applied :: "exe_identity option"
  h_intent :: "update_intent option"
  h_pending :: "planned_pane list"

definition harness_default :: harness_state where
  "harness_default = \<lparr>h_generation = 0, h_before = None, h_after = None, h_error = None, h_applied = None,
     h_intent = None, h_pending = []\<rparr>"

definition changed :: "exe_identity \<Rightarrow> exe_identity \<Rightarrow> bool" where
  "changed before after \<longleftrightarrow> ei_sha256 before \<noteq> ei_sha256 after"

definition advance_generation :: "nat \<Rightarrow> bool \<Rightarrow> nat" where
  "advance_generation current did = (if did then max ((current + 1) mod (u64_max + 1)) 1 else current)"

definition prepare_intent :: "exe_identity \<Rightarrow> planned_pane list \<Rightarrow> harness_state \<Rightarrow> harness_state" where
  "prepare_intent observed candidates s =
     (let baseline = (case h_applied s of Some i \<Rightarrow> i | None \<Rightarrow> observed)
      in s\<lparr>h_applied := Some baseline, h_before := Some observed,
           h_intent := Some \<lparr>ui_baseline = baseline, ui_before = observed, ui_candidates = candidates\<rparr>\<rparr>)"

definition reconcile :: "exe_identity \<Rightarrow> string option \<Rightarrow> harness_state \<Rightarrow> harness_state" where
  "reconcile observed err s =
     (case h_intent s of
        None \<Rightarrow> s\<lparr>h_applied := Some observed, h_after := Some observed, h_error := err\<rparr>
      | Some it \<Rightarrow>
          let did = changed (ui_baseline it) observed;
              s1 = s\<lparr>h_intent := None, h_after := Some observed, h_applied := Some observed, h_error := err\<rparr>
          in if did then s1\<lparr>h_generation := advance_generation (h_generation s1) True, h_pending := ui_candidates it\<rparr>
             else s1)"

record maintenance =
  m_last_check :: "nat option"
  m_harnesses :: "harness \<Rightarrow> harness_state option"

definition maintenance_default :: maintenance where
  "maintenance_default = \<lparr>m_last_check = None, m_harnesses = (\<lambda>_. None)\<rparr>"

definition harness_of :: "maintenance \<Rightarrow> harness \<Rightarrow> harness_state" where
  "harness_of ms h = (case m_harnesses ms h of None \<Rightarrow> harness_default | Some s \<Rightarrow> s)"

definition harness_mut :: "harness \<Rightarrow> (harness_state \<Rightarrow> harness_state) \<Rightarrow> maintenance \<Rightarrow> maintenance" where
  "harness_mut h f ms = ms\<lparr>m_harnesses := (m_harnesses ms)(h \<mapsto> f (harness_of ms h))\<rparr>"

definition harness_fail :: "harness \<Rightarrow> string \<Rightarrow> maintenance \<Rightarrow> maintenance" where
  "harness_fail h e = harness_mut h (\<lambda>s. s\<lparr>h_error := Some e\<rparr>)"

definition all_harnesses :: "harness list" where
  "all_harnesses = [Claude_cli, Codex_cli]"

definition check_due :: "nat option \<Rightarrow> nat \<Rightarrow> nat \<Rightarrow> bool" where
  "check_due last_check now interval = (case last_check of None \<Rightarrow> False | Some l \<Rightarrow> interval \<le> now - l)"

section \<open>What becomes of a planned pane\<close>

record pane_observation =
  po_exists :: bool
  po_stale :: bool
  po_fingerprint :: "string option"
  po_sequence :: "nat option"
  po_idle :: bool

datatype pane_action = Materialize_ready | Defer | Claim_before_respawn | Forget | Already_claimed

definition marker_expected :: "planned_pane \<Rightarrow> harness \<Rightarrow> nat \<Rightarrow> pending_marker \<Rightarrow> bool" where
  "marker_expected plan h g m \<longleftrightarrow> pm_harness m = h \<and> pm_generation m = g \<and> pm_fingerprint m = pl_fingerprint plan"

definition pane_action :: "planned_pane \<Rightarrow> pending_marker option \<Rightarrow> pane_observation \<Rightarrow> harness \<Rightarrow> nat \<Rightarrow> pane_action" where
  "pane_action plan marker obs h g =
     (if (case marker of Some m \<Rightarrow> marker_expected plan h g m \<and> pm_phase m = Claimed | None \<Rightarrow> False) then Already_claimed
      else if \<not> po_exists obs \<or> po_stale obs
        \<or> (case po_sequence obs of Some q \<Rightarrow> q \<noteq> pl_sequence plan | None \<Rightarrow> False)
        \<or> (case po_fingerprint obs of Some f \<Rightarrow> f \<noteq> pl_fingerprint plan | None \<Rightarrow> False) then Forget
      else if \<not> (case marker of Some m \<Rightarrow> marker_expected plan h g m | None \<Rightarrow> False) then Materialize_ready
      else (case map_option pm_phase marker of
          Some Claimed \<Rightarrow> Already_claimed
        | Some Ready \<Rightarrow> if po_idle obs \<and> po_fingerprint obs \<noteq> None \<and> po_sequence obs \<noteq> None then Claim_before_respawn else Defer
        | None \<Rightarrow> Defer))"

section \<open>The world of a cycle\<close>

record respawn =
  rs_harness :: harness
  rs_generation :: nat
  rs_plan :: planned_pane
  rs_marker :: "pending_marker option"
  rs_observed :: pane_observation

text \<open>
  The state file with its history (\<open>None\<close> when it was moved aside), the options of the panes, and what was
  done: every start of an updater with the file as it was then, every restart that was requested.
\<close>

record update_world =
  up_clock :: nat
  up_file :: "maintenance option"
  up_history :: "maintenance option list"
  up_markers :: "string \<Rightarrow> string option"
  up_sequence :: "string \<Rightarrow> nat"
  up_invocations :: "(harness \<times> exe_identity \<times> maintenance option) list"
  up_respawns :: "respawn list"

record fresh_pane =
  fr_harness :: "harness option"
  fr_profile :: string
  fr_mode :: "string option"
  fr_target :: "string option"
  fr_exact :: "string option"
  fr_waiting :: bool
  fr_idle :: bool

record preflight =
  pf_fingerprint :: string
  pf_profile :: string
  pf_mode :: string
  pf_bound :: bool

datatype load_fault = No_fault | Corrupt | Unreadable

record update_env =
  en_owner :: "nat \<Rightarrow> bool"
  en_load :: "nat \<Rightarrow> load_fault"
  en_inspect :: "nat \<Rightarrow> harness \<Rightarrow> string + exe_identity option"
  en_panes :: "nat \<Rightarrow> harness \<Rightarrow> string list"
  en_preflight :: "nat \<Rightarrow> harness \<Rightarrow> string \<Rightarrow> string \<Rightarrow> preflight option"
  en_capture :: "nat \<Rightarrow> string \<Rightarrow> string + fresh_pane option"
  en_update :: "nat \<Rightarrow> harness \<Rightarrow> exe_identity \<Rightarrow> string + exe_identity"
  en_ok :: "nat \<Rightarrow> bool"            \<comment> \<open>locks, reads from tmux, the scope, the worker\<close>
  en_reply :: "nat \<Rightarrow> tmux_reply"   \<comment> \<open>writes\<close>
  en_others :: "nat \<Rightarrow> string \<Rightarrow> nat" \<comment> \<open>mutations of the panes by others while no lock is held\<close>

definition ask :: "(nat \<Rightarrow> 'a) \<Rightarrow> update_world \<Rightarrow> 'a \<times> update_world" where
  "ask f w = (f (up_clock w), w\<lparr>up_clock := up_clock w + 1\<rparr>)"

text \<open>Taking the lock of a pane: until then the others may have written to any pane.\<close>

definition lock_pane :: "update_env \<Rightarrow> update_world \<Rightarrow> bool \<times> update_world" where
  "lock_pane env w =
     ask (en_ok env) (w\<lparr>up_sequence := (\<lambda>p. min u64_max (up_sequence w p + en_others env (up_clock w) p))\<rparr>)"

definition persist :: "update_env \<Rightarrow> maintenance \<Rightarrow> update_world \<Rightarrow> bool \<times> update_world" where
  "persist env ms w =
     (let (r, w1) = ask (en_reply env) w
      in (r = Done, if tmux_applied r then w1\<lparr>up_file := Some ms, up_history := up_history w1 @ [Some ms]\<rparr> else w1))"

definition set_marker :: "update_env \<Rightarrow> string \<Rightarrow> pending_marker \<Rightarrow> update_world \<Rightarrow> bool \<times> update_world" where
  "set_marker env pane m w =
     (if pending_parse (pending_encode m) = None then (False, w)
      else let (r, w1) = ask (en_reply env) w
        in (r = Done, if tmux_applied r then w1\<lparr>up_markers := (up_markers w1)(pane \<mapsto> pending_encode m)\<rparr> else w1))"

definition clear_marker :: "update_env \<Rightarrow> string \<Rightarrow> update_world \<Rightarrow> update_world" where
  "clear_marker env pane w =
     (let (r, w1) = ask (en_reply env) w
      in if tmux_applied r then w1\<lparr>up_markers := (up_markers w1)(pane := None)\<rparr> else w1)"

definition read_sequence :: "update_env \<Rightarrow> string \<Rightarrow> update_world \<Rightarrow> nat option \<times> update_world" where
  "read_sequence env pane w =
     (let (ok, w1) = ask (en_ok env) w in (if ok then Some (up_sequence w1 pane) else None, w1))"

definition advance_sequence :: "update_env \<Rightarrow> string \<Rightarrow> update_world \<Rightarrow> bool \<times> update_world" where
  "advance_sequence env pane w =
     (let (q, w1) = read_sequence env pane w
      in case q of
           None \<Rightarrow> (False, w1)
         | Some n \<Rightarrow>
             if n = u64_max then (False, w1)
             else let (r, w2) = ask (en_reply env) w1
               in (r = Done, if tmux_applied r then w2\<lparr>up_sequence := (up_sequence w2)(pane := n + 1)\<rparr> else w2))"

section \<open>Planning and restarting panes\<close>

text \<open>\<open>collect_cli_update_candidates_blocking\<close>\<close>

fun collect_panes :: "update_env \<Rightarrow> harness \<Rightarrow> string \<Rightarrow> string list \<Rightarrow> update_world \<Rightarrow> planned_pane list \<times> update_world" where
  "collect_panes env h launcher [] w = ([], w)"
| "collect_panes env h launcher (pane # ps) w =
     (let (locked, w1) = lock_pane env w
      in if \<not> locked then collect_panes env h launcher ps w1
         else let (pre, w2) = ask (\<lambda>n. en_preflight env n h launcher pane) w1
           in case pre of
                None \<Rightarrow> collect_panes env h launcher ps w2
              | Some pf \<Rightarrow>
                  if \<not> pf_bound pf then collect_panes env h launcher ps w2
                  else let (q, w3) = read_sequence env pane w2
                    in case q of
                         None \<Rightarrow> collect_panes env h launcher ps w3
                       | Some n \<Rightarrow>
                           let (rest, w4) = collect_panes env h launcher ps w3
                           in (\<lparr>pl_pane = pane, pl_fingerprint = pf_fingerprint pf, pl_sequence = n,
                                 pl_profile = pf_profile pf, pl_mode = pf_mode pf\<rparr> # rest, w4))"

definition collect :: "update_env \<Rightarrow> harness \<Rightarrow> string \<Rightarrow> update_world \<Rightarrow> planned_pane list option \<times> update_world" where
  "collect env h launcher w =
     (let (panes, w1) = ask (\<lambda>n. en_panes env n h) w;
          (planned, w2) = collect_panes env h launcher panes w1;
          (joined, w3) = ask (en_ok env) w2
      in (if joined then Some planned else None, w3))"

text \<open>\<open>fresh_cli_update_session\<close>: a capture that failed looks like a pane that is gone.\<close>

definition fresh_session :: "update_env \<Rightarrow> string \<Rightarrow> update_world \<Rightarrow> fresh_pane option \<times> update_world" where
  "fresh_session env pane w =
     (let (r, w1) = ask (\<lambda>n. en_capture env n pane) w in (case r of Inl e \<Rightarrow> None | Inr f \<Rightarrow> f, w1))"

definition observe_pane :: "harness \<Rightarrow> planned_pane \<Rightarrow> fresh_pane option \<Rightarrow> nat option \<Rightarrow> pane_observation" where
  "observe_pane h plan fresh q =
     \<lparr>po_exists = fresh \<noteq> None,
      po_stale = (case fresh of None \<Rightarrow> False
        | Some f \<Rightarrow> fr_harness f \<noteq> Some h \<or> fr_profile f \<noteq> pl_profile plan
            \<or> (case fr_mode f of Some m \<Rightarrow> m \<noteq> pl_mode plan | None \<Rightarrow> False)),
      po_fingerprint = Option.bind fresh fr_target,
      po_sequence = q,
      po_idle = (case fresh of None \<Rightarrow> False | Some f \<Rightarrow> fr_harness f = Some h \<and> fr_exact f \<noteq> None \<and> fr_waiting f \<and> fr_idle f)\<rparr>"

text \<open>What the walk over the plans carries along.\<close>

record walk =
  wk_attempts :: nat
  wk_respawned :: bool

text \<open>A pane that may be restarted; the first component tells whether its plan is kept.\<close>

definition claim_and_respawn ::
  "update_env \<Rightarrow> nat \<Rightarrow> harness \<Rightarrow> nat \<Rightarrow> planned_pane \<Rightarrow> pending_marker option \<Rightarrow> pane_observation
    \<Rightarrow> walk \<Rightarrow> update_world \<Rightarrow> bool \<times> walk \<times> update_world" where
  "claim_and_respawn env limit h g plan marker obs k w =
     (if limit \<le> wk_attempts k then (True, k, w)
      else let (scope, w1) = ask (en_ok env) w
        in if \<not> scope then (True, k, w1)
           else let k1 = k\<lparr>wk_attempts := wk_attempts k + 1\<rparr>;
                    (claimed, w2) = set_marker env (pl_pane plan)
                      \<lparr>pm_harness = h, pm_generation = g, pm_fingerprint = pl_fingerprint plan, pm_phase = Claimed\<rparr> w1
                in if \<not> claimed then (True, k1, w2)
                   else let (advanced, w3) = advance_sequence env (pl_pane plan) w2
                     in if \<not> advanced then (False, k1, w3)
                        else let (r, w4) = ask (en_reply env) w3;
                                 w5 = w4\<lparr>up_respawns := up_respawns w4 @
                                   [\<lparr>rs_harness = h, rs_generation = g, rs_plan = plan, rs_marker = marker, rs_observed = obs\<rparr>]\<rparr>
                             in if r = Done then (False, k1\<lparr>wk_respawned := True\<rparr>, clear_marker env (pl_pane plan) w5)
                                else (False, k1, w5))"

definition process_plan ::
  "update_env \<Rightarrow> nat \<Rightarrow> harness \<Rightarrow> nat \<Rightarrow> planned_pane \<Rightarrow> walk \<Rightarrow> update_world \<Rightarrow> bool \<times> walk \<times> update_world" where
  "process_plan env limit h g plan k w =
     (let pane = pl_pane plan; (locked, w1) = lock_pane env w
      in if \<not> locked then (True, k, w1)
         else let (fresh, w2) = fresh_session env pane w1;
                  (readable, w3) = ask (en_ok env) w2
              in if \<not> readable \<or> (up_markers w3 pane \<noteq> None \<and> pending_parse (the (up_markers w3 pane)) = None)
                 then (True, k, w3)
                 else let marker = Option.bind (up_markers w3 pane) pending_parse;
                          (q, w4) = read_sequence env pane w3;
                          obs = observe_pane h plan fresh q
                      in (case pane_action plan marker obs h g of
                            Materialize_ready \<Rightarrow>
                              (True, k, snd (set_marker env pane
                                \<lparr>pm_harness = h, pm_generation = g, pm_fingerprint = pl_fingerprint plan, pm_phase = Ready\<rparr> w4))
                          | Defer \<Rightarrow> (True, k, w4)
                          | Forget \<Rightarrow>
                              (False, k, if map_option pm_phase marker = Some Ready then clear_marker env pane w4 else w4)
                          | Already_claimed \<Rightarrow> (False, k, w4)
                          | Claim_before_respawn \<Rightarrow> claim_and_respawn env limit h g plan marker obs k w4))"

fun process_plans ::
  "update_env \<Rightarrow> nat \<Rightarrow> harness \<Rightarrow> nat \<Rightarrow> planned_pane list \<Rightarrow> walk \<Rightarrow> update_world \<Rightarrow> planned_pane list \<times> walk \<times> update_world" where
  "process_plans env limit h g [] k w = ([], k, w)"
| "process_plans env limit h g (plan # plans) k w =
     (let (keep, k1, w1) = process_plan env limit h g plan k w;
          (remaining, k2, w2) = process_plans env limit h g plans k1 w1
      in (if keep then plan # remaining else remaining, k2, w2))"

text \<open>One harness: without a known launcher its plans wait.\<close>

definition process_harness ::
  "update_env \<Rightarrow> nat \<Rightarrow> harness \<Rightarrow> maintenance \<Rightarrow> walk \<Rightarrow> update_world \<Rightarrow> maintenance \<times> walk \<times> update_world" where
  "process_harness env limit h ms k w =
     (case m_harnesses ms h of
        None \<Rightarrow> (ms, k, w)
      | Some hs \<Rightarrow>
          if h_after hs = None \<and> h_applied hs = None then (ms, k, w)
          else let (remaining, k1, w1) = process_plans env limit h (h_generation hs) (h_pending hs) k w
            in (harness_mut h (\<lambda>s. s\<lparr>h_pending := remaining\<rparr>) ms, k1, w1))"

text \<open>\<open>process_cli_update_candidates_blocking\<close>\<close>

definition process_pending ::
  "update_env \<Rightarrow> nat \<Rightarrow> maintenance \<Rightarrow> update_world \<Rightarrow> maintenance \<times> bool \<times> update_world" where
  "process_pending env limit ms w =
     (let (ms1, k1, w1) = process_harness env limit Claude_cli ms \<lparr>wk_attempts = 0, wk_respawned = False\<rparr> w;
          (ms2, k2, w2) = process_harness env limit Codex_cli ms1 k1 w1
      in (ms2, wk_respawned k2, w2))"

section \<open>The cycle\<close>

record cycle_settings =
  cs_now :: nat
  cs_interval :: nat
  cs_limit :: nat

datatype cycle_error = Not_stored | Worker_failed | Not_loaded

definition unavailable :: "harness \<Rightarrow> string" where
  "unavailable h = harness_name h @ '' native launcher is unavailable''"

definition baseline_harness :: "update_env \<Rightarrow> harness \<Rightarrow> maintenance \<Rightarrow> update_world \<Rightarrow> maintenance \<times> update_world" where
  "baseline_harness env h ms w =
     (let (r, w1) = ask (\<lambda>n. en_inspect env n h) w
      in (case r of
            Inr (Some i) \<Rightarrow> harness_mut h (reconcile i None) ms
          | Inr None \<Rightarrow> harness_fail h (unavailable h) ms
          | Inl e \<Rightarrow> harness_fail h e ms, w1))"

fun establish_baselines :: "update_env \<Rightarrow> harness list \<Rightarrow> maintenance \<Rightarrow> update_world \<Rightarrow> maintenance \<times> update_world" where
  "establish_baselines env [] ms w = (ms, w)"
| "establish_baselines env (h # hs) ms w = (let (ms1, w1) = baseline_harness env h ms w in establish_baselines env hs ms1 w1)"

definition reconcile_update ::
  "update_env \<Rightarrow> harness \<Rightarrow> string + exe_identity \<Rightarrow> maintenance \<Rightarrow> update_world \<Rightarrow> maintenance \<times> update_world" where
  "reconcile_update env h result ms w =
     (case result of
        Inr after \<Rightarrow> (harness_mut h (reconcile after None) ms, w)
      | Inl e \<Rightarrow>
          let (r, w1) = ask (\<lambda>n. en_inspect env n h) w
          in (case r of Inr (Some i) \<Rightarrow> harness_mut h (reconcile i (Some e)) ms | _ \<Rightarrow> harness_fail h e ms, w1))"

text \<open>The updater runs after the intent is stored; what it left is stored after that.\<close>

definition run_updater :: "update_env \<Rightarrow> harness \<Rightarrow> exe_identity \<Rightarrow> update_world \<Rightarrow> (string + exe_identity) \<times> update_world" where
  "run_updater env h before w =
     ask (\<lambda>n. en_update env n h before) (w\<lparr>up_invocations := up_invocations w @ [(h, before, up_file w)]\<rparr>)"

definition update_harness ::
  "update_env \<Rightarrow> harness \<Rightarrow> maintenance \<Rightarrow> update_world \<Rightarrow> (cycle_error + maintenance) \<times> update_world" where
  "update_harness env h ms w =
     (let (r, w1) = ask (\<lambda>n. en_inspect env n h) w
      in case r of
           Inl e \<Rightarrow> (Inr (harness_fail h e ms), w1)
         | Inr None \<Rightarrow> (Inr (harness_fail h (unavailable h) ms), w1)
         | Inr (Some before) \<Rightarrow>
             (let (c, w2) = collect env h (ei_path before) w1
              in case c of
                   None \<Rightarrow> (Inr (harness_fail h ''CLI update candidate preflight panicked'' ms), w2)
                 | Some candidates \<Rightarrow>
                     (let ms1 = harness_mut h (prepare_intent before candidates) ms;
                          (stored, w3) = persist env ms1 w2
                      in if \<not> stored then (Inl Not_stored, w3)
                         else let (result, w4) = run_updater env h before w3;
                                  (ms2, w5) = reconcile_update env h result ms1 w4;
                                  (stored2, w6) = persist env ms2 w5
                              in if \<not> stored2 then (Inl Not_stored, w6) else (Inr ms2, w6))))"

fun run_due_updates ::
  "update_env \<Rightarrow> harness list \<Rightarrow> maintenance \<Rightarrow> update_world \<Rightarrow> (cycle_error + maintenance) \<times> update_world" where
  "run_due_updates env [] ms w = (Inr ms, w)"
| "run_due_updates env (h # hs) ms w =
     (let (r, w1) = update_harness env h ms w
      in case r of Inl e \<Rightarrow> (Inl e, w1) | Inr ms1 \<Rightarrow> run_due_updates env hs ms1 w1)"

definition recover_harness :: "update_env \<Rightarrow> harness \<Rightarrow> maintenance \<Rightarrow> update_world \<Rightarrow> maintenance \<times> update_world" where
  "recover_harness env h ms w =
     (if h_intent (harness_of ms h) = None then (ms, w)
      else let (r, w1) = ask (\<lambda>n. en_inspect env n h) w
        in (case r of
              Inr (Some i) \<Rightarrow> harness_mut h (reconcile i (Some ''recovered an interrupted update intent'')) ms
            | Inr None \<Rightarrow> ms
            | Inl e \<Rightarrow> harness_fail h e ms, w1))"

fun recover_intents :: "update_env \<Rightarrow> harness list \<Rightarrow> maintenance \<Rightarrow> update_world \<Rightarrow> maintenance \<times> update_world" where
  "recover_intents env [] ms w = (ms, w)"
| "recover_intents env (h # hs) ms w = (let (ms1, w1) = recover_harness env h ms w in recover_intents env hs ms1 w1)"

definition before_recovery ::
  "update_env \<Rightarrow> cycle_settings \<Rightarrow> maintenance \<Rightarrow> update_world \<Rightarrow> (cycle_error + maintenance) \<times> update_world" where
  "before_recovery env s ms w =
     (if m_last_check ms = None
      then (let (ms1, w1) = establish_baselines env all_harnesses (ms\<lparr>m_last_check := Some (cs_now s)\<rparr>) w in (Inr ms1, w1))
      else if check_due (m_last_check ms) (cs_now s) (cs_interval s)
      then run_due_updates env all_harnesses (ms\<lparr>m_last_check := Some (cs_now s)\<rparr>) w
      else (Inr ms, w))"

definition run_maintenance_cycle ::
  "update_env \<Rightarrow> cycle_settings \<Rightarrow> maintenance \<Rightarrow> update_world \<Rightarrow> (cycle_error + maintenance \<times> bool) \<times> update_world" where
  "run_maintenance_cycle env s ms w =
     (let (r, w1) = before_recovery env s ms w
      in case r of
           Inl e \<Rightarrow> (Inl e, w1)
         | Inr ms1 \<Rightarrow>
             (let (ms2, w2) = recover_intents env all_harnesses ms1 w1;
                  (ms3, resumed, w3) = process_pending env (cs_limit s) ms2 w2;
                  (joined, w4) = ask (en_ok env) w3
              in if \<not> joined then (Inl Worker_failed, w4)
                 else let (stored, w5) = persist env ms3 w4
                   in if stored then (Inr (ms3, resumed), w5) else (Inl Not_stored, w5)))"

text \<open>\<open>OwnerLock::load\<close>: a state this build cannot read is moved aside.\<close>

definition load_state :: "update_env \<Rightarrow> update_world \<Rightarrow> (cycle_error + maintenance) \<times> update_world" where
  "load_state env w =
     (case up_file w of
        None \<Rightarrow> (Inr maintenance_default, w)
      | Some ms \<Rightarrow>
          (let (fault, w1) = ask (en_load env) w
           in case fault of
                No_fault \<Rightarrow> (Inr ms, w1)
              | Unreadable \<Rightarrow> (Inl Not_loaded, w1)
              | Corrupt \<Rightarrow>
                  (let (moved, w2) = ask (en_reply env) w1
                   in (if moved = Done then Inr maintenance_default else Inl Not_loaded,
                       if tmux_applied moved then w2\<lparr>up_file := None, up_history := up_history w2 @ [None]\<rparr> else w2))))"

text \<open>\<open>maintenance_once\<close>: the second process on the machine does nothing.\<close>

definition maintenance_once :: "update_env \<Rightarrow> cycle_settings \<Rightarrow> update_world \<Rightarrow> update_world" where
  "maintenance_once env s w =
     (let (owner, w1) = ask (en_owner env) w
      in if \<not> owner then w1
         else let (r, w2) = load_state env w1
           in case r of Inl e \<Rightarrow> w2 | Inr ms \<Rightarrow> snd (run_maintenance_cycle env s ms w2))"

definition update_start :: update_world where
  "update_start = \<lparr>up_clock = 0, up_file = None, up_history = [], up_markers = (\<lambda>_. None), up_sequence = (\<lambda>_. 0),
     up_invocations = [], up_respawns = []\<rparr>"

definition maintenance_run :: "update_env \<Rightarrow> cycle_settings list \<Rightarrow> update_world" where
  "maintenance_run env ss = fold (maintenance_once env) ss update_start"

end
