(* ===== verification/Cli_Restarts.thy ===== *)
theory Cli_Restarts
  imports Cli_Update
begin

text \<open>
  What the update cycle guarantees: a planned pane is restarted at most once and only as it was planned,
  never more panes than allowed in one cycle, every updater runs behind a stored intent, and
  the stored generation counts the changes of the stored launcher.
\<close>

section \<open>Restarts\<close>

text \<open>The restart that follows from an observation and a marker.\<close>

definition respawn_justified :: "respawn \<Rightarrow> bool" where
  "respawn_justified r \<longleftrightarrow>
     po_exists (rs_observed r) \<and> \<not> po_stale (rs_observed r) \<and> po_idle (rs_observed r)
     \<and> po_fingerprint (rs_observed r) = Some (pl_fingerprint (rs_plan r))
     \<and> po_sequence (rs_observed r) = Some (pl_sequence (rs_plan r))
     \<and> rs_marker r = Some \<lparr>pm_harness = rs_harness r, pm_generation = rs_generation r,
         pm_fingerprint = pl_fingerprint (rs_plan r), pm_phase = Ready\<rparr>"

definition respawn_key :: "respawn \<Rightarrow> string \<times> nat" where
  "respawn_key r = (pl_pane (rs_plan r), pl_sequence (rs_plan r))"

definition respawns_ok :: "update_world \<Rightarrow> bool" where
  "respawns_ok w \<longleftrightarrow> distinct (map respawn_key (up_respawns w)) \<and> list_all respawn_justified (up_respawns w)
     \<and> (\<forall>r \<in> set (up_respawns w). pl_sequence (rs_plan r) < up_sequence w (pl_pane (rs_plan r)))
     \<and> (\<forall>p. up_sequence w p \<le> u64_max)"

text \<open>Everything but a restart leaves the log alone, and no sequence goes back.\<close>

definition grows :: "update_world \<Rightarrow> update_world \<Rightarrow> bool" where
  "grows w w' \<longleftrightarrow> up_respawns w' = up_respawns w
     \<and> (\<forall>p. up_sequence w p \<le> u64_max \<longrightarrow> up_sequence w p \<le> up_sequence w' p \<and> up_sequence w' p \<le> u64_max)"

definition same_file :: "update_world \<Rightarrow> update_world \<Rightarrow> bool" where
  "same_file w w' \<longleftrightarrow> up_file w' = up_file w \<and> up_history w' = up_history w \<and> up_invocations w' = up_invocations w"

lemma grows_refl [simp, intro]: "grows w w"
  and grows_trans: "grows w w' \<Longrightarrow> grows w' w'' \<Longrightarrow> grows w w''"
  unfolding grows_def by (auto intro: order_trans)

lemma same_file_refl [simp, intro]: "same_file w w"
  and same_file_trans: "same_file w w' \<Longrightarrow> same_file w' w'' \<Longrightarrow> same_file w w''"
  unfolding same_file_def by auto

lemma grows_ok:
  assumes "respawns_ok w" and "grows w w'"
  shows "respawns_ok w'"
  using assms unfolding respawns_ok_def grows_def by (auto intro: less_le_trans)

lemma ask_frame: "grows w (snd (ask f w))" "same_file w (snd (ask f w))"
  by (simp_all add: ask_def grows_def same_file_def)

lemma lock_pane_frame: "grows w (snd (lock_pane env w))" "same_file w (snd (lock_pane env w))"
  by (simp_all add: lock_pane_def ask_def grows_def same_file_def)

lemma set_marker_frame:
  "grows w (snd (set_marker env p m w))" "same_file w (snd (set_marker env p m w))"
  "up_sequence (snd (set_marker env p m w)) = up_sequence w"
  by (simp_all add: set_marker_def ask_def grows_def same_file_def Let_def)

lemma clear_marker_frame: "grows w (clear_marker env p w)" "same_file w (clear_marker env p w)"
  by (simp_all add: clear_marker_def ask_def grows_def same_file_def Let_def)

lemma read_sequence_frame:
  "grows w (snd (read_sequence env p w))" "same_file w (snd (read_sequence env p w))"
  "up_sequence (snd (read_sequence env p w)) = up_sequence w"
  "fst (read_sequence env p w) = Some n \<Longrightarrow> n = up_sequence w p"
  by (auto simp: read_sequence_def ask_def grows_def same_file_def Let_def split: if_splits)

lemma advance_sequence_frame:
  "grows w (snd (advance_sequence env p w))" "same_file w (snd (advance_sequence env p w))"
  "fst (advance_sequence env p w) \<Longrightarrow> up_sequence (snd (advance_sequence env p w)) p = up_sequence w p + 1"
  by (auto simp: advance_sequence_def read_sequence_def ask_def grows_def same_file_def Let_def tmux_applied_def
      split: if_splits option.splits)

text \<open>The frame of a step that was bound to a name.\<close>

lemma ask_frameD: "ask f w = (x, w') \<Longrightarrow> grows w w' \<and> same_file w w' \<and> up_sequence w' = up_sequence w"
  by (auto simp: ask_def grows_def same_file_def)

lemma fresh_session_frameD: "fresh_session env p w = (x, w') \<Longrightarrow> grows w w' \<and> same_file w w' \<and> up_sequence w' = up_sequence w"
  by (auto simp: fresh_session_def ask_def grows_def same_file_def)

lemma lock_pane_frameD: "lock_pane env w = (x, w') \<Longrightarrow> grows w w' \<and> same_file w w'"
  using lock_pane_frame [where w = w and env = env] by simp

lemma set_marker_frameD: "set_marker env p m w = (x, w') \<Longrightarrow> grows w w' \<and> same_file w w' \<and> up_sequence w' = up_sequence w"
  using set_marker_frame [where w = w and env = env and p = p and m = m] by simp

lemma read_sequence_frameD:
  "read_sequence env p w = (x, w') \<Longrightarrow> grows w w' \<and> same_file w w' \<and> up_sequence w' = up_sequence w
    \<and> (\<forall>n. x = Some n \<longrightarrow> n = up_sequence w p)"
  using read_sequence_frame [where w = w and env = env and p = p] by simp

lemma advance_sequence_frameD:
  "advance_sequence env p w = (x, w') \<Longrightarrow> grows w w' \<and> same_file w w' \<and> (x \<longrightarrow> up_sequence w' p = up_sequence w p + 1)"
  using advance_sequence_frame [where w = w and env = env and p = p] by simp

lemma claim_decided:
  assumes "pane_action plan marker obs h g = Claim_before_respawn"
  shows "respawn_justified \<lparr>rs_harness = h, rs_generation = g, rs_plan = plan, rs_marker = marker, rs_observed = obs\<rparr>"
  using assms unfolding pane_action_def respawn_justified_def marker_expected_def
  by (auto split: if_splits option.splits marker_phase.splits)

text \<open>A restart is logged after the sequence of its pane has moved past the planned one.\<close>

lemma log_respawn_ok:
  assumes ok: "respawns_ok w" and just: "respawn_justified r"
    and planned: "up_sequence w (pl_pane (rs_plan r)) = pl_sequence (rs_plan r)"
    and g: "grows w w'" and adv: "up_sequence w' (pl_pane (rs_plan r)) = pl_sequence (rs_plan r) + 1"
  shows "respawns_ok (w'\<lparr>up_respawns := up_respawns w' @ [r]\<rparr>)"
proof -
  have ok': "respawns_ok w'" by (rule grows_ok [OF ok g])
  have "respawn_key r \<notin> set (map respawn_key (up_respawns w))"
  proof
    assume "respawn_key r \<in> set (map respawn_key (up_respawns w))"
    then obtain s where s: "s \<in> set (up_respawns w)" "respawn_key s = respawn_key r" by auto
    then have "pl_sequence (rs_plan s) < up_sequence w (pl_pane (rs_plan s))" using ok by (auto simp: respawns_ok_def)
    then show False using s(2) planned by (simp add: respawn_key_def)
  qed
  then have "respawn_key r \<notin> set (map respawn_key (up_respawns w'))" using g by (simp add: grows_def)
  then show ?thesis using ok' just adv unfolding respawns_ok_def by auto
qed

lemma claim_and_respawn_ok:
  assumes ok: "respawns_ok w"
    and just: "respawn_justified \<lparr>rs_harness = h, rs_generation = g, rs_plan = plan, rs_marker = marker, rs_observed = obs\<rparr>"
    and planned: "up_sequence w (pl_pane plan) = pl_sequence plan"
    and res: "claim_and_respawn env limit h g plan marker obs k w = (keep, k', w')"
  shows "respawns_ok w'"
proof -
  let ?r = "\<lparr>rs_harness = h, rs_generation = g, rs_plan = plan, rs_marker = marker, rs_observed = obs\<rparr>"
  let ?m = "\<lparr>pm_harness = h, pm_generation = g, pm_fingerprint = pl_fingerprint plan, pm_phase = Claimed\<rparr>"
  obtain scope w1 where 1: "ask (en_ok env) w = (scope, w1)" by (rule prod.exhaust)
  obtain claimed w2 where 2: "set_marker env (pl_pane plan) ?m w1 = (claimed, w2)" by (rule prod.exhaust)
  obtain advanced w3 where 3: "advance_sequence env (pl_pane plan) w2 = (advanced, w3)" by (rule prod.exhaust)
  obtain reply w4 where 4: "ask (en_reply env) w3 = (reply, w4)" by (rule prod.exhaust)
  note f = ask_frameD [OF 1] set_marker_frameD [OF 2] advance_sequence_frameD [OF 3] ask_frameD [OF 4]
  have g1: "grows w w1" and g2: "grows w w2" and g3: "grows w w3" and g4: "grows w w4"
    using f by (blast intro: grows_trans)+
  have logged: "respawns_ok (w4\<lparr>up_respawns := up_respawns w4 @ [?r]\<rparr>)" if "advanced"
  proof (rule log_respawn_ok [OF ok just _ g4])
    show "up_sequence w (pl_pane (rs_plan ?r)) = pl_sequence (rs_plan ?r)" using planned by simp
    show "up_sequence w4 (pl_pane (rs_plan ?r)) = pl_sequence (rs_plan ?r) + 1" using f that planned by simp
  qed
  have "w' \<in> {w, w1, w2, w3} \<or> advanced \<and> (w' = w4\<lparr>up_respawns := up_respawns w4 @ [?r]\<rparr>
      \<or> w' = clear_marker env (pl_pane plan) (w4\<lparr>up_respawns := up_respawns w4 @ [?r]\<rparr>))"
    using res unfolding claim_and_respawn_def by (auto simp: Let_def 1 2 3 4 split: if_splits)
  then show ?thesis
    using ok logged grows_ok [OF ok g1] grows_ok [OF ok g2] grows_ok [OF ok g3] grows_ok [OF logged clear_marker_frame(1)] by auto
qed

text \<open>What a walk over plans keeps: the restarts in order, the file alone, the attempts counted.\<close>

definition walk_ok :: "nat \<Rightarrow> walk \<Rightarrow> update_world \<Rightarrow> walk \<Rightarrow> update_world \<Rightarrow> bool" where
  "walk_ok limit k w k' w' \<longleftrightarrow> (respawns_ok w \<longrightarrow> respawns_ok w') \<and> same_file w w'
     \<and> (wk_attempts k \<le> limit \<longrightarrow> wk_attempts k' \<le> limit)
     \<and> length (up_respawns w') + wk_attempts k \<le> length (up_respawns w) + wk_attempts k'"

lemma walk_ok_trans: "walk_ok limit k w k' w' \<Longrightarrow> walk_ok limit k' w' k'' w'' \<Longrightarrow> walk_ok limit k w k'' w''"
  unfolding walk_ok_def by (auto intro: same_file_trans)

lemma walk_ok_frame: "grows w w' \<Longrightarrow> same_file w w' \<Longrightarrow> walk_ok limit k w k w'"
  unfolding walk_ok_def by (auto intro: grows_ok simp: grows_def)

lemma claim_walk:
  assumes "respawn_justified \<lparr>rs_harness = h, rs_generation = g, rs_plan = plan, rs_marker = marker, rs_observed = obs\<rparr>"
    and "up_sequence w (pl_pane plan) = pl_sequence plan"
    and res: "claim_and_respawn env limit h g plan marker obs k w = (keep, k', w')"
  shows "walk_ok limit k w k' w'"
proof -
  let ?r = "\<lparr>rs_harness = h, rs_generation = g, rs_plan = plan, rs_marker = marker, rs_observed = obs\<rparr>"
  let ?m = "\<lparr>pm_harness = h, pm_generation = g, pm_fingerprint = pl_fingerprint plan, pm_phase = Claimed\<rparr>"
  obtain scope w1 where 1: "ask (en_ok env) w = (scope, w1)" by (rule prod.exhaust)
  obtain claimed w2 where 2: "set_marker env (pl_pane plan) ?m w1 = (claimed, w2)" by (rule prod.exhaust)
  obtain advanced w3 where 3: "advance_sequence env (pl_pane plan) w2 = (advanced, w3)" by (rule prod.exhaust)
  obtain reply w4 where 4: "ask (en_reply env) w3 = (reply, w4)" by (rule prod.exhaust)
  let ?w5 = "w4\<lparr>up_respawns := up_respawns w4 @ [?r]\<rparr>"
  note f = ask_frameD [OF 1] set_marker_frameD [OF 2] advance_sequence_frameD [OF 3] ask_frameD [OF 4]
  have same: "same_file w w1" "same_file w w2" "same_file w w3" "same_file w w4" using f by (blast intro: same_file_trans)+
  have same5: "same_file w ?w5" using same(4) by (simp add: same_file_def)
  have len: "up_respawns w1 = up_respawns w" "up_respawns w2 = up_respawns w" "up_respawns w3 = up_respawns w"
    "up_respawns w4 = up_respawns w" using f by (simp_all add: grows_def)
  have clr: "same_file w (clear_marker env (pl_pane plan) ?w5)"
    "up_respawns (clear_marker env (pl_pane plan) ?w5) = up_respawns ?w5"
    using same_file_trans [OF same5 clear_marker_frame(2)] clear_marker_frame(1) [where w = ?w5] by (auto simp: grows_def)
  have "same_file w w' \<and> (wk_attempts k \<le> limit \<longrightarrow> wk_attempts k' \<le> limit)
     \<and> length (up_respawns w') + wk_attempts k \<le> length (up_respawns w) + wk_attempts k'"
    using res same same5 clr len unfolding claim_and_respawn_def by (auto simp: Let_def 1 2 3 4 split: if_splits)
  then show ?thesis using claim_and_respawn_ok [OF _ assms] unfolding walk_ok_def by blast
qed

lemma process_plan_walk:
  assumes res: "process_plan env limit h g plan k w = (keep, k', w')"
  shows "walk_ok limit k w k' w'"
proof -
  let ?p = "pl_pane plan"
  obtain locked w1 where 1: "lock_pane env w = (locked, w1)" by (rule prod.exhaust)
  obtain fresh w2 where 2: "fresh_session env ?p w1 = (fresh, w2)" by (rule prod.exhaust)
  obtain readable w3 where 3: "ask (en_ok env) w2 = (readable, w3)" by (rule prod.exhaust)
  obtain q w4 where 4: "read_sequence env ?p w3 = (q, w4)" by (rule prod.exhaust)
  note f = lock_pane_frameD [OF 1] fresh_session_frameD [OF 2] ask_frameD [OF 3] read_sequence_frameD [OF 4]
  let ?marker = "Option.bind (up_markers w3 ?p) pending_parse"
  let ?obs = "observe_pane h plan fresh q"
  let ?ready = "\<lparr>pm_harness = h, pm_generation = g, pm_fingerprint = pl_fingerprint plan, pm_phase = Ready\<rparr>"
  have w1: "walk_ok limit k w k w1" using f by (blast intro: walk_ok_frame)
  have w3: "walk_ok limit k w k w3" using f by (blast intro: walk_ok_frame grows_trans same_file_trans)
  have w4: "walk_ok limit k w k w4" using f by (blast intro: walk_ok_frame grows_trans same_file_trans)
  have ready: "walk_ok limit k w k (snd (set_marker env ?p ?ready w4))"
    by (rule walk_ok_trans [OF w4 walk_ok_frame]) (rule set_marker_frame)+
  have clear: "walk_ok limit k w k (clear_marker env ?p w4)"
    by (rule walk_ok_trans [OF w4 walk_ok_frame]) (rule clear_marker_frame)+
  have claim: "walk_ok limit k w k' w'"
    if a: "pane_action plan ?marker ?obs h g = Claim_before_respawn"
      and c: "claim_and_respawn env limit h g plan ?marker ?obs k w4 = (keep, k', w')"
  proof (rule walk_ok_trans [OF w4 claim_walk [OF claim_decided [OF a] _ c]])
    have "q = Some (pl_sequence plan)" using claim_decided [OF a] by (simp add: respawn_justified_def observe_pane_def)
    then show "up_sequence w4 ?p = pl_sequence plan" using f by simp
  qed
  show ?thesis
  proof (cases "locked \<and> readable \<and> \<not> (up_markers w3 ?p \<noteq> None \<and> pending_parse (the (up_markers w3 ?p)) = None)")
    case False
    then have "(k', w') = (k, w1) \<or> (k', w') = (k, w3)"
      using res unfolding process_plan_def by (auto simp: Let_def 1 2 3 split: if_splits)
    then show ?thesis using w1 w3 by auto
  next
    case True
    then have c: "(\<not> locked) = False"
      "(\<not> readable \<or> (up_markers w3 ?p \<noteq> None \<and> pending_parse (the (up_markers w3 ?p)) = None)) = False" by blast+
    have "(case pane_action plan ?marker ?obs h g of
          Materialize_ready \<Rightarrow> (True, k, snd (set_marker env ?p ?ready w4))
        | Defer \<Rightarrow> (True, k, w4)
        | Forget \<Rightarrow> (False, k, if map_option pm_phase ?marker = Some Ready then clear_marker env ?p w4 else w4)
        | Already_claimed \<Rightarrow> (False, k, w4)
        | Claim_before_respawn \<Rightarrow> claim_and_respawn env limit h g plan ?marker ?obs k w4) = (keep, k', w')"
      using res by (simp only: process_plan_def Let_def 1 2 3 4 prod.case c if_False)
    then show ?thesis using w4 ready clear claim by (cases "pane_action plan ?marker ?obs h g") (auto split: if_splits)
  qed
qed

lemma process_plans_walk: "process_plans env limit h g plans k w = (rem, k', w') \<Longrightarrow> walk_ok limit k w k' w'"
proof (induction plans arbitrary: k w rem k' w')
  case Nil
  then show ?case by (simp add: walk_ok_frame)
next
  case (Cons plan plans)
  obtain keep k1 w1 where 1: "process_plan env limit h g plan k w = (keep, k1, w1)" by (metis prod.exhaust)
  obtain rem2 k2 w2 where 2: "process_plans env limit h g plans k1 w1 = (rem2, k2, w2)" by (metis prod.exhaust)
  have "k' = k2" "w' = w2" using Cons.prems by (simp_all add: 1 2)
  then show ?case using walk_ok_trans [OF process_plan_walk [OF 1] Cons.IH [OF 2]] by simp
qed

lemma process_harness_walk: "process_harness env limit h ms k w = (ms', k', w') \<Longrightarrow> walk_ok limit k w k' w'"
  unfolding process_harness_def
  by (auto simp: Let_def walk_ok_frame dest: process_plans_walk split: option.splits if_splits prod.splits)

lemma process_pending_walk:
  assumes "process_pending env limit ms w = (ms', resumed, w')"
  shows "respawns_ok w \<Longrightarrow> respawns_ok w'" and "same_file w w'"
    and "length (up_respawns w') \<le> length (up_respawns w) + limit"
proof -
  obtain ms1 k1 w1 where 1: "process_harness env limit Claude_cli ms \<lparr>wk_attempts = 0, wk_respawned = False\<rparr> w = (ms1, k1, w1)"
    by (metis prod.exhaust)
  obtain ms2 k2 w2 where 2: "process_harness env limit Codex_cli ms1 k1 w1 = (ms2, k2, w2)" by (metis prod.exhaust)
  have "walk_ok limit \<lparr>wk_attempts = 0, wk_respawned = False\<rparr> w k2 w2"
    by (rule walk_ok_trans [OF process_harness_walk [OF 1] process_harness_walk [OF 2]])
  moreover have "w' = w2" using assms by (simp add: process_pending_def 1 2)
  ultimately show "respawns_ok w \<Longrightarrow> respawns_ok w'" and "same_file w w'"
    and "length (up_respawns w') \<le> length (up_respawns w) + limit"
    unfolding walk_ok_def by auto
qed

section \<open>The cycle around the restarts\<close>

lemma persist_grows: "persist env ms w = (x, w') \<Longrightarrow> grows w w'"
  by (auto simp: persist_def ask_def grows_def Let_def)

lemma collect_panes_frame:
  "collect_panes env h l ps w = (c, w') \<Longrightarrow> grows w w' \<and> same_file w w'"
proof (induction ps arbitrary: w c w')
  case (Cons pane ps)
  obtain locked w1 where 1: "lock_pane env w = (locked, w1)" by (rule prod.exhaust)
  obtain pre w2 where 2: "ask (\<lambda>n. en_preflight env n h l pane) w1 = (pre, w2)" by (rule prod.exhaust)
  obtain q w3 where 3: "read_sequence env pane w2 = (q, w3)" by (rule prod.exhaust)
  note f = lock_pane_frameD [OF 1] ask_frameD [OF 2] read_sequence_frameD [OF 3]
  have "\<exists>v c'. collect_panes env h l ps v = (c', w') \<and> v \<in> {w1, w2, w3}"
    using Cons.prems by (auto simp: 1 2 3 Let_def split: if_splits option.splits prod.splits)
  then obtain v c' where v: "collect_panes env h l ps v = (c', w')" "v \<in> {w1, w2, w3}" by blast
  have "grows w v \<and> same_file w v" using v(2) f by (auto intro: grows_trans same_file_trans)
  then show ?case using Cons.IH [OF v(1)] by (blast intro: grows_trans same_file_trans)
qed simp

lemma collect_frame:
  assumes "collect env h l w = (c, w')"
  shows "grows w w' \<and> same_file w w'"
proof -
  obtain panes w1 where 1: "ask (\<lambda>n. en_panes env n h) w = (panes, w1)" by (rule prod.exhaust)
  obtain planned w2 where 2: "collect_panes env h l panes w1 = (planned, w2)" by (rule prod.exhaust)
  obtain joined w3 where 3: "ask (en_ok env) w2 = (joined, w3)" by (rule prod.exhaust)
  have "w' = w3" using assms by (simp add: collect_def 1 2 3)
  then show ?thesis using ask_frameD [OF 1] collect_panes_frame [OF 2] ask_frameD [OF 3]
    by (blast intro: grows_trans same_file_trans)
qed

lemma baseline_frame: "baseline_harness env h ms w = (ms', w') \<Longrightarrow> grows w w' \<and> same_file w w'"
  by (auto simp: baseline_harness_def Let_def ask_def grows_def same_file_def)

lemma establish_frame: "establish_baselines env hs ms w = (ms', w') \<Longrightarrow> grows w w' \<and> same_file w w'"
proof (induction hs arbitrary: ms w)
  case (Cons h hs)
  obtain ms1 w1 where 1: "baseline_harness env h ms w = (ms1, w1)" by (rule prod.exhaust)
  show ?case using Cons.prems Cons.IH baseline_frame [OF 1] by (auto simp: 1 intro: grows_trans same_file_trans)
qed simp

lemma reconcile_update_frame: "reconcile_update env h r ms w = (ms', w') \<Longrightarrow> grows w w' \<and> same_file w w'"
  by (auto simp: reconcile_update_def Let_def ask_def grows_def same_file_def split: sum.splits)

lemma recover_frame: "recover_harness env h ms w = (ms', w') \<Longrightarrow> grows w w' \<and> same_file w w'"
  by (auto simp: recover_harness_def Let_def ask_def grows_def same_file_def split: if_splits)

lemma recover_intents_frame: "recover_intents env hs ms w = (ms', w') \<Longrightarrow> grows w w' \<and> same_file w w'"
proof (induction hs arbitrary: ms w)
  case (Cons h hs)
  obtain ms1 w1 where 1: "recover_harness env h ms w = (ms1, w1)" by (rule prod.exhaust)
  show ?case using Cons.prems Cons.IH recover_frame [OF 1] by (auto simp: 1 intro: grows_trans same_file_trans)
qed simp

lemma run_updater_grows: "run_updater env h b w = (r, w') \<Longrightarrow> grows w w'"
  by (auto simp: run_updater_def ask_def grows_def)

lemma update_harness_grows:
  assumes "update_harness env h ms w = (r, w')"
  shows "grows w w'"
proof -
  obtain i w1 where 1: "ask (\<lambda>n. en_inspect env n h) w = (i, w1)" by (rule prod.exhaust)
  have g1: "grows w w1" using ask_frameD [OF 1] by blast
  show ?thesis
  proof (cases "\<exists>b. i = Inr (Some b)")
    case False
    then have "w' = w1" using assms by (auto simp: update_harness_def 1 split: sum.splits option.splits)
    then show ?thesis using g1 by simp
  next
    case True
    then obtain b where b: "i = Inr (Some b)" by blast
    obtain c w2 where 2: "collect env h (ei_path b) w1 = (c, w2)" by (rule prod.exhaust)
    have g2: "grows w w2" using g1 collect_frame [OF 2] by (blast intro: grows_trans)
    show ?thesis
    proof (cases c)
      case None
      then show ?thesis using assms g2 by (simp add: update_harness_def 1 2 b)
    next
      case (Some cs)
      let ?ms1 = "harness_mut h (prepare_intent b cs) ms"
      obtain stored w3 where 3: "persist env ?ms1 w2 = (stored, w3)" by (rule prod.exhaust)
      obtain res w4 where 4: "run_updater env h b w3 = (res, w4)" by (rule prod.exhaust)
      obtain ms2 w5 where 5: "reconcile_update env h res ?ms1 w4 = (ms2, w5)" by (rule prod.exhaust)
      obtain stored2 w6 where 6: "persist env ms2 w5 = (stored2, w6)" by (rule prod.exhaust)
      have "w' \<in> {w3, w6}" using assms by (auto simp: update_harness_def Let_def 1 2 3 4 5 6 b Some split: if_splits)
      then show ?thesis
        using g2 persist_grows [OF 3] run_updater_grows [OF 4] reconcile_update_frame [OF 5] persist_grows [OF 6]
        by (blast intro: grows_trans)
    qed
  qed
qed

lemma run_due_grows: "run_due_updates env hs ms w = (r, w') \<Longrightarrow> grows w w'"
proof (induction hs arbitrary: ms w)
  case (Cons h hs)
  obtain r1 w1 where 1: "update_harness env h ms w = (r1, w1)" by (rule prod.exhaust)
  show ?case using Cons.prems Cons.IH update_harness_grows [OF 1] by (auto simp: 1 intro: grows_trans split: sum.splits)
qed simp

lemma before_recovery_grows: "before_recovery env s ms w = (r, w') \<Longrightarrow> grows w w'"
  unfolding before_recovery_def
  by (auto simp: Let_def dest: establish_frame run_due_grows split: if_splits prod.splits)

lemma load_state_grows: "load_state env w = (r, w') \<Longrightarrow> grows w w'"
  by (auto simp: load_state_def Let_def ask_def grows_def split: option.splits load_fault.splits)

text \<open>A cycle: at most the allowed number of restarts, all of them in order.\<close>

lemma cycle_respawns:
  assumes "run_maintenance_cycle env s ms w = (r, w')"
  shows "(respawns_ok w \<longrightarrow> respawns_ok w') \<and> length (up_respawns w') \<le> length (up_respawns w) + cs_limit s"
proof -
  obtain r1 w1 where 1: "before_recovery env s ms w = (r1, w1)" by (rule prod.exhaust)
  have g1: "grows w w1" by (rule before_recovery_grows [OF 1])
  show ?thesis
  proof (cases r1)
    case (Inl e)
    then have "w' = w1" using assms by (simp add: run_maintenance_cycle_def 1)
    moreover have "up_respawns w1 = up_respawns w" using g1 by (simp add: grows_def)
    ultimately show ?thesis using grows_ok [OF _ g1] by simp
  next
    case (Inr ms1)
    obtain ms2 w2 where 2: "recover_intents env all_harnesses ms1 w1 = (ms2, w2)" by (rule prod.exhaust)
    obtain ms3 resumed w3 where 3: "process_pending env (cs_limit s) ms2 w2 = (ms3, resumed, w3)" by (metis prod.exhaust)
    obtain joined w4 where 4: "ask (en_ok env) w3 = (joined, w4)" by (rule prod.exhaust)
    obtain stored w5 where 5: "persist env ms3 w4 = (stored, w5)" by (rule prod.exhaust)
    have "w' \<in> {w4, w5}"
      using assms by (auto simp: run_maintenance_cycle_def Let_def 1 2 3 4 5 Inr split: if_splits)
    moreover have g: "grows w w2" "grows w3 w4" "grows w3 w5"
      using g1 recover_intents_frame [OF 2] ask_frameD [OF 4] persist_grows [OF 5] by (blast intro: grows_trans)+
    moreover have "up_respawns w2 = up_respawns w" "up_respawns w4 = up_respawns w3" "up_respawns w5 = up_respawns w3"
      using g by (simp_all add: grows_def)
    moreover have "respawns_ok w \<Longrightarrow> respawns_ok w3" by (rule process_pending_walk(1) [OF 3 grows_ok [OF _ g(1)]])
    moreover have "respawns_ok w3 \<Longrightarrow> respawns_ok w4" "respawns_ok w3 \<Longrightarrow> respawns_ok w5"
      using g grows_ok by blast+
    ultimately show ?thesis using process_pending_walk(3) [OF 3] by (elim insertE) simp_all
  qed
qed

lemma maintenance_once_respawns:
  "(respawns_ok w \<longrightarrow> respawns_ok (maintenance_once env s w))
   \<and> length (up_respawns (maintenance_once env s w)) \<le> length (up_respawns w) + cs_limit s"
proof -
  obtain owner w1 where 1: "ask (en_owner env) w = (owner, w1)" by (rule prod.exhaust)
  obtain r w2 where 2: "load_state env w1 = (r, w2)" by (rule prod.exhaust)
  have g: "grows w w1" "grows w w2" using ask_frameD [OF 1] load_state_grows [OF 2] by (blast intro: grows_trans)+
  then have len: "up_respawns w1 = up_respawns w" "up_respawns w2 = up_respawns w" by (simp_all add: grows_def)
  show ?thesis
  proof (cases "owner \<and> (\<exists>ms. r = Inr ms)")
    case False
    then have "maintenance_once env s w \<in> {w1, w2}" by (auto simp: maintenance_once_def 1 2 split: sum.splits)
    then show ?thesis using grows_ok [OF _ g(1)] grows_ok [OF _ g(2)] len by auto
  next
    case True
    then obtain ms where ms: "r = Inr ms" by blast
    obtain x w3 where 3: "run_maintenance_cycle env s ms w2 = (x, w3)" by (rule prod.exhaust)
    have "maintenance_once env s w = w3" using True ms by (simp add: maintenance_once_def 1 2 3)
    then show ?thesis using cycle_respawns [OF 3] grows_ok [OF _ g(2)] len by simp
  qed
qed

lemma maintenance_fold_respawns:
  "(respawns_ok w \<longrightarrow> respawns_ok (fold (maintenance_once env) ss w))
   \<and> length (up_respawns (fold (maintenance_once env) ss w)) \<le> length (up_respawns w) + sum_list (map cs_limit ss)"
proof (induction ss arbitrary: w)
  case (Cons s ss)
  show ?case using Cons.IH [of "maintenance_once env s w"] maintenance_once_respawns [of w env s] by simp
qed simp

lemma update_start_respawns: "respawns_ok update_start"
  by (simp add: respawns_ok_def update_start_def)

text \<open>
  C14. Over any number of cycles, with other writers, failing and ambiguous requests and processes that stop
  anywhere: a pane is restarted at most once for the plan made at a given mutation sequence; it was
  idle, unchanged since the plan and marked by an earlier pass; and there are never more restarts than
  the cycles allow together.
\<close>

theorem planned_pane_restarts_once:
  "distinct (map respawn_key (up_respawns (maintenance_run env ss)))
   \<and> list_all respawn_justified (up_respawns (maintenance_run env ss))
   \<and> length (up_respawns (maintenance_run env ss)) \<le> sum_list (map cs_limit ss)"
  using maintenance_fold_respawns [of update_start env ss] update_start_respawns
  unfolding maintenance_run_def respawns_ok_def by (auto simp: update_start_def)

end
