(* ===== verification/Cli_Generations.thy ===== *)
theory Cli_Generations
  imports Cli_Restarts
begin

text \<open>
  The state file over the cycles: every updater runs behind a stored intent, and from one stored state to
  the next the generation of a harness moves exactly when the launcher it applied has changed,
  also when processes stop between the two.
\<close>

section \<open>Steps of a harness\<close>

definition gen_step :: "harness_state \<Rightarrow> harness_state \<Rightarrow> bool" where
  "gen_step x y \<longleftrightarrow>
     (case h_applied x of
        None \<Rightarrow> h_generation y = h_generation x
      | Some i \<Rightarrow> (case h_applied y of
          None \<Rightarrow> False
        | Some j \<Rightarrow> h_generation y = advance_generation (h_generation x) (changed i j)))"

definition quiet :: "harness_state \<Rightarrow> harness_state \<Rightarrow> bool" where
  "quiet x y \<longleftrightarrow> h_generation y = h_generation x \<and> h_applied y = h_applied x"

definition intent_ok :: "harness_state \<Rightarrow> bool" where
  "intent_ok s \<longleftrightarrow> (case h_intent s of None \<Rightarrow> True | Some it \<Rightarrow> h_applied s = Some (ui_baseline it))"

lemma quiet_step: "quiet x y \<Longrightarrow> gen_step x y"
  by (auto simp: quiet_def gen_step_def changed_def advance_generation_def split: option.splits)

lemma harness_of_mut [simp]: "harness_of (harness_mut h f ms) h' = (if h' = h then f (harness_of ms h) else harness_of ms h')"
  by (simp add: harness_of_def harness_mut_def)

lemma last_check_mut [simp]: "m_last_check (harness_mut h f ms) = m_last_check ms"
  by (simp add: harness_mut_def)

lemma prepare_intent_step:
  "quiet x y \<Longrightarrow> gen_step x (prepare_intent b cs y)" "intent_ok (prepare_intent b cs y)"
  by (auto simp: quiet_def gen_step_def prepare_intent_def intent_ok_def Let_def changed_def advance_generation_def
      split: option.splits)

lemma prepare_intent_stored:
  "h_intent (prepare_intent b cs y) = Some it \<Longrightarrow> ui_before it = b" "h_intent (prepare_intent b cs y) \<noteq> None"
  by (auto simp: prepare_intent_def Let_def)

text \<open>A reconciled intent is one step of the generation; without an intent only a first baseline is set.\<close>

lemma reconcile_step:
  assumes "quiet x y" "intent_ok y" "h_intent y \<noteq> None"
  shows "gen_step x (reconcile i e y)"
  using assms by (auto simp: quiet_def gen_step_def reconcile_def intent_ok_def Let_def advance_generation_def
      split: option.splits)

lemma reconcile_clears: "h_intent (reconcile i e y) = None" "intent_ok (reconcile i e y)"
  by (auto simp: reconcile_def intent_ok_def Let_def split: option.splits)

section \<open>The file\<close>

definition history_step :: "maintenance option \<Rightarrow> maintenance option \<Rightarrow> bool" where
  "history_step a b \<longleftrightarrow>
     (case (a, b) of (Some x, Some y) \<Rightarrow> list_all (\<lambda>h. gen_step (harness_of x h) (harness_of y h)) all_harnesses | _ \<Rightarrow> True)"

lemma history_step_None [simp]: "history_step a None"
  by (simp add: history_step_def split: option.splits)

definition invocation_ok :: "harness \<times> exe_identity \<times> maintenance option \<Rightarrow> bool" where
  "invocation_ok i \<longleftrightarrow>
     (case i of (h, b, st) \<Rightarrow>
        (case st of None \<Rightarrow> False
         | Some ms \<Rightarrow> (case h_intent (harness_of ms h) of None \<Rightarrow> False
             | Some it \<Rightarrow> ui_before it = b \<and> h_applied (harness_of ms h) = Some (ui_baseline it))))"

definition state_ok :: "maintenance \<Rightarrow> bool" where
  "state_ok ms \<longleftrightarrow> m_last_check ms \<noteq> None \<and> (\<forall>h. intent_ok (harness_of ms h))"

definition file_ok :: "update_world \<Rightarrow> bool" where
  "file_ok w \<longleftrightarrow> successively history_step (up_history w) \<and> list_all invocation_ok (up_invocations w)
     \<and> (up_history w = [] \<longrightarrow> up_file w = None) \<and> (up_history w \<noteq> [] \<longrightarrow> last (up_history w) = up_file w)
     \<and> (case up_file w of None \<Rightarrow> True | Some ms \<Rightarrow> state_ok ms)"

definition from_file :: "(harness_state \<Rightarrow> harness_state \<Rightarrow> bool) \<Rightarrow> update_world \<Rightarrow> maintenance \<Rightarrow> bool" where
  "from_file P w ms \<longleftrightarrow> (case up_file w of None \<Rightarrow> True | Some a \<Rightarrow> \<forall>h. P (harness_of a h) (harness_of ms h))"

lemma all_harnesses_all: "list_all P all_harnesses \<longleftrightarrow> (\<forall>h. P h)"
  by (simp add: all_harnesses_def) (metis harness.exhaust)

lemma from_file_mono: "from_file P w ms \<Longrightarrow> (\<And>x y. P x y \<Longrightarrow> Q x y) \<Longrightarrow> from_file Q w ms"
  by (auto simp: from_file_def split: option.splits)

lemma same_file_ok: "same_file w w' \<Longrightarrow> file_ok w \<Longrightarrow> file_ok w'"
  and same_file_from: "same_file w w' \<Longrightarrow> from_file P w ms \<Longrightarrow> from_file P w' ms"
  by (simp_all add: same_file_def file_ok_def from_file_def)

lemma persist_file:
  assumes ok: "file_ok w" and ms: "state_ok ms" and step: "from_file gen_step w ms" and p: "persist env ms w = (x, w')"
  shows "file_ok w'" and "x \<Longrightarrow> up_file w' = Some ms"
proof -
  have st: "history_step (up_file w) (Some ms)"
    using step by (auto simp: history_step_def from_file_def all_harnesses_all split: option.splits)
  have "successively history_step (up_history w @ [Some ms])"
    using ok st by (auto simp: file_ok_def successively_append_iff split: if_splits)
  then have new: "file_ok (w\<lparr>up_clock := n, up_file := Some ms, up_history := up_history w @ [Some ms]\<rparr>)" for n
    using ok ms by (simp add: file_ok_def)
  have old: "file_ok (w\<lparr>up_clock := n\<rparr>)" for n using ok by (simp add: file_ok_def)
  show "file_ok w'" "x \<Longrightarrow> up_file w' = Some ms"
    using p new old by (auto simp: persist_def ask_def Let_def tmux_applied_def split: if_splits)
qed

lemma run_updater_file:
  assumes ok: "file_ok w" and f: "up_file w = Some ms"
    and i: "h_intent (harness_of ms h) = Some it" "ui_before it = b" "h_applied (harness_of ms h) = Some (ui_baseline it)"
    and r: "run_updater env h b w = (res, w')"
  shows "file_ok w'" "up_file w' = Some ms"
  using r ok f i by (auto simp: run_updater_def ask_def file_ok_def invocation_ok_def)

lemma load_state_file:
  assumes ok: "file_ok w" and l: "load_state env w = (r, w')"
  shows "file_ok w'"
    and "r = Inr ms \<Longrightarrow> up_file w' = Some ms \<and> state_ok ms \<or> up_file w' = None \<and> ms = maintenance_default"
proof -
  have old: "file_ok (w\<lparr>up_clock := n\<rparr>)" for n using ok by (simp add: file_ok_def)
  have moved: "file_ok (w\<lparr>up_clock := n, up_file := None, up_history := up_history w @ [None]\<rparr>)" for n
    using ok by (simp add: file_ok_def successively_append_iff)
  show "file_ok w'"
    using l ok old moved by (auto simp: load_state_def ask_def Let_def split: option.splits load_fault.splits if_splits)
  show "r = Inr ms \<Longrightarrow> up_file w' = Some ms \<and> state_ok ms \<or> up_file w' = None \<and> ms = maintenance_default"
    using l ok by (auto simp: load_state_def ask_def Let_def file_ok_def tmux_applied_def
        split: option.splits load_fault.splits if_splits)
qed

section \<open>The cycle\<close>

lemma fail_from: "from_file quiet w ms \<Longrightarrow> from_file quiet w (harness_fail h e ms)"
  by (auto simp: from_file_def harness_fail_def quiet_def split: option.splits)

lemma fail_intents: "\<forall>g. intent_ok (harness_of ms g) \<Longrightarrow> \<forall>g. intent_ok (harness_of (harness_fail h e ms) g)"
  by (auto simp: harness_fail_def intent_ok_def split: option.splits)

lemma fail_state: "state_ok ms \<Longrightarrow> state_ok (harness_fail h e ms)"
  using fail_intents [of ms h e] by (simp add: state_ok_def) (simp add: harness_fail_def)

lemma reconcile_update_step:
  assumes ms: "state_ok ms" "from_file quiet w ms" and it: "h_intent (harness_of ms h) \<noteq> None"
    and r: "reconcile_update env h result ms w0 = (ms', w')"
  shows "state_ok ms'" "from_file gen_step w ms'"
proof -
  have rec: "state_ok (harness_mut h (reconcile i e) ms) \<and> from_file gen_step w (harness_mut h (reconcile i e) ms)" for i e
    using ms it reconcile_clears(2) unfolding state_ok_def from_file_def
    by (auto intro: reconcile_step quiet_step split: option.splits)
  have "state_ok ms' \<and> from_file gen_step w ms'"
    using r rec fail_state [OF ms(1)] from_file_mono [OF fail_from [OF ms(2)] quiet_step]
    by (auto simp: reconcile_update_def Let_def ask_def split: sum.splits option.splits)
  then show "state_ok ms'" "from_file gen_step w ms'" by auto
qed

lemma update_harness_file:
  assumes ok: "file_ok w" and ms: "state_ok ms" "from_file quiet w ms" and u: "update_harness env h ms w = (r, w')"
  shows "file_ok w' \<and> (\<forall>ms'. r = Inr ms' \<longrightarrow> state_ok ms' \<and> from_file quiet w' ms')"
proof -
  obtain i w1 where 1: "ask (\<lambda>n. en_inspect env n h) w = (i, w1)" by (rule prod.exhaust)
  have s1: "same_file w w1" using ask_frameD [OF 1] by blast
  have failed: "file_ok v \<and> state_ok (harness_fail h e ms) \<and> from_file quiet v (harness_fail h e ms)" if "same_file w v" for v e
    using same_file_ok [OF that ok] same_file_from [OF that fail_from [OF ms(2)]] fail_state [OF ms(1)] by blast
  show ?thesis
  proof (cases "\<exists>b. i = Inr (Some b)")
    case False
    then show ?thesis using u failed [OF s1] by (auto simp: update_harness_def 1 split: sum.splits option.splits)
  next
    case True
    then obtain b where b: "i = Inr (Some b)" by blast
    obtain c w2 where 2: "collect env h (ei_path b) w1 = (c, w2)" by (rule prod.exhaust)
    have s2: "same_file w w2" using s1 collect_frame [OF 2] by (blast intro: same_file_trans)
    show ?thesis
    proof (cases c)
      case None
      then show ?thesis using u failed [OF s2] by (auto simp: update_harness_def 1 2 b)
    next
      case (Some cs)
      let ?ms1 = "harness_mut h (prepare_intent b cs) ms"
      obtain stored w3 where 3: "persist env ?ms1 w2 = (stored, w3)" by (rule prod.exhaust)
      obtain res w4 where 4: "run_updater env h b w3 = (res, w4)" by (rule prod.exhaust)
      obtain ms2 w5 where 5: "reconcile_update env h res ?ms1 w4 = (ms2, w5)" by (rule prod.exhaust)
      obtain stored2 w6 where 6: "persist env ms2 w5 = (stored2, w6)" by (rule prod.exhaust)
      have ms1: "state_ok ?ms1" using ms(1) by (simp add: state_ok_def prepare_intent_step(2))
      have "from_file gen_step w2 ?ms1"
        using same_file_from [OF s2 ms(2)] by (auto simp: from_file_def intro: prepare_intent_step(1) quiet_step split: option.splits)
      note p3 = persist_file [OF same_file_ok [OF s2 ok] ms1 this 3]
      show ?thesis
      proof (cases stored)
        case False
        then show ?thesis using u p3(1) by (auto simp: update_harness_def Let_def 1 2 3 b Some)
      next
        case True
        obtain it where it: "h_intent (prepare_intent b cs (harness_of ms h)) = Some it"
          using prepare_intent_stored(2) [of b cs "harness_of ms h"] by blast
        have before: "ui_before it = b" by (rule prepare_intent_stored(1) [OF it])
        have base: "h_applied (prepare_intent b cs (harness_of ms h)) = Some (ui_baseline it)"
          using prepare_intent_step(2) [of b cs "harness_of ms h"] it by (simp add: intent_ok_def)
        have f4: "file_ok w4" "up_file w4 = Some ?ms1"
          by (rule run_updater_file [OF p3(1) p3(2) [OF True] _ before _ 4]; simp add: it base)+
        have q4: "from_file quiet w4 ?ms1" using f4(2) by (simp add: from_file_def quiet_def)
        have m2: "state_ok ms2" "from_file gen_step w4 ms2"
          by (rule reconcile_update_step [OF ms1 q4 _ 5]; simp add: it)+
        have s5: "same_file w4 w5" using reconcile_update_frame [OF 5] by blast
        note p6 = persist_file [OF same_file_ok [OF s5 f4(1)] m2(1) same_file_from [OF s5 m2(2)] 6]
        have "r = (if stored2 then Inr ms2 else Inl Not_stored)" "w' = w6"
          using u True by (simp_all add: update_harness_def Let_def 1 2 3 4 5 6 b Some split: if_splits)
        then show ?thesis using p6 m2(1) by (auto simp: from_file_def quiet_def)
      qed
    qed
  qed
qed

lemma run_due_file:
  "file_ok w \<Longrightarrow> state_ok ms \<Longrightarrow> from_file quiet w ms \<Longrightarrow> run_due_updates env hs ms w = (r, w')
    \<Longrightarrow> file_ok w' \<and> (\<forall>ms'. r = Inr ms' \<longrightarrow> state_ok ms' \<and> from_file quiet w' ms')"
proof (induction hs arbitrary: ms w)
  case (Cons h hs)
  obtain r1 w1 where 1: "update_harness env h ms w = (r1, w1)" by (rule prod.exhaust)
  have f: "file_ok w1 \<and> (\<forall>ms'. r1 = Inr ms' \<longrightarrow> state_ok ms' \<and> from_file quiet w1 ms')"
    by (rule update_harness_file [OF Cons.prems(1-3) 1])
  show ?case
  proof (cases r1)
    case (Inl e)
    then show ?thesis using f Cons.prems(4) by (auto simp: 1)
  next
    case (Inr ms1)
    then show ?thesis using f Cons.IH [of w1 ms1] Cons.prems(4) by (simp add: 1)
  qed
qed auto

text \<open>Taking up what an interrupted process left: one step for a harness that still has its intent.\<close>

definition settled :: "harness_state \<Rightarrow> harness_state \<Rightarrow> bool" where
  "settled x y \<longleftrightarrow> quiet x y \<or> gen_step x y \<and> h_intent y = None"

lemma settled_step: "settled x y \<Longrightarrow> gen_step x y"
  by (auto simp: settled_def quiet_step)

lemma settled_quiet: "settled x y \<Longrightarrow> quiet y z \<Longrightarrow> h_intent z = h_intent y \<Longrightarrow> settled x z"
proof -
  have "gen_step x z" if "gen_step x y" "quiet y z"
    using that unfolding gen_step_def quiet_def by (elim conjE) (simp only:)
  then show "settled x y \<Longrightarrow> quiet y z \<Longrightarrow> h_intent z = h_intent y \<Longrightarrow> settled x z"
    unfolding settled_def by (auto simp: quiet_def)
qed

lemma recover_step:
  assumes ms: "state_ok ms" "from_file settled w ms" and r: "recover_harness env h ms v = (ms', v')"
  shows "state_ok ms' \<and> from_file settled w ms'"
proof -
  have rec: "state_ok (harness_mut h (reconcile i e) ms) \<and> from_file settled w (harness_mut h (reconcile i e) ms)"
    if it: "h_intent (harness_of ms h) \<noteq> None" for i e
  proof -
    have "settled x (reconcile i e (harness_of ms h))" if "settled x (harness_of ms h)" for x
    proof -
      have "quiet x (harness_of ms h)" using that it by (simp add: settled_def)
      moreover have "intent_ok (harness_of ms h)" using ms(1) by (simp add: state_ok_def)
      ultimately show ?thesis using reconcile_step [OF _ _ it] reconcile_clears(1) unfolding settled_def by blast
    qed
    then show ?thesis using ms reconcile_clears(2) unfolding state_ok_def from_file_def by (auto split: option.splits)
  qed
  have "settled x (harness_of ms g) \<Longrightarrow> settled x (harness_of (harness_fail h e ms) g)" for x g e
    by (erule settled_quiet) (simp_all add: quiet_def harness_fail_def)
  then have "from_file settled w (harness_fail h e ms)" for e
    using ms(2) by (auto simp: from_file_def split: option.splits)
  then show ?thesis using r rec ms fail_state
    by (auto simp: recover_harness_def Let_def ask_def split: if_splits sum.splits option.splits)
qed

lemma recover_intents_step:
  "state_ok ms \<Longrightarrow> from_file settled w ms \<Longrightarrow> recover_intents env hs ms v = (ms', v') \<Longrightarrow> state_ok ms' \<and> from_file settled w ms'"
proof (induction hs arbitrary: ms v)
  case (Cons h hs)
  obtain ms1 v1 where 1: "recover_harness env h ms v = (ms1, v1)" by (rule prod.exhaust)
  have s: "state_ok ms1 \<and> from_file settled w ms1" by (rule recover_step [OF Cons.prems(1,2) 1])
  have "recover_intents env hs ms1 v1 = (ms', v')" using Cons.prems(3) by (simp add: 1)
  then show ?case by (rule Cons.IH [OF conjunct1 [OF s] conjunct2 [OF s]])
qed simp

lemma establish_step:
  "state_ok ms \<Longrightarrow> establish_baselines env hs ms v = (ms', v') \<Longrightarrow> state_ok ms'"
proof (induction hs arbitrary: ms v)
  case (Cons h hs)
  obtain ms1 v1 where 1: "baseline_harness env h ms v = (ms1, v1)" by (rule prod.exhaust)
  have "state_ok ms1"
    using 1 Cons.prems(1) fail_state reconcile_clears(2)
    by (auto simp: baseline_harness_def Let_def ask_def state_ok_def split: sum.splits option.splits)
  then show ?case using Cons.IH Cons.prems(2) by (simp add: 1)
qed simp

text \<open>Restarting panes takes plans away and leaves the rest of the state alone.\<close>

definition same_core :: "maintenance \<Rightarrow> maintenance \<Rightarrow> bool" where
  "same_core ms ms' \<longleftrightarrow> m_last_check ms' = m_last_check ms
     \<and> (\<forall>h. quiet (harness_of ms h) (harness_of ms' h) \<and> h_intent (harness_of ms' h) = h_intent (harness_of ms h))"

lemma same_core_trans: "same_core a b \<Longrightarrow> same_core b c \<Longrightarrow> same_core a c"
  by (simp add: same_core_def quiet_def)

lemma process_harness_core:
  assumes "process_harness env limit h ms k w = (ms', k', w')"
  shows "same_core ms ms'"
proof -
  have "same_core ms (harness_mut h (\<lambda>s. s\<lparr>h_pending := ps\<rparr>) ms)" for ps by (simp add: same_core_def quiet_def)
  moreover have "same_core ms ms" by (simp add: same_core_def quiet_def)
  ultimately show ?thesis using assms
    by (auto simp: process_harness_def Let_def split: option.splits if_splits prod.splits)
qed

lemma process_pending_core:
  assumes "process_pending env limit ms w = (ms', resumed, w')"
  shows "same_core ms ms'"
proof -
  obtain ms1 k1 w1 where 1: "process_harness env limit Claude_cli ms \<lparr>wk_attempts = 0, wk_respawned = False\<rparr> w = (ms1, k1, w1)"
    by (metis prod.exhaust)
  obtain ms2 k2 w2 where 2: "process_harness env limit Codex_cli ms1 k1 w1 = (ms2, k2, w2)" by (metis prod.exhaust)
  have "ms' = ms2" using assms by (simp add: process_pending_def 1 2)
  then show ?thesis using same_core_trans [OF process_harness_core [OF 1] process_harness_core [OF 2]] by simp
qed

lemma same_core_settled:
  assumes "same_core ms ms'" "state_ok ms" "from_file settled w ms"
  shows "state_ok ms'" "from_file settled w ms'"
proof -
  note core = assms(1) [unfolded same_core_def]
  have "intent_ok (harness_of ms' h)" for h
    using core assms(2) unfolding state_ok_def intent_ok_def quiet_def by (auto split: option.splits)
  then show "state_ok ms'" using core assms(2) by (simp add: state_ok_def)
  show "from_file settled w ms'"
    using core assms(3) unfolding from_file_def by (auto intro: settled_quiet split: option.splits)
qed

lemma before_recovery_file:
  assumes ok: "file_ok w" and r: "before_recovery env s ms w = (r, w')"
    and ms: "up_file w = Some ms \<and> state_ok ms \<or> up_file w = None \<and> ms = maintenance_default"
  shows "file_ok w' \<and> (\<forall>ms'. r = Inr ms' \<longrightarrow> state_ok ms' \<and> from_file settled w' ms')"
proof (cases "m_last_check ms")
  case None
  then have d: "up_file w = None" "ms = maintenance_default" using ms by (auto simp: state_ok_def)
  let ?ms0 = "ms\<lparr>m_last_check := Some (cs_now s)\<rparr>"
  have "harness_of ?ms0 h = harness_default" for h by (simp add: harness_of_def maintenance_default_def d)
  then have s0: "state_ok ?ms0" by (simp add: state_ok_def intent_ok_def harness_default_def)
  obtain ms1 w1 where 1: "establish_baselines env all_harnesses ?ms0 w = (ms1, w1)" by (rule prod.exhaust)
  have "r = Inr ms1" "w' = w1" using r None by (simp_all add: before_recovery_def 1)
  moreover have "same_file w w1" using establish_frame [OF 1] by blast
  ultimately show ?thesis using same_file_ok [of w w1] ok establish_step [OF s0 1] d(1)
    by (simp add: from_file_def same_file_def)
next
  case (Some l)
  let ?ms0 = "ms\<lparr>m_last_check := Some (cs_now s)\<rparr>"
  have f: "up_file w = Some ms" "state_ok ms" using ms Some by (auto simp: maintenance_default_def)
  have same: "harness_of ?ms0 h = harness_of ms h" for h by (simp add: harness_of_def)
  have s0: "state_ok ?ms0" "from_file quiet w ?ms0" using f by (simp_all add: state_ok_def from_file_def quiet_def same)
  have s1: "from_file settled w ms" using f by (simp add: from_file_def settled_def quiet_def)
  show ?thesis
  proof (cases "check_due (m_last_check ms) (cs_now s) (cs_interval s)")
    case True
    then have "run_due_updates env all_harnesses ?ms0 w = (r, w')" using r Some by (simp add: before_recovery_def)
    from run_due_file [OF ok s0 this] show ?thesis using from_file_mono [of quiet w' _ settled] by (auto simp: settled_def)
  next
    case False
    then have "r = Inr ms" "w' = w" using r Some by (simp_all add: before_recovery_def)
    then show ?thesis using ok f s1 by simp
  qed
qed

lemma cycle_file:
  assumes ok: "file_ok w" and ms: "up_file w = Some ms \<and> state_ok ms \<or> up_file w = None \<and> ms = maintenance_default"
    and r: "run_maintenance_cycle env s ms w = (r, w')"
  shows "file_ok w'"
proof -
  obtain r1 w1 where 1: "before_recovery env s ms w = (r1, w1)" by (rule prod.exhaust)
  have f1: "file_ok w1 \<and> (\<forall>ms'. r1 = Inr ms' \<longrightarrow> state_ok ms' \<and> from_file settled w1 ms')"
    by (rule before_recovery_file [OF ok 1 ms])
  show ?thesis
  proof (cases r1)
    case (Inl e)
    then have "w' = w1" using r by (simp add: run_maintenance_cycle_def 1)
    then show ?thesis using f1 by simp
  next
    case (Inr ms1)
    obtain ms2 w2 where 2: "recover_intents env all_harnesses ms1 w1 = (ms2, w2)" by (rule prod.exhaust)
    obtain ms3 resumed w3 where 3: "process_pending env (cs_limit s) ms2 w2 = (ms3, resumed, w3)" by (metis prod.exhaust)
    obtain joined w4 where 4: "ask (en_ok env) w3 = (joined, w4)" by (rule prod.exhaust)
    obtain stored w5 where 5: "persist env ms3 w4 = (stored, w5)" by (rule prod.exhaust)
    have s1: "state_ok ms1" "from_file settled w1 ms1" using f1 Inr by auto
    have s2: "state_ok ms2 \<and> from_file settled w1 ms2" by (rule recover_intents_step [OF s1 2])
    note s3 = same_core_settled [OF process_pending_core [OF 3] conjunct1 [OF s2] conjunct2 [OF s2]]
    have same: "same_file w1 w4"
      using recover_intents_frame [OF 2] process_pending_walk(2) [OF 3] ask_frameD [OF 4] by (blast intro: same_file_trans)
    have f4: "file_ok w4" using same_file_ok [OF same] f1 by blast
    have f5: "file_ok w5"
      by (rule persist_file(1) [OF f4 s3(1) from_file_mono [OF same_file_from [OF same s3(2)] settled_step] 5])
    have "w' \<in> {w4, w5}" using r by (auto simp: run_maintenance_cycle_def Let_def 1 2 3 4 5 Inr split: if_splits)
    then show ?thesis using f4 f5 by auto
  qed
qed

lemma maintenance_once_file:
  assumes ok: "file_ok w"
  shows "file_ok (maintenance_once env s w)"
proof -
  obtain owner w1 where 1: "ask (en_owner env) w = (owner, w1)" by (rule prod.exhaust)
  obtain r w2 where 2: "load_state env w1 = (r, w2)" by (rule prod.exhaust)
  have f1: "file_ok w1" using ask_frameD [OF 1] ok by (blast intro: same_file_ok)
  note f2 = load_state_file [OF f1 2]
  show ?thesis
  proof (cases "owner \<and> (\<exists>ms. r = Inr ms)")
    case False
    then have "maintenance_once env s w \<in> {w1, w2}" by (auto simp: maintenance_once_def 1 2 split: sum.splits)
    then show ?thesis using f1 f2(1) by auto
  next
    case True
    then obtain ms where ms: "r = Inr ms" by blast
    obtain x w3 where 3: "run_maintenance_cycle env s ms w2 = (x, w3)" by (rule prod.exhaust)
    have "maintenance_once env s w = w3" using True ms by (simp add: maintenance_once_def 1 2 3)
    then show ?thesis using cycle_file [OF f2(1) f2(2) [OF ms] 3] by simp
  qed
qed

lemma maintenance_run_file: "file_ok (maintenance_run env ss)"
proof -
  have "file_ok w \<Longrightarrow> file_ok (fold (maintenance_once env) ss w)" for w
    by (induction ss arbitrary: w) (simp_all add: maintenance_once_file)
  moreover have "file_ok update_start" by (simp add: file_ok_def update_start_def)
  ultimately show ?thesis by (simp add: maintenance_run_def)
qed

text \<open>
  Over any number of cycles: an updater was only ever started when the stored state held the intent for it,
  with the launcher it had just looked at and the last applied launcher as the baseline.
\<close>

theorem updaters_run_behind_intents: "list_all invocation_ok (up_invocations (maintenance_run env ss))"
  using maintenance_run_file [of env ss] by (simp add: file_ok_def)

text \<open>
  C16. From one stored state to the next the generation of each harness moves by one exactly when the digest
  of its applied launcher has changed, whether the updater, the provider or a process that was
  interrupted changed it; a state that was moved aside starts over.
\<close>

theorem generations_count_changes: "successively history_step (up_history (maintenance_run env ss))"
  using maintenance_run_file [of env ss] by (simp add: file_ok_def)

end
