(* ===== verification/Cli_Plans.thy ===== *)
theory Cli_Plans
  imports Cli_Generations
begin

text \<open>
  The life of one plan: an idle pane is marked by one pass and restarted by the next; what can drop a
  plan before that; and two ways in which plans are lost although their panes are still there.
\<close>

section \<open>An idle pane is restarted\<close>

text \<open>Everything answers, and the pane stays as it was planned.\<close>

definition calm :: "update_env \<Rightarrow> harness \<Rightarrow> planned_pane \<Rightarrow> bool" where
  "calm env h plan \<longleftrightarrow> en_ok env = (\<lambda>_. True) \<and> en_reply env = (\<lambda>_. Done) \<and> (\<forall>n p. en_others env n p = 0)
     \<and> (\<forall>n. \<exists>f x. en_capture env n (pl_pane plan) = Inr (Some f) \<and> fr_harness f = Some h \<and> fr_profile f = pl_profile plan
          \<and> fr_mode f = Some (pl_mode plan) \<and> fr_target f = Some (pl_fingerprint plan) \<and> fr_exact f = Some x
          \<and> fr_waiting f \<and> fr_idle f)"

definition plan_valid :: "nat \<Rightarrow> planned_pane \<Rightarrow> bool" where
  "plan_valid g plan \<longleftrightarrow> g \<le> u64_max \<and> length (pl_fingerprint plan) = 64
     \<and> list_all (\<lambda>c. is_hexdigit c \<and> \<not> is_upper c) (pl_fingerprint plan) \<and> pl_sequence plan < u64_max"

definition plan_marker :: "harness \<Rightarrow> nat \<Rightarrow> planned_pane \<Rightarrow> marker_phase \<Rightarrow> pending_marker" where
  "plan_marker h g plan ph = \<lparr>pm_harness = h, pm_generation = g, pm_fingerprint = pl_fingerprint plan, pm_phase = ph\<rparr>"

lemma plan_marker_parse: "plan_valid g plan \<Longrightarrow> pending_parse (pending_encode (plan_marker h g plan ph)) = Some (plan_marker h g plan ph)"
  by (rule pending_parse_encode) (simp add: plan_valid_def pending_ok_def plan_marker_def)

lemma calm_ask: "calm env h plan \<Longrightarrow> ask (en_ok env) w = (True, w\<lparr>up_clock := up_clock w + 1\<rparr>)"
  "calm env h plan \<Longrightarrow> ask (en_reply env) w = (Done, w\<lparr>up_clock := up_clock w + 1\<rparr>)"
  by (simp_all add: calm_def ask_def)

lemma calm_read: "calm env h plan \<Longrightarrow> read_sequence env p w = (Some (up_sequence w p), w\<lparr>up_clock := up_clock w + 1\<rparr>)"
  by (simp add: read_sequence_def calm_ask)

lemma calm_observed:
  assumes c: "calm env h plan" and f: "fresh_session env (pl_pane plan) w = (fresh, w')"
  shows "observe_pane h plan fresh (Some q) = \<lparr>po_exists = True, po_stale = False,
      po_fingerprint = Some (pl_fingerprint plan), po_sequence = Some q, po_idle = True\<rparr>"
    and "w' = w\<lparr>up_clock := up_clock w + 1\<rparr>"
proof -
  have "\<exists>f x. en_capture env (up_clock w) (pl_pane plan) = Inr (Some f) \<and> fr_harness f = Some h \<and> fr_profile f = pl_profile plan
          \<and> fr_mode f = Some (pl_mode plan) \<and> fr_target f = Some (pl_fingerprint plan) \<and> fr_exact f = Some x
          \<and> fr_waiting f \<and> fr_idle f" using c by (simp add: calm_def)
  then show "observe_pane h plan fresh (Some q) = \<lparr>po_exists = True, po_stale = False,
      po_fingerprint = Some (pl_fingerprint plan), po_sequence = Some q, po_idle = True\<rparr>"
    and "w' = w\<lparr>up_clock := up_clock w + 1\<rparr>"
    using f by (auto simp: fresh_session_def ask_def observe_pane_def)
qed

lemma calm_lock:
  assumes c: "calm env h plan" and s: "\<forall>p. up_sequence w p \<le> u64_max"
  shows "lock_pane env w = (True, w\<lparr>up_clock := up_clock w + 1\<rparr>)"
proof -
  have "(\<lambda>p. min u64_max (up_sequence w p + en_others env (up_clock w) p)) = up_sequence w"
    using c s by (auto simp: calm_def)
  then show ?thesis unfolding lock_pane_def by (simp add: calm_ask [OF c])
qed

lemma calm_set_marker:
  assumes "calm env h plan" "plan_valid g plan"
  shows "set_marker env p (plan_marker h g plan ph) w =
    (True, w\<lparr>up_clock := up_clock w + 1, up_markers := (up_markers w)(p \<mapsto> pending_encode (plan_marker h g plan ph))\<rparr>)"
  using plan_marker_parse [OF assms(2)] by (simp add: set_marker_def calm_ask [OF assms(1)] tmux_applied_def)

lemma calm_advance:
  assumes "calm env h plan" "up_sequence w p < u64_max"
  shows "advance_sequence env p w =
    (True, w\<lparr>up_clock := up_clock w + 2, up_sequence := (up_sequence w)(p := up_sequence w p + 1)\<rparr>)"
  using assms(2) by (simp add: advance_sequence_def calm_read [OF assms(1)] calm_ask [OF assms(1)] tmux_applied_def)

lemma calm_clear:
  "calm env h plan \<Longrightarrow> clear_marker env p w = w\<lparr>up_clock := up_clock w + 1, up_markers := (up_markers w)(p := None)\<rparr>"
  by (simp add: clear_marker_def calm_ask tmux_applied_def)

text \<open>What a pass does with a plan when nothing fails.\<close>

definition calm_observation :: "planned_pane \<Rightarrow> nat \<Rightarrow> pane_observation" where
  "calm_observation plan q = \<lparr>po_exists = True, po_stale = False, po_fingerprint = Some (pl_fingerprint plan),
     po_sequence = Some q, po_idle = True\<rparr>"

lemma calm_pass:
  assumes c: "calm env h plan" and s: "\<forall>p. up_sequence w p \<le> u64_max"
    and m: "\<forall>t. up_markers w (pl_pane plan) = Some t \<longrightarrow> pending_parse t \<noteq> None"
  shows "process_plan env limit h g plan k w =
    (let w4 = w\<lparr>up_clock := up_clock w + 4\<rparr>; marker = Option.bind (up_markers w (pl_pane plan)) pending_parse;
         obs = calm_observation plan (up_sequence w (pl_pane plan))
     in (case pane_action plan marker obs h g of
          Materialize_ready \<Rightarrow> (True, k, snd (set_marker env (pl_pane plan) (plan_marker h g plan Ready) w4))
        | Defer \<Rightarrow> (True, k, w4)
        | Forget \<Rightarrow> (False, k, if map_option pm_phase marker = Some Ready then clear_marker env (pl_pane plan) w4 else w4)
        | Already_claimed \<Rightarrow> (False, k, w4)
        | Claim_before_respawn \<Rightarrow> claim_and_respawn env limit h g plan marker obs k w4))"
proof -
  let ?p = "pl_pane plan"
  let ?w1 = "w\<lparr>up_clock := up_clock w + 1\<rparr>"
  obtain fresh w2 where 2: "fresh_session env ?p ?w1 = (fresh, w2)" by (rule prod.exhaust)
  note obs = calm_observed(1) [OF c 2]
  have w2: "w2 = w\<lparr>up_clock := up_clock w + 2\<rparr>" using calm_observed(2) [OF c 2] by simp
  have b: "(False \<or> (up_markers w ?p \<noteq> None \<and> pending_parse (the (up_markers w ?p)) = None)) = False"
    using m by (cases "up_markers w ?p") auto
  have r: "read_sequence env ?p (w\<lparr>up_clock := up_clock w + 3\<rparr>) = (Some (up_sequence w ?p), w\<lparr>up_clock := up_clock w + 4\<rparr>)"
    by (simp add: calm_read [OF c])
  have a: "ask (en_ok env) w2 = (True, w\<lparr>up_clock := up_clock w + 3\<rparr>)" unfolding w2 by (simp add: calm_ask [OF c])
  have mk: "up_markers (w\<lparr>up_clock := up_clock w + 3\<rparr>) = up_markers w" by simp
  show ?thesis
    by (simp only: process_plan_def Let_def calm_lock [OF c s] prod.case 2 a mk b r obs if_False not_True_eq_False
        calm_observation_def plan_marker_def)
qed

lemma materialize_first:
  "Option.bind m pending_parse = None \<Longrightarrow> q = pl_sequence plan
    \<Longrightarrow> pane_action plan (Option.bind m pending_parse) (calm_observation plan q) h g = Materialize_ready"
  by (simp add: pane_action_def calm_observation_def)

lemma claim_second:
  "pane_action plan (Some (plan_marker h g plan Ready)) (calm_observation plan (pl_sequence plan)) h g = Claim_before_respawn"
  by (simp add: pane_action_def calm_observation_def plan_marker_def marker_expected_def)

lemma first_pass:
  assumes "calm env h plan" "plan_valid g plan" "\<forall>p. up_sequence w p \<le> u64_max"
    and "up_markers w (pl_pane plan) = None" "up_sequence w (pl_pane plan) = pl_sequence plan"
  shows "process_plan env limit h g plan k w = (True, k, w\<lparr>up_clock := up_clock w + 5,
    up_markers := (up_markers w)(pl_pane plan \<mapsto> pending_encode (plan_marker h g plan Ready))\<rparr>)"
proof -
  have mm: "\<forall>t. up_markers w (pl_pane plan) = Some t \<longrightarrow> pending_parse t \<noteq> None" using assms(4) by simp
  show ?thesis
    unfolding calm_pass [OF assms(1,3) mm]
    using materialize_first [of None "pl_sequence plan" plan h g]
    by (simp add: assms(4,5) calm_set_marker [OF assms(1,2)])
qed

lemma second_pass:
  assumes c: "calm env h plan" and v: "plan_valid g plan" and s: "\<forall>p. up_sequence w p \<le> u64_max"
    and m: "up_markers w (pl_pane plan) = Some (pending_encode (plan_marker h g plan Ready))"
    and q: "up_sequence w (pl_pane plan) = pl_sequence plan" and k: "wk_attempts k < limit"
    and r: "process_plan env limit h g plan k w = (keep, k', w')"
  shows "\<not> keep \<and> wk_respawned k' \<and> up_markers w' (pl_pane plan) = None
     \<and> up_sequence w' (pl_pane plan) = pl_sequence plan + 1
     \<and> up_respawns w' = up_respawns w @ [\<lparr>rs_harness = h, rs_generation = g, rs_plan = plan,
         rs_marker = Some (plan_marker h g plan Ready), rs_observed = calm_observation plan (pl_sequence plan)\<rparr>]"
proof -
  have bind: "Option.bind (Some (pending_encode (plan_marker h g plan Ready))) pending_parse = Some (plan_marker h g plan Ready)"
    using plan_marker_parse [OF v] by simp
  have lt: "pl_sequence plan < u64_max" using v by (simp add: plan_valid_def)
  have mm: "\<forall>t. up_markers w (pl_pane plan) = Some t \<longrightarrow> pending_parse t \<noteq> None"
    using m plan_marker_parse [OF v] by auto
  have "process_plan env limit h g plan k w = claim_and_respawn env limit h g plan (Some (plan_marker h g plan Ready))
      (calm_observation plan (pl_sequence plan)) k (w\<lparr>up_clock := up_clock w + 4\<rparr>)"
    unfolding calm_pass [OF c s mm] m q bind by (simp add: claim_second)
  then have "claim_and_respawn env limit h g plan (Some (plan_marker h g plan Ready))
      (calm_observation plan (pl_sequence plan)) k (w\<lparr>up_clock := up_clock w + 4\<rparr>) = (keep, k', w')" using r by simp
  then show ?thesis using k q lt
    by (auto simp: claim_and_respawn_def Let_def calm_ask [OF c] calm_advance [OF c] calm_clear [OF c]
        calm_set_marker [OF c v, unfolded plan_marker_def, where ph = Claimed])
qed

text \<open>
  A pane that is idle and unchanged is marked by the first pass that looks at it and restarted by the next
  one, whatever happened to other panes in between; the restart takes the plan and its marker away.
\<close>

theorem idle_pane_restarts:
  assumes "calm env h plan" "plan_valid g plan" "\<forall>p. up_sequence w p \<le> u64_max"
    and "up_markers w (pl_pane plan) = None" "up_sequence w (pl_pane plan) = pl_sequence plan"
    and "process_plan env limit h g plan k w = (keep, k1, w1)"
    and "up_markers v (pl_pane plan) = up_markers w1 (pl_pane plan)"
      "up_sequence v (pl_pane plan) = up_sequence w1 (pl_pane plan)" "\<forall>p. up_sequence v p \<le> u64_max"
    and "wk_attempts k2 < limit"
    and "process_plan env limit h g plan k2 v = (keep', k3, v')"
  shows "keep \<and> \<not> keep' \<and> wk_respawned k3 \<and> up_markers v' (pl_pane plan) = None
    \<and> up_respawns v' = up_respawns v @ [\<lparr>rs_harness = h, rs_generation = g, rs_plan = plan,
         rs_marker = Some (plan_marker h g plan Ready), rs_observed = calm_observation plan (pl_sequence plan)\<rparr>]"
proof -
  have 1: "keep" "up_markers v (pl_pane plan) = Some (pending_encode (plan_marker h g plan Ready))"
    "up_sequence v (pl_pane plan) = pl_sequence plan"
    using first_pass [OF assms(1-5), of limit k] assms(5-8) by auto
  show ?thesis using second_pass [OF assms(1,2,9) 1(2,3) assms(10,11)] 1(1) by blast
qed

section \<open>What drops a plan\<close>

definition pane_changed :: "planned_pane \<Rightarrow> pane_observation \<Rightarrow> bool" where
  "pane_changed plan obs \<longleftrightarrow> \<not> po_exists obs \<or> po_stale obs
     \<or> (case po_sequence obs of Some q \<Rightarrow> q \<noteq> pl_sequence plan | None \<Rightarrow> False)
     \<or> (case po_fingerprint obs of Some f \<Rightarrow> f \<noteq> pl_fingerprint plan | None \<Rightarrow> False)"

lemma action_forget: "pane_action plan marker obs h g = Forget \<Longrightarrow> pane_changed plan obs"
  unfolding pane_action_def pane_changed_def by (auto split: if_splits option.splits marker_phase.splits)

lemma action_claimed:
  "pane_action plan marker obs h g = Already_claimed \<Longrightarrow> marker = Some (plan_marker h g plan Claimed)"
  unfolding pane_action_def plan_marker_def marker_expected_def
  by (auto split: if_splits option.splits marker_phase.splits)

lemma claim_dropped: "claim_and_respawn env limit h g plan marker obs k w = (False, k', w') \<Longrightarrow> wk_attempts k' = wk_attempts k + 1"
  unfolding claim_and_respawn_def by (auto simp: Let_def split: if_splits prod.splits)

text \<open>
  A plan is dropped only when this pass claimed its pane, an earlier pass claimed it for the same generation,
  or the pane was seen gone, different or written to.
\<close>

theorem plans_are_kept:
  assumes "process_plan env limit h g plan k w = (False, k', w')"
  shows "wk_attempts k' = wk_attempts k + 1
    \<or> Option.bind (up_markers w (pl_pane plan)) pending_parse = Some (plan_marker h g plan Claimed)
    \<or> (\<exists>q. pane_changed plan (observe_pane h plan (fst (fresh_session env (pl_pane plan) (snd (lock_pane env w)))) q))"
proof -
  let ?p = "pl_pane plan"
  obtain locked w1 where 1: "lock_pane env w = (locked, w1)" by (rule prod.exhaust)
  obtain fresh w2 where 2: "fresh_session env ?p w1 = (fresh, w2)" by (rule prod.exhaust)
  obtain readable w3 where 3: "ask (en_ok env) w2 = (readable, w3)" by (rule prod.exhaust)
  obtain q w4 where 4: "read_sequence env ?p w3 = (q, w4)" by (rule prod.exhaust)
  have m: "up_markers w3 = up_markers w"
    using 1 2 3 by (auto simp: lock_pane_def fresh_session_def ask_def)
  let ?marker = "Option.bind (up_markers w3 ?p) pending_parse"
  let ?obs = "observe_pane h plan fresh q"
  have c: "(\<not> locked) = False" "(\<not> readable \<or> (up_markers w3 ?p \<noteq> None \<and> pending_parse (the (up_markers w3 ?p)) = None)) = False"
    using assms unfolding process_plan_def by (auto simp: Let_def 1 2 3 split: if_splits)
  have r: "(case pane_action plan ?marker ?obs h g of
        Materialize_ready \<Rightarrow> (True, k, snd (set_marker env ?p
          \<lparr>pm_harness = h, pm_generation = g, pm_fingerprint = pl_fingerprint plan, pm_phase = Ready\<rparr> w4))
      | Defer \<Rightarrow> (True, k, w4)
      | Forget \<Rightarrow> (False, k, if map_option pm_phase ?marker = Some Ready then clear_marker env ?p w4 else w4)
      | Already_claimed \<Rightarrow> (False, k, w4)
      | Claim_before_respawn \<Rightarrow> claim_and_respawn env limit h g plan ?marker ?obs k w4) = (False, k', w')"
    using assms by (simp only: process_plan_def Let_def 1 2 3 4 prod.case c if_False)
  show ?thesis
  proof (cases "pane_action plan ?marker ?obs h g")
    case Forget
    then show ?thesis using action_forget [OF Forget] by (auto simp: 1 2)
  next
    case Already_claimed
    then show ?thesis using action_claimed [OF Already_claimed] by (simp add: m)
  next
    case Claim_before_respawn
    then show ?thesis using r claim_dropped by auto
  qed (use r in simp_all)
qed

text \<open>
  C32. A capture of the panes that fails for a moment counts as the pane being gone: its plan is dropped and the
  pane keeps running the old program.
\<close>

theorem failed_capture_forgets_plan:
  assumes "en_ok env = (\<lambda>_. True)" and "en_capture env (up_clock w + 1) (pl_pane plan) = Inl e"
    and "up_markers w (pl_pane plan) = None"
  shows "\<exists>w'. process_plan env limit h g plan k w = (False, k, w') \<and> up_respawns w' = up_respawns w"
proof -
  let ?p = "pl_pane plan"
  obtain w1 where 1: "lock_pane env w = (True, w1)" "up_clock w1 = up_clock w + 1" "up_markers w1 = up_markers w"
      "up_respawns w1 = up_respawns w"
    using assms(1) by (simp add: lock_pane_def ask_def)
  obtain w2 where 2: "fresh_session env ?p w1 = (None, w2)" "up_markers w2 = up_markers w" "up_respawns w2 = up_respawns w"
    using assms(2) 1 by (simp add: fresh_session_def ask_def)
  obtain w3 where 3: "ask (en_ok env) w2 = (True, w3)" "up_markers w3 = up_markers w" "up_respawns w3 = up_respawns w"
    using assms(1) 2 by (simp add: ask_def)
  obtain q w4 where 4: "read_sequence env ?p w3 = (q, w4)" "up_respawns w4 = up_respawns w"
    using 3 by (simp add: read_sequence_def ask_def)
  have "pane_action plan None (observe_pane h plan None q) h g = Forget"
    by (simp add: pane_action_def observe_pane_def)
  then have "process_plan env limit h g plan k w = (False, k, w4)"
    using assms(3) by (simp add: process_plan_def Let_def 1(1) 2(1) 3 4(1))
  then show ?thesis using 4(2) by blast
qed

section \<open>A pane and an environment\<close>

definition sample_plan :: planned_pane where
  "sample_plan = \<lparr>pl_pane = ''%1'', pl_fingerprint = replicate 64 CHR ''a'', pl_sequence = 3,
     pl_profile = ''Max'', pl_mode = ''opus''\<rparr>"

definition sample_env :: update_env where
  "sample_env = \<lparr>en_owner = (\<lambda>_. True), en_load = (\<lambda>_. No_fault), en_inspect = (\<lambda>_ _. Inr None), en_panes = (\<lambda>_ _. []),
     en_preflight = (\<lambda>_ _ _ _. None),
     en_capture = (\<lambda>_ _. Inr (Some \<lparr>fr_harness = Some Claude_cli, fr_profile = ''Max'', fr_mode = Some ''opus'',
        fr_target = Some (replicate 64 CHR ''a''), fr_exact = Some (replicate 64 CHR ''a''), fr_waiting = True, fr_idle = True\<rparr>)),
     en_update = (\<lambda>_ _ i. Inr i), en_ok = (\<lambda>_. True), en_reply = (\<lambda>_. Done), en_others = (\<lambda>_ _. 0)\<rparr>"

definition failing_env :: update_env where
  "failing_env = sample_env\<lparr>en_capture := (\<lambda>_ _. Inl ''fork: resource temporarily unavailable'')\<rparr>"

definition sample_world :: update_world where
  "sample_world = update_start\<lparr>up_sequence := (\<lambda>_. 3)\<rparr>"

definition fresh_walk :: walk where "fresh_walk = \<lparr>wk_attempts = 0, wk_respawned = False\<rparr>"

lemma sample_calm: "calm sample_env Claude_cli sample_plan"
  by (simp add: calm_def sample_env_def sample_plan_def)

lemma sample_valid: "plan_valid 1 sample_plan"
proof -
  have "is_hexdigit CHR ''a'' \<and> \<not> is_upper CHR ''a''" by code_simp
  then show ?thesis by (simp add: plan_valid_def sample_plan_def u64_max_def list_all_iff)
qed

lemma sample_sequence: "\<forall>p. up_sequence sample_world p \<le> u64_max" "up_markers sample_world (pl_pane sample_plan) = None"
  "up_sequence sample_world (pl_pane sample_plan) = pl_sequence sample_plan"
  by (simp_all add: sample_world_def update_start_def u64_max_def sample_plan_def)

theorem idle_pane_restarts_witness:
  "\<exists>w1 k v. process_plan sample_env 2 Claude_cli 1 sample_plan fresh_walk sample_world = (True, fresh_walk, w1)
     \<and> process_plan sample_env 2 Claude_cli 1 sample_plan fresh_walk w1 = (False, k, v)
     \<and> wk_respawned k \<and> map rs_plan (up_respawns v) = [sample_plan]"
proof -
  note s = sample_calm sample_valid sample_sequence
  obtain w1 where w1: "process_plan sample_env 2 Claude_cli 1 sample_plan fresh_walk sample_world = (True, fresh_walk, w1)"
    "up_respawns w1 = []" "\<forall>p. up_sequence w1 p \<le> u64_max"
    using first_pass [OF s, of 2 fresh_walk] s(3) by (simp add: sample_world_def update_start_def)
  obtain keep k v where v: "process_plan sample_env 2 Claude_cli 1 sample_plan fresh_walk w1 = (keep, k, v)"
    by (metis prod.exhaust)
  have "wk_attempts fresh_walk < 2" by (simp add: fresh_walk_def)
  from idle_pane_restarts [OF s w1(1) refl refl w1(3) this v] show ?thesis using w1 v by auto
qed

theorem failed_capture_forgets_plan_witness:
  "\<exists>w'. process_plan failing_env 2 Claude_cli 1 sample_plan fresh_walk sample_world = (False, fresh_walk, w')
     \<and> up_respawns w' = up_respawns sample_world"
  by (rule failed_capture_forgets_plan) (simp_all add: failing_env_def sample_env_def sample_world_def update_start_def)

theorem plans_are_kept_witness:
  "\<exists>w'. process_plan failing_env 2 Claude_cli 1 sample_plan fresh_walk sample_world = (False, fresh_walk, w')
     \<and> (\<exists>q. pane_changed sample_plan (observe_pane Claude_cli sample_plan
          (fst (fresh_session failing_env ''%1'' (snd (lock_pane failing_env sample_world)))) q))"
proof -
  have "fst (process_plan failing_env 2 Claude_cli 1 sample_plan fresh_walk sample_world) = False
      \<and> fst (snd (process_plan failing_env 2 Claude_cli 1 sample_plan fresh_walk sample_world)) = fresh_walk"
    by (simp add: process_plan_def lock_pane_def fresh_session_def ask_def read_sequence_def Let_def failing_env_def
        sample_env_def sample_world_def update_start_def pane_action_def observe_pane_def sample_plan_def)
  then obtain w' where w': "process_plan failing_env 2 Claude_cli 1 sample_plan fresh_walk sample_world = (False, fresh_walk, w')"
    by (metis prod.collapse)
  from plans_are_kept [OF w'] have "\<exists>q. pane_changed sample_plan (observe_pane Claude_cli sample_plan
          (fst (fresh_session failing_env ''%1'' (snd (lock_pane failing_env sample_world)))) q)"
    by (auto simp: fresh_walk_def sample_world_def update_start_def sample_plan_def)
  then show ?thesis using w' by blast
qed

end
