(* ===== verification/Token_Tally.thy ===== *)
theory Token_Tally
  imports Token_Store
begin

text \<open>
  The local token tally of \<open>src/src/pulse/token.rs\<close>: usage events are added up by day, session, model and
  settings, with at most \<open>max_rows\<close> rows in memory. A page of a full history keeps the smallest
  keys after its cursor and throws larger ones away while it reads; the theorem at the end says that
  it still is the page one would cut out of the complete tally. Events arrive decoded; the
  formats of the transcripts and the walk over the files are not part of the model.
\<close>

section \<open>Rows and events\<close>

type_synonym fine_key = "string \<times> string \<times> string \<times> string"

record token_delta =
  td_input :: nat
  td_output :: nat
  td_cache_write_5m :: nat
  td_cache_write_1h :: nat
  td_cache_read :: nat

record event_dimensions =
  ed_day :: string
  ed_session :: string
  ed_model :: string
  ed_settings :: agent_settings

type_synonym tally_event = "event_dimensions \<times> token_delta \<times> string option"

record fine_tally =
  ft_account :: int
  ft_profile :: string
  ft_machine :: string
  ft_rows :: "(fine_key \<times> token_grain) list"
  ft_seen :: "string list"
  ft_max_rows :: nat
  ft_after :: "fine_key option"
  ft_paged :: bool
  ft_truncated :: bool
  ft_duplicates :: nat
  ft_synthetic :: nat
  ft_malformed :: nat

definition fine_tally_new :: "int \<Rightarrow> string \<Rightarrow> string \<Rightarrow> nat \<Rightarrow> fine_key option \<Rightarrow> bool \<Rightarrow> fine_tally" where
  "fine_tally_new acct prof mach max_rows after paged =
     \<lparr>ft_account = acct, ft_profile = prof, ft_machine = mach, ft_rows = [], ft_seen = [], ft_max_rows = max_rows,
      ft_after = after, ft_paged = paged, ft_truncated = False, ft_duplicates = 0, ft_synthetic = 0, ft_malformed = 0\<rparr>"

text \<open>A \<open>BTreeMap\<close> is its list of entries in key order; this is its \<open>entry\<close>.\<close>

fun map_entry :: "'k::linorder \<Rightarrow> ('v option \<Rightarrow> 'v) \<Rightarrow> ('k \<times> 'v) list \<Rightarrow> ('k \<times> 'v) list" where
  "map_entry k f [] = [(k, f None)]"
| "map_entry k f ((j, v) # rows) =
     (if k < j then (k, f None) # (j, v) # rows
      else if k = j then (j, f (Some v)) # rows
      else (j, v) # map_entry k f rows)"

definition tally_add_counts :: "nat \<Rightarrow> nat \<Rightarrow> nat pulse_result" where
  "tally_add_counts a b =
     (case checked_u64 (a + b) of None \<Rightarrow> Inl (invalid_input ''token tally overflowed'') | Some n \<Rightarrow> Inr n)"

definition event_key :: "token_extern \<Rightarrow> event_dimensions \<Rightarrow> fine_key" where
  "event_key x d = (ed_day d, ed_session d, ed_model d, ext_sha256 x (ed_settings d))"

definition event_valid :: "event_dimensions \<Rightarrow> bool" where
  "event_valid d \<longleftrightarrow> is_ok (session_id_new (ed_session d)) \<and> is_ok (validate_text ''model'' (ed_model d) 256)"

definition new_grain :: "token_extern \<Rightarrow> fine_tally \<Rightarrow> event_dimensions \<Rightarrow> token_grain" where
  "new_grain x t d =
     \<lparr>tok_account = ft_account t, tok_profile = ft_profile t, tok_machine = ft_machine t, tok_session = ed_session d,
      tok_model = ed_model d, tok_settings = ed_settings d, settings_hash = ext_sha256 x (ed_settings d),
      tok_day = ed_day d, tokens_in = 0, tokens_out = 0, cache_write_5m = 0, cache_write_1h = 0, cache_read = 0,
      tok_source = LocalSource\<rparr>"

definition add_delta :: "token_delta \<Rightarrow> token_grain \<Rightarrow> token_grain pulse_result" where
  "add_delta d g =
     and_then (tally_add_counts (tokens_in g) (td_input d)) (\<lambda>a.
     and_then (tally_add_counts (tokens_out g) (td_output d)) (\<lambda>b.
     and_then (tally_add_counts (cache_write_5m g) (td_cache_write_5m d)) (\<lambda>c.
     and_then (tally_add_counts (cache_write_1h g) (td_cache_write_1h d)) (\<lambda>e.
     and_then (tally_add_counts (cache_read g) (td_cache_read d)) (\<lambda>f.
       Inr (g\<lparr>tokens_in := a, tokens_out := b, cache_write_5m := c, cache_write_1h := e, cache_read := f\<rparr>))))))"

text \<open>Room for a new key: the largest row goes when the new key is smaller; otherwise the event is dropped.\<close>

definition make_room :: "fine_key \<Rightarrow> fine_tally \<Rightarrow> (bool \<times> fine_tally) pulse_result" where
  "make_room k t =
     (if k \<in> fst ` set (ft_rows t) \<or> length (ft_rows t) < ft_max_rows t then Inr (True, t)
      else if \<not> ft_paged t then Inl (new_error Storage ''token tally exceeded its output row bound'')
      else let t1 = t\<lparr>ft_truncated := True\<rparr>
        in if ft_rows t \<noteq> [] \<and> k < fst (last (ft_rows t)) then Inr (True, t1\<lparr>ft_rows := butlast (ft_rows t)\<rparr>)
           else Inr (False, t1))"

definition tally_row :: "token_extern \<Rightarrow> event_dimensions \<Rightarrow> token_delta \<Rightarrow> fine_tally \<Rightarrow> fine_tally pulse_result" where
  "tally_row x d delta t =
     (let k = event_key x d;
          g = (case map_of (ft_rows t) k of Some g \<Rightarrow> g | None \<Rightarrow> new_grain x t d)
      in map_ok (\<lambda>g'. t\<lparr>ft_rows := map_entry k (\<lambda>_. g') (ft_rows t)\<rparr>) (add_delta delta g))"

definition tally_add :: "token_extern \<Rightarrow> tally_event \<Rightarrow> fine_tally \<Rightarrow> fine_tally pulse_result" where
  "tally_add x e t =
     (case e of (d, delta, dedupe) \<Rightarrow>
        if (case dedupe of Some u \<Rightarrow> u \<in> set (ft_seen t) | None \<Rightarrow> False)
        then Inr (t\<lparr>ft_duplicates := saturate_u64 (ft_duplicates t + 1)\<rparr>)
        else let t1 = (case dedupe of Some u \<Rightarrow> t\<lparr>ft_seen := u # ft_seen t\<rparr> | None \<Rightarrow> t)
          in if \<not> event_valid d then Inr (t1\<lparr>ft_malformed := saturate_u64 (ft_malformed t1 + 1)\<rparr>)
             else if (case ft_after t1 of Some a \<Rightarrow> event_key x d \<le> a | None \<Rightarrow> False) then Inr t1
             else and_then (make_room (event_key x d) t1) (\<lambda>(keep, t2).
               if keep then tally_row x d delta t2 else Inr t2))"

definition tally_events :: "token_extern \<Rightarrow> tally_event list \<Rightarrow> fine_tally \<Rightarrow> fine_tally pulse_result" where
  "tally_events x es t = try_fold (tally_add x) es t"

definition tally_finish :: "token_extern \<Rightarrow> fine_tally \<Rightarrow> (token_grain list \<times> bool) pulse_result" where
  "tally_finish x t =
     map_ok (\<lambda>_. (map snd (ft_rows t), ft_truncated t)) (try_each (grain_validate x) (map snd (ft_rows t)))"

section \<open>The complete tally\<close>

text \<open>The events that count: the first of each deduplication key, with valid session and model.\<close>

fun accepted_events :: "string list \<Rightarrow> tally_event list \<Rightarrow> (event_dimensions \<times> token_delta) list" where
  "accepted_events seen [] = []"
| "accepted_events seen ((d, delta, dedupe) # es) =
     (if (case dedupe of Some u \<Rightarrow> u \<in> set seen | None \<Rightarrow> False) then accepted_events seen es
      else (if event_valid d then [(d, delta)] else [])
        @ accepted_events (case dedupe of Some u \<Rightarrow> u # seen | None \<Rightarrow> seen) es)"

definition events_of :: "token_extern \<Rightarrow> fine_key \<Rightarrow> (event_dimensions \<times> token_delta) list \<Rightarrow> (event_dimensions \<times> token_delta) list" where
  "events_of x k A = filter (\<lambda>e. event_key x (fst e) = k) A"

definition events_sum :: "(token_delta \<Rightarrow> nat) \<Rightarrow> (event_dimensions \<times> token_delta) list \<Rightarrow> nat" where
  "events_sum f A = sum_list (map (\<lambda>e. f (snd e)) A)"

definition complete_grain :: "token_extern \<Rightarrow> fine_tally \<Rightarrow> (event_dimensions \<times> token_delta) list \<Rightarrow> fine_key \<Rightarrow> token_grain" where
  "complete_grain x t A k =
     (let E = events_of x k A
      in (new_grain x t (fst (hd E)))\<lparr>tokens_in := events_sum td_input E, tokens_out := events_sum td_output E,
           cache_write_5m := events_sum td_cache_write_5m E, cache_write_1h := events_sum td_cache_write_1h E,
           cache_read := events_sum td_cache_read E\<rparr>)"

definition beyond :: "fine_key option \<Rightarrow> fine_key \<Rightarrow> bool" where
  "beyond after k = (case after of Some a \<Rightarrow> a < k | None \<Rightarrow> True)"

definition page_keys :: "token_extern \<Rightarrow> fine_key option \<Rightarrow> (event_dimensions \<times> token_delta) list \<Rightarrow> fine_key list" where
  "page_keys x after A = filter (beyond after) (sorted_list_of_set ((\<lambda>e. event_key x (fst e)) ` set A))"

text \<open>The bounded tally holds the first rows of the complete one, and knows whether there are more.\<close>

definition tallied :: "token_extern \<Rightarrow> (event_dimensions \<times> token_delta) list \<Rightarrow> fine_tally \<Rightarrow> bool" where
  "tallied x A t \<longleftrightarrow> ft_paged t \<and> 0 < ft_max_rows t
     \<and> ft_rows t = map (\<lambda>k. (k, complete_grain x t A k)) (take (ft_max_rows t) (page_keys x (ft_after t) A))
     \<and> ft_truncated t = (ft_max_rows t < length (page_keys x (ft_after t) A))"

section \<open>Maps and sorted keys\<close>

lemma map_entry_keys:
  "sorted ks \<Longrightarrow> distinct ks \<Longrightarrow> map_entry k f (map (\<lambda>j. (j, g j)) ks)
    = map (\<lambda>j. (j, (g(k := f (if k \<in> set ks then Some (g k) else None))) j)) (if k \<in> set ks then ks else insort k ks)"
proof (induction ks)
  case (Cons a ks)
  have gt: "\<forall>j \<in> set ks. a < j" using Cons.prems by (auto simp: order.strict_iff_order)
  consider "k < a" | "k = a" | "a < k" by fastforce
  then show ?case
  proof cases
    case 1
    then have "k \<notin> set (a # ks)" using gt by auto
    then show ?thesis using 1 by (auto simp: intro!: map_cong)
  next
    case 2
    then show ?thesis using gt by (auto intro!: map_cong)
  next
    case 3
    then show ?thesis using Cons by (auto split: if_splits)
  qed
qed simp

lemma take_insort_small:
  fixes P :: "'k::linorder list"
  assumes "sorted P" "0 < n" "n \<le> length P" "k < P ! (n - 1)"
  shows "take n (insort k P) = insort k (take (n - 1) P)"
  using assms
proof (induction P arbitrary: n)
  case (Cons a P)
  obtain m where n: "n = Suc m" using Cons.prems(2) by (cases n) auto
  show ?case
  proof (cases "k \<le> a")
    case True
    then show ?thesis unfolding n by (cases m) auto
  next
    case False
    then have m: "0 < m" using Cons.prems(4) n by (cases m) auto
    then show ?thesis using Cons.IH [of m] Cons.prems n False by (cases m) auto
  qed
qed simp

lemma take_insort_large:
  fixes P :: "'k::linorder list"
  assumes "sorted P" "0 < n" "n \<le> length P" "P ! (n - 1) < k"
  shows "take n (insort k P) = take n P"
  using assms
proof (induction P arbitrary: n)
  case (Cons a P)
  obtain m where n: "n = Suc m" using Cons.prems(2) by (cases n) auto
  have "a \<le> (a # P) ! (n - 1)" using Cons.prems by (cases m) (auto simp: n)
  then have "\<not> k \<le> a" using Cons.prems(4) by simp
  then show ?case using Cons.IH [of m] Cons.prems n by (cases m) auto
qed simp

lemma sorted_take_mem:
  fixes P :: "'k::linorder list"
  assumes "sorted P" "distinct P" "0 < n" "n \<le> length P" "k \<in> set P" "k \<notin> set (take n P)"
  shows "P ! (n - 1) < k"
proof -
  obtain j where j: "j < length P" "P ! j = k" using assms(5) by (auto simp: in_set_conv_nth)
  have "\<not> j < n" using assms(6) j by (auto simp: in_set_conv_nth)
  then have "P ! (n - 1) \<le> P ! j" "n - 1 \<noteq> j" using assms(1,3) j(1) by (auto intro: sorted_nth_mono)
  moreover have "P ! (n - 1) \<noteq> P ! j" using assms(2,3,4) j(1) \<open>n - 1 \<noteq> j\<close> by (simp add: nth_eq_iff_index_eq)
  ultimately show ?thesis using j(2) by simp
qed

section \<open>Keys and sums of one more event\<close>

lemma page_keys_sorted [simp]: "sorted (page_keys x after A)" "distinct (page_keys x after A)"
  by (simp_all add: page_keys_def sorted_wrt_filter)

lemma page_keys_set: "k \<in> set (page_keys x after A) \<longleftrightarrow> beyond after k \<and> (\<exists>e \<in> set A. event_key x (fst e) = k)"
  by (auto simp: page_keys_def)

lemma page_keys_snoc:
  "page_keys x after (A @ [e]) =
    (if \<not> beyond after (event_key x (fst e)) \<or> event_key x (fst e) \<in> set (page_keys x after A) then page_keys x after A
     else insort (event_key x (fst e)) (page_keys x after A))"
proof -
  let ?k = "event_key x (fst e)" and ?S = "(\<lambda>e. event_key x (fst e)) ` set A"
  have img: "(\<lambda>e. event_key x (fst e)) ` set (A @ [e]) = insert ?k ?S" by auto
  show ?thesis
  proof (cases "?k \<in> ?S")
    case True
    then have "insert ?k ?S = ?S" by blast
    then have "page_keys x after (A @ [e]) = page_keys x after A" unfolding page_keys_def img by simp
    then show ?thesis using True by (auto simp: page_keys_set)
  next
    case False
    have "sorted_list_of_set (insert ?k ?S) = insort ?k (sorted_list_of_set ?S)"
      using False by simp
    then have pk: "page_keys x after (A @ [e]) = filter (beyond after) (insort ?k (sorted_list_of_set ?S))"
      unfolding page_keys_def img by simp
    have "?k \<notin> set (page_keys x after A)" using False unfolding page_keys_set by (metis image_eqI)
    then show ?thesis unfolding pk by (cases "beyond after ?k") (simp_all add: page_keys_def filter_insort filter_insort_triv)
  qed
qed

lemma events_of_snoc: "events_of x k (A @ [e]) = events_of x k A @ (if event_key x (fst e) = k then [e] else [])"
  by (simp add: events_of_def)

lemma complete_other: "event_key x (fst e) \<noteq> k \<Longrightarrow> complete_grain x t (A @ [e]) k = complete_grain x t A k"
  by (simp add: complete_grain_def events_of_snoc)

lemma events_of_nonempty: "k \<in> set (page_keys x after A) \<Longrightarrow> events_of x k A \<noteq> []"
  by (auto simp: page_keys_set events_of_def filter_empty_conv)

lemma add_delta_Inr:
  "add_delta d g = Inr g' \<Longrightarrow> g' = g\<lparr>tokens_in := tokens_in g + td_input d, tokens_out := tokens_out g + td_output d,
     cache_write_5m := cache_write_5m g + td_cache_write_5m d, cache_write_1h := cache_write_1h g + td_cache_write_1h d,
     cache_read := cache_read g + td_cache_read d\<rparr>"
  by (auto simp: add_delta_def tally_add_counts_def split: option.splits if_splits sum.splits)

section \<open>One event\<close>

lemma complete_grain_cong:
  "ft_account t' = ft_account t \<Longrightarrow> ft_profile t' = ft_profile t \<Longrightarrow> ft_machine t' = ft_machine t
    \<Longrightarrow> complete_grain x t' A k = complete_grain x t A k"
  by (simp add: complete_grain_def new_grain_def)

lemma complete_grain_add:
  assumes "event_key x d = k"
  shows "add_delta delta (if events_of x k A = [] then new_grain x t d else complete_grain x t A k) = Inr g
    \<Longrightarrow> g = complete_grain x t (A @ [(d, delta)]) k"
  using assms by (auto dest!: add_delta_Inr simp: complete_grain_def events_of_snoc events_sum_def new_grain_def Let_def)

text \<open>What stays the same in a tally while it runs.\<close>

definition same_tally :: "fine_tally \<Rightarrow> fine_tally \<Rightarrow> bool" where
  "same_tally t t' \<longleftrightarrow> ft_account t' = ft_account t \<and> ft_profile t' = ft_profile t \<and> ft_machine t' = ft_machine t
     \<and> ft_max_rows t' = ft_max_rows t \<and> ft_after t' = ft_after t \<and> ft_paged t' = ft_paged t"

lemma map_of_keys: "map_of (map (\<lambda>k. (k, g k)) ks) k = (if k \<in> set ks then Some (g k) else None)"
  by (induction ks) auto

lemma tally_row_effect:
  assumes rows: "ft_rows t = map (\<lambda>k. (k, complete_grain x t A k)) ks" and ks: "sorted ks" "distinct ks"
    and new: "event_key x d \<in> set ks \<longleftrightarrow> events_of x (event_key x d) A \<noteq> []"
    and r: "tally_row x d delta t = Inr t'"
  shows "ft_rows t' = map (\<lambda>k. (k, complete_grain x t (A @ [(d, delta)]) k))
      (if event_key x d \<in> set ks then ks else insort (event_key x d) ks)"
    and "t' = t\<lparr>ft_rows := ft_rows t'\<rparr>"
proof -
  let ?k = "event_key x d"
  let ?old = "if events_of x ?k A = [] then new_grain x t d else complete_grain x t A ?k"
  have mo: "(case map_of (ft_rows t) ?k of Some g \<Rightarrow> g | None \<Rightarrow> new_grain x t d) = ?old"
    unfolding rows map_of_keys using new by auto
  obtain g where g: "add_delta delta ?old = Inr g" "t' = t\<lparr>ft_rows := map_entry ?k (\<lambda>_. g) (ft_rows t)\<rparr>"
    using r unfolding tally_row_def mo Let_def by (cases "add_delta delta ?old") auto
  have gk: "g = complete_grain x t (A @ [(d, delta)]) ?k" by (rule complete_grain_add [OF refl g(1)])
  have "ft_rows t' = map_entry ?k (\<lambda>_. g) (map (\<lambda>k. (k, complete_grain x t A k)) ks)" using g(2) rows by simp
  also have "\<dots> = map (\<lambda>j. (j, ((\<lambda>k. complete_grain x t A k)(?k := g)) j)) (if ?k \<in> set ks then ks else insort ?k ks)"
    by (rule map_entry_keys [OF ks])
  also have "\<dots> = map (\<lambda>k. (k, complete_grain x t (A @ [(d, delta)]) k)) (if ?k \<in> set ks then ks else insort ?k ks)"
    using gk by (intro map_cong) (auto simp: complete_other)
  finally show "ft_rows t' = map (\<lambda>k. (k, complete_grain x t (A @ [(d, delta)]) k)) (if ?k \<in> set ks then ks else insort ?k ks)" .
  show "t' = t\<lparr>ft_rows := ft_rows t'\<rparr>" using g(2) by simp
qed

text \<open>An event that is dropped because its key is not on the page.\<close>

lemma tallied_drop:
  assumes T: "tallied x A t" and k: "event_key x d \<notin> set (take (ft_max_rows t) (page_keys x (ft_after t) (A @ [(d, delta)])))"
    and same: "take (ft_max_rows t) (page_keys x (ft_after t) (A @ [(d, delta)])) = take (ft_max_rows t) (page_keys x (ft_after t) A)"
    and tr: "b = (ft_max_rows t < length (page_keys x (ft_after t) (A @ [(d, delta)])))"
  shows "tallied x (A @ [(d, delta)]) (t\<lparr>ft_truncated := b\<rparr>)"
proof -
  let ?ks = "take (ft_max_rows t) (page_keys x (ft_after t) (A @ [(d, delta)]))"
  have "ft_rows t = map (\<lambda>j. (j, complete_grain x t A j)) ?ks" using T same unfolding tallied_def by simp
  also have "\<dots> = map (\<lambda>j. (j, complete_grain x (t\<lparr>ft_truncated := b\<rparr>) (A @ [(d, delta)]) j)) ?ks"
  proof (rule map_cong [OF refl])
    fix j assume "j \<in> set ?ks"
    then have "event_key x (fst (d, delta)) \<noteq> j" using k by auto
    then show "(j, complete_grain x t A j) = (j, complete_grain x (t\<lparr>ft_truncated := b\<rparr>) (A @ [(d, delta)]) j)"
      by (simp add: complete_other complete_grain_cong [of "t\<lparr>ft_truncated := b\<rparr>" t])
  qed
  finally show ?thesis using T tr unfolding tallied_def by simp
qed

lemma tallied_keys: "tallied x A t \<Longrightarrow> fst ` set (ft_rows t) = set (take (ft_max_rows t) (page_keys x (ft_after t) A))"
  by (simp add: tallied_def image_image)

lemma tallied_last:
  assumes T: "tallied x A t" and full: "ft_max_rows t \<le> length (page_keys x (ft_after t) A)"
  shows "ft_rows t \<noteq> []" "fst (last (ft_rows t)) = page_keys x (ft_after t) A ! (ft_max_rows t - 1)"
    "butlast (ft_rows t) = map (\<lambda>k. (k, complete_grain x t A k)) (take (ft_max_rows t - 1) (page_keys x (ft_after t) A))"
proof -
  let ?P = "page_keys x (ft_after t) A" and ?n = "ft_max_rows t"
  have n: "0 < ?n" and rows: "ft_rows t = map (\<lambda>k. (k, complete_grain x t A k)) (take ?n ?P)" using T by (auto simp: tallied_def)
  have ne: "take ?n ?P \<noteq> []" using n full by auto
  then show "ft_rows t \<noteq> []" unfolding rows by simp
  have "last (take ?n ?P) = ?P ! (?n - 1)" using full n by (subst last_conv_nth [OF ne]) (simp add: min_def)
  then show "fst (last (ft_rows t)) = ?P ! (?n - 1)" unfolding rows using ne by (simp add: last_map)
  have "butlast (take ?n ?P) = take (?n - 1) ?P" using full n by (simp add: butlast_take)
  then show "butlast (ft_rows t) = map (\<lambda>k. (k, complete_grain x t A k)) (take (?n - 1) ?P)"
    unfolding rows by (simp add: map_butlast [symmetric])
qed

lemma tallied_row:
  assumes T: "tallied x A t" and t2: "same_tally t t2" and rows: "ft_rows t2 = map (\<lambda>k. (k, complete_grain x t A k)) ks"
    and ks: "sorted ks" "distinct ks" and new: "event_key x d \<in> set ks \<longleftrightarrow> events_of x (event_key x d) A \<noteq> []"
    and page: "take (ft_max_rows t) (page_keys x (ft_after t) (A @ [(d, delta)]))
      = (if event_key x d \<in> set ks then ks else insort (event_key x d) ks)"
    and tr: "ft_truncated t2 = (ft_max_rows t < length (page_keys x (ft_after t) (A @ [(d, delta)])))"
    and r: "tally_row x d delta t2 = Inr t'"
  shows "tallied x (A @ [(d, delta)]) t'" "same_tally t t'" "ft_seen t' = ft_seen t2"
proof -
  note st = t2 [unfolded same_tally_def]
  have rows2: "ft_rows t2 = map (\<lambda>k. (k, complete_grain x t2 A k)) ks"
    using rows st by (simp add: complete_grain_cong [of t2 t])
  note e = tally_row_effect [OF rows2 ks new r]
  have t': "ft_account t' = ft_account t2" "ft_profile t' = ft_profile t2" "ft_machine t' = ft_machine t2"
    "ft_max_rows t' = ft_max_rows t2" "ft_after t' = ft_after t2" "ft_paged t' = ft_paged t2"
    "ft_truncated t' = ft_truncated t2" "ft_seen t' = ft_seen t2"
    using arg_cong [OF e(2), of ft_account] arg_cong [OF e(2), of ft_profile] arg_cong [OF e(2), of ft_machine]
      arg_cong [OF e(2), of ft_max_rows] arg_cong [OF e(2), of ft_after] arg_cong [OF e(2), of ft_paged]
      arg_cong [OF e(2), of ft_truncated] arg_cong [OF e(2), of ft_seen] by simp_all
  show "same_tally t t'" "ft_seen t' = ft_seen t2" using st t' by (simp_all add: same_tally_def)
  have "ft_rows t' = map (\<lambda>k. (k, complete_grain x t' (A @ [(d, delta)]) k))
      (if event_key x d \<in> set ks then ks else insort (event_key x d) ks)"
    using e(1) t' by (simp add: complete_grain_cong [of t' t2])
  then show "tallied x (A @ [(d, delta)]) t'" using T st t' page tr by (simp add: tallied_def)
qed

lemma not_on_page: "beyond after (event_key x d) \<Longrightarrow> event_key x d \<notin> set (page_keys x after A) \<Longrightarrow> events_of x (event_key x d) A = []"
  by (auto simp: page_keys_set events_of_def filter_empty_conv)

lemma tallied_event:
  assumes T: "tallied x A t" and b: "beyond (ft_after t) (event_key x d)"
    and room: "make_room (event_key x d) t = Inr (keep, t2)" and r: "if keep then tally_row x d delta t2 = Inr t' else t' = t2"
  shows "tallied x (A @ [(d, delta)]) t' \<and> same_tally t t' \<and> ft_seen t' = ft_seen t"
proof -
  let ?k = "event_key x d" and ?n = "ft_max_rows t"
  define P where "P = page_keys x (ft_after t) A"
  have srt: "sorted P" "distinct P" by (simp_all add: P_def)
  have n: "0 < ?n" and paged: "ft_paged t" and rows: "ft_rows t = map (\<lambda>k. (k, complete_grain x t A k)) (take ?n P)"
    and tr: "ft_truncated t = (?n < length P)" using T by (simp_all add: tallied_def P_def)
  have keys: "fst ` set (ft_rows t) = set (take ?n P)" using tallied_keys [OF T] by (simp add: P_def)
  have len: "length (ft_rows t) = min (length P) ?n" unfolding rows by simp
  have next_page: "page_keys x (ft_after t) (A @ [(d, delta)]) = (if ?k \<in> set P then P else insort ?k P)"
    using b by (simp add: page_keys_snoc P_def)
  have same: "same_tally t t" by (simp add: same_tally_def)
  have takeP: "sorted (take m P)" "distinct (take m P)" for m using srt by (simp_all add: sorted_wrt_take)
  consider (old) "?k \<in> set (take ?n P)" | (room) "?k \<notin> set (take ?n P)" "length P < ?n" | (full) "?k \<notin> set (take ?n P)" "?n \<le> length P"
    by linarith
  then show ?thesis
  proof cases
    case old
    then have kp: "keep" "t2 = t" using room by (auto simp: make_room_def keys)
    have kP: "?k \<in> set P" using old by (rule in_set_takeD)
    then have "events_of x ?k A \<noteq> []" unfolding P_def by (rule events_of_nonempty)
    then show ?thesis
      using tallied_row [OF T same rows takeP, of d delta t'] old kP kp r tr next_page by simp
  next
    case room
    then have all: "take ?n P = P" by simp
    have kp: "keep" "t2 = t" using \<open>make_room ?k t = Inr (keep, t2)\<close> room len by (auto simp: make_room_def)
    have kP: "?k \<notin> set P" using room all by simp
    have none: "events_of x ?k A = []" using not_on_page [OF b] kP by (simp add: P_def)
    have "take ?n (insort ?k P) = insort ?k P" using room by simp
    then show ?thesis
      using tallied_row [OF T same rows takeP, of d delta t'] room all kP none kp r tr next_page by simp
  next
    case full
    note lst = tallied_last [OF T, folded P_def, OF full(2)]
    have lenf: "\<not> length (ft_rows t) < ?n" using len full by simp
    show ?thesis
    proof (cases "?k < P ! (?n - 1)")
      case True
      then have kp: "keep" "t2 = t\<lparr>ft_truncated := True, ft_rows := butlast (ft_rows t)\<rparr>"
        using room full(1) lenf lst(1,2) paged by (simp_all add: make_room_def keys Let_def)
      have kP: "?k \<notin> set P" using sorted_take_mem [OF srt n full(2) _ full(1)] True by auto
      then have none: "events_of x ?k A = []" using not_on_page [OF b] by (simp add: P_def)
      have st: "same_tally t t2" by (simp add: kp same_tally_def)
      have rows2: "ft_rows t2 = map (\<lambda>k. (k, complete_grain x t A k)) (take (?n - 1) P)" using lst(3) by (simp add: kp)
      have kt: "?k \<notin> set (take (?n - 1) P)" using kP by (auto dest: in_set_takeD)
      have "take ?n (insort ?k P) = insort ?k (take (?n - 1) P)" by (rule take_insort_small [OF srt(1) n full(2) True])
      then show ?thesis
        using tallied_row [OF T st rows2 takeP, of d delta t'] kt kP none kp r next_page full(2) by simp
    next
      case False
      have "P ! (?n - 1) \<in> set (take ?n P)" using n full(2) by (auto simp: in_set_conv_nth intro!: exI [of _ "?n - 1"])
      then have gt: "P ! (?n - 1) < ?k" using False full(1) by (metis linorder_neqE)
      have kp: "\<not> keep" "t2 = t\<lparr>ft_truncated := True\<rparr>"
        using room full(1) lenf lst(1,2) paged False by (simp_all add: make_room_def keys Let_def)
      have large: "take ?n (insort ?k P) = take ?n P" by (rule take_insort_large [OF srt(1) n full(2) gt])
      have more: "?k \<in> set P \<Longrightarrow> ?n < length P" using full by (metis order_le_neq_trans take_all_iff order_refl)
      have "tallied x (A @ [(d, delta)]) (t\<lparr>ft_truncated := True\<rparr>)"
        by (rule tallied_drop [OF T]) (use next_page large full more in \<open>auto simp: P_def\<close>)
      then show ?thesis using kp r by (simp add: same_tally_def)
    qed
  qed
qed

section \<open>All events\<close>

lemma tallied_same: "same_tally t t' \<Longrightarrow> ft_rows t' = ft_rows t \<Longrightarrow> ft_truncated t' = ft_truncated t \<Longrightarrow> tallied x A t' = tallied x A t"
  by (simp add: tallied_def same_tally_def complete_grain_cong [of t' t])

text \<open>An event before the cursor changes no row of the page.\<close>

lemma tallied_before:
  assumes T: "tallied x A t" and b: "\<not> beyond (ft_after t) (event_key x d)"
  shows "tallied x (A @ [(d, delta)]) t"
proof -
  have pg: "page_keys x (ft_after t) (A @ [(d, delta)]) = page_keys x (ft_after t) A" using b by (simp add: page_keys_snoc)
  have "event_key x d \<notin> set (page_keys x (ft_after t) A)" using b by (simp add: page_keys_set)
  then have "event_key x d \<notin> set (take (ft_max_rows t) (page_keys x (ft_after t) A))" by (auto dest: in_set_takeD)
  then have "tallied x (A @ [(d, delta)]) (t\<lparr>ft_truncated := ft_truncated t\<rparr>)"
    using T by (intro tallied_drop [OF T]) (simp_all add: pg tallied_def)
  then show ?thesis by simp
qed

lemma tally_add_step:
  assumes T: "tallied x A t" and r: "tally_add x (d, delta, u) t = Inr t'"
  shows "same_tally t t'"
    and "tallied x (A @ (if (case u of Some v \<Rightarrow> v \<in> set (ft_seen t) | None \<Rightarrow> False) \<or> \<not> event_valid d then [] else [(d, delta)])) t'"
    and "ft_seen t' = (if (case u of Some v \<Rightarrow> v \<in> set (ft_seen t) | None \<Rightarrow> False) then ft_seen t
      else (case u of Some v \<Rightarrow> v # ft_seen t | None \<Rightarrow> ft_seen t))"
proof -
  let ?dup = "case u of Some v \<Rightarrow> v \<in> set (ft_seen t) | None \<Rightarrow> False"
  define t1 where "t1 = (case u of Some v \<Rightarrow> t\<lparr>ft_seen := v # ft_seen t\<rparr> | None \<Rightarrow> t)"
  have s1: "same_tally t t1" "ft_rows t1 = ft_rows t" "ft_truncated t1 = ft_truncated t"
    "ft_seen t1 = (case u of Some v \<Rightarrow> v # ft_seen t | None \<Rightarrow> ft_seen t)"
    by (auto simp: t1_def same_tally_def split: option.splits)
  have T1: "tallied x A t1" using T tallied_same [OF s1(1-3)] by simp
  have all: "same_tally t t' \<and> tallied x (A @ (if ?dup \<or> \<not> event_valid d then [] else [(d, delta)])) t'
    \<and> ft_seen t' = (if ?dup then ft_seen t else ft_seen t1)"
  proof (cases ?dup)
    case True
    then have "t' = t\<lparr>ft_duplicates := saturate_u64 (ft_duplicates t + 1)\<rparr>" using r by (simp add: tally_add_def)
    then have "same_tally t t'" "ft_rows t' = ft_rows t" "ft_truncated t' = ft_truncated t" "ft_seen t' = ft_seen t"
      by (simp_all add: same_tally_def)
    then show ?thesis using T True tallied_same [of t t'] by simp
  next
    case nd: False
    have r1: "(if \<not> event_valid d then Inr (t1\<lparr>ft_malformed := saturate_u64 (ft_malformed t1 + 1)\<rparr>)
             else if (case ft_after t1 of Some a \<Rightarrow> event_key x d \<le> a | None \<Rightarrow> False) then Inr t1
             else and_then (make_room (event_key x d) t1) (\<lambda>(keep, t2).
               if keep then tally_row x d delta t2 else Inr t2)) = Inr t'"
      using r nd by (simp only: tally_add_def prod.case if_False t1_def [symmetric] Let_def)
    show ?thesis
    proof (cases "event_valid d")
      case False
      then have "t' = t1\<lparr>ft_malformed := saturate_u64 (ft_malformed t1 + 1)\<rparr>" using r1 by simp
      then have "same_tally t t'" "same_tally t1 t'" "ft_rows t' = ft_rows t1" "ft_truncated t' = ft_truncated t1" "ft_seen t' = ft_seen t1"
        using s1(1) by (simp_all add: same_tally_def)
      then show ?thesis using T1 False nd tallied_same [of t1 t'] by simp
    next
      case v: True
      have bey: "(case ft_after t1 of Some a \<Rightarrow> event_key x d \<le> a | None \<Rightarrow> False) \<longleftrightarrow> \<not> beyond (ft_after t1) (event_key x d)"
        by (simp add: beyond_def not_less split: option.split)
      show ?thesis
      proof (cases "beyond (ft_after t1) (event_key x d)")
        case False
        then have "t' = t1" using r1 v bey by simp
        then show ?thesis using tallied_before [OF T1 False] s1(1) v nd by simp
      next
        case True
        have r2: "and_then (make_room (event_key x d) t1) (\<lambda>(keep, t2). if keep then tally_row x d delta t2 else Inr t2) = Inr t'"
          using r1 v bey True by simp
        then obtain keep t2 where m: "make_room (event_key x d) t1 = Inr (keep, t2)"
          by (cases "make_room (event_key x d) t1") auto
        have "if keep then tally_row x d delta t2 = Inr t' else t' = t2" using r2 m by (auto split: if_splits)
        from tallied_event [OF T1 True m this]
        show ?thesis using s1(1) v nd by (auto simp: same_tally_def)
      qed
    qed
  qed
  show "same_tally t t'" using all by blast
  show "tallied x (A @ (if ?dup \<or> \<not> event_valid d then [] else [(d, delta)])) t'" using all by blast
  show "ft_seen t' = (if ?dup then ft_seen t else (case u of Some v \<Rightarrow> v # ft_seen t | None \<Rightarrow> ft_seen t))"
    using all s1(4) by simp
qed

lemma tally_events_tallied:
  "tallied x A t \<Longrightarrow> tally_events x es t = Inr t' \<Longrightarrow> same_tally t t' \<and> tallied x (A @ accepted_events (ft_seen t) es) t'"
proof (induction es arbitrary: A t)
  case Nil
  then show ?case by (simp add: tally_events_def same_tally_def)
next
  case (Cons e es)
  obtain d delta u where e: "e = (d, delta, u)" by (metis prod.exhaust)
  obtain t1 where t1: "tally_add x (d, delta, u) t = Inr t1" "tally_events x es t1 = Inr t'"
    using Cons.prems(2) unfolding e tally_events_def by (cases "tally_add x (d, delta, u) t") auto
  note st = tally_add_step [OF Cons.prems(1) t1(1)]
  have "same_tally t1 t' \<and> tallied x ((A @ (if (case u of Some v \<Rightarrow> v \<in> set (ft_seen t) | None \<Rightarrow> False) \<or> \<not> event_valid d
      then [] else [(d, delta)])) @ accepted_events (ft_seen t1) es) t'"
    by (rule Cons.IH [OF st(2) t1(2)])
  moreover have "accepted_events (ft_seen t) (e # es) =
      (if (case u of Some v \<Rightarrow> v \<in> set (ft_seen t) | None \<Rightarrow> False) \<or> \<not> event_valid d then [] else [(d, delta)])
      @ accepted_events (ft_seen t1) es"
    unfolding e st(3) by simp
  ultimately show ?case using st(1) by (auto simp: same_tally_def)
qed

lemma tallied_new: "0 < n \<Longrightarrow> tallied x [] (fine_tally_new acct prof mach n after True)"
  by (simp add: tallied_def fine_tally_new_def page_keys_def)

lemma bounded_tally:
  assumes n: "0 < n" and r: "tally_events x es (fine_tally_new acct prof mach n after True) = Inr t"
  shows "ft_rows t = map (\<lambda>k. (k, complete_grain x t (accepted_events [] es) k)) (take n (page_keys x after (accepted_events [] es)))"
    and "ft_truncated t \<longleftrightarrow> n < length (page_keys x after (accepted_events [] es))"
    and "ft_account t = acct" "ft_profile t = prof" "ft_machine t = mach"
proof -
  have "same_tally (fine_tally_new acct prof mach n after True) t
      \<and> tallied x ([] @ accepted_events (ft_seen (fine_tally_new acct prof mach n after True)) es) t"
    by (rule tally_events_tallied [OF tallied_new [OF n] r])
  then show "ft_rows t = map (\<lambda>k. (k, complete_grain x t (accepted_events [] es) k)) (take n (page_keys x after (accepted_events [] es)))"
    and "ft_truncated t \<longleftrightarrow> n < length (page_keys x after (accepted_events [] es))"
    and "ft_account t = acct" "ft_profile t = prof" "ft_machine t = mach"
    by (simp_all add: tallied_def same_tally_def fine_tally_new_def)
qed

section \<open>Pages\<close>

record tally_cursor =
  tc_day :: string
  tc_session :: string
  tc_model :: string
  tc_settings_hash :: string
  tc_source :: token_source

definition cursor_of_grain :: "token_grain \<Rightarrow> tally_cursor" where
  "cursor_of_grain g = \<lparr>tc_day = tok_day g, tc_session = tok_session g, tc_model = tok_model g,
     tc_settings_hash = settings_hash g, tc_source = tok_source g\<rparr>"

definition token_source_order :: "token_source \<Rightarrow> nat" where
  "token_source_order s = (case s of LocalSource \<Rightarrow> 0 | IngestSource \<Rightarrow> 1)"

definition cursor_key :: "tally_cursor \<Rightarrow> fine_key" where
  "cursor_key c = (tc_day c, tc_session c, tc_model c, tc_settings_hash c)"

definition cursor_less :: "tally_cursor \<Rightarrow> tally_cursor \<Rightarrow> bool" where
  "cursor_less a b \<longleftrightarrow> (cursor_key a, token_source_order (tc_source a)) < (cursor_key b, token_source_order (tc_source b))"

definition parse_tally_day :: "token_extern \<Rightarrow> string \<Rightarrow> unit pulse_result" where
  "parse_tally_day x day =
     (case ext_parse_date x day of Inl e \<Rightarrow> Inl (invalid_input (''invalid tally day: '' @ e)) | Inr _ \<Rightarrow> Inr ())"

definition cursor_validate :: "token_extern \<Rightarrow> tally_cursor \<Rightarrow> unit pulse_result" where
  "cursor_validate x c =
     and_then (parse_tally_day x (tc_day c)) (\<lambda>_.
     and_then (session_id_new (tc_session c)) (\<lambda>_.
       ensure (tc_model c \<noteq> [] \<and> length (tc_model c) \<le> 256 \<and> \<not> has_control (tc_model c)
           \<and> length (tc_settings_hash c) = 64
           \<and> list_all (\<lambda>b. is_ascii_digit b \<or> 97 \<le> byte_of b \<and> byte_of b \<le> 102) (tc_settings_hash c)
           \<and> tc_source c = LocalSource)
         (invalid_input ''Pulse token tally cursor is invalid'')))"

definition default_max_rows :: nat where "default_max_rows = 5000"

text \<open>The coarse view of a page: the fine rows of one day and model added up.\<close>

record coarse_row =
  cr_account :: int
  cr_profile :: string
  cr_machine :: string
  cr_day :: string
  cr_model :: string
  cr_in :: nat
  cr_out :: nat
  cr_cache_creation :: nat
  cr_cache_read :: nat

definition coarse_add :: "token_grain \<Rightarrow> coarse_row \<Rightarrow> coarse_row pulse_result" where
  "coarse_add g r =
     and_then (tally_add_counts (cr_in r) (tokens_in g)) (\<lambda>a.
     and_then (tally_add_counts (cr_out r) (tokens_out g)) (\<lambda>b.
     and_then (tally_add_counts (cache_write_5m g) (cache_write_1h g)) (\<lambda>w.
     and_then (tally_add_counts (cr_cache_creation r) w) (\<lambda>c.
     and_then (tally_add_counts (cr_cache_read r) (cache_read g)) (\<lambda>d.
       Inr (r\<lparr>cr_in := a, cr_out := b, cr_cache_creation := c, cr_cache_read := d\<rparr>))))))"

definition coarse_step ::
    "token_grain \<Rightarrow> ((string \<times> string) \<times> coarse_row) list \<Rightarrow> ((string \<times> string) \<times> coarse_row) list pulse_result" where
  "coarse_step g rows =
     (let k = (tok_day g, tok_model g);
          r = (case map_of rows k of Some r \<Rightarrow> r | None \<Rightarrow>
            \<lparr>cr_account = tok_account g, cr_profile = tok_profile g, cr_machine = tok_machine g, cr_day = tok_day g,
             cr_model = tok_model g, cr_in = 0, cr_out = 0, cr_cache_creation = 0, cr_cache_read = 0\<rparr>)
      in map_ok (\<lambda>r'. map_entry k (\<lambda>_. r') rows) (coarse_add g r))"

definition coarse_rows :: "token_grain list \<Rightarrow> coarse_row list pulse_result" where
  "coarse_rows gs = map_ok (map snd) (try_fold coarse_step gs [])"

text \<open>
  What a scan of the local files finds: the generation of the files before, the events, the generation
  after, each of which can fail.
\<close>

record tally_scan =
  scan_before :: "string pulse_result"
  scan_events :: "tally_event list pulse_result"
  scan_after :: "string pulse_result"

record tally_page =
  page_grains :: "token_grain list"
  page_coarse :: "coarse_row list"
  page_next :: "tally_cursor option"
  page_complete :: bool
  page_generation :: string

definition tally_profile_page ::
    "token_extern \<Rightarrow> token_scope \<Rightarrow> tally_cursor option \<Rightarrow> nat \<Rightarrow> tally_scan \<Rightarrow> tally_page pulse_result" where
  "tally_profile_page x scope after max_rows scan =
     (case scope of (acct, prof, mach) \<Rightarrow>
        if max_rows = 0 \<or> default_max_rows < max_rows
        then Inl (invalid_input (''token tally max_rows must be between 1 and '' @ show_nat default_max_rows))
        else and_then (scan_before scan) (\<lambda>before.
          and_then (case after of None \<Rightarrow> Inr None | Some c \<Rightarrow> map_ok (\<lambda>_. Some (cursor_key c)) (cursor_validate x c)) (\<lambda>key.
          and_then (scan_events scan) (\<lambda>es.
          and_then (tally_events x es (fine_tally_new acct prof mach max_rows key True)) (\<lambda>t.
          and_then (tally_finish x t) (\<lambda>(grains, truncated).
          and_then (coarse_rows grains) (\<lambda>coarse.
          and_then (scan_after scan) (\<lambda>gen.
            if before \<noteq> gen then Inl (new_error Conflict ''Pulse token source changed during full-history paging'')
            else Inr \<lparr>page_grains = grains, page_coarse = coarse, page_next = (if grains = [] then None else Some (cursor_of_grain (last grains))),
                      page_complete = \<not> truncated, page_generation = before\<rparr>))))))))"

text \<open>The complete list of grains of a scope, in the order of its keys.\<close>

definition complete_grains :: "token_extern \<Rightarrow> token_scope \<Rightarrow> tally_event list \<Rightarrow> token_grain list" where
  "complete_grains x scope es =
     (case scope of (acct, prof, mach) \<Rightarrow>
        map (complete_grain x (fine_tally_new acct prof mach 1 None True) (accepted_events [] es))
          (page_keys x None (accepted_events [] es)))"

definition grain_key :: "token_grain \<Rightarrow> fine_key" where
  "grain_key g = (tok_day g, tok_session g, tok_model g, settings_hash g)"

definition after_key :: "tally_cursor option \<Rightarrow> fine_key option" where
  "after_key after = map_option cursor_key after"

lemma complete_grain_key: "events_of x k A \<noteq> [] \<Longrightarrow> grain_key (complete_grain x t A k) = k"
proof -
  assume ne: "events_of x k A \<noteq> []"
  then have "hd (events_of x k A) \<in> set (events_of x k A)" by (rule hd_in_set)
  then have "event_key x (fst (hd (events_of x k A))) = k" by (auto simp: events_of_def)
  then show ?thesis by (simp add: grain_key_def complete_grain_def Let_def new_grain_def event_key_def)
qed

lemma complete_keys:
  "map grain_key (map (complete_grain x t A) (page_keys x after A)) = page_keys x after A"
  by (auto intro!: map_idI simp: complete_grain_key events_of_nonempty)

lemma page_keys_after: "page_keys x after A = filter (beyond after) (page_keys x None A)"
  by (simp add: page_keys_def beyond_def)

lemma complete_after:
  "map (complete_grain x t A) (page_keys x after A) = filter (\<lambda>g. beyond after (grain_key g)) (map (complete_grain x t A) (page_keys x None A))"
proof -
  have "filter (\<lambda>g. beyond after (grain_key g)) (map (complete_grain x t A) ks) = map (complete_grain x t A) (filter (beyond after) ks)"
    if "\<forall>k \<in> set ks. grain_key (complete_grain x t A k) = k" for ks
    using that by (induction ks) auto
  moreover have "\<forall>k \<in> set (page_keys x None A). grain_key (complete_grain x t A k) = k"
    using complete_grain_key events_of_nonempty by blast
  ultimately show ?thesis by (simp add: page_keys_after [of x after])
qed

text \<open>
  A page of a full history holds exactly the first rows after its cursor that the complete tally of the same
  events has, each with its complete counts, and says whether rows are left; although no more than
  \<open>max_rows\<close> rows are ever kept and rows are thrown away while events still come in.
\<close>

lemma tally_page_cut:
  assumes "tally_profile_page x scope after max_rows scan = Inr p" and es: "scan_events scan = Inr es"
  shows "page_grains p = take max_rows (filter (\<lambda>g. beyond (after_key after) (grain_key g)) (complete_grains x scope es))"
    and "page_complete p \<longleftrightarrow> length (filter (\<lambda>g. beyond (after_key after) (grain_key g)) (complete_grains x scope es)) \<le> max_rows"
    and "\<forall>g \<in> set (page_grains p). grain_validate x g = Inr ()"
    and "page_next p = (if page_grains p = [] then None else Some (cursor_of_grain (last (page_grains p))))"
    and "scan_before scan = Inr (page_generation p)" "0 < max_rows" "max_rows \<le> default_max_rows"
proof -
  obtain acct prof mach where scope: "scope = (acct, prof, mach)" by (metis prod.exhaust)
  let ?rest = "map (complete_grain x (fine_tally_new acct prof mach 1 None True) (accepted_events [] es)) (page_keys x (after_key after) (accepted_events [] es))"
  have bounds: "max_rows \<noteq> 0" "max_rows \<le> default_max_rows"
    using assms(1) unfolding tally_profile_page_def scope by (auto split: if_splits)
  obtain before where b: "scan_before scan = Inr before"
    using assms(1) bounds unfolding tally_profile_page_def scope by (cases "scan_before scan") auto
  have k: "(case after of None \<Rightarrow> Inr None | Some c \<Rightarrow> map_ok (\<lambda>_. Some (cursor_key c)) (cursor_validate x c)) = Inr (after_key after)"
    using assms(1) bounds b unfolding tally_profile_page_def scope after_key_def
    by (cases after; cases "cursor_validate x (the after)") auto
  obtain t where t: "tally_events x es (fine_tally_new acct prof mach max_rows (after_key after) True) = Inr t"
    using assms bounds b k unfolding tally_profile_page_def scope
    by (cases "tally_events x es (fine_tally_new acct prof mach max_rows (after_key after) True)") auto
  note T = bounded_tally [OF _ t]
  have n: "0 < max_rows" using bounds by simp
  have rows: "map snd (ft_rows t) = take max_rows ?rest"
    using T(1,3,4,5) [OF n]
    by (simp add: take_map comp_def complete_grain_cong [of t "fine_tally_new acct prof mach 1 None True"] fine_tally_new_def)
  have p: "try_each (grain_validate x) (map snd (ft_rows t)) = Inr () \<and> (\<exists>coarse. p = \<lparr>page_grains = map snd (ft_rows t), page_coarse = coarse,
      page_next = (if map snd (ft_rows t) = [] then None else Some (cursor_of_grain (last (map snd (ft_rows t))))),
      page_complete = \<not> ft_truncated t, page_generation = before\<rparr>)"
    using assms bounds b k t unfolding tally_profile_page_def scope tally_finish_def
    by (cases "try_each (grain_validate x) (map snd (ft_rows t))"; cases "coarse_rows (map snd (ft_rows t))"; cases "scan_after scan")
      (auto split: if_splits)
  have cut: "?rest = filter (\<lambda>g. beyond (after_key after) (grain_key g)) (complete_grains x scope es)"
    unfolding complete_grains_def scope prod.case by (rule complete_after)
  have len: "length ?rest = length (page_keys x (after_key after) (accepted_events [] es))" by simp
  show "page_grains p = take max_rows (filter (\<lambda>g. beyond (after_key after) (grain_key g)) (complete_grains x scope es))"
    using p rows unfolding cut by auto
  show "page_complete p \<longleftrightarrow> length (filter (\<lambda>g. beyond (after_key after) (grain_key g)) (complete_grains x scope es)) \<le> max_rows"
    using p T(2) [OF n] len unfolding cut by (auto simp: not_less)
  show "\<forall>g \<in> set (page_grains p). grain_validate x g = Inr ()" using p by (auto simp: try_each_Inr)
  show "page_next p = (if page_grains p = [] then None else Some (cursor_of_grain (last (page_grains p))))" using p by auto
  show "scan_before scan = Inr (page_generation p)" "0 < max_rows" "max_rows \<le> default_max_rows" using p b bounds by auto
qed

section \<open>An example\<close>

definition tally_example_event :: "string \<Rightarrow> nat \<Rightarrow> string option \<Rightarrow> tally_event" where
  "tally_example_event session n dedupe =
     (\<lparr>ed_day = ''2026-01-01'', ed_session = session, ed_model = ''m'', ed_settings = default_agent_settings\<rparr>,
      \<lparr>td_input = n, td_output = 0, td_cache_write_5m = 0, td_cache_write_1h = 0, td_cache_read = 0\<rparr>, dedupe)"

definition example_generation :: string where
  "example_generation = replicate 64 CHR ''0''"

definition tally_example_scan :: "tally_event list \<Rightarrow> tally_scan" where
  "tally_example_scan es = \<lparr>scan_before = Inr example_generation, scan_events = Inr es, scan_after = Inr example_generation\<rparr>"

definition tally_example_events :: "tally_event list" where
  "tally_example_events = [tally_example_event ''t'' 5 None, tally_example_event ''s'' 7 (Some ''u''), tally_example_event ''s'' 7 (Some ''u''),
     tally_example_event ''s'' 2 None]"

lemma example_counts [simp]: "n < 1000 \<Longrightarrow> checked_u64 n = Some n"
  by (simp add: checked_u64_def u64_max_def)


lemmas tally_example_eval = tally_events_def tally_example_event_def tally_add_def fine_tally_new_def event_valid_def session_id_new_def
  validate_text_def has_control_def is_trimmed_def code_points_def is_control_def is_whitespace_def byte_of_def event_key_def
  example_extern_def make_room_def tally_row_def new_grain_def add_delta_def tally_add_counts_def

lemma tally_example_page:
  "\<exists>p. tally_profile_page example_extern (1, ''deepseek'', ''host'') None 1 (tally_example_scan tally_example_events) = Inr p
     \<and> map (\<lambda>g. (tok_session g, tokens_in g)) (page_grains p) = [(''s'', 9)] \<and> \<not> page_complete p"
proof -
  have t: "tally_events example_extern tally_example_events (fine_tally_new 1 ''deepseek'' ''host'' 1 None True) =
    Inr \<lparr>ft_account = 1, ft_profile = ''deepseek'', ft_machine = ''host'', ft_rows = [((''2026-01-01'', ''s'', ''m'', ''hash''), example_grain 9)],
      ft_seen = [''u''], ft_max_rows = 1, ft_after = None, ft_paged = True, ft_truncated = True, ft_duplicates = 1, ft_synthetic = 0, ft_malformed = 0\<rparr>"
    by (simp add: tally_example_events_def tally_example_eval example_grain_def Let_def saturate_u64_def u64_max_def)
  have c: "is_ok (coarse_rows [example_grain 9])"
    by (simp add: coarse_rows_def coarse_step_def coarse_add_def tally_add_counts_def example_grain_def Let_def)
  then obtain cs where cs: "coarse_rows [example_grain 9] = Inr cs" by (auto simp: result_simps)
  show ?thesis
    unfolding tally_profile_page_def
    by (simp add: t tally_finish_def example_grain_validE cs tally_example_scan_def default_max_rows_def del: One_nat_def) (simp add: example_grain_def)
qed

text \<open>
  C18. What a page keeps: although at most \<open>max_rows\<close> rows are ever in memory and rows are thrown away while events
  still come in, a page holds exactly the first rows after its cursor that the complete tally of the same events
  has, each with its complete counts, and it says that nothing is left exactly when nothing is.
\<close>

theorem bounded_page_is_complete_cut:
  assumes "tally_profile_page x scope after max_rows scan = Inr p" and "scan_events scan = Inr es"
  shows "page_grains p = take max_rows (filter (\<lambda>g. beyond (after_key after) (grain_key g)) (complete_grains x scope es))
    \<and> (page_complete p \<longleftrightarrow> length (filter (\<lambda>g. beyond (after_key after) (grain_key g)) (complete_grains x scope es)) \<le> max_rows)"
  using tally_page_cut(1,2) [OF assms] by blast

theorem bounded_page_is_complete_cut_witness:
  "\<exists>p::tally_page. map (\<lambda>g. (tok_session g, tokens_in g)) (page_grains p) = [(''s'', 9)]
     \<and> page_grains p = take 1 (filter (\<lambda>g. beyond (after_key None) (grain_key g))
         (complete_grains example_extern (1, ''deepseek'', ''host'') tally_example_events))
     \<and> \<not> length (filter (\<lambda>g. beyond (after_key None) (grain_key g))
         (complete_grains example_extern (1, ''deepseek'', ''host'') tally_example_events)) \<le> 1"
proof -
  obtain p where p: "tally_profile_page example_extern (1, ''deepseek'', ''host'') None 1 (tally_example_scan tally_example_events) = Inr p"
    "map (\<lambda>g. (tok_session g, tokens_in g)) (page_grains p) = [(''s'', 9)]" "\<not> page_complete p"
    using tally_example_page by (elim exE conjE) (rule that)
  have e: "scan_events (tally_example_scan tally_example_events) = Inr tally_example_events" by (simp add: tally_example_scan_def)
  note c = bounded_page_is_complete_cut [OF p(1) e]
  show ?thesis by (rule exI [of _ p], intro conjI) (rule p(2), rule c [THEN conjunct1], rule p(3) [unfolded c [THEN conjunct2]])
qed

end
