(* ===== verification/Token_Backfill.thy ===== *)
theory Token_Backfill
  imports Token_Tally
begin

text \<open>
  The backfill of a full token history: the progress rows of \<open>src/src/pulse/store/sqlite.rs\<close>, which move together
  with the rows of a page, and the loop of \<open>src/src/pulse/ops.rs\<close> that collects and applies page after page,
  starts over when the files change, and can be cancelled at every step. A cancelled call to the
  store may or may not have been carried out.
\<close>

section \<open>Progress rows\<close>

record backfill_state =
  bf_account :: int
  bf_profile :: string
  bf_machine :: string
  bf_generation :: nat
  bf_source :: string
  bf_revision :: nat
  bf_cursor :: "tally_cursor option"
  bf_complete :: bool

record backfill_db =
  bd_store :: store
  bd_progress :: "backfill_state list"

type_synonym 'a backfill_op = "backfill_db \<Rightarrow> pulse_error + 'a \<times> backfill_db"

definition bf_scope :: "backfill_state \<Rightarrow> token_scope" where
  "bf_scope s = (bf_account s, bf_profile s, bf_machine s)"

definition source_validate :: "string \<Rightarrow> unit pulse_result" where
  "source_validate v =
     ensure (length v = 64 \<and> list_all (\<lambda>b. is_ascii_digit b \<or> 97 \<le> byte_of b \<and> byte_of b \<le> 102) v)
       (invalid_input ''Pulse token source generation is invalid'')"

definition backfill_state_validate :: "token_extern \<Rightarrow> backfill_state \<Rightarrow> unit pulse_result" where
  "backfill_state_validate x s =
     (if bf_generation s = 0 then Inl (invalid_input ''Pulse token backfill generation is invalid'')
      else and_then (source_validate (bf_source s)) (\<lambda>_.
        case bf_cursor s of None \<Rightarrow> Inr () | Some c \<Rightarrow> cursor_validate x c))"

definition load_backfill :: "token_extern \<Rightarrow> token_scope \<Rightarrow> backfill_db \<Rightarrow> backfill_state option pulse_result" where
  "load_backfill x scope db =
     (case find (\<lambda>s. bf_scope s = scope) (bd_progress db) of
        None \<Rightarrow> Inr None
      | Some s \<Rightarrow> map_ok (\<lambda>_. Some s) (backfill_state_validate x s))"

definition set_progress :: "backfill_state \<Rightarrow> backfill_db \<Rightarrow> backfill_db" where
  "set_progress s db = db\<lparr>bd_progress := update_where (\<lambda>r. bf_scope r = bf_scope s) (\<lambda>_. s) (bd_progress db)\<rparr>"

text \<open>\<open>begin_sqlite_token_backfill\<close>: a new row, a new generation, or the row as it is.\<close>

definition begin_token_backfill :: "token_extern \<Rightarrow> token_scope \<Rightarrow> string \<Rightarrow> bool \<Rightarrow> backfill_state backfill_op" where
  "begin_token_backfill x scope src restart_completed db =
     and_then (source_validate src) (\<lambda>_.
     and_then (load_backfill x scope db) (\<lambda>current.
       case current of
         None \<Rightarrow>
           and_then (allocate_token_revision scope (bd_store db)) (\<lambda>(rv, st1).
           and_then (as_u64 rv) (\<lambda>n.
             case scope of (acct, prof, mach) \<Rightarrow>
               let s = \<lparr>bf_account = acct, bf_profile = prof, bf_machine = mach, bf_generation = 1, bf_source = src,
                        bf_revision = n, bf_cursor = None, bf_complete = False\<rparr>
               in Inr (s, \<lparr>bd_store = st1, bd_progress = bd_progress db @ [s]\<rparr>)))
       | Some s \<Rightarrow>
           if bf_source s \<noteq> src \<or> bf_complete s \<and> restart_completed
           then and_then (allocate_token_revision scope (bd_store db)) (\<lambda>(rv, st1).
             (case checked_u64 (bf_generation s + 1) of
                None \<Rightarrow> Inl (new_error Storage ''backfill generation overflowed'')
              | Some g \<Rightarrow>
                  and_then (as_u64 rv) (\<lambda>n.
                    if i64_max < int g then Inl (new_error Storage ''backfill generation overflowed'')
                    else let s' = s\<lparr>bf_generation := g, bf_source := src, bf_revision := n, bf_cursor := None, bf_complete := False\<rparr>
                      in Inr (s', set_progress s' (db\<lparr>bd_store := st1\<rparr>)))))
           else Inr (s, db)))"

record backfill_page =
  bp_expected :: backfill_state
  bp_rows :: "token_grain list"
  bp_next :: "tally_cursor option"
  bp_complete :: bool

definition max_backfill_page_rows :: nat where "max_backfill_page_rows = 5000"

text \<open>The rows of a page are in the scope and in strict order after the cursor; the result is the last cursor.\<close>

fun backfill_rows_validate ::
    "token_extern \<Rightarrow> backfill_state \<Rightarrow> tally_cursor option \<Rightarrow> token_grain list \<Rightarrow> tally_cursor option pulse_result" where
  "backfill_rows_validate x s prev [] = Inr prev"
| "backfill_rows_validate x s prev (g # gs) =
     and_then (grain_validate x g) (\<lambda>_.
       if grain_scope g \<noteq> bf_scope s \<or> tok_source g \<noteq> LocalSource
       then Inl (new_error Conflict ''Pulse token backfill row is outside its account scope'')
       else if (case prev of Some c \<Rightarrow> \<not> cursor_less c (cursor_of_grain g) | None \<Rightarrow> False)
       then Inl (invalid_input ''Pulse token backfill rows are not strictly ordered'')
       else backfill_rows_validate x s (Some (cursor_of_grain g)) gs)"

definition backfill_page_validate :: "token_extern \<Rightarrow> backfill_page \<Rightarrow> unit pulse_result" where
  "backfill_page_validate x p =
     and_then (backfill_state_validate x (bp_expected p)) (\<lambda>_.
       if bf_complete (bp_expected p) \<or> max_backfill_page_rows < length (bp_rows p) \<or> bp_rows p = [] \<and> \<not> bp_complete p
       then Inl (invalid_input ''Pulse token backfill page is invalid'')
       else and_then (backfill_rows_validate x (bp_expected p) (bf_cursor (bp_expected p)) (bp_rows p)) (\<lambda>end_cursor.
         if bp_next p \<noteq> end_cursor \<or> \<not> bp_complete p \<and> bp_next p = None
         then Inl (invalid_input ''Pulse token backfill next cursor does not match its rows'')
         else Inr ()))"

text \<open>\<open>apply_sqlite_token_backfill_page\<close>: compare and swap of the progress row, with the rows of the page.\<close>

definition apply_backfill_page :: "token_extern \<Rightarrow> backfill_page \<Rightarrow> backfill_state backfill_op" where
  "apply_backfill_page x p db =
     and_then (backfill_page_validate x p) (\<lambda>_.
     and_then (load_backfill x (bf_scope (bp_expected p)) db) (\<lambda>current.
       case current of
         None \<Rightarrow> Inl (new_error Conflict ''backfill cursor is missing'')
       | Some s \<Rightarrow>
           if s \<noteq> bp_expected p then Inl (new_error Conflict ''backfill cursor changed concurrently'')
           else if i64_max < int (bf_revision (bp_expected p))
           then Inl (new_error Storage ''backfill write revision overflowed'')
           else and_then (try_fold (\<lambda>g st. map_ok snd (upsert_token_at_revision x g (int (bf_revision (bp_expected p))) True st))
                  (bp_rows p) (bd_store db)) (\<lambda>st1.
             let s' = (bp_expected p)\<lparr>bf_cursor := bp_next p, bf_complete := bp_complete p\<rparr>
             in Inr (s', set_progress s' (db\<lparr>bd_store := st1\<rparr>)))))"

section \<open>The loop\<close>

text \<open>
  What the loop asks for, by the number of the question: the generation of the files, a page, and whether the
  work was cancelled there (with the effect of a store call or without it).
\<close>

record backfill_source =
  col_generation :: "nat \<Rightarrow> string pulse_result"
  col_page :: "nat \<Rightarrow> tally_cursor option \<Rightarrow> tally_page pulse_result"
  col_cancelled :: "nat \<Rightarrow> bool option"

datatype backfill_end = Backfill_finished nat | Backfill_cancelled | Backfill_failed pulse_error | Backfill_running

definition max_generation_restarts :: nat where "max_generation_restarts = 3"

definition run_cancellable ::
    "bool option \<Rightarrow> 'a backfill_op \<Rightarrow> backfill_db \<Rightarrow> (backfill_end \<times> backfill_db) + 'a \<times> backfill_db" where
  "run_cancellable cancelled f db =
     (case cancelled of
        Some applied \<Rightarrow> Inl (Backfill_cancelled, case f db of Inr (_, db') \<Rightarrow> if applied then db' else db | Inl _ \<Rightarrow> db)
      | None \<Rightarrow> (case f db of Inl e \<Rightarrow> Inl (Backfill_failed e, db) | Inr r \<Rightarrow> Inr r))"

text \<open>\<open>FullHistoryRows::from_page\<close>\<close>

definition collect_backfill_page :: "backfill_source \<Rightarrow> nat \<Rightarrow> tally_cursor option \<Rightarrow> tally_page backfill_op" where
  "collect_backfill_page col i after db =
     and_then (col_page col i after) (\<lambda>p.
       if max_backfill_page_rows < length (page_grains p)
       then Inl (new_error Internal ''Pulse full-history page violated its row bound'')
       else Inr (p, db))"

text \<open>\<open>NativeFullHistoryCollector\<close>: pages of the local files, as each scan finds them.\<close>

definition file_collector ::
    "token_extern \<Rightarrow> token_scope \<Rightarrow> (nat \<Rightarrow> tally_scan) \<Rightarrow> (nat \<Rightarrow> bool option) \<Rightarrow> backfill_source" where
  "file_collector x scope scans cancelled =
     \<lparr>col_generation = (\<lambda>i. scan_before (scans i)),
      col_page = (\<lambda>i after. tally_profile_page x scope after max_backfill_page_rows (scans i)),
      col_cancelled = cancelled\<rparr>"

fun backfill_loop ::
    "nat \<Rightarrow> token_extern \<Rightarrow> token_scope \<Rightarrow> backfill_source \<Rightarrow> nat \<Rightarrow> nat \<Rightarrow> nat \<Rightarrow> backfill_state \<Rightarrow> tally_page
      \<Rightarrow> backfill_db \<Rightarrow> backfill_end \<times> backfill_db" where
  "backfill_loop 0 x scope col i restarts done state rows db = (Backfill_running, db)"
| "backfill_loop (Suc fuel) x scope col i restarts done state rows db =
     (if page_generation rows \<noteq> bf_source state
      then if max_generation_restarts < restarts + 1
        then (Backfill_failed (new_error Conflict ''Pulse token source changed too often during backfill''), db)
        else (case run_cancellable (col_cancelled col i) (begin_token_backfill x scope (page_generation rows) False) db of
            Inl r \<Rightarrow> r
          | Inr (state1, db1) \<Rightarrow>
              (case run_cancellable (col_cancelled col (i + 1)) (collect_backfill_page col (i + 1) None) db1 of
                 Inl r \<Rightarrow> r
               | Inr (rows1, db2) \<Rightarrow> backfill_loop fuel x scope col (i + 2) (restarts + 1) done state1 rows1 db2))
      else (case run_cancellable (col_cancelled col i)
              (apply_backfill_page x \<lparr>bp_expected = state, bp_rows = page_grains rows,
                 bp_next = (case page_next rows of None \<Rightarrow> bf_cursor state | Some c \<Rightarrow> Some c), bp_complete = page_complete rows\<rparr>) db of
            Inl r \<Rightarrow> r
          | Inr (state1, db1) \<Rightarrow>
              if bf_complete state1 then (Backfill_finished (done + length (page_grains rows)), db1)
              else (case run_cancellable (col_cancelled col (i + 1)) (collect_backfill_page col (i + 1) (bf_cursor state1)) db1 of
                 Inl r \<Rightarrow> r
               | Inr (rows1, db2) \<Rightarrow>
                   backfill_loop fuel x scope col (i + 2) restarts (done + length (page_grains rows)) state1 rows1 db2)))"

definition backfill_profile ::
    "nat \<Rightarrow> token_extern \<Rightarrow> token_scope \<Rightarrow> backfill_source \<Rightarrow> bool \<Rightarrow> backfill_db \<Rightarrow> backfill_end \<times> backfill_db" where
  "backfill_profile fuel x scope col restart_completed db =
     (case run_cancellable (col_cancelled col 0) (\<lambda>db. map_ok (\<lambda>g. (g, db)) (col_generation col 0)) db of
        Inl r \<Rightarrow> r
      | Inr (src, _) \<Rightarrow>
          (case run_cancellable (col_cancelled col 1) (begin_token_backfill x scope src restart_completed) db of
             Inl r \<Rightarrow> r
           | Inr (state, db1) \<Rightarrow>
               if bf_complete state then (Backfill_finished 0, db1)
               else (case run_cancellable (col_cancelled col 2) (collect_backfill_page col 2 (bf_cursor state)) db1 of
                   Inl r \<Rightarrow> r
                 | Inr (rows, db2) \<Rightarrow> backfill_loop fuel x scope col 3 0 0 state rows db2)))"

end
