(* ===== verification/Backfill_Coverage.thy ===== *)
theory Backfill_Coverage
  imports Token_Backfill
begin

text \<open>
  What a backfill leaves in the store. The transactions of a backfill are steps of a relation, interleaved
  with the writes of other tasks; the invariant of the steps says which rows of the complete tally are in
  the store when the progress row is at a given cursor. The loop of \<open>ops.rs\<close> only takes such steps, whether it
  ends, fails or is cancelled, so the invariant holds over any sequence of attempts.
\<close>

section \<open>Conditional upserts\<close>

text \<open>
  A row of the tally is covered by a write revision when it is stored at it, or when a later writer has the
  row; \<open>own_rows\<close> says that everything stored at the revision is a row of the tally.
\<close>

definition covered :: "int \<Rightarrow> token_grain \<Rightarrow> store \<Rightarrow> bool" where
  "covered rv g st \<longleftrightarrow>
     (case find (has_key g) (token_usage st) of
        None \<Rightarrow> False
      | Some r \<Rightarrow> rv < row_revision r \<or> row_revision r = rv \<and> grain r = g)"

definition own_rows :: "int \<Rightarrow> token_scope \<Rightarrow> token_grain list \<Rightarrow> store \<Rightarrow> bool" where
  "own_rows rv scope C st \<longleftrightarrow>
     (\<forall>h r. find (has_key h) (token_usage st) = Some r \<longrightarrow> grain_scope h = scope \<longrightarrow> row_revision r = rv \<longrightarrow> grain r \<in> set C)"

lemma conditional_upsert_effect:
  assumes "upsert_token_at_revision x g rv True st = Inr (u, st')"
  shows "token_revisions st' = token_revisions st"
    and "token_key h \<noteq> token_key g \<Longrightarrow> find (has_key h) (token_usage st') = find (has_key h) (token_usage st)"
    and "token_key h = token_key g \<Longrightarrow> find (has_key h) (token_usage st') = Some (case find (has_key h) (token_usage st) of
           None \<Rightarrow> \<lparr>grain = g, updated_at = ext_now x, row_revision = rv\<rparr>
         | Some r \<Rightarrow> if row_revision r < rv then r\<lparr>grain := g, updated_at := ext_now x, row_revision := rv\<rparr> else r)"
    and "tokens_ok st \<Longrightarrow> scope_revision (grain_scope g) st = Some m \<Longrightarrow> rv \<le> m \<Longrightarrow> tokens_ok st'"
proof -
  let ?f = "\<lambda>r. if True \<and> \<not> row_revision r < rv then r else r\<lparr>grain := g, updated_at := ext_now x, row_revision := rv\<rparr>"
  let ?row = "\<lparr>grain = g, updated_at = ext_now x, row_revision = rv\<rparr>"
  have st': "st' = st\<lparr>token_usage := upsert_where (has_key g) ?f ?row (token_usage st)\<rparr>"
    using assms by (auto simp: upsert_token_at_revision_def result_simps split: if_splits)
  show "token_revisions st' = token_revisions st" by (simp add: st')
  show "find (has_key h) (token_usage st') = find (has_key h) (token_usage st)" if "token_key h \<noteq> token_key g"
  proof -
    have "find (has_key h) (upsert_where (has_key g) ?f ?row (token_usage st)) = find (has_key h) (token_usage st)"
      using that by (intro find_upsert_other) (auto simp: has_key_def)
    then show ?thesis by (simp add: st')
  qed
  show "find (has_key h) (token_usage st') = Some (case find (has_key h) (token_usage st) of None \<Rightarrow> ?row
      | Some r \<Rightarrow> if row_revision r < rv then r\<lparr>grain := g, updated_at := ext_now x, row_revision := rv\<rparr> else r)"
    if "token_key h = token_key g"
  proof -
    have k: "has_key h = has_key g" by (rule has_key_same) (rule that)
    have "find (has_key g) (upsert_where (has_key g) ?f ?row (token_usage st)) =
        Some (case find (has_key g) (token_usage st) of None \<Rightarrow> ?row | Some r \<Rightarrow> ?f r)"
      by (rule find_upsert_where) (simp_all add: has_key_def)
    then show ?thesis by (simp add: st' k split: option.splits)
  qed
  assume ok: "tokens_ok st" and m: "scope_revision (grain_scope g) st = Some m" "rv \<le> m"
  have "distinct (map (\<lambda>r. token_key (grain r)) (upsert_where (has_key g) ?f ?row (token_usage st)))"
    by (rule upsert_where_distinct) (use ok in \<open>simp_all add: tokens_ok_def has_key_def\<close>)
  moreover have "\<forall>r \<in> set (upsert_where (has_key g) ?f ?row (token_usage st)). \<exists>v \<in> set (token_revisions st).
      rev_scope v = grain_scope (grain r) \<and> row_revision r \<le> revision v"
  proof -
    have "\<exists>v \<in> set (token_revisions st). rev_scope v = grain_scope g \<and> rv \<le> revision v"
      using scope_revision_mem [OF m(1)] m(2) by blast
    then show ?thesis by (intro upsert_where_all) (use ok in \<open>auto simp: tokens_ok_def\<close>)
  qed
  ultimately show "tokens_ok st'" using ok by (simp add: tokens_ok_def st')
qed

lemma found_key: "find (has_key h) rows = Some r \<Longrightarrow> token_key (grain r) = token_key h"
  using find_Some_mem [of "has_key h" rows r] by (simp add: has_key_def)

abbreviation backfill_writes :: "token_extern \<Rightarrow> int \<Rightarrow> token_grain list \<Rightarrow> store \<Rightarrow> store pulse_result" where
  "backfill_writes x rv \<equiv> try_fold (\<lambda>g st. map_ok snd (upsert_token_at_revision x g rv True st))"

lemma backfill_write_keeps:
  assumes "upsert_token_at_revision x g rv True st = Inr (u, st')"
  shows "covered rv h st \<Longrightarrow> covered rv h st'"
    and "own_rows rv scope C st \<Longrightarrow> grain_scope g = scope \<longrightarrow> g \<in> set C \<Longrightarrow> own_rows rv scope C st'"
    and "\<exists>r. find (has_key g) (token_usage st') = Some r \<and> rv \<le> row_revision r"
    and "find (has_key h) (token_usage st) = Some r \<Longrightarrow> rv \<le> row_revision r \<Longrightarrow>
           \<exists>r. find (has_key h) (token_usage st') = Some r \<and> rv \<le> row_revision r"
proof -
  note e = conditional_upsert_effect [OF assms]
  show "covered rv h st \<Longrightarrow> covered rv h st'"
    using e(2,3) [of h] by (cases "token_key h = token_key g") (auto simp: covered_def split: option.splits if_splits)
  show "\<exists>r. find (has_key g) (token_usage st') = Some r \<and> rv \<le> row_revision r"
    using e(3) [of g] by (auto split: option.splits)
  show "\<exists>r. find (has_key h) (token_usage st') = Some r \<and> rv \<le> row_revision r"
    if "find (has_key h) (token_usage st) = Some r" "rv \<le> row_revision r"
    using that e(2,3) [of h] by (cases "token_key h = token_key g") auto
  assume o: "own_rows rv scope C st" and g: "grain_scope g = scope \<longrightarrow> g \<in> set C"
  show "own_rows rv scope C st'" unfolding own_rows_def
  proof (intro allI impI)
    fix h r assume r: "find (has_key h) (token_usage st') = Some r" "grain_scope h = scope" "row_revision r = rv"
    show "grain r \<in> set C"
    proof (cases "token_key h = token_key g")
      case False
      then show ?thesis using r o e(2) [of h] by (simp add: own_rows_def)
    next
      case True
      then have "g \<in> set C" using g r(2) key_scope [of h g] by simp
      have "grain r = g \<or> find (has_key h) (token_usage st) = Some r"
        using r(1) e(3) [OF True] by (cases "find (has_key h) (token_usage st)") (auto split: if_splits)
      then show ?thesis using \<open>g \<in> set C\<close> r(2,3) o by (auto simp: own_rows_def)
    qed
  qed
qed

lemma backfill_writes_effect:
  assumes "backfill_writes x rv gs st = Inr st'"
  shows "token_revisions st' = token_revisions st"
    and "covered rv h st \<Longrightarrow> covered rv h st'"
    and "own_rows rv scope C st \<Longrightarrow> (\<forall>g \<in> set gs. grain_scope g = scope \<longrightarrow> g \<in> set C) \<Longrightarrow> own_rows rv scope C st'"
    and "\<forall>g \<in> set gs. token_key g \<noteq> token_key h \<Longrightarrow> find (has_key h) (token_usage st') = find (has_key h) (token_usage st)"
    and "\<forall>g \<in> set gs. \<exists>r. find (has_key g) (token_usage st') = Some r \<and> rv \<le> row_revision r"
    and "tokens_ok st \<Longrightarrow> \<forall>g \<in> set gs. \<exists>m. scope_revision (grain_scope g) st = Some m \<and> rv \<le> m \<Longrightarrow> tokens_ok st'"
proof -
  have kept: "\<exists>r. find (has_key h) (token_usage st') = Some r \<and> rv \<le> row_revision r"
    if "backfill_writes x rv gs st = Inr st'" "\<exists>r. find (has_key h) (token_usage st) = Some r \<and> rv \<le> row_revision r" for gs st h
    using that
  proof (induction gs arbitrary: st)
    case (Cons g gs)
    then obtain u s1 where g: "upsert_token_at_revision x g rv True st = Inr (u, s1)" "backfill_writes x rv gs s1 = Inr st'"
      by (auto simp: result_simps)
    then show ?case using Cons.IH [OF g(2)] backfill_write_keeps(4) [OF g(1)] Cons.prems(2) by blast
  qed simp
  show "token_revisions st' = token_revisions st"
    by (rule try_fold_invariant [OF assms]) (auto simp: result_simps dest: conditional_upsert_effect(1))
  show "covered rv h st \<Longrightarrow> covered rv h st'"
    by (rule try_fold_invariant [OF assms]) (auto simp: result_simps dest: backfill_write_keeps(1))
  show "own_rows rv scope C st'" if "own_rows rv scope C st" "\<forall>g \<in> set gs. grain_scope g = scope \<longrightarrow> g \<in> set C"
    by (rule try_fold_invariant [OF assms]) (use that in \<open>auto simp: result_simps dest: backfill_write_keeps(2)\<close>)
  show "find (has_key h) (token_usage st') = find (has_key h) (token_usage st)" if "\<forall>g \<in> set gs. token_key g \<noteq> token_key h"
  proof (rule try_fold_invariant [OF assms])
    fix g s t assume g: "g \<in> set gs" "find (has_key h) (token_usage s) = find (has_key h) (token_usage st)"
      "map_ok snd (upsert_token_at_revision x g rv True s) = Inr t"
    then obtain u where u: "upsert_token_at_revision x g rv True s = Inr (u, t)" by (auto simp: result_simps)
    have "token_key h \<noteq> token_key g" using that g(1) by fastforce
    then show "find (has_key h) (token_usage t) = find (has_key h) (token_usage st)"
      using conditional_upsert_effect(2) [OF u] g(2) by simp
  qed simp
  show "\<forall>g \<in> set gs. \<exists>r. find (has_key g) (token_usage st') = Some r \<and> rv \<le> row_revision r" using assms
  proof (induction gs arbitrary: st)
    case (Cons g gs)
    then obtain u s1 where g: "upsert_token_at_revision x g rv True st = Inr (u, s1)" "backfill_writes x rv gs s1 = Inr st'"
      by (auto simp: result_simps)
    then show ?case using Cons.IH [OF g(2)] kept [OF g(2) backfill_write_keeps(3) [OF g(1)]] by simp
  qed simp
  assume ok: "tokens_ok st" and m: "\<forall>g \<in> set gs. \<exists>m. scope_revision (grain_scope g) st = Some m \<and> rv \<le> m"
  have "tokens_ok st' \<and> token_revisions st' = token_revisions st"
  proof (rule try_fold_invariant [OF assms, of "\<lambda>s. tokens_ok s \<and> token_revisions s = token_revisions st"])
    show "tokens_ok st \<and> token_revisions st = token_revisions st" using ok by simp
  next
    fix g s t assume g: "g \<in> set gs" "tokens_ok s \<and> token_revisions s = token_revisions st"
      "map_ok snd (upsert_token_at_revision x g rv True s) = Inr t"
    then obtain u where u: "upsert_token_at_revision x g rv True s = Inr (u, t)" by (auto simp: result_simps)
    obtain n where "scope_revision (grain_scope g) st = Some n" "rv \<le> n" using m g(1) by blast
    then have "scope_revision (grain_scope g) s = Some n" "rv \<le> n" using g(2) by (simp_all add: scope_revision_def)
    then show "tokens_ok t \<and> token_revisions t = token_revisions st"
      using conditional_upsert_effect(1,4) [OF u] g(2) by auto
  qed
  then show "tokens_ok st'" ..
qed

section \<open>Steps\<close>

text \<open>The rows of a complete tally: one scope, local, in strict order of their keys.\<close>

definition tally_rows :: "token_scope \<Rightarrow> token_grain list \<Rightarrow> bool" where
  "tally_rows scope C \<longleftrightarrow> sorted_wrt (<) (map grain_key C) \<and> (\<forall>g \<in> set C. grain_scope g = scope \<and> tok_source g = LocalSource)"

definition rows_left :: "tally_cursor option \<Rightarrow> token_grain list \<Rightarrow> token_grain list" where
  "rows_left after C = filter (\<lambda>g. beyond (after_key after) (grain_key g)) C"

definition honest_page :: "token_grain list \<Rightarrow> backfill_page \<Rightarrow> bool" where
  "honest_page C p \<longleftrightarrow>
     (\<exists>n. bp_rows p = take n (rows_left (bf_cursor (bp_expected p)) C)
        \<and> (bp_complete p \<longleftrightarrow> length (rows_left (bf_cursor (bp_expected p)) C) \<le> n))"

text \<open>
  The transactions: of the backfill, in any scope, and of the other writers of the same tables. A page of the scope and the
  generation under consideration is cut from the tally; a revision of a backfill is not also one of an observation.
\<close>

inductive backfill_step :: "token_scope \<Rightarrow> string \<Rightarrow> token_grain list \<Rightarrow> backfill_db \<Rightarrow> backfill_db \<Rightarrow> bool"
  for scope gen C where
  begin_step: "begin_token_backfill x sc src restart db = Inr (s, db') \<Longrightarrow> backfill_step scope gen C db db'"
| page_step: "apply_backfill_page x p db = Inr (s, db') \<Longrightarrow>
    bf_scope (bp_expected p) = scope \<longrightarrow> bf_source (bp_expected p) = gen \<longrightarrow> honest_page C p \<Longrightarrow> backfill_step scope gen C db db'"
| batch_step: "upsert_token_batch x gs (bd_store db) = Inr (u, st) \<Longrightarrow> backfill_step scope gen C db (db\<lparr>bd_store := st\<rparr>)"
| reserve_step: "begin_token_observation sc (bd_store db) = Inr (ob, st) \<Longrightarrow> backfill_step scope gen C db (db\<lparr>bd_store := st\<rparr>)"
| observe_step: "upsert_observed_token_grain x ob g (bd_store db) = Inr (u, st) \<Longrightarrow>
    \<forall>s \<in> set (bd_progress db). bf_scope s = grain_scope g \<longrightarrow> bf_revision s \<noteq> obs_revision ob \<Longrightarrow>
    backfill_step scope gen C db (db\<lparr>bd_store := st\<rparr>)"

definition progress_ok :: "token_scope \<Rightarrow> string \<Rightarrow> token_grain list \<Rightarrow> store \<Rightarrow> backfill_state \<Rightarrow> bool" where
  "progress_ok scope gen C st s \<longleftrightarrow>
     (\<exists>m. scope_revision (bf_scope s) st = Some m \<and> int (bf_revision s) \<le> m)
     \<and> (bf_scope s = scope \<longrightarrow> bf_source s = gen \<longrightarrow> own_rows (int (bf_revision s)) scope C st
         \<and> (\<forall>g \<in> set C. bf_complete s \<or> \<not> beyond (after_key (bf_cursor s)) (grain_key g) \<longrightarrow> covered (int (bf_revision s)) g st))"

definition backfill_inv :: "token_scope \<Rightarrow> string \<Rightarrow> token_grain list \<Rightarrow> backfill_db \<Rightarrow> bool" where
  "backfill_inv scope gen C db \<longleftrightarrow>
     tokens_ok (bd_store db) \<and> distinct (map bf_scope (bd_progress db))
     \<and> (\<forall>s \<in> set (bd_progress db). progress_ok scope gen C (bd_store db) s)"

section \<open>Other writers\<close>

text \<open>A write that leaves a row of the scope alone or takes it past the revision of the backfill.\<close>

definition newer_only :: "int \<Rightarrow> token_scope \<Rightarrow> store \<Rightarrow> store \<Rightarrow> bool" where
  "newer_only rv scope st st' \<longleftrightarrow>
     (\<forall>h. grain_scope h = scope \<longrightarrow> find (has_key h) (token_usage st') = find (has_key h) (token_usage st)
        \<or> (\<exists>r. find (has_key h) (token_usage st') = Some r \<and> rv < row_revision r))"

definition revisions_grow :: "store \<Rightarrow> store \<Rightarrow> bool" where
  "revisions_grow st st' \<longleftrightarrow> (\<forall>t n. scope_revision t st = Some n \<longrightarrow> (\<exists>m. scope_revision t st' = Some m \<and> n \<le> m))"

lemma newer_only_covered:
  assumes "newer_only rv scope st st'"
  shows "covered rv g st \<Longrightarrow> grain_scope g = scope \<Longrightarrow> covered rv g st'"
    and "own_rows rv scope C st \<Longrightarrow> own_rows rv scope C st'"
proof -
  show "covered rv g st'" if "covered rv g st" "grain_scope g = scope"
  proof -
    from assms that(2) consider "find (has_key g) (token_usage st') = find (has_key g) (token_usage st)"
      | r where "find (has_key g) (token_usage st') = Some r" "rv < row_revision r" by (auto simp: newer_only_def)
    then show ?thesis using that(1) by cases (simp_all add: covered_def)
  qed
  show "own_rows rv scope C st'" if o: "own_rows rv scope C st"
    unfolding own_rows_def
  proof (intro allI impI)
    fix h r assume r: "find (has_key h) (token_usage st') = Some r" "grain_scope h = scope" "row_revision r = rv"
    then have "find (has_key h) (token_usage st) = Some r" using assms by (fastforce simp: newer_only_def)
    then show "grain r \<in> set C" using o r(2,3) by (simp add: own_rows_def)
  qed
qed

lemma progress_foreign:
  assumes "progress_ok scope gen C st s" "revisions_grow st st'" "tally_rows scope C"
    and n: "bf_scope s = scope \<longrightarrow> newer_only (int (bf_revision s)) scope st st'"
  shows "progress_ok scope gen C st' s"
proof -
  obtain m m' where "scope_revision (bf_scope s) st = Some m" "int (bf_revision s) \<le> m"
    "scope_revision (bf_scope s) st' = Some m'" "m \<le> m'"
    using assms(1,2) unfolding progress_ok_def revisions_grow_def by blast
  then have "\<exists>m. scope_revision (bf_scope s) st' = Some m \<and> int (bf_revision s) \<le> m" by force
  then show ?thesis
    using assms(1,3) n newer_only_covered [of "int (bf_revision s)" scope st st'] by (auto simp: progress_ok_def tally_rows_def)
qed

lemma inv_foreign:
  assumes "backfill_inv scope gen C db" "tally_rows scope C" "tokens_ok st'" "revisions_grow (bd_store db) st'"
    and "\<forall>s \<in> set (bd_progress db). bf_scope s = scope \<longrightarrow> newer_only (int (bf_revision s)) scope (bd_store db) st'"
  shows "backfill_inv scope gen C (db\<lparr>bd_store := st'\<rparr>)"
  using assms progress_foreign [OF _ assms(4,2)] by (auto simp: backfill_inv_def)

lemma allocate_grows: "allocate_token_revision sc st = Inr (n, st') \<Longrightarrow> revisions_grow st st'"
proof -
  assume a: "allocate_token_revision sc st = Inr (n, st')"
  note e = allocate_effect [OF a]
  show ?thesis unfolding revisions_grow_def
  proof (intro allI impI)
    fix t k assume "scope_revision t st = Some k"
    then show "\<exists>m. scope_revision t st' = Some m \<and> k \<le> m" using e(1,4) e(3) [rule_format, of t] by (cases "t = sc") auto
  qed
qed

lemma revisions_grow_trans: "revisions_grow a b \<Longrightarrow> revisions_grow b c \<Longrightarrow> revisions_grow a c"
  unfolding revisions_grow_def by (meson order.trans)

lemma write_scope_newer:
  assumes w: "write_scope x gs sc st = Inr st'" and ok: "tokens_ok st"
  shows "tokens_ok st'" "revisions_grow st st'"
    and "scope_revision scope st = Some m \<Longrightarrow> rv \<le> m \<Longrightarrow> newer_only rv scope st st'"
proof -
  let ?rows = "filter (\<lambda>g. grain_scope g = sc) gs"
  obtain ch where c: "changed_grains st ?rows = Inr ch" using w by (auto simp: write_scope_def result_simps)
  have sc: "\<forall>g \<in> set ch. grain_scope g = sc" using changed_grains_filter(1) [OF c] by simp
  have "st' = st \<or> (\<exists>n s1. allocate_token_revision sc st = Inr (n, s1)
      \<and> try_fold (\<lambda>g s. map_ok snd (upsert_token_at_revision x g n False s)) ch s1 = Inr st')"
    using w c by (auto simp: write_scope_def result_simps split: if_splits)
  then consider (none) "st' = st"
    | (some) n s1 where "allocate_token_revision sc st = Inr (n, s1)"
        "try_fold (\<lambda>g s. map_ok snd (upsert_token_at_revision x g n False s)) ch s1 = Inr st'" by blast
  then have "tokens_ok st' \<and> revisions_grow st st'
    \<and> (scope_revision scope st = Some m \<longrightarrow> rv \<le> m \<longrightarrow> newer_only rv scope st st')"
  proof cases
    case none
    then show ?thesis using ok by (auto simp: revisions_grow_def newer_only_def)
  next
    case some
    note a = allocate_effect [OF some(1)]
    have ok': "tokens_ok st'" using write_changed_ok [OF some(2) _ a(1) sc] a(5) [OF ok] by blast
    have rows: "token_revisions st' = token_revisions s1 \<and> (\<forall>h. find (has_key h) (token_usage st') = find (has_key h) (token_usage st)
        \<or> grain_scope h = sc \<and> (\<exists>r. find (has_key h) (token_usage st') = Some r \<and> row_revision r = n))"
    proof (rule try_fold_invariant [OF some(2), of "\<lambda>s. token_revisions s = token_revisions s1
        \<and> (\<forall>h. find (has_key h) (token_usage s) = find (has_key h) (token_usage st)
          \<or> grain_scope h = sc \<and> (\<exists>r. find (has_key h) (token_usage s) = Some r \<and> row_revision r = n))"])
      show "token_revisions s1 = token_revisions s1 \<and> (\<forall>h. find (has_key h) (token_usage s1) = find (has_key h) (token_usage st)
        \<or> grain_scope h = sc \<and> (\<exists>r. find (has_key h) (token_usage s1) = Some r \<and> row_revision r = n))"
        using a(2) by simp
    next
      fix g s t assume g: "g \<in> set ch" and P: "token_revisions s = token_revisions s1
          \<and> (\<forall>h. find (has_key h) (token_usage s) = find (has_key h) (token_usage st)
          \<or> grain_scope h = sc \<and> (\<exists>r. find (has_key h) (token_usage s) = Some r \<and> row_revision r = n))"
        and "map_ok snd (upsert_token_at_revision x g n False s) = Inr t"
      then obtain u where u: "upsert_token_at_revision x g n False s = Inr (u, t)" by (auto simp: result_simps)
      note e = upsert_grain_effect [OF u]
      have "find (has_key h) (token_usage t) = find (has_key h) (token_usage s)
          \<or> grain_scope h = sc \<and> (\<exists>r. find (has_key h) (token_usage t) = Some r \<and> row_revision r = n)" for h
      proof (cases "token_key h = token_key g")
        case True
        then show ?thesis using e(5) sc g key_scope [OF True] has_key_same [OF True] by auto
      next
        case False
        then show ?thesis using e(4) by blast
      qed
      then show "token_revisions t = token_revisions s1 \<and> (\<forall>h. find (has_key h) (token_usage t) = find (has_key h) (token_usage st)
          \<or> grain_scope h = sc \<and> (\<exists>r. find (has_key h) (token_usage t) = Some r \<and> row_revision r = n))"
        using P e(1) by metis
    qed
    have "newer_only rv scope st st'" if "scope_revision scope st = Some m" "rv \<le> m"
      unfolding newer_only_def
    proof (intro allI impI)
      fix h assume h: "grain_scope h = scope"
      have "n = m + 1" if "scope = sc" using that a(4) \<open>scope_revision scope st = Some m\<close> by simp
      then show "find (has_key h) (token_usage st') = find (has_key h) (token_usage st)
          \<or> (\<exists>r. find (has_key h) (token_usage st') = Some r \<and> rv < row_revision r)"
        using rows h that(2) by force
    qed
    moreover have "revisions_grow st st'"
      using allocate_grows [OF some(1)] rows by (simp add: revisions_grow_def scope_revision_def)
    ultimately show ?thesis using ok' by blast
  qed
  then show "tokens_ok st'" "revisions_grow st st'"
    "scope_revision scope st = Some m \<Longrightarrow> rv \<le> m \<Longrightarrow> newer_only rv scope st st'" by blast+
qed

lemma batch_newer:
  assumes "upsert_token_batch x gs st = Inr (u, st')" and ok: "tokens_ok st"
  shows "tokens_ok st'" "revisions_grow st st'"
    and "scope_revision scope st = Some m \<Longrightarrow> rv \<le> m \<Longrightarrow> newer_only rv scope st st'"
proof -
  have f: "try_fold (write_scope x gs) (batch_scopes gs) st = Inr st'" using assms(1) by (simp add: batch_fold)
  have "tokens_ok st' \<and> revisions_grow st st' \<and> (scope_revision scope st = Some m \<longrightarrow> rv \<le> m \<longrightarrow> newer_only rv scope st st')"
  proof (rule try_fold_invariant [OF f, of "\<lambda>s. tokens_ok s \<and> revisions_grow st s
      \<and> (scope_revision scope st = Some m \<longrightarrow> rv \<le> m \<longrightarrow> newer_only rv scope st s)"])
    show "tokens_ok st \<and> revisions_grow st st \<and> (scope_revision scope st = Some m \<longrightarrow> rv \<le> m \<longrightarrow> newer_only rv scope st st)"
      using ok by (simp add: revisions_grow_def newer_only_def)
  next
    fix sc s t assume P: "tokens_ok s \<and> revisions_grow st s \<and> (scope_revision scope st = Some m \<longrightarrow> rv \<le> m \<longrightarrow> newer_only rv scope st s)"
      and w: "write_scope x gs sc s = Inr t"
    then have s: "tokens_ok s" by blast
    note e = write_scope_newer [OF w s]
    have "newer_only rv scope st t" if m: "scope_revision scope st = Some m" "rv \<le> m"
    proof -
      obtain k where "scope_revision scope s = Some k" "m \<le> k" using P m(1) unfolding revisions_grow_def by blast
      then have "newer_only rv scope s t" using e(3) m(2) by simp
      moreover have "newer_only rv scope st s" using P m by blast
      ultimately show ?thesis unfolding newer_only_def by metis
    qed
    then show "tokens_ok t \<and> revisions_grow st t \<and> (scope_revision scope st = Some m \<longrightarrow> rv \<le> m \<longrightarrow> newer_only rv scope st t)"
      using e(1,2) P revisions_grow_trans by blast
  qed
  then show "tokens_ok st'" "revisions_grow st st'"
    "scope_revision scope st = Some m \<Longrightarrow> rv \<le> m \<Longrightarrow> newer_only rv scope st st'" by blast+
qed

section \<open>Pages\<close>

lemma rows_validate_end:
  "backfill_rows_validate x s prev gs = Inr c \<Longrightarrow>
     c = (if gs = [] then prev else Some (cursor_of_grain (last gs)))
     \<and> (\<forall>g \<in> set gs. grain_scope g = bf_scope s \<and> tok_source g = LocalSource)"
proof (induction gs arbitrary: prev)
  case (Cons g gs)
  have g: "grain_scope g = bf_scope s \<and> tok_source g = LocalSource"
    and r: "backfill_rows_validate x s (Some (cursor_of_grain g)) gs = Inr c"
    using Cons.prems by (auto simp: result_simps split: if_splits)
  show ?case using Cons.IH [OF r] g by auto
qed simp

lemma page_step_effect:
  assumes "apply_backfill_page x p db = Inr (s, db')"
  shows "bp_expected p \<in> set (bd_progress db)"
    and "s = (bp_expected p)\<lparr>bf_cursor := bp_next p, bf_complete := bp_complete p\<rparr>"
    and "\<exists>st. backfill_writes x (int (bf_revision (bp_expected p))) (bp_rows p) (bd_store db) = Inr st
           \<and> db' = set_progress s (db\<lparr>bd_store := st\<rparr>)"
    and "bp_next p = (if bp_rows p = [] then bf_cursor (bp_expected p) else Some (cursor_of_grain (last (bp_rows p))))"
    and "\<forall>g \<in> set (bp_rows p). grain_scope g = bf_scope (bp_expected p) \<and> tok_source g = LocalSource"
    and "\<not> bf_complete (bp_expected p)"
proof -
  let ?e = "bp_expected p"
  have v: "backfill_page_validate x p = Inr ()" using assms by (auto simp: apply_backfill_page_def result_simps)
  have l: "load_backfill x (bf_scope ?e) db = Inr (Some ?e)"
    using assms by (auto simp: apply_backfill_page_def result_simps split: option.splits if_splits)
  then have "find (\<lambda>s. bf_scope s = bf_scope ?e) (bd_progress db) = Some ?e"
    by (auto simp: load_backfill_def result_simps split: option.splits)
  then show "?e \<in> set (bd_progress db)" using find_Some_mem by fast
  show "s = ?e\<lparr>bf_cursor := bp_next p, bf_complete := bp_complete p\<rparr>"
    and "\<exists>st. backfill_writes x (int (bf_revision ?e)) (bp_rows p) (bd_store db) = Inr st
           \<and> db' = set_progress s (db\<lparr>bd_store := st\<rparr>)"
    using assms v l by (auto simp: apply_backfill_page_def result_simps Let_def split: if_splits)
  obtain c where c: "backfill_rows_validate x ?e (bf_cursor ?e) (bp_rows p) = Inr c" "bp_next p = c" and nc: "\<not> bf_complete ?e"
    using v by (auto simp: backfill_page_validate_def result_simps split: if_splits)
  show "bp_next p = (if bp_rows p = [] then bf_cursor ?e else Some (cursor_of_grain (last (bp_rows p))))"
    and "\<forall>g \<in> set (bp_rows p). grain_scope g = bf_scope ?e \<and> tok_source g = LocalSource"
    using rows_validate_end [OF c(1)] c(2) by simp_all
  show "\<not> bf_complete ?e" by (rule nc)
qed

lemma cursor_grain_key [simp]: "cursor_key (cursor_of_grain g) = grain_key g"
  by (simp add: cursor_key_def cursor_of_grain_def grain_key_def)

lemma sorted_take_upto:
  fixes f :: "'a \<Rightarrow> 'b::linorder"
  assumes "sorted_wrt (<) (map f F)" "g \<in> set F" "take n F \<noteq> []" "f g \<le> f (last (take n F))"
  shows "g \<in> set (take n F)"
proof (rule ccontr)
  assume n: "g \<notin> set (take n F)"
  have "F = take n F @ drop n F" by simp
  then have "g \<in> set (drop n F)" using assms(2) n by (metis Un_iff set_append)
  moreover have "sorted_wrt (<) (map f (take n F @ drop n F))" using assms(1) by simp
  ultimately have "f (last (take n F)) < f g"
    using assms(3) by (simp only: map_append sorted_wrt_append) (auto dest: last_in_set)
  then show False using assms(4) by simp
qed

text \<open>After an honest page, the rows up to the new cursor are those up to the old one and those of the page.\<close>

lemma honest_rows:
  assumes "honest_page C p" "tally_rows scope C" "g \<in> set C"
    and next_cursor: "bp_next p = (if bp_rows p = [] then bf_cursor (bp_expected p) else Some (cursor_of_grain (last (bp_rows p))))"
    and g: "bp_complete p \<or> \<not> beyond (after_key (bp_next p)) (grain_key g)"
  shows "\<not> beyond (after_key (bf_cursor (bp_expected p))) (grain_key g) \<or> g \<in> set (bp_rows p)"
proof (cases "beyond (after_key (bf_cursor (bp_expected p))) (grain_key g)")
  case True
  let ?F = "rows_left (bf_cursor (bp_expected p)) C"
  obtain n where n: "bp_rows p = take n ?F" "bp_complete p \<longleftrightarrow> length ?F \<le> n" using assms(1) by (auto simp: honest_page_def)
  have gF: "g \<in> set ?F" using True assms(3) by (simp add: rows_left_def)
  have "g \<in> set (bp_rows p)"
  proof (cases "bp_complete p")
    case True
    then show ?thesis using n gF by simp
  next
    case False
    then have "\<not> beyond (after_key (bp_next p)) (grain_key g)" using g by simp
    moreover have "bp_rows p \<noteq> []"
    proof
      assume "bp_rows p = []"
      then show False using calculation next_cursor True by simp
    qed
    ultimately have "grain_key g \<le> grain_key (last (bp_rows p))"
      using next_cursor by (simp add: after_key_def beyond_def)
    moreover have "sorted_wrt (<) (map grain_key ?F)"
      using assms(2) sorted_wrt_filter [of "\<lambda>a b. grain_key a < grain_key b" C] by (simp add: tally_rows_def rows_left_def sorted_wrt_map)
    ultimately show ?thesis using sorted_take_upto [of grain_key ?F g n] gF n \<open>bp_rows p \<noteq> []\<close> by simp
  qed
  then show ?thesis ..
qed simp

lemma token_key_of_tally:
  assumes "tally_rows scope C" "g \<in> set C" "h \<in> set C" "token_key g = token_key h"
  shows "g = h"
proof -
  have "grain_key g = grain_key h" using assms(4) by (simp add: token_key_def grain_key_def)
  moreover have "inj_on grain_key (set C)"
    using assms(1) strict_sorted_iff [of "map grain_key C"] by (simp add: tally_rows_def distinct_map)
  ultimately show ?thesis using assms(2,3) by (auto dest: inj_onD)
qed

lemma written_covered:
  assumes "tally_rows scope C" "own_rows rv scope C st" "g \<in> set C"
    and "\<exists>r. find (has_key g) (token_usage st) = Some r \<and> rv \<le> row_revision r"
  shows "covered rv g st"
proof -
  obtain r where r: "find (has_key g) (token_usage st) = Some r" "rv \<le> row_revision r" using assms(4) by blast
  have "grain r = g" if "row_revision r = rv"
  proof -
    have "grain_scope g = scope" using assms(1,3) by (simp add: tally_rows_def)
    then have "grain r \<in> set C" using assms(2) r(1) that by (simp add: own_rows_def)
    then show ?thesis using token_key_of_tally [OF assms(1) _ assms(3)] found_key [OF r(1)] by blast
  qed
  then show ?thesis using r by (auto simp: covered_def)
qed

lemma set_progress_ok:
  assumes "backfill_inv scope gen C db" "progress_ok scope gen C (bd_store db) s"
  shows "backfill_inv scope gen C (set_progress s db)"
proof -
  have "map bf_scope (update_where (\<lambda>r. bf_scope r = bf_scope s) (\<lambda>_. s) (bd_progress db)) = map bf_scope (bd_progress db)"
    by (rule map_update_where) simp
  moreover have "\<forall>r \<in> set (update_where (\<lambda>r. bf_scope r = bf_scope s) (\<lambda>_. s) (bd_progress db)). progress_ok scope gen C (bd_store db) r"
    by (rule update_where_all) (use assms in \<open>auto simp: backfill_inv_def\<close>)
  ultimately show ?thesis using assms(1) by (simp add: backfill_inv_def set_progress_def)
qed

section \<open>The invariant\<close>

lemma page_inv:
  assumes inv: "backfill_inv scope gen C db" and t: "tally_rows scope C" and a: "apply_backfill_page x p db = Inr (s, db')"
    and h: "bf_scope (bp_expected p) = scope \<longrightarrow> bf_source (bp_expected p) = gen \<longrightarrow> honest_page C p"
  shows "backfill_inv scope gen C db'"
proof -
  let ?e = "bp_expected p" and ?rv = "int (bf_revision (bp_expected p))" and ?st = "bd_store db"
  note e = page_step_effect [OF a]
  obtain st where st: "backfill_writes x ?rv (bp_rows p) ?st = Inr st" "db' = set_progress s (db\<lparr>bd_store := st\<rparr>)" using e(3) by blast
  note w = backfill_writes_effect [OF st(1)]
  have pe: "progress_ok scope gen C ?st ?e" and ok: "tokens_ok ?st" and d: "distinct (map bf_scope (bd_progress db))"
    using inv e(1) by (auto simp: backfill_inv_def)
  have grow: "revisions_grow ?st st"
  proof -
    have "scope_revision t st = scope_revision t ?st" for t using w(1) by (simp add: scope_revision_def)
    then show ?thesis unfolding revisions_grow_def by simp
  qed
  have ok': "tokens_ok st"
  proof (rule w(6) [OF ok])
    show "\<forall>g \<in> set (bp_rows p). \<exists>m. scope_revision (grain_scope g) ?st = Some m \<and> ?rv \<le> m"
      using e(5) pe by (auto simp: progress_ok_def)
  qed
  have other: "progress_ok scope gen C st r" if r: "r \<in> set (bd_progress db)" "r \<noteq> ?e" for r
  proof (rule progress_foreign [OF _ grow t])
    show "progress_ok scope gen C ?st r" using inv r(1) by (simp add: backfill_inv_def)
    show "bf_scope r = scope \<longrightarrow> newer_only (int (bf_revision r)) scope ?st st"
    proof
      assume sc: "bf_scope r = scope"
      have ne: "bf_scope ?e \<noteq> scope" using d r e(1) sc by (auto simp: distinct_map dest: inj_onD)
      have "find (has_key h) (token_usage st) = find (has_key h) (token_usage ?st)" if hs: "grain_scope h = scope" for h
      proof (rule w(4))
        show "\<forall>g \<in> set (bp_rows p). token_key g \<noteq> token_key h" using e(5) ne hs key_scope by metis
      qed
      then show "newer_only (int (bf_revision r)) scope ?st st" by (simp add: newer_only_def)
    qed
  qed
  have mine: "progress_ok scope gen C st s"
  proof -
    have sel: "bf_scope s = bf_scope ?e" "bf_source s = bf_source ?e" "bf_revision s = bf_revision ?e"
      "bf_cursor s = bp_next p" "bf_complete s = bp_complete p" using e(2) by (simp_all add: bf_scope_def)
    have "own_rows ?rv scope C st \<and> (\<forall>g \<in> set C. bp_complete p \<or> \<not> beyond (after_key (bp_next p)) (grain_key g) \<longrightarrow> covered ?rv g st)"
      if sc: "bf_scope ?e = scope" "bf_source ?e = gen"
    proof -
      have hp: "honest_page C p" using h sc by blast
      have sub: "set (bp_rows p) \<subseteq> set C"
      proof -
        obtain n where "bp_rows p = take n (rows_left (bf_cursor ?e) C)" using hp by (auto simp: honest_page_def)
        then have "set (bp_rows p) \<subseteq> set (rows_left (bf_cursor ?e) C)" using set_take_subset by metis
        then show ?thesis by (auto simp: rows_left_def)
      qed
      have own: "own_rows ?rv scope C st"
      proof (rule w(3))
        show "own_rows ?rv scope C ?st" using pe sc by (simp add: progress_ok_def)
        show "\<forall>g \<in> set (bp_rows p). grain_scope g = scope \<longrightarrow> g \<in> set C" using sub by blast
      qed
      have "covered ?rv g st" if g: "g \<in> set C" "bp_complete p \<or> \<not> beyond (after_key (bp_next p)) (grain_key g)" for g
      proof -
        consider "\<not> beyond (after_key (bf_cursor ?e)) (grain_key g)" | "g \<in> set (bp_rows p)"
          using honest_rows [OF hp t g(1) e(4) g(2)] by blast
        then show ?thesis
        proof cases
          case 1
          then have "covered ?rv g ?st" using pe sc g(1) by (simp add: progress_ok_def)
          then show ?thesis by (rule w(2))
        next
          case 2
          then have "\<exists>r. find (has_key g) (token_usage st) = Some r \<and> ?rv \<le> row_revision r" using w(5) by blast
          then show ?thesis by (rule written_covered [OF t own g(1)])
        qed
      qed
      then show ?thesis using own by blast
    qed
    moreover have "\<exists>m. scope_revision (bf_scope ?e) st = Some m \<and> ?rv \<le> m"
      using pe w(1) by (simp add: progress_ok_def scope_revision_def)
    ultimately show ?thesis unfolding progress_ok_def sel by blast
  qed
  have "map bf_scope (update_where (\<lambda>r. bf_scope r = bf_scope s) (\<lambda>_. s) (bd_progress db)) = map bf_scope (bd_progress db)"
    by (rule map_update_where) simp
  moreover have "\<forall>r \<in> set (update_where (\<lambda>r. bf_scope r = bf_scope s) (\<lambda>_. s) (bd_progress db)). progress_ok scope gen C st r"
  proof -
    have "r = s \<or> r \<in> set (bd_progress db) \<and> r \<noteq> ?e"
      if "r \<in> set (update_where (\<lambda>r. bf_scope r = bf_scope s) (\<lambda>_. s) (bd_progress db))" for r
      using that e(2) by (auto simp: update_where_def bf_scope_def split: if_splits)
    then show ?thesis using mine other by blast
  qed
  ultimately show ?thesis using ok' d unfolding st(2) by (simp add: backfill_inv_def set_progress_def)
qed

lemma begin_cases:
  assumes "begin_token_backfill x sc src restart db = Inr (s, db')"
  shows "load_backfill x sc db = Inr (Some s) \<and> db' = db \<and> bf_source s = src
    \<or> (\<exists>rv st. allocate_token_revision sc (bd_store db) = Inr (rv, st) \<and> 0 \<le> rv \<and> bf_scope s = sc \<and> bf_source s = src
        \<and> bf_revision s = nat rv \<and> bf_cursor s = None \<and> \<not> bf_complete s
        \<and> (load_backfill x sc db = Inr None \<and> db' = \<lparr>bd_store = st, bd_progress = bd_progress db @ [s]\<rparr>
           \<or> (\<exists>r. load_backfill x sc db = Inr (Some r) \<and> bf_generation s = bf_generation r + 1 \<and> db' = set_progress s (db\<lparr>bd_store := st\<rparr>))))"
proof -
  obtain a p m where sc: "sc = (a, p, m)" by (metis prod.exhaust)
  have "source_validate src = Inr ()" using assms by (auto simp: begin_token_backfill_def result_simps)
  moreover obtain cur where cur: "load_backfill x sc db = Inr cur" using assms by (auto simp: begin_token_backfill_def result_simps)
  ultimately have b: "(case cur of
         None \<Rightarrow>
           and_then (allocate_token_revision sc (bd_store db)) (\<lambda>(rv, st1).
           and_then (as_u64 rv) (\<lambda>n.
             case sc of (acct, prof, mach) \<Rightarrow>
               let s = \<lparr>bf_account = acct, bf_profile = prof, bf_machine = mach, bf_generation = 1, bf_source = src,
                        bf_revision = n, bf_cursor = None, bf_complete = False\<rparr>
               in Inr (s, \<lparr>bd_store = st1, bd_progress = bd_progress db @ [s]\<rparr>)))
       | Some s \<Rightarrow>
           if bf_source s \<noteq> src \<or> bf_complete s \<and> restart
           then and_then (allocate_token_revision sc (bd_store db)) (\<lambda>(rv, st1).
             (case checked_u64 (bf_generation s + 1) of
                None \<Rightarrow> Inl (new_error Storage ''backfill generation overflowed'')
              | Some g \<Rightarrow>
                  and_then (as_u64 rv) (\<lambda>n.
                    if i64_max < int g then Inl (new_error Storage ''backfill generation overflowed'')
                    else let s' = s\<lparr>bf_generation := g, bf_source := src, bf_revision := n, bf_cursor := None, bf_complete := False\<rparr>
                      in Inr (s', set_progress s' (db\<lparr>bd_store := st1\<rparr>)))))
           else Inr (s, db)) = Inr (s, db')"
    using assms by (simp add: begin_token_backfill_def)
  show ?thesis
  proof (cases cur)
    case None
    then show ?thesis using b cur by (auto simp: result_simps sc Let_def bf_scope_def as_u64_def split: if_splits)
  next
    case (Some r)
    have rs: "bf_scope r = sc" using cur Some by (auto simp: load_backfill_def result_simps dest: find_Some_mem split: option.splits)
    show ?thesis
    proof (cases "bf_source r \<noteq> src \<or> bf_complete r \<and> restart")
      case False
      then show ?thesis using b cur Some by auto
    next
      case True
      then show ?thesis using b cur Some rs
        by (auto simp: result_simps Let_def bf_scope_def as_u64_def checked_u64_def split: if_splits option.splits)
    qed
  qed
qed

lemma begin_inv:
  assumes inv: "backfill_inv scope gen C db" and t: "tally_rows scope C" and b: "begin_token_backfill x sc src restart db = Inr (s, db')"
  shows "backfill_inv scope gen C db'"
  using begin_cases [OF b]
proof
  assume "load_backfill x sc db = Inr (Some s) \<and> db' = db \<and> bf_source s = src"
  then show ?thesis using inv by simp
next
  assume "\<exists>rv st. allocate_token_revision sc (bd_store db) = Inr (rv, st) \<and> 0 \<le> rv \<and> bf_scope s = sc \<and> bf_source s = src
        \<and> bf_revision s = nat rv \<and> bf_cursor s = None \<and> \<not> bf_complete s
        \<and> (load_backfill x sc db = Inr None \<and> db' = \<lparr>bd_store = st, bd_progress = bd_progress db @ [s]\<rparr>
           \<or> (\<exists>r. load_backfill x sc db = Inr (Some r) \<and> bf_generation s = bf_generation r + 1 \<and> db' = set_progress s (db\<lparr>bd_store := st\<rparr>)))"
  then obtain rv st where a: "allocate_token_revision sc (bd_store db) = Inr (rv, st)" "0 \<le> rv"
    and s: "bf_scope s = sc" "bf_revision s = nat rv" "bf_cursor s = None" "\<not> bf_complete s"
    and db': "load_backfill x sc db = Inr None \<and> db' = \<lparr>bd_store = st, bd_progress = bd_progress db @ [s]\<rparr>
      \<or> (\<exists>r. load_backfill x sc db = Inr (Some r)) \<and> db' = set_progress s (db\<lparr>bd_store := st\<rparr>)" by blast
  note e = allocate_effect [OF a(1)]
  have ok: "tokens_ok (bd_store db)" using inv by (simp add: backfill_inv_def)
  have inv1: "backfill_inv scope gen C (db\<lparr>bd_store := st\<rparr>)"
    by (rule inv_foreign [OF inv t]) (use e(2,5) ok allocate_grows [OF a(1)] in \<open>auto simp: newer_only_def\<close>)
  have fresh: "row_revision r < rv" if r: "find (has_key h) (token_usage st) = Some r" "grain_scope h = sc" for h r
  proof -
    have "r \<in> set (token_usage (bd_store db))" using find_Some_mem [OF r(1)] e(2) by simp
    then obtain v where v: "v \<in> set (token_revisions (bd_store db))" "rev_scope v = grain_scope (grain r)" "row_revision r \<le> revision v"
      using ok by (auto simp: tokens_ok_def)
    have "rev_scope v = sc" using v(2) key_scope [OF found_key [OF r(1)]] r(2) by simp
    then have "rv = revision v + 1" using scope_revision_unique [OF ok v(1)] e(4) by simp
    then show ?thesis using v(3) by simp
  qed
  have "own_rows (int (bf_revision s)) scope C st" if "sc = scope"
    using fresh a(2) s(2) that by (fastforce simp: own_rows_def)
  then have ps: "progress_ok scope gen C st s"
    using e(1) a(2) s by (simp add: progress_ok_def after_key_def beyond_def)
  from db' show ?thesis
  proof
    assume n: "load_backfill x sc db = Inr None \<and> db' = \<lparr>bd_store = st, bd_progress = bd_progress db @ [s]\<rparr>"
    then have "bf_scope s \<notin> bf_scope ` set (bd_progress db)"
      using s(1) by (auto simp: load_backfill_def find_None_iff result_simps split: option.splits)
    then show ?thesis using n inv1 ps by (auto simp: backfill_inv_def)
  next
    assume "(\<exists>r. load_backfill x sc db = Inr (Some r)) \<and> db' = set_progress s (db\<lparr>bd_store := st\<rparr>)"
    then show ?thesis using set_progress_ok [OF inv1, of s] ps by simp
  qed
qed

lemma step_inv:
  assumes "backfill_step scope gen C db db'" "tally_rows scope C" "backfill_inv scope gen C db"
  shows "backfill_inv scope gen C db'"
  using assms
proof (induction rule: backfill_step.induct)
  case (begin_step x sc src restart db s db')
  then show ?case using begin_inv by blast
next
  case (page_step x p db s db')
  then show ?case using page_inv by blast
next
  case (batch_step x gs db u st)
  have ok: "tokens_ok (bd_store db)" using batch_step.prems(2) by (simp add: backfill_inv_def)
  note e = batch_newer [OF batch_step.hyps ok]
  show ?case
  proof (rule inv_foreign [OF batch_step.prems(2,1) e(1,2)], intro ballI impI)
    fix s assume "s \<in> set (bd_progress db)" "bf_scope s = scope"
    then obtain m where "scope_revision scope (bd_store db) = Some m" "int (bf_revision s) \<le> m"
      using batch_step.prems(2) by (auto simp: backfill_inv_def progress_ok_def)
    then show "newer_only (int (bf_revision s)) scope (bd_store db) st" by (rule e(3))
  qed
next
  case (reserve_step sc db ob st)
  then obtain rv where a: "allocate_token_revision sc (bd_store db) = Inr (rv, st)"
    by (auto simp: begin_token_observation_def result_simps split: prod.splits)
  have "tokens_ok (bd_store db)" using reserve_step.prems by (simp add: backfill_inv_def)
  then show ?case
    by (intro inv_foreign [OF reserve_step.prems(2,1)]) (use allocate_effect(2,5) [OF a] allocate_grows [OF a] in \<open>auto simp: newer_only_def\<close>)
next
  case (observe_step x ob g db u st)
  let ?sc = "(obs_account ob, obs_profile ob, obs_machine ob)"
  obtain st1 where v: "validate_token_observation x ob g = Inr ()" and w: "token_write_revision ?sc (bd_store db) = Inr (int (obs_revision ob), st1)"
    and up: "upsert_token_at_revision x g (int (obs_revision ob)) True st1 = Inr (u, st)"
    using observe_step.hyps(1) by (auto simp: upsert_observed_token_grain_def result_simps checked_i64_def split: option.splits if_splits)
  have sc: "grain_scope g = ?sc" using v by (auto simp: validate_token_observation_def result_simps split: if_splits)
  have ok: "tokens_ok (bd_store db)" using observe_step.prems by (simp add: backfill_inv_def)
  note r = write_revision_effect [OF w] and c = conditional_upsert_effect [OF up]
  have ok': "tokens_ok st" using c(4) [OF r(5) [OF ok], of "int (obs_revision ob)"] r(1) sc by simp
  have sr: "scope_revision t st = scope_revision t st1" for t using c(1) by (simp add: scope_revision_def)
  have grow: "revisions_grow (bd_store db) st" unfolding revisions_grow_def
  proof (intro allI impI)
    fix t n assume n: "scope_revision t (bd_store db) = Some n"
    then show "\<exists>m. scope_revision t st = Some m \<and> n \<le> m"
      using r(1,4) r(3) [rule_format, of t] sr [of t] by (cases "t = ?sc") auto
  qed
  show ?case
  proof (rule inv_foreign [OF observe_step.prems(2,1) ok' grow], intro ballI impI)
    fix s assume s: "s \<in> set (bd_progress db)" "bf_scope s = scope"
    show "newer_only (int (bf_revision s)) scope (bd_store db) st" unfolding newer_only_def
    proof (intro allI impI)
      fix h assume h: "grain_scope h = scope"
      show "find (has_key h) (token_usage st) = find (has_key h) (token_usage (bd_store db))
          \<or> (\<exists>r. find (has_key h) (token_usage st) = Some r \<and> int (bf_revision s) < row_revision r)"
      proof (cases "token_key h = token_key g")
        case False
        then show ?thesis using c(2) r(2) by simp
      next
        case True
        then have sg: "?sc = scope" using key_scope [OF True] h sc by simp
        obtain m where m: "scope_revision scope (bd_store db) = Some m" "int (bf_revision s) \<le> m"
          using observe_step.prems(2) s by (auto simp: backfill_inv_def progress_ok_def)
        have "m = int (obs_revision ob)" using r(4) m(1) sg by auto
        moreover have "bf_revision s \<noteq> obs_revision ob" using observe_step.hyps(2) s sc sg by auto
        ultimately have lt: "int (bf_revision s) < int (obs_revision ob)" using m(2) by simp
        then show ?thesis using c(3) [OF True] r(2) by (auto split: option.splits)
      qed
    qed
  qed
qed

lemma steps_inv:
  assumes "(backfill_step scope gen C)\<^sup>*\<^sup>* db db'" "tally_rows scope C" "backfill_inv scope gen C db"
  shows "backfill_inv scope gen C db'"
  using assms by (induction rule: rtranclp_induct) (blast intro: step_inv)+

section \<open>The loop takes steps\<close>

definition page_cut :: "token_grain list \<Rightarrow> tally_cursor option \<Rightarrow> tally_page \<Rightarrow> bool" where
  "page_cut C after p \<longleftrightarrow>
     (\<exists>n. page_grains p = take n (rows_left after C) \<and> (page_complete p \<longleftrightarrow> length (rows_left after C) \<le> n))
     \<and> page_next p = (if page_grains p = [] then None else Some (cursor_of_grain (last (page_grains p))))"

definition honest_source :: "string \<Rightarrow> token_grain list \<Rightarrow> backfill_source \<Rightarrow> bool" where
  "honest_source gen C col \<longleftrightarrow>
     (\<forall>i after p. col_page col i after = Inr p \<longrightarrow> page_generation p = gen \<longrightarrow> page_cut C after p)"

lemma file_collector_honest:
  assumes "\<forall>i. scan_before (scans i) = Inr gen \<longrightarrow> scan_events (scans i) = Inr es"
  shows "honest_source gen (complete_grains x scope es) (file_collector x scope scans cancelled)"
  unfolding honest_source_def
proof (intro allI impI)
  fix i after p
  assume "col_page (file_collector x scope scans cancelled) i after = Inr p" and g: "page_generation p = gen"
  then have p: "tally_profile_page x scope after max_backfill_page_rows (scans i) = Inr p" by (simp add: file_collector_def)
  obtain es' where "scan_events (scans i) = Inr es'"
    using p by (cases "scan_events (scans i)"; cases scope; cases "scan_before (scans i)";
      cases "case after of None \<Rightarrow> Inr None | Some c \<Rightarrow> map_ok (\<lambda>_. Some (cursor_key c)) (cursor_validate x c)")
      (auto simp: tally_profile_page_def split: if_splits)
  then have "scan_before (scans i) = Inr gen" "scan_events (scans i) = Inr es'" using tally_page_cut(5) [OF p] g by simp_all
  then have "scan_events (scans i) = Inr es" using assms by blast
  then show "page_cut (complete_grains x scope es) after p"
    using tally_page_cut [OF p] unfolding page_cut_def rows_left_def by blast
qed

lemma complete_grains_rows: "tally_rows scope (complete_grains x scope es)"
proof -
  obtain a p m where sc: "scope = (a, p, m)" by (metis prod.exhaust)
  have "map grain_key (complete_grains x scope es) = page_keys x None (accepted_events [] es)"
    unfolding complete_grains_def sc prod.case by (rule complete_keys)
  moreover have "sorted_wrt (<) (page_keys x None (accepted_events [] es))"
    by (simp add: strict_sorted_iff)
  moreover have "\<forall>g \<in> set (complete_grains x scope es). grain_scope g = scope \<and> tok_source g = LocalSource"
    by (auto simp: complete_grains_def sc complete_grain_def Let_def new_grain_def fine_tally_new_def grain_scope_def)
  ultimately show ?thesis by (simp add: tally_rows_def)
qed

abbreviation progress_of :: "token_scope \<Rightarrow> backfill_db \<Rightarrow> backfill_state option" where
  "progress_of scope db \<equiv> find (\<lambda>s. bf_scope s = scope) (bd_progress db)"

lemma load_progress: "load_backfill x scope db = Inr v \<Longrightarrow> progress_of scope db = v"
  by (auto simp: load_backfill_def result_simps split: option.splits)

lemma progress_set: "progress_of scope db = Some r \<Longrightarrow> bf_scope s = scope \<Longrightarrow> progress_of scope (set_progress s db) = Some s"
  by (simp add: set_progress_def find_update_where)

lemma begin_progress:
  assumes "begin_token_backfill x scope src restart db = Inr (s, db')"
  shows "progress_of scope db' = Some s" "bf_source s = src"
    and "progress_of scope db \<noteq> Some s \<or> db' \<noteq> db \<Longrightarrow> bf_cursor s = None"
proof -
  have "progress_of scope db' = Some s \<and> bf_source s = src \<and> (progress_of scope db \<noteq> Some s \<or> db' \<noteq> db \<longrightarrow> bf_cursor s = None)"
    using begin_cases [OF assms]
  proof
    assume "load_backfill x scope db = Inr (Some s) \<and> db' = db \<and> bf_source s = src"
    then show ?thesis using load_progress by blast
  next
    assume "\<exists>rv st. allocate_token_revision scope (bd_store db) = Inr (rv, st) \<and> 0 \<le> rv \<and> bf_scope s = scope \<and> bf_source s = src
        \<and> bf_revision s = nat rv \<and> bf_cursor s = None \<and> \<not> bf_complete s
        \<and> (load_backfill x scope db = Inr None \<and> db' = \<lparr>bd_store = st, bd_progress = bd_progress db @ [s]\<rparr>
           \<or> (\<exists>r. load_backfill x scope db = Inr (Some r) \<and> bf_generation s = bf_generation r + 1 \<and> db' = set_progress s (db\<lparr>bd_store := st\<rparr>)))"
    then obtain st where s: "bf_scope s = scope" "bf_source s = src" "bf_cursor s = None"
      and c: "load_backfill x scope db = Inr None \<and> db' = \<lparr>bd_store = st, bd_progress = bd_progress db @ [s]\<rparr>
        \<or> (\<exists>r. load_backfill x scope db = Inr (Some r)) \<and> db' = set_progress s (db\<lparr>bd_store := st\<rparr>)" by blast
    have app: "find P (xs @ [r]) = Some r" if "find P xs = None" "P r" for P and xs :: "backfill_state list" and r
      using that by (induction xs) (auto split: if_splits)
    from c have "progress_of scope db' = Some s"
      using load_progress [of x scope db] progress_set [of scope "db\<lparr>bd_store := st\<rparr>" _ s] s(1) app [of "\<lambda>s. bf_scope s = scope"] by auto
    then show ?thesis using s by blast
  qed
  then show "progress_of scope db' = Some s" "bf_source s = src" "progress_of scope db \<noteq> Some s \<or> db' \<noteq> db \<Longrightarrow> bf_cursor s = None"
    by blast+
qed

lemma page_progress:
  assumes "apply_backfill_page x p db = Inr (s, db')" "bf_scope (bp_expected p) = scope"
  shows "progress_of scope db' = Some s"
proof -
  have "progress_of scope db = Some (bp_expected p)"
    using assms load_progress [of x scope db]
    by (auto simp: apply_backfill_page_def result_simps split: option.splits if_splits)
  then show ?thesis
    using page_step_effect(2,3) [OF assms(1)] assms(2) progress_set [of scope "db\<lparr>bd_store := _\<rparr>" "bp_expected p" s]
    by (auto simp: bf_scope_def)
qed

text \<open>A call that can be cancelled has the effect of the call or none; when it returns, that of the call.\<close>

lemma run_cancellable_steps:
  assumes "\<forall>v db'. f db = Inr (v, db') \<longrightarrow> R db db'"
  shows "run_cancellable c f db = Inl (e, db1) \<Longrightarrow> R\<^sup>*\<^sup>* db db1" "run_cancellable c f db = Inr (v, db1) \<Longrightarrow> f db = Inr (v, db1)"
  using assms by (auto simp: run_cancellable_def split: option.splits sum.splits if_splits)

lemma collect_keeps:
  "run_cancellable c (collect_backfill_page col i after) db = Inl (e, db1) \<Longrightarrow> db1 = db"
  "run_cancellable c (collect_backfill_page col i after) db = Inr (p, db1) \<Longrightarrow>
     db1 = db \<and> col_page col i after = Inr p \<and> length (page_grains p) \<le> max_backfill_page_rows"
  by (auto simp: run_cancellable_def collect_backfill_page_def result_simps split: option.splits sum.splits if_splits)

definition next_page :: "backfill_state \<Rightarrow> tally_page \<Rightarrow> backfill_page" where
  "next_page state rows = \<lparr>bp_expected = state, bp_rows = page_grains rows,
     bp_next = (case page_next rows of None \<Rightarrow> bf_cursor state | Some c \<Rightarrow> Some c), bp_complete = page_complete rows\<rparr>"

lemma page_state:
  "apply_backfill_page x (next_page state rows) db = Inr (s, db') \<Longrightarrow> bf_source s = bf_source state"
  using page_step_effect(2) by (fastforce simp: next_page_def)

lemma loop_steps:
  assumes "honest_source gen C col" "progress_of scope db = Some state"
    and "page_generation rows = bf_source state \<longrightarrow> bf_source state = gen \<longrightarrow> page_cut C (bf_cursor state) rows"
  shows "(backfill_step scope gen C)\<^sup>*\<^sup>* db (snd (backfill_loop fuel x scope col i restarts done state rows db))"
  using assms(2,3)
proof (induction fuel arbitrary: i restarts "done" state rows db)
  case (Suc fuel)
  let ?R = "backfill_step scope gen C"
  have sc: "bf_scope state = scope" using Suc.prems(1) find_Some_mem by fastforce
  show ?case
  proof (cases "page_generation rows = bf_source state")
    case False
    let ?b = "run_cancellable (col_cancelled col i) (begin_token_backfill x scope (page_generation rows) False) db"
    have "\<forall>s db'. begin_token_backfill x scope (page_generation rows) False db = Inr (s, db') \<longrightarrow> ?R db db'"
      using begin_step by blast
    note B = run_cancellable_steps [of "begin_token_backfill x scope (page_generation rows) False" db ?R, OF this]
    show ?thesis
    proof (cases ?b)
      case (Inl r)
      obtain e db1 where r: "r = (e, db1)" by (metis prod.exhaust)
      have "?R\<^sup>*\<^sup>* db db1" using B(1) Inl r by blast
      then show ?thesis using False Inl r by simp
    next
      case (Inr v)
      obtain state1 db1 where v: "v = (state1, db1)" by (metis prod.exhaust)
      have b: "begin_token_backfill x scope (page_generation rows) False db = Inr (state1, db1)" using B(2) Inr v by blast
      note P = begin_progress [OF b]
      have one: "?R db db1" by (rule begin_step [OF b])
      have none: "bf_cursor state1 = None" using P(2,3) Suc.prems(1) False by fastforce
      show ?thesis
      proof (cases "run_cancellable (col_cancelled col (i + 1)) (collect_backfill_page col (i + 1) None) db1")
        case (Inl r2)
        then obtain e where "r2 = (e, db1)" using collect_keeps(1) by (metis prod.exhaust)
        then show ?thesis using False Inl Inr v r_into_rtranclp [of ?R, OF one] by simp
      next
        case (Inr w)
        then obtain rows1 where w: "w = (rows1, db1)" "col_page col (i + 1) None = Inr rows1"
          using collect_keeps(2) by (metis prod.exhaust)
        have "page_cut C (bf_cursor state1) rows1" if "page_generation rows1 = bf_source state1" "bf_source state1 = gen"
          using assms(1) w(2) that none unfolding honest_source_def by simp
        then have "?R\<^sup>*\<^sup>* db1 (snd (backfill_loop fuel x scope col (i + 2) (restarts + 1) done state1 rows1 db1))"
          using Suc.IH [OF P(1)] by blast
        then have "?R\<^sup>*\<^sup>* db (snd (backfill_loop fuel x scope col (i + 2) (restarts + 1) done state1 rows1 db1))"
          using one by (rule converse_rtranclp_into_rtranclp [rotated])
        then show ?thesis using False Inr w v \<open>?b = Inr v\<close> by simp
      qed
    qed
  next
    case True
    let ?p = "next_page state rows"
    let ?a = "run_cancellable (col_cancelled col i) (apply_backfill_page x ?p) db"
    have hp: "honest_page C ?p" if "bf_source state = gen"
      using Suc.prems(2) True that by (auto simp: page_cut_def honest_page_def next_page_def)
    have step: "?R db db'" if "apply_backfill_page x ?p db = Inr (s, db')" for s db'
      by (rule page_step [OF that]) (use hp in \<open>simp add: next_page_def\<close>)
    then have "\<forall>s db'. apply_backfill_page x ?p db = Inr (s, db') \<longrightarrow> ?R db db'" by blast
    note A = run_cancellable_steps [of "apply_backfill_page x ?p" db ?R, OF this]
    have unfold: "backfill_loop (Suc fuel) x scope col i restarts done state rows db =
      (case ?a of Inl r \<Rightarrow> r
        | Inr (state1, db1) \<Rightarrow>
            if bf_complete state1 then (Backfill_finished (done + length (page_grains rows)), db1)
            else (case run_cancellable (col_cancelled col (i + 1)) (collect_backfill_page col (i + 1) (bf_cursor state1)) db1 of
               Inl r \<Rightarrow> r
             | Inr (rows1, db2) \<Rightarrow>
                 backfill_loop fuel x scope col (i + 2) restarts (done + length (page_grains rows)) state1 rows1 db2))"
      using True by (simp add: next_page_def)
    show ?thesis
    proof (cases ?a)
      case (Inl r)
      obtain e db1 where r: "r = (e, db1)" by (metis prod.exhaust)
      have "?R\<^sup>*\<^sup>* db db1" using A(1) Inl r by blast
      then show ?thesis unfolding unfold using Inl r by simp
    next
      case (Inr v)
      obtain state1 db1 where v: "v = (state1, db1)" by (metis prod.exhaust)
      have b: "apply_backfill_page x ?p db = Inr (state1, db1)" using A(2) Inr v by blast
      have P: "progress_of scope db1 = Some state1" by (rule page_progress [OF b]) (simp add: next_page_def sc)
      have one: "?R db db1" by (rule step [OF b])
      show ?thesis
      proof (cases "run_cancellable (col_cancelled col (i + 1)) (collect_backfill_page col (i + 1) (bf_cursor state1)) db1")
        case (Inl r2)
        then obtain e where "r2 = (e, db1)" using collect_keeps(1) by (metis prod.exhaust)
        then show ?thesis unfolding unfold using Inl Inr v one by auto
      next
        case (Inr w)
        then obtain rows1 where w: "w = (rows1, db1)" "col_page col (i + 1) (bf_cursor state1) = Inr rows1"
          using collect_keeps(2) by (metis prod.exhaust)
        have "page_cut C (bf_cursor state1) rows1" if "page_generation rows1 = bf_source state1" "bf_source state1 = gen"
          using assms(1) w(2) that unfolding honest_source_def by simp
        then have "?R\<^sup>*\<^sup>* db1 (snd (backfill_loop fuel x scope col (i + 2) restarts (done + length (page_grains rows)) state1 rows1 db1))"
          using Suc.IH [OF P] by blast
        then have "?R\<^sup>*\<^sup>* db (snd (backfill_loop fuel x scope col (i + 2) restarts (done + length (page_grains rows)) state1 rows1 db1))"
          using one by (rule converse_rtranclp_into_rtranclp [rotated])
        then show ?thesis unfolding unfold using Inr w v one \<open>?a = Inr v\<close> by (auto intro: r_into_rtranclp)
      qed
    qed
  qed
qed simp

lemma profile_steps:
  assumes "honest_source gen C col"
  shows "(backfill_step scope gen C)\<^sup>*\<^sup>* db (snd (backfill_profile fuel x scope col restart db))"
proof -
  let ?R = "backfill_step scope gen C"
  let ?g = "run_cancellable (col_cancelled col 0) (\<lambda>db. map_ok (\<lambda>g. (g, db)) (col_generation col 0)) db"
  show ?thesis
  proof (cases ?g)
    case (Inl r)
    then have "snd r = db" by (auto simp: run_cancellable_def result_simps split: option.splits sum.splits if_splits)
    then show ?thesis using Inl by (simp add: backfill_profile_def)
  next
    case (Inr v)
    obtain src db0 where v: "v = (src, db0)" by (metis prod.exhaust)
    let ?b = "run_cancellable (col_cancelled col 1) (begin_token_backfill x scope src restart) db"
    have "\<forall>s db'. begin_token_backfill x scope src restart db = Inr (s, db') \<longrightarrow> ?R db db'"
      using begin_step by blast
    note B = run_cancellable_steps [of "begin_token_backfill x scope src restart" db ?R, OF this]
    show ?thesis
    proof (cases ?b)
      case (Inl r)
      obtain e db1 where r: "r = (e, db1)" by (metis prod.exhaust)
      then have "?R\<^sup>*\<^sup>* db db1" using B(1) Inl by blast
      then show ?thesis using \<open>?g = Inr v\<close> v Inl r by (simp add: backfill_profile_def)
    next
      case (Inr w)
      obtain state db1 where w: "w = (state, db1)" by (metis prod.exhaust)
      have b: "begin_token_backfill x scope src restart db = Inr (state, db1)" using B(2) Inr w by blast
      have one: "?R\<^sup>*\<^sup>* db db1" using begin_step [OF b] by (rule r_into_rtranclp)
      show ?thesis
      proof (cases "run_cancellable (col_cancelled col 2) (collect_backfill_page col 2 (bf_cursor state)) db1")
        case (Inl r2)
        then obtain e where "r2 = (e, db1)" using collect_keeps(1) by (metis prod.exhaust)
        then show ?thesis using \<open>?g = Inr v\<close> v \<open>?b = Inr w\<close> w Inl one by (simp add: backfill_profile_def)
      next
        case (Inr u)
        then obtain rows where u: "u = (rows, db1)" "col_page col 2 (bf_cursor state) = Inr rows"
          using collect_keeps(2) by (metis prod.exhaust)
        have "page_cut C (bf_cursor state) rows" if "page_generation rows = bf_source state" "bf_source state = gen"
          using assms u(2) that unfolding honest_source_def by simp
        then have "?R\<^sup>*\<^sup>* db1 (snd (backfill_loop fuel x scope col 3 0 0 state rows db1))"
          using loop_steps [OF assms begin_progress(1) [OF b]] by blast
        then have "?R\<^sup>*\<^sup>* db (snd (backfill_loop fuel x scope col 3 0 0 state rows db1))" using one by (rule rtranclp_trans [rotated])
        then show ?thesis using \<open>?g = Inr v\<close> v \<open>?b = Inr w\<close> w Inr u one by (simp add: backfill_profile_def)
      qed
    qed
  qed
qed

section \<open>The end of the loop\<close>

definition stable_source :: "string \<Rightarrow> backfill_source \<Rightarrow> bool" where
  "stable_source gen col \<longleftrightarrow>
     (\<forall>i. col_cancelled col i = None) \<and> (\<forall>i g. col_generation col i = Inr g \<longrightarrow> g = gen)
     \<and> (\<forall>i after p. col_page col i after = Inr p \<longrightarrow> page_generation p = gen)"

text \<open>How the loop may end: with the history complete in the store, or with an error.\<close>

definition backfill_ended :: "token_scope \<Rightarrow> string \<Rightarrow> backfill_end \<times> backfill_db \<Rightarrow> bool" where
  "backfill_ended scope gen r \<longleftrightarrow>
     (case fst r of
        Backfill_finished n \<Rightarrow> (\<exists>s. progress_of scope (snd r) = Some s \<and> bf_source s = gen \<and> bf_complete s)
      | Backfill_failed e \<Rightarrow> True
      | Backfill_cancelled \<Rightarrow> False
      | Backfill_running \<Rightarrow> False)"

text \<open>A page that is not the last one has a row, and its last key leaves fewer rows to come.\<close>

lemma rows_left_less:
  assumes c: "page_cut C (bf_cursor state) rows" and ap: "apply_backfill_page x (next_page state rows) db = Inr (s, db')"
    and n: "\<not> bf_complete s"
  shows "length (rows_left (bf_cursor s) C) < length (rows_left (bf_cursor state) C)"
proof -
  note e = page_step_effect [OF ap]
  have s: "bf_cursor s = bp_next (next_page state rows)" "bf_complete s = page_complete rows"
    using e(2) by (simp_all add: next_page_def)
  have "backfill_page_validate x (next_page state rows) = Inr ()" using ap by (auto simp: apply_backfill_page_def result_simps)
  then have ne: "page_grains rows \<noteq> []"
    using n s(2) by (auto simp: backfill_page_validate_def next_page_def result_simps split: if_splits)
  then have cur: "bf_cursor s = Some (cursor_of_grain (last (page_grains rows)))"
    using e(4) s(1) by (simp add: next_page_def)
  let ?l = "last (page_grains rows)"
  obtain k where k: "page_grains rows = take k (rows_left (bf_cursor state) C)" using c by (auto simp: page_cut_def)
  have "?l \<in> set (page_grains rows)" using ne by simp
  then have l: "?l \<in> set (rows_left (bf_cursor state) C)" using k by (metis in_set_takeD)
  then have b: "beyond (after_key (bf_cursor state)) (grain_key ?l)" by (simp add: rows_left_def)
  have sub: "rows_left (bf_cursor s) C = filter (\<lambda>g. grain_key ?l < grain_key g) (rows_left (bf_cursor state) C)"
    unfolding rows_left_def filter_filter cur after_key_def option.map cursor_grain_key
    using b by (intro filter_cong) (auto simp: beyond_def after_key_def split: option.splits)
  have "length (filter (\<lambda>g. grain_key ?l < grain_key g) (rows_left (bf_cursor state) C)) < length (rows_left (bf_cursor state) C)"
    by (rule length_filter_less [OF l]) simp
  then show ?thesis unfolding sub .
qed

lemma loop_ends:
  assumes "honest_source gen C col" "stable_source gen col" "progress_of scope db = Some state" "bf_source state = gen"
    and "page_generation rows = gen" "page_cut C (bf_cursor state) rows" "length (rows_left (bf_cursor state) C) < fuel"
  shows "backfill_ended scope gen (backfill_loop fuel x scope col i restarts done state rows db)"
  using assms(3-)
proof (induction fuel arbitrary: i restarts "done" state rows db)
  case (Suc fuel)
  let ?p = "next_page state rows"
  have sc: "bf_scope state = scope" using Suc.prems(1) find_Some_mem by fastforce
  have nc: "col_cancelled col j = None" for j using assms(2) by (simp add: stable_source_def)
  have unfold: "backfill_loop (Suc fuel) x scope col i restarts done state rows db =
      (case run_cancellable None (apply_backfill_page x ?p) db of Inl r \<Rightarrow> r
        | Inr (state1, db1) \<Rightarrow>
            if bf_complete state1 then (Backfill_finished (done + length (page_grains rows)), db1)
            else (case run_cancellable None (collect_backfill_page col (i + 1) (bf_cursor state1)) db1 of
               Inl r \<Rightarrow> r
             | Inr (rows1, db2) \<Rightarrow>
                 backfill_loop fuel x scope col (i + 2) restarts (done + length (page_grains rows)) state1 rows1 db2))"
    unfolding backfill_loop.simps next_page_def nc using Suc.prems(2,3) by simp
  show ?case
  proof (cases "apply_backfill_page x ?p db")
    case (Inl e)
    then show ?thesis unfolding unfold by (simp add: run_cancellable_def backfill_ended_def)
  next
    case (Inr v)
    obtain s1 db1 where v: "v = (s1, db1)" by (metis prod.exhaust)
    have ap: "apply_backfill_page x ?p db = Inr (s1, db1)" using Inr v by simp
    have P: "progress_of scope db1 = Some s1" by (rule page_progress [OF ap]) (simp add: next_page_def sc)
    have src: "bf_source s1 = gen" using page_state [OF ap] Suc.prems(2) by simp
    show ?thesis
    proof (cases "bf_complete s1")
      case True
      then show ?thesis unfolding unfold using ap P src by (simp add: run_cancellable_def backfill_ended_def)
    next
      case False
      show ?thesis
      proof (cases "collect_backfill_page col (i + 1) (bf_cursor s1) db1")
        case (Inl e)
        then show ?thesis unfolding unfold using ap False by (simp add: run_cancellable_def backfill_ended_def)
      next
        case (Inr w)
        then obtain rows1 where w: "w = (rows1, db1)" and pg: "col_page col (i + 1) (bf_cursor s1) = Inr rows1"
          by (auto simp: collect_backfill_page_def result_simps split: if_splits)
        have g: "page_generation rows1 = gen" using assms(2) pg unfolding stable_source_def by blast
        then have cut: "page_cut C (bf_cursor s1) rows1" using assms(1) pg unfolding honest_source_def by blast
        have "length (rows_left (bf_cursor s1) C) < fuel"
          using rows_left_less [OF Suc.prems(4) ap False] Suc.prems(5) by simp
        then have "backfill_ended scope gen (backfill_loop fuel x scope col (i + 2) restarts (done + length (page_grains rows)) s1 rows1 db1)"
          by (rule Suc.IH [OF P src g cut])
        then show ?thesis unfolding unfold using ap False Inr w by (simp add: run_cancellable_def)
      qed
    qed
  qed
qed simp

lemma profile_ends:
  assumes "honest_source gen C col" "stable_source gen col" "length C < fuel"
  shows "backfill_ended scope gen (backfill_profile fuel x scope col restart db)"
proof -
  have nc: "col_cancelled col j = None" for j using assms(2) by (simp add: stable_source_def)
  show ?thesis
  proof (cases "col_generation col 0")
    case (Inl e)
    then show ?thesis using nc by (simp add: backfill_profile_def run_cancellable_def backfill_ended_def)
  next
    case (Inr src)
    then have src: "src = gen" using assms(2) by (auto simp: stable_source_def)
    show ?thesis
    proof (cases "begin_token_backfill x scope gen restart db")
      case (Inl e)
      then show ?thesis using nc Inr src by (simp add: backfill_profile_def run_cancellable_def backfill_ended_def)
    next
      case b0: (Inr v)
      obtain s db1 where v: "v = (s, db1)" by (metis prod.exhaust)
      have b: "begin_token_backfill x scope gen restart db = Inr (s, db1)" using b0 v by simp
      note P = begin_progress [OF b]
      show ?thesis
      proof (cases "bf_complete s")
        case True
        then show ?thesis using nc Inr src b P by (simp add: backfill_profile_def run_cancellable_def backfill_ended_def)
      next
        case False
        show ?thesis
        proof (cases "collect_backfill_page col 2 (bf_cursor s) db1")
          case (Inl e)
          then show ?thesis using nc Inr src b False by (simp add: backfill_profile_def run_cancellable_def backfill_ended_def)
        next
          case c: (Inr w)
          then obtain rows where w: "w = (rows, db1)" and pg: "col_page col 2 (bf_cursor s) = Inr rows"
            by (auto simp: collect_backfill_page_def result_simps split: if_splits)
          have g: "page_generation rows = gen" using assms(2) pg unfolding stable_source_def by blast
          then have cut: "page_cut C (bf_cursor s) rows" using assms(1) pg unfolding honest_source_def by blast
          have "length (rows_left (bf_cursor s) C) < fuel" using assms(3) by (simp add: rows_left_def le_less_trans [OF length_filter_le])
          then have "backfill_ended scope gen (backfill_loop fuel x scope col 3 0 0 s rows db1)"
            by (rule loop_ends [OF assms(1,2) P(1,2) g cut])
          then show ?thesis using nc Inr src b False c w by (simp add: backfill_profile_def run_cancellable_def)
        qed
      qed
    qed
  qed
qed

lemma file_collector_stable:
  assumes "\<forall>i. cancelled i = None" "\<forall>i g. scan_before (scans i) = Inr g \<longrightarrow> g = gen"
  shows "stable_source gen (file_collector x scope scans cancelled)"
proof -
  have "page_generation p = gen" if p: "tally_profile_page x scope after max_backfill_page_rows (scans i) = Inr p" for i after p
  proof -
    obtain es where "scan_events (scans i) = Inr es"
      using p by (cases "scan_events (scans i)"; cases scope; cases "scan_before (scans i)";
        cases "case after of None \<Rightarrow> Inr None | Some c \<Rightarrow> map_ok (\<lambda>_. Some (cursor_key c)) (cursor_validate x c)")
        (auto simp: tally_profile_page_def split: if_splits)
    then show ?thesis using tally_page_cut(5) [OF p] assms(2) by blast
  qed
  then show ?thesis using assms by (simp add: stable_source_def file_collector_def)
qed

section \<open>Properties\<close>


text \<open>
  C17. Interruption loses nothing. Over any sequence of steps, so over any number of backfills that were cancelled,
  failed or started over, with the writes of collectors and receivers between them: when the progress row of a
  scope says that the history of the generation \<open>gen\<close> is complete, every row of the complete tally of its files is
  in the store, at the revision of the backfill with its complete counts, or as a later writer left it.
\<close>

theorem interrupted_backfill_is_complete:
  assumes "(backfill_step scope gen (complete_grains x scope es))\<^sup>*\<^sup>* db0 db" and "tokens_ok (bd_store db0)" and "bd_progress db0 = []"
    and "s \<in> set (bd_progress db)" "bf_scope s = scope" "bf_source s = gen" "bf_complete s"
  shows "\<forall>g \<in> set (complete_grains x scope es). covered (int (bf_revision s)) g (bd_store db)"
proof -
  have "backfill_inv scope gen (complete_grains x scope es) db0" using assms(2,3) by (simp add: backfill_inv_def)
  then have "backfill_inv scope gen (complete_grains x scope es) db"
    by (rule steps_inv [OF assms(1) complete_grains_rows])
  then show ?thesis using assms(4-) by (simp add: backfill_inv_def progress_ok_def)
qed

text \<open>
  C25. A backfill of files that do not change ends: with more fuel than the tally has rows, an uncancelled backfill does
  not run on; it ends with the progress row complete at the generation of the files, or with the error of a step.
\<close>

theorem backfill_ends:
  assumes "\<forall>i. scan_before (scans i) = Inr gen \<longrightarrow> scan_events (scans i) = Inr es"
    and "\<forall>i g. scan_before (scans i) = Inr g \<longrightarrow> g = gen" and "\<forall>i. cancelled i = None"
    and "length (complete_grains x scope es) < fuel"
  shows "backfill_ended scope gen (backfill_profile fuel x scope (file_collector x scope scans cancelled) restart db)"
  by (rule profile_ends [OF file_collector_honest [OF assms(1)] file_collector_stable [OF assms(3,2)] assms(4)])

section \<open>An example\<close>

abbreviation example_token_scope :: token_scope where
  "example_token_scope \<equiv> (1, ''deepseek'', ''host'')"

definition backfill_example_events :: "tally_event list" where
  "backfill_example_events = [tally_example_event ''s'' 7 None]"

definition backfill_example_collector :: "(nat \<Rightarrow> bool option) \<Rightarrow> backfill_source" where
  "backfill_example_collector = file_collector example_extern example_token_scope (\<lambda>_. tally_example_scan backfill_example_events)"

definition backfill_example_db :: backfill_db where
  "backfill_example_db = \<lparr>bd_store = token_example_store, bd_progress = []\<rparr>"

definition backfill_example_state :: backfill_state where
  "backfill_example_state = \<lparr>bf_account = 1, bf_profile = ''deepseek'', bf_machine = ''host'', bf_generation = 1,
     bf_source = example_generation, bf_revision = 1, bf_cursor = None, bf_complete = False\<rparr>"

lemma backfill_example_page:
  "tally_profile_page example_extern example_token_scope None max_backfill_page_rows (tally_example_scan backfill_example_events) =
     Inr \<lparr>page_grains = [example_grain 7], page_coarse = projr (coarse_rows [example_grain 7]),
       page_next = Some (cursor_of_grain (example_grain 7)), page_complete = True, page_generation = example_generation\<rparr>"
proof -
  have t: "tally_events example_extern backfill_example_events (fine_tally_new 1 ''deepseek'' ''host'' max_backfill_page_rows None True) =
    Inr \<lparr>ft_account = 1, ft_profile = ''deepseek'', ft_machine = ''host'', ft_rows = [((''2026-01-01'', ''s'', ''m'', ''hash''), example_grain 7)],
      ft_seen = [], ft_max_rows = max_backfill_page_rows, ft_after = None, ft_paged = True, ft_truncated = False, ft_duplicates = 0, ft_synthetic = 0, ft_malformed = 0\<rparr>"
    by (simp add: backfill_example_events_def tally_example_eval example_grain_def max_backfill_page_rows_def Let_def saturate_u64_def u64_max_def)
  have c: "is_ok (coarse_rows [example_grain 7])"
    by (simp add: coarse_rows_def coarse_step_def coarse_add_def tally_add_counts_def example_grain_def Let_def)
  then obtain cs where cs: "coarse_rows [example_grain 7] = Inr cs" by (auto simp: result_simps)
  have m: "max_backfill_page_rows \<noteq> 0" "\<not> default_max_rows < max_backfill_page_rows"
    by (simp_all add: max_backfill_page_rows_def default_max_rows_def)
  show ?thesis
    unfolding tally_profile_page_def prod.case
    by (simp add: t tally_finish_def example_grain_validE cs tally_example_scan_def m)
qed

lemma example_source [simp]: "source_validate example_generation = Inr ()"
proof -
  have "list_all P (replicate n c)" if "P c" for P n and c :: char using that by (induction n) auto
  then show ?thesis by (simp add: source_validate_def example_generation_def is_ascii_digit_def byte_of_def)
qed

lemma backfill_example_begin:
  "begin_token_backfill example_extern example_token_scope example_generation False backfill_example_db =
     Inr (backfill_example_state, \<lparr>bd_store = token_example_store\<lparr>token_revisions := [example_revision 1]\<rparr>, bd_progress = [backfill_example_state]\<rparr>)"
  by (simp add: begin_token_backfill_def load_backfill_def backfill_example_db_def allocate_example as_u64_def backfill_example_state_def Let_def)

lemma backfill_example_apply:
  "\<exists>db s. apply_backfill_page example_extern (next_page backfill_example_state
       \<lparr>page_grains = [example_grain 7], page_coarse = cs, page_next = Some (cursor_of_grain (example_grain 7)),
        page_complete = True, page_generation = example_generation\<rparr>)
      \<lparr>bd_store = token_example_store\<lparr>token_revisions := [example_revision 1]\<rparr>, bd_progress = [backfill_example_state]\<rparr> = Inr (s, db)"
proof -
  let ?st = "token_example_store\<lparr>token_revisions := [example_revision 1]\<rparr>"
  have v: "backfill_state_validate example_extern backfill_example_state = Inr ()"
    by (simp add: backfill_state_validate_def backfill_example_state_def)
  have sc: "bf_scope backfill_example_state = example_token_scope" by (simp add: bf_scope_def backfill_example_state_def)
  have fk: "tok_account (example_grain 7) = 1" "tok_profile (example_grain 7) = ''deepseek''"
    "tok_machine (example_grain 7) = ''host''" "tok_source (example_grain 7) = LocalSource" by (simp_all add: example_grain_def)
  obtain c where c: "token_columns (example_grain 7) = Inr c" using example_columns [of 7] by (auto simp: result_simps)
  have "profile_exists 1 ''deepseek'' ?st" "machine_exists 1 ''host'' ?st" by (simp_all add: example_fk)
  then obtain st where st: "upsert_token_at_revision example_extern (example_grain 7) 1 True ?st = Inr ((), st)"
    using example_grain_validE [of 7] c by (simp add: upsert_token_at_revision_def fk)
  have sel: "bf_revision backfill_example_state = 1" "\<not> bf_complete backfill_example_state" "bf_cursor backfill_example_state = None"
    by (simp_all add: backfill_example_state_def)
  have l: "load_backfill example_extern example_token_scope \<lparr>bd_store = ?st, bd_progress = [backfill_example_state]\<rparr> = Inr (Some backfill_example_state)"
    using v sc by (simp add: load_backfill_def)
  have pv: "backfill_page_validate example_extern (next_page backfill_example_state
       \<lparr>page_grains = [example_grain 7], page_coarse = cs, page_next = Some (cursor_of_grain (example_grain 7)),
        page_complete = True, page_generation = example_generation\<rparr>) = Inr ()"
    using v sel example_grain_validE [of 7]
    by (simp add: backfill_page_validate_def next_page_def max_backfill_page_rows_def sc fk)
  show ?thesis
    using pv l st sel by (simp add: apply_backfill_page_def sc next_page_def i64_max_def Let_def)
qed

lemma loop_finishes:
  assumes "page_generation rows = bf_source state" "col_cancelled col i = None"
    and "apply_backfill_page x (next_page state rows) db = Inr (s, db')" "bf_complete s"
  shows "backfill_loop (Suc fuel) x scope col i restarts done state rows db = (Backfill_finished (done + length (page_grains rows)), db')"
  using assms by (simp add: next_page_def run_cancellable_def)

lemma profile_starts:
  assumes "\<forall>i. col_cancelled col i = None" "col_generation col 0 = Inr src"
    and "begin_token_backfill x scope src restart db = Inr (state, db1)" "\<not> bf_complete state"
    and "col_page col 2 (bf_cursor state) = Inr rows" "length (page_grains rows) \<le> max_backfill_page_rows"
  shows "backfill_profile fuel x scope col restart db = backfill_loop fuel x scope col 3 0 0 state rows db1"
  using assms by (simp add: backfill_profile_def run_cancellable_def collect_backfill_page_def not_less)

lemma backfill_example_run:
  "\<exists>n db. backfill_profile 5 example_extern example_token_scope (backfill_example_collector (\<lambda>_. None)) False backfill_example_db
     = (Backfill_finished n, db)"
proof -
  let ?rows = "\<lparr>page_grains = [example_grain 7], page_coarse = projr (coarse_rows [example_grain 7]),
    page_next = Some (cursor_of_grain (example_grain 7)), page_complete = True, page_generation = example_generation\<rparr>"
  let ?col = "backfill_example_collector (\<lambda>_. None)"
  let ?db1 = "\<lparr>bd_store = token_example_store\<lparr>token_revisions := [example_revision 1]\<rparr>, bd_progress = [backfill_example_state]\<rparr>"
  obtain db s where a: "apply_backfill_page example_extern (next_page backfill_example_state ?rows) ?db1 = Inr (s, db)"
    using backfill_example_apply by blast
  have c: "bf_complete s" using page_step_effect(2) [OF a] by (simp add: next_page_def)
  have sel: "bf_cursor backfill_example_state = None" "\<not> bf_complete backfill_example_state" "bf_source backfill_example_state = example_generation"
    by (simp_all add: backfill_example_state_def)
  have col: "\<forall>i. col_cancelled ?col i = None" "col_generation ?col 0 = Inr example_generation" "col_page ?col 2 None = Inr ?rows"
    by (simp_all only: backfill_example_collector_def file_collector_def backfill_source.simps backfill_example_page)
      (simp_all add: tally_example_scan_def)
  have "backfill_profile 5 example_extern example_token_scope ?col False backfill_example_db
      = backfill_loop 5 example_extern example_token_scope ?col 3 0 0 backfill_example_state ?rows ?db1"
    by (rule profile_starts [OF col(1,2) backfill_example_begin sel(2)]) (use col(3) sel(1) in \<open>simp_all add: max_backfill_page_rows_def\<close>)
  moreover have "backfill_loop (Suc 4) example_extern example_token_scope ?col 3 0 0 backfill_example_state ?rows ?db1
      = (Backfill_finished (0 + length (page_grains ?rows)), db)"
    by (rule loop_finishes [OF _ _ a c]) (use sel(3) col(1) in simp_all)
  ultimately show ?thesis by (simp add: eval_nat_numeral)
qed

lemma backfill_example_scans:
  "\<forall>i::nat. scan_before (tally_example_scan backfill_example_events) = Inr example_generation \<longrightarrow>
     scan_events (tally_example_scan backfill_example_events) = Inr backfill_example_events"
  by (simp add: tally_example_scan_def)


lemma backfill_example_complete:
  "complete_grains example_extern example_token_scope backfill_example_events = [example_grain 7]"
  by (simp add: complete_grains_def backfill_example_events_def page_keys_def tally_example_event_def event_valid_def session_id_new_def
      validate_text_def has_control_def is_trimmed_def code_points_def is_control_def is_whitespace_def byte_of_def beyond_def
      complete_grain_def events_of_def events_sum_def event_key_def new_grain_def fine_tally_new_def example_extern_def example_grain_def)

theorem interrupted_backfill_is_complete_witness:
  "\<exists>n db s. backfill_profile 5 example_extern example_token_scope (backfill_example_collector (\<lambda>_. None)) False backfill_example_db
     = (Backfill_finished n, db) \<and> s \<in> set (bd_progress db) \<and> covered (int (bf_revision s)) (example_grain 7) (bd_store db)"
proof -
  let ?C = "complete_grains example_extern example_token_scope backfill_example_events"
  let ?run = "backfill_profile 5 example_extern example_token_scope (backfill_example_collector (\<lambda>_. None)) False backfill_example_db"
  obtain n db where r: "?run = (Backfill_finished n, db)" using backfill_example_run by blast
  have h: "honest_source example_generation ?C (backfill_example_collector (\<lambda>_. None))"
    unfolding backfill_example_collector_def by (rule file_collector_honest [OF backfill_example_scans])
  have st: "stable_source example_generation (backfill_example_collector (\<lambda>_. None))"
    unfolding backfill_example_collector_def by (rule file_collector_stable) (simp_all add: tally_example_scan_def)
  have "backfill_ended example_token_scope example_generation ?run"
    by (rule profile_ends [OF h st]) (simp add: backfill_example_complete)
  then obtain s where s: "progress_of example_token_scope db = Some s" "bf_source s = example_generation" "bf_complete s"
    using r by (auto simp: backfill_ended_def)
  have m: "s \<in> set (bd_progress db)" "bf_scope s = example_token_scope" using find_Some_mem [OF s(1)] by simp_all
  have steps: "(backfill_step example_token_scope example_generation ?C)\<^sup>*\<^sup>* backfill_example_db db"
    using profile_steps [OF h, of example_token_scope backfill_example_db 5 example_extern False] r by simp
  have "tokens_ok (bd_store backfill_example_db)" "bd_progress backfill_example_db = []"
    using token_example_ok by (simp_all add: backfill_example_db_def)
  from interrupted_backfill_is_complete [OF steps this m s(2,3)] r m(1) show ?thesis unfolding backfill_example_complete by auto
qed

theorem backfill_ends_witness:
  "backfill_ended example_token_scope example_generation
     (backfill_profile 5 example_extern example_token_scope (backfill_example_collector (\<lambda>_. None)) False backfill_example_db)"
  unfolding backfill_example_collector_def
  by (rule backfill_ends [OF backfill_example_scans]) (simp_all add: backfill_example_complete, simp_all add: tally_example_scan_def)

end
