(* ===== verification/Release_Manifest.thy ===== *)
theory Release_Manifest
  imports Pulse_Text
begin

text \<open>
  What a node accepts as a release, from \<open>src/src/self_update.rs\<close>: the signed manifest and its parser, the choice of
  a candidate, the URLs a request may go to and the bounded walk over redirects. Versions are the
  semantic versions of a library: an ordered type with a parser, a printer and a test for prerelease
  identifiers, which are parameters.
\<close>

section \<open>Text\<close>

type_synonym 'a outcome = "string + 'a"

definition newline :: char where "newline = char_of (10::nat)"
definition carriage_return :: char where "carriage_return = char_of (13::nat)"

definition strip_cr :: "string \<Rightarrow> string" where
  "strip_cr l = (if l \<noteq> [] \<and> last l = carriage_return then butlast l else l)"

text \<open>\<open>str::lines\<close>; the first argument is the line read so far, reversed.\<close>

fun split_lines :: "string \<Rightarrow> string \<Rightarrow> string list" where
  "split_lines acc [] = (if acc = [] then [] else [rev acc])"
| "split_lines acc (c # cs) = (if c = newline then strip_cr (rev acc) # split_lines [] cs else split_lines (c # acc) cs)"

definition text_lines :: "string \<Rightarrow> string list" where
  "text_lines s = split_lines [] s"

text \<open>The bytes of each character of valid UTF-8, and trimming by them.\<close>

fun utf8_chars :: "string \<Rightarrow> string list" where
  "utf8_chars [] = []"
| "utf8_chars (c # cs) =
     (let k = (if byte_of c < 192 then 0 else if byte_of c < 224 then 1 else if byte_of c < 240 then 2 else 3)
      in (c # take k cs) # utf8_chars (drop k cs))"

definition blank_char :: "string \<Rightarrow> bool" where
  "blank_char c \<longleftrightarrow> (case code_points c of [] \<Rightarrow> False | p # ps \<Rightarrow> is_whitespace p)"

definition trim_end :: "string \<Rightarrow> string" where
  "trim_end s = concat (rev (dropWhile blank_char (rev (utf8_chars s))))"

definition trim_text :: "string \<Rightarrow> string" where
  "trim_text s = concat (dropWhile blank_char (utf8_chars (trim_end s)))"

text \<open>\<open>str::split_once\<close> for a pattern of several characters.\<close>

fun split_pattern :: "string \<Rightarrow> string \<Rightarrow> (string \<times> string) option" where
  "split_pattern pat [] = (if pat = [] then Some ([], []) else None)"
| "split_pattern pat (c # cs) =
     (if starts_with pat (c # cs) then Some ([], drop (length pat) (c # cs))
      else map_option (\<lambda>(a, b). (c # a, b)) (split_pattern pat cs))"

definition is_hex_digit :: "char \<Rightarrow> bool" where
  "is_hex_digit c \<longleftrightarrow> is_ascii_digit c \<or> 97 \<le> byte_of c \<and> byte_of c \<le> 102 \<or> 65 \<le> byte_of c \<and> byte_of c \<le> 70"

definition lower_char :: "char \<Rightarrow> char" where
  "lower_char c = (if 65 \<le> byte_of c \<and> byte_of c \<le> 90 then char_of (byte_of c + 32) else c)"

definition ascii_lower :: "string \<Rightarrow> string" where
  "ascii_lower s = map lower_char s"

text \<open>The check of \<open>String::from_utf8\<close>.\<close>

definition utf8_tail :: "nat \<Rightarrow> bool" where
  "utf8_tail b \<longleftrightarrow> 128 \<le> b \<and> b < 192"

fun utf8_valid :: "nat list \<Rightarrow> bool" where
  "utf8_valid [] = True"
| "utf8_valid (b # bs) =
     (if b < 128 then utf8_valid bs
      else if 194 \<le> b \<and> b < 224 then
        (case bs of c # r \<Rightarrow> utf8_tail c \<and> utf8_valid r | [] \<Rightarrow> False)
      else if 224 \<le> b \<and> b < 240 then
        (case bs of c # d # r \<Rightarrow> utf8_tail c \<and> utf8_tail d \<and> (b = 224 \<longrightarrow> 160 \<le> c) \<and> (b = 237 \<longrightarrow> c < 160) \<and> utf8_valid r | _ \<Rightarrow> False)
      else if 240 \<le> b \<and> b < 245 then
        (case bs of c # d # e # r \<Rightarrow> utf8_tail c \<and> utf8_tail d \<and> utf8_tail e \<and> (b = 240 \<longrightarrow> 144 \<le> c) \<and> (b = 244 \<longrightarrow> c < 144)
             \<and> utf8_valid r | _ \<Rightarrow> False)
      else False)"

definition from_utf8 :: "string \<Rightarrow> string outcome" where
  "from_utf8 s = (if utf8_valid (map byte_of s) then Inr s else Inl ''not valid UTF-8'')"

section \<open>The signed manifest\<close>

record 'v versions =
  ver_parse :: "string \<Rightarrow> 'v option"
  ver_pre :: "'v \<Rightarrow> bool"
  ver_show :: "'v \<Rightarrow> string"

record 'v signed_manifest =
  man_version :: 'v
  man_entries :: "(string \<times> string) list"

definition trim_v :: "string \<Rightarrow> string" where
  "trim_v s = dropWhile (\<lambda>c. c = CHR ''v'') s"

definition manifest_header :: "'v versions \<Rightarrow> string \<Rightarrow> 'v outcome" where
  "manifest_header vs line =
     (case strip_prefix ''version '' line of
        None \<Rightarrow> Inl ''SHA256SUMS must begin with a version line''
      | Some h \<Rightarrow> (case ver_parse vs (trim_v (trim_text h)) of
          None \<Rightarrow> Inl ''SHA256SUMS has an unparseable version header''
        | Some v \<Rightarrow> Inr v))"

definition manifest_entry :: "string \<Rightarrow> (string \<times> string) list \<Rightarrow> (string \<times> string) list outcome" where
  "manifest_entry line entries =
     (case (case split_pattern ''  '' line of Some p \<Rightarrow> Some p | None \<Rightarrow> split_pattern '' *'' line) of
        None \<Rightarrow> Inl ''SHA256SUMS has a line that is not sha256sum format''
      | Some (digest, name) \<Rightarrow>
          if length digest \<noteq> 64 \<or> \<not> list_all is_hex_digit digest
          then Inl ''SHA256SUMS has a line whose digest is not 64 hex characters''
          else if name = [] then Inl ''SHA256SUMS has a line with no asset name''
          else if \<exists>e \<in> set entries. fst e = name then Inl ''SHA256SUMS names an asset more than once''
          else Inr (entries @ [(name, ascii_lower digest)]))"

fun manifest_lines :: "'v versions \<Rightarrow> string list \<Rightarrow> 'v option \<Rightarrow> (string \<times> string) list \<Rightarrow> ('v option \<times> (string \<times> string) list) outcome" where
  "manifest_lines vs [] v entries = Inr (v, entries)"
| "manifest_lines vs (l # ls) v entries =
     (let line = trim_end l
      in if line = [] then manifest_lines vs ls v entries
         else case v of
             None \<Rightarrow> and_then (manifest_header vs line) (\<lambda>w. manifest_lines vs ls (Some w) entries)
           | Some w \<Rightarrow> and_then (manifest_entry line entries) (\<lambda>es. manifest_lines vs ls v es))"

definition manifest_parse :: "'v versions \<Rightarrow> string \<Rightarrow> 'v signed_manifest outcome" where
  "manifest_parse vs document =
     and_then (manifest_lines vs (text_lines document) None []) (\<lambda>(v, entries).
       case v of
         None \<Rightarrow> Inl ''SHA256SUMS carries no version header''
       | Some w \<Rightarrow> if entries = [] then Inl ''SHA256SUMS lists no assets'' else Inr \<lparr>man_version = w, man_entries = entries\<rparr>)"

definition checksum_for :: "string \<Rightarrow> 'v signed_manifest \<Rightarrow> string outcome" where
  "checksum_for asset m =
     (case find (\<lambda>e. fst e = asset) (man_entries m) of
        None \<Rightarrow> Inl (''SHA256SUMS has no entry for '' @ asset)
      | Some e \<Rightarrow> Inr (snd e))"

definition version_line :: "string \<Rightarrow> string \<Rightarrow> string" where
  "version_line target version = ''atmux '' @ version @ '' ('' @ target @ '')''"

definition parse_version_line :: "'v versions \<Rightarrow> string \<Rightarrow> 'v outcome" where
  "parse_version_line vs printed =
     (case strip_prefix ''atmux '' printed of
        None \<Rightarrow> Inl ''not an atmux --version line''
      | Some rest \<Rightarrow>
          (case split_once CHR '' '' rest of
             None \<Rightarrow> Inl ''not an atmux --version line''
           | Some (version, target) \<Rightarrow>
               if \<not> (starts_with ''('' target \<and> target \<noteq> [] \<and> last target = CHR '')'' \<and> 2 < length target)
               then Inl ''not an atmux --version line''
               else (case ver_parse vs version of
                   None \<Rightarrow> Inl ''the --version line does not carry a semver version''
                 | Some v \<Rightarrow> Inr v)))"

section \<open>Where requests may go\<close>

record https_url =
  url_host :: string
  url_target :: string

definition allowed_hosts :: "string list" where
  "allowed_hosts = [''api.github.com'', ''github.com'', ''objects.githubusercontent.com'', ''release-assets.githubusercontent.com'']"

definition parse_https_url :: "string \<Rightarrow> https_url outcome" where
  "parse_https_url value =
     (case strip_prefix ''https://'' value of
        None \<Rightarrow> Inl ''release URLs must use https''
      | Some rest \<Rightarrow>
          (case (case split_once CHR ''/'' rest of Some p \<Rightarrow> p | None \<Rightarrow> (rest, [])) of (authority, path) \<Rightarrow>
             if CHR ''@'' \<in> set authority then Inl ''release URLs must not carry credentials''
             else and_then (case split_once CHR '':'' authority of
                 None \<Rightarrow> Inr authority
               | Some (host, port) \<Rightarrow> if port = ''443'' then Inr host else Inl ''release URLs must use the default https port'')
               (\<lambda>host. if ascii_lower host \<notin> set allowed_hosts
                  then Inl (''release host '' @ ascii_lower host @ '' is not a trusted GitHub release host'')
                  else Inr \<lparr>url_host = ascii_lower host, url_target = CHR ''/'' # path\<rparr>)))"

definition validated_url :: "string \<Rightarrow> string outcome" where
  "validated_url value = map_ok (\<lambda>_. value) (parse_https_url value)"

definition repository_part :: "string \<Rightarrow> bool" where
  "repository_part p \<longleftrightarrow> p \<noteq> [] \<and> list_all (\<lambda>b. is_ascii_alphanumeric b \<or> b = CHR ''_'' \<or> b = CHR ''.'' \<or> b = CHR ''-'') p"

definition is_repository_coordinate :: "string \<Rightarrow> bool" where
  "is_repository_coordinate value \<longleftrightarrow>
     (case split_once CHR ''/'' value of
        None \<Rightarrow> False
      | Some (owner, name) \<Rightarrow> CHR ''/'' \<notin> set name \<and> repository_part owner \<and> repository_part name)"

text \<open>A sink keeps at most \<open>limit\<close> bytes; what one hop did is the chunks it wrote and its result.\<close>

record hop =
  hop_chunks :: "string list"
  hop_result :: "string option outcome"

fun write_chunks :: "nat \<Rightarrow> string list \<Rightarrow> string \<Rightarrow> string \<times> unit outcome" where
  "write_chunks limit [] bytes = (bytes, Inr ())"
| "write_chunks limit (c # cs) bytes =
     (if limit < length bytes + length c then (bytes, Inl ''release document exceeds its byte bound'')
      else write_chunks limit cs (bytes @ c))"

definition max_redirects :: nat where "max_redirects = 5"

fun follow_hops :: "nat \<Rightarrow> (nat \<Rightarrow> https_url \<Rightarrow> hop) \<Rightarrow> nat \<Rightarrow> nat \<Rightarrow> string \<Rightarrow> string \<Rightarrow> https_url list \<times> string \<times> unit outcome" where
  "follow_hops 0 net i limit current bytes = ([], bytes, Inl ''release host redirected too many times'')"
| "follow_hops (Suc k) net i limit current bytes =
     (case parse_https_url current of
        Inl e \<Rightarrow> ([], bytes, Inl e)
      | Inr url \<Rightarrow>
          let h = net i url in
          case write_chunks limit (hop_chunks h) bytes of
            (bytes1, Inl e) \<Rightarrow> ([url], bytes1, Inl e)
          | (bytes1, Inr _) \<Rightarrow>
              (case hop_result h of
                 Inl e \<Rightarrow> ([url], bytes1, Inl e)
               | Inr None \<Rightarrow> ([url], bytes1, Inr ())
               | Inr (Some location) \<Rightarrow>
                   let (urls, r) = follow_hops k net (i + 1) limit location bytes1 in (url # urls, r)))"

definition follow_redirects :: "(nat \<Rightarrow> https_url \<Rightarrow> hop) \<Rightarrow> nat \<Rightarrow> nat \<Rightarrow> string \<Rightarrow> https_url list \<times> string \<times> unit outcome" where
  "follow_redirects net i limit start = follow_hops (max_redirects + 1) net i limit start []"

definition fetch_document :: "(nat \<Rightarrow> https_url \<Rightarrow> hop) \<Rightarrow> nat \<Rightarrow> nat \<Rightarrow> string \<Rightarrow> string outcome" where
  "fetch_document net i limit url =
     (case follow_redirects net i limit url of (_, bytes, r) \<Rightarrow> map_ok (\<lambda>_. bytes) r)"

section \<open>Releases\<close>

record github_release =
  gr_tag :: string
  gr_prerelease :: bool
  gr_draft :: bool
  gr_published :: "string option"
  gr_assets :: "(string \<times> string) list"

record 'v candidate =
  cd_version :: 'v
  cd_tag :: string
  cd_published :: "string option"
  cd_asset :: string
  cd_asset_url :: string
  cd_checksums_url :: string
  cd_signature_url :: string

definition asset_name :: "string \<Rightarrow> string" where
  "asset_name target = ''atmux-'' @ target"

definition asset_url :: "string \<Rightarrow> github_release \<Rightarrow> string option" where
  "asset_url name r = map_option snd (find (\<lambda>a. fst a = name) (gr_assets r))"

definition select_candidate ::
    "('v::linorder) versions \<Rightarrow> github_release \<Rightarrow> 'v \<Rightarrow> string \<Rightarrow> 'v candidate option outcome" where
  "select_candidate vs r running target =
     (if gr_draft r \<or> gr_prerelease r then Inr None
      else case ver_parse vs (trim_v (gr_tag r)) of
          None \<Rightarrow> Inr None
        | Some v \<Rightarrow>
            if ver_pre vs v \<or> v \<le> running then Inr None
            else (case asset_url (asset_name target) r of
                None \<Rightarrow> Inr None
              | Some a \<Rightarrow> (case asset_url ''SHA256SUMS'' r of
                  None \<Rightarrow> Inr None
                | Some c \<Rightarrow> (case asset_url ''SHA256SUMS.sig'' r of
                    None \<Rightarrow> Inr None
                  | Some s \<Rightarrow>
                      and_then (validated_url a) (\<lambda>a'.
                      and_then (validated_url c) (\<lambda>c'.
                      and_then (validated_url s) (\<lambda>s'.
                        Inr (Some \<lparr>cd_version = v, cd_tag = gr_tag r, cd_published = gr_published r, cd_asset = asset_name target,
                               cd_asset_url = a', cd_checksums_url = c', cd_signature_url = s'\<rparr>))))))))"

definition ensure_manifest_matches :: "'v signed_manifest \<Rightarrow> 'v candidate \<Rightarrow> unit outcome" where
  "ensure_manifest_matches m c =
     (if man_version m = cd_version c then Inr ()
      else Inl ''the signed release manifest is for another version; refusing a replayed release'')"

section \<open>What the parsers promise\<close>

lemma entry_branches:
  "(case q of None \<Rightarrow> Inl m0 | Some (d, n) \<Rightarrow> if A d then Inl m1 else if B n then Inl m2 else if Q n then Inl m3 else Inr (X d n)) = Inr es \<Longrightarrow>
     \<exists>d n. q = Some (d, n) \<and> \<not> A d \<and> \<not> B n \<and> \<not> Q n \<and> es = X d n"
  by (auto split: option.splits if_splits)

lemma manifest_entry_Inr:
  assumes "manifest_entry line entries = Inr es"
  shows "\<exists>digest name. es = entries @ [(name, ascii_lower digest)] \<and> length digest = 64 \<and> list_all is_hex_digit digest \<and> name \<noteq> []
    \<and> (\<forall>x \<in> set entries. fst x \<noteq> name)"
  using entry_branches [OF assms [unfolded manifest_entry_def]] by blast

lemma lower_hex_digit:
  assumes "is_hex_digit c"
  shows "is_ascii_digit (lower_char c) \<or> 97 \<le> byte_of (lower_char c) \<and> byte_of (lower_char c) \<le> 102"
proof (cases "65 \<le> byte_of c \<and> byte_of c \<le> 90")
  case True
  then have "\<not> is_ascii_digit c" by (simp add: is_ascii_digit_def)
  then have b: "byte_of c \<le> 70" "lower_char c = char_of (byte_of c + 32)" using True assms by (auto simp: is_hex_digit_def lower_char_def)
  have "byte_of (char_of n) = n" if "n < 256" for n using that by (simp add: byte_of_def)
  then have "byte_of (lower_char c) = byte_of c + 32" using b by simp
  then show ?thesis using True b(1) by simp
next
  case False
  then have "lower_char c = c" unfolding lower_char_def by (rule if_not_P)
  then show ?thesis using False assms by (auto simp: is_hex_digit_def)
qed

definition entries_ok :: "(string \<times> string) list \<Rightarrow> bool" where
  "entries_ok es \<longleftrightarrow> distinct (map fst es) \<and> (\<forall>e \<in> set es. fst e \<noteq> [] \<and> length (snd e) = 64
     \<and> list_all (\<lambda>c. is_ascii_digit c \<or> 97 \<le> byte_of c \<and> byte_of c \<le> 102) (snd e))"

lemma manifest_entry_ok:
  assumes "manifest_entry line entries = Inr es" "entries_ok entries"
  shows "entries_ok es"
proof -
  obtain digest name where d: "es = entries @ [(name, ascii_lower digest)]" "length digest = 64" "list_all is_hex_digit digest" "name \<noteq> []"
    "\<forall>x \<in> set entries. fst x \<noteq> name"
    using manifest_entry_Inr [OF assms(1)] by blast
  have "list_all (\<lambda>c. is_ascii_digit c \<or> 97 \<le> byte_of c \<and> byte_of c \<le> 102) (ascii_lower digest)"
    using d(3) lower_hex_digit by (auto simp: ascii_lower_def list_all_iff)
  moreover have "length (ascii_lower digest) = 64" using d(2) by (simp add: ascii_lower_def)
  ultimately show ?thesis using assms(2) d(1,4,5) unfolding entries_ok_def by auto
qed

lemma manifest_lines_entries:
  "manifest_lines vs ls v entries = Inr (w, es) \<Longrightarrow> entries_ok entries \<Longrightarrow> entries_ok es"
proof (induction ls arbitrary: v entries)
  case (Cons l ls)
  show ?case
  proof (cases "trim_end l = []")
    case True
    then have "manifest_lines vs ls v entries = Inr (w, es)" using Cons.prems(1) by simp
    then show ?thesis by (rule Cons.IH [OF _ Cons.prems(2)])
  next
    case False
    show ?thesis
    proof (cases v)
      case None
      then obtain u where "manifest_lines vs ls (Some u) entries = Inr (w, es)"
        using Cons.prems(1) False by (cases "manifest_header vs (trim_end l)") simp_all
      then show ?thesis by (rule Cons.IH [OF _ Cons.prems(2)])
    next
      case (Some u)
      then obtain es1 where e: "manifest_entry (trim_end l) entries = Inr es1" and r: "manifest_lines vs ls v es1 = Inr (w, es)"
        using Cons.prems(1) False by (cases "manifest_entry (trim_end l) entries") simp_all
      show ?thesis by (rule Cons.IH [OF r manifest_entry_ok [OF e Cons.prems(2)]])
    qed
  qed
qed simp

lemma manifest_parse_entries: "manifest_parse vs d = Inr m \<Longrightarrow> entries_ok (man_entries m) \<and> man_entries m \<noteq> []"
proof -
  assume p: "manifest_parse vs d = Inr m"
  then obtain v es where l: "manifest_lines vs (text_lines d) None [] = Inr (v, es)"
    by (cases "manifest_lines vs (text_lines d) None []") (auto simp: manifest_parse_def)
  have "entries_ok es" by (rule manifest_lines_entries [OF l]) (simp add: entries_ok_def)
  moreover have "man_entries m = es \<and> es \<noteq> []"
    using p l by (cases v; cases "es = []") (auto simp: manifest_parse_def)
  ultimately show ?thesis by simp
qed

lemma checksum_for_entry: "checksum_for a m = Inr h \<Longrightarrow> (a, h) \<in> set (man_entries m)"
  using find_Some_mem [of "\<lambda>e. fst e = a" "man_entries m"] by (auto simp: checksum_for_def split: option.splits)

text \<open>Every hop that is asked is an allowed host, and there are at most six.\<close>

lemma parse_https_host:
  assumes "parse_https_url value = Inr u"
  shows "url_host u \<in> set allowed_hosts" "\<exists>rest. value = ''https://'' @ rest"
proof -
  obtain rest where r: "strip_prefix ''https://'' value = Some rest"
    using assms by (cases "strip_prefix ''https://'' value") (simp_all add: parse_https_url_def)
  obtain a p where ap: "(case split_once CHR ''/'' rest of Some p \<Rightarrow> p | None \<Rightarrow> (rest, [])) = (a, p)" by (rule prod.exhaust)
  have at: "CHR ''@'' \<notin> set a" using assms by (auto simp: parse_https_url_def r ap split: if_splits)
  obtain host where h: "(case split_once CHR '':'' a of None \<Rightarrow> Inr a
      | Some (host, port) \<Rightarrow> if port = ''443'' then Inr host else Inl ''release URLs must use the default https port'') = Inr host"
    "(if ascii_lower host \<notin> set allowed_hosts then Inl (''release host '' @ ascii_lower host @ '' is not a trusted GitHub release host'')
      else Inr \<lparr>url_host = ascii_lower host, url_target = CHR ''/'' # p\<rparr>) = Inr u"
    using assms unfolding parse_https_url_def r option.case ap prod.case if_not_P [OF at] by (auto simp only: and_then_Inr)
  show "url_host u \<in> set allowed_hosts"
  proof (cases "ascii_lower host \<in> set allowed_hosts")
    case True
    then have "u = \<lparr>url_host = ascii_lower host, url_target = CHR ''/'' # p\<rparr>" using h(2) by simp
    then show ?thesis using True by simp
  next
    case False
    then show ?thesis using h(2) by simp
  qed
  show "\<exists>rest. value = ''https://'' @ rest" using r unfolding strip_prefix_Some by blast
qed

lemma follow_hops_hosts:
  "follow_hops k net i limit current bytes = (urls, bytes', r) \<Longrightarrow> (\<forall>u \<in> set urls. url_host u \<in> set allowed_hosts) \<and> length urls \<le> k"
proof (induction k arbitrary: i current bytes urls bytes' r)
  case (Suc k)
  show ?case
  proof (cases "parse_https_url current")
    case (Inl e)
    then show ?thesis using Suc.prems by simp
  next
    case (Inr u)
    have u: "url_host u \<in> set allowed_hosts" by (rule parse_https_host(1) [OF Inr])
    obtain b1 w where w: "write_chunks limit (hop_chunks (net i u)) bytes = (b1, w)" by (rule prod.exhaust)
    show ?thesis
    proof (cases w)
      case (Inl e)
      then show ?thesis using Suc.prems Inr w u by (auto simp: Let_def)
    next
      case w1: (Inr x)
      show ?thesis
      proof (cases "hop_result (net i u)")
        case (Inl e)
        then show ?thesis using Suc.prems Inr w w1 u by (auto simp: Let_def)
      next
        case h: (Inr loc)
        show ?thesis
        proof (cases loc)
          case None
          then show ?thesis using Suc.prems Inr w w1 h u by (auto simp: Let_def)
        next
          case (Some l)
          obtain us b2 r2 where n: "follow_hops k net (i + 1) limit l b1 = (us, b2, r2)" by (metis prod.exhaust)
          then have "urls = u # us" using Suc.prems Inr w w1 h Some by (auto simp: Let_def)
          then show ?thesis using Suc.IH [OF n] u by simp
        qed
      qed
    qed
  qed
qed simp

end
