(* ===== verification/Self_Update.thy ===== *)
theory Self_Update
  imports Release_Manifest
begin

text \<open>
  The self-update of a node, \<open>src/src/self_update.rs\<close>: the files around the running executable, the swap and
  its reversal, discovery and installation of a signed release, and the updater's shared state with the
  tasks that work on it. Every request to the file system, the network or a started program is answered
  by an environment that depends on a clock, so any of them can fail, and a process can be killed
  anywhere (every later request fails). The phases shown while a task runs, its progress, and
  the times of checks and updates in the status are not part of the model.
\<close>

section \<open>Files\<close>

text \<open>The executable, \<open>.prev\<close>, and the two files a process stages beside it; a file is an inode.\<close>

datatype update_path = Exe | Prev | Staged | Rolled

record exe_file =
  fi_inode :: nat
  fi_bytes :: string

record persisted =
  ps_version :: nat
  ps_applied :: "string option"
  ps_previous_version :: "string option"
  ps_previous_path :: "string option"
  ps_sha256 :: "string option"

record disk =
  dk_files :: "update_path \<Rightarrow> exe_file option"
  dk_state :: "persisted option"    \<comment> \<open>\<open>None\<close>: absent or not readable\<close>
  dk_clock :: nat

record node_env =
  ev_ok :: "nat \<Rightarrow> bool"
  ev_net :: "nat \<Rightarrow> https_url \<Rightarrow> hop"
  ev_run :: "nat \<Rightarrow> string \<Rightarrow> string outcome"    \<comment> \<open>what a program prints for \<open>--version\<close>\<close>

definition tick :: "nat \<Rightarrow> disk \<Rightarrow> disk" where
  "tick n d = d\<lparr>dk_clock := dk_clock d + n\<rparr>"

definition request :: "node_env \<Rightarrow> disk \<Rightarrow> bool \<times> disk" where
  "request ev d = (ev_ok ev (dk_clock d), tick 1 d)"

definition set_file :: "update_path \<Rightarrow> exe_file option \<Rightarrow> disk \<Rightarrow> disk" where
  "set_file p f d = d\<lparr>dk_files := (dk_files d)(p := f)\<rparr>"

definition remove_file :: "node_env \<Rightarrow> update_path \<Rightarrow> disk \<Rightarrow> bool \<times> disk" where
  "remove_file ev p d =
     (case request ev d of (ok, d1) \<Rightarrow>
        if ok \<and> dk_files d p \<noteq> None then (True, set_file p None d1) else (False, d1))"

definition hard_link :: "node_env \<Rightarrow> update_path \<Rightarrow> update_path \<Rightarrow> disk \<Rightarrow> bool \<times> disk" where
  "hard_link ev a b d =
     (case request ev d of (ok, d1) \<Rightarrow>
        if ok \<and> dk_files d a \<noteq> None \<and> dk_files d b = None then (True, set_file b (dk_files d a) d1) else (False, d1))"

text \<open>Renaming one name of a file to another name of the same file does nothing.\<close>

definition rename_file :: "node_env \<Rightarrow> update_path \<Rightarrow> update_path \<Rightarrow> disk \<Rightarrow> bool \<times> disk" where
  "rename_file ev a b d =
     (case request ev d of (ok, d1) \<Rightarrow>
        if ok \<and> dk_files d a \<noteq> None then
          (True, if map_option fi_inode (dk_files d a) = map_option fi_inode (dk_files d b) then d1
                 else set_file a None (set_file b (dk_files d a) d1))
        else (False, d1))"

definition fresh_inode :: "disk \<Rightarrow> nat" where
  "fresh_inode d = Suc (foldr max (map (\<lambda>p. case dk_files d p of None \<Rightarrow> 0 | Some f \<Rightarrow> fi_inode f) [Exe, Prev, Staged, Rolled]) 0)"

definition create_new :: "node_env \<Rightarrow> update_path \<Rightarrow> disk \<Rightarrow> bool \<times> disk" where
  "create_new ev p d =
     (case request ev d of (ok, d1) \<Rightarrow>
        if ok \<and> dk_files d p = None then (True, set_file p (Some \<lparr>fi_inode = fresh_inode d, fi_bytes = []\<rparr>) d1) else (False, d1))"

definition write_bytes :: "update_path \<Rightarrow> string \<Rightarrow> disk \<Rightarrow> disk" where
  "write_bytes p bytes d = set_file p (map_option (\<lambda>f. f\<lparr>fi_bytes := bytes\<rparr>) (dk_files d p)) d"

type_synonym 'a disk_op = "disk \<Rightarrow> 'a outcome \<times> disk"

definition and_do :: "'a outcome \<times> disk \<Rightarrow> ('a \<Rightarrow> 'b disk_op) \<Rightarrow> 'b outcome \<times> disk" where
  "and_do r f = (case r of (Inl e, d) \<Rightarrow> (Inl e, d) | (Inr a, d) \<Rightarrow> f a d)"

definition require :: "string \<Rightarrow> bool \<times> disk \<Rightarrow> unit outcome \<times> disk" where
  "require e r = (case r of (ok, d) \<Rightarrow> (if ok then Inr () else Inl e, d))"

definition file_sha256 :: "(string \<Rightarrow> string) \<Rightarrow> node_env \<Rightarrow> update_path \<Rightarrow> string disk_op" where
  "file_sha256 sha ev p d =
     (case request ev d of (ok, d1) \<Rightarrow>
        (case dk_files d p of
           Some f \<Rightarrow> if ok then (Inr (sha (fi_bytes f)), d1) else (Inl ''could not read the executable'', d1)
         | None \<Rightarrow> (Inl ''could not read the executable'', d1)))"

definition sync_directory :: "node_env \<Rightarrow> unit disk_op" where
  "sync_directory ev d = require ''could not flush the directory'' (request ev d)"

text \<open>
  Setting the executable aside: a hard link keeps the name, a rename is the fallback. The first result tells which it
  was, the second whether it worked; undoing it removes the link or renames back.
\<close>

definition set_aside :: "node_env \<Rightarrow> update_path \<Rightarrow> disk \<Rightarrow> bool \<times> bool \<times> disk" where
  "set_aside ev p d =
     (let (_, d1) = remove_file ev p d;
          (linked, d2) = hard_link ev Exe p d1
      in if linked then (True, True, d2) else let (ok, d3) = rename_file ev Exe p d2 in (False, ok, d3))"

definition undo_aside :: "node_env \<Rightarrow> bool \<Rightarrow> update_path \<Rightarrow> disk \<Rightarrow> disk" where
  "undo_aside ev linked p d = snd (if linked then remove_file ev p d else rename_file ev p Exe d)"

definition swap_into_place :: "node_env \<Rightarrow> unit disk_op" where
  "swap_into_place ev d =
     (case set_aside ev Prev d of (linked, aside, d1) \<Rightarrow>
        if \<not> aside then (Inl ''could not move the running atmux aside'', d1)
        else let (ok, d2) = rename_file ev Staged Exe d1
          in if ok then sync_directory ev d2
             else (Inl ''could not install the staged atmux executable'', undo_aside ev linked Prev d2))"

text \<open>A digest that cannot be read ends the function at once.\<close>

definition restore_previous :: "(string \<Rightarrow> string) \<Rightarrow> node_env \<Rightarrow> string disk_op" where
  "restore_previous sha ev d =
     (case set_aside ev Rolled d of (linked, aside, d1) \<Rightarrow>
        if \<not> aside then (Inl ''could not set the running atmux aside for a rollback'', d1)
        else and_do (file_sha256 sha ev Rolled d1) (\<lambda>leaving d2.
          let (ok, d3) = rename_file ev Prev Exe d2
          in if ok then
               and_do (require ''could not keep the rolled-back atmux for a second attempt'' (rename_file ev Rolled Prev d3)) (\<lambda>_ d4.
               and_do (sync_directory ev d4) (\<lambda>_ d5. (Inr leaving, d5)))
             else (Inl ''could not restore the previous atmux executable'', undo_aside ev linked Rolled d3)))"

definition write_state :: "node_env \<Rightarrow> persisted \<Rightarrow> unit disk_op" where
  "write_state ev s d =
     (case request ev d of (ok, d1) \<Rightarrow>
        if ok then (Inr (), d1\<lparr>dk_state := Some s\<rparr>) else (Inl ''could not replace the self-update state file'', d1))"

definition read_state :: "node_env \<Rightarrow> persisted disk_op" where
  "read_state ev d =
     (case request ev d of (ok, d1) \<Rightarrow>
        (case dk_state d of
           Some s \<Rightarrow> if ok then (Inr s, d1) else (Inl ''self-update state file is unreadable'', d1)
         | None \<Rightarrow> (Inl ''self-update state file is unsafe'', d1)))"

section \<open>A node\<close>

text \<open>The running program, its policy, and the library functions: signature check, digest and JSON.\<close>

record 'v node =
  nd_versions :: "'v versions"
  nd_target :: string
  nd_version :: string
  nd_running :: 'v
  nd_repository :: string
  nd_enabled :: bool
  nd_container :: bool
  nd_restart :: bool
  nd_verify :: "string \<Rightarrow> string \<Rightarrow> bool"
  nd_sha :: "string \<Rightarrow> string"
  nd_decode :: "string \<Rightarrow> github_release outcome"
  nd_prev_path :: string

datatype mode = Own | Managed_externally | Disabled

definition node_mode :: "'v node \<Rightarrow> mode" where
  "node_mode nd = (if nd_container nd then Managed_externally else if nd_enabled nd then Own else Disabled)"

definition max_metadata_bytes :: nat where "max_metadata_bytes = 4 * 1024 * 1024"
definition max_checksum_bytes :: nat where "max_checksum_bytes = 64 * 1024"
definition max_signature_bytes :: nat where "max_signature_bytes = 4 * 1024"
definition max_asset_bytes :: nat where "max_asset_bytes = 256 * 1024 * 1024"

definition fetch :: "node_env \<Rightarrow> nat \<Rightarrow> string \<Rightarrow> string disk_op" where
  "fetch ev limit url d = (fetch_document (ev_net ev) (dk_clock d) limit url, tick (max_redirects + 1) d)"

text \<open>The digest that the signed documents give for the asset of a candidate.\<close>

definition signed_digest :: "'v node \<Rightarrow> 'v candidate \<Rightarrow> string \<Rightarrow> string \<Rightarrow> string outcome" where
  "signed_digest nd c checksums signature =
     (if \<not> nd_verify nd checksums signature then Inl ''release signature did not verify against the compiled-in key''
      else and_then (from_utf8 checksums) (\<lambda>document.
           and_then (manifest_parse (nd_versions nd) document) (\<lambda>m.
           and_then (ensure_manifest_matches m c) (\<lambda>_. checksum_for (cd_asset c) m))))"

definition probe_version :: "'v node \<Rightarrow> node_env \<Rightarrow> update_path \<Rightarrow> string option \<Rightarrow> 'v disk_op" where
  "probe_version nd ev p expected d =
     (let printed = (case dk_files d p of
            None \<Rightarrow> Inl ''the program could not be run''
          | Some f \<Rightarrow> map_ok trim_text (ev_run ev (dk_clock d) (fi_bytes f)))
      in (and_then printed (\<lambda>out.
            case expected of
              Some v \<Rightarrow> if out \<noteq> version_line (nd_target nd) v then Inl ''the staged atmux reported another version''
                        else parse_version_line (nd_versions nd) out
            | None \<Rightarrow> parse_version_line (nd_versions nd) out), tick 1 d))"

section \<open>The shared state\<close>

datatype phase = Idle | Checking | Downloading | Verifying | Applying | Restarting | Failed

record latest_release =
  lr_version :: string
  lr_tag :: string
  lr_published :: "string option"
  lr_verified :: bool
  lr_asset :: string

record previous_release =
  pr_version :: string
  pr_path :: string

record 'v shared =
  sh_phase :: phase
  sh_latest :: "latest_release option"
  sh_candidate :: "'v candidate option"
  sh_error :: "string option"
  sh_previous :: "previous_release option"
  sh_manual :: "nat option"
  sh_busy :: bool

definition shared_default :: "'v shared" where
  "shared_default = \<lparr>sh_phase = Idle, sh_latest = None, sh_candidate = None, sh_error = None, sh_previous = None,
     sh_manual = None, sh_busy = False\<rparr>"

definition restore_persisted :: "'v node \<Rightarrow> node_env \<Rightarrow> 'v shared \<Rightarrow> disk \<Rightarrow> 'v shared \<times> disk" where
  "restore_persisted nd ev sh d =
     (case read_state ev d of
        (Inl e, d1) \<Rightarrow> (sh, d1)
      | (Inr s, d1) \<Rightarrow>
          if dk_files d1 Prev = None then (sh, d1)
          else (case ps_previous_version s of
              None \<Rightarrow> (sh, d1)
            | Some v \<Rightarrow> (sh\<lparr>sh_previous := Some \<lparr>pr_version = v, pr_path = nd_prev_path nd\<rparr>\<rparr>, d1)))"

record update_error =
  ue_conflict :: bool
  ue_message :: string

definition conflict :: "string \<Rightarrow> update_error" where "conflict m = \<lparr>ue_conflict = True, ue_message = m\<rparr>"

definition ensure_actionable :: "'v node \<Rightarrow> update_error + unit" where
  "ensure_actionable nd =
     (case node_mode nd of
        Own \<Rightarrow> Inr ()
      | Managed_externally \<Rightarrow> Inl (conflict ''this atmux runs from a container image and is managed externally'')
      | Disabled \<Rightarrow> Inl (conflict ''self-update is disabled in this machine's configuration''))"

definition already_busy :: update_error where "already_busy = conflict ''an update is already in progress''"

definition manual_check_interval :: nat where "manual_check_interval = 30000"

text \<open>The part of \<open>check\<close> before the network; the time of a manual check is kept also when the check is refused.\<close>

definition check_begin :: "'v node \<Rightarrow> bool \<Rightarrow> nat \<Rightarrow> 'v shared \<Rightarrow> (update_error + unit) \<times> 'v shared" where
  "check_begin nd manual now sh =
     (case ensure_actionable nd of
        Inl e \<Rightarrow> (Inl e, sh)
      | Inr _ \<Rightarrow>
          if manual \<and> (case sh_manual sh of Some t \<Rightarrow> now - t < manual_check_interval | None \<Rightarrow> False)
          then (Inl (conflict ''an update check already ran in the last 30 seconds''), sh)
          else let sh1 = (if manual then sh\<lparr>sh_manual := Some now\<rparr> else sh)
            in if sh_busy sh1 then (Inl already_busy, sh1) else (Inr (), sh1\<lparr>sh_phase := Checking\<rparr>))"

definition latest_of :: "'v node \<Rightarrow> 'v candidate \<Rightarrow> bool \<Rightarrow> latest_release" where
  "latest_of nd c ok = \<lparr>lr_version = ver_show (nd_versions nd) (cd_version c), lr_tag = cd_tag c, lr_published = cd_published c,
     lr_verified = ok, lr_asset = cd_asset c\<rparr>"

definition releases_url :: "'v node \<Rightarrow> string" where
  "releases_url nd = ''https://api.github.com/repos/'' @ nd_repository nd @ ''/releases/latest''"

text \<open>\<open>discover\<close>: the newest usable release; one that does not verify is remembered as such.\<close>

definition discover ::
    "('v::linorder) node \<Rightarrow> node_env \<Rightarrow> 'v shared \<Rightarrow> disk \<Rightarrow> (latest_release option \<times> 'v candidate option) outcome \<times> 'v shared \<times> disk" where
  "discover nd ev sh d =
     (case fetch ev max_metadata_bytes (releases_url nd) d of
        (Inl e, d1) \<Rightarrow> (Inl e, sh, d1)
      | (Inr b, d1) \<Rightarrow>
          (case and_then (nd_decode nd b) (\<lambda>r. select_candidate (nd_versions nd) r (nd_running nd) (nd_target nd)) of
             Inl e \<Rightarrow> (Inl e, sh, d1)
           | Inr None \<Rightarrow> (Inr (None, None), sh, d1)
           | Inr (Some c) \<Rightarrow>
               (case fetch ev max_checksum_bytes (cd_checksums_url c) d1 of
                  (Inl e, d2) \<Rightarrow> (Inl e, sh, d2)
                | (Inr checksums, d2) \<Rightarrow>
                    (case fetch ev max_signature_bytes (cd_signature_url c) d2 of
                       (Inl e, d3) \<Rightarrow> (Inl e, sh, d3)
                     | (Inr raw, d3) \<Rightarrow>
                         (case from_utf8 raw of
                            Inl e \<Rightarrow> (Inl e, sh, d3)
                          | Inr signature \<Rightarrow>
                              (case signed_digest nd c checksums signature of
                                 Inl e \<Rightarrow> (Inl e, sh\<lparr>sh_latest := Some (latest_of nd c False)\<rparr>, d3)
                               | Inr _ \<Rightarrow> (Inr (Some (latest_of nd c True), Some c), sh, d3)))))))"

definition check_end :: "(latest_release option \<times> 'v candidate option) outcome \<Rightarrow> 'v shared \<Rightarrow> 'v shared" where
  "check_end r sh =
     (let sh1 = (if sh_busy sh then sh else sh\<lparr>sh_phase := Idle\<rparr>)
      in case r of
           Inr (latest, candidate) \<Rightarrow> sh1\<lparr>sh_latest := latest, sh_candidate := candidate, sh_error := None\<rparr>
         | Inl e \<Rightarrow> sh1\<lparr>sh_error := Some e\<rparr>)"

section \<open>Installing and rolling back\<close>

definition record_applied :: "'v node \<Rightarrow> node_env \<Rightarrow> string \<Rightarrow> string \<Rightarrow> 'v shared \<Rightarrow> disk \<Rightarrow> unit outcome \<times> 'v shared \<times> disk" where
  "record_applied nd ev applied sha sh d =
     (case write_state ev \<lparr>ps_version = 1, ps_applied = Some applied, ps_previous_version = Some (nd_version nd),
             ps_previous_path = Some (nd_prev_path nd), ps_sha256 = Some sha\<rparr> d of
        (r, d1) \<Rightarrow> (r, sh\<lparr>sh_previous := Some \<lparr>pr_version = nd_version nd, pr_path = nd_prev_path nd\<rparr>\<rparr>, d1))"

definition cleanup :: "node_env \<Rightarrow> string \<Rightarrow> disk \<Rightarrow> 'a outcome \<times> disk" where
  "cleanup ev e d = (Inl e, snd (remove_file ev Staged d))"

text \<open>The staged executable: downloaded, compared with the signed digest, and started once.\<close>

definition stage :: "'v node \<Rightarrow> node_env \<Rightarrow> 'v candidate \<Rightarrow> string \<Rightarrow> unit disk_op" where
  "stage nd ev c expected d =
     (let (_, d1) = remove_file ev Staged d
      in and_do (require ''could not stage the executable'' (create_new ev Staged d1)) (\<lambda>_ d2.
         case follow_redirects (ev_net ev) (dk_clock d2) max_asset_bytes (cd_asset_url c) of (_, bytes, r) \<Rightarrow>
           let d3 = tick (max_redirects + 1) (write_bytes Staged bytes d2);
               (flushed, d4) = (case r of Inl e \<Rightarrow> (Inl e, d3)
                 | Inr _ \<Rightarrow> require ''could not flush the staged atmux executable'' (request ev d3))
           in case flushed of
                Inl e \<Rightarrow> cleanup ev e d4
              | Inr _ \<Rightarrow>
                  if nd_sha nd bytes \<noteq> expected then cleanup ev ''the downloaded executable does not match its signed SHA-256'' d4
                  else if bytes = [] then cleanup ev ''the downloaded executable is empty'' d4
                  else and_do (require ''could not make the staged atmux executable runnable'' (request ev d4)) (\<lambda>_ d5.
                    case probe_version nd ev Staged (Some (ver_show (nd_versions nd) (cd_version c))) d5 of
                      (Inl e, d6) \<Rightarrow> cleanup ev e d6
                    | (Inr _, d6) \<Rightarrow> (Inr (), d6))))"

definition signed_documents :: "'v node \<Rightarrow> node_env \<Rightarrow> 'v candidate \<Rightarrow> string disk_op" where
  "signed_documents nd ev c d =
     and_do (fetch ev max_checksum_bytes (cd_checksums_url c) d) (\<lambda>checksums d1.
     and_do (fetch ev max_signature_bytes (cd_signature_url c) d1) (\<lambda>raw d2.
       (and_then (from_utf8 raw) (signed_digest nd c checksums), d2)))"

definition install_files :: "'v node \<Rightarrow> node_env \<Rightarrow> 'v candidate \<Rightarrow> string disk_op" where
  "install_files nd ev c d =
     and_do (signed_documents nd ev c d) (\<lambda>expected d1.
     and_do (stage nd ev c expected d1) (\<lambda>_ d2.
     and_do (file_sha256 (nd_sha nd) ev Exe d2) (\<lambda>replaced d3.
     and_do (swap_into_place ev d3) (\<lambda>_ d4. (Inr replaced, d4)))))"

definition install :: "'v node \<Rightarrow> node_env \<Rightarrow> 'v candidate \<Rightarrow> 'v shared \<Rightarrow> disk \<Rightarrow> unit outcome \<times> 'v shared \<times> disk" where
  "install nd ev c sh d =
     (case install_files nd ev c d of
        (Inl e, d1) \<Rightarrow> (Inl e, sh, d1)
      | (Inr replaced, d1) \<Rightarrow> record_applied nd ev (ver_show (nd_versions nd) (cd_version c)) replaced sh d1)"

definition rollback_files :: "'v node \<Rightarrow> node_env \<Rightarrow> ('v \<times> string) disk_op" where
  "rollback_files nd ev d =
     (case read_state ev d of (r, d1) \<Rightarrow>
        (case (case r of Inl e \<Rightarrow> None | Inr s \<Rightarrow> ps_sha256 s) of
           None \<Rightarrow> (Inl ''no recorded SHA-256; refusing an unverified rollback'', d1)
         | Some recorded \<Rightarrow>
             and_do (file_sha256 (nd_sha nd) ev Prev d1) (\<lambda>actual d2.
               if actual \<noteq> recorded
               then (Inl ''not the executable this atmux set aside; refusing to roll back into it'', d2)
               else and_do (probe_version nd ev Prev None d2) (\<lambda>restored d3.
                    and_do (restore_previous (nd_sha nd) ev d3) (\<lambda>leaving d4. (Inr (restored, leaving), d4))))))"

definition install_rollback :: "'v node \<Rightarrow> node_env \<Rightarrow> 'v shared \<Rightarrow> disk \<Rightarrow> unit outcome \<times> 'v shared \<times> disk" where
  "install_rollback nd ev sh d =
     (case rollback_files nd ev d of
        (Inl e, d1) \<Rightarrow> (Inl e, sh, d1)
      | (Inr (restored, leaving), d1) \<Rightarrow> record_applied nd ev (ver_show (nd_versions nd) restored) leaving sh d1)"

definition finish_update :: "unit outcome \<Rightarrow> 'v shared \<Rightarrow> 'v shared" where
  "finish_update r sh =
     (case r of
        Inr _ \<Rightarrow> sh\<lparr>sh_busy := False, sh_phase := Restarting\<rparr>
      | Inl e \<Rightarrow> sh\<lparr>sh_busy := False, sh_phase := Failed, sh_error := Some e\<rparr>)"

definition apply_preflight :: "'v node \<Rightarrow> bool \<Rightarrow> 'v shared \<Rightarrow> update_error + unit" where
  "apply_preflight nd writable sh =
     and_then (ensure_actionable nd) (\<lambda>_.
       if \<not> writable then Inl (conflict ''the directory is not writable, so this atmux cannot replace itself'')
       else if sh_busy sh then Inl already_busy else Inr ())"

text \<open>The claim reads the candidate and takes the busy flag under one lock.\<close>

definition apply_claim :: "'v shared \<Rightarrow> update_error + 'v candidate \<times> 'v shared" where
  "apply_claim sh =
     (if sh_busy sh then Inl already_busy
      else case (if (case sh_latest sh of Some l \<Rightarrow> lr_verified l | None \<Rightarrow> False) then sh_candidate sh else None) of
          None \<Rightarrow> Inl (conflict ''no verified release newer than this one is available'')
        | Some c \<Rightarrow> Inr (c, sh\<lparr>sh_busy := True, sh_phase := Downloading, sh_error := None\<rparr>))"

definition rollback_claim :: "'v node \<Rightarrow> bool \<Rightarrow> disk \<Rightarrow> 'v shared \<Rightarrow> update_error + 'v shared" where
  "rollback_claim nd writable d sh =
     and_then (ensure_actionable nd) (\<lambda>_.
       if \<not> writable then Inl (conflict ''the directory is not writable, so this atmux cannot replace itself'')
       else if dk_files d Prev = None then Inl (conflict ''this machine has no previous atmux executable to roll back to'')
       else if sh_busy sh then Inl already_busy
       else Inr (sh\<lparr>sh_busy := True, sh_phase := Applying, sh_error := None\<rparr>))"

definition restart_failed :: "string \<Rightarrow> 'v shared \<Rightarrow> 'v shared" where
  "restart_failed e sh = sh\<lparr>sh_phase := Failed, sh_error := Some (''the new atmux is installed but this process could not restart into it: '' @ e)\<rparr>"

end
