(* ===== verification/Update_Safety.thy ===== *)
theory Update_Safety
  imports Self_Update
begin

text \<open>
  What the self-update promises: the file operations one by one, what an installation and a rollback leave
  behind on every path, and the tasks of a node as a step relation, with restarts, processes killed in
  the middle and other hands on the files beside the executable.
\<close>

section \<open>File operations\<close>

definition consistent :: "disk \<Rightarrow> bool" where
  "consistent d \<longleftrightarrow> (\<forall>p q f g. dk_files d p = Some f \<longrightarrow> dk_files d q = Some g \<longrightarrow> fi_inode f = fi_inode g \<longrightarrow> f = g)"

lemma request_simps [simp]:
  "dk_files (snd (request ev d)) = dk_files d" "dk_state (snd (request ev d)) = dk_state d"
  "dk_clock (snd (request ev d)) = dk_clock d + 1" "fst (request ev d) = ev_ok ev (dk_clock d)"
  by (simp_all add: request_def tick_def)

lemma tick_simps [simp]:
  "dk_files (tick n d) = dk_files d" "dk_state (tick n d) = dk_state d" "dk_clock (tick n d) = dk_clock d + n"
  by (simp_all add: tick_def)

lemma set_file_simps [simp]:
  "dk_files (set_file p f d) = (dk_files d)(p := f)" "dk_state (set_file p f d) = dk_state d" "dk_clock (set_file p f d) = dk_clock d"
  by (simp_all add: set_file_def)

lemma remove_file_effect:
  assumes "remove_file ev p d = (ok, d')"
  shows "dk_files d' = (if ok then (dk_files d)(p := None) else dk_files d)" "dk_state d' = dk_state d" "dk_clock d' = dk_clock d + 1"
    and "ok \<longleftrightarrow> ev_ok ev (dk_clock d) \<and> dk_files d p \<noteq> None"
  using assms by (auto simp: remove_file_def request_def split: if_splits)

lemma hard_link_effect:
  assumes "hard_link ev a b d = (ok, d')"
  shows "dk_files d' = (if ok then (dk_files d)(b := dk_files d a) else dk_files d)" "dk_state d' = dk_state d" "dk_clock d' = dk_clock d + 1"
    and "ok \<longleftrightarrow> ev_ok ev (dk_clock d) \<and> dk_files d a \<noteq> None \<and> dk_files d b = None"
  using assms by (auto simp: hard_link_def request_def split: if_splits)

definition same_file :: "exe_file option \<Rightarrow> exe_file option \<Rightarrow> bool" where
  "same_file f g \<longleftrightarrow> map_option fi_inode f = map_option fi_inode g"

lemma rename_file_effect:
  assumes "rename_file ev a b d = (ok, d')"
  shows "dk_files d' = (if ok \<and> \<not> same_file (dk_files d a) (dk_files d b) then (dk_files d)(b := dk_files d a, a := None) else dk_files d)"
    and "dk_state d' = dk_state d" "dk_clock d' = dk_clock d + 1"
    and "ok \<longleftrightarrow> ev_ok ev (dk_clock d) \<and> dk_files d a \<noteq> None"
  using assms by (auto simp: rename_file_def request_def same_file_def split: if_splits)

lemma file_sha_effect:
  assumes "file_sha256 sha ev p d = (r, d')"
  shows "dk_files d' = dk_files d" "dk_state d' = dk_state d" "dk_clock d' = dk_clock d + 1"
    and "r = Inr h \<Longrightarrow> \<exists>f. dk_files d p = Some f \<and> h = sha (fi_bytes f)"
    and "(\<exists>h. r = Inr h) \<longleftrightarrow> ev_ok ev (dk_clock d) \<and> dk_files d p \<noteq> None"
  using assms by (auto simp: file_sha256_def request_def split: option.splits if_splits)

lemma require_effect:
  "require e (ok, d) = (r, d') \<Longrightarrow> d' = d \<and> (r = Inr () \<longleftrightarrow> ok)"
  by (auto simp: require_def split: if_splits)

lemma and_do_Inr: "and_do r f = (Inr b, d') \<longleftrightarrow> (\<exists>a d1. r = (Inr a, d1) \<and> f a d1 = (Inr b, d'))"
  by (auto simp: and_do_def split: prod.splits sum.splits)

lemma and_do_cases:
  assumes "and_do r f = (x, d')"
  obtains (fail) e where "r = (Inl e, d')" "x = Inl e" | (ok) a d1 where "r = (Inr a, d1)" "f a d1 = (x, d')"
proof (cases r)
  case (Pair s d1)
  show ?thesis
  proof (cases s)
    case (Inl e)
    then have "r = (Inl e, d')" "x = Inl e" using assms Pair by (auto simp: and_do_def)
    then show ?thesis by (rule fail)
  next
    case (Inr a)
    then show ?thesis using assms Pair ok by (auto simp: and_do_def)
  qed
qed

lemma same_file_eq: "consistent d \<Longrightarrow> same_file (dk_files d a) (dk_files d b) \<Longrightarrow> dk_files d a = dk_files d b"
  unfolding same_file_def consistent_def by (cases "dk_files d a"; cases "dk_files d b") auto

lemma consistent_sub:
  assumes "consistent d" "\<forall>p. dk_files d' p = None \<or> (\<exists>q. dk_files d' p = dk_files d q)"
  shows "consistent d'"
  unfolding consistent_def
proof (intro allI impI)
  fix p q f g assume f: "dk_files d' p = Some f" and g: "dk_files d' q = Some g" and i: "fi_inode f = fi_inode g"
  obtain p' where "dk_files d p' = Some f" using assms(2) [rule_format, of p] f by auto
  moreover obtain q' where "dk_files d q' = Some g" using assms(2) [rule_format, of q] g by auto
  ultimately show "f = g" using assms(1) i unfolding consistent_def by blast
qed

lemma ops_consistent:
  "remove_file ev p d = (ok, d') \<Longrightarrow> consistent d \<Longrightarrow> consistent d'"
  "hard_link ev a b d = (ok, d') \<Longrightarrow> consistent d \<Longrightarrow> consistent d'"
  "rename_file ev a b d = (ok, d') \<Longrightarrow> consistent d \<Longrightarrow> consistent d'"
  subgoal by (erule consistent_sub, drule remove_file_effect(1)) auto
  subgoal by (erule consistent_sub, drule hard_link_effect(1)) auto
  subgoal by (erule consistent_sub, drule rename_file_effect(1)) auto
  done

section \<open>The swap\<close>

lemma set_aside_effect:
  assumes "set_aside ev t d = (linked, aside, d')" and t: "t \<noteq> Exe" and c: "consistent d"
  shows "dk_state d' = dk_state d" "consistent d'"
    and "\<forall>q. q \<noteq> Exe \<longrightarrow> q \<noteq> t \<longrightarrow> dk_files d' q = dk_files d q"
    and "aside \<Longrightarrow> dk_files d' t = dk_files d Exe \<and> dk_files d Exe \<noteq> None"
    and "dk_files d' Exe = None \<or> dk_files d' Exe = dk_files d Exe"
    and "linked \<or> \<not> aside \<Longrightarrow> dk_files d' Exe = dk_files d Exe"
    and "linked \<Longrightarrow> aside"
proof -
  obtain o1 d1 where 1: "remove_file ev t d = (o1, d1)" by (rule prod.exhaust)
  obtain l d2 where 2: "hard_link ev Exe t d1 = (l, d2)" by (rule prod.exhaust)
  obtain ok d3 where 3: "rename_file ev Exe t d2 = (ok, d3)" by (rule prod.exhaust)
  note e1 = remove_file_effect [OF 1] and e2 = hard_link_effect [OF 2] and e3 = rename_file_effect [OF 3]
  note c1 = ops_consistent(1) [OF 1 c]
  note c2 = ops_consistent(2) [OF 2 c1]
  note c3 = ops_consistent(3) [OF 3 c2]
  have r: "(linked, aside, d') = (if l then (True, True, d2) else (False, ok, d3))"
    using assms(1) by (auto simp: set_aside_def 1 2 3)
  have f1: "dk_files d1 q = dk_files d q" if "q \<noteq> t" for q using that e1(1) by simp
  have all: "dk_state d' = dk_state d \<and> consistent d' \<and> (\<forall>q. q \<noteq> Exe \<longrightarrow> q \<noteq> t \<longrightarrow> dk_files d' q = dk_files d q)
    \<and> (aside \<longrightarrow> dk_files d' t = dk_files d Exe \<and> dk_files d Exe \<noteq> None) \<and> (dk_files d' Exe = None \<or> dk_files d' Exe = dk_files d Exe)
    \<and> (linked \<or> \<not> aside \<longrightarrow> dk_files d' Exe = dk_files d Exe) \<and> (linked \<longrightarrow> aside)"
  proof (cases l)
    case True
    then have "linked" "aside" "d' = d2" using r by auto
    then show ?thesis using True e1(2) e2 c2 f1 t by auto
  next
    case False
    then have s: "\<not> linked" "aside = ok" "d' = d3" using r by auto
    have f2: "dk_files d2 = dk_files d1" using e2(1) False by simp
    show ?thesis
    proof (cases "same_file (dk_files d2 Exe) (dk_files d2 t)")
      case True
      then have "dk_files d2 Exe = dk_files d2 t" by (rule same_file_eq [OF c2])
      moreover have "dk_files d3 = dk_files d2" using e3(1) True by simp
      ultimately show ?thesis using s e1(2) e2(2) e3(2,4) c3 f1 [of Exe] f1 f2 t by auto
    next
      case ns: False
      then show ?thesis using s e1(2) e2(2) e3 c3 f1 f2 t by (cases ok) auto
    qed
  qed
  show "dk_state d' = dk_state d" "consistent d'" "\<forall>q. q \<noteq> Exe \<longrightarrow> q \<noteq> t \<longrightarrow> dk_files d' q = dk_files d q"
    "aside \<Longrightarrow> dk_files d' t = dk_files d Exe \<and> dk_files d Exe \<noteq> None" "dk_files d' Exe = None \<or> dk_files d' Exe = dk_files d Exe"
    "linked \<or> \<not> aside \<Longrightarrow> dk_files d' Exe = dk_files d Exe" "linked \<Longrightarrow> aside"
    using all by blast+
qed

lemma undo_aside_effect:
  assumes t: "t \<noteq> Exe" and c: "consistent d"
  shows "dk_state (undo_aside ev linked t d) = dk_state d" "consistent (undo_aside ev linked t d)"
    and "\<forall>q. q \<noteq> Exe \<longrightarrow> q \<noteq> t \<longrightarrow> dk_files (undo_aside ev linked t d) q = dk_files d q"
    and "dk_files (undo_aside ev linked t d) Exe = dk_files d Exe \<or> dk_files (undo_aside ev linked t d) Exe = dk_files d t"
    and "linked \<Longrightarrow> dk_files (undo_aside ev linked t d) Exe = dk_files d Exe"
proof -
  obtain o1 d1 where 1: "remove_file ev t d = (o1, d1)" by (rule prod.exhaust)
  obtain o2 d2 where 2: "rename_file ev t Exe d = (o2, d2)" by (rule prod.exhaust)
  have u: "undo_aside ev linked t d = (if linked then d1 else d2)" by (simp add: undo_aside_def 1 2)
  note e1 = remove_file_effect [OF 1] and e2 = rename_file_effect [OF 2]
  show "dk_state (undo_aside ev linked t d) = dk_state d" using e1(2) e2(2) by (simp add: u)
  show "consistent (undo_aside ev linked t d)" using ops_consistent(1) [OF 1 c] ops_consistent(3) [OF 2 c] by (simp add: u)
  show "\<forall>q. q \<noteq> Exe \<longrightarrow> q \<noteq> t \<longrightarrow> dk_files (undo_aside ev linked t d) q = dk_files d q" using e1(1) e2(1) by (auto simp: u)
  show "dk_files (undo_aside ev linked t d) Exe = dk_files d Exe \<or> dk_files (undo_aside ev linked t d) Exe = dk_files d t"
    using e1(1) e2(1) t by (auto simp: u)
  show "linked \<Longrightarrow> dk_files (undo_aside ev linked t d) Exe = dk_files d Exe" using e1(1) t unfolding u by simp
qed

text \<open>
  Whatever fails, the name of the executable afterwards means nothing, the old file or the staged one; after a
  success the staged file is there and the old one is kept.
\<close>

lemma swap_effect:
  assumes "swap_into_place ev d = (r, d')" and c: "consistent d"
  shows "dk_state d' = dk_state d" "consistent d'"
    and "dk_files d' Exe = None \<or> dk_files d' Exe = dk_files d Exe \<or> dk_files d' Exe = dk_files d Staged"
    and "dk_files d' Rolled = dk_files d Rolled"
    and "r = Inr () \<Longrightarrow> \<not> same_file (dk_files d Exe) (dk_files d Staged) \<Longrightarrow>
           dk_files d' Exe = dk_files d Staged \<and> dk_files d' Prev = dk_files d Exe \<and> dk_files d' Staged = None"
proof -
  obtain linked aside d1 where 1: "set_aside ev Prev d = (linked, aside, d1)" by (metis prod.exhaust)
  obtain ok d2 where 2: "rename_file ev Staged Exe d1 = (ok, d2)" by (rule prod.exhaust)
  note e1 = set_aside_effect [OF 1 _ c, simplified] and e2 = rename_file_effect [OF 2]
  note c2 = ops_consistent(3) [OF 2 e1(2)]
  note u = undo_aside_effect [where t = Prev and ev = ev and linked = linked, OF _ c2, simplified]
  have r: "(r, d') = (if \<not> aside then (Inl ''could not move the running atmux aside'', d1) else if ok then sync_directory ev d2
      else (Inl ''could not install the staged atmux executable'', undo_aside ev linked Prev d2))"
    using assms(1) by (cases aside) (simp_all add: swap_into_place_def 1 2)
  have sy: "(s, d3) = sync_directory ev d2 \<Longrightarrow> dk_files d3 = dk_files d2 \<and> dk_state d3 = dk_state d2" for s d3
    by (auto simp: sync_directory_def require_def request_def split: if_splits)
  consider (no) "\<not> aside" "d' = d1" "r \<noteq> Inr ()" | (bad) "aside" "\<not> ok" "d' = undo_aside ev linked Prev d2" "r \<noteq> Inr ()"
    | (ok) "aside" ok "dk_files d' = dk_files d2" "dk_state d' = dk_state d2"
    using r sy by (auto split: if_splits)
  then have "dk_state d' = dk_state d \<and> consistent d' \<and> (dk_files d' Exe = None \<or> dk_files d' Exe = dk_files d Exe \<or> dk_files d' Exe = dk_files d Staged)
    \<and> dk_files d' Rolled = dk_files d Rolled \<and> (r = Inr () \<longrightarrow> \<not> same_file (dk_files d Exe) (dk_files d Staged) \<longrightarrow>
           dk_files d' Exe = dk_files d Staged \<and> dk_files d' Prev = dk_files d Exe \<and> dk_files d' Staged = None)"
  proof cases
    case no
    then show ?thesis using e1 by auto
  next
    case bad
    have f2: "dk_files d2 = dk_files d1" using e2(1) bad(2) by simp
    have "dk_files d' Exe = dk_files d1 Exe \<or> dk_files d' Exe = dk_files d Exe" using u(4) e1(4) [OF bad(1)] unfolding bad(3) f2 by auto
    then show ?thesis using bad u(1,2,3) e1(1,3,5) e2(2) f2 by auto
  next
    case ok
    have cd: "consistent d'" using c2 ok(3) by (simp add: consistent_def)
    show ?thesis
    proof (cases "same_file (dk_files d1 Staged) (dk_files d1 Exe)")
      case True
      have eq: "dk_files d1 Staged = dk_files d1 Exe" by (rule same_file_eq [OF e1(2) True])
      have f: "dk_files d' = dk_files d1" using ok(3) e2(1) True by simp
      have ne: "dk_files d1 Exe \<noteq> None" using e2(4) ok(2) eq by simp
      then have "dk_files d1 Exe = dk_files d Exe" using e1(5) by auto
      then have "same_file (dk_files d Exe) (dk_files d Staged)" using True e1(3) by (simp add: same_file_def)
      then show ?thesis using f e1(1,3) ok(4) e2(2) cd \<open>dk_files d1 Exe = dk_files d Exe\<close> by simp
    next
      case False
      then have f: "dk_files d' = (dk_files d1)(Exe := dk_files d1 Staged, Staged := None)" using ok(2,3) e2(1) by simp
      then show ?thesis using e1(1,3,4) ok(1,4) e2(2) cd by simp
    qed
  qed
  then show "dk_state d' = dk_state d" "consistent d'" "dk_files d' Exe = None \<or> dk_files d' Exe = dk_files d Exe \<or> dk_files d' Exe = dk_files d Staged"
    "dk_files d' Rolled = dk_files d Rolled"
    "r = Inr () \<Longrightarrow> \<not> same_file (dk_files d Exe) (dk_files d Staged) \<Longrightarrow>
           dk_files d' Exe = dk_files d Staged \<and> dk_files d' Prev = dk_files d Exe \<and> dk_files d' Staged = None" by blast+
qed

lemma require_keeps: "require e r = (x, d') \<Longrightarrow> d' = snd r \<and> (x = Inr () \<longleftrightarrow> fst r)"
  by (cases r) (auto simp: require_def split: if_splits)

lemma sync_keeps: "sync_directory ev d = (r, d') \<Longrightarrow> dk_files d' = dk_files d \<and> dk_state d' = dk_state d"
  by (auto simp: sync_directory_def dest!: require_keeps)

lemma restore_effect:
  assumes "restore_previous sha ev d = (r, d')" and c: "consistent d"
  shows "dk_state d' = dk_state d" "consistent d'"
    and "dk_files d' Exe = None \<or> dk_files d' Exe = dk_files d Exe \<or> dk_files d' Exe = dk_files d Prev"
    and "r = Inr h \<Longrightarrow> \<exists>f. dk_files d Exe = Some f \<and> h = sha (fi_bytes f)"
    and "r = Inr h \<Longrightarrow> \<not> same_file (dk_files d Exe) (dk_files d Prev) \<Longrightarrow> dk_files d' Exe = dk_files d Prev \<and> dk_files d' Prev = dk_files d Exe"
proof -
  obtain linked aside d1 where 1: "set_aside ev Rolled d = (linked, aside, d1)" by (metis prod.exhaust)
  obtain hr d2 where 2: "file_sha256 sha ev Rolled d1 = (hr, d2)" by (rule prod.exhaust)
  obtain ok d3 where 3: "rename_file ev Prev Exe d2 = (ok, d3)" by (rule prod.exhaust)
  obtain ok4 d4 where 4: "rename_file ev Rolled Prev d3 = (ok4, d4)" by (rule prod.exhaust)
  note e1 = set_aside_effect [OF 1 _ c, simplified] and e2 = file_sha_effect [OF 2] and e3 = rename_file_effect [OF 3]
    and e4 = rename_file_effect [OF 4]
  have c2: "consistent d2" using e1(2) e2(1) by (simp add: consistent_def)
  note c3 = ops_consistent(3) [OF 3 c2]
  note c4 = ops_consistent(3) [OF 4 c3]
  note u = undo_aside_effect [where t = Rolled and ev = ev and linked = linked, OF _ c3, simplified]
  have dest: "dk_state d' = dk_state d" "consistent d'"
    "dk_files d' Exe = None \<or> dk_files d' Exe = dk_files d Exe \<or> dk_files d' Exe = dk_files d Prev" "\<forall>h. r \<noteq> Inr h"
    if w: "(\<not> aside \<and> r = Inl e \<and> d' = d1) \<or> (aside \<and> r = Inl e \<and> d' = d2) \<or> (aside \<and> \<not> ok \<and> r = Inl e \<and> d' = undo_aside ev linked Rolled d3)" for e
  proof -
    have f2: "dk_files d2 = dk_files d1" "dk_state d2 = dk_state d1" using e2 by simp_all
    consider "\<not> aside" "d' = d1" | "aside" "d' = d2" | "aside" "\<not> ok" "d' = undo_aside ev linked Rolled d3"
      using w by blast
    then have "dk_state d' = dk_state d \<and> consistent d' \<and> (dk_files d' Exe = None \<or> dk_files d' Exe = dk_files d Exe \<or> dk_files d' Exe = dk_files d Prev)"
    proof cases
      case 1
      then show ?thesis using e1(1,2,5) by auto
    next
      case 2
      then show ?thesis using e1(1,5) f2 c2 by auto
    next
      case 3
      have f3: "dk_files d3 = dk_files d1" using e3(1) 3(2) f2 by simp
      then have "dk_files d' Exe = dk_files d1 Exe \<or> dk_files d' Exe = dk_files d Exe" using u(4) e1(4) [OF 3(1)] unfolding 3(3) by simp
      then show ?thesis using 3(3) u(1,2) e1(1,5) e3(2) f2 by auto
    qed
    then show "dk_state d' = dk_state d" "consistent d'"
      "dk_files d' Exe = None \<or> dk_files d' Exe = dk_files d Exe \<or> dk_files d' Exe = dk_files d Prev" by blast+
    show "\<forall>h. r \<noteq> Inr h" using w by auto
  qed
  have res: "(r, d') = (if \<not> aside then (Inl ''could not set the running atmux aside for a rollback'', d1)
      else and_do (hr, d2) (\<lambda>leaving d2.
          let (ok, d3) = rename_file ev Prev Exe d2
          in if ok then
               and_do (require ''could not keep the rolled-back atmux for a second attempt'' (rename_file ev Rolled Prev d3)) (\<lambda>_ d4.
               and_do (sync_directory ev d4) (\<lambda>_ d5. (Inr leaving, d5)))
             else (Inl ''could not restore the previous atmux executable'', undo_aside ev linked Rolled d3)))"
    using assms(1) by (cases aside) (simp_all add: restore_previous_def 1 2)
  have all: "dk_state d' = dk_state d \<and> consistent d'
    \<and> (dk_files d' Exe = None \<or> dk_files d' Exe = dk_files d Exe \<or> dk_files d' Exe = dk_files d Prev)
    \<and> (r = Inr h \<longrightarrow> (\<exists>f. dk_files d Exe = Some f \<and> h = sha (fi_bytes f)))
    \<and> (r = Inr h \<longrightarrow> \<not> same_file (dk_files d Exe) (dk_files d Prev) \<longrightarrow> dk_files d' Exe = dk_files d Prev \<and> dk_files d' Prev = dk_files d Exe)"
  proof (cases aside)
    case False
    then have "r = Inl ''could not set the running atmux aside for a rollback''" "d' = d1" using res by simp_all
    then show ?thesis using dest [of "''could not set the running atmux aside for a rollback''"] False by simp
  next
    case a: True
    show ?thesis
    proof (cases hr)
      case (Inl e)
      then have "r = Inl e" "d' = d2" using res a by (simp_all add: and_do_def)
      then show ?thesis using dest [of e] a by simp
    next
      case (Inr leaving)
      show ?thesis
      proof (cases ok)
        case False
        then have "r = Inl ''could not restore the previous atmux executable''" "d' = undo_aside ev linked Rolled d3"
          using res a Inr 3 by (simp_all add: and_do_def)
        then show ?thesis using dest [of "''could not restore the previous atmux executable''"] a False by simp
      next
        case True
        obtain rq d5 where rq: "require ''could not keep the rolled-back atmux for a second attempt'' (ok4, d4) = (rq, d5)" by (rule prod.exhaust)
        have q: "d5 = d4" "rq = Inr () \<longleftrightarrow> ok4" using require_keeps [OF rq] by simp_all
        have r1: "(r, d') = and_do (rq, d4) (\<lambda>_ d4. and_do (sync_directory ev d4) (\<lambda>_ d5. (Inr leaving, d5)))"
          using res a Inr 3 True 4 rq q(1) by (simp add: and_do_def)
        have f: "dk_files d' = dk_files d4 \<and> dk_state d' = dk_state d4 \<and> (r = Inr h \<longrightarrow> h = leaving \<and> ok4)"
        proof (cases rq)
          case (Inl e)
          then show ?thesis using r1 by (simp add: and_do_def)
        next
          case (Inr v)
          obtain sr d6 where "sync_directory ev d4 = (sr, d6)" by (rule prod.exhaust)
          then show ?thesis using r1 Inr q(2) sync_keeps [of ev d4 sr d6] by (cases sr) (auto simp: and_do_def)
        qed
        obtain g where g: "dk_files d1 Rolled = Some g" "leaving = sha (fi_bytes g)" using e2(4) [OF Inr] by blast
        have exe: "dk_files d Exe = Some g" using e1(4) [OF a] g(1) by simp
        have f2: "dk_files d2 = dk_files d1" by (rule e2(1))
        have prev: "dk_files d2 Prev = dk_files d Prev" "dk_files d2 Prev \<noteq> None" using e1(3) f2 e3(4) True by simp_all
        have st: "dk_state d' = dk_state d" using f e4(2) e3(2) e2(2) e1(1) by simp
        have cd: "consistent d'" using c4 f by (simp add: consistent_def)
        show ?thesis
        proof (cases "same_file (dk_files d2 Prev) (dk_files d2 Exe)")
          case True
          then have s: "dk_files d2 Prev = dk_files d2 Exe" by (rule same_file_eq [OF c2])
          then have "dk_files d1 Exe = dk_files d Exe" using e1(5) prev(2) f2 by auto
          then have eq: "dk_files d Prev = dk_files d Exe" using s f2 prev(1) by simp
          have f3: "dk_files d3 = dk_files d1" using e3(1) True f2 by simp
          have "dk_files d4 Exe = dk_files d1 Exe" using e4(1) f3 by simp
          then show ?thesis using st cd f exe g(2) eq \<open>dk_files d1 Exe = dk_files d Exe\<close> by (simp add: same_file_def)
        next
          case False
          then have f3: "dk_files d3 = (dk_files d1)(Exe := dk_files d Prev, Prev := None)" using e3(1) True f2 prev(1) by simp
          then have ns: "\<not> same_file (dk_files d3 Rolled) (dk_files d3 Prev)" using g(1) by (simp add: same_file_def)
          have "dk_files d4 = (if ok4 then (dk_files d3)(Prev := Some g, Rolled := None) else dk_files d3)" using e4(1) ns f3 g(1) by simp
          then show ?thesis using st cd f exe g(2) f3 by (cases ok4) auto
        qed
      qed
    qed
  qed
  show "dk_state d' = dk_state d" "consistent d'" "dk_files d' Exe = None \<or> dk_files d' Exe = dk_files d Exe \<or> dk_files d' Exe = dk_files d Prev"
    "r = Inr h \<Longrightarrow> \<exists>f. dk_files d Exe = Some f \<and> h = sha (fi_bytes f)"
    "r = Inr h \<Longrightarrow> \<not> same_file (dk_files d Exe) (dk_files d Prev) \<Longrightarrow> dk_files d' Exe = dk_files d Prev \<and> dk_files d' Prev = dk_files d Exe"
    using all by blast+
qed

section \<open>Staging\<close>

lemma fresh_inode_less: "dk_files d p = Some f \<Longrightarrow> fi_inode f < fresh_inode d"
  by (cases p) (auto simp: fresh_inode_def less_Suc_eq_le le_max_iff_disj)

lemma create_new_effect:
  assumes "create_new ev p d = (ok, d')"
  shows "dk_files d' = (if ok then (dk_files d)(p := Some \<lparr>fi_inode = fresh_inode d, fi_bytes = []\<rparr>) else dk_files d)"
    and "dk_state d' = dk_state d"
  using assms by (auto simp: create_new_def request_def split: if_splits)

lemma consistent_fresh:
  assumes "consistent d" "dk_files d' = (dk_files d)(p := Some \<lparr>fi_inode = fresh_inode d, fi_bytes = bs\<rparr>)"
  shows "consistent d'"
  using assms(1) fresh_inode_less [of d] unfolding consistent_def assms(2) by (fastforce split: if_splits)

definition keeps_others :: "update_path \<Rightarrow> disk \<Rightarrow> disk \<Rightarrow> bool" where
  "keeps_others p d d' \<longleftrightarrow> dk_state d' = dk_state d \<and> (\<forall>q. q \<noteq> p \<longrightarrow> dk_files d' q = dk_files d q)"

lemma cleanup_effect:
  assumes "cleanup ev e d = (r, d')" "consistent d"
  shows "consistent d'" "keeps_others Staged d d'" "r = Inl e"
proof -
  obtain ok d1 where 1: "remove_file ev Staged d = (ok, d1)" by (rule prod.exhaust)
  then have "d' = d1" "r = Inl e" using assms(1) by (auto simp: cleanup_def)
  then show "consistent d'" "keeps_others Staged d d'" "r = Inl e"
    using ops_consistent(1) [OF 1 assms(2)] remove_file_effect(1,2) [OF 1] by (auto simp: keeps_others_def)
qed

lemma stage_effect:
  assumes "stage nd ev c expected d = (r, d')" and cs: "consistent d"
  shows "consistent d'" "keeps_others Staged d d'"
    and "r = Inr () \<Longrightarrow> \<exists>f. dk_files d' Staged = Some f \<and> nd_sha nd (fi_bytes f) = expected \<and> fi_bytes f \<noteq> []
           \<and> \<not> same_file (dk_files d Exe) (dk_files d' Staged) \<and> (\<forall>q x. q \<noteq> Staged \<longrightarrow> dk_files d q = Some x \<longrightarrow> fi_inode x \<noteq> fi_inode f)"
proof -
  obtain o1 d1 where 1: "remove_file ev Staged d = (o1, d1)" by (rule prod.exhaust)
  obtain o2 d2 where 2: "create_new ev Staged d1 = (o2, d2)" by (rule prod.exhaust)
  obtain us bytes w where net: "follow_redirects (ev_net ev) (dk_clock d2) max_asset_bytes (cd_asset_url c) = (us, bytes, w)" by (metis prod.exhaust)
  let ?d3 = "tick (max_redirects + 1) (write_bytes Staged bytes d2)"
  obtain fl d4 where 4: "(case w of Inl e \<Rightarrow> (Inl e, ?d3)
      | Inr _ \<Rightarrow> require ''could not flush the staged atmux executable'' (request ev ?d3)) = (fl, d4)" by (rule prod.exhaust)
  note e1 = remove_file_effect [OF 1] and c1 = ops_consistent(1) [OF 1 cs] and e2 = create_new_effect [OF 2]
  have k1: "keeps_others Staged d d1" using e1(1,2) by (simp add: keeps_others_def)
  have k2: "keeps_others Staged d d2" using k1 e2 by (simp add: keeps_others_def)
  have res: "(r, d') = and_do (require ''could not stage the executable'' (o2, d2)) (\<lambda>_ d2.
         case follow_redirects (ev_net ev) (dk_clock d2) max_asset_bytes (cd_asset_url c) of (_, bytes, r) \<Rightarrow>
           let d3 = tick (max_redirects + 1) (write_bytes Staged bytes d2);
               (flushed, d4) = (case r of Inl e \<Rightarrow> (Inl e, d3)
                 | Inr _ \<Rightarrow> require ''could not flush the staged atmux executable'' (request ev d3))
           in case flushed of
                Inl e \<Rightarrow> cleanup ev e d4
              | Inr _ \<Rightarrow>
                  if nd_sha nd bytes \<noteq> expected then cleanup ev ''the downloaded executable does not match its signed SHA-256'' d4
                  else if bytes = [] then cleanup ev ''the downloaded executable is empty'' d4
                  else and_do (require ''could not make the staged atmux executable runnable'' (request ev d4)) (\<lambda>_ d5.
                    case probe_version nd ev Staged (Some (ver_show (nd_versions nd) (cd_version c))) d5 of
                      (Inl e, d6) \<Rightarrow> cleanup ev e d6
                    | (Inr _, d6) \<Rightarrow> (Inr (), d6)))"
    using assms(1) by (simp add: stage_def 1 2)
  have all: "consistent d' \<and> keeps_others Staged d d' \<and> (r = Inr () \<longrightarrow> (\<exists>f. dk_files d' Staged = Some f
      \<and> nd_sha nd (fi_bytes f) = expected \<and> fi_bytes f \<noteq> [] \<and> \<not> same_file (dk_files d Exe) (dk_files d' Staged) \<and> (\<forall>q x. q \<noteq> Staged \<longrightarrow> dk_files d q = Some x \<longrightarrow> fi_inode x \<noteq> fi_inode f)))"
  proof (cases o2)
    case False
    then have "r = Inl ''could not stage the executable''" "d' = d2" using res by (simp_all add: require_def and_do_def)
    then show ?thesis using k2 c1 e2(1) False by (simp add: consistent_def)
  next
    case True
    let ?f = "\<lparr>fi_inode = fresh_inode d1, fi_bytes = bytes\<rparr>"
    have f3: "dk_files ?d3 = (dk_files d1)(Staged := Some ?f)" using e2(1) True by (simp add: write_bytes_def)
    have d4: "dk_files d4 = dk_files ?d3" "dk_state d4 = dk_state d2"
    proof -
      have "d4 = ?d3 \<or> d4 = snd (request ev ?d3)" using 4 by (cases w) (auto dest: require_keeps)
      moreover have "dk_state (write_bytes Staged bytes d2) = dk_state d2" by (simp add: write_bytes_def)
      ultimately show "dk_files d4 = dk_files ?d3" "dk_state d4 = dk_state d2" by auto
    qed
    have c4: "consistent d4" by (rule consistent_fresh [OF c1, of d4 Staged bytes]) (use d4(1) f3 in simp)
    have k4: "keeps_others Staged d d4" using k1 e2(2) d4 f3 by (simp add: keeps_others_def)
    have fresh: "\<not> same_file (dk_files d Exe) (Some ?f)"
    proof
      assume "same_file (dk_files d Exe) (Some ?f)"
      then obtain g where g: "dk_files d Exe = Some g" "fi_inode g = fresh_inode d1" by (auto simp: same_file_def)
      then have "dk_files d1 Exe = Some g" using k1 by (simp add: keeps_others_def)
      then show False using fresh_inode_less g(2) by fastforce
    qed
    have inode: "fi_inode x \<noteq> fi_inode ?f" if "q \<noteq> Staged" "dk_files d q = Some x" for q x
      using fresh_inode_less [of d1 q x] k1 that by (simp add: keeps_others_def)
    have trans: "keeps_others Staged d x \<Longrightarrow> keeps_others Staged x y \<Longrightarrow> keeps_others Staged d y" for x y by (simp add: keeps_others_def)
    have clean: ?thesis if "(r, d') = cleanup ev e x" "consistent x" "keeps_others Staged d x" for e x
      using cleanup_effect [of ev e x r d'] that trans by auto
    have res4: "(r, d') = (case fl of
                Inl e \<Rightarrow> cleanup ev e d4
              | Inr _ \<Rightarrow>
                  if nd_sha nd bytes \<noteq> expected then cleanup ev ''the downloaded executable does not match its signed SHA-256'' d4
                  else if bytes = [] then cleanup ev ''the downloaded executable is empty'' d4
                  else and_do (require ''could not make the staged atmux executable runnable'' (request ev d4)) (\<lambda>_ d5.
                    case probe_version nd ev Staged (Some (ver_show (nd_versions nd) (cd_version c))) d5 of
                      (Inl e, d6) \<Rightarrow> cleanup ev e d6
                    | (Inr _, d6) \<Rightarrow> (Inr (), d6)))"
    proof -
      have q: "require ''could not stage the executable'' (o2, d2) = (Inr (), d2)" using True by (simp add: require_def)
      show ?thesis unfolding res q by (simp only: and_do_def [of "(Inr (), d2)"] prod.case sum.case net Let_def 4)
    qed
    show ?thesis
    proof (cases "(\<exists>e. fl = Inl e) \<or> nd_sha nd bytes \<noteq> expected \<or> bytes = []")
      case True
      then have "\<exists>e. (r, d') = cleanup ev e d4" using res4 by (auto split: sum.splits if_splits)
      then show ?thesis using clean c4 k4 by blast
    next
      case False
      then obtain v where "fl = Inr v" by (cases fl) auto
      then have res5: "(r, d') = and_do (require ''could not make the staged atmux executable runnable'' (request ev d4)) (\<lambda>_ d5.
            case probe_version nd ev Staged (Some (ver_show (nd_versions nd) (cd_version c))) d5 of
              (Inl e, d6) \<Rightarrow> cleanup ev e d6 | (Inr _, d6) \<Rightarrow> (Inr (), d6))"
        using res4 False by simp
      obtain pr d5 where 5: "require ''could not make the staged atmux executable runnable'' (request ev d4) = (pr, d5)" by (rule prod.exhaust)
      have d5: "dk_files d5 = dk_files d4" "dk_state d5 = dk_state d4" using require_keeps [OF 5] by simp_all
      obtain qr d6 where 6: "probe_version nd ev Staged (Some (ver_show (nd_versions nd) (cd_version c))) d5 = (qr, d6)" by (rule prod.exhaust)
      then have d6: "dk_files d6 = dk_files d4" "dk_state d6 = dk_state d4" using d5 by (auto simp: probe_version_def Let_def)
      have c6: "consistent d5" "consistent d6" using c4 d5(1) d6(1) by (simp_all add: consistent_def)
      have k6: "keeps_others Staged d d5" "keeps_others Staged d d6" using k4 d5 d6 by (simp_all add: keeps_others_def)
      show ?thesis
      proof (cases pr)
        case (Inl e)
        then have "r = Inl e" "d' = d5" using res5 5 by (simp_all add: and_do_def)
        then show ?thesis using c6 k6 by simp
      next
        case pr: (Inr _)
        show ?thesis
        proof (cases qr)
          case (Inl e)
          then have "(r, d') = cleanup ev e d6" using res5 5 pr 6 by (simp add: and_do_def)
          then show ?thesis by (rule clean [OF _ c6(2) k6(2)])
        next
          case (Inr _)
          then have "r = Inr ()" "d' = d6" using res5 5 pr 6 by (simp_all add: and_do_def)
          moreover have "dk_files d6 Staged = Some ?f" using d6(1) d4(1) f3 by simp
          ultimately show ?thesis using c6 k6 False fresh inode by simp
        qed
      qed
    qed
  qed
  then show "consistent d'" "keeps_others Staged d d'"
    "r = Inr () \<Longrightarrow> \<exists>f. dk_files d' Staged = Some f \<and> nd_sha nd (fi_bytes f) = expected \<and> fi_bytes f \<noteq> []
           \<and> \<not> same_file (dk_files d Exe) (dk_files d' Staged) \<and> (\<forall>q x. q \<noteq> Staged \<longrightarrow> dk_files d q = Some x \<longrightarrow> fi_inode x \<noteq> fi_inode f)" by blast+
qed

section \<open>Installations and rollbacks\<close>

text \<open>A digest the release key vouches for, for the asset and the version of a candidate.\<close>

definition signed_for :: "'v node \<Rightarrow> 'v candidate \<Rightarrow> string \<Rightarrow> bool" where
  "signed_for nd c h \<longleftrightarrow> (\<exists>checksums signature. signed_digest nd c checksums signature = Inr h)"

lemma fetch_keeps: "fetch ev limit url d = (r, d') \<Longrightarrow> dk_files d' = dk_files d \<and> dk_state d' = dk_state d"
  by (auto simp: fetch_def)

lemma signed_documents_effect:
  assumes "signed_documents nd ev c d = (r, d')"
  shows "dk_files d' = dk_files d" "dk_state d' = dk_state d" "r = Inr h \<Longrightarrow> signed_for nd c h"
proof -
  obtain r1 d1 where 1: "fetch ev max_checksum_bytes (cd_checksums_url c) d = (r1, d1)" by (rule prod.exhaust)
  have all: "dk_files d' = dk_files d \<and> dk_state d' = dk_state d \<and> (r = Inr h \<longrightarrow> signed_for nd c h)"
  proof (cases r1)
    case (Inl e)
    then show ?thesis using assms fetch_keeps [OF 1] by (auto simp: signed_documents_def 1 and_do_def)
  next
    case (Inr checksums)
    obtain r2 d2 where 2: "fetch ev max_signature_bytes (cd_signature_url c) d1 = (r2, d2)" by (rule prod.exhaust)
    show ?thesis
    proof (cases r2)
      case (Inl e)
      then show ?thesis using assms Inr fetch_keeps [OF 1] fetch_keeps [OF 2] by (auto simp: signed_documents_def 1 2 and_do_def)
    next
      case raw: (Inr raw)
      have "r = and_then (from_utf8 raw) (signed_digest nd c checksums)" "d' = d2"
        using assms Inr raw by (simp_all add: signed_documents_def 1 2 and_do_def)
      then show ?thesis using fetch_keeps [OF 1] fetch_keeps [OF 2] by (auto simp: and_then_Inr signed_for_def)
    qed
  qed
  then show "dk_files d' = dk_files d" "dk_state d' = dk_state d" "r = Inr h \<Longrightarrow> signed_for nd c h" by blast+
qed

lemma install_files_effect:
  assumes "install_files nd ev c d = (r, d')" and cs: "consistent d"
  shows "consistent d'" "dk_state d' = dk_state d" "dk_files d' Rolled = dk_files d Rolled"
    and "dk_files d' Exe = None \<or> dk_files d' Exe = dk_files d Exe \<or> (\<exists>f. dk_files d' Exe = Some f \<and> signed_for nd c (nd_sha nd (fi_bytes f)))"
    and "r = Inr h \<Longrightarrow> \<exists>f g. dk_files d Exe = Some f \<and> h = nd_sha nd (fi_bytes f) \<and> dk_files d' Exe = Some g \<and> dk_files d' Prev = Some f
           \<and> dk_files d' Staged = None \<and> fi_inode f \<noteq> fi_inode g \<and> signed_for nd c (nd_sha nd (fi_bytes g))
           \<and> (\<forall>q x. q \<noteq> Staged \<longrightarrow> dk_files d q = Some x \<longrightarrow> fi_inode x \<noteq> fi_inode g)"
proof -
  have all: "consistent d' \<and> dk_state d' = dk_state d \<and> dk_files d' Rolled = dk_files d Rolled
    \<and> (dk_files d' Exe = None \<or> dk_files d' Exe = dk_files d Exe \<or> (\<exists>f. dk_files d' Exe = Some f \<and> signed_for nd c (nd_sha nd (fi_bytes f))))
    \<and> (r = Inr h \<longrightarrow> (\<exists>f g. dk_files d Exe = Some f \<and> h = nd_sha nd (fi_bytes f) \<and> dk_files d' Exe = Some g \<and> dk_files d' Prev = Some f
           \<and> dk_files d' Staged = None \<and> fi_inode f \<noteq> fi_inode g \<and> signed_for nd c (nd_sha nd (fi_bytes g))
           \<and> (\<forall>q x. q \<noteq> Staged \<longrightarrow> dk_files d q = Some x \<longrightarrow> fi_inode x \<noteq> fi_inode g)))"
    using assms(1) [unfolded install_files_def]
  proof (cases rule: and_do_cases)
    case (fail e)
    note s = signed_documents_effect(1,2) [OF fail(1)]
    then have "consistent d'" using cs by (simp add: consistent_def)
    then show ?thesis using s fail(2) by simp
  next
    case (ok expected d1)
    note s = signed_documents_effect [OF ok(1)]
    have c1: "consistent d1" using cs s(1) by (simp add: consistent_def)
    have sg: "signed_for nd c expected" by (rule s(3)) simp
    from ok(2) show ?thesis
    proof (cases rule: and_do_cases)
      case (fail e)
      show ?thesis using stage_effect(1,2) [OF fail(1) c1] s fail(2) by (simp add: keeps_others_def)
    next
      case st: (ok u d2)
      note t = stage_effect [OF st(1) c1]
      obtain f where f: "dk_files d2 Staged = Some f" "nd_sha nd (fi_bytes f) = expected" "\<not> same_file (dk_files d1 Exe) (dk_files d2 Staged)"
        and fr: "\<forall>q x. q \<noteq> Staged \<longrightarrow> dk_files d q = Some x \<longrightarrow> fi_inode x \<noteq> fi_inode f"
        using t(3) s(1) by auto
      have e2: "dk_files d2 Exe = dk_files d Exe" "dk_files d2 Rolled = dk_files d Rolled" "dk_state d2 = dk_state d"
        using t(2) s(1,2) by (simp_all add: keeps_others_def)
      from st(2) show ?thesis
      proof (cases rule: and_do_cases)
        case (fail e)
        have fd: "dk_files d' = dk_files d2" "dk_state d' = dk_state d2" using file_sha_effect(1,2) [OF fail(1)] by simp_all
        then have "consistent d'" using t(1) by (simp add: consistent_def)
        then show ?thesis using fd e2 fail(2) by simp
      next
        case hs: (ok replaced d3)
        have fd: "dk_files d3 = dk_files d2" "dk_state d3 = dk_state d2" using file_sha_effect(1,2) [OF hs(1)] by simp_all
        have c3: "consistent d3" using t(1) fd by (simp add: consistent_def)
        obtain g where g: "dk_files d2 Exe = Some g" "replaced = nd_sha nd (fi_bytes g)" using file_sha_effect(4) [OF hs(1) refl] by blast
        have staged: "dk_files d3 Staged = Some f" using f(1) fd by simp
        have signed: "signed_for nd c (nd_sha nd (fi_bytes f))" using sg f(2) by simp
        from hs(2) show ?thesis
        proof (cases rule: and_do_cases)
          case (fail e)
          have "dk_files d' Exe = None \<or> dk_files d' Exe = dk_files d Exe \<or> dk_files d' Exe = Some f"
            using swap_effect(3) [OF fail(1) c3] fd e2 staged by auto
          then show ?thesis using swap_effect(1,2,4) [OF fail(1) c3] fd e2 signed fail(2) by auto
        next
          case (ok w d4)
          have n: "\<not> same_file (dk_files d3 Exe) (dk_files d3 Staged)" using f(3) fd s(1) e2(1) by simp
          have sw: "dk_files d4 Exe = dk_files d3 Staged \<and> dk_files d4 Prev = dk_files d3 Exe \<and> dk_files d4 Staged = None"
            using swap_effect(5) [OF ok(1) c3 _ n] by simp
          have "fi_inode g \<noteq> fi_inode f" using n g(1) fd staged by (simp add: same_file_def)
          moreover have "r = Inr replaced" "d' = d4" using ok(2) by simp_all
          moreover have "dk_files d Exe = Some g" "dk_files d4 Exe = Some f" "dk_files d4 Prev = Some g" "dk_files d4 Staged = None"
            using sw g(1) e2(1) fd staged by simp_all
          ultimately show ?thesis using swap_effect(1,2,4) [OF ok(1) c3] fd(2) e2(2,3) fd(1) g(2) signed fr by auto
        qed
      qed
    qed
  qed
  then show "consistent d'" "dk_state d' = dk_state d" "dk_files d' Rolled = dk_files d Rolled"
    "dk_files d' Exe = None \<or> dk_files d' Exe = dk_files d Exe \<or> (\<exists>f. dk_files d' Exe = Some f \<and> signed_for nd c (nd_sha nd (fi_bytes f)))"
    "r = Inr h \<Longrightarrow> \<exists>f g. dk_files d Exe = Some f \<and> h = nd_sha nd (fi_bytes f) \<and> dk_files d' Exe = Some g \<and> dk_files d' Prev = Some f
           \<and> dk_files d' Staged = None \<and> fi_inode f \<noteq> fi_inode g \<and> signed_for nd c (nd_sha nd (fi_bytes g))
           \<and> (\<forall>q x. q \<noteq> Staged \<longrightarrow> dk_files d q = Some x \<longrightarrow> fi_inode x \<noteq> fi_inode g)" by blast+
qed

lemma record_applied_effect:
  assumes "record_applied nd ev applied h sh d = (r, sh', d')"
  shows "dk_files d' = dk_files d" "sh' = sh\<lparr>sh_previous := Some \<lparr>pr_version = nd_version nd, pr_path = nd_prev_path nd\<rparr>\<rparr>"
    and "dk_state d' = dk_state d \<or> (\<exists>s. dk_state d' = Some s \<and> ps_sha256 s = Some h)"
    and "r = Inr () \<Longrightarrow> \<exists>s. dk_state d' = Some s \<and> ps_sha256 s = Some h"
  using assms by (auto simp: record_applied_def write_state_def request_def split: if_splits)

lemma install_effect:
  assumes i: "install nd ev c sh d = (r, sh', d')" and cs: "consistent d"
  shows "consistent d'" "sh_busy sh' = sh_busy sh" "sh_candidate sh' = sh_candidate sh" "sh_latest sh' = sh_latest sh"
    and "dk_files d' Exe = None \<or> dk_files d' Exe = dk_files d Exe \<or> (\<exists>f. dk_files d' Exe = Some f \<and> signed_for nd c (nd_sha nd (fi_bytes f)))"
    and "dk_state d' = dk_state d \<or> (\<exists>s f. dk_state d' = Some s \<and> ps_sha256 s = Some (nd_sha nd (fi_bytes f)) \<and> dk_files d Exe = Some f)"
    and "r = Inr () \<Longrightarrow> \<exists>f g s. dk_files d Exe = Some f \<and> dk_files d' Exe = Some g \<and> dk_files d' Prev = Some f \<and> dk_files d' Staged = None
           \<and> dk_files d' Rolled = dk_files d Rolled \<and> fi_inode f \<noteq> fi_inode g \<and> signed_for nd c (nd_sha nd (fi_bytes g))
           \<and> dk_state d' = Some s \<and> ps_sha256 s = Some (nd_sha nd (fi_bytes f))"
proof -
  obtain r1 d1 where 1: "install_files nd ev c d = (r1, d1)" by (rule prod.exhaust)
  note e = install_files_effect [OF 1 cs]
  have all: "consistent d' \<and> sh_busy sh' = sh_busy sh \<and> sh_candidate sh' = sh_candidate sh \<and> sh_latest sh' = sh_latest sh
    \<and> (dk_files d' Exe = None \<or> dk_files d' Exe = dk_files d Exe \<or> (\<exists>f. dk_files d' Exe = Some f \<and> signed_for nd c (nd_sha nd (fi_bytes f))))
    \<and> (dk_state d' = dk_state d \<or> (\<exists>s f. dk_state d' = Some s \<and> ps_sha256 s = Some (nd_sha nd (fi_bytes f)) \<and> dk_files d Exe = Some f))
    \<and> (r = Inr () \<longrightarrow> (\<exists>f g s. dk_files d Exe = Some f \<and> dk_files d' Exe = Some g \<and> dk_files d' Prev = Some f \<and> dk_files d' Staged = None
           \<and> dk_files d' Rolled = dk_files d Rolled \<and> fi_inode f \<noteq> fi_inode g \<and> signed_for nd c (nd_sha nd (fi_bytes g))
           \<and> dk_state d' = Some s \<and> ps_sha256 s = Some (nd_sha nd (fi_bytes f))))"
  proof (cases r1)
    case (Inl x)
    then have "r = Inl x" "sh' = sh" "d' = d1" using i by (simp_all add: install_def 1)
    then show ?thesis using e by simp
  next
    case (Inr replaced)
    then have ra: "record_applied nd ev (ver_show (nd_versions nd) (cd_version c)) replaced sh d1 = (r, sh', d')"
      using i by (simp add: install_def 1)
    note a = record_applied_effect [OF ra]
    have c': "consistent d'" using e(1) a(1) by (simp add: consistent_def)
    obtain f g where fg: "dk_files d Exe = Some f" "replaced = nd_sha nd (fi_bytes f)" "dk_files d1 Exe = Some g" "dk_files d1 Prev = Some f"
      "dk_files d1 Staged = None" "fi_inode f \<noteq> fi_inode g" "signed_for nd c (nd_sha nd (fi_bytes g))"
      using e(5) [OF Inr] by blast
    have "r = Inr () \<longrightarrow> (\<exists>s. dk_state d' = Some s \<and> ps_sha256 s = Some replaced)" using a(4) by blast
    then show ?thesis using c' a(1,2,3) e(2,3) fg by auto
  qed
  show "consistent d'" "sh_busy sh' = sh_busy sh" "sh_candidate sh' = sh_candidate sh" "sh_latest sh' = sh_latest sh"
    "dk_files d' Exe = None \<or> dk_files d' Exe = dk_files d Exe \<or> (\<exists>f. dk_files d' Exe = Some f \<and> signed_for nd c (nd_sha nd (fi_bytes f)))"
    "dk_state d' = dk_state d \<or> (\<exists>s f. dk_state d' = Some s \<and> ps_sha256 s = Some (nd_sha nd (fi_bytes f)) \<and> dk_files d Exe = Some f)"
    "r = Inr () \<Longrightarrow> \<exists>f g s. dk_files d Exe = Some f \<and> dk_files d' Exe = Some g \<and> dk_files d' Prev = Some f \<and> dk_files d' Staged = None
           \<and> dk_files d' Rolled = dk_files d Rolled \<and> fi_inode f \<noteq> fi_inode g \<and> signed_for nd c (nd_sha nd (fi_bytes g))
           \<and> dk_state d' = Some s \<and> ps_sha256 s = Some (nd_sha nd (fi_bytes f))"
    using all by blast+
qed

lemma install_fresh:
  assumes "install nd ev c sh d = (Inr (), sh', d')" "consistent d" "dk_files d' Exe = Some h" "p \<noteq> Staged" "dk_files d p = Some f"
  shows "fi_inode f \<noteq> fi_inode h"
proof -
  obtain r1 d1 where 1: "install_files nd ev c d = (r1, d1)" by (rule prod.exhaust)
  then obtain replaced where r: "r1 = Inr replaced" using assms(1) by (cases r1) (simp_all add: install_def)
  then have "dk_files d' = dk_files d1" using assms(1) record_applied_effect(1) by (fastforce simp: install_def 1)
  then show ?thesis using install_files_effect(5) [OF 1 assms(2) r] assms(3-5) by auto
qed

lemma rollback_files_effect:
  assumes "rollback_files nd ev d = (r, d')" and cs: "consistent d"
  shows "consistent d'" "dk_state d' = dk_state d"
    and "dk_files d' Exe = None \<or> dk_files d' Exe = dk_files d Exe
      \<or> (\<exists>f s. dk_files d' Exe = Some f \<and> dk_files d Prev = Some f \<and> dk_state d = Some s \<and> ps_sha256 s = Some (nd_sha nd (fi_bytes f)))"
    and "r = Inr (v, h) \<Longrightarrow> \<exists>f. dk_files d Exe = Some f \<and> h = nd_sha nd (fi_bytes f)"
    and "r = Inr (v, h) \<Longrightarrow> \<not> same_file (dk_files d Exe) (dk_files d Prev) \<Longrightarrow> dk_files d' Exe = dk_files d Prev \<and> dk_files d' Prev = dk_files d Exe"
proof -
  obtain r1 d1 where 1: "read_state ev d = (r1, d1)" by (rule prod.exhaust)
  have k1: "dk_files d1 = dk_files d" "dk_state d1 = dk_state d" using 1 by (auto simp: read_state_def request_def split: option.splits if_splits)
  have st: "dk_state d = Some s" if "r1 = Inr s" for s
    using 1 that by (auto simp: read_state_def request_def split: option.splits if_splits)
  have c1: "consistent d1" using cs k1(1) by (simp add: consistent_def)
  have all: "consistent d' \<and> dk_state d' = dk_state d
    \<and> (dk_files d' Exe = None \<or> dk_files d' Exe = dk_files d Exe
      \<or> (\<exists>f s. dk_files d' Exe = Some f \<and> dk_files d Prev = Some f \<and> dk_state d = Some s \<and> ps_sha256 s = Some (nd_sha nd (fi_bytes f))))
    \<and> (r = Inr (v, h) \<longrightarrow> (\<exists>f. dk_files d Exe = Some f \<and> h = nd_sha nd (fi_bytes f)))
    \<and> (r = Inr (v, h) \<longrightarrow> \<not> same_file (dk_files d Exe) (dk_files d Prev) \<longrightarrow> dk_files d' Exe = dk_files d Prev \<and> dk_files d' Prev = dk_files d Exe)"
  proof (cases "case r1 of Inl e \<Rightarrow> None | Inr s \<Rightarrow> ps_sha256 s")
    case None
    then have "(\<exists>e. r = Inl e) \<and> d' = d1" using assms(1) by (auto simp: rollback_files_def 1)
    then show ?thesis using c1 k1 by auto
  next
    case (Some recorded)
    then obtain s where s: "dk_state d = Some s" "ps_sha256 s = Some recorded" using st by (cases r1) auto
    have rest: "and_do (file_sha256 (nd_sha nd) ev Prev d1) (\<lambda>actual d2.
               if actual \<noteq> recorded
               then (Inl ''not the executable this atmux set aside; refusing to roll back into it'', d2)
               else and_do (probe_version nd ev Prev None d2) (\<lambda>restored d3.
                    and_do (restore_previous (nd_sha nd) ev d3) (\<lambda>leaving d4. (Inr (restored, leaving), d4)))) = (r, d')"
      using assms(1) by (simp add: rollback_files_def 1 Some)
    then show ?thesis
    proof (cases rule: and_do_cases)
      case (fail e)
      have "dk_files d' = dk_files d1" "dk_state d' = dk_state d1" using file_sha_effect(1,2) [OF fail(1)] by simp_all
      then show ?thesis using c1 k1 fail(2) by (auto simp: consistent_def)
    next
      case hs: (ok actual d2)
      have k2: "dk_files d2 = dk_files d1" "dk_state d2 = dk_state d1" using file_sha_effect(1,2) [OF hs(1)] by simp_all
      obtain f where f: "dk_files d Prev = Some f" "actual = nd_sha nd (fi_bytes f)" using file_sha_effect(4) [OF hs(1) refl] k1 by auto
      have c2: "consistent d2" using c1 k2(1) by (simp add: consistent_def)
      show ?thesis
      proof (cases "actual = recorded")
        case False
        then have "(\<exists>e. r = Inl e) \<and> d' = d2" using hs(2) by auto
        then show ?thesis using c2 k1 k2 by auto
      next
        case eq: True
        then have "and_do (probe_version nd ev Prev None d2) (\<lambda>restored d3.
                    and_do (restore_previous (nd_sha nd) ev d3) (\<lambda>leaving d4. (Inr (restored, leaving), d4))) = (r, d')"
          using hs(2) by simp
        then show ?thesis
        proof (cases rule: and_do_cases)
          case (fail e)
          then have "d' = tick 1 d2" by (simp add: probe_version_def Let_def)
          then show ?thesis using c2 k1 k2 fail(2) by (auto simp: consistent_def)
        next
          case pv: (ok restored d3)
          then have d3: "d3 = tick 1 d2" by (simp add: probe_version_def Let_def)
          have k3: "dk_files d3 = dk_files d" "dk_state d3 = dk_state d" using d3 k1 k2 by simp_all
          have c3: "consistent d3" using c2 d3 by (simp add: consistent_def)
          from pv(2) show ?thesis
          proof (cases rule: and_do_cases)
            case (fail e)
            note R = restore_effect(1,2,3) [OF fail(1) c3]
            then have "dk_files d' Exe = None \<or> dk_files d' Exe = dk_files d Exe \<or> dk_files d' Exe = Some f" using k3 f(1) by auto
            then show ?thesis using R(1,2) k3 s f eq fail(2) by auto
          next
            case (ok leaving d4)
            note R = restore_effect [OF ok(1) c3]
            have x: "r = Inr (restored, leaving)" "d' = d4" using ok(2) by simp_all
            have "dk_files d4 Exe = None \<or> dk_files d4 Exe = dk_files d Exe \<or> dk_files d4 Exe = Some f" using R(3) k3 f(1) by auto
            then show ?thesis using R(1,2) R(4,5) [of leaving] k3 s f eq x by auto
          qed
        qed
      qed
    qed
  qed
  show "consistent d'" "dk_state d' = dk_state d"
    "dk_files d' Exe = None \<or> dk_files d' Exe = dk_files d Exe
      \<or> (\<exists>f s. dk_files d' Exe = Some f \<and> dk_files d Prev = Some f \<and> dk_state d = Some s \<and> ps_sha256 s = Some (nd_sha nd (fi_bytes f)))"
    "r = Inr (v, h) \<Longrightarrow> \<exists>f. dk_files d Exe = Some f \<and> h = nd_sha nd (fi_bytes f)"
    "r = Inr (v, h) \<Longrightarrow> \<not> same_file (dk_files d Exe) (dk_files d Prev) \<Longrightarrow> dk_files d' Exe = dk_files d Prev \<and> dk_files d' Prev = dk_files d Exe"
    using all by blast+
qed

lemma rollback_effect:
  assumes i: "install_rollback nd ev sh d = (r, sh', d')" and cs: "consistent d"
  shows "consistent d'" "sh_busy sh' = sh_busy sh" "sh_candidate sh' = sh_candidate sh" "sh_latest sh' = sh_latest sh"
    and "dk_files d' Exe = None \<or> dk_files d' Exe = dk_files d Exe
      \<or> (\<exists>f s. dk_files d' Exe = Some f \<and> dk_files d Prev = Some f \<and> dk_state d = Some s \<and> ps_sha256 s = Some (nd_sha nd (fi_bytes f)))"
    and "dk_state d' = dk_state d \<or> (\<exists>s f. dk_state d' = Some s \<and> ps_sha256 s = Some (nd_sha nd (fi_bytes f)) \<and> dk_files d Exe = Some f)"
    and "r = Inr () \<Longrightarrow> \<not> same_file (dk_files d Exe) (dk_files d Prev) \<Longrightarrow> dk_files d' Exe = dk_files d Prev \<and> dk_files d' Prev = dk_files d Exe
           \<and> (\<exists>s f. dk_state d' = Some s \<and> ps_sha256 s = Some (nd_sha nd (fi_bytes f)) \<and> dk_files d Exe = Some f)"
proof -
  obtain r1 d1 where 1: "rollback_files nd ev d = (r1, d1)" by (rule prod.exhaust)
  note e = rollback_files_effect [OF 1 cs]
  have all: "consistent d' \<and> sh_busy sh' = sh_busy sh \<and> sh_candidate sh' = sh_candidate sh \<and> sh_latest sh' = sh_latest sh
    \<and> (dk_files d' Exe = None \<or> dk_files d' Exe = dk_files d Exe
      \<or> (\<exists>f s. dk_files d' Exe = Some f \<and> dk_files d Prev = Some f \<and> dk_state d = Some s \<and> ps_sha256 s = Some (nd_sha nd (fi_bytes f))))
    \<and> (dk_state d' = dk_state d \<or> (\<exists>s f. dk_state d' = Some s \<and> ps_sha256 s = Some (nd_sha nd (fi_bytes f)) \<and> dk_files d Exe = Some f))
    \<and> (r = Inr () \<longrightarrow> \<not> same_file (dk_files d Exe) (dk_files d Prev) \<longrightarrow> dk_files d' Exe = dk_files d Prev \<and> dk_files d' Prev = dk_files d Exe
           \<and> (\<exists>s f. dk_state d' = Some s \<and> ps_sha256 s = Some (nd_sha nd (fi_bytes f)) \<and> dk_files d Exe = Some f))"
  proof (cases r1)
    case (Inl x)
    then have "r = Inl x" "sh' = sh" "d' = d1" using i by (simp_all add: install_rollback_def 1)
    then show ?thesis using e(1,2,3) by simp
  next
    case (Inr q)
    obtain v h where q: "q = (v, h)" by (rule prod.exhaust)
    have ra: "record_applied nd ev (ver_show (nd_versions nd) v) h sh d1 = (r, sh', d')"
      using i Inr q by (simp add: install_rollback_def 1)
    note a = record_applied_effect [OF ra]
    have c': "consistent d'" using e(1) a(1) by (simp add: consistent_def)
    obtain f where f: "dk_files d Exe = Some f" "h = nd_sha nd (fi_bytes f)" using e(4) Inr q by blast
    have "dk_files d1 Exe = dk_files d Prev \<and> dk_files d1 Prev = dk_files d Exe" if "\<not> same_file (dk_files d Exe) (dk_files d Prev)"
      using e(5) Inr q that by blast
    then show ?thesis using c' a e(2,3) f by auto
  qed
  show "consistent d'" "sh_busy sh' = sh_busy sh" "sh_candidate sh' = sh_candidate sh" "sh_latest sh' = sh_latest sh"
    "dk_files d' Exe = None \<or> dk_files d' Exe = dk_files d Exe
      \<or> (\<exists>f s. dk_files d' Exe = Some f \<and> dk_files d Prev = Some f \<and> dk_state d = Some s \<and> ps_sha256 s = Some (nd_sha nd (fi_bytes f)))"
    "dk_state d' = dk_state d \<or> (\<exists>s f. dk_state d' = Some s \<and> ps_sha256 s = Some (nd_sha nd (fi_bytes f)) \<and> dk_files d Exe = Some f)"
    "r = Inr () \<Longrightarrow> \<not> same_file (dk_files d Exe) (dk_files d Prev) \<Longrightarrow> dk_files d' Exe = dk_files d Prev \<and> dk_files d' Prev = dk_files d Exe
           \<and> (\<exists>s f. dk_state d' = Some s \<and> ps_sha256 s = Some (nd_sha nd (fi_bytes f)) \<and> dk_files d Exe = Some f)"
    using all by blast+
qed

end
