(* ===== verification/Update_Tasks.thy ===== *)
theory Update_Tasks
  imports Update_Safety
begin

text \<open>
  The tasks of a node that updates itself as a step relation: checks, claims, installations, rollbacks and
  restarts, a process killed in the middle of any of them, and others who change the files beside the executable.
  The properties say what can become of the executable.
\<close>

section \<open>Killed anywhere\<close>

text \<open>A process that is killed: every request works up to some moment and none after it.\<close>

definition killed_at :: "nat \<Rightarrow> node_env \<Rightarrow> bool" where
  "killed_at k ev \<longleftrightarrow> (\<forall>n. ev_ok ev n \<longleftrightarrow> n < k)"

lemma set_aside_links:
  assumes "killed_at k ev" "dk_files d Exe \<noteq> None" "t \<noteq> Exe" "set_aside ev t d = (linked, aside, d')"
  shows "aside \<Longrightarrow> linked"
proof -
  obtain o1 d1 where 1: "remove_file ev t d = (o1, d1)" by (rule prod.exhaust)
  obtain l d2 where 2: "hard_link ev Exe t d1 = (l, d2)" by (rule prod.exhaust)
  obtain ok d3 where 3: "rename_file ev Exe t d2 = (ok, d3)" by (rule prod.exhaust)
  note e1 = remove_file_effect [OF 1] and e2 = hard_link_effect [OF 2] and e3 = rename_file_effect [OF 3]
  have r: "(linked, aside) = (if l then (True, True) else (False, ok))" using assms(4) by (auto simp: set_aside_def 1 2 3)
  have ok: "ev_ok ev n \<longleftrightarrow> n < k" for n using assms(1) by (simp add: killed_at_def)
  have "l" if "dk_clock d1 < k"
  proof -
    have "dk_clock d < k" using that e1(3) by simp
    then have "dk_files d1 t = None" using e1(1,4) ok by (cases "dk_files d t = None") auto
    moreover have "dk_files d1 Exe \<noteq> None" using assms(2,3) e1(1) by simp
    ultimately show ?thesis using e2(4) ok that by simp
  qed
  moreover have "\<not> ok" if "\<not> dk_clock d1 < k" using e3(4) e2(3) ok that by simp
  ultimately show "aside \<Longrightarrow> linked" using r by (auto split: if_splits)
qed

lemma rename_keeps_target: "rename_file ev a b d = (ok, d') \<Longrightarrow> a \<noteq> b \<Longrightarrow> dk_files d b \<noteq> None \<Longrightarrow> dk_files d' b \<noteq> None"
  using rename_file_effect(1,4) [of ev a b d ok d'] by (auto split: if_splits)

lemma swap_keeps_exe:
  assumes "killed_at k ev" "dk_files d Exe \<noteq> None" "consistent d" "swap_into_place ev d = (r, d')"
  shows "dk_files d' Exe \<noteq> None"
proof -
  obtain linked aside d1 where 1: "set_aside ev Prev d = (linked, aside, d1)" by (metis prod.exhaust)
  obtain ok d2 where 2: "rename_file ev Staged Exe d1 = (ok, d2)" by (rule prod.exhaust)
  note e1 = set_aside_effect [OF 1 _ assms(3), simplified]
  have l: "linked \<or> \<not> aside" using set_aside_links [OF assms(1,2) _ 1] by auto
  then have x1: "dk_files d1 Exe \<noteq> None" using e1(6) assms(2) by simp
  then have x2: "dk_files d2 Exe \<noteq> None" using rename_keeps_target [OF 2] by simp
  have c2: "consistent d2" by (rule ops_consistent(3) [OF 2 e1(2)])
  have "d' = d1 \<or> (aside \<and> d' = undo_aside ev linked Prev d2) \<or> dk_files d' = dk_files d2"
    using assms(4) sync_keeps [of ev d2 r d'] by (cases aside) (auto simp: swap_into_place_def 1 2 split: if_splits)
  then show ?thesis using x1 x2 undo_aside_effect(5) [where t = Prev and ev = ev and linked = linked, OF _ c2] l by auto
qed

lemma restore_keeps_exe:
  assumes "killed_at k ev" "dk_files d Exe \<noteq> None" "consistent d" "restore_previous sha ev d = (r, d')"
  shows "dk_files d' Exe \<noteq> None"
proof -
  obtain linked aside d1 where 1: "set_aside ev Rolled d = (linked, aside, d1)" by (metis prod.exhaust)
  obtain hr d2 where 2: "file_sha256 sha ev Rolled d1 = (hr, d2)" by (rule prod.exhaust)
  obtain ok d3 where 3: "rename_file ev Prev Exe d2 = (ok, d3)" by (rule prod.exhaust)
  obtain ok4 d4 where 4: "rename_file ev Rolled Prev d3 = (ok4, d4)" by (rule prod.exhaust)
  note e1 = set_aside_effect [OF 1 _ assms(3), simplified] and e2 = file_sha_effect [OF 2]
  have l: "linked \<or> \<not> aside" using set_aside_links [OF assms(1,2) _ 1] by auto
  then have x1: "dk_files d1 Exe \<noteq> None" using e1(6) assms(2) by simp
  then have x2: "dk_files d2 Exe \<noteq> None" using e2(1) by simp
  then have x3: "dk_files d3 Exe \<noteq> None" using rename_keeps_target [OF 3] by simp
  have c3: "consistent d3" by (rule ops_consistent(3) [OF 3]) (use e1(2) e2(1) in \<open>simp add: consistent_def\<close>)
  have x4: "dk_files d4 Exe \<noteq> None" using rename_file_effect(1,4) [OF 4] x3 by (auto split: if_splits)
  have sy: "sync_directory ev d4 = (s, d5) \<Longrightarrow> dk_files d5 = dk_files d4" for s d5 using sync_keeps by blast
  show ?thesis
  proof (cases aside)
    case False
    then have "d' = d1" using assms(4) by (simp add: restore_previous_def 1)
    then show ?thesis using x1 by simp
  next
    case a: True
    have r: "and_do (hr, d2) (\<lambda>leaving d2. let (ok, d3) = rename_file ev Prev Exe d2
          in if ok then
               and_do (require ''could not keep the rolled-back atmux for a second attempt'' (rename_file ev Rolled Prev d3)) (\<lambda>_ d4.
               and_do (sync_directory ev d4) (\<lambda>_ d5. (Inr leaving, d5)))
             else (Inl ''could not restore the previous atmux executable'', undo_aside ev linked Rolled d3)) = (r, d')"
      using assms(4) a by (simp add: restore_previous_def 1 2)
    show ?thesis
    proof (cases hr)
      case (Inl e)
      then show ?thesis using r x2 by (auto simp: and_do_def)
    next
      case (Inr h)
      have "dk_files d' Exe = dk_files d3 Exe \<or> dk_files d' = dk_files d4"
      proof (cases ok)
        case False
        then have "d' = undo_aside ev linked Rolled d3" using r Inr 3 by (simp add: and_do_def)
        then show ?thesis using undo_aside_effect(5) [where t = Rolled and ev = ev and linked = linked, OF _ c3] l a by auto
      next
        case True
        then have "and_do (require ''could not keep the rolled-back atmux for a second attempt'' (ok4, d4))
            (\<lambda>_ d4. and_do (sync_directory ev d4) (\<lambda>_ d5. (Inr h, d5))) = (r, d')"
          using r Inr 3 4 by (simp add: and_do_def)
        then show ?thesis
        proof (cases rule: and_do_cases)
          case (fail e)
          then show ?thesis using require_keeps [OF fail(1)] by simp
        next
          case (ok u d5)
          have d5: "d5 = d4" using require_keeps [OF ok(1)] by simp
          from ok(2) show ?thesis
          proof (cases rule: and_do_cases)
            case (fail e)
            have "dk_files d' = dk_files d5" by (rule sy [unfolded d5 [symmetric], OF fail(1)])
            then show ?thesis unfolding d5 by simp
          next
            case (ok w d6)
            have "dk_files d6 = dk_files d5" by (rule sy [unfolded d5 [symmetric], OF ok(1)])
            moreover have "d' = d6" using ok(2) by simp
            ultimately show ?thesis unfolding d5 by simp
          qed
        qed
      qed
      then show ?thesis using x3 x4 by auto
    qed
  qed
qed

lemma install_keeps_exe:
  assumes "killed_at k ev" "dk_files d Exe \<noteq> None" "consistent d" "install nd ev c sh d = (r, sh', d')"
  shows "dk_files d' Exe \<noteq> None"
proof -
  obtain r1 d1 where 1: "install_files nd ev c d = (r1, d1)" by (rule prod.exhaust)
  have "dk_files d1 Exe \<noteq> None"
    using 1 [unfolded install_files_def]
  proof (cases rule: and_do_cases)
    case (fail e)
    then show ?thesis using signed_documents_effect(1) [OF fail(1)] assms(2) by simp
  next
    case (ok expected d2)
    have f2: "dk_files d2 = dk_files d" using signed_documents_effect(1) [OF ok(1)] .
    have c2: "consistent d2" using assms(3) f2 by (simp add: consistent_def)
    from ok(2) show ?thesis
    proof (cases rule: and_do_cases)
      case (fail e)
      then show ?thesis using stage_effect(2) [OF fail(1) c2] f2 assms(2) by (simp add: keeps_others_def)
    next
      case st: (ok u d3)
      have x3: "dk_files d3 Exe \<noteq> None" and c3: "consistent d3"
        using stage_effect(1,2) [OF st(1) c2] f2 assms(2) by (simp_all add: keeps_others_def)
      from st(2) show ?thesis
      proof (cases rule: and_do_cases)
        case (fail e)
        then show ?thesis using file_sha_effect(1) [OF fail(1)] x3 by simp
      next
        case hs: (ok h d4)
        have x4: "dk_files d4 Exe \<noteq> None" and c4: "consistent d4"
          using file_sha_effect(1) [OF hs(1)] x3 c3 by (simp_all add: consistent_def)
        from hs(2) show ?thesis
        proof (cases rule: and_do_cases)
          case (fail e)
          then show ?thesis using swap_keeps_exe [OF assms(1) x4 c4 fail(1)] by simp
        next
          case (ok w d5)
          then show ?thesis using swap_keeps_exe [OF assms(1) x4 c4 ok(1)] by simp
        qed
      qed
    qed
  qed
  moreover have "dk_files d' = dk_files d1"
    using assms(4) record_applied_effect(1) by (cases r1) (fastforce simp: install_def 1)+
  ultimately show ?thesis by simp
qed

lemma rollback_keeps_exe:
  assumes "killed_at k ev" "dk_files d Exe \<noteq> None" "consistent d" "install_rollback nd ev sh d = (r, sh', d')"
  shows "dk_files d' Exe \<noteq> None"
proof -
  obtain r1 d1 where 1: "rollback_files nd ev d = (r1, d1)" by (rule prod.exhaust)
  obtain rs d2 where 2: "read_state ev d = (rs, d2)" by (rule prod.exhaust)
  have f2: "dk_files d2 = dk_files d" using 2 by (auto simp: read_state_def request_def split: option.splits if_splits)
  have "dk_files d1 Exe \<noteq> None"
  proof (cases "case rs of Inl e \<Rightarrow> None | Inr s \<Rightarrow> ps_sha256 s")
    case None
    then have "d1 = d2" using 1 by (auto simp: rollback_files_def 2)
    then show ?thesis using f2 assms(2) by simp
  next
    case (Some recorded)
    have "and_do (file_sha256 (nd_sha nd) ev Prev d2) (\<lambda>actual d2.
               if actual \<noteq> recorded
               then (Inl ''not the executable this atmux set aside; refusing to roll back into it'', d2)
               else and_do (probe_version nd ev Prev None d2) (\<lambda>restored d3.
                    and_do (restore_previous (nd_sha nd) ev d3) (\<lambda>leaving d4. (Inr (restored, leaving), d4)))) = (r1, d1)"
      using 1 by (simp add: rollback_files_def 2 Some)
    then show ?thesis
    proof (cases rule: and_do_cases)
      case (fail e)
      then show ?thesis using file_sha_effect(1) [OF fail(1)] f2 assms(2) by simp
    next
      case hs: (ok actual d3)
      have f3: "dk_files d3 = dk_files d" using file_sha_effect(1) [OF hs(1)] f2 by simp
      show ?thesis
      proof (cases "actual = recorded")
        case False
        then have "d1 = d3" using hs(2) by simp
        then show ?thesis using f3 assms(2) by simp
      next
        case True
        then have "and_do (probe_version nd ev Prev None d3) (\<lambda>restored d3.
                    and_do (restore_previous (nd_sha nd) ev d3) (\<lambda>leaving d4. (Inr (restored, leaving), d4))) = (r1, d1)"
          using hs(2) by simp
        then show ?thesis
        proof (cases rule: and_do_cases)
          case (fail e)
          then have "d1 = tick 1 d3" by (simp add: probe_version_def Let_def)
          then show ?thesis using f3 assms(2) by simp
        next
          case pv: (ok restored d4)
          then have "d4 = tick 1 d3" by (simp add: probe_version_def Let_def)
          then have f4: "dk_files d4 = dk_files d" using f3 by simp
          then have c4: "consistent d4" using assms(3) by (simp add: consistent_def)
          have x4: "dk_files d4 Exe \<noteq> None" using f4 assms(2) by simp
          from pv(2) show ?thesis
          proof (cases rule: and_do_cases)
            case (fail e)
            then show ?thesis using restore_keeps_exe [OF assms(1) x4 c4 fail(1)] by simp
          next
            case (ok leaving d5)
            then show ?thesis using restore_keeps_exe [OF assms(1) x4 c4 ok(1)] by simp
          qed
        qed
      qed
    qed
  qed
  moreover have "dk_files d' = dk_files d1"
    using assms(4) record_applied_effect(1) by (cases r1) (fastforce simp: install_rollback_def 1 split: prod.splits)+
  ultimately show ?thesis by simp
qed

section \<open>Tasks\<close>

text \<open>
  The activities of a process between its locks. A claim that waits for a check may be taken at any time after it was
  asked for, which only allows more.
\<close>

datatype 'v task = Check_task | Claim_task | Install_task "'v candidate" | Rollback_task | Restart_task

record 'v system =
  sy_node :: "'v node"
  sy_shared :: "'v shared"
  sy_disk :: disk
  sy_tasks :: "'v task list"

definition new_process :: "'v \<Rightarrow> string \<Rightarrow> node_env \<Rightarrow> disk \<Rightarrow> 'v system \<Rightarrow> 'v system" where
  "new_process v name ev d s =
     (let nd = (sy_node s)\<lparr>nd_running := v, nd_version := name\<rparr>; (sh, d1) = restore_persisted nd ev shared_default d
      in s\<lparr>sy_node := nd, sy_shared := sh, sy_disk := d1, sy_tasks := []\<rparr>)"

definition after_update :: "unit outcome \<Rightarrow> 'v task \<Rightarrow> 'v shared \<Rightarrow> disk \<Rightarrow> 'v system \<Rightarrow> 'v system" where
  "after_update r t sh d s =
     s\<lparr>sy_shared := finish_update r sh, sy_disk := d,
       sy_tasks := (if r = Inr () \<and> nd_restart (sy_node s) then [Restart_task] else []) @ remove1 t (sy_tasks s)\<rparr>"

inductive update_step :: "('v::linorder) system \<Rightarrow> 'v system \<Rightarrow> bool" where
  check_refused: "check_begin (sy_node s) manual now (sy_shared s) = (Inl e, sh) \<Longrightarrow> update_step s (s\<lparr>sy_shared := sh\<rparr>)"
| check_starts: "check_begin (sy_node s) manual now (sy_shared s) = (Inr (), sh) \<Longrightarrow>
    update_step s (s\<lparr>sy_shared := sh, sy_tasks := Check_task # sy_tasks s\<rparr>)"
| check_ends: "Check_task \<in> set (sy_tasks s) \<Longrightarrow> discover (sy_node s) ev (sy_shared s) (sy_disk s) = (r, sh, d) \<Longrightarrow>
    update_step s (s\<lparr>sy_shared := check_end r sh, sy_disk := d, sy_tasks := remove1 Check_task (sy_tasks s)\<rparr>)"
| apply_starts: "apply_preflight (sy_node s) writable (sy_shared s) = Inr () \<Longrightarrow> sh_candidate (sy_shared s) \<noteq> None \<Longrightarrow>
    update_step s (s\<lparr>sy_tasks := Claim_task # sy_tasks s\<rparr>)"
| apply_checks: "apply_preflight (sy_node s) writable (sy_shared s) = Inr () \<Longrightarrow> sh_candidate (sy_shared s) = None \<Longrightarrow>
    check_begin (sy_node s) False now (sy_shared s) = (Inr (), sh) \<Longrightarrow>
    update_step s (s\<lparr>sy_shared := sh, sy_tasks := Check_task # Claim_task # sy_tasks s\<rparr>)"
| claim_refused: "Claim_task \<in> set (sy_tasks s) \<Longrightarrow> apply_claim (sy_shared s) = Inl e \<Longrightarrow>
    update_step s (s\<lparr>sy_tasks := remove1 Claim_task (sy_tasks s)\<rparr>)"
| claimed: "Claim_task \<in> set (sy_tasks s) \<Longrightarrow> apply_claim (sy_shared s) = Inr (c, sh) \<Longrightarrow>
    update_step s (s\<lparr>sy_shared := sh, sy_tasks := Install_task c # remove1 Claim_task (sy_tasks s)\<rparr>)"
| rollback_starts: "rollback_claim (sy_node s) writable (sy_disk s) (sy_shared s) = Inr sh \<Longrightarrow>
    update_step s (s\<lparr>sy_shared := sh, sy_tasks := Rollback_task # sy_tasks s\<rparr>)"
| install_ends: "Install_task c \<in> set (sy_tasks s) \<Longrightarrow> install (sy_node s) ev c (sy_shared s) (sy_disk s) = (r, sh, d) \<Longrightarrow>
    update_step s (after_update r (Install_task c) sh d s)"
| rollback_ends: "Rollback_task \<in> set (sy_tasks s) \<Longrightarrow> install_rollback (sy_node s) ev (sy_shared s) (sy_disk s) = (r, sh, d) \<Longrightarrow>
    update_step s (after_update r Rollback_task sh d s)"
| restart_fails: "Restart_task \<in> set (sy_tasks s) \<Longrightarrow>
    update_step s (s\<lparr>sy_shared := restart_failed e (sy_shared s), sy_tasks := remove1 Restart_task (sy_tasks s)\<rparr>)"
| restarted: "dk_files (sy_disk s) Exe \<noteq> None \<Longrightarrow> update_step s (new_process v name ev (sy_disk s) s)"
| killed_installing: "Install_task c \<in> set (sy_tasks s) \<Longrightarrow> install (sy_node s) ev c (sy_shared s) (sy_disk s) = (r, sh, d) \<Longrightarrow>
    dk_files d Exe \<noteq> None \<Longrightarrow> update_step s (new_process v name ev d s)"
| killed_rolling: "Rollback_task \<in> set (sy_tasks s) \<Longrightarrow> install_rollback (sy_node s) ev (sy_shared s) (sy_disk s) = (r, sh, d) \<Longrightarrow>
    dk_files d Exe \<noteq> None \<Longrightarrow> update_step s (new_process v name ev d s)"
| tampered: "p \<noteq> Exe \<Longrightarrow> consistent (set_file p f (sy_disk s)) \<Longrightarrow> update_step s (s\<lparr>sy_disk := set_file p f (sy_disk s)\<rparr>)"

definition swapping :: "'v task \<Rightarrow> bool" where
  "swapping t = (case t of Install_task c \<Rightarrow> True | Rollback_task \<Rightarrow> True | _ \<Rightarrow> False)"

text \<open>Digests of executables one may end up with: the original one's and those the release key signed for this target.\<close>

definition trusted_digest :: "'v node \<Rightarrow> string \<Rightarrow> string \<Rightarrow> bool" where
  "trusted_digest nd orig h \<longleftrightarrow> h = nd_sha nd orig
     \<or> (\<exists>checksums signature m. nd_verify nd checksums signature \<and> manifest_parse (nd_versions nd) checksums = Inr m
          \<and> checksum_for (asset_name (nd_target nd)) m = Inr h)"

definition newer_candidate :: "('v::linorder) node \<Rightarrow> 'v candidate \<Rightarrow> bool" where
  "newer_candidate nd c \<longleftrightarrow> nd_running nd < cd_version c \<and> \<not> ver_pre (nd_versions nd) (cd_version c) \<and> cd_asset c = asset_name (nd_target nd)"

definition same_program :: "'v node \<Rightarrow> 'v node \<Rightarrow> bool" where
  "same_program a b \<longleftrightarrow> nd_verify a = nd_verify b \<and> nd_sha a = nd_sha b \<and> nd_target a = nd_target b \<and> nd_versions a = nd_versions b"

definition system_inv :: "('v::linorder) node \<Rightarrow> string \<Rightarrow> 'v system \<Rightarrow> bool" where
  "system_inv nd orig s \<longleftrightarrow>
     same_program nd (sy_node s) \<and> consistent (sy_disk s)
     \<and> length (filter swapping (sy_tasks s)) = (if sh_busy (sy_shared s) then 1 else 0)
     \<and> (\<forall>f. dk_files (sy_disk s) Exe = Some f \<longrightarrow> trusted_digest nd orig (nd_sha nd (fi_bytes f)))
     \<and> (\<forall>st h. dk_state (sy_disk s) = Some st \<longrightarrow> ps_sha256 st = Some h \<longrightarrow> trusted_digest nd orig h)
     \<and> (\<forall>c. sh_candidate (sy_shared s) = Some c \<longrightarrow> newer_candidate (sy_node s) c)
     \<and> (\<forall>c. Install_task c \<in> set (sy_tasks s) \<longrightarrow> newer_candidate (sy_node s) c)"

lemma signed_digest_Inr:
  "signed_digest nd c checksums signature = Inr h \<longleftrightarrow> nd_verify nd checksums signature \<and> from_utf8 checksums = Inr checksums
     \<and> (\<exists>m. manifest_parse (nd_versions nd) checksums = Inr m \<and> man_version m = cd_version c \<and> checksum_for (cd_asset c) m = Inr h)"
  by (auto simp: signed_digest_def and_then_Inr from_utf8_def ensure_manifest_matches_def split: if_splits)

lemma signed_trusted:
  assumes "signed_for nd' c h" "same_program nd nd'" "cd_asset c = asset_name (nd_target nd')"
  shows "trusted_digest nd orig h"
  using assms by (auto simp: signed_for_def signed_digest_Inr trusted_digest_def same_program_def)

lemma select_candidate_newer:
  "select_candidate vs r running target = Inr (Some c) \<Longrightarrow> running < cd_version c \<and> \<not> ver_pre vs (cd_version c) \<and> cd_asset c = asset_name target"
  by (auto simp: select_candidate_def and_then_Inr split: if_splits option.splits)

lemma discover_effect:
  assumes "discover nd ev sh d = (r, sh', d')"
  shows "dk_files d' = dk_files d" "dk_state d' = dk_state d" "sh_busy sh' = sh_busy sh" "sh_candidate sh' = sh_candidate sh"
    and "r = Inr (l, Some c) \<Longrightarrow> newer_candidate nd c"
proof -
  obtain r1 d1 where 1: "fetch ev max_metadata_bytes (releases_url nd) d = (r1, d1)" by (rule prod.exhaust)
  have k1: "dk_files d1 = dk_files d \<and> dk_state d1 = dk_state d" by (rule fetch_keeps [OF 1])
  have all: "dk_files d' = dk_files d \<and> dk_state d' = dk_state d \<and> sh_busy sh' = sh_busy sh \<and> sh_candidate sh' = sh_candidate sh
    \<and> (r = Inr (l, Some c) \<longrightarrow> newer_candidate nd c)"
  proof (cases r1)
    case (Inl e)
    then show ?thesis using assms k1 by (auto simp: discover_def 1)
  next
    case b: (Inr b)
    show ?thesis
    proof (cases "and_then (nd_decode nd b) (\<lambda>r. select_candidate (nd_versions nd) r (nd_running nd) (nd_target nd))")
      case (Inl e)
      then show ?thesis using assms k1 b by (auto simp: discover_def 1)
    next
      case sel: (Inr oc)
      show ?thesis
      proof (cases oc)
        case None
        then show ?thesis using assms k1 b sel by (auto simp: discover_def 1)
      next
        case (Some x)
        then have x: "newer_candidate nd x" using sel select_candidate_newer by (fastforce simp: and_then_Inr newer_candidate_def)
        obtain r2 d2 where 2: "fetch ev max_checksum_bytes (cd_checksums_url x) d1 = (r2, d2)" by (rule prod.exhaust)
        have k2: "dk_files d2 = dk_files d1 \<and> dk_state d2 = dk_state d1" by (rule fetch_keeps [OF 2])
        show ?thesis
        proof (cases r2)
          case (Inl e)
          then show ?thesis using assms k1 k2 b sel Some by (auto simp: discover_def 1 2)
        next
          case cs: (Inr cs)
          obtain r3 d3 where 3: "fetch ev max_signature_bytes (cd_signature_url x) d2 = (r3, d3)" by (rule prod.exhaust)
          have k3: "dk_files d3 = dk_files d2 \<and> dk_state d3 = dk_state d2" by (rule fetch_keeps [OF 3])
          show ?thesis
          proof (cases r3)
            case (Inl e)
            then show ?thesis using assms k1 k2 k3 b sel Some cs by (auto simp: discover_def 1 2 3)
          next
            case raw: (Inr raw)
            show ?thesis
            proof (cases "from_utf8 raw")
              case (Inl e)
              then show ?thesis using assms k1 k2 k3 b sel Some cs raw by (auto simp: discover_def 1 2 3)
            next
              case sg: (Inr sg)
              then show ?thesis using assms k1 k2 k3 b sel Some cs raw x
                by (cases "signed_digest nd x cs sg") (auto simp: discover_def 1 2 3)
            qed
          qed
        qed
      qed
    qed
  qed
  then show "dk_files d' = dk_files d" "dk_state d' = dk_state d" "sh_busy sh' = sh_busy sh" "sh_candidate sh' = sh_candidate sh"
    "r = Inr (l, Some c) \<Longrightarrow> newer_candidate nd c" by blast+
qed

lemma check_begin_keeps:
  "check_begin nd manual now sh = (r, sh') \<Longrightarrow> sh_busy sh' = sh_busy sh \<and> sh_candidate sh' = sh_candidate sh"
  by (auto simp: check_begin_def Let_def split: sum.splits if_splits)

lemma restore_persisted_keeps:
  "restore_persisted nd ev sh d = (sh', d') \<Longrightarrow> sh_busy sh' = sh_busy sh \<and> sh_candidate sh' = sh_candidate sh
     \<and> dk_files d' = dk_files d \<and> dk_state d' = dk_state d"
  by (auto simp: restore_persisted_def read_state_def request_def split: prod.splits sum.splits option.splits if_splits)

lemma remove1_swapping:
  "t \<in> set ts \<Longrightarrow> length (filter swapping (remove1 t ts)) + (if swapping t then 1 else 0) = length (filter swapping ts)"
  by (induction ts) auto

lemma swapping_simps [simp]:
  "\<not> swapping Check_task" "\<not> swapping Claim_task" "swapping (Install_task c)" "swapping Rollback_task" "\<not> swapping Restart_task"
  by (simp_all add: swapping_def)

section \<open>The invariant\<close>

definition disk_trusted :: "'v node \<Rightarrow> string \<Rightarrow> disk \<Rightarrow> bool" where
  "disk_trusted nd orig d \<longleftrightarrow> consistent d
     \<and> (\<forall>f. dk_files d Exe = Some f \<longrightarrow> trusted_digest nd orig (nd_sha nd (fi_bytes f)))
     \<and> (\<forall>st h. dk_state d = Some st \<longrightarrow> ps_sha256 st = Some h \<longrightarrow> trusted_digest nd orig h)"

lemma system_inv_parts:
  "system_inv nd orig s \<longleftrightarrow> same_program nd (sy_node s) \<and> disk_trusted nd orig (sy_disk s)
     \<and> length (filter swapping (sy_tasks s)) = (if sh_busy (sy_shared s) then 1 else 0)
     \<and> (\<forall>c. sh_candidate (sy_shared s) = Some c \<longrightarrow> newer_candidate (sy_node s) c)
     \<and> (\<forall>c. Install_task c \<in> set (sy_tasks s) \<longrightarrow> newer_candidate (sy_node s) c)"
  by (auto simp: system_inv_def disk_trusted_def)

lemma new_process_inv:
  assumes "same_program nd (sy_node s)" "disk_trusted nd orig d"
  shows "system_inv nd orig (new_process v name ev d s)"
proof -
  let ?nd = "(sy_node s)\<lparr>nd_running := v, nd_version := name\<rparr>"
  obtain sh d1 where 1: "restore_persisted ?nd ev shared_default d = (sh, d1)" by (rule prod.exhaust)
  note k = restore_persisted_keeps [OF 1]
  have n: "new_process v name ev d s = s\<lparr>sy_node := ?nd, sy_shared := sh, sy_disk := d1, sy_tasks := []\<rparr>"
    by (simp add: new_process_def 1)
  have "disk_trusted nd orig d1" using assms(2) k by (simp add: disk_trusted_def consistent_def)
  moreover have "same_program nd ?nd" using assms(1) by (simp add: same_program_def)
  moreover have "\<not> sh_busy sh" "sh_candidate sh = None" using k by (simp_all add: shared_default_def)
  ultimately show ?thesis by (simp add: system_inv_parts n)
qed

lemma install_trusted:
  assumes "install nd' ev c sh d = (r, sh', d')" "same_program nd nd'" "newer_candidate nd' c" "disk_trusted nd orig d"
  shows "disk_trusted nd orig d'"
proof -
  have c: "consistent d" using assms(4) by (simp add: disk_trusted_def)
  note e = install_effect [OF assms(1) c]
  have sha: "nd_sha nd' = nd_sha nd" using assms(2) by (simp add: same_program_def)
  have "trusted_digest nd orig (nd_sha nd (fi_bytes f))" if "signed_for nd' c (nd_sha nd (fi_bytes f))" for f
    using signed_trusted [OF that assms(2)] assms(3) by (simp add: newer_candidate_def)
  then have "\<forall>f. dk_files d' Exe = Some f \<longrightarrow> trusted_digest nd orig (nd_sha nd (fi_bytes f))"
    using e(5) assms(4) unfolding sha disk_trusted_def by auto
  moreover have "\<forall>st h. dk_state d' = Some st \<longrightarrow> ps_sha256 st = Some h \<longrightarrow> trusted_digest nd orig h"
    using e(6) assms(4) unfolding sha disk_trusted_def by auto
  ultimately show ?thesis using e(1) by (simp add: disk_trusted_def)
qed

lemma rollback_trusted:
  assumes "install_rollback nd' ev sh d = (r, sh', d')" "same_program nd nd'" "disk_trusted nd orig d"
  shows "disk_trusted nd orig d'"
proof -
  have c: "consistent d" using assms(3) by (simp add: disk_trusted_def)
  note e = rollback_effect [OF assms(1) c]
  have sha: "nd_sha nd' = nd_sha nd" using assms(2) by (simp add: same_program_def)
  have "\<forall>f. dk_files d' Exe = Some f \<longrightarrow> trusted_digest nd orig (nd_sha nd (fi_bytes f))"
    using e(5) assms(3) unfolding sha disk_trusted_def by auto
  moreover have "\<forall>st h. dk_state d' = Some st \<longrightarrow> ps_sha256 st = Some h \<longrightarrow> trusted_digest nd orig h"
    using e(6) assms(3) unfolding sha disk_trusted_def by auto
  ultimately show ?thesis using e(1) by (simp add: disk_trusted_def)
qed

lemma after_update_inv:
  assumes "system_inv nd orig s" "t \<in> set (sy_tasks s)" "swapping t" "disk_trusted nd orig d"
    and "sh_busy sh = sh_busy (sy_shared s)" "sh_candidate sh = sh_candidate (sy_shared s)"
  shows "system_inv nd orig (after_update r t sh d s)"
proof -
  have n: "length (filter swapping (remove1 t (sy_tasks s))) + 1 = length (filter swapping (sy_tasks s))"
    using remove1_swapping [OF assms(2)] assms(3) by simp
  then have z: "filter swapping (remove1 t (sy_tasks s)) = []"
    using assms(1) by (auto simp: system_inv_parts split: if_splits)
  have "\<not> sh_busy (finish_update r sh)" "sh_candidate (finish_update r sh) = sh_candidate (sy_shared s)"
    using assms(6) by (auto simp: finish_update_def split: sum.splits)
  moreover have "Install_task c \<in> set (sy_tasks s)" if "Install_task c \<in> set (sy_tasks (after_update r t sh d s))" for c
    using that by (auto simp: after_update_def dest: notin_set_remove1 set_remove1_subset [THEN subsetD] split: if_splits)
  ultimately show ?thesis using assms(1,4) z by (auto simp: system_inv_parts after_update_def)
qed

lemma apply_claim_Inr:
  assumes "apply_claim sh = Inr (c, sh')"
  shows "\<not> sh_busy sh" "sh_candidate sh = Some c" "sh_busy sh'" "sh_candidate sh' = Some c" "sh_latest sh' = sh_latest sh"
    and "\<exists>l. sh_latest sh = Some l \<and> lr_verified l"
  using assms by (auto simp: apply_claim_def split: if_splits option.splits)

lemma update_step_inv:
  assumes "update_step s s'" "system_inv nd orig s"
  shows "system_inv nd orig s'"
  using assms
proof (induction rule: update_step.induct)
  case (check_refused s manual now e sh)
  then show ?case using check_begin_keeps [OF check_refused.hyps] by (simp add: system_inv_parts)
next
  case (check_starts s manual now sh)
  then show ?case using check_begin_keeps [OF check_starts.hyps] by (simp add: system_inv_parts)
next
  case (check_ends s ev r sh d)
  note e = discover_effect [OF check_ends.hyps(2)]
  have b: "sh_busy (check_end r sh) = sh_busy (sy_shared s)"
    using e(3) by (auto simp: check_end_def Let_def split: sum.splits prod.splits)
  have n: "length (filter swapping (remove1 Check_task (sy_tasks s))) = length (filter swapping (sy_tasks s))"
    using remove1_swapping [OF check_ends.hyps(1)] by simp
  have cand: "newer_candidate (sy_node s) c" if "sh_candidate (check_end r sh) = Some c" for c
  proof (cases r)
    case (Inl x)
    then show ?thesis using that e(4) check_ends.prems by (auto simp: check_end_def Let_def system_inv_parts split: if_splits)
  next
    case (Inr q)
    obtain l oc where q: "q = (l, oc)" by (rule prod.exhaust)
    then have "oc = Some c" using that Inr by (auto simp: check_end_def Let_def)
    then show ?thesis using e(5) Inr q by blast
  qed
  have dt: "disk_trusted nd orig d" using check_ends.prems e(1,2) by (simp add: system_inv_parts disk_trusted_def consistent_def)
  have it: "newer_candidate (sy_node s) c" if "Install_task c \<in> set (remove1 Check_task (sy_tasks s))" for c
    using that set_remove1_subset [of Check_task "sy_tasks s"] check_ends.prems by (auto simp: system_inv_parts)
  show ?case using check_ends.prems b n cand dt it by (simp add: system_inv_parts)
next
  case (apply_starts s writable)
  then show ?case by (simp add: system_inv_parts)
next
  case (apply_checks s writable now sh)
  then show ?case using check_begin_keeps [OF apply_checks.hyps(3)] by (simp add: system_inv_parts)
next
  case (claim_refused s e)
  have "length (filter swapping (remove1 Claim_task (sy_tasks s))) = length (filter swapping (sy_tasks s))"
    using remove1_swapping [OF claim_refused.hyps(1)] by simp
  then show ?case using claim_refused.prems set_remove1_subset [of Claim_task "sy_tasks s"] by (auto simp: system_inv_parts)
next
  case (claimed s c sh)
  note a = apply_claim_Inr [OF claimed.hyps(2)]
  have "length (filter swapping (remove1 Claim_task (sy_tasks s))) = length (filter swapping (sy_tasks s))"
    using remove1_swapping [OF claimed.hyps(1)] by simp
  then show ?case using claimed.prems a set_remove1_subset [of Claim_task "sy_tasks s"] by (auto simp: system_inv_parts)
next
  case (rollback_starts s writable sh)
  then have "\<not> sh_busy (sy_shared s)" "sh_busy sh" "sh_candidate sh = sh_candidate (sy_shared s)"
    by (auto simp: rollback_claim_def and_then_Inr split: if_splits)
  then show ?case using rollback_starts.prems by (simp add: system_inv_parts)
next
  case (install_ends c s ev r sh d)
  have n: "same_program nd (sy_node s)" "newer_candidate (sy_node s) c" "disk_trusted nd orig (sy_disk s)" "consistent (sy_disk s)"
    using install_ends.prems install_ends.hyps(1) by (simp_all add: system_inv_parts disk_trusted_def)
  show ?case
    by (rule after_update_inv [OF install_ends.prems install_ends.hyps(1) _ install_trusted [OF install_ends.hyps(2) n(1-3)]])
      (use install_effect(2,3) [OF install_ends.hyps(2) n(4)] in simp_all)
next
  case (rollback_ends s ev r sh d)
  have n: "same_program nd (sy_node s)" "disk_trusted nd orig (sy_disk s)" "consistent (sy_disk s)"
    using rollback_ends.prems by (simp_all add: system_inv_parts disk_trusted_def)
  show ?case
    by (rule after_update_inv [OF rollback_ends.prems rollback_ends.hyps(1) _ rollback_trusted [OF rollback_ends.hyps(2) n(1,2)]])
      (use rollback_effect(2,3) [OF rollback_ends.hyps(2) n(3)] in simp_all)
next
  case (restart_fails s e)
  have "length (filter swapping (remove1 Restart_task (sy_tasks s))) = length (filter swapping (sy_tasks s))"
    using remove1_swapping [OF restart_fails.hyps(1)] by simp
  then show ?case using restart_fails.prems set_remove1_subset [of Restart_task "sy_tasks s"]
    by (auto simp: system_inv_parts restart_failed_def)
next
  case (restarted s v name ev)
  then show ?case by (intro new_process_inv) (simp_all add: system_inv_parts)
next
  case (killed_installing c s ev r sh d v name)
  then have "disk_trusted nd orig d" using install_trusted [OF killed_installing.hyps(2)] by (simp add: system_inv_parts)
  then show ?case using killed_installing.prems by (intro new_process_inv) (simp_all add: system_inv_parts)
next
  case (killed_rolling s ev r sh d v name)
  then have "disk_trusted nd orig d" using rollback_trusted [OF killed_rolling.hyps(2)] by (simp add: system_inv_parts)
  then show ?case using killed_rolling.prems by (intro new_process_inv) (simp_all add: system_inv_parts)
next
  case (tampered p f s)
  then show ?case by (auto simp: system_inv_parts disk_trusted_def)
qed

lemma update_steps_inv:
  assumes "update_step\<^sup>*\<^sup>* s s'" "system_inv nd orig s"
  shows "system_inv nd orig s'"
  using assms by (induction rule: rtranclp_induct) (blast intro: update_step_inv)+

end
