(* ===== verification/Update_Properties.thy ===== *)
theory Update_Properties
  imports Update_Tasks
begin

text \<open>
  The properties of the self-update: what can become of the executable, of a process killed in the middle, of a
  rollback, of the requests and of the manifest; and two sequences that lose an executable. A small release,
  signed for one target, is the example they are applied to.
\<close>

section \<open>An example\<close>

definition example_versions :: "nat versions" where
  "example_versions = \<lparr>ver_parse = parse_nat, ver_pre = (\<lambda>_. False), ver_show = show_nat\<rparr>"

definition new_digest :: string where "new_digest = replicate 64 CHR ''b''"

definition example_document :: string where
  "example_document = ''version v2'' @ [newline] @ new_digest @ ''  atmux-t'' @ [newline]"

definition example_manifest :: "nat signed_manifest" where
  "example_manifest = \<lparr>man_version = 2, man_entries = [(''atmux-t'', new_digest)]\<rparr>"

definition example_update_candidate :: "nat candidate" where
  "example_update_candidate = \<lparr>cd_version = 2, cd_tag = ''v2'', cd_published = None, cd_asset = ''atmux-t'', cd_asset_url = ''https://github.com/bin'',
     cd_checksums_url = ''https://github.com/sums'', cd_signature_url = ''https://github.com/sig''\<rparr>"

definition example_release :: github_release where
  "example_release = \<lparr>gr_tag = ''v2'', gr_prerelease = False, gr_draft = False, gr_published = None,
     gr_assets = [(''atmux-t'', ''https://github.com/bin''), (''SHA256SUMS'', ''https://github.com/sums''), (''SHA256SUMS.sig'', ''https://github.com/sig'')]\<rparr>"

definition example_node :: "nat node" where
  "example_node = \<lparr>nd_versions = example_versions, nd_target = ''t'', nd_version = ''1'', nd_running = 1, nd_repository = ''o/n'',
     nd_enabled = True, nd_container = False, nd_restart = True, nd_verify = (\<lambda>c s. c = example_document \<and> s = ''sig''),
     nd_sha = (\<lambda>b. if b = ''new'' then new_digest else replicate 64 CHR ''a''), nd_decode = (\<lambda>_. Inr example_release), nd_prev_path = ''atmux.prev''\<rparr>"

definition example_reply :: "string \<Rightarrow> hop" where
  "example_reply bytes = \<lparr>hop_chunks = [bytes], hop_result = Inr None\<rparr>"

definition example_env :: node_env where
  "example_env = \<lparr>ev_ok = (\<lambda>_. True),
     ev_net = (\<lambda>i u. example_reply (if url_target u = ''/sums'' then example_document else if url_target u = ''/sig'' then ''sig'' else ''new'')),
     ev_run = (\<lambda>i b. Inr (if b = ''new'' then ''atmux 2 (t)'' else ''atmux 1 (t)''))\<rparr>"

definition example_disk :: disk where
  "example_disk = \<lparr>dk_files = (\<lambda>p. if p = Exe then Some \<lparr>fi_inode = 1, fi_bytes = ''old''\<rparr> else None), dk_state = None, dk_clock = 0\<rparr>"

text \<open>Trimming a text of ASCII characters that neither begins nor ends with a blank.\<close>

lemma utf8_chars_ascii: "\<forall>c \<in> set s. byte_of c < 128 \<Longrightarrow> utf8_chars s = map (\<lambda>c. [c]) s"
  by (induction s) auto

lemma blank_char_ascii: "32 < byte_of c \<Longrightarrow> byte_of c < 128 \<Longrightarrow> \<not> blank_char [c]"
  by (simp add: blank_char_def code_points_def is_whitespace_def)

lemma trim_end_plain:
  assumes "\<forall>c \<in> set s. byte_of c < 128" "s \<noteq> []" "32 < byte_of (last s)"
  shows "trim_end s = s"
proof -
  have l: "rev s = last s # rev (butlast s)" using assms(2) by (metis append_butlast_last_id rev_eq_Cons_iff rev_rev_ident)
  have "last s \<in> set s" using assms(2) by simp
  then have "\<not> blank_char [last s]" using assms(1,3) blank_char_ascii by blast
  then have "dropWhile blank_char (map (\<lambda>c. [c]) (rev s)) = map (\<lambda>c. [c]) (rev s)" unfolding l by simp
  then show ?thesis using assms(1) by (simp add: trim_end_def utf8_chars_ascii rev_map)
qed

lemma trim_text_plain:
  assumes "\<forall>c \<in> set s. byte_of c < 128" "s \<noteq> []" "32 < byte_of (last s)" "32 < byte_of (hd s)"
  shows "trim_text s = s"
proof -
  obtain c cs where s: "s = c # cs" using assms(2) by (cases s) auto
  have "\<not> blank_char [c]" using assms(1,4) blank_char_ascii s by simp
  then show ?thesis unfolding trim_text_def trim_end_plain [OF assms(1,2,3)] using assms(1) utf8_chars_ascii [of s] s by simp
qed

lemma example_lines: "text_lines example_document = [''version v2'', new_digest @ ''  atmux-t'']"
  by code_simp

lemma example_header: "manifest_header example_versions ''version v2'' = Inr 2"
proof -
  have "trim_text ''v2'' = ''v2''" by (rule trim_text_plain) (simp_all add: byte_of_def)
  moreover have "strip_prefix ''version '' ''version v2'' = Some ''v2''" by code_simp
  moreover have "ver_parse example_versions (trim_v ''v2'') = Some 2" by code_simp
  ultimately show ?thesis by (simp add: manifest_header_def)
qed

lemma example_entry: "manifest_entry (new_digest @ ''  atmux-t'') [] = Inr [(''atmux-t'', new_digest)]"
  by code_simp

lemma example_parse: "manifest_parse example_versions example_document = Inr example_manifest"
proof -
  have 1: "trim_end ''version v2'' = ''version v2''" by (rule trim_end_plain) (simp_all add: byte_of_def)
  have 2: "trim_end (new_digest @ ''  atmux-t'') = new_digest @ ''  atmux-t''"
    by (rule trim_end_plain) (auto simp: byte_of_def new_digest_def)
  show ?thesis unfolding manifest_parse_def example_lines manifest_lines.simps Let_def 1 2
    by (simp add: example_header example_entry example_manifest_def)
qed

lemma example_document_utf8: "from_utf8 example_document = Inr example_document"
proof -
  have "utf8_valid bs" if "\<forall>b \<in> set bs. b < 128" for bs using that by (induction bs) auto
  then show ?thesis by (auto simp: from_utf8_def example_document_def new_digest_def newline_def byte_of_def)
qed

lemma example_urls:
  "parse_https_url ''https://github.com/bin'' = Inr \<lparr>url_host = ''github.com'', url_target = ''/bin''\<rparr>"
  "parse_https_url ''https://github.com/sums'' = Inr \<lparr>url_host = ''github.com'', url_target = ''/sums''\<rparr>"
  "parse_https_url ''https://github.com/sig'' = Inr \<lparr>url_host = ''github.com'', url_target = ''/sig''\<rparr>"
  by code_simp+

lemma example_prints:
  "trim_text ''atmux 2 (t)'' = ''atmux 2 (t)''" "trim_text ''atmux 1 (t)'' = ''atmux 1 (t)''"
  "parse_version_line example_versions ''atmux 2 (t)'' = Inr 2" "parse_version_line example_versions ''atmux 1 (t)'' = Inr 1"
  "version_line ''t'' (show_nat 2) = ''atmux 2 (t)''"
  subgoal by (rule trim_text_plain) (simp_all add: byte_of_def)
  subgoal by (rule trim_text_plain) (simp_all add: byte_of_def)
  subgoal by code_simp
  subgoal by code_simp
  subgoal by code_simp
  done

section \<open>When everything answers\<close>

lemma set_aside_ok:
  assumes "\<forall>n. ev_ok ev n" "dk_files d Exe \<noteq> None" "t \<noteq> Exe"
  shows "\<exists>d'. set_aside ev t d = (True, True, d')"
proof -
  obtain o1 d1 where 1: "remove_file ev t d = (o1, d1)" by (rule prod.exhaust)
  obtain l d2 where 2: "hard_link ev Exe t d1 = (l, d2)" by (rule prod.exhaust)
  note e1 = remove_file_effect [OF 1]
  have "dk_files d1 t = None" using e1(1,4) assms(1) by (cases "dk_files d t = None") auto
  moreover have "dk_files d1 Exe \<noteq> None" using assms(2,3) e1(1) by simp
  ultimately have "l" using hard_link_effect(4) [OF 2] assms(1) by simp
  then show ?thesis by (simp add: set_aside_def 1 2)
qed

lemma rename_ok: "\<forall>n. ev_ok ev n \<Longrightarrow> dk_files d a \<noteq> None \<Longrightarrow> \<exists>d'. rename_file ev a b d = (True, d')"
  by (simp add: rename_file_def request_def)

lemma require_request_ok: "\<forall>n. ev_ok ev n \<Longrightarrow> require e (request ev d) = (Inr (), tick 1 d)"
  by (simp add: require_def request_def)

lemma swap_ok:
  assumes "\<forall>n. ev_ok ev n" "dk_files d Exe \<noteq> None" "dk_files d Staged \<noteq> None" "consistent d"
  shows "\<exists>d'. swap_into_place ev d = (Inr (), d')"
proof -
  obtain d1 where 1: "set_aside ev Prev d = (True, True, d1)" using set_aside_ok [OF assms(1,2), of Prev] by auto
  have "dk_files d1 Staged \<noteq> None" using set_aside_effect(3) [OF 1 _ assms(4)] assms(3) by simp
  then obtain d2 where 2: "rename_file ev Staged Exe d1 = (True, d2)" using rename_ok [OF assms(1)] by blast
  show ?thesis by (simp add: swap_into_place_def 1 2 sync_directory_def require_request_ok [OF assms(1)])
qed

lemma file_sha_ok: "\<forall>n. ev_ok ev n \<Longrightarrow> dk_files d p = Some f \<Longrightarrow> file_sha256 sha ev p d = (Inr (sha (fi_bytes f)), tick 1 d)"
  by (simp add: file_sha256_def request_def)

lemma restore_ok:
  assumes "\<forall>n. ev_ok ev n" "dk_files d Exe \<noteq> None" "dk_files d Prev \<noteq> None" "consistent d"
  shows "\<exists>h d'. restore_previous sha ev d = (Inr h, d')"
proof -
  obtain d1 where 1: "set_aside ev Rolled d = (True, True, d1)" using set_aside_ok [OF assms(1,2), of Rolled] by auto
  note e1 = set_aside_effect [OF 1 _ assms(4), simplified]
  obtain g where g: "dk_files d1 Rolled = Some g" using e1(4) by auto
  have p: "dk_files (tick 1 d1) Prev \<noteq> None" using e1(3) assms(3) by simp
  then obtain d3 where 3: "rename_file ev Prev Exe (tick 1 d1) = (True, d3)" using rename_ok [OF assms(1)] by blast
  have "dk_files d3 Rolled = Some g" using rename_file_effect(1) [OF 3] g by auto
  then obtain d4 where 4: "rename_file ev Rolled Prev d3 = (True, d4)" using rename_ok [OF assms(1), of d3 Rolled Prev] by auto
  have "restore_previous sha ev d = and_do (file_sha256 sha ev Rolled d1) (\<lambda>leaving d2.
          let (ok, d3) = rename_file ev Prev Exe d2
          in if ok then
               and_do (require ''could not keep the rolled-back atmux for a second attempt'' (rename_file ev Rolled Prev d3)) (\<lambda>_ d4.
               and_do (sync_directory ev d4) (\<lambda>_ d5. (Inr leaving, d5)))
             else (Inl ''could not restore the previous atmux executable'', undo_aside ev True Rolled d3))"
    by (simp add: restore_previous_def 1)
  also have "\<dots> = (Inr (sha (fi_bytes g)), tick 1 d4)"
    unfolding file_sha_ok [OF assms(1) g] and_do_def [of "(Inr (sha (fi_bytes g)), tick 1 d1)"] prod.case sum.case
    by (simp add: 3 [simplified] 4 and_do_def require_def sync_directory_def request_def assms(1))
  finally show ?thesis by blast
qed

lemma write_state_ok: "\<forall>n. ev_ok ev n \<Longrightarrow> \<exists>sh' d'. record_applied nd ev a h sh d = (Inr (), sh', d')"
  by (simp add: record_applied_def write_state_def request_def)

text \<open>What makes a release installable for a candidate: genuine documents, the signed bytes, and the right version line.\<close>

definition good_release :: "'v node \<Rightarrow> node_env \<Rightarrow> 'v candidate \<Rightarrow> string \<Rightarrow> bool" where
  "good_release nd ev c bytes \<longleftrightarrow>
     (\<exists>checksums raw. (\<forall>i. fetch_document (ev_net ev) i max_checksum_bytes (cd_checksums_url c) = Inr checksums)
        \<and> (\<forall>i. fetch_document (ev_net ev) i max_signature_bytes (cd_signature_url c) = Inr raw)
        \<and> (\<forall>i. \<exists>us. follow_redirects (ev_net ev) i max_asset_bytes (cd_asset_url c) = (us, bytes, Inr ()))
        \<and> and_then (from_utf8 raw) (signed_digest nd c checksums) = Inr (nd_sha nd bytes))
     \<and> bytes \<noteq> [] \<and> (\<forall>i. \<exists>out. ev_run ev i bytes = Inr out
        \<and> trim_text out = version_line (nd_target nd) (ver_show (nd_versions nd) (cd_version c))
        \<and> is_ok (parse_version_line (nd_versions nd) (trim_text out)))"

lemma stage_ok:
  assumes ok: "\<forall>n. ev_ok ev n" and cs: "consistent d" and g: "good_release nd ev c bytes"
  shows "\<exists>d'. stage nd ev c (nd_sha nd bytes) d = (Inr (), d')"
proof -
  obtain o1 d1 where 1: "remove_file ev Staged d = (o1, d1)" by (rule prod.exhaust)
  have s1: "dk_files d1 Staged = None" using remove_file_effect(1,4) [OF 1] ok by (cases "dk_files d Staged = None") auto
  then obtain d2 where 2: "create_new ev Staged d1 = (True, d2)" using ok by (simp add: create_new_def request_def)
  have s2: "dk_files d2 Staged = Some \<lparr>fi_inode = fresh_inode d1, fi_bytes = []\<rparr>" using create_new_effect(1) [OF 2] by simp
  obtain us where net: "follow_redirects (ev_net ev) (dk_clock d2) max_asset_bytes (cd_asset_url c) = (us, bytes, Inr ())"
    using g unfolding good_release_def by blast
  let ?d3 = "tick (max_redirects + 1) (write_bytes Staged bytes d2)"
  let ?d5 = "tick 1 (tick 1 ?d3)"
  have s5: "dk_files ?d5 Staged = Some \<lparr>fi_inode = fresh_inode d1, fi_bytes = bytes\<rparr>" using s2 by (simp add: write_bytes_def)
  obtain out v where out: "ev_run ev (dk_clock ?d5) bytes = Inr out"
    "trim_text out = version_line (nd_target nd) (ver_show (nd_versions nd) (cd_version c))"
    "parse_version_line (nd_versions nd) (trim_text out) = Inr v"
    using g unfolding good_release_def by (metis is_ok_def obj_sumE sum.disc(1) sum.simps(5))
  have b: "bytes \<noteq> []" using g by (simp add: good_release_def)
  have p: "probe_version nd ev Staged (Some (ver_show (nd_versions nd) (cd_version c))) ?d5 = (Inr v, tick 1 ?d5)"
    unfolding probe_version_def s5 Let_def option.case exe_file.simps out(1) map_ok_simps and_then_simps using out(2,3) by simp
  have "stage nd ev c (nd_sha nd bytes) d = (Inr (), tick 1 ?d5)"
    unfolding stage_def 1 prod.case Let_def 2 and_do_def require_def net sum.case if_True require_request_ok [OF ok, unfolded require_def]
      request_def
    using b p by (simp add: ok)
  then show ?thesis by blast
qed

lemma install_ok:
  assumes ok: "\<forall>n. ev_ok ev n" and cs: "consistent d" and e: "dk_files d Exe \<noteq> None" and g: "good_release nd ev c bytes"
  shows "\<exists>sh' d'. install nd ev c sh d = (Inr (), sh', d')"
proof -
  obtain checksums raw where docs: "\<forall>i. fetch_document (ev_net ev) i max_checksum_bytes (cd_checksums_url c) = Inr checksums"
    "\<forall>i. fetch_document (ev_net ev) i max_signature_bytes (cd_signature_url c) = Inr raw"
    "and_then (from_utf8 raw) (signed_digest nd c checksums) = Inr (nd_sha nd bytes)" using g unfolding good_release_def by blast
  obtain d1 where 1: "signed_documents nd ev c d = (Inr (nd_sha nd bytes), d1)"
    by (simp add: signed_documents_def fetch_def docs and_do_def)
  have f1: "dk_files d1 = dk_files d" by (rule signed_documents_effect(1) [OF 1])
  have c1: "consistent d1" using cs f1 by (simp add: consistent_def)
  obtain d2 where 2: "stage nd ev c (nd_sha nd bytes) d1 = (Inr (), d2)" using stage_ok [OF ok c1 g] by blast
  note t = stage_effect [OF 2 c1]
  obtain f where f: "dk_files d2 Exe = Some f" using t(2) f1 e by (auto simp: keeps_others_def)
  have s2: "dk_files (tick 1 d2) Staged \<noteq> None" "dk_files (tick 1 d2) Exe \<noteq> None" "consistent (tick 1 d2)"
    using t(1,3) f by (auto simp: consistent_def)
  obtain d4 where 4: "swap_into_place ev (tick 1 d2) = (Inr (), d4)" using swap_ok [OF ok s2(2,1,3)] by blast
  have "install_files nd ev c d = (Inr (nd_sha nd (fi_bytes f)), d4)"
    unfolding install_files_def 1 and_do_def prod.case sum.case 2 file_sha_ok [OF ok f] 4 by (rule refl)
  then show ?thesis using write_state_ok [OF ok, of nd _ _ sh d4] by (simp add: install_def)
qed

lemma rollback_ok:
  assumes ok: "\<forall>n. ev_ok ev n" and cs: "consistent d" and e: "dk_files d Exe \<noteq> None"
    and p: "dk_files d Prev = Some f" "dk_state d = Some s" "ps_sha256 s = Some (nd_sha nd (fi_bytes f))"
    and run: "\<forall>i. ev_run ev i (fi_bytes f) = Inr out" "parse_version_line (nd_versions nd) (trim_text out) = Inr v"
  shows "\<exists>sh' d'. install_rollback nd ev sh d = (Inr (), sh', d')"
proof -
  have 1: "read_state ev d = (Inr s, tick 1 d)" using ok p(2) by (simp add: read_state_def request_def)
  let ?d2 = "tick 1 (tick 1 d)"
  have p2: "dk_files (tick 1 d) Prev = Some f" "dk_files ?d2 Prev = Some f" using p(1) by simp_all
  have pv: "probe_version nd ev Prev None ?d2 = (Inr v, tick 1 ?d2)"
    unfolding probe_version_def p2(2) Let_def option.case using run by simp
  have s3: "dk_files (tick 1 ?d2) Exe \<noteq> None" "dk_files (tick 1 ?d2) Prev \<noteq> None" "consistent (tick 1 ?d2)"
    using e p(1) cs by (simp_all add: consistent_def)
  obtain h d4 where 4: "restore_previous (nd_sha nd) ev (tick 1 ?d2) = (Inr h, d4)" using restore_ok [OF ok s3] by blast
  have "rollback_files nd ev d = (Inr (v, h), d4)"
    unfolding rollback_files_def 1 prod.case sum.case p(3) option.case file_sha_ok [OF ok p2(1)] and_do_def pv 4 by simp
  then show ?thesis using write_state_ok [OF ok, of nd _ _ sh d4] by (simp add: install_rollback_def)
qed

section \<open>The start of a node\<close>

text \<open>A node as it starts: nothing running, nothing found, no state file.\<close>

definition update_start :: "'v system \<Rightarrow> exe_file \<Rightarrow> bool" where
  "update_start s f \<longleftrightarrow> sy_tasks s = [] \<and> \<not> sh_busy (sy_shared s) \<and> sh_candidate (sy_shared s) = None
     \<and> consistent (sy_disk s) \<and> dk_files (sy_disk s) Exe = Some f \<and> dk_state (sy_disk s) = None"

lemma update_start_inv: "update_start s f \<Longrightarrow> system_inv (sy_node s) (fi_bytes f) s"
  by (simp add: update_start_def system_inv_def same_program_def trusted_digest_def)

section \<open>The example works\<close>

lemma one_hop:
  assumes "parse_https_url url = Inr u" "net i u = example_reply b" "length b \<le> limit"
  shows "follow_redirects net i limit url = ([u], b, Inr ())" "fetch_document net i limit url = Inr b"
proof -
  show r: "follow_redirects net i limit url = ([u], b, Inr ())"
    using assms by (simp add: follow_redirects_def example_reply_def Let_def)
  show "fetch_document net i limit url = Inr b" by (simp add: fetch_document_def r)
qed

lemma example_net:
  "ev_net example_env i \<lparr>url_host = h, url_target = ''/sums''\<rparr> = example_reply example_document"
  "ev_net example_env i \<lparr>url_host = h, url_target = ''/sig''\<rparr> = example_reply ''sig''"
  "ev_net example_env i \<lparr>url_host = h, url_target = ''/bin''\<rparr> = example_reply ''new''"
  "ev_net example_env i \<lparr>url_host = h, url_target = ''/repos/o/n/releases/latest''\<rparr> = example_reply ''new''"
  by (simp_all add: example_env_def)

lemma example_lengths: "length example_document = 85"
  by (simp add: example_document_def new_digest_def)

lemma example_signed: "signed_digest example_node example_update_candidate example_document ''sig'' = Inr new_digest"
proof -
  have 1: "nd_verify example_node example_document ''sig''" "nd_versions example_node = example_versions" by (simp_all add: example_node_def)
  have 2: "ensure_manifest_matches example_manifest example_update_candidate = Inr ()"
    by (simp add: ensure_manifest_matches_def example_manifest_def example_update_candidate_def)
  have 3: "checksum_for (cd_asset example_update_candidate) example_manifest = Inr new_digest"
    by (simp add: checksum_for_def example_manifest_def example_update_candidate_def)
  show ?thesis by (simp add: signed_digest_def 1 example_document_utf8 example_parse 2 3)
qed

lemma example_fetches:
  "fetch_document (ev_net example_env) i max_checksum_bytes (cd_checksums_url example_update_candidate) = Inr example_document"
  "fetch_document (ev_net example_env) i max_signature_bytes (cd_signature_url example_update_candidate) = Inr ''sig''"
  "\<exists>us. follow_redirects (ev_net example_env) i max_asset_bytes (cd_asset_url example_update_candidate) = (us, ''new'', Inr ())"
proof -
  have u: "cd_checksums_url example_update_candidate = ''https://github.com/sums''"
    "cd_signature_url example_update_candidate = ''https://github.com/sig''" "cd_asset_url example_update_candidate = ''https://github.com/bin''"
    by (simp_all add: example_update_candidate_def)
  show "fetch_document (ev_net example_env) i max_checksum_bytes (cd_checksums_url example_update_candidate) = Inr example_document"
    unfolding u by (rule one_hop(2) [where net = "ev_net example_env", OF example_urls(2) example_net(1)]) (simp add: example_lengths max_checksum_bytes_def)
  show "fetch_document (ev_net example_env) i max_signature_bytes (cd_signature_url example_update_candidate) = Inr ''sig''"
    unfolding u by (rule one_hop(2) [where net = "ev_net example_env", OF example_urls(3) example_net(2)]) (simp add: max_signature_bytes_def)
  show "\<exists>us. follow_redirects (ev_net example_env) i max_asset_bytes (cd_asset_url example_update_candidate) = (us, ''new'', Inr ())"
    unfolding u by (rule exI, rule one_hop(1) [where net = "ev_net example_env", OF example_urls(1) example_net(3)]) (simp add: max_asset_bytes_def)
qed

lemma example_sig_utf8: "from_utf8 ''sig'' = Inr ''sig''"
  by code_simp

lemma example_good: "good_release example_node example_env example_update_candidate ''new''"
proof -
  have sha: "nd_sha example_node ''new'' = new_digest" by (simp add: example_node_def)
  have run: "ev_run example_env i ''new'' = Inr ''atmux 2 (t)''" for i by (simp add: example_env_def)
  have l: "version_line (nd_target example_node) (ver_show (nd_versions example_node) (cd_version example_update_candidate)) = ''atmux 2 (t)''"
    using example_prints(5) by (simp add: example_node_def example_versions_def example_update_candidate_def)
  have v: "nd_versions example_node = example_versions" by (simp add: example_node_def)
  show ?thesis unfolding good_release_def
    using example_fetches by (auto simp: example_sig_utf8 example_signed sha run l [unfolded v] v example_prints is_ok_def)
qed

lemma example_selects:
  "select_candidate example_versions example_release 1 ''t'' = Inr (Some example_update_candidate)"
  by code_simp

lemma example_releases_url:
  "parse_https_url (releases_url example_node) = Inr \<lparr>url_host = ''api.github.com'', url_target = ''/repos/o/n/releases/latest''\<rparr>"
  by code_simp

lemma example_discover:
  "\<exists>d'. discover example_node example_env sh d
     = (Inr (Some (latest_of example_node example_update_candidate True), Some example_update_candidate), sh, d') \<and> dk_files d' = dk_files d"
proof -
  have 1: "fetch_document (ev_net example_env) i max_metadata_bytes (releases_url example_node) = Inr ''new''" for i
    by (rule one_hop(2) [OF example_releases_url]) (simp_all add: example_net max_metadata_bytes_def)
  have 2: "nd_decode example_node ''new'' = Inr example_release" "nd_versions example_node = example_versions"
    "nd_running example_node = 1" "nd_target example_node = ''t''"
    by (simp_all add: example_node_def)
  show ?thesis by (simp add: discover_def fetch_def 1 2 example_selects [simplified] example_fetches example_sig_utf8 example_signed)
qed

definition example_system :: "nat system" where
  "example_system = \<lparr>sy_node = example_node, sy_shared = shared_default, sy_disk = example_disk, sy_tasks = []\<rparr>"

lemma example_consistent: "consistent example_disk"
  by (simp add: consistent_def example_disk_def)

lemma example_reaches_install:
  "\<exists>s. update_step\<^sup>*\<^sup>* example_system s \<and> Install_task example_update_candidate \<in> set (sy_tasks s)"
proof -
  let ?sh1 = "shared_default\<lparr>sh_phase := Checking\<rparr> :: nat shared"
  let ?s1 = "example_system\<lparr>sy_shared := ?sh1, sy_tasks := [Check_task]\<rparr>"
  have m: "node_mode example_node = Own" by (simp add: node_mode_def example_node_def)
  have "check_begin example_node False 0 shared_default = (Inr (), ?sh1)"
    by (simp add: check_begin_def ensure_actionable_def m shared_default_def)
  then have 1: "update_step example_system ?s1"
    using check_starts [of example_system False 0 ?sh1] by (simp add: example_system_def)
  obtain d where d: "discover example_node example_env ?sh1 example_disk
      = (Inr (Some (latest_of example_node example_update_candidate True), Some example_update_candidate), ?sh1, d)"
    using example_discover by blast
  let ?sh2 = "?sh1\<lparr>sh_phase := Idle, sh_latest := Some (latest_of example_node example_update_candidate True),
     sh_candidate := Some example_update_candidate, sh_error := None\<rparr>"
  let ?s2 = "example_system\<lparr>sy_shared := ?sh2, sy_disk := d, sy_tasks := []\<rparr>"
  have "check_end (Inr (Some (latest_of example_node example_update_candidate True), Some example_update_candidate)) ?sh1 = ?sh2"
    by (simp add: check_end_def shared_default_def)
  then have 2: "update_step ?s1 ?s2"
    using check_ends [of ?s1 example_env, unfolded example_system_def, simplified, OF d] by (simp add: example_system_def)
  let ?s3 = "?s2\<lparr>sy_tasks := [Claim_task]\<rparr>"
  have "apply_preflight example_node True ?sh2 = Inr ()"
    by (simp add: apply_preflight_def ensure_actionable_def m shared_default_def)
  then have 3: "update_step ?s2 ?s3" using apply_starts [of ?s2 True] by (simp add: example_system_def)
  obtain sh3 where "apply_claim ?sh2 = Inr (example_update_candidate, sh3)"
    by (simp add: apply_claim_def latest_of_def shared_default_def)
  then have 4: "update_step ?s3 (?s3\<lparr>sy_shared := sh3, sy_tasks := [Install_task example_update_candidate]\<rparr>)"
    using claimed [of ?s3 example_update_candidate sh3] by simp
  show ?thesis using 1 2 3 4
    by (intro exI [of _ "?s3\<lparr>sy_shared := sh3, sy_tasks := [Install_task example_update_candidate]\<rparr>"]) (auto intro: converse_rtranclp_into_rtranclp)
qed

text \<open>The example system before, and after an update that succeeded.\<close>

lemma example_start: "update_start example_system \<lparr>fi_inode = 1, fi_bytes = ''old''\<rparr>"
  using example_consistent by (simp add: update_start_def example_system_def shared_default_def example_disk_def)

lemma example_install:
  "\<exists>sh' d'. install example_node example_env example_update_candidate sh example_disk = (Inr (), sh', d')"
  by (rule install_ok [OF _ example_consistent _ example_good]) (simp_all add: example_env_def example_disk_def)

definition example_shared :: "nat shared" where
  "example_shared = shared_default\<lparr>sh_latest := Some (latest_of example_node example_update_candidate True),
     sh_candidate := Some example_update_candidate\<rparr>"

lemma example_claim:
  "apply_claim example_shared = Inr (example_update_candidate, example_shared\<lparr>sh_busy := True, sh_phase := Downloading, sh_error := None\<rparr>)"
  by (simp add: apply_claim_def example_shared_def latest_of_def shared_default_def)

section \<open>Properties\<close>







text \<open>
  C27. But a request that fails by itself can lose it. Where hard links are refused and the executable that was renamed aside
  cannot be read, restoring the previous executable ends with an error and does not rename it back: no file is
  left at the path of the executable.
\<close>

theorem unreadable_executable_is_lost:
  assumes "dk_files d Exe = Some f" and "dk_files d Rolled = None" and "\<not> ev_ok ev (dk_clock d + 1)"
    and "ev_ok ev (dk_clock d + 2)" and "\<not> ev_ok ev (dk_clock d + 3)"
  shows "\<exists>e d'. restore_previous sha ev d = (Inl e, d') \<and> dk_files d' Exe = None \<and> dk_files d' Rolled = Some f"
proof -
  let ?d1 = "tick 1 d" and ?d2 = "tick 1 (tick 1 d)"
  let ?d3 = "set_file Exe None (set_file Rolled (Some f) (tick 1 ?d2))"
  have "remove_file ev Rolled d = (False, ?d1)" using assms(2) by (simp add: remove_file_def request_def)
  moreover have "hard_link ev Exe Rolled ?d1 = (False, ?d2)" using assms(3) by (simp add: hard_link_def request_def)
  moreover have "rename_file ev Exe Rolled ?d2 = (True, ?d3)" using assms(1,2,4) by (simp add: rename_file_def request_def)
  ultimately have a: "set_aside ev Rolled d = (False, True, ?d3)" by (simp add: set_aside_def)
  have "\<exists>e d'. file_sha256 sha ev Rolled ?d3 = (Inl e, d') \<and> dk_files d' = dk_files ?d3"
    using assms(5) by (simp add: file_sha256_def request_def numeral_3_eq_3)
  then show ?thesis by (auto simp: restore_previous_def a and_do_def)
qed

lemma unreadable_executable_is_lost_witness:
  "\<exists>e d'. restore_previous (\<lambda>b. b) (example_env\<lparr>ev_ok := (\<lambda>n. n = 2)\<rparr>) example_disk = (Inl e, d') \<and> dk_files d' Exe = None
     \<and> dk_files d' Rolled = Some \<lparr>fi_inode = 1, fi_bytes = ''old''\<rparr>"
  by (rule unreadable_executable_is_lost) (simp_all add: example_disk_def)

text \<open>
  C22. A rollback undoes an update. After an update has succeeded, and whatever happened to the shared state since, a
  rollback for which every request works and whose program prints a version succeeds, brings back the very file
  that ran before, keeps the update as the previous one, and records its digest for the way forward.
\<close>

theorem rollback_undoes_update:
  assumes "install nd ev c sh d = (Inr (), sh1, d1)" and "consistent d" and "dk_files d Exe = Some f"
    and "\<forall>n. ev_ok ev2 n" and "\<forall>i. ev_run ev2 i (fi_bytes f) = Inr out"
    and "parse_version_line (nd_versions nd2) (trim_text out) = Inr v" and "nd_sha nd2 = nd_sha nd"
  shows "\<exists>sh3 d2 g s. install_rollback nd2 ev2 sh2 d1 = (Inr (), sh3, d2) \<and> dk_files d1 Exe = Some g \<and> dk_files d2 Exe = Some f
    \<and> dk_files d2 Prev = Some g \<and> dk_state d2 = Some s \<and> ps_sha256 s = Some (nd_sha nd (fi_bytes g))"
proof -
  obtain g s where i: "dk_files d1 Exe = Some g" "dk_files d1 Prev = Some f" "fi_inode f \<noteq> fi_inode g"
    "dk_state d1 = Some s" "ps_sha256 s = Some (nd_sha nd (fi_bytes f))"
    using install_effect(7) [OF assms(1,2) refl] assms(3) by auto
  have c1: "consistent d1" by (rule install_effect(1) [OF assms(1,2)])
  have s1: "ps_sha256 s = Some (nd_sha nd2 (fi_bytes f))" using i(5) assms(7) by simp
  have e1: "dk_files d1 Exe \<noteq> None" using i(1) by simp
  obtain sh3 d2 where r: "install_rollback nd2 ev2 sh2 d1 = (Inr (), sh3, d2)"
    using rollback_ok [OF assms(4) c1 e1 i(2,4) s1 assms(5,6)] by blast
  have n: "\<not> same_file (dk_files d1 Exe) (dk_files d1 Prev)" using i(1,2,3) by (simp add: same_file_def)
  have "dk_files d2 Exe = Some f" "dk_files d2 Prev = Some g"
    "\<exists>s. dk_state d2 = Some s \<and> ps_sha256 s = Some (nd_sha nd (fi_bytes g))"
    using rollback_effect(7) [OF r c1 refl n] i(1,2) assms(7) by auto
  then show ?thesis using r i(1) by blast
qed

lemma rollback_undoes_update_witness:
  "\<exists>sh1 d1 sh2 d2. install example_node example_env example_update_candidate shared_default example_disk = (Inr (), sh1, d1)
     \<and> install_rollback example_node example_env sh1 d1 = (Inr (), sh2, d2) \<and> dk_files d2 Exe = Some \<lparr>fi_inode = 1, fi_bytes = ''old''\<rparr>"
proof -
  obtain sh1 d1 where i: "install example_node example_env example_update_candidate shared_default example_disk = (Inr (), sh1, d1)"
    using example_install by blast
  have e: "dk_files example_disk Exe = Some \<lparr>fi_inode = 1, fi_bytes = ''old''\<rparr>" by (simp add: example_disk_def)
  have k: "\<forall>n. ev_ok example_env n" "\<forall>i. ev_run example_env i (fi_bytes \<lparr>fi_inode = 1, fi_bytes = ''old''\<rparr>) = Inr ''atmux 1 (t)''"
    by (simp_all add: example_env_def)
  have v: "parse_version_line (nd_versions example_node) (trim_text ''atmux 1 (t)'') = Inr 1"
    by (simp only: example_prints) (simp add: example_node_def example_prints [simplified])
  show ?thesis using rollback_undoes_update [OF i example_consistent e k v refl] i by blast
qed

text \<open>
  C28. Updating twice loses the way back. After an update has ended, as long as the process has not been replaced, the same
  release can be claimed and installed again; then the executable that ran before the first update is at none
  of the paths any more, and \<open>.prev\<close> holds the new release.
\<close>

theorem second_update_loses_previous:
  assumes "apply_claim sh = Inr (c, sh1)" and "install nd ev c sh1 d = (Inr (), sh2, d1)"
    and "consistent d" and "dk_files d Exe = Some f" and "dk_files d Rolled \<noteq> Some f"
  shows "\<exists>sh3. apply_claim (finish_update (Inr ()) sh2) = Inr (c, sh3)
    \<and> (\<forall>ev2 sh4 d2. install nd ev2 c sh3 d1 = (Inr (), sh4, d2) \<longrightarrow> (\<forall>p. dk_files d2 p \<noteq> Some f))"
proof -
  note a = apply_claim_Inr [OF assms(1)]
  note e = install_effect [OF assms(2,3)]
  let ?sh = "finish_update (Inr ()) sh2"
  obtain l where l: "sh_latest sh = Some l" "lr_verified l" using a(6) by blast
  have "\<not> sh_busy ?sh" "sh_candidate ?sh = Some c" "sh_latest ?sh = Some l"
    using a(4,5) e(3,4) l(1) by (simp_all add: finish_update_def)
  then obtain sh3 where c: "apply_claim ?sh = Inr (c, sh3)" using l(2) by (simp add: apply_claim_def)
  obtain g where i: "dk_files d1 Exe = Some g" "dk_files d1 Prev = Some f" "dk_files d1 Rolled = dk_files d Rolled" "fi_inode f \<noteq> fi_inode g"
    using e(7) [OF refl] assms(4) by auto
  have "dk_files d2 p \<noteq> Some f" if j: "install nd ev2 c sh3 d1 = (Inr (), sh4, d2)" for ev2 sh4 d2 p
  proof -
    obtain h where h: "dk_files d2 Exe = Some h" "dk_files d2 Prev = Some g" "dk_files d2 Staged = None" "dk_files d2 Rolled = dk_files d Rolled"
      "fi_inode g \<noteq> fi_inode h" using install_effect(7) [OF j e(1) refl] i by auto
    have "h \<noteq> f"
    proof
      assume hf: "h = f"
      \<comment> \<open>the new file has an inode of its own, also apart from \<open>.prev\<close>\<close>
      show False using install_fresh [OF j e(1)] h(1) i(2) hf by auto
    qed
    then show ?thesis using h i assms(5) by (cases p) auto
  qed
  then show ?thesis using c by blast
qed

lemma second_update_loses_previous_witness:
  "\<exists>sh1 sh2 d1 sh3 sh4 d2. apply_claim example_shared = Inr (example_update_candidate, sh1)
     \<and> install example_node example_env example_update_candidate sh1 example_disk = (Inr (), sh2, d1)
     \<and> apply_claim (finish_update (Inr ()) sh2) = Inr (example_update_candidate, sh3)
     \<and> install example_node example_env example_update_candidate sh3 d1 = (Inr (), sh4, d2)
     \<and> (\<forall>p. dk_files d2 p \<noteq> Some \<lparr>fi_inode = 1, fi_bytes = ''old''\<rparr>)"
proof -
  let ?sh1 = "example_shared\<lparr>sh_busy := True, sh_phase := Downloading, sh_error := None\<rparr>"
  obtain sh2 d1 where i: "install example_node example_env example_update_candidate ?sh1 example_disk = (Inr (), sh2, d1)"
    using example_install by blast
  have e: "dk_files example_disk Exe = Some \<lparr>fi_inode = 1, fi_bytes = ''old''\<rparr>"
    "dk_files example_disk Rolled \<noteq> Some \<lparr>fi_inode = 1, fi_bytes = ''old''\<rparr>" by (simp_all add: example_disk_def)
  obtain sh3 where c: "apply_claim (finish_update (Inr ()) sh2) = Inr (example_update_candidate, sh3)"
    "\<forall>ev2 sh4 d2. install example_node ev2 example_update_candidate sh3 d1 = (Inr (), sh4, d2) \<longrightarrow> (\<forall>p. dk_files d2 p \<noteq> Some \<lparr>fi_inode = 1, fi_bytes = ''old''\<rparr>)"
    using second_update_loses_previous [OF example_claim i example_consistent e] by blast
  have "\<exists>sh' d'. install example_node example_env example_update_candidate sh3 d1 = (Inr (), sh', d')"
  proof (rule install_ok [OF _ install_effect(1) [OF i example_consistent] _ example_good])
    show "\<forall>n. ev_ok example_env n" by (simp add: example_env_def)
    show "dk_files d1 Exe \<noteq> None" using install_effect(7) [OF i example_consistent refl] by blast
  qed
  then show ?thesis using i c example_claim by blast
qed

text \<open>
  C30. Requests stay on the release hosts: whatever a server answers, a document is asked for at most six times, every
  time on an allowed host, and never more bytes of it are kept than its bound.
\<close>

theorem requests_stay_on_release_hosts:
  "case follow_redirects net i limit start of (urls, bytes, r) \<Rightarrow>
     url_host ` set urls \<subseteq> set allowed_hosts \<and> length urls \<le> 6 \<and> length bytes \<le> limit"
proof -
  obtain urls bytes r where f: "follow_redirects net i limit start = (urls, bytes, r)" by (metis prod.exhaust)
  then have h: "follow_hops 6 net i limit start [] = (urls, bytes, r)" by (simp add: follow_redirects_def max_redirects_def)
  have w: "length b \<le> limit \<Longrightarrow> length (fst (write_chunks limit cs b)) \<le> limit" for cs b
    by (induction cs arbitrary: b) auto
  have "length b \<le> limit \<Longrightarrow> length (fst (snd (follow_hops k net i limit start b))) \<le> limit" for k i start b
  proof (induction k arbitrary: i start b)
    case (Suc k)
    show ?case
    proof (cases "parse_https_url start")
      case (Inl e)
      then show ?thesis using Suc.prems by simp
    next
      case (Inr u)
      obtain b1 x where x: "write_chunks limit (hop_chunks (net i u)) b = (b1, x)" by (rule prod.exhaust)
      then have "length b1 \<le> limit" using w [OF Suc.prems, of "hop_chunks (net i u)"] by simp
      then show ?thesis using Inr x Suc.IH
        by (auto simp: Let_def split: sum.splits option.splits prod.splits) (metis fst_conv snd_conv)+
    qed
  qed simp
  then have "length bytes \<le> limit" using h by (metis fst_conv snd_conv le0 list.size(3))
  then show ?thesis using follow_hops_hosts [OF h] f by auto
qed

text \<open>
  C40. A manifest that parses is well formed: it lists at least one asset, no asset twice or without a name, and every
  digest is 64 lower-case hexadecimal characters.
\<close>

theorem manifest_well_formed:
  assumes "manifest_parse vs document = Inr m"
  shows "man_entries m \<noteq> [] \<and> distinct (map fst (man_entries m)) \<and> [] \<notin> set (map fst (man_entries m))
    \<and> list_all (\<lambda>e. length (snd e) = 64 \<and> list_all (\<lambda>c. is_ascii_digit c \<or> 97 \<le> byte_of c \<and> byte_of c \<le> 102) (snd e)) (man_entries m)"
  using manifest_parse_entries [OF assms] by (auto simp: entries_ok_def list_all_iff)

lemma manifest_well_formed_witness:
  "man_entries example_manifest \<noteq> [] \<and> distinct (map fst (man_entries example_manifest))"
  using manifest_well_formed [OF example_parse] by simp

end
