(* ===== verification/Workspace_Paths.thy ===== *)
theory Workspace_Paths
  imports Release_Manifest "HOL-Library.Sublist"
begin

text \<open>
  The project files a browser may name, list and read, from \<open>src/src/workspace.rs\<close>: relative paths and the names that
  are never shown, bounded text, the listing of a directory and the reading of a file. What a directory
  scan and a read return is an argument. Of the text functions, Unicode lower case is a parameter.
\<close>

section \<open>Errors and bounds\<close>

datatype workspace_error_kind = Ws_invalid | Ws_not_found | Ws_conflict | Ws_internal

record workspace_error =
  we_kind :: workspace_error_kind
  we_message :: string

type_synonym 'a workspace_result = "workspace_error + 'a"

definition ws_invalid :: "string \<Rightarrow> workspace_error" where "ws_invalid m = \<lparr>we_kind = Ws_invalid, we_message = m\<rparr>"
definition ws_not_found :: "string \<Rightarrow> workspace_error" where "ws_not_found m = \<lparr>we_kind = Ws_not_found, we_message = m\<rparr>"
definition ws_conflict :: "string \<Rightarrow> workspace_error" where "ws_conflict m = \<lparr>we_kind = Ws_conflict, we_message = m\<rparr>"
definition ws_internal :: "string \<Rightarrow> workspace_error" where "ws_internal m = \<lparr>we_kind = Ws_internal, we_message = m\<rparr>"

lemma we_kind_simps [simp]:
  "we_kind (ws_invalid m) = Ws_invalid" "we_kind (ws_not_found m) = Ws_not_found"
  "we_kind (ws_conflict m) = Ws_conflict" "we_kind (ws_internal m) = Ws_internal"
  by (simp_all add: ws_invalid_def ws_not_found_def ws_conflict_def ws_internal_def)

definition max_relative_path_bytes :: nat where "max_relative_path_bytes = 4096"
definition max_directory_scan_entries :: nat where "max_directory_scan_entries = 4096"
definition max_directory_entries :: nat where "max_directory_entries = 512"
definition max_directory_path_bytes :: nat where "max_directory_path_bytes = 320 * 1024"
definition max_file_bytes :: nat where "max_file_bytes = 256 * 1024"

section \<open>Paths\<close>

text \<open>
  \<open>Path::components\<close>: repeated separators and a \<open>.\<close> that is not at the front are skipped. A path without any other
  component than names is kept as the list of its names.
\<close>

datatype path_component = Root_dir | Cur_dir | Parent_dir | Normal string

fun path_parts :: "string \<Rightarrow> string list" where
  "path_parts [] = [[]]"
| "path_parts (c # cs) = (if c = CHR ''/'' then [] # path_parts cs
     else case path_parts cs of p # ps \<Rightarrow> (c # p) # ps | [] \<Rightarrow> [[c]])"

definition inner_component :: "string \<Rightarrow> path_component list" where
  "inner_component p = (if p = [] \<or> p = ''.'' then [] else if p = ''..'' then [Parent_dir] else [Normal p])"

definition is_absolute :: "string \<Rightarrow> bool" where
  "is_absolute value = starts_with ''/'' value"

definition path_components :: "string \<Rightarrow> path_component list" where
  "path_components value =
     (case path_parts value of
        [] \<Rightarrow> []
      | p # ps \<Rightarrow> (if is_absolute value then [Root_dir] else if p = ''.'' then [Cur_dir] else inner_component p)
          @ concat (map inner_component ps))"

definition normal_name :: "path_component \<Rightarrow> string option" where
  "normal_name c = (case c of Normal n \<Rightarrow> Some n | _ \<Rightarrow> None)"

definition validate_relative_path :: "string \<Rightarrow> bool \<Rightarrow> string list workspace_result" where
  "validate_relative_path value allow_empty =
     (if max_relative_path_bytes < length value \<or> char_of (0::nat) \<in> set value \<or> has_control value
      then Inl (ws_invalid ''path is oversized or contains control characters'')
      else if value = [] then (if allow_empty then Inr [] else Inl (ws_invalid ''path must be relative and non-empty''))
      else if is_absolute value \<or> (\<exists>c \<in> set (path_components value). normal_name c = None)
      then Inl (ws_invalid ''path must contain only relative file-name components'')
      else Inr (List.map_filter normal_name (path_components value)))"

definition safe_component :: "string \<Rightarrow> bool" where
  "safe_component c \<longleftrightarrow> c \<noteq> [] \<and> c \<noteq> ''.'' \<and> c \<noteq> ''..'' \<and> \<not> has_control c"

definition ends_with :: "string \<Rightarrow> string \<Rightarrow> bool" where
  "ends_with pat s \<longleftrightarrow> starts_with (rev pat) (rev s)"

text \<open>\<open>Path::extension\<close> of a name: what follows the last dot, unless that dot is at the front.\<close>

definition name_extension :: "string \<Rightarrow> string option" where
  "name_extension name =
     (let tail = takeWhile (\<lambda>c. c \<noteq> CHR ''.'') (rev name)
      in if length name \<le> Suc (length tail) then None else Some (rev tail))"

definition secret_names :: "string list" where
  "secret_names = [''.git'', ''.ssh'', ''.aws'', ''.gnupg'', ''.kube'', ''.npmrc'', ''.pypirc'', ''.netrc'', ''id_rsa'', ''id_ed25519'']"

definition edit_prefix :: string where "edit_prefix = ''.atmux-edit-''"

definition sensitive_component :: "string \<Rightarrow> bool" where
  "sensitive_component component =
     (let lower = ascii_lower component
      in if starts_with edit_prefix lower then True
         else if lower \<in> set secret_names then True
         else if lower = ''.env'' \<or> starts_with ''.env.'' lower
         then \<not> list_ex (\<lambda>s. ends_with s lower) [''.example'', ''.sample'', ''.template'']
         else (case name_extension lower of None \<Rightarrow> False | Some e \<Rightarrow> e \<in> set [''pem'', ''key'', ''p12'', ''pfx'']))"

fun ensure_visible_path :: "string list \<Rightarrow> unit workspace_result" where
  "ensure_visible_path [] = Inr ()"
| "ensure_visible_path (c # cs) =
     (if \<not> safe_component c \<or> sensitive_component c then Inl (ws_not_found ''project path was not found'') else ensure_visible_path cs)"

fun path_for_response :: "string list \<Rightarrow> string" where
  "path_for_response [] = []"
| "path_for_response [c] = c"
| "path_for_response (c # d # cs) = c @ CHR ''/'' # path_for_response (d # cs)"

definition languages :: "(string \<times> string) list" where
  "languages = [(''rs'', ''rust''), (''js'', ''javascript''), (''mjs'', ''javascript''), (''cjs'', ''javascript''),
     (''ts'', ''typescript''), (''mts'', ''typescript''), (''cts'', ''typescript''), (''tsx'', ''tsx''), (''jsx'', ''jsx''),
     (''py'', ''python''), (''rb'', ''ruby''), (''go'', ''go''), (''java'', ''java''), (''kt'', ''kotlin''), (''kts'', ''kotlin''),
     (''c'', ''c''), (''h'', ''c''), (''cc'', ''cpp''), (''cpp'', ''cpp''), (''cxx'', ''cpp''), (''hpp'', ''cpp''), (''cs'', ''csharp''),
     (''sh'', ''shell''), (''bash'', ''shell''), (''zsh'', ''shell''), (''json'', ''json''), (''toml'', ''toml''), (''yaml'', ''yaml''),
     (''yml'', ''yaml''), (''xml'', ''xml''), (''html'', ''html''), (''htm'', ''html''), (''css'', ''css''), (''scss'', ''scss''),
     (''sql'', ''sql''), (''md'', ''markdown''), (''markdown'', ''markdown''), (''diff'', ''diff''), (''patch'', ''diff''),
     (''graphql'', ''graphql''), (''gql'', ''graphql''), (''proto'', ''protobuf'')]"

definition language_hint :: "string list \<Rightarrow> string option" where
  "language_hint path =
     (if path = [] then None
      else let name = ascii_lower (last path)
        in if name = ''dockerfile'' then Some ''dockerfile''
           else if name = ''makefile'' then Some ''makefile''
           else if name = ''cargo.toml'' \<or> name = ''cargo.lock'' then Some ''toml''
           else if name = ''.gitignore'' \<or> name = ''.gitattributes'' then Some ''gitignore''
           else (case name_extension (last path) of
               None \<Rightarrow> None
             | Some e \<Rightarrow> (case map_of languages (ascii_lower e) of Some l \<Rightarrow> Some l | None \<Rightarrow> Some ''text'')))"

section \<open>Text\<close>

definition binary_byte :: "char \<Rightarrow> bool" where
  "binary_byte c \<longleftrightarrow> byte_of c < 32 \<and> byte_of c \<noteq> 10 \<and> byte_of c \<noteq> 13 \<and> byte_of c \<noteq> 9"

text \<open>
  The longest valid prefix, and whether the rest is only cut off: \<open>error_len().is_none()\<close> says that the input ended in
  the middle of a character that could still become valid.
\<close>

definition second_byte_ok :: "nat \<Rightarrow> nat \<Rightarrow> bool" where
  "second_byte_ok b c \<longleftrightarrow> utf8_tail c \<and> (b = 224 \<longrightarrow> 160 \<le> c) \<and> (b = 237 \<longrightarrow> c < 160) \<and> (b = 240 \<longrightarrow> 144 \<le> c) \<and> (b = 244 \<longrightarrow> c < 144)"

definition utf8_cut_off :: "nat list \<Rightarrow> bool" where
  "utf8_cut_off bs =
     (case bs of
        [b] \<Rightarrow> 194 \<le> b \<and> b < 245
      | [b, c] \<Rightarrow> 224 \<le> b \<and> b < 245 \<and> second_byte_ok b c
      | [b, c, d] \<Rightarrow> 240 \<le> b \<and> b < 245 \<and> second_byte_ok b c \<and> utf8_tail d
      | _ \<Rightarrow> False)"

definition cut_text :: "string \<Rightarrow> string option" where
  "cut_text bytes =
     (case find (\<lambda>k. utf8_valid (map byte_of (take (length bytes - k) bytes)) \<and> utf8_cut_off (map byte_of (drop (length bytes - k) bytes))) [1, 2, 3] of
        None \<Rightarrow> None
      | Some k \<Rightarrow> Some (take (length bytes - k) bytes))"

definition bounded_text :: "string \<Rightarrow> bool \<Rightarrow> string \<times> bool" where
  "bounded_text bytes was_truncated =
     (if list_ex binary_byte bytes then ([], True)
      else if utf8_valid (map byte_of bytes) then (bytes, False)
      else case (if was_truncated then cut_text bytes else None) of Some t \<Rightarrow> (t, False) | None \<Rightarrow> ([], True))"

definition line_count :: "string \<Rightarrow> nat" where
  "line_count bytes = (if bytes = [] then 0
     else Suc (length (filter (\<lambda>c. c = newline) bytes)) - (if last bytes = newline then 1 else 0))"

definition validate_edit_content :: "string \<Rightarrow> unit workspace_result" where
  "validate_edit_content bytes =
     (if max_file_bytes < length bytes then Inl (ws_invalid ''file content exceeds 256 KiB'')
      else if list_ex binary_byte bytes then Inl (ws_invalid ''file content must be UTF-8 text without NUL bytes'')
      else Inr ())"

definition validate_content_hash :: "string \<Rightarrow> unit workspace_result" where
  "validate_content_hash value =
     (if length value \<noteq> 64 \<or> \<not> list_all (\<lambda>c. is_ascii_digit c \<or> 97 \<le> byte_of c \<and> byte_of c \<le> 102) value
      then Inl (ws_invalid ''expected_hash must be a lowercase SHA-256 hash'') else Inr ())"

section \<open>Listing and reading\<close>

datatype file_type = Regular | Directory_type | Symlink | Other_type

datatype file_entry_kind = Directory_entry | File_entry

record file_entry =
  fe_name :: string
  fe_path :: string
  fe_kind :: file_entry_kind
  fe_size :: "nat option"
  fe_modified :: "nat option"

datatype files_response =
    Directory_response string "file_entry list" bool
  | File_response string string "string option" nat bool bool "string option" "nat option"

text \<open>A scanned entry: its name where it is valid UTF-8, and what \<open>statat\<close> answered for it; \<open>None\<close> is a failed read.\<close>

type_synonym scanned = "(string option \<times> (file_type \<times> nat) option) option"

definition scan_entry :: "string list \<Rightarrow> scanned \<Rightarrow> file_entry option" where
  "scan_entry relative s =
     (case s of
        None \<Rightarrow> None
      | Some (None, stat) \<Rightarrow> None
      | Some (Some name, stat) \<Rightarrow>
          if name = ''.'' \<or> name = ''..'' then None
          else if \<not> safe_component name \<or> sensitive_component name then None
          else if \<not> is_ok (ensure_visible_path (relative @ [name])) then None
          else (case stat of
              None \<Rightarrow> None
            | Some (ty, len) \<Rightarrow>
                (case (case ty of Directory_type \<Rightarrow> Some Directory_entry | Regular \<Rightarrow> Some File_entry | _ \<Rightarrow> None) of
                   None \<Rightarrow> None
                 | Some k \<Rightarrow> Some \<lparr>fe_name = name, fe_path = path_for_response (relative @ [name]), fe_kind = k,
                     fe_size = (if k = File_entry then Some len else None), fe_modified = None\<rparr>)))"

definition entry_order :: "(string \<Rightarrow> string) \<Rightarrow> file_entry \<Rightarrow> bool \<times> string \<times> string" where
  "entry_order lower e = (fe_kind e \<noteq> Directory_entry, lower (fe_name e), fe_name e)"

text \<open>\<open>retain\<close> with its running count: an entry that does not fit is dropped, a later and shorter one may still fit.\<close>

fun fit_paths :: "nat \<Rightarrow> file_entry list \<Rightarrow> file_entry list \<times> bool" where
  "fit_paths used [] = ([], False)"
| "fit_paths used (e # es) =
     (let n = length (fe_name e) + length (fe_path e)
      in if max_directory_path_bytes < used + n then (let (r, t) = fit_paths used es in (r, True))
         else (let (r, t) = fit_paths (used + n) es in (e # r, t)))"

definition list_directory :: "(string \<Rightarrow> string) \<Rightarrow> string list \<Rightarrow> scanned list \<Rightarrow> files_response" where
  "list_directory lower relative scan =
     (let entries = sort_key (entry_order lower) (List.map_filter (scan_entry relative) (take max_directory_scan_entries scan));
          (kept, cut) = fit_paths 0 (take max_directory_entries entries)
      in Directory_response (path_for_response relative) kept
           (max_directory_scan_entries < length scan \<or> max_directory_entries < length entries \<or> cut))"

text \<open>The bytes are what at most one byte more than the bound could be read; the size is that of the earlier \<open>stat\<close>.\<close>

definition read_file :: "(string \<Rightarrow> string) \<Rightarrow> string list \<Rightarrow> string \<Rightarrow> nat \<Rightarrow> files_response" where
  "read_file sha relative content len =
     (let taken = take (max_file_bytes + 1) content;
          truncated = (max_file_bytes < len \<or> max_file_bytes < length taken);
          bytes = take max_file_bytes taken;
          (shown, binary) = bounded_text bytes truncated;
          editable = (\<not> truncated \<and> \<not> binary)
      in File_response (path_for_response relative) shown (language_hint relative) len truncated binary
           (if editable then Some (sha bytes) else None) (if editable then Some (line_count bytes) else None))"

section \<open>What is shown\<close>

lemma path_parts_no_slash: "p \<in> set (path_parts s) \<Longrightarrow> CHR ''/'' \<notin> set p"
  by (induction s arbitrary: p rule: path_parts.induct) (auto split: if_splits list.splits)

lemma ensure_visible_iff: "is_ok (ensure_visible_path cs) \<longleftrightarrow> (\<forall>c \<in> set cs. safe_component c \<and> \<not> sensitive_component c)"
  by (induction cs) auto

text \<open>A name of a valid relative path is one component: nothing in it leads to another directory.\<close>

lemma path_component_names:
  assumes "Normal n \<in> set (path_components value)" "\<not> is_absolute value"
  shows "n \<noteq> [] \<and> n \<noteq> ''.'' \<and> n \<noteq> ''..'' \<and> CHR ''/'' \<notin> set n"
proof -
  have "path_parts value \<noteq> []" by (cases "value") (auto split: list.splits)
  then obtain p ps where ps: "path_parts value = p # ps" by (cases "path_parts value") auto
  have "\<exists>q \<in> set (p # ps). Normal n \<in> set (inner_component q)"
    using assms ps by (auto simp: path_components_def split: if_splits)
  then obtain q where q: "q \<in> set (path_parts value)" "Normal n \<in> set (inner_component q)" using ps by auto
  then have "n = q" "q \<noteq> []" "q \<noteq> ''.''" "q \<noteq> ''..''" by (auto simp: inner_component_def split: if_splits)
  then show ?thesis using path_parts_no_slash [OF q(1)] by simp
qed

lemma valid_path_names:
  assumes "validate_relative_path value e = Inr names" "n \<in> set names"
  shows "n \<noteq> [] \<and> n \<noteq> ''.'' \<and> n \<noteq> ''..'' \<and> CHR ''/'' \<notin> set n"
proof -
  have "value \<noteq> []" "\<not> is_absolute value" "names = List.map_filter normal_name (path_components value)"
    using assms by (auto simp: validate_relative_path_def split: if_splits)
  then have "Normal n \<in> set (path_components value)" using assms(2)
    by (auto simp: List.map_filter_def normal_name_def split: path_component.splits)
  then show ?thesis using path_component_names \<open>\<not> is_absolute value\<close> by blast
qed

lemma scan_entry_Some:
  assumes "scan_entry relative s = Some e"
  shows "safe_component (fe_name e)" "\<not> sensitive_component (fe_name e)" "fe_path e = path_for_response (relative @ [fe_name e])"
  using assms by (auto simp: scan_entry_def split: option.splits if_splits file_type.splits)

definition path_cost :: "file_entry \<Rightarrow> nat" where
  "path_cost e = length (fe_name e) + length (fe_path e)"

lemma fit_paths_Cons:
  "fst (fit_paths used (e # es)) = (if max_directory_path_bytes < used + path_cost e then fst (fit_paths used es)
     else e # fst (fit_paths (used + path_cost e) es))"
  "snd (fit_paths used (e # es)) \<longleftrightarrow> max_directory_path_bytes < used + path_cost e \<or> snd (fit_paths (used + path_cost e) es)"
  by (simp_all add: path_cost_def Let_def split: prod.splits)

lemma fit_paths_bound: "used \<le> max_directory_path_bytes \<Longrightarrow> used + sum_list (map path_cost (fst (fit_paths used es))) \<le> max_directory_path_bytes"
proof (induction es arbitrary: used)
  case (Cons e es)
  show ?case
  proof (cases "max_directory_path_bytes < used + path_cost e")
    case True
    then show ?thesis using Cons unfolding fit_paths_Cons by simp
  next
    case False
    then show ?thesis using Cons.IH [of "used + path_cost e"] unfolding fit_paths_Cons by (simp add: add.assoc)
  qed
qed simp

lemma fit_paths_subseq: "subseq (fst (fit_paths used es)) es"
proof (induction es arbitrary: used)
  case (Cons e es)
  then show ?case unfolding fit_paths_Cons by auto
qed simp

lemma fit_paths_all: "\<not> snd (fit_paths used es) \<Longrightarrow> fst (fit_paths used es) = es"
proof (induction es arbitrary: used)
  case (Cons e es)
  then show ?case unfolding fit_paths_Cons by auto
qed simp

lemma subseq_subset: "subseq xs ys \<Longrightarrow> set xs \<subseteq> set ys"
  by (auto dest: list_emb_set)

lemma sorted_subseq: "subseq xs ys \<Longrightarrow> sorted_wrt r ys \<Longrightarrow> sorted_wrt r xs"
  by (induction rule: list_emb.induct) (auto dest: list_emb_set)

text \<open>
  C37. A listing is bounded and honest: at most 512 entries and 320 KiB of names and paths, directories first and
  then by name, never a hidden or an unsafe name; and unless it says that it is truncated, every entry of the
  scan that may be shown is in it.
\<close>

theorem listing_is_bounded_and_honest:
  assumes "list_directory lower relative scan = Directory_response p es t"
  shows "length es \<le> 512 \<and> sum_list (map path_cost es) \<le> 327680 \<and> sorted (map (entry_order lower) es)
    \<and> list_all (\<lambda>e. safe_component (fe_name e) \<and> \<not> sensitive_component (fe_name e)) es
    \<and> (t \<or> set es = set (List.map_filter (scan_entry relative) scan))"
proof -
  let ?seen = "List.map_filter (scan_entry relative) (take max_directory_scan_entries scan)"
  let ?entries = "sort_key (entry_order lower) ?seen"
  let ?fit = "fit_paths 0 (take max_directory_entries ?entries)"
  have es: "es = fst ?fit" and t: "t \<longleftrightarrow> max_directory_scan_entries < length scan \<or> max_directory_entries < length ?entries \<or> snd ?fit"
    using assms by (simp_all add: list_directory_def Let_def split: prod.splits)
  have sub: "subseq es ?entries"
    using fit_paths_subseq [of 0 "take max_directory_entries ?entries"] es by (metis subseq_order.trans prefix_imp_subseq take_is_prefix)
  have inset: "set es \<subseteq> set ?seen" using subseq_subset [OF sub] by simp
  have "length es \<le> length (take max_directory_entries ?entries)" unfolding es by (rule list_emb_length [OF fit_paths_subseq])
  then have len: "length es \<le> 512" by (simp add: max_directory_entries_def)
  have cost: "sum_list (map path_cost es) \<le> 327680"
    using fit_paths_bound [of 0 "take max_directory_entries ?entries"] es by (simp add: max_directory_path_bytes_def)
  have sorted: "sorted (map (entry_order lower) es)"
    by (rule sorted_subseq [OF subseq_map [OF sub]]) (rule sorted_sort_key)
  have "safe_component (fe_name e) \<and> \<not> sensitive_component (fe_name e)" if "e \<in> set es" for e
    using inset that scan_entry_Some(1,2) by (fastforce simp: List.map_filter_def)
  moreover have "t \<or> set es = set (List.map_filter (scan_entry relative) scan)"
  proof (cases t)
    case False
    then have n: "\<not> max_directory_scan_entries < length scan" "\<not> max_directory_entries < length ?entries" "\<not> snd ?fit" using t by blast+
    have "es = take max_directory_entries ?entries" using fit_paths_all [OF n(3)] es by simp
    moreover have "take max_directory_entries ?entries = ?entries" by (rule take_all) (use n(2) in linarith)
    ultimately have "set es = set ?seen" by simp
    moreover have "take max_directory_scan_entries scan = scan" by (rule take_all) (use n(1) in linarith)
    ultimately show ?thesis by simp
  qed simp
  ultimately show ?thesis using len cost sorted by (simp add: list_all_iff)
qed

definition example_scan :: "scanned list" where
  "example_scan = [Some (Some ''b.rs'', Some (Regular, 3)), Some (Some ''.git'', Some (Directory_type, 0)),
     Some (Some ''a'', Some (Directory_type, 0)), Some (None, None)]"

definition example_entries :: "file_entry list" where
  "example_entries = [\<lparr>fe_name = ''a'', fe_path = ''src/a'', fe_kind = Directory_entry, fe_size = None, fe_modified = None\<rparr>,
     \<lparr>fe_name = ''b.rs'', fe_path = ''src/b.rs'', fe_kind = File_entry, fe_size = Some 3, fe_modified = None\<rparr>]"

lemma example_listing: "list_directory ascii_lower [''src''] example_scan = Directory_response ''src'' example_entries False"
proof -
  have 1: "take max_directory_scan_entries example_scan = example_scan" "\<not> max_directory_scan_entries < length example_scan"
    by (simp_all add: max_directory_scan_entries_def example_scan_def)
  have 2: "sort_key (entry_order ascii_lower) (List.map_filter (scan_entry [''src'']) example_scan) = example_entries" by code_simp
  have 3: "take max_directory_entries example_entries = example_entries" "\<not> max_directory_entries < length example_entries"
    by (simp_all add: max_directory_entries_def example_entries_def)
  have 4: "fit_paths 0 example_entries = (example_entries, False)" by (simp add: example_entries_def max_directory_path_bytes_def)
  show ?thesis unfolding list_directory_def Let_def 1(1) 2 3(1) 4 using 1(2) 3(2) by simp
qed

lemma listing_is_bounded_and_honest_witness:
  "list_all (\<lambda>e. \<not> sensitive_component (fe_name e)) example_entries \<and> set example_entries = set (List.map_filter (scan_entry [''src'']) example_scan)"
  using listing_is_bounded_and_honest [OF example_listing] by (simp add: list_all_iff)

end
