(* ===== verification/Workspace_Edit.thy ===== *)
theory Workspace_Edit
  imports Workspace_Paths "HOL-Library.AList"
begin

text \<open>
  Saving an edited project file, \<open>write_file\<close> of \<open>src/src/workspace.rs\<close>: the file is read and compared with what the
  client saw, the new text is prepared in a hidden file beside it, and the two names are exchanged; what
  comes back under the hidden name is checked, and put back when it is not the file that was read. Other
  programs act on the file between any two requests. The directory is one table of names; a file is an
  entry of a list, so that its inode number can be given to another file once nobody holds it.
\<close>

section \<open>The directory\<close>

record file_node =
  fn_dev :: nat
  fn_ino :: nat
  fn_type :: file_type
  fn_uid :: nat
  fn_gid :: nat
  fn_mode :: nat
  fn_nlink :: nat
  fn_bytes :: string
  fn_xattrs :: "(string \<times> string) list"
  fn_mtime :: nat
  fn_ctime :: nat

datatype edit_name = Target | Temp nat

text \<open>
  \<open>ew_newest\<close> and \<open>ew_accepted\<close> only record what happened: the file that others put at the target last, and the
  displaced file that was accepted, as it was then.
\<close>

record edit_world =
  ew_files :: "file_node list"
  ew_names :: "edit_name \<Rightarrow> nat option"
  ew_held :: "nat list"
  ew_sequence :: nat
  ew_clock :: nat
  ew_newest :: "nat option"
  ew_accepted :: "(nat \<times> file_node) option"

text \<open>Another program replaces the target by a new file, removes it, or writes into a file in place.\<close>

datatype outside = Replace file_node | Remove | Change nat file_node

record edit_env =
  xe_ok :: "nat \<Rightarrow> bool"
  xe_others :: "nat \<Rightarrow> outside list"
  xe_walk :: "nat \<Rightarrow> nat option"    \<comment> \<open>the directory the path leads to\<close>
  xe_keeps_numbers :: bool    \<comment> \<open>no inode number is used twice\<close>
  xe_created :: file_node    \<comment> \<open>owner, group and attributes a new file gets\<close>
  xe_euid :: nat
  xe_sha :: "string \<Rightarrow> string"

definition number :: "file_node \<Rightarrow> nat \<times> nat" where
  "number f = (fn_dev f, fn_ino f)"

definition in_use :: "edit_world \<Rightarrow> nat \<Rightarrow> bool" where
  "in_use w i \<longleftrightarrow> i \<in> set (ew_held w) \<or> list_ex (\<lambda>n. ew_names w n = Some i) (Target # map Temp [0..<ew_sequence w])"

definition number_free :: "bool \<Rightarrow> edit_world \<Rightarrow> file_node \<Rightarrow> bool" where
  "number_free keeps w f \<longleftrightarrow>
     list_all (\<lambda>i. number (ew_files w ! i) = number f \<longrightarrow> \<not> keeps \<and> \<not> in_use w i) [0..<length (ew_files w)]"

fun act :: "bool \<Rightarrow> outside \<Rightarrow> edit_world \<Rightarrow> edit_world" where
  "act keeps (Replace f) w =
     (if number_free keeps w f
      then w\<lparr>ew_files := ew_files w @ [f], ew_names := (ew_names w)(Target := Some (length (ew_files w))), ew_newest := Some (length (ew_files w))\<rparr>
      else w)"
| "act keeps Remove w = w\<lparr>ew_names := (ew_names w)(Target := None), ew_newest := None\<rparr>"
| "act keeps (Change i f) w =
     (if i < length (ew_files w)
      then let g = ew_files w ! i
        in w\<lparr>ew_files := (ew_files w)[i := f\<lparr>fn_dev := fn_dev g, fn_ino := fn_ino g, fn_type := fn_type g, fn_ctime := Suc (fn_ctime g)\<rparr>]\<rparr>
      else w)"

definition pass :: "edit_env \<Rightarrow> edit_world \<Rightarrow> edit_world" where
  "pass ev w = (fold (act (xe_keeps_numbers ev)) (xe_others ev (ew_clock w)) w)\<lparr>ew_clock := Suc (ew_clock w)\<rparr>"

definition ask :: "edit_env \<Rightarrow> edit_world \<Rightarrow> bool \<times> edit_world" where
  "ask ev w = (xe_ok ev (ew_clock w), pass ev w)"

section \<open>Requests\<close>

definition stat_name :: "edit_env \<Rightarrow> edit_name \<Rightarrow> edit_world \<Rightarrow> file_node option \<times> edit_world" where
  "stat_name ev n w =
     (case ask ev w of (ok, w1) \<Rightarrow> (if ok then map_option (\<lambda>i. ew_files w1 ! i) (ew_names w1 n) else None, w1))"

definition stat_file :: "edit_env \<Rightarrow> nat \<Rightarrow> edit_world \<Rightarrow> file_node option \<times> edit_world" where
  "stat_file ev i w = (case ask ev w of (ok, w1) \<Rightarrow> (if ok then Some (ew_files w1 ! i) else None, w1))"

definition hold :: "nat \<Rightarrow> edit_world \<Rightarrow> edit_world" where
  "hold i w = w\<lparr>ew_held := i # ew_held w\<rparr>"

definition close_file :: "nat \<Rightarrow> edit_world \<Rightarrow> edit_world" where
  "close_file i w = w\<lparr>ew_held := remove1 i (ew_held w)\<rparr>"

text \<open>A symbolic link is not followed.\<close>

definition open_at :: "edit_env \<Rightarrow> edit_name \<Rightarrow> edit_world \<Rightarrow> nat option \<times> edit_world" where
  "open_at ev n w =
     (case ask ev w of (ok, w1) \<Rightarrow>
        (case ew_names w1 n of
           Some i \<Rightarrow> if ok \<and> fn_type (ew_files w1 ! i) \<noteq> Symlink then (Some i, hold i w1) else (None, w1)
         | None \<Rightarrow> (None, w1)))"

definition exchange_files :: "edit_env \<Rightarrow> edit_name \<Rightarrow> edit_name \<Rightarrow> edit_world \<Rightarrow> bool \<times> edit_world" where
  "exchange_files ev a b w =
     (case ask ev w of (ok, w1) \<Rightarrow>
        if ok \<and> ew_names w1 a \<noteq> None \<and> ew_names w1 b \<noteq> None
        then (True, w1\<lparr>ew_names := (ew_names w1)(a := ew_names w1 b, b := ew_names w1 a)\<rparr>)
        else (False, w1))"

definition unlink_name :: "edit_env \<Rightarrow> edit_name \<Rightarrow> edit_world \<Rightarrow> bool \<times> edit_world" where
  "unlink_name ev n w =
     (case ask ev w of (ok, w1) \<Rightarrow>
        if ok \<and> ew_names w1 n \<noteq> None then (True, w1\<lparr>ew_names := (ew_names w1)(n := None)\<rparr>) else (False, w1))"

definition set_node :: "nat \<Rightarrow> file_node \<Rightarrow> edit_world \<Rightarrow> edit_world" where
  "set_node i f w = w\<lparr>ew_files := (ew_files w)[i := f]\<rparr>"

type_synonym 'a edit_op = "edit_world \<Rightarrow> 'a workspace_result \<times> edit_world"

definition and_edit :: "'a workspace_result \<times> edit_world \<Rightarrow> ('a \<Rightarrow> 'b edit_op) \<Rightarrow> 'b workspace_result \<times> edit_world" where
  "and_edit r f = (case r of (Inl e, w) \<Rightarrow> (Inl e, w) | (Inr a, w) \<Rightarrow> f a w)"

definition answered :: "workspace_error \<Rightarrow> 'a option \<times> edit_world \<Rightarrow> 'a workspace_result \<times> edit_world" where
  "answered e r = (case r of (None, w) \<Rightarrow> (Inl e, w) | (Some a, w) \<Rightarrow> (Inr a, w))"

definition done_or :: "workspace_error \<Rightarrow> bool \<times> edit_world \<Rightarrow> unit workspace_result \<times> edit_world" where
  "done_or e r = (case r of (ok, w) \<Rightarrow> (if ok then Inr () else Inl e, w))"

section \<open>Opening and reading\<close>

definition open_edit_target_at :: "edit_env \<Rightarrow> edit_name \<Rightarrow> (nat \<times> file_node) edit_op" where
  "open_edit_target_at ev n w =
     and_edit (answered (ws_not_found ''project file was not found'') (stat_name ev n w)) (\<lambda>found w1.
       if fn_type found \<noteq> Regular then (Inl (ws_not_found ''project file was not found''), w1)
       else and_edit (answered (ws_not_found ''project file could not be opened safely'') (open_at ev n w1)) (\<lambda>i w2.
         case stat_file ev i w2 of
           (None, w3) \<Rightarrow> (Inl (ws_not_found ''project file could not be inspected''), close_file i w3)
         | (Some m, w3) \<Rightarrow>
             if number found \<noteq> number m \<or> fn_type m \<noteq> Regular
             then (Inl (ws_not_found ''project file was not found''), close_file i w3)
             else (Inr (i, m), w3)))"

text \<open>The walk from the project root to the directory of the file is one request, answered by the directory it leads to.\<close>

definition open_edit_target :: "edit_env \<Rightarrow> (nat \<times> nat \<times> file_node) edit_op" where
  "open_edit_target ev w =
     (case ask ev w of (ok, w1) \<Rightarrow>
        (case (if ok then xe_walk ev (ew_clock w) else None) of
           None \<Rightarrow> (Inl (ws_not_found ''project path was not found''), w1)
         | Some p \<Rightarrow> and_edit (open_edit_target_at ev Target w1) (\<lambda>t w2. (Inr (p, t), w2))))"

definition validate_edit_target :: "edit_env \<Rightarrow> file_node \<Rightarrow> unit workspace_result" where
  "validate_edit_target ev m =
     (if fn_type m \<noteq> Regular \<or> fn_nlink m \<noteq> 1 \<or> fn_uid m \<noteq> xe_euid ev \<or> max_file_bytes < length (fn_bytes m)
      then Inl (ws_not_found ''project file cannot be edited safely'') else Inr ())"

definition read_complete_text :: "edit_env \<Rightarrow> nat \<Rightarrow> file_node \<Rightarrow> string edit_op" where
  "read_complete_text ev i m w =
     and_edit (validate_edit_target ev m, w) (\<lambda>_ w.
     and_edit (answered (ws_not_found ''project file could not be read'') (stat_file ev i w)) (\<lambda>f w1.
       let bytes = fn_bytes f; (shown, binary) = bounded_text bytes False
       in if max_file_bytes < length bytes then (Inl (ws_not_found ''project file cannot be edited safely''), w1)
          else if binary \<or> length shown \<noteq> length bytes then (Inl (ws_invalid ''only complete UTF-8 text files can be edited''), w1)
          else (Inr bytes, w1)))"

section \<open>Extended attributes\<close>

definition max_edit_xattrs :: nat where "max_edit_xattrs = 128"
definition max_edit_xattr_bytes :: nat where "max_edit_xattr_bytes = 256 * 1024"

definition list_xattrs :: "edit_env \<Rightarrow> workspace_error \<Rightarrow> workspace_error \<Rightarrow> nat \<Rightarrow> string list edit_op" where
  "list_xattrs ev unavailable too_much i w =
     and_edit (answered unavailable (stat_file ev i w)) (\<lambda>f w1.
       let names = map fst (fn_xattrs f)
       in if max_edit_xattrs < length names \<or> max_edit_xattr_bytes < sum_list (map length names) then (Inl too_much, w1)
          else (Inr names, w1))"

definition too_much_metadata :: workspace_error where
  "too_much_metadata = ws_not_found ''project file has too much security metadata to edit safely''"

definition no_metadata :: workspace_error where
  "no_metadata = ws_not_found ''project file security metadata is unavailable''"

fun read_values :: "edit_env \<Rightarrow> nat \<Rightarrow> string list \<Rightarrow> nat \<Rightarrow> (string \<times> string) list edit_op" where
  "read_values ev i [] used w = (Inr [], w)"
| "read_values ev i (n # ns) used w =
     and_edit (answered no_metadata (stat_file ev i w)) (\<lambda>f w1.
       case map_of (fn_xattrs f) n of
         None \<Rightarrow> (Inl (ws_conflict ''project file security metadata changed''), w1)
       | Some v \<Rightarrow>
           if max_edit_xattr_bytes < used + length v then (Inl too_much_metadata, w1)
           else and_edit (read_values ev i ns (used + length v) w1) (\<lambda>vs w2. (Inr ((n, v) # vs), w2)))"

definition read_security_metadata :: "edit_env \<Rightarrow> nat \<Rightarrow> (string \<times> string) list edit_op" where
  "read_security_metadata ev i w =
     and_edit (list_xattrs ev no_metadata too_much_metadata i w) (\<lambda>names w1.
       read_values ev i (sort names) (sum_list (map length names)) w1)"

definition too_much_temporary :: workspace_error where
  "too_much_temporary = ws_internal ''temporary file has too much security metadata''"

definition no_temporary_metadata :: workspace_error where
  "no_temporary_metadata = ws_internal ''temporary file security metadata is unavailable''"

fun remove_inherited :: "edit_env \<Rightarrow> nat \<Rightarrow> (string \<times> string) list \<Rightarrow> string list \<Rightarrow> unit edit_op" where
  "remove_inherited ev i expected [] w = (Inr (), w)"
| "remove_inherited ev i expected (n # ns) w =
     (if n \<in> fst ` set expected then remove_inherited ev i expected ns w
      else and_edit (answered (ws_internal ''temporary file security metadata could not be cleared'') (stat_file ev i w)) (\<lambda>f w1.
        remove_inherited ev i expected ns (set_node i (f\<lparr>fn_xattrs := filter (\<lambda>x. fst x \<noteq> n) (fn_xattrs f)\<rparr>) w1)))"

fun copy_values :: "edit_env \<Rightarrow> nat \<Rightarrow> (string \<times> string) list \<Rightarrow> unit edit_op" where
  "copy_values ev i [] w = (Inr (), w)"
| "copy_values ev i ((n, v) # xs) w =
     and_edit (answered no_temporary_metadata (stat_file ev i w)) (\<lambda>f w1.
       if map_of (fn_xattrs f) n = Some v then copy_values ev i xs w1
       else and_edit (answered (ws_internal ''project file security metadata could not be preserved'') (stat_file ev i w1)) (\<lambda>f w2.
         copy_values ev i xs (set_node i (f\<lparr>fn_xattrs := AList.update n v (fn_xattrs f)\<rparr>) w2)))"

definition apply_security_metadata :: "edit_env \<Rightarrow> nat \<Rightarrow> (string \<times> string) list \<Rightarrow> unit edit_op" where
  "apply_security_metadata ev i expected w =
     and_edit (list_xattrs ev no_temporary_metadata too_much_temporary i w) (\<lambda>inherited w1.
     and_edit (remove_inherited ev i expected inherited w1) (\<lambda>_ w2. copy_values ev i expected w2))"

section \<open>The new file\<close>

definition fresh_number :: "edit_world \<Rightarrow> nat" where
  "fresh_number w = Suc (fold max (map fn_ino (ew_files w)) 0)"

text \<open>A name that is taken is skipped; any other failure ends the attempts.\<close>

fun create_edit_temp :: "nat \<Rightarrow> edit_env \<Rightarrow> (nat \<times> nat) edit_op" where
  "create_edit_temp 0 ev w = (Inl (ws_internal ''temporary project file name could not be allocated''), w)"
| "create_edit_temp (Suc k) ev w =
     (let s = ew_sequence w
      in case ask ev (w\<lparr>ew_sequence := Suc s\<rparr>) of (ok, w1) \<Rightarrow>
        if ew_names w1 (Temp s) \<noteq> None then create_edit_temp k ev w1
        else if \<not> ok then (Inl (ws_internal ''temporary project file could not be created''), w1)
        else let i = length (ew_files w1);
                 f = (xe_created ev)\<lparr>fn_ino := fresh_number w1, fn_type := Regular, fn_uid := xe_euid ev, fn_mode := 384, fn_nlink := 1, fn_bytes := []\<rparr>
          in (Inr (s, i), hold i (w1\<lparr>ew_files := ew_files w1 @ [f], ew_names := (ew_names w1)(Temp s := Some i)\<rparr>)))"

definition prepare_temporary :: "edit_env \<Rightarrow> nat \<Rightarrow> file_node \<Rightarrow> (string \<times> string) list \<Rightarrow> string \<Rightarrow> unit edit_op" where
  "prepare_temporary ev i original security bytes w =
     and_edit (answered (ws_internal ''updated project file could not be written'') (stat_file ev i w)) (\<lambda>f w1.
     and_edit (answered (ws_internal ''updated project file could not be inspected'')
       (stat_file ev i (set_node i (f\<lparr>fn_bytes := bytes\<rparr>) w1))) (\<lambda>m w2.
     and_edit (if fn_gid m \<noteq> fn_gid original
         then and_edit (answered (ws_internal ''project file ownership could not be preserved'') (stat_file ev i w2)) (\<lambda>f w3.
           (Inr (), set_node i (f\<lparr>fn_gid := fn_gid original\<rparr>) w3))
         else (Inr (), w2)) (\<lambda>_ w3.
     and_edit (answered (ws_internal ''project file permissions could not be preserved'') (stat_file ev i w3)) (\<lambda>f w4.
     and_edit (apply_security_metadata ev i security (set_node i (f\<lparr>fn_mode := fn_mode original\<rparr>) w4)) (\<lambda>_ w5.
     and_edit (read_security_metadata ev i w5) (\<lambda>copied w6.
     and_edit (answered (ws_internal ''updated project file could not be inspected'') (stat_file ev i w6)) (\<lambda>after w7.
       if fn_uid after \<noteq> fn_uid original \<or> fn_gid after \<noteq> fn_gid original \<or> fn_mode after \<noteq> fn_mode original
          \<or> fn_type after \<noteq> fn_type original \<or> copied \<noteq> security
       then (Inl (ws_internal ''project file security metadata could not be preserved''), w7)
       else done_or (ws_internal ''updated project file could not be synchronized'') (ask ev w7))))))))"

section \<open>Comparing\<close>

definition same_edit_identity :: "file_node \<Rightarrow> file_node \<Rightarrow> bool" where
  "same_edit_identity a b \<longleftrightarrow> fn_dev a = fn_dev b \<and> fn_ino a = fn_ino b \<and> fn_uid a = fn_uid b \<and> fn_gid a = fn_gid b
     \<and> fn_mode a = fn_mode b \<and> fn_type a = fn_type b \<and> fn_nlink a = fn_nlink b \<and> fn_nlink b = 1 \<and> fn_type b = Regular"

definition same_edit_state :: "file_node \<Rightarrow> file_node \<Rightarrow> bool" where
  "same_edit_state a b \<longleftrightarrow> same_edit_identity a b \<and> length (fn_bytes a) = length (fn_bytes b) \<and> fn_mtime a = fn_mtime b \<and> fn_ctime a = fn_ctime b"

definition file_changed :: workspace_error where
  "file_changed = ws_conflict ''project file changed while the edit was being saved''"

text \<open>Everything that fails here is reported as a change of the file.\<close>

definition or_changed :: "'a workspace_result \<times> edit_world \<Rightarrow> 'a workspace_result \<times> edit_world" where
  "or_changed r = (case r of (Inl e, w) \<Rightarrow> (Inl file_changed, w) | (Inr a, w) \<Rightarrow> (Inr a, w))"

definition check_current ::
    "edit_env \<Rightarrow> nat \<Rightarrow> file_node \<Rightarrow> (string \<times> string) list \<Rightarrow> string \<Rightarrow> nat \<Rightarrow> nat \<Rightarrow> file_node \<Rightarrow> unit edit_op" where
  "check_current ev parent original security hash p i m w =
     and_edit (done_or file_changed (ask ev w)) (\<lambda>_ w1.
     and_edit (done_or file_changed (ask ev w1)) (\<lambda>_ w2.
       if p \<noteq> parent \<or> \<not> same_edit_identity original m then (Inl file_changed, w2)
       else and_edit (or_changed (read_complete_text ev i m w2)) (\<lambda>bytes w3.
         if xe_sha ev bytes \<noteq> hash then (Inl file_changed, w3)
         else and_edit (or_changed (read_security_metadata ev i w3)) (\<lambda>s w4.
           if s \<noteq> security then (Inl file_changed, w4)
           else and_edit (answered file_changed (stat_file ev i w4)) (\<lambda>after w5.
             if same_edit_state m after then (Inr (), w5) else (Inl file_changed, w5))))))"

definition revalidate_edit_path :: "edit_env \<Rightarrow> nat \<Rightarrow> file_node \<Rightarrow> (string \<times> string) list \<Rightarrow> string \<Rightarrow> unit edit_op" where
  "revalidate_edit_path ev parent original security hash w =
     and_edit (or_changed (open_edit_target ev w)) (\<lambda>(p, i, m) w1.
       case check_current ev parent original security hash p i m w1 of (r, w2) \<Rightarrow> (r, close_file i w2))"

text \<open>The displaced file, and \<open>None\<close> when it is not the one that was read.\<close>

definition check_displaced ::
    "edit_env \<Rightarrow> file_node \<Rightarrow> (string \<times> string) list \<Rightarrow> string \<Rightarrow> nat \<Rightarrow> file_node \<Rightarrow> edit_world \<Rightarrow> file_node option \<times> edit_world" where
  "check_displaced ev original security hash i found w =
     (if \<not> same_edit_identity original found then (None, w)
      else case read_complete_text ev i found w of
          (Inl e, w1) \<Rightarrow> (None, w1)
        | (Inr bytes, w1) \<Rightarrow>
            (case read_security_metadata ev i w1 of
               (Inl e, w2) \<Rightarrow> (None, w2)
             | (Inr current, w2) \<Rightarrow>
                 (case stat_file ev i w2 of
                    (None, w3) \<Rightarrow> (None, w3)
                  | (Some after, w3) \<Rightarrow>
                      (if same_edit_state found after \<and> current = security \<and> xe_sha ev bytes = hash then Some after else None, w3))))"

definition named_file_matches ::
    "edit_env \<Rightarrow> edit_name \<Rightarrow> file_node \<Rightarrow> (string \<times> string) list \<Rightarrow> string \<Rightarrow> edit_world \<Rightarrow> bool \<times> edit_world" where
  "named_file_matches ev n original security hash w =
     (case open_edit_target_at ev n w of
        (Inl e, w1) \<Rightarrow> (False, w1)
      | (Inr (i, found), w1) \<Rightarrow>
          (case check_displaced ev original security hash i found w1 of
             (None, w2) \<Rightarrow> (False, close_file i w2)
           | (Some f, w2) \<Rightarrow> (True, (close_file i w2)\<lparr>ew_accepted := Some (i, f)\<rparr>)))"

section \<open>The exchange\<close>

definition file_identity :: "file_node \<Rightarrow> nat \<times> nat \<times> file_type" where
  "file_identity f = (fn_dev f, fn_ino f, fn_type f)"

definition no_conflict_state :: workspace_error where
  "no_conflict_state = ws_internal ''project file conflict state was unavailable''"

fun restore_exchanges :: "nat \<Rightarrow> edit_env \<Rightarrow> edit_name \<Rightarrow> nat \<times> nat \<times> file_type \<Rightarrow> unit edit_op" where
  "restore_exchanges 0 ev n expected w = (Inl (ws_internal ''project file remained continuously busy during conflict recovery''), w)"
| "restore_exchanges (Suc k) ev n expected w =
     and_edit (answered no_conflict_state (stat_name ev n w)) (\<lambda>candidate w1.
     and_edit (done_or (ws_internal ''project file conflict could not be restored atomically'') (exchange_files ev n Target w1)) (\<lambda>_ w2.
     and_edit (answered no_conflict_state (stat_name ev n w2)) (\<lambda>displaced w3.
       if file_identity displaced = expected then (Inr (), w3)
       else restore_exchanges k ev n (file_identity candidate) w3)))"

definition max_recovery_exchanges :: nat where "max_recovery_exchanges = 64"

definition restore_after_failed_exchange :: "edit_env \<Rightarrow> edit_name \<Rightarrow> file_node \<Rightarrow> unit edit_op" where
  "restore_after_failed_exchange ev n installed w = restore_exchanges max_recovery_exchanges ev n (file_identity installed) w"

text \<open>The guard of the hidden file: whether it is still armed, and what dropping it does.\<close>

definition remove_and_sync :: "edit_env \<Rightarrow> edit_name \<Rightarrow> edit_world \<Rightarrow> unit workspace_result \<times> bool \<times> edit_world" where
  "remove_and_sync ev n w =
     (case unlink_name ev n w of
        (False, w1) \<Rightarrow> (Inl (ws_internal ''temporary project file could not be removed''), True, w1)
      | (True, w1) \<Rightarrow>
          (case ask ev w1 of (ok, w2) \<Rightarrow>
             (if ok then Inr () else Inl (ws_internal ''project directory could not be synchronized''), False, w2)))"

definition drop_temp :: "edit_env \<Rightarrow> edit_name \<Rightarrow> bool \<Rightarrow> edit_world \<Rightarrow> edit_world" where
  "drop_temp ev n armed w = (if armed then snd (ask ev (snd (unlink_name ev n w))) else w)"

definition commit_edit ::
    "edit_env \<Rightarrow> edit_name \<Rightarrow> nat \<Rightarrow> file_node \<Rightarrow> (string \<times> string) list \<Rightarrow> string \<Rightarrow> edit_world \<Rightarrow> unit workspace_result \<times> bool \<times> edit_world" where
  "commit_edit ev n t original security hash w =
     (case stat_file ev t w of
        (None, w1) \<Rightarrow> (Inl (ws_internal ''updated project file could not be inspected''), True, w1)
      | (Some temporary, w1) \<Rightarrow>
          (case exchange_files ev n Target w1 of
             (False, w2) \<Rightarrow> (Inl (ws_internal ''project file could not be exchanged atomically''), True, w2)
           | (True, w2) \<Rightarrow>
               (case named_file_matches ev n original security hash w2 of
                  (True, w3) \<Rightarrow> remove_and_sync ev n w3
                | (False, w3) \<Rightarrow>
                    (case restore_after_failed_exchange ev n temporary w3 of
                       (Inl e, w4) \<Rightarrow> (Inl (ws_internal ''project file conflict recovery could not complete safely''), False, w4)
                     | (Inr _, w4) \<Rightarrow>
                         (case remove_and_sync ev n w4 of
                            (Inl e, armed, w5) \<Rightarrow> (Inl e, armed, w5)
                          | (Inr _, armed, w5) \<Rightarrow> (Inl file_changed, armed, w5))))))"

section \<open>The handler\<close>

definition edit_staged ::
    "edit_env \<Rightarrow> nat \<Rightarrow> file_node \<Rightarrow> (string \<times> string) list \<Rightarrow> string \<Rightarrow> string \<Rightarrow> unit edit_op" where
  "edit_staged ev parent original security content hash w =
     and_edit (create_edit_temp 64 ev w) (\<lambda>(s, t) w1.
       let (r, armed, w4) =
         (case prepare_temporary ev t original security content w1 of
            (Inl e, w2) \<Rightarrow> (Inl e, True, w2)
          | (Inr _, w2) \<Rightarrow>
              (case revalidate_edit_path ev parent original security hash w2 of
                 (Inl e, w3) \<Rightarrow> (Inl e, True, w3)
               | (Inr _, w3) \<Rightarrow> commit_edit ev (Temp s) t original security hash w3))
       in (r, close_file t (drop_temp ev (Temp s) armed w4)))"

definition edit_opened :: "edit_env \<Rightarrow> string \<Rightarrow> string \<Rightarrow> nat \<Rightarrow> nat \<Rightarrow> file_node \<Rightarrow> unit edit_op" where
  "edit_opened ev content hash parent i original w =
     and_edit (validate_edit_target ev original, w) (\<lambda>_ w1.
     and_edit (read_complete_text ev i original w1) (\<lambda>bytes w2.
       if xe_sha ev bytes \<noteq> hash then (Inl (ws_conflict ''project file changed since it was opened''), w2)
       else and_edit (read_security_metadata ev i w2) (\<lambda>security w3.
         edit_staged ev parent original security content hash w3)))"

record write_request =
  wr_path :: string
  wr_content :: string
  wr_expected_hash :: string

definition check_request :: "write_request \<Rightarrow> string list workspace_result" where
  "check_request q =
     and_then (validate_relative_path (wr_path q) False) (\<lambda>names.
     and_then (ensure_visible_path names) (\<lambda>_.
     and_then (validate_edit_content (wr_content q)) (\<lambda>_.
     and_then (validate_content_hash (wr_expected_hash q)) (\<lambda>_. Inr names))))"

text \<open>\<open>write_file\<close>; whether the project root of the pane is known and allowed is an argument.\<close>

definition write_file :: "edit_env \<Rightarrow> unit workspace_result \<Rightarrow> write_request \<Rightarrow> files_response edit_op" where
  "write_file ev project q w =
     and_edit (check_request q, w) (\<lambda>names w.
     and_edit (project, w) (\<lambda>_ w.
     and_edit (open_edit_target ev w) (\<lambda>(parent, i, original) w1.
       case edit_opened ev (wr_content q) (wr_expected_hash q) parent i original w1 of
         (Inl e, w2) \<Rightarrow> (Inl e, close_file i w2)
       | (Inr _, w2) \<Rightarrow>
           (Inr (File_response (path_for_response names) (wr_content q) (language_hint names) (length (wr_content q)) False False
              (Some (xe_sha ev (wr_content q))) (Some (line_count (wr_content q)))), close_file i w2))))"

end
