(* ===== verification/Edit_Safety.thy ===== *)
theory Edit_Safety
  imports Workspace_Edit
begin

text \<open>
  What saving an edited file keeps, whatever other programs do to the file meanwhile: the requests only let the
  directory drift as the others move it, and the exchange and its reversal never drop the file that
  others put there last.
\<close>

section \<open>Drift\<close>

text \<open>
  What a request that changes no name leaves behind: files keep their numbers and types, the hidden names stay, and the
  target is as it was or is what others did to it last.
\<close>

definition names_ok :: "edit_world \<Rightarrow> bool" where
  "names_ok w \<longleftrightarrow> (\<forall>n i. ew_names w n = Some i \<longrightarrow> i < length (ew_files w)) \<and> (\<forall>i. ew_newest w = Some i \<longrightarrow> i < length (ew_files w))"

definition unique_numbers :: "edit_world \<Rightarrow> bool" where
  "unique_numbers w \<longleftrightarrow> distinct (map number (ew_files w))"

definition drift :: "bool \<Rightarrow> edit_world \<Rightarrow> edit_world \<Rightarrow> bool" where
  "drift keeps w w' \<longleftrightarrow> length (ew_files w) \<le> length (ew_files w')
     \<and> (\<forall>i < length (ew_files w). file_identity (ew_files w' ! i) = file_identity (ew_files w ! i))
     \<and> (\<forall>k. ew_names w' (Temp k) = ew_names w (Temp k))
     \<and> (keeps \<longrightarrow> unique_numbers w \<longrightarrow> unique_numbers w')
     \<and> (names_ok w \<longrightarrow> names_ok w')
     \<and> ew_accepted w' = ew_accepted w
     \<and> (ew_names w' Target = ew_names w Target \<and> ew_newest w' = ew_newest w
        \<or> ew_names w' Target = ew_newest w' \<and> (\<forall>i. ew_newest w' = Some i \<longrightarrow> length (ew_files w) \<le> i))"

lemma number_identity: "file_identity f = file_identity g \<Longrightarrow> number f = number g"
  by (simp add: file_identity_def number_def)

lemma drift_refl [simp]: "drift k w w"
  by (simp add: drift_def)

lemma drift_trans:
  assumes "drift k u v" "drift k v w"
  shows "drift k u w"
proof -
  have "file_identity (ew_files w ! i) = file_identity (ew_files u ! i)" if "i < length (ew_files u)" for i
    using assms that unfolding drift_def by (metis order_less_le_trans)
  moreover have "ew_names w Target = ew_names u Target \<and> ew_newest w = ew_newest u
      \<or> ew_names w Target = ew_newest w \<and> (\<forall>i. ew_newest w = Some i \<longrightarrow> length (ew_files u) \<le> i)"
    using assms unfolding drift_def by (metis order_trans)
  ultimately show ?thesis using assms unfolding drift_def by auto
qed

lemma number_free_new:
  assumes "number_free True w f" "i < length (ew_files w)"
  shows "number (ew_files w ! i) \<noteq> number f"
  using assms by (auto simp: number_free_def list_all_iff)

lemma act_drift: "drift keeps w (act keeps a w)"
proof (cases a)
  case (Replace f)
  show ?thesis
  proof (cases "number_free keeps w f")
    case True
    have "distinct (map number (ew_files w @ [f]))" if "keeps" "unique_numbers w"
    proof -
      have "number (ew_files w ! i) \<noteq> number f" if "i < length (ew_files w)" for i
        using number_free_new True \<open>keeps\<close> that by simp
      then have "number f \<notin> number ` set (ew_files w)" by (metis imageE in_set_conv_nth)
      then show ?thesis using that(2) by (auto simp: unique_numbers_def)
    qed
    then show ?thesis using Replace True by (auto simp: drift_def names_ok_def unique_numbers_def nth_append less_Suc_eq)
  next
    case False
    then show ?thesis using Replace by simp
  qed
next
  case Remove
  then show ?thesis by (auto simp: drift_def names_ok_def unique_numbers_def)
next
  case (Change i f)
  have "map number ((ew_files w)[i := f\<lparr>fn_dev := fn_dev (ew_files w ! i), fn_ino := fn_ino (ew_files w ! i),
      fn_type := fn_type (ew_files w ! i), fn_ctime := c\<rparr>]) = map number (ew_files w)" for c
    by (cases "i < length (ew_files w)") (auto simp: map_update list_update_beyond number_def intro: list_update_same_conv [THEN iffD2])
  then show ?thesis using Change
    by (auto simp: drift_def names_ok_def unique_numbers_def nth_list_update file_identity_def Let_def)
qed

lemma fold_act_drift: "drift k w (fold (act k) as w)"
  by (induction as arbitrary: w) (auto intro: drift_trans act_drift)

lemma clock_drift [simp]: "drift k w (v\<lparr>ew_clock := c\<rparr>) = drift k w v"
  by (simp add: drift_def names_ok_def unique_numbers_def)

lemma held_drift [simp]: "drift k w (v\<lparr>ew_held := c\<rparr>) = drift k w v"
  by (simp add: drift_def names_ok_def unique_numbers_def)

lemma sequence_drift [simp]: "drift k w (v\<lparr>ew_sequence := c\<rparr>) = drift k w v"
  by (simp add: drift_def names_ok_def unique_numbers_def)

abbreviation keeps :: "edit_env \<Rightarrow> bool" where "keeps ev \<equiv> xe_keeps_numbers ev"

named_theorems drift_rules

lemma pass_drift [drift_rules]: "drift (keeps ev) w v \<Longrightarrow> drift (keeps ev) w (pass ev v)"
  using fold_act_drift drift_trans by (fastforce simp: pass_def)

lemma hold_drift [drift_rules]: "drift k w v \<Longrightarrow> drift k w (hold i v)" "drift k w v \<Longrightarrow> drift k w (close_file i v)"
  by (simp_all add: hold_def close_file_def)

lemma ask_drift [drift_rules]: "drift (keeps ev) w v \<Longrightarrow> drift (keeps ev) w (snd (ask ev v))"
  by (simp add: ask_def pass_drift)

lemma stat_name_drift [drift_rules]: "drift (keeps ev) w v \<Longrightarrow> drift (keeps ev) w (snd (stat_name ev n v))"
  by (simp add: stat_name_def ask_def pass_drift)

lemma stat_file_drift [drift_rules]: "drift (keeps ev) w v \<Longrightarrow> drift (keeps ev) w (snd (stat_file ev i v))"
  by (simp add: stat_file_def ask_def pass_drift)

lemma open_at_drift [drift_rules]: "drift (keeps ev) w v \<Longrightarrow> drift (keeps ev) w (snd (open_at ev n v))"
  by (auto simp: open_at_def ask_def intro!: drift_rules split: option.splits)

lemma answered_drift [drift_rules]: "drift k w (snd r) \<Longrightarrow> drift k w (snd (answered e r))"
  by (cases r) (auto simp: answered_def split: option.splits)

lemma done_or_drift [drift_rules]: "drift k w (snd r) \<Longrightarrow> drift k w (snd (done_or e r))"
  by (cases r) (auto simp: done_or_def)

lemma or_changed_drift [drift_rules]: "drift k w (snd r) \<Longrightarrow> drift k w (snd (or_changed r))"
  by (cases r) (auto simp: or_changed_def split: sum.splits)

lemma and_edit_drift [drift_rules]:
  assumes "drift k w (snd r)" "\<And>a v. drift k w v \<Longrightarrow> drift k w (snd (f a v))"
  shows "drift k w (snd (and_edit r f))"
  using assms by (cases r; cases "fst r") (auto simp: and_edit_def)

lemma if_drift [drift_rules]: "(c \<Longrightarrow> drift k w (snd a)) \<Longrightarrow> (\<not> c \<Longrightarrow> drift k w (snd b)) \<Longrightarrow> drift k w (snd (if c then a else b))"
  by simp

lemma pair_drift [drift_rules]: "drift k w v \<Longrightarrow> drift k w (snd (x, v))"
  by simp

lemma stat_then_drift:
  assumes "drift (keeps ev) w v" "\<And>u. drift (keeps ev) w u \<Longrightarrow> drift (keeps ev) w (snd (g (ew_files u ! i) u))"
  shows "drift (keeps ev) w (snd (and_edit (answered e (stat_file ev i v)) g))"
  using pass_drift [OF assms(1)] assms(2) [OF pass_drift [OF assms(1)]]
  by (simp add: and_edit_def answered_def stat_file_def ask_def)

lemma set_node_drift:
  assumes "drift k w v" "file_identity f = file_identity (ew_files v ! i)"
  shows "drift k w (set_node i f v)"
proof -
  have "map number ((ew_files v)[i := f]) = map number (ew_files v)"
    using number_identity [OF assms(2)] by (cases "i < length (ew_files v)") (auto simp: map_update list_update_beyond intro: list_update_same_conv [THEN iffD2])
  then have "drift k v (set_node i f v)"
    using assms(2) by (cases "i < length (ew_files v)") (auto simp: drift_def set_node_def names_ok_def unique_numbers_def nth_list_update list_update_beyond)
  then show ?thesis by (rule drift_trans [OF assms(1)])
qed

lemma open_edit_target_at_drift [drift_rules]: "drift (keeps ev) w v \<Longrightarrow> drift (keeps ev) w (snd (open_edit_target_at ev n v))"
  unfolding open_edit_target_at_def
  by (intro drift_rules) (auto simp: stat_file_def ask_def intro!: drift_rules split: option.splits)

lemma open_edit_target_drift [drift_rules]: "drift (keeps ev) w v \<Longrightarrow> drift (keeps ev) w (snd (open_edit_target ev v))"
  unfolding open_edit_target_def ask_def prod.case
  by (auto intro!: drift_rules split: option.splits)

lemma read_complete_text_drift [drift_rules]: "drift (keeps ev) w v \<Longrightarrow> drift (keeps ev) w (snd (read_complete_text ev i m v))"
  unfolding read_complete_text_def Let_def by (intro drift_rules) (auto split: prod.splits)

lemma list_xattrs_drift [drift_rules]: "drift (keeps ev) w v \<Longrightarrow> drift (keeps ev) w (snd (list_xattrs ev e1 e2 i v))"
  unfolding list_xattrs_def Let_def by (intro drift_rules)

lemma read_values_drift [drift_rules]: "drift (keeps ev) w v \<Longrightarrow> drift (keeps ev) w (snd (read_values ev i ns used v))"
proof (induction ns arbitrary: used v)
  case (Cons n ns)
  show ?case unfolding read_values.simps
    by (rule and_edit_drift, intro drift_rules Cons.prems) (auto intro!: drift_rules Cons.IH split: option.splits)
qed simp

lemma read_security_drift [drift_rules]: "drift (keeps ev) w v \<Longrightarrow> drift (keeps ev) w (snd (read_security_metadata ev i v))"
  unfolding read_security_metadata_def by (intro drift_rules)

lemma remove_inherited_drift [drift_rules]: "drift (keeps ev) w v \<Longrightarrow> drift (keeps ev) w (snd (remove_inherited ev i expected ns v))"
proof (induction ns arbitrary: v)
  case (Cons n ns)
  show ?case unfolding remove_inherited.simps
    by (intro if_drift stat_then_drift Cons.IH set_node_drift Cons.prems) (auto simp: file_identity_def)
qed simp

lemma copy_values_drift [drift_rules]: "drift (keeps ev) w v \<Longrightarrow> drift (keeps ev) w (snd (copy_values ev i xs v))"
proof (induction xs arbitrary: v)
  case (Cons x xs)
  obtain n a where x: "x = (n, a)" by (cases x)
  show ?case unfolding x copy_values.simps
    by (intro if_drift stat_then_drift Cons.IH set_node_drift Cons.prems) (auto simp: file_identity_def)
qed simp

lemma apply_security_drift [drift_rules]: "drift (keeps ev) w v \<Longrightarrow> drift (keeps ev) w (snd (apply_security_metadata ev i expected v))"
  unfolding apply_security_metadata_def by (intro drift_rules)

lemma prepare_drift [drift_rules]: "drift (keeps ev) w v \<Longrightarrow> drift (keeps ev) w (snd (prepare_temporary ev i original security bytes v))"
  unfolding prepare_temporary_def
  by (intro stat_then_drift and_edit_drift drift_rules set_node_drift) (auto simp: file_identity_def)

lemma revalidate_drift [drift_rules]: "drift (keeps ev) w v \<Longrightarrow> drift (keeps ev) w (snd (revalidate_edit_path ev p original security hash v))"
proof -
  assume d: "drift (keeps ev) w v"
  have c: "drift (keeps ev) w (snd (check_current ev p original security hash q i m u))" if "drift (keeps ev) w u" for q i m u
    unfolding check_current_def by (intro drift_rules that)
  show ?thesis unfolding revalidate_edit_path_def case_prod_beta
    by (intro drift_rules d c) (simp_all add: hold_drift d)
qed

lemma check_displaced_drift [drift_rules]:
  assumes "drift (keeps ev) w v"
  shows "drift (keeps ev) w (snd (check_displaced ev original security hash i m v))"
proof -
  obtain r1 v1 where 1: "read_complete_text ev i m v = (r1, v1)" by (rule prod.exhaust)
  obtain r2 v2 where 2: "read_security_metadata ev i v1 = (r2, v2)" by (rule prod.exhaust)
  obtain r3 v3 where 3: "stat_file ev i v2 = (r3, v3)" by (rule prod.exhaust)
  have d1: "drift (keeps ev) w v1" using read_complete_text_drift [OF assms, of i m] by (simp add: 1)
  have d2: "drift (keeps ev) w v2" using read_security_drift [OF d1, of i] by (simp add: 2)
  have d3: "drift (keeps ev) w v3" using stat_file_drift [OF d2, of i] by (simp add: 3)
  show ?thesis using assms d1 d2 d3 by (auto simp: check_displaced_def 1 2 3 split: sum.splits option.splits)
qed

section \<open>The target and what is under the hidden name\<close>

definition synced :: "edit_world \<Rightarrow> bool" where
  "synced w \<longleftrightarrow> ew_newest w = ew_names w Target"

definition kept :: "edit_name \<Rightarrow> edit_world \<Rightarrow> bool" where
  "kept n w \<longleftrightarrow> ew_newest w = ew_names w Target \<or> ew_newest w = ew_names w n"

definition settled :: "edit_world \<Rightarrow> bool" where
  "settled w \<longleftrightarrow> ew_newest w = ew_names w Target \<or> (\<exists>i f. ew_newest w = Some i \<and> ew_accepted w = Some (i, f))"

lemma drift_synced: "drift k w v \<Longrightarrow> synced w \<Longrightarrow> synced v"
  by (auto simp: drift_def synced_def)

lemma drift_kept: "drift k w v \<Longrightarrow> kept (Temp s) w \<Longrightarrow> kept (Temp s) v"
  by (auto simp: drift_def kept_def)

lemma drift_settled: "drift k w v \<Longrightarrow> settled w \<Longrightarrow> settled v"
  by (auto simp: drift_def settled_def)

lemma drift_parts:
  assumes "drift k w v"
  shows "ew_names v (Temp s) = ew_names w (Temp s)" "ew_accepted v = ew_accepted w" "names_ok w \<Longrightarrow> names_ok v"
    "k \<Longrightarrow> unique_numbers w \<Longrightarrow> unique_numbers v" "length (ew_files w) \<le> length (ew_files v)"
    "i < length (ew_files w) \<Longrightarrow> file_identity (ew_files v ! i) = file_identity (ew_files w ! i)"
  using assms by (auto simp: drift_def)

lemma exchange_swapped:
  assumes "exchange_files ev a b w = (True, w')"
  shows "\<exists>i j. ew_names (pass ev w) a = Some i \<and> ew_names (pass ev w) b = Some j
    \<and> w' = (pass ev w)\<lparr>ew_names := (ew_names (pass ev w))(a := Some j, b := Some i)\<rparr>"
proof -
  obtain i j where "ew_names (pass ev w) a = Some i" "ew_names (pass ev w) b = Some j"
    using assms by (cases "ew_names (pass ev w) a"; cases "ew_names (pass ev w) b") (simp_all add: exchange_files_def ask_def)
  then show ?thesis using assms by (cases "xe_ok ev (ew_clock w)") (simp_all add: exchange_files_def ask_def)
qed

lemma exchange_failed: "exchange_files ev a b w = (False, w') \<Longrightarrow> w' = pass ev w"
  unfolding exchange_files_def ask_def prod.case by (simp split: if_split_asm)

lemma stat_name_Some:
  assumes "stat_name ev n w = (Some f, w')"
  shows "w' = pass ev w" "\<exists>i. ew_names w' n = Some i \<and> f = ew_files w' ! i"
  using assms by (auto simp: stat_name_def ask_def split: if_splits)

lemma unique_index:
  assumes "unique_numbers w" "i < length (ew_files w)" "j < length (ew_files w)" "file_identity (ew_files w ! i) = file_identity (ew_files w ! j)"
  shows "i = j"
proof -
  have "map number (ew_files w) ! i = map number (ew_files w) ! j" using assms(2,3) number_identity [OF assms(4)] by simp
  then show ?thesis using nth_eq_iff_index_eq [of "map number (ew_files w)" i j] assms(1-3) by (simp add: unique_numbers_def)
qed

text \<open>
  The state of a recovery that expects the object \<open>e\<close> at the target: what is under the hidden name goes back, unless others
  have put a newer file at the target.
\<close>

definition restoring :: "nat \<Rightarrow> nat \<Rightarrow> edit_world \<Rightarrow> bool" where
  "restoring s e w \<longleftrightarrow> e < length (ew_files w) \<and> names_ok w \<and> unique_numbers w
     \<and> (\<exists>c. ew_names w (Temp s) = Some c \<and> c \<noteq> e
          \<and> (ew_newest w = ew_names w Target \<and> ew_names w Target \<noteq> Some e \<and> ew_names w Target \<noteq> Some c
             \<or> ew_newest w = Some c \<and> ew_names w Target = Some e))"

lemma restoring_hidden: "restoring s e w \<Longrightarrow> \<exists>c. ew_names w (Temp s) = Some c \<and> c < length (ew_files w)"
  by (auto simp: restoring_def names_ok_def)

lemma drift_restoring:
  assumes d: "drift True w v" and r: "restoring s e w"
  shows "restoring s e v"
proof -
  obtain c where c: "ew_names w (Temp s) = Some c" "c \<noteq> e" "c < length (ew_files w)" "e < length (ew_files w)"
    using r by (auto simp: restoring_def names_ok_def)
  note p = drift_parts [OF d]
  have v: "ew_names v (Temp s) = Some c" "e < length (ew_files v)" "names_ok v" "unique_numbers v"
    using p(1,3,4,5) c r by (auto simp: restoring_def)
  consider (same) "ew_names v Target = ew_names w Target" "ew_newest v = ew_newest w"
    | (newer) "ew_names v Target = ew_newest v" "\<forall>i. ew_newest v = Some i \<longrightarrow> length (ew_files w) \<le> i"
    using d unfolding drift_def by blast
  then show ?thesis
  proof cases
    case same
    then show ?thesis using r v c unfolding restoring_def by auto
  next
    case newer
    then have "ew_newest v \<noteq> Some e" "ew_newest v \<noteq> Some c" using c(3,4) by auto
    then show ?thesis using newer v c unfolding restoring_def by auto
  qed
qed

lemma restoring_kept: "restoring s e w \<Longrightarrow> kept (Temp s) w"
  by (auto simp: restoring_def kept_def)

lemma swapped_names_ok:
  assumes "names_ok w" "ew_names w a = Some i" "ew_names w b = Some j"
  shows "names_ok (w\<lparr>ew_names := (ew_names w)(a := Some j, b := Some i)\<rparr>)"
  using assms unfolding names_ok_def by auto

text \<open>One exchange of the recovery: it is over, or it expects what it has just put at the target.\<close>

lemma restoring_swap:
  assumes r: "restoring s e w" and n: "ew_names w (Temp s) = Some c" "ew_names w Target = Some x"
    and w': "w' = w\<lparr>ew_names := (ew_names w)(Temp s := Some x, Target := Some c)\<rparr>"
  shows "kept (Temp s) w'" "names_ok w'" "x = e \<Longrightarrow> synced w'" "x \<noteq> e \<Longrightarrow> restoring s c w'"
proof -
  have l: "c < length (ew_files w)" "x < length (ew_files w)" "c \<noteq> e" using r n by (auto simp: restoring_def names_ok_def)
  show ok: "names_ok w'" unfolding w' by (rule swapped_names_ok) (use r n in \<open>auto simp: restoring_def\<close>)
  show "kept (Temp s) w'" "x = e \<Longrightarrow> synced w'" using r n l(3) by (auto simp: w' kept_def synced_def restoring_def)
  show "restoring s c w'" if "x \<noteq> e"
  proof -
    have "ew_newest w = Some x" "x \<noteq> c" using r n that by (auto simp: restoring_def)
    then show ?thesis using r l ok by (auto simp: restoring_def w' unique_numbers_def)
  qed
qed

lemma and_edit_cases:
  assumes "and_edit r f = (x, w')"
  obtains (fail) e where "r = (Inl e, w')" "x = Inl e" | (ok) a w1 where "r = (Inr a, w1)" "f a w1 = (x, w')"
proof (cases r)
  case (Pair s w1)
  show ?thesis
  proof (cases s)
    case (Inl e)
    then have "r = (Inl e, w')" "x = Inl e" using assms Pair by (auto simp: and_edit_def)
    then show ?thesis by (rule fail)
  next
    case (Inr a)
    then show ?thesis using assms Pair ok by (auto simp: and_edit_def)
  qed
qed

lemma answered_cases:
  "answered e r = (Inl x, w') \<Longrightarrow> r = (None, w') \<and> x = e" "answered e r = (Inr a, w') \<Longrightarrow> r = (Some a, w')"
  by (cases r; cases "fst r"; simp add: answered_def)+

lemma done_or_cases:
  "done_or e r = (Inl x, w') \<Longrightarrow> r = (False, w') \<and> x = e" "done_or e r = (Inr a, w') \<Longrightarrow> r = (True, w')"
  by (cases r; cases "fst r"; simp add: done_or_def)+

lemma restore_effect_edit:
  assumes "keeps ev"
  shows "restoring s e w \<Longrightarrow> restore_exchanges k ev (Temp s) (file_identity (ew_files w ! e)) w = (r, w') \<Longrightarrow>
    kept (Temp s) w' \<and> names_ok w' \<and> ew_accepted w' = ew_accepted w \<and> (r = Inr () \<longrightarrow> synced w')"
proof (induction k arbitrary: e w)
  case 0
  then show ?case using restoring_kept by (auto simp: restoring_def)
next
  case (Suc k)
  let ?exp = "file_identity (ew_files w ! e)"
  from Suc.prems(2) [unfolded restore_exchanges.simps] show ?case
  proof (cases rule: and_edit_cases)
    case (fail x)
    have d: "drift (keeps ev) w w'" using stat_name_drift [OF drift_refl, of ev w "Temp s"] answered_cases(1) [OF fail(1)] by simp
    then have "restoring s e w'" using drift_restoring assms Suc.prems(1) by simp
    then show ?thesis using restoring_kept drift_parts(2) [OF d] fail(2) by (auto simp: restoring_def)
  next
    case (ok candidate w1)
    note st1 = stat_name_Some [OF answered_cases(2) [OF ok(1)]]
    have d1: "drift (keeps ev) w w1" unfolding st1(1) by (rule pass_drift [OF drift_refl])
    have r1: "restoring s e w1" using drift_restoring d1 assms Suc.prems(1) by simp
    from ok(2) show ?thesis
    proof (cases rule: and_edit_cases)
      case (fail x)
      have "w' = pass ev w1" using exchange_failed done_or_cases(1) [OF fail(1)] by blast
      then have d2: "drift (keeps ev) w1 w'" using pass_drift [OF drift_refl] by simp
      then have "restoring s e w'" using drift_restoring assms r1 by simp
      then show ?thesis using restoring_kept drift_parts(2) [OF d1] drift_parts(2) [OF d2] fail(2) by (auto simp: restoring_def)
    next
      case x: (ok u w2)
      obtain c y where sw: "ew_names (pass ev w1) (Temp s) = Some c" "ew_names (pass ev w1) Target = Some y"
        "w2 = (pass ev w1)\<lparr>ew_names := (ew_names (pass ev w1))(Temp s := Some y, Target := Some c)\<rparr>"
        using exchange_swapped [OF done_or_cases(2) [OF x(1)]] by blast
      have d2: "drift (keeps ev) w1 (pass ev w1)" by (rule pass_drift [OF drift_refl])
      have r2: "restoring s e (pass ev w1)" using drift_restoring d2 assms r1 by simp
      note sp = restoring_swap [OF r2 sw]
      have acc: "ew_accepted w2 = ew_accepted w" using drift_parts(2) [OF d1] drift_parts(2) [OF d2] sw(3) by simp
      from x(2) show ?thesis
      proof (cases rule: and_edit_cases)
        case (fail z)
        have d3: "drift (keeps ev) w2 w'" using stat_name_drift [OF drift_refl, of ev w2 "Temp s"] answered_cases(1) [OF fail(1)] by simp
        show ?thesis using drift_kept [OF d3 sp(1)] drift_parts(2,3) [OF d3] sp(2) acc fail(2) by simp
      next
        case dp: (ok displaced w3)
        note st3 = stat_name_Some [OF answered_cases(2) [OF dp(1)]]
        have d3: "drift (keeps ev) w2 w3" unfolding st3(1) by (rule pass_drift [OF drift_refl])
        have y3: "displaced = ew_files w3 ! y" using st3(2) drift_parts(1) [OF d3, of s] sw(3) by simp
        have el: "e < length (ew_files w)" "e < length (ew_files w1)" "e < length (ew_files (pass ev w1))" "names_ok (pass ev w1)"
          "unique_numbers (pass ev w1)"
          using Suc.prems(1) r1 r2 by (auto simp: restoring_def)
        have yl: "y < length (ew_files (pass ev w1))" using el(4) sw(2) by (simp add: names_ok_def)
        have ide: "file_identity (ew_files w3 ! e) = ?exp"
          using drift_parts(6) [OF d1 el(1)] drift_parts(6) [OF d2 el(2)] drift_parts(6) [OF d3, of e] el(3) sw(3) by simp
        show ?thesis
        proof (cases "file_identity displaced = ?exp")
          case True
          have "unique_numbers w3" using drift_parts(4) [OF d3 assms] el(5) sw(3) by (simp add: unique_numbers_def)
          moreover have "e < length (ew_files w3)" "y < length (ew_files w3)" using drift_parts(5) [OF d3] el(3) yl sw(3) by simp_all
          ultimately have "y = e" using unique_index [of w3 y e] ide True y3 by simp
          then have "synced w3" using drift_synced [OF d3] sp(3) by simp
          then show ?thesis using dp(2) True drift_kept [OF d3 sp(1)] drift_parts(2,3) [OF d3] sp(2) acc by simp
        next
          case False
          then have "y \<noteq> e" using ide y3 by auto
          then have r3: "restoring s c w3" using sp(4) drift_restoring d3 assms by simp
          have "candidate = ew_files w1 ! c" using st1(2) sw(1) drift_parts(1) [OF d2, of s] by simp
          moreover have "c < length (ew_files w1)" using restoring_hidden [OF r1] sw(1) drift_parts(1) [OF d2, of s] by simp
          ultimately have "file_identity candidate = file_identity (ew_files w3 ! c)"
            using drift_parts(6) [OF d2, of c] drift_parts(6) [OF d3, of c] drift_parts(5) [OF d2] sw(3) by simp
          then have "restore_exchanges k ev (Temp s) (file_identity (ew_files w3 ! c)) w3 = (r, w')" using dp(2) False by simp
          then show ?thesis using Suc.IH [OF r3] drift_parts(2) [OF d3] acc by simp
        qed
      qed
    qed
  qed
qed

section \<open>Reading\<close>

text \<open>A read only lets others act; a file whose change time is the same has not changed in between.\<close>

definition aged :: "nat \<Rightarrow> edit_world \<Rightarrow> edit_world \<Rightarrow> bool" where
  "aged i w w' \<longleftrightarrow> i < length (ew_files w) \<longrightarrow> i < length (ew_files w')
     \<and> fn_ctime (ew_files w ! i) \<le> fn_ctime (ew_files w' ! i)
     \<and> (fn_ctime (ew_files w ! i) = fn_ctime (ew_files w' ! i) \<longrightarrow> ew_files w ! i = ew_files w' ! i)"

lemma aged_refl [simp]: "aged i w w"
  by (simp add: aged_def)

lemma aged_trans: "aged i u v \<Longrightarrow> aged i v w \<Longrightarrow> aged i u w"
  unfolding aged_def by (cases "i < length (ew_files u)") auto

lemma act_aged: "aged i w (act k a w)"
proof (cases a)
  case (Change j f)
  then show ?thesis by (cases "i = j") (simp_all add: aged_def Let_def)
qed (simp_all add: aged_def nth_append)

lemma pass_aged: "aged i w v \<Longrightarrow> aged i w (pass ev v)"
proof -
  assume a: "aged i w v"
  have "aged i v (fold (act k) as v)" for k as v
    by (induction as arbitrary: v) (auto intro: aged_trans act_aged)
  from this [of v "xe_keeps_numbers ev" "xe_others ev (ew_clock v)"] have "aged i v (pass ev v)" by (simp add: pass_def aged_def)
  then show ?thesis by (rule aged_trans [OF a])
qed

lemma stat_file_Some: "stat_file ev i w = (Some f, w') \<Longrightarrow> w' = pass ev w \<and> f = ew_files w' ! i"
  by (auto simp: stat_file_def ask_def split: if_splits)

lemma stat_file_aged: "stat_file ev i w = (r, w') \<Longrightarrow> aged j w w'"
  by (auto simp: stat_file_def ask_def intro: pass_aged)

lemma read_values_aged: "aged j w v \<Longrightarrow> aged j w (snd (read_values ev i ns used v))"
proof (induction ns arbitrary: used v)
  case (Cons n ns)
  obtain r v1 where 1: "stat_file ev i v = (r, v1)" by (rule prod.exhaust)
  have a1: "aged j w v1" by (rule aged_trans [OF Cons.prems stat_file_aged [OF 1]])
  have "aged j w (snd (read_values ev i ns u v1))" for u by (rule Cons.IH [OF a1])
  then show ?case using a1 by (cases r) (simp_all add: 1 answered_def and_edit_def case_prod_beta split: option.splits sum.splits)
qed simp

lemma read_security_aged:
  assumes "read_security_metadata ev i w = (r, w')"
  shows "aged j w w'"
proof -
  obtain q v where 1: "stat_file ev i w = (q, v)" by (rule prod.exhaust)
  have a: "aged j w v" by (rule stat_file_aged [OF 1])
  have "w' = v \<or> (\<exists>ns u. w' = snd (read_values ev i ns u v))"
    using assms by (cases q) (auto simp: read_security_metadata_def list_xattrs_def 1 answered_def and_edit_def Let_def split: if_splits,
      metis snd_conv)
  then show ?thesis using a read_values_aged by auto
qed

lemma read_complete_text_Inr:
  assumes "read_complete_text ev i m w = (Inr bytes, w')"
  shows "w' = pass ev w" "bytes = fn_bytes (ew_files w' ! i)" "fn_uid m = xe_euid ev"
  using assms by (auto simp: read_complete_text_def validate_edit_target_def and_edit_def answered_def stat_file_def ask_def Let_def
      split: if_splits prod.splits option.splits)

definition verified :: "edit_env \<Rightarrow> string \<Rightarrow> edit_world \<Rightarrow> bool" where
  "verified ev hash w \<longleftrightarrow> (\<forall>i f. ew_accepted w = Some (i, f) \<longrightarrow>
     xe_sha ev (fn_bytes f) = hash \<and> fn_type f = Regular \<and> fn_nlink f = 1 \<and> fn_uid f = xe_euid ev)"

lemma check_displaced_Some:
  assumes c: "check_displaced ev original security hash i m w = (Some f, w')" and m: "m = ew_files w ! i" "i < length (ew_files w)"
  shows "xe_sha ev (fn_bytes f) = hash \<and> fn_type f = Regular \<and> fn_nlink f = 1 \<and> fn_uid f = xe_euid ev"
proof -
  obtain r1 w1 where 1: "read_complete_text ev i m w = (r1, w1)" by (rule prod.exhaust)
  obtain r2 w2 where 2: "read_security_metadata ev i w1 = (r2, w2)" by (rule prod.exhaust)
  obtain r3 w3 where 3: "stat_file ev i w2 = (r3, w3)" by (rule prod.exhaust)
  have id: "same_edit_identity original m" using c by (auto simp: check_displaced_def split: if_splits)
  obtain bytes where b: "r1 = Inr bytes" using c id by (cases r1) (auto simp: check_displaced_def 1)
  obtain current where cu: "r2 = Inr current" using c id b by (cases r2) (auto simp: check_displaced_def 1 2)
  obtain after where af: "r3 = Some after" using c id b cu by (cases r3) (auto simp: check_displaced_def 1 2 3)
  have s: "same_edit_state m after" "xe_sha ev bytes = hash" "f = after"
    using c id b cu af by (auto simp: check_displaced_def 1 2 3 split: if_splits)
  note rd = read_complete_text_Inr [OF 1 [unfolded b]]
  have a1: "aged i w w1" unfolding rd(1) by (rule pass_aged [OF aged_refl])
  have a3: "aged i w1 w3" by (rule aged_trans [OF read_security_aged [OF 2] stat_file_aged [OF 3]])
  have f3: "f = ew_files w3 ! i" using stat_file_Some [OF 3 [unfolded af]] s(3) by simp
  have "fn_ctime (ew_files w ! i) = fn_ctime (ew_files w3 ! i)" using s(1,3) f3 m(1) by (simp add: same_edit_state_def)
  then have "ew_files w1 ! i = ew_files w3 ! i" using a1 a3 m(2) unfolding aged_def by auto
  then have "bytes = fn_bytes f" using rd(2) f3 by simp
  then show ?thesis using s rd(3) by (auto simp: same_edit_state_def same_edit_identity_def)
qed

section \<open>The displaced file\<close>

lemma open_at_Some:
  assumes "open_at ev n w = (Some i, w')"
  shows "ew_names (pass ev w) n = Some i" "w' = hold i (pass ev w)"
  using assms by (auto simp: open_at_def ask_def split: option.splits if_splits)

lemma opened_name:
  assumes "open_edit_target_at ev (Temp s) w = (Inr (i, m), w')"
  shows "ew_names w (Temp s) = Some i \<and> m = ew_files w' ! i"
  using assms [unfolded open_edit_target_at_def]
proof (cases rule: and_edit_cases)
  case (ok found w1)
  have d1: "drift (keeps ev) w w1" using stat_name_drift [OF drift_refl, of ev w "Temp s"] answered_cases(2) [OF ok(1)] by simp
  have "fn_type found = Regular" using ok(2) by (auto split: if_splits)
  then have "and_edit (answered (ws_not_found ''project file could not be opened safely'') (open_at ev (Temp s) w1)) (\<lambda>i w2.
         case stat_file ev i w2 of
           (None, w3) \<Rightarrow> (Inl (ws_not_found ''project file could not be inspected''), close_file i w3)
         | (Some m, w3) \<Rightarrow>
             if number found \<noteq> number m \<or> fn_type m \<noteq> Regular
             then (Inl (ws_not_found ''project file was not found''), close_file i w3)
             else (Inr (i, m), w3)) = (Inr (i, m), w')" using ok(2) by simp
  then show ?thesis
  proof (cases rule: and_edit_cases)
    case (ok j w2)
    have "ew_names (pass ev w1) (Temp s) = Some j" using open_at_Some(1) answered_cases(2) [OF ok(1)] by blast
    moreover have "j = i" using ok(2) by (auto split: prod.splits option.splits if_splits)
    moreover have "m = ew_files w' ! i" using ok(2) stat_file_Some by (fastforce split: prod.splits option.splits if_splits)
    ultimately show ?thesis using drift_parts(1) [OF d1, of s] drift_parts(1) [OF pass_drift [OF drift_refl], of ev w1 s] by simp
  qed simp
qed simp

lemma named_matches_effect:
  assumes "named_file_matches ev (Temp s) original security hash w = (b, w')"
  shows "\<not> b \<Longrightarrow> drift (keeps ev) w w'"
    and "b \<Longrightarrow> \<exists>i f v. ew_names w (Temp s) = Some i \<and> ew_accepted w' = Some (i, f) \<and> drift (keeps ev) w v \<and> w' = v\<lparr>ew_accepted := Some (i, f)\<rparr>"
    and "b \<Longrightarrow> names_ok w \<Longrightarrow> verified ev hash w'"
proof -
  obtain ro w1 where 1: "open_edit_target_at ev (Temp s) w = (ro, w1)" by (rule prod.exhaust)
  have d1: "drift (keeps ev) w w1" using open_edit_target_at_drift [OF drift_refl, of ev w "Temp s"] by (simp add: 1)
  have all: "(\<not> b \<longrightarrow> drift (keeps ev) w w') \<and> (b \<longrightarrow> (\<exists>i f v. ew_names w (Temp s) = Some i \<and> ew_accepted w' = Some (i, f)
    \<and> drift (keeps ev) w v \<and> w' = v\<lparr>ew_accepted := Some (i, f)\<rparr>)) \<and> (b \<longrightarrow> names_ok w \<longrightarrow> verified ev hash w')"
  proof (cases ro)
    case (Inl e)
    then show ?thesis using assms d1 by (simp add: named_file_matches_def 1)
  next
    case (Inr t)
    obtain i m where t: "t = (i, m)" by (rule prod.exhaust)
    obtain rc w2 where 2: "check_displaced ev original security hash i m w1 = (rc, w2)" by (rule prod.exhaust)
    have d2: "drift (keeps ev) w (close_file i w2)" using check_displaced_drift [OF d1, of original security hash i m] hold_drift(2) by (simp add: 2)
    have n: "ew_names w (Temp s) = Some i" "m = ew_files w1 ! i" using opened_name [OF 1 [unfolded Inr t]] by simp_all
    have "verified ev hash w'" if bb: "b" and ok: "names_ok w"
    proof -
      obtain f where f: "rc = Some f" "ew_accepted w' = Some (i, f)" using assms bb by (cases rc) (auto simp: named_file_matches_def 1 Inr t 2)
      have "i < length (ew_files w1)" using ok n(1) drift_parts(5) [OF d1] unfolding names_ok_def by (meson order_less_le_trans)
      then show ?thesis using check_displaced_Some [OF 2 [unfolded f(1)] n(2)] f(2) by (simp add: verified_def)
    qed
    then show ?thesis using assms d2 n(1) by (cases rc) (auto simp: named_file_matches_def 1 Inr t 2)
  qed
  show "b \<Longrightarrow> names_ok w \<Longrightarrow> verified ev hash w'" using all by blast
  show "\<not> b \<Longrightarrow> drift (keeps ev) w w'"
    and "b \<Longrightarrow> \<exists>i f v. ew_names w (Temp s) = Some i \<and> ew_accepted w' = Some (i, f) \<and> drift (keeps ev) w v \<and> w' = v\<lparr>ew_accepted := Some (i, f)\<rparr>"
    using all by blast+
qed

section \<open>Removing the hidden file\<close>

lemma unlink_effect:
  assumes "unlink_name ev (Temp s) w = (ok, w')"
  shows "synced w \<Longrightarrow> synced w'" "settled w \<Longrightarrow> settled w'" "ew_accepted w' = ew_accepted w"
proof -
  have d: "drift (keeps ev) w (pass ev w)" by (rule pass_drift [OF drift_refl])
  have w': "w' = pass ev w \<or> w' = (pass ev w)\<lparr>ew_names := (ew_names (pass ev w))(Temp s := None)\<rparr>"
    using assms by (auto simp: unlink_name_def ask_def split: if_splits)
  show "synced w \<Longrightarrow> synced w'" using w' drift_synced [OF d] by (auto simp: synced_def)
  show "settled w \<Longrightarrow> settled w'" using w' drift_settled [OF d] by (auto simp: settled_def)
  show "ew_accepted w' = ew_accepted w" using w' drift_parts(2) [OF d] by auto
qed

lemma remove_effect:
  assumes "remove_and_sync ev (Temp s) w = (r, armed, w')"
  shows "synced w \<Longrightarrow> synced w'" "settled w \<Longrightarrow> settled w'" "ew_accepted w' = ew_accepted w"
    and "r = Inl e \<Longrightarrow> we_kind e = Ws_internal"
proof -
  obtain ok w1 where 1: "unlink_name ev (Temp s) w = (ok, w1)" by (rule prod.exhaust)
  note u = unlink_effect [OF 1]
  have d: "drift (keeps ev) w1 (pass ev w1)" by (rule pass_drift [OF drift_refl])
  have w': "w' = w1 \<or> w' = pass ev w1" and k: "r = Inl e \<Longrightarrow> we_kind e = Ws_internal"
    using assms by (auto simp: remove_and_sync_def 1 ask_def split: bool.splits if_splits)
  show "synced w \<Longrightarrow> synced w'" using w' u(1) drift_synced [OF d] by auto
  show "settled w \<Longrightarrow> settled w'" using w' u(2) drift_settled [OF d] by auto
  show "ew_accepted w' = ew_accepted w" using w' u(3) drift_parts(2) [OF d] by auto
  show "r = Inl e \<Longrightarrow> we_kind e = Ws_internal" by (rule k)
qed

lemma drop_effect:
  shows "synced w \<Longrightarrow> synced (drop_temp ev (Temp s) armed w)" "settled w \<Longrightarrow> settled (drop_temp ev (Temp s) armed w)"
    "ew_accepted (drop_temp ev (Temp s) armed w) = ew_accepted w"
proof -
  obtain ok w1 where 1: "unlink_name ev (Temp s) w = (ok, w1)" by (rule prod.exhaust)
  note u = unlink_effect [OF 1]
  have d: "drift (keeps ev) w1 (pass ev w1)" by (rule pass_drift [OF drift_refl])
  have t: "drop_temp ev (Temp s) armed w = (if armed then pass ev w1 else w)" by (simp add: drop_temp_def 1 ask_def)
  show "synced w \<Longrightarrow> synced (drop_temp ev (Temp s) armed w)" using u(1) drift_synced [OF d] by (simp add: t)
  show "settled w \<Longrightarrow> settled (drop_temp ev (Temp s) armed w)" using u(2) drift_settled [OF d] by (simp add: t)
  show "ew_accepted (drop_temp ev (Temp s) armed w) = ew_accepted w" using u(3) drift_parts(2) [OF d] by (simp add: t)
qed

section \<open>The exchange\<close>

text \<open>
  What an edit may leave: the file that others put at the target last is there, or it is the one that was accepted and
  replaced, or the recovery gave up and it is kept under the hidden name; a refusal leaves it at the target.
\<close>

definition nothing_lost :: "'a workspace_result \<Rightarrow> nat \<Rightarrow> edit_world \<Rightarrow> bool" where
  "nothing_lost r s w \<longleftrightarrow> (settled w \<or> kept (Temp s) w) \<and> (\<forall>e. r = Inl e \<longrightarrow> we_kind e \<noteq> Ws_internal \<longrightarrow> synced w)"

definition staged :: "nat \<Rightarrow> nat \<Rightarrow> edit_world \<Rightarrow> bool" where
  "staged s t w \<longleftrightarrow> synced w \<and> names_ok w \<and> unique_numbers w \<and> ew_names w (Temp s) = Some t \<and> t < length (ew_files w) \<and> ew_newest w \<noteq> Some t"

lemma drift_staged: "drift True w v \<Longrightarrow> staged s t w \<Longrightarrow> staged s t v"
  using drift_synced [of True w v] unfolding staged_def by (auto simp: drift_def)

lemma staged_swap:
  assumes "staged s t w" "ew_names w (Temp s) = Some i" "ew_names w Target = Some j"
  shows "restoring s t (w\<lparr>ew_names := (ew_names w)(Temp s := Some j, Target := Some i)\<rparr>)"
proof -
  have "names_ok (w\<lparr>ew_names := (ew_names w)(Temp s := Some j, Target := Some i)\<rparr>)"
    by (rule swapped_names_ok) (use assms in \<open>auto simp: staged_def\<close>)
  then show ?thesis using assms by (auto simp: restoring_def staged_def synced_def unique_numbers_def)
qed

lemma commit_effect:
  assumes k: "keeps ev" and st: "staged s t w" and c: "commit_edit ev (Temp s) t original security hash w = (r, armed, w')"
  shows "nothing_lost r s w'" "armed \<Longrightarrow> settled w'" "r = Inr () \<Longrightarrow> settled w' \<and> ew_accepted w' \<noteq> None"
    and "ew_accepted w' = ew_accepted w \<or> verified ev hash w'"
proof -
  obtain ot w1 where 1: "stat_file ev t w = (ot, w1)" by (rule prod.exhaust)
  have d1: "drift True w w1" using stat_file_drift [OF drift_refl, of ev w t] k by (simp add: 1)
  have s1: "staged s t w1" by (rule drift_staged [OF d1 st])
  have syn: "synced v \<Longrightarrow> nothing_lost q s v" "synced v \<Longrightarrow> settled v" for q :: "unit workspace_result" and v
    by (auto simp: nothing_lost_def synced_def settled_def)
  have inl: "settled v \<or> kept (Temp s) v \<Longrightarrow> we_kind e = Ws_internal \<Longrightarrow> nothing_lost (Inl e :: unit workspace_result) s v" for e v
    by (auto simp: nothing_lost_def)
  have all: "nothing_lost r s w' \<and> (armed \<longrightarrow> settled w') \<and> (r = Inr () \<longrightarrow> settled w' \<and> ew_accepted w' \<noteq> None)
    \<and> (ew_accepted w' = ew_accepted w \<or> verified ev hash w')"
  proof (cases ot)
    case None
    then have "w' = w1" "\<exists>e. r = Inl e" using c by (auto simp: commit_edit_def 1)
    then show ?thesis using syn s1 drift_parts(2) [OF d1] by (auto simp: staged_def)
  next
    case (Some temporary)
    have tmp: "temporary = ew_files w1 ! t" using 1 Some by (auto simp: stat_file_def ask_def split: if_splits)
    obtain ok w2 where 2: "exchange_files ev (Temp s) Target w1 = (ok, w2)" by (rule prod.exhaust)
    have dp: "drift True w1 (pass ev w1)" using pass_drift [OF drift_refl, of ev w1] k by simp
    have sp: "staged s t (pass ev w1)" by (rule drift_staged [OF dp s1])
    show ?thesis
    proof (cases ok)
      case False
      then have "w2 = pass ev w1" using exchange_failed 2 by simp
      then have "w' = pass ev w1" "\<exists>e. r = Inl e" using c Some False by (auto simp: commit_edit_def 1 2)
      then show ?thesis using syn sp drift_parts(2) [OF d1] drift_parts(2) [OF dp] by (auto simp: staged_def)
    next
      case True
      obtain i j where sw: "ew_names (pass ev w1) (Temp s) = Some i" "ew_names (pass ev w1) Target = Some j"
        "w2 = (pass ev w1)\<lparr>ew_names := (ew_names (pass ev w1))(Temp s := Some j, Target := Some i)\<rparr>"
        using exchange_swapped [OF 2 [unfolded True [THEN eqTrueI]]] by blast
      have r2: "restoring s t w2" unfolding sw(3) by (rule staged_swap [OF sp sw(1,2)])
      obtain b w3 where 3: "named_file_matches ev (Temp s) original security hash w2 = (b, w3)" by (rule prod.exhaust)
      note m = named_matches_effect [OF 3]
      show ?thesis
      proof (cases b)
        case True
        obtain o1 f v where a: "ew_names w2 (Temp s) = Some o1" "ew_accepted w3 = Some (o1, f)" "drift True w2 v" "w3 = v\<lparr>ew_accepted := Some (o1, f)\<rparr>"
          using m(2) [OF True] k by auto
        have "kept (Temp s) v" "ew_names v (Temp s) = Some o1"
          using drift_kept [OF a(3) restoring_kept [OF r2]] drift_parts(1) [OF a(3)] a(1) by simp_all
        then have s3: "settled w3" using a(2,4) by (auto simp: settled_def kept_def)
        have rm: "remove_and_sync ev (Temp s) w3 = (r, armed, w')" using c Some \<open>ok\<close> True by (simp add: commit_edit_def 1 2 3)
        note R = remove_effect [OF rm]
        have "nothing_lost r s w'" using R(2) [OF s3] R(4) by (cases r) (auto simp: nothing_lost_def)
        moreover have "verified ev hash w'" using m(3) True r2 R(3) by (simp add: verified_def restoring_def)
        ultimately show ?thesis using R(2) [OF s3] R(3) a(2) by simp
      next
        case False
        have d3: "drift True w2 w3" using m(1) [OF False] k by simp
        have ac: "ew_accepted w3 = ew_accepted w"
          using drift_parts(2) [OF d1] drift_parts(2) [OF dp] drift_parts(2) [OF d3] sw(3) by simp
        have r3: "restoring s t w3" by (rule drift_restoring [OF d3 r2])
        have "t < length (ew_files w1)" "t < length (ew_files (pass ev w1))" using s1 sp by (auto simp: staged_def)
        then have id: "file_identity temporary = file_identity (ew_files w3 ! t)"
          using drift_parts(6) [OF dp] drift_parts(6) [OF d3, of t] tmp sw(3) by simp
        obtain rr w4 where 4: "restore_after_failed_exchange ev (Temp s) temporary w3 = (rr, w4)" by (rule prod.exhaust)
        note R = restore_effect_edit [OF k r3 4 [unfolded restore_after_failed_exchange_def id]]
        show ?thesis
        proof (cases rr)
          case (Inl e)
          then have "w' = w4" "r = Inl (ws_internal ''project file conflict recovery could not complete safely'')" "\<not> armed"
            using c Some \<open>ok\<close> False by (simp_all add: commit_edit_def 1 2 3 4)
          then show ?thesis using R ac by (simp add: nothing_lost_def)
        next
          case (Inr u)
          then have s4: "synced w4" using R by simp
          obtain r5 a5 w5 where 5: "remove_and_sync ev (Temp s) w4 = (r5, a5, w5)" by (metis prod.exhaust)
          have s5: "synced w5" by (rule remove_effect(1) [OF 5 s4])
          have "w' = w5 \<and> (\<exists>e. r = Inl e)" using c Some \<open>ok\<close> False Inr by (cases r5) (auto simp: commit_edit_def 1 2 3 4 5)
          then show ?thesis using syn s5 remove_effect(3) [OF 5] R ac by auto
        qed
      qed
    qed
  qed
  show "nothing_lost r s w'" "armed \<Longrightarrow> settled w'" "r = Inr () \<Longrightarrow> settled w' \<and> ew_accepted w' \<noteq> None"
    "ew_accepted w' = ew_accepted w \<or> verified ev hash w'" using all by blast+
qed

section \<open>The whole edit\<close>

lemma fold_max_bound: "y \<le> fold max xs (y :: nat)" "x \<in> set xs \<Longrightarrow> x \<le> fold max xs (y :: nat)"
proof -
  have "z \<le> y \<or> z \<in> set xs \<Longrightarrow> z \<le> fold max xs (y :: nat)" for z xs y
  proof (induction xs arbitrary: y)
    case (Cons a xs)
    have "z \<le> max a y \<or> z \<in> set xs" using Cons.prems by auto
    then show ?case using Cons.IH by simp
  qed simp
  then show "y \<le> fold max xs y" "x \<in> set xs \<Longrightarrow> x \<le> fold max xs y" by simp_all
qed

lemma fresh_number_new: "f \<in> set (ew_files w) \<Longrightarrow> fn_ino f < fresh_number w"
  using fold_max_bound(2) [of "fn_ino f" "map fn_ino (ew_files w)" 0] by (simp add: fresh_number_def less_Suc_eq_le)

lemma create_effect:
  assumes "keeps ev"
  shows "create_edit_temp k ev w = (r, w') \<Longrightarrow> synced w \<Longrightarrow> names_ok w \<Longrightarrow> unique_numbers w \<Longrightarrow>
    ew_accepted w' = ew_accepted w \<and> synced w' \<and> (\<forall>s t. r = Inr (s, t) \<longrightarrow> staged s t w')"
proof (induction k arbitrary: w)
  case (Suc k)
  let ?w = "w\<lparr>ew_sequence := Suc (ew_sequence w)\<rparr>"
  let ?s = "ew_sequence w"
  let ?v = "pass ev ?w"
  have d: "drift True w ?v" using pass_drift [of ev w ?w] assms by simp
  have v: "synced ?v" "names_ok ?v" "unique_numbers ?v" "ew_accepted ?v = ew_accepted w"
    using drift_synced [OF d Suc.prems(2)] drift_parts(2,3,4) [OF d] Suc.prems by simp_all
  show ?case
  proof (cases "ew_names ?v (Temp ?s) \<noteq> None")
    case True
    then have "create_edit_temp k ev ?v = (r, w')" using Suc.prems(1) by (simp add: ask_def Let_def)
    then show ?thesis using Suc.IH [OF _ v(1,2,3)] v(4) by simp
  next
    case free: False
    show ?thesis
    proof (cases "xe_ok ev (ew_clock w)")
      case False
      then have "w' = ?v" "\<exists>e. r = Inl e" using Suc.prems(1) free by (auto simp: ask_def Let_def)
      then show ?thesis using v by auto
    next
      case True
      let ?f = "(xe_created ev)\<lparr>fn_ino := fresh_number ?v, fn_type := Regular, fn_uid := xe_euid ev, fn_mode := 384, fn_nlink := 1, fn_bytes := []\<rparr>"
      let ?t = "length (ew_files ?v)"
      have w': "w' = hold ?t (?v\<lparr>ew_files := ew_files ?v @ [?f], ew_names := (ew_names ?v)(Temp ?s := Some ?t)\<rparr>)" "r = Inr (?s, ?t)"
        using Suc.prems(1) free True by (simp_all add: ask_def Let_def)
      have "number ?f \<notin> number ` set (ew_files ?v)" using fresh_number_new [of _ ?v] by (fastforce simp: number_def)
      then have "unique_numbers w'" using v(3) w'(1) by (auto simp: unique_numbers_def hold_def)
      moreover have "names_ok w'" using v(2) w'(1) unfolding names_ok_def hold_def by (auto simp: less_Suc_eq)
      moreover have "ew_newest ?v \<noteq> Some ?t" using v(2) unfolding names_ok_def by blast
      moreover have "synced w'" using v(1) w'(1) by (simp add: synced_def hold_def)
      ultimately show ?thesis using w' v(4) by (simp add: staged_def hold_def)
    qed
  qed
qed auto

lemma close_keeps:
  "synced (close_file i w) = synced w" "settled (close_file i w) = settled w" "kept n (close_file i w) = kept n w"
  "ew_accepted (close_file i w) = ew_accepted w" "nothing_lost r s (close_file i w) = nothing_lost r s w"
  by (simp_all add: close_file_def synced_def settled_def kept_def nothing_lost_def)

lemma synced_nothing_lost: "synced w \<Longrightarrow> nothing_lost r s w"
  by (simp add: nothing_lost_def synced_def settled_def)

lemma staged_edit_effect:
  assumes k: "keeps ev" and w: "synced w" "names_ok w" "unique_numbers w"
    and e: "edit_staged ev parent original security content hash w = (r, w')"
  shows "\<exists>s. nothing_lost r s w'" "r = Inr () \<Longrightarrow> settled w' \<and> ew_accepted w' \<noteq> None"
    and "ew_accepted w' = ew_accepted w \<or> verified ev hash w'"
proof -
  have all: "(\<exists>s. nothing_lost r s w') \<and> (r = Inr () \<longrightarrow> settled w' \<and> ew_accepted w' \<noteq> None)
    \<and> (ew_accepted w' = ew_accepted w \<or> verified ev hash w')"
    using e [unfolded edit_staged_def]
  proof (cases rule: and_edit_cases)
    case (fail x)
    then have "synced w'" "ew_accepted w' = ew_accepted w" using create_effect [OF k _ w] by blast+
    then show ?thesis using synced_nothing_lost fail(2) by blast
  next
    case (ok p w1)
    obtain s t where p: "p = (s, t)" by (rule prod.exhaust)
    have st: "staged s t w1" using create_effect [OF k ok(1) w] p by blast
    obtain r2 w2 where 2: "prepare_temporary ev t original security content w1 = (r2, w2)" by (rule prod.exhaust)
    have a1: "ew_accepted w1 = ew_accepted w" using create_effect [OF k ok(1) w] by blast
    have a2: "ew_accepted w2 = ew_accepted w1" using drift_parts(2) [OF prepare_drift [OF drift_refl, of ev w1 t original security content]] by (simp add: 2)
    have s2: "staged s t w2" using prepare_drift [OF drift_refl, of ev w1 t original security content] drift_staged [OF _ st] k by (simp add: 2)
    obtain r3 w3 where 3: "revalidate_edit_path ev parent original security hash w2 = (r3, w3)" by (rule prod.exhaust)
    have a3: "ew_accepted w3 = ew_accepted w2" using drift_parts(2) [OF revalidate_drift [OF drift_refl, of ev w2 parent original security hash]] by (simp add: 3)
    have s3: "staged s t w3" using revalidate_drift [OF drift_refl, of ev w2 parent original security hash] drift_staged [OF _ s2] k by (simp add: 3)
    obtain rc armed w4 where 4: "commit_edit ev (Temp s) t original security hash w3 = (rc, armed, w4)" by (metis prod.exhaust)
    note C = commit_effect [OF k s3 4]
    have early: "synced v \<Longrightarrow> nothing_lost r s (close_file t (drop_temp ev (Temp s) True v))" for v
      by (simp add: close_keeps drop_effect(1) synced_nothing_lost)
    show ?thesis
    proof (cases r2)
      case (Inl x)
      then have "r = Inl x" "w' = close_file t (drop_temp ev (Temp s) True w2)" using ok(2) by (simp_all add: p 2)
      then show ?thesis using early s2 a1 a2 drop_effect(3) by (auto simp: staged_def close_keeps)
    next
      case r2: (Inr u)
      show ?thesis
      proof (cases r3)
        case (Inl x)
        then have "r = Inl x" "w' = close_file t (drop_temp ev (Temp s) True w3)" using ok(2) r2 by (simp_all add: p 2 3)
        then show ?thesis using early s3 a1 a2 a3 drop_effect(3) by (auto simp: staged_def close_keeps)
      next
        case (Inr u)
        then have rw: "r = rc" "w' = close_file t (drop_temp ev (Temp s) armed w4)" using ok(2) r2 by (simp_all add: p 2 3 4)
        have "nothing_lost r s w'"
        proof (cases armed)
          case True
          have "settled w'" using C(2) True drop_effect(2) by (simp add: rw close_keeps)
          moreover have "synced w'" if "synced w4" using drop_effect(1) that by (simp add: rw close_keeps)
          ultimately show ?thesis using C(1) rw(1) by (auto simp: nothing_lost_def)
        next
          case False
          then show ?thesis using C(1) rw by (simp add: close_keeps drop_temp_def)
        qed
        moreover have "ew_accepted w' = ew_accepted w4" using rw(2) drop_effect(3) by (simp add: close_keeps)
        ultimately show ?thesis using C(3,4) rw drop_effect(2) a1 a2 a3 by (auto simp: close_keeps verified_def)
      qed
    qed
  qed
  show "\<exists>s. nothing_lost r s w'" "r = Inr () \<Longrightarrow> settled w' \<and> ew_accepted w' \<noteq> None"
    "ew_accepted w' = ew_accepted w \<or> verified ev hash w'" using all by blast+
qed

lemma opened_edit_effect:
  assumes k: "keeps ev" and w: "synced w" "names_ok w" "unique_numbers w"
    and e: "edit_opened ev content hash parent i original w = (r, w')"
  shows "\<exists>s. nothing_lost r s w'" "r = Inr () \<Longrightarrow> settled w' \<and> ew_accepted w' \<noteq> None"
    and "ew_accepted w' = ew_accepted w \<or> verified ev hash w'"
proof -
  have dr: "synced v \<and> names_ok v \<and> unique_numbers v \<and> ew_accepted v = ew_accepted w" if "drift True w v" for v
    using drift_synced [OF that w(1)] drift_parts(2,3,4) [OF that] w by simp
  have all: "(\<exists>s. nothing_lost r s w') \<and> (r = Inr () \<longrightarrow> settled w' \<and> ew_accepted w' \<noteq> None)
    \<and> (ew_accepted w' = ew_accepted w \<or> verified ev hash w')"
    using e [unfolded edit_opened_def]
  proof (cases rule: and_edit_cases)
    case (fail x)
    then show ?thesis using synced_nothing_lost w(1) by auto
  next
    case v: (ok u w1)
    then have w1: "w1 = w" by simp
    from v(2) show ?thesis
    proof (cases rule: and_edit_cases)
      case (fail x)
      have "drift True w w'" using read_complete_text_drift [OF drift_refl, of ev w1 i original] fail(1) w1 k by simp
      then have "synced w'" "ew_accepted w' = ew_accepted w" using dr by blast+
      then show ?thesis using synced_nothing_lost fail(2) by blast
    next
      case rd: (ok bytes w2)
      have d2: "drift True w w2" using read_complete_text_drift [OF drift_refl, of ev w1 i original] rd(1) w1 k by simp
      show ?thesis
      proof (cases "xe_sha ev bytes = hash")
        case False
        then have "w' = w2" "\<exists>x. r = Inl x" using rd(2) by auto
        then show ?thesis using dr [OF d2] synced_nothing_lost by auto
      next
        case True
        then have "and_edit (read_security_metadata ev i w2) (\<lambda>security w3. edit_staged ev parent original security content hash w3) = (r, w')"
          using rd(2) by simp
        then show ?thesis
        proof (cases rule: and_edit_cases)
          case (fail x)
          have "drift True w w'" using read_security_drift [of ev w w2 i] d2 fail(1) k by simp
          then have "synced w'" "ew_accepted w' = ew_accepted w" using dr by blast+
      then show ?thesis using synced_nothing_lost fail(2) by blast
        next
          case (ok security w3)
          have d3: "drift True w w3" using read_security_drift [of ev w w2 i] d2 ok(1) k by simp
          show ?thesis using staged_edit_effect [OF k _ _ _ ok(2)] dr [OF d3] by metis
        qed
      qed
    qed
  qed
  show "\<exists>s. nothing_lost r s w'" "r = Inr () \<Longrightarrow> settled w' \<and> ew_accepted w' \<noteq> None"
    "ew_accepted w' = ew_accepted w \<or> verified ev hash w'" using all by blast+
qed

lemma write_file_effect:
  assumes k: "keeps ev" and w: "synced w" "names_ok w" "unique_numbers w" and e: "write_file ev project q w = (r, w')"
  shows "\<exists>s. nothing_lost r s w'" "r = Inr x \<Longrightarrow> settled w' \<and> ew_accepted w' \<noteq> None"
    and "ew_accepted w' = ew_accepted w \<or> verified ev (wr_expected_hash q) w'"
proof -
  have all: "(\<exists>s. nothing_lost r s w') \<and> (r = Inr x \<longrightarrow> settled w' \<and> ew_accepted w' \<noteq> None)
    \<and> (ew_accepted w' = ew_accepted w \<or> verified ev (wr_expected_hash q) w')"
    using e [unfolded write_file_def]
  proof (cases rule: and_edit_cases)
    case (fail y)
    then show ?thesis using synced_nothing_lost w(1) by auto
  next
    case v: (ok names w1)
    then have w1: "w1 = w" by simp
    from v(2) show ?thesis
    proof (cases rule: and_edit_cases)
      case (fail y)
      then show ?thesis using synced_nothing_lost w(1) w1 by auto
    next
      case pr: (ok u w2)
      then have w2: "w2 = w" using w1 by simp
      from pr(2) show ?thesis
      proof (cases rule: and_edit_cases)
        case (fail y)
        have "drift True w w'" using open_edit_target_drift [OF drift_refl, of ev w2] fail(1) w2 k by simp
        then have "synced w'" "ew_accepted w' = ew_accepted w" using drift_synced [OF _ w(1)] drift_parts(2) by blast+
        then show ?thesis using synced_nothing_lost fail(2) by blast
      next
        case (ok t w3)
        obtain p i m where t: "t = (p, i, m)" by (metis prod.exhaust)
        have d3: "drift True w w3" using open_edit_target_drift [OF drift_refl, of ev w2] ok(1) w2 k by simp
        have s3: "synced w3" "names_ok w3" "unique_numbers w3" using drift_synced [OF d3 w(1)] drift_parts(3,4) [OF d3] w by simp_all
        obtain r4 w4 where 4: "edit_opened ev (wr_content q) (wr_expected_hash q) p i m w3 = (r4, w4)" by (rule prod.exhaust)
        note O = opened_edit_effect [OF k s3 4]
        have a3: "ew_accepted w3 = ew_accepted w" by (rule drift_parts(2) [OF d3])
        have vc: "verified ev h (close_file i v) = verified ev h v" for h v by (simp add: verified_def close_keeps)
        have res: "(case r4 of Inl e \<Rightarrow> (Inl e, close_file i w4)
         | Inr _ \<Rightarrow> (Inr (File_response (path_for_response names) (wr_content q) (language_hint names) (length (wr_content q)) False False
              (Some (xe_sha ev (wr_content q))) (Some (line_count (wr_content q)))), close_file i w4)) = (r, w')"
          using ok(2) unfolding t prod.case 4 .
        show ?thesis
        proof (cases r4)
          case (Inl y)
          then have "r = Inl y" "w' = close_file i w4" using res by simp_all
          then show ?thesis using O(1,3) Inl a3 by (auto simp: close_keeps nothing_lost_def vc)
        next
          case (Inr u)
          then have "\<exists>y. r = Inr y" "w' = close_file i w4" using res by auto
          moreover have "settled w4" "ew_accepted w4 \<noteq> None" using O(2) Inr by simp_all
          ultimately show ?thesis using O(3) a3 by (auto simp: close_keeps nothing_lost_def vc)
        qed
      qed
    qed
  qed
  show "\<exists>s. nothing_lost r s w'" "r = Inr x \<Longrightarrow> settled w' \<and> ew_accepted w' \<noteq> None"
    "ew_accepted w' = ew_accepted w \<or> verified ev (wr_expected_hash q) w'" using all by blast+
qed

end
