(* ===== verification/Edit_Properties.thy ===== *)
theory Edit_Properties
  imports Edit_Safety
begin

text \<open>
  The properties of saving an edited project file: what it can replace, what a refusal leaves, what is never lost, and
  how an inode number that is used again gets around it. A small project is the example.
\<close>

section \<open>An example\<close>

definition example_file :: "nat \<Rightarrow> string \<Rightarrow> file_node" where
  "example_file n b = \<lparr>fn_dev = 0, fn_ino = n, fn_type = Regular, fn_uid = 1, fn_gid = 1, fn_mode = 420, fn_nlink = 1, fn_bytes = b,
     fn_xattrs = [], fn_mtime = 0, fn_ctime = 0\<rparr>"

definition example_sha :: "string \<Rightarrow> string" where
  "example_sha b = replicate 64 (if b = ''old'' then CHR ''a'' else CHR ''b'')"

definition example_edit_env :: "bool \<Rightarrow> (nat \<Rightarrow> outside list) \<Rightarrow> edit_env" where
  "example_edit_env k others = \<lparr>xe_ok = (\<lambda>_. True), xe_others = others, xe_walk = (\<lambda>_. Some 5), xe_keeps_numbers = k,
     xe_created = example_file 0 [], xe_euid = 1, xe_sha = example_sha\<rparr>"

definition example_project :: edit_world where
  "example_project = \<lparr>ew_files = [example_file 1 ''old''], ew_names = (\<lambda>n. if n = Target then Some 0 else None), ew_held = [],
     ew_sequence = 0, ew_clock = 0, ew_newest = Some 0, ew_accepted = None\<rparr>"

definition example_request :: write_request where
  "example_request = \<lparr>wr_path = ''src/a'', wr_content = ''new'', wr_expected_hash = example_sha ''old''\<rparr>"

lemma example_start_edit: "synced example_project" "names_ok example_project" "unique_numbers example_project"
  by (simp_all add: synced_def names_ok_def unique_numbers_def example_project_def)

lemma example_checked: "check_request example_request = Inr [''src'', ''a'']"
proof -
  have 1: "has_control ''src/a'' = False" "path_components ''src/a'' = [Normal ''src'', Normal ''a'']" "is_absolute ''src/a'' = False"
    "char_of (0::nat) \<notin> set ''src/a''" by code_simp+
  have 2: "validate_relative_path ''src/a'' False = Inr [''src'', ''a'']"
    using 1(4) by (simp add: validate_relative_path_def 1(1-3) max_relative_path_bytes_def normal_name_def List.map_filter_def)
  have 3: "ensure_visible_path [''src'', ''a''] = Inr ()" "list_ex binary_byte ''new'' = False" by code_simp+
  have 4: "validate_edit_content ''new'' = Inr ()" unfolding validate_edit_content_def 3(2) by (simp add: max_file_bytes_def)
  have 5: "validate_content_hash (example_sha ''old'') = Inr ()"
    by (simp add: validate_content_hash_def example_sha_def byte_of_def list_all_iff)
  show ?thesis unfolding check_request_def example_request_def write_request.simps 2 and_then_simps 3(1) 4 5 by (rule refl)
qed

lemma edit_example_text: "bounded_text ''old'' False = (''old'', False)" "bounded_text ''new'' False = (''new'', False)"
  by code_simp+

lemmas edit_eval = and_edit_def answered_def done_or_def or_changed_def stat_name_def stat_file_def open_at_def hold_def close_file_def
  ask_def pass_def set_node_def exchange_files_def unlink_name_def in_use_def number_free_def number_def

text \<open>The edit up to the exchange, when nobody else acts before it.\<close>

definition example_world :: "nat \<Rightarrow> nat list \<Rightarrow> bool \<Rightarrow> edit_world" where
  "example_world c held staging = \<lparr>ew_files = [example_file 1 ''old''] @ (if staging then [example_file 2 ''new''] else []),
     ew_names = (\<lambda>n. if n = Target then Some 0 else if staging \<and> n = Temp 0 then Some 1 else None),
     ew_held = held, ew_sequence = (if staging then 1 else 0), ew_clock = c, ew_newest = Some 0, ew_accepted = None\<rparr>"

lemma example_open:
  assumes "\<forall>n < 24. others n = []"
  shows "open_edit_target (example_edit_env k others) (example_world 0 [] False) = (Inr (5, 0, example_file 1 ''old''), example_world 4 [0] False)"
  using assms by (simp add: open_edit_target_def open_edit_target_at_def edit_eval example_edit_env_def example_world_def example_file_def)

lemma example_read:
  assumes "\<forall>n < 24. others n = []"
  shows "read_complete_text (example_edit_env k others) 0 (example_file 1 ''old'') (example_world 4 [0] False) = (Inr ''old'', example_world 5 [0] False)"
    "read_security_metadata (example_edit_env k others) 0 (example_world 5 [0] False) = (Inr [], example_world 6 [0] False)"
    "validate_edit_target (example_edit_env k others) (example_file 1 ''old'') = Inr ()"
  using assms by (simp_all add: read_complete_text_def read_security_metadata_def list_xattrs_def validate_edit_target_def edit_eval
      example_edit_env_def example_world_def example_file_def edit_example_text [simplified] max_file_bytes_def max_edit_xattrs_def max_edit_xattr_bytes_def Let_def)

lemma example_create:
  assumes "\<forall>n < 24. others n = []"
  shows "create_edit_temp 64 (example_edit_env k others) (example_world 6 [0] False)
    = (Inr (0, 1), (example_world 7 [1, 0] True)\<lparr>ew_files := [example_file 1 ''old'', (example_file 2 [])\<lparr>fn_mode := 384\<rparr>]\<rparr>)"
  using assms by (simp add: edit_eval example_edit_env_def example_world_def example_file_def fresh_number_def numeral_eq_Suc fun_eq_iff)

lemma edit_example_prepare:
  assumes "\<forall>n < 24. others n = []"
  shows "prepare_temporary (example_edit_env k others) 1 (example_file 1 ''old'') [] ''new''
      ((example_world 7 [1, 0] True)\<lparr>ew_files := [example_file 1 ''old'', (example_file 2 [])\<lparr>fn_mode := 384\<rparr>]\<rparr>)
    = (Inr (), example_world 14 [1, 0] True)"
  using assms by (simp add: prepare_temporary_def apply_security_metadata_def read_security_metadata_def list_xattrs_def edit_eval
      example_edit_env_def example_world_def example_file_def max_edit_xattrs_def max_edit_xattr_bytes_def Let_def)

lemma example_revalidate:
  assumes "\<forall>n < 24. others n = []"
  shows "revalidate_edit_path (example_edit_env k others) 5 (example_file 1 ''old'') [] (example_sha ''old'') (example_world 14 [1, 0] True)
    = (Inr (), example_world 23 [1, 0] True)"
  using assms by (simp add: revalidate_edit_path_def check_current_def open_edit_target_def open_edit_target_at_def read_complete_text_def
      read_security_metadata_def list_xattrs_def validate_edit_target_def same_edit_identity_def same_edit_state_def edit_eval
      example_edit_env_def example_world_def example_file_def edit_example_text [simplified] max_file_bytes_def max_edit_xattrs_def
      max_edit_xattr_bytes_def Let_def)

text \<open>The whole edit is then its exchange.\<close>

lemma example_edit:
  assumes "\<forall>n < 24. others n = []"
    and c: "commit_edit (example_edit_env k others) (Temp 0) 1 (example_file 1 ''old'') [] (example_sha ''old'') (example_world 23 [1, 0] True) = (r, False, w)"
  shows "write_file (example_edit_env k others) (Inr ()) example_request example_project
    = (case r of Inl e \<Rightarrow> Inl e | Inr _ \<Rightarrow> Inr (File_response ''src/a'' ''new'' None 3 False False (Some (example_sha ''new'')) (Some 1)),
       close_file 0 (close_file 1 w))"
proof -
  let ?ev = "example_edit_env k others"
  have w0: "example_project = example_world 0 [] False" by (simp add: example_project_def example_world_def fun_eq_iff)
  have sha: "xe_sha ?ev = example_sha" by (simp add: example_edit_env_def)
  have st: "edit_staged ?ev 5 (example_file 1 ''old'') [] ''new'' (example_sha ''old'') (example_world 6 [0] False) = (r, close_file 1 w)"
    unfolding edit_staged_def example_create [OF assms(1)] and_edit_def prod.case sum.case edit_example_prepare [OF assms(1)]
      example_revalidate [OF assms(1)] c Let_def drop_temp_def by simp
  have op: "edit_opened ?ev ''new'' (example_sha ''old'') 5 0 (example_file 1 ''old'') (example_world 4 [0] False) = (r, close_file 1 w)"
    unfolding edit_opened_def and_edit_def prod.case sum.case example_read [OF assms(1)] sha st by simp
  have p: "path_for_response [''src'', ''a''] = ''src/a''" "language_hint [''src'', ''a''] = None" "line_count ''new'' = 1" by code_simp+
  have q: "wr_content example_request = ''new''" "wr_expected_hash example_request = example_sha ''old''" by (simp_all add: example_request_def)
  show ?thesis unfolding write_file_def example_checked and_edit_def prod.case sum.case w0 example_open [OF assms(1)] q op p sha
    by (cases r) simp_all
qed

lemma example_undisturbed:
  "commit_edit (example_edit_env k (\<lambda>_. [])) (Temp 0) 1 (example_file 1 ''old'') [] (example_sha ''old'') (example_world 23 [1, 0] True)
    = (Inr (), False, (example_world 33 [1, 0] True)\<lparr>ew_names := (\<lambda>n. if n = Target then Some 1 else None), ew_accepted := Some (0, example_file 1 ''old'')\<rparr>)"
  by (simp add: commit_edit_def named_file_matches_def check_displaced_def open_edit_target_at_def read_complete_text_def
      read_security_metadata_def list_xattrs_def validate_edit_target_def same_edit_identity_def same_edit_state_def remove_and_sync_def
      edit_eval example_edit_env_def example_world_def example_file_def edit_example_text [simplified] max_file_bytes_def max_edit_xattrs_def
      max_edit_xattr_bytes_def Let_def fun_eq_iff)

definition busy_others :: "nat \<Rightarrow> outside list" where
  "busy_others n = (if n = 24 then [Replace (example_file 7 ''A'')] else if n = 29 then [Replace (example_file 8 ''B'')]
     else if n = 32 then [Replace (example_file 9 ''C''), Replace (example_file 7 ''D'')] else [])"

lemma example_busy:
  "\<exists>w. commit_edit (example_edit_env False busy_others) (Temp 0) 1 (example_file 1 ''old'') [] (example_sha ''old'') (example_world 23 [1, 0] True)
    = (Inl file_changed, False, w) \<and> ew_newest w = Some 5 \<and> ew_accepted w = None \<and> (\<forall>n. ew_names w n \<noteq> Some 5)"
  by (simp add: commit_edit_def named_file_matches_def check_displaced_def open_edit_target_at_def restore_after_failed_exchange_def
      max_recovery_exchanges_def numeral_eq_Suc same_edit_identity_def remove_and_sync_def file_identity_def
      edit_eval example_edit_env_def example_world_def example_file_def busy_others_def Let_def)

section \<open>An edit that nobody disturbs\<close>

definition undisturbed :: "edit_env \<Rightarrow> nat \<Rightarrow> bool" where
  "undisturbed ev p \<longleftrightarrow> (\<forall>n. xe_ok ev n \<and> xe_others ev n = [] \<and> xe_walk ev n = Some p) \<and> fn_xattrs (xe_created ev) = []"

definition editable :: "edit_env \<Rightarrow> file_node \<Rightarrow> string \<Rightarrow> bool" where
  "editable ev f hash \<longleftrightarrow> fn_type f = Regular \<and> fn_nlink f = 1 \<and> fn_uid f = xe_euid ev \<and> length (fn_bytes f) \<le> max_file_bytes
     \<and> bounded_text (fn_bytes f) False = (fn_bytes f, False) \<and> fn_xattrs f = [] \<and> xe_sha ev (fn_bytes f) = hash"

definition named :: "edit_world \<Rightarrow> edit_name \<Rightarrow> nat \<Rightarrow> file_node \<Rightarrow> bool" where
  "named v n i f \<longleftrightarrow> ew_names v n = Some i \<and> ew_files v ! i = f"

lemma ask_undisturbed: "undisturbed ev p \<Longrightarrow> ask ev v = (True, v\<lparr>ew_clock := Suc (ew_clock v)\<rparr>)"
  by (simp add: ask_def pass_def undisturbed_def)

lemma quiet_open:
  assumes "undisturbed ev p" "editable ev f hash" "named v n i f"
  shows "open_edit_target_at ev n v = (Inr (i, f), v\<lparr>ew_clock := ew_clock v + 3, ew_held := i # ew_held v\<rparr>)"
    and "n = Target \<Longrightarrow> open_edit_target ev v = (Inr (p, i, f), v\<lparr>ew_clock := ew_clock v + 4, ew_held := i # ew_held v\<rparr>)"
proof -
  have w: "xe_walk ev k = Some p" for k using assms(1) by (simp add: undisturbed_def)
  have o: "open_edit_target_at ev n v = (Inr (i, f), v\<lparr>ew_clock := ew_clock v + 3, ew_held := i # ew_held v\<rparr>)" if "named v n i f" for v n
    using assms(2) that
    by (simp add: open_edit_target_at_def and_edit_def answered_def stat_name_def open_at_def stat_file_def ask_undisturbed [OF assms(1)]
        hold_def named_def editable_def)
  show "open_edit_target_at ev n v = (Inr (i, f), v\<lparr>ew_clock := ew_clock v + 3, ew_held := i # ew_held v\<rparr>)" by (rule o [OF assms(3)])
  show "n = Target \<Longrightarrow> open_edit_target ev v = (Inr (p, i, f), v\<lparr>ew_clock := ew_clock v + 4, ew_held := i # ew_held v\<rparr>)"
    using o [of "v\<lparr>ew_clock := Suc (ew_clock v)\<rparr>" Target] assms(3)
    by (simp add: open_edit_target_def ask_undisturbed [OF assms(1)] w and_edit_def named_def)
qed

lemma quiet_read:
  assumes "undisturbed ev p" "editable ev f hash" "ew_files v ! i = f"
  shows "read_complete_text ev i f v = (Inr (fn_bytes f), v\<lparr>ew_clock := Suc (ew_clock v)\<rparr>)"
    "read_security_metadata ev i v = (Inr [], v\<lparr>ew_clock := Suc (ew_clock v)\<rparr>)"
  using assms(2,3)
  by (simp_all add: read_complete_text_def validate_edit_target_def read_security_metadata_def list_xattrs_def and_edit_def answered_def
      stat_file_def ask_undisturbed [OF assms(1)] editable_def Let_def max_edit_xattrs_def max_edit_xattr_bytes_def)

lemma quiet_prepare:
  assumes "undisturbed ev p" "fn_xattrs g = []" "fn_type g = Regular" "fn_uid g = fn_uid f" "fn_type f = Regular"
  shows "\<exists>c h. prepare_temporary ev (length fs) f [] bytes (v\<lparr>ew_files := fs @ [g]\<rparr>) = (Inr (), v\<lparr>ew_files := fs @ [h], ew_clock := c\<rparr>)
    \<and> fn_bytes h = bytes \<and> fn_uid h = fn_uid f \<and> fn_gid h = fn_gid f \<and> fn_mode h = fn_mode f \<and> fn_type h = Regular"
  using assms(2-5)
  apply (cases "fn_gid g = fn_gid f")
   apply (simp_all add: prepare_temporary_def apply_security_metadata_def read_security_metadata_def list_xattrs_def and_edit_def answered_def
      done_or_def stat_file_def set_node_def ask_undisturbed [OF assms(1)] Let_def max_edit_xattrs_def max_edit_xattr_bytes_def)
   apply (intro exI conjI, rule refl, simp_all)
  apply (intro exI conjI, rule refl, simp_all)
  done

lemma quiet_revalidate:
  assumes q: "undisturbed ev p" "editable ev f hash" "named v Target i f"
  shows "\<exists>c. revalidate_edit_path ev p f [] hash v = (Inr (), v\<lparr>ew_clock := c\<rparr>)"
proof -
  have id: "same_edit_identity f f" "same_edit_state f f" using q(2) by (simp_all add: same_edit_identity_def same_edit_state_def editable_def)
  have f: "ew_files v ! i = f" using q(3) by (simp add: named_def)
  have sha: "xe_sha ev (fn_bytes f) = hash" using q(2) by (simp add: editable_def)
  show ?thesis
    by (intro exI) (simp add: revalidate_edit_path_def quiet_open(2) [OF q refl] check_current_def and_edit_def or_changed_def done_or_def
        ask_undisturbed [OF q(1)] quiet_read [OF q(1,2)] f id sha answered_def stat_file_def close_file_def)
qed

lemma quiet_commit:
  assumes q: "undisturbed ev p" "editable ev f hash" and v: "ew_names v Target = Some i" "ew_names v (Temp s) = Some t" "ew_files v ! i = f"
  shows "\<exists>c. commit_edit ev (Temp s) t f [] hash v
    = (Inr (), False, v\<lparr>ew_names := (ew_names v)(Target := Some t, Temp s := None), ew_accepted := Some (i, f), ew_clock := c\<rparr>)"
proof -
  let ?x = "v\<lparr>ew_clock := ew_clock v + 2, ew_names := (ew_names v)(Temp s := Some i, Target := Some t)\<rparr>"
  have id: "same_edit_identity f f" "same_edit_state f f" using q(2) by (simp_all add: same_edit_identity_def same_edit_state_def editable_def)
  have n: "named ?x (Temp s) i f" using v(3) by (simp add: named_def)
  have sha: "xe_sha ev (fn_bytes f) = hash" using q(2) by (simp add: editable_def)
  have ex: "exchange_files ev (Temp s) Target (v\<lparr>ew_clock := Suc (ew_clock v)\<rparr>) = (True, ?x)"
    using v by (simp add: exchange_files_def ask_undisturbed [OF q(1)])
  have m: "\<exists>c. named_file_matches ev (Temp s) f [] hash ?x = (True, ?x\<lparr>ew_clock := c, ew_accepted := Some (i, f)\<rparr>)"
    unfolding named_file_matches_def quiet_open(1) [OF q n] prod.case sum.case
    by (intro exI) (simp add: check_displaced_def id quiet_read [OF q] v(3) stat_file_def ask_undisturbed [OF q(1)] sha close_file_def)
  obtain c where "named_file_matches ev (Temp s) f [] hash ?x = (True, ?x\<lparr>ew_clock := c, ew_accepted := Some (i, f)\<rparr>)" using m by blast
  then have "commit_edit ev (Temp s) t f [] hash v = remove_and_sync ev (Temp s) (?x\<lparr>ew_clock := c, ew_accepted := Some (i, f)\<rparr>)"
    by (simp add: commit_edit_def stat_file_def ask_undisturbed [OF q(1)] ex)
  also have "\<dots> = (Inr (), False, v\<lparr>ew_names := (ew_names v)(Target := Some t, Temp s := None), ew_accepted := Some (i, f), ew_clock := c + 2\<rparr>)"
    by (simp add: remove_and_sync_def unlink_name_def ask_undisturbed [OF q(1)] fun_upd_twist)
  finally show ?thesis by blast
qed

lemma quiet_create:
  assumes "undisturbed ev p" "ew_names v (Temp (ew_sequence v)) = None"
  shows "\<exists>g. fn_xattrs g = [] \<and> fn_type g = Regular \<and> fn_uid g = xe_euid ev \<and> create_edit_temp 64 ev v
    = (Inr (ew_sequence v, length (ew_files v)), v\<lparr>ew_sequence := Suc (ew_sequence v), ew_clock := Suc (ew_clock v),
        ew_files := ew_files v @ [g], ew_names := (ew_names v)(Temp (ew_sequence v) := Some (length (ew_files v))),
        ew_held := length (ew_files v) # ew_held v\<rparr>)"
proof -
  have e: "create_edit_temp 64 ev v = create_edit_temp (Suc 63) ev v" by simp
  show ?thesis unfolding e create_edit_temp.simps(2) Let_def ask_undisturbed [OF assms(1)] prod.case
    using assms by (simp add: hold_def undisturbed_def) (intro exI conjI, rule_tac [4] refl, simp_all)
qed

section \<open>Properties\<close>

text \<open>
  C11. Nothing of others is lost. Whatever fails and whatever other programs do to the file meanwhile, if no inode number is
  used twice then the file that they put at the target last is there after the edit, or it is the displaced file
  that was accepted, or the recovery has failed, which is reported as an internal error, and it is kept under
  the hidden name.
\<close>

theorem edit_loses_no_replacement:
  assumes "xe_keeps_numbers ev" and "synced w" and "names_ok w" and "unique_numbers w"
    and "write_file ev project q w = (r, w')" and "ew_newest w' = Some i"
  shows "ew_names w' Target = Some i \<or> (\<exists>f. ew_accepted w' = Some (i, f))
    \<or> (\<exists>s. ew_names w' (Temp s) = Some i) \<and> (\<exists>e. r = Inl e \<and> we_kind e = Ws_internal)"
proof -
  obtain s where s: "nothing_lost r s w'" using write_file_effect(1) [OF assms(1-5)] by blast
  consider (settled) "settled w'" | (hidden) "kept (Temp s) w'" "\<not> settled w'" using s by (auto simp: nothing_lost_def)
  then show ?thesis
  proof cases
    case settled
    then show ?thesis using assms(6) by (auto simp: settled_def)
  next
    case hidden
    then have "r \<noteq> Inr x" for x using write_file_effect(2) [OF assms(1-5)] by blast
    then obtain e where e: "r = Inl e" by (cases r) auto
    have "\<not> synced w'" using hidden(2) by (auto simp: settled_def synced_def)
    then have "we_kind e = Ws_internal" using s e by (auto simp: nothing_lost_def)
    then show ?thesis using hidden assms(6) e by (auto simp: kept_def settled_def)
  qed
qed

lemma edit_loses_no_replacement_witness:
  "\<exists>x w'. write_file (example_edit_env True (\<lambda>_. [])) (Inr ()) example_request example_project = (Inr x, w')
     \<and> (ew_names w' Target = Some 0 \<or> (\<exists>f. ew_accepted w' = Some (0, f)))"
proof -
  obtain x w' where e: "write_file (example_edit_env True (\<lambda>_. [])) (Inr ()) example_request example_project = (Inr x, w')" "ew_newest w' = Some 0"
    using example_edit [OF _ example_undisturbed [of True]] by (simp add: example_world_def close_file_def)
  have k: "xe_keeps_numbers (example_edit_env True (\<lambda>_. []))" by (simp add: example_edit_env_def)
  show ?thesis using edit_loses_no_replacement [OF k example_start_edit e] e(1) by auto
qed





text \<open>
  A refusal leaves the file alone: when the edit ends with any error but an internal one, what is at the target is what
  others put there last, or nothing if they removed it.
\<close>

theorem refused_edit_keeps_file:
  assumes "xe_keeps_numbers ev" and "synced w" and "names_ok w" and "unique_numbers w"
    and "write_file ev project q w = (Inl e, w')" and "we_kind e \<noteq> Ws_internal"
  shows "ew_names w' Target = ew_newest w'"
  using write_file_effect(1) [OF assms(1-5)] assms(6) by (auto simp: nothing_lost_def synced_def)

lemma refused_edit_keeps_file_witness:
  "\<exists>e w'. write_file (example_edit_env True (\<lambda>_. [])) (Inr ()) (example_request\<lparr>wr_path := ''/etc''\<rparr>) example_project = (Inl e, w')
     \<and> ew_names w' Target = ew_newest w'"
proof -
  have 1: "has_control ''/etc'' = False" "is_absolute ''/etc'' = True" "char_of (0::nat) \<notin> set ''/etc''" by code_simp+
  have "validate_relative_path ''/etc'' False = Inl (ws_invalid ''path must contain only relative file-name components'')"
    using 1(3) by (simp add: validate_relative_path_def 1(1,2) max_relative_path_bytes_def)
  then have e: "write_file (example_edit_env True (\<lambda>_. [])) (Inr ()) (example_request\<lparr>wr_path := ''/etc''\<rparr>) example_project
      = (Inl (ws_invalid ''path must contain only relative file-name components''), example_project)"
    by (simp add: write_file_def check_request_def and_edit_def)
  have k: "xe_keeps_numbers (example_edit_env True (\<lambda>_. []))" by (simp add: example_edit_env_def)
  show ?thesis using refused_edit_keeps_file [OF k example_start_edit e] e by auto
qed

text \<open>
  C29. An inode number that is used again gets around it. There is a run in which every request works, the edit is refused as a
  conflict, and the file that others put at the target last is gone: a file with the number of an earlier one is
  taken for it and removed, and an older file is left at the target.
\<close>

theorem reused_number_loses_file:
  "\<exists>ev q w e w' i. (\<forall>n. xe_ok ev n) \<and> synced w \<and> names_ok w \<and> unique_numbers w \<and> \<not> xe_keeps_numbers ev
     \<and> write_file ev (Inr ()) q w = (Inl e, w') \<and> we_kind e = Ws_conflict \<and> ew_newest w' = Some i
     \<and> (\<forall>n. ew_names w' n \<noteq> Some i) \<and> ew_accepted w' = None"
proof -
  obtain w where c: "commit_edit (example_edit_env False busy_others) (Temp 0) 1 (example_file 1 ''old'') [] (example_sha ''old'') (example_world 23 [1, 0] True)
      = (Inl file_changed, False, w)" "ew_newest w = Some 5" "ew_accepted w = None" "\<forall>n. ew_names w n \<noteq> Some 5"
    using example_busy by blast
  have b: "\<forall>n < 24. busy_others n = []" by (simp add: busy_others_def)
  have e: "write_file (example_edit_env False busy_others) (Inr ()) example_request example_project = (Inl file_changed, close_file 0 (close_file 1 w))"
    using example_edit [OF b c(1)] by simp
  have "(\<forall>n. xe_ok (example_edit_env False busy_others) n) \<and> \<not> xe_keeps_numbers (example_edit_env False busy_others)"
    by (simp add: example_edit_env_def)
  moreover have "we_kind file_changed = Ws_conflict" by (simp add: file_changed_def)
  moreover have "ew_newest (close_file 0 (close_file 1 w)) = Some 5" "\<forall>n. ew_names (close_file 0 (close_file 1 w)) n \<noteq> Some 5"
    "ew_accepted (close_file 0 (close_file 1 w)) = None" using c(2-4) by (simp_all add: close_file_def)
  ultimately show ?thesis using example_start_edit e by blast
qed

end
