(* ===== verification/Spec2Isabelle.thy ===== *)
theory Spec2Isabelle
  imports Pulse_Scheduler Pulse_Alerts Pulse_Reset Reporter_Coordinator Federation_Replay Resume_Leases Auto_Compact
    Cli_Plans Backfill_Coverage Update_Properties Edit_Properties
begin

text \<open>
  Verification development for atmux: the Pulse subsystem, \<open>src/src/pulse\<close>, the parts of the control plane that
  act on panes and agents by themselves, the self-update of a node and the project files of a pane.

  \<^bold>\<open>The program.\<close> atmux runs coding agents in terminal panes. Pulse is the part that keeps account of
  them: it polls the quota windows of the providers, counts tokens and contexts, stores everything
  in one SQLite database per node, raises alerts, resumes sessions when a quota resets, and moves rows
  between nodes in two ways: a node can push its rows to a receiver with a bearer token, and a node
  can pull the rows of its peers. Beside Pulse, the control plane resumes saved conversations, compacts the
  context of idle agents, updates the agents' programs and restarts their panes, and replaces its own
  executable by signed releases; a browser can read and edit the files of a pane's project. What the properties
  speak about is in one of seven layers.

  \<^item> \<^bold>\<open>Values.\<close> \<open>Pulse_Prelude\<close> has the results, the bounded integers and the list-backed
    tables with their statements (select in key order, update, delete, upsert). \<open>Pulse_Base\<close> is
    \<open>error.rs\<close> and \<open>time.rs\<close>, \<open>Pulse_Text\<close> what the code uses of the text and number functions of the
    standard library, \<open>Pulse_Model\<close> is \<open>model.rs\<close> with the \<open>validate\<close> of every type.
  \<^item> \<^bold>\<open>The store.\<close> \<open>Pulse_Tables\<close> has the rows of \<open>store/schema.rs\<close> and \<open>store/mod.rs\<close> and the record \<open>store\<close>,
    one field per table. The operations of \<open>store/sqlite.rs\<close> are functions from a store to an error or a
    value and a store; an error is the rollback of the transaction. They are grouped by table:
    \<open>Alert_Store\<close> (subscriptions, events, replies), \<open>Reset_Store\<close> (reset jobs and their leases),
    \<open>Usage_Store\<close> (snapshots, the acceptance of windows, current usage), \<open>Token_Store\<close> (grains and
    write revisions), \<open>Context_Store\<close> (context sessions, Gemini quotas), \<open>Identity_Store\<close> (accounts,
    machines, profiles), \<open>Ingest_Tokens\<close> (bearer tokens), \<open>Ingest_Store\<close> (a pushed batch as one
    transaction), \<open>Reporter_Store\<close> (cursors and outbox of the reporter) and \<open>Federation_Store\<close> (peers,
    remembered records, pages in both directions).
  \<^item> \<^bold>\<open>Local services.\<close> \<open>Pulse_Scheduler\<close> is \<open>scheduler.rs\<close>: the schedule and the run loop as a step
    function over the events it can receive. \<open>Pulse_Alerts\<close> is \<open>alerts.rs\<close> and \<open>delivery.rs\<close>: evaluation of
    a snapshot against the subscriptions, recording, and delivery to webhook, pane and account.
    \<open>Pulse_Reset\<close> is \<open>reset.rs\<close>: which instant to resume at, and one pass over the due jobs.
    \<open>Invalidation_Hub\<close> is \<open>invalidation.rs\<close>: the revisions browsers wait on.
  \<^item> \<^bold>\<open>Exchange between nodes.\<close> Receiving a push is \<open>Ingest_Receiver\<close> with \<open>Rate_Limiter\<close> (\<open>ingest.rs\<close>);
    sending one is \<open>Pulse_Reporter\<close> (backoff and retries), \<open>Reporter_Chunks\<close> (splitting rows into
    bounded documents) and \<open>Reporter_Coordinator\<close> (the streams of an account), all \<open>reporter.rs\<close>.
    Pulling from peers is \<open>Federation_Apply\<close> (what applying a page does), \<open>Pulse_Federation\<close> (exporter,
    page checks, pull), \<open>Federation_Exchange\<close> (exporter and puller together) and \<open>Federation_Replay\<close>
    (what is exported, and what remembering records by content costs), all \<open>federation.rs\<close>.
  \<^item> \<^bold>\<open>Token history.\<close> \<open>Token_Tally\<close> adds up usage events in bounded memory and cuts pages out of the tally
    (\<open>token.rs\<close>), \<open>Token_Backfill\<close> is the progress row of a backfill, its page transaction and the cancellable
    loop over pages (\<open>store/sqlite.rs\<close>, \<open>ops.rs\<close>), \<open>Backfill_Coverage\<close> says what any sequence of attempts leaves
    in the store.
  \<^item> \<^bold>\<open>Control plane.\<close> \<open>Resume_Leases\<close> is the reservation table and the lock files that keep a conversation
    from being resumed twice (\<open>control.rs\<close>); \<open>Pane_Markers\<close> the claims written into the options of a pane;
    \<open>Auto_Compact\<close> the compaction of idle panes (\<open>auto_compact.rs\<close>); \<open>Cli_Update\<close> the update cycle of the agents'
    programs (\<open>auto_update.rs\<close> and its workers in \<open>control.rs\<close>), with what it guarantees in \<open>Cli_Restarts\<close>,
    \<open>Cli_Generations\<close> and \<open>Cli_Plans\<close>. The self-update (\<open>self_update.rs\<close>) is \<open>Release_Manifest\<close> (signed manifest,
    candidates, URLs, redirects) and \<open>Self_Update\<close> (files, installation, rollback, shared state); \<open>Update_Safety\<close>
    has the effect of every file operation, \<open>Update_Tasks\<close> the tasks of a node as a step relation with kills
    and restarts, \<open>Update_Properties\<close> the properties.
  \<^item> \<^bold>\<open>Project files.\<close> \<open>Workspace_Paths\<close> and \<open>Workspace_Edit\<close> (\<open>workspace.rs\<close>) are the names a browser may see, the
    listing and the reading of files, and the saving of an edited file by an exchange of names while other
    programs act on it; \<open>Edit_Safety\<close> has what the requests keep, \<open>Edit_Properties\<close> the properties.

  \<^bold>\<open>How the parts meet.\<close> A collected or received snapshot is appended by \<open>Usage_Store\<close>; the same stored
  rows are evaluated by \<open>Pulse_Alerts\<close>, which records through \<open>Alert_Store\<close>, and a rate-limited snapshot
  schedules a job that \<open>Pulse_Reset\<close> claims and delivers. \<open>Ingest_Store\<close> and \<open>Federation_Apply\<close> write
  foreign rows with the same store operations as local ones, so their properties rest on the lemmas of
  those operations: what is a pushed batch's scope is proved once per table and used for both. The
  reporter reads the local rows through keyset pages, stores each page in the outbox before sending it,
  and moves its cursor when the receiver acknowledged it; that the receiver ingests a request once is what
  makes sending a page again harmless. A backfill writes the same token rows as the observation of a running
  agent, at a write revision of its own, and its progress row is in the transaction of the page. In the
  control plane the parts meet in tmux, in lock files, in a state file and on the disk: each is a shared
  state that other processes change between two requests of one task. The interfaces a client relies on are locales - \<open>latest_table\<close> for the
  newest-row-wins tables, \<open>alert_log\<close> for event recording, \<open>reset_queue\<close> for claimed jobs - each
  interpreted on the operations of the SQLite store.

  \<^bold>\<open>What the lemmas show.\<close> Every store theory has an invariant of its tables and the lemma that every
  operation keeps it, a frame lemma that says which tables and rows an operation can change, and the
  result of the operation on its branches. On these rest the properties: cooldown of alerts, leases
  of reset jobs, one card per quota window, monotone percentages, idempotent token batches, exactly-once
  ingest, row caps, token authentication and revocation; for the scheduler, single flight,
  exclusion of force polls and pacing; for the reporter, that the cursor moves only over acknowledged
  pages and that a page is split into documents that hold every row once; for federation, that a
  peer can only touch its own rows, that an interrupted pull goes on where it stopped, and that an
  honest peer is mirrored completely. For a backfill: that a bounded page is the page of the complete tally,
  that a completed progress row means every row is in the store, and that an undisturbed backfill ends. For
  the control plane: one pane per conversation, one compaction per episode, a planned pane restarted at
  most once and as planned, updaters behind stored intents, generations that count changes of a launcher. For
  the self-update: only signed executables at its path, one update at a time and only forward, no kill
  that leaves the path empty, and a rollback that undoes an update. For an edited file: that it replaces only
  what the client has read, and that no file of others is lost. Some properties record behaviour that
  is surprising: a usage scan that stalls at a power of ten, a reverted change that is not mirrored, a
  reservation released too late, a plan forgotten after a failed capture, an executable lost when it
  cannot be read during a rollback or when an update is applied twice, a file lost when an inode number is
  used again during an edit; further lemmas beside them show a
  scheduler that spins while a force poll runs and a jittered reset that hides a newer percentage.

  \<^bold>\<open>Numbers.\<close> \<open>i64\<close> is \<open>int\<close> and unsigned integers are \<open>nat\<close>, with every checked, saturating or
  bounded operation of the code written out; \<open>u64\<close> is a word in the mixing function of the jitter, and a
  byte is a word where bits are compared. A finite \<open>f64\<close> is a rational: the code compares and copies
  percentages and does not compute with them. A \<open>String\<close> is its UTF-8 bytes. JSON columns hold the
  typed value.

  \<^bold>\<open>Bounds and termination.\<close> Loops over rows are structural. The halving search for the size of a document
  and the loop over documents are total functions with a measure. Loops the code bounds by a
  constant take that constant: 32 pages per pull and per reporter stream, the attempts of a
  backoff, six requests per download, 64 hidden names and 64
  exchanges per edit. The run loop of the scheduler is one function per iteration and the
  properties speak about every reachable state, so no fuel is needed. The loop over the pages of a
  backfill has fuel, since files that change make it start over without end; the termination property
  says that more fuel than the tally has rows is enough when they do not change.

  \<^bold>\<open>Parameters.\<close> Code that is not in the repository is an argument: SHA-256, base64 and random bytes,
  the JSON encoder and decoder, the calendar of jiff, semantic versions, the check of a signature, the webhook
  and pane sinks, the HTTP transport and the peer's answers. What tmux, the file system, a server and a started
  program answer comes from an environment that depends on a clock which counts the requests: every request
  can fail, a failed one can have taken effect where the code allows for it, and a process killed at some
  point is one whose later requests all fail. The hypotheses about them are named where they are used (that a
  decoder inverts its encoder, that a digest is hexadecimal); safety properties hold for every
  transport and every peer. SQLite is modelled by what its statements do to the tables: order of row
  ids, uniqueness, foreign keys and \<open>ON CONFLICT\<close>; that a transaction is atomic and serialised is assumed.

  \<^bold>\<open>Not modelled.\<close> The PostgreSQL store (the same operations in another dialect), the collectors and
  credential files (provider APIs, file descriptors, key stores), the formats of transcripts and the walk
  over their files (events arrive decoded, a scan finds what a parameter says), the HTTP routes over the
  operations, the import of foreign databases and the reports, the tokio tasks and channels themselves
  (concurrent tasks are events of the run loop, steps of a relation, or run one after the other). Of the
  control plane: how a pane is captured and recognised (what a poll sees is a parameter), launching and
  arranging panes, recovery from transcripts, the programs that update the agents, the phases and the
  progress shown while an update runs, the timer of the periodic check and its time stamps. Of the project
  files: the search for the project root, the walk through directories, and Git. The terminal multiplexer
  commands, the web server, the configuration files and the user interface are process and
  network I/O.
\<close>

end
